(* ===== verification/Prelude.thy ===== *)
theory Prelude
  imports Main "HOL-Library.Char_ord"
begin

text \<open>
  Shared vocabulary of the development: instants and durations, identifiers, the
  pieces of Go's \<open>strings\<close>, \<open>strconv\<close> and \<open>fmt\<close> packages that the modelled
  code calls, and generic lemmas on lists and options.

  Strings are byte strings (\<^typ>\<open>string\<close>, a list of 8-bit characters), as Go's are.
  \<open>time.Time\<close> and \<open>time.Duration\<close> are integers counting nanoseconds; the zero
  \<open>time.Time\<close> (\<open>IsZero\<close>) is written as the value 0.
\<close>

named_theorems model_defs \<open>definitions unfolded by the component proofs\<close>
named_theorems frame_simps \<open>fields an operation leaves unchanged\<close>

section \<open>Types shared by the components\<close>

type_synonym id = int
type_synonym instant = int
type_synonym duration = int
type_synonym bytes = string

abbreviation second :: duration where "second \<equiv> 1000000000"
abbreviation minute :: duration where "minute \<equiv> 60 * second"
abbreviation hour :: duration where "hour \<equiv> 60 * minute"

section \<open>Go's strings package\<close>

definition has_prefix :: "string \<Rightarrow> string \<Rightarrow> bool" where
  "has_prefix s p \<longleftrightarrow> take (length p) s = p"

definition trim_prefix :: "string \<Rightarrow> string \<Rightarrow> string" where
  "trim_prefix s p = (if has_prefix s p then drop (length p) s else s)"

text \<open>\<open>strings.Cut(s, sep)\<close> for a one-byte separator.\<close>

fun cut_at :: "char \<Rightarrow> string \<Rightarrow> (string \<times> string) option" where
  "cut_at c [] = None"
| "cut_at c (x # xs) =
     (if x = c then Some ([], xs)
      else map_option (\<lambda>(a, b). (x # a, b)) (cut_at c xs))"

fun str_contains :: "string \<Rightarrow> string \<Rightarrow> bool" where
  "str_contains [] sub = (sub = [])"
| "str_contains (x # xs) sub = (has_prefix (x # xs) sub \<or> str_contains xs sub)"

definition lower_char :: "char \<Rightarrow> char" where
  "lower_char c =
     (let n = of_char c :: nat in if 65 \<le> n \<and> n \<le> 90 then char_of (n + 32) else c)"

definition to_lower :: "string \<Rightarrow> string" where
  "to_lower s = map lower_char s"

definition upper_char :: "char \<Rightarrow> char" where
  "upper_char c =
     (let n = of_char c :: nat in if 97 \<le> n \<and> n \<le> 122 then char_of (n - 32) else c)"

definition to_upper :: "string \<Rightarrow> string" where
  "to_upper s = map upper_char s"

text \<open>White space in the sense of \<open>strings.TrimSpace\<close>: tab to carriage return, and blank.\<close>

definition is_space :: "char \<Rightarrow> bool" where
  "is_space c \<longleftrightarrow> (let n = of_char c :: nat in n = 32 \<or> (9 \<le> n \<and> n \<le> 13))"

definition trim_left :: "string \<Rightarrow> string" where
  "trim_left s = dropWhile is_space s"

definition trim_space :: "string \<Rightarrow> string" where
  "trim_space s = rev (trim_left (rev (trim_left s)))"

definition equal_fold :: "string \<Rightarrow> string \<Rightarrow> bool" where
  "equal_fold s t \<longleftrightarrow> to_lower s = to_lower t"

fun split_on :: "char \<Rightarrow> string \<Rightarrow> string list" where
  "split_on c [] = [[]]"
| "split_on c (x # xs) =
     (if x = c then [] # split_on c xs
      else (case split_on c xs of [] \<Rightarrow> [[x]] | p # ps \<Rightarrow> (x # p) # ps))"

lemma has_prefix_append [simp]: "has_prefix (p @ s) p"
  by (simp add: has_prefix_def)

lemma has_prefix_iff: "has_prefix s p \<longleftrightarrow> (\<exists>r. s = p @ r)"
  by (metis append_take_drop_id has_prefix_append has_prefix_def)

lemma trim_prefix_append [simp]: "trim_prefix (p @ s) p = s"
  by (simp add: trim_prefix_def)

lemma cut_at_append [simp]:
  "c \<notin> set a \<Longrightarrow> cut_at c (a @ c # b) = Some (a, b)"
  by (induction a) auto

lemma split_on_nonempty [simp]: "split_on c s \<noteq> []"
  by (induction s) (auto split: list.splits)

lemma split_on_append: "split_on c (s @ c # t) = split_on c s @ split_on c t"
  by (induction s) (auto split: list.splits simp: neq_Nil_conv)

lemma split_on_whole [simp]: "c \<notin> set s \<Longrightarrow> split_on c s = [s]"
  by (induction s) auto

lemma split_on_parts: "x \<in> set (split_on c s) \<Longrightarrow> c \<notin> set x"
  by (induction s arbitrary: x) (auto split: list.splits if_splits)

lemma lower_char_idem [simp]: "lower_char (lower_char c) = lower_char c"
  by (auto simp: lower_char_def Let_def)

lemma to_lower_idem [simp]: "to_lower (to_lower s) = to_lower s"
  by (simp add: to_lower_def)

lemma trim_left_idem [simp]: "trim_left (trim_left s) = trim_left s"
  by (induction s) (auto simp: trim_left_def)

section \<open>Decimal numbers: fmt's verb d, strconv and fmt.Sscanf\<close>

definition is_digit :: "char \<Rightarrow> bool" where
  "is_digit c \<longleftrightarrow> (let n = of_char c :: nat in 48 \<le> n \<and> n \<le> 57)"

definition digit_char :: "nat \<Rightarrow> char" where
  "digit_char n = char_of (48 + n)"

definition digit_val :: "char \<Rightarrow> nat" where
  "digit_val c = of_char c - 48"

fun dec_nat :: "nat \<Rightarrow> string" where
  "dec_nat n =
     (if n < 10 then [digit_char n] else dec_nat (n div 10) @ [digit_char (n mod 10)])"

declare dec_nat.simps [simp del]

definition dec_int :: "int \<Rightarrow> string" where
  "dec_int i = (if i < 0 then CHR ''-'' # dec_nat (nat (- i)) else dec_nat (nat i))"

definition digits_val :: "string \<Rightarrow> nat" where
  "digits_val s = foldl (\<lambda>a c. 10 * a + digit_val c) 0 s"

text \<open>
  \<open>strconv.ParseInt(s, 10, bits)\<close> and \<open>strconv.Atoi\<close>: an optional sign, at least one
  digit, nothing else, and a value between the two bounds of the width.
\<close>

definition parse_digits :: "int \<Rightarrow> string \<Rightarrow> int option" where
  "parse_digits sg s =
     (if s \<noteq> [] \<and> list_all is_digit s then Some (sg * int (digits_val s)) else None)"

definition parse_int :: "nat \<Rightarrow> string \<Rightarrow> int option" where
  "parse_int bits s =
     (let r = (case s of
                 [] \<Rightarrow> None
               | c # cs \<Rightarrow>
                   if c = CHR ''-'' then parse_digits (- 1) cs
                   else if c = CHR ''+'' then parse_digits 1 cs
                   else parse_digits 1 s)
      in case r of
           None \<Rightarrow> None
         | Some v \<Rightarrow>
             if - (2 ^ (bits - 1)) \<le> v \<and> v < 2 ^ (bits - 1) then Some v else None)"

text \<open>
  \<open>fmt.Sscanf(s, "%d", &idx)\<close> into an \<open>int\<close>: blanks are skipped (a line break is an
  error), then an optional sign and the longest run of digits are read; what follows is
  ignored.
\<close>

definition scan_int :: "string \<Rightarrow> int option" where
  "scan_int s =
     (let t = dropWhile (\<lambda>c. is_space c \<and> c \<noteq> CHR 0x0A \<and> c \<noteq> CHR 0x0D) s
      in case t of
           [] \<Rightarrow> None
         | c # cs \<Rightarrow>
             if c = CHR ''-'' \<or> c = CHR ''+''
             then parse_int 64 (c # takeWhile is_digit cs)
             else parse_int 64 (takeWhile is_digit t))"

text \<open>The value a 64-bit \<open>int\<close> keeps of an unbounded result.\<close>

definition wrap64 :: "int \<Rightarrow> int" where
  "wrap64 i = (i + 2 ^ 63) mod 2 ^ 64 - 2 ^ 63"

text \<open>\<open>int32(i)\<close> of a wider integer.\<close>

definition to_int32 :: "int \<Rightarrow> int" where
  "to_int32 i = (i + 2 ^ 31) mod 2 ^ 32 - 2 ^ 31"

lemma wrap64_wrap64 [simp]: "wrap64 (wrap64 i) = wrap64 i"
  by (simp add: wrap64_def)

lemma wrap64_add [simp]:
  "wrap64 (wrap64 a + b) = wrap64 (a + b)" "wrap64 (a + wrap64 b) = wrap64 (a + b)"
proof -
  have e: "((x + m) mod n - m + y + m) mod n = (x + y + m) mod n" for x y m n :: int
    by (metis add.assoc add.commute diff_add_cancel mod_add_left_eq)
  show one: "wrap64 (wrap64 a + b) = wrap64 (a + b)" for a b
    unfolding wrap64_def by (simp only: e)
  show "wrap64 (a + wrap64 b) = wrap64 (a + b)"
    using one [of b a] by (simp only: add.commute)
qed

lemma wrap64_id [simp]: "- (2 ^ 63) \<le> i \<Longrightarrow> i < 2 ^ 63 \<Longrightarrow> wrap64 i = i"
  by (simp add: wrap64_def)

lemma of_char_digit [simp]: "n < 10 \<Longrightarrow> of_char (digit_char n) = 48 + n"
  by (simp add: digit_char_def)

lemma is_digit_digit [simp]: "n < 10 \<Longrightarrow> is_digit (digit_char n)"
  by (simp add: is_digit_def)

lemma digit_val_digit [simp]: "n < 10 \<Longrightarrow> digit_val (digit_char n) = n"
  by (simp add: digit_val_def)

lemma dec_nat_digits: "list_all is_digit (dec_nat n)"
proof (induction n rule: dec_nat.induct)
  case (1 n)
  then show ?case by (subst dec_nat.simps) simp
qed

lemma dec_nat_nonempty [simp]: "dec_nat n \<noteq> []"
  by (subst dec_nat.simps) simp

lemma digits_val_dec_nat [simp]: "digits_val (dec_nat n) = n"
proof (induction n rule: dec_nat.induct)
  case (1 n)
  show ?case
  proof (cases "n < 10")
    case True
    then show ?thesis by (subst dec_nat.simps) (simp add: digits_val_def)
  next
    case False
    with "1.IH" have "digits_val (dec_nat (n div 10)) = n div 10" by simp
    with False show ?thesis by (subst dec_nat.simps) (simp add: digits_val_def)
  qed
qed

lemma dec_nat_first: "dec_nat n = c # cs \<Longrightarrow> is_digit c"
  using dec_nat_digits [of n] by simp

lemma not_digit_sign [simp]: "\<not> is_digit (CHR ''-'')" "\<not> is_digit (CHR ''+'')"
  "\<not> is_digit (CHR '':'')"
  by (simp_all add: is_digit_def)

lemma parse_digits_dec_nat [simp]: "parse_digits s (dec_nat n) = Some (s * int n)"
  by (simp add: parse_digits_def dec_nat_digits)

lemma parse_int_dec_nat:
  assumes "int n < 2 ^ (bits - 1)"
  shows "parse_int bits (dec_nat n) = Some (int n)"
proof -
  obtain c cs where d: "dec_nat n = c # cs" by (cases "dec_nat n") auto
  then have "is_digit c" by (rule dec_nat_first)
  then have "c \<noteq> CHR ''-''" "c \<noteq> CHR ''+''" by auto
  moreover have "parse_digits 1 (c # cs) = Some (int n)"
    using parse_digits_dec_nat [of 1 n] by (simp add: d)
  moreover have "- (2 ^ (bits - 1)) \<le> int n"
    by (rule order_trans [of _ 0]) simp_all
  ultimately show ?thesis
    using assms by (simp add: parse_int_def d)
qed

lemma parse_int_dec_int:
  assumes "- (2 ^ (bits - 1)) \<le> i" and "i < 2 ^ (bits - 1)"
  shows "parse_int bits (dec_int i) = Some i"
proof (cases "i < 0")
  case True
  then show ?thesis using assms by (simp add: parse_int_def dec_int_def)
next
  case False
  then show ?thesis using assms parse_int_dec_nat [of "nat i" bits]
    by (simp add: dec_int_def)
qed

lemma dec_int_no_colon: "CHR '':'' \<notin> set (dec_int i)"
proof -
  have "CHR '':'' \<notin> set (dec_nat n)" for n
    using dec_nat_digits [of n] by (auto simp: list_all_iff)
  then show ?thesis by (auto simp: dec_int_def)
qed

lemma scan_int_dec_nat:
  assumes "int n < 2 ^ 63"
  shows "scan_int (dec_nat n) = Some (int n)"
proof -
  obtain c cs where d: "dec_nat n = c # cs" by (cases "dec_nat n") auto
  then have c: "is_digit c" by (rule dec_nat_first)
  then have "\<not> is_space c" by (auto simp: is_digit_def is_space_def Let_def)
  moreover have "c \<noteq> CHR ''-''" "c \<noteq> CHR ''+''" using c by auto
  moreover have "takeWhile is_digit (c # cs) = dec_nat n"
    using dec_nat_digits [of n] unfolding d by (simp add: list_all_iff takeWhile_eq_all_conv)
  ultimately show ?thesis
    using assms parse_int_dec_nat [of n 64] d by (simp add: scan_int_def)
qed

lemma scan_int_dec_int:
  assumes "0 \<le> i" and "i < 2 ^ 63"
  shows "scan_int (dec_int i) = Some i"
  using assms scan_int_dec_nat [of "nat i"] by (simp add: dec_int_def)

lemma dec_nat_inj [simp]: "dec_nat m = dec_nat n \<longleftrightarrow> m = n"
  by (metis digits_val_dec_nat)

lemma dec_int_minus: "dec_int i \<noteq> [] \<and> (hd (dec_int i) = CHR ''-'' \<longleftrightarrow> i < 0)"
proof -
  have "hd (dec_nat n) \<noteq> CHR ''-''" for n
  proof -
    obtain c cs where d: "dec_nat n = c # cs" by (cases "dec_nat n") auto
    then have "is_digit c" by (rule dec_nat_first)
    then show ?thesis using d by auto
  qed
  then show ?thesis by (simp add: dec_int_def)
qed

lemma dec_int_inj [simp]: "dec_int i = dec_int j \<longleftrightarrow> i = j"
proof
  assume eq: "dec_int i = dec_int j"
  then have "i < 0 \<longleftrightarrow> j < 0" using dec_int_minus [of i] dec_int_minus [of j] by simp
  then show "i = j"
    using eq by (cases "i < 0") (simp_all add: dec_int_def)
qed simp

lemma trim_space_idem [simp]: "trim_space (trim_space s) = trim_space s"
proof -
  have last: "xs \<noteq> [] \<Longrightarrow> \<not> is_space (hd xs) \<Longrightarrow> trim_left xs = xs" for xs
    by (cases xs) (auto simp: trim_left_def)
  have hd: "trim_left xs \<noteq> [] \<Longrightarrow> \<not> is_space (hd (trim_left xs))" for xs
    unfolding trim_left_def by (rule hd_dropWhile)
  have "trim_left (rev (trim_left (rev (trim_left s)))) = rev (trim_left (rev (trim_left s)))"
  proof (cases "trim_left (rev (trim_left s)) = []")
    case False
    then have "trim_left s \<noteq> []" by (metis dropWhile.simps(1) rev.simps(1) trim_left_def)
    then have "\<not> is_space (hd (trim_left s))" by (rule hd)
    moreover obtain pre where "rev (trim_left s) = pre @ trim_left (rev (trim_left s))"
      unfolding trim_left_def by (metis takeWhile_dropWhile_id)
    then have "trim_left s = rev (trim_left (rev (trim_left s))) @ rev pre"
      by (metis rev_append rev_rev_ident)
    ultimately have "\<not> is_space (hd (rev (trim_left (rev (trim_left s)))))"
      using False by (metis hd_append2 rev_is_Nil_conv)
    with False show ?thesis by (intro last) simp_all
  next
    case True
    then show ?thesis by (simp only: rev.simps) (simp add: trim_left_def)
  qed
  then show ?thesis by (simp add: trim_space_def)
qed

section \<open>Generic list lemmas\<close>

lemma find_Some_D: "List.find p xs = Some x \<Longrightarrow> x \<in> set xs \<and> p x"
  by (auto simp: find_Some_iff)

lemma find_map_cong:
  "(\<And>x. x \<in> set xs \<Longrightarrow> p (f x) = q x) \<Longrightarrow>
   List.find p (map f xs) = map_option f (List.find q xs)"
  by (induction xs) auto

lemma find_append_left: "List.find p xs = Some x \<Longrightarrow> List.find p (xs @ ys) = Some x"
  by (induction xs) (auto split: if_splits)

lemma find_append_right:
  "List.find p xs = None \<Longrightarrow> List.find p (xs @ [y]) = (if p y then Some y else None)"
  by (induction xs) (auto split: if_splits)

lemma takeWhile_eq_self: "(\<And>x. x \<in> set xs \<Longrightarrow> p x) \<Longrightarrow> takeWhile p xs = xs"
  by (simp add: takeWhile_eq_all_conv)

end
