(* ===== verification/Base64.thy ===== *)
theory Base64
  imports Prelude
begin

text \<open>
  \<open>base64.StdEncoding\<close> of Go's standard library, which the secrets package stores
  ciphertext with: padded encoding in the standard alphabet; the decoder skips line breaks,
  insists on the padding and, not being \<open>Strict\<close>, ignores the unused bits of a final group.
\<close>

section \<open>The alphabet\<close>

definition b64_alphabet :: string where
  "b64_alphabet = ''ABCDEFGHIJKLMNOPQRSTUVWXYZabcdefghijklmnopqrstuvwxyz0123456789+/''"

definition b64_char :: "nat \<Rightarrow> char" where
  "b64_char n = b64_alphabet ! n"

definition b64_val :: "char \<Rightarrow> nat option" where
  "b64_val c =
     (let n = of_char c :: nat
      in if 65 \<le> n \<and> n \<le> 90 then Some (n - 65)
         else if 97 \<le> n \<and> n \<le> 122 then Some (n - 71)
         else if 48 \<le> n \<and> n \<le> 57 then Some (n + 4)
         else if n = 43 then Some 62
         else if n = 47 then Some 63
         else None)"

definition byte :: "nat \<Rightarrow> char" where
  "byte n = char_of (n mod 256)"

section \<open>Encoder and decoder\<close>

fun b64_encode :: "bytes \<Rightarrow> string" where
  "b64_encode [] = []"
| "b64_encode [a] =
     (let x = of_char a in [b64_char (x div 4), b64_char (x mod 4 * 16), CHR ''='', CHR ''=''])"
| "b64_encode [a, b] =
     (let x = of_char a; y = of_char b
      in [b64_char (x div 4), b64_char (x mod 4 * 16 + y div 16), b64_char (y mod 16 * 4),
          CHR ''=''])"
| "b64_encode (a # b # c # r) =
     (let x = of_char a; y = of_char b; z = of_char c
      in b64_char (x div 4) # b64_char (x mod 4 * 16 + y div 16) #
         b64_char (y mod 16 * 4 + z div 64) # b64_char (z mod 64) # b64_encode r)"

definition quad1 :: "char \<Rightarrow> char \<Rightarrow> bytes option" where
  "quad1 a b =
     (case (b64_val a, b64_val b) of
        (Some p, Some q) \<Rightarrow> Some [byte (p * 4 + q div 16)]
      | _ \<Rightarrow> None)"

definition quad2 :: "char \<Rightarrow> char \<Rightarrow> char \<Rightarrow> bytes option" where
  "quad2 a b c =
     (case (b64_val a, b64_val b, b64_val c) of
        (Some p, Some q, Some r) \<Rightarrow> Some [byte (p * 4 + q div 16), byte (q mod 16 * 16 + r div 4)]
      | _ \<Rightarrow> None)"

definition quad3 :: "char \<Rightarrow> char \<Rightarrow> char \<Rightarrow> char \<Rightarrow> bytes option" where
  "quad3 a b c d =
     (case (b64_val a, b64_val b, b64_val c, b64_val d) of
        (Some p, Some q, Some r, Some s) \<Rightarrow>
          Some [byte (p * 4 + q div 16), byte (q mod 16 * 16 + r div 4), byte (r mod 4 * 64 + s)]
      | _ \<Rightarrow> None)"

fun b64_groups :: "string \<Rightarrow> bytes option" where
  "b64_groups [] = Some []"
| "b64_groups (a # b # c # d # r) =
     (if r = [] \<and> d = CHR ''='' then (if c = CHR ''='' then quad1 a b else quad2 a b c)
      else (case quad3 a b c d of
              None \<Rightarrow> None
            | Some x \<Rightarrow> map_option ((@) x) (b64_groups r)))"
| "b64_groups _ = None"

definition b64_decode :: "string \<Rightarrow> bytes option" where
  "b64_decode s = b64_groups (filter (\<lambda>c. c \<noteq> CHR 0x0A \<and> c \<noteq> CHR 0x0D) s)"

section \<open>Round trip\<close>

lemma b64_table: "map b64_val b64_alphabet = map Some [0..<64]"
  by (simp add: b64_val_def b64_alphabet_def upt_rec)

lemma b64_plain_table:
  "\<forall>c \<in> set b64_alphabet. c \<noteq> CHR ''='' \<and> c \<noteq> CHR 0x0A \<and> c \<noteq> CHR 0x0D"
  by (simp add: b64_alphabet_def)

lemma length_b64_alphabet: "length b64_alphabet = 64"
  using arg_cong [OF b64_table, of length] by simp

lemma b64_char_in: "n < 64 \<Longrightarrow> b64_char n \<in> set b64_alphabet"
  by (simp add: b64_char_def length_b64_alphabet)

lemma b64_digit:
  assumes "n < 64"
  shows "b64_val (b64_char n) = Some n" "b64_char n \<noteq> CHR ''=''" "b64_char n \<noteq> CHR 0x0A"
    "b64_char n \<noteq> CHR 0x0D"
proof -
  have "map b64_val b64_alphabet ! n = map Some [0..<64] ! n" by (simp only: b64_table)
  with assms show "b64_val (b64_char n) = Some n"
    by (simp add: b64_char_def length_b64_alphabet)
  from bspec [OF b64_plain_table b64_char_in [OF assms]]
  show "b64_char n \<noteq> CHR ''=''" "b64_char n \<noteq> CHR 0x0A" "b64_char n \<noteq> CHR 0x0D" by blast+
qed

lemmas b64_val_char = b64_digit(1)
lemmas b64_char_plain = b64_digit(2-4)

lemma byte_of_char [simp]: "byte (of_char c) = c"
  by (simp add: byte_def)

lemma of_char_bound [simp]: "(of_char c :: nat) < 256"
  by simp

lemma div_digit:
  fixes r k q :: nat
  shows "r < k \<Longrightarrow> (q * k + r) div k = q" "r < k \<Longrightarrow> (q * k + r) mod k = r"
  by simp_all

lemma sextet_bounds:
  assumes "x < 256" "y < 256" "z < (256::nat)"
  shows "x div 4 < 64" "x mod 4 * 16 < 64" "x mod 4 * 16 + y div 16 < 64"
    "y mod 16 * 4 < 64" "y mod 16 * 4 + z div 64 < 64" "z mod 64 < 64"
proof -
  have "x mod 4 < 4" "y mod 16 < 16" "z mod 64 < 64" by simp_all
  moreover have "x div 4 < 64" "y div 16 < 16" "z div 64 < 4" using assms by simp_all
  ultimately show "x div 4 < 64" "x mod 4 * 16 < 64" "x mod 4 * 16 + y div 16 < 64"
    "y mod 16 * 4 < 64" "y mod 16 * 4 + z div 64 < 64" "z mod 64 < 64" by linarith+
qed

lemma sextet_join:
  assumes "x < 256" "y < 256" "z < (256::nat)"
  shows "x div 4 * 4 + x mod 4 * 16 div 16 = x"
    "x div 4 * 4 + (x mod 4 * 16 + y div 16) div 16 = x"
    "(x mod 4 * 16 + y div 16) mod 16 * 16 + y mod 16 * 4 div 4 = y"
    "(x mod 4 * 16 + y div 16) mod 16 * 16 + (y mod 16 * 4 + z div 64) div 4 = y"
    "(y mod 16 * 4 + z div 64) mod 4 * 64 + z mod 64 = z"
proof -
  have "y div 16 < 16" "z div 64 < 4" using assms by simp_all
  then have "(x mod 4 * 16 + y div 16) div 16 = x mod 4" "(x mod 4 * 16 + y div 16) mod 16 = y div 16"
    "(y mod 16 * 4 + z div 64) div 4 = y mod 16" "(y mod 16 * 4 + z div 64) mod 4 = z div 64"
    by (simp_all only: div_digit)
  then show "x div 4 * 4 + x mod 4 * 16 div 16 = x"
    "x div 4 * 4 + (x mod 4 * 16 + y div 16) div 16 = x"
    "(x mod 4 * 16 + y div 16) mod 16 * 16 + y mod 16 * 4 div 4 = y"
    "(x mod 4 * 16 + y div 16) mod 16 * 16 + (y mod 16 * 4 + z div 64) div 4 = y"
    "(y mod 16 * 4 + z div 64) mod 4 * 64 + z mod 64 = z"
    by simp_all
qed

lemmas byte_bounds = sextet_bounds [OF of_char_bound of_char_bound of_char_bound]
lemmas byte_joins = sextet_join [OF of_char_bound of_char_bound of_char_bound]

lemma quads_encoded:
  fixes a b c :: char
  defines "x \<equiv> of_char a" and "y \<equiv> of_char b" and "z \<equiv> of_char c"
  shows "quad1 (b64_char (x div 4)) (b64_char (x mod 4 * 16)) = Some [a]"
    and "quad2 (b64_char (x div 4)) (b64_char (x mod 4 * 16 + y div 16))
           (b64_char (y mod 16 * 4)) = Some [a, b]"
    and "quad3 (b64_char (x div 4)) (b64_char (x mod 4 * 16 + y div 16))
           (b64_char (y mod 16 * 4 + z div 64)) (b64_char (z mod 64)) = Some [a, b, c]"
  unfolding quad1_def quad2_def quad3_def x_def y_def z_def
  by (simp_all only: b64_val_char [OF byte_bounds(1)] b64_val_char [OF byte_bounds(2)]
        b64_val_char [OF byte_bounds(3)] b64_val_char [OF byte_bounds(4)]
        b64_val_char [OF byte_bounds(5)] b64_val_char [OF byte_bounds(6)]
        byte_joins byte_of_char option.case prod.case)

lemmas plain_digits =
  b64_char_plain [OF byte_bounds(1)] b64_char_plain [OF byte_bounds(2)]
  b64_char_plain [OF byte_bounds(3)] b64_char_plain [OF byte_bounds(4)]
  b64_char_plain [OF byte_bounds(5)] b64_char_plain [OF byte_bounds(6)]

lemma b64_groups_encode: "b64_groups (b64_encode s) = Some s"
proof (induction s rule: b64_encode.induct)
  case (4 a b c r)
  have "b64_groups (b64_encode (a # b # c # r)) =
      map_option ((@) [a, b, c]) (b64_groups (b64_encode r))"
    unfolding b64_encode.simps Let_def b64_groups.simps quads_encoded
    by (simp only: plain_digits simp_thms if_False option.case)
  with 4 show ?case by simp
next
  case (3 a b)
  show ?case
    unfolding b64_encode.simps Let_def b64_groups.simps quads_encoded
    by (simp only: plain_digits simp_thms if_False if_True)
next
  case (2 a)
  show ?case
    unfolding b64_encode.simps Let_def b64_groups.simps quads_encoded
    by (simp only: plain_digits simp_thms if_False if_True)
qed simp

lemma set_b64_encode: "set (b64_encode s) \<subseteq> insert (CHR ''='') (set b64_alphabet)"
proof (induction s rule: b64_encode.induct)
  case (4 x y z r)
  then show ?case
    unfolding b64_encode.simps Let_def using byte_bounds [THEN b64_char_in] by simp
next
  case (3 x y)
  then show ?case
    unfolding b64_encode.simps Let_def using byte_bounds [THEN b64_char_in] by simp
next
  case (2 x)
  then show ?case
    unfolding b64_encode.simps Let_def using byte_bounds [THEN b64_char_in] by simp
qed simp

lemma b64_encode_no_breaks:
  "c \<in> set (b64_encode s) \<Longrightarrow> c \<noteq> CHR 0x0A \<and> c \<noteq> CHR 0x0D"
  using set_b64_encode [of s] b64_plain_table by auto

lemma b64_roundtrip [simp]: "b64_decode (b64_encode s) = Some s"
proof -
  have "filter (\<lambda>c. c \<noteq> CHR 0x0A \<and> c \<noteq> CHR 0x0D) (b64_encode s) = b64_encode s"
    by (simp add: filter_id_conv b64_encode_no_breaks)
  then show ?thesis by (simp add: b64_decode_def b64_groups_encode)
qed

lemma b64_example: "b64_encode ''Man!'' = ''TWFuIQ=='' \<and> b64_decode ''TWFuIQ=='' = Some ''Man!''"
  by code_simp

end
