(* ===== verification/Run_Tokens.thy ===== *)
theory Run_Tokens
  imports Base64
begin

text \<open>
  The bearer tokens of agent runs (\<open>pkg/runtokens\<close>): the engine mints one when a run starts
  and revokes it when the run ends, and the gateway resolves a presented token to its run.
  The registry keeps hashes only, by hash and by run.  SHA-256 is a parameter; that it does
  not collide on the tokens at hand, and that two mints never draw the same bytes, are
  hypotheses of the theorem.

  The contract is a map from each run to the one token it currently holds; the registry
  refines it.
\<close>

section \<open>Token text and hash\<close>

definition b64_raw_url :: "bytes \<Rightarrow> string" where
  "b64_raw_url s =
     map (\<lambda>c. if c = CHR ''+'' then CHR ''-'' else if c = CHR ''/'' then CHR ''_'' else c)
       (filter (\<lambda>c. c \<noteq> CHR ''='') (b64_encode s))"

definition hex_digit :: "nat \<Rightarrow> char" where
  "hex_digit n = ''0123456789abcdef'' ! n"

definition hex_encode :: "bytes \<Rightarrow> string" where
  "hex_encode s =
     concat (map (\<lambda>c. let n = of_char c in [hex_digit (n div 16), hex_digit (n mod 16)]) s)"

lemma hex_digit_inj: "m < 16 \<Longrightarrow> n < 16 \<Longrightarrow> hex_digit m = hex_digit n \<longleftrightarrow> m = n"
  unfolding hex_digit_def by (rule nth_eq_iff_index_eq) simp_all

lemma hex_encode_inj [simp]: "hex_encode s = hex_encode t \<longleftrightarrow> s = t"
proof (induction s arbitrary: t)
  case Nil
  then show ?case by (cases t) (simp_all add: hex_encode_def Let_def)
next
  case (Cons c s)
  have byte: "hex_digit (of_char c div 16) = hex_digit (of_char d div 16) \<and>
      hex_digit (of_char c mod 16) = hex_digit (of_char d mod 16) \<longleftrightarrow> c = d" for c d
  proof
    assume eq: "hex_digit (of_char c div 16) = hex_digit (of_char d div 16) \<and>
      hex_digit (of_char c mod 16) = hex_digit (of_char d mod 16)"
    have "(of_char c :: nat) div 16 < 16" "(of_char d :: nat) div 16 < 16"
      by (rule less_mult_imp_div_less, simp)+
    with eq have "(of_char c :: nat) div 16 = of_char d div 16" "(of_char c :: nat) mod 16 = of_char d mod 16"
      by (simp_all add: hex_digit_inj)
    then have "(of_char c :: nat) = of_char d" by (metis div_mult_mod_eq)
    then show "c = d" by simp
  qed simp
  show ?case
    by (cases t) (use Cons byte in \<open>auto simp: hex_encode_def Let_def\<close>)
qed

definition hash_token :: "(bytes \<Rightarrow> bytes) \<Rightarrow> string \<Rightarrow> string" where
  "hash_token sha t = hex_encode (sha t)"

definition token_text :: "bytes \<Rightarrow> string" where
  "token_text rnd = ''rt_'' @ b64_raw_url rnd"

section \<open>The registry\<close>

record registry =
  by_hash :: "string \<Rightarrow> id option"
  by_run :: "id \<Rightarrow> string option"

definition new_registry :: registry where
  "new_registry = \<lparr>by_hash = Map.empty, by_run = Map.empty\<rparr>"

text \<open>\<open>rnd\<close> is what \<open>crypto/rand\<close> returned, \<open>None\<close> for its error.\<close>

definition issue ::
  "(bytes \<Rightarrow> bytes) \<Rightarrow> bytes option \<Rightarrow> id \<Rightarrow> registry \<Rightarrow> string \<times> registry" where
  "issue sha rnd run g =
     (case rnd of
        None \<Rightarrow> ([], g)
      | Some b \<Rightarrow>
          let token = token_text b;
              h = hash_token sha token;
              kept = (case by_run g run of
                        Some old \<Rightarrow> (by_hash g)(old := None) | None \<Rightarrow> by_hash g)
          in (token, \<lparr>by_hash = kept(h \<mapsto> run), by_run = (by_run g)(run \<mapsto> h)\<rparr>))"

definition validate :: "(bytes \<Rightarrow> bytes) \<Rightarrow> string \<Rightarrow> registry \<Rightarrow> id option" where
  "validate sha token g =
     (if token = [] then None else by_hash g (hash_token sha token))"

definition revoke :: "id \<Rightarrow> registry \<Rightarrow> registry" where
  "revoke run g =
     (case by_run g run of
        Some h \<Rightarrow> \<lparr>by_hash = (by_hash g)(h := None), by_run = (by_run g)(run := None)\<rparr>
      | None \<Rightarrow> g)"

datatype token_op = Issue "bytes option" id | Revoke_Run id

fun token_exec :: "(bytes \<Rightarrow> bytes) \<Rightarrow> token_op \<Rightarrow> registry \<Rightarrow> registry" where
  "token_exec sha (Issue rnd run) g = snd (issue sha rnd run g)"
| "token_exec sha (Revoke_Run run) g = revoke run g"

definition token_run :: "(bytes \<Rightarrow> bytes) \<Rightarrow> token_op list \<Rightarrow> registry" where
  "token_run sha ops = fold (token_exec sha) ops new_registry"

section \<open>The contract\<close>

fun minted_by :: "token_op \<Rightarrow> string list" where
  "minted_by (Issue (Some b) run) = [token_text b]"
| "minted_by _ = []"

definition minted :: "token_op list \<Rightarrow> string list" where
  "minted ops = concat (map minted_by ops)"

fun grant_step :: "token_op \<Rightarrow> (id \<Rightarrow> string option) \<Rightarrow> id \<Rightarrow> string option" where
  "grant_step (Issue (Some b) run) g = g(run \<mapsto> token_text b)"
| "grant_step (Issue None run) g = g"
| "grant_step (Revoke_Run run) g = g(run := None)"

definition granted :: "token_op list \<Rightarrow> id \<Rightarrow> string option" where
  "granted ops = fold grant_step ops Map.empty"

definition refines_grants ::
  "(bytes \<Rightarrow> bytes) \<Rightarrow> (id \<Rightarrow> string option) \<Rightarrow> registry \<Rightarrow> bool" where
  "refines_grants sha gr g \<longleftrightarrow>
     (\<forall>r. by_run g r = map_option (hash_token sha) (gr r)) \<and>
     (\<forall>h r. by_hash g h = Some r \<longleftrightarrow> by_run g r = Some h)"

lemma token_text_nonempty [simp]: "token_text b \<noteq> []"
  by (simp add: token_text_def)

lemma minted_nonempty [simp]: "[] \<notin> set (minted ops)"
proof -
  have "[] \<notin> set (minted_by op)" for op by (cases op rule: minted_by.cases) (simp_all add: token_text_def)
  then show ?thesis by (auto simp: minted_def)
qed

lemma granted_minted: "granted ops r = Some t \<Longrightarrow> t \<in> set (minted ops)"
proof (induction ops arbitrary: r t rule: rev_induct)
  case Nil
  then show ?case by (simp add: granted_def)
next
  case (snoc op ops)
  show ?case
  proof (cases op)
    case (Issue rnd run)
    with snoc show ?thesis
      by (cases rnd) (auto simp: granted_def minted_def split: if_splits)
  next
    case (Revoke_Run run)
    with snoc show ?thesis by (auto simp: granted_def minted_def split: if_splits)
  qed
qed

lemma refines_issue:
  assumes "refines_grants sha gr g"
    and "\<And>r. gr r \<noteq> None \<Longrightarrow> hash_token sha (the (gr r)) \<noteq> hash_token sha (token_text b)"
  shows "refines_grants sha (gr(run \<mapsto> token_text b)) (snd (issue sha (Some b) run g))"
proof -
  have run: "by_run g r = map_option (hash_token sha) (gr r)" for r
    using assms(1) by (simp add: refines_grants_def)
  have hash: "by_hash g h = Some r \<longleftrightarrow> by_run g r = Some h" for h r
    using assms(1) by (simp add: refines_grants_def)
  have fresh: "by_run g r \<noteq> Some (hash_token sha (token_text b))" for r
    using assms(2) [of r] by (auto simp: run)
  define H where "H = hash_token sha (token_text b)"
  define g' where "g' = snd (issue sha (Some b) run g)"
  have r': "by_run g' r = (if r = run then Some H else by_run g r)" for r
    by (simp add: g'_def issue_def Let_def H_def)
  have h': "by_hash g' h =
      (if h = H then Some run else if by_run g run = Some h then None else by_hash g h)" for h
    by (auto simp: g'_def issue_def Let_def H_def split: option.split)
  have "by_hash g' h = Some r \<longleftrightarrow> by_run g' r = Some h" for h r
    using hash [of h r] hash [of h run] fresh [of r] by (auto simp: r' h' H_def)
  moreover have "by_run g' r = map_option (hash_token sha) ((gr(run \<mapsto> token_text b)) r)" for r
    by (simp add: r' H_def run)
  ultimately show ?thesis by (simp add: refines_grants_def g'_def)
qed

lemma refines_revoke:
  assumes "refines_grants sha gr g"
  shows "refines_grants sha (gr(run := None)) (revoke run g)"
proof (cases "by_run g run")
  case None
  then show ?thesis using assms by (auto simp: refines_grants_def revoke_def)
next
  case (Some old)
  have hash: "by_hash g h = Some r \<longleftrightarrow> by_run g r = Some h" for h r
    using assms by (simp add: refines_grants_def)
  have "by_hash (revoke run g) h = Some r \<longleftrightarrow> by_run (revoke run g) r = Some h" for h r
    using hash [of h r] hash [of h run] Some by (auto simp: revoke_def)
  moreover have run: "by_run g r = map_option (hash_token sha) (gr r)" for r
    using assms by (simp add: refines_grants_def)
  have "by_run (revoke run g) r = (if r = run then None else by_run g r)" for r
    using Some by (simp add: revoke_def)
  then have "by_run (revoke run g) r = map_option (hash_token sha) ((gr(run := None)) r)" for r
    by (simp add: run)
  ultimately show ?thesis by (simp add: refines_grants_def)
qed

lemma refines_run:
  assumes "distinct (minted ops)" and "inj_on (hash_token sha) (set (minted ops))"
  shows "refines_grants sha (granted ops) (token_run sha ops)"
  using assms
proof (induction ops rule: rev_induct)
  case Nil
  then show ?case by (simp add: refines_grants_def granted_def token_run_def new_registry_def)
next
  case (snoc op ops)
  have m: "minted (ops @ [op]) = minted ops @ minted_by op" by (simp add: minted_def)
  have prior: "refines_grants sha (granted ops) (token_run sha ops)"
    using snoc.prems by (intro snoc.IH) (auto simp: m intro: inj_on_subset)
  show ?case
  proof (cases op)
    case (Revoke_Run run)
    with refines_revoke [OF prior, of run] show ?thesis
      by (simp add: granted_def token_run_def fun_upd_def)
  next
    case (Issue rnd run)
    show ?thesis
    proof (cases rnd)
      case None
      with Issue prior show ?thesis by (simp add: granted_def token_run_def issue_def)
    next
      case (Some b)
      have "hash_token sha (the (granted ops r)) \<noteq> hash_token sha (token_text b)"
        if some: "granted ops r \<noteq> None" for r
      proof -
        obtain t where t: "granted ops r = Some t" using some by blast
        then have "t \<in> set (minted ops)" by (rule granted_minted)
        then have "t \<noteq> token_text b" "t \<in> set (minted (ops @ [op]))"
            "token_text b \<in> set (minted (ops @ [op]))"
          using snoc.prems(1) Issue Some m by auto
        then show ?thesis using snoc.prems(2) t by (auto dest: inj_onD)
      qed
      from refines_issue [OF prior this, of run] Issue Some show ?thesis
        by (simp add: granted_def token_run_def fun_upd_def)
    qed
  qed
qed

section \<open>Properties\<close>

text \<open>
  C33: a presented token resolves to a run exactly when it is the token minted last for that
  run and the run has not been revoked since: reissuing and revoking leave no other token
  usable, and no token resolves to two runs.
\<close>

theorem token_is_current_grant:
  assumes "distinct (minted ops)"
    and "inj_on (hash_token sha) (insert token (set (minted ops)))"
  shows "validate sha token (token_run sha ops) = Some run \<longleftrightarrow> granted ops run = Some token"
proof -
  have "refines_grants sha (granted ops) (token_run sha ops)"
    using assms by (intro refines_run) (auto intro: inj_on_subset)
  then have by_hash: "by_hash (token_run sha ops) h = Some run \<longleftrightarrow>
      map_option (hash_token sha) (granted ops run) = Some h" for h
    by (simp add: refines_grants_def)
  have "hash_token sha t = hash_token sha token \<longleftrightarrow> t = token" if "granted ops run = Some t" for t
    using inj_on_eq_iff [OF assms(2), of t token] granted_minted [OF that] by simp
  moreover have "granted ops run \<noteq> Some []"
    using granted_minted [of ops run "[]"] by auto
  ultimately show ?thesis
    by (cases "granted ops run") (auto simp: validate_def by_hash)
qed

theorem token_is_current_grant_witness:
  "let ops = [Issue (Some ''ab'') 7, Issue (Some ''cd'') 9, Issue (Some ''ef'') 7, Revoke_Run 9];
       g = token_run id ops
   in validate id (token_text ''ef'') g = Some 7 \<and> validate id (token_text ''ab'') g \<noteq> Some 7 \<and>
      validate id (token_text ''cd'') g \<noteq> Some 9"
proof -
  define ops where "ops = [Issue (Some ''ab'') 7, Issue (Some ''cd'') 9, Issue (Some ''ef'') 7,
    Revoke_Run 9]"
  have texts: "token_text ''ab'' = ''rt_YWI''" "token_text ''cd'' = ''rt_Y2Q''"
      "token_text ''ef'' = ''rt_ZWY''"
    by (simp_all add: token_text_def b64_raw_url_def b64_char_def b64_alphabet_def)
  have m: "minted ops = [''rt_YWI'', ''rt_Y2Q'', ''rt_ZWY'']"
    by (simp add: minted_def ops_def texts)
  have d: "distinct (minted ops)" by (simp add: m)
  have i: "inj_on (hash_token id) (insert t (set (minted ops)))"
    if "t \<in> set (minted ops)" for t
    using that
    by (auto simp: m inj_on_def hash_token_def hex_encode_def hex_digit_def)
  have g: "granted ops 7 = Some ''rt_ZWY''" "granted ops 9 = None"
    by (simp_all add: granted_def ops_def texts)
  show ?thesis
    unfolding Let_def ops_def [symmetric] texts
    using token_is_current_grant [OF d i, of "''rt_ZWY''" 7]
      token_is_current_grant [OF d i, of "''rt_YWI''" 7]
      token_is_current_grant [OF d i, of "''rt_Y2Q''" 9]
    by (simp add: m g)
qed

end
