(* ===== verification/Db_Table.thy ===== *)
theory Db_Table
  imports Prelude
begin

text \<open>
  The relational store the repositories of \<open>db/repository\<close> are written against.  A table
  is its rows in primary-key order plus the next key of its auto-increment column; a
  query is the predicate its SQL text spells out.  \<open>First\<close> returns the matching row of the
  smallest key, \<open>Find\<close> every matching row in key order, \<open>Create\<close> appends a row under the
  next key, \<open>Update\<close>/\<open>Updates\<close> rewrites the matching rows and reports how many there were
  (\<open>RowsAffected\<close>), \<open>Delete\<close> drops them.

  A statement may fail.  Each operation takes a fault plan saying which of its
  statements, counted in program order, the database refuses; a transaction whose body
  ends in an error, or whose commit is refused, leaves the store as it found it.

  The locale \<open>keyed_rows\<close> is the contract of a row type with a primary key; the locale
  \<open>one_shot\<close> is the contract of the conditional updates (\<open>... AND used_at IS NULL\<close>,
  \<open>... AND run_id IS NULL\<close>) by which several repositories hand out something exactly once.
\<close>

section \<open>Tables\<close>

record 'r table =
  rows :: "'r list"
  next_key :: int

definition empty_table :: "'r table" where
  "empty_table = \<lparr>rows = [], next_key = 1\<rparr>"

definition tbl_first :: "('r \<Rightarrow> bool) \<Rightarrow> 'r table \<Rightarrow> 'r option" where
  "tbl_first p t = List.find p (rows t)"

definition tbl_find :: "('r \<Rightarrow> bool) \<Rightarrow> 'r table \<Rightarrow> 'r list" where
  "tbl_find p t = filter p (rows t)"

definition tbl_create :: "(int \<Rightarrow> 'r \<Rightarrow> 'r) \<Rightarrow> 'r \<Rightarrow> 'r table \<Rightarrow> 'r \<times> 'r table" where
  "tbl_create set_key r t =
     (let r' = set_key (next_key t) r
      in (r', t\<lparr>rows := rows t @ [r'], next_key := next_key t + 1\<rparr>))"

definition tbl_update :: "('r \<Rightarrow> bool) \<Rightarrow> ('r \<Rightarrow> 'r) \<Rightarrow> 'r table \<Rightarrow> 'r table" where
  "tbl_update p f t = t\<lparr>rows := map (\<lambda>r. if p r then f r else r) (rows t)\<rparr>"

definition tbl_affected :: "('r \<Rightarrow> bool) \<Rightarrow> 'r table \<Rightarrow> nat" where
  "tbl_affected p t = length (filter p (rows t))"

definition tbl_delete :: "('r \<Rightarrow> bool) \<Rightarrow> 'r table \<Rightarrow> 'r table" where
  "tbl_delete p t = t\<lparr>rows := filter (\<lambda>r. \<not> p r) (rows t)\<rparr>"

text \<open>
  \<open>Save\<close> of a row with a key: an update of all its columns, or an insertion under that key
  when no such row exists.
\<close>

definition tbl_save :: "('r \<Rightarrow> int) \<Rightarrow> 'r \<Rightarrow> 'r table \<Rightarrow> 'r table" where
  "tbl_save key x t =
     (if \<exists>r \<in> set (rows t). key r = key x
      then t\<lparr>rows := map (\<lambda>r. if key r = key x then x else r) (rows t)\<rparr>
      else t\<lparr>rows := takeWhile (\<lambda>r. key r < key x) (rows t) @ x #
                     dropWhile (\<lambda>r. key r < key x) (rows t),
             next_key := max (next_key t) (key x + 1)\<rparr>)"

section \<open>Errors, faults and transactions\<close>

text \<open>
  \<open>DbFault\<close> is an error of the database itself, \<open>NotFound\<close> is
  \<open>gorm.ErrRecordNotFound\<close>, \<open>Refused e\<close> an error the repository raises.
\<close>

datatype 'e dberr = DbFault | NotFound | Refused 'e

type_synonym faults = "nat \<Rightarrow> bool"

abbreviation no_faults :: faults where "no_faults \<equiv> \<lambda>_. False"

type_synonym ('s, 'e, 'a) db_op = "'s \<Rightarrow> ('e dberr + 'a) \<times> 's"

definition transaction :: "bool \<Rightarrow> ('s, 'e, 'a) db_op \<Rightarrow> ('s, 'e, 'a) db_op" where
  "transaction commit_fails body s =
     (case body s of
        (Inl e, _) \<Rightarrow> (Inl e, s)
      | (Inr a, s') \<Rightarrow> if commit_fails then (Inl DbFault, s) else (Inr a, s'))"

text \<open>A failed transaction changes nothing; a successful one is its body.\<close>

lemma transaction_error_frame:
  "transaction cf body s = (Inl e, s') \<Longrightarrow> s' = s"
  by (auto simp: transaction_def split: prod.splits sum.splits if_splits)

lemma transaction_success_body:
  "transaction cf body s = (Inr a, s') \<longleftrightarrow> \<not> cf \<and> body s = (Inr a, s')"
  by (auto simp: transaction_def split: prod.splits sum.splits if_splits)

lemma transaction_preserves:
  assumes "I s"
    and "\<And>a s'. body s = (Inr a, s') \<Longrightarrow> I s'"
  shows "I (snd (transaction cf body s))"
  using assms by (auto simp: transaction_def split: prod.splits sum.splits)

section \<open>Rows and operations\<close>

lemma rows_tbl_update [simp]:
  "rows (tbl_update p f t) = map (\<lambda>r. if p r then f r else r) (rows t)"
  by (simp add: tbl_update_def)

lemma rows_tbl_delete [simp]: "rows (tbl_delete p t) = filter (\<lambda>r. \<not> p r) (rows t)"
  by (simp add: tbl_delete_def)

lemma rows_tbl_create [simp]:
  "rows (snd (tbl_create sk r t)) = rows t @ [sk (next_key t) r]"
  by (simp add: tbl_create_def Let_def)

lemma fst_tbl_create [simp]: "fst (tbl_create sk r t) = sk (next_key t) r"
  by (simp add: tbl_create_def Let_def)

lemma next_key_ops [simp]:
  "next_key (tbl_update p f t) = next_key t"
  "next_key (tbl_delete p t) = next_key t"
  "next_key (snd (tbl_create sk r t)) = next_key t + 1"
  by (simp_all add: tbl_update_def tbl_delete_def tbl_create_def Let_def)

lemma rows_empty_table [simp]: "rows empty_table = []"
  by (simp add: empty_table_def)

lemma tbl_first_Some_D: "tbl_first p t = Some r \<Longrightarrow> r \<in> set (rows t) \<and> p r"
  unfolding tbl_first_def by (rule find_Some_D)

lemma tbl_first_None_iff: "tbl_first p t = None \<longleftrightarrow> (\<forall>r \<in> set (rows t). \<not> p r)"
  by (auto simp: tbl_first_def find_None_iff)

lemma set_tbl_find [simp]: "set (tbl_find p t) = {r \<in> set (rows t). p r}"
  by (auto simp: tbl_find_def)

lemma tbl_affected_zero_iff: "tbl_affected p t = 0 \<longleftrightarrow> (\<forall>r \<in> set (rows t). \<not> p r)"
  by (auto simp: tbl_affected_def filter_empty_conv)

lemma update_affecting_none: "tbl_affected p t = 0 \<Longrightarrow> tbl_update p f t = t"
proof -
  assume "tbl_affected p t = 0"
  then have "map (\<lambda>r. if p r then f r else r) (rows t) = rows t"
    by (intro map_idI) (auto simp: tbl_affected_zero_iff)
  then show ?thesis unfolding tbl_update_def by simp
qed

section \<open>Primary keys\<close>

definition wf_table :: "('r \<Rightarrow> int) \<Rightarrow> 'r table \<Rightarrow> bool" where
  "wf_table key t \<longleftrightarrow>
     sorted_wrt (<) (map key (rows t)) \<and> (\<forall>r \<in> set (rows t). key r < next_key t)"

definition tbl_get :: "('r \<Rightarrow> int) \<Rightarrow> int \<Rightarrow> 'r table \<Rightarrow> 'r option" where
  "tbl_get key i t = tbl_first (\<lambda>r. key r = i) t"

locale keyed_rows =
  fixes key :: "'r \<Rightarrow> int"
    and set_key :: "int \<Rightarrow> 'r \<Rightarrow> 'r"
  assumes key_set_key [simp]: "key (set_key i r) = i"
begin

lemma wf_empty: "wf_table key empty_table"
  by (simp add: wf_table_def)

lemma wf_create: "wf_table key t \<Longrightarrow> wf_table key (snd (tbl_create set_key r t))"
  by (auto simp: wf_table_def sorted_wrt_append)

lemma wf_update:
  assumes "wf_table key t" and "\<And>r. key (f r) = key r"
  shows "wf_table key (tbl_update p f t)"
proof -
  have "map key (rows (tbl_update p f t)) = map key (rows t)"
    using assms(2) by simp
  moreover have "\<forall>r \<in> set (rows (tbl_update p f t)). key r < next_key t"
    using assms by (auto simp: wf_table_def)
  ultimately show ?thesis
    using assms(1) by (simp only: wf_table_def next_key_ops)
qed

lemma wf_delete: "wf_table key t \<Longrightarrow> wf_table key (tbl_delete p t)"
  by (auto simp: wf_table_def sorted_wrt_map sorted_wrt_filter)

lemma wf_save:
  assumes "wf_table key t"
  shows "wf_table key (tbl_save key x t)"
proof (cases "\<exists>r \<in> set (rows t). key r = key x")
  case True
  have same: "map key (rows (tbl_save key x t)) = map key (rows t)"
    "next_key (tbl_save key x t) = next_key t"
    using True by (simp_all add: tbl_save_def)
  have keys: "wf_table key t' \<longleftrightarrow>
      sorted_wrt (<) (map key (rows t')) \<and> (\<forall>i \<in> set (map key (rows t')). i < next_key t')"
    for t' :: "'r table"
    by (simp add: wf_table_def)
  show ?thesis using assms unfolding keys same .
next
  case False
  let ?l = "takeWhile (\<lambda>r. key r < key x) (rows t)" and ?r = "dropWhile (\<lambda>r. key r < key x) (rows t)"
  have "sorted_wrt (<) (map key (?l @ ?r))" using assms by (simp add: wf_table_def)
  then have s: "sorted_wrt (<) (map key ?l)" "sorted_wrt (<) (map key ?r)"
      "\<forall>a \<in> set ?l. \<forall>b \<in> set ?r. key a < key b"
    by (auto simp only: map_append sorted_wrt_append set_map)
  have l: "\<forall>a \<in> set ?l. key a < key x" by (auto dest: set_takeWhileD)
  have r: "\<forall>b \<in> set ?r. key x < key b"
  proof (cases ?r)
    case (Cons b bs)
    then have b: "\<not> key b < key x" "b \<in> set (rows t)"
      using hd_dropWhile [of "\<lambda>r. key r < key x" "rows t"]
        set_dropWhileD [of b "\<lambda>r. key r < key x" "rows t"] by simp_all
    then have "key x < key b" using False by force
    then show ?thesis using s(2) Cons by auto
  next
    case Nil
    then show ?thesis by (simp only: list.set ball_simps)
  qed
  have all: "\<forall>r \<in> set (rows t). key r < next_key t" using assms by (simp add: wf_table_def)
  have sub: "set ?l \<subseteq> set (rows t)" "set ?r \<subseteq> set (rows t)"
    by (auto dest: set_takeWhileD set_dropWhileD)
  have "sorted_wrt (<) (map key (L @ x # R))"
    if "sorted_wrt (<) (map key L)" "sorted_wrt (<) (map key R)" "\<forall>a \<in> set L. key a < key x"
      "\<forall>b \<in> set R. key x < key b" for L R
    using that by (force simp: sorted_wrt_append)
  from this [OF s(1,2) l r] have "sorted_wrt (<) (map key (?l @ x # ?r))" .
  moreover have "\<forall>a \<in> set L \<union> set R. key a < max (next_key t) (key x + 1)"
    if "set L \<subseteq> set (rows t)" "set R \<subseteq> set (rows t)" for L R
    using that all by fastforce
  from this [OF sub] have "\<forall>a \<in> set (?l @ x # ?r). key a < max (next_key t) (key x + 1)" by auto
  moreover have "rows (tbl_save key x t) = ?l @ x # ?r"
    "next_key (tbl_save key x t) = max (next_key t) (key x + 1)"
    using False by (simp_all add: tbl_save_def)
  ultimately show ?thesis unfolding wf_table_def by (simp only:)
qed

lemma get_save: "tbl_get key i (tbl_save key x t) = (if i = key x then Some x else tbl_get key i t)"
proof (cases "\<exists>r \<in> set (rows t). key r = key x")
  case True
  have "List.find (\<lambda>r. key r = i) (map (\<lambda>r. if key r = key x then x else r) rs) =
      (if i = key x then Some x else List.find (\<lambda>r. key r = i) rs)"
    if "i = key x \<Longrightarrow> \<exists>r \<in> set rs. key r = key x" for rs
  proof (cases "i = key x")
    case True
    from that [OF True] True show ?thesis by (induction rs) auto
  next
    case False
    then show ?thesis by (induction rs) auto
  qed
  then show ?thesis using True by (simp add: tbl_save_def tbl_get_def tbl_first_def)
next
  case False
  have "List.find (\<lambda>r. key r = i) (as @ x # bs) =
      (if i = key x then Some x else List.find (\<lambda>r. key r = i) (as @ bs))"
    if "\<forall>r \<in> set as. key r \<noteq> key x" for as bs
    using that by (induction as) auto
  moreover have "\<forall>r \<in> set (takeWhile (\<lambda>r. key r < key x) (rows t)). key r \<noteq> key x"
    using False by (auto dest: set_takeWhileD)
  ultimately show ?thesis using False by (simp add: tbl_save_def tbl_get_def tbl_first_def)
qed

lemma get_delete:
  "tbl_get key i (tbl_delete (\<lambda>r. key r = j) t) = (if i = j then None else tbl_get key i t)"
proof -
  have "List.find (\<lambda>r. key r = i) (filter (\<lambda>r. key r \<noteq> j) rs) =
      (if i = j then None else List.find (\<lambda>r. key r = i) rs)" for rs
    by (induction rs) auto
  then show ?thesis by (simp add: tbl_get_def tbl_first_def)
qed

lemma key_inj:
  assumes "wf_table key t" and "r \<in> set (rows t)" and "s \<in> set (rows t)"
    and "key r = key s"
  shows "r = s"
proof -
  have "distinct (map key (rows t))"
    using assms(1) strict_sorted_iff by (auto simp: wf_table_def)
  then show ?thesis
    using assms(2-4) by (auto simp: distinct_map dest: inj_onD)
qed

lemma get_member:
  assumes "wf_table key t" and "r \<in> set (rows t)"
  shows "tbl_get key (key r) t = Some r"
proof (cases "tbl_get key (key r) t")
  case None
  then show ?thesis using assms(2) by (auto simp: tbl_get_def tbl_first_None_iff)
next
  case (Some s)
  then have "s \<in> set (rows t)" "key s = key r"
    by (auto simp: tbl_get_def dest: tbl_first_Some_D)
  then show ?thesis using Some assms key_inj by blast
qed

lemma get_Some_D: "tbl_get key i t = Some r \<Longrightarrow> r \<in> set (rows t) \<and> key r = i"
  by (auto simp: tbl_get_def dest: tbl_first_Some_D)

lemma get_update:
  assumes "\<And>r. key (f r) = key r"
  shows "tbl_get key i (tbl_update p f t) =
         map_option (\<lambda>r. if p r then f r else r) (tbl_get key i t)"
  unfolding tbl_get_def tbl_first_def rows_tbl_update
  by (rule find_map_cong) (simp add: assms)

lemma get_create_new:
  assumes "wf_table key t"
  shows "tbl_get key (next_key t) (snd (tbl_create set_key r t)) =
         Some (set_key (next_key t) r)"
proof -
  have "wf_table key (snd (tbl_create set_key r t))" using assms by (rule wf_create)
  from get_member [OF this, of "set_key (next_key t) r"] show ?thesis by simp
qed

lemma get_create_old:
  "tbl_get key i t = Some s \<Longrightarrow> tbl_get key i (snd (tbl_create set_key r t)) = Some s"
  unfolding tbl_get_def tbl_first_def rows_tbl_create by (rule find_append_left)

lemma affected_by_key:
  assumes "wf_table key t"
  shows "tbl_affected (\<lambda>r. key r = i \<and> p r) t =
         (case tbl_get key i t of Some r \<Rightarrow> if p r then 1 else 0 | None \<Rightarrow> 0)"
proof (cases "tbl_get key i t")
  case None
  then have "tbl_affected (\<lambda>r. key r = i \<and> p r) t = 0"
    by (auto simp: tbl_get_def tbl_first_None_iff tbl_affected_zero_iff)
  with None show ?thesis by simp
next
  case (Some r)
  then have r: "r \<in> set (rows t)" "key r = i" by (auto dest: get_Some_D)
  have d: "distinct (rows t)"
    using assms strict_sorted_iff distinct_map by (auto simp: wf_table_def)
  have "set (filter (\<lambda>s. key s = i \<and> p s) (rows t)) = (if p r then {r} else {})"
    using r key_inj [OF assms] by auto
  moreover have "length (filter (\<lambda>s. key s = i \<and> p s) (rows t)) =
      card (set (filter (\<lambda>s. key s = i \<and> p s) (rows t)))"
    using d by (simp only: distinct_card distinct_filter)
  ultimately show ?thesis using Some by (simp add: tbl_affected_def)
qed

end

section \<open>Conditional updates that fire once\<close>

locale one_shot =
  fixes usable :: "'r \<Rightarrow> bool"
    and burn :: "'r \<Rightarrow> 'r"
  assumes burn_unusable [simp]: "\<not> usable (burn r)"
begin

lemma second_affects_none:
  "tbl_affected (\<lambda>r. sel r \<and> usable r) (tbl_update (\<lambda>r. sel r \<and> usable r) burn t) = 0"
  by (auto simp: tbl_affected_zero_iff)

lemma second_finds_none:
  "tbl_first (\<lambda>r. sel r \<and> usable r) (tbl_update (\<lambda>r. sel r \<and> usable r) burn t) = None"
  by (auto simp: tbl_first_None_iff)

lemma others_untouched:
  "r \<in> set (rows t) \<Longrightarrow> \<not> sel r \<Longrightarrow>
   r \<in> set (rows (tbl_update (\<lambda>r. sel r \<and> usable r) burn t))"
  by force

end

end
