(* ===== verification/Run_Events.thy ===== *)
theory Run_Events
  imports Db_Table
begin

text \<open>
  The inbox of run events (\<open>db/repository/run_event_repository.go\<close>): events enqueued once
  per deduplication key, messages between sessions answered once, consumption.  The two
  partial unique indexes of the migrations, on a non-empty \<open>dedupe_key\<close> and on
  \<open>reply_to_event_id\<close>, make an insertion fail that would break them.
\<close>

section \<open>State\<close>

record run_event =
  ev_id :: id
  ev_task :: id
  ev_run :: id
  ev_source :: "id option"
  ev_target :: "id option"
  ev_reply :: "id option"
  ev_type :: string
  ev_payload :: string
  ev_dedupe :: string
  ev_created :: instant
  ev_consumed :: "instant option"

abbreviation set_ev_id :: "int \<Rightarrow> run_event \<Rightarrow> run_event" where
  "set_ev_id i e \<equiv> e\<lparr>ev_id := i\<rparr>"

interpretation event_rows: keyed_rows ev_id set_ev_id
  by unfold_locales simp

type_synonym event_table = "run_event table"

definition type_session_message :: string where "type_session_message = ''session_message''"
definition type_session_answer :: string where "type_session_answer = ''session_message_answer''"

definition pending_types :: "string list" where
  "pending_types = [''run_status'', ''status_report'', ''worker_question'',
     ''human_input_requested'', ''human_input_answered'']"

datatype event_error = BadMessageId | NotAddressed | NotSessionMessage | AlreadyConsumed

section \<open>Enqueueing\<close>

definition index_conflict :: "run_event \<Rightarrow> event_table \<Rightarrow> bool" where
  "index_conflict e t \<longleftrightarrow>
     (\<exists>x \<in> set (rows t). ev_dedupe e \<noteq> [] \<and> ev_dedupe x = ev_dedupe e) \<or>
     (\<exists>x \<in> set (rows t). ev_reply e \<noteq> None \<and> ev_reply x = ev_reply e)"

definition insert_event :: "bool \<Rightarrow> run_event \<Rightarrow> event_table \<Rightarrow> (run_event \<times> event_table) option" where
  "insert_event fault e t =
     (if fault \<or> index_conflict e t then None else Some (tbl_create set_ev_id e t))"

definition by_dedupe :: "string \<Rightarrow> event_table \<Rightarrow> run_event option" where
  "by_dedupe key t = tbl_first (\<lambda>x. ev_dedupe x = key) t"

definition by_reply :: "id \<Rightarrow> event_table \<Rightarrow> run_event option" where
  "by_reply i t = tbl_first (\<lambda>x. ev_reply x = Some i) t"

definition enqueue_run_event_returning ::
  "faults \<Rightarrow> instant \<Rightarrow> run_event \<Rightarrow> (event_table, event_error, run_event) db_op" where
  "enqueue_run_event_returning flt now event t =
     (let event = (if ev_source event = None \<and> ev_run event \<noteq> 0
                   then event\<lparr>ev_source := Some (ev_run event)\<rparr> else event);
          event = event\<lparr>ev_created := now\<rparr>;
          create = (case insert_event (flt 1) event t of
                      Some (e, t') \<Rightarrow> (Inr e, t')
                    | None \<Rightarrow>
                        if ev_dedupe event \<noteq> [] \<and> \<not> flt 2
                        then (case by_dedupe (ev_dedupe event) t of
                                Some x \<Rightarrow> (Inr x, t) | None \<Rightarrow> (Inl DbFault, t))
                        else (Inl DbFault, t))
      in if ev_dedupe event \<noteq> []
         then if flt 0 then (Inl DbFault, t)
              else (case by_dedupe (ev_dedupe event) t of
                      Some x \<Rightarrow> (Inr x, t) | None \<Rightarrow> create)
         else create)"

definition enqueue_routed_event ::
  "faults \<Rightarrow> instant \<Rightarrow> id \<Rightarrow> id \<Rightarrow> id \<Rightarrow> string \<Rightarrow> string \<Rightarrow> string \<Rightarrow>
   (event_table, event_error, run_event) db_op" where
  "enqueue_routed_event flt now task_id source target ty payload key =
     enqueue_run_event_returning flt now
       \<lparr>ev_id = 0, ev_task = task_id, ev_run = source, ev_source = Some source,
        ev_target = Some target, ev_reply = None, ev_type = ty, ev_payload = payload,
        ev_dedupe = key, ev_created = 0, ev_consumed = None\<rparr>"

section \<open>Answers and consumption\<close>

definition answer_event :: "instant \<Rightarrow> id \<Rightarrow> id \<Rightarrow> string \<Rightarrow> string \<Rightarrow> run_event \<Rightarrow> run_event" where
  "answer_event now target message payload key request =
     \<lparr>ev_id = 0, ev_task = ev_task request, ev_run = target, ev_source = Some target,
      ev_target = ev_source request, ev_reply = Some message, ev_type = type_session_answer,
      ev_payload = payload, ev_dedupe = key, ev_created = now, ev_consumed = None\<rparr>"

definition consume_where :: "(run_event \<Rightarrow> bool) \<Rightarrow> instant \<Rightarrow> event_table \<Rightarrow> event_table" where
  "consume_where p now t =
     tbl_update (\<lambda>x. p x \<and> ev_consumed x = None) (\<lambda>x. x\<lparr>ev_consumed := Some now\<rparr>) t"

definition answer_body ::
  "faults \<Rightarrow> instant \<Rightarrow> id \<Rightarrow> id \<Rightarrow> string \<Rightarrow> string \<Rightarrow>
   (event_table, event_error, run_event) db_op" where
  "answer_body flt now target message payload key t =
     (if flt 0 then (Inl DbFault, t)
      else case tbl_get ev_id message t of
        None \<Rightarrow> (Inl NotFound, t)
      | Some request \<Rightarrow>
          if ev_target request \<noteq> Some target then (Inl (Refused NotAddressed), t)
          else if ev_type request \<noteq> type_session_message then (Inl (Refused NotSessionMessage), t)
          else if ev_consumed request \<noteq> None
          then (case (if flt 1 then None else by_reply message t) of
                  Some x \<Rightarrow> (Inr x, t)
                | None \<Rightarrow> (Inl (Refused AlreadyConsumed), t))
          else (case insert_event (flt 2) (answer_event now target message payload key request) t of
                  None \<Rightarrow> (case (if flt 3 then None else by_reply message t) of
                             Some x \<Rightarrow> (Inr x, t) | None \<Rightarrow> (Inl DbFault, t))
                | Some (a, t') \<Rightarrow>
                    if flt 4 then (Inl DbFault, t')
                    else (Inr a, consume_where (\<lambda>x. ev_id x = message) now t')))"

definition answer_pending_message ::
  "faults \<Rightarrow> instant \<Rightarrow> id \<Rightarrow> id \<Rightarrow> string \<Rightarrow> string \<Rightarrow>
   (event_table, event_error, run_event) db_op" where
  "answer_pending_message flt now target message payload key t =
     (if message \<le> 0 then (Inl (Refused BadMessageId), t)
      else transaction (flt 5) (answer_body flt now target message payload key) t)"

definition consume_run_events :: "bool \<Rightarrow> instant \<Rightarrow> id list \<Rightarrow> (event_table, event_error, unit) db_op"
where
  "consume_run_events fault now ids t =
     (if length ids = 0 then (Inr (), t)
      else if fault then (Inl DbFault, t)
      else (Inr (), consume_where (\<lambda>x. ev_id x \<in> set ids) now t))"

section \<open>Reads\<close>

definition has_recent_run_event :: "id \<Rightarrow> string \<Rightarrow> instant \<Rightarrow> event_table \<Rightarrow> bool" where
  "has_recent_run_event run ty since t \<longleftrightarrow>
     tbl_affected (\<lambda>x. ev_run x = run \<and> ev_type x = ty \<and> ev_created x \<ge> since) t > 0"

definition list_pending_run_events :: "id \<Rightarrow> event_table \<Rightarrow> run_event list" where
  "list_pending_run_events task_id t =
     sort_key ev_created
       (tbl_find (\<lambda>x. ev_task x = task_id \<and> ev_consumed x = None \<and> ev_type x \<in> set pending_types) t)"

definition list_pending_run_events_for_run :: "id \<Rightarrow> string \<Rightarrow> event_table \<Rightarrow> run_event list" where
  "list_pending_run_events_for_run run ty t =
     sort_key ev_created (tbl_find (\<lambda>x. ev_run x = run \<and> ev_type x = ty \<and> ev_consumed x = None) t)"

definition list_unconsumed_events_for_target :: "id \<Rightarrow> string list \<Rightarrow> event_table \<Rightarrow> run_event list" where
  "list_unconsumed_events_for_target target types t =
     sort_key ev_created
       (tbl_find (\<lambda>x. ev_target x = Some target \<and> ev_consumed x = None \<and>
          (length types > 0 \<longrightarrow> ev_type x \<in> set types)) t)"

definition find_answer_for_message :: "id \<Rightarrow> event_table \<Rightarrow> run_event option" where
  "find_answer_for_message message t =
     tbl_first (\<lambda>x. ev_reply x = Some message \<and> ev_type x = type_session_answer) t"

section \<open>Histories\<close>

datatype event_op =
    EEnqueue faults instant run_event
  | EAnswer faults instant id id string string
  | EConsume bool instant "id list"

fun event_exec :: "event_op \<Rightarrow> event_table \<Rightarrow> event_table" where
  "event_exec (EEnqueue flt now e) t = snd (enqueue_run_event_returning flt now e t)"
| "event_exec (EAnswer flt now target m p k) t = snd (answer_pending_message flt now target m p k t)"
| "event_exec (EConsume f now ids) t = snd (consume_run_events f now ids t)"

text \<open>Every operation keeps the rows there are, but for the moment they are consumed.\<close>

definition unconsumed :: "run_event \<Rightarrow> run_event" where
  "unconsumed e = e\<lparr>ev_consumed := None\<rparr>"

lemma unconsumed_simps [simp]: "unconsumed (e\<lparr>ev_consumed := c\<rparr>) = unconsumed e"
  by (simp add: unconsumed_def)

definition grows :: "event_table \<Rightarrow> event_table \<Rightarrow> bool" where
  "grows t t' \<longleftrightarrow> (\<exists>new. map unconsumed (rows t') = map unconsumed (rows t) @ new)"

lemma grows_refl [simp]: "grows t t"
  by (simp add: grows_def)

lemma grows_trans: "grows t u \<Longrightarrow> grows u v \<Longrightarrow> grows t v"
  by (auto simp: grows_def)

lemma grows_consume [simp]: "grows t (consume_where p now t)"
proof -
  have "map unconsumed (rows (consume_where p now t)) = map unconsumed (rows t)"
    by (simp add: consume_where_def)
  then show ?thesis by (simp add: grows_def)
qed

lemma grows_insert: "insert_event f e t = Some (x, t') \<Longrightarrow> grows t t'"
  by (auto simp: insert_event_def grows_def tbl_create_def Let_def split: if_splits)

lemma grows_enqueue: "grows t (snd (enqueue_run_event_returning flt now e t))"
  by (auto simp: enqueue_run_event_returning_def Let_def split: option.splits dest: grows_insert)

lemma grows_answer_body: "grows t (snd (answer_body flt now target m p k t))"
proof (cases "flt 0")
  case False
  show ?thesis
  proof (cases "tbl_get ev_id m t")
    case (Some r)
    show ?thesis
    proof (cases "insert_event (flt 2) (answer_event now target m p k r) t")
      case None
      then show ?thesis using False Some by (simp add: answer_body_def split: option.split)
    next
      case ins: (Some q)
      obtain a t1 where q: "q = (a, t1)" by force
      then have "grows t t1" using ins grows_insert by blast
      moreover from this have "grows t (consume_where (\<lambda>x. ev_id x = m) now t1)"
        by (rule grows_trans [OF _ grows_consume])
      ultimately show ?thesis
        using False Some ins q by (simp add: answer_body_def split: option.split)
    qed
  qed (simp add: answer_body_def)
qed (simp add: answer_body_def)

lemma grows_answer: "grows t (snd (answer_pending_message flt now target m p k t))"
proof (cases "m \<le> 0")
  case False
  let ?body = "answer_body flt now target m p k"
  have "grows t (snd (transaction (flt 5) ?body t))"
  proof (rule transaction_preserves [where I = "grows t", OF grows_refl])
    fix a s'
    assume "?body t = (Inr a, s')"
    then show "grows t s'" using grows_answer_body [of t flt now target m p k] by simp
  qed
  then show ?thesis using False by (simp add: answer_pending_message_def)
qed (simp add: answer_pending_message_def)

lemma grows_exec: "grows t (event_exec op t)"
  by (cases op) (simp_all add: grows_enqueue grows_answer consume_run_events_def)

lemma grows_run: "grows t (fold event_exec ops t)"
  by (induction ops arbitrary: t) (auto intro: grows_trans [OF grows_exec])

text \<open>So the first row with a property that does not look at consumption stays the first.\<close>

lemma grows_first:
  assumes "grows t t'" and "tbl_first p t = Some x" and "\<And>e. p (unconsumed e) = p e"
  shows "\<exists>x'. tbl_first p t' = Some x' \<and> unconsumed x' = unconsumed x"
proof -
  have f: "List.find p (map unconsumed xs) = map_option unconsumed (List.find p xs)" for xs
    using assms(3) by (intro find_map_cong)
  obtain new where n: "map unconsumed (rows t') = map unconsumed (rows t) @ new"
    using assms(1) by (auto simp: grows_def)
  have "List.find p (map unconsumed (rows t)) = Some (unconsumed x)"
    using assms(2) by (simp add: f tbl_first_def)
  then have "List.find p (map unconsumed (rows t')) = Some (unconsumed x)"
    unfolding n by (rule find_append_left)
  then show ?thesis by (simp add: f tbl_first_def)
qed

lemma enqueue_stored:
  assumes "enqueue_run_event_returning flt now e t = (Inr x, t')" and "ev_dedupe e \<noteq> []"
  shows "by_dedupe (ev_dedupe e) t' = Some x"
proof -
  let ?p = "\<lambda>x. ev_dedupe x = ev_dedupe e"
  have "tbl_first ?p t' = Some x"
  proof (cases "by_dedupe (ev_dedupe e) t")
    case (Some y)
    then show ?thesis
      using assms(1,2) by (auto simp: enqueue_run_event_returning_def Let_def by_dedupe_def
          split: if_splits)
  next
    case None
    then have none: "List.find ?p (rows t) = None" by (simp add: by_dedupe_def tbl_first_def)
    have "List.find ?p (rows t @ [z]) = (if ?p z then Some z else None)" for z
      by (rule find_append_right [OF none])
    then show ?thesis
      using assms(1,2) None
      by (auto simp: enqueue_run_event_returning_def Let_def insert_event_def tbl_create_def
          tbl_first_def split: if_splits option.splits)
  qed
  then show ?thesis by (simp add: by_dedupe_def)
qed

lemma enqueue_known:
  "by_dedupe (ev_dedupe e) t = Some x \<Longrightarrow> ev_dedupe e \<noteq> [] \<Longrightarrow>
   snd (enqueue_run_event_returning flt now e t) = t"
  by (simp add: enqueue_run_event_returning_def Let_def)

lemma grows_dedupe:
  assumes "grows t t'" and "by_dedupe k t = Some x"
  shows "\<exists>y. by_dedupe k t' = Some y \<and> unconsumed y = unconsumed x"
  using grows_first [OF assms(1), of "\<lambda>e. ev_dedupe e = k" x] assms(2)
  by (auto simp: by_dedupe_def unconsumed_def)

section \<open>Properties\<close>

text \<open>
  an event with a deduplication key is stored once: once an enqueue with the key has
  succeeded, every later enqueue with it, whatever happened in between, either fails in the
  database or returns the event stored first, and adds no row.
\<close>

theorem event_enqueued_once:
  fixes ops :: "event_op list" and t' :: event_table
  assumes "enqueue_run_event_returning flt now e t = (Inr x, t')" and "ev_dedupe e \<noteq> []"
    and "ev_dedupe e2 = ev_dedupe e"
  defines "t2 \<equiv> fold event_exec ops t'"
  shows "enqueue_run_event_returning flt2 now2 e2 t2 = (Inl DbFault, t2) \<or>
         (\<exists>y. enqueue_run_event_returning flt2 now2 e2 t2 = (Inr y, t2) \<and>
              unconsumed y = unconsumed x)"
proof -
  have "by_dedupe (ev_dedupe e) t' = Some x" using assms(1,2) by (rule enqueue_stored)
  then obtain y where "by_dedupe (ev_dedupe e2) t2 = Some y" "unconsumed y = unconsumed x"
    using grows_dedupe [OF grows_run] unfolding t2_def assms(3) by blast
  then show ?thesis
    using assms(2,3) by (auto simp: enqueue_run_event_returning_def Let_def)
qed

definition demo_event :: "string \<Rightarrow> run_event" where
  "demo_event key = \<lparr>ev_id = 0, ev_task = 1, ev_run = 5, ev_source = None, ev_target = Some 6,
     ev_reply = None, ev_type = type_session_message, ev_payload = ''hi'', ev_dedupe = key,
     ev_created = 0, ev_consumed = None\<rparr>"

theorem event_enqueued_once_witness:
  "length (rows (snd (enqueue_run_event_returning no_faults 9 (demo_event ''k'')
     (fold event_exec [EConsume False 3 [1], EEnqueue no_faults 4 (demo_event ''j'')]
        (snd (enqueue_run_event_returning no_faults 2 (demo_event ''k'') empty_table)))))) = 2"
proof -
  let ?r = "enqueue_run_event_returning no_faults 2 (demo_event ''k'') empty_table"
  let ?ops = "[EConsume False 3 [1], EEnqueue no_faults 4 (demo_event ''j'')]"
  have "fst ?r = Inr ((demo_event ''k'')\<lparr>ev_id := 1, ev_source := Some 5, ev_created := 2\<rparr>)"
    by code_simp
  then have r: "?r = (Inr ((demo_event ''k'')\<lparr>ev_id := 1, ev_source := Some 5, ev_created := 2\<rparr>), snd ?r)"
    by (simp add: prod_eq_iff)
  have "ev_dedupe (demo_event ''k'') \<noteq> []" by (simp add: demo_event_def)
  from event_enqueued_once [OF r this refl, of no_faults 9 ?ops]
  have "snd (enqueue_run_event_returning no_faults 9 (demo_event ''k'') (fold event_exec ?ops (snd ?r))) =
      fold event_exec ?ops (snd ?r)"
    by (elim disjE exE conjE) simp_all
  moreover have "length (rows (fold event_exec ?ops (snd ?r))) = 2" by code_simp
  ultimately show ?thesis by simp
qed

text \<open>
  a message between sessions is answered once: after an answer was given, every later
  attempt to answer it, whatever happened in between, either fails or returns that first
  answer, and stores nothing.
\<close>

theorem message_answered_once:
  fixes ops :: "event_op list" and t' :: event_table
  assumes "answer_pending_message flt now target m p k t = (Inr a, t')"
  defines "t2 \<equiv> fold event_exec ops t'"
  shows "ev_reply a = Some m \<and>
         (\<forall>flt2 now2 target2 p2 k2.
            (case answer_pending_message flt2 now2 target2 m p2 k2 t2 of
               (Inl _, t3) \<Rightarrow> t3 = t2
             | (Inr y, t3) \<Rightarrow> t3 = t2 \<and> unconsumed y = unconsumed a))"
proof -
  let ?p = "\<lambda>x. ev_reply x = Some m"
  have pos: "0 < m" and body: "answer_body flt now target m p k t = (Inr a, t')"
    using assms(1) by (auto simp: answer_pending_message_def transaction_success_body split: if_splits)
  obtain r where r: "tbl_get ev_id m t = Some r"
    using body by (auto simp: answer_body_def split: if_splits option.splits)
  have "\<exists>x. tbl_first ?p t' = Some x \<and> unconsumed x = unconsumed a"
  proof (cases "tbl_first ?p t' = Some a")
    case no: False
    then obtain t1 where ins: "insert_event (flt 2) (answer_event now target m p k r) t = Some (a, t1)"
        "t' = consume_where (\<lambda>x. ev_id x = m) now t1"
      using body r by (auto simp: answer_body_def by_reply_def split: if_splits option.splits)
    have none: "List.find ?p (rows t) = None"
      using ins(1) by (auto simp: insert_event_def index_conflict_def answer_event_def find_None_iff
          split: if_splits)
    have "rows t1 = rows t @ [a]" "ev_reply a = Some m"
      using ins(1) by (auto simp: insert_event_def tbl_create_def Let_def answer_event_def split: if_splits)
    then have "tbl_first ?p t1 = Some a"
      by (simp add: tbl_first_def find_append_right [OF none])
    from grows_first [OF grows_consume this] show ?thesis
      unfolding ins(2) by (simp add: unconsumed_def)
  qed blast
  then obtain x where x: "tbl_first ?p t' = Some x" "unconsumed x = unconsumed a" by blast
  have "ev_reply (unconsumed x) = Some m"
    using tbl_first_Some_D [OF x(1)] by (simp add: unconsumed_def)
  then have reply: "ev_reply a = Some m" unfolding x(2) by (simp add: unconsumed_def)
  obtain y where y: "tbl_first ?p t2 = Some y" "unconsumed y = unconsumed a"
    using grows_first [OF grows_run x(1), of ops] x(2) unfolding t2_def unconsumed_def by auto
  then have by_reply: "by_reply m t2 = Some y" by (simp add: by_reply_def)
  have conflict: "insert_event f (answer_event now2 target2 m p2 k2 q) t2 = None" for f now2 target2 p2 k2 q
    using tbl_first_Some_D [OF y(1)]
    by (auto simp: insert_event_def index_conflict_def answer_event_def)
  have again: "answer_body flt2 now2 target2 m p2 k2 t2 = (Inr y, t2) \<or>
      (\<exists>e. answer_body flt2 now2 target2 m p2 k2 t2 = (Inl e, t2))" for flt2 now2 target2 p2 k2
    by (auto simp: answer_body_def by_reply conflict split: option.split)
  have "case answer_pending_message flt2 now2 target2 m p2 k2 t2 of
      (Inl _, t3) \<Rightarrow> t3 = t2 | (Inr z, t3) \<Rightarrow> t3 = t2 \<and> unconsumed z = unconsumed a"
    for flt2 now2 target2 p2 k2
    using again [of flt2 now2 target2 p2 k2]
  proof (elim disjE exE)
    assume "answer_body flt2 now2 target2 m p2 k2 t2 = (Inr y, t2)"
    then show ?thesis using pos y(2) by (simp add: answer_pending_message_def transaction_def)
  next
    fix e
    assume "answer_body flt2 now2 target2 m p2 k2 t2 = (Inl e, t2)"
    then show ?thesis using pos by (simp add: answer_pending_message_def transaction_def)
  qed
  with reply show ?thesis by blast
qed

theorem message_answered_once_witness:
  "snd (answer_pending_message no_faults 9 6 1 ''again'' []
      (snd (answer_pending_message no_faults 8 6 1 ''yes'' []
        (snd (enqueue_run_event_returning no_faults 2 (demo_event ''k'') empty_table))))) =
   snd (answer_pending_message no_faults 8 6 1 ''yes'' []
        (snd (enqueue_run_event_returning no_faults 2 (demo_event ''k'') empty_table)))"
proof -
  let ?t = "snd (enqueue_run_event_returning no_faults 2 (demo_event ''k'') empty_table)"
  let ?r = "answer_pending_message no_faults 8 6 1 ''yes'' [] ?t"
  have "case fst ?r of Inl _ \<Rightarrow> False | Inr _ \<Rightarrow> True" by code_simp
  then obtain a where "?r = (Inr a, snd ?r)" by (cases ?r) (auto split: sum.splits)
  from message_answered_once [OF this, of "[]", THEN conjunct2, rule_format, of no_faults 9 6 "''again''" "[]"]
  show ?thesis by (auto split: prod.splits sum.splits)
qed

end
