(* ===== verification/Task_Store.thy ===== *)
theory Task_Store
  imports Db_Table
begin

text \<open>
  Tasks (\<open>db/repository/task_repository.go\<close>, \<open>db/models/task.go\<close>): creation with its
  reference key and git branch, full-row saves, conditional status changes, the run slot a
  run claims, deletion with what the foreign keys cascade to.

  Columns these operations carry along unread (descriptions, project, sprint, due date,
  pull request, \<open>updated_at\<close>) are left out, and so are the preloaded associations.  A task
  is created without an id of its own, as every caller does.  A
  repository call that is not a transaction is a sequence of statements; \<open>flt\<close> says which
  of its fixed statements fail, \<open>walk\<close> which step of a walk over the parent chain.
\<close>

section \<open>Tables\<close>

record task =
  t_id :: id
  t_company :: id
  t_agent :: "id option"
  t_parent :: "id option"
  t_title :: string
  t_ref_key :: string
  t_refined :: string
  t_status :: string
  t_archived :: bool
  t_run :: "id option"
  t_orchestrator_run :: "id option"
  t_branch :: string
  t_base_branch :: string
  t_project :: "id option"
  t_sprint :: id
  t_description :: string
  t_priority :: string
  t_due :: "instant option"
  t_created :: instant
  t_done_at :: "instant option"

record company =
  co_id :: id
  co_short :: string
  co_team :: "id option"
  co_user :: "id option"

record task_relation =
  tr_id :: id
  tr_company :: id
  tr_source :: id
  tr_target :: id
  tr_kind :: string

record task_db =
  tasks :: "task table"
  companies :: "company table"
  relations :: "task_relation table"

abbreviation set_t_id :: "int \<Rightarrow> task \<Rightarrow> task" where
  "set_t_id i t \<equiv> t\<lparr>t_id := i\<rparr>"

abbreviation set_tr_id :: "int \<Rightarrow> task_relation \<Rightarrow> task_relation" where
  "set_tr_id i r \<equiv> r\<lparr>tr_id := i\<rparr>"

interpretation task_rows: keyed_rows t_id set_t_id
  by unfold_locales simp

interpretation rel_rows: keyed_rows tr_id set_tr_id
  by unfold_locales simp

definition status_todo :: string where "status_todo = ''to-do''"
definition status_in_progress :: string where "status_in_progress = ''in-progress''"
definition status_depends_on_task :: string where "status_depends_on_task = ''depends-on-task''"
definition status_done :: string where "status_done = ''done''"
definition depends_on :: string where "depends_on = ''depends_on''"
definition related_to :: string where "related_to = ''related_to''"

definition default_git_base_branch :: string where
  "default_git_base_branch = ''main''"

definition effective_git_base_branch :: "task \<Rightarrow> string" where
  "effective_git_base_branch t =
     (let branch = trim_space (t_base_branch t)
      in if branch \<noteq> [] then branch else default_git_base_branch)"

section \<open>Reads\<close>

datatype task_error =
  SelfRelation | OtherCompany | BadKind | ActiveRun | Hierarchy | Cycle | Duplicate

definition get_task :: "bool \<Rightarrow> id \<Rightarrow> task_db \<Rightarrow> task_error dberr + task" where
  "get_task fault i s =
     (if fault then Inl DbFault
      else case tbl_get t_id i (tasks s) of None \<Rightarrow> Inl NotFound | Some t \<Rightarrow> Inr t)"

definition get_task_by_ref_key :: "bool \<Rightarrow> string \<Rightarrow> task_db \<Rightarrow> task_error dberr + task" where
  "get_task_by_ref_key fault key s =
     (if fault then Inl DbFault
      else case tbl_first (\<lambda>t. t_ref_key t = key) (tasks s) of
             None \<Rightarrow> Inl NotFound | Some t \<Rightarrow> Inr t)"

text \<open>The walk of \<open>GetRootTask\<close>: at most \<open>hops\<close> steps; a parent that cannot be read ends it.\<close>

fun climb :: "faults \<Rightarrow> nat \<Rightarrow> nat \<Rightarrow> task \<Rightarrow> task_db \<Rightarrow> task" where
  "climb walk k 0 t s = t"
| "climb walk k (Suc hops) t s =
     (case t_parent t of
        None \<Rightarrow> t
      | Some p \<Rightarrow>
          (case get_task (walk k) p s of
             Inl _ \<Rightarrow> t
           | Inr parent \<Rightarrow> climb walk (Suc k) hops parent s))"

definition get_root_task ::
  "bool \<Rightarrow> faults \<Rightarrow> id \<Rightarrow> task_db \<Rightarrow> task_error dberr + task" where
  "get_root_task fault walk i s =
     (case get_task fault i s of Inl e \<Rightarrow> Inl e | Inr t \<Rightarrow> Inr (climb walk 0 20 t s))"

section \<open>Reference keys\<close>

definition sibling_index :: "string \<Rightarrow> task \<Rightarrow> int option" where
  "sibling_index prefix t =
     (if \<not> has_prefix (t_ref_key t) prefix then None
      else scan_int (trim_prefix (t_ref_key t) prefix))"

definition max_index :: "string \<Rightarrow> task list \<Rightarrow> int" where
  "max_index prefix siblings =
     fold (\<lambda>t m. case sibling_index prefix t of
                   None \<Rightarrow> m
                 | Some idx \<Rightarrow> if idx > m then idx else m) siblings 0"

text \<open>
  \<open>computeTaskRefKey\<close> calls itself on a parent without a key; \<open>fuel\<close> bounds those calls and
  None means it ran out.  \<open>walk\<close> numbers the statements of the whole chain of calls.
\<close>

fun compute_ref_key ::
  "nat \<Rightarrow> faults \<Rightarrow> nat \<Rightarrow> task \<Rightarrow> task_db \<Rightarrow> (task_error dberr + string) option" where
  "compute_ref_key 0 walk k t s = None"
| "compute_ref_key (Suc fuel) walk k t s =
     (case t_parent t of
        None \<Rightarrow>
          Some (if walk k then Inl DbFault
                else (case tbl_get co_id (t_company t) (companies s) of
                        None \<Rightarrow> Inl NotFound
                      | Some company \<Rightarrow>
                          (let short = to_upper (co_short company);
                               short = (if short = [] then ''TASK'' else short)
                           in Inr (short @ ''-'' @ dec_int (t_id t)))))
      | Some p \<Rightarrow>
          (case get_task (walk k) p s of
             Inl e \<Rightarrow> Some (Inl e)
           | Inr parent \<Rightarrow>
               (case (if t_ref_key parent = [] then compute_ref_key fuel walk (k + 2) parent s
                      else Some (Inr (t_ref_key parent))) of
                  None \<Rightarrow> None
                | Some (Inl e) \<Rightarrow> Some (Inl e)
                | Some (Inr parent_ref) \<Rightarrow>
                    Some (if walk (k + 1) then Inl DbFault
                          else (let siblings = tbl_find (\<lambda>r. t_parent r = Some p \<and> t_id r \<noteq> t_id t)
                                                 (tasks s)
                                in Inr (parent_ref @ ''-'' @
                                     dec_int (wrap64 (max_index (parent_ref @ ''-'') siblings + 1))))))))"

section \<open>Branches and creation\<close>

definition task_git_branch :: "string \<Rightarrow> id \<Rightarrow> string" where
  "task_git_branch ref_key i =
     (let ref_key = trim_space ref_key;
          ref_key = (if ref_key = [] then ''TASK-'' @ dec_int i else ref_key)
      in ''headcount1/'' @ ref_key)"

definition set_branch :: "id \<Rightarrow> string \<Rightarrow> task_db \<Rightarrow> task_db" where
  "set_branch i b s = s\<lparr>tasks := tbl_update (\<lambda>r. t_id r = i) (\<lambda>r. r\<lparr>t_branch := b\<rparr>) (tasks s)\<rparr>"

definition ensure_task_git_branch ::
  "faults \<Rightarrow> faults \<Rightarrow> task \<Rightarrow> (task_db, task_error, task) db_op" where
  "ensure_task_git_branch flt walk t s =
     (case (if t_parent t \<noteq> None then get_root_task (flt 0) walk (t_id t) s else Inr t) of
        Inl e \<Rightarrow> (Inl e, s)
      | Inr root \<Rightarrow>
          (let branch = trim_space (t_branch root);
               fresh = (branch = []);
               branch = (if fresh then task_git_branch (t_ref_key root) (t_id root) else branch)
           in if fresh \<and> flt 1 then (Inl DbFault, s)
              else let s = (if fresh then set_branch (t_id root) branch s else s)
                   in if trim_space (t_branch t) = []
                      then if flt 2 then (Inl DbFault, s)
                           else (Inr (t\<lparr>t_branch := branch\<rparr>), set_branch (t_id t) branch s)
                      else (Inr t, s)))"

text \<open>A key that could not be computed is left out, one that could not be stored only reported.\<close>

definition store_ref_key ::
  "bool \<Rightarrow> task_error dberr + string \<Rightarrow> task \<Rightarrow> task_db \<Rightarrow> task \<times> task_db" where
  "store_ref_key fault r t s =
     (case r of
        Inl _ \<Rightarrow> (t, s)
      | Inr key \<Rightarrow>
          (t\<lparr>t_ref_key := key\<rparr>,
           if fault then s
           else s\<lparr>tasks := tbl_update (\<lambda>r. t_id r = t_id t) (\<lambda>r. r\<lparr>t_ref_key := key\<rparr>) (tasks s)\<rparr>))"

definition create_task ::
  "nat \<Rightarrow> faults \<Rightarrow> faults \<Rightarrow> faults \<Rightarrow> task \<Rightarrow>
   task_db \<Rightarrow> ((task_error dberr + task) \<times> task_db) option" where
  "create_task fuel flt key_walk root_walk t s =
     (if flt 0 then Some (Inl DbFault, s)
      else (case tbl_create set_t_id t (tasks s) of
              (t, tbl) \<Rightarrow>
                (let s = s\<lparr>tasks := tbl\<rparr>
                 in if t_ref_key t = []
                    then (case compute_ref_key fuel key_walk 0 t s of
                            None \<Rightarrow> None
                          | Some r \<Rightarrow>
                              (case store_ref_key (flt 1) r t s of
                                 (t, s) \<Rightarrow>
                                   Some (ensure_task_git_branch (\<lambda>n. flt (n + 2)) root_walk t s)))
                    else Some (ensure_task_git_branch (\<lambda>n. flt (n + 2)) root_walk t s))))"

section \<open>Updates\<close>

definition done_at_for_save :: "instant \<Rightarrow> task \<Rightarrow> task \<Rightarrow> instant option" where
  "done_at_for_save now previous t =
     (if t_status t = status_done
      then (if t_done_at t = None
            then (if t_status previous \<noteq> status_done \<or> t_done_at previous = None
                  then Some now else t_done_at previous)
            else t_done_at t)
      else None)"

definition update_task :: "faults \<Rightarrow> instant \<Rightarrow> task \<Rightarrow> (task_db, task_error, task) db_op" where
  "update_task flt now t s =
     (let t = (case get_task (flt 0) (t_id t) s of
                 Inl _ \<Rightarrow> t
               | Inr previous \<Rightarrow> t\<lparr>t_done_at := done_at_for_save now previous t\<rparr>)
      in if flt 1 then (Inl DbFault, s)
         else (Inr t, s\<lparr>tasks := tbl_save t_id t (tasks s)\<rparr>))"

definition set_task_status_if ::
  "bool \<Rightarrow> instant \<Rightarrow> id \<Rightarrow> string \<Rightarrow> string \<Rightarrow> (task_db, task_error, bool) db_op" where
  "set_task_status_if fault now i from_st to_st s =
     (if fault then (Inl DbFault, s)
      else (let p = (\<lambda>r. t_id r = i \<and> t_status r = from_st);
                f = (\<lambda>r. (if to_st = status_done \<and> from_st \<noteq> status_done
                          then r\<lparr>t_status := to_st, t_done_at := Some now\<rparr>
                          else if to_st \<noteq> status_done
                          then r\<lparr>t_status := to_st, t_done_at := None\<rparr>
                          else r\<lparr>t_status := to_st\<rparr>))
            in (Inr (tbl_affected p (tasks s) = 1), s\<lparr>tasks := tbl_update p f (tasks s)\<rparr>)))"

definition delete_task :: "bool \<Rightarrow> id \<Rightarrow> (task_db, task_error, unit) db_op" where
  "delete_task fault i s =
     (if fault then (Inl DbFault, s)
      else (Inr (),
            s\<lparr>tasks := tbl_update (\<lambda>r. t_parent r = Some i) (\<lambda>r. r\<lparr>t_parent := None\<rparr>)
                         (tbl_delete (\<lambda>r. t_id r = i) (tasks s)),
              relations := tbl_delete (\<lambda>r. tr_source r = i \<or> tr_target r = i) (relations s)\<rparr>))"

abbreviation run_free :: "task \<Rightarrow> bool" where
  "run_free t \<equiv> t_run t = None"

definition lock_task_run :: "bool \<Rightarrow> id \<Rightarrow> id \<Rightarrow> (task_db, task_error, unit) db_op" where
  "lock_task_run fault i run s =
     (if fault then (Inl DbFault, s)
      else (Inr (), s\<lparr>tasks := tbl_update (\<lambda>r. t_id r = i \<and> run_free r)
                               (\<lambda>r. r\<lparr>t_run := Some run\<rparr>) (tasks s)\<rparr>))"

definition claim_task_run :: "bool \<Rightarrow> id \<Rightarrow> id \<Rightarrow> (task_db, task_error, bool) db_op" where
  "claim_task_run fault i run s =
     (if fault then (Inl DbFault, s)
      else (Inr (tbl_affected (\<lambda>r. t_id r = i \<and> run_free r) (tasks s) = 1),
            s\<lparr>tasks := tbl_update (\<lambda>r. t_id r = i \<and> run_free r)
                         (\<lambda>r. r\<lparr>t_run := Some run\<rparr>) (tasks s)\<rparr>))"

definition unlock_task_run :: "bool \<Rightarrow> id \<Rightarrow> (task_db, task_error, unit) db_op" where
  "unlock_task_run fault i s =
     (if fault then (Inl DbFault, s)
      else (Inr (), s\<lparr>tasks := tbl_update (\<lambda>r. t_id r = i) (\<lambda>r. r\<lparr>t_run := None\<rparr>) (tasks s)\<rparr>))"

definition set_task_orchestrator_run ::
  "bool \<Rightarrow> id \<Rightarrow> id \<Rightarrow> (task_db, task_error, unit) db_op" where
  "set_task_orchestrator_run fault i run s =
     (if fault then (Inl DbFault, s)
      else (Inr (), s\<lparr>tasks := tbl_update (\<lambda>r. t_id r = i)
                               (\<lambda>r. r\<lparr>t_orchestrator_run := Some run\<rparr>) (tasks s)\<rparr>))"

definition update_task_refined_description ::
  "bool \<Rightarrow> id \<Rightarrow> string \<Rightarrow> (task_db, task_error, unit) db_op" where
  "update_task_refined_description fault i refined s =
     (if fault then (Inl DbFault, s)
      else (Inr (), s\<lparr>tasks := tbl_update (\<lambda>r. t_id r = i)
                               (\<lambda>r. r\<lparr>t_refined := refined\<rparr>) (tasks s)\<rparr>))"

section \<open>Lists\<close>

definition list_subtasks_by_parent :: "id \<Rightarrow> task_db \<Rightarrow> task list" where
  "list_subtasks_by_parent p s = sort_key t_created (tbl_find (\<lambda>r. t_parent r = Some p) (tasks s))"

definition list_all_tasks :: "task_db \<Rightarrow> task list" where
  "list_all_tasks s = rows (tasks s)"

text \<open>\<open>runs.status\<close> is read through the argument, which maps a run id to its status.\<close>

definition count_running_subtasks :: "(id \<Rightarrow> string option) \<Rightarrow> id \<Rightarrow> task_db \<Rightarrow> nat" where
  "count_running_subtasks run_status p s =
     tbl_affected (\<lambda>r. t_parent r = Some p \<and>
       (case t_run r of None \<Rightarrow> False | Some run \<Rightarrow> run_status run = Some ''running'')) (tasks s)"

interpretation run_slot: one_shot run_free "\<lambda>r. r\<lparr>t_run := Some run\<rparr>" for run
  by unfold_locales simp

section \<open>Lemmas on reference keys\<close>

lemma max_index_ge:
  "max_index prefix ts \<ge> 0 \<and> (\<forall>t \<in> set ts. \<forall>i. sibling_index prefix t = Some i \<longrightarrow> i \<le> max_index prefix ts)"
proof -
  let ?f = "\<lambda>t m. case sibling_index prefix t of None \<Rightarrow> m | Some idx \<Rightarrow> if idx > m then idx else m"
  have grow: "m \<le> fold ?f ts m" for ts m
  proof (induction ts arbitrary: m)
    case (Cons t ts)
    have "m \<le> ?f t m" by (auto split: option.splits)
    also have "\<dots> \<le> fold ?f ts (?f t m)" by (rule Cons)
    finally show ?case by simp
  qed simp
  have "\<forall>t \<in> set ts. \<forall>i. sibling_index prefix t = Some i \<longrightarrow> i \<le> fold ?f ts m" for m
  proof (induction ts arbitrary: m)
    case (Cons t ts)
    have "i \<le> fold ?f ts (?f t m)" if "sibling_index prefix t = Some i" for i
    proof -
      have "i \<le> ?f t m" using that by auto
      with grow [of "?f t m" ts] show ?thesis by linarith
    qed
    with Cons show ?case by auto
  qed simp
  with grow [of 0 ts] show ?thesis by (simp add: max_index_def)
qed

lemma fresh_sibling_key:
  assumes "t \<in> set siblings" and "max_index prefix siblings < 2 ^ 63 - 1"
  shows "t_ref_key t \<noteq> prefix @ dec_int (max_index prefix siblings + 1)"
proof
  assume key: "t_ref_key t = prefix @ dec_int (max_index prefix siblings + 1)"
  then have "sibling_index prefix t = scan_int (dec_int (max_index prefix siblings + 1))"
    by (simp add: sibling_index_def)
  also have "\<dots> = Some (max_index prefix siblings + 1)"
    using max_index_ge [of prefix siblings] assms(2) by (intro scan_int_dec_int) auto
  finally show False using max_index_ge [of prefix siblings] assms(1) by fastforce
qed

definition parents_older :: "task_db \<Rightarrow> bool" where
  "parents_older s \<longleftrightarrow>
     (\<forall>t \<in> set (rows (tasks s)). 0 < t_id t \<and> (\<forall>p. t_parent t = Some p \<longrightarrow> p < t_id t))"

lemma compute_ref_key_total:
  assumes "parents_older s" and "\<And>p. t_parent t = Some p \<Longrightarrow> p < t_id t" and "nat (t_id t) < fuel"
  shows "compute_ref_key fuel walk k t s \<noteq> None"
  using assms(2,3)
proof (induction fuel arbitrary: t k)
  case (Suc fuel)
  show ?case
  proof (cases "t_parent t")
    case (Some p)
    have "compute_ref_key fuel walk (k + 2) parent s \<noteq> None"
      if "get_task (walk k) p s = Inr parent" for parent
    proof (rule Suc.IH)
      have parent: "parent \<in> set (rows (tasks s))" "t_id parent = p"
        using that by (auto simp: get_task_def dest: task_rows.get_Some_D split: if_splits option.splits)
      show "q < t_id parent" if "t_parent parent = Some q" for q
        using assms(1) parent that by (auto simp: parents_older_def)
      have "0 < p" using assms(1) parent by (auto simp: parents_older_def)
      then show "nat (t_id parent) < fuel" using Suc.prems parent(2) Some by force
    qed
    then show ?thesis using Some by (auto split: sum.splits option.splits)
  qed simp
qed simp

section \<open>Histories\<close>

datatype task_op =
    TCreate nat faults faults faults task
  | TSave faults instant task
  | TBranch faults faults task
  | TStatus bool instant id string string
  | TDelete bool id
  | TLock bool id id
  | TClaim bool id id
  | TUnlock bool id
  | TOrchestrator bool id id
  | TRefined bool id string

fun task_exec :: "task_op \<Rightarrow> task_db \<Rightarrow> task_db" where
  "task_exec (TCreate fuel flt kw rw t) s =
     (case create_task fuel flt kw rw t s of None \<Rightarrow> s | Some (_, s') \<Rightarrow> s')"
| "task_exec (TSave flt now t) s = snd (update_task flt now t s)"
| "task_exec (TBranch flt walk t) s = snd (ensure_task_git_branch flt walk t s)"
| "task_exec (TStatus f now i a b) s = snd (set_task_status_if f now i a b s)"
| "task_exec (TDelete f i) s = snd (delete_task f i s)"
| "task_exec (TLock f i r) s = snd (lock_task_run f i r s)"
| "task_exec (TClaim f i r) s = snd (claim_task_run f i r s)"
| "task_exec (TUnlock f i) s = snd (unlock_task_run f i s)"
| "task_exec (TOrchestrator f i r) s = snd (set_task_orchestrator_run f i r s)"
| "task_exec (TRefined f i d) s = snd (update_task_refined_description f i d s)"

definition task_run :: "task_op list \<Rightarrow> task_db \<Rightarrow> task_db" where
  "task_run ops s = fold task_exec ops s"

text \<open>
  Setting a branch or a key changes nothing else of a row; creating a task adds a row whose
  other columns are the given ones.
\<close>

definition nameless :: "task \<Rightarrow> task" where
  "nameless t = t\<lparr>t_branch := [], t_ref_key := []\<rparr>"

lemma nameless_simps [simp]:
  "nameless (t\<lparr>t_branch := b\<rparr>) = nameless t" "nameless (t\<lparr>t_ref_key := k\<rparr>) = nameless t"
  by (simp_all add: nameless_def)

lemma nameless_fields:
  assumes "nameless t = nameless u"
  shows "t_id t = t_id u" "t_run t = t_run u" "t_status t = t_status u"
    "t_done_at t = t_done_at u" "t_parent t = t_parent u"
  using arg_cong [OF assms, of t_id] arg_cong [OF assms, of t_run] arg_cong [OF assms, of t_status]
    arg_cong [OF assms, of t_done_at] arg_cong [OF assms, of t_parent]
  by (simp_all add: nameless_def)

definition renamed :: "task_db \<Rightarrow> task_db \<Rightarrow> bool" where
  "renamed s s' \<longleftrightarrow> map nameless (rows (tasks s)) = map nameless (rows (tasks s')) \<and>
     next_key (tasks s') = next_key (tasks s) \<and> relations s' = relations s \<and>
     companies s' = companies s"

lemma renamed_refl [simp]: "renamed s s"
  by (simp add: renamed_def)

lemma renamed_trans: "renamed s s' \<Longrightarrow> renamed s' s'' \<Longrightarrow> renamed s s''"
  by (simp add: renamed_def)

lemma renamed_set_branch [simp]: "renamed s (set_branch i b s)"
  by (simp add: renamed_def set_branch_def)

lemma renamed_ensure: "renamed s (snd (ensure_task_git_branch flt walk t s))"
  using renamed_trans [OF renamed_set_branch renamed_set_branch]
  by (auto simp: ensure_task_git_branch_def Let_def split: sum.splits)

definition inserted :: "task \<Rightarrow> task_db \<Rightarrow> task_db" where
  "inserted t s = s\<lparr>tasks := snd (tbl_create set_t_id t (tasks s))\<rparr>"

lemma renamed_store: "renamed s (snd (store_ref_key f r t s))"
  by (simp add: store_ref_key_def renamed_def split: sum.split)

lemma create_task_renamed:
  assumes "create_task fuel flt kw rw t s = Some (r, s')"
  shows "s' = s \<or> renamed (inserted t s) s'"
proof (cases "flt 0")
  case True
  then show ?thesis using assms by (simp add: create_task_def)
next
  case False
  obtain u tbl where c: "tbl_create set_t_id t (tasks s) = (u, tbl)" by force
  then have i: "s\<lparr>tasks := tbl\<rparr> = inserted t s" by (simp add: inserted_def)
  let ?ens = "ensure_task_git_branch (\<lambda>n. flt (n + 2)) rw"
  have "\<exists>v s1. renamed (inserted t s) s1 \<and> (r, s') = ?ens v s1"
  proof (cases "t_ref_key u = []")
    case True
    then obtain k where k: "compute_ref_key fuel kw 0 u (inserted t s) = Some k"
      using assms False by (auto simp: create_task_def c i Let_def split: option.splits)
    then have "(r, s') = ?ens (fst (store_ref_key (flt 1) k u (inserted t s)))
        (snd (store_ref_key (flt 1) k u (inserted t s)))"
      using assms False True by (simp add: create_task_def c i case_prod_beta Let_def)
    then show ?thesis using renamed_store by blast
  next
    case no: False
    then have "(r, s') = ?ens u (inserted t s)"
      using assms False by (simp add: create_task_def c i Let_def)
    then show ?thesis using renamed_refl by blast
  qed
  then show ?thesis using renamed_ensure renamed_trans by (metis snd_conv)
qed

lemma get_nameless:
  "map_option nameless (tbl_get t_id i T) = List.find (\<lambda>r. t_id r = i) (map nameless (rows T))"
proof -
  have "t_id (nameless x) = t_id x" for x by (simp add: nameless_def)
  then show ?thesis
    unfolding tbl_get_def tbl_first_def by (subst find_map_cong) simp_all
qed

lemma renamed_get:
  assumes "renamed s s'" and "tbl_get t_id i (tasks s) = Some t"
  shows "\<exists>t'. tbl_get t_id i (tasks s') = Some t' \<and> nameless t' = nameless t"
proof -
  have "map_option nameless (tbl_get t_id i (tasks s')) = map_option nameless (tbl_get t_id i (tasks s))"
    using assms(1) by (simp only: get_nameless renamed_def)
  with assms(2) show ?thesis by auto
qed

lemma wf_renamed:
  assumes "renamed s s'" and "wf_table t_id (tasks s)"
  shows "wf_table t_id (tasks s')"
proof -
  have "map t_id rs = map t_id (map nameless rs)" for rs by (simp add: nameless_def)
  then have ids: "map t_id (rows (tasks s')) = map t_id (rows (tasks s))"
    using assms(1) unfolding renamed_def by metis
  have keys: "wf_table t_id t' \<longleftrightarrow>
      sorted_wrt (<) (map t_id (rows t')) \<and> (\<forall>i \<in> set (map t_id (rows t')). i < next_key t')"
    for t' :: "task table"
    by (simp add: wf_table_def)
  show ?thesis using assms unfolding keys ids by (simp add: renamed_def)
qed

lemma wf_inserted: "wf_table t_id (tasks s) \<Longrightarrow> wf_table t_id (tasks (inserted t s))"
  by (simp add: inserted_def task_rows.wf_create)

lemma get_inserted:
  "tbl_get t_id i (tasks s) = Some t \<Longrightarrow> tbl_get t_id i (tasks (inserted u s)) = Some t"
  by (simp add: inserted_def task_rows.get_create_old)

text \<open>What an operation leaves of one task, when it neither frees, deletes nor saves it.\<close>

fun releases :: "id \<Rightarrow> task_op \<Rightarrow> bool" where
  "releases i (TUnlock _ j) \<longleftrightarrow> i = j"
| "releases i (TDelete _ j) \<longleftrightarrow> i = j"
| "releases i (TSave _ _ t) \<longleftrightarrow> t_id t = i"
| "releases i _ \<longleftrightarrow> False"

lemmas task_op_defs = set_task_status_if_def delete_task_def lock_task_run_def claim_task_run_def
  unlock_task_run_def set_task_orchestrator_run_def update_task_refined_description_def

lemma wf_exec:
  assumes "wf_table t_id (tasks s)"
  shows "wf_table t_id (tasks (task_exec op s))"
proof (cases op)
  case (TCreate fuel flt kw rw t)
  show ?thesis
  proof (cases "create_task fuel flt kw rw t s")
    case (Some p)
    then obtain r s' where p: "p = (r, s')" by force
    with Some create_task_renamed [of fuel flt kw rw t s r s'] assms show ?thesis
      by (auto simp: TCreate intro: wf_renamed wf_inserted)
  qed (simp add: TCreate assms)
next
  case (TSave flt now t)
  then show ?thesis using assms by (simp add: update_task_def Let_def task_rows.wf_save)
next
  case (TBranch flt walk t)
  then show ?thesis using assms wf_renamed [OF renamed_ensure] by simp
qed (use assms in \<open>auto simp: task_op_defs Let_def intro!: task_rows.wf_update task_rows.wf_delete\<close>)

definition held_by :: "id \<Rightarrow> id \<Rightarrow> task_db \<Rightarrow> bool" where
  "held_by i run s \<longleftrightarrow> wf_table t_id (tasks s) \<and>
     (\<exists>t. tbl_get t_id i (tasks s) = Some t \<and> t_run t = Some run)"

lemma held_by_exec:
  assumes "held_by i run s" and "\<not> releases i op"
  shows "held_by i run (task_exec op s)"
proof -
  obtain t where t: "wf_table t_id (tasks s)" "tbl_get t_id i (tasks s) = Some t" "t_run t = Some run"
    using assms(1) by (auto simp: held_by_def)
  have i: "t_id t = i" using task_rows.get_Some_D [OF t(2)] by simp
  have "\<exists>t'. tbl_get t_id i (tasks (task_exec op s)) = Some t' \<and> t_run t' = Some run"
  proof (cases op)
    case (TCreate fuel flt kw rw u)
    show ?thesis
    proof (cases "create_task fuel flt kw rw u s")
      case (Some p)
      then obtain r s' where p: "p = (r, s')" by force
      with Some consider "s' = s" | "renamed (inserted u s) s'" using create_task_renamed by blast
      then show ?thesis
      proof cases
        case 2
        from renamed_get [OF this get_inserted [OF t(2)]] obtain t' where
          t': "tbl_get t_id i (tasks s') = Some t'" "nameless t' = nameless t" by blast
        have "t_run t' = Some run" using nameless_fields(2) [OF t'(2)] t(3) by simp
        then show ?thesis using t'(1) Some by (simp add: TCreate p)
      qed (use Some t TCreate p in simp)
    qed (use t TCreate in simp)
  next
    case (TSave flt now u)
    then show ?thesis
      using assms(2) t by (auto simp: update_task_def Let_def task_rows.get_save split: sum.splits)
  next
    case (TBranch flt walk u)
    from renamed_get [OF renamed_ensure [of s flt walk u] t(2)] obtain t' where
      t': "tbl_get t_id i (tasks (task_exec op s)) = Some t'" "nameless t' = nameless t"
      by (auto simp: TBranch)
    have "t_run t' = Some run" using nameless_fields(2) [OF t'(2)] t(3) by simp
    then show ?thesis using t'(1) by simp
  qed (use assms(2) t i in \<open>auto simp: task_op_defs Let_def task_rows.get_update task_rows.get_delete\<close>)
  then show ?thesis using wf_exec [OF t(1)] by (simp add: held_by_def)
qed

lemma held_by_run:
  "held_by i run s \<Longrightarrow> \<forall>op \<in> set ops. \<not> releases i op \<Longrightarrow> held_by i run (task_run ops s)"
  unfolding task_run_def by (induction ops arbitrary: s) (simp_all add: held_by_exec)

section \<open>The stamp of a finished task\<close>

text \<open>A task is stamped exactly when it is done.\<close>

definition done_ok :: "task \<Rightarrow> bool" where
  "done_ok t \<longleftrightarrow> (t_status t = status_done \<longleftrightarrow> t_done_at t \<noteq> None)"

definition all_done_ok :: "task_db \<Rightarrow> bool" where
  "all_done_ok s \<longleftrightarrow> (\<forall>t \<in> set (rows (tasks s)). done_ok t)"

text \<open>
  The operations the invariant asks something of: a created task has to be consistent, and
  a full-row save has to find the row it replaces, or be consistent itself.
\<close>

fun stamps_kept :: "task_db \<Rightarrow> task_op \<Rightarrow> bool" where
  "stamps_kept s (TCreate _ _ _ _ t) \<longleftrightarrow> done_ok t"
| "stamps_kept s (TSave flt _ t) \<longleftrightarrow>
     \<not> flt 0 \<and> tbl_get t_id (t_id t) (tasks s) \<noteq> None \<or> done_ok t"
| "stamps_kept s _ \<longleftrightarrow> True"

lemma done_ok_nameless: "nameless t = nameless u \<Longrightarrow> done_ok t = done_ok u"
  using nameless_fields(3,4) [of t u] by (simp add: done_ok_def)

lemma all_done_ok_renamed:
  assumes "renamed s s'" and "all_done_ok s"
  shows "all_done_ok s'"
  unfolding all_done_ok_def
proof
  fix t'
  assume "t' \<in> set (rows (tasks s'))"
  then have "nameless t' \<in> set (map nameless (rows (tasks s)))"
    using assms(1) by (auto simp: renamed_def)
  then obtain t where "t \<in> set (rows (tasks s))" "nameless t' = nameless t" by auto
  then show "done_ok t'" using assms(2) done_ok_nameless [of t' t] by (simp add: all_done_ok_def)
qed

lemma set_tbl_save: "set (rows (tbl_save key x t)) \<subseteq> insert x (set (rows t))"
  by (auto simp: tbl_save_def dest: set_takeWhileD set_dropWhileD)

lemma saved_done_ok:
  assumes "all_done_ok s" and "stamps_kept s (TSave flt now t)"
  shows "done_ok (case get_task (flt 0) (t_id t) s of
                    Inl _ \<Rightarrow> t | Inr previous \<Rightarrow> t\<lparr>t_done_at := done_at_for_save now previous t\<rparr>)"
proof (cases "get_task (flt 0) (t_id t) s")
  case (Inl e)
  then show ?thesis using assms(2) by (auto simp: get_task_def split: if_splits option.splits)
next
  case (Inr previous)
  then have "previous \<in> set (rows (tasks s))"
    by (auto simp: get_task_def dest: task_rows.get_Some_D split: if_splits option.splits)
  then have "done_ok previous" using assms(1) by (simp add: all_done_ok_def)
  then show ?thesis using Inr by (auto simp: done_ok_def done_at_for_save_def)
qed

lemma all_done_ok_exec:
  assumes "all_done_ok s" and "stamps_kept s op"
  shows "all_done_ok (task_exec op s)"
proof (cases op)
  case (TCreate fuel flt kw rw t)
  show ?thesis
  proof (cases "create_task fuel flt kw rw t s")
    case (Some p)
    then obtain r s' where p: "p = (r, s')" by force
    have "all_done_ok (inserted t s)"
      using assms TCreate by (auto simp: all_done_ok_def inserted_def done_ok_def)
    with Some p create_task_renamed [of fuel flt kw rw t s r s'] assms(1) show ?thesis
      by (auto simp: TCreate intro: all_done_ok_renamed)
  qed (simp add: TCreate assms)
next
  case (TSave flt now t)
  let ?u = "case get_task (flt 0) (t_id t) s of
      Inl _ \<Rightarrow> t | Inr previous \<Rightarrow> t\<lparr>t_done_at := done_at_for_save now previous t\<rparr>"
  have "done_ok ?u" using saved_done_ok [OF assms(1)] assms(2) by (simp add: TSave)
  then have "done_ok x" if "x \<in> set (rows (tbl_save t_id ?u (tasks s)))" for x
    using assms(1) that set_tbl_save [of t_id ?u "tasks s"] unfolding all_done_ok_def by blast
  then show ?thesis
    using assms(1) by (simp add: TSave update_task_def Let_def all_done_ok_def)
next
  case (TBranch flt walk t)
  then show ?thesis using all_done_ok_renamed [OF renamed_ensure assms(1)] by simp
qed (use assms in \<open>auto simp: task_op_defs Let_def all_done_ok_def done_ok_def\<close>)

section \<open>Properties\<close>

definition demo_task :: "id \<Rightarrow> id option \<Rightarrow> string \<Rightarrow> task" where
  "demo_task i parent key = \<lparr>t_id = i, t_company = 1, t_agent = None, t_parent = parent, t_title = ''t'',
     t_ref_key = key, t_refined = [], t_status = status_todo, t_archived = False, t_run = None,
     t_orchestrator_run = None, t_branch = [], t_base_branch = [], t_project = None, t_sprint = 0,
     t_description = [], t_priority = [], t_due = None, t_created = i, t_done_at = None\<rparr>"

definition demo_db :: task_db where
  "demo_db = \<lparr>tasks = \<lparr>rows = [demo_task 1 None ''DEC-1'', demo_task 2 (Some 1) ''DEC-1-1'',
       demo_task 3 (Some 1) ''DEC-1-7''], next_key = 4\<rparr>,
     companies = \<lparr>rows = [\<lparr>co_id = 1, co_short = ''dec'', co_team = None, co_user = None\<rparr>], next_key = 2\<rparr>,
     relations = empty_table\<rparr>"

lemma demo_db_wf: "wf_table t_id (tasks demo_db)"
  by (simp add: wf_table_def demo_db_def demo_task_def)

text \<open>
  once a run has claimed a task, no other run can claim or lock it through any history
  of operations that does not unlock, delete or fully save that task: the claim stays with
  the run, and every further claim either fails in the database or reports false.
\<close>

theorem claim_is_exclusive:
  assumes "wf_table t_id (tasks s)" and "fst (claim_task_run f i run s) = Inr True"
    and "\<forall>op \<in> set ops. \<not> releases i op"
  defines "s' \<equiv> task_run ops (snd (claim_task_run f i run s))"
  shows "(\<exists>t. tbl_get t_id i (tasks s') = Some t \<and> t_run t = Some run) \<and>
         claim_task_run g i run' s' \<in> {(Inl DbFault, s'), (Inr False, s')}"
proof -
  have f: "\<not> f" and one: "tbl_affected (\<lambda>r. t_id r = i \<and> run_free r) (tasks s) = 1"
    using assms(2) by (auto simp: claim_task_run_def split: if_splits)
  obtain t where t: "tbl_get t_id i (tasks s) = Some t" "run_free t"
  proof (cases "tbl_get t_id i (tasks s)")
    case None
    then show ?thesis using one task_rows.affected_by_key [OF assms(1), of i run_free] by simp
  next
    case (Some t)
    then show ?thesis
      using one that task_rows.affected_by_key [OF assms(1), of i run_free]
      by (cases "run_free t") simp_all
  qed
  then have "tbl_get t_id i (tasks (snd (claim_task_run f i run s))) = Some (t\<lparr>t_run := Some run\<rparr>)"
    using f t task_rows.get_Some_D [OF t(1)] by (simp add: claim_task_run_def task_rows.get_update)
  moreover have "wf_table t_id (tasks (snd (claim_task_run f i run s)))"
    using wf_exec [OF assms(1), of "TClaim f i run"] by simp
  ultimately have "held_by i run (snd (claim_task_run f i run s))"
    by (simp add: held_by_def)
  then have held: "held_by i run s'" unfolding s'_def using assms(3) by (rule held_by_run)
  then obtain u where u: "wf_table t_id (tasks s')" "tbl_get t_id i (tasks s') = Some u"
      "t_run u = Some run"
    by (auto simp: held_by_def)
  have none: "tbl_affected (\<lambda>r. t_id r = i \<and> run_free r) (tasks s') = 0"
    using task_rows.affected_by_key [OF u(1), of i run_free] u(2,3) by simp
  then have "tbl_update (\<lambda>r. t_id r = i \<and> run_free r) (\<lambda>r. r\<lparr>t_run := Some run'\<rparr>) (tasks s') = tasks s'"
    by (rule update_affecting_none)
  with none u show ?thesis by (simp add: claim_task_run_def)
qed

theorem claim_is_exclusive_witness:
  "claim_task_run False 2 8
     (task_run [TClaim False 2 9, TStatus False 5 2 status_todo status_done]
        (snd (claim_task_run False 2 7 demo_db)))
   \<in> {(Inl DbFault, task_run [TClaim False 2 9, TStatus False 5 2 status_todo status_done]
        (snd (claim_task_run False 2 7 demo_db))),
      (Inr False, task_run [TClaim False 2 9, TStatus False 5 2 status_todo status_done]
        (snd (claim_task_run False 2 7 demo_db)))}"
proof -
  have "fst (claim_task_run False 2 7 demo_db) = Inr True"
    by (simp add: claim_task_run_def tbl_affected_def demo_db_def demo_task_def)
  from claim_is_exclusive [OF demo_db_wf this, THEN conjunct2] show ?thesis by simp
qed

text \<open>
  a task carries a completion time exactly while it is done; every operation keeps this,
  and neither a repeated "done" nor a full-row save without a time moves the time of a task
  that was already done.
\<close>

theorem done_stamp_kept:
  assumes "all_done_ok s" and "stamps_kept s op"
  shows "all_done_ok (task_exec op s) \<and>
         (wf_table t_id (tasks s) \<longrightarrow> tbl_get t_id i (tasks s) = Some t \<longrightarrow> t_status t = status_done \<longrightarrow>
            (\<exists>t'. tbl_get t_id i (tasks (task_exec (TStatus f now i status_done status_done) s)) = Some t' \<and>
                  t_done_at t' = t_done_at t) \<and>
            (\<forall>u. t_id u = i \<longrightarrow> t_status u = status_done \<longrightarrow> t_done_at u = None \<longrightarrow>
               (\<exists>t'. tbl_get t_id i (tasks (task_exec (TSave (\<lambda>_. False) now u) s)) = Some t' \<and>
                     t_done_at t' = t_done_at t)))"
proof -
  have "t_done_at t \<noteq> None" if "tbl_get t_id i (tasks s) = Some t" "t_status t = status_done"
    using that assms(1) by (auto simp: all_done_ok_def done_ok_def dest: task_rows.get_Some_D)
  then show ?thesis
    using all_done_ok_exec [OF assms]
    by (auto simp: set_task_status_if_def task_rows.get_update update_task_def get_task_def Let_def
        task_rows.get_save done_at_for_save_def)
qed

theorem done_stamp_kept_witness:
  "all_done_ok (task_exec (TStatus False 9 2 status_todo status_done) demo_db)"
proof -
  have "all_done_ok demo_db"
    by (simp add: all_done_ok_def demo_db_def demo_task_def done_ok_def status_todo_def status_done_def)
  from done_stamp_kept [OF this, of "TStatus False 9 2 status_todo status_done", THEN conjunct1]
  show ?thesis by simp
qed

text \<open>
  where every parent is older than its children, computing a reference key ends, with
  as many nested calls as the id of the task allows, and the key a subtask gets is one no
  other subtask of the same parent has.
\<close>

theorem subtask_key_fresh:
  assumes "parents_older s" and "t_parent t = Some p" and "p < t_id t" and "nat (t_id t) < fuel"
  shows "\<exists>r. compute_ref_key fuel walk k t s = Some r \<and>
           (\<forall>key. r = Inr key \<longrightarrow>
              (\<exists>parent_ref. key = parent_ref @ ''-'' @
                 dec_int (wrap64 (max_index (parent_ref @ ''-'')
                   (tbl_find (\<lambda>r. t_parent r = Some p \<and> t_id r \<noteq> t_id t) (tasks s)) + 1)) \<and>
               (max_index (parent_ref @ ''-'')
                   (tbl_find (\<lambda>r. t_parent r = Some p \<and> t_id r \<noteq> t_id t) (tasks s)) < 2 ^ 63 - 1 \<longrightarrow>
                (\<forall>u \<in> set (rows (tasks s)). t_parent u = Some p \<and> t_id u \<noteq> t_id t \<longrightarrow>
                   t_ref_key u \<noteq> key))))"
proof -
  let ?sib = "tbl_find (\<lambda>r. t_parent r = Some p \<and> t_id r \<noteq> t_id t) (tasks s)"
  obtain r where r: "compute_ref_key fuel walk k t s = Some r"
    using compute_ref_key_total [OF assms(1)] assms(2-4) by fastforce
  have "\<exists>parent_ref. key = (parent_ref @ ''-'') @ dec_int (wrap64 (max_index (parent_ref @ ''-'') ?sib + 1))"
    if "r = Inr key" for key
    using r that assms(2,4)
    by (cases fuel) (auto split: sum.splits option.splits if_splits)
  moreover have "t_ref_key u \<noteq> pre @ dec_int (wrap64 (max_index pre ?sib + 1))"
    if "max_index pre ?sib < 2 ^ 63 - 1" "u \<in> set (rows (tasks s))" "t_parent u = Some p" "t_id u \<noteq> t_id t"
    for pre u
  proof -
    have "wrap64 (max_index pre ?sib + 1) = max_index pre ?sib + 1"
      using that(1) max_index_ge [of pre ?sib] by (intro wrap64_id) auto
    with fresh_sibling_key [of u ?sib pre] that show ?thesis by simp
  qed
  ultimately show ?thesis using r by fastforce
qed

theorem subtask_key_fresh_witness:
  "\<exists>r. compute_ref_key 5 (\<lambda>_. False) 0 (demo_task 4 (Some 1) []) demo_db = Some r \<and>
       r = Inr ''DEC-1-8''"
proof -
  have "parents_older demo_db"
    by (simp add: parents_older_def demo_db_def demo_task_def)
  moreover have "compute_ref_key 5 (\<lambda>_. False) 0 (demo_task 4 (Some 1) []) demo_db =
      Some (Inr ''DEC-1-8'')"
    by code_simp
  ultimately show ?thesis
    using subtask_key_fresh [of demo_db "demo_task 4 (Some 1) []" 1 5 "\<lambda>_. False" 0]
    by (simp add: demo_task_def)
qed

end
