(* ===== verification/Demo_Codec.thy ===== *)
theory Demo_Codec
  imports Prelude
begin

text \<open>
  A small concrete codec for strings, integers and string maps.  The witnesses use it where
  the program calls \<open>encoding/json\<close>, to show that what the properties assume of a codec can
  hold.
\<close>

fun demo_escape :: "string \<Rightarrow> string" where
  "demo_escape [] = [CHR 0x00]"
| "demo_escape (c # cs) = CHR 0x01 # c # demo_escape cs"

fun demo_read :: "string \<Rightarrow> string \<times> string" where
  "demo_read (x # c # cs) =
     (if x = CHR 0x01 then (case demo_read cs of (s, r) \<Rightarrow> (c # s, r)) else ([], c # cs))"
| "demo_read _ = ([], [])"

definition demo_marshal :: "(string \<times> string) list \<Rightarrow> string option" where
  "demo_marshal m =
     Some (concat (map (\<lambda>(k, v). CHR 0x02 # demo_escape k @ demo_escape v) m) @ [CHR 0x03])"

fun demo_items :: "nat \<Rightarrow> string \<Rightarrow> (string \<times> string) list" where
  "demo_items (Suc n) (x # r) =
     (if x = CHR 0x02
      then (case demo_read r of (k, r1) \<Rightarrow>
            (case demo_read r1 of (v, r2) \<Rightarrow> (k, v) # demo_items n r2))
      else [])"
| "demo_items _ _ = []"

definition demo_unmarshal :: "string \<Rightarrow> (string \<times> string) list option" where
  "demo_unmarshal s = Some (demo_items (length s) s)"

lemma demo_read_escape: "r \<noteq> [] \<Longrightarrow> demo_read (demo_escape s @ r) = (s, r)"
proof (induction s)
  case Nil
  then show ?case by (cases r) auto
qed simp

lemma demo_items_marshal:
  "length m < n \<Longrightarrow> demo_items n
     (concat (map (\<lambda>(k, v). CHR 0x02 # demo_escape k @ demo_escape v) m) @ [CHR 0x03]) = m"
proof (induction m arbitrary: n)
  case Nil
  then show ?case by (cases n) simp_all
next
  case (Cons p m)
  obtain k v where p: "p = (k, v)" by force
  have "demo_escape v \<noteq> []" by (cases v) auto
  then show ?case using Cons by (cases n) (simp_all add: p demo_read_escape)
qed

lemma demo_unmarshal_marshal: "demo_marshal m = Some data \<Longrightarrow> demo_unmarshal data = Some m"
proof -
  have "length m \<le> length (concat (map (\<lambda>(k, v). CHR 0x02 # demo_escape k @ demo_escape v) m))"
    by (induction m) auto
  then show "demo_marshal m = Some data \<Longrightarrow> demo_unmarshal data = Some m"
    by (auto simp: demo_marshal_def demo_unmarshal_def demo_items_marshal less_Suc_eq_le)
qed

text \<open>Integers as a sign and a row of strokes.\<close>

definition demo_int :: "int \<Rightarrow> string" where
  "demo_int i = (if i < 0 then CHR ''-'' else CHR ''+'') # replicate (nat (abs i)) (CHR ''1'')"

definition demo_int_of :: "string \<Rightarrow> int" where
  "demo_int_of s = (case s of [] \<Rightarrow> 0 | c # cs \<Rightarrow> if c = CHR ''-'' then - int (length cs) else int (length cs))"

lemma demo_int_of_int [simp]: "demo_int_of (demo_int i) = i"
  by (simp add: demo_int_def demo_int_of_def)

end
