(* ===== verification/Run_Store.thy ===== *)
theory Run_Store
  imports Run_Events Task_Store Demo_Codec "HOL-Library.AList"
begin

text \<open>
  Runs (\<open>db/repository/run_repository.go\<close> and the models it stores): the status machine of
  a run, its recovery document with the resume lease, its log and token columns.

  Several operations read the row and later write it under a condition, so other
  operations may come in between.  Each of them is given by its write step, whose argument
  is the row as it was read (\<open>..._write\<close>), and by the whole call, which reads and writes
  without interruption.  \<open>serializer:json\<close> stores the recovery document losslessly; the
  token statistics go through the codec given as an argument.  64-bit counters wrap.
\<close>

section \<open>State\<close>

record run_recovery =
  rc_sequence :: int
  rc_version :: int
  rc_phase :: string
  rc_reason :: string
  rc_initiator :: string
  rc_target :: string
  rc_lease_owner :: string
  rc_lease_until :: "instant option"
  rc_previous_status :: string
  rc_resume_attempts :: int
  rc_last_error :: string
  rc_wait_reason :: string
  rc_wait_comment :: id
  rc_stop_cause :: string
  rc_recovery_attempts :: int

definition no_recovery :: run_recovery where
  "no_recovery = \<lparr>rc_sequence = 0, rc_version = 0, rc_phase = [], rc_reason = [],
     rc_initiator = [], rc_target = [], rc_lease_owner = [], rc_lease_until = None,
     rc_previous_status = [], rc_resume_attempts = 0, rc_last_error = [], rc_wait_reason = [],
     rc_wait_comment = 0, rc_stop_cause = [], rc_recovery_attempts = 0\<rparr>"

record run =
  rn_id :: id
  rn_task :: id
  rn_agent :: id
  rn_name :: string
  rn_title :: string
  rn_kind :: string
  rn_parent :: "id option"
  rn_root :: "id option"
  rn_reported :: string
  rn_status :: string
  rn_session :: string
  rn_log_file :: string
  rn_log_content :: string
  rn_log_entries :: string
  rn_token_stats :: string
  rn_result_description :: string
  rn_result_explanation :: string
  rn_started :: instant
  rn_ended :: "instant option"
  rn_last_message :: "instant option"
  rn_workspace :: string
  rn_recovery :: run_recovery

record status_report =
  sr_id :: id
  sr_run :: id
  sr_status :: string
  sr_message :: id
  sr_reported :: instant

record run_db =
  runs :: "run table"
  run_events :: event_table
  task_store :: task_db
  status_reports :: "status_report table"

abbreviation set_rn_id :: "int \<Rightarrow> run \<Rightarrow> run" where
  "set_rn_id i r \<equiv> r\<lparr>rn_id := i\<rparr>"

interpretation run_rows: keyed_rows rn_id set_rn_id
  by unfold_locales simp

definition st_running :: string where "st_running = ''running''"
definition st_waiting :: string where "st_waiting = ''waiting''"
definition st_failed :: string where "st_failed = ''failed''"
definition st_completed :: string where "st_completed = ''completed''"
definition st_canceled :: string where "st_canceled = ''canceled''"
definition st_paused :: string where "st_paused = ''paused''"
definition st_recoverable_failed :: string where "st_recoverable_failed = ''recoverable_failed''"
definition st_stale :: string where "st_stale = ''stale''"
definition st_resuming :: string where "st_resuming = ''resuming''"
definition checkpoint_version :: int where "checkpoint_version = 1"

lemmas status_defs = st_running_def st_waiting_def st_failed_def st_completed_def st_canceled_def
  st_paused_def st_recoverable_failed_def st_stale_def st_resuming_def

datatype run_error = ClaimArguments | ClaimInactive | UnsupportedStatus

type_synonym 'a run_op = "(run_db, run_error, 'a) db_op"

section \<open>Reading and updating one run\<close>

definition get_run :: "bool \<Rightarrow> id \<Rightarrow> run_db \<Rightarrow> run_error dberr + run" where
  "get_run fault i s =
     (if fault then Inl DbFault
      else case tbl_get rn_id i (runs s) of None \<Rightarrow> Inl NotFound | Some r \<Rightarrow> Inr r)"

definition update_run :: "id \<Rightarrow> (run \<Rightarrow> run) \<Rightarrow> run_db \<Rightarrow> run_db" where
  "update_run i f s = s\<lparr>runs := tbl_update (\<lambda>r. rn_id r = i) f (runs s)\<rparr>"

definition update_run_if :: "id \<Rightarrow> (string \<Rightarrow> bool) \<Rightarrow> (run \<Rightarrow> run) \<Rightarrow> run_db \<Rightarrow> run_db" where
  "update_run_if i p f s = s\<lparr>runs := tbl_update (\<lambda>r. rn_id r = i \<and> p (rn_status r)) f (runs s)\<rparr>"

definition affected_if :: "id \<Rightarrow> (string \<Rightarrow> bool) \<Rightarrow> run_db \<Rightarrow> nat" where
  "affected_if i p s = tbl_affected (\<lambda>r. rn_id r = i \<and> p (rn_status r)) (runs s)"

definition run_update :: "bool \<Rightarrow> id \<Rightarrow> (run \<Rightarrow> run) \<Rightarrow> unit run_op" where
  "run_update fault i f s = (if fault then (Inl DbFault, s) else (Inr (), update_run i f s))"

text \<open>Reading a run and then going on with it.\<close>

definition with_run :: "bool \<Rightarrow> id \<Rightarrow> (run \<Rightarrow> 'a run_op) \<Rightarrow> 'a run_op" where
  "with_run fault i k s = (case get_run fault i s of Inl e \<Rightarrow> (Inl e, s) | Inr r \<Rightarrow> k r s)"

definition set_recovery :: "run_recovery \<Rightarrow> run \<Rightarrow> run" where
  "set_recovery rc r = r\<lparr>rn_recovery := rc\<rparr>"

section \<open>Creation, columns and lists\<close>

definition create_run :: "bool \<Rightarrow> run \<Rightarrow> run run_op" where
  "create_run fault r s =
     (if fault then (Inl DbFault, s)
      else (case tbl_create set_rn_id r (runs s) of (r, t) \<Rightarrow> (Inr r, s\<lparr>runs := t\<rparr>)))"

definition set_run_root_id :: "bool \<Rightarrow> id \<Rightarrow> id \<Rightarrow> unit run_op" where
  "set_run_root_id fault i root = run_update fault i (\<lambda>r. r\<lparr>rn_root := Some root\<rparr>)"

definition update_run_session :: "bool \<Rightarrow> id \<Rightarrow> string \<Rightarrow> unit run_op" where
  "update_run_session fault i v = run_update fault i (\<lambda>r. r\<lparr>rn_session := v\<rparr>)"

definition update_run_workspace_path :: "bool \<Rightarrow> id \<Rightarrow> string \<Rightarrow> unit run_op" where
  "update_run_workspace_path fault i v = run_update fault i (\<lambda>r. r\<lparr>rn_workspace := v\<rparr>)"

definition update_run_log_file_path :: "bool \<Rightarrow> id \<Rightarrow> string \<Rightarrow> unit run_op" where
  "update_run_log_file_path fault i v = run_update fault i (\<lambda>r. r\<lparr>rn_log_file := v\<rparr>)"

definition update_run_name :: "bool \<Rightarrow> id \<Rightarrow> string \<Rightarrow> unit run_op" where
  "update_run_name fault i v = run_update fault i (\<lambda>r. r\<lparr>rn_name := v\<rparr>)"

definition update_run_result :: "bool \<Rightarrow> id \<Rightarrow> string \<Rightarrow> string \<Rightarrow> unit run_op" where
  "update_run_result fault i d e =
     run_update fault i (\<lambda>r. r\<lparr>rn_result_description := d, rn_result_explanation := e\<rparr>)"

definition touch_run_last_message_time :: "bool \<Rightarrow> instant \<Rightarrow> id \<Rightarrow> unit run_op" where
  "touch_run_last_message_time fault now i = run_update fault i (\<lambda>r. r\<lparr>rn_last_message := Some now\<rparr>)"

definition list_all_runs :: "run_db \<Rightarrow> run list" where
  "list_all_runs s = rows (runs s)"

definition list_runs_by_task :: "id \<Rightarrow> run_db \<Rightarrow> run list" where
  "list_runs_by_task i s = sort_key rn_started (tbl_find (\<lambda>r. rn_task r = i) (runs s))"

definition list_child_runs :: "id \<Rightarrow> run_db \<Rightarrow> run list" where
  "list_child_runs i s = sort_key rn_started (tbl_find (\<lambda>r. rn_parent r = Some i) (runs s))"

definition list_descendant_runs :: "id \<Rightarrow> run_db \<Rightarrow> run list" where
  "list_descendant_runs i s =
     sort_key rn_started (tbl_find (\<lambda>r. rn_root r = Some i \<and> rn_id r \<noteq> i) (runs s))"

definition list_orchestrator_sessions :: "id \<Rightarrow> run_db \<Rightarrow> run list" where
  "list_orchestrator_sessions i s =
     sort_key rn_started (tbl_find (\<lambda>r. rn_root r = Some i \<and> rn_id r \<noteq> i) (runs s))"

definition get_run_by_session_id :: "string \<Rightarrow> run_db \<Rightarrow> run option" where
  "get_run_by_session_id v s = tbl_first (\<lambda>r. rn_session r = v) (runs s)"

definition get_running_runs_by_task_id :: "id \<Rightarrow> run_db \<Rightarrow> run list" where
  "get_running_runs_by_task_id i s =
     tbl_find (\<lambda>r. rn_task r = i \<and> rn_status r = st_running) (runs s)"

definition get_running_runs :: "run_db \<Rightarrow> run list" where
  "get_running_runs s = tbl_find (\<lambda>r. rn_status r = st_running) (runs s)"

definition list_completed_runs_by_task :: "id \<Rightarrow> run_db \<Rightarrow> run list" where
  "list_completed_runs_by_task i s =
     sort_key rn_started (tbl_find (\<lambda>r. rn_task r = i \<and> rn_status r = st_completed \<and>
       rn_result_description r \<noteq> []) (runs s))"

definition get_runs_by_recovery_states :: "string list \<Rightarrow> run_db \<Rightarrow> run list" where
  "get_runs_by_recovery_states states s =
     (if length states = 0 then [] else tbl_find (\<lambda>r. rn_status r \<in> set states) (runs s))"

definition count_root_runs_through :: "id \<Rightarrow> id \<Rightarrow> run_db \<Rightarrow> nat" where
  "count_root_runs_through task_id root s =
     tbl_affected (\<lambda>r. rn_task r = task_id \<and> rn_parent r = None \<and> rn_id r \<le> root) (runs s)"

definition get_latest_run_by_task :: "id \<Rightarrow> run_db \<Rightarrow> run option" where
  "get_latest_run_by_task i s =
     (case sort_key (\<lambda>r. - rn_started r) (tbl_find (\<lambda>r. rn_task r = i) (runs s)) of
        [] \<Rightarrow> None | r # _ \<Rightarrow> Some r)"

definition count_subsession_runs_through ::
  "bool \<Rightarrow> id \<Rightarrow> id \<Rightarrow> id \<Rightarrow> run_db \<Rightarrow> run_error dberr + nat" where
  "count_subsession_runs_through fault root run agent s =
     (case get_run fault root s of
        Inl e \<Rightarrow> Inl e
      | Inr r \<Rightarrow>
          (let orchestrator = (case tbl_get t_id (rn_task r) (tasks (task_store s)) of
                                 None \<Rightarrow> False | Some t \<Rightarrow> t_orchestrator_run t = Some root)
           in Inr (tbl_affected (\<lambda>x. rn_root x = Some root \<and> rn_parent x \<noteq> None \<and> rn_id x \<le> run \<and>
                     rn_agent x = agent \<and> (orchestrator \<longrightarrow> rn_parent x \<noteq> Some root)) (runs s))))"

definition quiet_since :: "instant \<Rightarrow> run \<Rightarrow> bool" where
  "quiet_since cutoff r \<longleftrightarrow>
     (case rn_last_message r of None \<Rightarrow> rn_started r < cutoff | Some m \<Rightarrow> m < cutoff)"

definition get_stale_running_runs :: "instant \<Rightarrow> duration \<Rightarrow> run_db \<Rightarrow> run list" where
  "get_stale_running_runs now threshold s =
     tbl_find (\<lambda>r. rn_status r = st_running \<and> quiet_since (now - threshold) r) (runs s)"

definition is_run_stale :: "instant \<Rightarrow> duration \<Rightarrow> id \<Rightarrow> run_db \<Rightarrow> bool" where
  "is_run_stale now threshold i s \<longleftrightarrow>
     tbl_affected (\<lambda>r. rn_id r = i \<and> rn_status r = st_running \<and> quiet_since (now - threshold) r)
       (runs s) > 0"

section \<open>The orchestrator of a task\<close>

definition get_orchestrator_run :: "id \<Rightarrow> run_db \<Rightarrow> run_error dberr + run" where
  "get_orchestrator_run task_id s =
     (case tbl_get t_id task_id (tasks (task_store s)) of
        None \<Rightarrow> Inl NotFound
      | Some t \<Rightarrow>
          (case t_orchestrator_run t of None \<Rightarrow> Inl NotFound | Some i \<Rightarrow> get_run False i s))"

definition orchestrates :: "run \<Rightarrow> run_db \<Rightarrow> bool" where
  "orchestrates r s \<longleftrightarrow>
     rn_parent r = None \<and> list_ex (\<lambda>t. t_orchestrator_run t = Some (rn_id r)) (rows (tasks (task_store s)))"

definition list_waiting_orchestrators :: "run_db \<Rightarrow> run list" where
  "list_waiting_orchestrators s =
     tbl_find (\<lambda>r. orchestrates r s \<and> rn_status r \<in> {st_running, st_waiting}) (runs s)"

definition list_watchdog_orchestrators :: "run_db \<Rightarrow> run list" where
  "list_watchdog_orchestrators s =
     tbl_find (\<lambda>r. orchestrates r s \<and> rn_status r \<in> {st_running, st_waiting, st_failed, st_stale})
       (runs s)"

text \<open>\<open>rootTaskID\<close>: at most \<open>hops\<close> parents up; what cannot be read ends the walk.\<close>

fun root_task_id :: "faults \<Rightarrow> nat \<Rightarrow> nat \<Rightarrow> id \<Rightarrow> task_db \<Rightarrow> id" where
  "root_task_id walk k 0 root s = root"
| "root_task_id walk k (Suc hops) root s =
     (case get_task (walk k) root s of
        Inl _ \<Rightarrow> root
      | Inr t \<Rightarrow> (case t_parent t of None \<Rightarrow> root | Some p \<Rightarrow> root_task_id walk (Suc k) hops p s))"

definition ends_run :: "string \<Rightarrow> bool" where
  "ends_run status \<longleftrightarrow>
     status \<in> {st_completed, st_failed, st_canceled, st_stale, st_recoverable_failed}"

definition status_event :: "id \<Rightarrow> run \<Rightarrow> string \<Rightarrow> run_event" where
  "status_event root r status =
     \<lparr>ev_id = 0, ev_task = root, ev_run = rn_id r, ev_source = None, ev_target = None,
      ev_reply = None, ev_type = ''run_status'', ev_payload = status,
      ev_dedupe = ''run:'' @ dec_int (rn_id r) @ '':status:'' @ status,
      ev_created = 0, ev_consumed = None\<rparr>"

definition update_run_log_write ::
  "faults \<Rightarrow> faults \<Rightarrow> faults \<Rightarrow> instant \<Rightarrow> run \<Rightarrow> string \<Rightarrow> string \<Rightarrow> unit run_op" where
  "update_run_log_write flt walk eflt now r content status s =
     (if flt 1 then (Inl DbFault, s)
      else (let s = (if ends_run status
                     then update_run (rn_id r) (\<lambda>x. x\<lparr>rn_log_content := content, rn_status := status,
                            rn_ended := Some now\<rparr>) s
                     else s\<lparr>runs := tbl_save rn_id (r\<lparr>rn_log_content := content, rn_status := status\<rparr>)
                                     (runs s)\<rparr>)
            in if rn_parent r = None then (Inr (), s)
               else (case enqueue_run_event_returning eflt now
                       (status_event (root_task_id walk 0 20 (rn_task r) (task_store s)) r status)
                       (run_events s) of
                       (Inl _, t) \<Rightarrow> (Inl DbFault, s\<lparr>run_events := t\<rparr>)
                     | (Inr _, t) \<Rightarrow> (Inr (), s\<lparr>run_events := t\<rparr>))))"

definition update_run_log ::
  "faults \<Rightarrow> faults \<Rightarrow> faults \<Rightarrow> instant \<Rightarrow> id \<Rightarrow> string \<Rightarrow> string \<Rightarrow> unit run_op" where
  "update_run_log flt walk eflt now i content status =
     with_run (flt 0) i (\<lambda>r. update_run_log_write flt walk eflt now r content status)"

section \<open>Status changes\<close>

definition mark_run_stale_write :: "bool \<Rightarrow> instant \<Rightarrow> run \<Rightarrow> string \<Rightarrow> bool run_op" where
  "mark_run_stale_write fault now r reason s =
     (if rn_status r \<noteq> st_running then (Inr False, s)
      else if fault then (Inl DbFault, s)
      else (Inr (affected_if (rn_id r) (\<lambda>st. st = st_running) s = 1),
            update_run_if (rn_id r) (\<lambda>st. st = st_running)
              (\<lambda>x. x\<lparr>rn_status := st_stale, rn_ended := Some now,
                      rn_recovery := (rn_recovery r)\<lparr>rc_reason := reason\<rparr>\<rparr>) s))"

definition mark_run_stale :: "faults \<Rightarrow> instant \<Rightarrow> id \<Rightarrow> string \<Rightarrow> bool run_op" where
  "mark_run_stale flt now i reason =
     with_run (flt 0) i (\<lambda>r. mark_run_stale_write (flt 1) now r reason)"

definition set_run_wait_state_for_comment :: "faults \<Rightarrow> id \<Rightarrow> string \<Rightarrow> id \<Rightarrow> unit run_op" where
  "set_run_wait_state_for_comment flt i reason comment =
     with_run (flt 0) i (\<lambda>r. run_update (flt 1) i
       (\<lambda>x. x\<lparr>rn_status := st_waiting,
               rn_recovery := (rn_recovery r)\<lparr>rc_wait_reason := reason, rc_wait_comment := comment\<rparr>\<rparr>))"

definition set_run_wait_state :: "faults \<Rightarrow> id \<Rightarrow> string \<Rightarrow> unit run_op" where
  "set_run_wait_state flt i reason = set_run_wait_state_for_comment flt i reason 0"

definition dormant :: "string \<Rightarrow> bool" where
  "dormant st \<longleftrightarrow> st \<in> {st_waiting, st_failed, st_stale, st_resuming}"

definition set_run_active_write :: "bool \<Rightarrow> instant \<Rightarrow> run \<Rightarrow> unit run_op" where
  "set_run_active_write fault now r s =
     (if \<not> dormant (rn_status r) then (Inr (), s)
      else if fault then (Inl DbFault, s)
      else (Inr (), update_run_if (rn_id r) dormant
              (\<lambda>x. x\<lparr>rn_status := st_running, rn_ended := None, rn_last_message := Some now,
                      rn_recovery := (rn_recovery r)\<lparr>rc_wait_reason := [], rc_wait_comment := 0\<rparr>\<rparr>) s))"

definition set_run_active :: "faults \<Rightarrow> instant \<Rightarrow> id \<Rightarrow> unit run_op" where
  "set_run_active flt now i = with_run (flt 0) i (\<lambda>r. set_run_active_write (flt 1) now r)"

definition set_run_running :: "faults \<Rightarrow> instant \<Rightarrow> id \<Rightarrow> unit run_op" where
  "set_run_running flt now i = set_run_active flt now i"

definition set_run_stop_cause :: "faults \<Rightarrow> id \<Rightarrow> string \<Rightarrow> unit run_op" where
  "set_run_stop_cause flt i cause =
     with_run (flt 0) i (\<lambda>r. run_update (flt 1) i
       (set_recovery ((rn_recovery r)\<lparr>rc_stop_cause := cause\<rparr>)))"

definition increment_run_recovery_attempts :: "faults \<Rightarrow> id \<Rightarrow> unit run_op" where
  "increment_run_recovery_attempts flt i =
     with_run (flt 0) i (\<lambda>r. run_update (flt 1) i
       (set_recovery ((rn_recovery r)\<lparr>rc_recovery_attempts :=
          wrap64 (rc_recovery_attempts (rn_recovery r) + 1)\<rparr>)))"

section \<open>Pausing and resuming\<close>

definition pause_run_with_metadata ::
  "faults \<Rightarrow> id \<Rightarrow> int \<Rightarrow> string \<Rightarrow> string \<Rightarrow> string \<Rightarrow> string \<Rightarrow> unit run_op" where
  "pause_run_with_metadata flt i sequence reason initiator target phase =
     with_run (flt 0) i (\<lambda>r. run_update (flt 1) i
       (\<lambda>x. x\<lparr>rn_status := st_paused,
               rn_recovery := no_recovery\<lparr>rc_sequence := sequence, rc_version := checkpoint_version,
                 rc_phase := phase, rc_reason := reason, rc_initiator := initiator,
                 rc_target := target, rc_resume_attempts := rc_resume_attempts (rn_recovery r),
                 rc_wait_reason := rc_wait_reason (rn_recovery r),
                 rc_wait_comment := rc_wait_comment (rn_recovery r)\<rparr>\<rparr>))"

definition claimed_recovery ::
  "string \<Rightarrow> string \<Rightarrow> string \<Rightarrow> instant \<Rightarrow> int \<Rightarrow> run_recovery \<Rightarrow> run_recovery" where
  "claimed_recovery owner cause previous lease sequence rc =
     rc\<lparr>rc_sequence := sequence, rc_version := checkpoint_version, rc_lease_owner := owner,
        rc_lease_until := Some lease, rc_previous_status := previous,
        rc_resume_attempts := wrap64 (rc_resume_attempts rc + 1), rc_last_error := [],
        rc_reason := cause\<rparr>"

definition lease_live :: "instant \<Rightarrow> run_recovery \<Rightarrow> bool" where
  "lease_live now rc \<longleftrightarrow> (case rc_lease_until rc of None \<Rightarrow> False | Some l \<Rightarrow> l > now)"

definition claim_run_for_resume_write ::
  "bool \<Rightarrow> instant \<Rightarrow> run \<Rightarrow> string \<Rightarrow> string \<Rightarrow> string \<Rightarrow> instant \<Rightarrow> string list \<Rightarrow> int \<Rightarrow> bool run_op"
where
  "claim_run_for_resume_write fault now r owner cause previous lease allowed sequence s =
     (if rn_status r \<notin> set allowed \<or> lease_live now (rn_recovery r) then (Inr False, s)
      else if fault then (Inl DbFault, s)
      else (let previous = (if previous = [] then rn_status r else previous)
            in (Inr (affected_if (rn_id r) (\<lambda>st. st \<in> set allowed) s = 1),
                update_run_if (rn_id r) (\<lambda>st. st \<in> set allowed)
                  (\<lambda>x. x\<lparr>rn_status := st_resuming, rn_recovery :=
                     claimed_recovery owner cause previous lease sequence (rn_recovery r)\<rparr>) s)))"

definition claim_run_for_resume ::
  "faults \<Rightarrow> instant \<Rightarrow> id \<Rightarrow> string \<Rightarrow> string \<Rightarrow> string \<Rightarrow> instant \<Rightarrow> string list \<Rightarrow> int \<Rightarrow> bool run_op"
where
  "claim_run_for_resume flt now i owner cause previous lease allowed sequence s =
     (if owner = [] \<or> length allowed = 0 then (Inl (Refused ClaimArguments), s)
      else with_run (flt 0) i (\<lambda>r. claim_run_for_resume_write (flt 1) now r owner cause previous
             lease allowed sequence) s)"

text \<open>The loop of \<open>ReclaimExpiredResumeLeases\<close> over the rows it listed.\<close>

definition lease_expired :: "instant \<Rightarrow> run \<Rightarrow> bool" where
  "lease_expired now r \<longleftrightarrow>
     (case rc_lease_until (rn_recovery r) of None \<Rightarrow> False | Some l \<Rightarrow> l < now)"

definition reclaim_write :: "run \<Rightarrow> run_db \<Rightarrow> run_db" where
  "reclaim_write r s =
     (let status = rc_previous_status (rn_recovery r);
          status = (if status = [] then st_paused else status)
      in update_run_if (rn_id r) (\<lambda>st. st = st_resuming)
           (\<lambda>x. x\<lparr>rn_status := status, rn_recovery := (rn_recovery r)\<lparr>rc_lease_owner := [],
                    rc_lease_until := None, rc_previous_status := []\<rparr>\<rparr>) s)"

fun reclaim_loop :: "faults \<Rightarrow> nat \<Rightarrow> instant \<Rightarrow> run list \<Rightarrow> unit run_op" where
  "reclaim_loop flt k now [] s = (Inr (), s)"
| "reclaim_loop flt k now (r # rs) s =
     (if \<not> lease_expired now r then reclaim_loop flt k now rs s
      else if flt k then (Inl DbFault, s)
      else reclaim_loop flt (Suc k) now rs (reclaim_write r s))"

definition reclaim_expired_resume_leases :: "faults \<Rightarrow> instant \<Rightarrow> unit run_op" where
  "reclaim_expired_resume_leases flt now s =
     (if flt 0 then (Inl DbFault, s)
      else reclaim_loop flt 1 now (tbl_find (\<lambda>r. rn_status r = st_resuming) (runs s)) s)"

definition mark_run_resume_started_write :: "bool \<Rightarrow> instant \<Rightarrow> run \<Rightarrow> string \<Rightarrow> unit run_op" where
  "mark_run_resume_started_write fault now r owner s =
     (if rn_status r \<noteq> st_resuming \<or> rc_lease_owner (rn_recovery r) \<noteq> owner
      then (Inl (Refused ClaimInactive), s)
      else if fault then (Inl DbFault, s)
      else (let s' = update_run_if (rn_id r) (\<lambda>st. st = st_resuming)
                  (\<lambda>x. x\<lparr>rn_status := st_running, rn_last_message := Some now, rn_ended := None,
                          rn_recovery := (rn_recovery r)\<lparr>rc_lease_owner := [],
                            rc_lease_until := None\<rparr>\<rparr>) s
            in if affected_if (rn_id r) (\<lambda>st. st = st_resuming) s \<noteq> 1
               then (Inl (Refused ClaimInactive), s') else (Inr (), s')))"

definition mark_run_resume_started :: "faults \<Rightarrow> instant \<Rightarrow> id \<Rightarrow> string \<Rightarrow> unit run_op" where
  "mark_run_resume_started flt now i owner =
     with_run (flt 0) i (\<lambda>r. mark_run_resume_started_write (flt 1) now r owner)"

definition update_run_recovery_metadata ::
  "faults \<Rightarrow> id \<Rightarrow> string \<Rightarrow> string \<Rightarrow> string \<Rightarrow> unit run_op" where
  "update_run_recovery_metadata flt i reason initiator target =
     with_run (flt 0) i (\<lambda>r. run_update (flt 1) i
       (set_recovery ((rn_recovery r)\<lparr>rc_reason := reason, rc_initiator := initiator,
          rc_target := target\<rparr>)))"

definition record_resume_error :: "faults \<Rightarrow> id \<Rightarrow> string \<Rightarrow> string \<Rightarrow> unit run_op" where
  "record_resume_error flt i err recoverable =
     (let recoverable = (if recoverable = [] then st_paused else recoverable)
      in with_run (flt 0) i (\<lambda>r. run_update (flt 1) i
           (\<lambda>x. x\<lparr>rn_status := recoverable, rn_recovery := (rn_recovery r)\<lparr>rc_last_error := err,
                    rc_lease_owner := [], rc_lease_until := None\<rparr>\<rparr>)))"

definition clear_run_checkpoint :: "faults \<Rightarrow> id \<Rightarrow> unit run_op" where
  "clear_run_checkpoint flt i =
     with_run (flt 0) i (\<lambda>r. run_update (flt 1) i
       (set_recovery (no_recovery\<lparr>rc_resume_attempts := rc_resume_attempts (rn_recovery r)\<rparr>)))"

definition mark_run_recoverable :: "faults \<Rightarrow> id \<Rightarrow> string \<Rightarrow> int \<Rightarrow> string \<Rightarrow> unit run_op" where
  "mark_run_recoverable flt i status sequence reason s =
     (if status \<noteq> st_recoverable_failed \<and> status \<noteq> st_stale
      then (Inl (Refused UnsupportedStatus), s)
      else with_run (flt 0) i (\<lambda>r. run_update (flt 1) i
             (\<lambda>x. x\<lparr>rn_status := status, rn_recovery := (rn_recovery r)\<lparr>rc_sequence := sequence,
                      rc_version := checkpoint_version, rc_phase := ''after_tools'',
                      rc_reason := reason\<rparr>\<rparr>)) s)"

section \<open>Token statistics\<close>

record token_stats =
  ts_prompt :: int
  ts_completion :: int
  ts_reasoning :: int
  ts_tool_input :: int
  ts_tool_output :: int
  ts_cached :: int
  ts_total :: int
  ts_mcp :: int
  ts_mcp_servers :: "(string \<times> int) list"

definition zero_stats :: token_stats where
  "zero_stats = \<lparr>ts_prompt = 0, ts_completion = 0, ts_reasoning = 0, ts_tool_input = 0,
     ts_tool_output = 0, ts_cached = 0, ts_total = 0, ts_mcp = 0, ts_mcp_servers = []\<rparr>"

definition stats_empty :: "token_stats \<Rightarrow> bool" where
  "stats_empty t \<longleftrightarrow> ts_prompt t = 0 \<and> ts_completion t = 0 \<and> ts_reasoning t = 0 \<and>
     ts_tool_input t = 0 \<and> ts_tool_output t = 0 \<and> ts_cached t = 0 \<and> ts_mcp t = 0 \<and>
     length (ts_mcp_servers t) = 0"

definition add_server :: "string \<times> int \<Rightarrow> (string \<times> int) list \<Rightarrow> (string \<times> int) list" where
  "add_server = (\<lambda>(k, v) m. AList.update k
     (wrap64 ((case map_of m k of None \<Rightarrow> 0 | Some w \<Rightarrow> w) + v)) m)"

definition add_stats :: "token_stats \<Rightarrow> token_stats \<Rightarrow> token_stats" where
  "add_stats delta cur =
     (let p = wrap64 (ts_prompt cur + ts_prompt delta);
          c = wrap64 (ts_completion cur + ts_completion delta);
          r = wrap64 (ts_reasoning cur + ts_reasoning delta);
          i = wrap64 (ts_tool_input cur + ts_tool_input delta);
          out = wrap64 (ts_tool_output cur + ts_tool_output delta)
      in \<lparr>ts_prompt = p, ts_completion = c, ts_reasoning = r, ts_tool_input = i,
          ts_tool_output = out, ts_cached = wrap64 (ts_cached cur + ts_cached delta),
          ts_total = wrap64 (p + c + r + i + out), ts_mcp = wrap64 (ts_mcp cur + ts_mcp delta),
          ts_mcp_servers = fold add_server (ts_mcp_servers delta) (ts_mcp_servers cur)\<rparr>)"

text \<open>
  \<open>unmarshal\<close> gives the statistics the decoder filled in and whether it reported no error;
  \<open>AddRunTokenStats\<close> ignores the error, \<open>GetRunTokenStats\<close> answers zero then.
\<close>

definition get_run_token_stats ::
  "(string \<Rightarrow> token_stats \<times> bool) \<Rightarrow> bool \<Rightarrow> id \<Rightarrow> run_db \<Rightarrow> run_error dberr + token_stats" where
  "get_run_token_stats unmarshal fault i s =
     (case get_run fault i s of
        Inl e \<Rightarrow> Inl e
      | Inr r \<Rightarrow>
          if rn_token_stats r = [] then Inr zero_stats
          else (case unmarshal (rn_token_stats r) of (t, ok) \<Rightarrow> Inr (if ok then t else zero_stats)))"

definition add_run_token_stats ::
  "(token_stats \<Rightarrow> string) \<Rightarrow> (string \<Rightarrow> token_stats \<times> bool) \<Rightarrow> faults \<Rightarrow> id \<Rightarrow> token_stats \<Rightarrow>
   unit run_op" where
  "add_run_token_stats marshal unmarshal flt i delta s =
     (if stats_empty delta then (Inr (), s)
      else transaction (flt 2)
        (with_run (flt 0) i (\<lambda>r.
           (let cur = (if rn_token_stats r = [] then zero_stats else fst (unmarshal (rn_token_stats r)))
            in run_update (flt 1) i (\<lambda>x. x\<lparr>rn_token_stats := marshal (add_stats delta cur)\<rparr>)))) s)"

section \<open>The log column\<close>

text \<open>
  An entry is its JSON text; \<open>unmarshal\<close> reads the texts of the entries of an array.  On
  PostgreSQL the text is extended in place, elsewhere it is decoded and encoded again.
\<close>

fun join_entries :: "string list \<Rightarrow> string" where
  "join_entries [] = []"
| "join_entries [e] = e"
| "join_entries (e # es) = e @ '','' @ join_entries es"

definition marshal_entries :: "string list \<Rightarrow> string" where
  "marshal_entries es = ''['' @ join_entries es @ '']''"

definition blanks_trimmed :: "string \<Rightarrow> string" where
  "blanks_trimmed s = rev (dropWhile (\<lambda>c. c = CHR '' '') (rev (dropWhile (\<lambda>c. c = CHR '' '') s)))"

definition append_text :: "string \<Rightarrow> string \<Rightarrow> string" where
  "append_text log entry =
     (let r = rev (dropWhile (\<lambda>c. c = CHR '' '') (rev log))
      in if blanks_trimmed log = [] \<or> blanks_trimmed log = ''[]'' then ''['' @ entry @ '']''
         else take (length r - 1) r @ '','' @ entry @ '']'')"

definition append_decoded :: "(string \<Rightarrow> string list) \<Rightarrow> string \<Rightarrow> string \<Rightarrow> string" where
  "append_decoded unmarshal log entry =
     (let entries = (if log \<noteq> [] then unmarshal log else [])
      in marshal_entries (entries @ [entry]))"

definition append_run_log_entry ::
  "bool \<Rightarrow> (string \<Rightarrow> string list) \<Rightarrow> faults \<Rightarrow> id \<Rightarrow> string \<Rightarrow> unit run_op" where
  "append_run_log_entry postgres unmarshal flt i entry s =
     (if postgres
      then run_update (flt 0) i (\<lambda>x. x\<lparr>rn_log_entries := append_text (rn_log_entries x) entry\<rparr>) s
      else transaction (flt 2)
        (with_run (flt 0) i (\<lambda>r. run_update (flt 1) i
           (\<lambda>x. x\<lparr>rn_log_entries := append_decoded unmarshal (rn_log_entries r) entry\<rparr>))) s)"

section \<open>Lemmas\<close>

lemma update_run_get [simp]:
  assumes "\<And>r. rn_id (f r) = rn_id r"
  shows "tbl_get rn_id j (runs (update_run i f s)) =
         map_option (\<lambda>r. if j = i then f r else r) (tbl_get rn_id j (runs s))"
  using assms run_rows.get_Some_D
  by (cases "tbl_get rn_id j (runs s)") (fastforce simp: update_run_def run_rows.get_update)+

lemma update_run_if_get:
  assumes "\<And>r. rn_id (f r) = rn_id r"
  shows "tbl_get rn_id j (runs (update_run_if i p f s)) =
         map_option (\<lambda>r. if j = i \<and> p (rn_status r) then f r else r) (tbl_get rn_id j (runs s))"
  using assms run_rows.get_Some_D
  by (cases "tbl_get rn_id j (runs s)") (fastforce simp: update_run_if_def run_rows.get_update)+

lemma wf_update_run:
  "(\<And>r. rn_id (f r) = rn_id r) \<Longrightarrow> wf_table rn_id (runs s) \<Longrightarrow> wf_table rn_id (runs (update_run i f s))"
  by (simp add: update_run_def run_rows.wf_update)

lemma wf_update_run_if:
  "(\<And>r. rn_id (f r) = rn_id r) \<Longrightarrow> wf_table rn_id (runs s) \<Longrightarrow>
   wf_table rn_id (runs (update_run_if i p f s))"
  by (simp add: update_run_if_def run_rows.wf_update)

lemma affected_if_get:
  "wf_table rn_id (runs s) \<Longrightarrow>
   affected_if i p s = (case tbl_get rn_id i (runs s) of
                          None \<Rightarrow> 0 | Some r \<Rightarrow> if p (rn_status r) then 1 else 0)"
  unfolding affected_if_def by (rule run_rows.affected_by_key)

text \<open>The status of a run, which a conditional write changes only from a state it expects.\<close>

definition status_of :: "id \<Rightarrow> run_db \<Rightarrow> string option" where
  "status_of i s = map_option rn_status (tbl_get rn_id i (runs s))"

lemma status_of_update_if:
  assumes "\<And>r. rn_id (f r) = rn_id r" and "\<And>r. rn_status (f r) = st"
  shows "status_of j (update_run_if i p f s) =
         map_option (\<lambda>x. if j = i \<and> p x then st else x) (status_of j s)"
  using assms by (cases "tbl_get rn_id j (runs s)") (simp_all add: status_of_def update_run_if_get)

lemma status_of_update:
  assumes "\<And>r. rn_id (f r) = rn_id r" and "\<And>r. rn_status (f r) = rn_status r"
  shows "status_of j (update_run i f s) = status_of j s"
  using assms by (cases "tbl_get rn_id j (runs s)") (simp_all add: status_of_def)

interpretation stale_shot: one_shot "\<lambda>r. rn_status r = st_running"
  "\<lambda>r. r\<lparr>rn_status := st_stale, rn_ended := e, rn_recovery := rc\<rparr>" for e rc
  by unfold_locales (simp add: status_defs)

section \<open>Who may be resumed\<close>

text \<open>The causes of \<open>engine/native_engine.go\<close> and the states each may claim a run from.\<close>

datatype resume_cause = ResumeAfterUpdate | ResumeAfterFailure | ResumeAfterStale | ResumeAfterHuman

definition default_cause :: "string \<Rightarrow> resume_cause" where
  "default_cause status =
     (if status = st_recoverable_failed \<or> status = st_failed then ResumeAfterFailure
      else if status = st_stale then ResumeAfterStale else ResumeAfterUpdate)"

definition allowed_states :: "resume_cause \<Rightarrow> string list" where
  "allowed_states cause =
     (case cause of
        ResumeAfterFailure \<Rightarrow> [st_recoverable_failed, st_failed]
      | ResumeAfterStale \<Rightarrow> [st_stale]
      | ResumeAfterUpdate \<Rightarrow> [st_paused]
      | ResumeAfterHuman \<Rightarrow> [st_paused])"

lemma allowed_states_cases:
  "st \<in> set (allowed_states cause) \<Longrightarrow> st \<in> {st_paused, st_stale, st_recoverable_failed, st_failed}"
  by (cases cause) (auto simp: allowed_states_def)

section \<open>Interleaved writes\<close>

text \<open>
  The write steps that other operations may come between, each with a row read at any
  earlier time.  \<open>WRecovery\<close> stands for the calls that rewrite only the recovery document,
  \<open>WTouch\<close> for those that write a column the status machine does not look at.
\<close>

datatype run_write =
    WCreate bool run
  | WTouch bool instant id
  | WRecovery bool id run_recovery
  | WStale bool instant run string
  | WActive bool instant run
  | WClaim bool instant run string string string instant resume_cause int
  | WReclaim run
  | WStarted bool instant run string

fun run_write_exec :: "run_write \<Rightarrow> run_db \<Rightarrow> run_db" where
  "run_write_exec (WCreate f r) s = snd (create_run f r s)"
| "run_write_exec (WTouch f now i) s = snd (touch_run_last_message_time f now i s)"
| "run_write_exec (WRecovery f i rc) s = snd (run_update f i (set_recovery rc) s)"
| "run_write_exec (WStale f now r reason) s = snd (mark_run_stale_write f now r reason s)"
| "run_write_exec (WActive f now r) s = snd (set_run_active_write f now r s)"
| "run_write_exec (WClaim f now r owner cs previous lease cause sequence) s =
     snd (claim_run_for_resume_write f now r owner cs previous lease (allowed_states cause) sequence s)"
| "run_write_exec (WReclaim r) s = reclaim_write r s"
| "run_write_exec (WStarted f now r owner) s = snd (mark_run_resume_started_write f now r owner s)"

definition run_writes :: "run_write list \<Rightarrow> run_db \<Rightarrow> run_db" where
  "run_writes ws s = fold run_write_exec ws s"

lemma status_of_create:
  assumes "status_of i s = Some st"
  shows "status_of i (snd (create_run f r s)) = Some st"
proof -
  obtain x where "tbl_get rn_id i (runs s) = Some x" "rn_status x = st"
    using assms by (auto simp: status_of_def)
  then show ?thesis
    using run_rows.get_create_old [of i "runs s" x r]
    by (simp add: create_run_def status_of_def case_prod_beta)
qed

text \<open>The states a write step can move a run out of.\<close>

fun leaves :: "id \<Rightarrow> run_write \<Rightarrow> string \<Rightarrow> bool" where
  "leaves i (WStale _ _ r _) st \<longleftrightarrow> rn_id r = i \<and> st = st_running"
| "leaves i (WActive _ _ r) st \<longleftrightarrow> rn_id r = i \<and> dormant st"
| "leaves i (WClaim _ _ r _ _ _ _ cause _) st \<longleftrightarrow> rn_id r = i \<and> st \<in> set (allowed_states cause)"
| "leaves i (WReclaim r) st \<longleftrightarrow> rn_id r = i \<and> st = st_resuming"
| "leaves i (WStarted _ _ r _) st \<longleftrightarrow> rn_id r = i \<and> st = st_resuming"
| "leaves i _ st \<longleftrightarrow> False"

lemma run_write_keeps_status:
  assumes "status_of i s = Some st" and "\<not> leaves i w st"
  shows "status_of i (run_write_exec w s) = Some st"
proof (cases w)
  case (WCreate f r)
  then show ?thesis using status_of_create [OF assms(1)] by simp
next
  case (WTouch f now j)
  have "status_of i (update_run j (\<lambda>r. r\<lparr>rn_last_message := Some now\<rparr>) s) = status_of i s"
    by (rule status_of_update) simp_all
  then show ?thesis using assms(1) by (simp add: WTouch touch_run_last_message_time_def run_update_def)
next
  case (WRecovery f j rc)
  have "status_of i (update_run j (set_recovery rc) s) = status_of i s"
    by (rule status_of_update) (simp_all add: set_recovery_def)
  then show ?thesis using assms(1) by (simp add: WRecovery run_update_def)
next
  case (WStale f now r reason)
  then show ?thesis using assms
    by (auto simp: mark_run_stale_write_def status_of_update_if [where st = st_stale])
next
  case (WActive f now r)
  then show ?thesis using assms
    by (auto simp: set_run_active_write_def status_of_update_if [where st = st_running])
next
  case (WClaim f now r owner cs previous lease cause sequence)
  then show ?thesis using assms
    by (auto simp: claim_run_for_resume_write_def Let_def status_of_update_if [where st = st_resuming])
next
  case (WReclaim r)
  let ?st = "if rc_previous_status (rn_recovery r) = [] then st_paused
    else rc_previous_status (rn_recovery r)"
  show ?thesis using assms
    by (auto simp: WReclaim reclaim_write_def Let_def status_of_update_if [where st = ?st])
next
  case (WStarted f now r owner)
  then show ?thesis using assms
    by (auto simp: mark_run_resume_started_write_def Let_def status_of_update_if [where st = st_running])
qed

lemma run_writes_keep_status:
  "status_of i s = Some st \<Longrightarrow> \<forall>w \<in> set ws. \<not> leaves i w st \<Longrightarrow>
   status_of i (run_writes ws s) = Some st"
  unfolding run_writes_def by (induction ws arbitrary: s) (simp_all add: run_write_keeps_status)

lemma terminal_never_left:
  "st \<in> {st_completed, st_canceled} \<Longrightarrow> \<not> leaves i w st"
  by (cases w) (auto simp: dormant_def status_defs allowed_states_def split: resume_cause.splits)

text \<open>A claim on a run that is not in an allowed state changes nothing.\<close>

lemma claim_refused:
  assumes "wf_table rn_id (runs s)" and "status_of (rn_id r) s = Some st"
    and "st \<notin> set allowed"
  shows "claim_run_for_resume_write f now r owner cs previous lease allowed sequence s
           \<in> {(Inl DbFault, s), (Inr False, s)}"
proof -
  have zero: "affected_if (rn_id r) (\<lambda>st. st \<in> set allowed) s = 0"
    using assms by (auto simp: affected_if_get status_of_def)
  then have "update_run_if (rn_id r) (\<lambda>st. st \<in> set allowed) g s = s" for g
    unfolding affected_if_def update_run_if_def by (simp add: update_affecting_none)
  with zero show ?thesis by (simp add: claim_run_for_resume_write_def Let_def)
qed

lemma wf_run_write: "wf_table rn_id (runs s) \<Longrightarrow> wf_table rn_id (runs (run_write_exec w s))"
  by (cases w)
    (auto simp: create_run_def case_prod_beta touch_run_last_message_time_def run_update_def
      mark_run_stale_write_def set_run_active_write_def claim_run_for_resume_write_def
      reclaim_write_def mark_run_resume_started_write_def Let_def set_recovery_def
      run_rows.wf_create wf_update_run wf_update_run_if)

lemma wf_run_writes: "wf_table rn_id (runs s) \<Longrightarrow> wf_table rn_id (runs (run_writes ws s))"
  unfolding run_writes_def by (induction ws arbitrary: s) (simp_all add: wf_run_write)

section \<open>Reclaiming leases\<close>

definition reclaimed :: "run \<Rightarrow> run \<Rightarrow> run" where
  "reclaimed r x =
     x\<lparr>rn_status := (if rc_previous_status (rn_recovery r) = [] then st_paused
                      else rc_previous_status (rn_recovery r)),
       rn_recovery := (rn_recovery r)\<lparr>rc_lease_owner := [], rc_lease_until := None,
         rc_previous_status := []\<rparr>\<rparr>"

lemma reclaim_write_get:
  "tbl_get rn_id i (runs (reclaim_write r s)) =
   map_option (\<lambda>x. if i = rn_id r \<and> rn_status x = st_resuming then reclaimed r x else x)
     (tbl_get rn_id i (runs s))"
  unfolding reclaim_write_def Let_def reclaimed_def by (rule update_run_if_get) simp

lemma reclaim_loop_get:
  assumes "distinct (map rn_id rs)"
  shows "tbl_get rn_id i (runs (snd (reclaim_loop no_faults k now rs s))) =
         (case List.find (\<lambda>r. rn_id r = i) rs of
            None \<Rightarrow> tbl_get rn_id i (runs s)
          | Some r \<Rightarrow>
              if lease_expired now r
              then map_option (\<lambda>x. if rn_status x = st_resuming then reclaimed r x else x)
                     (tbl_get rn_id i (runs s))
              else tbl_get rn_id i (runs s))"
  using assms
proof (induction rs arbitrary: k s)
  case (Cons r rs)
  show ?case
  proof (cases "rn_id r = i")
    case True
    then have "List.find (\<lambda>r. rn_id r = i) rs = None"
      using Cons.prems by (force simp: find_None_iff image_iff)
    then show ?thesis using Cons True by (simp add: reclaim_write_get)
  next
    case False
    then have "tbl_get rn_id i (runs (reclaim_write r s)) = tbl_get rn_id i (runs s)"
      by (cases "tbl_get rn_id i (runs s)") (simp_all add: reclaim_write_get)
    then show ?thesis using Cons False by (simp split: option.split)
  qed
qed simp

lemma reclaim_get:
  assumes "wf_table rn_id (runs s)" and "tbl_get rn_id i (runs s) = Some r"
    and "rn_status r = st_resuming"
  shows "tbl_get rn_id i (runs (snd (reclaim_expired_resume_leases no_faults now s))) =
         Some (if lease_expired now r then reclaimed r r else r)"
proof -
  let ?rs = "tbl_find (\<lambda>r. rn_status r = st_resuming) (runs s)"
  have "distinct (map rn_id (rows (runs s)))"
    using assms(1) strict_sorted_iff by (auto simp: wf_table_def)
  then have d: "distinct (map rn_id ?rs)" by (simp add: tbl_find_def distinct_map_filter)
  have "r \<in> set (rows (runs s))" "rn_id r = i" using run_rows.get_Some_D [OF assms(2)] by auto
  then have "List.find (\<lambda>x. rn_id x = i) ?rs \<noteq> None"
    using assms(3) by (auto simp: find_None_iff)
  then obtain x where x: "List.find (\<lambda>x. rn_id x = i) ?rs = Some x" by blast
  then have "x \<in> set (rows (runs s))" "rn_id x = i" by (auto dest: find_Some_D)
  then have "x = r"
    using run_rows.key_inj [OF assms(1)] run_rows.get_Some_D [OF assms(2)] by blast
  then show ?thesis
    using reclaim_loop_get [OF d, of i 1 now s] x assms(2,3)
    by (simp add: reclaim_expired_resume_leases_def)
qed

section \<open>Properties\<close>

definition demo_run :: "id \<Rightarrow> string \<Rightarrow> run" where
  "demo_run i st = \<lparr>rn_id = i, rn_task = 1, rn_agent = 1, rn_name = [], rn_title = [], rn_kind = [],
     rn_parent = None, rn_root = Some i, rn_reported = [], rn_status = st, rn_session = [], rn_log_file = [],
     rn_log_content = [], rn_log_entries = [], rn_token_stats = [], rn_result_description = [],
     rn_result_explanation = [], rn_started = 0, rn_ended = None, rn_last_message = None,
     rn_workspace = [], rn_recovery = no_recovery\<rparr>"

definition demo_runs :: run_db where
  "demo_runs = \<lparr>runs = \<lparr>rows = [demo_run 1 st_paused, demo_run 2 st_completed], next_key = 3\<rparr>,
     run_events = empty_table, task_store = demo_db, status_reports = empty_table\<rparr>"

lemma demo_runs_wf: "wf_table rn_id (runs demo_runs)"
  by (simp add: wf_table_def demo_runs_def demo_run_def)

text \<open>
  a completed or cancelled run is never revived by the monitors and the resume
  machinery: through every interleaving of staleness marks, activations, resume claims,
  lease reclaims and resume starts, each acting on a row it read at any earlier time, the
  run keeps its status, and every resume claim on it fails.
\<close>

theorem finished_run_never_revived:
  assumes "wf_table rn_id (runs s)" and "status_of i s = Some st" and "st \<in> {st_completed, st_canceled}"
    and "rn_id r = i"
  shows "status_of i (run_writes ws s) = Some st \<and>
         claim_run_for_resume_write f now r owner cs previous lease (allowed_states cause) sequence
             (run_writes ws s)
           \<in> {(Inl DbFault, run_writes ws s), (Inr False, run_writes ws s)}"
proof -
  have st: "status_of i (run_writes ws s) = Some st"
    using assms(2) terminal_never_left [OF assms(3)] by (simp add: run_writes_keep_status)
  moreover have "st \<notin> set (allowed_states cause)"
    using assms(3) allowed_states_cases [of st cause] by (auto simp: status_defs)
  ultimately show ?thesis
    using claim_refused [OF wf_run_writes [OF assms(1)], of r ws st] assms(4) by blast
qed

theorem finished_run_never_revived_witness:
  "status_of 2 (run_writes [WStale False 5 (demo_run 2 st_running) ''quiet'',
     WActive False 6 (demo_run 2 st_stale), WReclaim (demo_run 2 st_resuming)] demo_runs) =
   Some st_completed"
proof -
  have "status_of 2 demo_runs = Some st_completed"
    by (simp add: status_of_def demo_runs_def demo_run_def tbl_get_def tbl_first_def)
  from finished_run_never_revived [OF demo_runs_wf this, of "demo_run 2 st_paused"] show ?thesis
    by (simp add: demo_run_def)
qed

text \<open>
  a resume claim is exclusive: once one claim on a run has succeeded, every other claim
  on it, with whatever cause and from whatever earlier reading of the row, fails and changes
  nothing, as long as the claim was neither started, reclaimed nor overridden.
\<close>

theorem resume_claim_exclusive:
  assumes "wf_table rn_id (runs s)"
    and "fst (claim_run_for_resume_write f now r owner cs previous lease (allowed_states cause)
                sequence s) = Inr True"
    and "\<forall>w \<in> set ws. \<not> leaves (rn_id r) w st_resuming" and "rn_id r2 = rn_id r"
  defines "s1 \<equiv> snd (claim_run_for_resume_write f now r owner cs previous lease
                       (allowed_states cause) sequence s)"
  shows "status_of (rn_id r) (run_writes ws s1) = Some st_resuming \<and>
         claim_run_for_resume_write f2 now2 r2 owner2 cs2 previous2 lease2 (allowed_states cause2)
             sequence2 (run_writes ws s1)
           \<in> {(Inl DbFault, run_writes ws s1), (Inr False, run_writes ws s1)}"
proof -
  have ok: "rn_status r \<in> set (allowed_states cause)" "\<not> lease_live now (rn_recovery r)" "\<not> f"
    and one: "affected_if (rn_id r) (\<lambda>st. st \<in> set (allowed_states cause)) s = 1"
    using assms(2) by (auto simp: claim_run_for_resume_write_def Let_def split: if_splits)
  note a = affected_if_get [OF assms(1), of "rn_id r" "\<lambda>st. st \<in> set (allowed_states cause)"]
  obtain x where x: "tbl_get rn_id (rn_id r) (runs s) = Some x"
      "rn_status x \<in> set (allowed_states cause)"
  proof (cases "tbl_get rn_id (rn_id r) (runs s)")
    case None
    then show ?thesis using one a by simp
  next
    case (Some x)
    then show ?thesis using one a that by (cases "rn_status x \<in> set (allowed_states cause)") simp_all
  qed
  then have "status_of (rn_id r) s1 = Some st_resuming"
    using ok unfolding s1_def
    by (simp add: claim_run_for_resume_write_def Let_def status_of_def update_run_if_get)
  then have st: "status_of (rn_id r) (run_writes ws s1) = Some st_resuming"
    using assms(3) by (rule run_writes_keep_status)
  have "wf_table rn_id (runs s1)"
    using wf_run_write [OF assms(1), of "WClaim f now r owner cs previous lease cause sequence"]
    by (simp add: s1_def)
  from wf_run_writes [OF this] have wf: "wf_table rn_id (runs (run_writes ws s1))" .
  have "st_resuming \<notin> set (allowed_states cause2)"
    using allowed_states_cases [of st_resuming cause2] by (auto simp: status_defs)
  with claim_refused [OF wf, of r2 st_resuming] st assms(4) show ?thesis by simp
qed

theorem resume_claim_exclusive_witness:
  "status_of 1 (run_writes [WClaim False 3 (demo_run 1 st_paused) ''b'' [] [] 90 ResumeAfterHuman 4]
     (snd (claim_run_for_resume_write False 2 (demo_run 1 st_paused) ''a'' [] [] 80
        (allowed_states ResumeAfterUpdate) 4 demo_runs))) = Some st_resuming"
proof -
  have "fst (claim_run_for_resume_write False 2 (demo_run 1 st_paused) ''a'' [] [] 80
      (allowed_states ResumeAfterUpdate) 4 demo_runs) = Inr True"
    by (simp add: claim_run_for_resume_write_def allowed_states_def demo_run_def no_recovery_def
        lease_live_def affected_if_def tbl_affected_def demo_runs_def status_defs)
  from resume_claim_exclusive [OF demo_runs_wf this,
      of "[WClaim False 3 (demo_run 1 st_paused) ''b'' [] [] 90 ResumeAfterHuman 4]" "demo_run 1 st_paused"]
  show ?thesis by (simp add: demo_run_def allowed_states_def status_defs)
qed

text \<open>
  a claim whose lease ran out is undone: reclaiming puts the run back into the state it
  was claimed from, without owner and lease but with its checkpoint, so that it can be
  claimed again; while the lease lasts, reclaiming leaves the run alone.
\<close>

theorem expired_claim_is_undone:
  assumes "wf_table rn_id (runs s)" and "tbl_get rn_id i (runs s) = Some r"
    and "rn_status r \<in> set allowed" and "rn_status r \<noteq> []" and "\<not> lease_live now (rn_recovery r)"
    and "owner \<noteq> []"
  shows "\<exists>s1. claim_run_for_resume no_faults now i owner cause [] lease allowed sequence s = (Inr True, s1) \<and>
           (let s2 = snd (reclaim_expired_resume_leases no_faults later s1)
            in if lease < later
               then (\<exists>x. tbl_get rn_id i (runs s2) = Some x \<and> rn_status x = rn_status r \<and>
                       rc_lease_owner (rn_recovery x) = [] \<and> rc_lease_until (rn_recovery x) = None \<and>
                       rc_sequence (rn_recovery x) = sequence \<and>
                       fst (claim_run_for_resume no_faults later i owner cause [] lease allowed sequence s2)
                         = Inr True)
               else status_of i s2 = Some st_resuming)"
proof -
  let ?c = "claimed_recovery owner cause (rn_status r) lease sequence (rn_recovery r)"
  have i: "rn_id r = i" using run_rows.get_Some_D [OF assms(2)] by simp
  have claim: "claim_run_for_resume no_faults t i owner cause [] lease allowed sequence u =
      (Inr True, update_run_if i (\<lambda>st. st \<in> set allowed) (\<lambda>y. y\<lparr>rn_status := st_resuming,
         rn_recovery := claimed_recovery owner cause (rn_status x) lease sequence (rn_recovery x)\<rparr>) u)"
    if "wf_table rn_id (runs u)" "tbl_get rn_id i (runs u) = Some x" "rn_status x \<in> set allowed"
      "\<not> lease_live t (rn_recovery x)" for t u x
  proof -
    have "rn_id x = i" using run_rows.get_Some_D [OF that(2)] by simp
    moreover have "allowed \<noteq> []" using that(3) by auto
    ultimately show ?thesis
      using that assms(6)
      by (simp add: claim_run_for_resume_def with_run_def get_run_def claim_run_for_resume_write_def
          affected_if_get)
  qed
  let ?s1 = "update_run_if i (\<lambda>st. st \<in> set allowed) (\<lambda>y. y\<lparr>rn_status := st_resuming, rn_recovery := ?c\<rparr>) s"
  let ?r1 = "r\<lparr>rn_status := st_resuming, rn_recovery := ?c\<rparr>"
  let ?s2 = "snd (reclaim_expired_resume_leases no_faults later ?s1)"
  have c: "claim_run_for_resume no_faults now i owner cause [] lease allowed sequence s = (Inr True, ?s1)"
    using claim [OF assms(1,2,3,5)] by simp
  have wf1: "wf_table rn_id (runs ?s1)" using assms(1) by (simp add: wf_update_run_if)
  have g1: "tbl_get rn_id i (runs ?s1) = Some ?r1" using assms(2,3) by (simp add: update_run_if_get)
  have g2: "tbl_get rn_id i (runs ?s2) = Some (if lease < later then reclaimed ?r1 ?r1 else ?r1)"
    using reclaim_get [OF wf1 g1] by (simp add: lease_expired_def claimed_recovery_def)
  have wf_loop: "wf_table rn_id (runs u) \<Longrightarrow> wf_table rn_id (runs (snd (reclaim_loop no_faults k later rs u)))"
    for k rs u
    by (induction rs arbitrary: k u) (auto simp: reclaim_write_def Let_def wf_update_run_if)
  have wf2: "wf_table rn_id (runs ?s2)"
    using wf1 by (simp add: reclaim_expired_resume_leases_def wf_loop)
  show ?thesis
  proof (cases "lease < later")
    case True
    let ?x = "reclaimed ?r1 ?r1"
    have x: "rn_status ?x = rn_status r" "rc_lease_until (rn_recovery ?x) = None"
      "rc_lease_owner (rn_recovery ?x) = []" "rc_sequence (rn_recovery ?x) = sequence"
      using assms(4) by (simp_all add: reclaimed_def claimed_recovery_def)
    have g: "tbl_get rn_id i (runs ?s2) = Some ?x" using g2 True by simp
    have "\<not> lease_live later (rn_recovery ?x)" by (simp add: lease_live_def x(2))
    moreover have "rn_status ?x \<in> set allowed" using assms(3) by (simp only: x(1))
    ultimately have "fst (claim_run_for_resume no_faults later i owner cause [] lease allowed sequence
        ?s2) = Inr True"
      using claim [OF wf2 g] by (metis fst_conv)
    then have "\<exists>x. tbl_get rn_id i (runs ?s2) = Some x \<and> rn_status x = rn_status r \<and>
        rc_lease_owner (rn_recovery x) = [] \<and> rc_lease_until (rn_recovery x) = None \<and>
        rc_sequence (rn_recovery x) = sequence \<and>
        fst (claim_run_for_resume no_faults later i owner cause [] lease allowed sequence ?s2) = Inr True"
      using g x by blast
    then show ?thesis using c True unfolding Let_def by (metis (lifting))
  next
    case False
    then have "status_of i ?s2 = Some st_resuming" using g2 by (simp add: status_of_def)
    then show ?thesis using c False unfolding Let_def by (metis (lifting))
  qed
qed

theorem expired_claim_is_undone_witness:
  "\<exists>s1. claim_run_for_resume no_faults 2 1 ''a'' ''binary_update'' [] 80 [st_paused] 4 demo_runs = (Inr True, s1) \<and>
        (\<exists>x. tbl_get rn_id 1 (runs (snd (reclaim_expired_resume_leases no_faults 81 s1))) = Some x \<and>
             rn_status x = st_paused)"
proof -
  have "tbl_get rn_id 1 (runs demo_runs) = Some (demo_run 1 st_paused)"
    by (simp add: demo_runs_def demo_run_def tbl_get_def tbl_first_def)
  from expired_claim_is_undone [OF demo_runs_wf this, of "[st_paused]" 2 "''a''" "''binary_update''" 80 4 81]
  show ?thesis
    by (auto simp: demo_run_def no_recovery_def lease_live_def status_defs Let_def)
qed

text \<open>The counters of the statistics, and the total they make up.\<close>

definition counters :: "(token_stats \<Rightarrow> int) list" where
  "counters = [ts_prompt, ts_completion, ts_reasoning, ts_tool_input, ts_tool_output, ts_cached, ts_mcp]"

definition total_of :: "token_stats \<Rightarrow> int" where
  "total_of t = wrap64 (ts_prompt t + ts_completion t + ts_reasoning t + ts_tool_input t + ts_tool_output t)"

text \<open>Statistics whose counters are 64-bit values and whose total is right.\<close>

definition stats_ok :: "token_stats \<Rightarrow> bool" where
  "stats_ok t \<longleftrightarrow> (\<forall>fld \<in> set counters. wrap64 (fld t) = fld t) \<and> ts_total t = total_of t"

definition codec_ok :: "(token_stats \<Rightarrow> string) \<Rightarrow> (string \<Rightarrow> token_stats \<times> bool) \<Rightarrow> bool" where
  "codec_ok marshal unmarshal \<longleftrightarrow> (\<forall>t. unmarshal (marshal t) = (t, True) \<and> marshal t \<noteq> [])"

definition plus_stats :: "token_stats \<Rightarrow> token_stats \<Rightarrow> token_stats" where
  "plus_stats d t = (if stats_empty d then t else add_stats d t)"

lemma plus_stats_counters:
  assumes "stats_ok t" and "fld \<in> set counters"
  shows "fld (plus_stats d t) = wrap64 (fld t + fld d)"
  using assms by (auto simp: plus_stats_def counters_def stats_ok_def stats_empty_def add_stats_def Let_def)

lemma stats_ok_plus: "stats_ok t \<Longrightarrow> stats_ok (plus_stats d t)"
  by (auto simp: plus_stats_def stats_ok_def counters_def add_stats_def Let_def total_of_def)

lemma fold_plus_stats:
  assumes "stats_ok t"
  shows "stats_ok (fold plus_stats ds t) \<and>
         (\<forall>fld \<in> set counters. fld (fold plus_stats ds t) = wrap64 (fld t + sum_list (map fld ds)))"
  using assms
proof (induction ds arbitrary: t)
  case Nil
  then show ?case by (simp add: stats_ok_def)
next
  case (Cons d ds)
  note IH = Cons.IH [OF stats_ok_plus [OF Cons.prems, of d]]
  have "fld (fold plus_stats (d # ds) t) = wrap64 (fld t + sum_list (map fld (d # ds)))"
    if "fld \<in> set counters" for fld
  proof -
    have "fld (fold plus_stats (d # ds) t) = wrap64 (fld (plus_stats d t) + sum_list (map fld ds))"
      using IH that by simp
    also have "\<dots> = wrap64 (fld t + fld d + sum_list (map fld ds))"
      by (simp only: plus_stats_counters [OF Cons.prems that] wrap64_add)
    finally show ?thesis by (simp add: add.assoc)
  qed
  then show ?case using IH by simp
qed

text \<open>The statistics a readable row holds.\<close>

definition readable :: "(string \<Rightarrow> token_stats \<times> bool) \<Rightarrow> id \<Rightarrow> token_stats \<Rightarrow> run_db \<Rightarrow> bool" where
  "readable unmarshal i t s \<longleftrightarrow>
     (\<exists>r. tbl_get rn_id i (runs s) = Some r \<and>
        (if rn_token_stats r = [] then t = zero_stats else unmarshal (rn_token_stats r) = (t, True)))"

lemma readable_get: "readable unmarshal i t s \<Longrightarrow> get_run_token_stats unmarshal False i s = Inr t"
  by (auto simp: readable_def get_run_token_stats_def get_run_def split: if_splits)

lemma readable_add:
  assumes "codec_ok marshal unmarshal" and "readable unmarshal i t s"
  shows "readable unmarshal i (plus_stats d t)
           (snd (add_run_token_stats marshal unmarshal no_faults i d s))"
proof (cases "stats_empty d")
  case True
  then show ?thesis using assms(2) by (simp add: add_run_token_stats_def plus_stats_def)
next
  case False
  obtain r where r: "tbl_get rn_id i (runs s) = Some r"
    "(if rn_token_stats r = [] then t = zero_stats else unmarshal (rn_token_stats r) = (t, True))"
    using assms(2) by (auto simp: readable_def)
  then have "(if rn_token_stats r = [] then zero_stats else fst (unmarshal (rn_token_stats r))) = t"
    by (auto split: if_splits)
  then have "snd (add_run_token_stats marshal unmarshal no_faults i d s) =
      update_run i (\<lambda>x. x\<lparr>rn_token_stats := marshal (add_stats d t)\<rparr>) s"
    using False r(1)
    by (simp add: add_run_token_stats_def transaction_def with_run_def get_run_def run_update_def Let_def)
  then show ?thesis
    using False r(1) assms(1) by (simp add: readable_def plus_stats_def codec_ok_def)
qed

text \<open>
  token statistics add up: after any sequence of increments each counter of a run is its
  old value plus the sum of the increments, wrapped to 64 bits, in whatever order they came,
  and the stored total is the sum of the five counters it is made of.
\<close>

theorem token_stats_add_up:
  assumes "codec_ok marshal unmarshal" and "readable unmarshal i t s" and "stats_ok t"
  shows "\<exists>t'. get_run_token_stats unmarshal False i
                 (fold (\<lambda>d s. snd (add_run_token_stats marshal unmarshal no_faults i d s)) ds s) = Inr t' \<and>
           (\<forall>fld \<in> set counters. fld t' = wrap64 (fld t + sum_list (map fld ds))) \<and>
           ts_total t' = total_of t'"
proof -
  have "readable unmarshal i (fold plus_stats ds t)
      (fold (\<lambda>d s. snd (add_run_token_stats marshal unmarshal no_faults i d s)) ds s)"
    using assms(2) by (induction ds arbitrary: s t) (simp_all add: readable_add [OF assms(1)])
  then show ?thesis
    using readable_get fold_plus_stats [OF assms(3), of ds] by (fastforce simp: stats_ok_def)
qed

text \<open>A concrete codec: the numbers under their names, the servers under names of their own.\<close>

definition demo_stats :: "token_stats \<Rightarrow> string" where
  "demo_stats t = the (demo_marshal
     (map (\<lambda>v. ([], demo_int v)) [ts_prompt t, ts_completion t, ts_reasoning t, ts_tool_input t,
        ts_tool_output t, ts_cached t, ts_total t, ts_mcp t] @
      map (\<lambda>(k, v). (k, demo_int v)) (ts_mcp_servers t)))"

definition demo_stats_of :: "string \<Rightarrow> token_stats \<times> bool" where
  "demo_stats_of s =
     (case demo_unmarshal s of
        Some ((_, p) # (_, c) # (_, r) # (_, i) # (_, out) # (_, ca) # (_, tot) # (_, m) # rest) \<Rightarrow>
          (\<lparr>ts_prompt = demo_int_of p, ts_completion = demo_int_of c, ts_reasoning = demo_int_of r,
            ts_tool_input = demo_int_of i, ts_tool_output = demo_int_of out,
            ts_cached = demo_int_of ca, ts_total = demo_int_of tot, ts_mcp = demo_int_of m,
            ts_mcp_servers = map (\<lambda>(k, v). (k, demo_int_of v)) rest\<rparr>, True)
      | _ \<Rightarrow> (zero_stats, False))"

lemma demo_stats_codec: "codec_ok demo_stats demo_stats_of"
proof -
  have "demo_unmarshal (the (demo_marshal m)) = Some m" for m
    using demo_unmarshal_marshal by (simp add: demo_marshal_def)
  then have "demo_stats_of (demo_stats t) = (t, True)" for t
    by (simp add: demo_stats_of_def demo_stats_def comp_def case_prod_beta)
  then show ?thesis by (simp add: codec_ok_def demo_stats_def demo_marshal_def)
qed

theorem token_stats_add_up_witness:
  "\<exists>t'. get_run_token_stats demo_stats_of False 1
          (fold (\<lambda>d s. snd (add_run_token_stats demo_stats demo_stats_of no_faults 1 d s))
             [zero_stats\<lparr>ts_prompt := 5\<rparr>, zero_stats\<lparr>ts_completion := 2, ts_prompt := 1\<rparr>] demo_runs) = Inr t' \<and>
        ts_prompt t' = 6 \<and> ts_completion t' = 2"
proof -
  have "readable demo_stats_of 1 zero_stats demo_runs"
    by (simp add: readable_def demo_runs_def demo_run_def tbl_get_def tbl_first_def)
  moreover have "stats_ok zero_stats"
    by (simp add: stats_ok_def counters_def zero_stats_def total_of_def)
  ultimately show ?thesis
    using token_stats_add_up [OF demo_stats_codec, of 1 zero_stats demo_runs
        "[zero_stats\<lparr>ts_prompt := 5\<rparr>, zero_stats\<lparr>ts_completion := 2, ts_prompt := 1\<rparr>]"]
    by (auto simp: counters_def zero_stats_def)
qed

section \<open>The two ways of appending to the log\<close>

lemma marshal_entries_ends: "marshal_entries es \<noteq> []" "hd (marshal_entries es) = CHR ''[''"
  "last (marshal_entries es) = CHR '']''"
  by (simp_all add: marshal_entries_def)

lemma join_entries_snoc:
  "join_entries (es @ [e]) = (if es = [] then e else join_entries es @ '','' @ e)"
proof (induction es rule: join_entries.induct)
  case (3 a b es)
  then show ?case by simp
qed simp_all

text \<open>
  On a column that holds an array of entries as the encoder writes it, extending the text in
  place stores the same as decoding, appending and encoding.
\<close>

lemma append_text_eq_decoded:
  assumes "unmarshal (marshal_entries es) = es" and "\<forall>e \<in> set es. e \<noteq> []"
  shows "append_text (marshal_entries es) entry = append_decoded unmarshal (marshal_entries es) entry"
proof -
  let ?l = "marshal_entries es"
  have r: "dropWhile (\<lambda>c. c = CHR '' '') (rev ?l) = rev ?l" "dropWhile (\<lambda>c. c = CHR '' '') ?l = ?l"
    by (simp_all add: marshal_entries_def)
  then have "blanks_trimmed ?l = ?l" by (simp add: blanks_trimmed_def)
  moreover have "?l = ''[]'' \<longleftrightarrow> es = []"
    using assms(2) by (cases es rule: join_entries.cases) (auto simp: marshal_entries_def)
  ultimately show ?thesis
    using r assms(1) marshal_entries_ends(1) [of es]
    by (auto simp: append_text_def append_decoded_def Let_def join_entries_snoc marshal_entries_def)
qed

end
