(* ===== verification/Refresh_Tokens.thy ===== *)
theory Refresh_Tokens
  imports Db_Table
begin

text \<open>
  Login state: refresh-token families and access sessions
  (\<open>db/repository/refresh_token_repository.go\<close>, \<open>db/repository/session_repository.go\<close> and
  their models).  The store holds the three tables the queries touch.  Columns the code
  never reads back (\<open>created_at\<close>, \<open>updated_at\<close>) are left out.  The unique index on
  \<open>token_hash\<close> (the models' \<open>uniqueIndex\<close> tag) makes an insertion of a hash already
  present fail.  Every call to \<open>time.Now\<close> is an argument.
\<close>

section \<open>Tables\<close>

record refresh_token =
  rt_id :: id
  rt_family :: string
  rt_hash :: string
  rt_user :: id
  rt_expires :: instant
  rt_absolute :: instant
  rt_used :: "instant option"
  rt_revoked :: "instant option"

record session =
  se_id :: id
  se_hash :: string
  se_user :: id
  se_expires :: instant
  se_absolute :: instant

record user =
  u_id :: id
  u_email :: string
  u_admin :: bool
  u_reenroll :: string
  u_reenroll_until :: "instant option"

record auth_db =
  refresh_tokens :: "refresh_token table"
  sessions :: "session table"
  users :: "user table"

abbreviation set_rt_id :: "int \<Rightarrow> refresh_token \<Rightarrow> refresh_token" where
  "set_rt_id i r \<equiv> r\<lparr>rt_id := i\<rparr>"

abbreviation set_se_id :: "int \<Rightarrow> session \<Rightarrow> session" where
  "set_se_id i r \<equiv> r\<lparr>se_id := i\<rparr>"

interpretation rt_rows: keyed_rows rt_id set_rt_id
  by unfold_locales simp

interpretation se_rows: keyed_rows se_id set_se_id
  by unfold_locales simp

section \<open>Lifetimes and configuration\<close>

definition access_token_lifetime :: duration where
  "access_token_lifetime = hour"

definition refresh_token_lifetime :: duration where
  "refresh_token_lifetime = 24 * hour"

definition refresh_reuse_grace_period :: duration where
  "refresh_reuse_grace_period = 30 * second"

definition session_renew_after :: duration where
  "session_renew_after = 15 * minute"

abbreviation day :: duration where "day \<equiv> 24 * hour"

text \<open>
  \<open>SessionAbsoluteCap\<close> and \<open>SessionReauthGap\<close>: the arguments are the values of the
  environment variables \<open>SESSION_ABSOLUTE_CAP\<close> and \<open>SESSION_REAUTH_GAP\<close>, empty when unset.
\<close>

definition session_absolute_cap :: "string \<Rightarrow> duration" where
  "session_absolute_cap v =
     (let days = (if v \<noteq> [] then
                    (case parse_int 64 v of
                       Some n \<Rightarrow> if 1 \<le> n \<and> n \<le> 60 then n else 14
                     | None \<Rightarrow> 14)
                  else 14)
      in days * day)"

definition session_reauth_gap :: "string \<Rightarrow> string \<Rightarrow> duration" where
  "session_reauth_gap cap_env gap_env =
     (let cap_days = session_absolute_cap cap_env div day;
          gap = (if gap_env \<noteq> [] then
                   (case parse_int 64 gap_env of
                      Some n \<Rightarrow> if 1 \<le> n then n else 4
                    | None \<Rightarrow> 4)
                 else 4);
          gap = (if gap > cap_days - 1 then cap_days - 1 else gap);
          gap = (if gap < 1 then 1 else gap)
      in gap * day)"

section \<open>Refresh tokens\<close>

datatype auth_error = RefreshReuse

definition get_session_absolute_expiry ::
  "faults \<Rightarrow> instant \<Rightarrow> id \<Rightarrow> auth_db \<Rightarrow> auth_error dberr + instant" where
  "get_session_absolute_expiry flt now uid s =
     (if flt 0 then Inl DbFault
      else (let live = tbl_find (\<lambda>r. rt_user r = uid \<and> rt_revoked r = None \<and>
                                    rt_absolute r > now) (refresh_tokens s)
            in if live = [] then Inr 0 else Inr (Max (set (map rt_absolute live)))))"

text \<open>Inserting a row, which the unique index on the hash refuses for a known hash.\<close>

definition insert_refresh_token ::
  "bool \<Rightarrow> refresh_token \<Rightarrow> auth_db \<Rightarrow> (auth_error dberr + refresh_token) \<times> auth_db" where
  "insert_refresh_token fault r s =
     (if fault \<or> tbl_affected (\<lambda>x. rt_hash x = rt_hash r) (refresh_tokens s) \<noteq> 0
      then (Inl DbFault, s)
      else (let (r', t) = tbl_create set_rt_id r (refresh_tokens s)
            in (Inr r', s\<lparr>refresh_tokens := t\<rparr>)))"

definition create_refresh_token ::
  "faults \<Rightarrow> instant \<Rightarrow> id \<Rightarrow> string \<Rightarrow> string \<Rightarrow> instant \<Rightarrow>
   (auth_db, auth_error, refresh_token) db_op" where
  "create_refresh_token flt now uid family hash abs_expiry s =
     insert_refresh_token (flt 0)
       \<lparr>rt_id = 0, rt_family = family, rt_hash = hash, rt_user = uid,
        rt_expires = now + refresh_token_lifetime, rt_absolute = abs_expiry,
        rt_used = None, rt_revoked = None\<rparr> s"

text \<open>The successor of \<open>cur\<close>: same family, same owner, same ceiling.\<close>

definition successor :: "instant \<Rightarrow> string \<Rightarrow> refresh_token \<Rightarrow> refresh_token" where
  "successor now hash cur =
     \<lparr>rt_id = 0, rt_family = rt_family cur, rt_hash = hash, rt_user = rt_user cur,
      rt_expires = now + refresh_token_lifetime, rt_absolute = rt_absolute cur,
      rt_used = None, rt_revoked = None\<rparr>"

definition live_in_family :: "string \<Rightarrow> refresh_token \<Rightarrow> bool" where
  "live_in_family f r \<longleftrightarrow> rt_family r = f \<and> rt_revoked r = None"

definition revoke_live :: "instant \<Rightarrow> string \<Rightarrow> auth_db \<Rightarrow> auth_db" where
  "revoke_live now f s =
     s\<lparr>refresh_tokens :=
        tbl_update (live_in_family f) (\<lambda>r. r\<lparr>rt_revoked := Some now\<rparr>) (refresh_tokens s)\<rparr>"

definition drop_user_sessions :: "id \<Rightarrow> auth_db \<Rightarrow> auth_db" where
  "drop_user_sessions uid s =
     s\<lparr>sessions := tbl_delete (\<lambda>x. se_user x = uid) (sessions s)\<rparr>"

text \<open>
  The two reuse branches of \<open>RotateRefreshToken\<close>: delete the owner's access sessions,
  revoke what is left of the family, and commit; \<open>None\<close> is the flag \<open>reuse\<close>.
\<close>

definition burn_family ::
  "faults \<Rightarrow> instant \<Rightarrow> refresh_token \<Rightarrow> (auth_db, auth_error, refresh_token option) db_op"
where
  "burn_family flt now cur s =
     (if flt 1 then (Inl DbFault, s)
      else if flt 2 then (Inl DbFault, drop_user_sessions (rt_user cur) s)
      else (Inr None, revoke_live now (rt_family cur) (drop_user_sessions (rt_user cur) s)))"

definition rotate_body ::
  "faults \<Rightarrow> instant \<Rightarrow> string \<Rightarrow> string \<Rightarrow> (auth_db, auth_error, refresh_token option) db_op"
where
  "rotate_body flt now old_hash new_hash s =
     (if flt 0 then (Inl DbFault, s)
      else case tbl_first (\<lambda>r. rt_hash r = old_hash) (refresh_tokens s) of
        None \<Rightarrow> (Inl NotFound, s)
      | Some cur \<Rightarrow>
          if rt_revoked cur \<noteq> None then burn_family flt now cur s
          else (case rt_used cur of
            Some used \<Rightarrow>
              if now - used > refresh_reuse_grace_period then burn_family flt now cur s
              else if now > rt_absolute cur then (Inl NotFound, s)
              else apfst (map_sum id Some)
                     (insert_refresh_token (flt 1) (successor now new_hash cur) s)
          | None \<Rightarrow>
              if now > rt_expires cur \<or> now > rt_absolute cur then (Inl NotFound, s)
              else if flt 1 then (Inl DbFault, s)
              else apfst (map_sum id Some)
                     (insert_refresh_token (flt 2) (successor now new_hash cur)
                       (s\<lparr>refresh_tokens :=
                          tbl_update (\<lambda>r. rt_id r = rt_id cur)
                            (\<lambda>r. r\<lparr>rt_used := Some now\<rparr>) (refresh_tokens s)\<rparr>))))"

definition rotate_refresh_token ::
  "faults \<Rightarrow> instant \<Rightarrow> string \<Rightarrow> string \<Rightarrow> (auth_db, auth_error, refresh_token) db_op" where
  "rotate_refresh_token flt now old_hash new_hash s =
     (case transaction (flt 3) (rotate_body flt now old_hash new_hash) s of
        (Inl e, s') \<Rightarrow> (Inl e, s')
      | (Inr None, s') \<Rightarrow> (Inl (Refused RefreshReuse), s')
      | (Inr (Some next), s') \<Rightarrow> (Inr next, s'))"

definition revoke_refresh_family ::
  "faults \<Rightarrow> instant \<Rightarrow> string \<Rightarrow> (auth_db, auth_error, unit) db_op" where
  "revoke_refresh_family flt now f s =
     (if flt 0 then (Inl DbFault, s) else (Inr (), revoke_live now f s))"

definition revoke_refresh_tokens_for_user ::
  "faults \<Rightarrow> id \<Rightarrow> (auth_db, auth_error, unit) db_op" where
  "revoke_refresh_tokens_for_user flt uid s =
     (if flt 0 then (Inl DbFault, s)
      else (Inr (), s\<lparr>refresh_tokens :=
              tbl_delete (\<lambda>r. rt_user r = uid) (refresh_tokens s)\<rparr>))"

definition delete_expired_refresh_tokens ::
  "faults \<Rightarrow> instant \<Rightarrow> (auth_db, auth_error, unit) db_op" where
  "delete_expired_refresh_tokens flt now s =
     (if flt 0 then (Inl DbFault, s)
      else (Inr (), s\<lparr>refresh_tokens :=
              tbl_delete (\<lambda>r. rt_absolute r \<le> now \<or> rt_revoked r \<noteq> None)
                (refresh_tokens s)\<rparr>))"

section \<open>Access sessions\<close>

definition create_session ::
  "faults \<Rightarrow> instant \<Rightarrow> id \<Rightarrow> string \<Rightarrow> instant \<Rightarrow> (auth_db, auth_error, session) db_op" where
  "create_session flt now uid hash abs_expiry s =
     (if flt 0 \<or> tbl_affected (\<lambda>x. se_hash x = hash) (sessions s) \<noteq> 0
      then (Inl DbFault, s)
      else (let (r, t) = tbl_create set_se_id
                   \<lparr>se_id = 0, se_hash = hash, se_user = uid,
                    se_expires = now + access_token_lifetime,
                    se_absolute = abs_expiry\<rparr> (sessions s)
            in (Inr r, s\<lparr>sessions := t\<rparr>)))"

text \<open>
  \<open>GetSessionUser\<close>: \<open>t0\<close> is the instant of the query, \<open>now\<close> the later reading.  The
  errors of the deletion and of the update are not looked at by the code.
\<close>

definition get_session_user ::
  "faults \<Rightarrow> instant \<Rightarrow> instant \<Rightarrow> string \<Rightarrow> (auth_db, auth_error, user) db_op" where
  "get_session_user flt t0 now hash s =
     (if flt 0 then (Inl DbFault, s)
      else case tbl_first (\<lambda>x. se_hash x = hash \<and> se_expires x > t0) (sessions s) of
        None \<Rightarrow> (Inl NotFound, s)
      | Some se \<Rightarrow>
          if se_absolute se \<noteq> 0 \<and> now > se_absolute se
          then (Inl NotFound,
                if flt 1 then s
                else s\<lparr>sessions := tbl_delete (\<lambda>x. se_id x = se_id se) (sessions s)\<rparr>)
          else
            (let new_expiry = now + access_token_lifetime;
                 s' = (if new_expiry - se_expires se > session_renew_after \<and> \<not> flt 1
                       then s\<lparr>sessions :=
                              tbl_update (\<lambda>x. se_id x = se_id se)
                                (\<lambda>x. x\<lparr>se_expires :=
                                   (if se_absolute se \<noteq> 0 \<and> new_expiry > se_absolute se
                                    then se_absolute se else new_expiry)\<rparr>) (sessions s)\<rparr>
                       else s)
             in if flt 2 then (Inl DbFault, s')
                else case tbl_get u_id (se_user se) (users s') of
                  None \<Rightarrow> (Inl NotFound, s')
                | Some u \<Rightarrow> (Inr u, s')))"

definition delete_session_by_token_hash ::
  "faults \<Rightarrow> string \<Rightarrow> (auth_db, auth_error, unit) db_op" where
  "delete_session_by_token_hash flt hash s =
     (if flt 0 then (Inl DbFault, s)
      else (Inr (), s\<lparr>sessions := tbl_delete (\<lambda>x. se_hash x = hash) (sessions s)\<rparr>))"

definition delete_sessions_for_user ::
  "faults \<Rightarrow> id \<Rightarrow> (auth_db, auth_error, unit) db_op" where
  "delete_sessions_for_user flt uid s =
     (if flt 0 then (Inl DbFault, s) else (Inr (), drop_user_sessions uid s))"

definition delete_expired_sessions ::
  "faults \<Rightarrow> instant \<Rightarrow> (auth_db, auth_error, unit) db_op" where
  "delete_expired_sessions flt now s =
     (if flt 0 then (Inl DbFault, s)
      else (Inr (), s\<lparr>sessions := tbl_delete (\<lambda>x. se_expires x \<le> now) (sessions s)\<rparr>))"

section \<open>Histories of the store\<close>

text \<open>
  Every operation that writes the two tables, as a value; a history is a list of them,
  each with the fault plan and the instants it ran under.
\<close>

datatype auth_op =
    Login faults instant id string string instant
  | Rotate faults instant string string
  | Revoke_Family faults instant string
  | Revoke_User faults id
  | Gc_Tokens faults instant
  | Open_Session faults instant id string instant
  | Use_Session faults instant instant string
  | Close_Session faults string
  | Close_User_Sessions faults id
  | Gc_Sessions faults instant

fun auth_exec :: "auth_op \<Rightarrow> auth_db \<Rightarrow> auth_db" where
  "auth_exec (Login flt now uid f h a) s = snd (create_refresh_token flt now uid f h a s)"
| "auth_exec (Rotate flt now h h') s = snd (rotate_refresh_token flt now h h' s)"
| "auth_exec (Revoke_Family flt now f) s = snd (revoke_refresh_family flt now f s)"
| "auth_exec (Revoke_User flt uid) s = snd (revoke_refresh_tokens_for_user flt uid s)"
| "auth_exec (Gc_Tokens flt now) s = snd (delete_expired_refresh_tokens flt now s)"
| "auth_exec (Open_Session flt now uid h a) s = snd (create_session flt now uid h a s)"
| "auth_exec (Use_Session flt t0 now h) s = snd (get_session_user flt t0 now h s)"
| "auth_exec (Close_Session flt h) s = snd (delete_session_by_token_hash flt h s)"
| "auth_exec (Close_User_Sessions flt uid) s = snd (delete_sessions_for_user flt uid s)"
| "auth_exec (Gc_Sessions flt now) s = snd (delete_expired_sessions flt now s)"

definition auth_run :: "auth_op list \<Rightarrow> auth_db \<Rightarrow> auth_db" where
  "auth_run ops s = fold auth_exec ops s"

text \<open>The families and the hashes an operation introduces.\<close>

fun opens_family :: "auth_op \<Rightarrow> string \<Rightarrow> bool" where
  "opens_family (Login _ _ _ f _ _) g = (f = g)"
| "opens_family _ _ = False"

fun mints_hash :: "auth_op \<Rightarrow> string \<Rightarrow> bool" where
  "mints_hash (Login _ _ _ _ h _) g = (h = g)"
| "mints_hash (Rotate _ _ _ h) g = (h = g)"
| "mints_hash _ _ = False"

section \<open>What an operation does to the token table\<close>

text \<open>
  The shape shared by every operation: some old rows survive, possibly marked used or
  revoked, and at most one row is new.  \<open>evolves r r'\<close> is the only way a row changes.
\<close>

definition evolves :: "refresh_token \<Rightarrow> refresh_token \<Rightarrow> bool" where
  "evolves r r' \<longleftrightarrow>
     rt_id r' = rt_id r \<and> rt_family r' = rt_family r \<and> rt_hash r' = rt_hash r \<and>
     rt_user r' = rt_user r \<and> rt_absolute r' = rt_absolute r \<and>
     (rt_revoked r \<noteq> None \<longrightarrow> r' = r) \<and>
     (rt_used r \<noteq> None \<longrightarrow> rt_used r' = rt_used r)"

lemma evolves_refl [simp, intro]: "evolves r r"
  by (simp add: evolves_def)

definition tokens_from ::
  "(refresh_token \<Rightarrow> bool) \<Rightarrow> auth_db \<Rightarrow> auth_db \<Rightarrow> bool" where
  "tokens_from fresh s s' \<longleftrightarrow>
     (\<forall>r' \<in> set (rows (refresh_tokens s')).
        (\<exists>r \<in> set (rows (refresh_tokens s)). evolves r r') \<or> fresh r')"

lemma tokens_fromI:
  "(\<And>r'. r' \<in> set (rows (refresh_tokens s')) \<Longrightarrow>
       r' \<in> set (rows (refresh_tokens s)) \<or> fresh r') \<Longrightarrow> tokens_from fresh s s'"
  unfolding tokens_from_def using evolves_refl by blast

lemma tokens_from_same:
  "refresh_tokens s' = refresh_tokens s \<Longrightarrow> tokens_from fresh s s'"
  by (rule tokens_fromI) simp

lemma tokens_from_delete:
  "refresh_tokens s' = tbl_delete p (refresh_tokens s) \<Longrightarrow> tokens_from fresh s s'"
  by (rule tokens_fromI) simp

lemma tokens_from_revoke: "tokens_from fresh s (revoke_live now f s)"
  by (auto simp: tokens_from_def revoke_live_def live_in_family_def evolves_def)

lemma drop_user_sessions_tokens [simp]:
  "refresh_tokens (drop_user_sessions uid s) = refresh_tokens s"
  by (simp add: drop_user_sessions_def)

lemma revoke_live_sessions [simp]: "sessions (revoke_live now f s) = sessions s"
  by (simp add: revoke_live_def)

lemma insert_refresh_token_cases:
  assumes "insert_refresh_token fault r s = (res, s')"
  shows "(res = Inl DbFault \<and> s' = s) \<or>
         (\<exists>k. res = Inr (set_rt_id k r) \<and> sessions s' = sessions s \<and> users s' = users s \<and>
              rows (refresh_tokens s') = rows (refresh_tokens s) @ [set_rt_id k r] \<and>
              (\<forall>x \<in> set (rows (refresh_tokens s)). rt_hash x \<noteq> rt_hash r))"
  using assms
  by (auto simp: insert_refresh_token_def tbl_create_def Let_def tbl_affected_zero_iff
           split: if_splits)

lemma insert_refresh_token_from:
  assumes "insert_refresh_token fault r s = (res, s')" and "\<And>k. fresh (set_rt_id k r)"
  shows "tokens_from fresh s s'"
  using insert_refresh_token_cases [OF assms(1)] assms(2)
  by (intro tokens_fromI) auto

text \<open>The outcomes of a rotation, branch by branch.\<close>

lemma minted_iff [simp]:
  "(apfst (map_sum id Some) x = (Inr (Some n), s')) = (x = (Inr n, s'))"
  "apfst (map_sum id Some) x \<noteq> (Inr None, s')"
  "(apfst (map_sum id Some) x = (Inl e, s')) = (x = (Inl e, s'))"
  by (cases x; cases "fst x"; auto)+

lemma insert_refresh_token_error:
  "insert_refresh_token fault r s = (Inl e, s') \<Longrightarrow> e = DbFault"
  by (auto simp: insert_refresh_token_def split: if_splits prod.splits)

lemma rotate_success_iff:
  "rotate_refresh_token flt now h h' s = (Inr n, s') \<longleftrightarrow>
   \<not> flt 3 \<and> rotate_body flt now h h' s = (Inr (Some n), s')"
  unfolding rotate_refresh_token_def
  by (cases "transaction (flt 3) (rotate_body flt now h h') s")
     (auto simp: transaction_success_body [symmetric] split: sum.splits option.splits)

lemma rotate_body_cases:
  assumes "rotate_body flt now h h' s = (res, s')"
  obtains (db) "res = Inl DbFault"
  | (missing) "res = Inl NotFound"
  | (reuse) cur where
      "tbl_first (\<lambda>r. rt_hash r = h) (refresh_tokens s) = Some cur" "res = Inr None"
      "rt_revoked cur \<noteq> None \<or>
       (\<exists>u. rt_used cur = Some u \<and> now - u > refresh_reuse_grace_period)"
      "s' = revoke_live now (rt_family cur) (drop_user_sessions (rt_user cur) s)"
  | (grace) cur u where
      "tbl_first (\<lambda>r. rt_hash r = h) (refresh_tokens s) = Some cur"
      "rt_revoked cur = None" "rt_used cur = Some u"
      "now - u \<le> refresh_reuse_grace_period" "now \<le> rt_absolute cur"
      "apfst (map_sum id Some) (insert_refresh_token (flt 1) (successor now h' cur) s) = (res, s')"
  | (first_use) cur where
      "tbl_first (\<lambda>r. rt_hash r = h) (refresh_tokens s) = Some cur"
      "rt_revoked cur = None" "rt_used cur = None"
      "now \<le> rt_expires cur" "now \<le> rt_absolute cur"
      "apfst (map_sum id Some) (insert_refresh_token (flt 2) (successor now h' cur)
         (s\<lparr>refresh_tokens := tbl_update (\<lambda>r. rt_id r = rt_id cur)
              (\<lambda>r. r\<lparr>rt_used := Some now\<rparr>) (refresh_tokens s)\<rparr>)) = (res, s')"
proof (cases "tbl_first (\<lambda>r. rt_hash r = h) (refresh_tokens s)")
  case None
  with assms db missing show ?thesis by (auto simp: rotate_body_def split: if_splits)
next
  case (Some cur)
  show ?thesis
  proof (cases "flt 0 \<or> rt_revoked cur \<noteq> None")
    case True
    with assms Some db reuse show ?thesis
      by (auto simp: rotate_body_def burn_family_def split: if_splits)
  next
    case False
    then show ?thesis
    proof (cases "rt_used cur")
      case None
      with False assms Some db missing first_use show ?thesis
        by (auto simp: rotate_body_def split: if_splits)
    next
      case (Some u)
      with False assms \<open>tbl_first _ _ = Some cur\<close> db missing reuse grace show ?thesis
        by (auto simp: rotate_body_def burn_family_def split: if_splits)
    qed
  qed
qed

lemma rotate_success_D:
  assumes "rotate_refresh_token flt now h h' s = (Inr n, s')"
  obtains cur k s1 where
    "tbl_first (\<lambda>r. rt_hash r = h) (refresh_tokens s) = Some cur"
    "n = set_rt_id k (successor now h' cur)"
    "rt_revoked cur = None" "now \<le> rt_absolute cur"
    "case rt_used cur of Some u \<Rightarrow> now - u \<le> refresh_reuse_grace_period
                       | None \<Rightarrow> now \<le> rt_expires cur"
    "s1 = (if rt_used cur = None
           then tbl_update (\<lambda>r. rt_id r = rt_id cur) (\<lambda>r. r\<lparr>rt_used := Some now\<rparr>)
                  (refresh_tokens s)
           else refresh_tokens s)"
    "rows (refresh_tokens s') = rows s1 @ [n]"
    "sessions s' = sessions s"
proof -
  have body: "rotate_body flt now h h' s = (Inr (Some n), s')"
    using assms by (simp add: rotate_success_iff)
  from body show ?thesis
  proof (cases rule: rotate_body_cases)
    case (grace cur u)
    then have "insert_refresh_token (flt 1) (successor now h' cur) s = (Inr n, s')" by simp
    from insert_refresh_token_cases [OF this] show ?thesis
      using that [of cur _ "refresh_tokens s"] grace by auto
  next
    case (first_use cur)
    define t where "t = tbl_update (\<lambda>r. rt_id r = rt_id cur) (\<lambda>r. r\<lparr>rt_used := Some now\<rparr>)
                          (refresh_tokens s)"
    from first_use have "insert_refresh_token (flt 2) (successor now h' cur)
        (s\<lparr>refresh_tokens := t\<rparr>) = (Inr n, s')" by (simp add: t_def)
    from insert_refresh_token_cases [OF this] show ?thesis
      using that [of cur _ t] first_use(1-5) by (auto simp: t_def)
  qed simp_all
qed

lemma rotate_reuse_D:
  assumes "rotate_refresh_token flt now h h' s = (Inl (Refused RefreshReuse), s')"
  obtains cur where
    "tbl_first (\<lambda>r. rt_hash r = h) (refresh_tokens s) = Some cur"
    "s' = revoke_live now (rt_family cur) (drop_user_sessions (rt_user cur) s)"
proof -
  obtain res s1 where body: "rotate_body flt now h h' s = (res, s1)" by fastforce
  from body show ?thesis
  proof (cases rule: rotate_body_cases)
    case (reuse cur)
    then show ?thesis using that [of cur] assms body
      by (auto simp: rotate_refresh_token_def transaction_def split: if_splits)
  qed (use assms body in \<open>auto simp: rotate_refresh_token_def transaction_def
         dest!: insert_refresh_token_error
         split: if_splits sum.splits option.splits\<close>)
qed

lemma rotate_other_error_frame:
  assumes "rotate_refresh_token flt now h h' s = (Inl e, s')" and "e \<noteq> Refused RefreshReuse"
  shows "s' = s"
  using assms
  by (auto simp: rotate_refresh_token_def transaction_def
           split: prod.splits sum.splits option.splits if_splits)

section \<open>Invariants of histories\<close>

fun fresh_of :: "auth_op \<Rightarrow> auth_db \<Rightarrow> refresh_token \<Rightarrow> bool" where
  "fresh_of (Login flt now uid f h a) s r =
     (rt_family r = f \<and> rt_hash r = h \<and> rt_user r = uid \<and> rt_absolute r = a)"
| "fresh_of (Rotate flt now h h') s r =
     (\<exists>cur \<in> set (rows (refresh_tokens s)).
        rt_hash cur = h \<and> rt_revoked cur = None \<and> rt_hash r = h' \<and>
        rt_family r = rt_family cur \<and> rt_user r = rt_user cur \<and>
        rt_absolute r = rt_absolute cur)"
| "fresh_of _ s r = False"

text \<open>Keys are unique and hashes are unique, whatever the operations and faults.\<close>

definition tokens_ok :: "auth_db \<Rightarrow> bool" where
  "tokens_ok s \<longleftrightarrow> wf_table rt_id (refresh_tokens s) \<and>
                 distinct (map rt_hash (rows (refresh_tokens s)))"

lemma tokens_ok_insert:
  assumes "tokens_ok s" shows "tokens_ok (snd (insert_refresh_token fault r s))"
  using assms rt_rows.wf_create [of "refresh_tokens s" r]
  by (auto simp: tokens_ok_def insert_refresh_token_def tbl_affected_zero_iff case_prod_beta)

lemma tokens_ok_update:
  assumes "tokens_ok s" and "\<And>r. rt_id (f r) = rt_id r" and "\<And>r. rt_hash (f r) = rt_hash r"
  shows "tokens_ok (s\<lparr>refresh_tokens := tbl_update p f (refresh_tokens s)\<rparr>)"
proof -
  have "map rt_hash (rows (tbl_update p f (refresh_tokens s))) =
        map rt_hash (rows (refresh_tokens s))"
    using assms(3) by simp
  then show ?thesis
    using assms rt_rows.wf_update by (simp add: tokens_ok_def del: rows_tbl_update map_map)
qed

lemma tokens_ok_delete:
  "tokens_ok s \<Longrightarrow> tokens_ok (s\<lparr>refresh_tokens := tbl_delete p (refresh_tokens s)\<rparr>)"
  by (auto simp: tokens_ok_def rt_rows.wf_delete distinct_map_filter)

lemma tokens_ok_cong:
  "refresh_tokens s' = refresh_tokens s \<Longrightarrow> tokens_ok s \<Longrightarrow> tokens_ok s'"
  by (simp add: tokens_ok_def)

lemma tokens_ok_revoke: "tokens_ok s \<Longrightarrow> tokens_ok (revoke_live now f s)"
  unfolding revoke_live_def by (rule tokens_ok_update) auto

lemma tokens_ok_rotate:
  assumes "tokens_ok s"
  shows "tokens_ok (snd (rotate_refresh_token flt now h h' s))"
proof -
  have body: "tokens_ok s'" if "rotate_body flt now h h' s = (Inr x, s')" for x s'
    using that
  proof (cases rule: rotate_body_cases)
    case (reuse cur)
    then show ?thesis
      using assms tokens_ok_cong [OF drop_user_sessions_tokens] tokens_ok_revoke by auto
  next
    case (grace cur u)
    then show ?thesis
      using tokens_ok_insert [OF assms, of "flt 1" "successor now h' cur"]
      by (cases "insert_refresh_token (flt 1) (successor now h' cur) s") auto
  next
    case (first_use cur)
    define s0 where "s0 = s\<lparr>refresh_tokens := tbl_update (\<lambda>r. rt_id r = rt_id cur)
      (\<lambda>r. r\<lparr>rt_used := Some now\<rparr>) (refresh_tokens s)\<rparr>"
    have "tokens_ok s0" unfolding s0_def by (rule tokens_ok_update [OF assms]) auto
    from tokens_ok_insert [OF this, of "flt 2" "successor now h' cur"] show ?thesis
      using first_use(6) [folded s0_def]
      by (cases "insert_refresh_token (flt 2) (successor now h' cur) s0") auto
  qed simp_all
  have "tokens_ok (snd (transaction (flt 3) (rotate_body flt now h h') s))"
    using assms body by (rule transaction_preserves [where I = tokens_ok])
  then show ?thesis
    by (auto simp: rotate_refresh_token_def split: prod.splits sum.splits option.splits)
qed

lemma get_session_user_tokens [simp]:
  "refresh_tokens (snd (get_session_user flt t0 now h s)) = refresh_tokens s"
  by (auto simp: get_session_user_def Let_def split: option.splits)

lemma tokens_ok_exec: "tokens_ok s \<Longrightarrow> tokens_ok (auth_exec op s)"
  by (cases op)
     (auto simp: create_refresh_token_def revoke_refresh_family_def
        revoke_refresh_tokens_for_user_def delete_expired_refresh_tokens_def create_session_def
        delete_session_by_token_hash_def delete_sessions_for_user_def
        delete_expired_sessions_def tokens_ok_insert tokens_ok_rotate tokens_ok_revoke
        tokens_ok_delete
      split: prod.splits intro: tokens_ok_cong [rotated])

lemma tokens_ok_run: "tokens_ok s \<Longrightarrow> tokens_ok (auth_run ops s)"
  unfolding auth_run_def by (induction ops arbitrary: s) (auto simp: tokens_ok_exec)

lemma rotate_tokens_from:
  assumes ok: "tokens_ok s"
  shows "tokens_from (fresh_of (Rotate flt now h h') s) s
           (snd (rotate_refresh_token flt now h h' s))"
proof -
  obtain res s' where r: "rotate_refresh_token flt now h h' s = (res, s')" by fastforce
  show ?thesis
  proof (cases res)
    case (Inr n)
    with r have "rotate_refresh_token flt now h h' s = (Inr n, s')" by simp
    then show ?thesis
    proof (rule rotate_success_D)
      fix cur k s1
      assume cur: "tbl_first (\<lambda>r. rt_hash r = h) (refresh_tokens s) = Some cur"
        and n: "n = set_rt_id k (successor now h' cur)" and live: "rt_revoked cur = None"
        and s1: "s1 = (if rt_used cur = None
           then tbl_update (\<lambda>r. rt_id r = rt_id cur) (\<lambda>r. r\<lparr>rt_used := Some now\<rparr>)
                  (refresh_tokens s)
           else refresh_tokens s)"
        and s': "rows (refresh_tokens s') = rows s1 @ [n]"
      from cur have c: "cur \<in> set (rows (refresh_tokens s))" "rt_hash cur = h"
        by (auto dest: tbl_first_Some_D)
      have new: "fresh_of (Rotate flt now h h') s n"
        using c live n by (auto simp: successor_def)
      have uniq: "r = cur" if "r \<in> set (rows (refresh_tokens s))" "rt_id r = rt_id cur" for r
        using that ok c rt_rows.key_inj by (auto simp: tokens_ok_def)
      have step: "evolves r (if rt_id r = rt_id cur then r\<lparr>rt_used := Some now\<rparr> else r)"
        if "r \<in> set (rows (refresh_tokens s))" "rt_used cur = None" for r
        using uniq [OF that(1)] that(2) live by (auto simp: evolves_def)
      have old: "\<exists>r \<in> set (rows (refresh_tokens s)). evolves r x" if "x \<in> set (rows s1)" for x
      proof (cases "rt_used cur = None")
        case True
        with that s1 obtain r where "r \<in> set (rows (refresh_tokens s))"
          and "x = (if rt_id r = rt_id cur then r\<lparr>rt_used := Some now\<rparr> else r)" by auto
        with step [OF _ True] show ?thesis by blast
      next
        case False
        with that s1 show ?thesis by auto
      qed
      show ?thesis using s' new old r by (auto simp: tokens_from_def)
    qed
  next
    case (Inl e)
    then show ?thesis
    proof (cases "e = Refused RefreshReuse")
      case True
      with r Inl have "rotate_refresh_token flt now h h' s = (Inl (Refused RefreshReuse), s')"
        by simp
      then show ?thesis
        by (rule rotate_reuse_D)
           (use r tokens_from_revoke in \<open>fastforce simp: tokens_from_def\<close>)
    next
      case False
      with r Inl have "s' = s" using rotate_other_error_frame by blast
      with r show ?thesis by (auto intro: tokens_from_same)
    qed
  qed
qed

lemma exec_tokens_from:
  assumes "tokens_ok s"
  shows "tokens_from (fresh_of op s) s (auth_exec op s)"
proof (cases op)
  case (Rotate flt now h h')
  with rotate_tokens_from [OF assms] show ?thesis by simp
next
  case (Login flt now uid f h a)
  obtain res s' where ins: "create_refresh_token flt now uid f h a s = (res, s')" by fastforce
  then have "tokens_from (fresh_of op s) s s'"
    unfolding create_refresh_token_def
    by (rule insert_refresh_token_from) (simp add: Login)
  with ins Login show ?thesis by simp
qed (auto simp: revoke_refresh_family_def revoke_refresh_tokens_for_user_def
        delete_expired_refresh_tokens_def create_session_def delete_session_by_token_hash_def
        delete_sessions_for_user_def delete_expired_sessions_def
      intro: tokens_from_same tokens_from_delete tokens_from_revoke
      split: prod.splits)

section \<open>Families\<close>

definition family_dead :: "string \<Rightarrow> auth_db \<Rightarrow> bool" where
  "family_dead f s \<longleftrightarrow>
     (\<forall>r \<in> set (rows (refresh_tokens s)). rt_family r = f \<longrightarrow> rt_revoked r \<noteq> None)"

text \<open>All tokens of a family carry the same owner and the same ceiling.\<close>

definition family_uniform :: "auth_db \<Rightarrow> bool" where
  "family_uniform s \<longleftrightarrow>
     (\<forall>r \<in> set (rows (refresh_tokens s)). \<forall>r' \<in> set (rows (refresh_tokens s)).
        rt_family r = rt_family r' \<longrightarrow>
        rt_user r = rt_user r' \<and> rt_absolute r = rt_absolute r')"

text \<open>
  The stores the code can reach from one without tokens.  The callers draw a new family
  name from \<open>authctx.NewToken\<close> for every login; that it is new is the side condition.
\<close>

inductive auth_reachable :: "auth_db \<Rightarrow> bool" where
  start: "rows (refresh_tokens s) = [] \<Longrightarrow> auth_reachable s"
| step: "auth_reachable s \<Longrightarrow>
    (\<And>f r. opens_family op f \<Longrightarrow> r \<in> set (rows (refresh_tokens s)) \<Longrightarrow> rt_family r \<noteq> f) \<Longrightarrow>
    auth_reachable (auth_exec op s)"

lemma tokens_ok_reachable: "auth_reachable s \<Longrightarrow> tokens_ok s"
proof (induction rule: auth_reachable.induct)
  case (start s)
  then show ?case by (simp add: tokens_ok_def wf_table_def)
next
  case (step s op)
  then show ?case by (simp add: tokens_ok_exec)
qed

lemma family_dead_exec:
  assumes "tokens_ok s" and "family_dead f s" and "\<not> opens_family op f"
  shows "family_dead f (auth_exec op s)"
  unfolding family_dead_def
proof (intro ballI impI)
  fix r' assume r': "r' \<in> set (rows (refresh_tokens (auth_exec op s)))" "rt_family r' = f"
  with exec_tokens_from [OF assms(1), of op]
  consider r where "r \<in> set (rows (refresh_tokens s))" "evolves r r'" | "fresh_of op s r'"
    by (auto simp: tokens_from_def)
  then show "rt_revoked r' \<noteq> None"
  proof cases
    case 1
    with assms(2) r' show ?thesis by (auto simp: family_dead_def evolves_def)
  next
    case 2
    with assms(2,3) r' show ?thesis by (cases op) (auto simp: family_dead_def)
  qed
qed

lemma family_dead_run:
  assumes "tokens_ok s" and "family_dead f s" and "\<And>op. op \<in> set ops \<Longrightarrow> \<not> opens_family op f"
  shows "family_dead f (auth_run ops s)"
  using assms unfolding auth_run_def
  by (induction ops arbitrary: s) (auto simp: family_dead_exec tokens_ok_exec)

lemma family_uniform_exec:
  assumes "tokens_ok s" and "family_uniform s"
    and new: "\<And>f r. opens_family op f \<Longrightarrow> r \<in> set (rows (refresh_tokens s)) \<Longrightarrow> rt_family r \<noteq> f"
  shows "family_uniform (auth_exec op s)"
proof -
  have origin: "(\<exists>r \<in> set (rows (refresh_tokens s)). rt_family x = rt_family r \<and>
                 rt_user x = rt_user r \<and> rt_absolute x = rt_absolute r) \<or>
              (\<exists>flt now uid f h a. op = Login flt now uid f h a \<and>
                 rt_family x = f \<and> rt_user x = uid \<and> rt_absolute x = a)"
    if "x \<in> set (rows (refresh_tokens (auth_exec op s)))" for x
  proof -
    from that exec_tokens_from [OF assms(1), of op]
    have "(\<exists>r \<in> set (rows (refresh_tokens s)). evolves r x) \<or> fresh_of op s x"
      by (auto simp: tokens_from_def)
    then show ?thesis by (cases op) (auto simp: evolves_def)
  qed
  show ?thesis
    unfolding family_uniform_def
  proof (intro ballI impI)
    fix x y
    assume x: "x \<in> set (rows (refresh_tokens (auth_exec op s)))"
      and y: "y \<in> set (rows (refresh_tokens (auth_exec op s)))" and eq: "rt_family x = rt_family y"
    from origin [OF x] origin [OF y] show "rt_user x = rt_user y \<and> rt_absolute x = rt_absolute y"
    proof (elim disjE bexE exE conjE, goal_cases)
      case (1 r r')
      then show ?case using eq assms(2) unfolding family_uniform_def by metis
    next
      case (2 r flt now uid f h a)
      then show ?case using eq new [of f r] by simp
    next
      case (3 r flt now uid f h a)
      then show ?case using eq new [of f] by auto
    next
      case 4
      then show ?case by simp
    qed
  qed
qed

lemma family_uniform_reachable: "auth_reachable s \<Longrightarrow> family_uniform s"
proof (induction rule: auth_reachable.induct)
  case (start s)
  then show ?case by (simp add: family_uniform_def)
next
  case (step s op)
  then show ?case by (simp add: family_uniform_exec tokens_ok_reachable)
qed

text \<open>A token that has been exchanged stays marked with the instant of its exchange.\<close>

definition spent_at :: "string \<Rightarrow> instant \<Rightarrow> auth_db \<Rightarrow> bool" where
  "spent_at h t s \<longleftrightarrow>
     (\<forall>r \<in> set (rows (refresh_tokens s)). rt_hash r = h \<longrightarrow> rt_used r = Some t)"

lemma spent_at_exec:
  assumes "tokens_ok s" and "spent_at h t s" and "\<not> mints_hash op h"
  shows "spent_at h t (auth_exec op s)"
  unfolding spent_at_def
proof (intro ballI impI)
  fix r' assume r': "r' \<in> set (rows (refresh_tokens (auth_exec op s)))" "rt_hash r' = h"
  with exec_tokens_from [OF assms(1), of op]
  consider r where "r \<in> set (rows (refresh_tokens s))" "evolves r r'" | "fresh_of op s r'"
    by (auto simp: tokens_from_def)
  then show "rt_used r' = Some t"
  proof cases
    case 1
    with assms(2) r' show ?thesis by (auto simp: spent_at_def evolves_def)
  next
    case 2
    with assms(3) r' show ?thesis by (cases op) auto
  qed
qed

lemma spent_at_run:
  assumes "tokens_ok s" and "spent_at h t s" and "\<And>op. op \<in> set ops \<Longrightarrow> \<not> mints_hash op h"
  shows "spent_at h t (auth_run ops s)"
  using assms unfolding auth_run_def
  by (induction ops arbitrary: s) (auto simp: spent_at_exec tokens_ok_exec)

lemma spent_after_exchange:
  assumes ok: "tokens_ok s"
    and first: "tbl_first (\<lambda>r. rt_hash r = h) (refresh_tokens s) = Some cur" "rt_used cur = None"
    and rot: "rotate_refresh_token flt t h h' s = (Inr n, s')"
  shows "spent_at h t s'"
proof -
  from ok have dist: "distinct (map rt_hash (rows (refresh_tokens s)))"
    by (simp add: tokens_ok_def)
  have c: "cur \<in> set (rows (refresh_tokens s))" "rt_hash cur = h"
    using first by (auto dest: tbl_first_Some_D)
  have only: "r = cur" if "r \<in> set (rows (refresh_tokens s))" "rt_hash r = h" for r
    using that c dist by (auto simp: distinct_map dest: inj_onD)
  have ok': "tokens_ok s'" using tokens_ok_rotate [OF ok, of flt t h h'] rot by simp
  from rot show ?thesis
  proof (rule rotate_success_D)
    fix cur' k s1
    assume "tbl_first (\<lambda>r. rt_hash r = h) (refresh_tokens s) = Some cur'"
      and s1: "s1 = (if rt_used cur' = None
           then tbl_update (\<lambda>r. rt_id r = rt_id cur') (\<lambda>r. r\<lparr>rt_used := Some t\<rparr>)
                  (refresh_tokens s)
           else refresh_tokens s)"
      and s': "rows (refresh_tokens s') = rows s1 @ [n]"
    with first have s1: "s1 = tbl_update (\<lambda>r. rt_id r = rt_id cur)
        (\<lambda>r. r\<lparr>rt_used := Some t\<rparr>) (refresh_tokens s)" by simp
    have "map rt_hash (rows s1) = map rt_hash (rows (refresh_tokens s))"
      unfolding s1 by simp
    then have "h \<in> rt_hash ` set (rows s1)"
      using c by (metis image_eqI list.set_map)
    moreover have "rt_hash n \<notin> rt_hash ` set (rows s1)"
      using ok' s' by (simp add: tokens_ok_def)
    ultimately have "rt_hash n \<noteq> h" by auto
    show ?thesis unfolding spent_at_def
    proof (intro ballI impI)
      fix r' assume r': "r' \<in> set (rows (refresh_tokens s'))" "rt_hash r' = h"
      with s' \<open>rt_hash n \<noteq> h\<close> have "r' \<in> set (rows s1)" by auto
      then obtain r where r: "r \<in> set (rows (refresh_tokens s))"
        and r'_eq: "r' = (if rt_id r = rt_id cur then r\<lparr>rt_used := Some t\<rparr> else r)"
        unfolding s1 by auto
      from r'(2) r'_eq have "rt_hash r = h" by (simp split: if_splits)
      with only [OF r] r'_eq show "rt_used r' = Some t" by simp
    qed
  qed
qed

section \<open>Properties\<close>

text \<open>A store to run the properties on: one user with one login and one open session.\<close>

definition demo_token :: refresh_token where
  "demo_token = \<lparr>rt_id = 1, rt_family = ''F'', rt_hash = ''h0'', rt_user = 7,
     rt_expires = day, rt_absolute = 14 * day, rt_used = None, rt_revoked = None\<rparr>"

definition demo_session :: session where
  "demo_session = \<lparr>se_id = 1, se_hash = ''a0'', se_user = 7, se_expires = hour,
     se_absolute = 14 * day\<rparr>"

definition demo_db :: auth_db where
  "demo_db = \<lparr>refresh_tokens = \<lparr>rows = [demo_token], next_key = 2\<rparr>,
     sessions = \<lparr>rows = [demo_session], next_key = 2\<rparr>,
     users = \<lparr>rows = [\<lparr>u_id = 7, u_email = ''e'', u_admin = False, u_reenroll = [], u_reenroll_until = None\<rparr>], next_key = 8\<rparr>\<rparr>"

lemma tokens_ok_demo: "tokens_ok demo_db"
  by (simp add: tokens_ok_def wf_table_def demo_db_def demo_token_def)

lemmas rotate_eval =
  rotate_refresh_token_def transaction_def rotate_body_def burn_family_def
  insert_refresh_token_def successor_def tbl_first_def tbl_create_def tbl_update_def
  tbl_affected_def refresh_reuse_grace_period_def refresh_token_lifetime_def Let_def

text \<open>
  C5: presenting a refresh token that was revoked, or that was exchanged more than the
  grace period ago, is answered with the reuse error; the whole family is then revoked and
  every access session of its owner is gone, while tokens of other families and sessions
  of other users are exactly as before.
\<close>

theorem reuse_burns_family:
  assumes "tbl_first (\<lambda>r. rt_hash r = h) (refresh_tokens s) = Some cur"
    and "rt_revoked cur \<noteq> None \<or>
         (\<exists>u. rt_used cur = Some u \<and> now - u > refresh_reuse_grace_period)"
  shows "\<exists>s'. rotate_refresh_token no_faults now h h' s = (Inl (Refused RefreshReuse), s') \<and>
           family_dead (rt_family cur) s' \<and>
           (\<forall>x \<in> set (rows (sessions s')). se_user x \<noteq> rt_user cur) \<and>
           filter (\<lambda>x. se_user x \<noteq> rt_user cur) (rows (sessions s')) =
             filter (\<lambda>x. se_user x \<noteq> rt_user cur) (rows (sessions s)) \<and>
           filter (\<lambda>r. rt_family r \<noteq> rt_family cur) (rows (refresh_tokens s')) =
             filter (\<lambda>r. rt_family r \<noteq> rt_family cur) (rows (refresh_tokens s))"
proof -
  let ?s' = "revoke_live now (rt_family cur) (drop_user_sessions (rt_user cur) s)"
  have rot: "rotate_refresh_token no_faults now h h' s = (Inl (Refused RefreshReuse), ?s')"
    using assms
    by (auto simp: rotate_refresh_token_def transaction_def rotate_body_def burn_family_def)
  have dead: "family_dead (rt_family cur) ?s'"
    by (auto simp: family_dead_def revoke_live_def live_in_family_def)
  have toks: "filter (\<lambda>r. rt_family r \<noteq> rt_family cur) (rows (refresh_tokens ?s')) =
      filter (\<lambda>r. rt_family r \<noteq> rt_family cur) (rows (refresh_tokens s))"
  proof -
    have "filter (\<lambda>r. rt_family r \<noteq> f)
            (map (\<lambda>r. if live_in_family f r then r\<lparr>rt_revoked := Some now\<rparr> else r) xs) =
          filter (\<lambda>r. rt_family r \<noteq> f) xs" for f xs
      by (induction xs) (auto simp: live_in_family_def)
    then show ?thesis by (simp add: revoke_live_def)
  qed
  show ?thesis
    by (rule exI [of _ ?s'], intro conjI rot dead toks)
       (auto simp: drop_user_sessions_def)
qed

theorem reuse_burns_family_witness:
  "\<exists>s'. rotate_refresh_token no_faults (day + minute) ''h0'' ''h2''
          (snd (rotate_refresh_token no_faults day ''h0'' ''h1'' demo_db)) =
        (Inl (Refused RefreshReuse), s') \<and> family_dead ''F'' s'"
proof -
  let ?s = "snd (rotate_refresh_token no_faults day ''h0'' ''h1'' demo_db)"
  have first: "tbl_first (\<lambda>r. rt_hash r = ''h0'') (refresh_tokens ?s) =
      Some (demo_token\<lparr>rt_used := Some day\<rparr>)"
    by (simp add: rotate_eval demo_db_def demo_token_def)
  show ?thesis
    using reuse_burns_family [OF first, of "day + minute" "''h2''"]
    by (auto simp: demo_token_def refresh_reuse_grace_period_def)
qed

text \<open>
  once every token of a family is revoked it stays so: no later history of logins,
  rotations, logouts, clean-ups and session traffic, under any faults, yields a token of
  that family again, unless a login opens a family of that very name.
\<close>

theorem burned_family_stays_dead:
  assumes "tokens_ok s" and "family_dead f s"
    and "list_all (\<lambda>op. \<not> opens_family op f) ops"
  shows "family_dead f (auth_run ops s) \<and>
         (rotate_refresh_token flt now h h' (auth_run ops s) = (Inr n, s') \<longrightarrow> rt_family n \<noteq> f)"
proof -
  have dead: "family_dead f (auth_run ops s)"
    using assms by (intro family_dead_run) (auto simp: list_all_iff)
  have "rt_family n \<noteq> f" if "rotate_refresh_token flt now h h' (auth_run ops s) = (Inr n, s')"
    using that
  proof (rule rotate_success_D)
    fix cur k
    assume "tbl_first (\<lambda>r. rt_hash r = h) (refresh_tokens (auth_run ops s)) = Some cur"
      and "n = set_rt_id k (successor now h' cur)" and "rt_revoked cur = None"
    with dead show "rt_family n \<noteq> f"
      by (auto simp: family_dead_def successor_def dest: tbl_first_Some_D)
  qed
  with dead show ?thesis by blast
qed

theorem burned_family_stays_dead_witness:
  "family_dead ''F'' (auth_run [Rotate no_faults 7 ''h0'' ''h9'', Gc_Sessions no_faults 8]
     (revoke_live 5 ''F'' demo_db))"
proof -
  have "tokens_ok (revoke_live 5 ''F'' demo_db)"
    by (rule tokens_ok_revoke [OF tokens_ok_demo])
  moreover have "family_dead ''F'' (revoke_live 5 ''F'' demo_db)"
    by (simp add: family_dead_def revoke_live_def live_in_family_def demo_db_def demo_token_def)
  ultimately show ?thesis
    by (rule conjunct1 [OF burned_family_stays_dead]) simp
qed

text \<open>
  C3: a refresh token works once.  After its first exchange at \<open>t\<close>, and whatever
  happens in between, presenting it again later than the grace period after \<open>t\<close> never
  yields a token (provided no other token was minted under the same hash).
\<close>

theorem spent_token_rejected:
  assumes "tokens_ok s"
    and "tbl_first (\<lambda>r. rt_hash r = h) (refresh_tokens s) = Some cur" and "rt_used cur = None"
    and "rotate_refresh_token flt t h h' s = (Inr n, s1)"
    and "list_all (\<lambda>op. \<not> mints_hash op h) ops"
    and "now - t > refresh_reuse_grace_period"
  shows "\<exists>e s2. rotate_refresh_token flt' now h h'' (auth_run ops s1) = (Inl e, s2)"
proof -
  have "tokens_ok s1" using tokens_ok_rotate [OF assms(1), of flt t h h'] assms(4) by simp
  then have spent: "spent_at h t (auth_run ops s1)"
    using assms(5) spent_after_exchange [OF assms(1-4)]
    by (intro spent_at_run) (auto simp: list_all_iff)
  have "fst (rotate_refresh_token flt' now h h'' (auth_run ops s1)) \<noteq> Inr m" for m
  proof
    assume "fst (rotate_refresh_token flt' now h h'' (auth_run ops s1)) = Inr m"
    then obtain s2 where "rotate_refresh_token flt' now h h'' (auth_run ops s1) = (Inr m, s2)"
      by (metis prod.collapse)
    then show False
    proof (rule rotate_success_D)
      fix c
      assume "tbl_first (\<lambda>r. rt_hash r = h) (refresh_tokens (auth_run ops s1)) = Some c"
        and "case rt_used c of Some u \<Rightarrow> now - u \<le> refresh_reuse_grace_period
                            | None \<Rightarrow> now \<le> rt_expires c"
      with spent assms(6) show False
        by (auto simp: spent_at_def dest!: tbl_first_Some_D)
    qed
  qed
  then show ?thesis by (metis prod.collapse sum.exhaust)
qed

theorem spent_token_rejected_witness:
  "\<exists>e s2. rotate_refresh_token no_faults (2 * minute) ''h0'' ''h3''
     (auth_run [Rotate no_faults minute ''h1'' ''h2'']
       (snd (rotate_refresh_token no_faults minute ''h0'' ''h1'' demo_db))) = (Inl e, s2)"
proof -
  have first: "tbl_first (\<lambda>r. rt_hash r = ''h0'') (refresh_tokens demo_db) = Some demo_token"
    by (simp add: tbl_first_def demo_db_def demo_token_def)
  have used: "rt_used demo_token = None" by (simp add: demo_token_def)
  obtain n where rot: "rotate_refresh_token no_faults minute ''h0'' ''h1'' demo_db =
      (Inr n, snd (rotate_refresh_token no_faults minute ''h0'' ''h1'' demo_db))"
    by (simp add: rotate_eval demo_db_def demo_token_def)
  show ?thesis
    by (rule spent_token_rejected [OF tokens_ok_demo first used rot])
       (simp_all add: refresh_reuse_grace_period_def)
qed

text \<open>
  rotating never moves the ceiling of a login.  In every reachable store a successful
  rotation happens at or before the ceiling of its family, the new token has the owner and
  the ceiling that every token of the family has, and the store stays that way.
\<close>

theorem rotation_keeps_ceiling:
  assumes "auth_reachable s"
    and "rotate_refresh_token flt now h h' s = (Inr n, s')"
  shows "now \<le> rt_absolute n \<and> rt_hash n = h' \<and> family_uniform s' \<and>
         n \<in> set (rows (refresh_tokens s')) \<and>
         (\<exists>r \<in> set (rows (refresh_tokens s)). rt_hash r = h \<and> rt_family r = rt_family n \<and>
            rt_user r = rt_user n \<and> rt_absolute r = rt_absolute n)"
proof -
  have "auth_reachable (auth_exec (Rotate flt now h h') s)"
    by (rule auth_reachable.step [OF assms(1)]) simp
  then have "auth_reachable s'" using assms(2) by simp
  then have "family_uniform s'" by (rule family_uniform_reachable)
  with assms(2) show ?thesis
    by (elim rotate_success_D) (auto simp: successor_def dest!: tbl_first_Some_D)
qed

theorem rotation_keeps_ceiling_witness:
  "\<exists>n s'. rotate_refresh_token no_faults minute ''h0'' ''h1''
      (auth_exec (Login no_faults 0 7 ''F'' ''h0'' (14 * day))
        \<lparr>refresh_tokens = empty_table, sessions = empty_table, users = empty_table\<rparr>) =
      (Inr n, s') \<and> minute \<le> rt_absolute n \<and> rt_absolute n = 14 * day"
proof -
  let ?e = "\<lparr>refresh_tokens = empty_table, sessions = empty_table, users = empty_table\<rparr>
              :: auth_db"
  let ?s = "auth_exec (Login no_faults 0 7 ''F'' ''h0'' (14 * day)) ?e"
  have r: "auth_reachable ?s"
    by (rule auth_reachable.step [OF auth_reachable.start]) simp_all
  obtain n s' where rot: "rotate_refresh_token no_faults minute ''h0'' ''h1'' ?s = (Inr n, s')"
    and n: "rt_absolute n = 14 * day"
    by (simp add: rotate_eval create_refresh_token_def empty_table_def)
  from rotation_keeps_ceiling [OF r rot] rot n show ?thesis by auto
qed

text \<open>
  apart from the reuse verdict, a rotation that fails, at any statement or at the
  commit, leaves the store exactly as it was.
\<close>

theorem failed_rotation_changes_nothing:
  assumes "rotate_refresh_token flt now h h' s = (Inl e, s')" and "e \<noteq> Refused RefreshReuse"
  shows "s' = s"
  using assms by (rule rotate_other_error_frame)

theorem failed_rotation_changes_nothing_witness:
  "snd (rotate_refresh_token (\<lambda>i. i = 2) minute ''h0'' ''h1'' demo_db) = demo_db"
proof -
  have "rotate_refresh_token (\<lambda>i. i = 2) minute ''h0'' ''h1'' demo_db =
      (Inl DbFault, snd (rotate_refresh_token (\<lambda>i. i = 2) minute ''h0'' ''h1'' demo_db))"
    by (simp add: rotate_eval demo_db_def demo_token_def)
  then show ?thesis by (rule failed_rotation_changes_nothing) simp
qed

text \<open>
  C27: an access session cannot outlive its login.  Used after its ceiling it is refused and
  its row removed, even while its sliding window is open; used before, its window is moved
  at most to the ceiling, and never further than one lifetime from now.
\<close>

theorem session_ceiling:
  assumes "get_session_user flt t0 now h s = (res, s')"
    and "tbl_first (\<lambda>x. se_hash x = h \<and> se_expires x > t0) (sessions s) = Some se"
    and "wf_table se_id (sessions s)" and "se_absolute se \<noteq> 0" and "\<not> flt 0" and "\<not> flt 1"
  shows "if now > se_absolute se
         then res = Inl NotFound \<and> (\<forall>x. x \<in> set (rows (sessions s')) \<longrightarrow> se_id x \<noteq> se_id se)
         else (\<forall>x. x \<in> set (rows (sessions s')) \<longrightarrow> se_id x = se_id se \<longrightarrow>
                 se_expires x \<le> max (se_expires se) (se_absolute se) \<and>
                 se_expires x \<le> max (se_expires se) (now + access_token_lifetime))"
proof (cases "now > se_absolute se")
  case True
  with assms show ?thesis by (auto simp: get_session_user_def)
next
  case False
  have se: "se \<in> set (rows (sessions s))"
    using assms(2) by (auto dest: tbl_first_Some_D)
  have uniq: "x = se" if "x \<in> set (rows (sessions s))" "se_id x = se_id se" for x
    using that se assms(3) se_rows.key_inj by blast
  define e where "e = (if now + access_token_lifetime > se_absolute se then se_absolute se
                       else now + access_token_lifetime)"
  define t where "t = tbl_update (\<lambda>x. se_id x = se_id se) (\<lambda>x. x\<lparr>se_expires := e\<rparr>) (sessions s)"
  have "sessions s' = sessions s \<or> sessions s' = t"
    using assms False
    by (auto simp: get_session_user_def Let_def t_def e_def split: if_splits option.splits)
  moreover have "e \<le> se_absolute se" "e \<le> now + access_token_lifetime"
    by (auto simp: e_def)
  ultimately have "se_expires x \<le> max (se_expires se) (se_absolute se) \<and>
      se_expires x \<le> max (se_expires se) (now + access_token_lifetime)"
    if "x \<in> set (rows (sessions s'))" "se_id x = se_id se" for x
    using that by (auto simp: t_def le_max_iff_disj dest: uniq split: if_splits)
  with False show ?thesis by simp
qed

theorem session_ceiling_witness:
  "fst (get_session_user no_faults 0 (15 * day) ''a0'' demo_db) = Inl NotFound"
proof -
  have first: "tbl_first (\<lambda>x. se_hash x = ''a0'' \<and> se_expires x > 0) (sessions demo_db) =
      Some demo_session"
    by (simp add: tbl_first_def demo_db_def demo_session_def)
  have wf: "wf_table se_id (sessions demo_db)"
    by (simp add: wf_table_def demo_db_def demo_session_def)
  show ?thesis
    using session_ceiling [OF prod.collapse [symmetric] first wf, of no_faults "15 * day"]
    by (simp add: demo_session_def)
qed

lemma session_absolute_cap_range:
  obtains d where "session_absolute_cap v = d * day" and "1 \<le> d" and "d \<le> 60"
proof -
  define d where "d = (if v \<noteq> [] then
                    (case parse_int 64 v of
                       Some n \<Rightarrow> if 1 \<le> n \<and> n \<le> 60 then n else 14
                     | None \<Rightarrow> 14)
                  else 14)"
  have "session_absolute_cap v = d * day"
    by (simp add: session_absolute_cap_def d_def)
  moreover have "1 \<le> d" "d \<le> 60" by (auto simp: d_def split: option.splits)
  ultimately show ?thesis by (rule that)
qed

text \<open>
  the re-authentication gap is at least a day and never longer than the session cap,
  and the soft deadline (ceiling minus gap) falls strictly inside the session for every
  configuration except a cap of exactly one day, where it coincides with the login itself.
\<close>

theorem reauth_gap_bounds:
  "day \<le> session_reauth_gap cap_env gap_env \<and>
   session_reauth_gap cap_env gap_env \<le> session_absolute_cap cap_env \<and>
   (session_reauth_gap cap_env gap_env < session_absolute_cap cap_env \<longleftrightarrow>
      session_absolute_cap cap_env \<noteq> day)"
proof -
  obtain d where cap: "session_absolute_cap cap_env = d * day" and d: "1 \<le> d" "d \<le> 60"
    by (rule session_absolute_cap_range)
  define g where "g = (if gap_env \<noteq> [] then
                   (case parse_int 64 gap_env of
                      Some n \<Rightarrow> if 1 \<le> n then n else 4
                    | None \<Rightarrow> 4)
                 else 4)"
  have "session_reauth_gap cap_env gap_env = max 1 (min g (d - 1)) * day"
    by (simp add: session_reauth_gap_def Let_def cap g_def max_def min_def)
  moreover have "1 \<le> g" by (auto simp: g_def split: option.splits)
  ultimately show ?thesis using cap d by auto
qed

end
