(* ===== verification/Gateway_Auth.thy ===== *)
theory Gateway_Auth
  imports Run_Tokens Run_Store Refresh_Tokens
begin

text \<open>
  Who may use the LLM gateway (\<open>integration/gateway_auth.go\<close>) and what a request may address
  (\<open>resolveAgentProxyTarget\<close> and the entry points of \<open>integration/llm_gateway.go\<close> and
  \<open>group_router.go\<close>): a request authenticates with a run token or with the session cookie,
  and the provider, agent or group it names is checked against the caller's tenant.

  Headers are stored under their canonical names, as \<open>net/http\<close> keeps them; the body is
  \<open>None\<close> when reading it fails; \<open>rq_param\<close> is the parameter of the route.
\<close>

section \<open>Requests\<close>

type_synonym header = "(string \<times> string list) list"

record gw_request =
  rq_method :: string
  rq_headers :: header
  rq_body :: "bytes option"
  rq_param :: string

definition header_get :: "string \<Rightarrow> header \<Rightarrow> string" where
  "header_get k h = (case map_of h k of Some (v # vs) \<Rightarrow> v | _ \<Rightarrow> [])"

definition token_header :: string where "token_header = ''X-Gateway-Token''"
definition run_id_header :: string where "run_id_header = ''X-Run-Id''"
definition provider_id_header :: string where "provider_id_header = ''X-Provider-Id''"
definition session_cookie :: string where "session_cookie = ''hc1_session''"

definition parse_run_id :: "gw_request \<Rightarrow> int" where
  "parse_run_id r =
     (let s = header_get run_id_header (rq_headers r)
      in if s = [] then 0 else case scan_int s of None \<Rightarrow> 0 | Some i \<Rightarrow> i)"

text \<open>\<open>Request.Cookie\<close>: the first well-formed pair of that name in the \<open>Cookie\<close> headers.\<close>

definition cookie_value :: "string \<Rightarrow> string option" where
  "cookie_value v =
     (let u = (if length v > 1 \<and> hd v = CHR 0x22 \<and> last v = CHR 0x22 then butlast (tl v) else v)
      in if list_all (\<lambda>c. let n = of_char c :: nat in
              32 \<le> n \<and> n < 127 \<and> n \<noteq> 34 \<and> n \<noteq> 59 \<and> n \<noteq> 92) u
         then Some u else None)"

definition trim_string :: "string \<Rightarrow> string" where
  "trim_string s =
     (let sp = (\<lambda>c. c \<in> {CHR '' '', CHR 0x09, CHR 0x0A, CHR 0x0D})
      in rev (dropWhile sp (rev (dropWhile sp s))))"

definition cookie_part :: "string \<Rightarrow> string \<Rightarrow> string option" where
  "cookie_part name part =
     (let p = trim_string part;
          (k, v) = (case cut_at (CHR ''='') p of None \<Rightarrow> (p, []) | Some kv \<Rightarrow> kv)
      in if trim_string k = name then cookie_value v else None)"

definition request_cookie :: "string \<Rightarrow> gw_request \<Rightarrow> string option" where
  "request_cookie name r =
     (let lines = (case map_of (rq_headers r) ''Cookie'' of None \<Rightarrow> [] | Some vs \<Rightarrow> vs)
      in case List.map_filter (cookie_part name) (concat (map (split_on (CHR '';'')) lines)) of
           [] \<Rightarrow> None | v # _ \<Rightarrow> Some v)"

section \<open>What the gateway reads\<close>

record provider =
  pv_id :: id
  pv_name :: string
  pv_base_url :: string
  pv_key :: string
  pv_user :: "id option"
  pv_models :: string
  pv_builtin :: bool

record group_member =
  mm_id :: id
  mm_group :: id
  mm_provider_id :: id
  mm_provider :: provider
  mm_model :: string
  mm_all :: bool
  mm_free :: bool
  mm_priority :: int

record model_group =
  mg_id :: id
  mg_name :: string
  mg_slug :: string
  mg_user :: "id option"
  mg_members :: "group_member list"

record agent =
  ag_id :: id
  ag_company :: id
  ag_name :: string
  ag_provider :: "id option"
  ag_group :: "id option"
  ag_enabled :: bool
  ag_builtin :: bool

record team_member =
  tm_id :: id
  tm_team :: id
  tm_user :: id
  tm_role :: string

record gateway_db =
  gd_runs :: run_db
  gd_auth :: auth_db
  gd_team_members :: "team_member table"
  gd_providers :: "provider table"
  gd_groups :: "model_group table"
  gd_members :: "group_member table"
  gd_agents :: "agent table"

abbreviation gd_companies :: "gateway_db \<Rightarrow> company table" where
  "gd_companies s \<equiv> companies (task_store (gd_runs s))"

abbreviation gd_tasks :: "gateway_db \<Rightarrow> task table" where
  "gd_tasks s \<equiv> tasks (task_store (gd_runs s))"

definition fetch :: "bool \<Rightarrow> ('r \<Rightarrow> int) \<Rightarrow> id \<Rightarrow> 'r table \<Rightarrow> 'r option" where
  "fetch fault key i t = (if fault then None else tbl_get key i t)"

definition is_team_member :: "bool \<Rightarrow> id \<Rightarrow> id \<Rightarrow> gateway_db \<Rightarrow> bool" where
  "is_team_member fault team user s \<longleftrightarrow>
     \<not> fault \<and> tbl_affected (\<lambda>m. tm_team m = team \<and> tm_user m = user) (gd_team_members s) > 0"

text \<open>
  \<open>GetRunWithTask\<close> preloads the task, its company and the agent; a task row that is gone
  leaves the zero task.
\<close>

definition zero_task :: task where
  "zero_task = \<lparr>t_id = 0, t_company = 0, t_agent = None, t_parent = None, t_title = [],
     t_ref_key = [], t_refined = [], t_status = [], t_archived = False, t_run = None,
     t_orchestrator_run = None, t_branch = [], t_base_branch = [], t_project = None, t_sprint = 0,
     t_description = [], t_priority = [], t_due = None, t_created = 0,
     t_done_at = None\<rparr>"

definition get_run_with_task :: "faults \<Rightarrow> id \<Rightarrow> gateway_db \<Rightarrow> (run \<times> task) option" where
  "get_run_with_task flt i s =
     (case fetch (flt 0) rn_id i (runs (gd_runs s)) of
        None \<Rightarrow> None
      | Some r \<Rightarrow>
          if flt 1 \<or> flt 2 \<or> flt 3 then None
          else Some (r, case tbl_get t_id (rn_task r) (gd_tasks s) of
                          None \<Rightarrow> zero_task | Some t \<Rightarrow> t))"

section \<open>Tenants\<close>

definition company_grants_user :: "bool \<Rightarrow> company \<Rightarrow> id \<Rightarrow> gateway_db \<Rightarrow> bool" where
  "company_grants_user fault c user s =
     (case co_team c of
        Some team \<Rightarrow> is_team_member fault team user s
      | None \<Rightarrow> co_user c = Some user)"

definition company_of_run :: "faults \<Rightarrow> id \<Rightarrow> gateway_db \<Rightarrow> company option" where
  "company_of_run flt run s =
     (case get_run_with_task flt run s of
        None \<Rightarrow> None
      | Some (r, t) \<Rightarrow> fetch (flt 4) co_id (t_company t) (gd_companies s))"

definition user_may_use_run :: "faults \<Rightarrow> id \<Rightarrow> id \<Rightarrow> gateway_db \<Rightarrow> bool" where
  "user_may_use_run flt user run s =
     (case company_of_run flt run s of
        None \<Rightarrow> False
      | Some c \<Rightarrow> company_grants_user (flt 5) c user s)"

record principal =
  pr_run :: id
  pr_user :: id

definition no_principal :: principal where
  "no_principal = \<lparr>pr_run = 0, pr_user = 0\<rparr>"

definition user_owned_resource_allowed ::
  "faults \<Rightarrow> principal \<Rightarrow> id option \<Rightarrow> gateway_db \<Rightarrow> bool" where
  "user_owned_resource_allowed flt p own s =
     (if pr_user p \<noteq> 0 then own = Some (pr_user p)
      else if pr_run p \<noteq> 0 then
        (case own of
           None \<Rightarrow> True
         | Some u \<Rightarrow>
             (case company_of_run flt (pr_run p) s of
                None \<Rightarrow> False
              | Some c \<Rightarrow> company_grants_user (flt 5) c u s))
      else True)"

definition may_use_provider :: "faults \<Rightarrow> principal \<Rightarrow> provider \<Rightarrow> gateway_db \<Rightarrow> bool" where
  "may_use_provider flt p pv s =
     (if pr_run p \<noteq> 0 \<and> pv_user pv = None \<and> \<not> pv_builtin pv \<and> pv_key pv \<noteq> [] then False
      else user_owned_resource_allowed flt p (pv_user pv) s)"

definition may_use_group :: "faults \<Rightarrow> principal \<Rightarrow> model_group \<Rightarrow> gateway_db \<Rightarrow> bool" where
  "may_use_group flt p g s = user_owned_resource_allowed flt p (mg_user g) s"

definition may_use_agent :: "faults \<Rightarrow> principal \<Rightarrow> agent \<Rightarrow> gateway_db \<Rightarrow> bool" where
  "may_use_agent flt p a s =
     (if pr_user p \<noteq> 0 then
        (case fetch (flt 0) co_id (ag_company a) (gd_companies s) of
           None \<Rightarrow> False
         | Some c \<Rightarrow> company_grants_user (flt 1) c (pr_user p) s)
      else if pr_run p \<noteq> 0 then
        (case company_of_run flt (pr_run p) s of
           None \<Rightarrow> False
         | Some c \<Rightarrow> co_id c = ag_company a)
      else True)"

section \<open>Authentication\<close>

datatype http_error = Http int string

text \<open>
  \<open>tokens\<close> is the run-token registry, \<open>None\<close> while no validator is installed.  Resolving the
  cookie may extend or drop the session, so the store is returned.
\<close>

definition require_gateway_auth ::
  "(bytes \<Rightarrow> bytes) \<Rightarrow> faults \<Rightarrow> instant \<Rightarrow> instant \<Rightarrow> registry option \<Rightarrow> gw_request \<Rightarrow>
   gateway_db \<Rightarrow> (http_error + principal) \<times> gateway_db"
where
  "require_gateway_auth sha flt t0 now tokens r s =
     (case tokens of
        None \<Rightarrow> (Inr no_principal, s)
      | Some reg \<Rightarrow>
          let token = header_get token_header (rq_headers r); claimed = parse_run_id r
          in if token \<noteq> [] then
               (case validate sha token reg of
                  None \<Rightarrow> (Inl (Http 401 ''invalid or expired run token''), s)
                | Some run \<Rightarrow>
                    if claimed \<noteq> 0 \<and> to_int32 claimed \<noteq> run
                    then (Inl (Http 403 ''X-Run-ID does not match the run token''), s)
                    else (Inr \<lparr>pr_run = run, pr_user = 0\<rparr>, s))
             else
               let refuse =
                     Inl (Http 401 ''gateway requires a run token or an authenticated session'')
               in case request_cookie session_cookie r of
                    None \<Rightarrow> (refuse, s)
                  | Some c \<Rightarrow>
                      if c = [] then (refuse, s)
                      else (case get_session_user flt t0 now (hash_token sha c) (gd_auth s) of
                              (Inl _, a) \<Rightarrow> (refuse, s\<lparr>gd_auth := a\<rparr>)
                            | (Inr u, a) \<Rightarrow>
                                let s' = s\<lparr>gd_auth := a\<rparr>
                                in if claimed \<noteq> 0 \<and>
                                      \<not> user_may_use_run (\<lambda>k. flt (k + 3)) (u_id u) (to_int32 claimed) s'
                                   then (Inl (Http 403 ''X-Run-ID does not belong to you''), s')
                                   else (Inr \<lparr>pr_run = 0, pr_user = u_id u\<rparr>, s')))"

section \<open>Addressed resources\<close>

definition zero_provider :: provider where
  "zero_provider = \<lparr>pv_id = 0, pv_name = [], pv_base_url = [], pv_key = [], pv_user = None,
     pv_models = [], pv_builtin = False\<rparr>"

text \<open>The rows \<open>Preload("Members.Provider")\<close> attaches, ordered by priority, then key.\<close>

definition load_members :: "id \<Rightarrow> gateway_db \<Rightarrow> group_member list" where
  "load_members g s =
     map (\<lambda>m. m\<lparr>mm_provider := (case tbl_get pv_id (mm_provider_id m) (gd_providers s) of
                                 None \<Rightarrow> zero_provider | Some p \<Rightarrow> p)\<rparr>)
       (sort_key mm_priority (tbl_find (\<lambda>m. mm_group m = g) (gd_members s)))"

definition get_model_group ::
  "faults \<Rightarrow> (model_group \<Rightarrow> bool) \<Rightarrow> gateway_db \<Rightarrow> model_group option" where
  "get_model_group flt p s =
     (if flt 0 then None
      else case tbl_first p (gd_groups s) of
        None \<Rightarrow> None
      | Some g \<Rightarrow> if flt 1 \<or> flt 2 then None else Some (g\<lparr>mg_members := load_members (mg_id g) s\<rparr>))"

definition get_model_group_by_key ::
  "faults \<Rightarrow> string \<Rightarrow> gateway_db \<Rightarrow> model_group option" where
  "get_model_group_by_key flt key s =
     get_model_group flt (\<lambda>g. mg_slug g = key \<or> dec_int (mg_id g) = key) s"

datatype proxy_target = To_Provider provider | To_Group model_group

text \<open>The provider named by the \<open>X-Provider-ID\<close> header.\<close>

definition provider_target ::
  "faults \<Rightarrow> principal \<Rightarrow> gw_request \<Rightarrow> gateway_db \<Rightarrow> http_error + provider" where
  "provider_target flt p r s =
     (let h = header_get provider_id_header (rq_headers r);
          i = (if h = [] then 0 else case scan_int h of None \<Rightarrow> 0 | Some i \<Rightarrow> i)
      in if i = 0 then Inl (Http 400 ''X-Provider-ID header missing'')
         else case fetch (flt 0) pv_id (to_int32 i) (gd_providers s) of
                None \<Rightarrow> Inl (Http 404 ''Provider not found'')
              | Some pv \<Rightarrow> if may_use_provider (\<lambda>k. flt (k + 1)) p pv s then Inr pv
                           else Inl (Http 404 ''Provider not found''))"

definition group_target ::
  "faults \<Rightarrow> principal \<Rightarrow> gw_request \<Rightarrow> gateway_db \<Rightarrow> http_error + model_group" where
  "group_target flt p r s =
     (case get_model_group_by_key flt (rq_param r) s of
        None \<Rightarrow> Inl (Http 404 ''Model group not found'')
      | Some g \<Rightarrow> if may_use_group (\<lambda>k. flt (k + 3)) p g s then Inr g
                  else Inl (Http 404 ''Model group not found''))"

definition resolve_agent_proxy_target ::
  "faults \<Rightarrow> principal \<Rightarrow> gw_request \<Rightarrow> gateway_db \<Rightarrow> http_error + agent \<times> proxy_target" where
  "resolve_agent_proxy_target flt p r s =
     (case parse_int 64 (rq_param r) of
        None \<Rightarrow> Inl (Http 400 ''Invalid agent ID'')
      | Some i \<Rightarrow>
          (case fetch (flt 0) ag_id (to_int32 i) (gd_agents s) of
             None \<Rightarrow> Inl (Http 404 ''Agent not found'')
           | Some a \<Rightarrow>
               if \<not> may_use_agent (\<lambda>k. flt (k + 1)) p a s then Inl (Http 404 ''Agent not found'')
               else (case ag_group a of
                       Some gi \<Rightarrow>
                         (case get_model_group (\<lambda>k. flt (k + 6)) (\<lambda>g. mg_id g = gi) s of
                            None \<Rightarrow> Inl (Http 404 ''Model group not found'')
                          | Some g \<Rightarrow>
                              if may_use_group (\<lambda>k. flt (k + 9)) p g s then Inr (a, To_Group g)
                              else Inl (Http 404 ''Model group not found''))
                     | None \<Rightarrow>
                         (case ag_provider a of
                            None \<Rightarrow>
                              Inl (Http 404 ''Agent has no provider or model group configured'')
                          | Some pi \<Rightarrow>
                              (case fetch (flt 6) pv_id pi (gd_providers s) of
                                 None \<Rightarrow> Inl (Http 404 ''Provider not found'')
                               | Some pv \<Rightarrow>
                                   if may_use_provider (\<lambda>k. flt (k + 7)) p pv s
                                   then Inr (a, To_Provider pv)
                                   else Inl (Http 404 ''Provider not found''))))))"

section \<open>Tenancy\<close>

text \<open>
  The tenant of a principal, read off the tables: the user itself, or everybody the company
  of the run admits.
\<close>

definition run_company :: "id \<Rightarrow> gateway_db \<Rightarrow> company option" where
  "run_company run s =
     (case tbl_get rn_id run (runs (gd_runs s)) of
        None \<Rightarrow> None
      | Some r \<Rightarrow>
          tbl_get co_id
            (case tbl_get t_id (rn_task r) (gd_tasks s) of None \<Rightarrow> 0 | Some t \<Rightarrow> t_company t)
            (gd_companies s))"

definition company_admits :: "company \<Rightarrow> id \<Rightarrow> gateway_db \<Rightarrow> bool" where
  "company_admits c u s =
     (case co_team c of
        Some team \<Rightarrow> \<exists>m \<in> set (rows (gd_team_members s)). tm_team m = team \<and> tm_user m = u
      | None \<Rightarrow> co_user c = Some u)"

definition in_tenant :: "principal \<Rightarrow> id \<Rightarrow> gateway_db \<Rightarrow> bool" where
  "in_tenant p u s =
     (if pr_user p \<noteq> 0 then u = pr_user p
      else case run_company (pr_run p) s of None \<Rightarrow> False | Some c \<Rightarrow> company_admits c u s)"

definition authenticated :: "principal \<Rightarrow> bool" where
  "authenticated p \<longleftrightarrow> pr_user p \<noteq> 0 \<or> pr_run p \<noteq> 0"

lemma company_grants_admits: "company_grants_user fault c u s \<Longrightarrow> company_admits c u s"
  by (auto simp: company_grants_user_def company_admits_def is_team_member_def
      tbl_affected_def filter_empty_conv split: option.splits)

lemma company_of_run_company: "company_of_run flt run s = Some c \<Longrightarrow> run_company run s = Some c"
  by (auto simp: company_of_run_def get_run_with_task_def run_company_def fetch_def zero_task_def
      split: option.splits if_splits)

lemma user_may_use_run_admits:
  "user_may_use_run flt u run s \<Longrightarrow>
   \<exists>c. run_company run s = Some c \<and> company_admits c u s"
  by (auto simp: user_may_use_run_def company_of_run_company dest: company_grants_admits
      split: option.splits)

text \<open>A resource somebody owns is allowed to nobody outside the owner's tenant.\<close>

lemma resource_in_tenant:
  assumes "user_owned_resource_allowed flt p (Some u) s" and "authenticated p"
  shows "in_tenant p u s"
  using assms
  by (auto simp: user_owned_resource_allowed_def authenticated_def in_tenant_def
      company_of_run_company dest: company_grants_admits split: if_splits option.splits)

lemma provider_in_tenant:
  assumes "may_use_provider flt p pv s" and "authenticated p"
  shows "case pv_user pv of
           Some u \<Rightarrow> in_tenant p u s
         | None \<Rightarrow> pr_run p \<noteq> 0 \<and> (pv_builtin pv \<or> pv_key pv = [])"
proof (cases "pv_user pv")
  case None
  then show ?thesis
    using assms
    by (auto simp: may_use_provider_def user_owned_resource_allowed_def authenticated_def
        split: if_splits)
next
  case (Some u)
  then show ?thesis
    using assms resource_in_tenant [of flt p u s]
    by (auto simp: may_use_provider_def split: if_splits)
qed

lemma group_in_tenant:
  "may_use_group flt p g s \<Longrightarrow> authenticated p \<Longrightarrow> mg_user g = Some u \<Longrightarrow> in_tenant p u s"
  unfolding may_use_group_def by (simp add: resource_in_tenant)

lemma provider_target_allowed:
  "provider_target flt p r s = Inr pv \<Longrightarrow> \<exists>f. may_use_provider f p pv s"
  by (auto simp: provider_target_def Let_def split: if_splits option.splits)

lemma group_target_allowed:
  "group_target flt p r s = Inr g \<Longrightarrow> \<exists>f. may_use_group f p g s"
  by (auto simp: group_target_def split: if_splits option.splits)

lemma agent_target_allowed:
  assumes "resolve_agent_proxy_target flt p r s = Inr (a, t)"
  shows "case t of
           To_Provider pv \<Rightarrow> \<exists>f. may_use_provider f p pv s
         | To_Group g \<Rightarrow> \<exists>f. may_use_group f p g s"
  using assms
  by (auto simp: resolve_agent_proxy_target_def split: if_splits option.splits)

text \<open>
  C34: with a validator installed nothing gets past the gateway's door without a credential:
  an admitted request carried the live token of the run it acts as, or a session cookie of
  the user it acts as; and a run it names in \<open>X-Run-ID\<close> is that run, or belongs to a company
  that admits that user.
\<close>

theorem admitted_requests_are_bound:
  assumes "require_gateway_auth sha flt t0 now (Some reg) r s = (Inr p, s')"
  shows "(let token = header_get token_header (rq_headers r); claimed = parse_run_id r in
          (token \<noteq> [] \<and> s' = s \<and> p = \<lparr>pr_run = pr_run p, pr_user = 0\<rparr> \<and>
           validate sha token reg = Some (pr_run p) \<and>
           (claimed = 0 \<or> to_int32 claimed = pr_run p)) \<or>
          (token = [] \<and> p = \<lparr>pr_run = 0, pr_user = pr_user p\<rparr> \<and>
           (\<exists>c u. request_cookie session_cookie r = Some c \<and> c \<noteq> [] \<and> u_id u = pr_user p \<and>
              get_session_user flt t0 now (hash_token sha c) (gd_auth s) = (Inr u, gd_auth s')) \<and>
           (claimed = 0 \<or> (\<exists>co. run_company (to_int32 claimed) s' = Some co \<and>
                             company_admits co (pr_user p) s'))))"
proof (cases "header_get token_header (rq_headers r) = []")
  case False
  then show ?thesis
    using assms by (auto simp: require_gateway_auth_def Let_def split: option.splits if_splits)
next
  case True
  from assms True obtain c u a where
    c: "request_cookie session_cookie r = Some c" "c \<noteq> []"
    and u: "get_session_user flt t0 now (hash_token sha c) (gd_auth s) = (Inr u, a)"
    and out: "s' = s\<lparr>gd_auth := a\<rparr>" "p = \<lparr>pr_run = 0, pr_user = u_id u\<rparr>"
    and may: "parse_run_id r = 0 \<or>
        user_may_use_run (\<lambda>k. flt (k + 3)) (u_id u) (to_int32 (parse_run_id r)) s'"
    by (auto simp: require_gateway_auth_def Let_def
        split: option.splits if_splits prod.splits sum.splits)
  have "gd_auth s' = a" by (simp add: out)
  then show ?thesis
    using True c u out(2) may
    by (auto simp: Let_def dest!: user_may_use_run_admits)
qed

text \<open>A store with one run, number 7, of a company of team 3, which users 5 and 6 are in.\<close>

definition demo_provider :: "id \<Rightarrow> id option \<Rightarrow> provider" where
  "demo_provider i u = \<lparr>pv_id = i, pv_name = ''p'', pv_base_url = ''http://h'', pv_key = ''k'',
     pv_user = u, pv_models = ''m'', pv_builtin = False\<rparr>"

definition demo_gw_run :: run where
  "demo_gw_run = \<lparr>rn_id = 7, rn_task = 2, rn_agent = 4, rn_name = [], rn_title = [], rn_kind = [], rn_parent = None,
     rn_root = None, rn_reported = [], rn_status = st_running, rn_session = [], rn_log_file = [],
     rn_log_content = [], rn_log_entries = [], rn_token_stats = [],
     rn_result_description = [], rn_result_explanation = [], rn_started = 0, rn_ended = None,
     rn_last_message = None, rn_workspace = [], rn_recovery = no_recovery\<rparr>"

definition demo_gateway :: gateway_db where
  "demo_gateway = \<lparr>
     gd_runs = \<lparr>runs = \<lparr>rows = [demo_gw_run], next_key = 8\<rparr>, run_events = empty_table,
       task_store = \<lparr>tasks = \<lparr>rows = [zero_task\<lparr>t_id := 2, t_company := 3\<rparr>], next_key = 3\<rparr>,
         companies = \<lparr>rows = [\<lparr>co_id = 3, co_short = [], co_team = Some 3, co_user = Some 5\<rparr>],
           next_key = 4\<rparr>, relations = empty_table\<rparr>, status_reports = empty_table\<rparr>,
     gd_auth = \<lparr>refresh_tokens = empty_table, sessions = empty_table, users = empty_table\<rparr>,
     gd_team_members = \<lparr>rows = [\<lparr>tm_id = 2, tm_team = 3, tm_user = 5, tm_role = ''owner''\<rparr>,
       \<lparr>tm_id = 3, tm_team = 3, tm_user = 6, tm_role = ''member''\<rparr>], next_key = 4\<rparr>,
     gd_providers = \<lparr>rows = [demo_provider 8 (Some 5), demo_provider 9 (Some 77)],
       next_key = 10\<rparr>,
     gd_groups = empty_table, gd_members = empty_table, gd_agents = empty_table\<rparr>"

definition demo_tokens :: registry where
  "demo_tokens = \<lparr>by_hash = [''6162'' \<mapsto> 7], by_run = [7 \<mapsto> ''6162'']\<rparr>"

definition demo_request :: "string \<Rightarrow> gw_request" where
  "demo_request pv = \<lparr>rq_method = ''POST'', rq_headers = [(''X-Gateway-Token'', [''ab'']),
     (''X-Run-Id'', [''7'']), (''X-Provider-Id'', [pv])], rq_body = Some [], rq_param = []\<rparr>"

lemma demo_admitted:
  "require_gateway_auth id no_faults 0 0 (Some demo_tokens) (demo_request pv) demo_gateway =
   (Inr \<lparr>pr_run = 7, pr_user = 0\<rparr>, demo_gateway)"
  by (simp add: require_gateway_auth_def Let_def header_get_def demo_request_def token_header_def
      run_id_header_def parse_run_id_def scan_int_def parse_int_def parse_digits_def is_digit_def
      digit_val_def digits_val_def is_space_def validate_def demo_tokens_def hash_token_def
      hex_encode_def hex_digit_def to_int32_def)

theorem admitted_requests_are_bound_witness:
  "validate id (header_get token_header (rq_headers (demo_request []))) demo_tokens = Some 7 \<and>
   parse_run_id (demo_request []) = 7"
  using admitted_requests_are_bound [OF demo_admitted [of "[]"]]
  by (simp add: Let_def header_get_def demo_request_def token_header_def run_id_header_def
      parse_run_id_def scan_int_def parse_int_def parse_digits_def is_digit_def digit_val_def
      digits_val_def is_space_def to_int32_def)

end
