(* ===== verification/Keyring.thy ===== *)
theory Keyring
  imports Prelude "HOL-Library.AList"
begin

text \<open>
  The in-memory keyring of unlocked per-user data-encryption keys
  (\<open>pkg/secrets/keyring.go\<close>): the map from user id to key and expiry, its operations, and
  the histories they form.  Every operation that reads the clock takes the instant as an
  argument.  A key is a string of 32 bytes (\<open>[32]byte\<close>).
\<close>

section \<open>State and operations\<close>

type_synonym dek = bytes

record keyring_entry =
  ke_dek :: dek
  ke_expires_at :: instant

type_synonym keyring = "(id \<times> keyring_entry) list"

definition new_keyring :: keyring where
  "new_keyring = []"

definition kr_put :: "instant \<Rightarrow> id \<Rightarrow> dek \<Rightarrow> duration \<Rightarrow> keyring \<Rightarrow> keyring" where
  "kr_put now user d ttl k = AList.update user \<lparr>ke_dek = d, ke_expires_at = now + ttl\<rparr> k"

definition kr_evict :: "id \<Rightarrow> keyring \<Rightarrow> keyring" where
  "kr_evict user k = AList.delete user k"

definition kr_get :: "instant \<Rightarrow> id \<Rightarrow> keyring \<Rightarrow> dek option \<times> keyring" where
  "kr_get now user k =
     (case map_of k user of
        None \<Rightarrow> (None, k)
      | Some e \<Rightarrow>
          if now > ke_expires_at e then (None, kr_evict user k) else (Some (ke_dek e), k))"

definition kr_evict_expired :: "instant \<Rightarrow> keyring \<Rightarrow> nat \<times> keyring" where
  "kr_evict_expired now k =
     (length (filter (\<lambda>(_, e). now > ke_expires_at e) k),
      filter (\<lambda>(_, e). \<not> now > ke_expires_at e) k)"

definition kr_len :: "keyring \<Rightarrow> nat" where
  "kr_len k = length k"

definition kr_snapshot :: "instant \<Rightarrow> keyring \<Rightarrow> (id \<times> dek) list" where
  "kr_snapshot now k =
     map (\<lambda>(i, e). (i, ke_dek e)) (filter (\<lambda>(_, e). \<not> now > ke_expires_at e) k)"

definition kr_restore :: "instant \<Rightarrow> (id \<times> dek) list \<Rightarrow> duration \<Rightarrow> keyring \<Rightarrow> keyring" where
  "kr_restore now deks ttl k =
     fold (\<lambda>(i, d) k. AList.update i \<lparr>ke_dek = d, ke_expires_at = now + ttl\<rparr> k) deks k"

section \<open>The contract of a keyring\<close>

text \<open>
  A keyring is well formed when no user occurs twice.  What the operations promise is read
  off the entry a user has and off the key a read returns.
\<close>

definition kr_ok :: "keyring \<Rightarrow> bool" where
  "kr_ok k \<longleftrightarrow> distinct (map fst k)"

definition kr_entry :: "keyring \<Rightarrow> id \<Rightarrow> (dek \<times> instant) option" where
  "kr_entry k user = map_option (\<lambda>e. (ke_dek e, ke_expires_at e)) (map_of k user)"

locale dek_store =
  fixes ok :: "'k \<Rightarrow> bool"
    and entry :: "'k \<Rightarrow> id \<Rightarrow> (dek \<times> instant) option"
    and get :: "instant \<Rightarrow> id \<Rightarrow> 'k \<Rightarrow> dek option \<times> 'k"
    and evict :: "id \<Rightarrow> 'k \<Rightarrow> 'k"
    and put :: "instant \<Rightarrow> id \<Rightarrow> dek \<Rightarrow> duration \<Rightarrow> 'k \<Rightarrow> 'k"
  assumes ok_evict: "ok k \<Longrightarrow> ok (evict u k)"
    and ok_put: "ok k \<Longrightarrow> ok (put now u d ttl k)"
    and entry_evict: "entry (evict u k) = (entry k)(u := None)"
    and entry_put: "entry (put now u d ttl k) = (entry k)(u \<mapsto> (d, now + ttl))"
    and get_eq: "get now u k =
      (case entry k u of
         None \<Rightarrow> (None, k)
       | Some (d, e) \<Rightarrow> if now > e then (None, evict u k) else (Some d, k))"
begin

lemma get_Some_iff: "fst (get now u k) = Some d \<longleftrightarrow> (\<exists>e. entry k u = Some (d, e) \<and> now \<le> e)"
  by (auto simp: get_eq split: option.splits)

lemma get_None_iff: "fst (get now u k) = None \<longleftrightarrow> (\<forall>d e. entry k u = Some (d, e) \<longrightarrow> e < now)"
  by (auto simp: get_eq split: option.splits)

lemma ok_get: "ok k \<Longrightarrow> ok (snd (get now u k))"
  by (auto simp: get_eq ok_evict split: option.splits)

lemma entry_get_le: "entry (snd (get now u k)) v = Some x \<Longrightarrow> entry k v = Some x"
  by (auto simp: get_eq entry_evict split: option.splits if_splits)

lemma get_keeps_live: "fst (get now u k) = Some d \<Longrightarrow> snd (get now u k) = k"
  by (auto simp: get_eq split: option.splits if_splits)

lemma get_after_evict: "fst (get now u (evict u k)) = None"
  by (simp add: get_None_iff entry_evict)

lemma get_after_put: "now' \<le> now + ttl \<Longrightarrow> fst (get now' u (put now u d ttl k)) = Some d"
  by (simp add: get_Some_iff entry_put)

lemma get_after_deadline: "now + ttl < now' \<Longrightarrow> fst (get now' u (put now u d ttl k)) = None"
  by (simp add: get_None_iff entry_put)

lemma get_other_put: "u \<noteq> v \<Longrightarrow> fst (get now' v (put now u d ttl k)) = fst (get now' v k)"
  by (simp add: get_eq entry_put split: option.splits)

end

lemma kr_entry_evict: "kr_entry (kr_evict u k) = (kr_entry k)(u := None)"
  by (auto simp: kr_entry_def kr_evict_def delete_conv fun_eq_iff)

lemma kr_entry_put: "kr_entry (kr_put now u d ttl k) = (kr_entry k)(u \<mapsto> (d, now + ttl))"
  by (auto simp: kr_entry_def kr_put_def update_conv fun_eq_iff)

interpretation kr: dek_store kr_ok kr_entry kr_get kr_evict kr_put
proof unfold_locales
  fix k :: keyring and u :: id and now :: instant and d :: dek and ttl :: duration
  show "kr_ok k \<Longrightarrow> kr_ok (kr_evict u k)"
    by (simp add: kr_ok_def kr_evict_def distinct_delete)
  show "kr_ok k \<Longrightarrow> kr_ok (kr_put now u d ttl k)"
    by (simp add: kr_ok_def kr_put_def distinct_update)
  show "kr_get now u k =
      (case kr_entry k u of
         None \<Rightarrow> (None, k)
       | Some (d, e) \<Rightarrow> if now > e then (None, kr_evict u k) else (Some d, k))"
    by (simp add: kr_get_def kr_entry_def split: option.splits)
qed (rule kr_entry_evict kr_entry_put)+

section \<open>Sweeping, snapshots and restores\<close>

lemma map_of_filter_distinct:
  assumes "distinct (map fst k)"
  shows "map_of (filter (\<lambda>(_, e). P e) k) u =
         (case map_of k u of None \<Rightarrow> None | Some e \<Rightarrow> if P e then Some e else None)"
  using assms
proof (induction k)
  case (Cons p k)
  obtain v e where p: "p = (v, e)" by force
  have "v \<notin> fst ` set k" using Cons.prems by (simp add: p)
  then have "map_of (filter (\<lambda>(_, e). P e) k) v = None"
    by (force simp: map_of_eq_None_iff)
  with Cons show ?case by (auto simp: p)
qed simp

lemma kr_entry_evict_expired:
  assumes "kr_ok k"
  shows "kr_entry (snd (kr_evict_expired now k)) u =
         (case kr_entry k u of None \<Rightarrow> None | Some (d, e) \<Rightarrow> if now > e then None else Some (d, e))"
  using assms
  by (simp add: kr_ok_def kr_entry_def kr_evict_expired_def
        map_of_filter_distinct [where P = "\<lambda>e. \<not> now > ke_expires_at e"] split: option.splits)

lemma kr_ok_evict_expired: "kr_ok k \<Longrightarrow> kr_ok (snd (kr_evict_expired now k))"
  by (simp add: kr_ok_def kr_evict_expired_def distinct_map_filter)

lemma map_of_snapshot:
  assumes "kr_ok k"
  shows "map_of (kr_snapshot now k) u = fst (kr_get now u k)"
proof -
  have "map_of (kr_snapshot now k) u =
      map_option ke_dek (map_of (filter (\<lambda>(_, e). \<not> now > ke_expires_at e) k) u)"
    unfolding kr_snapshot_def by (induction k) auto
  then show ?thesis
    using assms
    by (simp add: kr_ok_def kr_get_def
          map_of_filter_distinct [where P = "\<lambda>e. \<not> now > ke_expires_at e"] split: option.splits)
qed

lemma distinct_snapshot: "kr_ok k \<Longrightarrow> distinct (map fst (kr_snapshot now k))"
  by (simp add: kr_ok_def kr_snapshot_def case_prod_beta comp_def distinct_map_filter)

lemma kr_entry_restore:
  assumes "distinct (map fst deks)"
  shows "kr_entry (kr_restore now deks ttl k) u =
         (case map_of deks u of None \<Rightarrow> kr_entry k u | Some d \<Rightarrow> Some (d, now + ttl))"
  using assms
proof (induction deks arbitrary: k)
  case Nil
  then show ?case by (simp add: kr_restore_def)
next
  case (Cons p deks)
  obtain v d where p: "p = (v, d)" by force
  have step: "kr_restore now (p # deks) ttl k = kr_restore now deks ttl (kr_put now v d ttl k)"
    by (simp add: kr_restore_def kr_put_def p)
  have "map_of deks v = None" using Cons.prems by (force simp: p map_of_eq_None_iff)
  with Cons show ?case by (auto simp: step [unfolded p] kr_entry_put p split: option.splits)
qed

lemma kr_ok_restore: "kr_ok k \<Longrightarrow> kr_ok (kr_restore now deks ttl k)"
proof (induction deks arbitrary: k)
  case Nil
  then show ?case by (simp add: kr_restore_def)
next
  case (Cons p deks)
  obtain v d where p: "p = (v, d)" by force
  have "kr_restore now (p # deks) ttl k = kr_restore now deks ttl (kr_put now v d ttl k)"
    by (simp add: kr_restore_def kr_put_def p)
  with Cons show ?case by (simp add: kr.ok_put)
qed

section \<open>Histories\<close>

datatype kr_op =
    KPut instant id dek duration
  | KEvict id
  | KGet instant id
  | KSweep instant
  | KRestore instant "(id \<times> dek) list" duration

fun kr_exec :: "kr_op \<Rightarrow> keyring \<Rightarrow> keyring" where
  "kr_exec (KPut now u d ttl) k = kr_put now u d ttl k"
| "kr_exec (KEvict u) k = kr_evict u k"
| "kr_exec (KGet now u) k = snd (kr_get now u k)"
| "kr_exec (KSweep now) k = snd (kr_evict_expired now k)"
| "kr_exec (KRestore now deks ttl) k = kr_restore now deks ttl k"

definition kr_run :: "kr_op list \<Rightarrow> keyring \<Rightarrow> keyring" where
  "kr_run ops k = fold kr_exec ops k"

text \<open>The operations that may give a user a key, and until when it lasts.\<close>

fun provides :: "kr_op \<Rightarrow> id \<Rightarrow> dek \<Rightarrow> instant \<Rightarrow> bool" where
  "provides (KPut now u d ttl) v d' e \<longleftrightarrow> u = v \<and> d = d' \<and> e = now + ttl"
| "provides (KRestore now deks ttl) v d' e \<longleftrightarrow> (v, d') \<in> set deks \<and> e = now + ttl"
| "provides _ v d' e \<longleftrightarrow> False"

lemma kr_entry_restore_Some:
  "kr_entry (kr_restore now deks ttl k) u = Some (d, e) \<Longrightarrow>
   kr_entry k u = Some (d, e) \<or> (u, d) \<in> set deks \<and> e = now + ttl"
proof (induction deks arbitrary: k)
  case Nil
  then show ?case by (simp add: kr_restore_def)
next
  case (Cons p deks)
  obtain v d' where p: "p = (v, d')" by force
  have step: "kr_restore now (p # deks) ttl k = kr_restore now deks ttl (kr_put now v d' ttl k)"
    by (simp add: kr_restore_def kr_put_def p)
  from Cons.prems Cons.IH [of "kr_put now v d' ttl k"] show ?case
    by (auto simp: step [unfolded p] kr_entry_put p split: if_splits)
qed

lemma kr_ok_exec: "kr_ok k \<Longrightarrow> kr_ok (kr_exec op k)"
  by (cases op) (simp_all add: kr.ok_put kr.ok_evict kr.ok_get kr_ok_evict_expired kr_ok_restore)

lemma kr_ok_new: "kr_ok new_keyring"
  by (simp add: kr_ok_def new_keyring_def)

lemma kr_ok_run: "kr_ok k \<Longrightarrow> kr_ok (kr_run ops k)"
  unfolding kr_run_def by (induction ops arbitrary: k) (simp_all add: kr_ok_exec)

lemma kr_exec_entry:
  assumes "kr_ok k" and "kr_entry (kr_exec op k) u = Some (d, e)"
  shows "provides op u d e \<or> kr_entry k u = Some (d, e) \<and> op \<noteq> KEvict u"
  using assms
  by (cases op)
    (auto simp: kr_entry_put kr_entry_evict kr_entry_evict_expired
      dest: kr_entry_restore_Some kr.entry_get_le split: if_splits option.splits)

lemma kr_run_entry:
  assumes "kr_ok k" and "kr_entry (kr_run ops k) u = Some (d, e)"
  shows "(kr_entry k u = Some (d, e) \<and> KEvict u \<notin> set ops) \<or>
         (\<exists>before op after. ops = before @ op # after \<and> provides op u d e \<and> KEvict u \<notin> set after)"
  using assms
proof (induction ops arbitrary: k)
  case Nil
  then show ?case by (simp add: kr_run_def)
next
  case (Cons op ops)
  have ok: "kr_ok (kr_exec op k)" using Cons.prems(1) by (rule kr_ok_exec)
  have "kr_entry (kr_run ops (kr_exec op k)) u = Some (d, e)"
    using Cons.prems(2) by (simp add: kr_run_def)
  from Cons.IH [OF ok this] show ?case
  proof
    assume c: "kr_entry (kr_exec op k) u = Some (d, e) \<and> KEvict u \<notin> set ops"
    with kr_exec_entry [OF Cons.prems(1)] have
      "provides op u d e \<or> kr_entry k u = Some (d, e) \<and> op \<noteq> KEvict u" by blast
    with c show ?thesis by (metis append_Nil set_ConsD)
  next
    assume "\<exists>before op after. ops = before @ op # after \<and> provides op u d e \<and> KEvict u \<notin> set after"
    then show ?thesis by (metis append_Cons)
  qed
qed

section \<open>Properties\<close>

text \<open>
  after any history of unlocks, logouts, reads, sweeps and restores, a user's key can
  be read only if some unlock or restore gave exactly that key to that user, the read is
  within the lifetime it was given, and no logout of the user came after it.
\<close>

theorem key_only_within_unlock:
  assumes "fst (kr_get now u (kr_run ops new_keyring)) = Some d"
  shows "\<exists>before op after e. ops = before @ op # after \<and> provides op u d e \<and> now \<le> e \<and>
           KEvict u \<notin> set after"
proof -
  obtain e where e: "kr_entry (kr_run ops new_keyring) u = Some (d, e)" "now \<le> e"
    using assms by (auto simp: kr.get_Some_iff)
  have "kr_entry new_keyring u = None" by (simp add: kr_entry_def new_keyring_def)
  with kr_run_entry [OF kr_ok_new e(1)] e(2) show ?thesis by fastforce
qed

theorem key_only_within_unlock_witness:
  "\<exists>before op after e.
     [KPut 0 7 ''k'' 100, KSweep 40, KGet 50 7] = before @ op # after \<and>
     provides op 7 ''k'' e \<and> 60 \<le> e \<and> KEvict 7 \<notin> set after"
  by (rule key_only_within_unlock) code_simp

end
