(* ===== verification/Secrets.thy ===== *)
theory Secrets
  imports Base64 Keyring Demo_Codec
begin

text \<open>
  Sealed secrets (\<open>pkg/secrets\<close>): values encrypted under their owner's key, the GORM
  serializer that guards the columns they are stored in, the wrapping of a key under a
  passkey's PRF output, and the keyring snapshot carried over a planned restart.

  AES-256-GCM, HKDF, the boot key and \<open>encoding/json\<close> are arguments: \<open>sealf key nonce p\<close>
  and \<open>openf key nonce c\<close> are \<open>cipher.AEAD\<close>'s \<open>Seal\<close> and \<open>Open\<close>, and \<open>rand\<close> is what
  \<open>rand.Read\<close> delivered (None: it failed).  What is assumed of them is stated by
  \<open>gcm_correct\<close>, \<open>gcm_authentic\<close>, \<open>boot_key_correct\<close> and \<open>json_correct\<close>.
\<close>

section \<open>AES-256-GCM\<close>

type_synonym aead_seal = "dek \<Rightarrow> bytes \<Rightarrow> bytes \<Rightarrow> bytes"
type_synonym aead_open = "dek \<Rightarrow> bytes \<Rightarrow> bytes \<Rightarrow> bytes option"

definition nonce_size :: nat where
  "nonce_size = 12"

definition gcm_seal :: "aead_seal \<Rightarrow> bytes option \<Rightarrow> dek \<Rightarrow> bytes \<Rightarrow> bytes option" where
  "gcm_seal sealf rand key plaintext =
     (case rand of None \<Rightarrow> None | Some nonce \<Rightarrow> Some (nonce @ sealf key nonce plaintext))"

definition gcm_open :: "aead_open \<Rightarrow> dek \<Rightarrow> bytes \<Rightarrow> bytes option" where
  "gcm_open openf key blob =
     (if length blob < nonce_size then None
      else openf key (take nonce_size blob) (drop nonce_size blob))"

definition gcm_correct :: "aead_seal \<Rightarrow> aead_open \<Rightarrow> bool" where
  "gcm_correct sealf openf \<longleftrightarrow>
     (\<forall>key nonce p. length nonce = nonce_size \<longrightarrow> openf key nonce (sealf key nonce p) = Some p)"

lemma gcm_roundtrip:
  assumes "gcm_correct sealf openf" and "length nonce = nonce_size"
    and "gcm_seal sealf (Some nonce) key p = Some blob"
  shows "gcm_open openf key blob = Some p"
  using assms by (auto simp: gcm_correct_def gcm_seal_def gcm_open_def)

text \<open>
  What GCM's authentication gives for a set of keys in use: a text sealed under one of them does
  not open under another.
\<close>

definition gcm_authentic :: "aead_seal \<Rightarrow> aead_open \<Rightarrow> dek set \<Rightarrow> bool" where
  "gcm_authentic sealf openf keys \<longleftrightarrow>
     (\<forall>d \<in> keys. \<forall>d2 \<in> keys. \<forall>nonce p. d2 \<noteq> d \<longrightarrow> length nonce = nonce_size \<longrightarrow>
        openf d2 nonce (sealf d nonce p) = None)"

section \<open>Sealed values\<close>

datatype secret_error =
  ErrLocked | MalformedValue | MalformedUserId | CannotDecrypt id | UnrecognizedFormat | SealFailed

definition secret_namespace :: string where
  "secret_namespace = ''enc:''"

definition prefix_user :: string where
  "prefix_user = ''enc:u1:''"

definition is_sealed :: "string \<Rightarrow> bool" where
  "is_sealed v = has_prefix v prefix_user"

definition unlock_user :: "instant \<Rightarrow> id \<Rightarrow> dek \<Rightarrow> duration \<Rightarrow> keyring \<Rightarrow> keyring" where
  "unlock_user now user d ttl k = kr_put now user d ttl k"

definition lock_user :: "id \<Rightarrow> keyring \<Rightarrow> keyring" where
  "lock_user user k = kr_evict user k"

definition is_unlocked :: "instant \<Rightarrow> id \<Rightarrow> keyring \<Rightarrow> bool \<times> keyring" where
  "is_unlocked now user k = (case kr_get now user k of (r, k') \<Rightarrow> (r \<noteq> None, k'))"

definition encrypt_for_user ::
  "aead_seal \<Rightarrow> bytes option \<Rightarrow> instant \<Rightarrow> id \<Rightarrow> string \<Rightarrow> keyring \<Rightarrow>
   (secret_error + string) \<times> keyring" where
  "encrypt_for_user sealf rand now user plaintext k =
     (if plaintext = [] \<or> is_sealed plaintext then (Inr plaintext, k)
      else case kr_get now user k of
        (None, k') \<Rightarrow> (Inl ErrLocked, k')
      | (Some d, k') \<Rightarrow>
          (case gcm_seal sealf rand d plaintext of
             None \<Rightarrow> (Inl SealFailed, k')
           | Some blob \<Rightarrow>
               (Inr (prefix_user @ dec_int user @ CHR '':'' # b64_encode blob), k')))"

definition open_user ::
  "aead_open \<Rightarrow> instant \<Rightarrow> string \<Rightarrow> keyring \<Rightarrow> (secret_error + string) \<times> keyring" where
  "open_user openf now stored k =
     (let rest = trim_prefix stored prefix_user
      in case cut_at (CHR '':'') rest of
           None \<Rightarrow> (Inl MalformedValue, k)
         | Some (id_str, b64) \<Rightarrow>
             (case parse_int 32 id_str of
                None \<Rightarrow> (Inl MalformedUserId, k)
              | Some user \<Rightarrow>
                  (case b64_decode b64 of
                     None \<Rightarrow> (Inl MalformedValue, k)
                   | Some blob \<Rightarrow>
                       (case kr_get now user k of
                          (None, k') \<Rightarrow> (Inl ErrLocked, k')
                        | (Some d, k') \<Rightarrow>
                            (case gcm_open openf d blob of
                               None \<Rightarrow> (Inl (CannotDecrypt user), k')
                             | Some plain \<Rightarrow> (Inr plain, k'))))))"

definition decrypt ::
  "aead_open \<Rightarrow> instant \<Rightarrow> string \<Rightarrow> keyring \<Rightarrow> (secret_error + string) \<times> keyring" where
  "decrypt openf now stored k =
     (if is_sealed stored then open_user openf now stored k
      else if has_prefix stored secret_namespace then (Inl UnrecognizedFormat, k)
      else (Inr stored, k))"

section \<open>The column serializer\<close>

datatype db_value = DbNull | DbText string | DbBytes bytes | DbOther

datatype go_value = GoString string | GoOther

definition sealed_scan :: "db_value \<Rightarrow> string option" where
  "sealed_scan v =
     (case v of DbNull \<Rightarrow> Some [] | DbText s \<Rightarrow> Some s | DbBytes b \<Rightarrow> Some b | DbOther \<Rightarrow> None)"

definition sealed_value :: "go_value \<Rightarrow> string option" where
  "sealed_value v =
     (case v of
        GoOther \<Rightarrow> None
      | GoString s \<Rightarrow> if s \<noteq> [] \<and> \<not> is_sealed s then None else Some s)"

section \<open>Passkey wrapping\<close>

datatype prf_error = PrfTooShort | PrfSealFailed | CorruptWrapped | PrfMismatch | BadDekSize

definition prf_wrap_prefix :: string where
  "prf_wrap_prefix = ''prf1:''"

definition derive_key_from_prf :: "(bytes \<Rightarrow> dek option) \<Rightarrow> bytes \<Rightarrow> prf_error + dek" where
  "derive_key_from_prf hkdf prf =
     (if length prf < 16 then Inl PrfTooShort
      else case hkdf prf of None \<Rightarrow> Inl PrfSealFailed | Some key \<Rightarrow> Inr key)"

definition wrap_dek_for_prf ::
  "(bytes \<Rightarrow> dek option) \<Rightarrow> aead_seal \<Rightarrow> bytes option \<Rightarrow> dek \<Rightarrow> bytes \<Rightarrow> prf_error + string" where
  "wrap_dek_for_prf hkdf sealf rand d prf =
     (case derive_key_from_prf hkdf prf of
        Inl e \<Rightarrow> Inl e
      | Inr kek \<Rightarrow>
          (case gcm_seal sealf rand kek d of
             None \<Rightarrow> Inl PrfSealFailed
           | Some blob \<Rightarrow> Inr (prf_wrap_prefix @ b64_encode blob)))"

definition unwrap_dek_with_prf ::
  "(bytes \<Rightarrow> dek option) \<Rightarrow> aead_open \<Rightarrow> string \<Rightarrow> bytes \<Rightarrow> prf_error + dek" where
  "unwrap_dek_with_prf hkdf openf wrapped prf =
     (case derive_key_from_prf hkdf prf of
        Inl e \<Rightarrow> Inl e
      | Inr kek \<Rightarrow>
          (case b64_decode (trim_prefix wrapped prf_wrap_prefix) of
             None \<Rightarrow> Inl CorruptWrapped
           | Some blob \<Rightarrow>
               (case gcm_open openf kek blob of
                  None \<Rightarrow> Inl PrfMismatch
                | Some d \<Rightarrow> if length d \<noteq> 32 then Inl BadDekSize else Inr d)))"

section \<open>The snapshot over a planned restart\<close>

text \<open>
  A Go map is the list of its entries in some iteration order; the decoder delivers the
  entries of the object it read, each key once.
\<close>

type_synonym string_map = "(string \<times> string) list"

definition seal_keyring ::
  "(string_map \<Rightarrow> bytes option) \<Rightarrow> (bytes \<Rightarrow> bytes option) \<Rightarrow> instant \<Rightarrow> keyring \<Rightarrow>
   bytes option" where
  "seal_keyring marshal boot_seal now k =
     (let snap = kr_snapshot now k
      in if length snap = 0 then Some []
         else let m = map (\<lambda>(i, d). (dec_int i, b64_encode d)) snap
              in case marshal m of None \<Rightarrow> None | Some data \<Rightarrow> boot_seal data)"

definition unseal_entry :: "string \<times> string \<Rightarrow> (id \<times> dek) option" where
  "unseal_entry = (\<lambda>(key, v).
     case parse_int 64 key of
       None \<Rightarrow> None
     | Some i \<Rightarrow>
         (case b64_decode v of
            None \<Rightarrow> None
          | Some b \<Rightarrow> if length b \<noteq> 32 then None else Some (to_int32 i, b)))"

definition unseal_keyring ::
  "(bytes \<Rightarrow> string_map option) \<Rightarrow> (bytes \<Rightarrow> bytes option) \<Rightarrow> bytes \<Rightarrow> instant \<Rightarrow> duration \<Rightarrow>
   keyring \<Rightarrow> bool \<times> keyring" where
  "unseal_keyring unmarshal boot_unseal blob now ttl k =
     (case boot_unseal blob of
        None \<Rightarrow> (False, k)
      | Some data \<Rightarrow>
          (case unmarshal data of
             None \<Rightarrow> (False, k)
           | Some m \<Rightarrow>
               let out = fold (\<lambda>(i, d) acc. AList.update i d acc)
                           (List.map_filter unseal_entry m) []
               in (True, kr_restore now out ttl k)))"

definition boot_key_correct :: "(bytes \<Rightarrow> bytes option) \<Rightarrow> (bytes \<Rightarrow> bytes option) \<Rightarrow> bool" where
  "boot_key_correct boot_seal boot_unseal \<longleftrightarrow>
     (\<forall>p c. boot_seal p = Some c \<longrightarrow> boot_unseal c = Some p)"

text \<open>\<open>json.Marshal\<close> rewrites strings that are not UTF-8; the snapshot's are ASCII.\<close>

definition ascii :: "string \<Rightarrow> bool" where
  "ascii s = list_all (\<lambda>c. (of_char c :: nat) < 128) s"

definition json_correct ::
  "(string_map \<Rightarrow> bytes option) \<Rightarrow> (bytes \<Rightarrow> string_map option) \<Rightarrow> bool" where
  "json_correct marshal unmarshal \<longleftrightarrow>
     (\<forall>m data. distinct (map fst m) \<longrightarrow> list_all (\<lambda>(k, v). ascii k \<and> ascii v) m \<longrightarrow>
        marshal m = Some data \<longrightarrow>
        (\<exists>m'. unmarshal data = Some m' \<and> distinct (map fst m') \<and> map_of m' = map_of m))"

section \<open>Lemmas on sealed values\<close>

text \<open>User ids are Go's \<open>int32\<close> and keys are \<open>[32]byte\<close>.\<close>

definition int32_range :: "int \<Rightarrow> bool" where
  "int32_range i \<longleftrightarrow> - (2 ^ 31) \<le> i \<and> i < 2 ^ 31"

definition kr_typed :: "keyring \<Rightarrow> bool" where
  "kr_typed k \<longleftrightarrow> (\<forall>(i, e) \<in> set k. int32_range i \<and> length (ke_dek e) = 32)"

definition sealed_for :: "id \<Rightarrow> bytes \<Rightarrow> string" where
  "sealed_for user blob = prefix_user @ dec_int user @ CHR '':'' # b64_encode blob"

lemma sealed_for_shape [simp]: "is_sealed (sealed_for u blob)" "sealed_for u blob \<noteq> []"
  by (simp_all add: is_sealed_def sealed_for_def prefix_user_def has_prefix_def)

lemma parse_id [simp]: "int32_range i \<Longrightarrow> parse_int 32 (dec_int i) = Some i"
  by (simp add: int32_range_def parse_int_dec_int)

lemma open_sealed:
  assumes "int32_range u"
  shows "decrypt openf now (sealed_for u blob) k =
         (case kr_get now u k of
            (None, k') \<Rightarrow> (Inl ErrLocked, k')
          | (Some d, k') \<Rightarrow>
              (case gcm_open openf d blob of
                 None \<Rightarrow> (Inl (CannotDecrypt u), k') | Some p \<Rightarrow> (Inr p, k')))"
proof -
  have "trim_prefix (sealed_for u blob) prefix_user = dec_int u @ CHR '':'' # b64_encode blob"
    by (simp add: sealed_for_def)
  moreover have "cut_at (CHR '':'') (dec_int u @ CHR '':'' # b64_encode blob) =
      Some (dec_int u, b64_encode blob)"
    by (simp add: dec_int_no_colon)
  ultimately show ?thesis
    using assms by (simp add: decrypt_def open_user_def)
qed

lemma decrypt_sealed:
  assumes "int32_range u"
  shows "fst (decrypt openf now (sealed_for u blob) k) =
         (case fst (kr_get now u k) of
            None \<Rightarrow> Inl ErrLocked
          | Some d \<Rightarrow>
              (case gcm_open openf d blob of None \<Rightarrow> Inl (CannotDecrypt u) | Some p \<Rightarrow> Inr p))"
  by (cases "kr_get now u k") (simp add: open_sealed [OF assms] split: option.splits)

lemma encrypt_unlocked:
  assumes "p \<noteq> []" and "\<not> is_sealed p" and "fst (kr_get now u k) = Some d"
  shows "fst (encrypt_for_user sealf (Some nonce) now u p k) =
         Inr (sealed_for u (nonce @ sealf d nonce p))"
  using assms
  by (cases "kr_get now u k") (simp add: encrypt_for_user_def gcm_seal_def sealed_for_def)

text \<open>A successful encryption of something that is not empty and not sealed.\<close>

lemma encrypt_success:
  assumes "fst (encrypt_for_user sealf rand now u p k) = Inr c" and "p \<noteq> []" and "\<not> is_sealed p"
  shows "\<exists>d nonce. fst (kr_get now u k) = Some d \<and> rand = Some nonce \<and>
           c = sealed_for u (nonce @ sealf d nonce p)"
  using assms
  by (auto simp: encrypt_for_user_def gcm_seal_def sealed_for_def split: prod.splits option.splits)

lemma open_user_Inr:
  assumes "fst (open_user openf now s k) = Inr p"
  shows "\<exists>u b64 blob d. cut_at (CHR '':'') (trim_prefix s prefix_user) = Some (u, b64) \<and>
           b64_decode b64 = Some blob \<and> gcm_open openf d blob = Some p \<and>
           (\<exists>i. parse_int 32 u = Some i \<and> fst (kr_get now i k) = Some d)"
  using assms
  by (auto simp: open_user_def Let_def split: option.splits prod.splits)

section \<open>Lemmas on the snapshot\<close>

lemma ascii_append [simp]: "ascii (s @ t) \<longleftrightarrow> ascii s \<and> ascii t"
  by (simp add: ascii_def)

lemma ascii_dec_int [simp]: "ascii (dec_int i)"
proof -
  have "ascii (dec_nat n)" for n
    using dec_nat_digits [of n] by (auto simp: ascii_def list_all_iff is_digit_def Let_def dest!: bspec)
  then show ?thesis by (simp add: dec_int_def ascii_def)
qed

lemma ascii_b64 [simp]: "ascii (b64_encode s)"
proof -
  have "\<forall>c \<in> insert (CHR ''='') (set b64_alphabet). (of_char c :: nat) < 128"
    by (simp add: b64_alphabet_def)
  then show ?thesis using set_b64_encode [of s] by (auto simp: ascii_def list_all_iff)
qed

lemma unseal_entry_sealed [simp]:
  assumes "int32_range i" and "length d = 32"
  shows "unseal_entry (dec_int i, b64_encode d) = Some (i, d)"
proof -
  have "parse_int 64 (dec_int i) = Some i"
    using assms(1) by (intro parse_int_dec_int) (auto simp: int32_range_def)
  moreover have "to_int32 i = i"
    using assms(1) by (simp add: to_int32_def int32_range_def)
  ultimately show ?thesis using assms(2) by (simp add: unseal_entry_def)
qed

lemma map_of_fold_update:
  assumes "\<And>i d d'. (i, d) \<in> set L \<Longrightarrow> (i, d') \<in> set L \<Longrightarrow> d = d'"
  shows "map_of (fold (\<lambda>(i, d) acc. AList.update i d acc) L acc) i =
         (if \<exists>d. (i, d) \<in> set L then Some (THE d. (i, d) \<in> set L) else map_of acc i)"
  using assms
proof (induction L arbitrary: acc)
  case (Cons p L)
  obtain j e where p: "p = (j, e)" by force
  have IH: "map_of (fold (\<lambda>(i, d) acc. AList.update i d acc) L (AList.update j e acc)) i =
      (if \<exists>d. (i, d) \<in> set L then Some (THE d. (i, d) \<in> set L)
       else map_of (AList.update j e acc) i)"
    using Cons.prems by (intro Cons.IH) (auto simp: p)
  have e: "(THE d. (j, d) \<in> set (p # L)) = e"
    using Cons.prems by (intro the_equality) (auto simp: p)
  have "(THE d. (j, d) \<in> set L) = e" if "(j, d) \<in> set L" for d
    using Cons.prems that by (intro the_equality) (auto simp: p)
  with IH e show ?case by (auto simp: p update_conv)
qed simp

lemma distinct_fold_update:
  "distinct (map fst acc) \<Longrightarrow>
   distinct (map fst (fold (\<lambda>(i, d) acc. AList.update i d acc) L acc))"
  by (induction L arbitrary: acc) (auto simp: distinct_update split: prod.split)

lemma map_of_decoded:
  assumes "kr_ok k" "kr_typed k"
    and m': "distinct (map fst m')"
      "map_of m' = map_of (map (\<lambda>(i, d). (dec_int i, b64_encode d)) (kr_snapshot now k))"
  defines "out \<equiv> fold (\<lambda>(i, d) acc. AList.update i d acc) (List.map_filter unseal_entry m') []"
  shows "map_of out u = fst (kr_get now u k) \<and> distinct (map fst out)"
proof -
  let ?snap = "kr_snapshot now k"
  have ds: "distinct (map fst ?snap)" using assms(1) by (rule distinct_snapshot)
  have ty: "int32_range i \<and> length d = 32" if "(i, d) \<in> set ?snap" for i d
    using assms(2) that by (auto simp: kr_typed_def kr_snapshot_def)
  have "inj_on dec_int (fst ` set ?snap)"
    using ty by (fastforce intro!: inj_onI)
  then have dm: "distinct (map fst (map (\<lambda>(i, d). (dec_int i, b64_encode d)) ?snap))"
    using ds by (simp add: comp_def case_prod_beta distinct_map inj_on_def)
  have "set m' = set (map (\<lambda>(i, d). (dec_int i, b64_encode d)) ?snap)"
    using m' dm map_of_inject_set by metis
  then have "set (List.map_filter unseal_entry m') =
      {p. \<exists>(i, d) \<in> set ?snap. unseal_entry (dec_int i, b64_encode d) = Some p}"
    by (force simp: List.map_filter_def)
  also have "\<dots> = set ?snap" using ty by force
  finally have L: "set (List.map_filter unseal_entry m') = set ?snap" .
  have uniq: "d = d'" if "(i, d) \<in> set ?snap" "(i, d') \<in> set ?snap" for i d d'
    using ds that by (auto dest: eq_key_imp_eq_value)
  have "map_of out u = map_of ?snap u"
  proof (cases "map_of ?snap u")
    case None
    then have "\<nexists>d. (u, d) \<in> set ?snap" by (force simp: map_of_eq_None_iff)
    with None show ?thesis
      unfolding out_def by (subst map_of_fold_update) (auto simp: L dest: uniq)
  next
    case (Some d)
    then have d: "(u, d) \<in> set ?snap" by (rule map_of_SomeD)
    then have "(THE d. (u, d) \<in> set ?snap) = d" using uniq by blast
    with d Some show ?thesis
      unfolding out_def by (subst map_of_fold_update) (auto simp: L dest: uniq)
  qed
  moreover have "distinct (map fst out)"
    unfolding out_def by (rule distinct_fold_update) simp
  ultimately show ?thesis using map_of_snapshot [OF assms(1)] by simp
qed

section \<open>Properties\<close>

text \<open>The parameters of the witnesses: a cipher that shows its key, and the codec of \<open>Demo_Codec\<close>.\<close>

definition demo_seal :: aead_seal where
  "demo_seal key nonce p = key @ nonce @ p"

definition demo_open :: aead_open where
  "demo_open key nonce c =
     (if has_prefix c (key @ nonce) then Some (drop (length (key @ nonce)) c) else None)"

lemma demo_gcm: "gcm_correct demo_seal demo_open"
proof -
  have "has_prefix (key @ nonce @ p) (key @ nonce)" for key nonce p
    using has_prefix_append [of "key @ nonce" p] by simp
  then show ?thesis by (simp add: gcm_correct_def demo_seal_def demo_open_def)
qed

lemma demo_authentic: "gcm_authentic demo_seal demo_open {d. length d = 32}"
  by (auto simp: gcm_authentic_def demo_seal_def demo_open_def has_prefix_def)

definition demo_dek :: dek where
  "demo_dek = replicate 32 (CHR ''k'')"

definition demo_nonce :: bytes where
  "demo_nonce = replicate 12 (CHR ''n'')"

lemma demo_lengths [simp]: "length demo_dek = 32" "length demo_nonce = nonce_size"
  by (simp_all add: demo_dek_def demo_nonce_def nonce_size_def)

text \<open>
  C29: what an unlocked user's secret is sealed to is accepted by the column serializer,
  comes back from the column unchanged, and decrypts to the secret wherever and whenever
  that user is unlocked with the same key; under another of the keys in use it is reported as
  not decryptable, and while the user is locked it is reported as locked.
\<close>

theorem secret_roundtrip:
  assumes "gcm_correct sealf openf" and "gcm_authentic sealf openf keys"
    and "length nonce = nonce_size" and "int32_range u"
    and "p \<noteq> []" and "\<not> is_sealed p" and "fst (kr_get now u k) = Some d" and "d \<in> keys"
  shows "\<exists>c. fst (encrypt_for_user sealf (Some nonce) now u p k) = Inr c \<and>
           sealed_value (GoString c) = Some c \<and> sealed_scan (DbText c) = Some c \<and>
           (\<forall>later k2. fst (kr_get later u k2) = None \<longrightarrow> fst (decrypt openf later c k2) = Inl ErrLocked) \<and>
           (\<forall>later k2. fst (kr_get later u k2) = Some d \<longrightarrow> fst (decrypt openf later c k2) = Inr p) \<and>
           (\<forall>later k2. \<forall>d2 \<in> keys - {d}. fst (kr_get later u k2) = Some d2 \<longrightarrow>
              fst (decrypt openf later c k2) = Inl (CannotDecrypt u))"
proof -
  let ?c = "sealed_for u (nonce @ sealf d nonce p)"
  have "fst (encrypt_for_user sealf (Some nonce) now u p k) = Inr ?c"
    using assms(5-7) by (rule encrypt_unlocked)
  moreover have "gcm_open openf d (nonce @ sealf d nonce p) = Some p"
    using assms(1,3) by (rule gcm_roundtrip) (simp add: gcm_seal_def)
  moreover have "gcm_open openf d2 (nonce @ sealf d nonce p) = None" if "d2 \<in> keys - {d}" for d2
    using assms(2,3,8) that by (simp add: gcm_authentic_def gcm_open_def)
  moreover have "sealed_value (GoString ?c) = Some ?c" "sealed_scan (DbText ?c) = Some ?c"
    by (simp_all add: sealed_value_def sealed_scan_def)
  ultimately show ?thesis
    using assms(4) by (intro exI [of _ ?c]) (simp add: decrypt_sealed)
qed

theorem secret_roundtrip_witness:
  "\<exists>c. fst (encrypt_for_user demo_seal (Some demo_nonce) 5 7 ''sk-1''
              (unlock_user 0 7 demo_dek 10 new_keyring)) = Inr c \<and>
       fst (decrypt demo_open 8 c (unlock_user 0 7 demo_dek 10 new_keyring)) = Inr ''sk-1'' \<and>
       fst (decrypt demo_open 11 c (unlock_user 0 7 demo_dek 10 new_keyring)) = Inl ErrLocked \<and>
       fst (decrypt demo_open 8 c (lock_user 7 (unlock_user 0 7 demo_dek 10 new_keyring))) =
         Inl ErrLocked \<and>
       fst (decrypt demo_open 8 c (unlock_user 0 7 (replicate 32 (CHR ''z'')) 10 new_keyring)) =
         Inl (CannotDecrypt 7)"
proof -
  let ?z = "replicate 32 (CHR ''z'')"
  have z: "fst (kr_get 8 7 (unlock_user 0 7 ?z 10 new_keyring)) = Some ?z" "?z \<in> {d. length d = 32} - {demo_dek}"
    "demo_dek \<in> {d. length d = 32}"
    by (simp_all add: unlock_user_def kr.get_after_put demo_dek_def)
  let ?k = "unlock_user 0 7 demo_dek 10 new_keyring"
  have "fst (kr_get 5 7 ?k) = Some demo_dek" "fst (kr_get 8 7 ?k) = Some demo_dek"
    "fst (kr_get 11 7 ?k) = None" "fst (kr_get 8 7 (lock_user 7 ?k)) = None"
    by (simp_all add: unlock_user_def lock_user_def kr.get_after_put kr.get_after_deadline
        kr.get_after_evict)
  moreover have "length demo_nonce = nonce_size" "int32_range 7"
    by (simp_all add: int32_range_def)
  moreover have "\<not> is_sealed ''sk-1''"
    by (simp add: is_sealed_def prefix_user_def has_prefix_def)
  ultimately show ?thesis
    using secret_roundtrip [OF demo_gcm demo_authentic, of demo_nonce 7 "''sk-1''" 5 ?k demo_dek] z by blast
qed

text \<open>
  a stored value in the reserved namespace is never handed out as it is: what decryption
  returns for it was opened with the live key of the user its own text names, and a value in
  the namespace that is not in the per-user format is refused.
\<close>

theorem namespace_never_plaintext:
  assumes "has_prefix stored secret_namespace" and "fst (decrypt openf now stored k) = Inr p"
  shows "is_sealed stored \<and>
         (\<exists>u id_str b64 blob d e.
            cut_at (CHR '':'') (trim_prefix stored prefix_user) = Some (id_str, b64) \<and>
            parse_int 32 id_str = Some u \<and> b64_decode b64 = Some blob \<and>
            kr_entry k u = Some (d, e) \<and> now \<le> e \<and> gcm_open openf d blob = Some p)"
proof -
  have s: "is_sealed stored" using assms by (auto simp: decrypt_def split: if_splits)
  then have "fst (open_user openf now stored k) = Inr p"
    using assms(2) by (simp add: decrypt_def)
  from open_user_Inr [OF this] s show ?thesis by (auto simp: kr.get_Some_iff)
qed

theorem namespace_never_plaintext_witness:
  "\<exists>stored p. fst (decrypt demo_open 8 stored (unlock_user 0 7 demo_dek 10 new_keyring)) = Inr p \<and>
     is_sealed stored \<and> p = ''sk-1''"
proof -
  let ?s = "sealed_for 7 (demo_nonce @ demo_seal demo_dek demo_nonce ''sk-1'')"
  let ?k = "unlock_user 0 7 demo_dek 10 new_keyring"
  have "gcm_open demo_open demo_dek (demo_nonce @ demo_seal demo_dek demo_nonce ''sk-1'') =
      Some ''sk-1''"
    by (rule gcm_roundtrip [OF demo_gcm]) (simp_all add: gcm_seal_def)
  moreover have "fst (kr_get 8 7 ?k) = Some demo_dek"
    by (simp add: unlock_user_def kr.get_after_put)
  ultimately have d: "fst (decrypt demo_open 8 ?s ?k) = Inr ''sk-1''"
    by (simp add: decrypt_sealed int32_range_def)
  moreover have "has_prefix ?s secret_namespace"
    by (simp add: sealed_for_def prefix_user_def secret_namespace_def has_prefix_def)
  ultimately show ?thesis using namespace_never_plaintext by blast
qed

text \<open>
  after a logout, in any later history that contains no new unlock and no restore of
  that user, the user's sealed secrets cannot be decrypted, nothing new can be sealed for
  the user, and a snapshot for a restart does not contain the user's key.
\<close>

theorem logout_locks_user:
  fixes before later :: "kr_op list" and u :: id
  assumes "int32_range u" and "\<forall>op \<in> set later. \<forall>d e. \<not> provides op u d e"
  defines "k \<equiv> kr_run (before @ KEvict u # later) new_keyring"
  shows "fst (decrypt openf now (sealed_for u blob) k) = Inl ErrLocked \<and>
         (p \<noteq> [] \<and> \<not> is_sealed p \<longrightarrow>
            fst (encrypt_for_user sealf rand now u p k) = Inl ErrLocked) \<and>
         u \<notin> fst ` set (kr_snapshot now k)"
proof -
  have locked: "fst (kr_get now u k) = None"
  proof (rule ccontr)
    assume "fst (kr_get now u k) \<noteq> None"
    then obtain d e where "kr_entry k u = Some (d, e)" by (auto simp: kr.get_None_iff)
    moreover have "kr_ok (kr_run before new_keyring)" by (rule kr_ok_run [OF kr_ok_new])
    moreover have "k = kr_run later (kr_evict u (kr_run before new_keyring))"
      by (simp add: k_def kr_run_def)
    ultimately have "kr_entry (kr_evict u (kr_run before new_keyring)) u = Some (d, e) \<or>
        (\<exists>op \<in> set later. provides op u d e)"
      using kr_run_entry [OF kr.ok_evict] by fastforce
    then show False using assms(2) by (simp add: kr_entry_evict)
  qed
  then have "fst (encrypt_for_user sealf rand now u p k) = Inl ErrLocked"
    if "p \<noteq> []" "\<not> is_sealed p"
    using that by (cases "kr_get now u k") (simp add: encrypt_for_user_def)
  moreover have "map_of (kr_snapshot now k) u = None"
    using locked map_of_snapshot [OF kr_ok_run [OF kr_ok_new]] by (simp add: k_def)
  ultimately show ?thesis
    using locked by (simp add: decrypt_sealed [OF assms(1)] map_of_eq_None_iff)
qed

theorem logout_locks_user_witness:
  "7 \<notin> fst ` set (kr_snapshot 3
     (kr_run ([KPut 0 7 demo_dek 10] @ KEvict 7 # [KPut 2 8 demo_dek 10, KGet 3 7]) new_keyring))"
proof -
  have "\<forall>op \<in> set [KPut 2 8 demo_dek 10, KGet 3 7]. \<forall>d e. \<not> provides op 7 d e" by simp
  with logout_locks_user [of 7 _ demo_open 3 "[]" "[KPut 0 7 demo_dek 10]" "[]" demo_seal None]
  show ?thesis by (simp add: int32_range_def)
qed

text \<open>
  a planned restart keeps exactly the users whose keys were live when the keyring was
  sealed: unsealing into a fresh keyring gives each of them the same key with a fresh
  lifetime, and nobody else.
\<close>

theorem restart_keeps_live_keys:
  assumes "kr_ok k" and "kr_typed k" and "kr_snapshot now k \<noteq> []"
    and "json_correct marshal unmarshal" and "boot_key_correct boot_seal boot_unseal"
    and "seal_keyring marshal boot_seal now k = Some blob"
  shows "\<exists>k'. unseal_keyring unmarshal boot_unseal blob later ttl new_keyring = (True, k') \<and>
           (\<forall>u. kr_entry k' u = map_option (\<lambda>d. (d, later + ttl)) (fst (kr_get now u k)))"
proof -
  let ?m = "map (\<lambda>(i, d). (dec_int i, b64_encode d)) (kr_snapshot now k)"
  obtain data where data: "marshal ?m = Some data" "boot_seal data = Some blob"
    using assms(3,6) by (auto simp: seal_keyring_def Let_def split: option.splits)
  have "int32_range i" if "(i, d) \<in> set (kr_snapshot now k)" for i d
    using assms(2) that by (auto simp: kr_typed_def kr_snapshot_def)
  then have "inj_on dec_int (fst ` set (kr_snapshot now k))"
    by (fastforce intro!: inj_onI)
  then have "distinct (map fst ?m)"
    using distinct_snapshot [OF assms(1), of now]
    by (simp add: comp_def case_prod_beta distinct_map inj_on_def)
  moreover have "list_all (\<lambda>(k, v). ascii k \<and> ascii v) ?m"
    by (auto simp: list_all_iff)
  ultimately obtain m' where m': "unmarshal data = Some m'" "distinct (map fst m')"
      "map_of m' = map_of ?m"
    using assms(4) data(1) unfolding json_correct_def by blast
  have "boot_unseal blob = Some data" using assms(5) data(2) by (simp add: boot_key_correct_def)
  moreover note map_of_decoded [OF assms(1,2) m'(2,3)]
  ultimately show ?thesis
    using m'(1)
    by (auto simp: unseal_keyring_def Let_def kr_entry_restore kr_entry_def [of "[]"]
        new_keyring_def split: option.splits)
qed

lemma demo_json: "json_correct demo_marshal demo_unmarshal"
  by (simp add: json_correct_def demo_unmarshal_marshal)

theorem restart_keeps_live_keys_witness:
  "\<exists>blob k'. seal_keyring demo_marshal Some 5 (unlock_user 0 7 demo_dek 10 new_keyring) = Some blob \<and>
     unseal_keyring demo_unmarshal Some blob 100 10 new_keyring = (True, k') \<and>
     kr_entry k' 7 = Some (demo_dek, 110) \<and> kr_entry k' 8 = None"
proof -
  let ?k = "unlock_user 0 7 demo_dek 10 new_keyring"
  have k: "?k = [(7, \<lparr>ke_dek = demo_dek, ke_expires_at = 10\<rparr>)]"
    by (simp add: unlock_user_def kr_put_def new_keyring_def)
  have "kr_ok ?k" "kr_typed ?k" "kr_snapshot 5 ?k \<noteq> []"
    unfolding k by (simp_all add: kr_ok_def kr_typed_def int32_range_def kr_snapshot_def)
  moreover have "boot_key_correct Some Some" by (simp add: boot_key_correct_def)
  moreover obtain blob where "seal_keyring demo_marshal Some 5 ?k = Some blob"
    by (cases "kr_snapshot 5 ?k = []") (simp_all add: seal_keyring_def Let_def demo_marshal_def)
  moreover have "fst (kr_get 5 7 ?k) = Some demo_dek" "fst (kr_get 5 8 ?k) = None"
    by (simp_all add: k kr_get_def)
  ultimately show ?thesis
    using restart_keeps_live_keys [of ?k 5 demo_marshal _ Some Some blob 100 10, OF _ _ _ demo_json]
    by fastforce
qed

text \<open>
  a key wrapped under a passkey's PRF output is recovered from the credential by the
  same output; an output shorter than 16 bytes neither wraps nor unwraps anything; and only
  a 32-byte key is ever recovered.
\<close>

theorem passkey_roundtrip:
  assumes "gcm_correct sealf openf" and "length nonce = nonce_size" and "length d = 32"
    and "hkdf prf = Some kek"
  shows "(if length prf < 16
          then wrap_dek_for_prf hkdf sealf (Some nonce) d prf = Inl PrfTooShort \<and>
               unwrap_dek_with_prf hkdf openf w prf = Inl PrfTooShort
          else \<exists>w'. wrap_dek_for_prf hkdf sealf (Some nonce) d prf = Inr w' \<and>
                    unwrap_dek_with_prf hkdf openf w' prf = Inr d) \<and>
         (\<forall>x. unwrap_dek_with_prf hkdf openf w prf = Inr x \<longrightarrow> length x = 32)"
proof -
  have "gcm_open openf kek (nonce @ sealf kek nonce d) = Some d"
    using assms(1,2) by (rule gcm_roundtrip) (simp add: gcm_seal_def)
  then show ?thesis
    using assms(3,4)
    by (auto simp: wrap_dek_for_prf_def unwrap_dek_with_prf_def derive_key_from_prf_def
        gcm_seal_def split: option.splits if_splits)
qed

theorem passkey_roundtrip_witness:
  "\<exists>w. wrap_dek_for_prf (\<lambda>b. Some (take 32 (b @ b))) demo_seal (Some demo_nonce) demo_dek
         (replicate 16 (CHR ''p'')) = Inr w \<and>
       unwrap_dek_with_prf (\<lambda>b. Some (take 32 (b @ b))) demo_open w (replicate 16 (CHR ''p'')) =
         Inr demo_dek"
  using passkey_roundtrip [OF demo_gcm demo_lengths(2) demo_lengths(1),
      of "\<lambda>b. Some (take 32 (b @ b))" "replicate 16 (CHR ''p'')", OF refl, THEN conjunct1]
  by simp

end
