(* ===== verification/Account_Store.thy ===== *)
theory Account_Store
  imports Gateway_Auth Secrets
begin

text \<open>
  Accounts, teams, invitations, passkeys and the secrets that work once
  (\<open>db/repository/\<close>: \<open>user\<close>, \<open>team\<close>, \<open>team_invite\<close>, \<open>password_reset_token\<close>,
  \<open>webauthn_session\<close>, \<open>webauthn_credential\<close>, \<open>github_oauth_state\<close>).  The unique indexes of
  the models make an insertion fail.  A reset link, a passkey challenge, an invitation and an
  OAuth state share one contract, the locale \<open>one_time\<close>.  A transaction is one step here.  SQLite
  runs them one after the other; PostgreSQL need not: consuming a reset link or a challenge reads
  the row and then writes it by its id alone, so two concurrent transactions could both succeed
  there, which this model does not show.
\<close>

section \<open>Users\<close>

abbreviation set_u_id :: "int \<Rightarrow> user \<Rightarrow> user" where
  "set_u_id i u \<equiv> u\<lparr>u_id := i\<rparr>"

interpretation user_rows: keyed_rows u_id set_u_id
  by unfold_locales simp

datatype account_error = Reset_Invalid | Invite_Invalid | Invite_Used

type_synonym ('t, 'a) store_op = "('t, account_error, 'a) db_op"

definition normalize_email :: "string \<Rightarrow> string" where
  "normalize_email e = to_lower (trim_space e)"

definition create_user_body :: "faults \<Rightarrow> string \<Rightarrow> (user table, user) store_op" where
  "create_user_body flt email t =
     (let u = \<lparr>u_id = 0, u_email = normalize_email email, u_admin = (length (rows t) = 0),
               u_reenroll = [], u_reenroll_until = None\<rparr>
      in if flt 0 \<or> flt 1 \<or> tbl_affected (\<lambda>x. u_email x = u_email u) t \<noteq> 0 then (Inl DbFault, t)
         else (case tbl_create set_u_id u t of (u, t) \<Rightarrow> (Inr u, t)))"

definition create_user :: "faults \<Rightarrow> string \<Rightarrow> (user table, user) store_op" where
  "create_user flt email = transaction (flt 2) (create_user_body flt email)"

definition get_user :: "bool \<Rightarrow> id \<Rightarrow> user table \<Rightarrow> user option" where
  "get_user fault i t = (if fault then None else tbl_get u_id i t)"

definition get_user_by_email :: "bool \<Rightarrow> string \<Rightarrow> user table \<Rightarrow> user option" where
  "get_user_by_email fault email t =
     (if fault then None else tbl_first (\<lambda>u. u_email u = normalize_email email) t)"

definition set_user_reenroll_ticket ::
  "bool \<Rightarrow> id \<Rightarrow> string \<Rightarrow> instant \<Rightarrow> (user table, unit) store_op" where
  "set_user_reenroll_ticket fault i hash until t =
     (if fault then (Inl DbFault, t)
      else (Inr (), tbl_update (\<lambda>u. u_id u = i) (\<lambda>u. u\<lparr>u_reenroll := hash, u_reenroll_until := Some until\<rparr>) t))"

definition clear_user_reenroll_ticket :: "bool \<Rightarrow> id \<Rightarrow> (user table, unit) store_op" where
  "clear_user_reenroll_ticket fault i t =
     (if fault then (Inl DbFault, t)
      else (Inr (), tbl_update (\<lambda>u. u_id u = i) (\<lambda>u. u\<lparr>u_reenroll := [], u_reenroll_until := None\<rparr>) t))"

section \<open>Teams\<close>

definition team_role_owner :: string where "team_role_owner = ''owner''"
definition team_role_member :: string where "team_role_member = ''member''"

record team =
  te_id :: id
  te_name :: string

abbreviation set_te_id :: "int \<Rightarrow> team \<Rightarrow> team" where
  "set_te_id i r \<equiv> r\<lparr>te_id := i\<rparr>"

abbreviation set_tm_id :: "int \<Rightarrow> team_member \<Rightarrow> team_member" where
  "set_tm_id i r \<equiv> r\<lparr>tm_id := i\<rparr>"

interpretation team_rows: keyed_rows te_id set_te_id
  by unfold_locales simp

interpretation member_rows: keyed_rows tm_id set_tm_id
  by unfold_locales simp

record team_db =
  td_teams :: "team table"
  td_members :: "team_member table"

definition insert_member :: "bool \<Rightarrow> id \<Rightarrow> id \<Rightarrow> string \<Rightarrow> (team_member table, unit) store_op" where
  "insert_member fault team user role t =
     (if fault \<or> tbl_affected (\<lambda>m. tm_team m = team \<and> tm_user m = user) t \<noteq> 0 then (Inl DbFault, t)
      else (Inr (), snd (tbl_create set_tm_id \<lparr>tm_id = 0, tm_team = team, tm_user = user, tm_role = role\<rparr> t)))"

definition create_team_body :: "faults \<Rightarrow> string \<Rightarrow> id \<Rightarrow> (team_db, team) store_op" where
  "create_team_body flt name owner s =
     (if flt 0 then (Inl DbFault, s)
      else case tbl_create set_te_id \<lparr>te_id = 0, te_name = name\<rparr> (td_teams s) of (team, ts) \<Rightarrow>
        (case insert_member (flt 1) (te_id team) owner team_role_owner (td_members s) of
           (Inl e, _) \<Rightarrow> (Inl e, s)
         | (Inr _, ms) \<Rightarrow> (Inr team, \<lparr>td_teams = ts, td_members = ms\<rparr>)))"

definition create_team_with_owner :: "faults \<Rightarrow> string \<Rightarrow> id \<Rightarrow> (team_db, team) store_op" where
  "create_team_with_owner flt name owner = transaction (flt 2) (create_team_body flt name owner)"

definition default_team_name :: "string \<Rightarrow> string" where
  "default_team_name email =
     (let part = takeWhile (\<lambda>c. c \<noteq> CHR ''@'') email
      in (if part = [] then email else part) @ [CHR 0x27] @ ''s team'')"

definition ensure_team_for_user :: "faults \<Rightarrow> user \<Rightarrow> (team_db, unit) store_op" where
  "ensure_team_for_user flt u s =
     (if flt 0 then (Inl DbFault, s)
      else if tbl_affected (\<lambda>m. tm_user m = u_id u) (td_members s) > 0 then (Inr (), s)
      else apfst (map_sum id (\<lambda>_. ()))
             (create_team_with_owner (\<lambda>k. flt (k + 1)) (default_team_name (u_email u)) (u_id u) s))"

definition update_team_name :: "bool \<Rightarrow> id \<Rightarrow> string \<Rightarrow> (team_db, unit) store_op" where
  "update_team_name fault i name s =
     (if fault then (Inl DbFault, s)
      else (Inr (), s\<lparr>td_teams := tbl_update (\<lambda>x. te_id x = i) (\<lambda>x. x\<lparr>te_name := name\<rparr>) (td_teams s)\<rparr>))"

definition get_team_membership :: "bool \<Rightarrow> id \<Rightarrow> team_db \<Rightarrow> team_member option" where
  "get_team_membership fault user s =
     (if fault then None else tbl_first (\<lambda>m. tm_user m = user) (td_members s))"

definition list_team_user_ids :: "id \<Rightarrow> team_db \<Rightarrow> id list" where
  "list_team_user_ids team s = map tm_user (tbl_find (\<lambda>m. tm_team m = team) (td_members s))"

section \<open>Invitations\<close>

definition team_invite_lifetime :: duration where "team_invite_lifetime = 7 * 24 * hour"

record invite =
  iv_id :: id
  iv_team :: id
  iv_email :: string
  iv_role :: string
  iv_hash :: string
  iv_by :: id
  iv_expires :: instant
  iv_accepted :: "instant option"

abbreviation set_iv_id :: "int \<Rightarrow> invite \<Rightarrow> invite" where
  "set_iv_id i r \<equiv> r\<lparr>iv_id := i\<rparr>"

interpretation invite_rows: keyed_rows iv_id set_iv_id
  by unfold_locales simp

definition create_team_invite_body ::
  "faults \<Rightarrow> invite \<Rightarrow> (invite table, invite) store_op" where
  "create_team_invite_body flt v t =
     (if flt 0 then (Inl DbFault, t)
      else (let t = tbl_delete (\<lambda>x. iv_team x = iv_team v \<and> iv_email x = iv_email v \<and> iv_accepted x = None) t
            in if flt 1 \<or> tbl_affected (\<lambda>x. iv_hash x = iv_hash v) t \<noteq> 0 then (Inl DbFault, t)
               else (case tbl_create set_iv_id v t of (v, t) \<Rightarrow> (Inr v, t))))"

definition create_team_invite ::
  "faults \<Rightarrow> instant \<Rightarrow> id \<Rightarrow> string \<Rightarrow> string \<Rightarrow> string \<Rightarrow> id \<Rightarrow> (invite table, invite) store_op" where
  "create_team_invite flt now team email role hash by' =
     transaction (flt 2) (create_team_invite_body flt
       \<lparr>iv_id = 0, iv_team = team, iv_email = normalize_email email, iv_role = role, iv_hash = hash,
        iv_by = by', iv_expires = now + team_invite_lifetime, iv_accepted = None\<rparr>)"

definition invite_open :: "instant \<Rightarrow> invite \<Rightarrow> bool" where
  "invite_open now v \<longleftrightarrow> iv_accepted v = None \<and> iv_expires v > now"

definition list_pending_team_invites :: "instant \<Rightarrow> id \<Rightarrow> invite table \<Rightarrow> invite list" where
  "list_pending_team_invites now team t = tbl_find (\<lambda>v. iv_team v = team \<and> invite_open now v) t"

definition delete_team_invite :: "bool \<Rightarrow> id \<Rightarrow> id \<Rightarrow> (invite table, unit) store_op" where
  "delete_team_invite fault team i t =
     (if fault then (Inl DbFault, t)
      else (Inr (), tbl_delete (\<lambda>v. iv_id v = i \<and> iv_team v = team) t))"

definition get_team_invite_by_token_hash :: "bool \<Rightarrow> instant \<Rightarrow> string \<Rightarrow> invite table \<Rightarrow> invite option" where
  "get_team_invite_by_token_hash fault now hash t =
     (if fault then None else tbl_first (\<lambda>v. iv_hash v = hash \<and> invite_open now v) t)"

record invite_db =
  id_teams :: team_db
  id_invites :: "invite table"

definition accept_team_invite_body :: "faults \<Rightarrow> instant \<Rightarrow> invite \<Rightarrow> id \<Rightarrow> (invite_db, unit) store_op" where
  "accept_team_invite_body flt now v user s =
     (let open' = (\<lambda>x. iv_id x = iv_id v \<and> iv_accepted x = None)
      in if flt 0 then (Inl DbFault, s)
         else if tbl_affected open' (id_invites s) = 0 then (Inl (Refused Invite_Used), s)
         else (case insert_member (flt 1) (iv_team v) user (iv_role v) (td_members (id_teams s)) of
                 (Inl e, _) \<Rightarrow> (Inl e, s)
               | (Inr _, ms) \<Rightarrow>
                   (Inr (), s\<lparr>id_teams := (id_teams s)\<lparr>td_members := ms\<rparr>,
                      id_invites := tbl_update open' (\<lambda>x. x\<lparr>iv_accepted := Some now\<rparr>) (id_invites s)\<rparr>)))"

definition accept_team_invite :: "faults \<Rightarrow> instant \<Rightarrow> invite \<Rightarrow> id \<Rightarrow> (invite_db, unit) store_op" where
  "accept_team_invite flt now v user = transaction (flt 2) (accept_team_invite_body flt now v user)"

section \<open>Reset links\<close>

definition password_reset_token_lifetime :: duration where "password_reset_token_lifetime = hour"

record reset_token =
  pr_id :: id
  pr_hash :: string
  pr_user :: id
  pr_expires :: instant
  pr_used :: "instant option"

abbreviation set_pr_id :: "int \<Rightarrow> reset_token \<Rightarrow> reset_token" where
  "set_pr_id i r \<equiv> r\<lparr>pr_id := i\<rparr>"

interpretation reset_rows: keyed_rows pr_id set_pr_id
  by unfold_locales simp

definition create_password_reset_token_body ::
  "faults \<Rightarrow> instant \<Rightarrow> id \<Rightarrow> string \<Rightarrow> (reset_token table, reset_token) store_op" where
  "create_password_reset_token_body flt now user hash t =
     (if flt 0 then (Inl DbFault, t)
      else (let t = tbl_update (\<lambda>x. pr_user x = user \<and> pr_used x = None) (\<lambda>x. x\<lparr>pr_used := Some now\<rparr>) t
            in if flt 1 \<or> tbl_affected (\<lambda>x. pr_hash x = hash) t \<noteq> 0 then (Inl DbFault, t)
               else (case tbl_create set_pr_id \<lparr>pr_id = 0, pr_hash = hash, pr_user = user,
                         pr_expires = now + password_reset_token_lifetime, pr_used = None\<rparr> t of
                       (x, t) \<Rightarrow> (Inr x, t))))"

definition create_password_reset_token ::
  "faults \<Rightarrow> instant \<Rightarrow> id \<Rightarrow> string \<Rightarrow> (reset_token table, reset_token) store_op" where
  "create_password_reset_token flt now user hash =
     transaction (flt 2) (create_password_reset_token_body flt now user hash)"

definition consume_password_reset_token_body ::
  "faults \<Rightarrow> instant \<Rightarrow> string \<Rightarrow> user table \<Rightarrow> (reset_token table, user) store_op" where
  "consume_password_reset_token_body flt now hash us t =
     (case (if flt 0 then None
            else tbl_first (\<lambda>x. pr_hash x = hash \<and> pr_used x = None \<and> pr_expires x > now) t) of
        None \<Rightarrow> (Inl (Refused Reset_Invalid), t)
      | Some r \<Rightarrow>
          if flt 1 then (Inl DbFault, t)
          else (let t = tbl_update (\<lambda>x. pr_id x = pr_id r) (\<lambda>x. x\<lparr>pr_used := Some now\<rparr>) t
                in case get_user (flt 2) (pr_user r) us of
                     None \<Rightarrow> (Inl (if flt 2 then DbFault else NotFound), t) | Some u \<Rightarrow> (Inr u, t)))"

definition consume_password_reset_token ::
  "faults \<Rightarrow> instant \<Rightarrow> string \<Rightarrow> user table \<Rightarrow> (reset_token table, user) store_op" where
  "consume_password_reset_token flt now hash us =
     transaction (flt 3) (consume_password_reset_token_body flt now hash us)"

section \<open>Passkey challenges\<close>

definition webauthn_challenge_lifetime :: duration where "webauthn_challenge_lifetime = 5 * minute"

text \<open>The stored document is its two members: the ceremony's data and an invitation token.\<close>

record challenge =
  ch_id :: id
  ch_user :: "id option"
  ch_purpose :: string
  ch_session :: string
  ch_invite :: string
  ch_expires :: instant

abbreviation set_ch_id :: "int \<Rightarrow> challenge \<Rightarrow> challenge" where
  "set_ch_id i r \<equiv> r\<lparr>ch_id := i\<rparr>"

interpretation challenge_rows: keyed_rows ch_id set_ch_id
  by unfold_locales simp

definition create_webauthn_session ::
  "bool \<Rightarrow> instant \<Rightarrow> id option \<Rightarrow> string \<Rightarrow> string \<Rightarrow> string \<Rightarrow> (challenge table, challenge) store_op" where
  "create_webauthn_session fault now user purpose session invite t =
     (if fault then (Inl DbFault, t)
      else (case tbl_create set_ch_id \<lparr>ch_id = 0, ch_user = user, ch_purpose = purpose, ch_session = session,
                ch_invite = invite, ch_expires = now + webauthn_challenge_lifetime\<rparr> t of
              (c, t) \<Rightarrow> (Inr c, t)))"

definition consume_webauthn_session_body ::
  "faults \<Rightarrow> instant \<Rightarrow> id \<Rightarrow> string \<Rightarrow> id option \<Rightarrow> (challenge table, challenge) store_op" where
  "consume_webauthn_session_body flt now i purpose expect t =
     (case (if flt 0 then None
            else tbl_first (\<lambda>c. ch_id c = i \<and> ch_purpose c = purpose \<and> ch_expires c > now \<and>
                   (expect \<noteq> None \<longrightarrow> ch_user c = expect)) t) of
        None \<Rightarrow> (Inl (if flt 0 then DbFault else NotFound), t)
      | Some c \<Rightarrow>
          if flt 1 then (Inl DbFault, t) else (Inr c, tbl_delete (\<lambda>x. ch_id x = ch_id c) t))"

definition consume_webauthn_session ::
  "faults \<Rightarrow> instant \<Rightarrow> id \<Rightarrow> string \<Rightarrow> id option \<Rightarrow> (challenge table, challenge) store_op" where
  "consume_webauthn_session flt now i purpose expect =
     transaction (flt 2) (consume_webauthn_session_body flt now i purpose expect)"

definition delete_expired_webauthn_sessions :: "bool \<Rightarrow> instant \<Rightarrow> (challenge table, unit) store_op" where
  "delete_expired_webauthn_sessions fault now t =
     (if fault then (Inl DbFault, t) else (Inr (), tbl_delete (\<lambda>c. ch_expires c \<le> now) t))"

section \<open>OAuth states\<close>

record oauth_state =
  os_key :: string
  os_redirect :: string
  os_server :: id
  os_user :: id
  os_account :: id
  os_return :: string
  os_expires :: instant
  os_used :: "instant option"

definition create_github_oauth_state :: "bool \<Rightarrow> oauth_state \<Rightarrow> (oauth_state list, unit) store_op" where
  "create_github_oauth_state fault x t =
     (if fault \<or> list_ex (\<lambda>y. os_key y = os_key x) t then (Inl DbFault, t) else (Inr (), t @ [x]))"

definition get_github_oauth_state :: "bool \<Rightarrow> string \<Rightarrow> oauth_state list \<Rightarrow> oauth_state option" where
  "get_github_oauth_state fault k t = (if fault then None else List.find (\<lambda>x. os_key x = k) t)"

definition claim_github_oauth_state :: "bool \<Rightarrow> string \<Rightarrow> instant \<Rightarrow> (oauth_state list, bool) store_op" where
  "claim_github_oauth_state fault k now t =
     (let live = (\<lambda>x. os_key x = k \<and> os_used x = None \<and> os_expires x > now)
      in if fault then (Inl DbFault, t)
         else (Inr (length (filter live t) = 1), map (\<lambda>x. if live x then x\<lparr>os_used := Some now\<rparr> else x) t))"

section \<open>Passkeys and what they seal\<close>

record credential =
  wc_id :: id
  wc_user :: id
  wc_key :: string
  wc_public :: string
  wc_count :: int
  wc_backup_eligible :: bool
  wc_backup :: bool
  wc_nickname :: string
  wc_wrapped :: string
  wc_used :: instant

abbreviation set_wc_id :: "int \<Rightarrow> credential \<Rightarrow> credential" where
  "set_wc_id i r \<equiv> r\<lparr>wc_id := i\<rparr>"

interpretation credential_rows: keyed_rows wc_id set_wc_id
  by unfold_locales simp

record mcp_account =
  ma_id :: id
  ma_server :: id
  ma_token :: string
  ma_user :: "id option"

record git_credential =
  gc_id :: id
  gc_user :: "id option"
  gc_key :: string

record vault_db =
  vd_credentials :: "credential table"
  vd_providers :: "provider table"
  vd_mcp :: "mcp_account table"
  vd_git :: "git_credential table"

definition create_webauthn_credential :: "bool \<Rightarrow> credential \<Rightarrow> (vault_db, credential) store_op" where
  "create_webauthn_credential fault c s =
     (if fault \<or> tbl_affected (\<lambda>x. wc_key x = wc_key c) (vd_credentials s) \<noteq> 0 then (Inl DbFault, s)
      else (case tbl_create set_wc_id c (vd_credentials s) of (c, t) \<Rightarrow> (Inr c, s\<lparr>vd_credentials := t\<rparr>)))"

definition list_credentials_for_user :: "id \<Rightarrow> vault_db \<Rightarrow> credential list" where
  "list_credentials_for_user user s = tbl_find (\<lambda>c. wc_user c = user) (vd_credentials s)"

definition get_credential_by_credential_id :: "bool \<Rightarrow> string \<Rightarrow> vault_db \<Rightarrow> credential option" where
  "get_credential_by_credential_id fault key s =
     (if fault then None else tbl_first (\<lambda>c. wc_key c = key) (vd_credentials s))"

definition update_credential_usage :: "bool \<Rightarrow> instant \<Rightarrow> id \<Rightarrow> int \<Rightarrow> bool \<Rightarrow> (vault_db, unit) store_op" where
  "update_credential_usage fault now i count backup s =
     (if fault then (Inl DbFault, s)
      else (Inr (), s\<lparr>vd_credentials := tbl_update (\<lambda>c. wc_id c = i)
             (\<lambda>c. c\<lparr>wc_count := count, wc_backup := backup, wc_used := now\<rparr>) (vd_credentials s)\<rparr>))"

definition rename_credential :: "bool \<Rightarrow> id \<Rightarrow> id \<Rightarrow> string \<Rightarrow> (vault_db, unit) store_op" where
  "rename_credential fault i user nickname s =
     (if fault then (Inl DbFault, s)
      else (Inr (), s\<lparr>vd_credentials := tbl_update (\<lambda>c. wc_id c = i \<and> wc_user c = user)
             (\<lambda>c. c\<lparr>wc_nickname := nickname\<rparr>) (vd_credentials s)\<rparr>))"

definition delete_credential :: "bool \<Rightarrow> id \<Rightarrow> id \<Rightarrow> (vault_db, unit) store_op" where
  "delete_credential fault i user s =
     (if fault then (Inl DbFault, s)
      else (Inr (), s\<lparr>vd_credentials := tbl_delete (\<lambda>c. wc_id c = i \<and> wc_user c = user) (vd_credentials s)\<rparr>))"

definition delete_credentials_for_user :: "bool \<Rightarrow> id \<Rightarrow> (vault_db, unit) store_op" where
  "delete_credentials_for_user fault user s =
     (if fault then (Inl DbFault, s)
      else (Inr (), s\<lparr>vd_credentials := tbl_delete (\<lambda>c. wc_user c = user) (vd_credentials s)\<rparr>))"

definition crypto_shred_body :: "faults \<Rightarrow> id \<Rightarrow> (vault_db, unit) store_op" where
  "crypto_shred_body flt user s =
     (let s1 = s\<lparr>vd_credentials := tbl_delete (\<lambda>c. wc_user c = user) (vd_credentials s)\<rparr>;
          s2 = s1\<lparr>vd_providers := tbl_update (\<lambda>p. pv_user p = Some user) (\<lambda>p. p\<lparr>pv_key := []\<rparr>) (vd_providers s1)\<rparr>;
          s3 = s2\<lparr>vd_mcp := tbl_update (\<lambda>a. ma_user a = Some user) (\<lambda>a. a\<lparr>ma_token := []\<rparr>) (vd_mcp s2)\<rparr>;
          s4 = s3\<lparr>vd_git := tbl_delete (\<lambda>g. gc_user g = Some user) (vd_git s3)\<rparr>
      in if flt 0 then (Inl DbFault, s) else if flt 1 then (Inl DbFault, s1)
         else if flt 2 then (Inl DbFault, s2) else if flt 3 then (Inl DbFault, s3) else (Inr (), s4))"

definition crypto_shred_user :: "faults \<Rightarrow> id \<Rightarrow> (vault_db, unit) store_op" where
  "crypto_shred_user flt user = transaction (flt 4) (crypto_shred_body flt user)"

section \<open>Secrets that work once\<close>

text \<open>
  \<open>consume a k s\<close> tries to use the secret \<open>k\<close> under the circumstances \<open>a\<close>.  A store that
  marks a used secret as spent, refuses a spent one and never un-spends it lets each secret
  through at most once, whatever happens in between.
\<close>

locale one_time =
  fixes consume :: "'a \<Rightarrow> 'k \<Rightarrow> 's \<Rightarrow> bool \<times> 's"
    and exec :: "'op \<Rightarrow> 's \<Rightarrow> 's"
    and ok :: "'s \<Rightarrow> bool"
    and spent :: "'k \<Rightarrow> 's \<Rightarrow> bool"
  assumes spends: "ok s \<Longrightarrow> consume a k s = (True, s') \<Longrightarrow> spent k s'"
    and refuses: "spent k s \<Longrightarrow> consume a k s = (False, s)"
    and keeps: "spent k s \<Longrightarrow> spent k (exec op s)"
begin

lemma spent_stays: "spent k s \<Longrightarrow> spent k (fold exec ops s)"
  by (induction ops arbitrary: s) (simp_all add: keeps)

lemma at_most_once:
  assumes "ok s" and "consume a k s = (True, s')"
  shows "consume b k (fold exec ops s') = (False, fold exec ops s')"
  by (rule refuses [OF spent_stays [OF spends [OF assms]]])

end

text \<open>Whether an operation of a store succeeded, and what it left.\<close>

definition succeeded :: "('e + 'a) \<times> 's \<Rightarrow> bool \<times> 's" where
  "succeeded r = (case r of (Inl _, s) \<Rightarrow> (False, s) | (Inr _, s) \<Rightarrow> (True, s))"

lemma succeeded_True: "succeeded r = (True, s) \<longleftrightarrow> (\<exists>x. r = (Inr x, s))"
  by (cases r) (auto simp: succeeded_def split: sum.splits)

lemma succeeded_False: "succeeded r = (False, s) \<longleftrightarrow> (\<exists>e. r = (Inl e, s))"
  by (cases r) (auto simp: succeeded_def split: sum.splits)

datatype reset_op =
    Reset_Create faults instant id string
  | Reset_Consume faults instant string "user table"

fun reset_exec :: "reset_op \<Rightarrow> reset_token table \<Rightarrow> reset_token table" where
  "reset_exec (Reset_Create flt now u h) t = snd (create_password_reset_token flt now u h t)"
| "reset_exec (Reset_Consume flt now h us) t = snd (consume_password_reset_token flt now h us t)"

definition reset_spent :: "string \<Rightarrow> reset_token table \<Rightarrow> bool" where
  "reset_spent h t \<longleftrightarrow> h \<in> pr_hash ` set (rows t) \<and>
     (\<forall>x \<in> set (rows t). pr_hash x = h \<longrightarrow> pr_used x \<noteq> None)"

definition reset_ok :: "reset_token table \<Rightarrow> bool" where
  "reset_ok t \<longleftrightarrow> distinct (map pr_hash (rows t))"

lemma image_update:
  assumes "\<And>x. k (f x) = k x"
  shows "k ` set (rows (tbl_update p f t)) = k ` set (rows t)"
  unfolding rows_tbl_update set_map image_image by (rule image_cong) (simp_all add: assms)

lemma reset_marked:
  assumes "reset_spent h t"
  shows "reset_spent h (tbl_update p (\<lambda>x. x\<lparr>pr_used := Some now\<rparr>) t)"
proof -
  have "pr_hash ` set (rows (tbl_update p (\<lambda>x. x\<lparr>pr_used := Some now\<rparr>) t)) = pr_hash ` set (rows t)"
    by (rule image_update) simp
  with assms show ?thesis unfolding reset_spent_def by auto
qed

lemma reset_appended:
  "reset_spent h t \<Longrightarrow> h \<noteq> pr_hash x \<Longrightarrow> rows t' = rows t @ [x] \<Longrightarrow> reset_spent h t'"
  by (auto simp: reset_spent_def)

lemma reset_created:
  "reset_spent h t \<Longrightarrow> reset_spent h (snd (create_password_reset_token flt now u g t))"
proof -
  assume spent: "reset_spent h t"
  let ?t = "tbl_update (\<lambda>x. pr_user x = u \<and> pr_used x = None) (\<lambda>x. x\<lparr>pr_used := Some now\<rparr>) t"
  have s: "reset_spent h ?t" by (rule reset_marked [OF spent])
  have "reset_spent h s'" if "create_password_reset_token_body flt now u g t = (Inr x, s')" for x s'
  proof -
    have new: "tbl_affected (\<lambda>x. pr_hash x = g) ?t = 0"
      and s': "s' = snd (tbl_create set_pr_id \<lparr>pr_id = 0, pr_hash = g, pr_user = u,
          pr_expires = now + password_reset_token_lifetime, pr_used = None\<rparr> ?t)"
      using that unfolding create_password_reset_token_body_def Let_def prod.case_eq_if
      by (simp_all split: if_splits)
    have "h \<noteq> g"
      using s new unfolding reset_spent_def tbl_affected_zero_iff by blast
    then show ?thesis unfolding s' by (intro reset_appended [OF s _ rows_tbl_create]) simp
  qed
  then show ?thesis
    unfolding create_password_reset_token_def by (rule transaction_preserves [where I = "reset_spent h", OF spent])
qed

lemma reset_spent_refused:
  "reset_spent h t \<Longrightarrow> \<exists>e. consume_password_reset_token flt now h us t = (Inl e, t)"
proof -
  assume "reset_spent h t"
  then have "tbl_first (\<lambda>x. pr_hash x = h \<and> pr_used x = None \<and> pr_expires x > now) t = None"
    by (auto simp: reset_spent_def tbl_first_None_iff)
  then show ?thesis
    by (simp add: consume_password_reset_token_def consume_password_reset_token_body_def transaction_def)
qed

lemma reset_consumed:
  "reset_spent h t \<Longrightarrow> reset_spent h (snd (consume_password_reset_token flt now g us t))"
  unfolding consume_password_reset_token_def
  by (rule transaction_preserves [where I = "reset_spent h"])
     (auto simp: consume_password_reset_token_body_def Let_def reset_marked split: option.splits if_splits)

lemma reset_spends:
  assumes "reset_ok t" and "consume_password_reset_token flt now h us t = (Inr u, t')"
  shows "reset_spent h t'"
proof -
  obtain r where r: "tbl_first (\<lambda>x. pr_hash x = h \<and> pr_used x = None \<and> pr_expires x > now) t = Some r"
      and t': "t' = tbl_update (\<lambda>x. pr_id x = pr_id r) (\<lambda>x. x\<lparr>pr_used := Some now\<rparr>) t"
    using assms(2) by (auto simp: consume_password_reset_token_def consume_password_reset_token_body_def
        transaction_success_body Let_def split: option.splits if_splits)
  from tbl_first_Some_D [OF r] have "r \<in> set (rows t)" "pr_hash r = h" by simp_all
  moreover have "x = r" if "x \<in> set (rows t)" "pr_hash x = h" for x
    using assms(1) that \<open>r \<in> set (rows t)\<close> \<open>pr_hash r = h\<close>
    by (auto simp: reset_ok_def distinct_map dest: inj_onD)
  ultimately have "pr_used y \<noteq> None" if "y \<in> set (rows t')" "pr_hash y = h" for y
  proof -
    have "y \<in> (\<lambda>x. if pr_id x = pr_id r then x\<lparr>pr_used := Some now\<rparr> else x) ` set (rows t)"
      using that(1) unfolding t' rows_tbl_update set_map .
    then obtain x where x: "x \<in> set (rows t)" "y = (if pr_id x = pr_id r then x\<lparr>pr_used := Some now\<rparr> else x)"
      by (rule imageE) simp
    then have "pr_hash x = h" using that(2) by (simp split: if_splits)
    with x \<open>\<And>x. x \<in> set (rows t) \<Longrightarrow> pr_hash x = h \<Longrightarrow> x = r\<close> show ?thesis by simp
  qed
  moreover have "pr_hash ` set (rows t') = pr_hash ` set (rows t)"
    unfolding t' by (rule image_update) simp
  ultimately show ?thesis
    using \<open>r \<in> set (rows t)\<close> \<open>pr_hash r = h\<close> unfolding reset_spent_def by blast
qed

interpretation reset_link: one_time
  "\<lambda>(flt, now, us) h t. succeeded (consume_password_reset_token flt now h us t)" reset_exec reset_ok reset_spent
proof
  show "reset_spent k (reset_exec op s)" if "reset_spent k s" for k s op
    using that by (cases op) (simp_all add: reset_created reset_consumed)
  show "reset_spent k s'" if "reset_ok s"
    "(case a of (flt, now, us) \<Rightarrow> \<lambda>h t. succeeded (consume_password_reset_token flt now h us t)) k s = (True, s')"
    for a k s s'
    using that reset_spends by (cases a) (auto simp: succeeded_True)
  show "(case a of (flt, now, us) \<Rightarrow> \<lambda>h t. succeeded (consume_password_reset_token flt now h us t)) k s = (False, s)"
    if "reset_spent k s" for a k s
    using reset_spent_refused [OF that] by (cases a) (simp add: succeeded_False)
qed

text \<open>Challenges: the row is gone, and its key is not given out again.\<close>

datatype challenge_op =
    Challenge_Create bool instant "id option" string string string
  | Challenge_Consume faults instant id string "id option"
  | Challenge_Expire bool instant

fun challenge_exec :: "challenge_op \<Rightarrow> challenge table \<Rightarrow> challenge table" where
  "challenge_exec (Challenge_Create fault now u p d v) t = snd (create_webauthn_session fault now u p d v t)"
| "challenge_exec (Challenge_Consume flt now i p e) t = snd (consume_webauthn_session flt now i p e t)"
| "challenge_exec (Challenge_Expire fault now) t = snd (delete_expired_webauthn_sessions fault now t)"

definition gone :: "('r \<Rightarrow> id) \<Rightarrow> id \<Rightarrow> 'r table \<Rightarrow> bool" where
  "gone key i t \<longleftrightarrow> i < next_key t \<and> (\<forall>x \<in> set (rows t). key x \<noteq> i)"

lemma gone_delete: "gone key i t \<Longrightarrow> gone key i (tbl_delete p t)"
  by (auto simp: gone_def)

lemma challenge_consumed:
  "consume_webauthn_session flt now i p e t = (r, t') \<Longrightarrow>
   (case r of Inl _ \<Rightarrow> t' = t
    | Inr c \<Rightarrow> c \<in> set (rows t) \<and> ch_id c = i \<and> ch_purpose c = p \<and> ch_expires c > now \<and>
        (e \<noteq> None \<longrightarrow> ch_user c = e) \<and> t' = tbl_delete (\<lambda>x. ch_id x = i) t)"
  by (auto simp: consume_webauthn_session_def consume_webauthn_session_body_def transaction_def
      split: option.splits if_splits sum.splits dest!: tbl_first_Some_D)

lemma challenge_gone_refused:
  assumes "gone ch_id i t"
  shows "\<exists>e. consume_webauthn_session flt now i p x t = (Inl e, t)"
proof -
  have "tbl_first (\<lambda>c. ch_id c = i \<and> ch_purpose c = p \<and> ch_expires c > now \<and>
      (x \<noteq> None \<longrightarrow> ch_user c = x)) t = None"
    using assms unfolding gone_def tbl_first_None_iff by blast
  then show ?thesis
    unfolding consume_webauthn_session_def consume_webauthn_session_body_def transaction_def by simp
qed

interpretation passkey_challenge: one_time
  "\<lambda>(flt, now, p, e) i t. succeeded (consume_webauthn_session flt now i p e t)"
  challenge_exec "wf_table ch_id" "gone ch_id"
proof
  show "gone ch_id k (challenge_exec op s)" if "gone ch_id k s" for k s op
  proof (cases op)
    case (Challenge_Consume flt now i p e)
    obtain r t' where c: "consume_webauthn_session flt now i p e s = (r, t')" by fastforce
    with challenge_consumed [OF c] show ?thesis
      using that gone_delete [OF that] by (auto simp: Challenge_Consume split: sum.splits)
  qed (use that in \<open>auto simp: create_webauthn_session_def delete_expired_webauthn_sessions_def gone_def
         tbl_create_def Let_def\<close>)
  show "gone ch_id k s'" if "wf_table ch_id s"
    "(case a of (flt, now, p, e) \<Rightarrow> \<lambda>i t. succeeded (consume_webauthn_session flt now i p e t)) k s = (True, s')"
    for a k s s'
    using that by (cases a) (auto simp: succeeded_True gone_def wf_table_def dest!: challenge_consumed)
  show "(case a of (flt, now, p, e) \<Rightarrow> \<lambda>i t. succeeded (consume_webauthn_session flt now i p e t)) k s = (False, s)"
    if "gone ch_id k s" for a k s
    using challenge_gone_refused [OF that] by (cases a) (simp add: succeeded_False)
qed

text \<open>OAuth states: the row is marked.\<close>

datatype oauth_op = OAuth_Create bool oauth_state | OAuth_Claim bool string instant

fun oauth_exec :: "oauth_op \<Rightarrow> oauth_state list \<Rightarrow> oauth_state list" where
  "oauth_exec (OAuth_Create fault x) t = snd (create_github_oauth_state fault x t)"
| "oauth_exec (OAuth_Claim fault k now) t = snd (claim_github_oauth_state fault k now t)"

definition oauth_spent :: "string \<Rightarrow> oauth_state list \<Rightarrow> bool" where
  "oauth_spent k t \<longleftrightarrow> k \<in> os_key ` set t \<and> (\<forall>x \<in> set t. os_key x = k \<longrightarrow> os_used x \<noteq> None)"

definition claimed :: "(oauth_state list, bool) store_op \<Rightarrow> oauth_state list \<Rightarrow> bool \<times> oauth_state list" where
  "claimed op t = (case op t of (r, t') \<Rightarrow> (r = Inr True, t'))"

lemma oauth_unclaimable:
  assumes "oauth_spent k t"
  shows "claimed (claim_github_oauth_state fault k now) t = (False, t)"
proof -
  let ?live = "\<lambda>x. os_key x = k \<and> os_used x = None \<and> os_expires x > now"
  have "\<forall>x \<in> set t. \<not> ?live x" using assms unfolding oauth_spent_def by blast
  then have "filter ?live t = []" "map (\<lambda>x. if ?live x then x\<lparr>os_used := Some now\<rparr> else x) t = t"
    by (simp_all add: filter_empty_conv map_idI)
  then show ?thesis by (simp add: claimed_def claim_github_oauth_state_def Let_def)
qed

lemma claim_rows:
  "snd (claim_github_oauth_state fault k now t) =
   (if fault then t else map (\<lambda>x. if os_key x = k \<and> os_used x = None \<and> os_expires x > now
      then x\<lparr>os_used := Some now\<rparr> else x) t)"
  by (simp add: claim_github_oauth_state_def Let_def)

lemma oauth_spent_claim:
  assumes "oauth_spent k t"
  shows "oauth_spent k (map (\<lambda>x. if p x then x\<lparr>os_used := Some now\<rparr> else x) t)"
proof -
  have "os_key ` set (map (\<lambda>x. if p x then x\<lparr>os_used := Some now\<rparr> else x) t) = os_key ` set t"
    unfolding set_map image_image by (rule image_cong) simp_all
  with assms show ?thesis unfolding oauth_spent_def by auto
qed

lemma oauth_spends:
  assumes "distinct (map os_key t)" and "claimed (claim_github_oauth_state fault k now) t = (True, t')"
  shows "oauth_spent k t'"
proof -
  let ?live = "\<lambda>x. os_key x = k \<and> os_used x = None \<and> os_expires x > now"
  have one: "length (filter ?live t) = 1" and t': "t' = map (\<lambda>x. if ?live x then x\<lparr>os_used := Some now\<rparr> else x) t"
    using assms(2) by (auto simp: claimed_def claim_github_oauth_state_def Let_def split: if_splits)
  have "filter ?live t \<noteq> []" using one by fastforce
  then have "hd (filter ?live t) \<in> set (filter ?live t)" by (rule hd_in_set)
  then obtain x where x: "x \<in> set t" "?live x" unfolding set_filter by blast
  have uniq: "y = x" if "y \<in> set t" "os_key y = k" for y
    using assms(1) that x by (auto simp: distinct_map dest: inj_onD)
  have "os_key ` set t' = os_key ` set t"
    unfolding t' set_map image_image by (rule image_cong) simp_all
  moreover have "os_used z \<noteq> None" if z: "z \<in> set t'" "os_key z = k" for z
  proof -
    obtain y where y: "y \<in> set t" "z = (if ?live y then y\<lparr>os_used := Some now\<rparr> else y)"
      using z(1) unfolding t' set_map by blast
    then have "os_key y = k" using z(2) by (simp split: if_splits)
    then have "y = x" using uniq y(1) by blast
    with y(2) x(2) show ?thesis by simp
  qed
  ultimately show ?thesis using x unfolding oauth_spent_def by blast
qed

interpretation oauth_round_trip: one_time
  "\<lambda>(fault, now) k. claimed (claim_github_oauth_state fault k now)" oauth_exec
  "\<lambda>t. distinct (map os_key t)" oauth_spent
proof
  show "oauth_spent k (oauth_exec op s)" if "oauth_spent k s" for k s op
  proof (cases op)
    case (OAuth_Create fault x)
    then show ?thesis using that
      by (auto simp: create_github_oauth_state_def oauth_spent_def list_ex_iff)
  next
    case (OAuth_Claim fault j now)
    then show ?thesis using that oauth_spent_claim [OF that] by (simp add: claim_rows)
  qed
  show "oauth_spent k s'" if "distinct (map os_key s)"
    "(case a of (fault, now) \<Rightarrow> \<lambda>k. claimed (claim_github_oauth_state fault k now)) k s = (True, s')" for a k s s'
    using that oauth_spends by (cases a) simp
  show "(case a of (fault, now) \<Rightarrow> \<lambda>k. claimed (claim_github_oauth_state fault k now)) k s = (False, s)"
    if "oauth_spent k s" for a k s
    using oauth_unclaimable [OF that] by (cases a) simp
qed

text \<open>Invitations: every row under the key is accepted, and the key is not given out again.\<close>

datatype invite_op =
    Invite_Create faults instant id string string string id
  | Invite_Delete bool id id
  | Invite_Accept faults instant invite id

fun invite_exec :: "invite_op \<Rightarrow> invite_db \<Rightarrow> invite_db" where
  "invite_exec (Invite_Create flt now team email role hash u) s =
     s\<lparr>id_invites := snd (create_team_invite flt now team email role hash u (id_invites s))\<rparr>"
| "invite_exec (Invite_Delete fault team i) s =
     s\<lparr>id_invites := snd (delete_team_invite fault team i (id_invites s))\<rparr>"
| "invite_exec (Invite_Accept flt now v u) s = snd (accept_team_invite flt now v u s)"

definition invite_spent :: "id \<Rightarrow> invite table \<Rightarrow> bool" where
  "invite_spent i t \<longleftrightarrow> i < next_key t \<and> (\<forall>x \<in> set (rows t). iv_id x = i \<longrightarrow> iv_accepted x \<noteq> None)"

lemma invite_spent_delete: "invite_spent i t \<Longrightarrow> invite_spent i (tbl_delete p t)"
  by (auto simp: invite_spent_def)

lemma invite_spent_create:
  "invite_spent i t \<Longrightarrow> invite_spent i (snd (tbl_create set_iv_id v t))"
  by (auto simp: invite_spent_def)

lemma invite_spent_accept:
  "invite_spent i t \<Longrightarrow> invite_spent i (tbl_update p (\<lambda>x. x\<lparr>iv_accepted := Some now\<rparr>) t)"
  by (auto simp: invite_spent_def)

lemma invite_spent_created:
  assumes "invite_spent i t"
  shows "invite_spent i (snd (create_team_invite flt now team email role hash u t))"
  unfolding create_team_invite_def
  by (rule transaction_preserves [where I = "invite_spent i", OF assms])
     (use assms in \<open>auto simp: create_team_invite_body_def Let_def prod.case_eq_if
        intro!: invite_spent_create invite_spent_delete split: if_splits\<close>)

lemma accepted_once:
  assumes "accept_team_invite flt now v u s = (Inr x, s')"
  shows "tbl_affected (\<lambda>x. iv_id x = iv_id v \<and> iv_accepted x = None) (id_invites s) \<noteq> 0"
    and "id_invites s' = tbl_update (\<lambda>x. iv_id x = iv_id v \<and> iv_accepted x = None)
           (\<lambda>x. x\<lparr>iv_accepted := Some now\<rparr>) (id_invites s)"
  using assms
  by (auto simp: accept_team_invite_def transaction_success_body accept_team_invite_body_def Let_def
      split: if_splits prod.splits sum.splits)

lemma accepted_spends:
  assumes "wf_table iv_id (id_invites s)" and "accept_team_invite flt now v u s = (Inr x, s')"
  shows "invite_spent (iv_id v) (id_invites s')"
  using assms(1) accepted_once [OF assms(2)]
  by (auto simp: invite_spent_def wf_table_def tbl_affected_zero_iff)

lemma spent_invite_refused:
  assumes "invite_spent (iv_id v) (id_invites s)"
  shows "\<exists>e. accept_team_invite flt now v u s = (Inl e, s)"
proof -
  have "tbl_affected (\<lambda>x. iv_id x = iv_id v \<and> iv_accepted x = None) (id_invites s) = 0"
    using assms unfolding invite_spent_def tbl_affected_zero_iff by blast
  then show ?thesis
    by (simp add: accept_team_invite_def accept_team_invite_body_def Let_def transaction_def)
qed

lemma invite_spent_accepted:
  assumes "invite_spent i (id_invites s)"
  shows "invite_spent i (id_invites (snd (accept_team_invite flt now v u s)))"
proof (cases "accept_team_invite flt now v u s")
  case (Pair r s')
  show ?thesis
  proof (cases r)
    case (Inl e)
    with Pair have "s' = s" unfolding accept_team_invite_def by (auto dest: transaction_error_frame)
    with Pair assms show ?thesis by simp
  next
    case (Inr x)
    with Pair have "id_invites s' = tbl_update (\<lambda>x. iv_id x = iv_id v \<and> iv_accepted x = None)
        (\<lambda>x. x\<lparr>iv_accepted := Some now\<rparr>) (id_invites s)" by (auto dest: accepted_once)
    with Pair assms show ?thesis by (simp add: invite_spent_accept)
  qed
qed

interpretation invitation: one_time
  "\<lambda>(flt, now, v, u) i s. succeeded (accept_team_invite flt now (set_iv_id i v) u s)"
  invite_exec "\<lambda>s. wf_table iv_id (id_invites s)" "\<lambda>i s. invite_spent i (id_invites s)"
proof
  show "invite_spent k (id_invites (invite_exec op s))" if "invite_spent k (id_invites s)" for k s op
  proof (cases op)
    case (Invite_Create flt now team email role hash u)
    then show ?thesis using invite_spent_created [OF that] by simp
  next
    case (Invite_Delete fault team i)
    then show ?thesis using that invite_spent_delete [OF that] by (simp add: delete_team_invite_def)
  next
    case (Invite_Accept flt now v u)
    then show ?thesis using invite_spent_accepted [OF that] by simp
  qed
  show "invite_spent k (id_invites s')" if "wf_table iv_id (id_invites s)"
    "(case a of (flt, now, v, u) \<Rightarrow>
        \<lambda>i s. succeeded (accept_team_invite flt now (set_iv_id i v) u s)) k s = (True, s')" for a k s s'
    using that accepted_spends [where v = "set_iv_id k v" for v] by (cases a) (auto simp: succeeded_True)
  show "(case a of (flt, now, v, u) \<Rightarrow>
      \<lambda>i s. succeeded (accept_team_invite flt now (set_iv_id i v) u s)) k s = (False, s)"
    if "invite_spent k (id_invites s)" for a k s
    using spent_invite_refused [of "set_iv_id k v" s for v] that
    by (cases a) (auto simp: succeeded_False)
qed

section \<open>Properties\<close>

text \<open>
  C23: A secret that the server hands out once is used at most once.  After a reset link has
  let someone into the recovery of an account, and whatever operations on the reset links
  happen afterwards, the same link is refused and nothing changes; the same holds of a
  passkey challenge, of an invitation to a team, and of the state of an OAuth round trip.
\<close>

theorem secrets_work_once:
  "(distinct (map pr_hash (rows links)) \<and> consume_password_reset_token flt now h us links = (Inr u, links_after) \<longrightarrow>
      (let links_later = fold reset_exec reset_ops links_after
       in \<exists>e. consume_password_reset_token flt' now' h us' links_later = (Inl e, links_later))) \<and>
   (wf_table ch_id chs \<and> consume_webauthn_session flt now i p x chs = (Inr c, chs_after) \<longrightarrow>
      (let chs_later = fold challenge_exec challenge_ops chs_after
       in \<exists>e. consume_webauthn_session flt' now' i p' x' chs_later = (Inl e, chs_later))) \<and>
   (wf_table iv_id (id_invites db) \<and> accept_team_invite flt now v joiner db = (Inr r, db_after) \<and> iv_id v' = iv_id v \<longrightarrow>
      (let db_later = fold invite_exec invite_ops db_after
       in \<exists>e. accept_team_invite flt' now' v' joiner' db_later = (Inl e, db_later))) \<and>
   (distinct (map os_key states) \<and> claim_github_oauth_state fault k now states = (Inr True, states_after) \<longrightarrow>
      (let states_later = fold oauth_exec oauth_ops states_after
       in claim_github_oauth_state False k now' states_later = (Inr False, states_later)))"
proof (intro conjI impI; elim conjE; unfold Let_def)
  show "\<exists>e. consume_password_reset_token flt' now' h us' (fold reset_exec reset_ops links_after) =
      (Inl e, fold reset_exec reset_ops links_after)"
    if "distinct (map pr_hash (rows links))" "consume_password_reset_token flt now h us links = (Inr u, links_after)"
    using reset_link.at_most_once [of links "(flt, now, us)" h links_after "(flt', now', us')" reset_ops] that
    by (simp add: succeeded_True succeeded_False reset_ok_def)
  show "\<exists>e. consume_webauthn_session flt' now' i p' x' (fold challenge_exec challenge_ops chs_after) =
      (Inl e, fold challenge_exec challenge_ops chs_after)"
    if "wf_table ch_id chs" "consume_webauthn_session flt now i p x chs = (Inr c, chs_after)"
    using passkey_challenge.at_most_once [of chs "(flt, now, p, x)" i chs_after "(flt', now', p', x')" challenge_ops] that
    by (simp add: succeeded_True succeeded_False)
  show "\<exists>e. accept_team_invite flt' now' v' joiner' (fold invite_exec invite_ops db_after) =
      (Inl e, fold invite_exec invite_ops db_after)"
    if acc: "wf_table iv_id (id_invites db)" "accept_team_invite flt now v joiner db = (Inr r, db_after)"
      and v': "iv_id v' = iv_id v"
  proof -
    have "set_iv_id (iv_id v) v' = v'" "set_iv_id (iv_id v) v = v" by (simp_all flip: v')
    then show ?thesis
      using invitation.at_most_once [of db "(flt, now, v, joiner)" "iv_id v" db_after "(flt', now', v', joiner')" invite_ops]
        acc by (simp add: succeeded_True succeeded_False)
  qed
  show "claim_github_oauth_state False k now' (fold oauth_exec oauth_ops states_after) =
      (Inr False, fold oauth_exec oauth_ops states_after)"
    if "distinct (map os_key states)" "claim_github_oauth_state fault k now states = (Inr True, states_after)"
    using oauth_round_trip.at_most_once [of states "(fault, now)" k states_after "(False, now')" oauth_ops] that
    by (simp add: claimed_def claim_github_oauth_state_def Let_def split: if_splits)
qed

definition demo_link :: reset_token where
  "demo_link = \<lparr>pr_id = 1, pr_hash = ''h'', pr_user = 7, pr_expires = 100, pr_used = None\<rparr>"

definition demo_links :: "reset_token table" where "demo_links = \<lparr>rows = [demo_link], next_key = 2\<rparr>"

definition demo_people :: "user table" where
  "demo_people = \<lparr>rows = [\<lparr>u_id = 7, u_email = ''a@b'', u_admin = True, u_reenroll = [], u_reenroll_until = None\<rparr>],
     next_key = 8\<rparr>"

definition demo_challenges :: "challenge table" where
  "demo_challenges = \<lparr>rows = [\<lparr>ch_id = 1, ch_user = Some 7, ch_purpose = ''login'', ch_session = ''s'',
     ch_invite = [], ch_expires = 100\<rparr>], next_key = 2\<rparr>"

definition demo_invite :: invite where
  "demo_invite = \<lparr>iv_id = 1, iv_team = 3, iv_email = ''a@b'', iv_role = ''member'', iv_hash = ''i'', iv_by = 1,
     iv_expires = 100, iv_accepted = None\<rparr>"

definition demo_invites :: invite_db where
  "demo_invites = \<lparr>id_teams = \<lparr>td_teams = \<lparr>rows = [], next_key = 4\<rparr>, td_members = \<lparr>rows = [], next_key = 1\<rparr>\<rparr>,
     id_invites = \<lparr>rows = [demo_invite], next_key = 2\<rparr>\<rparr>"

definition demo_states :: "oauth_state list" where
  "demo_states = [\<lparr>os_key = ''k'', os_redirect = [], os_server = 1, os_user = 7, os_account = 0, os_return = [],
     os_expires = 100, os_used = None\<rparr>]"

lemma demo_uses:
  "distinct (map pr_hash (rows demo_links)) \<and>
   consume_password_reset_token no_faults 5 ''h'' demo_people demo_links =
     (Inr (hd (rows demo_people)), demo_links\<lparr>rows := [demo_link\<lparr>pr_used := Some 5\<rparr>]\<rparr>)"
  "wf_table ch_id demo_challenges \<and>
   consume_webauthn_session no_faults 5 1 ''login'' None demo_challenges =
     (Inr (hd (rows demo_challenges)), demo_challenges\<lparr>rows := []\<rparr>)"
  "wf_table iv_id (id_invites demo_invites) \<and>
   accept_team_invite no_faults 5 demo_invite 7 demo_invites =
     (Inr (), demo_invites\<lparr>id_teams := (id_teams demo_invites)\<lparr>td_members := \<lparr>rows = [\<lparr>tm_id = 1, tm_team = 3,
        tm_user = 7, tm_role = ''member''\<rparr>], next_key = 2\<rparr>\<rparr>,
        id_invites := \<lparr>rows = [demo_invite\<lparr>iv_accepted := Some 5\<rparr>], next_key = 2\<rparr>\<rparr>) \<and> iv_id demo_invite = iv_id demo_invite"
  "distinct (map os_key demo_states) \<and>
   claim_github_oauth_state False ''k'' 5 demo_states = (Inr True, [(hd demo_states)\<lparr>os_used := Some 5\<rparr>])"
  by (code_simp, code_simp, code_simp, code_simp)

definition demo_joined :: invite_db where
  "demo_joined = demo_invites\<lparr>id_teams := (id_teams demo_invites)\<lparr>td_members := \<lparr>rows = [\<lparr>tm_id = 1, tm_team = 3,
     tm_user = 7, tm_role = ''member''\<rparr>], next_key = 2\<rparr>\<rparr>,
     id_invites := \<lparr>rows = [demo_invite\<lparr>iv_accepted := Some 5\<rparr>], next_key = 2\<rparr>\<rparr>"

lemma secrets_work_once_witness:
  "(\<exists>e. consume_password_reset_token no_faults 6 ''h'' demo_people (demo_links\<lparr>rows := [demo_link\<lparr>pr_used := Some 5\<rparr>]\<rparr>) =
        (Inl e, demo_links\<lparr>rows := [demo_link\<lparr>pr_used := Some 5\<rparr>]\<rparr>)) \<and>
   (\<exists>e. consume_webauthn_session no_faults 6 1 ''login'' None (demo_challenges\<lparr>rows := []\<rparr>) =
        (Inl e, demo_challenges\<lparr>rows := []\<rparr>)) \<and>
   (\<exists>e. accept_team_invite no_faults 6 demo_invite 7 demo_joined = (Inl e, demo_joined)) \<and>
   claim_github_oauth_state False ''k'' 6 [(hd demo_states)\<lparr>os_used := Some 5\<rparr>] =
     (Inr False, [(hd demo_states)\<lparr>os_used := Some 5\<rparr>])"
  using secrets_work_once [where links = demo_links and flt = no_faults and now = 5 and h = "''h''" and us = demo_people
      and u = "hd (rows demo_people)" and links_after = "demo_links\<lparr>rows := [demo_link\<lparr>pr_used := Some 5\<rparr>]\<rparr>"
      and reset_ops = "[]" and flt' = no_faults and now' = 6 and us' = demo_people
      and chs = demo_challenges and i = 1 and p = "''login''" and x = None and c = "hd (rows demo_challenges)"
      and chs_after = "demo_challenges\<lparr>rows := []\<rparr>" and challenge_ops = "[]" and p' = "''login''" and x' = None
      and db = demo_invites and v = demo_invite and v' = demo_invite and joiner = 7 and r = "()"
      and db_after = demo_joined and invite_ops = "[]" and joiner' = 7
      and states = demo_states and fault = False and k = "''k''"
      and states_after = "[(hd demo_states)\<lparr>os_used := Some 5\<rparr>]" and oauth_ops = "[]"]
    demo_uses
  by (simp add: Let_def demo_joined_def)

end
