(* ===== verification/Accounts.thy ===== *)
theory Accounts
  imports Account_Store
begin

text \<open>
  Signing up, signing in and recovering an account (\<open>server/controllers/auth.go\<close>,
  \<open>auth_webauthn.go\<close>, \<open>team.go\<close> and \<open>csrf.go\<close>).  A handler takes the request's cookies, its
  decoded body (\<open>None\<close> when decoding fails) and the state of the accounts, and gives a reply
  and the new state.  One reading of the clock, \<open>now\<close>, stands for the readings of one request;
  the first index of a fault plan counts the calls of a handler, the second the statements of a
  call.  A cookie is its name and value, \<open>None\<close> when it is cleared.

  The WebAuthn library, the hash, the random source and the key derivation are parameters.
  The catalogue of providers that \<open>seedNewUser\<close> fills for a new account is not part of the state.
\<close>

section \<open>The outside\<close>

record attested =
  at_key :: string
  at_public :: string
  at_count :: int
  at_eligible :: bool
  at_backup :: bool

record validated =
  vl_key :: string
  vl_count :: int
  vl_clone :: bool
  vl_backup :: bool

record webauthn =
  wa_begin_registration :: "user \<Rightarrow> credential list \<Rightarrow> string option"
  wa_begin_login :: "user \<Rightarrow> credential list \<Rightarrow> string option"
  wa_parse_attestation :: "string \<Rightarrow> string option"
  wa_create :: "user \<Rightarrow> credential list \<Rightarrow> string \<Rightarrow> string \<Rightarrow> attested option"
  wa_parse_assertion :: "string \<Rightarrow> string option"
  wa_validate :: "user \<Rightarrow> credential list \<Rightarrow> string \<Rightarrow> string \<Rightarrow> validated option"

text \<open>\<open>si_token k\<close> is the \<open>k\<close>-th token the request draws.\<close>

record site =
  si_e2e :: bool
  si_cap :: string
  si_gap :: string
  si_terms :: bool
  si_base :: string
  si_mail :: bool
  si_hash :: "string \<Rightarrow> string"
  si_token :: "nat \<Rightarrow> string option"
  si_dek :: "dek option"
  si_nonce :: "bytes option"
  si_e2e_dek :: dek
  si_hkdf :: "bytes \<Rightarrow> dek option"
  si_seal :: aead_seal
  si_open :: aead_open
  si_rp_ok :: bool
  si_lib :: webauthn

record accounts =
  ac_auth :: auth_db
  ac_joins :: invite_db
  ac_links :: "reset_token table"
  ac_challenges :: "challenge table"
  ac_vault :: vault_db
  ac_keys :: keyring
  ac_mail :: "(string \<times> string) list"

datatype answer =
    Message string
  | Ceremony id
  | Signed_In id bool
  | Recovered string
  | State id bool "instant option"
  | Invited id string
  | Invitation string string
  | Passkeys "credential list"
  | Plain

record reply =
  rp_status :: nat
  rp_cookies :: "(string \<times> string option) list"
  rp_answer :: answer

type_synonym handler = "accounts \<Rightarrow> reply \<times> accounts"
type_synonym plan = "nat \<Rightarrow> faults"

abbreviation refuse :: "nat \<Rightarrow> string \<Rightarrow> reply" where
  "refuse code msg \<equiv> \<lparr>rp_status = code, rp_cookies = [], rp_answer = Message msg\<rparr>"

abbreviation answered :: "nat \<Rightarrow> answer \<Rightarrow> reply" where
  "answered code a \<equiv> \<lparr>rp_status = code, rp_cookies = [], rp_answer = a\<rparr>"

abbreviation with_cookies :: "(string \<times> string option) list \<Rightarrow> reply \<Rightarrow> reply" where
  "with_cookies cs r \<equiv> r\<lparr>rp_cookies := cs @ rp_cookies r\<rparr>"

section \<open>Cookies and texts\<close>

definition refresh_cookie :: string where "refresh_cookie = ''hc1_refresh''"
definition csrf_cookie :: string where "csrf_cookie = ''hc1_csrf''"
definition reenroll_cookie :: string where "reenroll_cookie = ''hc1_reenroll''"
definition reenroll_ttl :: duration where "reenroll_ttl = 15 * minute"

definition keyring_ttl :: "site \<Rightarrow> duration" where "keyring_ttl st = session_absolute_cap (si_cap st)"

definition clear_session_cookie :: "(string \<times> string option) list" where
  "clear_session_cookie = [(session_cookie, None), (refresh_cookie, None), (csrf_cookie, None)]"

definition looks_like_email :: "string \<Rightarrow> bool" where
  "looks_like_email e \<longleftrightarrow>
     3 \<le> length e \<and> length e \<le> 254 \<and> CHR ''@'' \<in> set e \<and>
     (let k = length (takeWhile (\<lambda>c. c \<noteq> CHR ''@'') e) in 0 < k \<and> k < length e - 1) \<and>
     list_all (\<lambda>c. c \<notin> {CHR '' '', CHR 0x09, CHR 0x0A}) e"

definition trim_right_slash :: "string \<Rightarrow> string" where
  "trim_right_slash s = rev (dropWhile (\<lambda>c. c = CHR ''/'') (rev s))"

text \<open>\<open>origin\<close> is the scheme and host the request itself names.\<close>

definition app_base_url :: "site \<Rightarrow> string \<Rightarrow> string option" where
  "app_base_url st origin =
     (if si_base st \<noteq> [] then Some (trim_right_slash (si_base st))
      else if si_mail st then None else Some origin)"

text \<open>The PRF output, in base64url without or with padding.\<close>

definition url_char :: "char \<Rightarrow> char" where
  "url_char c =
     (if c = CHR ''-'' then CHR ''+'' else if c = CHR ''_'' then CHR ''/''
      else if c = CHR ''+'' \<or> c = CHR ''/'' then CHR ''!'' else c)"

definition raw_url_decode :: "string \<Rightarrow> bytes option" where
  "raw_url_decode s =
     (let t = map url_char (filter (\<lambda>c. c \<noteq> CHR 0x0A \<and> c \<noteq> CHR 0x0D) s)
      in if CHR ''='' \<in> set t \<or> length t mod 4 = 1 then None
         else b64_groups (t @ replicate ((4 - length t mod 4) mod 4) (CHR ''='')))"

definition prf_bytes :: "string \<Rightarrow> bytes option" where
  "prf_bytes p =
     (if p = [] then Some []
      else case raw_url_decode p of Some b \<Rightarrow> Some b | None \<Rightarrow> b64_decode (map url_char p))"

section \<open>Tokens\<close>

definition issue_refresh_token ::
  "site \<Rightarrow> faults \<Rightarrow> instant \<Rightarrow> id \<Rightarrow> string \<Rightarrow> instant \<Rightarrow> auth_db \<Rightarrow>
   (bool \<times> (string \<times> string option) list) \<times> auth_db" where
  "issue_refresh_token st flt now uid family ceiling s =
     (case si_token st 1 of
        None \<Rightarrow> ((False, []), s)
      | Some refresh \<Rightarrow>
          (case (if family = [] then si_token st 2 else Some family) of
             None \<Rightarrow> ((False, []), s)
           | Some fam \<Rightarrow>
               (case create_refresh_token flt now uid fam (si_hash st refresh) ceiling s of
                  (Inl _, s) \<Rightarrow> ((False, []), s)
                | (Inr _, s) \<Rightarrow> ((True, [(refresh_cookie, Some refresh)]), s))))"

definition set_csrf_cookie :: "site \<Rightarrow> (string \<times> string option) list" where
  "set_csrf_cookie st = (case si_token st 3 of None \<Rightarrow> [] | Some t \<Rightarrow> [(csrf_cookie, Some t)])"

definition issue_token_pair ::
  "site \<Rightarrow> plan \<Rightarrow> instant \<Rightarrow> user \<Rightarrow> auth_db \<Rightarrow> (string \<times> string option) list \<times> auth_db" where
  "issue_token_pair st f now u s =
     (let ceiling = now + session_absolute_cap (si_cap st)
      in case si_token st 0 of
           None \<Rightarrow> ([], s)
         | Some access \<Rightarrow>
             (case create_session (f 0) now (u_id u) (si_hash st access) ceiling s of
                (Inl _, s) \<Rightarrow> ([], s)
              | (Inr _, s) \<Rightarrow>
                  (case issue_refresh_token st (f 1) now (u_id u) [] ceiling s of
                     ((False, cs), s) \<Rightarrow> ((session_cookie, Some access) # cs, s)
                   | ((True, cs), s) \<Rightarrow> ((session_cookie, Some access) # cs @ set_csrf_cookie st, s))))"

definition new_pair :: "site \<Rightarrow> plan \<Rightarrow> instant \<Rightarrow> user \<Rightarrow> accounts \<Rightarrow> (string \<times> string option) list \<times> accounts" where
  "new_pair st f now u s =
     (case issue_token_pair st f now u (ac_auth s) of (cs, a) \<Rightarrow> (cs, s\<lparr>ac_auth := a\<rparr>))"

text \<open>The body of \<open>/auth/me\<close> and of \<open>/auth/refresh\<close>; it reads the keyring, which drops an expired key.\<close>

definition auth_state_response :: "site \<Rightarrow> faults \<Rightarrow> instant \<Rightarrow> user \<Rightarrow> accounts \<Rightarrow> answer \<times> accounts" where
  "auth_state_response st flt now u s =
     (case is_unlocked now (u_id u) (ac_keys s) of
        (open', k) \<Rightarrow>
          (State (u_id u) (\<not> open')
             (case get_session_absolute_expiry flt now (u_id u) (ac_auth s) of
                Inl _ \<Rightarrow> None | Inr t \<Rightarrow> if t = 0 then None else Some t),
           s\<lparr>ac_keys := k\<rparr>))"

definition refresh_handler :: "site \<Rightarrow> plan \<Rightarrow> instant \<Rightarrow> gw_request \<Rightarrow> handler" where
  "refresh_handler st f now r s =
     (case request_cookie refresh_cookie r of
        None \<Rightarrow> (refuse 401 ''no refresh token'', s)
      | Some c \<Rightarrow>
          if c = [] then (refuse 401 ''no refresh token'', s)
          else (case si_token st 1 of
            None \<Rightarrow> (refuse 500 ''token generation failed'', s)
          | Some new \<Rightarrow>
              (case rotate_refresh_token (f 0) now (si_hash st c) (si_hash st new) (ac_auth s) of
                 (Inl _, a) \<Rightarrow> (with_cookies clear_session_cookie (refuse 401 ''refresh rejected''), s\<lparr>ac_auth := a\<rparr>)
               | (Inr next, a) \<Rightarrow>
                   (case si_token st 0 of
                      None \<Rightarrow> (refuse 500 ''token generation failed'', s\<lparr>ac_auth := a\<rparr>)
                    | Some access \<Rightarrow>
                        (case create_session (f 1) now (rt_user next) (si_hash st access) (rt_absolute next) a of
                           (Inl _, a) \<Rightarrow> (refuse 500 ''session creation failed'', s\<lparr>ac_auth := a\<rparr>)
                         | (Inr _, a) \<Rightarrow>
                             (let cs = (session_cookie, Some access) # (refresh_cookie, Some new) # set_csrf_cookie st;
                                  s = s\<lparr>ac_auth := a\<rparr>
                              in case get_user (f 2 0) (rt_user next) (users a) of
                                   None \<Rightarrow> (with_cookies cs (refuse 500 ''user lookup failed''), s)
                                 | Some u \<Rightarrow>
                                     (case auth_state_response st (f 3) now u s of
                                        (a, s) \<Rightarrow> (with_cookies cs (answered 200 a), s))))))))"

section \<open>Who is asking\<close>

definition e2e_user_email :: string where "e2e_user_email = ''e2e@local''"

definition ensure_team :: "faults \<Rightarrow> user \<Rightarrow> accounts \<Rightarrow> accounts" where
  "ensure_team flt u s =
     s\<lparr>ac_joins := (ac_joins s)\<lparr>id_teams := snd (ensure_team_for_user flt u (id_teams (ac_joins s)))\<rparr>\<rparr>"

definition unlock :: "site \<Rightarrow> instant \<Rightarrow> id \<Rightarrow> dek \<Rightarrow> accounts \<Rightarrow> accounts" where
  "unlock st now uid d s = s\<lparr>ac_keys := unlock_user now uid d (keyring_ttl st) (ac_keys s)\<rparr>"

definition add_user :: "faults \<Rightarrow> string \<Rightarrow> accounts \<Rightarrow> (account_error dberr + user) \<times> accounts" where
  "add_user flt email s =
     (case create_user flt email (users (ac_auth s)) of
        (r, t) \<Rightarrow> (r, s\<lparr>ac_auth := (ac_auth s)\<lparr>users := t\<rparr>\<rparr>))"

definition e2e_user :: "site \<Rightarrow> plan \<Rightarrow> instant \<Rightarrow> accounts \<Rightarrow> user option \<times> accounts" where
  "e2e_user st f now s =
     (if f 0 0 then (None, s)
      else case get_user_by_email False e2e_user_email (users (ac_auth s)) of
        Some u \<Rightarrow> (Some u, unlock st now (u_id u) (si_e2e_dek st) s)
      | None \<Rightarrow>
          (case add_user (f 1) e2e_user_email s of
             (Inl _, s) \<Rightarrow> (None, s)
           | (Inr u, s) \<Rightarrow> (Some u, unlock st now (u_id u) (si_e2e_dek st) (ensure_team (f 2) u s))))"

definition session_of :: "faults \<Rightarrow> instant \<Rightarrow> string \<Rightarrow> accounts \<Rightarrow> user option \<times> accounts" where
  "session_of flt now hash s =
     (case get_session_user flt now now hash (ac_auth s) of
        (r, a) \<Rightarrow> (case r of Inl _ \<Rightarrow> None | Inr u \<Rightarrow> Some u, s\<lparr>ac_auth := a\<rparr>))"

definition nonempty :: "string option \<Rightarrow> string option" where
  "nonempty v = (case v of None \<Rightarrow> None | Some c \<Rightarrow> if c = [] then None else Some c)"

definition authenticate :: "site \<Rightarrow> plan \<Rightarrow> instant \<Rightarrow> gw_request \<Rightarrow> accounts \<Rightarrow> user option \<times> accounts" where
  "authenticate st f now r s =
     (case (case nonempty (request_cookie session_cookie r) of
              None \<Rightarrow> (None, s) | Some c \<Rightarrow> session_of (f 0) now (si_hash st c) s) of
        (Some u, s) \<Rightarrow> (Some u, s)
      | (None, s) \<Rightarrow> if si_e2e st then e2e_user st (\<lambda>k. f (k + 1)) now s else (None, s))"

definition require_auth ::
  "site \<Rightarrow> plan \<Rightarrow> instant \<Rightarrow> gw_request \<Rightarrow> (user \<Rightarrow> handler) \<Rightarrow> handler" where
  "require_auth st f now r next s =
     (case authenticate st f now r s of
        (None, s) \<Rightarrow> (refuse 401 ''unauthenticated'', s)
      | (Some u, s) \<Rightarrow> next u s)"

definition me :: "site \<Rightarrow> plan \<Rightarrow> faults \<Rightarrow> instant \<Rightarrow> gw_request \<Rightarrow> handler" where
  "me st f flt now r s =
     (case authenticate st f now r s of
        (None, s) \<Rightarrow> (refuse 401 ''unauthenticated'', s)
      | (Some u, s) \<Rightarrow> (case auth_state_response st flt now u s of (a, s) \<Rightarrow> (answered 200 a, s)))"

text \<open>The double-submit guard in front of the mutating routes.\<close>

definition csrf_safe_method :: "string \<Rightarrow> bool" where
  "csrf_safe_method m \<longleftrightarrow> m \<in> {''GET'', ''HEAD'', ''OPTIONS''}"

definition csrf_header :: string where "csrf_header = ''X-Csrf-Token''"

definition csrf :: "site \<Rightarrow> gw_request \<Rightarrow> handler \<Rightarrow> handler" where
  "csrf st r next s =
     (if si_e2e st \<or> csrf_safe_method (rq_method r) then next s
      else case nonempty (request_cookie csrf_cookie r) of
        None \<Rightarrow> next s
      | Some c \<Rightarrow>
          (let h = header_get csrf_header (rq_headers r)
           in if h = [] \<or> h \<noteq> c then (refuse 403 ''csrf token mismatch'', s) else next s))"

definition logout :: "site \<Rightarrow> plan \<Rightarrow> instant \<Rightarrow> gw_request \<Rightarrow> handler" where
  "logout st f now r s =
     (let done = with_cookies clear_session_cookie (answered 200 Plain)
      in case nonempty (request_cookie session_cookie r) of
        None \<Rightarrow> (done, s)
      | Some c \<Rightarrow>
          (let hash = si_hash st c;
               s = (case session_of (f 0) now hash s of
                      (None, s) \<Rightarrow> s
                    | (Some u, s) \<Rightarrow>
                        (let a = snd (revoke_refresh_tokens_for_user (f 1) (u_id u) (ac_auth s));
                             a = snd (delete_sessions_for_user (f 2) (u_id u) a)
                         in s\<lparr>ac_keys := lock_user (u_id u) (ac_keys s), ac_auth := a\<rparr>))
           in (done, s\<lparr>ac_auth := snd (delete_session_by_token_hash (f 3) hash (ac_auth s))\<rparr>)))"

section \<open>Signing up\<close>

record register_body =
  rb_email :: string
  rb_invite :: string
  rb_terms :: bool

record finish_body =
  fp_session :: id
  fp_credential :: string
  fp_prf :: string

definition read_finish :: "finish_body option \<Rightarrow> string + finish_body" where
  "read_finish b =
     (case b of None \<Rightarrow> Inl ''invalid finish payload''
      | Some p \<Rightarrow> if fp_credential p = [] then Inl ''missing credential'' else Inr p)"

text \<open>A failing read of the passkeys gives the empty list: every caller drops the error.\<close>

definition load_creds :: "bool \<Rightarrow> id \<Rightarrow> accounts \<Rightarrow> credential list" where
  "load_creds fault uid s = (if fault then [] else list_credentials_for_user uid (ac_vault s))"

definition stash_challenge ::
  "bool \<Rightarrow> instant \<Rightarrow> id \<Rightarrow> string \<Rightarrow> string \<Rightarrow> string \<Rightarrow> handler" where
  "stash_challenge fault now uid purpose session invite s =
     (case create_webauthn_session fault now (Some uid) purpose session invite (ac_challenges s) of
        (Inl _, t) \<Rightarrow> (refuse 500 ''failed to start ceremony'', s\<lparr>ac_challenges := t\<rparr>)
      | (Inr c, t) \<Rightarrow> (answered 200 (Ceremony (ch_id c)), s\<lparr>ac_challenges := t\<rparr>))"

definition valid_reenroll_ticket :: "site \<Rightarrow> instant \<Rightarrow> gw_request \<Rightarrow> user \<Rightarrow> bool" where
  "valid_reenroll_ticket st now r u \<longleftrightarrow>
     u_reenroll u \<noteq> [] \<and>
     (case u_reenroll_until u of None \<Rightarrow> False | Some t \<Rightarrow> \<not> now > t) \<and>
     (case nonempty (request_cookie reenroll_cookie r) of
        None \<Rightarrow> False | Some c \<Rightarrow> si_hash st c = u_reenroll u)"

definition begin_registration ::
  "site \<Rightarrow> bool \<Rightarrow> instant \<Rightarrow> string \<Rightarrow> user \<Rightarrow> handler" where
  "begin_registration st fault now invite u s =
     (case wa_begin_registration (si_lib st) u [] of
        None \<Rightarrow> (refuse 500 ''failed to start registration'', s)
      | Some session \<Rightarrow> stash_challenge fault now (u_id u) ''register'' session invite s)"

definition register_begin ::
  "site \<Rightarrow> plan \<Rightarrow> instant \<Rightarrow> gw_request \<Rightarrow> register_body option \<Rightarrow> handler" where
  "register_begin st f now r body s =
     (case body of None \<Rightarrow> (refuse 400 ''invalid payload'', s)
      | Some b \<Rightarrow>
          (let email = normalize_email (rb_email b)
           in if \<not> looks_like_email email then (refuse 400 ''a valid email is required'', s)
              else if \<not> si_rp_ok st then (refuse 500 ''webauthn not configured'', s)
              else case get_user_by_email (f 0 0) email (users (ac_auth s)) of
                Some u \<Rightarrow>
                  if load_creds (f 0 1) (u_id u) s \<noteq> []
                  then (refuse 409 ''an account with this email already exists'', s)
                  else if u_reenroll u \<noteq> [] \<and> \<not> valid_reenroll_ticket st now r u
                  then (refuse 403 ''this account is being recovered'', s)
                  else begin_registration st (f 1 0) now (rb_invite b) u s
              | None \<Rightarrow>
                  if si_terms st \<and> \<not> rb_terms b then (refuse 400 ''you must accept the Terms of Service'', s)
                  else if rb_invite b \<noteq> [] \<and>
                          get_team_invite_by_token_hash (f 0 1) now (si_hash st (rb_invite b))
                            (id_invites (ac_joins s)) = None
                  then (refuse 400 ''invalid or expired invite'', s)
                  else (case add_user (f 2) email s of
                          (Inl _, s) \<Rightarrow> (refuse 500 ''failed to create account'', s)
                        | (Inr u, s) \<Rightarrow> begin_registration st (f 1 0) now (rb_invite b) u s)))"

definition accept_team_invite_for ::
  "site \<Rightarrow> plan \<Rightarrow> instant \<Rightarrow> string \<Rightarrow> user \<Rightarrow> accounts \<Rightarrow> bool \<times> accounts" where
  "accept_team_invite_for st f now token u s =
     (if token = [] then (False, s)
      else case get_team_invite_by_token_hash (f 0 0) now (si_hash st token) (id_invites (ac_joins s)) of
        None \<Rightarrow> (False, s)
      | Some v \<Rightarrow>
          if normalize_email (iv_email v) \<noteq> u_email u then (False, s)
          else (case accept_team_invite (f 1) now v (u_id u) (ac_joins s) of
                  (Inl _, j) \<Rightarrow> (False, s\<lparr>ac_joins := j\<rparr>)
                | (Inr _, j) \<Rightarrow> (True, s\<lparr>ac_joins := j\<rparr>)))"

definition new_credential :: "site \<Rightarrow> instant \<Rightarrow> id \<Rightarrow> attested \<Rightarrow> string \<Rightarrow> string \<Rightarrow> credential" where
  "new_credential st now uid a wrapped nickname =
     \<lparr>wc_id = 0, wc_user = uid, wc_key = at_key a, wc_public = at_public a, wc_count = at_count a,
      wc_backup_eligible = at_eligible a, wc_backup = at_backup a, wc_nickname = nickname,
      wc_wrapped = wrapped, wc_used = now\<rparr>"

definition save_credential :: "bool \<Rightarrow> credential \<Rightarrow> accounts \<Rightarrow> bool \<times> accounts" where
  "save_credential fault c s =
     (case create_webauthn_credential fault c (ac_vault s) of
        (r, v) \<Rightarrow> (case r of Inl _ \<Rightarrow> False | Inr _ \<Rightarrow> True, s\<lparr>ac_vault := v\<rparr>))"

definition clear_ticket :: "bool \<Rightarrow> id \<Rightarrow> accounts \<Rightarrow> accounts" where
  "clear_ticket fault uid s =
     s\<lparr>ac_auth := (ac_auth s)\<lparr>users := snd (clear_user_reenroll_ticket fault uid (users (ac_auth s)))\<rparr>\<rparr>"

text \<open>What follows once the new passkey is stored.\<close>

definition enrolled ::
  "site \<Rightarrow> plan \<Rightarrow> instant \<Rightarrow> string \<Rightarrow> user \<Rightarrow> dek \<Rightarrow> handler" where
  "enrolled st f now invite u d s =
     (case accept_team_invite_for st f now invite u s of
        (joined, s) \<Rightarrow>
          (let s = (if joined then s else ensure_team (f 2) u s);
               s = unlock st now (u_id u) d s;
               s = (if u_reenroll u \<noteq> [] then clear_ticket (f 3 0) (u_id u) s else s)
           in case new_pair st (\<lambda>k. f (k + 4)) now u s of
                (cs, s) \<Rightarrow> (with_cookies ((reenroll_cookie, None) # cs) (answered 201 (Signed_In (u_id u) True)), s)))"

definition register_finish :: "site \<Rightarrow> plan \<Rightarrow> instant \<Rightarrow> finish_body option \<Rightarrow> handler" where
  "register_finish st f now b s =
     (case read_finish b of Inl msg \<Rightarrow> (refuse 400 msg, s)
      | Inr body \<Rightarrow>
     (case consume_webauthn_session (f 0) now (fp_session body) ''register'' None (ac_challenges s) of
        (Inl _, t) \<Rightarrow> (refuse 400 ''registration session expired'', s\<lparr>ac_challenges := t\<rparr>)
      | (Inr c, t) \<Rightarrow>
     (let s = s\<lparr>ac_challenges := t\<rparr>
      in case prf_bytes (fp_prf body) of None \<Rightarrow> (refuse 400 ''no PRF support'', s)
      | Some prf \<Rightarrow>
     (if length prf < 16 then (refuse 400 ''no PRF support'', s)
      else case ch_user c of None \<Rightarrow> (refuse 400 ''invalid registration session'', s)
      | Some uid \<Rightarrow>
     (case get_user (f 1 0) uid (users (ac_auth s)) of None \<Rightarrow> (refuse 400 ''account not found'', s)
      | Some u \<Rightarrow>
     (case wa_parse_attestation (si_lib st) (fp_credential body) of
        None \<Rightarrow> (refuse 400 ''invalid attestation'', s)
      | Some parsed \<Rightarrow>
     (case wa_create (si_lib st) u [] (ch_session c) parsed of None \<Rightarrow> (refuse 400 ''attestation failed'', s)
      | Some a \<Rightarrow>
     (case si_dek st of None \<Rightarrow> (refuse 500 ''failed to create key'', s)
      | Some d \<Rightarrow>
     (case wrap_dek_for_prf (si_hkdf st) (si_seal st) (si_nonce st) d prf of
        Inl _ \<Rightarrow> (refuse 500 ''failed to wrap key'', s)
      | Inr wrapped \<Rightarrow>
     (case save_credential (f 2 0) (new_credential st now (u_id u) a wrapped ''This device'') s of
        (False, s) \<Rightarrow> (refuse 500 ''failed to save passkey'', s)
      | (True, s) \<Rightarrow> enrolled st (\<lambda>k. f (k + 3)) now (ch_invite c) u d s))))))))))"

section \<open>Signing in\<close>

definition begin_login :: "site \<Rightarrow> plan \<Rightarrow> instant \<Rightarrow> string \<Rightarrow> user \<Rightarrow> handler" where
  "begin_login st f now purpose u s =
     (case wa_begin_login (si_lib st) u (load_creds (f 0 1) (u_id u) s) of
        None \<Rightarrow> (refuse 500 ''failed to start login'', s)
      | Some session \<Rightarrow> stash_challenge (f 1 0) now (u_id u) purpose session [] s)"

definition login_begin :: "site \<Rightarrow> plan \<Rightarrow> instant \<Rightarrow> string option \<Rightarrow> handler" where
  "login_begin st f now body s =
     (case body of None \<Rightarrow> (refuse 400 ''invalid payload'', s)
      | Some email \<Rightarrow>
          if \<not> si_rp_ok st then (refuse 500 ''webauthn not configured'', s)
          else (case get_user_by_email (f 0 0) (normalize_email email) (users (ac_auth s)) of
                  None \<Rightarrow> (refuse 404 ''no account for that email'', s)
                | Some u \<Rightarrow>
                    if load_creds (f 0 1) (u_id u) s = []
                    then (refuse 400 ''this account has no passkey'', s)
                    else begin_login st f now ''login'' u s))"

definition unlock_begin :: "site \<Rightarrow> plan \<Rightarrow> instant \<Rightarrow> user \<Rightarrow> handler" where
  "unlock_begin st f now = begin_login st f now ''unlock''"

definition reauth_begin :: "site \<Rightarrow> plan \<Rightarrow> instant \<Rightarrow> user \<Rightarrow> handler" where
  "reauth_begin st f now = begin_login st f now ''reauth''"

definition clone_suspected :: "credential \<Rightarrow> validated \<Rightarrow> bool" where
  "clone_suspected c v \<longleftrightarrow>
     vl_clone v \<or> (wc_count c \<noteq> 0 \<and> vl_count v \<noteq> 0 \<and> vl_count v \<le> wc_count c)"

text \<open>What a valid assertion earns: the counter, a token pair when \<open>grant\<close>, and the data key.\<close>

definition signed_in ::
  "site \<Rightarrow> plan \<Rightarrow> instant \<Rightarrow> bool \<Rightarrow> string \<Rightarrow> user \<Rightarrow> credential \<Rightarrow> validated \<Rightarrow> handler" where
  "signed_in st f now grant prf_text u c v s =
     (let s = s\<lparr>ac_vault := snd (update_credential_usage (f 0 0) now (wc_id c) (vl_count v) (vl_backup v) (ac_vault s))\<rparr>
      in case (if grant then new_pair st (\<lambda>k. f (k + 1)) now u s else ([], s)) of
        (cs, s) \<Rightarrow>
          (let prf = (case prf_bytes prf_text of None \<Rightarrow> [] | Some b \<Rightarrow> b);
               key = (if length prf < 16 then None
                      else case unwrap_dek_with_prf (si_hkdf st) (si_open st) (wc_wrapped c) prf of
                        Inl _ \<Rightarrow> None | Inr d \<Rightarrow> Some d)
           in (with_cookies cs (answered 200 (Signed_In (u_id u) (key \<noteq> None))),
               case key of None \<Rightarrow> s | Some d \<Rightarrow> unlock st now (u_id u) d s)))"

definition finish_assertion ::
  "site \<Rightarrow> plan \<Rightarrow> instant \<Rightarrow> string \<Rightarrow> bool \<Rightarrow> user option \<Rightarrow> finish_body option \<Rightarrow> handler" where
  "finish_assertion st f now purpose grant caller b s =
     (case read_finish b of Inl msg \<Rightarrow> (refuse 400 msg, s)
      | Inr body \<Rightarrow>
     (let expect = (if purpose \<in> {''unlock'', ''reauth''} then map_option u_id caller else None)
      in case consume_webauthn_session (f 0) now (fp_session body) purpose expect (ac_challenges s) of
        (Inl _, t) \<Rightarrow> (refuse 400 ''session expired'', s\<lparr>ac_challenges := t\<rparr>)
      | (Inr c, t) \<Rightarrow>
     (let s = s\<lparr>ac_challenges := t\<rparr>
      in case ch_user c of None \<Rightarrow> (refuse 400 ''session expired'', s)
      | Some uid \<Rightarrow>
     (case get_user (f 1 0) uid (users (ac_auth s)) of None \<Rightarrow> (refuse 400 ''account not found'', s)
      | Some u \<Rightarrow>
     (case wa_parse_assertion (si_lib st) (fp_credential body) of
        None \<Rightarrow> (refuse 400 ''invalid assertion'', s)
      | Some parsed \<Rightarrow>
     (case wa_validate (si_lib st) u (load_creds (f 1 1) (u_id u) s) (ch_session c) parsed of
        None \<Rightarrow> (refuse 401 ''assertion failed'', s)
      | Some v \<Rightarrow>
     (case get_credential_by_credential_id (f 1 2) (vl_key v) (ac_vault s) of
        None \<Rightarrow> (refuse 401 ''unknown credential'', s)
      | Some row \<Rightarrow>
          if clone_suspected row v then (refuse 401 ''authenticator failed clone detection'', s)
          else signed_in st (\<lambda>k. f (k + 2)) now grant (fp_prf body) u row v s)))))))"

definition login_finish :: "site \<Rightarrow> plan \<Rightarrow> instant \<Rightarrow> finish_body option \<Rightarrow> handler" where
  "login_finish st f now = finish_assertion st f now ''login'' True None"

definition unlock_finish :: "site \<Rightarrow> plan \<Rightarrow> instant \<Rightarrow> user \<Rightarrow> finish_body option \<Rightarrow> handler" where
  "unlock_finish st f now u = finish_assertion st f now ''unlock'' False (Some u)"

definition reauth_finish :: "site \<Rightarrow> plan \<Rightarrow> instant \<Rightarrow> user \<Rightarrow> finish_body option \<Rightarrow> handler" where
  "reauth_finish st f now u = finish_assertion st f now ''reauth'' True (Some u)"

section \<open>Another device\<close>

definition add_credential_begin :: "site \<Rightarrow> plan \<Rightarrow> instant \<Rightarrow> user \<Rightarrow> handler" where
  "add_credential_begin st f now u s =
     (case is_unlocked now (u_id u) (ac_keys s) of
        (open', k) \<Rightarrow>
          (let s = s\<lparr>ac_keys := k\<rparr>
           in if \<not> open' then (refuse 409 ''unlock this device first to enroll another'', s)
              else case wa_begin_registration (si_lib st) u (load_creds (f 0 0) (u_id u) s) of
                None \<Rightarrow> (refuse 500 ''failed to start enrollment'', s)
              | Some session \<Rightarrow> stash_challenge (f 1 0) now (u_id u) ''add-credential'' session [] s))"

definition add_credential_finish :: "site \<Rightarrow> plan \<Rightarrow> instant \<Rightarrow> user \<Rightarrow> finish_body option \<Rightarrow> handler" where
  "add_credential_finish st f now u b s =
     (case kr_get now (u_id u) (ac_keys s) of
        (None, k) \<Rightarrow> (refuse 409 ''unlock this device first'', s\<lparr>ac_keys := k\<rparr>)
      | (Some d, k) \<Rightarrow>
     (let s = s\<lparr>ac_keys := k\<rparr>
      in case read_finish b of Inl msg \<Rightarrow> (refuse 400 msg, s)
      | Inr body \<Rightarrow>
     (case consume_webauthn_session (f 0) now (fp_session body) ''add-credential'' (Some (u_id u)) (ac_challenges s) of
        (Inl _, t) \<Rightarrow> (refuse 400 ''session expired'', s\<lparr>ac_challenges := t\<rparr>)
      | (Inr c, t) \<Rightarrow>
     (let s = s\<lparr>ac_challenges := t\<rparr>
      in case prf_bytes (fp_prf body) of None \<Rightarrow> (refuse 400 ''no PRF support'', s)
      | Some prf \<Rightarrow>
     (if length prf < 16 then (refuse 400 ''no PRF support'', s)
      else case wa_parse_attestation (si_lib st) (fp_credential body) of
        None \<Rightarrow> (refuse 400 ''invalid attestation'', s)
      | Some parsed \<Rightarrow>
     (case wa_create (si_lib st) u (load_creds (f 1 0) (u_id u) s) (ch_session c) parsed of
        None \<Rightarrow> (refuse 400 ''attestation failed'', s)
      | Some a \<Rightarrow>
     (case wrap_dek_for_prf (si_hkdf st) (si_seal st) (si_nonce st) d prf of
        Inl _ \<Rightarrow> (refuse 500 ''failed to wrap key'', s)
      | Inr wrapped \<Rightarrow>
     (case save_credential (f 2 0) (new_credential st now (u_id u) a wrapped ''New device'') s of
        (False, s) \<Rightarrow> (refuse 500 ''failed to save passkey'', s)
      | (True, s) \<Rightarrow> (answered 201 Plain, s)))))))))"

definition list_credentials :: "bool \<Rightarrow> user \<Rightarrow> handler" where
  "list_credentials fault u s = (answered 200 (Passkeys (load_creds fault (u_id u) s)), s)"

section \<open>Recovery\<close>

text \<open>The mail goes out in the background; here it is put into the outbox.\<close>

definition recover_request :: "site \<Rightarrow> plan \<Rightarrow> instant \<Rightarrow> string \<Rightarrow> string \<Rightarrow> handler" where
  "recover_request st f now origin email s =
     (answered 200 Plain,
      case get_user_by_email (f 0 0) (normalize_email email) (users (ac_auth s)) of
        None \<Rightarrow> s
      | Some u \<Rightarrow>
          (case si_token st 0 of
             None \<Rightarrow> s
           | Some token \<Rightarrow>
               (case create_password_reset_token (f 1) now (u_id u) (si_hash st token) (ac_links s) of
                  (Inl _, t) \<Rightarrow> s\<lparr>ac_links := t\<rparr>
                | (Inr _, t) \<Rightarrow>
                    (let s = s\<lparr>ac_links := t\<rparr>
                     in case app_base_url st origin of
                          None \<Rightarrow> s
                        | Some base \<Rightarrow>
                            s\<lparr>ac_mail := ac_mail s @ [(normalize_email email, base @ ''/recover?token='' @ token)]\<rparr>))))"

definition forget_user :: "plan \<Rightarrow> id \<Rightarrow> accounts \<Rightarrow> accounts" where
  "forget_user f uid s =
     (let a = snd (delete_sessions_for_user (f 0) uid (ac_auth s));
          a = snd (revoke_refresh_tokens_for_user (f 1) uid a)
      in s\<lparr>ac_keys := lock_user uid (ac_keys s), ac_auth := a\<rparr>)"

definition give_ticket :: "site \<Rightarrow> bool \<Rightarrow> instant \<Rightarrow> id \<Rightarrow> accounts \<Rightarrow> (string \<times> string option) list \<times> accounts" where
  "give_ticket st fault now uid s =
     (case si_token st 0 of
        None \<Rightarrow> ([], s)
      | Some ticket \<Rightarrow>
          (case set_user_reenroll_ticket fault uid (si_hash st ticket) (now + reenroll_ttl) (users (ac_auth s)) of
             (Inl _, t) \<Rightarrow> ([], s\<lparr>ac_auth := (ac_auth s)\<lparr>users := t\<rparr>\<rparr>)
           | (Inr _, t) \<Rightarrow> ([(reenroll_cookie, Some ticket)], s\<lparr>ac_auth := (ac_auth s)\<lparr>users := t\<rparr>\<rparr>)))"

definition recover_confirm :: "site \<Rightarrow> plan \<Rightarrow> instant \<Rightarrow> string option \<Rightarrow> handler" where
  "recover_confirm st f now body s =
     (case nonempty body of None \<Rightarrow> (refuse 400 ''invalid payload'', s)
      | Some token \<Rightarrow>
     (case consume_password_reset_token (f 0) now (si_hash st token) (users (ac_auth s)) (ac_links s) of
        (Inl _, t) \<Rightarrow> (refuse 400 ''invalid or expired reset link'', s\<lparr>ac_links := t\<rparr>)
      | (Inr u, t) \<Rightarrow>
     (let s = s\<lparr>ac_links := t\<rparr>
      in case crypto_shred_user (f 1) (u_id u) (ac_vault s) of
        (Inl _, v) \<Rightarrow> (refuse 500 ''failed to reset account'', s\<lparr>ac_vault := v\<rparr>)
      | (Inr _, v) \<Rightarrow>
          (case give_ticket st (f 4 0) now (u_id u) (forget_user (\<lambda>k. f (k + 2)) (u_id u) (s\<lparr>ac_vault := v\<rparr>)) of
             (cs, s) \<Rightarrow> (with_cookies cs (answered 200 (Recovered (u_email u))), s)))))"

section \<open>The team of a user\<close>

definition require_membership :: "bool \<Rightarrow> user \<Rightarrow> accounts \<Rightarrow> team_member option" where
  "require_membership fault u s = get_team_membership fault (u_id u) (id_teams (ac_joins s))"

definition as_owner :: "bool \<Rightarrow> user \<Rightarrow> string \<Rightarrow> (team_member \<Rightarrow> handler) \<Rightarrow> handler" where
  "as_owner fault u msg next s =
     (case require_membership fault u s of
        None \<Rightarrow> (refuse 403 msg, s)
      | Some m \<Rightarrow> if tm_role m \<noteq> team_role_owner then (refuse 403 msg, s) else next m s)"

definition update_team :: "plan \<Rightarrow> user \<Rightarrow> string option \<Rightarrow> handler" where
  "update_team f u body = as_owner (f 0 0) u ''only the team owner can rename the team''
     (\<lambda>m s. case body of None \<Rightarrow> (refuse 400 ''name is required'', s)
        | Some name \<Rightarrow>
            if trim_space name = [] then (refuse 400 ''name is required'', s)
            else (case update_team_name (f 1 0) (tm_team m) (trim_space name) (id_teams (ac_joins s)) of
                    (Inl _, t) \<Rightarrow> (refuse 500 ''database error'', s\<lparr>ac_joins := (ac_joins s)\<lparr>id_teams := t\<rparr>\<rparr>)
                  | (Inr _, t) \<Rightarrow> (answered 200 Plain, s\<lparr>ac_joins := (ac_joins s)\<lparr>id_teams := t\<rparr>\<rparr>)))"

definition create_team_invite_handler ::
  "site \<Rightarrow> plan \<Rightarrow> instant \<Rightarrow> string \<Rightarrow> user \<Rightarrow> string option \<Rightarrow> handler" where
  "create_team_invite_handler st f now origin u body = as_owner (f 0 0) u ''only the team owner can invite members''
     (\<lambda>m s. case body of None \<Rightarrow> (refuse 400 ''Invalid payload'', s)
        | Some address \<Rightarrow>
            (let email = normalize_email address
             in if \<not> looks_like_email email then (refuse 400 ''a valid email address is required'', s)
                else if f 1 0 then (refuse 500 ''database error'', s)
                else if get_user_by_email False email (users (ac_auth s)) \<noteq> None
                then (refuse 409 ''this email already has an account'', s)
                else case app_base_url st origin of
                  None \<Rightarrow> (refuse 500 ''server email is misconfigured'', s)
                | Some base \<Rightarrow>
                    (case si_token st 0 of
                       None \<Rightarrow> (refuse 500 ''token generation failed'', s)
                     | Some token \<Rightarrow>
                         (case create_team_invite (f 2) now (tm_team m) email team_role_member
                                 (si_hash st token) (tm_user m) (id_invites (ac_joins s)) of
                            (Inl _, t) \<Rightarrow> (refuse 500 ''database error'', s\<lparr>ac_joins := (ac_joins s)\<lparr>id_invites := t\<rparr>\<rparr>)
                          | (Inr v, t) \<Rightarrow>
                              (let url = base @ ''/register?invite='' @ token
                               in (answered 201 (Invited (iv_id v) url),
                                   s\<lparr>ac_joins := (ac_joins s)\<lparr>id_invites := t\<rparr>,
                                     ac_mail := ac_mail s @ [(email, url)]\<rparr>))))))"

definition delete_team_invite_handler :: "plan \<Rightarrow> user \<Rightarrow> int option \<Rightarrow> handler" where
  "delete_team_invite_handler f u param = as_owner (f 0 0) u ''only the team owner can revoke invites''
     (\<lambda>m s. case param of None \<Rightarrow> (refuse 400 ''invalid id'', s)
        | Some i \<Rightarrow>
            (case delete_team_invite (f 1 0) (tm_team m) (to_int32 i) (id_invites (ac_joins s)) of
               (Inl _, t) \<Rightarrow> (refuse 500 ''database error'', s\<lparr>ac_joins := (ac_joins s)\<lparr>id_invites := t\<rparr>\<rparr>)
             | (Inr _, t) \<Rightarrow> (answered 200 Plain, s\<lparr>ac_joins := (ac_joins s)\<lparr>id_invites := t\<rparr>\<rparr>)))"

definition get_team :: "bool \<Rightarrow> id \<Rightarrow> accounts \<Rightarrow> team option" where
  "get_team fault i s = (if fault then None else tbl_get te_id i (td_teams (id_teams (ac_joins s))))"

definition invite_info :: "site \<Rightarrow> plan \<Rightarrow> instant \<Rightarrow> string \<Rightarrow> handler" where
  "invite_info st f now token s =
     (if token = [] then (refuse 400 ''token is required'', s)
      else case get_team_invite_by_token_hash (f 0 0) now (si_hash st token) (id_invites (ac_joins s)) of
        None \<Rightarrow> (refuse 404 ''invalid or expired invite'', s)
      | Some v \<Rightarrow>
          (case get_team (f 0 1) (iv_team v) s of
             None \<Rightarrow> (refuse 500 ''team lookup failed'', s)
           | Some te \<Rightarrow> (answered 200 (Invitation (te_name te) (iv_email v)), s)))"

end
