(* ===== verification/Account_Safety.thy ===== *)
theory Account_Safety
  imports Accounts
begin

text \<open>
  What signing in, joining a team and recovering an account may touch.  Everything an account
  owns is a row with the owner's id; \<open>leaves_others u s s'\<close> says that nothing of any account but \<open>u\<close>
  differs between two states.
\<close>

section \<open>The rows of one owner\<close>

definition rows_of :: "('r \<Rightarrow> 'k) \<Rightarrow> 'k \<Rightarrow> 'r table \<Rightarrow> 'r list" where
  "rows_of key v t = filter (\<lambda>x. key x = v) (rows t)"

lemma rows_of_delete: "(\<And>x. x \<in> set (rows t) \<Longrightarrow> p x \<Longrightarrow> key x \<noteq> v) \<Longrightarrow> rows_of key v (tbl_delete p t) = rows_of key v t"
  by (auto simp: rows_of_def intro: filter_cong)

lemma rows_of_update:
  assumes "\<And>x. x \<in> set (rows t) \<Longrightarrow> p x \<Longrightarrow> key x \<noteq> v \<and> key (f x) \<noteq> v"
  shows "rows_of key v (tbl_update p f t) = rows_of key v t"
proof -
  have "filter (\<lambda>x. key x = v) (map (\<lambda>r. if p r then f r else r) xs) = filter (\<lambda>x. key x = v) xs"
    if "set xs \<subseteq> set (rows t)" for xs
    using that assms by (induction xs) auto
  then show ?thesis by (simp add: rows_of_def)
qed

lemma rows_of_create:
  "key (sk (next_key t) x) \<noteq> v \<Longrightarrow> rows_of key v (snd (tbl_create sk x t)) = rows_of key v t"
  by (simp add: rows_of_def)

lemma rows_of_none: "rows_of key v t = [] \<longleftrightarrow> (\<forall>x \<in> set (rows t). key x \<noteq> v)"
  by (auto simp: rows_of_def filter_empty_conv)

definition auth_spares :: "id \<Rightarrow> auth_db \<Rightarrow> auth_db \<Rightarrow> bool" where
  "auth_spares u a a' \<longleftrightarrow> (\<forall>v. v \<noteq> u \<longrightarrow>
     rows_of se_user v (sessions a') = rows_of se_user v (sessions a) \<and>
     rows_of rt_user v (refresh_tokens a') = rows_of rt_user v (refresh_tokens a) \<and>
     rows_of u_id v (users a') = rows_of u_id v (users a))"

definition vault_spares :: "id \<Rightarrow> vault_db \<Rightarrow> vault_db \<Rightarrow> bool" where
  "vault_spares u a a' \<longleftrightarrow> (\<forall>v. v \<noteq> u \<longrightarrow>
     rows_of wc_user v (vd_credentials a') = rows_of wc_user v (vd_credentials a) \<and>
     rows_of pv_user (Some v) (vd_providers a') = rows_of pv_user (Some v) (vd_providers a) \<and>
     rows_of ma_user (Some v) (vd_mcp a') = rows_of ma_user (Some v) (vd_mcp a) \<and>
     rows_of gc_user (Some v) (vd_git a') = rows_of gc_user (Some v) (vd_git a))"

definition keys_spare :: "id \<Rightarrow> keyring \<Rightarrow> keyring \<Rightarrow> bool" where
  "keys_spare u k k' \<longleftrightarrow> (\<forall>v. v \<noteq> u \<longrightarrow> kr_entry k' v = kr_entry k v)"

definition leaves_others :: "id \<Rightarrow> accounts \<Rightarrow> accounts \<Rightarrow> bool" where
  "leaves_others u s s' \<longleftrightarrow> auth_spares u (ac_auth s) (ac_auth s') \<and> vault_spares u (ac_vault s) (ac_vault s') \<and>
     keys_spare u (ac_keys s) (ac_keys s')"

lemma leaves_others_refl [simp]: "auth_spares u a a" "vault_spares u b b" "keys_spare u k k" "leaves_others u s s"
  by (simp_all add: auth_spares_def vault_spares_def keys_spare_def leaves_others_def)

lemma auth_spares_trans: "auth_spares u a b \<Longrightarrow> auth_spares u b c \<Longrightarrow> auth_spares u a c"
  by (simp add: auth_spares_def)

lemma leaves_others_trans: "leaves_others u a b \<Longrightarrow> leaves_others u b c \<Longrightarrow> leaves_others u a c"
  by (simp add: leaves_others_def auth_spares_def vault_spares_def keys_spare_def)

lemma keys_spare_put: "keys_spare u k (unlock_user now u d ttl k)"
  by (simp add: keys_spare_def unlock_user_def kr_entry_put)

lemma keys_spare_lock: "keys_spare u k (lock_user u k)"
  by (simp add: keys_spare_def lock_user_def kr_entry_evict)

lemma create_session_spares: "auth_spares u a (snd (create_session flt now u h c a))"
  by (auto simp: create_session_def auth_spares_def prod.case_eq_if rows_of_create)

lemma create_refresh_token_spares: "auth_spares u a (snd (create_refresh_token flt now u fam h c a))"
  by (auto simp: create_refresh_token_def insert_refresh_token_def auth_spares_def prod.case_eq_if rows_of_create)

lemma drop_sessions_spares: "auth_spares u a (snd (delete_sessions_for_user flt u a))"
  by (auto simp: delete_sessions_for_user_def drop_user_sessions_def auth_spares_def intro!: rows_of_delete)

lemma revoke_tokens_spares: "auth_spares u a (snd (revoke_refresh_tokens_for_user flt u a))"
  by (auto simp: revoke_refresh_tokens_for_user_def auth_spares_def intro!: rows_of_delete)

lemma issue_refresh_token_spares: "auth_spares u a (snd (issue_refresh_token st flt now u fam c a))"
  using create_refresh_token_spares [of u a flt now]
  by (simp add: issue_refresh_token_def prod.case_eq_if split: option.splits sum.splits)

lemma issue_token_pair_spares: "auth_spares (u_id u) a (snd (issue_token_pair st f now u a))"
proof -
  let ?c = "now + session_absolute_cap (si_cap st)"
  have made: "auth_spares (u_id u) a (snd (create_session (f 0) now (u_id u) h ?c a))" for h
    by (rule create_session_spares)
  have "auth_spares (u_id u) a (snd (issue_refresh_token st (f 1) now (u_id u) [] ?c
      (snd (create_session (f 0) now (u_id u) h ?c a))))" for h
    by (rule auth_spares_trans [OF made issue_refresh_token_spares])
  with made show ?thesis
    by (simp add: issue_token_pair_def Let_def prod.case_eq_if split: option.splits sum.splits bool.splits)
qed

lemma vault_shred_spares:
  "crypto_shred_user flt u v = (Inr x, v') \<Longrightarrow> vault_spares u v v'"
  unfolding crypto_shred_user_def transaction_success_body crypto_shred_body_def vault_spares_def
  by (auto simp: Let_def intro!: rows_of_delete rows_of_update split: if_splits)

section \<open>Guards\<close>

text \<open>A handler is a chain of guards; each rule below takes one off.\<close>

lemma option_guardE:
  "(case x of None \<Rightarrow> q | Some y \<Rightarrow> k y) = z \<Longrightarrow> (x = None \<Longrightarrow> q = z \<Longrightarrow> P) \<Longrightarrow>
   (\<And>y. x = Some y \<Longrightarrow> k y = z \<Longrightarrow> P) \<Longrightarrow> P"
  by (cases x) simp_all

lemma sum_guardE:
  "(case x of Inl e \<Rightarrow> q e | Inr y \<Rightarrow> k y) = z \<Longrightarrow> (\<And>e. x = Inl e \<Longrightarrow> q e = z \<Longrightarrow> P) \<Longrightarrow>
   (\<And>y. x = Inr y \<Longrightarrow> k y = z \<Longrightarrow> P) \<Longrightarrow> P"
  by (cases x) simp_all

lemma store_guardE:
  "(case x of (Inl e, t) \<Rightarrow> q e t | (Inr y, t) \<Rightarrow> k y t) = z \<Longrightarrow>
   (\<And>e t. x = (Inl e, t) \<Longrightarrow> q e t = z \<Longrightarrow> P) \<Longrightarrow>
   (\<And>y t. x = (Inr y, t) \<Longrightarrow> k y t = z \<Longrightarrow> P) \<Longrightarrow> P"
  by (cases x; cases "fst x") simp_all

lemma flag_guardE:
  "(case x of (True, t) \<Rightarrow> k t | (False, t) \<Rightarrow> q t) = z \<Longrightarrow>
   (\<And>t. x = (False, t) \<Longrightarrow> q t = z \<Longrightarrow> P) \<Longrightarrow> (\<And>t. x = (True, t) \<Longrightarrow> k t = z \<Longrightarrow> P) \<Longrightarrow> P"
  by (cases x; cases "fst x") simp_all

lemma if_guardE: "(if c then q else k) = z \<Longrightarrow> (c \<Longrightarrow> q = z \<Longrightarrow> P) \<Longrightarrow> (\<not> c \<Longrightarrow> k = z \<Longrightarrow> P) \<Longrightarrow> P"
  by (cases c) simp_all

lemmas guards = option_guardE sum_guardE store_guardE flag_guardE if_guardE

lemma read_finish_Inr: "read_finish b = Inr body \<Longrightarrow> b = Some body"
  by (simp add: read_finish_def split: option.splits if_splits)

lemma got_user: "get_user fault i t = Some u \<Longrightarrow> u \<in> set (rows t) \<and> u_id u = i"
  by (auto simp: get_user_def tbl_get_def dest!: tbl_first_Some_D split: if_splits)

lemma load_creds_vault: "ac_vault s' = ac_vault s \<Longrightarrow> load_creds fault i s' = load_creds fault i s"
  by (simp add: load_creds_def)

section \<open>Recovery\<close>

lemma forget_user_spares: "leaves_others u s (forget_user f u s)"
  unfolding leaves_others_def
  by (auto simp: forget_user_def Let_def keys_spare_lock
      intro: auth_spares_trans [OF drop_sessions_spares revoke_tokens_spares])

lemma forget_user_other [simp]:
  "ac_vault (forget_user f u s) = ac_vault s" "ac_links (forget_user f u s) = ac_links s"
  "ac_joins (forget_user f u s) = ac_joins s" "users (ac_auth (forget_user f u s)) = users (ac_auth s)"
  by (simp_all add: forget_user_def Let_def delete_sessions_for_user_def drop_user_sessions_def
      revoke_refresh_tokens_for_user_def)

lemma forget_user_forgets:
  "rows_of se_user u (sessions (ac_auth (forget_user f u s))) =
     (if f 0 0 then rows_of se_user u (sessions (ac_auth s)) else [])"
  "rows_of rt_user u (refresh_tokens (ac_auth (forget_user f u s))) =
     (if f 1 0 then rows_of rt_user u (refresh_tokens (ac_auth s)) else [])"
  by (auto simp: forget_user_def Let_def delete_sessions_for_user_def drop_user_sessions_def
      revoke_refresh_tokens_for_user_def rows_of_none)

lemma forget_user_key: "kr_entry (ac_keys (forget_user f u s)) u = None"
  by (simp add: forget_user_def Let_def lock_user_def kr_entry_evict)

lemma give_ticket_result:
  "give_ticket st fault now u s =
   (if si_token st 0 = None \<or> fault then ([], s)
    else ([(reenroll_cookie, si_token st 0)],
          s\<lparr>ac_auth := (ac_auth s)\<lparr>users := tbl_update (\<lambda>x. u_id x = u)
             (\<lambda>x. x\<lparr>u_reenroll := si_hash st (the (si_token st 0)), u_reenroll_until := Some (now + reenroll_ttl)\<rparr>)
             (users (ac_auth s))\<rparr>\<rparr>))"
  by (simp add: give_ticket_def set_user_reenroll_ticket_def split: option.splits)

lemma ticket_rows:
  fixes t :: "user table" and h :: string and e :: "instant option" and u :: id
  defines "t' \<equiv> tbl_update (\<lambda>x. u_id x = u) (\<lambda>x. x\<lparr>u_reenroll := h, u_reenroll_until := e\<rparr>) t"
  shows "v \<noteq> u \<Longrightarrow> rows_of u_id v t' = rows_of u_id v t"
    and "\<forall>x \<in> set (rows t'). u_id x = u \<longrightarrow> u_reenroll x = h \<and> u_reenroll_until x = e"
proof -
  show "rows_of u_id v t' = rows_of u_id v t" if "v \<noteq> u"
    unfolding t'_def by (rule rows_of_update) (use that in auto)
  show "\<forall>x \<in> set (rows t'). u_id x = u \<longrightarrow> u_reenroll x = h \<and> u_reenroll_until x = e"
    unfolding t'_def rows_tbl_update set_map ball_simps by simp
qed

lemma give_ticket_spares: "leaves_others u s (snd (give_ticket st fault now u s))"
  by (simp add: give_ticket_result leaves_others_def auth_spares_def ticket_rows(1))

lemma give_ticket_other [simp]:
  "sessions (ac_auth (snd (give_ticket st fault now u s))) = sessions (ac_auth s)"
  "refresh_tokens (ac_auth (snd (give_ticket st fault now u s))) = refresh_tokens (ac_auth s)"
  "ac_keys (snd (give_ticket st fault now u s)) = ac_keys s"
  "ac_vault (snd (give_ticket st fault now u s)) = ac_vault s"
  "ac_joins (snd (give_ticket st fault now u s)) = ac_joins s"
  by (simp_all add: give_ticket_result)

lemma give_ticket_given:
  assumes "si_token st 0 = Some t" "\<not> fault"
  shows "fst (give_ticket st fault now u s) = [(reenroll_cookie, Some t)]"
    "\<forall>x \<in> set (rows (users (ac_auth (snd (give_ticket st fault now u s))))). u_id x = u \<longrightarrow>
       u_reenroll x = si_hash st t \<and> u_reenroll_until x = Some (now + reenroll_ttl)"
  using assms ticket_rows(2) [where u = u and h = "si_hash st t" and e = "Some (now + reenroll_ttl)" and t = "users (ac_auth s)"]
  by (simp_all add: give_ticket_result del: rows_tbl_update)

lemma shredded:
  assumes "crypto_shred_user flt u v = (Inr x, v')"
  shows "rows_of wc_user u (vd_credentials v') = []"
    "\<forall>p \<in> set (rows (vd_providers v')). pv_user p = Some u \<longrightarrow> pv_key p = []"
    "\<forall>a \<in> set (rows (vd_mcp v')). ma_user a = Some u \<longrightarrow> ma_token a = []"
    "rows_of gc_user (Some u) (vd_git v') = []"
  using assms unfolding crypto_shred_user_def transaction_success_body crypto_shred_body_def
  by (auto simp: Let_def rows_of_none split: if_splits)

lemma shred_failed: "crypto_shred_user g u v = (Inl e, v') \<Longrightarrow> v' = v"
  unfolding crypto_shred_user_def by (rule transaction_error_frame)

lemma recover_confirm_cases:
  assumes "recover_confirm st f now body s = (r, s')"
  obtains (refused) "rp_status r \<noteq> 200" "s' = s\<lparr>ac_links := ac_links s'\<rparr>"
  | (confirmed) token u t v where "nonempty body = Some token" "rp_status r = 200"
    "consume_password_reset_token (f 0) now (si_hash st token) (users (ac_auth s)) (ac_links s) = (Inr u, t)"
    "crypto_shred_user (f 1) (u_id u) (ac_vault s) = (Inr (), v)"
    "s' = snd (give_ticket st (f 4 0) now (u_id u)
       (forget_user (\<lambda>k. f (k + 2)) (u_id u) (s\<lparr>ac_links := t, ac_vault := v\<rparr>)))"
    "rp_cookies r = fst (give_ticket st (f 4 0) now (u_id u)
       (forget_user (\<lambda>k. f (k + 2)) (u_id u) (s\<lparr>ac_links := t, ac_vault := v\<rparr>)))"
proof -
  have "v = ac_vault (s\<lparr>ac_links := t\<rparr>)"
    if "crypto_shred_user (f 1) i (ac_vault (s\<lparr>ac_links := t\<rparr>)) = (Inl e, v)" for i t e v
    using that by (rule shred_failed)
  then show thesis
    using assms unfolding recover_confirm_def Let_def prod.case_eq_if [of "\<lambda>cs s. (with_cookies cs _, s)"]
    by (elim guards) (fastforce intro: refused confirmed)+
qed

lemma reset_link_used:
  assumes "consume_password_reset_token flt now h us t = (Inr u, t')"
  shows "\<exists>x \<in> set (rows t). pr_hash x = h \<and> pr_used x = None \<and> pr_expires x > now \<and> pr_user x = u_id u"
    and "u \<in> set (rows us)"
proof -
  obtain x where x: "tbl_first (\<lambda>x. pr_hash x = h \<and> pr_used x = None \<and> pr_expires x > now) t = Some x"
    and u: "get_user (flt 2) (pr_user x) us = Some u"
    using assms by (auto simp: consume_password_reset_token_def consume_password_reset_token_body_def
        transaction_success_body Let_def split: option.splits if_splits)
  have "u \<in> set (rows us) \<and> u_id u = pr_user x"
    using u by (auto simp: get_user_def tbl_get_def dest!: tbl_first_Some_D split: if_splits)
  with tbl_first_Some_D [OF x] show "u \<in> set (rows us)"
    "\<exists>x \<in> set (rows t). pr_hash x = h \<and> pr_used x = None \<and> pr_expires x > now \<and> pr_user x = u_id u"
    by auto
qed

text \<open>
  C18: A confirmed recovery needs an open reset link of the account and empties that account and
  no other: none of its passkeys and git credentials is left, the keys of its providers and the
  tokens of its connections are blank, its data key is out of memory; its access sessions and its
  refresh tokens are gone, each unless deleting them fails, which the code passes over; and the
  browser that confirmed holds the only ticket for enrolling a new passkey, unless none could be
  drawn or stored.  Any other answer than success leaves everything but the reset links as it was.
\<close>

theorem recovery_empties_one_account:
  assumes "recover_confirm st f now body s = (r, s')"
  shows "if rp_status r = 200
    then \<exists>token u. body = Some token \<and> u \<in> set (rows (users (ac_auth s))) \<and>
      (\<exists>x \<in> set (rows (ac_links s)). pr_hash x = si_hash st token \<and> pr_used x = None \<and>
         pr_expires x > now \<and> pr_user x = u_id u) \<and>
      rows_of wc_user (u_id u) (vd_credentials (ac_vault s')) = [] \<and>
      rows_of gc_user (Some (u_id u)) (vd_git (ac_vault s')) = [] \<and>
      (\<forall>p \<in> set (rows (vd_providers (ac_vault s'))). pv_user p = Some (u_id u) \<longrightarrow> pv_key p = []) \<and>
      (\<forall>a \<in> set (rows (vd_mcp (ac_vault s'))). ma_user a = Some (u_id u) \<longrightarrow> ma_token a = []) \<and>
      kr_entry (ac_keys s') (u_id u) = None \<and>
      rows_of se_user (u_id u) (sessions (ac_auth s')) =
        (if f 2 0 then rows_of se_user (u_id u) (sessions (ac_auth s)) else []) \<and>
      rows_of rt_user (u_id u) (refresh_tokens (ac_auth s')) =
        (if f 3 0 then rows_of rt_user (u_id u) (refresh_tokens (ac_auth s)) else []) \<and>
      (if si_token st 0 = None \<or> f 4 0
       then rp_cookies r = [] \<and> users (ac_auth s') = users (ac_auth s)
       else rp_cookies r = [(reenroll_cookie, si_token st 0)] \<and>
         (\<forall>x \<in> set (rows (users (ac_auth s'))). u_id x = u_id u \<longrightarrow>
            u_reenroll x = si_hash st (the (si_token st 0)) \<and> u_reenroll_until x = Some (now + reenroll_ttl))) \<and>
      leaves_others (u_id u) s s' \<and> ac_joins s' = ac_joins s
    else s' = s\<lparr>ac_links := ac_links s'\<rparr>"
  using assms
proof (cases rule: recover_confirm_cases)
  case refused
  then show ?thesis by simp
next
  case (confirmed token u t v)
  let ?m = "s\<lparr>ac_links := t, ac_vault := v\<rparr>"
  let ?g = "forget_user (\<lambda>k. f (k + 2)) (u_id u) ?m"
  let ?n = "give_ticket st (f 4 0) now (u_id u) ?g"
  have "leaves_others (u_id u) s ?m" by (simp add: leaves_others_def vault_shred_spares [OF confirmed(4)])
  then have sp: "leaves_others (u_id u) s s'"
    unfolding confirmed(5) by (rule leaves_others_trans [OF leaves_others_trans [OF _ forget_user_spares] give_ticket_spares])
  have body: "body = Some token" using confirmed(1) by (simp add: nonempty_def split: option.splits if_splits)
  have gone: "rows_of se_user (u_id u) (sessions (ac_auth ?g)) =
      (if f 2 0 then rows_of se_user (u_id u) (sessions (ac_auth s)) else [])"
    "rows_of rt_user (u_id u) (refresh_tokens (ac_auth ?g)) =
      (if f 3 0 then rows_of rt_user (u_id u) (refresh_tokens (ac_auth s)) else [])"
    by (simp_all add: forget_user_forgets numeral_2_eq_2 numeral_3_eq_3)
  have ticket: "if si_token st 0 = None \<or> f 4 0
       then fst ?n = [] \<and> users (ac_auth (snd ?n)) = users (ac_auth s)
       else fst ?n = [(reenroll_cookie, si_token st 0)] \<and>
         (\<forall>x \<in> set (rows (users (ac_auth (snd ?n)))). u_id x = u_id u \<longrightarrow>
            u_reenroll x = si_hash st (the (si_token st 0)) \<and> u_reenroll_until x = Some (now + reenroll_ttl))"
    using give_ticket_given [of st _ "f 4 0" now "u_id u" ?g] by (auto simp: give_ticket_result)
  have vault: "ac_vault s' = v" and rest: "ac_joins s' = ac_joins s" "kr_entry (ac_keys s') (u_id u) = None"
    "sessions (ac_auth s') = sessions (ac_auth ?g)" "refresh_tokens (ac_auth s') = refresh_tokens (ac_auth ?g)"
    by (simp_all add: confirmed(5) forget_user_key)
  show ?thesis
    unfolding if_P [OF confirmed(2)]
    by (rule exI [of _ token], rule exI [of _ u], unfold vault rest)
      (intro conjI body reset_link_used [OF confirmed(3)] shredded [OF confirmed(4)] gone refl sp
        ticket [folded confirmed(5,6)])
qed

section \<open>Signing in\<close>

lemma finish_assertion_cases:
  assumes "finish_assertion st f now purpose grant caller b s = (r, s')"
  obtains (refused) "rp_status r \<noteq> 200" "rp_cookies r = []" "s' = s\<lparr>ac_challenges := ac_challenges s'\<rparr>"
  | (asserted) body c t u parsed v row where "b = Some body"
    "consume_webauthn_session (f 0) now (fp_session body) purpose
       (if purpose \<in> {''unlock'', ''reauth''} then map_option u_id caller else None) (ac_challenges s) = (Inr c, t)"
    "ch_user c = Some (u_id u)" "u \<in> set (rows (users (ac_auth s)))"
    "wa_parse_assertion (si_lib st) (fp_credential body) = Some parsed"
    "wa_validate (si_lib st) u (load_creds (f 1 1) (u_id u) s) (ch_session c) parsed = Some v"
    "get_credential_by_credential_id (f 1 2) (vl_key v) (ac_vault s) = Some row"
    "\<not> clone_suspected row v"
    "signed_in st (\<lambda>k. f (k + 2)) now grant (fp_prf body) u row v (s\<lparr>ac_challenges := t\<rparr>) = (r, s')"
proof -
  have load: "load_creds k i (s\<lparr>ac_challenges := t\<rparr>) = load_creds k i s" for k i t
    by (rule load_creds_vault) simp
  show thesis
    using assms unfolding finish_assertion_def Let_def
    by (elim guards)
       (auto simp: load simp del: One_nat_def intro: refused asserted dest!: read_finish_Inr got_user)
qed

lemma new_pair_spares: "leaves_others (u_id u) s (snd (new_pair st f now u s))"
  using issue_token_pair_spares [of u "ac_auth s" st f now] by (simp add: new_pair_def leaves_others_def prod.case_eq_if)

lemma new_pair_other [simp]:
  "ac_challenges (snd (new_pair st f now u s)) = ac_challenges s" "ac_vault (snd (new_pair st f now u s)) = ac_vault s"
  "ac_links (snd (new_pair st f now u s)) = ac_links s" "ac_joins (snd (new_pair st f now u s)) = ac_joins s"
  by (simp_all add: new_pair_def prod.case_eq_if)

lemma usage_spares:
  assumes "row \<in> set (rows (vd_credentials v))" "wc_user row = u" and "wf_table wc_id (vd_credentials v)"
  shows "vault_spares u v (snd (update_credential_usage fault now (wc_id row) n b v))"
proof -
  have "x = row" if "x \<in> set (rows (vd_credentials v))" "wc_id x = wc_id row" for x
    using assms(1,3) that unfolding wf_table_def
    by (metis inj_onD sorted_wrt_map strict_sorted_iff distinct_map sorted_wrt_map)
  then have "rows_of wc_user w (tbl_update (\<lambda>c. wc_id c = wc_id row)
      (\<lambda>c. c\<lparr>wc_count := n, wc_backup := b, wc_used := now\<rparr>) (vd_credentials v)) = rows_of wc_user w (vd_credentials v)"
    if "w \<noteq> u" for w
    by (intro rows_of_update) (use that assms(2) in auto)
  then show ?thesis by (simp add: update_credential_usage_def vault_spares_def)
qed

lemma signed_in_effect:
  assumes "signed_in st f now grant p u row v s = (r, s')"
    and "row \<in> set (rows (vd_credentials (ac_vault s)))" "wc_user row = u_id u" "wf_table wc_id (vd_credentials (ac_vault s))"
  shows "leaves_others (u_id u) s s'" "ac_challenges s' = ac_challenges s" "rp_status r = 200"
    "\<exists>k. rp_answer r = Signed_In (u_id u) k" "\<not> grant \<Longrightarrow> rp_cookies r = [] \<and> ac_auth s' = ac_auth s"
proof -
  let ?s1 = "s\<lparr>ac_vault := snd (update_credential_usage (f 0 0) now (wc_id row) (vl_count v) (vl_backup v) (ac_vault s))\<rparr>"
  let ?p = "if grant then new_pair st (\<lambda>k. f (k + 1)) now u ?s1 else ([], ?s1)"
  have one: "leaves_others (u_id u) s ?s1" using usage_spares [OF assms(2-4)] by (simp add: leaves_others_def)
  have two: "leaves_others (u_id u) ?s1 (snd ?p)" by (simp add: new_pair_spares)
  have three: "leaves_others (u_id u) x (unlock st now (u_id u) d x)" for x d
    by (simp add: leaves_others_def unlock_def keys_spare_put)
  obtain key where s': "s' = (case key of None \<Rightarrow> snd ?p | Some d \<Rightarrow> unlock st now (u_id u) d (snd ?p))"
    and r: "r = with_cookies (fst ?p) (answered 200 (Signed_In (u_id u) (key \<noteq> None)))"
    using assms(1) unfolding signed_in_def Let_def prod.case_eq_if by auto
  have "leaves_others (u_id u) (snd ?p) s'" unfolding s' by (cases key) (simp_all add: three)
  then show "leaves_others (u_id u) s s'" using one two leaves_others_trans by blast
  show "ac_challenges s' = ac_challenges s" unfolding s' by (simp add: unlock_def split: option.splits)
  show "rp_status r = 200" "\<exists>k. rp_answer r = Signed_In (u_id u) k" unfolding r by simp_all
  show "rp_cookies r = [] \<and> ac_auth s' = ac_auth s" if "\<not> grant"
    unfolding r s' using that by (simp add: unlock_def split: option.splits)
qed

text \<open>
  What is relied on of the WebAuthn library: an assertion it accepts was made with one of the
  passkeys it was given.
\<close>

definition honest_library :: "webauthn \<Rightarrow> bool" where
  "honest_library lib \<longleftrightarrow>
     (\<forall>u cs d p v. wa_validate lib u cs d p = Some v \<longrightarrow> (\<exists>c \<in> set cs. wc_key c = vl_key v))"

lemma set_load_creds: "set (load_creds fault i s) \<subseteq> {c \<in> set (rows (vd_credentials (ac_vault s))). wc_user c = i}"
  by (auto simp: load_creds_def list_credentials_for_user_def)

lemma validated_row:
  assumes "honest_library lib" and "distinct (map wc_key (rows (vd_credentials (ac_vault s))))"
    and "wa_validate lib u (load_creds fault i s) d p = Some v"
    and "get_credential_by_credential_id fault' (vl_key v) (ac_vault s) = Some row"
  shows "row \<in> set (rows (vd_credentials (ac_vault s)))" "wc_user row = i" "wc_key row = vl_key v" "\<not> fault"
proof -
  obtain c where c: "c \<in> set (load_creds fault i s)" "wc_key c = vl_key v"
    using assms(1,3) unfolding honest_library_def by blast
  then have c': "c \<in> set (rows (vd_credentials (ac_vault s)))" "wc_user c = i" using set_load_creds by auto
  show row: "row \<in> set (rows (vd_credentials (ac_vault s)))" "wc_key row = vl_key v"
    using assms(4) by (auto simp: get_credential_by_credential_id_def dest!: tbl_first_Some_D split: if_splits)
  have "row = c" using assms(2) row c c' by (simp add: distinct_map inj_on_def)
  with c' show "wc_user row = i" by simp
  show "\<not> fault" using c(1) by (auto simp: load_creds_def)
qed

text \<open>
  C17: A sign-in, an unlock or a re-authentication succeeds only with an assertion that the
  WebAuthn library accepts for a passkey of the account, on an unexpired challenge that was made
  for that account and for that ceremony and is gone afterwards; an unlock and a
  re-authentication only for the caller's own account, and none with a sign counter that went
  back.  Success touches no other account.  Any other answer sets no cookie and changes nothing
  but the challenges.
\<close>

theorem sign_in_needs_the_passkey:
  assumes "finish_assertion st f now purpose grant caller b s = (r, s')"
    and "honest_library (si_lib st)" and "wf_table wc_id (vd_credentials (ac_vault s))"
    and "distinct (map wc_key (rows (vd_credentials (ac_vault s))))"
  shows "if rp_status r = 200
    then \<exists>body u c parsed v row. b = Some body \<and> c \<in> set (rows (ac_challenges s)) \<and>
      ch_id c = fp_session body \<and> ch_purpose c = purpose \<and> ch_expires c > now \<and> ch_user c = Some (u_id u) \<and>
      (\<forall>x \<in> set (rows (ac_challenges s')). ch_id x \<noteq> fp_session body) \<and>
      (purpose \<in> {''unlock'', ''reauth''} \<longrightarrow> (\<forall>w. caller = Some w \<longrightarrow> u_id w = u_id u)) \<and>
      u \<in> set (rows (users (ac_auth s))) \<and>
      row \<in> set (rows (vd_credentials (ac_vault s))) \<and> wc_user row = u_id u \<and> wc_key row = vl_key v \<and>
      wa_parse_assertion (si_lib st) (fp_credential body) = Some parsed \<and>
      wa_validate (si_lib st) u (list_credentials_for_user (u_id u) (ac_vault s)) (ch_session c) parsed = Some v \<and>
      \<not> clone_suspected row v \<and>
      (\<exists>k. rp_answer r = Signed_In (u_id u) k) \<and> leaves_others (u_id u) s s'
    else rp_cookies r = [] \<and> s' = s\<lparr>ac_challenges := ac_challenges s'\<rparr>"
  using assms(1)
proof (cases rule: finish_assertion_cases)
  case refused
  then show ?thesis by simp
next
  case (asserted body c t u parsed v row)
  note consumed = challenge_consumed [OF asserted(2)]
  note found = validated_row [OF assms(2,4) asserted(6,7)]
  let ?t = "s\<lparr>ac_challenges := t\<rparr>"
  have sp: "leaves_others (u_id u) ?t s'" "ac_challenges s' = t" "rp_status r = 200" "\<exists>k. rp_answer r = Signed_In (u_id u) k"
    using signed_in_effect [OF asserted(9)] found assms(3) by simp_all
  have "leaves_others (u_id u) s s'" using sp(1) by (simp add: leaves_others_def)
  moreover have "c \<in> set (rows (ac_challenges s))" "ch_id c = fp_session body" "ch_purpose c = purpose" "ch_expires c > now"
    "\<forall>x \<in> set (rows (ac_challenges s')). ch_id x \<noteq> fp_session body"
    using consumed sp(2) by auto
  moreover have "u_id w = u_id u" if "purpose \<in> {''unlock'', ''reauth''}" "caller = Some w" for w
    using consumed that asserted(3) by auto
  moreover have "wa_validate (si_lib st) u (list_credentials_for_user (u_id u) (ac_vault s)) (ch_session c) parsed = Some v"
    using asserted(6) found(4) by (simp add: load_creds_def)
  ultimately show ?thesis
    unfolding if_P [OF sp(3)] using asserted(1,3,4,5,8) found(1-3) sp(4)
    by (intro exI [of _ body] exI [of _ u] exI [of _ c] exI [of _ parsed] exI [of _ v] exI [of _ row] conjI) blast+
qed

section \<open>Joining a team\<close>

lemma insert_member_rows:
  "insert_member fault team u role t = (Inr x, t') \<Longrightarrow>
   rows t' = rows t @ [\<lparr>tm_id = next_key t, tm_team = team, tm_user = u, tm_role = role\<rparr>]"
  by (auto simp: insert_member_def split: if_splits)

lemma accept_team_invite_members:
  assumes "accept_team_invite flt now v u j = (r, j')"
  shows "(\<exists>e. r = Inl e) \<and> j' = j \<or>
    r = Inr () \<and> (\<exists>k. rows (td_members (id_teams j')) =
      rows (td_members (id_teams j)) @ [\<lparr>tm_id = k, tm_team = iv_team v, tm_user = u, tm_role = iv_role v\<rparr>])"
proof (cases r)
  case (Inl e)
  with assms show ?thesis unfolding accept_team_invite_def by (auto dest: transaction_error_frame)
next
  case (Inr x)
  with assms show ?thesis
    unfolding accept_team_invite_def
    by (auto simp: transaction_success_body accept_team_invite_body_def Let_def dest!: insert_member_rows elim!: guards)
qed

lemma ensure_team_members:
  "ensure_team_for_user flt u d = (r, d') \<Longrightarrow> rows (td_members d') = rows (td_members d) \<or>
   (\<forall>m \<in> set (rows (td_members d)). tm_user m \<noteq> u_id u) \<and>
   (\<exists>k. rows (td_members d') = rows (td_members d) @
      [\<lparr>tm_id = k, tm_team = next_key (td_teams d), tm_user = u_id u, tm_role = team_role_owner\<rparr>])"
proof -
  have made: "r' = Inr te \<Longrightarrow> \<exists>k. rows (td_members d1) = rows (td_members d) @
      [\<lparr>tm_id = k, tm_team = next_key (td_teams d), tm_user = u_id u, tm_role = team_role_owner\<rparr>]"
    if "create_team_with_owner g name (u_id u) d = (r', d1)" for g name r' d1 te
    using that unfolding create_team_with_owner_def
    by (auto simp: transaction_success_body create_team_body_def tbl_create_def Let_def
        elim!: guards dest!: insert_member_rows)
  have kept: "d1 = d" if "create_team_with_owner g name (u_id u) d = (Inl e, d1)" for g name e d1
    using that unfolding create_team_with_owner_def by (rule transaction_error_frame)
  assume ens: "ensure_team_for_user flt u d = (r, d')"
  obtain r' d1 where c: "create_team_with_owner (\<lambda>k. flt (k + 1)) (default_team_name (u_email u)) (u_id u) d = (r', d1)"
    by (rule prod.exhaust)
  have "(\<exists>e. r' = Inl e) \<and> d1 = d \<or> (\<exists>te. r' = Inr te)" using kept c by (cases r') auto
  then show ?thesis
    using ens made [OF c] c
    by (auto simp: ensure_team_for_user_def tbl_affected_zero_iff elim!: if_guardE)
qed

lemma accept_for_members:
  assumes "accept_team_invite_for st f now token u s = (joined, s')"
  shows "\<not> joined \<and> ac_joins s' = ac_joins s \<and> ac_auth s' = ac_auth s \<or> joined \<and>
    (\<exists>v \<in> set (rows (id_invites (ac_joins s))). \<exists>k. token \<noteq> [] \<and> iv_hash v = si_hash st token \<and>
       invite_open now v \<and> normalize_email (iv_email v) = u_email u \<and>
       rows (td_members (id_teams (ac_joins s'))) = rows (td_members (id_teams (ac_joins s))) @
         [\<lparr>tm_id = k, tm_team = iv_team v, tm_user = u_id u, tm_role = iv_role v\<rparr>])"
  using assms unfolding accept_team_invite_for_def
  by (elim guards)
     (auto simp: get_team_invite_by_token_hash_def dest!: accept_team_invite_members tbl_first_Some_D split: if_splits)

definition may_join :: "site \<Rightarrow> instant \<Rightarrow> string \<Rightarrow> user \<Rightarrow> accounts \<Rightarrow> team_member \<Rightarrow> bool" where
  "may_join st now token u s m \<longleftrightarrow> tm_user m = u_id u \<and>
     ((token \<noteq> [] \<and> (\<exists>v \<in> set (rows (id_invites (ac_joins s))). iv_hash v = si_hash st token \<and> invite_open now v \<and>
         normalize_email (iv_email v) = u_email u \<and> tm_team m = iv_team v \<and> tm_role m = iv_role v)) \<or>
      ((\<forall>x \<in> set (rows (td_members (id_teams (ac_joins s)))). tm_user x \<noteq> u_id u) \<and>
         tm_team m = next_key (td_teams (id_teams (ac_joins s))) \<and> tm_role m = team_role_owner))"

lemma enrolled_members:
  assumes "enrolled st f now token u d s = (r, s')"
    and "m \<in> set (rows (td_members (id_teams (ac_joins s'))))" "m \<notin> set (rows (td_members (id_teams (ac_joins s))))"
  shows "may_join st now token u s m"
proof -
  obtain joined s1 where a: "accept_team_invite_for st f now token u s = (joined, s1)" by (rule prod.exhaust)
  let ?s2 = "if joined then s1 else ensure_team (f 2) u s1"
  have same: "ac_joins s' = ac_joins ?s2"
    using assms(1) unfolding enrolled_def a prod.case Let_def
    by (auto simp: prod.case_eq_if unlock_def clear_ticket_def)
  show ?thesis
  proof (cases joined)
    case True
    with accept_for_members [OF a] assms(2,3) same show ?thesis by (auto simp: may_join_def)
  next
    case False
    obtain r d' where e: "ensure_team_for_user (f 2) u (id_teams (ac_joins s1)) = (r, d')" by (rule prod.exhaust)
    have "td_members (id_teams (ac_joins s')) = td_members d'" using same False e by (simp add: ensure_team_def)
    with False accept_for_members [OF a] ensure_team_members [OF e] assms(2,3) show ?thesis
      by (auto simp: may_join_def)
  qed
qed

lemma saved_joins: "save_credential fault c s = (x, s1) \<Longrightarrow> ac_joins s1 = ac_joins s"
  by (auto simp: save_credential_def prod.case_eq_if)

lemma register_finish_cases:
  assumes "register_finish st f now b s = (r, s')"
  obtains (refused) "ac_joins s' = ac_joins s"
  | (enrolled) body c t u d s1 where "b = Some body"
    "consume_webauthn_session (f 0) now (fp_session body) ''register'' None (ac_challenges s) = (Inr c, t)"
    "ch_user c = Some (u_id u)" "u \<in> set (rows (users (ac_auth s)))" "ac_joins s1 = ac_joins s"
    "enrolled st (\<lambda>k. f (k + 3)) now (ch_invite c) u d s1 = (r, s')"
  using assms unfolding register_finish_def Let_def
  by (elim guards)
     (auto intro: refused enrolled dest: saved_joins dest!: read_finish_Inr got_user)

text \<open>
  C19: Finishing a registration puts only the registering account into a team, and only into a
  team that an open invitation to that very address names, with the role of the invitation, and
  whose token the registration began with, or, as its owner, into a new team when the account
  has none.
\<close>

theorem joining_needs_own_invitation:
  assumes "register_finish st f now b s = (r, s')"
    and "m \<in> set (rows (td_members (id_teams (ac_joins s'))))"
    and "m \<notin> set (rows (td_members (id_teams (ac_joins s))))"
  shows "\<exists>body c u. b = Some body \<and> c \<in> set (rows (ac_challenges s)) \<and> ch_id c = fp_session body \<and>
    ch_purpose c = ''register'' \<and> ch_expires c > now \<and> ch_user c = Some (u_id u) \<and>
    u \<in> set (rows (users (ac_auth s))) \<and> may_join st now (ch_invite c) u s m"
  using assms(1)
proof (cases rule: register_finish_cases)
  case refused
  with assms(2,3) show ?thesis by simp
next
  case (enrolled body c t u d s1)
  have "may_join st now (ch_invite c) u s1 m"
    by (rule enrolled_members [OF enrolled(6)]) (use assms(2,3) enrolled(5) in simp_all)
  then have "may_join st now (ch_invite c) u s m" using enrolled(5) by (simp add: may_join_def)
  with enrolled challenge_consumed [OF enrolled(2)] show ?thesis by auto
qed

section \<open>An example\<close>

text \<open>A library that accepts an assertion equal to the session data, made with the first passkey.\<close>

definition demo_lib :: webauthn where
  "demo_lib = \<lparr>wa_begin_registration = \<lambda>u cs. Some ''c'', wa_begin_login = \<lambda>u cs. Some ''c'',
     wa_parse_attestation = Some,
     wa_create = \<lambda>u cs d p. Some \<lparr>at_key = p, at_public = ''pk'', at_count = 0, at_eligible = False, at_backup = False\<rparr>,
     wa_parse_assertion = Some,
     wa_validate = \<lambda>u cs d p. (case cs of [] \<Rightarrow> None
       | c # _ \<Rightarrow> if p = d then Some \<lparr>vl_key = wc_key c, vl_count = wc_count c + 1, vl_clone = False, vl_backup = False\<rparr>
                 else None)\<rparr>"

lemma demo_lib_honest: "honest_library demo_lib"
  by (auto simp: honest_library_def demo_lib_def split: list.splits if_splits)

definition demo_site :: site where
  "demo_site = \<lparr>si_e2e = False, si_cap = [], si_gap = [], si_terms = False, si_base = ''https://x'', si_mail = True,
     si_hash = (\<lambda>x. x), si_token = (\<lambda>k. Some (''t'' @ [char_of (48 + k)])), si_dek = Some demo_dek,
     si_nonce = Some demo_nonce, si_e2e_dek = demo_dek, si_hkdf = Some, si_seal = demo_seal, si_open = demo_open,
     si_rp_ok = True, si_lib = demo_lib\<rparr>"

definition demo_passkey :: credential where
  "demo_passkey = \<lparr>wc_id = 1, wc_user = 7, wc_key = ''k'', wc_public = ''pk'', wc_count = 4, wc_backup_eligible = False,
     wc_backup = False, wc_nickname = [], wc_wrapped = [], wc_used = 0\<rparr>"

definition demo_accounts :: "credential list \<Rightarrow> accounts" where
  "demo_accounts cs = \<lparr>
     ac_auth = \<lparr>refresh_tokens = \<lparr>rows = [], next_key = 1\<rparr>, sessions = \<lparr>rows = [], next_key = 1\<rparr>,
                users = \<lparr>rows = [\<lparr>u_id = 7, u_email = ''a@b'', u_admin = True, u_reenroll = [], u_reenroll_until = None\<rparr>],
                         next_key = 8\<rparr>\<rparr>,
     ac_joins = \<lparr>id_teams = \<lparr>td_teams = \<lparr>rows = [], next_key = 4\<rparr>, td_members = \<lparr>rows = [], next_key = 1\<rparr>\<rparr>,
                 id_invites = \<lparr>rows = [demo_invite], next_key = 2\<rparr>\<rparr>,
     ac_links = demo_links,
     ac_challenges = demo_challenges,
     ac_vault = \<lparr>vd_credentials = \<lparr>rows = cs, next_key = 2\<rparr>, vd_providers = \<lparr>rows = [], next_key = 1\<rparr>,
                 vd_mcp = \<lparr>rows = [], next_key = 1\<rparr>, vd_git = \<lparr>rows = [], next_key = 1\<rparr>\<rparr>,
     ac_keys = [], ac_mail = []\<rparr>"

definition never :: plan where "never = (\<lambda>_ _. False)"

definition demo_sign_in :: "reply \<times> accounts" where
  "demo_sign_in = finish_assertion demo_site never 5 ''login'' True None
     (Some \<lparr>fp_session = 1, fp_credential = ''s'', fp_prf = []\<rparr>) (demo_accounts [demo_passkey])"

lemma demo_sign_in_ok:
  "rp_status (fst demo_sign_in) = 200 \<and> rp_answer (fst demo_sign_in) = Signed_In 7 False \<and>
   map fst (rp_cookies (fst demo_sign_in)) = [''hc1_session'', ''hc1_refresh'', ''hc1_csrf''] \<and>
   wf_table wc_id (vd_credentials (ac_vault (demo_accounts [demo_passkey]))) \<and>
   distinct (map wc_key (rows (vd_credentials (ac_vault (demo_accounts [demo_passkey])))))"
  by code_simp

lemma sign_in_needs_the_passkey_witness:
  "leaves_others 7 (demo_accounts [demo_passkey]) (snd demo_sign_in)"
proof -
  have run: "finish_assertion demo_site never 5 ''login'' True None
     (Some \<lparr>fp_session = 1, fp_credential = ''s'', fp_prf = []\<rparr>) (demo_accounts [demo_passkey]) =
     (fst demo_sign_in, snd demo_sign_in)" by (simp add: demo_sign_in_def)
  have lib: "honest_library (si_lib demo_site)" using demo_lib_honest by (simp add: demo_site_def)
  have ok: "rp_status (fst demo_sign_in) = 200" "rp_answer (fst demo_sign_in) = Signed_In 7 False"
    and wf: "wf_table wc_id (vd_credentials (ac_vault (demo_accounts [demo_passkey])))"
    "distinct (map wc_key (rows (vd_credentials (ac_vault (demo_accounts [demo_passkey])))))"
    using demo_sign_in_ok by blast+
  show ?thesis
    using sign_in_needs_the_passkey [OF run lib wf] unfolding if_P [OF ok(1)] ok(2)
    by (elim exE conjE) simp
qed

definition demo_recovery :: "plan \<Rightarrow> accounts \<Rightarrow> reply \<times> accounts" where
  "demo_recovery f = recover_confirm demo_site f 5 (Some ''h'')"

lemma demo_recovery_ok: "rp_status (fst (demo_recovery never (demo_accounts [demo_passkey]))) = 200"
  by code_simp

lemma recovery_empties_one_account_witness:
  "\<exists>u. u \<in> set (rows (users (ac_auth (demo_accounts [demo_passkey])))) \<and>
     rows_of wc_user (u_id u) (vd_credentials (ac_vault (snd (demo_recovery never (demo_accounts [demo_passkey]))))) = [] \<and>
     leaves_others (u_id u) (demo_accounts [demo_passkey]) (snd (demo_recovery never (demo_accounts [demo_passkey])))"
proof -
  have run: "recover_confirm demo_site never 5 (Some ''h'') (demo_accounts [demo_passkey]) =
     (fst (demo_recovery never (demo_accounts [demo_passkey])), snd (demo_recovery never (demo_accounts [demo_passkey])))"
    by (simp add: demo_recovery_def)
  show ?thesis
    using recovery_empties_one_account [OF run] unfolding if_P [OF demo_recovery_ok]
    by (elim exE conjE) blast
qed

definition demo_register :: "site \<Rightarrow> id \<Rightarrow> string \<Rightarrow> accounts \<Rightarrow> reply \<times> accounts" where
  "demo_register st session key =
     register_finish st never 5 (Some \<lparr>fp_session = session, fp_credential = key, fp_prf = ''QUFBQUFBQUFBQUFBQUFBQQ''\<rparr>)"

definition demo_begin :: "plan \<Rightarrow> accounts \<Rightarrow> reply \<times> accounts" where
  "demo_begin f = register_begin demo_site f 4 \<lparr>rq_method = ''POST'', rq_headers = [], rq_body = None, rq_param = []\<rparr>
     (Some \<lparr>rb_email = ''A@b'', rb_invite = ''i'', rb_terms = True\<rparr>)"

definition demo_joining :: accounts where
  "demo_joining = snd (demo_register demo_site 2 ''v'' (snd (demo_begin never (demo_accounts []))))"

lemma demo_joining_member:
  "rows (td_members (id_teams (ac_joins demo_joining))) = [\<lparr>tm_id = 1, tm_team = 3, tm_user = 7, tm_role = ''member''\<rparr>] \<and>
   rows (td_members (id_teams (ac_joins (snd (demo_begin never (demo_accounts [])))))) = []"
  by code_simp

lemma joining_needs_own_invitation_witness:
  "\<exists>(c :: challenge) u. ch_id c = 2 \<and> may_join demo_site 5 (ch_invite c) u (snd (demo_begin never (demo_accounts [])))
     \<lparr>tm_id = 1, tm_team = 3, tm_user = 7, tm_role = ''member''\<rparr>"
proof -
  have "register_finish demo_site never 5
      (Some \<lparr>fp_session = 2, fp_credential = ''v'', fp_prf = ''QUFBQUFBQUFBQUFBQUFBQQ''\<rparr>)
      (snd (demo_begin never (demo_accounts []))) =
    (fst (demo_register demo_site 2 ''v'' (snd (demo_begin never (demo_accounts [])))), demo_joining)"
    by (simp add: demo_joining_def demo_register_def)
  from joining_needs_own_invitation [OF this, of "\<lparr>tm_id = 1, tm_team = 3, tm_user = 7, tm_role = ''member''\<rparr>"]
  show ?thesis using demo_joining_member by auto
qed

section \<open>Where the guards end\<close>

text \<open>
  The account of \<open>register_begin\<close> is checked for passkeys, that of \<open>register_finish\<close> is not: of
  two registrations begun while an account has none, the second to finish signs in to the
  account the first one enrolled in, adds its own passkey and replaces the data key.
\<close>

definition other_site :: site where
  "other_site = demo_site\<lparr>si_dek := Some (replicate 32 (CHR ''z'')), si_token := \<lambda>k. Some (''o'' @ [char_of (48 + k)])\<rparr>"

lemma second_registration_takes_the_account:
  "let s0 = snd (demo_begin never (snd (demo_begin never (demo_accounts []))));
       (r1, s1) = demo_register demo_site 2 ''mine'' s0;
       (r2, s2) = demo_register other_site 3 ''theirs'' s1
   in rp_answer r1 = Signed_In 7 True \<and> load_creds False 7 s1 \<noteq> [] \<and>
      rp_answer r2 = Signed_In 7 True \<and> map wc_key (load_creds False 7 s2) = [''mine'', ''theirs''] \<and>
      map_option fst (kr_entry (ac_keys s1) 7) = Some demo_dek \<and>
      map_option fst (kr_entry (ac_keys s2) 7) = Some (replicate 32 (CHR ''z''))"
  by code_simp

text \<open>A read of the passkeys that fails lets a registration begin on an account that has some.\<close>

lemma unreadable_passkeys_admit_registration:
  "rp_answer (fst (demo_begin never (demo_accounts [demo_passkey]))) = Message ''an account with this email already exists'' \<and>
   rp_answer (fst (demo_begin (\<lambda>i j. i = 0 \<and> j = 1) (demo_accounts [demo_passkey]))) = Ceremony 2"
  by code_simp

text \<open>A recovery whose deletion of the sessions fails still answers with success.\<close>

lemma recovery_can_leave_sessions:
  "let s = (demo_accounts [demo_passkey])\<lparr>ac_auth := (ac_auth (demo_accounts []))\<lparr>sessions :=
          \<lparr>rows = [\<lparr>se_id = 1, se_hash = ''a'', se_user = 7, se_expires = 100, se_absolute = 0\<rparr>], next_key = 2\<rparr>\<rparr>\<rparr>;
       (r, s') = demo_recovery (\<lambda>i j. i = 2) s
   in rp_status r = 200 \<and> fst (session_of no_faults 6 ''a'' s') \<noteq> None"
  by code_simp

end
