(* ===== verification/Task_Relations.thy ===== *)
theory Task_Relations
  imports Task_Store
begin

text \<open>
  Relations between tasks (\<open>db/repository/task_relation_repository.go\<close>): the guards of a
  new relation, the search for a dependency cycle, the lists of blocking and dependent
  tasks, and the batch summaries of the board.

  Transactions run one after the other.  \<open>flt\<close> says which fixed statement of a call fails,
  \<open>up\<close>, \<open>down\<close> and \<open>query\<close> which statement of the walks over the hierarchy and of the search.
  The summaries' \<open>sort.Slice\<close> is a stable sort here; the ids it sorts by are distinct.
\<close>

section \<open>Guards\<close>

text \<open>\<open>taskIsAncestor\<close>: at most 100 parents of the second task are looked at.\<close>

fun task_is_ancestor ::
  "faults \<Rightarrow> nat \<Rightarrow> nat \<Rightarrow> id \<Rightarrow> id \<Rightarrow> task_db \<Rightarrow> task_error dberr + bool" where
  "task_is_ancestor walk k 0 first current s = Inr False"
| "task_is_ancestor walk k (Suc hops) first current s =
     (if current = 0 then Inr False
      else case get_task (walk k) current s of
        Inl e \<Rightarrow> Inl e
      | Inr t \<Rightarrow>
          (case t_parent t of
             None \<Rightarrow> Inr False
           | Some p \<Rightarrow>
               if p = first then Inr True
               else task_is_ancestor walk (Suc k) hops first p s))"

definition next_dependencies :: "id \<Rightarrow> task_db \<Rightarrow> id list" where
  "next_dependencies current s =
     map tr_target (tbl_find (\<lambda>r. tr_source r = current \<and> tr_kind r = depends_on) (relations s))"

definition sources :: "task_db \<Rightarrow> id set" where
  "sources s = tr_source ` set (rows (relations s))"

lemma next_dependencies_Nil: "c \<notin> sources s \<Longrightarrow> next_dependencies c s = []"
  by (auto simp: next_dependencies_def tbl_find_def sources_def filter_empty_conv)

function dependency_search ::
  "faults \<Rightarrow> nat \<Rightarrow> id set \<Rightarrow> id list \<Rightarrow> id \<Rightarrow> task_db \<Rightarrow> task_error dberr + bool" where
  "dependency_search query k visited [] target s = Inr False"
| "dependency_search query k visited (current # frontier) target s =
     (if current = target then Inr True
      else if current \<in> visited then dependency_search query k visited frontier target s
      else if query k then Inl DbFault
      else dependency_search query (Suc k) (insert current visited)
             (frontier @ next_dependencies current s) target s)"
  by pat_completeness auto

termination
proof (relation "measures [\<lambda>(q, k, v, f, t, s). card (sources s - v), \<lambda>(q, k, v, f, t, s). length f]")
  fix query :: faults and k :: nat and visited :: "id set" and current target :: id
    and frontier :: "id list" and s :: task_db
  assume "current \<notin> visited"
  show "((query, Suc k, insert current visited, frontier @ next_dependencies current s, target, s),
      query, k, visited, current # frontier, target, s)
      \<in> measures [\<lambda>(q, k, v, f, t, s). card (sources s - v), \<lambda>(q, k, v, f, t, s). length f]"
  proof (cases "current \<in> sources s")
    case True
    then have "sources s - insert current visited \<subset> sources s - visited"
      using \<open>current \<notin> visited\<close> by blast
    moreover have "finite (sources s - visited)" by (simp add: sources_def)
    ultimately have "card (sources s - insert current visited) < card (sources s - visited)"
      by (rule psubset_card_mono [rotated])
    then show ?thesis by simp
  next
    case False
    then have "sources s - insert current visited = sources s - visited" by blast
    then show ?thesis using next_dependencies_Nil [OF False] by simp
  qed
qed auto

definition dependency_path_exists ::
  "faults \<Rightarrow> id \<Rightarrow> id \<Rightarrow> task_db \<Rightarrow> task_error dberr + bool" where
  "dependency_path_exists query from_id target s = dependency_search query 0 {} [from_id] target s"

section \<open>Creating and deleting relations\<close>

text \<open>The two hierarchy checks and the cycle check, for a dependency.\<close>

definition dependency_guard ::
  "faults \<Rightarrow> faults \<Rightarrow> faults \<Rightarrow> task \<Rightarrow> task \<Rightarrow> task_db \<Rightarrow> task_error dberr option" where
  "dependency_guard up down query source target s =
     (case task_is_ancestor up 0 100 (t_id source) (t_id target) s of
        Inl e \<Rightarrow> Some e
      | Inr a \<Rightarrow>
          (case (if \<not> a then task_is_ancestor down 0 100 (t_id target) (t_id source) s else Inr a) of
             Inl e \<Rightarrow> Some e
           | Inr ancestor \<Rightarrow>
               if ancestor then Some (Refused Hierarchy)
               else (case dependency_path_exists query (t_id target) (t_id source) s of
                       Inl e \<Rightarrow> Some e
                     | Inr cycle \<Rightarrow> if cycle then Some (Refused Cycle) else None)))"

definition canonical_ends :: "task_relation \<Rightarrow> task_relation" where
  "canonical_ends r =
     (if tr_kind r = related_to \<and> tr_source r > tr_target r
      then r\<lparr>tr_source := tr_target r, tr_target := tr_source r\<rparr> else r)"

definition create_relation_body ::
  "faults \<Rightarrow> faults \<Rightarrow> faults \<Rightarrow> faults \<Rightarrow> task_relation \<Rightarrow>
   (task_db, task_error, task_relation) db_op" where
  "create_relation_body flt up down query relation s =
     (case get_task (flt 0) (tr_source relation) s of
        Inl e \<Rightarrow> (Inl e, s)
      | Inr source \<Rightarrow>
     (case get_task (flt 1) (tr_target relation) s of
        Inl e \<Rightarrow> (Inl e, s)
      | Inr target \<Rightarrow>
        if t_id source = t_id target then (Inl (Refused SelfRelation), s)
        else if t_company source \<noteq> t_company target then (Inl (Refused OtherCompany), s)
        else if tr_kind relation \<noteq> depends_on \<and> tr_kind relation \<noteq> related_to
        then (Inl (Refused BadKind), s)
        else if tr_kind relation = depends_on \<and> t_run source \<noteq> None
        then (Inl (Refused ActiveRun), s)
        else (let relation = (canonical_ends relation)\<lparr>tr_company := t_company source\<rparr>
              in case (if tr_kind relation = depends_on
                       then dependency_guard up down query source target s else None) of
                   Some e \<Rightarrow> (Inl e, s)
                 | None \<Rightarrow>
                     if flt 2 then (Inl DbFault, s)
                     else if tbl_first (\<lambda>r. tr_source r = tr_source relation \<and>
                               tr_target r = tr_target relation \<and> tr_kind r = tr_kind relation)
                            (relations s) \<noteq> None
                     then (Inl (Refused Duplicate), s)
                     else if flt 3 then (Inl DbFault, s)
                     else (case tbl_create set_tr_id relation (relations s) of
                             (r, t) \<Rightarrow> (Inr r, s\<lparr>relations := t\<rparr>)))))"

definition create_task_relation ::
  "faults \<Rightarrow> faults \<Rightarrow> faults \<Rightarrow> faults \<Rightarrow> task_relation \<Rightarrow>
   (task_db, task_error, task_relation) db_op" where
  "create_task_relation flt up down query relation =
     transaction (flt 4) (create_relation_body flt up down query relation)"

definition delete_task_relation :: "bool \<Rightarrow> id \<Rightarrow> (task_db, task_error, unit) db_op" where
  "delete_task_relation fault i s =
     (if fault then (Inl DbFault, s)
      else (Inr (), s\<lparr>relations := tbl_delete (\<lambda>r. tr_id r = i) (relations s)\<rparr>))"

definition delete_task_relations_for_task :: "bool \<Rightarrow> id \<Rightarrow> (task_db, task_error, unit) db_op" where
  "delete_task_relations_for_task fault i s =
     (if fault then (Inl DbFault, s)
      else (Inr (), s\<lparr>relations := tbl_delete (\<lambda>r. tr_source r = i \<or> tr_target r = i) (relations s)\<rparr>))"

section \<open>Lists\<close>

definition get_task_relation :: "id \<Rightarrow> task_db \<Rightarrow> task_error dberr + task_relation" where
  "get_task_relation i s =
     (case tbl_get tr_id i (relations s) of None \<Rightarrow> Inl NotFound | Some r \<Rightarrow> Inr r)"

definition list_task_relations :: "id \<Rightarrow> task_db \<Rightarrow> task_relation list" where
  "list_task_relations i s = tbl_find (\<lambda>r. tr_source r = i \<or> tr_target r = i) (relations s)"

text \<open>The inner join of relations with the task at one of their ends.\<close>

definition joined :: "(task_relation \<Rightarrow> id) \<Rightarrow> (task_relation \<Rightarrow> bool) \<Rightarrow> task_db \<Rightarrow> task list" where
  "joined end_of p s =
     List.map_filter (\<lambda>r. tbl_get t_id (end_of r) (tasks s)) (tbl_find p (relations s))"

definition list_blocking_dependencies :: "id \<Rightarrow> task_db \<Rightarrow> task list" where
  "list_blocking_dependencies i s =
     sort_key t_id (filter (\<lambda>t. t_status t \<noteq> status_done)
       (joined tr_target (\<lambda>r. tr_source r = i \<and> tr_kind r = depends_on) s))"

definition list_dependent_tasks :: "id \<Rightarrow> task_db \<Rightarrow> task list" where
  "list_dependent_tasks i s =
     sort_key t_id (joined tr_source (\<lambda>r. tr_target r = i \<and> tr_kind r = depends_on) s)"

definition list_queued_tasks_for_reconciliation :: "task_db \<Rightarrow> task list" where
  "list_queued_tasks_for_reconciliation s =
     tbl_find (\<lambda>t. t_status t \<in> {status_todo, status_in_progress, status_depends_on_task} \<and>
                 t_run t = None) (tasks s)"

definition can_start_task :: "id \<Rightarrow> task_db \<Rightarrow> bool \<times> task list" where
  "can_start_task i s =
     (let blockers = list_blocking_dependencies i s in (length blockers = 0, blockers))"

section \<open>Board summaries\<close>

record relation_task =
  rk_id :: id
  rk_ref_key :: string
  rk_title :: string
  rk_status :: string

record relation_summary =
  sm_depends_on :: "relation_task list"
  sm_blocked_by :: "relation_task list"
  sm_blocks :: "relation_task list"
  sm_related_to :: "relation_task list"

definition brief :: "task \<Rightarrow> relation_task" where
  "brief t = \<lparr>rk_id = t_id t, rk_ref_key = t_ref_key t, rk_title = t_title t,
     rk_status = t_status t\<rparr>"

definition empty_summary :: relation_summary where
  "empty_summary = \<lparr>sm_depends_on = [], sm_blocked_by = [], sm_blocks = [], sm_related_to = []\<rparr>"

type_synonym summaries = "id \<Rightarrow> relation_summary option"

definition add_to :: "id \<Rightarrow> (relation_summary \<Rightarrow> relation_summary) \<Rightarrow> summaries \<Rightarrow> summaries" where
  "add_to i f m = m(i \<mapsto> f (case m i of None \<Rightarrow> empty_summary | Some sm \<Rightarrow> sm))"

definition source_entry :: "id set \<Rightarrow> (id \<Rightarrow> relation_task option) \<Rightarrow> task_relation \<Rightarrow> summaries \<Rightarrow> summaries"
where
  "source_entry requested by_id r m =
     (case by_id (tr_target r) of
        None \<Rightarrow> m
      | Some target \<Rightarrow>
          if tr_source r \<notin> requested then m
          else if tr_kind r = depends_on
          then add_to (tr_source r) (\<lambda>sm.
                 (let sm = sm\<lparr>sm_depends_on := sm_depends_on sm @ [target]\<rparr>
                  in if rk_status target \<noteq> status_done
                     then sm\<lparr>sm_blocked_by := sm_blocked_by sm @ [target]\<rparr> else sm)) m
          else if tr_kind r = related_to
          then add_to (tr_source r) (\<lambda>sm. sm\<lparr>sm_related_to := sm_related_to sm @ [target]\<rparr>) m
          else m)"

definition target_entry :: "id set \<Rightarrow> (id \<Rightarrow> relation_task option) \<Rightarrow> task_relation \<Rightarrow> summaries \<Rightarrow> summaries"
where
  "target_entry requested by_id r m =
     (case by_id (tr_source r) of
        None \<Rightarrow> m
      | Some source \<Rightarrow>
          if tr_target r \<notin> requested then m
          else if tr_kind r = depends_on
          then add_to (tr_target r) (\<lambda>sm. sm\<lparr>sm_blocks := sm_blocks sm @ [source]\<rparr>) m
          else if tr_kind r = related_to
          then add_to (tr_target r) (\<lambda>sm. sm\<lparr>sm_related_to := sm_related_to sm @ [source]\<rparr>) m
          else m)"

definition sort_summary :: "relation_summary \<Rightarrow> relation_summary" where
  "sort_summary sm = \<lparr>sm_depends_on = sort_key rk_id (sm_depends_on sm),
     sm_blocked_by = sort_key rk_id (sm_blocked_by sm), sm_blocks = sort_key rk_id (sm_blocks sm),
     sm_related_to = sort_key rk_id (sm_related_to sm)\<rparr>"

definition list_task_relation_summaries ::
  "faults \<Rightarrow> id list \<Rightarrow> task_db \<Rightarrow> task_error dberr + summaries" where
  "list_task_relation_summaries flt task_ids s =
     (if length task_ids = 0 then Inr (\<lambda>_. None)
      else (let ids = {i \<in> set task_ids. i \<noteq> 0};
                result = (\<lambda>i. if i \<in> ids then Some empty_summary else None)
            in if flt 0 then Inl DbFault
               else (let rels = tbl_find (\<lambda>r. (tr_source r \<in> ids \<or> tr_target r \<in> ids) \<and>
                                   tr_kind r \<in> {depends_on, related_to}) (relations s);
                         lookup = tr_source ` set rels \<union> tr_target ` set rels
                     in if lookup \<noteq> {} \<and> flt 1 then Inl DbFault
                        else (let by_id = (\<lambda>i. if i \<in> lookup
                                               then map_option brief (tbl_get t_id i (tasks s))
                                               else None);
                                  result = fold (\<lambda>r m. target_entry ids by_id r
                                                  (source_entry ids by_id r m)) rels result
                              in Inr (\<lambda>i. map_option sort_summary (result i))))))"

section \<open>The dependency graph\<close>

definition dep_edges :: "task_db \<Rightarrow> (id \<times> id) set" where
  "dep_edges s =
     {(tr_source r, tr_target r) | r. r \<in> set (rows (relations s)) \<and> tr_kind r = depends_on}"

lemma set_next_dependencies: "set (next_dependencies c s) = {w. (c, w) \<in> dep_edges s}"
  by (auto simp: next_dependencies_def dep_edges_def tbl_find_def)

text \<open>A path that starts in the closed set and ends outside it goes through the frontier.\<close>

lemma leave_visited:
  assumes "(v, t) \<in> E\<^sup>*" and "v \<in> visited" and "t \<notin> visited"
    and "\<And>v w. v \<in> visited \<Longrightarrow> (v, w) \<in> E \<Longrightarrow> w \<in> visited \<or> w \<in> F"
  shows "\<exists>x \<in> F - visited. (x, t) \<in> E\<^sup>*"
  using assms(1,2)
proof (induction rule: converse_rtrancl_induct)
  case base
  then show ?case using assms(3) by blast
next
  case (step v w)
  show ?case
  proof (cases "w \<in> visited")
    case True
    then show ?thesis by (rule step.IH)
  next
    case False
    then have "w \<in> F" using assms(4) [OF step.prems step.hyps(1)] by blast
    then show ?thesis using False step.hyps(2) by blast
  qed
qed

lemma dependency_search_reach:
  assumes "dependency_search query k visited frontier target s = Inr b"
    and "target \<notin> visited"
    and "\<And>v w. v \<in> visited \<Longrightarrow> (v, w) \<in> dep_edges s \<Longrightarrow> w \<in> visited \<union> set frontier"
  shows "b \<longleftrightarrow> (\<exists>x \<in> set frontier. (x, target) \<in> (dep_edges s)\<^sup>*)"
  using assms
proof (induction query k visited frontier target s rule: dependency_search.induct)
  case (1 query k visited target s)
  then show ?case by simp
next
  case (2 query k visited c frontier target s)
  let ?E = "(dep_edges s)\<^sup>*"
  consider "c = target" | "c \<noteq> target" "c \<in> visited" | "c \<noteq> target" "c \<notin> visited" by blast
  then show ?case
  proof cases
    case 1
    then show ?thesis using "2.prems"(1) by auto
  next
    case no: 2
    have IH: "b \<longleftrightarrow> (\<exists>x \<in> set frontier. (x, target) \<in> ?E)"
      using no "2.prems" by (intro "2.IH"(1)) auto
    have "\<exists>x \<in> set frontier. (x, target) \<in> ?E" if "(c, target) \<in> ?E"
      using leave_visited [OF that no(2) "2.prems"(2), of "set (c # frontier)"] "2.prems"(3) no(2)
      by auto
    with IH show ?thesis by auto
  next
    case no: 3
    then have q: "\<not> query k" using "2.prems"(1) by auto
    have "b \<longleftrightarrow> (\<exists>x \<in> set (frontier @ next_dependencies c s). (x, target) \<in> ?E)"
    proof (rule "2.IH"(2) [OF no q])
      show "dependency_search query (Suc k) (insert c visited) (frontier @ next_dependencies c s)
          target s = Inr b"
        using "2.prems"(1) no q by simp
      show "target \<notin> insert c visited" using "2.prems"(2) no(1) by blast
      show "w \<in> insert c visited \<union> set (frontier @ next_dependencies c s)"
        if "v \<in> insert c visited" "(v, w) \<in> dep_edges s" for v w
        using that "2.prems"(3) by (auto simp: set_next_dependencies)
    qed
    moreover have "(c, target) \<in> ?E \<longleftrightarrow> (\<exists>w. (c, w) \<in> dep_edges s \<and> (w, target) \<in> ?E)"
      using no(1) by (metis converse_rtranclE converse_rtrancl_into_rtrancl)
    ultimately show ?thesis by (auto simp: set_next_dependencies)
  qed
qed

lemma dependency_search_no_fault:
  "(\<And>n. \<not> query n) \<Longrightarrow> \<exists>b. dependency_search query k visited frontier target s = Inr b"
  by (induction query k visited frontier target s rule: dependency_search.induct) auto

lemma dependency_path_correct:
  "dependency_path_exists query a b s = Inr c \<Longrightarrow> c \<longleftrightarrow> (a, b) \<in> (dep_edges s)\<^sup>*"
  unfolding dependency_path_exists_def by (drule dependency_search_reach) auto

section \<open>The invariant\<close>

text \<open>
  The dependencies form no cycle, no two rows relate the same tasks in the same way, and
  every row joins two different existing tasks, a symmetric relation in ascending order.
\<close>

definition relation_ok :: "task_db \<Rightarrow> task_relation \<Rightarrow> bool" where
  "relation_ok s r \<longleftrightarrow> tr_source r \<noteq> tr_target r \<and> tr_kind r \<in> {depends_on, related_to} \<and>
     (tr_kind r = related_to \<longrightarrow> tr_source r < tr_target r) \<and>
     tbl_get t_id (tr_source r) (tasks s) \<noteq> None \<and> tbl_get t_id (tr_target r) (tasks s) \<noteq> None"

definition triple :: "task_relation \<Rightarrow> id \<times> id \<times> string" where
  "triple r = (tr_source r, tr_target r, tr_kind r)"

definition relations_ok :: "task_db \<Rightarrow> bool" where
  "relations_ok s \<longleftrightarrow> acyclic (dep_edges s) \<and> distinct (map triple (rows (relations s))) \<and>
     (\<forall>r \<in> set (rows (relations s)). relation_ok s r)"

lemma canonical_ends_fields [simp]:
  "tr_kind (canonical_ends r) = tr_kind r"
  "tr_kind r = depends_on \<Longrightarrow> canonical_ends r = r"
  by (auto simp: canonical_ends_def depends_on_def related_to_def)

text \<open>What a successful creation establishes.\<close>

lemma create_relation_success:
  assumes "create_task_relation flt up down query rel s = (Inr r, s')"
  obtains source target n where
    "get_task False (tr_source rel) s = Inr source" "get_task False (tr_target rel) s = Inr target"
    "t_id source \<noteq> t_id target" "t_company source = t_company target"
    "tr_kind rel \<in> {depends_on, related_to}"
    "tr_kind rel = depends_on \<Longrightarrow> t_run source = None"
    "tr_kind rel = depends_on \<Longrightarrow> dependency_guard up down query source target s = None"
    "n = (canonical_ends rel)\<lparr>tr_company := t_company source\<rparr>"
    "triple n \<notin> triple ` set (rows (relations s))"
    "r = n\<lparr>tr_id := next_key (relations s)\<rparr>"
    "s' = s\<lparr>relations := snd (tbl_create set_tr_id n (relations s))\<rparr>"
proof -
  have body: "create_relation_body flt up down query rel s = (Inr r, s')"
    using assms by (simp add: create_task_relation_def transaction_success_body)
  obtain source where src: "get_task (flt 0) (tr_source rel) s = Inr source"
    using body by (auto simp: create_relation_body_def split: sum.splits)
  obtain target where tgt: "get_task (flt 1) (tr_target rel) s = Inr target"
    using body src by (auto simp: create_relation_body_def split: sum.splits)
  have g: "get_task False (tr_source rel) s = Inr source" "get_task False (tr_target rel) s = Inr target"
    using src tgt by (auto simp: get_task_def split: if_splits)
  let ?n = "(canonical_ends rel)\<lparr>tr_company := t_company source\<rparr>"
  note b = body [unfolded create_relation_body_def src tgt sum.case Let_def]
  have c: "t_id source \<noteq> t_id target" "t_company source = t_company target"
    "tr_kind rel \<in> {depends_on, related_to}" "tr_kind rel = depends_on \<Longrightarrow> t_run source = None"
    using b by (auto split: if_splits)
  have guard: "tr_kind rel = depends_on \<Longrightarrow> dependency_guard up down query source target s = None"
    using b c by (auto split: if_splits option.splits)
  have none: "(if tr_kind ?n = depends_on then dependency_guard up down query source target s else None) = None"
    using guard by simp
  have c': "\<not> (tr_kind rel \<noteq> depends_on \<and> tr_kind rel \<noteq> related_to)"
    "\<not> (tr_kind rel = depends_on \<and> t_run source \<noteq> None)" "\<not> t_company source \<noteq> t_company target"
    using c by auto
  note b' = b [unfolded none if_not_P [OF c(1)] if_not_P [OF c'(1)] if_not_P [OF c'(2)]
      if_not_P [OF c'(3)] option.case]
  have fresh: "tbl_first (\<lambda>r. tr_source r = tr_source ?n \<and> tr_target r = tr_target ?n \<and>
      tr_kind r = tr_kind ?n) (relations s) = None"
    using b' by (auto split: if_splits)
  have "(case tbl_create set_tr_id ?n (relations s) of (r, t) \<Rightarrow> (Inr r, s\<lparr>relations := t\<rparr>)) =
      (Inr r :: task_error dberr + task_relation, s')"
    using b' fresh by (auto split: if_splits)
  then have r: "r = ?n\<lparr>tr_id := next_key (relations s)\<rparr>"
    "s' = s\<lparr>relations := snd (tbl_create set_tr_id ?n (relations s))\<rparr>"
    by (auto simp: case_prod_beta)
  have "triple ?n \<notin> triple ` set (rows (relations s))"
    using fresh by (auto simp: tbl_first_None_iff triple_def)
  then show ?thesis using that [OF g c(1-4) guard refl _ r] by blast
qed

lemma guard_no_path:
  assumes "dependency_guard up down query source target s = None"
  shows "(t_id target, t_id source) \<notin> (dep_edges s)\<^sup>*"
  using assms dependency_path_correct [of query "t_id target" "t_id source" s]
  by (auto simp: dependency_guard_def split: sum.splits if_splits)

lemma dep_edges_append:
  "rows (relations s') = rows (relations s) @ [r] \<Longrightarrow>
   dep_edges s' = dep_edges s \<union> (if tr_kind r = depends_on then {(tr_source r, tr_target r)} else {})"
  by (auto simp: dep_edges_def)

lemma relations_ok_create:
  assumes "relations_ok s" and "create_task_relation flt up down query rel s = (Inr r, s')"
  shows "relations_ok s'"
proof -
  obtain source target n where c:
    "get_task False (tr_source rel) s = Inr source" "get_task False (tr_target rel) s = Inr target"
    "t_id source \<noteq> t_id target" "t_company source = t_company target"
    "tr_kind rel \<in> {depends_on, related_to}"
    "tr_kind rel = depends_on \<Longrightarrow> t_run source = None"
    "tr_kind rel = depends_on \<Longrightarrow> dependency_guard up down query source target s = None"
    "n = (canonical_ends rel)\<lparr>tr_company := t_company source\<rparr>"
    "triple n \<notin> triple ` set (rows (relations s))"
    "r = n\<lparr>tr_id := next_key (relations s)\<rparr>"
    "s' = s\<lparr>relations := snd (tbl_create set_tr_id n (relations s))\<rparr>"
    using assms(2) by (rule create_relation_success) blast
  have ids: "tbl_get t_id (tr_source rel) (tasks s) = Some source" "t_id source = tr_source rel"
    "tbl_get t_id (tr_target rel) (tasks s) = Some target" "t_id target = tr_target rel"
    using c(1,2) by (auto simp: get_task_def dest: task_rows.get_Some_D split: option.splits)
  have rows: "rows (relations s') = rows (relations s) @ [r]" by (simp add: c(10,11))
  have r: "triple r = triple n" "tr_kind r = tr_kind rel" by (simp_all add: c(8,10) triple_def)
  have ends: "tr_kind rel = depends_on \<Longrightarrow> tr_source r = tr_source rel \<and> tr_target r = tr_target rel"
    by (simp add: c(8,10))
  have ok: "relation_ok s' r"
    using c(3,5) ids r(2) unfolding relation_ok_def c(11)
    by (auto simp: c(8,10) canonical_ends_def depends_on_def related_to_def)
  have "acyclic (dep_edges s')"
  proof (cases "tr_kind rel = depends_on")
    case True
    have "dep_edges s' = insert (tr_source rel, tr_target rel) (dep_edges s)"
      using ends [OF True] r(2) True dep_edges_append [OF rows] by simp
    moreover have "(tr_target rel, tr_source rel) \<notin> (dep_edges s)\<^sup>*"
      using guard_no_path [OF c(7) [OF True]] ids by simp
    ultimately show ?thesis
      using assms(1) acyclic_insert by (auto simp: relations_ok_def)
  next
    case False
    then have "dep_edges s' = dep_edges s" using r(2) dep_edges_append [OF rows] by simp
    then show ?thesis using assms(1) by (simp add: relations_ok_def)
  qed
  moreover have "distinct (map triple (rows (relations s')))"
    using assms(1) c(9) by (auto simp: rows relations_ok_def r(1))
  moreover have "relation_ok s' x" if "relation_ok s x" for x
    using that by (simp add: relation_ok_def c(11))
  ultimately show ?thesis
    using assms(1) ok by (auto simp: relations_ok_def rows)
qed

text \<open>Removing relations, and changing tasks without removing any, keeps the invariant.\<close>

lemma relations_ok_subset:
  assumes "relations_ok s" and "rows (relations s') = filter p (rows (relations s))"
    and "\<And>r. r \<in> set (rows (relations s')) \<Longrightarrow> relation_ok s r \<Longrightarrow> relation_ok s' r"
  shows "relations_ok s'"
proof -
  have "dep_edges s' \<subseteq> dep_edges s" using assms(2) by (auto simp: dep_edges_def)
  then have "acyclic (dep_edges s')" using assms(1) acyclic_subset by (auto simp: relations_ok_def)
  moreover have "distinct (map triple (rows (relations s')))"
    using assms(1,2) by (simp add: relations_ok_def distinct_map_filter)
  moreover have "set (rows (relations s')) \<subseteq> set (rows (relations s))" using assms(2) by auto
  ultimately show ?thesis using assms(1,3) by (auto simp: relations_ok_def)
qed

lemma task_exec_relations:
  "rows (relations (task_exec op s)) =
   filter (\<lambda>r. case op of TDelete False i \<Rightarrow> \<not> (tr_source r = i \<or> tr_target r = i) | _ \<Rightarrow> True)
     (rows (relations s))"
proof (cases op)
  case (TCreate fuel flt kw rw t)
  show ?thesis
  proof (cases "create_task fuel flt kw rw t s")
    case (Some p)
    then obtain r s' where p: "p = (r, s')" by force
    with Some create_task_renamed [of fuel flt kw rw t s r s'] have "relations s' = relations s"
      by (auto simp: renamed_def inserted_def)
    then show ?thesis using Some p by (simp add: TCreate)
  qed (simp add: TCreate)
next
  case (TBranch flt walk t)
  then show ?thesis using renamed_ensure [of s flt walk t] by (simp add: renamed_def)
next
  case (TDelete f i)
  then show ?thesis by (cases f) (simp_all add: delete_task_def)
qed (auto simp: task_op_defs update_task_def Let_def)

lemma task_exec_present:
  assumes "tbl_get t_id i (tasks s) \<noteq> None" and "op \<noteq> TDelete False i"
  shows "tbl_get t_id i (tasks (task_exec op s)) \<noteq> None"
proof -
  obtain t where t: "tbl_get t_id i (tasks s) = Some t" using assms(1) by blast
  show ?thesis
  proof (cases op)
    case (TCreate fuel flt kw rw u)
    show ?thesis
    proof (cases "create_task fuel flt kw rw u s")
      case (Some p)
      then obtain r s' where p: "p = (r, s')" by force
      with Some consider "s' = s" | "renamed (inserted u s) s'" using create_task_renamed by blast
      then show ?thesis
        by cases (use Some t p renamed_get [OF _ get_inserted [OF t]] in \<open>auto simp: TCreate\<close>)
    qed (use t TCreate in simp)
  next
    case (TSave flt now u)
    then show ?thesis using t by (auto simp: update_task_def Let_def task_rows.get_save)
  next
    case (TBranch flt walk u)
    then show ?thesis using renamed_get [OF renamed_ensure [of s flt walk u] t] by auto
  qed (use assms(2) t in \<open>auto simp: task_op_defs Let_def task_rows.get_update task_rows.get_delete\<close>)
qed

lemma relations_ok_task_exec:
  assumes "relations_ok s"
  shows "relations_ok (task_exec op s)"
proof (rule relations_ok_subset [OF assms task_exec_relations])
  fix r
  assume r: "r \<in> set (rows (relations (task_exec op s)))" "relation_ok s r"
  then have "op \<noteq> TDelete False (tr_source r)" "op \<noteq> TDelete False (tr_target r)"
    unfolding task_exec_relations by (auto split: task_op.splits bool.splits)
  then show "relation_ok (task_exec op s) r"
    using r(2) task_exec_present by (simp add: relation_ok_def)
qed

section \<open>Histories\<close>

datatype relation_op =
    RCreate faults faults faults faults task_relation
  | RDelete bool id
  | RDeleteForTask bool id
  | RTask task_op

fun relation_exec :: "relation_op \<Rightarrow> task_db \<Rightarrow> task_db" where
  "relation_exec (RCreate flt up down query r) s = snd (create_task_relation flt up down query r s)"
| "relation_exec (RDelete f i) s = snd (delete_task_relation f i s)"
| "relation_exec (RDeleteForTask f i) s = snd (delete_task_relations_for_task f i s)"
| "relation_exec (RTask op) s = task_exec op s"

lemma relations_ok_exec:
  assumes "relations_ok s"
  shows "relations_ok (relation_exec op s)"
proof (cases op)
  case (RCreate flt up down query r)
  show ?thesis
  proof (cases "create_task_relation flt up down query r s")
    case (Pair res s')
    show ?thesis
    proof (cases res)
      case (Inl e)
      then have "s' = s"
        using Pair unfolding create_task_relation_def by (metis transaction_error_frame)
      then show ?thesis using Pair assms by (simp add: RCreate)
    next
      case (Inr x)
      then show ?thesis using relations_ok_create [OF assms] Pair by (simp add: RCreate)
    qed
  qed
next
  case (RDelete f i)
  show ?thesis
    by (cases f)
      (use assms in \<open>auto simp: RDelete delete_task_relation_def relation_ok_def
        intro!: relations_ok_subset [OF assms, where p = "\<lambda>r. tr_id r \<noteq> i"]\<close>)
next
  case (RDeleteForTask f i)
  show ?thesis
    by (cases f)
      (use assms in \<open>auto simp: RDeleteForTask delete_task_relations_for_task_def relation_ok_def
        intro!: relations_ok_subset [OF assms,
          where p = "\<lambda>r. \<not> (tr_source r = i \<or> tr_target r = i)"]\<close>)
next
  case (RTask top)
  then show ?thesis using relations_ok_task_exec [OF assms] by simp
qed

lemma relations_ok_run: "relations_ok s \<Longrightarrow> relations_ok (fold relation_exec ops s)"
  by (induction ops arbitrary: s) (simp_all add: relations_ok_exec)

section \<open>Lemmas on the lists\<close>

lemma set_blocking:
  "set (list_blocking_dependencies i s) =
   {t. t_status t \<noteq> status_done \<and> (\<exists>j. (i, j) \<in> dep_edges s \<and> tbl_get t_id j (tasks s) = Some t)}"
  by (force simp: list_blocking_dependencies_def joined_def List.map_filter_def tbl_find_def
      dep_edges_def)

lemma insort_key_map: "insort_key f (g x) (map g ys) = map g (insort_key (\<lambda>y. f (g y)) x ys)"
  by (induction ys) auto

lemma sort_key_map: "sort_key f (map g xs) = map g (sort_key (\<lambda>x. f (g x)) xs)"
  by (induction xs) (simp_all add: insort_key_map)

definition blocked_list :: "summaries \<Rightarrow> id \<Rightarrow> relation_task list" where
  "blocked_list m i = (case m i of None \<Rightarrow> [] | Some sm \<Rightarrow> sm_blocked_by sm)"

definition blocks_entry :: "(id \<Rightarrow> relation_task option) \<Rightarrow> id \<Rightarrow> task_relation \<Rightarrow> relation_task list" where
  "blocks_entry by_id i r =
     (if tr_source r = i \<and> tr_kind r = depends_on
      then (case by_id (tr_target r) of
              None \<Rightarrow> [] | Some t \<Rightarrow> if rk_status t \<noteq> status_done then [t] else [])
      else [])"

lemma rk_status_brief [simp]: "rk_status (brief t) = t_status t"
  by (simp add: brief_def)

lemma target_entry_blocked: "blocked_list (target_entry ids by_id r m) i = blocked_list m i"
  by (auto simp: target_entry_def add_to_def blocked_list_def empty_summary_def split: option.splits)

lemma source_entry_blocked:
  "i \<in> ids \<Longrightarrow> blocked_list (source_entry ids by_id r m) i = blocked_list m i @ blocks_entry by_id i r"
  by (auto simp: source_entry_def add_to_def blocked_list_def blocks_entry_def empty_summary_def
      Let_def depends_on_def related_to_def split: option.splits)

lemma entries_present:
  "m i \<noteq> None \<Longrightarrow> target_entry ids by_id r (source_entry ids by_id r m) i \<noteq> None"
  by (auto simp: target_entry_def source_entry_def add_to_def split: option.splits)

lemma fold_blocked:
  assumes "i \<in> ids" and "m i \<noteq> None"
  shows "blocked_list (fold (\<lambda>r m. target_entry ids by_id r (source_entry ids by_id r m)) rels m) i =
           blocked_list m i @ concat (map (blocks_entry by_id i) rels) \<and>
         fold (\<lambda>r m. target_entry ids by_id r (source_entry ids by_id r m)) rels m i \<noteq> None"
  using assms(2)
proof (induction rels arbitrary: m)
  case (Cons r rels)
  have "target_entry ids by_id r (source_entry ids by_id r m) i \<noteq> None"
    using Cons.prems by (rule entries_present)
  with Cons.IH [of "target_entry ids by_id r (source_entry ids by_id r m)"] show ?case
    using assms(1) by (simp add: target_entry_blocked source_entry_blocked)
qed simp

lemma entries_are_joined:
  assumes "\<And>r. r \<in> set L \<Longrightarrow> q r \<Longrightarrow> p r"
    and "\<And>r. r \<in> set L \<Longrightarrow> p r \<Longrightarrow> by_id (tr_target r) = map_option brief (get (tr_target r))"
    and "\<And>r. q r \<longleftrightarrow> tr_source r = i \<and> tr_kind r = depends_on"
  shows "concat (map (blocks_entry by_id i) (filter p L)) =
         map brief (filter (\<lambda>t. t_status t \<noteq> status_done)
           (List.map_filter (\<lambda>r. get (tr_target r)) (filter q L)))"
  using assms(1,2)
proof (induction L)
  case (Cons r L)
  have IH: "concat (map (blocks_entry by_id i) (filter p L)) =
      map brief (filter (\<lambda>t. t_status t \<noteq> status_done)
        (List.map_filter (\<lambda>r. get (tr_target r)) (filter q L)))"
    using Cons.prems by (intro Cons.IH) auto
  have "q r \<Longrightarrow> p r" "p r \<Longrightarrow> by_id (tr_target r) = map_option brief (get (tr_target r))"
    using Cons.prems by auto
  with IH assms(3) [of r] show ?case
    by (auto simp: blocks_entry_def [of by_id i r] map_filter_simps split: option.splits)
qed (simp add: map_filter_simps)

lemma summary_blocked:
  assumes "list_task_relation_summaries flt task_ids s = Inr m" and "i \<in> set task_ids" and "i \<noteq> 0"
  shows "\<exists>sm. m i = Some sm \<and> sm_blocked_by sm = map brief (list_blocking_dependencies i s)"
proof -
  let ?ids = "{i \<in> set task_ids. i \<noteq> 0}"
  let ?p = "\<lambda>r. (tr_source r \<in> ?ids \<or> tr_target r \<in> ?ids) \<and> tr_kind r \<in> {depends_on, related_to}"
  let ?q = "\<lambda>r. tr_source r = i \<and> tr_kind r = depends_on"
  let ?rels = "tbl_find ?p (relations s)"
  let ?lookup = "tr_source ` set ?rels \<union> tr_target ` set ?rels"
  let ?by_id = "\<lambda>i. if i \<in> ?lookup then map_option brief (tbl_get t_id i (tasks s)) else None"
  let ?m0 = "\<lambda>i. if i \<in> ?ids then Some empty_summary else None"
  let ?m1 = "fold (\<lambda>r m. target_entry ?ids ?by_id r (source_entry ?ids ?by_id r m)) ?rels ?m0"
  have i: "i \<in> ?ids" using assms(2,3) by simp
  have m: "m = (\<lambda>i. map_option sort_summary (?m1 i))"
    using assms(1,2) by (auto simp: list_task_relation_summaries_def Let_def split: if_splits)
  have "blocked_list ?m1 i = blocked_list ?m0 i @ concat (map (blocks_entry ?by_id i) ?rels) \<and>
      ?m1 i \<noteq> None"
    using i by (intro fold_blocked) auto
  moreover have "blocked_list ?m0 i = []" by (simp add: blocked_list_def empty_summary_def)
  ultimately obtain sm where sm: "?m1 i = Some sm"
      "sm_blocked_by sm = concat (map (blocks_entry ?by_id i) ?rels)"
    by (auto simp: blocked_list_def)
  have "concat (map (blocks_entry ?by_id i) ?rels) = map brief (filter (\<lambda>t. t_status t \<noteq> status_done)
      (joined tr_target ?q s))"
    unfolding joined_def tbl_find_def
    by (rule entries_are_joined [where q = ?q]) (use i in \<open>auto simp: tbl_find_def\<close>)
  then have "sm_blocked_by (sort_summary sm) = map brief (list_blocking_dependencies i s)"
    by (simp add: sort_summary_def sm(2) list_blocking_dependencies_def sort_key_map brief_def)
  then show ?thesis using sm(1) m by auto
qed

section \<open>Properties\<close>

lemma relations_ok_empty: "rows (relations s) = [] \<Longrightarrow> relations_ok s"
  by (simp add: relations_ok_def dep_edges_def acyclic_def)

definition demo_relation :: "id \<Rightarrow> id \<Rightarrow> string \<Rightarrow> task_relation" where
  "demo_relation a b kind =
     \<lparr>tr_id = 0, tr_company = 0, tr_source = a, tr_target = b, tr_kind = kind\<rparr>"

definition flat_db :: task_db where
  "flat_db = demo_db\<lparr>tasks := \<lparr>rows = [demo_task 1 None ''DEC-1'', demo_task 2 None ''DEC-2'',
     demo_task 3 None ''DEC-3''], next_key = 4\<rparr>\<rparr>"

definition chain_ops :: "relation_op list" where
  "chain_ops =
     [RCreate no_faults no_faults no_faults no_faults (demo_relation 1 2 depends_on),
      RCreate no_faults no_faults no_faults no_faults (demo_relation 2 3 depends_on),
      RCreate no_faults no_faults no_faults no_faults (demo_relation 3 1 depends_on)]"

text \<open>
  C13: starting without relations, every history of task and relation operations, whatever
  the database refuses in between, leaves the dependencies free of cycles, no two rows
  relating the same tasks in the same way, and every row joining two different existing
  tasks; and then no set of tasks waits for itself: from every unfinished task a chain of
  dependencies leads to an unfinished task that may start.
\<close>

theorem dependencies_never_deadlock:
  fixes ops :: "relation_op list" and s0 :: task_db
  assumes "rows (relations s0) = []"
  defines "s \<equiv> fold relation_exec ops s0"
  shows "relations_ok s \<and>
         (tbl_get t_id i (tasks s) = Some t \<longrightarrow> t_status t \<noteq> status_done \<longrightarrow>
            (\<exists>j u. (i, j) \<in> (dep_edges s)\<^sup>* \<and> tbl_get t_id j (tasks s) = Some u \<and>
                   t_status u \<noteq> status_done \<and> fst (can_start_task j s)))"
proof -
  have ok: "relations_ok s" unfolding s_def by (rule relations_ok_run [OF relations_ok_empty [OF assms(1)]])
  have "finite ((\<lambda>r. (tr_source r, tr_target r)) ` set (rows (relations s)))" by simp
  then have "finite (dep_edges s)" by (rule rev_finite_subset) (auto simp: dep_edges_def)
  then have "wf ((dep_edges s)\<inverse>)"
    using ok by (intro finite_acyclic_wf_converse) (auto simp: relations_ok_def)
  then have "\<forall>t. tbl_get t_id i (tasks s) = Some t \<longrightarrow> t_status t \<noteq> status_done \<longrightarrow>
      (\<exists>j u. (i, j) \<in> (dep_edges s)\<^sup>* \<and> tbl_get t_id j (tasks s) = Some u \<and>
             t_status u \<noteq> status_done \<and> fst (can_start_task j s))" for i
  proof (induction i rule: wf_induct_rule)
    case (less i)
    show ?case
    proof (intro allI impI)
      fix t
      assume t: "tbl_get t_id i (tasks s) = Some t" "t_status t \<noteq> status_done"
      show "\<exists>j u. (i, j) \<in> (dep_edges s)\<^sup>* \<and> tbl_get t_id j (tasks s) = Some u \<and>
             t_status u \<noteq> status_done \<and> fst (can_start_task j s)"
      proof (cases "list_blocking_dependencies i s = []")
        case True
        then show ?thesis using t by (auto simp: can_start_task_def)
      next
        case False
        then obtain u where "u \<in> set (list_blocking_dependencies i s)"
          by (cases "list_blocking_dependencies i s") auto
        then obtain k where k: "(i, k) \<in> dep_edges s" "tbl_get t_id k (tasks s) = Some u"
            "t_status u \<noteq> status_done"
          by (auto simp: set_blocking)
        then obtain j v where "(k, j) \<in> (dep_edges s)\<^sup>*" "tbl_get t_id j (tasks s) = Some v"
            "t_status v \<noteq> status_done" "fst (can_start_task j s)"
          using less.IH [of k] by blast
        then show ?thesis using k(1) by (meson converse_rtrancl_into_rtrancl)
      qed
    qed
  qed
  with ok show ?thesis by blast
qed

theorem dependencies_never_deadlock_witness:
  "relations_ok (fold relation_exec chain_ops flat_db) \<and>
   map tr_target (rows (relations (fold relation_exec chain_ops flat_db))) = [2, 3]"
proof -
  have "rows (relations flat_db) = []" by (simp add: flat_db_def demo_db_def)
  from dependencies_never_deadlock [OF this, of chain_ops, THEN conjunct1] show ?thesis
    by (rule conjI) code_simp
qed

text \<open>
  C31: the search for a dependency path always ends, and unless the database fails it
  answers true exactly when the second task can be reached from the first along
  dependencies.
\<close>

theorem dependency_search_decides_reachability:
  "(dependency_path_exists query a b s = Inr c \<longrightarrow> (c \<longleftrightarrow> (a, b) \<in> (dep_edges s)\<^sup>*)) \<and>
   dependency_path_exists no_faults a b s = Inr ((a, b) \<in> (dep_edges s)\<^sup>*)"
proof -
  obtain d where "dependency_path_exists no_faults a b s = Inr d"
    unfolding dependency_path_exists_def using dependency_search_no_fault [of no_faults] by blast
  then show ?thesis using dependency_path_correct by auto
qed

theorem dependency_search_decides_reachability_witness:
  "(1, 3) \<in> (dep_edges (fold relation_exec chain_ops flat_db))\<^sup>*"
proof -
  have "dependency_path_exists no_faults 1 3 (fold relation_exec chain_ops flat_db) = Inr True"
    by code_simp
  then show ?thesis
    using dependency_search_decides_reachability [THEN conjunct1] by blast
qed

text \<open>
  a refused or failed relation changes nothing; an accepted one adds exactly one row,
  between two different existing tasks of one company, which no row related in the same way
  before, with a symmetric relation stored in ascending order; a dependency is accepted only
  while the waiting task has no run, when neither task was found above the other in the
  hierarchy, and when the prerequisite does not already wait for it.
\<close>

theorem relation_created_only_if_allowed:
  assumes "create_task_relation flt up down query rel s = (res, s')"
  shows "case res of
           Inl e \<Rightarrow> s' = s
         | Inr r \<Rightarrow>
             (\<exists>source target.
                tbl_get t_id (tr_source rel) (tasks s) = Some source \<and>
                tbl_get t_id (tr_target rel) (tasks s) = Some target \<and>
                t_company source = t_company target \<and> tr_company r = t_company source \<and>
                tr_source r \<noteq> tr_target r \<and> {tr_source r, tr_target r} = {t_id source, t_id target} \<and>
                tasks s' = tasks s \<and> rows (relations s') = rows (relations s) @ [r] \<and>
                triple r \<notin> triple ` set (rows (relations s)) \<and>
                (tr_kind r = related_to \<longrightarrow> tr_source r < tr_target r) \<and>
                (tr_kind r = depends_on \<longrightarrow>
                   t_run source = None \<and> tr_source r = t_id source \<and>
                   task_is_ancestor up 0 100 (t_id source) (t_id target) s = Inr False \<and>
                   task_is_ancestor down 0 100 (t_id target) (t_id source) s = Inr False \<and>
                   (t_id target, t_id source) \<notin> (dep_edges s)\<^sup>*))"
proof (cases res)
  case (Inl e)
  then show ?thesis
    using assms unfolding create_task_relation_def by (auto dest: transaction_error_frame)
next
  case (Inr r)
  then have "create_task_relation flt up down query rel s = (Inr r, s')" using assms by simp
  then obtain source target n where c:
    "get_task False (tr_source rel) s = Inr source" "get_task False (tr_target rel) s = Inr target"
    "t_id source \<noteq> t_id target" "t_company source = t_company target"
    "tr_kind rel \<in> {depends_on, related_to}"
    "tr_kind rel = depends_on \<Longrightarrow> t_run source = None"
    "tr_kind rel = depends_on \<Longrightarrow> dependency_guard up down query source target s = None"
    "n = (canonical_ends rel)\<lparr>tr_company := t_company source\<rparr>"
    "triple n \<notin> triple ` set (rows (relations s))"
    "r = n\<lparr>tr_id := next_key (relations s)\<rparr>"
    "s' = s\<lparr>relations := snd (tbl_create set_tr_id n (relations s))\<rparr>"
    by (rule create_relation_success) blast
  have ids: "tbl_get t_id (tr_source rel) (tasks s) = Some source" "t_id source = tr_source rel"
    "tbl_get t_id (tr_target rel) (tasks s) = Some target" "t_id target = tr_target rel"
    using c(1,2) by (auto simp: get_task_def dest: task_rows.get_Some_D split: option.splits)
  have kind: "tr_kind r = tr_kind rel" by (simp add: c(8,10))
  have fresh: "triple r \<notin> triple ` set (rows (relations s))"
    using c(9) by (simp add: c(10) triple_def)
  have new: "tr_company r = t_company source" "tasks s' = tasks s"
    "rows (relations s') = rows (relations s) @ [r]"
    by (simp_all add: c(8,10,11))
  have ends: "{tr_source r, tr_target r} = {t_id source, t_id target}" "tr_source r \<noteq> tr_target r"
    "tr_kind r = related_to \<longrightarrow> tr_source r < tr_target r"
    using c(3) ids by (auto simp: c(8,10) canonical_ends_def depends_on_def related_to_def)
  have dep: "t_run source = None" "tr_source r = t_id source"
    "task_is_ancestor up 0 100 (t_id source) (t_id target) s = Inr False"
    "task_is_ancestor down 0 100 (t_id target) (t_id source) s = Inr False"
    "(t_id target, t_id source) \<notin> (dep_edges s)\<^sup>*" if "tr_kind r = depends_on"
    using that c(6,7) ids guard_no_path [OF c(7)] kind
    by (auto simp: c(8,10) dependency_guard_def split: sum.splits if_splits)
  show ?thesis
    unfolding Inr sum.case
    by (intro exI [of _ source] exI [of _ target] conjI impI)
      (fact ids c(4) new ends fresh ends(3) [rule_format] dep)+
qed

theorem relation_created_only_if_allowed_witness:
  "fst (create_task_relation no_faults no_faults no_faults no_faults (demo_relation 3 1 depends_on)
          (fold relation_exec (take 2 chain_ops) flat_db)) = Inl (Refused Cycle) \<and>
   snd (create_task_relation no_faults no_faults no_faults no_faults (demo_relation 3 1 depends_on)
          (fold relation_exec (take 2 chain_ops) flat_db)) =
     fold relation_exec (take 2 chain_ops) flat_db"
proof -
  let ?c = "create_task_relation no_faults no_faults no_faults no_faults (demo_relation 3 1 depends_on)
      (fold relation_exec (take 2 chain_ops) flat_db)"
  have e: "fst ?c = Inl (Refused Cycle)" by code_simp
  obtain res s' where c: "?c = (res, s')" by force
  with e have "res = Inl (Refused Cycle)" by simp
  with relation_created_only_if_allowed [OF c] c show ?thesis by simp
qed

text \<open>
  the board's batch summary and the check made before a run starts agree: for every
  requested task the summary lists as blocking exactly the unfinished prerequisites that
  the start check finds, in the same order, so a task may start exactly when its summary
  shows no blocker.
\<close>

theorem summary_agrees_with_start_check:
  assumes "list_task_relation_summaries flt task_ids s = Inr m" and "i \<in> set task_ids" and "i \<noteq> 0"
  shows "\<exists>sm. m i = Some sm \<and> sm_blocked_by sm = map brief (snd (can_start_task i s)) \<and>
           (fst (can_start_task i s) \<longleftrightarrow> sm_blocked_by sm = []) \<and>
           set (snd (can_start_task i s)) =
             {t. t_status t \<noteq> status_done \<and>
                 (\<exists>j. (i, j) \<in> dep_edges s \<and> tbl_get t_id j (tasks s) = Some t)}"
  using summary_blocked [OF assms] by (auto simp: can_start_task_def Let_def set_blocking)

theorem summary_agrees_with_start_check_witness:
  "\<exists>m sm. list_task_relation_summaries no_faults [1, 2] (fold relation_exec chain_ops flat_db) = Inr m \<and>
     m 1 = Some sm \<and>
     sm_blocked_by sm = map brief (snd (can_start_task 1 (fold relation_exec chain_ops flat_db)))"
proof -
  obtain m where "list_task_relation_summaries no_faults [1, 2] (fold relation_exec chain_ops flat_db) = Inr m"
    by (simp add: list_task_relation_summaries_def Let_def)
  from this summary_agrees_with_start_check [OF this, of 1] show ?thesis by auto
qed

end
