(* ===== verification/Comments.thy ===== *)
theory Comments
  imports Db_Table
begin

text \<open>
  Task comments (\<open>db/repository/comment_repository.go\<close>): creation, the conversation of a
  task, and the oldest question to a human that no human has answered yet.  The zero id
  marks no question in the code; it is None here, stored comments having a positive id.
\<close>

record comment =
  cm_id :: id
  cm_task :: id
  cm_author_type :: string
  cm_author :: "id option"
  cm_content :: string
  cm_type :: string
  cm_run :: "id option"
  cm_created :: instant

abbreviation set_cm_id :: "int \<Rightarrow> comment \<Rightarrow> comment" where
  "set_cm_id i c \<equiv> c\<lparr>cm_id := i\<rparr>"

interpretation comment_rows: keyed_rows cm_id set_cm_id
  by unfold_locales simp

type_synonym comment_table = "comment table"

definition create_comment :: "bool \<Rightarrow> instant \<Rightarrow> comment \<Rightarrow> (comment_table, unit, comment) db_op" where
  "create_comment fault now c t =
     (if fault then (Inl DbFault, t)
      else (case tbl_create set_cm_id (c\<lparr>cm_created := now\<rparr>) t of (c, t) \<Rightarrow> (Inr c, t)))"

definition list_comments_by_task :: "id \<Rightarrow> comment_table \<Rightarrow> comment list" where
  "list_comments_by_task i t = sort_key cm_created (tbl_find (\<lambda>c. cm_task c = i) t)"

definition list_all_comments :: "comment_table \<Rightarrow> comment list" where
  "list_all_comments t = rows t"

definition asks_user :: "comment \<Rightarrow> bool" where
  "asks_user c \<longleftrightarrow> cm_type c = ''ask_user'' \<and> cm_author_type c = ''agent''"

fun pending_in :: "comment option \<Rightarrow> comment list \<Rightarrow> comment option" where
  "pending_in pending [] = pending"
| "pending_in pending (c # cs) =
     pending_in
       (if asks_user c then (case pending of None \<Rightarrow> Some c | Some q \<Rightarrow> Some q)
        else case pending of
               None \<Rightarrow> None
             | Some q \<Rightarrow> if cm_author_type c = ''human'' \<and> cm_id c > cm_id q then None else Some q) cs"

definition find_pending_human_question ::
  "bool \<Rightarrow> id \<Rightarrow> comment_table \<Rightarrow> unit dberr + comment option" where
  "find_pending_human_question fault i t =
     (if fault then Inl DbFault else Inr (pending_in None (list_comments_by_task i t)))"

section \<open>What is pending\<close>

lemma pending_in_append: "pending_in p (cs @ ds) = pending_in (pending_in p cs) ds"
  by (induction p cs rule: pending_in.induct) auto

lemma pending_is_question:
  "pending_in p cs = Some q \<Longrightarrow> p = Some q \<or> q \<in> set cs \<and> asks_user q"
  by (induction p cs rule: pending_in.induct) (auto split: if_splits option.splits)

text \<open>A human comment younger than every question closes them all; a question opens one.\<close>

lemma human_comment_closes:
  assumes "\<forall>q \<in> set cs. cm_id q < cm_id c" and "cm_author_type c = ''human''"
  shows "pending_in None (cs @ [c]) = None"
proof (cases "pending_in None cs")
  case (Some q)
  then have "q \<in> set cs" using pending_is_question by blast
  then show ?thesis using assms Some by (auto simp: pending_in_append asks_user_def)
qed (use assms in \<open>simp add: pending_in_append asks_user_def\<close>)

lemma question_opens: "asks_user c \<Longrightarrow> pending_in None (cs @ [c]) \<noteq> None"
  by (auto simp: pending_in_append split: option.splits)

end
