(* ===== verification/Tenancy.thy ===== *)
theory Tenancy
  imports Account_Store Task_Relations Run_Store Comments
begin

text \<open>
  The HTTP API over the companies of a user (\<open>server/controllers/api.go\<close>, \<open>authz_mw.go\<close>,
  \<open>tasks.go\<close>, \<open>task_relations.go\<close>, and the handlers of comments, sprints and runs).  A handler
  takes the state and gives the reply, what it sets going besides the answer, and the new
  state; it is \<open>None\<close> when it does not return.  In a fault plan the first index counts the calls of
  a handler.  Git's check of a branch name and what encodes a status change are parameters; a due
  date arrives parsed.
\<close>

section \<open>State\<close>

text \<open>The rows keep the columns the checks and the listings below read.\<close>

record project =
  pj_id :: id
  pj_company :: id
  pj_name :: string

record sprint =
  sp_id :: id
  sp_company :: id
  sp_name :: string
  sp_goal :: string
  sp_start :: "instant option"
  sp_end :: "instant option"

record skill =
  sk_id :: id
  sk_company :: id
  sk_name :: string
  sk_path :: string

record mcp_server =
  ms_id :: id
  ms_name :: string
  ms_owner :: "id option"
  ms_builtin :: bool
  ms_project :: "id option"

record board =
  bd_gw :: gateway_db
  bd_projects :: "project table"
  bd_sprints :: "sprint table"
  bd_skills :: "skill table"
  bd_servers :: "mcp_server table"
  bd_accounts :: "mcp_account table"
  bd_comments :: comment_table

abbreviation bd_tasks :: "board \<Rightarrow> task_db" where
  "bd_tasks s \<equiv> task_store (gd_runs (bd_gw s))"

definition with_tasks :: "task_db \<Rightarrow> board \<Rightarrow> board" where
  "with_tasks t s =
     s\<lparr>bd_gw := (bd_gw s)\<lparr>gd_runs := (gd_runs (bd_gw s))\<lparr>task_store := t\<rparr>\<rparr>\<rparr>"

abbreviation set_sp_id :: "int \<Rightarrow> sprint \<Rightarrow> sprint" where
  "set_sp_id i r \<equiv> r\<lparr>sp_id := i\<rparr>"

interpretation sprint_rows: keyed_rows sp_id set_sp_id
  by unfold_locales simp

datatype view =
    V_Error string
  | V_Ok
  | V_Company company
  | V_Companies "company list"
  | V_Tasks "task list"
  | V_Task task
  | V_Runs "run list"
  | V_Run run bool
  | V_Queued id
  | V_Relation task_relation
  | V_Relations "(id \<times> relation_task) list" "(id \<times> relation_task) list"
      "(id \<times> relation_task) list" "(id \<times> relation_task) list"
  | V_Comments "comment list"
  | V_Comment comment
  | V_Sprints "sprint list"
  | V_Sprint sprint
  | V_Projects "project list"
  | V_Project project
  | V_Agents "agent list"
  | V_Agent agent

record response =
  rs_status :: nat
  rs_view :: view

abbreviation reject :: "nat \<Rightarrow> string \<Rightarrow> response" where
  "reject code msg \<equiv> \<lparr>rs_status = code, rs_view = V_Error msg\<rparr>"

abbreviation respond :: "nat \<Rightarrow> view \<Rightarrow> response" where
  "respond code v \<equiv> \<lparr>rs_status = code, rs_view = v\<rparr>"

text \<open>
  What a handler sets going: an event for a company, an entry of its activity log, an engine
  call, the git work of a status change, the directory of a task.
\<close>

datatype deed =
    Broadcast id string id
  | Activity id string id
  | Process id
  | Rerun id
  | Human_Reply id
  | Stop id
  | Git_Lifecycle task string
  | Task_Workspace id id

type_synonym api = "board \<Rightarrow> (response \<times> deed list \<times> board) option"
type_synonym plans = "nat \<Rightarrow> faults"

abbreviation answer_with :: "response \<Rightarrow> api" where
  "answer_with r s \<equiv> Some (r, [], s)"

section \<open>Authorization\<close>

definition authorize_company :: "faults \<Rightarrow> id \<Rightarrow> id \<Rightarrow> board \<Rightarrow> company option" where
  "authorize_company flt u i s =
     (case fetch (flt 0) co_id i (gd_companies (bd_gw s)) of
        None \<Rightarrow> None
      | Some c \<Rightarrow> if company_grants_user (flt 1) c u (bd_gw s) then Some c else None)"

definition scoped :: "faults \<Rightarrow> id \<Rightarrow> ('r \<Rightarrow> id) \<Rightarrow> 'r option \<Rightarrow> board \<Rightarrow> 'r option" where
  "scoped flt u company x s =
     (case x of
        None \<Rightarrow> None
      | Some r \<Rightarrow> (case authorize_company flt u (company r) s of None \<Rightarrow> None | Some _ \<Rightarrow> Some r))"

definition load_task_row :: "bool \<Rightarrow> id \<Rightarrow> board \<Rightarrow> task option" where
  "load_task_row fault i s = (case get_task fault i (bd_tasks s) of Inl _ \<Rightarrow> None | Inr t \<Rightarrow> Some t)"

definition authorize_task :: "plans \<Rightarrow> id \<Rightarrow> id \<Rightarrow> board \<Rightarrow> task option" where
  "authorize_task f u i s = scoped (f 1) u t_company (load_task_row (f 0 0) i s) s"

definition authorize_run :: "plans \<Rightarrow> id \<Rightarrow> id \<Rightarrow> board \<Rightarrow> run option" where
  "authorize_run f u i s =
     map_option fst (scoped (f 1) u (\<lambda>(r, t). t_company t) (get_run_with_task (f 0) i (bd_gw s)) s)"

definition authorize_agent :: "plans \<Rightarrow> id \<Rightarrow> id \<Rightarrow> board \<Rightarrow> agent option" where
  "authorize_agent f u i s = scoped (f 1) u ag_company (fetch (f 0 0) ag_id i (gd_agents (bd_gw s))) s"

definition authorize_project :: "plans \<Rightarrow> id \<Rightarrow> id \<Rightarrow> board \<Rightarrow> project option" where
  "authorize_project f u i s = scoped (f 1) u pj_company (fetch (f 0 0) pj_id i (bd_projects s)) s"

definition authorize_skill :: "plans \<Rightarrow> id \<Rightarrow> id \<Rightarrow> board \<Rightarrow> skill option" where
  "authorize_skill f u i s = scoped (f 1) u sk_company (fetch (f 0 0) sk_id i (bd_skills s)) s"

definition owned_by_user :: "id \<Rightarrow> id option \<Rightarrow> bool" where
  "owned_by_user u own \<longleftrightarrow> own = Some u"

definition filter_accounts_for_user :: "id \<Rightarrow> mcp_account list \<Rightarrow> mcp_account list" where
  "filter_accounts_for_user u = filter (\<lambda>a. owned_by_user u (ma_user a))"

definition authorize_mcp_server :: "plans \<Rightarrow> id \<Rightarrow> id \<Rightarrow> board \<Rightarrow> (mcp_server \<times> mcp_account list) option" where
  "authorize_mcp_server f u i s =
     (case fetch (f 0 0) ms_id i (bd_servers s) of
        None \<Rightarrow> None
      | Some m \<Rightarrow>
          (let own = filter_accounts_for_user u (tbl_find (\<lambda>a. ma_server a = i) (bd_accounts s))
           in if ms_builtin m then Some (m, own)
              else case ms_project m of
                Some p \<Rightarrow> if authorize_project (\<lambda>k. f (k + 1)) u p s = None then None else Some (m, own)
              | None \<Rightarrow> if owned_by_user u (ms_owner m) then Some (m, own) else None))"

definition user_owned :: "id \<Rightarrow> ('r \<Rightarrow> id option) \<Rightarrow> 'r option \<Rightarrow> 'r option" where
  "user_owned u owner x =
     (case x of None \<Rightarrow> None | Some r \<Rightarrow> if owned_by_user u (owner r) then Some r else None)"

definition authorize_provider :: "bool \<Rightarrow> id \<Rightarrow> id \<Rightarrow> board \<Rightarrow> provider option" where
  "authorize_provider fault u i s = user_owned u pv_user (fetch fault pv_id i (gd_providers (bd_gw s)))"

definition authorize_model_group :: "bool \<Rightarrow> id \<Rightarrow> id \<Rightarrow> board \<Rightarrow> model_group option" where
  "authorize_model_group fault u i s = user_owned u mg_user (fetch fault mg_id i (gd_groups (bd_gw s)))"

definition authorize_mcp_account :: "bool \<Rightarrow> id \<Rightarrow> id \<Rightarrow> board \<Rightarrow> mcp_account option" where
  "authorize_mcp_account fault u i s = user_owned u ma_user (fetch fault ma_id i (bd_accounts s))"

text \<open>The loaders in front of a handler: 400 for a malformed id, 404 for any failure of the check.\<close>

definition load_resource :: "(id \<Rightarrow> board \<Rightarrow> 'r option) \<Rightarrow> string \<Rightarrow> string \<Rightarrow> ('r \<Rightarrow> api) \<Rightarrow> api" where
  "load_resource auth missing param next s =
     (case parse_int 64 param of
        None \<Rightarrow> answer_with (reject 400 ''invalid id'') s
      | Some i \<Rightarrow>
          (case auth (to_int32 i) s of
             None \<Rightarrow> answer_with (reject 404 missing) s
           | Some r \<Rightarrow> next r s))"

definition load_company :: "plans \<Rightarrow> id \<Rightarrow> string \<Rightarrow> (company \<Rightarrow> api) \<Rightarrow> api" where
  "load_company f u = load_resource (authorize_company (f 0) u) ''company not found''"

definition load_task :: "plans \<Rightarrow> id \<Rightarrow> string \<Rightarrow> (task \<Rightarrow> api) \<Rightarrow> api" where
  "load_task f u = load_resource (authorize_task f u) ''task not found''"

definition load_run :: "plans \<Rightarrow> id \<Rightarrow> string \<Rightarrow> (run \<Rightarrow> api) \<Rightarrow> api" where
  "load_run f u = load_resource (authorize_run f u) ''run not found''"

definition load_agent :: "plans \<Rightarrow> id \<Rightarrow> string \<Rightarrow> (agent \<Rightarrow> api) \<Rightarrow> api" where
  "load_agent f u = load_resource (authorize_agent f u) ''agent not found''"

definition load_project :: "plans \<Rightarrow> id \<Rightarrow> string \<Rightarrow> (project \<Rightarrow> api) \<Rightarrow> api" where
  "load_project f u = load_resource (authorize_project f u) ''project not found''"

definition load_skill :: "plans \<Rightarrow> id \<Rightarrow> string \<Rightarrow> (skill \<Rightarrow> api) \<Rightarrow> api" where
  "load_skill f u = load_resource (authorize_skill f u) ''skill not found''"

definition load_mcp_server :: "plans \<Rightarrow> id \<Rightarrow> string \<Rightarrow> (mcp_server \<times> mcp_account list \<Rightarrow> api) \<Rightarrow> api" where
  "load_mcp_server f u = load_resource (authorize_mcp_server f u) ''not found''"

definition load_provider :: "plans \<Rightarrow> id \<Rightarrow> string \<Rightarrow> (provider \<Rightarrow> api) \<Rightarrow> api" where
  "load_provider f u = load_resource (authorize_provider (f 0 0) u) ''provider not found''"

definition load_model_group :: "plans \<Rightarrow> id \<Rightarrow> string \<Rightarrow> (model_group \<Rightarrow> api) \<Rightarrow> api" where
  "load_model_group f u = load_resource (authorize_model_group (f 0 0) u) ''model group not found''"

definition load_mcp_account :: "plans \<Rightarrow> id \<Rightarrow> string \<Rightarrow> (mcp_account \<Rightarrow> api) \<Rightarrow> api" where
  "load_mcp_account f u = load_resource (authorize_mcp_account (f 0 0) u) ''not found''"

text \<open>Any failure to read the membership counts as being alone, and so as an owner.\<close>

definition is_team_owner :: "bool \<Rightarrow> id \<Rightarrow> board \<Rightarrow> bool" where
  "is_team_owner fault u s =
     (case (if fault then None else tbl_first (\<lambda>m. tm_user m = u) (gd_team_members (bd_gw s))) of
        None \<Rightarrow> True | Some m \<Rightarrow> tm_role m = team_role_owner)"

definition team_role_of :: "bool \<Rightarrow> id \<Rightarrow> board \<Rightarrow> string" where
  "team_role_of fault u s =
     (case (if fault then None else tbl_first (\<lambda>m. tm_user m = u) (gd_team_members (bd_gw s))) of
        None \<Rightarrow> team_role_owner | Some m \<Rightarrow> tm_role m)"

definition require_team_owner :: "bool \<Rightarrow> id \<Rightarrow> api \<Rightarrow> api" where
  "require_team_owner fault u next s =
     (if is_team_owner fault u s then next s
      else answer_with (reject 403 ''only a team owner can perform this action'') s)"

definition is_instance_admin :: "bool \<Rightarrow> id \<Rightarrow> board \<Rightarrow> bool" where
  "is_instance_admin fault u s \<longleftrightarrow>
     u \<noteq> 0 \<and> (case get_user fault u (users (gd_auth (bd_gw s))) of None \<Rightarrow> False | Some x \<Rightarrow> u_admin x)"

section \<open>Tasks\<close>

record api_env =
  ae_now :: instant
  ae_fuel :: nat
  ae_branch_ok :: "string \<Rightarrow> bool"
  ae_status_json :: "string \<Rightarrow> string \<Rightarrow> string"
  ae_refuses :: "id \<Rightarrow> nat option"

text \<open>
  \<open>Atoi\<close> with its error dropped: 0 for what is no number, the nearest 64-bit value for one out of
  range (four bits hold a decimal digit).
\<close>

definition atoi_or_zero :: "string \<Rightarrow> int" where
  "atoi_or_zero s =
     (case parse_int (64 + 4 * length s) s of None \<Rightarrow> 0 | Some i \<Rightarrow> max (- (2 ^ 63)) (min (2 ^ 63 - 1) i))"

text \<open>The parameters of a listing; an id of the two lists counts as the number it denotes.\<close>

record task_query =
  tq_company :: string
  tq_projects :: string
  tq_sprints :: string
  tq_archived :: string
  tq_priority :: string
  tq_agent :: string
  tq_parent :: string
  tq_subtasks :: string

definition id_list :: "string \<Rightarrow> int list" where
  "id_list s = List.map_filter (parse_int 64) (split_on (CHR '','') s)"

definition task_matches :: "task_query \<Rightarrow> task \<Rightarrow> bool" where
  "task_matches q t \<longleftrightarrow>
     t_company t = atoi_or_zero (tq_company q) \<and>
     (tq_projects q \<noteq> [] \<longrightarrow> (case t_project t of None \<Rightarrow> False | Some p \<Rightarrow> p \<in> set (id_list (tq_projects q)))) \<and>
     (tq_sprints q \<noteq> [] \<longrightarrow> t_sprint t \<in> set (id_list (tq_sprints q))) \<and>
     (t_archived t \<longleftrightarrow> tq_archived q = ''true'') \<and>
     (tq_priority q \<noteq> [] \<longrightarrow> t_priority t = tq_priority q) \<and>
     (tq_agent q \<noteq> [] \<longrightarrow> t_agent t = Some (atoi_or_zero (tq_agent q))) \<and>
     (if tq_parent q \<noteq> [] then t_parent t = Some (atoi_or_zero (tq_parent q))
      else tq_subtasks q \<noteq> ''true'' \<longrightarrow> t_parent t = None)"

definition list_tasks :: "plans \<Rightarrow> id \<Rightarrow> task_query \<Rightarrow> api" where
  "list_tasks f u q s =
     (if tq_company q = [] then answer_with (reject 400 ''company_id is required'') s
      else if authorize_company (f 0) u (to_int32 (atoi_or_zero (tq_company q))) s = None
      then answer_with (reject 404 ''company not found'') s
      else if f 1 0 then answer_with (reject 500 ''database error'') s
      else answer_with (respond 200 (V_Tasks (tbl_find (task_matches q) (tasks (bd_tasks s))))) s)"

definition sprint_in :: "bool \<Rightarrow> id \<Rightarrow> id \<Rightarrow> board \<Rightarrow> bool" where
  "sprint_in fault c i s \<longleftrightarrow> (case fetch fault sp_id i (bd_sprints s) of None \<Rightarrow> False | Some x \<Rightarrow> sp_company x = c)"

definition authorize_task_refs ::
  "(nat \<Rightarrow> plans) \<Rightarrow> id \<Rightarrow> id \<Rightarrow> id option \<Rightarrow> id option \<Rightarrow> id option \<Rightarrow> id option \<Rightarrow> board \<Rightarrow> bool" where
  "authorize_task_refs f u c project agent sprint parent s \<longleftrightarrow>
     (case project of None \<Rightarrow> True
      | Some p \<Rightarrow> (case authorize_project (f 0) u p s of None \<Rightarrow> False | Some x \<Rightarrow> pj_company x = c)) \<and>
     (case agent of None \<Rightarrow> True
      | Some a \<Rightarrow> (case authorize_agent (f 1) u a s of None \<Rightarrow> False
                    | Some x \<Rightarrow> ag_company x = c \<and> ag_enabled x)) \<and>
     (case sprint of None \<Rightarrow> True | Some i \<Rightarrow> i = 0 \<or> sprint_in (f 2 0 0) c i s) \<and>
     (case parent of None \<Rightarrow> True
      | Some p \<Rightarrow> (case load_task_row (f 3 0 0) p s of None \<Rightarrow> False | Some x \<Rightarrow> t_company x = c))"

record new_task =
  nt_company :: id
  nt_project :: "id option"
  nt_agent :: "id option"
  nt_sprint :: id
  nt_parent :: "id option"
  nt_title :: string
  nt_description :: string
  nt_priority :: string
  nt_branch :: string
  nt_due :: "instant option"

definition status_backlog :: string where "status_backlog = ''backlog''"

definition new_task_row :: "api_env \<Rightarrow> new_task \<Rightarrow> string \<Rightarrow> task" where
  "new_task_row e b branch =
     \<lparr>t_id = 0, t_company = nt_company b, t_agent = nt_agent b, t_parent = nt_parent b, t_title = nt_title b,
      t_ref_key = [], t_refined = [], t_status = status_backlog, t_archived = False, t_run = None,
      t_orchestrator_run = None, t_branch = [], t_base_branch = branch, t_project = nt_project b,
      t_sprint = nt_sprint b, t_description = nt_description b,
      t_priority = (if nt_priority b = [] then ''Normal'' else nt_priority b), t_due = nt_due b,
      t_created = ae_now e, t_done_at = None\<rparr>"

definition create_task_api :: "api_env \<Rightarrow> (nat \<Rightarrow> plans) \<Rightarrow> id \<Rightarrow> new_task option \<Rightarrow> api" where
  "create_task_api e f u body s =
     (case body of None \<Rightarrow> answer_with (reject 400 ''Invalid request payload'') s
      | Some b \<Rightarrow>
     (let branch = trim_space (nt_branch b); branch = (if branch = [] then default_git_base_branch else branch)
      in if \<not> ae_branch_ok e branch then answer_with (reject 400 ''invalid branch name'') s
         else if nt_company b = 0 then answer_with (reject 400 ''company_id is required'') s
         else if authorize_company (f 0 0) u (nt_company b) s = None
         then answer_with (reject 404 ''company not found'') s
         else if \<not> authorize_task_refs (\<lambda>k. f (k + 1)) u (nt_company b) (nt_project b) (nt_agent b)
                    (Some (nt_sprint b)) (nt_parent b) s
         then answer_with (reject 404 ''a referenced project, agent, sprint, or parent task was not found'') s
         else (case create_task (ae_fuel e) (f 5 0) (f 5 1) (f 5 2) (new_task_row e b branch) (bd_tasks s) of
            None \<Rightarrow> None
          | Some (Inl _, t) \<Rightarrow> answer_with (reject 500 ''database error'') (with_tasks t s)
          | Some (Inr x, t) \<Rightarrow>
              (let co = (case fetch (f 6 0 0) co_id (nt_company b) (gd_companies (bd_gw s)) of
                           None \<Rightarrow> 0 | Some c \<Rightarrow> co_id c)
               in Some (respond 201 (V_Task x),
                    Broadcast (t_company x) ''task_created'' (t_id x) #
                    (case nt_project b of None \<Rightarrow> [] | Some p \<Rightarrow> [Task_Workspace p (t_id x)]) @
                    [Activity co ''task_created'' (t_id x)],
                    with_tasks t s)))))"

definition is_task_status :: "string \<Rightarrow> bool" where
  "is_task_status st \<longleftrightarrow>
     st \<in> {''backlog'', ''to-do'', ''in-progress'', ''blocked'', ''in-review'', ''done'', ''refinement''}"

record task_change =
  tc_project :: "id option"
  tc_agent :: "id option"
  tc_sprint :: "id option"
  tc_parent :: "id option"
  tc_title :: string
  tc_description :: string
  tc_priority :: string
  tc_branch :: string
  tc_due :: "instant option"
  tc_status :: string
  tc_archived :: "bool option"

definition given :: "string \<Rightarrow> string \<Rightarrow> string" where "given new old = (if new = [] then old else new)"
definition given_opt :: "'a option \<Rightarrow> 'a option \<Rightarrow> 'a option" where
  "given_opt new old = (if new = None then old else new)"

text \<open>The changes before the base branch, and those after it.\<close>

definition change_texts :: "task_change \<Rightarrow> task \<Rightarrow> task" where
  "change_texts b t = t\<lparr>t_status := given (tc_status b) (t_status t), t_title := given (tc_title b) (t_title t),
     t_description := given (tc_description b) (t_description t), t_priority := given (tc_priority b) (t_priority t)\<rparr>"

definition change_refs :: "task_change \<Rightarrow> task \<Rightarrow> task" where
  "change_refs b t = t\<lparr>t_project := given_opt (tc_project b) (t_project t),
     t_agent := given_opt (tc_agent b) (t_agent t),
     t_sprint := (case tc_sprint b of None \<Rightarrow> t_sprint t | Some i \<Rightarrow> i),
     t_parent := given_opt (tc_parent b) (t_parent t),
     t_archived := (case tc_archived b of None \<Rightarrow> t_archived t | Some a \<Rightarrow> a),
     t_due := given_opt (tc_due b) (t_due t)\<rparr>"

definition change_base_branch :: "api_env \<Rightarrow> task_change \<Rightarrow> task \<Rightarrow> response + task" where
  "change_base_branch e b t =
     (if tc_branch b = [] \<or> tc_branch b = t_base_branch t then Inr t
      else if t_status t \<in> {''in-progress'', ''in-review'', ''done''}
      then Inl (reject 409 ''base branch cannot be changed after work has started'')
      else if \<not> ae_branch_ok e (trim_space (tc_branch b)) then Inl (reject 400 ''invalid branch name'')
      else Inr (t\<lparr>t_base_branch := trim_space (tc_branch b)\<rparr>))"

definition reconcile_dependents :: "bool \<Rightarrow> id \<Rightarrow> board \<Rightarrow> deed list" where
  "reconcile_dependents fault i s =
     (if fault then [] else map (\<lambda>t. Process (t_id t)) (list_dependent_tasks i (bd_tasks s)))"

definition status_comment :: "api_env \<Rightarrow> id \<Rightarrow> string \<Rightarrow> string \<Rightarrow> comment" where
  "status_comment e i old new =
     \<lparr>cm_id = 0, cm_task = i, cm_author_type = ''human'', cm_author = None,
      cm_content = ae_status_json e old new, cm_type = ''status_change'', cm_run = None, cm_created = 0\<rparr>"

text \<open>What follows a stored change: \<open>old\<close> is the status before it.\<close>

definition after_update :: "api_env \<Rightarrow> plans \<Rightarrow> string \<Rightarrow> task_change \<Rightarrow> task \<Rightarrow> api" where
  "after_update e f old b t s =
     (let changed = (tc_status b \<noteq> [] \<and> tc_status b \<noteq> old);
          (note, cs) = (if changed
            then (case create_comment (f 0 0) (ae_now e) (status_comment e (t_id t) old (t_status t)) (bd_comments s) of
                    (Inl _, cs) \<Rightarrow> ([], cs)
                  | (Inr c, cs) \<Rightarrow> ([Broadcast (t_company t) ''comment_created'' (cm_id c)], cs))
            else ([], bd_comments s));
          s = s\<lparr>bd_comments := cs\<rparr>
      in Some (respond 200 (V_Task t),
           Broadcast (t_company t) ''task_updated'' (t_id t) # note @
           (if changed \<and> t_status t = status_done then reconcile_dependents (f 1 0) (t_id t) s else []) @
           [Activity (t_company t) ''task_updated'' (t_id t)] @
           (if changed \<and> t_project t \<noteq> None then [Git_Lifecycle t (tc_status b)] else []) @
           (if changed then [Process (t_id t)] else []), s))"

definition update_task_api :: "api_env \<Rightarrow> (nat \<Rightarrow> plans) \<Rightarrow> id \<Rightarrow> task_change option \<Rightarrow> task \<Rightarrow> api" where
  "update_task_api e f u body t s =
     (case body of None \<Rightarrow> answer_with (reject 400 ''Invalid request payload'') s
      | Some b \<Rightarrow>
          if tc_status b \<noteq> [] \<and> \<not> is_task_status (tc_status b)
          then answer_with (reject 400 ''invalid task status'') s
          else if tc_status b = status_depends_on_task
          then answer_with (reject 409 ''depends-on-task is managed by task dependencies'') s
          else if \<not> authorize_task_refs f u (t_company t) (tc_project b) (tc_agent b) (tc_sprint b) (tc_parent b) s
          then answer_with (reject 404 ''a referenced project, agent, sprint, or parent task was not found'') s
          else (case change_base_branch e b (change_texts b t) of
             Inl r \<Rightarrow> answer_with r s
           | Inr x \<Rightarrow>
               (case update_task (f 4 0) (ae_now e) (change_refs b x) (bd_tasks s) of
                  (Inl _, db) \<Rightarrow> answer_with (reject 500 ''database error'') (with_tasks db s)
                | (Inr x, db) \<Rightarrow> after_update e (f 5) (t_status t) b x (with_tasks db s))))"

definition get_task_api :: "task \<Rightarrow> api" where
  "get_task_api t = answer_with (respond 200 (V_Task t))"

definition list_task_runs :: "bool \<Rightarrow> task \<Rightarrow> api" where
  "list_task_runs fault t s =
     (if fault then answer_with (reject 500 ''database error'') s
      else answer_with (respond 200 (V_Runs (rev (list_runs_by_task (t_id t) (gd_runs (bd_gw s)))))) s)"

text \<open>The walk to the main task has no bound and no check for a circle; a parent that cannot be read ends it.\<close>

partial_function (option) climb_to_main :: "faults \<Rightarrow> nat \<Rightarrow> task \<Rightarrow> board \<Rightarrow> task option" where
  "climb_to_main flt k t s =
     (case t_parent t of
        None \<Rightarrow> Some t
      | Some p \<Rightarrow>
          (case load_task_row (flt k) p s of
             None \<Rightarrow> Some t
           | Some parent \<Rightarrow> climb_to_main flt (Suc k) parent s))"

text \<open>\<open>ae_refuses\<close> is the status a failing engine call is answered with, 409 for open dependencies.\<close>

definition rerun_task_api :: "api_env \<Rightarrow> faults \<Rightarrow> task \<Rightarrow> api" where
  "rerun_task_api e flt t s =
     (case climb_to_main flt 0 t s of
        None \<Rightarrow> None
      | Some m \<Rightarrow>
          if t_agent m = None then answer_with (reject 400 ''task has no assigned agent'') s
          else Some (case ae_refuses e (t_id m) of
                       None \<Rightarrow> respond 200 (V_Queued (t_id m)) | Some code \<Rightarrow> reject code ''rerun refused'',
                     [Rerun (t_id m)], s))"

section \<open>Relations of a task\<close>

record relation_body =
  lb_kind :: string
  lb_task :: id

definition relation_failed :: "task_error dberr \<Rightarrow> nat" where
  "relation_failed e =
     (case e of Refused Duplicate \<Rightarrow> 409 | Refused Cycle \<Rightarrow> 409 | Refused OtherCompany \<Rightarrow> 409
      | Refused ActiveRun \<Rightarrow> 409 | Refused Hierarchy \<Rightarrow> 409 | _ \<Rightarrow> 400)"

definition create_relation_api :: "(nat \<Rightarrow> faults) \<Rightarrow> relation_body option \<Rightarrow> task \<Rightarrow> api" where
  "create_relation_api f body t s =
     (case body of None \<Rightarrow> answer_with (reject 400 ''invalid request payload'') s
      | Some b \<Rightarrow>
          if lb_task b = 0 then answer_with (reject 400 ''task_id is required'') s
          else (let raw = trim_space (to_lower (lb_kind b));
                    (kind, src, dst) = (if raw = ''blocks'' then (depends_on, lb_task b, t_id t)
                                        else (raw, t_id t, lb_task b))
                in if kind \<noteq> depends_on \<and> kind \<noteq> related_to
                   then answer_with (reject 400 ''type must be depends_on, blocks, or related_to'') s
                   else (case load_task_row (f 0 0) (lb_task b) s of
                      None \<Rightarrow> answer_with (reject 404 ''related task not found'') s
                    | Some other \<Rightarrow>
                        if t_company other \<noteq> t_company t
                        then answer_with (reject 404 ''related task not found'') s
                        else (case create_task_relation (f 1) (f 2) (f 3) (f 4)
                                     \<lparr>tr_id = 0, tr_company = t_company t, tr_source = src, tr_target = dst,
                                      tr_kind = kind\<rparr> (bd_tasks s) of
                                (Inl e, db) \<Rightarrow> answer_with (reject (relation_failed e) ''relation refused'') (with_tasks db s)
                              | (Inr r, db) \<Rightarrow>
                                  Some (respond 201 (V_Relation r),
                                    [Broadcast (t_company t) ''task_updated'' src,
                                     Broadcast (t_company t) ''task_updated'' dst] @
                                    (if kind = depends_on then [Process src] else []), with_tasks db s)))))"

definition delete_relation_api :: "faults \<Rightarrow> int option \<Rightarrow> task \<Rightarrow> api" where
  "delete_relation_api flt param t s =
     (case param of None \<Rightarrow> answer_with (reject 400 ''invalid relation id'') s
      | Some i \<Rightarrow>
          if i = 0 then answer_with (reject 400 ''invalid relation id'') s
          else (case (if flt 0 then Inl DbFault else get_task_relation i (bd_tasks s)) of
             Inl _ \<Rightarrow> answer_with (reject 404 ''relation not found'') s
           | Inr r \<Rightarrow>
               if tr_source r \<noteq> t_id t \<and> tr_target r \<noteq> t_id t
               then answer_with (reject 404 ''relation not found'') s
               else (let other = (if tr_source r = t_id t then tr_target r else tr_source r)
                     in case load_task_row (flt 1) other s of
                          None \<Rightarrow> answer_with (reject 404 ''relation not found'') s
                        | Some x \<Rightarrow>
                            if t_company x \<noteq> t_company t then answer_with (reject 404 ''relation not found'') s
                            else (case delete_task_relation (flt 2) i (bd_tasks s) of
                                    (Inl _, db) \<Rightarrow> answer_with (reject 500 ''database error'') (with_tasks db s)
                                  | (Inr _, db) \<Rightarrow>
                                      Some (respond 204 V_Ok,
                                        [Broadcast (t_company t) ''task_updated'' (tr_source r),
                                         Broadcast (t_company t) ''task_updated'' (tr_target r)] @
                                        (if tr_kind r = depends_on then [Process (tr_source r)] else []),
                                        with_tasks db s)))))"

text \<open>The relations of a task, each shown from its side: depends on, blocked by, blocks, related to.\<close>

definition peers ::
  "(task_relation \<Rightarrow> id) \<Rightarrow> (task_relation \<Rightarrow> bool) \<Rightarrow> task_relation list \<Rightarrow> board \<Rightarrow> (id \<times> relation_task) list" where
  "peers far p rs s =
     sort_key (rk_id \<circ> snd) (List.map_filter (\<lambda>r.
        if p r then map_option (\<lambda>t. (tr_id r, brief t)) (tbl_get t_id (far r) (tasks (bd_tasks s))) else None) rs)"

definition list_relations_api :: "faults \<Rightarrow> task \<Rightarrow> api" where
  "list_relations_api flt t s =
     (let rs = list_task_relations (t_id t) (bd_tasks s); i = t_id t;
          far = (\<lambda>r. if tr_source r = i then tr_target r else tr_source r);
          deps = peers tr_target (\<lambda>r. tr_kind r = depends_on \<and> tr_source r = i) rs s
      in if flt 0 \<or> (rs \<noteq> [] \<and> flt 1) then answer_with (reject 500 ''database error'') s
         else answer_with (respond 200 (V_Relations deps (filter (\<lambda>d. rk_status (snd d) \<noteq> status_done) deps)
                (peers tr_source (\<lambda>r. tr_kind r = depends_on \<and> tr_source r \<noteq> i \<and> tr_target r = i) rs s)
                (peers far (\<lambda>r. tr_kind r = related_to) rs s))) s)"

section \<open>Comments, sprints, companies and runs\<close>

definition list_comments_api :: "(nat \<Rightarrow> plans) \<Rightarrow> id \<Rightarrow> string \<Rightarrow> api" where
  "list_comments_api f u param s =
     (case parse_int 64 param of
        None \<Rightarrow> answer_with (reject 400 ''task_id is required'') s
      | Some i \<Rightarrow>
          if authorize_task (f 0) u (to_int32 i) s = None then answer_with (reject 404 ''task not found'') s
          else if f 1 0 0 then answer_with (reject 500 ''database error'') s
          else answer_with (respond 200 (V_Comments (list_comments_by_task (to_int32 i) (bd_comments s)))) s)"

record new_comment =
  nc_task :: id
  nc_author_type :: string
  nc_author :: "id option"
  nc_content :: string
  nc_run_agent :: bool

definition create_comment_api :: "api_env \<Rightarrow> (nat \<Rightarrow> plans) \<Rightarrow> id \<Rightarrow> new_comment option \<Rightarrow> api" where
  "create_comment_api e f u body s =
     (case body of None \<Rightarrow> answer_with (reject 400 ''Invalid request payload'') s
      | Some b \<Rightarrow>
     (case authorize_task (f 0) u (nc_task b) s of
        None \<Rightarrow> answer_with (reject 404 ''task not found'') s
      | Some t \<Rightarrow>
     (case create_comment (f 1 0 0) (ae_now e)
             \<lparr>cm_id = 0, cm_task = nc_task b, cm_author_type = nc_author_type b, cm_author = nc_author b,
              cm_content = nc_content b, cm_type = [], cm_run = None, cm_created = 0\<rparr> (bd_comments s) of
        (Inl _, cs) \<Rightarrow> answer_with (reject 500 ''database error'') (s\<lparr>bd_comments := cs\<rparr>)
      | (Inr c, cs) \<Rightarrow>
          Some (respond 201 (V_Comment c),
            Broadcast (t_company t) ''comment_created'' (cm_id c) #
            (if nc_author_type b = ''human'' then [Human_Reply (nc_task b)] else []) @
            (if nc_run_agent b
             then (case load_task_row (f 2 0 0) (nc_task b) s of
                     None \<Rightarrow> []
                   | Some x \<Rightarrow> if t_status x \<noteq> status_backlog then [Rerun (nc_task b)] else [])
             else []), s\<lparr>bd_comments := cs\<rparr>))))"

definition list_sprints_api :: "(nat \<Rightarrow> faults) \<Rightarrow> id \<Rightarrow> string \<Rightarrow> api" where
  "list_sprints_api f u param s =
     (if param = [] then answer_with (reject 400 ''company_id is required'') s
      else case parse_int 64 param of
        None \<Rightarrow> answer_with (reject 400 ''invalid company_id'') s
      | Some i \<Rightarrow>
          if authorize_company (f 0) u (to_int32 i) s = None then answer_with (reject 404 ''company not found'') s
          else if f 1 0 then answer_with (reject 500 ''database error'') s
          else answer_with (respond 200
                 (V_Sprints (tbl_find (\<lambda>x. sp_company x = to_int32 i) (bd_sprints s)))) s)"

definition create_sprint_api :: "(nat \<Rightarrow> faults) \<Rightarrow> id \<Rightarrow> sprint option \<Rightarrow> api" where
  "create_sprint_api f u body s =
     (case body of None \<Rightarrow> answer_with (reject 400 ''Invalid payload'') s
      | Some b \<Rightarrow>
          if authorize_company (f 0) u (sp_company b) s = None then answer_with (reject 404 ''company not found'') s
          else if f 1 0 then answer_with (reject 500 ''database error'') s
          else (case tbl_create set_sp_id b (bd_sprints s) of
                  (x, t) \<Rightarrow> Some (respond 201 (V_Sprint x), [Activity (sp_company b) ''sprint_created'' (sp_id x)],
                                 s\<lparr>bd_sprints := t\<rparr>)))"

definition list_projects_api :: "(nat \<Rightarrow> faults) \<Rightarrow> id \<Rightarrow> string \<Rightarrow> api" where
  "list_projects_api f u param s =
     (case parse_int 64 param of
        None \<Rightarrow> answer_with (reject 400 ''company_id is required'') s
      | Some i \<Rightarrow>
          if authorize_company (f 0) u (to_int32 i) s = None then answer_with (reject 404 ''company not found'') s
          else if f 1 0 then answer_with (reject 500 ''database error'') s
          else answer_with (respond 200
                 (V_Projects (tbl_find (\<lambda>p. pj_company p = to_int32 i) (bd_projects s)))) s)"

definition get_project_api :: "project \<Rightarrow> api" where
  "get_project_api p s = answer_with (respond 200 (V_Project p)) s"

definition list_agents_api :: "(nat \<Rightarrow> faults) \<Rightarrow> id \<Rightarrow> string \<Rightarrow> api" where
  "list_agents_api f u param s =
     (case parse_int 64 param of
        None \<Rightarrow> answer_with (reject 400 ''company_id is required'') s
      | Some i \<Rightarrow>
          if authorize_company (f 0) u (to_int32 i) s = None then answer_with (reject 404 ''company not found'') s
          else if f 1 0 then answer_with (reject 500 ''database error'') s
          else answer_with (respond 200
                 (V_Agents (tbl_find (\<lambda>a. ag_company a = to_int32 i) (gd_agents (bd_gw s))))) s)"

definition get_agent_api :: "agent \<Rightarrow> api" where
  "get_agent_api a s = answer_with (respond 200 (V_Agent a)) s"

definition list_companies_for_user :: "id \<Rightarrow> board \<Rightarrow> company list" where
  "list_companies_for_user u s =
     tbl_find (\<lambda>c. case co_team c of
                     Some team \<Rightarrow> team \<in> tm_team ` {m \<in> set (rows (gd_team_members (bd_gw s))). tm_user m = u}
                   | None \<Rightarrow> co_user c = Some u) (gd_companies (bd_gw s))"

definition list_companies_api :: "bool \<Rightarrow> id \<Rightarrow> api" where
  "list_companies_api fault u s =
     (if fault then answer_with (reject 500 ''database error'') s
      else answer_with (respond 200 (V_Companies (list_companies_for_user u s))) s)"

text \<open>A main session is the latest run of its task; a failing query leaves 0.\<close>

definition is_latest :: "bool \<Rightarrow> run \<Rightarrow> board \<Rightarrow> bool" where
  "is_latest fault r s \<longleftrightarrow>
     rn_parent r = None \<and>
     (case tbl_get t_id (rn_task r) (tasks (bd_tasks s)) of
        None \<Rightarrow> True | Some t \<Rightarrow> t_orchestrator_run t \<noteq> Some (rn_id r)) \<and>
     rn_id r = (if fault then 0
                else Max (insert 0 (rn_id ` {x \<in> set (rows (runs (gd_runs (bd_gw s)))). rn_task x = rn_task r})))"

definition get_run_api :: "bool \<Rightarrow> run \<Rightarrow> api" where
  "get_run_api fault r s = answer_with (respond 200 (V_Run r (is_latest fault r s))) s"

definition get_run_by_session_api :: "(nat \<Rightarrow> plans) \<Rightarrow> id \<Rightarrow> string \<Rightarrow> api" where
  "get_run_by_session_api f u sid s =
     (if sid = [] then answer_with (reject 400 ''sessionID is required'') s
      else case (if f 0 0 0 then None else get_run_by_session_id sid (gd_runs (bd_gw s))) of
        None \<Rightarrow> answer_with (reject 404 ''run not found'') s
      | Some r \<Rightarrow>
          if authorize_run (f 1) u (rn_id r) s = None then answer_with (reject 404 ''run not found'') s
          else answer_with (respond 200 (V_Run r False)) s)"

definition list_company_runs_api :: "(nat \<Rightarrow> faults) \<Rightarrow> id \<Rightarrow> string \<Rightarrow> api" where
  "list_company_runs_api f u param s =
     (if param = [] then answer_with (reject 400 ''company_id is required'') s
      else (let c = atoi_or_zero param
            in if authorize_company (f 0) u (to_int32 c) s = None
               then answer_with (reject 404 ''company not found'') s
               else (let ids = (if f 1 0 then [] else map t_id (tbl_find (\<lambda>t. t_company t = c) (tasks (bd_tasks s))))
                     in if ids = [] then answer_with (respond 200 (V_Runs [])) s
                        else if f 1 1 then answer_with (reject 500 ''database error'') s
                        else answer_with (respond 200 (V_Runs (rev (sort_key rn_started
                               (tbl_find (\<lambda>r. rn_task r \<in> set ids) (runs (gd_runs (bd_gw s)))))))) s)))"

definition stop_run_api :: "run \<Rightarrow> api" where
  "stop_run_api r s =
     (if rn_status r \<noteq> st_running then answer_with (reject 400 ''Run is not in progress'') s
      else Some (respond 200 V_Ok, [Stop (rn_id r)], s))"

text \<open>
  The root of a run's tree, for the archive of its logs: the stored root, or the walk over the
  parents, which ends at a run seen before.
\<close>

function root_walk :: "faults \<Rightarrow> nat \<Rightarrow> id set \<Rightarrow> run \<Rightarrow> board \<Rightarrow> run option" where
  "root_walk flt k seen r s =
     (case rn_parent r of
        None \<Rightarrow> Some r
      | Some p \<Rightarrow>
          if rn_id r \<in> seen then None
          else (case fetch (flt k) rn_id p (runs (gd_runs (bd_gw s))) of
                  None \<Rightarrow> None
                | Some parent \<Rightarrow> root_walk flt (Suc k) (insert (rn_id r) seen) parent s))"
  by pat_completeness auto

termination
proof (relation "measure (\<lambda>(flt, k, seen, r, s).
    card (insert (rn_id r) (rn_id ` set (rows (runs (gd_runs (bd_gw s))))) - seen))")
  fix flt :: faults and k seen and r :: run and s :: board and p parent
  let ?ids = "rn_id ` set (rows (runs (gd_runs (bd_gw s))))"
  assume "rn_id r \<notin> seen" and "fetch (flt k) rn_id p (runs (gd_runs (bd_gw s))) = Some parent"
  then have "parent \<in> set (rows (runs (gd_runs (bd_gw s))))"
    by (auto simp: fetch_def tbl_get_def dest!: tbl_first_Some_D split: if_splits)
  then have "insert (rn_id parent) ?ids - insert (rn_id r) seen \<subset> insert (rn_id r) ?ids - seen"
    using \<open>rn_id r \<notin> seen\<close> by blast
  then show "((flt, Suc k, insert (rn_id r) seen, parent, s), (flt, k, seen, r, s))
    \<in> measure (\<lambda>(flt, k, seen, r, s). card (insert (rn_id r) (rn_id ` set (rows (runs (gd_runs (bd_gw s))))) - seen))"
    by (simp add: psubset_card_mono)
qed simp

definition root_run :: "faults \<Rightarrow> run \<Rightarrow> board \<Rightarrow> run option" where
  "root_run flt r s =
     (case rn_root r of
        Some i \<Rightarrow> fetch (flt 0) rn_id i (runs (gd_runs (bd_gw s)))
      | None \<Rightarrow> root_walk flt 0 {} r s)"

section \<open>The requests\<close>

datatype api_request =
    List_Companies
  | List_Tasks task_query
  | Create_Task "new_task option"
  | Get_Task string
  | Update_Task string "task_change option"
  | List_Task_Runs string
  | Rerun_Task string
  | List_Relations string
  | Create_Relation string "relation_body option"
  | Delete_Relation string "int option"
  | List_Comments string
  | Create_Comment "new_comment option"
  | List_Sprints string
  | Create_Sprint "sprint option"
  | Get_Run string
  | Get_Run_By_Session string
  | List_Company_Runs string
  | Stop_Run string
  | List_Projects string
  | Get_Project string
  | List_Agents string
  | Get_Agent string

text \<open>The routes of \<open>Mount\<close>: \<open>u\<close> is the user \<open>RequireAuth\<close> found.\<close>

fun serve :: "api_env \<Rightarrow> (nat \<Rightarrow> plans) \<Rightarrow> id \<Rightarrow> api_request \<Rightarrow> api" where
  "serve e f u List_Companies = list_companies_api (f 0 0 0) u"
| "serve e f u (List_Tasks q) = list_tasks (f 0) u q"
| "serve e f u (Create_Task b) = create_task_api e f u b"
| "serve e f u (Get_Task i) = load_task (f 0) u i get_task_api"
| "serve e f u (Update_Task i b) = load_task (f 0) u i (update_task_api e (\<lambda>k. f (k + 1)) u b)"
| "serve e f u (List_Task_Runs i) = load_task (f 0) u i (list_task_runs (f 1 0 0))"
| "serve e f u (Rerun_Task i) = load_task (f 0) u i (rerun_task_api e (f 1 0))"
| "serve e f u (List_Relations i) = load_task (f 0) u i (list_relations_api (f 1 0))"
| "serve e f u (Create_Relation i b) = load_task (f 0) u i (create_relation_api (f 1) b)"
| "serve e f u (Delete_Relation i r) = load_task (f 0) u i (delete_relation_api (f 1 0) r)"
| "serve e f u (List_Comments i) = list_comments_api f u i"
| "serve e f u (Create_Comment b) = create_comment_api e f u b"
| "serve e f u (List_Sprints c) = list_sprints_api (f 0) u c"
| "serve e f u (Create_Sprint b) = create_sprint_api (f 0) u b"
| "serve e f u (Get_Run i) = load_run (f 0) u i (get_run_api (f 1 0 0))"
| "serve e f u (Get_Run_By_Session sid) = get_run_by_session_api f u sid"
| "serve e f u (List_Company_Runs c) = list_company_runs_api (f 0) u c"
| "serve e f u (Stop_Run i) = load_run (f 0) u i stop_run_api"
| "serve e f u (List_Projects c) = list_projects_api (f 0) u c"
| "serve e f u (Get_Project i) = load_project (f 0) u i get_project_api"
| "serve e f u (List_Agents c) = list_agents_api (f 0) u c"
| "serve e f u (Get_Agent i) = load_agent (f 0) u i get_agent_api"

end
