(* ===== verification/Tenant_Isolation.thy ===== *)
theory Tenant_Isolation
  imports Tenancy
begin

text \<open>
  What a request may show, change and set going: only rows of companies its user works in, and
  every reference it stores stays inside one company.
\<close>

section \<open>Whose company\<close>

definition works_in :: "id \<Rightarrow> id \<Rightarrow> board \<Rightarrow> bool" where
  "works_in u c s \<longleftrightarrow>
     (\<exists>co \<in> set (rows (gd_companies (bd_gw s))). co_id co = c \<and> company_admits co u (bd_gw s))"

lemma fetched: "fetch fault key i t = Some x \<Longrightarrow> x \<in> set (rows t) \<and> key x = i"
  by (auto simp: fetch_def tbl_get_def dest!: tbl_first_Some_D split: if_splits)

lemma authorized: "authorize_company flt u i s = Some c \<Longrightarrow> works_in u i s"
  by (auto simp: authorize_company_def works_in_def dest!: fetched dest: company_grants_admits
      split: option.splits if_splits)

lemma authorized': "authorize_company flt u i s \<noteq> None \<Longrightarrow> works_in u i s"
  using authorized by blast

lemma scoped_Some: "scoped flt u company x s = Some r \<longleftrightarrow> x = Some r \<and> authorize_company flt u (company r) s \<noteq> None"
  by (auto simp: scoped_def split: option.splits)

lemma loaded_row: "load_task_row fault i s = Some t \<Longrightarrow> t \<in> set (rows (tasks (bd_tasks s))) \<and> t_id t = i"
  by (auto simp: load_task_row_def get_task_def tbl_get_def dest!: tbl_first_Some_D split: sum.splits option.splits if_splits)

lemma authorized_task:
  "authorize_task f u i s = Some t \<Longrightarrow>
   t \<in> set (rows (tasks (bd_tasks s))) \<and> t_id t = i \<and> works_in u (t_company t) s"
  by (auto simp: authorize_task_def scoped_Some dest!: loaded_row dest: authorized)

definition run_company_id :: "run \<Rightarrow> board \<Rightarrow> id" where
  "run_company_id r s =
     t_company (case tbl_get t_id (rn_task r) (tasks (bd_tasks s)) of None \<Rightarrow> zero_task | Some t \<Rightarrow> t)"

lemma authorized_run:
  "authorize_run f u i s = Some r \<Longrightarrow>
   r \<in> set (rows (runs (gd_runs (bd_gw s)))) \<and> rn_id r = i \<and> works_in u (run_company_id r s) s"
  by (auto simp: authorize_run_def scoped_Some get_run_with_task_def run_company_id_def dest!: fetched
      dest: authorized split: option.splits if_splits)

section \<open>What must stay as it is\<close>

text \<open>
  The part of the board that belongs to one company; reference keys and branch names, which are
  filled in when first needed, are left out.
\<close>

definition task_ids :: "id \<Rightarrow> board \<Rightarrow> id set" where
  "task_ids c s = t_id ` {t \<in> set (rows (tasks (bd_tasks s))). t_company t = c}"

definition company_rows :: "id \<Rightarrow> board \<Rightarrow> task list \<times> task_relation list \<times> comment list \<times> sprint list" where
  "company_rows c s =
     (map nameless (filter (\<lambda>t. t_company t = c) (rows (tasks (bd_tasks s)))),
      filter (\<lambda>r. tr_source r \<in> task_ids c s \<or> tr_target r \<in> task_ids c s) (rows (relations (bd_tasks s))),
      filter (\<lambda>m. cm_task m \<in> task_ids c s) (rows (bd_comments s)),
      filter (\<lambda>x. sp_company x = c) (rows (bd_sprints s)))"

definition rest :: "board \<Rightarrow> board" where
  "rest s = with_tasks ((bd_tasks s)\<lparr>tasks := empty_table, relations := empty_table\<rparr>)
     (s\<lparr>bd_sprints := empty_table, bd_comments := empty_table\<rparr>)"

abbreviation rest_same :: "board \<Rightarrow> board \<Rightarrow> bool" where
  "rest_same s s' \<equiv> rest s' = rest s"

definition untouched :: "id \<Rightarrow> board \<Rightarrow> board \<Rightarrow> bool" where
  "untouched u s s' \<longleftrightarrow> rest_same s s' \<and>
     (\<forall>c. \<not> works_in u c s \<longrightarrow> company_rows c s' = company_rows c s)"

lemma untouched_refl [simp]: "untouched u s s"
  by (simp add: untouched_def)

lemma with_tasks_simps [simp]:
  "bd_tasks (with_tasks t s) = t" "bd_sprints (with_tasks t s) = bd_sprints s"
  "bd_comments (with_tasks t s) = bd_comments s" "bd_projects (with_tasks t s) = bd_projects s"
  "gd_agents (bd_gw (with_tasks t s)) = gd_agents (bd_gw s)"
  "runs (gd_runs (bd_gw (with_tasks t s))) = runs (gd_runs (bd_gw s))"
  "gd_team_members (bd_gw (with_tasks t s)) = gd_team_members (bd_gw s)"
  by (simp_all add: with_tasks_def)

lemma rest_same_with_tasks: "companies t = companies (bd_tasks s) \<Longrightarrow> rest_same s (with_tasks t s)"
  by (cases t, cases "bd_tasks s") (simp add: rest_def with_tasks_def)

lemma rest_fields:
  assumes "rest_same s s'"
  shows "gd_companies (bd_gw s') = gd_companies (bd_gw s)" and "gd_team_members (bd_gw s') = gd_team_members (bd_gw s)"
    and "gd_agents (bd_gw s') = gd_agents (bd_gw s)" and "bd_projects s' = bd_projects s"
    and "runs (gd_runs (bd_gw s')) = runs (gd_runs (bd_gw s))"
  using arg_cong [OF assms, of "\<lambda>x. gd_companies (bd_gw x)"] arg_cong [OF assms, of "\<lambda>x. gd_team_members (bd_gw x)"]
    arg_cong [OF assms, of "\<lambda>x. gd_agents (bd_gw x)"] arg_cong [OF assms, of bd_projects]
    arg_cong [OF assms, of "\<lambda>x. runs (gd_runs (bd_gw x))"]
  by (simp_all add: rest_def with_tasks_def)

lemma nameless_company:
  assumes "nameless t = nameless u"
  shows "t_company t = t_company u \<and> t_id t = t_id u"
  using arg_cong [OF assms, of t_company] arg_cong [OF assms, of t_id] by (simp add: nameless_def)

lemma nameless_filter:
  assumes "map nameless xs = map nameless ys"
  shows "map nameless (filter (\<lambda>t. t_company t = c) xs) = map nameless (filter (\<lambda>t. t_company t = c) ys)"
proof -
  have "map nameless (filter (\<lambda>t. t_company t = c) zs) = filter (\<lambda>t. t_company t = c) (map nameless zs)" for zs
    unfolding filter_map comp_def nameless_def by simp
  with assms show ?thesis by simp
qed

definition tasks_same :: "id \<Rightarrow> task_db \<Rightarrow> task_db \<Rightarrow> bool" where
  "tasks_same c d d' \<longleftrightarrow> map nameless (filter (\<lambda>t. t_company t = c) (rows (tasks d'))) =
     map nameless (filter (\<lambda>t. t_company t = c) (rows (tasks d)))"

lemma tasks_same_ids:
  assumes "tasks_same c (bd_tasks s) (bd_tasks s')"
  shows "task_ids c s' = task_ids c s"
proof -
  have "task_ids c x = set (map t_id (map nameless (filter (\<lambda>t. t_company t = c) (rows (tasks (bd_tasks x))))))" for x
    by (auto simp: task_ids_def nameless_def)
  with assms show ?thesis unfolding tasks_same_def by metis
qed

lemma company_rows_same:
  assumes "tasks_same c (bd_tasks s) (bd_tasks s')"
    and "filter (\<lambda>r. tr_source r \<in> task_ids c s \<or> tr_target r \<in> task_ids c s) (rows (relations (bd_tasks s'))) =
         filter (\<lambda>r. tr_source r \<in> task_ids c s \<or> tr_target r \<in> task_ids c s) (rows (relations (bd_tasks s)))"
    and "filter (\<lambda>m. cm_task m \<in> task_ids c s) (rows (bd_comments s')) =
         filter (\<lambda>m. cm_task m \<in> task_ids c s) (rows (bd_comments s))"
    and "filter (\<lambda>x. sp_company x = c) (rows (bd_sprints s')) = filter (\<lambda>x. sp_company x = c) (rows (bd_sprints s))"
  shows "company_rows c s' = company_rows c s"
  using assms tasks_same_ids [OF assms(1)] by (simp add: company_rows_def tasks_same_def)

lemma tasks_same_refl [simp]: "tasks_same c d d"
  by (simp add: tasks_same_def)

lemma tasks_same_renamed: "renamed d d' \<Longrightarrow> tasks_same c d d'"
  unfolding tasks_same_def by (rule nameless_filter) (simp add: renamed_def)

lemma tasks_same_inserted: "t_company x \<noteq> c \<Longrightarrow> tasks_same c d (inserted x d)"
  by (simp add: tasks_same_def inserted_def)

lemma tasks_same_trans: "tasks_same c d d1 \<Longrightarrow> tasks_same c d1 d2 \<Longrightarrow> tasks_same c d d2"
  by (simp add: tasks_same_def)

lemma created_tasks:
  assumes "create_task fuel flt kw rw x d = Some (r, d')"
  shows "t_company x \<noteq> c \<Longrightarrow> tasks_same c d d'" and "relations d' = relations d" and "companies d' = companies d"
  using create_task_renamed [OF assms]
    tasks_same_trans [OF tasks_same_inserted tasks_same_renamed, of x c d d']
  by (auto simp: renamed_def inserted_def)

lemma unique_row:
  "wf_table key t \<Longrightarrow> x \<in> set (rows t) \<Longrightarrow> y \<in> set (rows t) \<Longrightarrow> key x = key y \<Longrightarrow> x = y"
  by (metis distinct_map inj_onD strict_sorted_iff wf_table_def)

lemma tasks_same_saved:
  assumes "wf_table t_id (tasks d)" and "t \<in> set (rows (tasks d))" and "t_id x = t_id t"
    and "t_company x = t_company t" and "t_company t \<noteq> c"
  shows "tasks_same c d (d\<lparr>tasks := tbl_save t_id x (tasks d)\<rparr>)"
proof -
  have "t_company r \<noteq> c" if "r \<in> set (rows (tasks d))" "t_id r = t_id x" for r
    using unique_row [OF assms(1) that(1) assms(2)] that(2) assms(3,5) by simp
  then have "filter (\<lambda>t. t_company t = c) (map (\<lambda>r. if t_id r = t_id x then x else r) rs) =
      filter (\<lambda>t. t_company t = c) rs" if "set rs \<subseteq> set (rows (tasks d))" for rs
    using that assms(4,5) by (induction rs) auto
  moreover have "\<exists>r \<in> set (rows (tasks d)). t_id r = t_id x" using assms(2,3) by auto
  ultimately show ?thesis by (simp add: tasks_same_def tbl_save_def)
qed

lemma not_foreign:
  assumes "wf_table t_id (tasks (bd_tasks s))" and "t \<in> set (rows (tasks (bd_tasks s)))"
    and "works_in u (t_company t) s" and "\<not> works_in u c s"
  shows "t_id t \<notin> task_ids c s"
  using unique_row [OF assms(1,2)] assms(3,4) by (auto simp: task_ids_def)

section \<open>What is shown and set going\<close>

definition own_task :: "id \<Rightarrow> board \<Rightarrow> id \<Rightarrow> bool" where
  "own_task u s i \<longleftrightarrow> (\<exists>t \<in> set (rows (tasks (bd_tasks s))). t_id t = i \<and> works_in u (t_company t) s)"

definition own_run :: "id \<Rightarrow> board \<Rightarrow> run \<Rightarrow> bool" where
  "own_run u s r \<longleftrightarrow> works_in u (run_company_id r s) s"

fun shown_ok :: "id \<Rightarrow> board \<Rightarrow> view \<Rightarrow> bool" where
  "shown_ok u s (V_Error _) = True"
| "shown_ok u s V_Ok = True"
| "shown_ok u s (V_Company c) = works_in u (co_id c) s"
| "shown_ok u s (V_Companies cs) = (\<forall>c \<in> set cs. works_in u (co_id c) s)"
| "shown_ok u s (V_Tasks ts) = (\<forall>t \<in> set ts. works_in u (t_company t) s)"
| "shown_ok u s (V_Task t) = works_in u (t_company t) s"
| "shown_ok u s (V_Runs rs) = (\<forall>r \<in> set rs. own_run u s r)"
| "shown_ok u s (V_Run r _) = own_run u s r"
| "shown_ok u s (V_Queued i) = own_task u s i"
| "shown_ok u s (V_Relation r) = (own_task u s (tr_source r) \<and> own_task u s (tr_target r))"
| "shown_ok u s (V_Relations a b c d) =
     (\<forall>x \<in> set (a @ b @ c @ d). \<exists>t \<in> set (rows (tasks (bd_tasks s))). snd x = brief t \<and> works_in u (t_company t) s)"
| "shown_ok u s (V_Comments ms) = (\<forall>m \<in> set ms. own_task u s (cm_task m))"
| "shown_ok u s (V_Comment m) = own_task u s (cm_task m)"
| "shown_ok u s (V_Sprints xs) = (\<forall>x \<in> set xs. works_in u (sp_company x) s)"
| "shown_ok u s (V_Sprint x) = works_in u (sp_company x) s"
| "shown_ok u s (V_Projects ps) = (\<forall>p \<in> set ps. works_in u (pj_company p) s)"
| "shown_ok u s (V_Project p) = works_in u (pj_company p) s"
| "shown_ok u s (V_Agents xs) = (\<forall>a \<in> set xs. works_in u (ag_company a) s)"
| "shown_ok u s (V_Agent a) = works_in u (ag_company a) s"

text \<open>The activity log may get an entry under company 0 when the company cannot be read again.\<close>

fun deed_ok :: "id \<Rightarrow> board \<Rightarrow> deed \<Rightarrow> bool" where
  "deed_ok u s (Broadcast c _ _) = works_in u c s"
| "deed_ok u s (Activity c _ _) = (c = 0 \<or> works_in u c s)"
| "deed_ok u s (Process i) = own_task u s i"
| "deed_ok u s (Rerun i) = own_task u s i"
| "deed_ok u s (Human_Reply i) = own_task u s i"
| "deed_ok u s (Stop i) = (\<exists>r \<in> set (rows (runs (gd_runs (bd_gw s)))). rn_id r = i \<and> own_run u s r)"
| "deed_ok u s (Git_Lifecycle t _) = works_in u (t_company t) s"
| "deed_ok u s (Task_Workspace p _) =
     (\<exists>x \<in> set (rows (bd_projects s)). pj_id x = p \<and> works_in u (pj_company x) s)"

definition task_keys :: "board \<Rightarrow> (id \<times> id) set" where
  "task_keys s = (\<lambda>t. (t_id t, t_company t)) ` set (rows (tasks (bd_tasks s)))"

definition refs_inside :: "board \<Rightarrow> task \<Rightarrow> bool" where
  "refs_inside s t \<longleftrightarrow>
     (\<exists>c \<in> set (rows (gd_companies (bd_gw s))). co_id c = t_company t) \<and>
     (\<forall>p. t_parent t = Some p \<longrightarrow> (p, t_company t) \<in> task_keys s) \<and>
     (\<forall>p. t_project t = Some p \<longrightarrow> (\<exists>x \<in> set (rows (bd_projects s)). pj_id x = p \<and> pj_company x = t_company t)) \<and>
     (\<forall>a. t_agent t = Some a \<longrightarrow> (\<exists>x \<in> set (rows (gd_agents (bd_gw s))). ag_id x = a \<and> ag_company x = t_company t)) \<and>
     (t_sprint t \<noteq> 0 \<longrightarrow> (\<exists>x \<in> set (rows (bd_sprints s)). sp_id x = t_sprint t \<and> sp_company x = t_company t))"

text \<open>Ids are columns of 32 bits; every reference of a task stays in its company; so do relations.\<close>

definition board_ok :: "board \<Rightarrow> bool" where
  "board_ok s \<longleftrightarrow>
     wf_table t_id (tasks (bd_tasks s)) \<and> wf_table tr_id (relations (bd_tasks s)) \<and>
     wf_table rn_id (runs (gd_runs (bd_gw s))) \<and>
     (\<forall>c \<in> set (rows (gd_companies (bd_gw s))). to_int32 (co_id c) = co_id c) \<and>
     (\<forall>t \<in> set (rows (tasks (bd_tasks s))). refs_inside s t) \<and>
     (\<forall>r \<in> set (rows (relations (bd_tasks s))).
        \<exists>c. (tr_source r, c) \<in> task_keys s \<and> (tr_target r, c) \<in> task_keys s)"

definition outcome_ok :: "id \<Rightarrow> board \<Rightarrow> (response \<times> deed list \<times> board) option \<Rightarrow> bool" where
  "outcome_ok u s out \<longleftrightarrow>
     (\<forall>r ds s'. out = Some (r, ds, s') \<longrightarrow>
        untouched u s s' \<and> shown_ok u s' (rs_view r) \<and> (\<forall>d \<in> set ds. deed_ok u s' d) \<and>
        (board_ok s \<longrightarrow> board_ok s'))"

lemma outcome_reject [simp]: "outcome_ok u s (Some (reject n m, [], s))"
  by (simp add: outcome_ok_def)

lemma outcome_if:
  "(b \<Longrightarrow> outcome_ok u s x) \<Longrightarrow> (\<not> b \<Longrightarrow> outcome_ok u s y) \<Longrightarrow> outcome_ok u s (if b then x else y)"
  by simp

lemma outcome_let: "(\<And>x. outcome_ok u s (f x)) \<Longrightarrow> outcome_ok u s (Let v f)"
  by simp

lemma outcome_none [simp]: "outcome_ok u s None"
  by (simp add: outcome_ok_def)

text \<open>The membership is not among what a request changes.\<close>

lemma works_in_rest: "rest_same s s' \<Longrightarrow> works_in u c s' = works_in u c s"
proof -
  assume r: "rest_same s s'"
  note f = rest_fields [OF r]
  have "company_admits co u (bd_gw s') = company_admits co u (bd_gw s)" for co
    by (simp only: company_admits_def f)
  then show ?thesis by (simp only: works_in_def f)
qed

section \<open>Rows that belong together\<close>

definition held :: "id \<Rightarrow> board \<Rightarrow> task \<Rightarrow> bool" where
  "held u s t \<longleftrightarrow> t \<in> set (rows (tasks (bd_tasks s))) \<and> works_in u (t_company t) s"

lemma in_task_keys:
  "(i, c) \<in> task_keys s \<longleftrightarrow> (\<exists>t \<in> set (rows (tasks (bd_tasks s))). t_id t = i \<and> t_company t = c)"
  by (force simp: task_keys_def)

lemma board_ok_wf: "board_ok s \<Longrightarrow> wf_table t_id (tasks (bd_tasks s))"
  by (simp add: board_ok_def)

lemma task_of_key:
  "board_ok s \<Longrightarrow> (i, c) \<in> task_keys s \<Longrightarrow> t \<in> set (rows (tasks (bd_tasks s))) \<Longrightarrow> t_id t = i \<Longrightarrow> t_company t = c"
  using unique_row [OF board_ok_wf] by (fastforce simp: task_keys_def)

lemma company_range:
  "board_ok s \<Longrightarrow> t \<in> set (rows (tasks (bd_tasks s))) \<Longrightarrow> to_int32 (t_company t) = t_company t"
  by (metis board_ok_def refs_inside_def)

lemma held_own: "held u s t \<Longrightarrow> own_task u s (t_id t)"
  by (auto simp: held_def own_task_def)

lemma held_authorized: "authorize_task f u i s = Some t \<Longrightarrow> held u s t \<and> t_id t = i"
  by (auto simp: held_def dest: authorized_task)

lemma held_peer:
  "board_ok s \<Longrightarrow> held u s t \<Longrightarrow> r \<in> set (rows (relations (bd_tasks s))) \<Longrightarrow> t_id t \<in> {tr_source r, tr_target r} \<Longrightarrow>
   x \<in> set (rows (tasks (bd_tasks s))) \<Longrightarrow> t_id x \<in> {tr_source r, tr_target r} \<Longrightarrow> held u s x"
proof -
  assume a: "board_ok s" "held u s t" "r \<in> set (rows (relations (bd_tasks s)))" "t_id t \<in> {tr_source r, tr_target r}"
    "x \<in> set (rows (tasks (bd_tasks s)))" "t_id x \<in> {tr_source r, tr_target r}"
  then obtain c where "(tr_source r, c) \<in> task_keys s" "(tr_target r, c) \<in> task_keys s"
    by (auto simp: board_ok_def)
  then have "t_company t = c" "t_company x = c"
    using a task_of_key [OF a(1)] by (auto simp: held_def)
  with a show ?thesis by (simp add: held_def)
qed

section \<open>Reading\<close>

lemma outcome_read:
  "shown_ok u s v \<Longrightarrow> (\<And>d. d \<in> set ds \<Longrightarrow> deed_ok u s d) \<Longrightarrow>
   outcome_ok u s (Some (\<lparr>rs_status = n, rs_view = v\<rparr>, ds, s))"
  by (simp add: outcome_ok_def)

lemma load_resource_ok:
  "(\<And>i r. auth i s = Some r \<Longrightarrow> outcome_ok u s (next r s)) \<Longrightarrow>
   outcome_ok u s (load_resource auth missing param next s)"
  by (simp add: load_resource_def split: option.split)

lemma load_task_ok:
  "(\<And>t. held u s t \<Longrightarrow> outcome_ok u s (next t s)) \<Longrightarrow> outcome_ok u s (load_task f u param next s)"
  unfolding load_task_def by (rule load_resource_ok) (auto dest: held_authorized)

lemma load_run_ok:
  "(\<And>r. r \<in> set (rows (runs (gd_runs (bd_gw s)))) \<Longrightarrow> own_run u s r \<Longrightarrow> outcome_ok u s (next r s)) \<Longrightarrow>
   outcome_ok u s (load_run f u param next s)"
  unfolding load_run_def by (rule load_resource_ok) (auto simp: own_run_def dest: authorized_run)

lemma companies_ok: "outcome_ok u s (list_companies_api fault u s)"
proof -
  have w: "works_in u (co_id c) s" if "c \<in> set (list_companies_for_user u s)" for c
  proof -
    have "c \<in> set (rows (gd_companies (bd_gw s)))" "company_admits c u (bd_gw s)"
      using that by (auto simp: list_companies_for_user_def company_admits_def split: option.splits)
    then show ?thesis unfolding works_in_def by blast
  qed
  show ?thesis by (auto simp: list_companies_api_def intro!: outcome_read w)
qed

lemma task_list_ok: "board_ok s \<Longrightarrow> outcome_ok u s (list_tasks f u q s)"
proof -
  assume ok: "board_ok s"
  let ?c = "atoi_or_zero (tq_company q)"
  have w: "works_in u (t_company t) s"
    if "authorize_company (f 0) u (to_int32 ?c) s \<noteq> None" "t \<in> set (tbl_find (task_matches q) (tasks (bd_tasks s)))" for t
    using authorized' [OF that(1)] that(2) company_range [OF ok, of t] by (auto simp: task_matches_def)
  show ?thesis unfolding list_tasks_def by (auto intro!: outcome_read w)
qed

lemma task_of_run:
  assumes "board_ok s" and "t \<in> set (rows (tasks (bd_tasks s)))" and "rn_task r = t_id t"
  shows "run_company_id r s = t_company t"
proof -
  have "tbl_get t_id (t_id t) (tasks (bd_tasks s)) = Some t"
    using unique_row [OF board_ok_wf [OF assms(1)] _ assms(2)] assms(2)
    by (cases "tbl_get t_id (t_id t) (tasks (bd_tasks s))")
      (auto simp: tbl_get_def tbl_first_None_iff dest: tbl_first_Some_D)
  with assms(3) show ?thesis by (simp add: run_company_id_def)
qed

lemma run_list_ok: "board_ok s \<Longrightarrow> held u s t \<Longrightarrow> outcome_ok u s (list_task_runs fault t s)"
  by (auto simp: list_task_runs_def list_runs_by_task_def own_run_def held_def task_of_run intro!: outcome_read)

lemma get_task_ok: "held u s t \<Longrightarrow> outcome_ok u s (get_task_api t s)"
  by (auto simp: get_task_api_def held_def intro!: outcome_read)

lemma climb_held:
  assumes "board_ok s" and "held u s t" and "climb_to_main flt k t s = Some m"
  shows "held u s m"
proof -
  have step: "held u s p" if "held u s x" "t_parent x = Some i" "load_task_row z i s = Some p" for x i p z
  proof -
    have "(i, t_company x) \<in> task_keys s"
      using that(1,2) assms(1) by (auto simp: held_def board_ok_def refs_inside_def)
    then show ?thesis
      using task_of_key [OF assms(1)] loaded_row [OF that(3)] that(1) by (auto simp: held_def)
  qed
  have "s0 = s \<longrightarrow> held u s x \<longrightarrow> held u s m" if "climb_to_main flt k x s0 = Some m" for flt k x s0 m
    using that
    by (rule climb_to_main.raw_induct [where P = "\<lambda>flt k x s0 m. s0 = s \<longrightarrow> held u s x \<longrightarrow> held u s m", rotated])
      (auto split: option.splits dest: step)
  with assms show ?thesis by blast
qed

lemma rerun_ok: "board_ok s \<Longrightarrow> held u s t \<Longrightarrow> outcome_ok u s (rerun_task_api e flt t s)"
  using climb_held [of s u t flt 0]
  by (cases "climb_to_main flt 0 t s") (auto simp: rerun_task_api_def held_own intro!: outcome_read split: option.split)

lemma peers_in:
  "x \<in> set (peers far p rs s) \<Longrightarrow>
   \<exists>r \<in> set rs. (\<exists>t \<in> set (rows (tasks (bd_tasks s))). t_id t = far r \<and> snd x = brief t)"
  by (auto simp: peers_def List.map_filter_def tbl_get_def split: if_splits) (frule tbl_first_Some_D, auto)+

lemma relation_list_ok:
  assumes "board_ok s" and "held u s t"
  shows "outcome_ok u s (list_relations_api flt t s)"
proof -
  let ?rs = "list_task_relations (t_id t) (bd_tasks s)"
  have in_table: "r \<in> set (rows (relations (bd_tasks s))) \<and> t_id t \<in> {tr_source r, tr_target r}" if "r \<in> set ?rs" for r
    using that by (auto simp: list_task_relations_def)
  have "\<exists>y \<in> set (rows (tasks (bd_tasks s))). snd x = brief y \<and> works_in u (t_company y) s"
    if x: "x \<in> set (peers far p ?rs s)" and ends: "\<And>r. far r \<in> {tr_source r, tr_target r}" for x far p
  proof -
    obtain r y where r: "r \<in> set ?rs" "y \<in> set (rows (tasks (bd_tasks s)))" "t_id y = far r" "snd x = brief y"
      using peers_in [OF x] by fast
    then have "held u s y"
      using held_peer [OF assms, of r y] in_table [OF r(1)] ends [of r] by (metis r(2,3))
    with r show ?thesis by (auto simp: held_def)
  qed
  then show ?thesis
    unfolding list_relations_api_def Let_def by (auto intro!: outcome_read)
qed

lemma comment_list_ok: "outcome_ok u s (list_comments_api f u param s)"
  by (auto simp: list_comments_api_def list_comments_by_task_def intro!: outcome_read
      dest!: held_authorized dest: held_own split: option.splits)

lemma sprint_list_ok: "outcome_ok u s (list_sprints_api f u param s)"
  by (auto simp: list_sprints_api_def intro!: outcome_read dest!: authorized split: option.splits)

lemma run_ok: "own_run u s r \<Longrightarrow> outcome_ok u s (get_run_api fault r s)"
  by (auto simp: get_run_api_def intro!: outcome_read)

lemma run_by_session_ok: "board_ok s \<Longrightarrow> outcome_ok u s (get_run_by_session_api f u sid s)"
proof -
  assume ok: "board_ok s"
  have w: "own_run u s r"
    if "get_run_by_session_id sid (gd_runs (bd_gw s)) = Some r" "authorize_run (f 1) u (rn_id r) s = Some q" for z r q
  proof -
    have "r \<in> set (rows (runs (gd_runs (bd_gw s))))"
      using that(1) by (auto simp: get_run_by_session_id_def dest: tbl_first_Some_D split: if_splits)
    then have "q = r"
      using authorized_run [OF that(2)] ok unique_row [of rn_id "runs (gd_runs (bd_gw s))"] by (auto simp: board_ok_def)
    then show ?thesis using authorized_run [OF that(2)] by (simp add: own_run_def)
  qed
  show ?thesis unfolding get_run_by_session_api_def
    by (auto intro!: outcome_read intro: w [simplified] split: option.split if_split)
qed

lemma company_runs_ok:
  assumes "board_ok s"
  shows "outcome_ok u s (list_company_runs_api f u param s)"
proof -
  let ?c = "atoi_or_zero param"
  have w: "own_run u s r"
    if "authorize_company (f 0) u (to_int32 ?c) s \<noteq> None" "rn_task r = t_id t" "t_company t = ?c"
      "t \<in> set (rows (tasks (bd_tasks s)))" for t r
    using authorized' [OF that(1)] that(2-) company_range [OF assms, of t] task_of_run [OF assms, of t r]
    by (simp add: own_run_def)
  show ?thesis unfolding list_company_runs_api_def Let_def
    by (auto intro!: outcome_read w)
qed

lemma projects_ok: "outcome_ok u s (list_projects_api f u param s)"
  by (auto simp: list_projects_api_def split: option.splits intro!: outcome_read dest: authorized)

lemma project_ok: "outcome_ok u s (load_project f u param get_project_api s)"
  unfolding load_project_def
  by (rule load_resource_ok)
    (auto simp: authorize_project_def scoped_Some get_project_api_def intro!: outcome_read dest: authorized)

lemma agents_ok: "outcome_ok u s (list_agents_api f u param s)"
  by (auto simp: list_agents_api_def split: option.splits intro!: outcome_read dest: authorized)

lemma agent_ok: "outcome_ok u s (load_agent f u param get_agent_api s)"
  unfolding load_agent_def
  by (rule load_resource_ok)
    (auto simp: authorize_agent_def scoped_Some get_agent_api_def intro!: outcome_read dest: authorized)

lemma stop_ok: "r \<in> set (rows (runs (gd_runs (bd_gw s)))) \<Longrightarrow> own_run u s r \<Longrightarrow> outcome_ok u s (stop_run_api r s)"
  by (auto simp: stop_run_api_def intro!: outcome_read)

section \<open>Writing\<close>

lemma outcome_write:
  "untouched u s s' \<Longrightarrow> (board_ok s \<Longrightarrow> board_ok s') \<Longrightarrow> shown_ok u s' v \<Longrightarrow> (\<And>d. d \<in> set ds \<Longrightarrow> deed_ok u s' d) \<Longrightarrow>
   outcome_ok u s (Some (\<lparr>rs_status = n, rs_view = v\<rparr>, ds, s'))"
  by (simp add: outcome_ok_def)

lemma nameless_refs:
  assumes "nameless t = nameless t'"
  shows "t_id t = t_id t' \<and> t_company t = t_company t' \<and> refs_inside s t = refs_inside s t'"
  using arg_cong [OF assms, of t_company] arg_cong [OF assms, of t_parent] arg_cong [OF assms, of t_project]
    arg_cong [OF assms, of t_agent] arg_cong [OF assms, of t_sprint] arg_cong [OF assms, of t_id]
  by (simp add: nameless_def refs_inside_def)

lemma refs_inside_mono:
  assumes "refs_inside s t" and "rest_same s s'" and "task_keys s \<subseteq> task_keys s'"
    and "set (rows (bd_sprints s)) \<subseteq> set (rows (bd_sprints s'))"
  shows "refs_inside s' t"
  using assms rest_fields [OF assms(2)] unfolding refs_inside_def by auto

lemma board_ok_after:
  assumes "board_ok s" and "rest_same s s'" and "task_keys s \<subseteq> task_keys s'"
    and "set (rows (bd_sprints s)) \<subseteq> set (rows (bd_sprints s'))"
    and "wf_table t_id (tasks (bd_tasks s'))" and "wf_table tr_id (relations (bd_tasks s'))"
    and "\<And>t. t \<in> set (rows (tasks (bd_tasks s'))) \<Longrightarrow> refs_inside s t"
    and "\<And>r. r \<in> set (rows (relations (bd_tasks s'))) \<Longrightarrow> r \<in> set (rows (relations (bd_tasks s))) \<or>
      (\<exists>c. (tr_source r, c) \<in> task_keys s \<and> (tr_target r, c) \<in> task_keys s)"
  shows "board_ok s'"
proof -
  have "\<exists>c. (tr_source r, c) \<in> task_keys s' \<and> (tr_target r, c) \<in> task_keys s'"
    if "r \<in> set (rows (relations (bd_tasks s')))" for r
    using assms(8) [OF that] assms(1,3) by (fastforce simp: board_ok_def)
  moreover have "refs_inside s' t" if "t \<in> set (rows (tasks (bd_tasks s')))" for t
    using assms(7) [OF that] refs_inside_mono assms(2-4) by blast
  ultimately show ?thesis
    using assms(1,5,6) rest_fields [OF assms(2)] by (simp add: board_ok_def)
qed

definition relations_same :: "id \<Rightarrow> board \<Rightarrow> task_db \<Rightarrow> bool" where
  "relations_same c s d \<longleftrightarrow>
     filter (\<lambda>r. tr_source r \<in> task_ids c s \<or> tr_target r \<in> task_ids c s) (rows (relations d)) =
     filter (\<lambda>r. tr_source r \<in> task_ids c s \<or> tr_target r \<in> task_ids c s) (rows (relations (bd_tasks s)))"

lemma untouched_tasks:
  assumes "companies d = companies (bd_tasks s)"
    and "\<And>c. \<not> works_in u c s \<Longrightarrow> tasks_same c (bd_tasks s) d \<and> relations_same c s d"
  shows "untouched u s (with_tasks d s)"
  unfolding untouched_def using assms
  by (auto simp: rest_same_with_tasks relations_same_def intro!: company_rows_same)

lemma relations_same_refl: "relations d = relations (bd_tasks s) \<Longrightarrow> relations_same c s d"
  by (simp add: relations_same_def)

lemma works_in_with_tasks: "companies d = companies (bd_tasks s) \<Longrightarrow> works_in u c (with_tasks d s) = works_in u c s"
  by (rule works_in_rest [OF rest_same_with_tasks])

lemma ensured_row: "ensure_task_git_branch flt walk t s = (Inr x, s') \<Longrightarrow> nameless x = nameless t"
  by (auto simp: ensure_task_git_branch_def Let_def split: sum.splits if_splits)

lemma stored_row: "nameless (fst (store_ref_key f r t s)) = nameless t"
  by (simp add: store_ref_key_def split: sum.split)

lemma created_row:
  assumes "create_task fuel flt kw rw t s = Some (Inr x, s')"
  shows "nameless x = nameless (set_t_id (next_key (tasks s)) t)"
proof -
  let ?u = "set_t_id (next_key (tasks s)) t" and ?ens = "ensure_task_git_branch (\<lambda>n. flt (n + 2)) rw"
  have "\<exists>v s1. nameless v = nameless ?u \<and> ?ens v s1 = (Inr x, s')"
  proof (cases "t_ref_key t = []")
    case True
    then have "\<exists>r s1. ?ens (fst (store_ref_key (flt 1) r ?u s1)) (snd (store_ref_key (flt 1) r ?u s1)) = (Inr x, s')"
      using assms by (fastforce simp: create_task_def tbl_create_def case_prod_beta Let_def split: if_splits option.splits)
    then show ?thesis by (metis stored_row)
  next
    case False
    then have "?ens ?u (inserted t s) = (Inr x, s')"
      using assms by (auto simp: create_task_def inserted_def tbl_create_def Let_def split: if_splits)
    then show ?thesis by blast
  qed
  then show ?thesis by (metis ensured_row)
qed

lemma created_company: "create_task fuel flt kw rw t s = Some (Inr x, s') \<Longrightarrow> t_company x = t_company t"
  using nameless_company [OF created_row] by simp

lemma authorized_refs:
  assumes "authorize_task_refs f u c project agent sprint parent s"
  shows "project = Some i \<Longrightarrow> \<exists>x \<in> set (rows (bd_projects s)). pj_id x = i \<and> pj_company x = c"
    and "agent = Some i \<Longrightarrow> \<exists>x \<in> set (rows (gd_agents (bd_gw s))). ag_id x = i \<and> ag_company x = c"
    and "sprint = Some i \<Longrightarrow> i \<noteq> 0 \<Longrightarrow> \<exists>x \<in> set (rows (bd_sprints s)). sp_id x = i \<and> sp_company x = c"
    and "parent = Some i \<Longrightarrow> (i, c) \<in> task_keys s"
proof -
  note a = assms [unfolded authorize_task_refs_def]
  show "\<exists>x \<in> set (rows (bd_projects s)). pj_id x = i \<and> pj_company x = c" if "project = Some i"
    using a that by (auto simp: authorize_project_def scoped_Some dest!: fetched split: option.splits)
  show "\<exists>x \<in> set (rows (gd_agents (bd_gw s))). ag_id x = i \<and> ag_company x = c" if "agent = Some i"
    using a that by (auto simp: authorize_agent_def scoped_Some dest!: fetched split: option.splits)
  show "\<exists>x \<in> set (rows (bd_sprints s)). sp_id x = i \<and> sp_company x = c" if "sprint = Some i" "i \<noteq> 0"
    using a that by (auto simp: sprint_in_def dest!: fetched split: option.splits)
  show "(i, c) \<in> task_keys s" if "parent = Some i"
    using a that by (auto simp: in_task_keys dest!: loaded_row split: option.splits)
qed

lemma board_ok_created:
  assumes "board_ok s" and "create_task fuel flt kw rw t (bd_tasks s) = Some (r, d)" and "refs_inside s t"
  shows "board_ok (with_tasks d s)"
proof (cases "d = bd_tasks s")
  case True
  then show ?thesis using assms(1) by (simp add: with_tasks_def)
next
  case False
  let ?i = "inserted t (bd_tasks s)"
  have ren: "renamed ?i d" using create_task_renamed [OF assms(2)] False by simp
  have img: "nameless ` set (rows (tasks ?i)) = nameless ` set (rows (tasks d))"
    unfolding list.set_map [symmetric] using ren by (simp only: renamed_def)
  have row: "\<exists>y \<in> set (rows (tasks d)). nameless y = nameless x" if "x \<in> set (rows (tasks ?i))" for x
    using imageI [OF that, of nameless] unfolding img by auto
  have old: "\<exists>x \<in> set (rows (tasks ?i)). nameless y = nameless x" if "y \<in> set (rows (tasks d))" for y
    using imageI [OF that, of nameless] unfolding img [symmetric] by auto
  show ?thesis
  proof (rule board_ok_after [OF assms(1)])
    show "rest_same s (with_tasks d s)"
      using ren by (intro rest_same_with_tasks) (simp add: renamed_def inserted_def)
    show "task_keys s \<subseteq> task_keys (with_tasks d s)"
    proof
      fix k assume "k \<in> task_keys s"
      then obtain x where x: "k = (t_id x, t_company x)" "x \<in> set (rows (tasks ?i))"
        by (auto simp: task_keys_def inserted_def)
      obtain y where "y \<in> set (rows (tasks d))" "nameless y = nameless x" using row [OF x(2)] by blast
      then show "k \<in> task_keys (with_tasks d s)"
        using nameless_company [of y x] by (auto simp: x(1) in_task_keys)
    qed
    show "wf_table t_id (tasks (bd_tasks (with_tasks d s)))"
      using wf_renamed [OF ren] wf_inserted board_ok_wf [OF assms(1)] by simp
    show "wf_table tr_id (relations (bd_tasks (with_tasks d s)))"
      using ren assms(1) by (simp add: renamed_def inserted_def board_ok_def)
    show "refs_inside s y" if y: "y \<in> set (rows (tasks (bd_tasks (with_tasks d s))))" for y
    proof -
      have "y \<in> set (rows (tasks d))" using y by simp
      then obtain x where x: "x \<in> set (rows (tasks ?i))" "nameless y = nameless x" using old by blast
      then have "refs_inside s x"
        using assms(1,3) by (auto simp: inserted_def board_ok_def refs_inside_def)
      then show ?thesis using nameless_refs [OF x(2)] by simp
    qed
  qed (use ren in \<open>auto simp: renamed_def inserted_def\<close>)
qed

lemma new_row_refs:
  assumes "works_in u (nt_company b) s"
    and "authorize_task_refs f u (nt_company b) (nt_project b) (nt_agent b) (Some (nt_sprint b)) (nt_parent b) s"
  shows "refs_inside s (new_task_row e b branch)"
proof -
  have "\<exists>c \<in> set (rows (gd_companies (bd_gw s))). co_id c = nt_company b"
    using assms(1) unfolding works_in_def by blast
  then show ?thesis
    using authorized_refs [OF assms(2)] by (simp add: refs_inside_def new_task_row_def)
qed

lemma task_created_ok: "outcome_ok u s (create_task_api e f u body s)"
proof -
  have main: "outcome_ok u s
      (case create_task fuel flt kw rw (new_task_row e b branch) (bd_tasks s) of
         None \<Rightarrow> None
       | Some (Inl _, t) \<Rightarrow> answer_with (reject 500 msg) (with_tasks t s)
       | Some (Inr x, t) \<Rightarrow>
           (let co = v in Some (respond 201 (V_Task x),
             Broadcast (t_company x) ev (t_id x) #
             (case nt_project b of None \<Rightarrow> [] | Some p \<Rightarrow> [Task_Workspace p (t_id x)]) @
             [Activity co ev (t_id x)], with_tasks t s)))"
    if company: "works_in u (nt_company b) s"
      and project: "\<And>p. nt_project b = Some p \<Longrightarrow> \<exists>x \<in> set (rows (bd_projects s)). pj_id x = p \<and> pj_company x = nt_company b"
      and v: "v = 0 \<or> v = nt_company b" and row: "refs_inside s (new_task_row e b branch)"
    for b branch v fuel flt kw rw msg ev
  proof (cases "create_task fuel flt kw rw (new_task_row e b branch) (bd_tasks s)")
    case (Some out)
    obtain r t where out: "out = (r, t)" by force
    note c = created_tasks [OF Some [unfolded out]]
    have same: "tasks_same c (bd_tasks s) t" if "\<not> works_in u c s" for c
      using c(1) that \<open>works_in u (nt_company b) s\<close> by (cases "nt_company b = c") (auto simp: new_task_row_def)
    then have un: "untouched u s (with_tasks t s)"
      using c by (auto intro: untouched_tasks relations_same_refl)
    have fine: "board_ok s \<Longrightarrow> board_ok (with_tasks t s)"
      using board_ok_created Some row by (simp add: out)
    have w: "works_in u c (with_tasks t s) = works_in u c s" for c
      using c(3) by (rule works_in_with_tasks)
    show ?thesis
    proof (cases r)
      case (Inr x)
      have "t_company x = nt_company b"
        using created_company Some out Inr by (simp add: new_task_row_def)
      moreover have "\<exists>x \<in> set (rows (bd_projects s)). pj_id x = p \<and> works_in u (pj_company x) s"
        if "nt_project b = Some p" for p
        using project [OF that] company by metis
      moreover have "v = 0 \<or> works_in u v s" using v company by auto
      ultimately show ?thesis
        using un w company by (auto simp: Some out Inr intro!: outcome_write fine split: option.split) blast+
    next
      case (Inl a)
      then show ?thesis using un by (auto simp: Some out intro!: outcome_write fine)
    qed
  qed simp
  show ?thesis
  proof (cases body)
    case (Some b)
    have co: "(case fetch z co_id i t of None \<Rightarrow> 0 | Some c \<Rightarrow> co_id c) = 0 \<or>
        (case fetch z co_id i t of None \<Rightarrow> 0 | Some c \<Rightarrow> co_id c) = i" for z i t
      by (auto dest: fetched split: option.split)
    show ?thesis
      unfolding create_task_api_def Some option.case
      by (intro outcome_let outcome_if outcome_reject main co)
        (simp_all only: not_not, erule authorized', metis authorized_refs(1), rule new_row_refs, erule authorized', assumption)
  qed (simp add: create_task_api_def)
qed

lemma updated:
  assumes "update_task flt now t d = (r, d')"
  shows "d' = d \<and> (\<exists>e. r = Inl e) \<or>
    (\<exists>stamp. r = Inr (t\<lparr>t_done_at := stamp\<rparr>) \<and> d' = d\<lparr>tasks := tbl_save t_id (t\<lparr>t_done_at := stamp\<rparr>) (tasks d)\<rparr>)"
proof -
  have "(case get_task (flt 0) (t_id t) d of Inl _ \<Rightarrow> t | Inr p \<Rightarrow> t\<lparr>t_done_at := done_at_for_save now p t\<rparr>) =
      t\<lparr>t_done_at := (case get_task (flt 0) (t_id t) d of Inl _ \<Rightarrow> t_done_at t | Inr p \<Rightarrow> done_at_for_save now p t)\<rparr>"
    by (simp split: sum.split)
  then show ?thesis using assms unfolding update_task_def Let_def by (auto split: if_splits)
qed

lemma saved_member: "\<exists>r \<in> set (rows t). key r = key x \<Longrightarrow> x \<in> set (rows (tbl_save key x t))"
  by (force simp: tbl_save_def)

lemma rest_same_comments: "rest_same s (s\<lparr>bd_comments := cs\<rparr>)" "rest_same s (s\<lparr>bd_sprints := xs\<rparr>)"
  by (simp_all add: rest_def with_tasks_def)

lemma untouched_trans: "untouched u s s1 \<Longrightarrow> untouched u s1 s2 \<Longrightarrow> untouched u s s2"
  unfolding untouched_def using works_in_rest by metis

lemma commented:
  assumes "wf_table t_id (tasks (bd_tasks s))" and "held u s t" and "cm_task m = t_id t"
    and "create_comment z now m (bd_comments s) = (r, cs)"
  shows "untouched u s (s\<lparr>bd_comments := cs\<rparr>)"
    and "r = Inr m' \<Longrightarrow> cm_task m' = t_id t"
  using assms not_foreign [OF assms(1), of t u]
  by (auto simp: untouched_def company_rows_def task_ids_def create_comment_def held_def rest_same_comments
      tbl_create_def Let_def split: if_splits)

lemma saved_ok:
  assumes "board_ok s" and "held u s t" and "t_id x = t_id t" and "t_company x = t_company t"
    and "update_task flt now x (bd_tasks s) = (r, d)"
  shows "untouched u s (with_tasks d s)"
    and "r = Inr y \<Longrightarrow> y \<in> set (rows (tasks d)) \<and> t_id y = t_id t \<and> t_company y = t_company t"
proof -
  let ?d = "\<lambda>stamp. (bd_tasks s)\<lparr>tasks := tbl_save t_id (x\<lparr>t_done_at := stamp\<rparr>) (tasks (bd_tasks s))\<rparr>"
  have "tasks_same c (bd_tasks s) (?d stamp)" if "\<not> works_in u c s" for c stamp
    using assms(2-4) that by (intro tasks_same_saved [OF board_ok_wf [OF assms(1)], of t]) (auto simp: held_def)
  then show "untouched u s (with_tasks d s)"
    using updated [OF assms(5)] by (auto intro!: untouched_tasks relations_same_refl)
  show "y \<in> set (rows (tasks d)) \<and> t_id y = t_id t \<and> t_company y = t_company t" if "r = Inr y"
    using updated [OF assms(5)] that assms(2-4) by (auto simp: held_def intro!: saved_member bexI [of _ t])
qed

lemma held_after:
  "rest_same s s' \<Longrightarrow> t \<in> set (rows (tasks (bd_tasks s'))) \<Longrightarrow> works_in u (t_company t) s \<Longrightarrow> held u s' t"
  unfolding held_def using works_in_rest by blast

lemma task_keys_saved:
  assumes "board_ok s" and "held u s t" and "t_id x = t_id t" and "t_company x = t_company t"
    and "update_task flt now x (bd_tasks s) = (r, d)"
  shows "task_keys (with_tasks d s) = task_keys s"
proof -
  have "(t_id (if t_id y = t_id x then z else y), t_company (if t_id y = t_id x then z else y)) = (t_id y, t_company y)"
    if "y \<in> set (rows (tasks (bd_tasks s)))" "t_id z = t_id x" "t_company z = t_company x" for y z
    using unique_row [OF board_ok_wf [OF assms(1)] that(1), of t] assms(2-4) that by (auto simp: held_def)
  then have "(\<lambda>t. (t_id t, t_company t)) ` (\<lambda>y. if t_id y = t_id x then z else y) ` set (rows (tasks (bd_tasks s))) = task_keys s"
    if "t_id z = t_id x" "t_company z = t_company x" for z
    using that unfolding task_keys_def image_image by (intro image_cong refl) blast
  moreover have "\<exists>y \<in> set (rows (tasks (bd_tasks s))). t_id y = t_id x"
    using assms(2,3) by (auto simp: held_def)
  ultimately have "task_keys (with_tasks ((bd_tasks s)\<lparr>tasks := tbl_save t_id z (tasks (bd_tasks s))\<rparr>) s) = task_keys s"
    if "t_id z = t_id x" "t_company z = t_company x" for z
    using that by (simp add: task_keys_def [of "with_tasks _ _"] tbl_save_def image_image)
  moreover have "task_keys (with_tasks (bd_tasks s) s) = task_keys s" by (simp add: task_keys_def)
  ultimately show ?thesis
    using updated [OF assms(5)] by auto
qed

lemma peer_key:
  assumes "board_ok s" and "r \<in> set (rows (relations (bd_tasks s)))"
    and "(i, c) \<in> task_keys s" and "(j, c') \<in> task_keys s" and "{i, j} \<subseteq> {tr_source r, tr_target r}"
  shows "c' = c"
proof -
  have same: "d = d'" if a: "(k, d) \<in> task_keys s" and b: "(k, d') \<in> task_keys s" for k d d'
  proof -
    obtain t where "t \<in> set (rows (tasks (bd_tasks s)))" "t_id t = k" "t_company t = d"
      using a by (auto simp: in_task_keys)
    then show ?thesis using task_of_key [OF assms(1) b] by simp
  qed
  obtain d where "(tr_source r, d) \<in> task_keys s" "(tr_target r, d) \<in> task_keys s"
    using assms(1,2) by (auto simp: board_ok_def)
  then show ?thesis using same assms(3-5) by blast
qed

lemma dependents_own:
  assumes "board_ok s" and "relations (bd_tasks s') = relations (bd_tasks s)" and "task_keys s' = task_keys s"
    and "(i, c) \<in> task_keys s" and "works_in u c s'" and "d \<in> set (reconcile_dependents z i s')"
  shows "deed_ok u s' d"
proof -
  obtain x where x: "d = Process (t_id x)" "x \<in> set (list_dependent_tasks i (bd_tasks s'))"
    using assms(6) by (auto simp: reconcile_dependents_def split: if_splits)
  then obtain r where r: "r \<in> set (rows (relations (bd_tasks s)))" "tr_target r = i"
    "tbl_get t_id (tr_source r) (tasks (bd_tasks s')) = Some x"
    by (auto simp: list_dependent_tasks_def joined_def List.map_filter_def assms(2))
  then have x': "x \<in> set (rows (tasks (bd_tasks s')))" "t_id x = tr_source r"
    by (auto simp: tbl_get_def dest: tbl_first_Some_D)
  then have "(t_id x, t_company x) \<in> task_keys s'" by (auto simp: in_task_keys)
  then have "t_company x = c"
    using peer_key [OF assms(1) r(1) assms(4)] assms(3) x' r(2) by simp
  with x' assms(5) show ?thesis by (auto simp: x(1) own_task_def)
qed

lemma board_ok_comments [simp]: "board_ok (s\<lparr>bd_comments := cs\<rparr>) = board_ok s"
proof -
  have "refs_inside (s\<lparr>bd_comments := cs\<rparr>) t = refs_inside s t" for t
    unfolding refs_inside_def task_keys_def by simp
  then show ?thesis unfolding board_ok_def task_keys_def by simp
qed

lemma board_ok_saved:
  assumes "board_ok s" and "held u s t" and "t_id x = t_id t" and "t_company x = t_company t"
    and "update_task flt now x (bd_tasks s) = (r, d)" and "refs_inside s x"
  shows "board_ok (with_tasks d s)"
proof -
  note up = updated [OF assms(5)]
  show ?thesis
  proof (rule board_ok_after [OF assms(1)])
    show "rest_same s (with_tasks d s)" using up by (intro rest_same_with_tasks) auto
    show "task_keys s \<subseteq> task_keys (with_tasks d s)"
      using task_keys_saved [OF assms(1-5)] by simp
    show "wf_table t_id (tasks (bd_tasks (with_tasks d s)))"
      using up board_ok_wf [OF assms(1)] by (auto intro: task_rows.wf_save)
    show "wf_table tr_id (relations (bd_tasks (with_tasks d s)))"
      using up assms(1) by (auto simp: board_ok_def)
    show "refs_inside s y" if y: "y \<in> set (rows (tasks (bd_tasks (with_tasks d s))))" for y
    proof -
      have "y \<in> set (rows (tasks (bd_tasks s))) \<or> (\<exists>stamp. y = x\<lparr>t_done_at := stamp\<rparr>)"
        using up y set_tbl_save by fastforce
      moreover have "refs_inside s (x\<lparr>t_done_at := stamp\<rparr>)" for stamp
        using assms(6) by (simp add: refs_inside_def)
      ultimately show ?thesis using assms(1) unfolding board_ok_def by blast
    qed
  qed (use up in auto)
qed

lemma changed_refs:
  assumes "board_ok s" and "held u s t" and "t_company x = t_company t"
    and "authorize_task_refs f u (t_company t) (tc_project b) (tc_agent b) (tc_sprint b) (tc_parent b) s"
    and "change_base_branch e b (change_texts b t) = Inr x"
  shows "refs_inside s (change_refs b x)"
proof -
  have t: "refs_inside s t" using assms(1,2) by (simp add: board_ok_def held_def)
  have x: "t_parent x = t_parent t" "t_project x = t_project t" "t_agent x = t_agent t" "t_sprint x = t_sprint t"
    using assms(5) by (auto simp: change_base_branch_def change_texts_def split: if_splits)
  show ?thesis
    using t authorized_refs [OF assms(4)]
    by (auto simp: refs_inside_def change_refs_def given_opt_def x assms(3) split: option.splits if_splits)
qed

lemma task_updated_ok:
  assumes "board_ok s" and "held u s t"
  shows "outcome_ok u s (update_task_api e f u body t s)"
proof -
  have after: "outcome_ok u s (after_update e g old b y (with_tasks d s))"
    if saved: "update_task flt now x (bd_tasks s) = (Inr y, d)" and x: "t_id x = t_id t" "t_company x = t_company t"
      and refs: "refs_inside s x"
    for g old b y d flt now x
  proof -
    let ?s = "with_tasks d s"
    note un = saved_ok(1) [OF assms x saved]
    have y: "y \<in> set (rows (tasks d))" "t_id y = t_id t" "t_company y = t_company t"
      using saved_ok(2) [OF assms x saved refl] by simp_all
    have d: "relations d = relations (bd_tasks s)" "companies d = companies (bd_tasks s)" "wf_table t_id (tasks d)"
      using updated [OF saved] board_ok_wf [OF assms(1)] by (auto intro: task_rows.wf_save)
    have w: "works_in u c (?s\<lparr>bd_comments := cs\<rparr>) = works_in u c s" for c cs
      by (rule works_in_rest) (simp add: rest_same_comments rest_same_with_tasks d(2))
    have heldy: "held u ?s y"
      using y assms(2) works_in_with_tasks [OF d(2)] by (simp add: held_def)
    define out where "out = (if tc_status b \<noteq> [] \<and> tc_status b \<noteq> old
      then (case create_comment (g 0 0) (ae_now e) (status_comment e (t_id y) old (t_status y)) (bd_comments s) of
              (Inl _, cs) \<Rightarrow> ([], cs)
            | (Inr c, cs) \<Rightarrow> ([Broadcast (t_company y) ''comment_created'' (cm_id c)], cs))
      else ([], bd_comments s))"
    obtain sent cs where out: "out = (sent, cs)" by force
    have sent: "set sent \<subseteq> range (Broadcast (t_company y) ''comment_created'')"
      using out by (auto simp: out_def split: if_splits prod.splits sum.splits)
    have un_note: "untouched u s (?s\<lparr>bd_comments := cs\<rparr>)"
    proof -
      have "cs = bd_comments ?s \<or> (\<exists>r. create_comment (g 0 0) (ae_now e)
          (status_comment e (t_id y) old (t_status y)) (bd_comments ?s) = (r, cs))"
        using out by (auto simp: out_def split: if_splits prod.splits sum.splits)
      moreover have "cm_task (status_comment e (t_id y) old (t_status y)) = t_id y"
        by (simp add: status_comment_def)
      moreover have "?s\<lparr>bd_comments := bd_comments ?s\<rparr> = ?s" by simp
      ultimately have "untouched u ?s (?s\<lparr>bd_comments := cs\<rparr>)"
        using commented(1) [OF _ heldy] d(3) by (metis untouched_refl with_tasks_simps(1))
      with un show ?thesis by (rule untouched_trans)
    qed
    have own: "own_task u (?s\<lparr>bd_comments := cs\<rparr>) (t_id y)"
      using y(1) heldy w works_in_with_tasks [OF d(2)] by (auto simp: own_task_def held_def)
    have key: "(t_id y, t_company y) \<in> task_keys s"
      using assms(2) y by (auto simp: in_task_keys held_def)
    have keys: "task_keys (?s\<lparr>bd_comments := cs\<rparr>) = task_keys s"
      using task_keys_saved [OF assms x saved] by (simp add: task_keys_def)
    have work: "works_in u (t_company y) (?s\<lparr>bd_comments := cs\<rparr>)"
      using w y(3) assms(2) by (simp add: held_def)
    have deps: "deed_ok u (?s\<lparr>bd_comments := cs\<rparr>) x"
      if "x \<in> set (reconcile_dependents z (t_id y) (?s\<lparr>bd_comments := cs\<rparr>))" for x z
      using dependents_own [OF assms(1) _ keys key work that] d(1) by simp
    show ?thesis
      unfolding after_update_def Let_def with_tasks_simps out_def [symmetric] out prod.case
      using sent own work deps board_ok_saved [OF assms x saved refs]
      by (intro outcome_write un_note) (auto split: if_splits)
  qed
  show ?thesis
  proof (cases body)
    case (Some b)
    have fields: "t_id (change_refs b x) = t_id t" "t_company (change_refs b x) = t_company t"
      if "change_base_branch e b (change_texts b t) = Inr x" for x
      using that by (auto simp: change_base_branch_def change_texts_def change_refs_def split: if_splits)
    have bad: "outcome_ok u s (answer_with r s)" if "change_base_branch e b (change_texts b t) = Inl r" for r
      using that by (auto simp: change_base_branch_def split: if_splits)
    have good: "outcome_ok u s
        (case update_task flt now (change_refs b x) (bd_tasks s) of
           (Inl _, db) \<Rightarrow> answer_with (reject 500 msg) (with_tasks db s)
         | (Inr x, db) \<Rightarrow> after_update e g (t_status t) b x (with_tasks db s))"
      if x: "change_base_branch e b (change_texts b t) = Inr x"
        and auth: "authorize_task_refs h u (t_company t) (tc_project b) (tc_agent b) (tc_sprint b) (tc_parent b) s"
      for x flt now msg g h
    proof -
      obtain r d where up: "update_task flt now (change_refs b x) (bd_tasks s) = (r, d)" by force
      note f = fields [OF x]
      have "t_company x = t_company t" using f(2) by (simp add: change_refs_def)
      then have refs: "refs_inside s (change_refs b x)" using changed_refs [OF assms _ auth x] by simp
      show ?thesis
      proof (cases r)
        case (Inl z)
        show ?thesis
          unfolding up Inl prod.case sum.case
          using saved_ok(1) [OF assms f up] board_ok_saved [OF assms f up refs] by (intro outcome_write) simp_all
      next
        case (Inr y)
        show ?thesis
          unfolding up Inr prod.case sum.case using after [OF up [unfolded Inr] f refs] .
      qed
    qed
    show ?thesis
      unfolding update_task_api_def Some option.case
      apply (intro outcome_if outcome_reject)
      apply (cases "change_base_branch e b (change_texts b t)")
       apply (simp only: sum.case bad)
      apply (simp only: sum.case not_not good)
      done
  qed (simp add: update_task_api_def)
qed

lemma relation_created:
  assumes "create_task_relation f1 f2 f3 f4 rel d = (r, d')"
  shows "d' = d \<and> (\<exists>e. r = Inl e) \<or>
    (\<exists>n. r = Inr n \<and> d' = d\<lparr>relations := snd (tbl_create set_tr_id n (relations d))\<rparr> \<and>
       tr_id n = next_key (relations d) \<and> {tr_source n, tr_target n} = {tr_source rel, tr_target rel})"
proof (cases r)
  case (Inl e)
  then show ?thesis using assms by (auto simp: create_task_relation_def dest: transaction_error_frame)
next
  case (Inr x)
  show ?thesis
    using assms [unfolded Inr]
  proof (rule create_relation_success)
    fix source target n
    assume n: "n = (canonical_ends rel)\<lparr>tr_company := t_company source\<rparr>"
      "x = n\<lparr>tr_id := next_key (relations d)\<rparr>"
      "d' = d\<lparr>relations := snd (tbl_create set_tr_id n (relations d))\<rparr>"
    have "tbl_create set_tr_id x t = tbl_create set_tr_id n t" for t
      by (simp add: n(2) tbl_create_def)
    with n show ?thesis by (auto simp: Inr canonical_ends_def)
  qed
qed

lemma board_ok_relations:
  assumes "board_ok s" and "tasks d = tasks (bd_tasks s)" and "companies d = companies (bd_tasks s)"
    and "wf_table tr_id (relations d)"
    and "\<And>r. r \<in> set (rows (relations d)) \<Longrightarrow> r \<in> set (rows (relations (bd_tasks s))) \<or>
      (\<exists>c. (tr_source r, c) \<in> task_keys s \<and> (tr_target r, c) \<in> task_keys s)"
  shows "board_ok (with_tasks d s)"
proof (rule board_ok_after [OF assms(1)])
  show "rest_same s (with_tasks d s)" using assms(3) by (rule rest_same_with_tasks)
qed (use assms in \<open>auto simp: task_keys_def board_ok_def\<close>)

lemma ends_held:
  "board_ok s \<Longrightarrow> held u s t \<Longrightarrow> load_task_row z i s = Some x \<Longrightarrow> t_company x = t_company t \<Longrightarrow> held u s x \<and> t_id x = i"
  by (frule loaded_row) (simp add: held_def)

lemma relation_created_ok:
  assumes "board_ok s" and "held u s t"
  shows "outcome_ok u s (create_relation_api f body t s)"
proof -
  have main: "outcome_ok u s
      (case create_task_relation f1 f2 f3 f4
          \<lparr>tr_id = 0, tr_company = c, tr_source = src, tr_target = dst, tr_kind = kind\<rparr> (bd_tasks s) of
         (Inl e, db) \<Rightarrow> answer_with (reject (relation_failed e) msg) (with_tasks db s)
       | (Inr r, db) \<Rightarrow>
           Some (respond 201 (V_Relation r),
             [Broadcast (t_company t) ev src, Broadcast (t_company t) ev dst] @
             (if kind = depends_on then [Process src] else []), with_tasks db s))"
    if "{src, dst} = {t_id t, t_id x}" "held u s x" "t_company x = t_company t"
    for x f1 f2 f3 f4 c src dst kind msg ev
  proof -
    let ?rel = "\<lparr>tr_id = 0, tr_company = c, tr_source = src, tr_target = dst, tr_kind = kind\<rparr>"
    obtain r d where rd: "create_task_relation f1 f2 f3 f4 ?rel (bd_tasks s) = (r, d)" by force
    note cr = relation_created [OF rd]
    have far: "src \<notin> task_ids k s \<and> dst \<notin> task_ids k s" if "\<not> works_in u k s" for k
      using not_foreign [OF board_ok_wf [OF assms(1)] _ _ that] assms(2) \<open>held u s x\<close> \<open>{src, dst} = _\<close>
      by (auto simp: held_def doubleton_eq_iff)
    have companies: "companies d = companies (bd_tasks s)" "tasks d = tasks (bd_tasks s)" using cr by auto
    have "relations_same k s d" if "\<not> works_in u k s" for k
      using cr far [OF that] by (auto simp: relations_same_def doubleton_eq_iff)
    then have un: "untouched u s (with_tasks d s)"
      using companies by (auto intro!: untouched_tasks simp: tasks_same_def)
    have keys: "(src, t_company t) \<in> task_keys s \<and> (dst, t_company t) \<in> task_keys s"
      using that assms(2) by (auto simp: in_task_keys held_def doubleton_eq_iff)
    have fine: "board_ok (with_tasks d s)"
    proof (rule board_ok_relations [OF assms(1) companies(2,1)])
      show "wf_table tr_id (relations d)"
        using cr assms(1) by (auto simp: board_ok_def intro: rel_rows.wf_create)
      show "q \<in> set (rows (relations (bd_tasks s))) \<or>
          (\<exists>c. (tr_source q, c) \<in> task_keys s \<and> (tr_target q, c) \<in> task_keys s)" if "q \<in> set (rows (relations d))" for q
        using cr that keys by (auto simp: doubleton_eq_iff)
    qed
    have own: "own_task u (with_tasks d s) i" if "i \<in> {src, dst}" for i
      using that \<open>{src, dst} = _\<close> \<open>held u s x\<close> assms(2) works_in_with_tasks [OF companies(1)]
      by (auto simp: own_task_def held_def companies)
    have work: "works_in u (t_company t) (with_tasks d s)"
      using assms(2) works_in_with_tasks [OF companies(1)] by (simp add: held_def)
    have new: "own_task u (with_tasks d s) (tr_source n) \<and> own_task u (with_tasks d s) (tr_target n)" if "r = Inr n" for n
      using cr that by (intro conjI; intro own) (auto simp: doubleton_eq_iff)
    have "own_task u (with_tasks d s) src" by (simp add: own)
    then show ?thesis
      using un work new fine by (cases r) (auto simp: rd intro!: outcome_write)
  qed
  show ?thesis
  proof (cases body)
    case (Some b)
    let ?raw = "trim_space (to_lower (lb_kind b))"
    let ?ends = "if ?raw = ''blocks'' then (depends_on, lb_task b, t_id t) else (?raw, t_id t, lb_task b)"
    obtain kind src dst where ends: "?ends = (kind, src, dst)" by (metis prod_cases3)
    then have "{src, dst} = {t_id t, lb_task b}" by (auto split: if_splits)
    then show ?thesis
      unfolding create_relation_api_def Let_def Some option.case ends prod.case
      apply (intro outcome_if outcome_reject)
      apply (cases "load_task_row (f 0 0) (lb_task b) s")
       apply simp
      apply (simp only: option.case)
      subgoal premises p for x
        apply (intro outcome_if outcome_reject)
        using p ends_held [OF assms] by (intro main [where x = x]) simp_all
      done
  qed (simp add: create_relation_api_def)
qed

lemma relation_deleted_ok:
  assumes "board_ok s" and "held u s t"
  shows "outcome_ok u s (delete_relation_api flt param t s)"
proof -
  have main: "outcome_ok u s
      (case delete_task_relation z i (bd_tasks s) of
         (Inl _, db) \<Rightarrow> answer_with (reject 500 msg) (with_tasks db s)
       | (Inr _, db) \<Rightarrow>
           Some (respond 204 V_Ok,
             [Broadcast (t_company t) ev (tr_source r), Broadcast (t_company t) ev (tr_target r)] @
             (if tr_kind r = depends_on then [Process (tr_source r)] else []), with_tasks db s))"
    if r: "get_task_relation i (bd_tasks s) = Inr r" and ends: "{tr_source r, tr_target r} = {t_id t, t_id x}"
      and x: "held u s x"
    for z i r x msg ev
  proof -
    obtain e d where d: "delete_task_relation z i (bd_tasks s) = (e, d)" by force
    have r': "r \<in> set (rows (relations (bd_tasks s)))" "tr_id r = i"
      using r by (auto simp: get_task_relation_def tbl_get_def dest: tbl_first_Some_D split: option.splits)
    have far: "tr_source r \<notin> task_ids k s \<and> tr_target r \<notin> task_ids k s" if "\<not> works_in u k s" for k
      using not_foreign [OF board_ok_wf [OF assms(1)] _ _ that] assms(2) x ends
      by (auto simp: held_def doubleton_eq_iff)
    have "q = r" if "q \<in> set (rows (relations (bd_tasks s)))" "tr_id q = i" for q
      using unique_row [of tr_id "relations (bd_tasks s)" q r] assms(1) that r' by (simp add: board_ok_def)
    then have keep: "tr_id q \<noteq> i" if "\<not> works_in u k s" "q \<in> set (rows (relations (bd_tasks s)))"
      "tr_source q \<in> task_ids k s \<or> tr_target q \<in> task_ids k s" for q k
      using far [OF that(1)] that(2,3) by blast
    have sub: "filter P (filter Q xs) = filter P xs" if "\<And>q. q \<in> set xs \<Longrightarrow> P q \<Longrightarrow> Q q" for xs :: "task_relation list" and P Q
      unfolding filter_filter using that by (intro filter_cong) auto
    have "relations_same k s d" if "\<not> works_in u k s" for k
    proof -
      have "rows (relations d) = rows (relations (bd_tasks s)) \<or>
          rows (relations d) = filter (\<lambda>q. tr_id q \<noteq> i) (rows (relations (bd_tasks s)))"
        using d by (auto simp: delete_task_relation_def split: if_splits)
      then show ?thesis
        unfolding relations_same_def
      proof
        assume "rows (relations d) = filter (\<lambda>q. tr_id q \<noteq> i) (rows (relations (bd_tasks s)))"
        then show "filter (\<lambda>r. tr_source r \<in> task_ids k s \<or> tr_target r \<in> task_ids k s) (rows (relations d)) =
            filter (\<lambda>r. tr_source r \<in> task_ids k s \<or> tr_target r \<in> task_ids k s) (rows (relations (bd_tasks s)))"
          by (simp only:) (rule sub, rule keep [OF that])
      qed (simp only:)
    qed
    moreover have companies: "companies d = companies (bd_tasks s)" "tasks d = tasks (bd_tasks s)"
      using d by (auto simp: delete_task_relation_def split: if_splits)
    ultimately have un: "untouched u s (with_tasks d s)"
      by (auto intro!: untouched_tasks simp: tasks_same_def)
    have own: "own_task u (with_tasks d s) (tr_source r)"
      using ends x assms(2) works_in_with_tasks [OF companies(1)]
      by (auto simp: own_task_def held_def companies doubleton_eq_iff)
    have work: "works_in u (t_company t) (with_tasks d s)"
      using assms(2) works_in_with_tasks [OF companies(1)] by (simp add: held_def)
    have "board_ok (with_tasks d s)"
      using d assms(1) companies
      by (intro board_ok_relations) (auto simp: delete_task_relation_def board_ok_def intro: rel_rows.wf_delete split: if_splits)
    then show ?thesis
      unfolding d prod.case using un own work by (auto intro!: outcome_write split: sum.split)
  qed
  have other: "{tr_source r, tr_target r} = {t_id t, t_id x} \<and> held u s x"
    if "load_task_row z (if tr_source r = t_id t then tr_target r else tr_source r) s = Some x"
      "t_company x = t_company t" "tr_source r = t_id t \<or> tr_target r = t_id t" for z r x
    using ends_held [OF assms that(1,2)] that(3) by auto
  show ?thesis
  proof (cases param)
    case (Some i)
    show ?thesis
      unfolding delete_relation_api_def Let_def Some option.case
      apply (intro outcome_if outcome_reject)
      apply (cases "if flt 0 then Inl DbFault else get_task_relation i (bd_tasks s)")
       apply simp
      apply (simp only: sum.case)
      apply (intro outcome_if outcome_reject)
      subgoal for r
        apply (cases "load_task_row (flt 1) (if tr_source r = t_id t then tr_target r else tr_source r) s")
         apply simp
        apply (simp only: option.case)
        subgoal premises p for x
          apply (intro outcome_if outcome_reject)
          using p other [of "flt 1" r x]
          by (intro main [where x = x]) (simp_all add: numeral_eq_Suc split: if_splits)
        done
      done
  qed (simp add: delete_relation_api_def)
qed

lemma comment_created_ok:
  assumes "board_ok s"
  shows "outcome_ok u s (create_comment_api e f u body s)"
proof -
  have main: "outcome_ok u s
      (case create_comment z now m (bd_comments s) of
         (Inl _, cs) \<Rightarrow> answer_with (reject 500 msg) (s\<lparr>bd_comments := cs\<rparr>)
       | (Inr c, cs) \<Rightarrow>
           Some (respond 201 (V_Comment c),
             Broadcast (t_company t) ev (cm_id c) # (if human then [Human_Reply i] else []) @
             (if again then (case x of None \<Rightarrow> [] | Some x \<Rightarrow> if t_status x \<noteq> status_backlog then [Rerun i] else []) else []),
             s\<lparr>bd_comments := cs\<rparr>))"
    if "held u s t" "t_id t = i" "cm_task m = i" for z now m msg t ev human i again x
  proof -
    obtain r cs where rc: "create_comment z now m (bd_comments s) = (r, cs)" by force
    have m: "cm_task m = t_id t" using that by simp
    note c = commented [OF board_ok_wf [OF assms] that(1) m rc]
    have w: "works_in u k (s\<lparr>bd_comments := cs\<rparr>) = works_in u k s" for k
      by (rule works_in_rest) (simp add: rest_same_comments)
    have "own_task u (s\<lparr>bd_comments := cs\<rparr>) i"
      using that w by (auto simp: own_task_def held_def)
    then show ?thesis
      using c w that by (cases r) (auto simp: rc held_def intro!: outcome_write split: option.splits if_splits)
  qed
  show ?thesis
  proof (cases body)
    case (Some b)
    show ?thesis
    proof (cases "authorize_task (f 0) u (nc_task b) s")
      case t: (Some t)
      show ?thesis
        unfolding create_comment_api_def Some option.case t
        using held_authorized [OF t] by (intro main) simp_all
    qed (simp add: create_comment_api_def Some)
  qed (simp add: create_comment_api_def)
qed

lemma board_ok_sprints:
  assumes "board_ok s" and "set (rows (bd_sprints s)) \<subseteq> set (rows t)"
  shows "board_ok (s\<lparr>bd_sprints := t\<rparr>)"
  by (rule board_ok_after [OF assms(1)])
    (use assms in \<open>auto simp: rest_same_comments task_keys_def board_ok_def\<close>)

lemma sprint_created_ok: "outcome_ok u s (create_sprint_api f u body s)"
proof (cases body)
  case (Some b)
  let ?x = "set_sp_id (next_key (bd_sprints s)) b" and ?t = "snd (tbl_create set_sp_id b (bd_sprints s))"
  have w: "works_in u k (s\<lparr>bd_sprints := ?t\<rparr>) = works_in u k s" for k
    by (rule works_in_rest) (simp add: rest_same_comments)
  have "outcome_ok u s (Some (respond 201 (V_Sprint ?x), [Activity (sp_company b) ev (sp_id ?x)], s\<lparr>bd_sprints := ?t\<rparr>))"
    if "works_in u (sp_company b) s" for ev
    using that w
    by (auto simp: untouched_def rest_same_comments company_rows_def task_ids_def intro!: outcome_write board_ok_sprints)
  then show ?thesis
    using authorized' [of "f 0" u "sp_company b" s]
    by (auto simp: create_sprint_api_def Some tbl_create_def Let_def)
qed (simp add: create_sprint_api_def)

lemma serve_ok: "board_ok s \<Longrightarrow> outcome_ok u s (serve e f u req s)"
  by (cases req) (auto intro: companies_ok task_list_ok task_created_ok load_task_ok load_run_ok get_task_ok
      task_updated_ok run_list_ok rerun_ok relation_list_ok relation_created_ok relation_deleted_ok comment_list_ok
      comment_created_ok sprint_list_ok sprint_created_ok run_ok run_by_session_ok company_runs_ok stop_ok
      projects_ok project_ok agents_ok agent_ok)

section \<open>What the checks let through\<close>

text \<open>
  The check of a new parent asks for its company only, so a task may become its own parent; a
  rerun of it then never returns, since the walk to the main task has no end.
\<close>

lemma own_parent_hangs:
  assumes "t_parent t = Some (t_id t)" and "\<And>k. load_task_row (flt k) (t_id t) s = Some t"
  shows "climb_to_main flt k t s = None"
proof -
  have "x = t \<longrightarrow> s0 = s \<longrightarrow> g = flt \<longrightarrow> False" if "climb_to_main g k x s0 = Some m" for g k x s0 m
    using that
    by (rule climb_to_main.raw_induct [where P = "\<lambda>g k x s0 m. x = t \<longrightarrow> s0 = s \<longrightarrow> g = flt \<longrightarrow> False", rotated])
      (use assms in \<open>auto split: option.splits\<close>, blast)
  then show ?thesis by (cases "climb_to_main flt k t s") blast+
qed

lemma own_parent_accepted:
  "authorize_task_refs (\<lambda>_ _ _. False) u (t_company t) None None None (Some (t_id t)) s \<longleftrightarrow>
   (case load_task_row False (t_id t) s of None \<Rightarrow> False | Some x \<Rightarrow> t_company x = t_company t)"
  by (simp add: authorize_task_refs_def)

text \<open>
  The guard of the base branch looks at the new status: a change that leaves a working status
  may change the branch in the same request.
\<close>

lemma branch_changed_after_work:
  assumes "t_status t = ''in-progress''" and "tc_status b = ''to-do''" and "tc_branch b \<noteq> []"
    and "tc_branch b \<noteq> t_base_branch t" and "ae_branch_ok e (trim_space (tc_branch b))"
  shows "change_base_branch e b (change_texts b t) =
     Inr ((change_texts b t)\<lparr>t_base_branch := trim_space (tc_branch b)\<rparr>)"
  using assms by (simp add: change_base_branch_def change_texts_def given_def)

text \<open>A membership that cannot be read makes a member of the team an owner.\<close>

lemma unreadable_member_is_owner: "is_team_owner True u s"
  by (simp add: is_team_owner_def)

section \<open>Properties\<close>

text \<open>A history of requests, each of which returned.\<close>

fun serve_all :: "(api_env \<times> (nat \<Rightarrow> plans) \<times> id \<times> api_request) list \<Rightarrow> board \<Rightarrow> board option" where
  "serve_all [] s = Some s"
| "serve_all ((e, f, u, req) # reqs) s =
     (case serve e f u req s of None \<Rightarrow> None | Some (_, _, s') \<Rightarrow> serve_all reqs s')"

definition demo_env :: api_env where
  "demo_env = \<lparr>ae_now = 5, ae_fuel = 10, ae_branch_ok = (\<lambda>_. True), ae_status_json = (\<lambda>a b. a @ b),
     ae_refuses = (\<lambda>_. None)\<rparr>"

definition demo_board :: board where
  "demo_board =
     (let db = \<lparr>tasks = \<lparr>rows = [demo_task 1 None ''A-1'', demo_task 2 (Some 1) ''A-1-1'', demo_task 3 None ''A-2'',
                  (demo_task 4 None ''B-1'')\<lparr>t_company := 2\<rparr>], next_key = 5\<rparr>,
                companies = \<lparr>rows = [\<lparr>co_id = 1, co_short = ''a'', co_team = None, co_user = Some 7\<rparr>,
                  \<lparr>co_id = 2, co_short = ''b'', co_team = None, co_user = Some 8\<rparr>], next_key = 3\<rparr>,
                relations = empty_table\<rparr>
      in \<lparr>bd_gw = \<lparr>gd_runs = \<lparr>runs = empty_table, run_events = empty_table, task_store = db, status_reports = empty_table\<rparr>,
            gd_auth = \<lparr>refresh_tokens = empty_table, sessions = empty_table, users = empty_table\<rparr>,
            gd_team_members = empty_table, gd_providers = empty_table, gd_groups = empty_table,
            gd_members = empty_table, gd_agents = empty_table\<rparr>,
          bd_projects = empty_table, bd_sprints = empty_table, bd_skills = empty_table, bd_servers = empty_table,
          bd_accounts = empty_table, bd_comments = empty_table\<rparr>)"

lemma demo_board_ok: "board_ok demo_board"
  by (auto simp: board_ok_def refs_inside_def demo_board_def demo_task_def wf_table_def empty_table_def in_task_keys
      to_int32_def)

definition demo_relation_request :: "id \<Rightarrow> (response \<times> deed list \<times> board) option" where
  "demo_relation_request other =
     serve demo_env (\<lambda>_ _ _. False) 7 (Create_Relation ''1'' (Some \<lparr>lb_kind = ''blocks'', lb_task = other\<rparr>)) demo_board"

lemma demo_relation_replies:
  "map_option (\<lambda>(r, _, _). rs_status r) (demo_relation_request 3) = Some 201"
  "map_option (\<lambda>(r, _, _). rs_status r) (demo_relation_request 4) = Some 404"
  by code_simp+

text \<open>
  C16: the requests of \<open>api_request\<close> (tasks with their relations, comments, runs and reruns, sprints,
  runs, the lists of companies, projects and agents, and one project or agent; no other route is
  meant), with whatever ids and whatever the database refuses: the tasks, relations, comments and
  sprints of every company the user does not work in stay as they are (but for reference keys and
  branch names filled in), everything else of the board stays as it is, the answer shows only rows
  of companies the user works in, and every event, log entry and engine call it sets going is for
  a company, task or run of these (an activity entry may also be filed under company 0).
\<close>

theorem requests_stay_in_own_companies:
  assumes "board_ok s" and "serve e f u req s = Some (r, ds, s')"
  shows "(\<forall>c. \<not> works_in u c s \<longrightarrow> company_rows c s' = company_rows c s) \<and> rest s' = rest s \<and>
         shown_ok u s' (rs_view r) \<and> (\<forall>d \<in> set ds. deed_ok u s' d)"
  using serve_ok [OF assms(1), of u e f req] assms(2) by (simp add: outcome_ok_def untouched_def)

theorem requests_stay_in_own_companies_witness:
  "\<exists>r ds s'. demo_relation_request 3 = Some (r, ds, s') \<and> rs_status r = 201 \<and>
     company_rows 2 s' = company_rows 2 demo_board \<and> shown_ok 7 s' (rs_view r)"
proof -
  obtain r ds s' where d: "demo_relation_request 3 = Some (r, ds, s')" "rs_status r = 201"
    using demo_relation_replies(1) by auto
  have "\<not> works_in 7 2 demo_board"
    by (auto simp: works_in_def company_admits_def demo_board_def)
  then show ?thesis
    using requests_stay_in_own_companies [OF demo_board_ok d(1) [unfolded demo_relation_request_def]] d by blast
qed

text \<open>
  C20: through every history of the requests of \<open>api_request\<close> (the writes among them create and
  change tasks, relations, comments and sprints) of any users, each reference stays inside one
  company: the company, project, agent, sprint and parent of every task exist and are of its
  company, and both ends of every relation are tasks of one company.
\<close>

theorem references_stay_inside_one_company:
  assumes "board_ok s" and "serve_all reqs s = Some s'"
  shows "(\<forall>t \<in> set (rows (tasks (bd_tasks s'))). refs_inside s' t) \<and>
    (\<forall>r \<in> set (rows (relations (bd_tasks s'))). \<exists>c. (tr_source r, c) \<in> task_keys s' \<and> (tr_target r, c) \<in> task_keys s') \<and>
    board_ok s'"
proof -
  have "board_ok s'"
    using assms
  proof (induction reqs arbitrary: s)
    case (Cons q reqs)
    obtain e f v req where q: "q = (e, f, v, req)" by (cases q)
    then obtain r ds t where t: "serve e f v req s = Some (r, ds, t)" "serve_all reqs t = Some s'"
      using Cons.prems(2) by (auto split: option.splits)
    have "board_ok t"
      using serve_ok [OF Cons.prems(1), of v e f req] t(1) Cons.prems(1) by (simp add: outcome_ok_def)
    then show ?case using Cons.IH [OF _ t(2)] by blast
  qed simp
  then show ?thesis by (simp add: board_ok_def)
qed

definition demo_history :: "(api_env \<times> (nat \<Rightarrow> plans) \<times> id \<times> api_request) list" where
  "demo_history =
     [(demo_env, \<lambda>_ _ _. False, 7, Create_Task (Some \<lparr>nt_company = 1, nt_project = None,
        nt_agent = None, nt_sprint = 0, nt_parent = Some 1, nt_title = ''x'', nt_description = [], nt_priority = [],
        nt_branch = [], nt_due = None\<rparr>)),
      (demo_env, \<lambda>_ _ _. False, 8, Delete_Relation ''5'' None), (demo_env, \<lambda>_ _ _. False, 7, Get_Task ''5'')]"

theorem references_stay_inside_one_company_witness:
  "\<exists>s'. serve_all demo_history demo_board = Some s' \<and> (\<forall>t \<in> set (rows (tasks (bd_tasks s'))). refs_inside s' t)"
proof -
  have "serve_all demo_history demo_board \<noteq> None" by code_simp
  then obtain s' where "serve_all demo_history demo_board = Some s'" by blast
  with references_stay_inside_one_company [OF demo_board_ok this] show ?thesis by blast
qed

end
