(* ===== verification/Tool_Registry.thy ===== *)
theory Tool_Registry
  imports Prelude "HOL-Library.AList" "HOL-Library.List_Lexorder"
begin

text \<open>
  The registry of the tools an agent may call (\<open>engine/aicli/tools.go\<close>).  A Go map from
  names to tools is an association list with distinct keys; its iteration order, which Go
  leaves open, is the order of the list, and no property below depends on it.  A tool is
  the metadata \<open>Def\<close> returns plus the behaviour \<open>Execute\<close>, a function of the argument
  document that yields an error text or a result.

  The locale \<open>tool_view\<close> is what the policies need of a registry: which names are left
  after a filter and after an exclusion.  The worker policy is proved against it and the
  registry interprets it.
\<close>

section \<open>Tools and registries\<close>

datatype tool = Tool (tool_name: string) (tool_description: string)
  (tool_execute: "string \<Rightarrow> string + string")

type_synonym registry = "(string \<times> tool) list"

definition new_registry :: registry where
  "new_registry = []"

definition register_tool :: "tool \<Rightarrow> registry \<Rightarrow> registry" where
  "register_tool t r = AList.update (tool_name t) t r"

definition unregister_tool :: "string \<Rightarrow> registry \<Rightarrow> registry" where
  "unregister_tool name r = AList.delete name r"

text \<open>\<open>DefsByName\<close> and \<open>Defs\<close> return the metadata of tools: a name and a description.\<close>

definition defs_by_name :: "string \<Rightarrow> registry \<Rightarrow> string \<times> string" where
  "defs_by_name name r =
     (case map_of r name of
        Some t \<Rightarrow> (tool_name t, tool_description t)
      | None \<Rightarrow> (name, []))"

definition tool_defs :: "registry \<Rightarrow> (string \<times> string) list" where
  "tool_defs r = map (\<lambda>(_, t). (tool_name t, tool_description t)) r"

definition execute_tool :: "string \<Rightarrow> string \<Rightarrow> registry \<Rightarrow> string + string" where
  "execute_tool name args r =
     (case map_of r name of
        None \<Rightarrow> Inl (''unknown tool: '' @ name)
      | Some t \<Rightarrow> tool_execute t args)"

text \<open>
  \<open>nameMatchesFilter\<close>: an entry matches its own name, and an entry that ends in an
  asterisk matches every name with the text before the asterisk as a prefix.
\<close>

definition entry_matches :: "string \<Rightarrow> string \<Rightarrow> bool" where
  "entry_matches name a \<longleftrightarrow>
     a = name \<or>
     (a \<noteq> [] \<and> last a = CHR ''*'' \<and> length name \<ge> length a - 1 \<and>
      take (length a - 1) name = take (length a - 1) a)"

definition name_matches_filter :: "string \<Rightarrow> string list \<Rightarrow> bool" where
  "name_matches_filter name entries = list_ex (entry_matches name) entries"

definition register_where :: "(string \<Rightarrow> bool) \<Rightarrow> registry \<Rightarrow> registry" where
  "register_where p r =
     fold (\<lambda>(name, t) acc. if p name then register_tool t acc else acc) r new_registry"

definition filter_registry :: "string list \<Rightarrow> registry \<Rightarrow> registry" where
  "filter_registry allowed r =
     (if allowed = [] then r
      else if ''*'' \<in> set allowed then r
      else register_where (\<lambda>name. name_matches_filter name allowed) r)"

definition exclude_registry :: "string list \<Rightarrow> registry \<Rightarrow> registry" where
  "exclude_registry denied r =
     (if denied = [] then r
      else register_where (\<lambda>name. \<not> name_matches_filter name denied) r)"

definition registry_names :: "registry \<Rightarrow> string list" where
  "registry_names r = sort (map fst r)"

section \<open>The registry invariant\<close>

text \<open>Every tool is stored under its own name, once.\<close>

definition registry_ok :: "registry \<Rightarrow> bool" where
  "registry_ok r \<longleftrightarrow> distinct (map fst r) \<and> (\<forall>(n, t) \<in> set r. tool_name t = n)"

definition names_of :: "registry \<Rightarrow> string set" where
  "names_of r = fst ` set r"

lemma registry_ok_new [simp]: "registry_ok new_registry"
  by (simp add: registry_ok_def new_registry_def)

lemma set_alist_update: "set (AList.update k v al) \<subseteq> insert (k, v) (set al)"
  by (induction al) auto

lemma registry_ok_register: "registry_ok r \<Longrightarrow> registry_ok (register_tool t r)"
  using set_alist_update [of "tool_name t" t r]
  by (auto simp: registry_ok_def register_tool_def AList.distinct_update)

lemma names_register [simp]: "names_of (register_tool t r) = insert (tool_name t) (names_of r)"
  by (simp add: names_of_def register_tool_def AList.dom_update)

lemma registry_ok_unregister: "registry_ok r \<Longrightarrow> registry_ok (unregister_tool n r)"
  by (auto simp: registry_ok_def unregister_tool_def AList.delete_eq distinct_map_filter)

lemma register_where_fold:
  assumes "registry_ok acc" and "\<forall>(n, t) \<in> set r. tool_name t = n"
  shows "registry_ok (fold (\<lambda>(n, t) acc. if p n then register_tool t acc else acc) r acc) \<and>
         names_of (fold (\<lambda>(n, t) acc. if p n then register_tool t acc else acc) r acc) =
           names_of acc \<union> {n \<in> names_of r. p n}"
  using assms
proof (induction r arbitrary: acc)
  case Nil
  then show ?case by (simp add: names_of_def)
next
  case (Cons x r)
  obtain n t where x: "x = (n, t)" by fastforce
  with Cons.prems have t: "tool_name t = n" by simp
  define acc' where "acc' = (if p n then register_tool t acc else acc)"
  have "registry_ok acc'" using Cons.prems(1) by (simp add: acc'_def registry_ok_register)
  from Cons.IH [OF this] Cons.prems(2) show ?case
    by (auto simp: x acc'_def t names_of_def [of "_ # _"] names_of_def [of r])
qed

lemma register_where_ok: "registry_ok r \<Longrightarrow> registry_ok (register_where p r)"
  unfolding register_where_def
  using register_where_fold [OF registry_ok_new, of r p] by (simp add: registry_ok_def)

lemma names_register_where [simp]:
  "registry_ok r \<Longrightarrow> names_of (register_where p r) = {n \<in> names_of r. p n}"
  unfolding register_where_def
  using register_where_fold [OF registry_ok_new, of r p]
  by (auto simp: registry_ok_def names_of_def [of "[]"] new_registry_def)

section \<open>The interface the policies rely on\<close>

locale tool_view =
  fixes ok :: "'r \<Rightarrow> bool"
    and names :: "'r \<Rightarrow> string set"
    and filt :: "string list \<Rightarrow> 'r \<Rightarrow> 'r"
    and excl :: "string list \<Rightarrow> 'r \<Rightarrow> 'r"
  assumes ok_filt: "ok r \<Longrightarrow> ok (filt a r)"
    and ok_excl: "ok r \<Longrightarrow> ok (excl d r)"
    and names_filt: "ok r \<Longrightarrow> names (filt a r) =
          (if a = [] \<or> ''*'' \<in> set a then names r
           else {n \<in> names r. name_matches_filter n a})"
    and names_excl: "ok r \<Longrightarrow> names (excl d r) = {n \<in> names r. \<not> name_matches_filter n d}"
begin

lemma filt_shrinks: "ok r \<Longrightarrow> names (filt a r) \<subseteq> names r"
  by (auto simp: names_filt)

lemma excl_shrinks: "ok r \<Longrightarrow> names (excl d r) \<subseteq> names r"
  by (auto simp: names_excl)

lemma ceiling:
  "ok r \<Longrightarrow> names (filt a (excl d r)) \<subseteq> {n \<in> names r. \<not> name_matches_filter n d}"
  using filt_shrinks [of "excl d r" a] by (auto simp: ok_excl names_excl)

lemma listed_survives:
  assumes "ok r" and "n \<in> names r" and "n \<in> set a"
  shows "n \<in> names (filt a r)"
  using assms by (auto simp: names_filt name_matches_filter_def entry_matches_def list_ex_iff)

lemma exact_list_only:
  assumes "ok r" and "n \<in> names (filt a r)" and "a \<noteq> []"
    and "\<And>e. e \<in> set a \<Longrightarrow> e = [] \<or> last e \<noteq> CHR ''*''"
  shows "n \<in> set a"
proof -
  have "''*'' \<notin> set a" using assms(4) by fastforce
  with assms show ?thesis
    by (auto simp: names_filt name_matches_filter_def entry_matches_def list_ex_iff)
qed

end

interpretation reg: tool_view registry_ok names_of filter_registry exclude_registry
proof unfold_locales
  fix r :: registry and d :: "string list"
  assume "registry_ok r"
  then show "names_of (exclude_registry d r) = {n \<in> names_of r. \<not> name_matches_filter n d}"
    by (auto simp: exclude_registry_def name_matches_filter_def)
qed (auto simp: filter_registry_def exclude_registry_def register_where_ok)

end
