(* ===== verification/Tool_Policy.thy ===== *)
theory Tool_Policy
  imports Tool_Registry
begin

text \<open>
  Which tools an agent gets: role labels (\<open>engine/agentconfig/roles.go\<close>), the tool groups
  and role contracts (\<open>engine/tool_policy.go\<close>, \<open>engine/aicli/names.go\<close>), and the policy of
  helper workers (\<open>engine/worker_policy.go\<close>).

  Role labels are ASCII.  The JSON documents a row stores are read by \<open>encoding/json\<close>;
  its decoder is an argument that yields the decoded document, or None for an error.
\<close>

section \<open>Role labels\<close>

definition is_letter_or_digit :: "char \<Rightarrow> bool" where
  "is_letter_or_digit c \<longleftrightarrow>
     (let n = of_char c :: nat
      in (48 \<le> n \<and> n \<le> 57) \<or> (65 \<le> n \<and> n \<le> 90) \<or> (97 \<le> n \<and> n \<le> 122))"

fun role_words :: "string \<Rightarrow> string \<Rightarrow> string list" where
  "role_words current [] = (if current = [] then [] else [to_lower current])"
| "role_words current (c # cs) =
     (if is_letter_or_digit c then role_words (current @ [c]) cs
      else if current = [] then role_words [] cs
      else to_lower current # role_words [] cs)"

fun join_words :: "string list \<Rightarrow> string" where
  "join_words [] = []"
| "join_words [w] = w"
| "join_words (w # ws) = w @ '' '' @ join_words ws"

definition canonical_role :: "string \<Rightarrow> string" where
  "canonical_role value =
     (let words = role_words [] (trim_space value);
          words = (if length words > 1 \<and> last words = ''agent'' then butlast words else words);
          label = join_words words
      in if label = ''ceo'' \<or> label = ''chief executive officer'' then ''CEO''
         else if label = ''cto'' \<or> label = ''chief technology officer'' then ''CTO''
         else if label = ''cmo'' \<or> label = ''chief marketing officer'' then ''CMO''
         else if label = ''coder'' then ''Coder''
         else if label = ''qa'' \<or> label = ''quality assurance'' then ''QA''
         else trim_space value)"

definition role_matches :: "string \<Rightarrow> string \<Rightarrow> string \<Rightarrow> bool" where
  "role_matches role_key name requested =
     (let want = canonical_role requested
      in equal_fold (canonical_role role_key) want \<or> equal_fold (canonical_role name) want)"

section \<open>Agents and tool groups\<close>

record agent =
  ag_name :: string
  ag_role_key :: string
  ag_can_use_workers :: bool
  ag_allowed_mcps :: string
  ag_permissions :: string
  ag_worker_permissions :: string
  ag_worker_allowed_mcps :: string

definition basic_tool_names :: "string list" where
  "basic_tool_names =
     [''bash'', ''read'', ''write'', ''ls'', ''grep'', ''web_fetch'', ''browser_use'']"

definition configurable_tool_names :: "string list" where
  "configurable_tool_names =
     [''bash'', ''read'', ''write'', ''ls'', ''grep'', ''web_fetch'', ''browser_use'']"

definition artifact_tool_names :: "string list" where
  "artifact_tool_names = [''write_artifact'', ''list_artifacts'', ''read_artifact'']"

definition task_tool_names :: "string list" where
  "task_tool_names = [''create_task'', ''create_subtask'', ''get_task'']"

definition messaging_tool_names :: "string list" where
  "messaging_tool_names = [''ask_task_owner'', ''answer_message'']"

definition agent_lifecycle_tool_names :: "string list" where
  "agent_lifecycle_tool_names = [''finish_task'', ''report_status'']"

definition worker_control_tool_names :: "string list" where
  "worker_control_tool_names =
     [''run_worker'', ''worker_list'', ''get_worker_info'', ''stop_worker'']"

definition worker_lifecycle_tool_names :: "string list" where
  "worker_lifecycle_tool_names = [''report_status'', ''finish_work'']"

definition orchestrator_tool_names :: "string list" where
  "orchestrator_tool_names =
     [''get_session_list'', ''get_session'', ''send_message_to_session'', ''run_new_session'',
      ''stop_session'', ''fork_session'', ''finish_task'', ''ask_ceo'', ''answer_message'']"

definition qa_tool_names :: "string list" where
  "qa_tool_names = [''read'', ''ls'', ''grep'', ''bash'', ''web_fetch'', ''browser_use'']"

definition read_only_tool_names :: "string list" where
  "read_only_tool_names = [''read'', ''ls'', ''grep'']"

definition implementation_tool_names :: "string list" where
  "implementation_tool_names =
     [''read'', ''write'', ''bash'', ''ls'', ''grep'', ''codegraph_*'']"

definition content_tool_names :: "string list" where
  "content_tool_names = [''read'', ''web_fetch'']"

lemmas tool_group_defs =
  artifact_tool_names_def task_tool_names_def messaging_tool_names_def
  agent_lifecycle_tool_names_def worker_control_tool_names_def qa_tool_names_def
  read_only_tool_names_def implementation_tool_names_def content_tool_names_def

definition worker_default_for_role :: "string \<Rightarrow> bool" where
  "worker_default_for_role role_key =
     (let r = canonical_role role_key in r = ''CEO'' \<or> r = ''CTO'' \<or> r = ''CMO'')"

definition agent_can_use_workers :: "agent \<Rightarrow> bool" where
  "agent_can_use_workers a =
     (if ag_can_use_workers a \<or> worker_default_for_role (ag_role_key a) then True
      else role_matches (ag_role_key a) (ag_name a) ''CEO'' \<or>
           role_matches (ag_role_key a) (ag_name a) ''CTO'' \<or>
           role_matches (ag_role_key a) (ag_name a) ''CMO'')"

text \<open>
  The closure \<open>base\<close> of \<open>roleToolNames\<close>: the groups in order, each name once.  The empty
  list stands for Go's nil as well: the caller only asks for the length.
\<close>

fun keep_first :: "string set \<Rightarrow> string list \<Rightarrow> string list" where
  "keep_first seen [] = []"
| "keep_first seen (n # ns) =
     (if n \<in> seen then keep_first seen ns else n # keep_first (insert n seen) ns)"

definition base_names :: "string list list \<Rightarrow> string list" where
  "base_names groups = keep_first {} (concat groups)"

definition common_tool_names :: "string list" where
  "common_tool_names = messaging_tool_names @ artifact_tool_names @ agent_lifecycle_tool_names"

definition policy_role :: "agent \<Rightarrow> string" where
  "policy_role a =
     (let role = canonical_role (ag_role_key a)
      in if role = ag_role_key a \<or> role = [] then canonical_role (ag_name a) else role)"

definition role_tool_names :: "agent \<Rightarrow> string list" where
  "role_tool_names a =
     (let role = policy_role a
      in if role = ''CEO''
         then base_names [task_tool_names, common_tool_names, [''ask_human'']]
         else if role = ''CTO''
         then base_names [read_only_tool_names, common_tool_names, worker_control_tool_names,
                          [''codegraph_*'']]
         else if role = ''CMO''
         then base_names [content_tool_names, common_tool_names, worker_control_tool_names]
         else if role = ''Coder'' \<or> role = ''Debugger''
         then base_names [implementation_tool_names, common_tool_names]
         else if role = ''QA'' then base_names [qa_tool_names, common_tool_names]
         else if role = ''Designer'' \<or> role = ''SMM'' \<or> role = ''PPC Specialist'' \<or>
                 role = ''Post Writer''
         then base_names [content_tool_names, common_tool_names]
         else [])"

text \<open>The last step of \<open>buildSessionTools\<close>: the role contract cuts the session's registry.\<close>

definition apply_role_contract :: "agent \<Rightarrow> registry \<Rightarrow> registry" where
  "apply_role_contract a r =
     (let allowed = role_tool_names a
      in if length allowed > 0 then filter_registry allowed r else r)"

section \<open>Helper-worker policy\<close>

record worker_policy =
  wp_mode :: string
  wp_denied :: "string list"
  wp_allowed :: "string list"

text \<open>What the JSON decoder found of the three fields; a field may be absent.\<close>

record policy_doc =
  pd_mode :: "string option"
  pd_denied :: "string list option"
  pd_allowed :: "string list option"

definition parse_worker_policy ::
  "(string \<Rightarrow> policy_doc option) \<Rightarrow> string \<Rightarrow> worker_policy" where
  "parse_worker_policy unmarshal raw =
     (let policy = \<lparr>wp_mode = ''inherit'', wp_denied = [], wp_allowed = []\<rparr>;
          strict = \<lparr>wp_mode = ''custom'', wp_denied = [], wp_allowed = []\<rparr>
      in if trim_space raw = [] then policy
         else case unmarshal raw of
           None \<Rightarrow> strict
         | Some d \<Rightarrow>
             (let p = \<lparr>wp_mode = (case pd_mode d of None \<Rightarrow> wp_mode policy | Some m \<Rightarrow> m),
                       wp_denied = (case pd_denied d of None \<Rightarrow> [] | Some l \<Rightarrow> l),
                       wp_allowed = (case pd_allowed d of None \<Rightarrow> [] | Some l \<Rightarrow> l)\<rparr>
              in if wp_mode p = ''deny'' \<or> wp_mode p = ''custom'' then p
                 else if wp_mode p = ''inherit'' then p
                 else strict))"

definition denied_from_permissions ::
  "(string \<Rightarrow> (string \<times> string) list option) \<Rightarrow> string \<Rightarrow> string list" where
  "denied_from_permissions unmarshal raw =
     (if trim_space raw = [] then []
      else case unmarshal raw of
        None \<Rightarrow> []
      | Some permissions \<Rightarrow>
          map fst (filter (\<lambda>(name, value). equal_fold (trim_space value) ''deny'') permissions))"

definition worker_lifecycle :: "string list" where
  "worker_lifecycle = [''finish_task'', ''finish_work'', ''report_status'']"

definition apply_worker_tool_policy ::
  "(string \<Rightarrow> (string \<times> string) list option) \<Rightarrow> (string \<Rightarrow> policy_doc option) \<Rightarrow>
   registry \<Rightarrow> string \<Rightarrow> string \<Rightarrow> registry" where
  "apply_worker_tool_policy unm_perms unm_policy r parent_permissions worker_permissions =
     (let r = exclude_registry (denied_from_permissions unm_perms parent_permissions) r;
          policy = parse_worker_policy unm_policy worker_permissions
      in if wp_mode policy = ''deny'' then exclude_registry (wp_denied policy) r
         else if wp_mode policy = ''custom''
         then filter_registry (wp_allowed policy @ worker_lifecycle) r
         else r)"

definition contains_fold :: "string list \<Rightarrow> string \<Rightarrow> bool" where
  "contains_fold values wanted =
     list_ex (\<lambda>v. equal_fold (trim_space v) (trim_space wanted)) values"

text \<open>\<open>decodeAgentNames\<close>: None is Go's nil, which means no restriction.\<close>

definition decode_agent_names ::
  "(string \<Rightarrow> string list option) \<Rightarrow> string \<Rightarrow> string list option" where
  "decode_agent_names unmarshal raw = (if trim_space raw = [] then None else unmarshal raw)"

definition worker_mcp_allowed ::
  "(string \<Rightarrow> string list option) \<Rightarrow> (string \<Rightarrow> policy_doc option) \<Rightarrow>
   string \<Rightarrow> string \<Rightarrow> string \<Rightarrow> bool" where
  "worker_mcp_allowed unm_names unm_policy name parent_allowed worker_allowed =
     (case decode_agent_names unm_names parent_allowed of
        Some parent \<Rightarrow>
          if \<not> contains_fold parent name then False
          else (let policy = parse_worker_policy unm_policy worker_allowed
                in if wp_mode policy = ''deny'' then \<not> contains_fold (wp_denied policy) name
                   else if wp_mode policy = ''custom'' then contains_fold (wp_allowed policy) name
                   else True)
      | None \<Rightarrow>
          (let policy = parse_worker_policy unm_policy worker_allowed
           in if wp_mode policy = ''deny'' then \<not> contains_fold (wp_denied policy) name
              else if wp_mode policy = ''custom'' then contains_fold (wp_allowed policy) name
              else True))"

definition mcp_allowed :: "string \<Rightarrow> string list option \<Rightarrow> bool" where
  "mcp_allowed name allowed =
     (case allowed of None \<Rightarrow> True | Some l \<Rightarrow> list_ex (\<lambda>c. c = name) l)"

section \<open>Lemmas\<close>

lemma keep_first_set: "set (keep_first seen ns) = set ns - seen"
  by (induction ns arbitrary: seen) auto

lemma keep_first_distinct: "distinct (keep_first seen ns)"
  by (induction ns arbitrary: seen) (auto simp: keep_first_set)

lemma set_base_names: "set (base_names gs) = \<Union> (set ` set gs)"
  by (simp add: base_names_def keep_first_set)

lemma distinct_base_names: "distinct (base_names gs)"
  by (simp add: base_names_def keep_first_distinct)

text \<open>The contract roles, and what their lists contain.\<close>

definition contract_roles :: "string set" where
  "contract_roles = {''CEO'', ''CTO'', ''CMO'', ''Coder'', ''Debugger'', ''QA'', ''Designer'',
     ''SMM'', ''PPC Specialist'', ''Post Writer''}"

lemma role_tool_names_set:
  "set (role_tool_names a) =
     (if policy_role a = ''CEO'' then set task_tool_names \<union> set common_tool_names \<union> {''ask_human''}
      else if policy_role a = ''CTO'' then set read_only_tool_names \<union> set common_tool_names \<union>
        set worker_control_tool_names \<union> {''codegraph_*''}
      else if policy_role a = ''CMO'' then set content_tool_names \<union> set common_tool_names \<union>
        set worker_control_tool_names
      else if policy_role a = ''Coder'' \<or> policy_role a = ''Debugger''
        then set implementation_tool_names \<union> set common_tool_names
      else if policy_role a = ''QA'' then set qa_tool_names \<union> set common_tool_names
      else if policy_role a = ''Designer'' \<or> policy_role a = ''SMM'' \<or>
        policy_role a = ''PPC Specialist'' \<or> policy_role a = ''Post Writer''
        then set content_tool_names \<union> set common_tool_names
      else {})"
  by (simp add: role_tool_names_def Let_def set_base_names Un_assoc)
    (auto simp: set_eq_iff)

lemma role_tool_names_Nil_iff: "role_tool_names a = [] \<longleftrightarrow> policy_role a \<notin> contract_roles"
proof -
  have "role_tool_names a = [] \<longleftrightarrow> set (role_tool_names a) = {}" by simp
  also have "\<dots> \<longleftrightarrow> policy_role a \<notin> contract_roles"
    by (simp add: role_tool_names_set contract_roles_def common_tool_names_def tool_group_defs)
  finally show ?thesis .
qed

text \<open>Every tool name of a contract but the wildcard of the code graph.\<close>

definition contract_tools :: "string list" where
  "contract_tools = common_tool_names @ task_tool_names @ read_only_tool_names @
     worker_control_tool_names @ content_tool_names @ [''write'', ''bash'', ''browser_use'', ''ask_human'']"

lemma role_list_vocabulary:
  "e \<in> set (role_tool_names a) \<Longrightarrow> e = ''codegraph_*'' \<or> e \<in> set contract_tools"
proof -
  assume "e \<in> set (role_tool_names a)"
  then have "e \<in> set (common_tool_names @ task_tool_names @ read_only_tool_names @
      worker_control_tool_names @ content_tool_names @ implementation_tool_names @
      qa_tool_names @ [''ask_human'', ''codegraph_*''])"
    unfolding role_tool_names_set by (simp split: if_splits) blast+
  moreover have "\<forall>e \<in> set (common_tool_names @ task_tool_names @ read_only_tool_names @
      worker_control_tool_names @ content_tool_names @ implementation_tool_names @
      qa_tool_names @ [''ask_human'', ''codegraph_*'']). e = ''codegraph_*'' \<or> e \<in> set contract_tools"
    by code_simp
  ultimately show ?thesis by blast
qed

lemma contract_tools_plain:
  "\<forall>e \<in> set contract_tools. last e \<noteq> CHR ''*'' \<and> take 10 e \<noteq> ''codegraph_''"
  by code_simp

lemma role_list_stars:
  "e \<in> set (role_tool_names a) \<Longrightarrow> e = ''codegraph_*'' \<or> last e \<noteq> CHR ''*''"
  using role_list_vocabulary contract_tools_plain by blast

text \<open>An ordinary tool name is matched by a role list exactly when the list contains it.\<close>

lemma role_list_matches:
  assumes "take 10 n \<noteq> ''codegraph_''"
  shows "name_matches_filter n (role_tool_names a) \<longleftrightarrow> n \<in> set (role_tool_names a)"
proof -
  have "entry_matches n e \<longleftrightarrow> e = n" if "e \<in> set (role_tool_names a)" for e
  proof (cases "e = ''codegraph_*''")
    case True
    have "length ''codegraph_*'' - 1 = 10" by simp
    then have "entry_matches n ''codegraph_*'' \<Longrightarrow>
        ''codegraph_*'' = n \<or> take 10 n = take 10 ''codegraph_*''"
      unfolding entry_matches_def by metis
    with assms True show ?thesis by (auto simp: entry_matches_def)
  next
    case False
    with that have "last e \<noteq> CHR ''*''"
      using role_list_stars by blast
    then show ?thesis by (simp add: entry_matches_def)
  qed
  then show ?thesis by (auto simp: name_matches_filter_def list_ex_iff)
qed

lemma role_list_matches_codegraph:
  assumes "take 10 n = ''codegraph_''"
  shows "name_matches_filter n (role_tool_names a) \<longleftrightarrow> ''codegraph_*'' \<in> set (role_tool_names a)"
proof -
  have "entry_matches n e \<longleftrightarrow> e = ''codegraph_*''" if e: "e \<in> set (role_tool_names a)" for e
  proof (cases "e = ''codegraph_*''")
    case True
    have "length (take 10 n) = 10" using assms by simp
    then have n: "10 \<le> length n" by simp
    have l: "length ''codegraph_*'' - 1 = 10" by simp
    have "take (length ''codegraph_*'' - 1) n = take (length ''codegraph_*'' - 1) ''codegraph_*''"
      unfolding l using assms by simp
    moreover have "length ''codegraph_*'' - 1 \<le> length n" unfolding l by (rule n)
    moreover have "''codegraph_*'' \<noteq> []" "last ''codegraph_*'' = CHR ''*''" by simp_all
    ultimately have "entry_matches n ''codegraph_*''" unfolding entry_matches_def by blast
    with True show ?thesis by simp
  next
    case False
    with e have "e \<in> set contract_tools" using role_list_vocabulary by blast
    then have "last e \<noteq> CHR ''*''" "take 10 e \<noteq> ''codegraph_''" using contract_tools_plain by blast+
    then show ?thesis using assms False unfolding entry_matches_def by metis
  qed
  then show ?thesis by (auto simp: name_matches_filter_def list_ex_iff)
qed

lemma no_star_in_role_list: "''*'' \<notin> set (role_tool_names a)"
  by (simp add: role_tool_names_set common_tool_names_def tool_group_defs)

text \<open>
  The contracts read by tool: which of the roles with a contract may use it.
\<close>

definition granted :: "string \<Rightarrow> string \<Rightarrow> bool" where
  "granted role n \<longleftrightarrow>
     n \<in> {''ask_task_owner'', ''answer_message'', ''write_artifact'', ''list_artifacts'', ''read_artifact'',
           ''finish_task'', ''report_status''} \<or>
     n \<in> {''create_task'', ''create_subtask'', ''get_task'', ''ask_human''} \<and> role = ''CEO'' \<or>
     n \<in> {''run_worker'', ''worker_list'', ''get_worker_info'', ''stop_worker''} \<and> role \<in> {''CTO'', ''CMO''} \<or>
     n = ''write'' \<and> role \<in> {''Coder'', ''Debugger''} \<or>
     n = ''bash'' \<and> role \<in> {''Coder'', ''Debugger'', ''QA''} \<or>
     n \<in> {''ls'', ''grep''} \<and> role \<in> {''CTO'', ''Coder'', ''Debugger'', ''QA''} \<or>
     n = ''read'' \<and> role \<noteq> ''CEO'' \<or>
     n = ''web_fetch'' \<and> role \<notin> {''CEO'', ''CTO'', ''Coder'', ''Debugger''} \<or>
     n = ''browser_use'' \<and> role = ''QA'' \<or>
     take 10 n = ''codegraph_'' \<and> role \<in> {''CTO'', ''Coder'', ''Debugger''}"

lemma listed_granted:
  assumes "policy_role a = role" and "role \<in> contract_roles"
  shows "\<forall>n \<in> set contract_tools. n \<in> set (role_tool_names a) \<longleftrightarrow> granted role n"
  using assms(2) unfolding contract_roles_def insert_iff empty_iff
  by (elim disjE) (simp_all add: role_tool_names_set assms(1) contract_tools_def granted_def common_tool_names_def
      tool_group_defs)

lemma listed_codegraph:
  assumes "policy_role a = role" and "role \<in> contract_roles"
  shows "''codegraph_*'' \<in> set (role_tool_names a) \<longleftrightarrow> role \<in> {''CTO'', ''Coder'', ''Debugger''}"
  using assms(2) unfolding contract_roles_def insert_iff empty_iff
  by (elim disjE) (simp_all add: role_tool_names_set assms(1) common_tool_names_def tool_group_defs)

lemma granted_vocabulary:
  "granted role n \<Longrightarrow> n \<in> set contract_tools \<or> take 10 n = ''codegraph_'' \<and> role \<in> {''CTO'', ''Coder'', ''Debugger''}"
  unfolding granted_def contract_tools_def common_tool_names_def tool_group_defs insert_iff empty_iff
  by (elim disjE conjE) simp_all

lemma granted_iff:
  assumes "policy_role a \<in> contract_roles"
  shows "name_matches_filter n (role_tool_names a) \<longleftrightarrow> granted (policy_role a) n"
proof -
  have b: "n \<in> set contract_tools \<Longrightarrow> n \<in> set (role_tool_names a) \<longleftrightarrow> granted (policy_role a) n"
    "''codegraph_*'' \<in> set (role_tool_names a) \<longleftrightarrow> policy_role a \<in> {''CTO'', ''Coder'', ''Debugger''}"
    using listed_granted [OF refl assms] listed_codegraph [OF refl assms] by blast+
  show ?thesis
  proof (cases "take 10 n = ''codegraph_''")
    case True
    then have "n \<notin> set contract_tools" using contract_tools_plain by blast
    moreover have "policy_role a \<in> {''CTO'', ''Coder'', ''Debugger''} \<Longrightarrow> granted (policy_role a) n"
      using True unfolding granted_def by blast
    ultimately show ?thesis
      using granted_vocabulary role_list_matches_codegraph [OF True] b(2) by blast
  next
    case False
    then have "n \<noteq> ''codegraph_*''" by auto
    then show ?thesis
      using role_list_matches [OF False] role_list_vocabulary [of n a] granted_vocabulary [of _ n] False b(1)
      by blast
  qed
qed

lemma role_contract_names:
  assumes "registry_ok r"
  shows "n \<in> names_of (apply_role_contract a r) \<longleftrightarrow>
         n \<in> names_of r \<and> (policy_role a \<in> contract_roles \<longrightarrow> granted (policy_role a) n)"
proof (cases "policy_role a \<in> contract_roles")
  case True
  then have "role_tool_names a \<noteq> []" using role_tool_names_Nil_iff by blast
  then show ?thesis
    using assms True no_star_in_role_list [of a] granted_iff [OF True]
    by (simp add: apply_role_contract_def Let_def reg.names_filt)
next
  case False
  then have "role_tool_names a = []" using role_tool_names_Nil_iff by blast
  with False show ?thesis by (simp add: apply_role_contract_def)
qed

lemma policy_modes:
  "wp_mode (parse_worker_policy u raw) \<in> {''inherit'', ''deny'', ''custom''}"
  by (auto simp: parse_worker_policy_def Let_def split: option.splits)

section \<open>Properties\<close>

definition demo_tool :: "string \<Rightarrow> tool" where
  "demo_tool n = Tool n [] (\<lambda>args. Inr args)"

definition demo_registry :: registry where
  "demo_registry = map (\<lambda>n. (n, demo_tool n))
     [''bash'', ''write'', ''read'', ''run_worker'', ''finish_task'', ''report_status'', ''finish_work'']"

lemma demo_registry_ok: "registry_ok demo_registry"
  by (simp add: registry_ok_def demo_registry_def demo_tool_def)

lemma demo_registry_names:
  "names_of demo_registry = {''bash'', ''write'', ''read'', ''run_worker'', ''finish_task'',
     ''report_status'', ''finish_work''}"
  by (simp add: names_of_def demo_registry_def)

definition demo_agent :: "string \<Rightarrow> string \<Rightarrow> agent" where
  "demo_agent key name = \<lparr>ag_name = name, ag_role_key = key, ag_can_use_workers = False,
     ag_allowed_mcps = [], ag_permissions = [], ag_worker_permissions = [],
     ag_worker_allowed_mcps = []\<rparr>"

text \<open>
  C24: the session registry of an agent whose role has a contract is cut to exactly the tools
  granted to that role: of the tools registered, only a Coder or Debugger keeps the write tool,
  only those and QA the shell, only the CEO the human question and the tools to create and look
  up tasks, only CTO and CMO the tools to start, list, inspect and stop workers, only CTO, Coder
  and Debugger the code graph, and every role the tools to message, to keep artifacts, to finish
  and to report.  The role is the one its role key is an alias of; a key spelt canonically gives
  way to the role its display name is an alias of; an agent left without a contract role keeps
  every registered tool.
\<close>

theorem role_contract_enforced:
  assumes "registry_ok r"
  shows "names_of (apply_role_contract a r) =
           (if policy_role a \<in> contract_roles then {n \<in> names_of r. granted (policy_role a) n} else names_of r) \<and>
         (canonical_role (ag_role_key a) \<notin> {ag_role_key a, []} \<longrightarrow> policy_role a = canonical_role (ag_role_key a)) \<and>
         (canonical_role (ag_role_key a) \<in> {ag_role_key a, []} \<longrightarrow> policy_role a = canonical_role (ag_name a))"
  using role_contract_names [OF assms] by (auto simp: policy_role_def)

theorem role_contract_enforced_witness:
  "names_of (apply_role_contract (demo_agent ''cto'' ''Ada'') demo_registry) =
     {''read'', ''run_worker'', ''finish_task'', ''report_status''}"
proof -
  have c: "canonical_role ''cto'' = ''CTO''"
    by code_simp
  have g: "granted ''CTO'' ''read''" "granted ''CTO'' ''run_worker''" "granted ''CTO'' ''finish_task''"
    "granted ''CTO'' ''report_status''" "\<not> granted ''CTO'' ''bash''" "\<not> granted ''CTO'' ''write''"
    "\<not> granted ''CTO'' ''finish_work''" "''CTO'' \<in> contract_roles"
    by (simp_all add: granted_def contract_roles_def)
  have "policy_role (demo_agent ''cto'' ''Ada'') = ''CTO''"
    using c by (simp add: policy_role_def demo_agent_def)
  with role_contract_enforced [OF demo_registry_ok, of "demo_agent ''cto'' ''Ada''"] g
  show ?thesis unfolding demo_registry_names by auto
qed

text \<open>
  a role key stored in its canonical spelling is replaced by the display name when the
  contract is chosen, so an agent with such a key and a name of its own is not cut at all:
  its session keeps every registered tool, whatever its role key says.
\<close>

theorem canonical_key_custom_name_unrestricted:
  assumes "canonical_role (ag_role_key a) = ag_role_key a"
    and "canonical_role (ag_name a) \<notin> contract_roles"
  shows "apply_role_contract a r = r"
proof -
  have "policy_role a \<notin> contract_roles"
    using assms by (simp add: policy_role_def)
  then show ?thesis
    by (simp add: apply_role_contract_def Let_def flip: role_tool_names_Nil_iff)
qed

theorem canonical_key_custom_name_unrestricted_witness:
  "apply_role_contract (demo_agent ''CTO'' ''Ada'') demo_registry = demo_registry \<and>
   ''write'' \<in> names_of demo_registry"
proof -
  have "canonical_role ''CTO'' = ''CTO''" and name: "canonical_role ''Ada'' = ''Ada''"
    by code_simp+
  then show ?thesis
    using canonical_key_custom_name_unrestricted [of "demo_agent ''CTO'' ''Ada''" demo_registry]
    by (simp add: demo_agent_def contract_roles_def demo_registry_names)
qed

text \<open>
  C25: a helper worker never exceeds its parent: every tool it keeps was registered and is
  not denied by the parent's permissions, and every MCP server it may use is on the
  parent's list where the parent has one.
\<close>

theorem worker_never_exceeds_parent:
  assumes "registry_ok r"
  shows "names_of (apply_worker_tool_policy unm_perms unm_policy r parent_perms worker_perms)
           \<subseteq> {n \<in> names_of r.
                \<not> name_matches_filter n (denied_from_permissions unm_perms parent_perms)} \<and>
         (worker_mcp_allowed unm_names unm_policy server parent_mcps worker_mcps \<longrightarrow>
            (case decode_agent_names unm_names parent_mcps of
               None \<Rightarrow> True | Some l \<Rightarrow> contains_fold l server))"
proof -
  let ?d = "denied_from_permissions unm_perms parent_perms"
  have ok: "registry_ok (exclude_registry ?d r)" using assms by (rule reg.ok_excl)
  have "names_of (apply_worker_tool_policy unm_perms unm_policy r parent_perms worker_perms)
        \<subseteq> names_of (exclude_registry ?d r)"
    using reg.filt_shrinks [OF ok] reg.excl_shrinks [OF ok]
    by (auto simp: apply_worker_tool_policy_def Let_def)
  then show ?thesis
    by (auto simp: reg.names_excl [OF assms] worker_mcp_allowed_def split: option.splits if_splits)
qed

theorem worker_never_exceeds_parent_witness:
  "names_of (apply_worker_tool_policy (\<lambda>_. Some [(''bash'', '' Deny'')]) (\<lambda>_. None)
     demo_registry ''p'' []) \<subseteq> names_of demo_registry - {''bash''}"
proof -
  have "denied_from_permissions (\<lambda>_. Some [(''bash'', '' Deny'')]) ''p'' = [''bash'']"
    by code_simp
  moreover note worker_never_exceeds_parent [OF demo_registry_ok,
      of "\<lambda>_. Some [(''bash'', '' Deny'')]" "\<lambda>_. None" "''p''" "[]" "\<lambda>_. None" "''s''" "[]" "[]",
      THEN conjunct1]
  ultimately have "names_of (apply_worker_tool_policy (\<lambda>_. Some [(''bash'', '' Deny'')]) (\<lambda>_. None)
      demo_registry ''p'' []) \<subseteq> {n \<in> names_of demo_registry. \<not> name_matches_filter n [''bash'']}"
    by simp
  moreover have "name_matches_filter ''bash'' [''bash'']"
    by code_simp
  ultimately show ?thesis by blast
qed

text \<open>
  C28: a worker policy that cannot be read, or has an unknown mode, fails closed: the worker
  keeps nothing but its lifecycle tools and no MCP server; and whatever the policy, unless
  it is an explicit deny list, the worker keeps each lifecycle tool it had.
\<close>

theorem bad_worker_policy_fails_closed:
  assumes "registry_ok r" and "trim_space raw \<noteq> []"
    and "case unm_policy raw of None \<Rightarrow> True
         | Some d \<Rightarrow> \<exists>m. pd_mode d = Some m \<and> m \<notin> {''deny'', ''custom'', ''inherit''}"
  shows "names_of (apply_worker_tool_policy unm_perms unm_policy r parent_perms raw) =
           {n \<in> names_of r. n \<in> set worker_lifecycle \<and>
              \<not> name_matches_filter n (denied_from_permissions unm_perms parent_perms)} \<and>
         \<not> worker_mcp_allowed unm_names unm_policy server parent_mcps raw"
proof -
  have p: "parse_worker_policy unm_policy raw = \<lparr>wp_mode = ''custom'', wp_denied = [], wp_allowed = []\<rparr>"
    using assms(2,3) by (auto simp: parse_worker_policy_def Let_def split: option.splits)
  let ?d = "denied_from_permissions unm_perms parent_perms"
  have ok: "registry_ok (exclude_registry ?d r)" using assms(1) by (rule reg.ok_excl)
  have exact: "\<And>e. e \<in> set worker_lifecycle \<Longrightarrow> e = [] \<or> last e \<noteq> CHR ''*''"
    by (auto simp: worker_lifecycle_def)
  have ne: "worker_lifecycle \<noteq> []" by (simp add: worker_lifecycle_def)
  have "names_of (filter_registry worker_lifecycle (exclude_registry ?d r)) =
        names_of (exclude_registry ?d r) \<inter> set worker_lifecycle"
    using reg.filt_shrinks [OF ok] reg.listed_survives [OF ok]
      reg.exact_list_only [OF ok _ ne exact] by blast
  moreover have "\<not> worker_mcp_allowed unm_names unm_policy server parent_mcps raw"
    by (auto simp: worker_mcp_allowed_def p contains_fold_def split: option.splits)
  ultimately show ?thesis
    by (auto simp: apply_worker_tool_policy_def p reg.names_excl [OF assms(1)])
qed

theorem bad_worker_policy_fails_closed_witness:
  "names_of (apply_worker_tool_policy (\<lambda>_. None) (\<lambda>_. None) demo_registry [] ''{'') =
     {''finish_task'', ''report_status'', ''finish_work''}"
proof -
  have "denied_from_permissions (\<lambda>_. None) [] = []"
    by (simp add: denied_from_permissions_def)
  moreover have "trim_space ''{'' \<noteq> []" by code_simp
  ultimately show ?thesis
    using bad_worker_policy_fails_closed [OF demo_registry_ok, of "''{''" "\<lambda>_. None" "\<lambda>_. None" "[]"]
    by (auto simp: demo_registry_names worker_lifecycle_def name_matches_filter_def)
qed

end
