(* ===== verification/Model_Health.thy ===== *)
theory Model_Health
  imports Complex_Main Gateway_Auth "HOL-Library.Multiset"
begin

text \<open>
  The routing state of the model group router (\<open>integration/group_router.go\<close>): what is
  remembered of each provider and model, how one attempt is judged, and in which order the
  members of a group are tried.

  \<open>float64\<close> rates are rational numbers; of \<open>encoding/json\<close> the two probes the code makes
  are arguments.
\<close>

section \<open>Health of a provider and model\<close>

record member_health =
  mh_until :: instant
  mh_limit_streak :: int
  mh_fail_streak :: int
  mh_rate :: rat

definition no_health :: member_health where
  "no_health = \<lparr>mh_until = 0, mh_limit_streak = 0, mh_fail_streak = 0, mh_rate = 0\<rparr>"

type_synonym health_map = "string \<Rightarrow> member_health option"

definition health_key :: "id \<Rightarrow> string \<Rightarrow> string" where
  "health_key provider model = dec_int provider @ CHR ''/'' # model"

definition health_get :: "id \<Rightarrow> string \<Rightarrow> health_map \<Rightarrow> member_health" where
  "health_get provider model hm =
     (case hm (health_key provider model) of Some h \<Rightarrow> h | None \<Rightarrow> no_health)"

definition health_update ::
  "id \<Rightarrow> string \<Rightarrow> (member_health \<Rightarrow> member_health) \<Rightarrow> health_map \<Rightarrow> member_health \<times> health_map" where
  "health_update provider model f hm =
     (let h = f (health_get provider model hm)
      in (h, hm(health_key provider model \<mapsto> h)))"

lemma dec_int_no_slash: "CHR ''/'' \<notin> set (dec_int i)"
proof -
  have "CHR ''/'' \<notin> set (dec_nat n)" for n
    using dec_nat_digits [of n] by (auto simp: list_all_iff is_digit_def)
  then show ?thesis by (auto simp: dec_int_def)
qed

lemma health_key_inj [simp]:
  "health_key p m = health_key q n \<longleftrightarrow> p = q \<and> m = n"
proof
  assume eq: "health_key p m = health_key q n"
  have "cut_at (CHR ''/'') (health_key p m) = Some (dec_int p, m)"
    "cut_at (CHR ''/'') (health_key q n) = Some (dec_int q, n)"
    unfolding health_key_def by (rule cut_at_append [OF dec_int_no_slash])+
  with eq have "dec_int p = dec_int q \<and> m = n" by (metis option.inject prod.inject)
  then show "p = q \<and> m = n" by simp
qed simp

lemma health_get_update [simp]:
  "health_get q n (snd (health_update p m f hm)) =
   (if q = p \<and> n = m then f (health_get p m hm) else health_get q n hm)"
  by (simp add: health_get_def health_update_def Let_def)

lemma fst_health_update [simp]: "fst (health_update p m f hm) = f (health_get p m hm)"
  by (simp add: health_update_def Let_def)

section \<open>Judging a response\<close>

datatype outcome = Success | Rate_Limited | Failure

definition looks_rate_limited :: "string \<Rightarrow> bool" where
  "looks_rate_limited msg =
     (let m = to_lower msg
      in str_contains m ''rate limit'' \<or> str_contains m ''rate-limit'' \<or>
         str_contains m ''too many requests'' \<or> str_contains m ''quota'' \<or>
         str_contains m ''overloaded'')"

text \<open>
  \<open>error_message\<close> is the message of the error object of a body that decodes, \<open>error_probe\<close>
  the error object (message, and its code as \<open>fmt\<close> prints it) and the number of choices.
\<close>

type_synonym error_message = "bytes \<Rightarrow> string option"
type_synonym error_probe = "bytes \<Rightarrow> ((string \<times> string) option \<times> nat) option"

definition extract_error_message :: "error_message \<Rightarrow> bytes \<Rightarrow> string \<Rightarrow> string" where
  "extract_error_message em body fallback =
     (let plain =
            (let s = trim_space body
             in if s \<noteq> [] \<and> length s \<le> 300 \<and> \<not> str_contains (to_lower s) ''<html''
                then fallback @ '': '' @ s else fallback)
      in case em body of Some m \<Rightarrow> if m \<noteq> [] then m else plain | None \<Rightarrow> plain)"

definition classify_response ::
  "error_message \<Rightarrow> error_probe \<Rightarrow> int \<Rightarrow> bytes \<Rightarrow> outcome \<times> string" where
  "classify_response em ep status body =
     (if status = 429
      then (Rate_Limited, extract_error_message em body ''rate limit exceeded (429)'')
      else if status \<ge> 400 then
        (let msg = extract_error_message em body (''provider returned HTTP '' @ dec_int status)
         in if looks_rate_limited msg then (Rate_Limited, msg) else (Failure, msg))
      else case ep body of
        Some (Some (m, code), 0) \<Rightarrow>
          (let msg = (if m = [] then ''provider returned an error body'' else m)
           in if code = ''429'' \<or> looks_rate_limited msg then (Rate_Limited, msg)
              else (Failure, msg))
      | _ \<Rightarrow> (Success, []))"

definition truncate_msg :: "string \<Rightarrow> nat \<Rightarrow> string" where
  "truncate_msg s n =
     (if length s \<le> n then s else take n s @ [CHR 0xE2, CHR 0x80, CHR 0xA6])"

section \<open>Recording an outcome\<close>

definition rate_limit_base_cooldown :: duration where
  "rate_limit_base_cooldown = 5 * minute"

definition rate_limit_max_cooldown :: duration where
  "rate_limit_max_cooldown = hour"

text \<open>The shift is of a 64-bit duration.\<close>

definition cooldown_after :: "int \<Rightarrow> duration" where
  "cooldown_after streak =
     (let c = wrap64 (rate_limit_base_cooldown * 2 ^ nat (streak - 1))
      in if c > rate_limit_max_cooldown \<or> c \<le> 0 then rate_limit_max_cooldown else c)"

record request_stat =
  rs_group :: id
  rs_provider :: id
  rs_model :: string
  rs_success :: bool
  rs_rate_limited :: bool
  rs_status :: int
  rs_duration_ms :: int
  rs_prompt :: int
  rs_completion :: int
  rs_rate :: rat
  rs_cooldown_until :: "instant option"
  rs_error :: string

definition blank_stat ::
  "id \<Rightarrow> group_member \<Rightarrow> int \<Rightarrow> duration \<Rightarrow> int \<Rightarrow> int \<Rightarrow> string \<Rightarrow> request_stat" where
  "blank_stat g m status took prompt completion err =
     \<lparr>rs_group = g, rs_provider = mm_provider_id m, rs_model = mm_model m, rs_success = False,
      rs_rate_limited = False, rs_status = status, rs_duration_ms = took div 1000000,
      rs_prompt = prompt, rs_completion = completion, rs_rate = 0, rs_cooldown_until = None,
      rs_error = truncate_msg err 500\<rparr>"

definition tokens_per_sec :: "duration \<Rightarrow> int \<Rightarrow> rat" where
  "tokens_per_sec took completion =
     (if took > 0 \<and> completion > 0
      then of_int completion / (of_int took / of_int second) else 0)"

text \<open>\<open>now\<close> is the reading of the clock when a cooldown starts.\<close>

definition record_outcome ::
  "instant \<Rightarrow> id \<Rightarrow> group_member \<Rightarrow> outcome \<Rightarrow> int \<Rightarrow> duration \<Rightarrow> int \<Rightarrow> int \<Rightarrow> string \<Rightarrow>
   health_map \<Rightarrow> request_stat \<times> health_map"
where
  "record_outcome now g m result status took prompt completion err hm =
     (let stat = blank_stat g m status took prompt completion err
      in case result of
           Success \<Rightarrow>
             let rate = tokens_per_sec took completion
             in (stat\<lparr>rs_success := True, rs_rate := rate\<rparr>,
                 snd (health_update (mm_provider_id m) (mm_model m)
                   (\<lambda>h. h\<lparr>mh_fail_streak := 0, mh_limit_streak := 0, mh_until := 0,
                          mh_rate := (if rate > 0 then rate else mh_rate h)\<rparr>) hm))
         | Rate_Limited \<Rightarrow>
             let (h, hm') = health_update (mm_provider_id m) (mm_model m)
                   (\<lambda>h. h\<lparr>mh_limit_streak := mh_limit_streak h + 1,
                          mh_until := now + cooldown_after (mh_limit_streak h + 1)\<rparr>) hm
             in (stat\<lparr>rs_rate_limited := True, rs_cooldown_until := Some (mh_until h)\<rparr>, hm')
         | Failure \<Rightarrow>
             (stat, snd (health_update (mm_provider_id m) (mm_model m)
                (\<lambda>h. h\<lparr>mh_fail_streak := mh_fail_streak h + 1\<rparr>) hm)))"

section \<open>The members of a group\<close>

definition expand_member :: "group_member \<Rightarrow> group_member list" where
  "expand_member m =
     (if \<not> mm_all m then [m]
      else map (\<lambda>model. m\<lparr>mm_model := model, mm_all := False\<rparr>)
             (filter (\<lambda>s. s \<noteq> []) (map trim_space (split_on (CHR '','') (pv_models (mm_provider m))))))"

definition expand_model_group_members :: "group_member list \<Rightarrow> group_member list" where
  "expand_model_group_members ms = concat (map expand_member ms)"

lemma expand_member_provider:
  "x \<in> set (expand_member m) \<Longrightarrow> mm_provider x = mm_provider m \<and> mm_provider_id x = mm_provider_id m"
  by (auto simp: expand_member_def split: if_splits)

section \<open>Stable sorting\<close>

text \<open>
  \<open>sort.SliceStable\<close> with a strict weak order: the sorted permutation that keeps the order
  of elements neither of which precedes the other, which insertion from the left yields.
\<close>

fun insert_before :: "('a \<Rightarrow> 'a \<Rightarrow> bool) \<Rightarrow> 'a \<Rightarrow> 'a list \<Rightarrow> 'a list" where
  "insert_before prec x [] = [x]"
| "insert_before prec x (y # ys) = (if prec y x then y # insert_before prec x ys else x # y # ys)"

definition slice_stable :: "('a \<Rightarrow> 'a \<Rightarrow> bool) \<Rightarrow> 'a list \<Rightarrow> 'a list" where
  "slice_stable prec xs = foldr (insert_before prec) xs []"

locale strict_weak =
  fixes prec :: "'a \<Rightarrow> 'a \<Rightarrow> bool"
  assumes asym: "prec a b \<Longrightarrow> \<not> prec b a"
    and neg_trans: "\<not> prec a b \<Longrightarrow> \<not> prec b c \<Longrightarrow> \<not> prec a c"
begin

definition tied :: "'a \<Rightarrow> 'a \<Rightarrow> bool" where
  "tied a b \<longleftrightarrow> \<not> prec a b \<and> \<not> prec b a"

lemma mset_insert: "mset (insert_before prec x ys) = add_mset x (mset ys)"
  by (induction ys) simp_all

lemma set_insert: "set (insert_before prec x ys) = insert x (set ys)"
  by (metis mset_insert set_mset_add_mset_insert set_mset_mset)

lemma mset_stable: "mset (slice_stable prec xs) = mset xs"
  by (induction xs) (simp_all add: slice_stable_def mset_insert)

lemma sorted_insert:
  "sorted_wrt (\<lambda>a b. \<not> prec b a) ys \<Longrightarrow> sorted_wrt (\<lambda>a b. \<not> prec b a) (insert_before prec x ys)"
proof (induction ys)
  case (Cons y ys)
  then show ?case
    using neg_trans [of _ y x] by (auto simp: set_insert dest: asym)
qed simp

lemma sorted_stable: "sorted_wrt (\<lambda>a b. \<not> prec b a) (slice_stable prec xs)"
  by (induction xs) (simp_all add: slice_stable_def sorted_insert)

lemma tied_insert:
  "filter (tied a) (insert_before prec x ys) =
   (if tied a x then x # filter (tied a) ys else filter (tied a) ys)"
proof (induction ys)
  case (Cons y ys)
  have "\<not> tied a y" if "prec y x" "tied a x"
    using that neg_trans [of y a x] by (auto simp: tied_def)
  with Cons show ?case by auto
qed simp

lemma tied_stable: "filter (tied a) (slice_stable prec xs) = filter (tied a) xs"
  by (induction xs) (simp_all add: slice_stable_def tied_insert)

end

section \<open>Routing order\<close>

record scored =
  sc_member :: group_member
  sc_health :: member_health
  sc_cooled :: bool

definition score :: "health_map \<Rightarrow> instant \<Rightarrow> group_member \<Rightarrow> scored" where
  "score hm now m =
     (let h = health_get (mm_provider_id m) (mm_model m) hm
      in \<lparr>sc_member = m, sc_health = h, sc_cooled = now < mh_until h\<rparr>)"

definition routes_before :: "scored \<Rightarrow> scored \<Rightarrow> bool" where
  "routes_before a b =
     (if mm_free (sc_member a) \<noteq> mm_free (sc_member b) then mm_free (sc_member a)
      else if sc_cooled a \<noteq> sc_cooled b then \<not> sc_cooled a
      else if sc_cooled a \<and> sc_cooled b then mh_until (sc_health a) < mh_until (sc_health b)
      else if mh_fail_streak (sc_health a) \<noteq> mh_fail_streak (sc_health b)
        then mh_fail_streak (sc_health a) < mh_fail_streak (sc_health b)
      else if mh_rate (sc_health a) \<noteq> mh_rate (sc_health b)
        then mh_rate (sc_health a) > mh_rate (sc_health b)
      else mm_priority (sc_member a) < mm_priority (sc_member b))"

definition order_candidates ::
  "health_map \<Rightarrow> group_member list \<Rightarrow> instant \<Rightarrow> group_member list" where
  "order_candidates hm ms now =
     map sc_member (slice_stable routes_before (map (score hm now) ms))"

interpretation routing: strict_weak routes_before
proof unfold_locales
  fix a b c :: scored
  show "routes_before a b \<Longrightarrow> \<not> routes_before b a"
    by (auto simp: routes_before_def split: if_splits)
  show "\<not> routes_before a b \<Longrightarrow> \<not> routes_before b c \<Longrightarrow> \<not> routes_before a c"
    unfolding routes_before_def by (force split: if_splits)
qed

section \<open>The order the documentation promises\<close>

definition cooling :: "health_map \<Rightarrow> instant \<Rightarrow> group_member \<Rightarrow> bool" where
  "cooling hm now m \<longleftrightarrow> now < mh_until (health_get (mm_provider_id m) (mm_model m) hm)"

abbreviation health_of :: "health_map \<Rightarrow> group_member \<Rightarrow> member_health" where
  "health_of hm m \<equiv> health_get (mm_provider_id m) (mm_model m) hm"

text \<open>
  Free before paid; within a tier usable before cooling; the cooling by the end of their
  cooldown; the usable by failure streak, then the faster first, then by priority.
\<close>

definition may_precede :: "health_map \<Rightarrow> instant \<Rightarrow> group_member \<Rightarrow> group_member \<Rightarrow> bool" where
  "may_precede hm now a b \<longleftrightarrow>
     (mm_free b \<longrightarrow> mm_free a) \<and>
     (mm_free a = mm_free b \<longrightarrow>
        (cooling hm now a \<longrightarrow>
           cooling hm now b \<and> mh_until (health_of hm a) \<le> mh_until (health_of hm b)) \<and>
        (\<not> cooling hm now b \<longrightarrow>
           mh_fail_streak (health_of hm a) \<le> mh_fail_streak (health_of hm b) \<and>
           (mh_fail_streak (health_of hm a) = mh_fail_streak (health_of hm b) \<longrightarrow>
              mh_rate (health_of hm a) \<ge> mh_rate (health_of hm b) \<and>
              (mh_rate (health_of hm a) = mh_rate (health_of hm b) \<longrightarrow>
                 mm_priority a \<le> mm_priority b))))"

definition same_rank :: "health_map \<Rightarrow> instant \<Rightarrow> group_member \<Rightarrow> group_member \<Rightarrow> bool" where
  "same_rank hm now a b \<longleftrightarrow> may_precede hm now a b \<and> may_precede hm now b a"

lemma may_precede_routes:
  "may_precede hm now a b \<longleftrightarrow> \<not> routes_before (score hm now b) (score hm now a)"
  unfolding may_precede_def routes_before_def score_def cooling_def Let_def
  by (simp split: if_split) (auto simp: not_less)

lemma scored_order:
  "slice_stable routes_before (map (score hm now) ms) =
   map (score hm now) (order_candidates hm ms now)"
proof -
  have "set (slice_stable routes_before (map (score hm now) ms)) = score hm now ` set ms"
    by (metis routing.mset_stable set_map set_mset_mset)
  then have "map (score hm now \<circ> sc_member) (slice_stable routes_before (map (score hm now) ms)) =
      slice_stable routes_before (map (score hm now) ms)"
    by (intro map_idI) (auto simp: score_def Let_def)
  then show ?thesis by (simp add: order_candidates_def)
qed

lemma filter_tied:
  "filter (routing.tied (score hm now m)) (map (score hm now) xs) =
   map (score hm now) (filter (same_rank hm now m) xs)"
  by (induction xs) (auto simp: routing.tied_def same_rank_def may_precede_routes)

lemma score_inj: "score hm now a = score hm now b \<longleftrightarrow> a = b"
  by (auto simp: score_def Let_def)

lemma order_candidates_mset: "mset (order_candidates hm ms now) = mset ms"
proof -
  let ?out = "order_candidates hm ms now"
  have "image_mset (score hm now) (mset ?out) = image_mset (score hm now) (mset ms)"
    by (metis mset_map routing.mset_stable scored_order)
  then have "image_mset sc_member (image_mset (score hm now) (mset ?out)) =
      image_mset sc_member (image_mset (score hm now) (mset ms))" by simp
  moreover have "sc_member \<circ> score hm now = id" by (auto simp: score_def Let_def)
  ultimately show ?thesis by (simp add: image_mset.compositionality)
qed

section \<open>Properties\<close>

text \<open>
  the routing order is a permutation of the members in which none stands behind one it
  should precede, and members of equal rank keep the order the group lists them in.
\<close>

theorem members_routed_in_order:
  "mset (order_candidates hm ms now) = mset ms \<and>
   sorted_wrt (may_precede hm now) (order_candidates hm ms now) \<and>
   filter (same_rank hm now m) (order_candidates hm ms now) = filter (same_rank hm now m) ms"
proof (intro conjI)
  let ?out = "order_candidates hm ms now"
  show "mset ?out = mset ms" by (rule order_candidates_mset)
  have "sorted_wrt (\<lambda>a b. \<not> routes_before b a) (map (score hm now) ?out)"
    by (metis routing.sorted_stable scored_order)
  moreover have "may_precede hm now = (\<lambda>a b. \<not> routes_before (score hm now b) (score hm now a))"
    by (intro ext) (rule may_precede_routes)
  ultimately show "sorted_wrt (may_precede hm now) ?out"
    by (simp add: sorted_wrt_map)
  have "map (score hm now) (filter (same_rank hm now m) ?out) =
      map (score hm now) (filter (same_rank hm now m) ms)"
    by (metis filter_tied routing.tied_stable scored_order)
  then show "filter (same_rank hm now m) ?out = filter (same_rank hm now m) ms"
    by (simp add: inj_map_eq_map inj_def score_inj)
qed

text \<open>A free member in its cooldown goes before a paid member in good health.\<close>

lemma cooling_free_before_healthy_paid:
  assumes "mm_free a" and "\<not> mm_free b"
  shows "order_candidates hm [b, a] now = [a, b]"
  using assms by (simp add: order_candidates_def slice_stable_def routes_before_def score_def Let_def)

lemma shift_range: "list_all (\<lambda>k. cooldown_after (int k + 1) = min (5 * minute * 2 ^ k) hour) [0..<64]"
  by code_simp

text \<open>
  the n-th rate limit in a row keeps a model out of first choice for five minutes times
  two to the n-1, or an hour if that is less, for every n: the 64-bit shift never wraps
  around to a shorter pause.
\<close>

theorem cooldown_doubles_up_to_an_hour:
  assumes "n \<ge> 1"
  shows "cooldown_after n = min (5 * minute * 2 ^ nat (n - 1)) hour"
proof (cases "n \<le> 64")
  case True
  then have "nat (n - 1) < 64" using assms by linarith
  then have "nat (n - 1) \<in> set [0..<64]" by simp
  with shift_range have "cooldown_after (int (nat (n - 1)) + 1) = min (5 * minute * 2 ^ nat (n - 1)) hour"
    unfolding list_all_iff by blast
  then show ?thesis using assms by simp
next
  case False
  define k where "k = nat (n - 1) - 64"
  have k: "nat (n - 1) = k + 64" using False by (simp add: k_def)
  have "hour \<le> 5 * minute * 2 ^ 64" by simp
  also have "\<dots> \<le> 5 * minute * 2 ^ (k + 64)"
    by (intro mult_left_mono power_increasing) simp_all
  finally have "5 * minute * 2 ^ (k + 64) \<ge> hour" .
  moreover have "wrap64 (5 * minute * 2 ^ (k + 64)) = 0"
  proof -
    have "(a * 2 ^ (k + 64) + 2 ^ 63) mod 2 ^ 64 = (2 ^ 63 :: int)" for a :: int
    proof -
      have "(a * 2 ^ (k + 64) + 2 ^ 63) mod 2 ^ 64 = (2 ^ 63 + (a * 2 ^ k) * 2 ^ 64) mod (2 ^ 64 :: int)"
        by (simp only: power_add mult.assoc add.commute)
      also have "\<dots> = 2 ^ 63 mod 2 ^ 64" by (rule mod_mult_self1)
      finally show ?thesis by simp
    qed
    then show ?thesis unfolding wrap64_def by simp
  qed
  ultimately show ?thesis
    by (simp add: cooldown_after_def rate_limit_base_cooldown_def rate_limit_max_cooldown_def
        Let_def k)
qed

theorem cooldown_doubles_up_to_an_hour_witness:
  "cooldown_after 3 = 20 * minute \<and> cooldown_after 100 = hour"
proof -
  have "5 * minute * 2 ^ nat (100 - 1) \<ge> hour" by simp
  then show ?thesis
    using cooldown_doubles_up_to_an_hour [of 3] cooldown_doubles_up_to_an_hour [of 100]
    by (simp add: min_def)
qed

end
