(* ===== verification/Sse_Stream.thy ===== *)
theory Sse_Stream
  imports Prelude "HOL-Library.AList"
begin

text \<open>
  The relay of a streamed completion (\<open>integration/llm_gateway.go\<close>, \<open>proxySSEStream\<close>)
  and the token estimates of \<open>pkg/tokens\<close>: every line of the provider's stream is copied to
  the client, the events among them are decoded, and the fragments of content, reasoning and
  tool calls are put together again.

  A body is the lines the provider sent, each with the instant it arrived, the instant the
  body ended and the error it ended with, if any; an empty rest after the last line feed is
  not a line.  Decoding an event and the arguments of a tool call (\<open>encoding/json\<close>) are
  parameters.
\<close>

section \<open>Usage\<close>

record usage =
  us_prompt :: int
  us_completion :: int
  us_total :: int
  us_reasoning :: int
  us_tool_input :: int
  us_cached :: int

definition no_usage :: usage where
  "no_usage = \<lparr>us_prompt = 0, us_completion = 0, us_total = 0, us_reasoning = 0,
     us_tool_input = 0, us_cached = 0\<rparr>"

definition estimate :: "string \<Rightarrow> int" where
  "estimate s = (if length s = 0 then 0 else int (length s) div 4)"

definition resolve_reasoning_tokens :: "int \<Rightarrow> string \<Rightarrow> int" where
  "resolve_reasoning_tokens reported reasoning =
     (if reported > 0 then reported else estimate reasoning)"

section \<open>Events\<close>

record tool_call =
  tc_index :: int
  tc_id :: string
  tc_type :: string
  tc_name :: string
  tc_args :: string

record chunk_choice =
  cc_content :: string
  cc_reasoning :: string
  cc_calls :: "tool_call list"
  cc_message_content :: string
  cc_message_calls :: "tool_call list"

record chunk_usage =
  cu_prompt :: int
  cu_completion :: int
  cu_total :: int
  cu_cached :: int
  cu_reasoning :: int

record chunk =
  ck_choices :: "chunk_choice list"
  ck_usage :: "chunk_usage option"

definition new_call :: tool_call where
  "new_call = \<lparr>tc_index = 0, tc_id = [], tc_type = [], tc_name = [], tc_args = []\<rparr>"

type_synonym calls = "(int \<times> tool_call) list"

text \<open>What is known so far: the bytes written to the client, and the variables of the loop.\<close>

record stream_acc =
  sa_written :: string
  sa_content :: string
  sa_reasoning :: string
  sa_usage :: "usage option"
  sa_calls :: calls

definition stream_start :: stream_acc where
  "stream_start = \<lparr>sa_written = [], sa_content = [], sa_reasoning = [], sa_usage = None,
     sa_calls = []\<rparr>"

definition call_slot :: "tool_call \<Rightarrow> int" where
  "call_slot tc = (if tc_index tc < 0 then 0 else tc_index tc)"

definition fold_call :: "bool \<Rightarrow> tool_call \<Rightarrow> tool_call \<Rightarrow> tool_call" where
  "fold_call append_args tc e =
     e\<lparr>tc_id := (if tc_id tc \<noteq> [] then tc_id tc else tc_id e),
       tc_type := (if tc_type tc \<noteq> [] then tc_type tc else tc_type e),
       tc_name := (if tc_name tc \<noteq> [] then tc_name tc else tc_name e),
       tc_args := (if tc_args tc \<noteq> []
                   then (if append_args then tc_args e @ tc_args tc else tc_args tc)
                   else tc_args e)\<rparr>"

definition merge_tool_call :: "bool \<Rightarrow> tool_call \<Rightarrow> calls \<Rightarrow> calls" where
  "merge_tool_call append_args tc cs =
     (let e = (case map_of cs (call_slot tc) of None \<Rightarrow> new_call | Some e \<Rightarrow> e)
      in AList.update (call_slot tc) (fold_call append_args tc e) cs)"

definition take_choice :: "chunk_choice \<Rightarrow> stream_acc \<Rightarrow> stream_acc" where
  "take_choice c a =
     (let content = sa_content a @ cc_content c
      in a\<lparr>sa_content := (if cc_message_content c \<noteq> [] \<and> content = []
                           then cc_message_content c else content),
           sa_reasoning := sa_reasoning a @ cc_reasoning c,
           sa_calls := fold (merge_tool_call False) (cc_message_calls c)
                         (fold (merge_tool_call True) (cc_calls c) (sa_calls a))\<rparr>)"

definition chunk_totals :: "chunk_usage \<Rightarrow> string \<Rightarrow> usage" where
  "chunk_totals u reasoning =
     \<lparr>us_prompt = cu_prompt u, us_completion = cu_completion u, us_total = cu_total u,
      us_reasoning = resolve_reasoning_tokens (cu_reasoning u) reasoning, us_tool_input = 0,
      us_cached = cu_cached u\<rparr>"

definition take_chunk :: "chunk \<Rightarrow> stream_acc \<Rightarrow> stream_acc" where
  "take_chunk k a =
     (let b = fold take_choice (ck_choices k) a
      in case ck_usage k of
           Some u \<Rightarrow> if cu_total u > 0
                     then b\<lparr>sa_usage := Some (chunk_totals u (sa_reasoning b))\<rparr> else b
         | None \<Rightarrow> b)"

definition event_of :: "(string \<Rightarrow> chunk option) \<Rightarrow> string \<Rightarrow> chunk option" where
  "event_of decode line =
     (if has_prefix line ''data: '' \<and> line \<noteq> ''data: [DONE]''
      then decode (trim_prefix line ''data: '') else None)"

definition take_line :: "(string \<Rightarrow> chunk option) \<Rightarrow> string \<Rightarrow> stream_acc \<Rightarrow> stream_acc" where
  "take_line decode line a =
     (let b = a\<lparr>sa_written := sa_written a @ line @ [CHR 0x0A]\<rparr>
      in case event_of decode line of None \<Rightarrow> b | Some k \<Rightarrow> take_chunk k b)"

section \<open>The body and its lines\<close>

record stream_body =
  sb_start :: instant
  sb_lines :: "(instant \<times> string) list"
  sb_end :: instant
  sb_error :: "string option"

text \<open>
  \<open>bufio.Scanner\<close> with its default buffer: a line of 65536 bytes or more ends the scan with
  \<open>ErrTooLong\<close>; a carriage return before the line feed is dropped.
\<close>

definition max_scan_token :: nat where
  "max_scan_token = 64 * 1024"

definition drop_cr :: "string \<Rightarrow> string" where
  "drop_cr l = (if l \<noteq> [] \<and> last l = CHR 0x0D then butlast l else l)"

definition scanned :: "stream_body \<Rightarrow> (instant \<times> string) list" where
  "scanned b =
     map (\<lambda>(t, l). (t, drop_cr l)) (takeWhile (\<lambda>(t, l). length l < max_scan_token) (sb_lines b))"

definition scan_error :: "stream_body \<Rightarrow> string option" where
  "scan_error b =
     (if list_all (\<lambda>(t, l). length l < max_scan_token) (sb_lines b) then sb_error b
      else Some ''bufio.Scanner: token too long'')"

text \<open>
  The watchdog looks every five seconds from the start on and reports, once, the first time
  it finds more than thirty seconds since the last line.  It runs until the loop is over.
\<close>

definition stream_stall_timeout :: duration where
  "stream_stall_timeout = 30 * second"

definition watchdog_period :: duration where
  "watchdog_period = 5 * second"

definition first_look_after :: "instant \<Rightarrow> instant \<Rightarrow> instant" where
  "first_look_after start t =
     start + ((t - start) div watchdog_period + 1) * watchdog_period"

fun stall_seen :: "instant \<Rightarrow> instant \<Rightarrow> instant list \<Rightarrow> instant \<Rightarrow> duration option" where
  "stall_seen start from [] ends =
     (let t = first_look_after start (from + stream_stall_timeout)
      in if t < ends then Some (t - from) else None)"
| "stall_seen start from (x # xs) ends =
     (let t = first_look_after start (from + stream_stall_timeout)
      in if t < x then Some (t - from) else stall_seen start x xs ends)"

definition stall_of :: "stream_body \<Rightarrow> duration option" where
  "stall_of b =
     (let ts = map fst (scanned b)
      in stall_seen (sb_start b) (sb_start b) ts (max (sb_end b) (last (sb_start b # ts))))"

section \<open>The relay\<close>

datatype stream_error = Stalled duration | Read_Error string

record 'j final_call =
  fc_id :: string
  fc_type :: string
  fc_name :: string
  fc_args :: 'j

record 'j stream_result =
  sr_written :: string
  sr_content :: string
  sr_reasoning :: string
  sr_usage :: "usage option"
  sr_calls :: "'j final_call list"
  sr_error :: "stream_error option"

definition final_call :: "(string \<Rightarrow> 'j) \<Rightarrow> 'j \<Rightarrow> tool_call \<Rightarrow> 'j final_call" where
  "final_call parse_args no_args tc =
     \<lparr>fc_id = tc_id tc, fc_type = tc_type tc, fc_name = tc_name tc,
      fc_args = (if tc_args tc \<noteq> [] then parse_args (tc_args tc) else no_args)\<rparr>"

definition collect_calls :: "(string \<Rightarrow> 'j) \<Rightarrow> 'j \<Rightarrow> calls \<Rightarrow> 'j final_call list" where
  "collect_calls parse_args no_args cs =
     map (\<lambda>i. final_call parse_args no_args (the (map_of cs i))) (sort (map fst cs))"

definition with_tool_input :: "('j \<Rightarrow> bytes) \<Rightarrow> 'j final_call list \<Rightarrow> usage \<Rightarrow> usage" where
  "with_tool_input marshal cs u =
     u\<lparr>us_tool_input := us_tool_input u + (\<Sum>c\<leftarrow>cs. estimate (marshal (fc_args c)))\<rparr>"

definition proxy_sse_stream ::
  "(string \<Rightarrow> chunk option) \<Rightarrow> (string \<Rightarrow> 'j) \<Rightarrow> 'j \<Rightarrow> ('j \<Rightarrow> bytes) \<Rightarrow>
   stream_body \<Rightarrow> 'j stream_result"
where
  "proxy_sse_stream decode parse_args no_args marshal b =
     (let a = fold (take_line decode) (map snd (scanned b)) stream_start;
          cs = collect_calls parse_args no_args (sa_calls a)
      in \<lparr>sr_written = sa_written a, sr_content = sa_content a, sr_reasoning = sa_reasoning a,
          sr_usage = map_option (with_tool_input marshal cs) (sa_usage a), sr_calls = cs,
          sr_error = (case stall_of b of
                        Some d \<Rightarrow> Some (Stalled d)
                      | None \<Rightarrow> map_option Read_Error (scan_error b))\<rparr>)"

section \<open>Verbatim relay\<close>

lemma take_choice_written [simp]: "sa_written (take_choice c a) = sa_written a"
  by (simp add: take_choice_def Let_def)

lemma take_choices_written [simp]: "sa_written (fold take_choice cs a) = sa_written a"
  by (induction cs arbitrary: a) simp_all

lemma take_chunk_written [simp]: "sa_written (take_chunk k a) = sa_written a"
  by (simp add: take_chunk_def Let_def split: option.split)

lemma take_line_written [simp]:
  "sa_written (take_line decode l a) = sa_written a @ l @ [CHR 0x0A]"
  by (simp add: take_line_def Let_def split: option.split)

lemma take_lines_written:
  "sa_written (fold (take_line decode) ls a) =
   sa_written a @ concat (map (\<lambda>l. l @ [CHR 0x0A]) ls)"
  by (induction ls arbitrary: a) simp_all

lemma scanned_short:
  "list_all (\<lambda>(t, l). length l < max_scan_token) (sb_lines b) \<Longrightarrow>
   map snd (scanned b) = map (drop_cr \<circ> snd) (sb_lines b)"
  by (simp add: scanned_def list_all_iff takeWhile_eq_self case_prod_beta)

text \<open>
  A stall is only reported once the body has ended: whatever the watchdog saw, everything the
  provider sent was relayed before.
\<close>

lemma stalled_stream_is_relayed:
  assumes "list_all (\<lambda>(t, l). length l < max_scan_token) (sb_lines b)"
  shows "sr_written (proxy_sse_stream decode pa na m b) =
         concat (map (\<lambda>x. drop_cr (snd x) @ [CHR 0x0A]) (sb_lines b))"
  by (simp add: proxy_sse_stream_def Let_def take_lines_written stream_start_def
      scanned_short [OF assms] comp_def case_prod_beta)

text \<open>
  A provider that pauses for forty seconds and then finishes its answer: the client has the
  whole answer, and the stream still counts as stalled.
\<close>

definition demo_pause :: stream_body where
  "demo_pause = \<lparr>sb_start = 0, sb_lines = [(second, ''a''), (41 * second, ''b'')],
     sb_end = 42 * second, sb_error = None\<rparr>"

lemma finished_stream_counts_as_stalled:
  "let r = proxy_sse_stream (\<lambda>_. None) id [] id demo_pause
   in sr_written r = [CHR ''a'', CHR 0x0A, CHR ''b'', CHR 0x0A] \<and>
      sr_error r = Some (Stalled (34 * second))"
  by (simp add: proxy_sse_stream_def demo_pause_def Let_def scanned_def max_scan_token_def
      drop_cr_def take_line_def event_of_def has_prefix_def stream_start_def stall_of_def
      first_look_after_def stream_stall_timeout_def watchdog_period_def)

section \<open>Reassembly of tool calls\<close>

text \<open>The fragments of a stream in the order they arrived, and what belongs to one slot.\<close>

definition events :: "(string \<Rightarrow> chunk option) \<Rightarrow> stream_body \<Rightarrow> chunk list" where
  "events decode b = List.map_filter (event_of decode) (map snd (scanned b))"

definition deltas :: "chunk list \<Rightarrow> tool_call list" where
  "deltas ks = concat (map cc_calls (concat (map ck_choices ks)))"

definition at_slot :: "int \<Rightarrow> tool_call list \<Rightarrow> tool_call list" where
  "at_slot i fs = filter (\<lambda>f. call_slot f = i) fs"

definition last_nonempty :: "string list \<Rightarrow> string" where
  "last_nonempty ss = (case filter (\<lambda>s. s \<noteq> []) ss of [] \<Rightarrow> [] | ts \<Rightarrow> last ts)"

definition joined :: "tool_call list \<Rightarrow> tool_call" where
  "joined fs =
     \<lparr>tc_index = 0, tc_id = last_nonempty (map tc_id fs), tc_type = last_nonempty (map tc_type fs),
      tc_name = last_nonempty (map tc_name fs), tc_args = concat (map tc_args fs)\<rparr>"

lemma last_nonempty_snoc [simp]:
  "last_nonempty (ss @ [s]) = (if s \<noteq> [] then s else last_nonempty ss)"
proof (cases "filter (\<lambda>s. s \<noteq> []) ss")
  case (Cons t ts)
  then show ?thesis by (simp add: last_nonempty_def)
qed (simp add: last_nonempty_def)

lemma last_nonempty_Nil [simp]: "last_nonempty [] = []"
  by (simp add: last_nonempty_def)

lemma joined_Nil [simp]: "joined [] = new_call"
  by (simp add: joined_def new_call_def)

lemma joined_snoc: "joined (fs @ [f]) = fold_call True f (joined fs)"
  by (simp add: joined_def fold_call_def)

lemma joined_single [simp]: "joined [f] = fold_call True f new_call"
  using joined_snoc [of "[]" f] by simp

lemma at_slot_snoc:
  "at_slot i (fs @ [f]) = (if call_slot f = i then at_slot i fs @ [f] else at_slot i fs)"
  by (simp add: at_slot_def)

definition slots_hold :: "tool_call list \<Rightarrow> calls \<Rightarrow> bool" where
  "slots_hold fs cs \<longleftrightarrow> distinct (map fst cs) \<and>
     (\<forall>i. map_of cs i = (if at_slot i fs = [] then None else Some (joined (at_slot i fs))))"

lemma slots_hold_start: "slots_hold [] []"
  by (simp add: slots_hold_def at_slot_def)

lemma slots_hold_merge:
  assumes "slots_hold fs cs"
  shows "slots_hold (fs @ [f]) (merge_tool_call True f cs)"
proof -
  have m: "map_of cs i = (if at_slot i fs = [] then None else Some (joined (at_slot i fs)))" for i
    using assms by (simp add: slots_hold_def)
  have e: "(case map_of cs i of None \<Rightarrow> new_call | Some e \<Rightarrow> e) = joined (at_slot i fs)" for i
    by (simp add: m)
  show ?thesis
    using assms
    by (simp add: slots_hold_def merge_tool_call_def Let_def e distinct_update update_conv'
        at_slot_snoc joined_snoc)
qed

lemma slots_hold_merges:
  "slots_hold fs cs \<Longrightarrow> slots_hold (fs @ gs) (fold (merge_tool_call True) gs cs)"
proof (induction gs arbitrary: fs cs)
  case (Cons g gs)
  from Cons.IH [OF slots_hold_merge [OF Cons.prems, of g]] show ?case by simp
qed simp

text \<open>A stream in the delta format: no choice of any event carries a whole message.\<close>

definition delta_only :: "chunk list \<Rightarrow> bool" where
  "delta_only ks \<longleftrightarrow> list_all (\<lambda>c. cc_message_calls c = []) (concat (map ck_choices ks))"

lemma slots_hold_choices:
  assumes "slots_hold fs (sa_calls a)" and "list_all (\<lambda>c. cc_message_calls c = []) cs"
  shows "slots_hold (fs @ concat (map cc_calls cs)) (sa_calls (fold take_choice cs a))"
  using assms
proof (induction cs arbitrary: fs a)
  case (Cons c cs)
  have "slots_hold (fs @ cc_calls c) (sa_calls (take_choice c a))"
    using slots_hold_merges [OF Cons.prems(1), of "cc_calls c"] Cons.prems(2)
    by (simp add: take_choice_def Let_def)
  from Cons.IH [OF this] Cons.prems(2) show ?case by simp
qed simp

lemma take_chunk_calls: "sa_calls (take_chunk k a) = sa_calls (fold take_choice (ck_choices k) a)"
  by (simp add: take_chunk_def Let_def split: option.split)

lemma slots_hold_lines:
  assumes "slots_hold fs (sa_calls a)"
    and "delta_only (List.map_filter (event_of decode) ls)"
  shows "slots_hold (fs @ deltas (List.map_filter (event_of decode) ls))
           (sa_calls (fold (take_line decode) ls a))"
  using assms
proof (induction ls arbitrary: fs a)
  case Nil
  then show ?case by (simp add: deltas_def map_filter_simps)
next
  case (Cons l ls)
  show ?case
  proof (cases "event_of decode l")
    case None
    then have "sa_calls (take_line decode l a) = sa_calls a"
      by (simp add: take_line_def)
    with Cons.IH [of fs "take_line decode l a"] Cons.prems None show ?thesis
      by (simp add: map_filter_simps)
  next
    case (Some k)
    have split: "list_all (\<lambda>c. cc_message_calls c = []) (ck_choices k)"
        "delta_only (List.map_filter (event_of decode) ls)"
      using Cons.prems(2) Some by (simp_all add: map_filter_simps delta_only_def)
    have "slots_hold (fs @ concat (map cc_calls (ck_choices k))) (sa_calls (take_line decode l a))"
      using slots_hold_choices [OF _ split(1)] Cons.prems(1) Some
      by (simp add: take_line_def take_chunk_calls)
    from Cons.IH [OF this split(2)] Some show ?thesis
      by (simp add: map_filter_simps deltas_def)
  qed
qed

lemma slots_hold_keys:
  assumes "slots_hold fs cs"
  shows "sort (map fst cs) = sorted_list_of_set (call_slot ` set fs)"
proof -
  have "i \<in> fst ` set cs \<longleftrightarrow> i \<in> call_slot ` set fs" for i
  proof -
    have "i \<in> fst ` set cs \<longleftrightarrow> map_of cs i \<noteq> None" by (simp add: map_of_eq_None_iff)
    also have "\<dots> \<longleftrightarrow> at_slot i fs \<noteq> []" using assms by (simp add: slots_hold_def)
    finally show ?thesis by (auto simp: at_slot_def filter_empty_conv)
  qed
  then have "set (map fst cs) = call_slot ` set fs" by auto
  moreover have "distinct (map fst cs)" using assms by (simp add: slots_hold_def)
  ultimately show ?thesis
    by (metis sorted_list_of_set_sort_remdups distinct_remdups_id)
qed

section \<open>Properties\<close>

text \<open>
  C32: However the fragments of the tool calls of a stream are cut and interleaved, each call
  comes out once, in the order of the slots, with all the argument text of its slot in the
  order of arrival and the last identifier, type and name given for it.
\<close>

theorem tool_calls_reassembled:
  assumes "delta_only (events decode b)"
  shows "sr_calls (proxy_sse_stream decode parse_args no_args marshal b) =
         map (\<lambda>i. final_call parse_args no_args (joined (at_slot i (deltas (events decode b)))))
           (sorted_list_of_set (call_slot ` set (deltas (events decode b))))"
proof -
  define fs where "fs = deltas (events decode b)"
  define cs where "cs = sa_calls (fold (take_line decode) (map snd (scanned b)) stream_start)"
  have "slots_hold fs cs"
    using slots_hold_lines [of "[]" stream_start decode "map snd (scanned b)"] assms
    by (simp add: fs_def cs_def events_def stream_start_def slots_hold_start)
  then have keys: "sort (map fst cs) = sorted_list_of_set (call_slot ` set fs)"
    and look: "\<And>i. i \<in> call_slot ` set fs \<Longrightarrow> map_of cs i = Some (joined (at_slot i fs))"
    by (simp_all add: slots_hold_keys) (auto simp: slots_hold_def at_slot_def filter_empty_conv)
  have "sr_calls (proxy_sse_stream decode parse_args no_args marshal b) =
        collect_calls parse_args no_args cs"
    by (simp add: proxy_sse_stream_def Let_def cs_def)
  also have "\<dots> = map (\<lambda>i. final_call parse_args no_args (joined (at_slot i fs)))
                    (sorted_list_of_set (call_slot ` set fs))"
    unfolding collect_calls_def keys by (rule map_cong) (simp_all add: look)
  finally show ?thesis by (simp add: fs_def)
qed

definition demo_fragment :: "int \<Rightarrow> string \<Rightarrow> string \<Rightarrow> chunk" where
  "demo_fragment i n s =
     \<lparr>ck_choices = [\<lparr>cc_content = [], cc_reasoning = [],
        cc_calls = [\<lparr>tc_index = i, tc_id = n, tc_type = [], tc_name = n, tc_args = s\<rparr>],
        cc_message_content = [], cc_message_calls = []\<rparr>], ck_usage = None\<rparr>"

definition demo_decode :: "string \<Rightarrow> chunk option" where
  "demo_decode s =
     (if s = ''1'' then Some (demo_fragment 2 ''b'' ''x'')
      else if s = ''2'' then Some (demo_fragment 0 ''a'' ''p'')
      else if s = ''3'' then Some (demo_fragment 2 [] ''y'') else None)"

definition demo_body :: stream_body where
  "demo_body = \<lparr>sb_start = 0, sb_lines = [(1, ''data: 1''), (2, ''data: 2''), (3, []),
     (4, ''data: 3''), (5, ''data: [DONE]'')], sb_end = 6, sb_error = None\<rparr>"

lemma demo_scanned:
  "map snd (scanned demo_body) = [''data: 1'', ''data: 2'', [], ''data: 3'', ''data: [DONE]'']"
  by (simp add: scanned_def demo_body_def max_scan_token_def drop_cr_def)

lemma demo_events:
  "events demo_decode demo_body =
   [demo_fragment 2 ''b'' ''x'', demo_fragment 0 ''a'' ''p'', demo_fragment 2 [] ''y'']"
  by (simp add: events_def demo_scanned map_filter_simps event_of_def demo_decode_def
      trim_prefix_def has_prefix_def)

theorem tool_calls_reassembled_witness:
  "map (\<lambda>c. (fc_name c, fc_args c))
     (sr_calls (proxy_sse_stream demo_decode id [] id demo_body)) = [(''a'', ''p''), (''b'', ''xy'')]"
proof -
  have d: "deltas (events demo_decode demo_body) =
      [\<lparr>tc_index = 2, tc_id = ''b'', tc_type = [], tc_name = ''b'', tc_args = ''x''\<rparr>,
       \<lparr>tc_index = 0, tc_id = ''a'', tc_type = [], tc_name = ''a'', tc_args = ''p''\<rparr>,
       \<lparr>tc_index = 2, tc_id = [], tc_type = [], tc_name = [], tc_args = ''y''\<rparr>]"
    by (simp add: demo_events deltas_def demo_fragment_def)
  have "delta_only (events demo_decode demo_body)"
    by (simp add: demo_events delta_only_def demo_fragment_def)
  then have "sr_calls (proxy_sse_stream demo_decode id [] id demo_body) =
      map (\<lambda>i. final_call id [] (joined (at_slot i (deltas (events demo_decode demo_body)))))
        (sorted_list_of_set (call_slot ` set (deltas (events demo_decode demo_body))))"
    by (rule tool_calls_reassembled)
  moreover have "sorted_list_of_set {2, 0 :: int} = [0, 2]" by simp
  ultimately show ?thesis
    by (simp add: d call_slot_def at_slot_def joined_def last_nonempty_def final_call_def
        insert_commute)
qed

end
