(* ===== verification/Provider_Calls.thy ===== *)
theory Provider_Calls
  imports Model_Health Sse_Stream Secrets
begin

text \<open>
  The one place that talks to a provider (\<open>sendProviderRequest\<close> in
  \<open>integration/group_router.go\<close>), the accounting of what an answer cost, and the relay of a
  direct proxy request (\<open>integration/llm_gateway.go\<close>).

  The record \<open>world\<close> holds what lies outside the program: the clock and the duration of each
  exchange, the providers' answers, the database's faults, the ciphers, and the reading and
  writing of JSON.  An exchange is numbered by the gateway's count of exchanges so far.  The
  proxy logger is left out.
\<close>

section \<open>The world around the gateway\<close>

record out_request =
  or_method :: string
  or_url :: string
  or_headers :: header
  or_body :: "bytes option"

record provider_response =
  ps_status :: int
  ps_headers :: header
  ps_body :: bytes
  ps_stream :: stream_body

text \<open>What \<open>json.Unmarshal\<close> makes of a body read into a map: an error, a nil map, a map.\<close>

datatype 'o json_body = Bad_Json | Null_Map | Map_Of 'o

record ('o, 'j) world =
  wd_start :: "nat \<Rightarrow> instant"
  wd_took :: "nat \<Rightarrow> duration"
  wd_provider :: "nat \<Rightarrow> out_request \<Rightarrow> string + provider_response"
  wd_faults :: faults
  wd_account_faults :: faults
  wd_url_error :: "string \<Rightarrow> string option"
  wd_open :: aead_open
  wd_sha :: "bytes \<Rightarrow> bytes"
  wd_flusher :: bool
  wd_secret_text :: "secret_error \<Rightarrow> string"
  wd_stream_text :: "stream_error \<Rightarrow> string"
  wd_request :: "bytes \<Rightarrow> string \<times> bool"
  wd_object :: "bytes \<Rightarrow> 'o json_body"
  wd_with_model :: "'o \<Rightarrow> string \<Rightarrow> bytes"
  wd_error_message :: error_message
  wd_error_probe :: error_probe
  wd_usage :: "bytes \<Rightarrow> chunk_usage \<times> (string \<times> string) list"
  wd_event :: "string \<Rightarrow> chunk option"
  wd_args :: "string \<Rightarrow> 'j"
  wd_no_args :: 'j
  wd_marshal_args :: "'j \<Rightarrow> bytes"
  wd_quote :: "string \<Rightarrow> string"
  wd_stats :: "token_stats \<Rightarrow> string"
  wd_stats_of :: "string \<Rightarrow> token_stats \<times> bool"

record proxy_log =
  pl_agent :: id
  pl_provider :: id
  pl_model :: string
  pl_prompt :: int
  pl_completion :: int
  pl_total :: int

text \<open>\<open>gw_sent\<close> and \<open>gw_notices\<close> record the requests sent and the failovers logged.\<close>

record gateway =
  gw_db :: gateway_db
  gw_keys :: keyring
  gw_health :: health_map
  gw_stats :: "request_stat list"
  gw_usage_log :: "proxy_log list"
  gw_ticks :: nat
  gw_sent :: "(provider \<times> out_request) list"
  gw_notices :: "string list"

datatype gw_reply =
    Error_Reply http_error
  | Relayed int header bytes
  | Exhausted int string
  | Panicked

section \<open>Sending\<close>

definition trim_suffix :: "string \<Rightarrow> string \<Rightarrow> string" where
  "trim_suffix s p = rev (trim_prefix (rev s) (rev p))"

definition has_suffix :: "string \<Rightarrow> string \<Rightarrow> bool" where
  "has_suffix s p = has_prefix (rev s) (rev p)"

definition build_provider_url :: "string \<Rightarrow> string \<Rightarrow> string" where
  "build_provider_url base endpoint =
     (let b = trim_suffix base ''/''
      in if has_suffix b endpoint then b else trim_suffix b ''/v1'' @ ''/v1'' @ endpoint)"

definition proxy_log_mode_header :: string where
  "proxy_log_mode_header = ''X-Proxy-Log-Mode''"

definition internal_gateway_headers :: "string list" where
  "internal_gateway_headers =
     [to_lower token_header, ''x-run-id'', to_lower proxy_log_mode_header, ''x-provider-id'']"

definition header_set :: "string \<Rightarrow> string \<Rightarrow> header \<Rightarrow> header" where
  "header_set k v h = AList.update k [v] h"

datatype send_error = Bad_Request string | Vault_Locked | Key_Error secret_error

text \<open>\<open>skip\<close> lists the further headers the caller does not want forwarded, in lower case.\<close>

definition forwarded :: "string list \<Rightarrow> header \<Rightarrow> header" where
  "forwarded skip src =
     filter (\<lambda>(k, vs). to_lower k \<notin> set skip \<and> to_lower k \<notin> set internal_gateway_headers \<and> vs \<noteq> []) src"

definition send_provider_request ::
  "('o, 'j) world \<Rightarrow> instant \<Rightarrow> string \<Rightarrow> provider \<Rightarrow> string \<Rightarrow> bytes option \<Rightarrow> header \<Rightarrow>
   string list \<Rightarrow> keyring \<Rightarrow> (send_error + out_request) \<times> keyring"
where
  "send_provider_request w now meth pv path body src skip k =
     (let url = build_provider_url (pv_base_url pv) path
      in case wd_url_error w url of
           Some e \<Rightarrow> (Inl (Bad_Request e), k)
         | None \<Rightarrow>
             let h = forwarded skip src;
                 h1 = (if body \<noteq> None then header_set ''Content-Type'' ''application/json'' h else h);
                 (unlocked, k1) =
                   (case pv_user pv of None \<Rightarrow> (True, k) | Some u \<Rightarrow> is_unlocked now u k)
             in if \<not> unlocked then (Inl Vault_Locked, k1)
                else (case decrypt (wd_open w) now (pv_key pv) k1 of
                        (Inl e, k2) \<Rightarrow> (Inl (Key_Error e), k2)
                      | (Inr key, k2) \<Rightarrow>
                          (Inr \<lparr>or_method = meth, or_url = url,
                                or_headers = header_set ''Authorization'' (''Bearer '' @ key) h1,
                                or_body = body\<rparr>, k2)))"

fun send_error_text :: "('o, 'j) world \<Rightarrow> send_error \<Rightarrow> string" where
  "send_error_text w (Bad_Request e) = e"
| "send_error_text w Vault_Locked =
     ''vault locked: this provider'' @ [CHR 0x27] @ ''s owner is logged out '' @
     [CHR 0xE2, CHR 0x80, CHR 0x94] @ '' re-authenticate to run''"
| "send_error_text w (Key_Error e) = ''decrypt provider key: '' @ wd_secret_text w e"

text \<open>One exchange: build the request, send it, wait for the head of the answer.\<close>

definition exchange ::
  "('o, 'j) world \<Rightarrow> string \<Rightarrow> provider \<Rightarrow> string \<Rightarrow> bytes option \<Rightarrow> header \<Rightarrow> string list \<Rightarrow>
   gateway \<Rightarrow> (string + provider_response) \<times> gateway"
where
  "exchange w meth pv path body src skip g =
     (let n = gw_ticks g
      in case send_provider_request w (wd_start w n) meth pv path body src skip (gw_keys g) of
           (Inl e, k) \<Rightarrow> (Inl (send_error_text w e), g\<lparr>gw_keys := k, gw_ticks := Suc n\<rparr>)
         | (Inr q, k) \<Rightarrow>
             (wd_provider w n q,
              g\<lparr>gw_keys := k, gw_ticks := Suc n, gw_sent := gw_sent g @ [(pv, q)]\<rparr>))"

section \<open>What is known of the requests sent\<close>

text \<open>
  A request is clean when no header of the gateway's own went out with it and its one
  \<open>Authorization\<close> value is a bearer the gateway put there, not the caller's.
\<close>

definition clean_request :: "provider \<times> out_request \<Rightarrow> bool" where
  "clean_request = (\<lambda>(pv, q).
     (\<forall>(k, vs) \<in> set (or_headers q). to_lower k \<notin> set internal_gateway_headers) \<and>
     (\<exists>key. map_of (or_headers q) ''Authorization'' = Some [''Bearer '' @ key]))"

definition sent_since :: "(provider \<times> out_request \<Rightarrow> bool) \<Rightarrow> gateway \<Rightarrow> gateway \<Rightarrow> bool" where
  "sent_since P g g' \<longleftrightarrow> (\<exists>new. gw_sent g' = gw_sent g @ new \<and> list_all P new)"

lemma sent_since_refl [simp, intro]: "sent_since P g g"
  by (simp add: sent_since_def)

lemma sent_since_same: "gw_sent g' = gw_sent g \<Longrightarrow> sent_since P g g'"
  by (simp add: sent_since_def)

lemma sent_since_trans: "sent_since P g g1 \<Longrightarrow> sent_since P g1 g2 \<Longrightarrow> sent_since P g g2"
  by (auto simp: sent_since_def)

lemma sent_since_cong:
  "gw_sent g1 = gw_sent g2 \<Longrightarrow> sent_since P g g1 \<longleftrightarrow> sent_since P g g2"
  "gw_sent g1 = gw_sent g2 \<Longrightarrow> sent_since P g1 g' \<longleftrightarrow> sent_since P g2 g'"
  by (simp_all add: sent_since_def)

lemma internal_names:
  "to_lower ''Authorization'' \<notin> set internal_gateway_headers"
  "to_lower ''Content-Type'' \<notin> set internal_gateway_headers"
  by (simp_all add: internal_gateway_headers_def token_header_def proxy_log_mode_header_def
      to_lower_def lower_char_def)

lemma set_alist_update_sub: "set (AList.update k v al) \<subseteq> insert (k, v) (set al)"
proof (induction al)
  case (Cons a al)
  then show ?case by (cases a) auto
qed simp

lemma send_clean:
  assumes "send_provider_request w now meth pv path body src skip k = (Inr q, k')"
  shows "clean_request (pv, q)"
proof -
  obtain h key where q: "or_headers q = header_set ''Authorization'' (''Bearer '' @ key) h"
    and h: "h = forwarded skip src \<or>
            h = header_set ''Content-Type'' ''application/json'' (forwarded skip src)"
    using assms
    by (auto simp: send_provider_request_def Let_def split: option.splits prod.splits sum.splits if_splits)
  have clean: "to_lower x \<notin> set internal_gateway_headers" if "(x, vs) \<in> set (forwarded skip src)" for x vs
    using that by (auto simp: forwarded_def)
  have "to_lower x \<notin> set internal_gateway_headers" if "(x, vs) \<in> set h" for x vs
    using h
  proof
    assume "h = forwarded skip src"
    then show ?thesis using that clean by simp
  next
    assume "h = header_set ''Content-Type'' ''application/json'' (forwarded skip src)"
    then have "(x, vs) = (''Content-Type'', [''application/json'']) \<or> (x, vs) \<in> set (forwarded skip src)"
      using that set_alist_update_sub unfolding header_set_def by fast
    then show ?thesis using clean internal_names(2) by blast
  qed
  then have "to_lower x \<notin> set internal_gateway_headers" if "(x, vs) \<in> set (or_headers q)" for x vs
    using that internal_names(1) set_alist_update_sub unfolding q header_set_def by fast
  moreover have "map_of (or_headers q) ''Authorization'' = Some [''Bearer '' @ key]"
    by (simp add: q header_set_def update_conv')
  ultimately show ?thesis by (auto simp: clean_request_def)
qed

text \<open>An exchange sends at most one request, clean, to the provider it was asked to use.\<close>

lemma exchange_sends:
  "sent_since (\<lambda>x. clean_request x \<and> fst x = pv) g (snd (exchange w meth pv path body src skip g))"
  by (auto simp: exchange_def Let_def sent_since_def dest: send_clean split: prod.splits sum.splits)

lemma exchange_frame [simp]:
  "gw_db (snd (exchange w meth pv path body src skip g)) = gw_db g"
  "gw_stats (snd (exchange w meth pv path body src skip g)) = gw_stats g"
  "gw_health (snd (exchange w meth pv path body src skip g)) = gw_health g"
  by (simp_all add: exchange_def Let_def split: prod.split sum.split)

text \<open>
  Only the four internal headers are held back: the session cookie a browser authenticated
  with travels on to the provider.
\<close>

lemma session_cookie_is_forwarded:
  assumes "(''Cookie'', [c]) \<in> set src" and "''cookie'' \<notin> set skip"
  shows "(''Cookie'', [c]) \<in> set (forwarded skip src)"
proof -
  have "to_lower ''Cookie'' = ''cookie''" by code_simp
  moreover have "''cookie'' \<notin> set internal_gateway_headers"
    by (simp add: internal_gateway_headers_def token_header_def proxy_log_mode_header_def
        to_lower_def lower_char_def)
  ultimately show ?thesis using assms by (simp add: forwarded_def)
qed

section \<open>Accounting\<close>

definition usage_stats :: "usage \<Rightarrow> token_stats" where
  "usage_stats u = zero_stats\<lparr>ts_prompt := us_prompt u, ts_completion := us_completion u,
     ts_reasoning := us_reasoning u, ts_tool_input := us_tool_input u, ts_cached := us_cached u\<rparr>"

definition usage_row :: "id \<Rightarrow> id \<Rightarrow> string \<Rightarrow> usage \<Rightarrow> proxy_log" where
  "usage_row agent provider model u =
     \<lparr>pl_agent = agent, pl_provider = provider, pl_model = model, pl_prompt = us_prompt u,
      pl_completion = us_completion u, pl_total = us_total u\<rparr>"

definition log_usage :: "bool \<Rightarrow> proxy_log \<Rightarrow> gateway \<Rightarrow> gateway" where
  "log_usage fault row g = (if fault then g else g\<lparr>gw_usage_log := gw_usage_log g @ [row]\<rparr>)"

definition on_runs :: "(run_db \<Rightarrow> run_db) \<Rightarrow> gateway \<Rightarrow> gateway" where
  "on_runs f g = g\<lparr>gw_db := (gw_db g)\<lparr>gd_runs := f (gd_runs (gw_db g))\<rparr>\<rparr>"

definition count_tokens :: "('o, 'j) world \<Rightarrow> int \<Rightarrow> usage \<Rightarrow> gateway \<Rightarrow> gateway" where
  "count_tokens w run u g =
     on_runs (\<lambda>d. snd (add_run_token_stats (wd_stats w) (wd_stats_of w) (wd_account_faults w)
                        (to_int32 run) (usage_stats u) d)) g"

definition touch_run :: "('o, 'j) world \<Rightarrow> int \<Rightarrow> gateway \<Rightarrow> gateway" where
  "touch_run w run g =
     (if run > 0
      then on_runs (\<lambda>d. snd (touch_run_last_message_time (wd_account_faults w 9)
                            (wd_start w (gw_ticks g)) (to_int32 run) d)) g
      else g)"

definition record_proxy_stats ::
  "('o, 'j) world \<Rightarrow> provider \<Rightarrow> string \<Rightarrow> int \<Rightarrow> id \<Rightarrow> usage \<Rightarrow> gateway \<Rightarrow> gateway"
where
  "record_proxy_stats w pv model run agent u g =
     (let g1 = (if agent > 0
                then log_usage (wd_account_faults w 8) (usage_row agent (pv_id pv) model u) g else g)
      in if run > 0 then count_tokens w run u g1 else g1)"

definition run_agent_id :: "('o, 'j) world \<Rightarrow> int \<Rightarrow> gateway \<Rightarrow> id" where
  "run_agent_id w run g =
     (if run \<le> 0 then 0
      else case get_run_with_task (wd_faults w) (to_int32 run) (gw_db g) of
        None \<Rightarrow> 0
      | Some (r, t) \<Rightarrow> (case t_agent t of None \<Rightarrow> 0 | Some a \<Rightarrow> a))"

definition finish_run_accounting ::
  "('o, 'j) world \<Rightarrow> int \<Rightarrow> group_member \<Rightarrow> usage \<Rightarrow> gateway \<Rightarrow> gateway"
where
  "finish_run_accounting w run m u g =
     (if run \<le> 0 then g
      else let g1 = count_tokens w run u g
           in case get_run_with_task (\<lambda>k. wd_account_faults w (k + 3)) (to_int32 run) (gw_db g1) of
                None \<Rightarrow> g1
              | Some (r, t) \<Rightarrow>
                  (case t_agent t of
                     None \<Rightarrow> g1
                   | Some a \<Rightarrow>
                       log_usage (wd_account_faults w 7)
                         (usage_row a (mm_provider_id m) (mm_model m) u) g1))"

text \<open>The usage block and the reasoning text of a buffered answer.\<close>

definition parse_non_stream_usage :: "('o, 'j) world \<Rightarrow> bytes \<Rightarrow> usage" where
  "parse_non_stream_usage w body =
     (let (cu, msgs) = wd_usage w body;
          reasoning = concat (map (\<lambda>(rc, r). if rc \<noteq> [] then rc else r) msgs)
      in \<lparr>us_prompt = cu_prompt cu, us_completion = cu_completion cu, us_total = cu_total cu,
          us_reasoning = resolve_reasoning_tokens (cu_reasoning cu) reasoning, us_tool_input = 0,
          us_cached = cu_cached cu\<rparr>)"

definition copy_response_headers :: "header \<Rightarrow> header" where
  "copy_response_headers h = filter (\<lambda>(k, vs). to_lower k \<noteq> ''content-length'' \<and> vs \<noteq> []) h"

definition relay_stream :: "('o, 'j) world \<Rightarrow> stream_body \<Rightarrow> 'j stream_result" where
  "relay_stream w b =
     proxy_sse_stream (wd_event w) (wd_args w) (wd_no_args w) (wd_marshal_args w) b"

text \<open>What \<open>http.Error\<close> still adds to a body whose head has gone out.\<close>

definition late_error :: "string \<Rightarrow> string" where
  "late_error msg = msg @ [CHR 0x0A]"

section \<open>The direct proxy\<close>

record direct_proxy_request =
  dp_provider :: provider
  dp_model :: string
  dp_stream :: bool
  dp_body :: bytes
  dp_run :: int
  dp_agent :: id
  dp_skip :: "string list"

definition relay_provider_response ::
  "('o, 'j) world \<Rightarrow> gw_request \<Rightarrow> direct_proxy_request \<Rightarrow> gateway \<Rightarrow> gw_reply \<times> gateway"
where
  "relay_provider_response w r p g =
     (case exchange w (rq_method r) (dp_provider p) ''/chat/completions'' (Some (dp_body p))
             (rq_headers r) (dp_skip p) g of
        (Inl e, g1) \<Rightarrow> (Error_Reply (Http 502 ''Failed to contact provider''), g1)
      | (Inr resp, g1) \<Rightarrow>
          let g2 = touch_run w (dp_run p) g1;
              head = Relayed (ps_status resp) (copy_response_headers (ps_headers resp));
              account = record_proxy_stats w (dp_provider p) (dp_model p) (dp_run p) (dp_agent p)
          in if \<not> dp_stream p
             then (head (ps_body resp), account (parse_non_stream_usage w (ps_body resp)) g2)
             else if \<not> wd_flusher w then (head (late_error ''Streaming unsupported''), g2)
             else let sr = relay_stream w (ps_stream resp)
                  in case sr_error sr of
                       Some e \<Rightarrow> (head (sr_written sr @ late_error (wd_stream_text w e)), g2)
                     | None \<Rightarrow>
                         (head (sr_written sr),
                          case sr_usage sr of Some u \<Rightarrow> account u g2 | None \<Rightarrow> g2))"

lemma accounting_frame [simp]:
  "gw_sent (log_usage f row g) = gw_sent g" "gw_sent (on_runs h g) = gw_sent g"
  "gw_sent (count_tokens w run u g) = gw_sent g" "gw_sent (touch_run w run g) = gw_sent g"
  "gw_sent (record_proxy_stats w pv model run agent u g) = gw_sent g"
  "gw_sent (finish_run_accounting w run m u g) = gw_sent g"
  "gw_stats (log_usage f row g) = gw_stats g" "gw_stats (on_runs h g) = gw_stats g"
  "gw_stats (count_tokens w run u g) = gw_stats g" "gw_stats (touch_run w run g) = gw_stats g"
  "gw_stats (finish_run_accounting w run m u g) = gw_stats g"
  by (simp_all add: log_usage_def on_runs_def count_tokens_def touch_run_def
      record_proxy_stats_def finish_run_accounting_def Let_def split: option.split)

lemma relay_sends:
  "sent_since (\<lambda>x. clean_request x \<and> fst x = dp_provider p) g
     (snd (relay_provider_response w r p g))"
proof -
  obtain out g1 where e: "exchange w (rq_method r) (dp_provider p) ''/chat/completions''
      (Some (dp_body p)) (rq_headers r) (dp_skip p) g = (out, g1)" by fastforce
  have s: "sent_since (\<lambda>x. clean_request x \<and> fst x = dp_provider p) g g1"
    using exchange_sends [of "dp_provider p" g w "rq_method r" "''/chat/completions''"
        "Some (dp_body p)" "rq_headers r" "dp_skip p"] by (simp add: e)
  have "gw_sent (snd (relay_provider_response w r p g)) = gw_sent g1"
    by (simp add: relay_provider_response_def e Let_def split: sum.split option.split)
  then show ?thesis using s by (simp add: sent_since_def)
qed

end
