(* ===== verification/Model_Purposes.thy ===== *)
theory Model_Purposes
  imports Model_Health
begin

text \<open>
  Which provider and model a run or an internal purpose uses: \<open>engine/model_resolver.go\<close>,
  the purpose settings (\<open>db/repository/default_model_setting_repository.go\<close>), the resolution
  of a purpose in \<open>engine/native_engine.go\<close>, and the portable provider slug
  (\<open>db/models/llm_provider.go\<close>).

  A group row carries its members in the order of the preload.  \<open>port\<close> is the value of the
  environment variable \<open>PORT\<close>.  Slugs are of ASCII text.
\<close>

section \<open>State\<close>

record llm_provider = provider +
  lp_type :: string
  lp_default_model :: string
  lp_preset :: string
  lp_vendor :: string
  lp_slug :: string

record model_setting =
  ds_id :: id
  ds_purpose :: string
  ds_user :: "id option"
  ds_provider :: "id option"
  ds_model :: string
  ds_group :: "id option"

record model_db =
  md_settings :: "model_setting table"
  md_providers :: "llm_provider table"
  md_groups :: "model_group table"

record agent_row =
  ar_id :: id
  ar_company :: id
  ar_name :: string
  ar_builtin :: bool
  ar_enabled :: bool
  ar_role_key :: string
  ar_can_use_workers :: bool
  ar_provider :: "id option"
  ar_group :: "id option"
  ar_model :: string

abbreviation set_ds_id :: "int \<Rightarrow> model_setting \<Rightarrow> model_setting" where
  "set_ds_id i r \<equiv> r\<lparr>ds_id := i\<rparr>"

interpretation setting_rows: keyed_rows ds_id set_ds_id
  by unfold_locales simp

definition purpose_commit_messages :: string where
  "purpose_commit_messages = ''commit_messages''"
definition purpose_task_orchestrator :: string where
  "purpose_task_orchestrator = ''task_orchestrator''"
definition purpose_helper_worker :: string where
  "purpose_helper_worker = ''helper_worker''"

definition setting_purposes :: "string list" where
  "setting_purposes = [purpose_commit_messages, purpose_task_orchestrator, purpose_helper_worker]"

datatype model_error =
  No_Setting | No_Group | No_Members | Not_Configured | No_Provider | No_Model | No_Target

section \<open>Settings\<close>

definition setting_for :: "id \<Rightarrow> string \<Rightarrow> model_db \<Rightarrow> model_setting option" where
  "setting_for user purpose s =
     tbl_first (\<lambda>d. ds_user d = Some user \<and> ds_purpose d = purpose) (md_settings s)"

definition get_default_model_setting ::
  "bool \<Rightarrow> id \<Rightarrow> string \<Rightarrow> model_db \<Rightarrow> model_error dberr + model_setting" where
  "get_default_model_setting fault user purpose s =
     (if fault then Inl DbFault
      else case setting_for user purpose s of None \<Rightarrow> Inl NotFound | Some d \<Rightarrow> Inr d)"

definition update_default_model_setting ::
  "faults \<Rightarrow> id \<Rightarrow> string \<Rightarrow> id option \<Rightarrow> string \<Rightarrow> id option \<Rightarrow>
   (model_db, model_error, model_setting) db_op" where
  "update_default_model_setting flt user purpose provider model grp s =
     (case get_default_model_setting (flt 0) user purpose s of
        Inl e \<Rightarrow> (Inl e, s)
      | Inr d \<Rightarrow>
          (let d = d\<lparr>ds_provider := provider, ds_model := model, ds_group := grp\<rparr>
           in if flt 1 then (Inl DbFault, s)
              else (Inr d, s\<lparr>md_settings := tbl_update (\<lambda>x. ds_id x = ds_id d)
                     (\<lambda>x. x\<lparr>ds_provider := provider, ds_model := model, ds_group := grp\<rparr>)
                     (md_settings s)\<rparr>)))"

fun ensure_settings ::
  "faults \<Rightarrow> nat \<Rightarrow> id \<Rightarrow> string list \<Rightarrow> (model_db, model_error, unit) db_op" where
  "ensure_settings flt k user [] s = (Inr (), s)"
| "ensure_settings flt k user (p # ps) s =
     (case get_default_model_setting (flt k) user p s of
        Inr _ \<Rightarrow> ensure_settings flt (k + 2) user ps s
      | Inl NotFound \<Rightarrow>
          if flt (k + 1) then (Inl DbFault, s)
          else ensure_settings flt (k + 2) user ps
                 (s\<lparr>md_settings := snd (tbl_create set_ds_id
                      \<lparr>ds_id = 0, ds_purpose = p, ds_user = Some user, ds_provider = None,
                       ds_model = [], ds_group = None\<rparr> (md_settings s))\<rparr>)
      | Inl e \<Rightarrow> (Inl e, s))"

definition ensure_default_model_settings_for_user ::
  "faults \<Rightarrow> id \<Rightarrow> (model_db, model_error, unit) db_op" where
  "ensure_default_model_settings_for_user flt user = ensure_settings flt 0 user setting_purposes"

section \<open>Targets\<close>

definition parse_supported_models :: "string \<Rightarrow> string list" where
  "parse_supported_models s =
     filter (\<lambda>t. t \<noteq> []) (map trim_space (split_on (CHR '','') s))"

definition resolve_model :: "llm_provider \<Rightarrow> string \<Rightarrow> model_error + string" where
  "resolve_model p model =
     (if model \<noteq> [] then Inr model
      else if lp_default_model p \<noteq> [] then Inr (lp_default_model p) else Inl No_Model)"

definition model_group_proxy_base_url :: "string \<Rightarrow> string \<Rightarrow> string" where
  "model_group_proxy_base_url port slug =
     ''http://127.0.0.1:'' @ (if port = [] then ''8080'' else port) @ ''/api/proxy/group/'' @ slug"

definition gateway_provider :: "string \<Rightarrow> model_group \<Rightarrow> llm_provider" where
  "gateway_provider port g =
     \<lparr>pv_id = 0, pv_name = mg_name g @ '' (model group)'',
      pv_base_url = model_group_proxy_base_url port (mg_slug g), pv_key = [], pv_user = None,
      pv_models = [], pv_builtin = False, lp_type = ''openai'', lp_default_model = [],
      lp_preset = [], lp_vendor = [], lp_slug = []\<rparr>"

definition resolve_model_group_target ::
  "string \<Rightarrow> model_group \<Rightarrow> model_error + llm_provider \<times> string" where
  "resolve_model_group_target port g =
     (if length (expand_model_group_members (mg_members g)) = 0 then Inl No_Members
      else Inr (gateway_provider port g, mg_slug g))"

definition group_target ::
  "bool \<Rightarrow> string \<Rightarrow> id \<Rightarrow> model_db \<Rightarrow> model_error + llm_provider \<times> string" where
  "group_target fault port i s =
     (case fetch fault mg_id i (md_groups s) of
        None \<Rightarrow> Inl No_Group | Some g \<Rightarrow> resolve_model_group_target port g)"

definition resolve_provider ::
  "faults \<Rightarrow> string \<Rightarrow> agent_row \<Rightarrow> model_db \<Rightarrow> model_error + llm_provider \<times> string" where
  "resolve_provider flt port a s =
     (case ar_group a of
        Some g \<Rightarrow> group_target (flt 0) port g s
      | None \<Rightarrow>
          (case ar_provider a of
             None \<Rightarrow> Inl No_Target
           | Some i \<Rightarrow>
               (case fetch (flt 1) pv_id i (md_providers s) of
                  None \<Rightarrow> Inl No_Provider
                | Some p \<Rightarrow>
                    (case resolve_model p (ar_model a) of
                       Inl e \<Rightarrow> Inl e | Inr m \<Rightarrow> Inr (p, m)))))"

text \<open>\<open>resolvePurposeModel\<close>: with the session's own target to fall back to.\<close>

definition resolve_purpose_model ::
  "faults \<Rightarrow> string \<Rightarrow> id \<Rightarrow> string \<Rightarrow> llm_provider \<times> string \<Rightarrow> model_db \<Rightarrow> llm_provider \<times> string" where
  "resolve_purpose_model flt port user purpose session s =
     (case get_default_model_setting (flt 0) user purpose s of
        Inl _ \<Rightarrow> session
      | Inr d \<Rightarrow>
          (case ds_group d of
             Some g \<Rightarrow>
               (case group_target (flt 1) port g s of Inl _ \<Rightarrow> session | Inr t \<Rightarrow> t)
           | None \<Rightarrow>
               (case ds_provider d of
                  None \<Rightarrow> session
                | Some i \<Rightarrow>
                    (case fetch (flt 2) pv_id i (md_providers s) of
                       None \<Rightarrow> session
                     | Some p \<Rightarrow> (p, if ds_model d = [] then lp_default_model p else ds_model d)))))"

definition resolve_required_purpose_model ::
  "faults \<Rightarrow> string \<Rightarrow> id \<Rightarrow> string \<Rightarrow> model_db \<Rightarrow> model_error + llm_provider \<times> string" where
  "resolve_required_purpose_model flt port user purpose s =
     (case get_default_model_setting (flt 0) user purpose s of
        Inl _ \<Rightarrow> Inl No_Setting
      | Inr d \<Rightarrow>
          (case ds_group d of
             Some g \<Rightarrow> group_target (flt 1) port g s
           | None \<Rightarrow>
               (case ds_provider d of
                  None \<Rightarrow> Inl Not_Configured
                | Some i \<Rightarrow>
                    (case fetch (flt 2) pv_id i (md_providers s) of
                       None \<Rightarrow> Inl No_Provider
                     | Some p \<Rightarrow>
                         (let model = trim_space (ds_model d);
                              model = (if model = [] then trim_space (lp_default_model p) else model)
                          in if model = [] then Inl No_Model else Inr (p, model))))))"

definition resolve_helper_worker_model ::
  "faults \<Rightarrow> string \<Rightarrow> id \<Rightarrow> model_db \<Rightarrow> model_error + llm_provider \<times> string" where
  "resolve_helper_worker_model flt port user s =
     (let required = (\<lambda>p. resolve_required_purpose_model (\<lambda>k. flt (k + 1)) port user p s)
      in case get_default_model_setting (flt 0) user purpose_helper_worker s of
           Inl _ \<Rightarrow> required purpose_task_orchestrator
         | Inr d \<Rightarrow> if ds_provider d \<noteq> None \<or> ds_group d \<noteq> None
                     then required purpose_helper_worker else required purpose_task_orchestrator)"

section \<open>Provider slugs\<close>

definition slug_char :: "char \<Rightarrow> bool" where
  "slug_char c \<longleftrightarrow> (let n = of_char c :: nat in (97 \<le> n \<and> n \<le> 122) \<or> (48 \<le> n \<and> n \<le> 57))"

definition dash :: char where "dash = CHR ''-''"

fun slug_chars :: "bool \<Rightarrow> string \<Rightarrow> string" where
  "slug_chars previous [] = []"
| "slug_chars previous (c # cs) =
     (if slug_char c then c # slug_chars False cs
      else if \<not> previous then dash # slug_chars True cs
      else slug_chars previous cs)"

definition trim_dashes :: "string \<Rightarrow> string" where
  "trim_dashes s = rev (dropWhile (\<lambda>c. c = dash) (rev (dropWhile (\<lambda>c. c = dash) s)))"

definition slugify_provider :: "string \<Rightarrow> string" where
  "slugify_provider v = trim_dashes (slug_chars False (to_lower (trim_space v)))"

definition provider_slug :: "llm_provider \<Rightarrow> string" where
  "provider_slug p =
     (if lp_vendor p \<noteq> [] then ''builtin:'' @ slugify_provider (lp_vendor p)
      else if lp_preset p \<noteq> [] then ''preset:'' @ slugify_provider (lp_preset p)
      else ''custom:'' @ slugify_provider (pv_name p) @ '':'' @ slugify_provider (pv_base_url p))"

definition provider_before_create :: "llm_provider \<Rightarrow> llm_provider" where
  "provider_before_create p = (if lp_slug p = [] then p\<lparr>lp_slug := provider_slug p\<rparr> else p)"

section \<open>Slugs are normal forms\<close>

definition slug_body :: "string \<Rightarrow> bool" where
  "slug_body s \<longleftrightarrow> (\<forall>c \<in> set s. slug_char c \<or> c = dash) \<and>
     successively (\<lambda>a b. \<not> (a = dash \<and> b = dash)) s"

definition slug_ok :: "string \<Rightarrow> bool" where
  "slug_ok s \<longleftrightarrow> slug_body s \<and> (s \<noteq> [] \<longrightarrow> hd s \<noteq> dash \<and> last s \<noteq> dash)"

lemma dash_no_slug_char [simp]: "\<not> slug_char dash"
  by (simp add: slug_char_def dash_def)

lemma slug_chars_body: "slug_body (slug_chars b s) \<and> (b \<longrightarrow> hd (slug_chars b s @ [CHR ''a'']) \<noteq> dash)"
proof (induction b s rule: slug_chars.induct)
  case (1 b)
  then show ?case by (simp add: slug_body_def dash_def)
next
  case (2 b c cs)
  have *: "slug_body (x # xs) \<longleftrightarrow> slug_body xs \<and> (slug_char x \<or> x = dash) \<and>
      (xs \<noteq> [] \<longrightarrow> \<not> (x = dash \<and> hd xs = dash))" for x xs
    by (cases xs) (auto simp: slug_body_def)
  show ?case using 2 by (cases "slug_chars True cs") (auto simp: * slug_char_def dash_def)
qed

lemma slug_body_append: "slug_body (xs @ ys) \<Longrightarrow> slug_body xs \<and> slug_body ys"
  by (auto simp: slug_body_def successively_append_iff)

lemma slug_ok_trim:
  assumes "slug_body s"
  shows "slug_ok (trim_dashes s)"
proof -
  let ?p = "\<lambda>c. c = dash"
  let ?l = "dropWhile ?p s"
  let ?m = "trim_dashes s"
  have "slug_body ?l"
    using assms slug_body_append [of "takeWhile ?p s" ?l] by simp
  moreover have split: "?l = ?m @ rev (takeWhile ?p (rev ?l))"
    unfolding trim_dashes_def by (simp flip: rev_append)
  ultimately have body: "slug_body ?m" by (metis slug_body_append)
  have "last ?m \<noteq> dash" if "?m \<noteq> []"
    using that hd_dropWhile [of ?p "rev ?l"] by (simp add: trim_dashes_def last_rev)
  moreover have "hd ?m \<noteq> dash" if "?m \<noteq> []"
  proof -
    have "?l \<noteq> []" using that split by (metis append_is_Nil_conv)
    then have "hd ?l \<noteq> dash" by (rule hd_dropWhile)
    then show ?thesis using split that by (metis hd_append2)
  qed
  ultimately show ?thesis using body by (simp add: slug_ok_def)
qed

lemma slug_ok_slugify: "slug_ok (slugify_provider v)"
  unfolding slugify_provider_def using slug_chars_body by (blast intro: slug_ok_trim)

lemma lower_slug: "slug_char c \<or> c = dash \<Longrightarrow> lower_char c = c \<and> \<not> is_space c"
  by (auto simp: slug_char_def lower_char_def is_space_def dash_def Let_def)

lemma slug_chars_id:
  "slug_body s \<Longrightarrow> (b \<longrightarrow> s \<noteq> [] \<longrightarrow> hd s \<noteq> dash) \<Longrightarrow> slug_chars b s = s"
proof (induction b s rule: slug_chars.induct)
  case (2 b c cs)
  then show ?case by (cases cs) (auto simp: slug_body_def)
qed simp

lemma slugify_ok_id:
  assumes "slug_ok s"
  shows "slugify_provider s = s"
proof -
  have chars: "\<forall>c \<in> set s. lower_char c = c \<and> \<not> is_space c"
    using assms lower_slug by (auto simp: slug_ok_def slug_body_def)
  have drop: "dropWhile p xs = xs" if "\<forall>c \<in> set xs. \<not> p c" for p and xs :: string
    using that by (cases xs) auto
  have kept: "dropWhile p xs = xs" if "xs = [] \<or> \<not> p (hd xs)" for p and xs :: string
    using that by (cases xs) auto
  have "trim_space s = s" using chars by (simp add: trim_space_def trim_left_def drop)
  moreover have "to_lower s = s" using chars by (simp add: to_lower_def map_idI)
  moreover have "slug_chars False s = s" using assms slug_chars_id by (simp add: slug_ok_def)
  moreover have "trim_dashes s = s"
    using assms kept [of s "\<lambda>c. c = dash"] kept [of "rev s" "\<lambda>c. c = dash"]
    by (cases "s = []") (simp_all add: trim_dashes_def slug_ok_def hd_rev)
  ultimately show ?thesis by (simp add: slugify_provider_def)
qed

text \<open>
  C38: every slug component is a normal form: lower-case letters and digits in words that
  single dashes separate, with none at either end, so a slug contains no separator of its
  own, and slugging a slug again leaves it alone.
\<close>

theorem slug_is_normal_form:
  "slug_ok (slugify_provider v) \<and> CHR '':'' \<notin> set (slugify_provider v) \<and>
   slugify_provider (slugify_provider v) = slugify_provider v"
proof -
  have "\<not> slug_char (CHR '':'')" "CHR '':'' \<noteq> dash" by (simp_all add: slug_char_def dash_def)
  then show ?thesis
    using slug_ok_slugify [of v] slugify_ok_id by (auto simp: slug_ok_def slug_body_def)
qed

definition demo_provider :: "string \<Rightarrow> string \<Rightarrow> llm_provider" where
  "demo_provider name url =
     \<lparr>pv_id = 4, pv_name = name, pv_base_url = url, pv_key = [], pv_user = Some 1, pv_models = [],
      pv_builtin = False, lp_type = ''openai'', lp_default_model = '' gpt '', lp_preset = [],
      lp_vendor = [], lp_slug = []\<rparr>"

text \<open>
  The slug is meant to identify a provider across databases by its name and URL.  It drops
  what distinguishes two hosts: tenant restore would take one for the other.
\<close>

lemma slugs_of_two_hosts_collide:
  "provider_slug (demo_provider ''ai'' ''https://eu.example.com'') =
   provider_slug (demo_provider ''ai'' ''https://eu-example.com'')"
  by code_simp

section \<open>Purposes\<close>

lemma setting_for_Some_D:
  "setting_for user purpose s = Some d \<Longrightarrow>
   d \<in> set (rows (md_settings s)) \<and> ds_user d = Some user \<and> ds_purpose d = purpose"
  by (auto simp: setting_for_def dest: tbl_first_Some_D)

definition names_target ::
  "string \<Rightarrow> model_setting \<Rightarrow> model_db \<Rightarrow> llm_provider \<Rightarrow> string \<Rightarrow> bool" where
  "names_target port d s p m \<longleftrightarrow>
     (case ds_group d of
        Some i \<Rightarrow> (\<exists>g. tbl_get mg_id i (md_groups s) = Some g \<and> p = gateway_provider port g \<and>
                      m = mg_slug g \<and> expand_model_group_members (mg_members g) \<noteq> [])
      | None \<Rightarrow> (\<exists>i. ds_provider d = Some i \<and> tbl_get pv_id i (md_providers s) = Some p \<and>
                     m \<noteq> [] \<and> trim_space m = m \<and>
                     m = trim_space (if trim_space (ds_model d) = [] then lp_default_model p
                                     else ds_model d)))"

lemma required_target:
  assumes "resolve_required_purpose_model flt port user purpose s = Inr (p, m)"
  shows "\<exists>d. setting_for user purpose s = Some d \<and> names_target port d s p m"
  using assms
  by (auto simp: resolve_required_purpose_model_def get_default_model_setting_def names_target_def
      group_target_def resolve_model_group_target_def fetch_def Let_def
      split: if_splits option.splits sum.splits)

text \<open>
  control-plane work runs on the user's own configured target or not at all: what the
  required resolution returns is named by the user's setting of the purpose, a model that is
  not blank on the provider it names, or the gateway of a group with members; a helper
  worker's target is that of its own setting when this names one, else of the orchestrator's.
\<close>

theorem control_plane_uses_configured_target:
  "(resolve_required_purpose_model flt port user purpose s = Inr (p, m) \<longrightarrow>
      (\<exists>d. setting_for user purpose s = Some d \<and> names_target port d s p m)) \<and>
   (resolve_helper_worker_model no_faults port user s = Inr (p, m) \<longrightarrow>
      (\<exists>d. names_target port d s p m \<and>
         (case setting_for user purpose_helper_worker s of
            Some h \<Rightarrow> if ds_provider h \<noteq> None \<or> ds_group h \<noteq> None then d = h
                       else setting_for user purpose_task_orchestrator s = Some d
          | None \<Rightarrow> setting_for user purpose_task_orchestrator s = Some d)))"
proof (intro conjI impI)
  assume "resolve_required_purpose_model flt port user purpose s = Inr (p, m)"
  then show "\<exists>d. setting_for user purpose s = Some d \<and> names_target port d s p m"
    by (rule required_target)
next
  assume h: "resolve_helper_worker_model no_faults port user s = Inr (p, m)"
  show "\<exists>d. names_target port d s p m \<and>
         (case setting_for user purpose_helper_worker s of
            Some h \<Rightarrow> if ds_provider h \<noteq> None \<or> ds_group h \<noteq> None then d = h
                       else setting_for user purpose_task_orchestrator s = Some d
          | None \<Rightarrow> setting_for user purpose_task_orchestrator s = Some d)"
    using h required_target [of _ port user purpose_helper_worker s p m]
      required_target [of _ port user purpose_task_orchestrator s p m]
    by (auto simp: resolve_helper_worker_model_def get_default_model_setting_def Let_def
        split: option.splits if_splits)
qed

definition demo_models :: model_db where
  "demo_models = snd (update_default_model_setting no_faults 1 purpose_task_orchestrator (Some 4) [] None
     (snd (ensure_default_model_settings_for_user no_faults 1
        \<lparr>md_settings = empty_table, md_providers = \<lparr>rows = [demo_provider ''ai'' ''u''], next_key = 5\<rparr>,
         md_groups = empty_table\<rparr>)))"

theorem control_plane_uses_configured_target_witness:
  "resolve_helper_worker_model no_faults [] 1 demo_models = Inr (demo_provider ''ai'' ''u'', ''gpt'') \<and>
   (\<exists>d. setting_for 1 purpose_task_orchestrator demo_models = Some d \<and>
        names_target [] d demo_models (demo_provider ''ai'' ''u'') ''gpt'')"
proof
  show h: "resolve_helper_worker_model no_faults [] 1 demo_models = Inr (demo_provider ''ai'' ''u'', ''gpt'')"
    by code_simp
  have "resolve_required_purpose_model no_faults [] 1 purpose_task_orchestrator demo_models =
      Inr (demo_provider ''ai'' ''u'', ''gpt'')"
    by code_simp
  with control_plane_uses_configured_target
  show "\<exists>d. setting_for 1 purpose_task_orchestrator demo_models = Some d \<and>
        names_target [] d demo_models (demo_provider ''ai'' ''u'') ''gpt''"
    by blast
qed

text \<open>
  The resolution with a fall-back does not trim: a setting that holds a blank model is
  handed on as the model name where the required resolution takes the provider's default.
\<close>

lemma blank_model_is_handed_on:
  "\<exists>s. snd (resolve_purpose_model no_faults [] 1 purpose_commit_messages
             (demo_provider ''own'' ''o'', ''own'') s) = '' '' \<and>
        map_sum id snd (resolve_required_purpose_model no_faults [] 1 purpose_commit_messages s) =
          Inr ''gpt''"
  by (rule exI [of _ "snd (update_default_model_setting no_faults 1 purpose_commit_messages (Some 4)
        '' '' None demo_models)"]) code_simp

text \<open>Seeding leaves every configured purpose alone, and none missing.\<close>

lemma ensured:
  assumes "ensure_settings flt k user ps s = (Inr (), s')"
  shows "md_providers s' = md_providers s \<and> md_groups s' = md_groups s \<and>
         (\<forall>p. setting_for user p s \<noteq> None \<longrightarrow> setting_for user p s' = setting_for user p s) \<and>
         (\<forall>p \<in> set ps. setting_for user p s' \<noteq> None)"
  using assms
proof (induction flt k user ps s rule: ensure_settings.induct)
  case (2 flt k user p ps s)
  show ?case
  proof (cases "setting_for user p s")
    case (Some d)
    then show ?thesis
      using 2 by (auto simp: get_default_model_setting_def split: if_splits)
  next
    case None
    let ?s = "s\<lparr>md_settings := snd (tbl_create set_ds_id
        \<lparr>ds_id = 0, ds_purpose = p, ds_user = Some user, ds_provider = None, ds_model = [],
         ds_group = None\<rparr> (md_settings s))\<rparr>"
    have go: "ensure_settings flt (k + 2) user ps ?s = (Inr (), s')"
      using 2(3) None by (auto simp: get_default_model_setting_def split: if_splits)
    have kept: "setting_for user q ?s = setting_for user q s" if "setting_for user q s \<noteq> None" for q
      using that unfolding setting_for_def tbl_first_def
      by (auto simp: find_append_left)
    have new: "setting_for user p ?s \<noteq> None"
      unfolding setting_for_def by (auto simp: tbl_first_None_iff)
    have ih: "md_providers s' = md_providers ?s \<and> md_groups s' = md_groups ?s \<and>
         (\<forall>p. setting_for user p ?s \<noteq> None \<longrightarrow> setting_for user p s' = setting_for user p ?s) \<and>
         (\<forall>p \<in> set ps. setting_for user p s' \<noteq> None)"
      using 2 go None by (auto simp: get_default_model_setting_def split: if_splits)
    show ?thesis using ih kept new by auto
  qed
qed auto

end
