(* ===== verification/Model_Bindings.thy ===== *)
theory Model_Bindings
  imports Tool_Policy Provider_Calls Model_Purposes Tenant_Isolation
begin

text \<open>
  Providers, model groups, the models of internal purposes and the agents bound to them: the
  handlers of \<open>server/controllers/providers.go\<close>, \<open>model_groups.go\<close>, \<open>default_model_settings.go\<close> and
  \<open>agents.go\<close>.  Foreign keys are those of the migrations: a deleted
  provider takes its group memberships along and leaves agents and settings unbound.

  The calls of providers (a model catalog, the probe of a key), encoding/json and the embedded role
  files are parameters.  A column declared with \<open>default:true\<close> cannot be created false: gorm
  replaces a zero value by the default.  Companies, teams and their members do not change between
  these requests, and the agents a new company is seeded with (\<open>companies.go\<close>) are not among them.
\<close>

section \<open>State\<close>

record vendor = llm_provider +
  vd_enabled :: bool

record preset =
  ps_id :: id
  ps_key :: string
  ps_name :: string
  ps_base_url :: string
  ps_type :: string

record group_row =
  gr_id :: id
  gr_name :: string
  gr_slug :: string
  gr_user :: "id option"
  gr_description :: string

record member_row =
  mr_id :: id
  mr_group :: id
  mr_provider :: id
  mr_model :: string
  mr_all :: bool
  mr_free :: bool
  mr_priority :: nat

record full_agent = Gateway_Auth.agent +
  fa_role_key :: string
  fa_short_name :: string
  fa_description :: string
  fa_prompt :: string
  fa_model :: string
  fa_chat_type :: string
  fa_reasoning :: string
  fa_mcps :: string
  fa_permissions :: string
  fa_worker_permissions :: string
  fa_worker_mcps :: string
  fa_workers :: bool

record catalogue =
  ct_board :: board
  ct_providers :: "vendor table"
  ct_presets :: "preset table"
  ct_groups :: "group_row table"
  ct_members :: "member_row table"
  ct_settings :: "model_setting table"
  ct_agents :: "full_agent table"
  ct_keys :: keyring

record catalogue_env =
  ce_now :: instant
  ce_seal :: aead_seal
  ce_open :: aead_open
  ce_nonce :: "bytes option"
  ce_names :: "string \<Rightarrow> string list option option"
  ce_encode :: "string list option \<Rightarrow> string"
  ce_roles :: "(string \<times> bool) list"
  ce_catalog :: "string \<Rightarrow> string \<Rightarrow> string \<Rightarrow> string list option"
  ce_free :: "string \<Rightarrow> string list option"

abbreviation set_pv_id :: "int \<Rightarrow> vendor \<Rightarrow> vendor" where
  "set_pv_id i r \<equiv> r\<lparr>pv_id := i\<rparr>"
abbreviation set_gr_id :: "int \<Rightarrow> group_row \<Rightarrow> group_row" where
  "set_gr_id i r \<equiv> r\<lparr>gr_id := i\<rparr>"
abbreviation set_mr_id :: "int \<Rightarrow> member_row \<Rightarrow> member_row" where
  "set_mr_id i r \<equiv> r\<lparr>mr_id := i\<rparr>"
abbreviation set_ag_id :: "int \<Rightarrow> full_agent \<Rightarrow> full_agent" where
  "set_ag_id i r \<equiv> r\<lparr>ag_id := i\<rparr>"

interpretation vendor_rows: keyed_rows pv_id set_pv_id
  by unfold_locales simp
interpretation group_rows: keyed_rows gr_id set_gr_id
  by unfold_locales simp
interpretation member_rows: keyed_rows mr_id set_mr_id
  by unfold_locales simp
interpretation agent_rows: keyed_rows ag_id set_ag_id
  by unfold_locales simp

datatype shown =
    Failed string
  | Done
  | Shown_Group "(group_row \<times> member_row list) option"
  | Shown_Provider vendor
  | Shown_Agent full_agent
  | Shown_Setting model_setting

type_synonym handler = "catalogue \<Rightarrow> (nat \<times> shown) \<times> deed list \<times> catalogue"

abbreviation fails :: "nat \<Rightarrow> string \<Rightarrow> handler" where
  "fails code msg s \<equiv> ((code, Failed msg), [], s)"

abbreviation gives :: "nat \<Rightarrow> shown \<Rightarrow> handler" where
  "gives code x s \<equiv> ((code, x), [], s)"

section \<open>Ownership\<close>

definition caller_provider :: "bool \<Rightarrow> id \<Rightarrow> id \<Rightarrow> catalogue \<Rightarrow> vendor option" where
  "caller_provider fault u i s = user_owned u pv_user (fetch fault pv_id i (ct_providers s))"

definition caller_group :: "bool \<Rightarrow> id \<Rightarrow> id \<Rightarrow> catalogue \<Rightarrow> group_row option" where
  "caller_group fault u i s = user_owned u gr_user (fetch fault gr_id i (ct_groups s))"

definition caller_agent :: "plans \<Rightarrow> id \<Rightarrow> id \<Rightarrow> catalogue \<Rightarrow> full_agent option" where
  "caller_agent f u i s = scoped (f 1) u ag_company (fetch (f 0 0) ag_id i (ct_agents s)) (ct_board s)"

definition with_row :: "(id \<Rightarrow> catalogue \<Rightarrow> 'r option) \<Rightarrow> string \<Rightarrow> string \<Rightarrow> ('r \<Rightarrow> handler) \<Rightarrow> handler" where
  "with_row auth missing param next s =
     (case parse_int 64 param of
        None \<Rightarrow> fails 400 ''invalid id'' s
      | Some i \<Rightarrow> (case auth (to_int32 i) s of None \<Rightarrow> fails 404 missing s | Some r \<Rightarrow> next r s))"

definition authorize_agent_bindings :: "faults \<Rightarrow> id \<Rightarrow> id option \<Rightarrow> id option \<Rightarrow> catalogue \<Rightarrow> bool" where
  "authorize_agent_bindings flt u provider grp s \<longleftrightarrow>
     (case provider of None \<Rightarrow> True | Some p \<Rightarrow> caller_provider (flt 0) u p s \<noteq> None) \<and>
     (case grp of None \<Rightarrow> True | Some g \<Rightarrow> caller_group (flt 1) u g s \<noteq> None)"

section \<open>Model groups\<close>

record member_request =
  mq_provider :: id
  mq_model :: string
  mq_all :: bool
  mq_free :: bool

record group_request =
  gq_name :: string
  gq_description :: string
  gq_members :: "member_request list"

definition slugify :: "string \<Rightarrow> string" where
  "slugify name = trim_dashes (slug_chars False (to_lower name))"

datatype member_error = Not_Owned | Store_Error

text \<open>The members of a request: each must be of a provider of the caller or of nobody.\<close>

fun checked_members :: "faults \<Rightarrow> nat \<Rightarrow> id \<Rightarrow> member_request list \<Rightarrow> catalogue \<Rightarrow> member_row list option" where
  "checked_members flt k u [] s = Some []"
| "checked_members flt k u (m # ms) s =
     (if mq_provider m = 0 then checked_members flt (Suc k) u ms s
      else (case fetch (flt k) pv_id (mq_provider m) (ct_providers s) of
              None \<Rightarrow> None
            | Some p \<Rightarrow>
                if pv_user p \<noteq> None \<and> pv_user p \<noteq> Some u then None
                else map_option (\<lambda>rest.
                       if mq_all m
                       then \<lparr>mr_id = 0, mr_group = 0, mr_provider = mq_provider m, mr_model = [], mr_all = True,
                             mr_free = mq_free m, mr_priority = 0\<rparr> # rest
                       else if trim_space (mq_model m) = [] then rest
                       else \<lparr>mr_id = 0, mr_group = 0, mr_provider = mq_provider m,
                             mr_model = trim_space (mq_model m), mr_all = False, mr_free = mq_free m,
                             mr_priority = 0\<rparr> # rest)
                     (checked_members flt (Suc k) u ms s)))"

fun insert_members ::
  "faults \<Rightarrow> nat \<Rightarrow> id \<Rightarrow> nat \<Rightarrow> member_row list \<Rightarrow> (member_row table, unit, unit) db_op" where
  "insert_members flt k g i [] t = (Inr (), t)"
| "insert_members flt k g i (m # ms) t =
     (if flt k then (Inl DbFault, t)
      else insert_members flt (Suc k) g (Suc i) ms
             (snd (tbl_create set_mr_id (m\<lparr>mr_group := g, mr_priority := i\<rparr>) t)))"

definition replace_members_body :: "faults \<Rightarrow> id \<Rightarrow> member_row list \<Rightarrow> (member_row table, unit, unit) db_op" where
  "replace_members_body flt g ms t =
     (if flt 1 then (Inl DbFault, t)
      else insert_members flt 2 g 0 ms (tbl_delete (\<lambda>m. mr_group m = g) t))"

definition replace_model_group_members :: "faults \<Rightarrow> id \<Rightarrow> member_row list \<Rightarrow> (member_row table, unit, unit) db_op" where
  "replace_model_group_members flt g ms = transaction (flt 0) (replace_members_body flt g ms)"

definition replace_group_members ::
  "plans \<Rightarrow> id \<Rightarrow> id \<Rightarrow> member_request list \<Rightarrow> catalogue \<Rightarrow> (member_error + unit) \<times> catalogue" where
  "replace_group_members f u g reqs s =
     (case checked_members (f 0) 0 u reqs s of
        None \<Rightarrow> (Inl Not_Owned, s)
      | Some ms \<Rightarrow>
          (case replace_model_group_members (f 1) g ms (ct_members s) of
             (Inl _, t) \<Rightarrow> (Inl Store_Error, s\<lparr>ct_members := t\<rparr>)
           | (Inr _, t) \<Rightarrow> (Inr (), s\<lparr>ct_members := t\<rparr>)))"

definition respond_replace_members_err :: "member_error \<Rightarrow> handler" where
  "respond_replace_members_err e =
     (case e of Not_Owned \<Rightarrow> fails 400 ''one or more members reference a provider you do not own''
      | Store_Error \<Rightarrow> fails 500 ''database error'')"

definition group_with_members :: "faults \<Rightarrow> id \<Rightarrow> catalogue \<Rightarrow> (group_row \<times> member_row list) option" where
  "group_with_members flt g s =
     (case fetch (flt 0) gr_id g (ct_groups s) of
        None \<Rightarrow> None
      | Some r \<Rightarrow> if flt 1 \<or> flt 2 then None
                  else Some (r, sort_key mr_priority (tbl_find (\<lambda>m. mr_group m = g) (ct_members s))))"

text \<open>The slug is unique over all users.\<close>

definition insert_group :: "bool \<Rightarrow> group_row \<Rightarrow> catalogue \<Rightarrow> group_row option \<times> catalogue" where
  "insert_group fault g s =
     (if fault \<or> tbl_first (\<lambda>r. gr_slug r = gr_slug g) (ct_groups s) \<noteq> None then (None, s)
      else (case tbl_create set_gr_id g (ct_groups s) of (r, t) \<Rightarrow> (Some r, s\<lparr>ct_groups := t\<rparr>)))"

definition finish_group :: "plans \<Rightarrow> id \<Rightarrow> nat \<Rightarrow> id \<Rightarrow> member_request list \<Rightarrow> handler" where
  "finish_group f u code g ms s =
     (case replace_group_members f u g ms s of
        (Inl e, s) \<Rightarrow> respond_replace_members_err e s
      | (Inr _, s) \<Rightarrow> gives code (Shown_Group (group_with_members (f 2) g s)) s)"

definition create_model_group :: "plans \<Rightarrow> id \<Rightarrow> group_request option \<Rightarrow> handler" where
  "create_model_group f u body s =
     (case body of None \<Rightarrow> fails 400 ''Invalid payload'' s
      | Some b \<Rightarrow>
          if trim_space (gq_name b) = [] then fails 400 ''Name is required'' s
          else if slugify (gq_name b) = [] then fails 400 ''Name must contain letters or digits'' s
          else (case insert_group (f 0 0) \<lparr>gr_id = 0, gr_name = gq_name b, gr_slug = slugify (gq_name b),
                       gr_user = Some u, gr_description = gq_description b\<rparr> s of
                  (None, s) \<Rightarrow> fails 500 ''database error'' s
                | (Some g, s) \<Rightarrow> finish_group (\<lambda>k. f (k + 1)) u 201 (gr_id g) (gq_members b) s))"

definition update_model_group :: "plans \<Rightarrow> id \<Rightarrow> group_request option \<Rightarrow> group_row \<Rightarrow> handler" where
  "update_model_group f u body g s =
     (case body of None \<Rightarrow> fails 400 ''Invalid payload'' s
      | Some b \<Rightarrow>
          (let g = g\<lparr>gr_name := (if trim_space (gq_name b) \<noteq> [] then gq_name b else gr_name g),
                     gr_description := gq_description b\<rparr>
           in if f 0 0 then fails 500 ''database error'' s
              else finish_group (\<lambda>k. f (k + 1)) u 200 (gr_id g) (gq_members b)
                     (s\<lparr>ct_groups := tbl_save gr_id g (ct_groups s)\<rparr>)))"

definition drop_group :: "id \<Rightarrow> catalogue \<Rightarrow> catalogue" where
  "drop_group g s =
     s\<lparr>ct_members := tbl_delete (\<lambda>m. mr_group m = g) (ct_members s),
       ct_groups := tbl_delete (\<lambda>r. gr_id r = g) (ct_groups s),
       ct_settings := tbl_update (\<lambda>d. ds_group d = Some g) (\<lambda>d. d\<lparr>ds_group := None\<rparr>) (ct_settings s),
       ct_agents := tbl_update (\<lambda>a. ag_group a = Some g) (\<lambda>a. a\<lparr>ag_group := None\<rparr>) (ct_agents s)\<rparr>"

definition delete_model_group :: "faults \<Rightarrow> group_row \<Rightarrow> handler" where
  "delete_model_group flt g s =
     (if flt 0 \<or> flt 1 \<or> flt 2 then fails 500 ''database error'' s
      else gives 200 Done (drop_group (gr_id g) s))"

section \<open>The models of internal purposes\<close>

record setting_request =
  sq_provider :: "id option"
  sq_model :: string
  sq_group :: "id option"

definition update_default_model_setting_api :: "plans \<Rightarrow> id \<Rightarrow> string \<Rightarrow> setting_request option \<Rightarrow> handler" where
  "update_default_model_setting_api f u purpose body s =
     (case body of None \<Rightarrow> fails 400 ''Invalid payload'' s
      | Some b \<Rightarrow>
          (let grp = (if sq_provider b \<noteq> None then None else sq_group b)
           in if \<not> authorize_agent_bindings (f 0) u (sq_provider b) grp s
              then fails 404 ''provider or model group not found'' s
              else (case update_default_model_setting (f 1) u purpose (sq_provider b) (sq_model b) grp
                           \<lparr>md_settings = ct_settings s, md_providers = empty_table, md_groups = empty_table\<rparr> of
                      (Inl _, m) \<Rightarrow> fails 404 ''unknown purpose'' (s\<lparr>ct_settings := md_settings m\<rparr>)
                    | (Inr d, m) \<Rightarrow> gives 200 (Shown_Setting d) (s\<lparr>ct_settings := md_settings m\<rparr>))))"

section \<open>Providers\<close>

fun join_with :: "string \<Rightarrow> string list \<Rightarrow> string" where
  "join_with sep [] = []"
| "join_with sep [x] = x"
| "join_with sep (x # y # ys) = x @ sep @ join_with sep (y # ys)"

record provider_request =
  vq_name :: string
  vq_base_url :: string
  vq_key :: string
  vq_type :: string
  vq_default :: string
  vq_models :: string
  vq_enabled :: "bool option"

text \<open>Sealing a key may drop an expired entry of the keyring.\<close>

definition seal_key :: "catalogue_env \<Rightarrow> id \<Rightarrow> string \<Rightarrow> catalogue \<Rightarrow> string option \<times> catalogue" where
  "seal_key e u key s =
     (case encrypt_for_user (ce_seal e) (ce_nonce e) (ce_now e) u key (ct_keys s) of
        (Inl _, k) \<Rightarrow> (None, s\<lparr>ct_keys := k\<rparr>)
      | (Inr c, k) \<Rightarrow> (Some c, s\<lparr>ct_keys := k\<rparr>))"

definition before_create :: "vendor \<Rightarrow> vendor" where
  "before_create p = (if lp_slug p = [] then p\<lparr>lp_slug := provider_slug (llm_provider.truncate p)\<rparr> else p)"

definition insert_provider :: "bool \<Rightarrow> vendor \<Rightarrow> handler" where
  "insert_provider fault p s =
     (if fault then fails 500 ''database error'' s
      else (case tbl_create set_pv_id (before_create p) (ct_providers s) of
              (p, t) \<Rightarrow> gives 201 (Shown_Provider p) (s\<lparr>ct_providers := t\<rparr>)))"

definition create_provider :: "catalogue_env \<Rightarrow> bool \<Rightarrow> id \<Rightarrow> provider_request option \<Rightarrow> handler" where
  "create_provider e fault u body s =
     (case body of None \<Rightarrow> fails 400 ''Invalid payload'' s
      | Some b \<Rightarrow>
          (case seal_key e u (vq_key b) s of
             (None, s) \<Rightarrow> fails 409 ''vault is locked'' s
           | (Some key, s) \<Rightarrow>
               insert_provider fault
                 \<lparr>pv_id = 0, pv_name = vq_name b, pv_base_url = vq_base_url b, pv_key = key, pv_user = Some u,
                  pv_models = vq_models b, pv_builtin = False, lp_type = vq_type b,
                  lp_default_model = vq_default b, lp_preset = [], lp_vendor = [], lp_slug = [],
                  vd_enabled = True\<rparr> s))"

definition create_provider_from_preset ::
  "catalogue_env \<Rightarrow> faults \<Rightarrow> id \<Rightarrow> (string \<times> string) option \<Rightarrow> handler" where
  "create_provider_from_preset e flt u body s =
     (case body of None \<Rightarrow> fails 400 ''Invalid payload'' s
      | Some (preset, key) \<Rightarrow>
          if key = [] then fails 400 ''API key is required'' s
          else (case (if flt 0 then None else tbl_first (\<lambda>p. ps_key p = preset) (ct_presets s)) of
             None \<Rightarrow> fails 400 ''unknown provider preset'' s
           | Some p \<Rightarrow>
               (case ce_catalog e (ps_key p) (ps_base_url p) key of
                  None \<Rightarrow> fails 502 ''failed to fetch models'' s
                | Some [] \<Rightarrow> fails 502 ''provider returned no models'' s
                | Some (m # ms) \<Rightarrow>
                    (case seal_key e u key s of
                       (None, s) \<Rightarrow> fails 409 ''vault is locked'' s
                     | (Some sealed, s) \<Rightarrow>
                         insert_provider (flt 1)
                           \<lparr>pv_id = 0, pv_name = ps_name p, pv_base_url = ps_base_url p, pv_key = sealed,
                            pv_user = Some u, pv_models = join_with '','' (m # ms), pv_builtin = False,
                            lp_type = ps_type p, lp_default_model = m, lp_preset = ps_key p, lp_vendor = [],
                            lp_slug = [], vd_enabled = True\<rparr> s))))"

definition drop_provider :: "id \<Rightarrow> catalogue \<Rightarrow> catalogue" where
  "drop_provider p s =
     s\<lparr>ct_providers := tbl_delete (\<lambda>r. pv_id r = p) (ct_providers s),
       ct_members := tbl_delete (\<lambda>m. mr_provider m = p) (ct_members s),
       ct_settings := tbl_update (\<lambda>d. ds_provider d = Some p) (\<lambda>d. d\<lparr>ds_provider := None\<rparr>) (ct_settings s),
       ct_agents := tbl_update (\<lambda>a. ag_provider a = Some p) (\<lambda>a. a\<lparr>ag_provider := None\<rparr>) (ct_agents s)\<rparr>"

definition delete_provider :: "bool \<Rightarrow> vendor \<Rightarrow> handler" where
  "delete_provider fault p s =
     (if pv_builtin p then fails 403 ''built-in providers cannot be deleted'' s
      else if fault then fails 500 ''database error'' s
      else gives 200 Done (drop_provider (pv_id p) s))"

definition changed_provider :: "provider_request \<Rightarrow> vendor \<Rightarrow> vendor" where
  "changed_provider b p =
     p\<lparr>pv_name := vq_name b, pv_base_url := vq_base_url b, lp_type := vq_type b, lp_default_model := vq_default b,
       pv_models := vq_models b\<rparr>"

definition save_provider :: "bool \<Rightarrow> provider_request \<Rightarrow> vendor \<Rightarrow> handler" where
  "save_provider fault b p s =
     (let p = p\<lparr>vd_enabled := (case vq_enabled b of None \<Rightarrow> vd_enabled p | Some x \<Rightarrow> x)\<rparr>
      in if fault then fails 500 ''database error'' s
         else gives 200 (Shown_Provider p) (s\<lparr>ct_providers := tbl_save pv_id p (ct_providers s)\<rparr>))"

definition update_provider :: "catalogue_env \<Rightarrow> bool \<Rightarrow> id \<Rightarrow> provider_request option \<Rightarrow> vendor \<Rightarrow> handler" where
  "update_provider e fault u body p s =
     (case body of None \<Rightarrow> fails 400 ''Invalid payload'' s
      | Some b \<Rightarrow>
          if vq_key b = [] then save_provider fault b (changed_provider b p) s
          else (case seal_key e u (vq_key b) s of
                  (None, s) \<Rightarrow> fails 409 ''vault is locked'' s
                | (Some key, s) \<Rightarrow> save_provider fault b ((changed_provider b p)\<lparr>pv_key := key\<rparr>) s))"

definition vendor_open_router :: string where "vendor_open_router = ''OpenRouter''"
definition vendor_open_code_zen :: string where "vendor_open_code_zen = ''OpenCode''"

text \<open>The new catalog of a provider; the outer error is the reply, the inner option the fetch.\<close>

definition fetch_catalog ::
  "catalogue_env \<Rightarrow> vendor \<Rightarrow> catalogue \<Rightarrow> ((nat \<times> string) + string list option) \<times> catalogue" where
  "fetch_catalog e p s =
     (if pv_builtin p
      then (if lp_vendor p = vendor_open_router \<or> lp_vendor p = vendor_open_code_zen
            then (Inr (ce_free e (lp_vendor p)), s)
            else (Inl (400, ''unrecognized built-in provider''), s))
      else if lp_preset p \<noteq> []
      then (if pv_key p = [] then (Inl (400, ''add an API key before re-discovering models''), s)
            else (case decrypt (ce_open e) (ce_now e) (pv_key p) (ct_keys s) of
                    (Inl _, k) \<Rightarrow> (Inl (409, ''vault is locked''), s\<lparr>ct_keys := k\<rparr>)
                  | (Inr key, k) \<Rightarrow>
                      (Inr (ce_catalog e (lp_preset p) (pv_base_url p) key), s\<lparr>ct_keys := k\<rparr>)))
      else (Inl (400, ''only built-in or preset-based providers support model re-discovery''), s))"

definition force_update_catalog :: "id \<Rightarrow> string list \<Rightarrow> catalogue \<Rightarrow> catalogue" where
  "force_update_catalog p models s =
     (if models = [] then s
      else s\<lparr>ct_providers := tbl_update (\<lambda>r. pv_id r = p)
               (\<lambda>r. r\<lparr>pv_models := join_with '','' models, lp_default_model := hd models\<rparr>) (ct_providers s)\<rparr>)"

definition rediscover_models :: "catalogue_env \<Rightarrow> faults \<Rightarrow> vendor \<Rightarrow> handler" where
  "rediscover_models e flt p s =
     (case fetch_catalog e p s of
        (Inl (code, msg), s) \<Rightarrow> fails code msg s
      | (Inr None, s) \<Rightarrow> fails 502 ''failed to fetch models'' s
      | (Inr (Some models), s) \<Rightarrow>
          if models = [] then fails 502 ''provider returned no models'' s
          else if flt 0 then fails 500 ''database error'' s
          else (let s = force_update_catalog (pv_id p) models s
                in case fetch (flt 1) pv_id (pv_id p) (ct_providers s) of
                     None \<Rightarrow> fails 500 ''database error'' s
                   | Some r \<Rightarrow> gives 200 (Shown_Provider r) s))"

section \<open>Agents\<close>

datatype mcp_list_error = Not_A_List | Empty_Name nat | Repeated_Name string

fun check_names :: "nat \<Rightarrow> string list \<Rightarrow> string list \<Rightarrow> mcp_list_error + string list" where
  "check_names i seen [] = Inr []"
| "check_names i seen (n # ns) =
     (let n = trim_space n
      in if n = [] then Inl (Empty_Name i)
         else if n \<in> set seen then Inl (Repeated_Name n)
         else (case check_names (Suc i) (n # seen) ns of Inl e \<Rightarrow> Inl e | Inr r \<Rightarrow> Inr (n # r)))"

text \<open>A decoded list is \<open>None\<close> for the JSON \<open>null\<close>, which leaves the slice nil.\<close>

definition normalize_allowed_mcps :: "catalogue_env \<Rightarrow> string \<Rightarrow> mcp_list_error + string" where
  "normalize_allowed_mcps e raw =
     (let raw = trim_space raw
      in if raw = [] then Inr []
         else case ce_names e raw of
           None \<Rightarrow> Inl Not_A_List
         | Some None \<Rightarrow> Inr (ce_encode e None)
         | Some (Some names) \<Rightarrow>
             (case check_names 0 [] names of Inl x \<Rightarrow> Inl x | Inr ns \<Rightarrow> Inr (ce_encode e (Some ns))))"

definition default_can_use_workers :: "(string \<times> bool) list \<Rightarrow> string \<Rightarrow> string \<Rightarrow> bool" where
  "default_can_use_workers roles role name =
     (case List.find (\<lambda>(n, _). role_matches role name n) roles of None \<Rightarrow> False | Some (_, w) \<Rightarrow> w)"

record agent_request =
  aq_company :: id
  aq_name :: string
  aq_role_key :: string
  aq_short_name :: string
  aq_description :: string
  aq_prompt :: string
  aq_model :: string
  aq_chat_type :: string
  aq_reasoning :: string
  aq_mcps :: string
  aq_permissions :: string
  aq_worker_permissions :: "string option"
  aq_worker_mcps :: "string option"
  aq_workers :: "bool option"
  aq_enabled :: "bool option"
  aq_provider :: "id option"
  aq_group :: "id option"

text \<open>A field that stays as it is unless a value is given.\<close>

definition pick :: "'a option \<Rightarrow> 'a \<Rightarrow> 'a" where
  "pick new old = (case new of None \<Rightarrow> old | Some x \<Rightarrow> x)"

definition new_agent :: "catalogue_env \<Rightarrow> agent_request \<Rightarrow> string \<Rightarrow> full_agent" where
  "new_agent e b mcps =
     \<lparr>ag_id = 0, ag_company = aq_company b, ag_name = aq_name b, ag_provider = aq_provider b,
      ag_group = aq_group b, ag_enabled = pick (aq_enabled b) True, ag_builtin = False,
      fa_role_key = aq_role_key b, fa_short_name = aq_short_name b, fa_description = aq_description b,
      fa_prompt = aq_prompt b, fa_model = aq_model b, fa_chat_type = aq_chat_type b,
      fa_reasoning = aq_reasoning b, fa_mcps = mcps, fa_permissions = aq_permissions b,
      fa_worker_permissions = pick (aq_worker_permissions b) [], fa_worker_mcps = pick (aq_worker_mcps b) [],
      fa_workers = pick (aq_workers b) (default_can_use_workers (ce_roles e) (aq_role_key b) (aq_name b))\<rparr>"

text \<open>\<open>Create\<close> of an agent: the columns with a default take it in place of a zero value.\<close>

definition with_column_defaults :: "full_agent \<Rightarrow> full_agent" where
  "with_column_defaults a =
     a\<lparr>ag_enabled := True, fa_chat_type := (if fa_chat_type a = [] then ''message_history'' else fa_chat_type a)\<rparr>"

definition create_agent :: "catalogue_env \<Rightarrow> plans \<Rightarrow> id \<Rightarrow> agent_request option \<Rightarrow> handler" where
  "create_agent e f u body s =
     (case body of None \<Rightarrow> fails 400 ''Invalid request payload'' s
      | Some b \<Rightarrow>
          (case normalize_allowed_mcps e (aq_mcps b) of
             Inl _ \<Rightarrow> fails 400 ''allowed_mcps'' s
           | Inr mcps \<Rightarrow>
               if authorize_company (f 0) u (aq_company b) (ct_board s) = None then fails 404 ''company not found'' s
               else if \<not> authorize_agent_bindings (f 1) u (aq_provider b) (aq_group b) s
               then fails 404 ''provider or model group not found'' s
               else if f 2 0 then fails 500 ''database error'' s
               else (case tbl_create set_ag_id (with_column_defaults (new_agent e b mcps)) (ct_agents s) of
                       (a, t) \<Rightarrow> ((201, Shown_Agent a), [Activity (aq_company b) ''agent_created'' (ag_id a)],
                                  s\<lparr>ct_agents := t\<rparr>))))"

definition changed_builtin :: "agent_request \<Rightarrow> string \<Rightarrow> full_agent \<Rightarrow> full_agent" where
  "changed_builtin b mcps a =
     a\<lparr>fa_description := given (aq_description b) (fa_description a), fa_prompt := given (aq_prompt b) (fa_prompt a),
       fa_mcps := (if aq_mcps b \<noteq> [] then mcps else fa_mcps a),
       fa_permissions := given (aq_permissions b) (fa_permissions a), fa_workers := pick (aq_workers b) (fa_workers a),
       fa_worker_permissions := pick (aq_worker_permissions b) (fa_worker_permissions a),
       fa_worker_mcps := pick (aq_worker_mcps b) (fa_worker_mcps a), ag_enabled := True\<rparr>"

definition changed_custom :: "agent_request \<Rightarrow> string \<Rightarrow> full_agent \<Rightarrow> full_agent" where
  "changed_custom b mcps a =
     a\<lparr>ag_name := given (aq_name b) (ag_name a), fa_role_key := given (aq_role_key b) (fa_role_key a),
       fa_short_name := given (aq_short_name b) (fa_short_name a), fa_description := aq_description b,
       fa_prompt := given (aq_prompt b) (fa_prompt a), fa_model := given (aq_model b) (fa_model a),
       fa_chat_type := given (aq_chat_type b) (fa_chat_type a), fa_reasoning := given (aq_reasoning b) (fa_reasoning a),
       fa_mcps := mcps, fa_permissions := given (aq_permissions b) (fa_permissions a),
       fa_worker_permissions := pick (aq_worker_permissions b) (fa_worker_permissions a),
       fa_worker_mcps := pick (aq_worker_mcps b) (fa_worker_mcps a), ag_enabled := pick (aq_enabled b) (ag_enabled a),
       fa_workers := pick (aq_workers b) (fa_workers a)\<rparr>"

definition save_agent :: "bool \<Rightarrow> full_agent \<Rightarrow> handler" where
  "save_agent fault a s =
     (if fault then fails 500 ''database error'' s
      else gives 200 (Shown_Agent a) (s\<lparr>ct_agents := tbl_save ag_id a (ct_agents s)\<rparr>))"

definition update_agent :: "catalogue_env \<Rightarrow> plans \<Rightarrow> id \<Rightarrow> agent_request option \<Rightarrow> full_agent \<Rightarrow> handler" where
  "update_agent e f u body a s =
     (case body of None \<Rightarrow> fails 400 ''Invalid payload'' s
      | Some b \<Rightarrow>
          (case normalize_allowed_mcps e (aq_mcps b) of
             Inl _ \<Rightarrow> fails 400 ''allowed_mcps'' s
           | Inr mcps \<Rightarrow>
               if ag_builtin a then save_agent (f 1 0) (changed_builtin b mcps a) s
               else if \<not> authorize_agent_bindings (f 0) u (aq_provider b) (aq_group b) s
               then fails 404 ''provider or model group not found'' s
               else save_agent (f 1 0)
                      ((changed_custom b mcps a)\<lparr>ag_provider := aq_provider b, ag_group := aq_group b\<rparr>) s))"

definition delete_agent :: "bool \<Rightarrow> full_agent \<Rightarrow> handler" where
  "delete_agent fault a s =
     (if ag_builtin a then fails 403 ''built-in agents cannot be deleted'' s
      else if fault then fails 500 ''database error'' s
      else gives 200 Done (s\<lparr>ct_agents := tbl_delete (\<lambda>r. ag_id r = ag_id a) (ct_agents s)\<rparr>))"

section \<open>What the server does on its own\<close>

text \<open>\<open>EnsureBuiltinLLMProvidersForUser\<close>: a row that cannot be read counts as missing.\<close>

definition builtin_vendor :: "id \<Rightarrow> string \<Rightarrow> string \<Rightarrow> string \<Rightarrow> vendor" where
  "builtin_vendor u name url vend =
     \<lparr>pv_id = 0, pv_name = name, pv_base_url = url, pv_key = [], pv_user = Some u, pv_models = [],
      pv_builtin = True, lp_type = ''openai'', lp_default_model = [], lp_preset = [], lp_vendor = vend,
      lp_slug = [], vd_enabled = True\<rparr>"

definition predefined_vendors :: "id \<Rightarrow> vendor list" where
  "predefined_vendors u =
     [builtin_vendor u ''OpenRouter Free Models'' ''https://openrouter.ai/api/v1'' vendor_open_router,
      builtin_vendor u ''OpenCode Free Models'' ''https://opencode.ai/zen/v1'' vendor_open_code_zen]"

fun ensure_vendors :: "faults \<Rightarrow> nat \<Rightarrow> id \<Rightarrow> vendor list \<Rightarrow> (vendor table, unit, unit) db_op" where
  "ensure_vendors flt k u [] t = (Inr (), t)"
| "ensure_vendors flt k u (p # ps) t =
     (if \<not> flt k \<and> tbl_first (\<lambda>r. pv_user r = Some u \<and> lp_vendor r = lp_vendor p) t \<noteq> None
      then ensure_vendors flt (k + 2) u ps t
      else if flt (k + 1) then (Inl DbFault, t)
      else ensure_vendors flt (k + 2) u ps (snd (tbl_create set_pv_id (before_create p) t)))"

definition ensure_builtin_llm_providers_for_user :: "faults \<Rightarrow> id \<Rightarrow> (vendor table, unit, unit) db_op" where
  "ensure_builtin_llm_providers_for_user flt u = ensure_vendors flt 0 u (predefined_vendors u)"

text \<open>The daily refresh of a catalog keeps a default model that is still listed.\<close>

definition update_llm_provider_model_catalog ::
  "faults \<Rightarrow> id \<Rightarrow> string list \<Rightarrow> (vendor table, unit, unit) db_op" where
  "update_llm_provider_model_catalog flt p models t =
     (if models = [] then (Inr (), t)
      else case fetch (flt 0) pv_id p t of
        None \<Rightarrow> (Inl NotFound, t)
      | Some existing \<Rightarrow>
          if flt 1 then (Inl DbFault, t)
          else (Inr (), tbl_update (\<lambda>r. pv_id r = pv_id existing)
                  (\<lambda>r. r\<lparr>pv_models := join_with '','' models,
                         lp_default_model :=
                           (if lp_default_model existing = [] \<or> lp_default_model existing \<notin> set models
                            then hd models else lp_default_model r)\<rparr>) t))"

section \<open>Routes\<close>

datatype catalogue_request =
    New_Group "group_request option"
  | Change_Group string "group_request option"
  | Remove_Group string
  | Set_Purpose string "setting_request option"
  | New_Provider "provider_request option"
  | From_Preset "(string \<times> string) option"
  | Change_Provider string "provider_request option"
  | Remove_Provider string
  | Rediscover string
  | New_Agent "agent_request option"
  | Change_Agent string "agent_request option"
  | Remove_Agent string

abbreviation later :: "plans \<Rightarrow> nat \<Rightarrow> plans" where
  "later f n \<equiv> (\<lambda>k. f (k + n))"

fun handle :: "catalogue_env \<Rightarrow> plans \<Rightarrow> id \<Rightarrow> catalogue_request \<Rightarrow> handler" where
  "handle e f u (New_Group b) = create_model_group f u b"
| "handle e f u (Change_Group i b) =
     with_row (caller_group (f 0 0) u) ''model group not found'' i (update_model_group (later f 1) u b)"
| "handle e f u (Remove_Group i) =
     with_row (caller_group (f 0 0) u) ''model group not found'' i (delete_model_group (f 1))"
| "handle e f u (Set_Purpose p b) = update_default_model_setting_api f u p b"
| "handle e f u (New_Provider b) = create_provider e (f 0 0) u b"
| "handle e f u (From_Preset b) = create_provider_from_preset e (f 0) u b"
| "handle e f u (Change_Provider i b) =
     with_row (caller_provider (f 0 0) u) ''provider not found'' i (update_provider e (f 1 0) u b)"
| "handle e f u (Remove_Provider i) =
     with_row (caller_provider (f 0 0) u) ''provider not found'' i (delete_provider (f 1 0))"
| "handle e f u (Rediscover i) =
     with_row (caller_provider (f 0 0) u) ''provider not found'' i (rediscover_models e (f 1))"
| "handle e f u (New_Agent b) = create_agent e f u b"
| "handle e f u (Change_Agent i b) =
     with_row (caller_agent f u) ''agent not found'' i (update_agent e (later f 2) u b)"
| "handle e f u (Remove_Agent i) = with_row (caller_agent f u) ''agent not found'' i (delete_agent (f 2 0))"

datatype catalogue_event =
    Request catalogue_env plans id catalogue_request
  | Seeded faults id
  | Discovered faults id "string list"

fun happens :: "catalogue_event \<Rightarrow> catalogue \<Rightarrow> catalogue" where
  "happens (Request e f u req) s = snd (snd (handle e f u req s))"
| "happens (Seeded flt u) s =
     s\<lparr>ct_providers := snd (ensure_builtin_llm_providers_for_user flt u (ct_providers s))\<rparr>"
| "happens (Discovered flt p models) s =
     s\<lparr>ct_providers := snd (update_llm_provider_model_catalog flt p models (ct_providers s))\<rparr>"

section \<open>The tables as the gateway reads them\<close>

definition map_rows :: "('a \<Rightarrow> 'b) \<Rightarrow> 'a table \<Rightarrow> 'b table" where
  "map_rows f t = \<lparr>rows = map f (rows t), next_key = next_key t\<rparr>"

definition group_of_row :: "group_row \<Rightarrow> model_group" where
  "group_of_row g = \<lparr>mg_id = gr_id g, mg_name = gr_name g, mg_slug = gr_slug g, mg_user = gr_user g, mg_members = []\<rparr>"

definition member_of_row :: "member_row \<Rightarrow> group_member" where
  "member_of_row m =
     \<lparr>mm_id = mr_id m, mm_group = mr_group m, mm_provider_id = mr_provider m, mm_provider = zero_provider,
      mm_model = mr_model m, mm_all = mr_all m, mm_free = mr_free m, mm_priority = int (mr_priority m)\<rparr>"

definition gateway_view :: "catalogue \<Rightarrow> gateway_db" where
  "gateway_view s =
     (bd_gw (ct_board s))\<lparr>gd_providers := map_rows provider.truncate (ct_providers s),
       gd_groups := map_rows group_of_row (ct_groups s), gd_members := map_rows member_of_row (ct_members s),
       gd_agents := map_rows agent.truncate (ct_agents s)\<rparr>"

end
