(* ===== verification/Group_Router.thy ===== *)
theory Group_Router
  imports Provider_Calls
begin

text \<open>
  The model group router (\<open>integration/group_router.go\<close>) and the entry points of the gateway
  (\<open>integration/llm_gateway.go\<close>): one attempt per member in routing order until one answers,
  the tenancy guard before it, and the whole of a request from the door to the reply.
\<close>

section \<open>One attempt\<close>

datatype attempt_result = Next string int | Done gw_reply

definition group_skip :: "string list" where
  "group_skip = [''authorization'', ''x-run-id'', ''content-length'', to_lower proxy_log_mode_header]"

definition note_outcome ::
  "('o, 'j) world \<Rightarrow> nat \<Rightarrow> id \<Rightarrow> group_member \<Rightarrow> outcome \<Rightarrow> int \<Rightarrow> usage \<Rightarrow> string \<Rightarrow> gateway \<Rightarrow> gateway"
where
  "note_outcome w n grp m res status u err g =
     (let (stat, hm) = record_outcome (wd_start w n + wd_took w n) grp m res status (wd_took w n)
            (us_prompt u) (us_completion u) err (gw_health g)
      in g\<lparr>gw_stats := gw_stats g @ [stat], gw_health := hm\<rparr>)"

text \<open>The classification of an answer with a status of 400 or above.\<close>

definition handle_attempt_error ::
  "('o, 'j) world \<Rightarrow> nat \<Rightarrow> id \<Rightarrow> group_member \<Rightarrow> int \<Rightarrow> bytes \<Rightarrow> gateway \<Rightarrow> string \<times> gateway" where
  "handle_attempt_error w n grp m status body g =
     (let (res, err) = classify_response (wd_error_message w) (wd_error_probe w) status body;
          res' = (if res = Success then Failure else res)
      in (err, note_outcome w n grp m res' status no_usage err g))"

definition error_body_limit :: nat where
  "error_body_limit = 64 * 1024"

record group_call =
  gc_group :: id
  gc_run :: int
  gc_switches_only :: bool
  gc_stream :: bool

definition answer_plain ::
  "('o, 'j) world \<Rightarrow> nat \<Rightarrow> group_call \<Rightarrow> group_member \<Rightarrow> provider_response \<Rightarrow> gateway \<Rightarrow>
   attempt_result \<times> gateway"
where
  "answer_plain w n c m resp g =
     (let (res, err) = classify_response (wd_error_message w) (wd_error_probe w) (ps_status resp)
                         (ps_body resp)
      in if res \<noteq> Success
         then (Next err (ps_status resp), note_outcome w n (gc_group c) m res (ps_status resp) no_usage err g)
         else (let u = parse_non_stream_usage w (ps_body resp);
                   g1 = note_outcome w n (gc_group c) m Success (ps_status resp) u [] g;
                   g2 = (if gc_switches_only c then g1 else finish_run_accounting w (gc_run c) m u g1)
               in (Done (Relayed (ps_status resp) (copy_response_headers (ps_headers resp)) (ps_body resp)),
                   g2)))"

definition answer_stream ::
  "('o, 'j) world \<Rightarrow> nat \<Rightarrow> group_call \<Rightarrow> group_member \<Rightarrow> provider_response \<Rightarrow> gateway \<Rightarrow>
   attempt_result \<times> gateway"
where
  "answer_stream w n c m resp g =
     (if \<not> wd_flusher w then (Done (Error_Reply (Http 500 ''Streaming unsupported'')), g)
      else (let sr = relay_stream w (ps_stream resp);
                head = Relayed (ps_status resp) (copy_response_headers (ps_headers resp))
            in case sr_error sr of
                 Some e \<Rightarrow>
                   (Done (head (sr_written sr @ late_error (wd_stream_text w e))),
                    note_outcome w n (gc_group c) m Failure (ps_status resp) no_usage (wd_stream_text w e) g)
               | None \<Rightarrow>
                   (let u = (case sr_usage sr of Some u \<Rightarrow> u | None \<Rightarrow> no_usage);
                        g1 = note_outcome w n (gc_group c) m Success (ps_status resp) u [] g;
                        g2 = (if gc_switches_only c then g1
                              else finish_run_accounting w (gc_run c) m u g1)
                    in (Done (head (sr_written sr)), g2))))"

definition attempt ::
  "('o, 'j) world \<Rightarrow> gw_request \<Rightarrow> 'o \<Rightarrow> group_call \<Rightarrow> group_member \<Rightarrow> gateway \<Rightarrow>
   attempt_result \<times> gateway"
where
  "attempt w r obj c m g =
     (let n = gw_ticks g
      in case exchange w ''POST'' (mm_provider m) ''/chat/completions''
                (Some (wd_with_model w obj (mm_model m))) (rq_headers r) group_skip g of
           (Inl err, g1) \<Rightarrow>
             (Next err 502, note_outcome w n (gc_group c) m Failure 0 no_usage err g1)
         | (Inr resp, g1) \<Rightarrow>
             let g2 = touch_run w (gc_run c) g1
             in if ps_status resp \<ge> 400
                then (let (err, g3) = handle_attempt_error w n (gc_group c) m (ps_status resp)
                            (take error_body_limit (ps_body resp)) g2
                      in (Next err (ps_status resp), g3))
                else if \<not> gc_stream c then answer_plain w n c m resp g2
                else answer_stream w n c m resp g2)"

section \<open>Failover\<close>

definition switch_notice :: "group_member \<Rightarrow> group_member \<Rightarrow> string \<Rightarrow> string" where
  "switch_notice prev m err =
     ''Switching model: '' @ mm_model prev @ '' @ '' @ pv_name (mm_provider prev) @ '' failed ('' @
     truncate_msg err 160 @ ''), trying '' @ mm_model m @ '' @ '' @ pv_name (mm_provider m)"

definition announce :: "group_member option \<Rightarrow> group_member \<Rightarrow> string \<Rightarrow> gateway \<Rightarrow> gateway" where
  "announce prev m err g =
     (case prev of
        None \<Rightarrow> g
      | Some p \<Rightarrow> g\<lparr>gw_notices := gw_notices g @ [switch_notice p m err]\<rparr>)"

text \<open>
  The loop over the candidates: \<open>prev\<close> is the member tried before, \<open>err\<close> and \<open>status\<close> what
  it failed with; \<open>finished\<close> makes the reply when nobody is left.
\<close>

fun try_members ::
  "('o, 'j) world \<Rightarrow> gw_request \<Rightarrow> 'o \<Rightarrow> group_call \<Rightarrow> (string \<Rightarrow> string) \<Rightarrow> group_member option \<Rightarrow>
   string \<Rightarrow> int \<Rightarrow> group_member list \<Rightarrow> gateway \<Rightarrow> gw_reply \<times> gateway"
where
  "try_members w r obj c finished prev err status [] g =
     (Exhausted (if status = 0 then 502 else status) (finished err), g)"
| "try_members w r obj c finished prev err status (m # ms) g =
     (case attempt w r obj c m (announce prev m err g) of
        (Done reply, g') \<Rightarrow> (reply, g')
      | (Next err' status', g') \<Rightarrow> try_members w r obj c finished (Some m) err' status' ms g')"

definition exhausted_text :: "(string \<Rightarrow> string) \<Rightarrow> nat \<Rightarrow> string \<Rightarrow> string \<Rightarrow> string" where
  "exhausted_text quote n name err =
     ''All '' @ dec_nat n @ '' models in group '' @ quote name @ '' failed; last error: '' @ err"

text \<open>Members of another owner than the group's.\<close>

definition foreign_member :: "model_group \<Rightarrow> group_member \<Rightarrow> bool" where
  "foreign_member grp m \<longleftrightarrow>
     (case (mg_user grp, pv_user (mm_provider m)) of (Some u, Some v) \<Rightarrow> v \<noteq> u | _ \<Rightarrow> False)"

definition group_call_of :: "('o, 'j) world \<Rightarrow> gw_request \<Rightarrow> model_group \<Rightarrow> bytes \<Rightarrow> group_call" where
  "group_call_of w r grp body =
     \<lparr>gc_group = mg_id grp, gc_run = parse_run_id r,
      gc_switches_only = header_get proxy_log_mode_header (rq_headers r) = ''switches-only'',
      gc_stream = snd (wd_request w body)\<rparr>"

definition serve_group_chat_completions ::
  "('o, 'j) world \<Rightarrow> gw_request \<Rightarrow> model_group \<Rightarrow> gateway \<Rightarrow> gw_reply \<times> gateway"
where
  "serve_group_chat_completions w r grp g =
     (let members = expand_model_group_members (mg_members grp)
      in if members = [] then (Error_Reply (Http 502 ''Model group has no members''), g)
         else if list_ex (foreign_member grp) members
         then (Error_Reply (Http 403 ''Model group references a provider owned by another user''), g)
         else case rq_body r of
                None \<Rightarrow> (Error_Reply (Http 400 ''Failed to read body''), g)
              | Some body \<Rightarrow>
                  (case wd_object w body of
                     Bad_Json \<Rightarrow> (Error_Reply (Http 400 ''Invalid JSON body''), g)
                   | Null_Map \<Rightarrow> (Panicked, g)
                   | Map_Of obj \<Rightarrow>
                       try_members w r obj (group_call_of w r grp body)
                         (exhausted_text (wd_quote w) (length members) (mg_name grp)) None [] 0
                         (order_candidates (gw_health g) members (wd_start w (gw_ticks g))) g))"

section \<open>The entry points\<close>

definition direct_request ::
  "('o, 'j) world \<Rightarrow> gw_request \<Rightarrow> provider \<Rightarrow> bytes \<Rightarrow> id \<Rightarrow> string list \<Rightarrow> direct_proxy_request"
where
  "direct_request w r pv body agent skip =
     \<lparr>dp_provider = pv, dp_model = fst (wd_request w body), dp_stream = snd (wd_request w body),
      dp_body = body, dp_run = parse_run_id r, dp_agent = agent, dp_skip = skip\<rparr>"

definition proxy_chat_completions_for_provider ::
  "('o, 'j) world \<Rightarrow> principal \<Rightarrow> gw_request \<Rightarrow> gateway \<Rightarrow> gw_reply \<times> gateway"
where
  "proxy_chat_completions_for_provider w p r g =
     (case rq_body r of
        None \<Rightarrow> (Error_Reply (Http 400 ''Failed to read body''), g)
      | Some body \<Rightarrow>
          (case provider_target (wd_faults w) p r (gw_db g) of
             Inl e \<Rightarrow> (Error_Reply e, g)
           | Inr pv \<Rightarrow>
               relay_provider_response w r
                 (direct_request w r pv body (run_agent_id w (parse_run_id r) g)
                    [''x-provider-id'', ''x-run-id'']) g))"

definition proxy_chat_completions_for_agent ::
  "('o, 'j) world \<Rightarrow> principal \<Rightarrow> gw_request \<Rightarrow> gateway \<Rightarrow> gw_reply \<times> gateway"
where
  "proxy_chat_completions_for_agent w p r g =
     (case resolve_agent_proxy_target (wd_faults w) p r (gw_db g) of
        Inl e \<Rightarrow> (Error_Reply e, g)
      | Inr (a, To_Group grp) \<Rightarrow> serve_group_chat_completions w r grp g
      | Inr (a, To_Provider pv) \<Rightarrow>
          (case rq_body r of
             None \<Rightarrow> (Error_Reply (Http 400 ''Failed to read body''), g)
           | Some body \<Rightarrow>
               relay_provider_response w r
                 (direct_request w r pv body (ag_id a) [''authorization'']) g))"

definition proxy_chat_completions_for_group ::
  "('o, 'j) world \<Rightarrow> principal \<Rightarrow> gw_request \<Rightarrow> gateway \<Rightarrow> gw_reply \<times> gateway"
where
  "proxy_chat_completions_for_group w p r g =
     (case group_target (wd_faults w) p r (gw_db g) of
        Inl e \<Rightarrow> (Error_Reply e, g)
      | Inr grp \<Rightarrow> serve_group_chat_completions w r grp g)"

text \<open>The model list of a group: its slug, then the concrete members with their owners.\<close>

definition serve_group_models :: "model_group \<Rightarrow> (string \<times> string) list" where
  "serve_group_models grp =
     (mg_slug grp, ''model-group'') #
     map (\<lambda>m. (mm_model m, pv_name (mm_provider m))) (expand_model_group_members (mg_members grp))"

definition get_models_for_agent ::
  "('o, 'j) world \<Rightarrow> principal \<Rightarrow> gw_request \<Rightarrow> gateway \<Rightarrow>
   (gw_reply + (string \<times> string) list) \<times> gateway"
where
  "get_models_for_agent w p r g =
     (case resolve_agent_proxy_target (wd_faults w) p r (gw_db g) of
        Inl e \<Rightarrow> (Inl (Error_Reply e), g)
      | Inr (a, To_Group grp) \<Rightarrow> (Inr (serve_group_models grp), g)
      | Inr (a, To_Provider pv) \<Rightarrow>
          (case exchange w (rq_method r) pv ''/models'' None (rq_headers r) [''authorization''] g of
             (Inl e, g1) \<Rightarrow> (Inl (Error_Reply (Http 502 ''Failed to contact provider'')), g1)
           | (Inr resp, g1) \<Rightarrow>
               (Inl (Relayed (ps_status resp) (copy_response_headers (ps_headers resp)) (ps_body resp)),
                g1)))"

definition get_models_for_group ::
  "('o, 'j) world \<Rightarrow> principal \<Rightarrow> gw_request \<Rightarrow> gateway \<Rightarrow> http_error + (string \<times> string) list"
where
  "get_models_for_group w p r g =
     map_sum id serve_group_models (group_target (wd_faults w) p r (gw_db g))"

datatype route = Chat_Provider | Chat_Agent | Models_Agent | Chat_Group | Models_Group

definition route_request ::
  "('o, 'j) world \<Rightarrow> route \<Rightarrow> principal \<Rightarrow> gw_request \<Rightarrow> gateway \<Rightarrow>
   (gw_reply + (string \<times> string) list) \<times> gateway"
where
  "route_request w rt p r g =
     (case rt of
        Chat_Provider \<Rightarrow> map_prod Inl id (proxy_chat_completions_for_provider w p r g)
      | Chat_Agent \<Rightarrow> map_prod Inl id (proxy_chat_completions_for_agent w p r g)
      | Chat_Group \<Rightarrow> map_prod Inl id (proxy_chat_completions_for_group w p r g)
      | Models_Agent \<Rightarrow> get_models_for_agent w p r g
      | Models_Group \<Rightarrow> (map_sum Error_Reply id (get_models_for_group w p r g), g))"

text \<open>A request from the door: authenticate, then the route's handler.\<close>

definition gateway_serve ::
  "('o, 'j) world \<Rightarrow> registry option \<Rightarrow> instant \<Rightarrow> instant \<Rightarrow> route \<Rightarrow> gw_request \<Rightarrow> gateway \<Rightarrow>
   (gw_reply + (string \<times> string) list) \<times> gateway"
where
  "gateway_serve w tokens t0 now rt r g =
     (case require_gateway_auth (wd_sha w) (wd_faults w) t0 now tokens r (gw_db g) of
        (Inl e, db) \<Rightarrow> (Inl (Error_Reply e), g\<lparr>gw_db := db\<rparr>)
      | (Inr p, db) \<Rightarrow> route_request w rt p r (g\<lparr>gw_db := db\<rparr>))"

section \<open>What a request sends\<close>

abbreviation sends_to :: "provider set \<Rightarrow> gateway \<Rightarrow> gateway \<Rightarrow> bool" where
  "sends_to pvs \<equiv> sent_since (\<lambda>x. clean_request x \<and> fst x \<in> pvs)"

lemma sends_to_mono: "sends_to A g g' \<Longrightarrow> A \<subseteq> B \<Longrightarrow> sends_to B g g'"
  by (auto simp: sent_since_def list_all_iff)

lemma note_outcome_frame [simp]:
  "gw_sent (note_outcome w n grp m res status u err g) = gw_sent g"
  "gw_db (note_outcome w n grp m res status u err g) = gw_db g"
  by (simp_all add: note_outcome_def case_prod_beta)

lemma announce_frame [simp]:
  "gw_sent (announce prev m err g) = gw_sent g" "gw_stats (announce prev m err g) = gw_stats g"
  by (simp_all add: announce_def split: option.split)

lemma answer_frame:
  "gw_sent (snd (answer_plain w n c m resp g)) = gw_sent g"
  "gw_sent (snd (answer_stream w n c m resp g)) = gw_sent g"
  by (simp_all add: answer_plain_def answer_stream_def Let_def split: prod.split option.split)

lemma attempt_sends: "sends_to {mm_provider m} g (snd (attempt w r obj c m g))"
proof -
  obtain out g1 where e: "exchange w ''POST'' (mm_provider m) ''/chat/completions''
      (Some (wd_with_model w obj (mm_model m))) (rq_headers r) group_skip g = (out, g1)" by fastforce
  have "gw_sent (snd (attempt w r obj c m g)) = gw_sent g1"
    by (simp add: attempt_def e Let_def answer_frame handle_attempt_error_def
        split: sum.split prod.split)
  then show ?thesis
    using exchange_sends [of "mm_provider m" g w "''POST''" "''/chat/completions''"
        "Some (wd_with_model w obj (mm_model m))" "rq_headers r" group_skip]
    by (simp add: e sent_since_def)
qed

lemma try_members_sends:
  "sends_to (mm_provider ` set ms) g (snd (try_members w r obj c fin prev err status ms g))"
proof (induction ms arbitrary: prev err status g)
  case (Cons m ms)
  obtain res g1 where a: "attempt w r obj c m (announce prev m err g) = (res, g1)" by fastforce
  have one: "sends_to (mm_provider ` set (m # ms)) g g1"
    using attempt_sends [of m "announce prev m err g" w r obj c]
    by (auto simp: a sent_since_def list_all_iff)
  show ?case
  proof (cases res)
    case (Done reply)
    then show ?thesis using one by (simp add: a)
  next
    case (Next e st)
    have "sends_to (mm_provider ` set (m # ms)) g1
        (snd (try_members w r obj c fin (Some m) e st ms g1))"
      by (rule sends_to_mono [OF Cons.IH]) auto
    with one show ?thesis by (simp add: a Next sent_since_trans)
  qed
qed simp

lemma set_order_candidates: "set (order_candidates hm ms now) = set ms"
  using order_candidates_mset [of hm ms now] by (metis set_mset_mset)

lemma serve_group_sends:
  "sends_to {pv \<in> mm_provider ` set (mg_members grp). \<forall>u v. mg_user grp = Some u \<longrightarrow> pv_user pv = Some v \<longrightarrow> v = u}
     g (snd (serve_group_chat_completions w r grp g))"
  (is "sends_to ?P g _")
proof -
  let ?ms = "expand_model_group_members (mg_members grp)"
  have members: "mm_provider ` set ?ms \<subseteq> mm_provider ` set (mg_members grp)"
    by (auto simp: expand_model_group_members_def dest: expand_member_provider)
  have ok: "mm_provider ` set (order_candidates (gw_health g) ?ms now) \<subseteq> ?P"
    if "\<not> list_ex (foreign_member grp) ?ms" for now
    using that members by (auto simp: set_order_candidates list_ex_iff foreign_member_def)
  have tried: "sends_to ?P g (snd (try_members w r obj c fin None [] 0
      (order_candidates (gw_health g) ?ms now) g))"
    if "\<not> list_ex (foreign_member grp) ?ms" for obj c fin now
    by (rule sends_to_mono [OF try_members_sends ok [OF that]])
  show ?thesis
  proof (cases "?ms = [] \<or> list_ex (foreign_member grp) ?ms")
    case True
    then show ?thesis by (auto simp: serve_group_chat_completions_def Let_def)
  next
    case False
    then show ?thesis
      using tried by (simp add: serve_group_chat_completions_def Let_def split: option.split json_body.split)
  qed
qed

text \<open>
  The requests of a route, for a principal: each goes to a provider nobody owns, or one whose
  owner is in the principal's tenant.
\<close>

definition owner_in_tenant :: "principal \<Rightarrow> gateway_db \<Rightarrow> provider \<Rightarrow> bool" where
  "owner_in_tenant p s pv \<longleftrightarrow> (case pv_user pv of None \<Rightarrow> True | Some u \<Rightarrow> in_tenant p u s)"

text \<open>The groups nobody owns hold no provider somebody owns.\<close>

definition shared_groups_hold_shared :: "gateway_db \<Rightarrow> bool" where
  "shared_groups_hold_shared s \<longleftrightarrow>
     (\<forall>grp \<in> set (rows (gd_groups s)). mg_user grp = None \<longrightarrow>
        (\<forall>m \<in> set (load_members (mg_id grp) s). pv_user (mm_provider m) = None))"

text \<open>
  The members of a group nobody owns are not looked at again when the group is served; such a
  group is open to every run, and to no user session.
\<close>

definition shared_member :: "principal \<Rightarrow> gateway_db \<Rightarrow> provider \<Rightarrow> bool" where
  "shared_member p s pv \<longleftrightarrow> pr_run p \<noteq> 0 \<and> pr_user p = 0 \<and>
     (\<exists>grp \<in> set (rows (gd_groups s)). mg_user grp = None \<and> pv \<in> mm_provider ` set (load_members (mg_id grp) s))"

definition within_tenant :: "principal \<Rightarrow> gateway_db \<Rightarrow> provider set" where
  "within_tenant p s = {pv. owner_in_tenant p s pv \<or> shared_member p s pv}"

lemma within_tenant_shared:
  "shared_groups_hold_shared s \<Longrightarrow> within_tenant p s = {pv. owner_in_tenant p s pv}"
  by (auto simp: within_tenant_def shared_member_def shared_groups_hold_shared_def owner_in_tenant_def)

lemma get_model_group_row:
  "get_model_group flt q s = Some grp \<Longrightarrow>
   \<exists>row \<in> set (rows (gd_groups s)). mg_user grp = mg_user row \<and> mg_members grp = load_members (mg_id row) s"
  by (auto simp: get_model_group_def dest: tbl_first_Some_D split: if_splits option.splits)

lemma group_requests_in_tenant:
  assumes "may_use_group f p grp s" and "authenticated p" and "get_model_group flt q s = Some grp"
  shows "sends_to (within_tenant p s) g (snd (serve_group_chat_completions w r grp g))"
proof (rule sends_to_mono [OF serve_group_sends])
  obtain row where row: "row \<in> set (rows (gd_groups s))" "mg_user grp = mg_user row"
      "mg_members grp = load_members (mg_id row) s"
    using get_model_group_row [OF assms(3)] by blast
  have "pv \<in> within_tenant p s"
    if "pv \<in> mm_provider ` set (mg_members grp)"
      "\<forall>u v. mg_user grp = Some u \<longrightarrow> pv_user pv = Some v \<longrightarrow> v = u" for pv
  proof (cases "mg_user grp")
    case None
    then have "pr_run p \<noteq> 0 \<and> pr_user p = 0"
      using assms(1,2) by (auto simp: may_use_group_def user_owned_resource_allowed_def authenticated_def split: if_splits)
    then have "shared_member p s pv" using None row that(1) by (auto simp: shared_member_def)
    then show ?thesis by (simp add: within_tenant_def)
  next
    case (Some u)
    with that(2) group_in_tenant [OF assms(1,2)] show ?thesis
      by (auto simp: within_tenant_def owner_in_tenant_def split: option.split)
  qed
  then show "{pv \<in> mm_provider ` set (mg_members grp).
      \<forall>u v. mg_user grp = Some u \<longrightarrow> pv_user pv = Some v \<longrightarrow> v = u} \<subseteq> within_tenant p s"
    by blast
qed

lemma direct_request_in_tenant:
  assumes "may_use_provider f p pv s" and "authenticated p" and "dp_provider d = pv"
  shows "sends_to (within_tenant p s) g (snd (relay_provider_response w r d g))"
proof -
  have "pv \<in> within_tenant p s"
    using provider_in_tenant [OF assms(1,2)] by (simp add: within_tenant_def owner_in_tenant_def split: option.splits)
  then show ?thesis
    using relay_sends [of d g w r] assms(3) by (auto simp: sent_since_def list_all_iff)
qed

lemma models_request_in_tenant:
  assumes "may_use_provider f p pv s" and "authenticated p"
  shows "sends_to (within_tenant p s) g
    (snd (exchange w meth pv path body src skip g))"
proof -
  have "pv \<in> within_tenant p s"
    using provider_in_tenant [OF assms] by (simp add: within_tenant_def owner_in_tenant_def split: option.splits)
  then show ?thesis
    using exchange_sends [of pv g w meth path body src skip]
    by (auto simp: sent_since_def list_all_iff)
qed

lemma target_group_row:
  "group_target flt p r s = Inr grp \<Longrightarrow>
   \<exists>f q. may_use_group f p grp s \<and> (\<exists>flt. get_model_group flt q s = Some grp)"
  by (auto simp: group_target_def get_model_group_by_key_def split: option.splits if_splits)

lemma agent_group_row:
  "resolve_agent_proxy_target flt p r s = Inr (a, To_Group grp) \<Longrightarrow>
   \<exists>f q. may_use_group f p grp s \<and> (\<exists>flt. get_model_group flt q s = Some grp)"
  by (fastforce simp: resolve_agent_proxy_target_def split: option.splits if_splits)

lemma route_requests_in_tenant:
  assumes "authenticated p"
  shows "sends_to (within_tenant p (gw_db g)) g (snd (route_request w rt p r g))"
proof (cases rt)
  case Chat_Provider
  show ?thesis
  proof (cases "provider_target (wd_faults w) p r (gw_db g)")
    case (Inr pv)
    then obtain f where m: "may_use_provider f p pv (gw_db g)"
      using provider_target_allowed by blast
    show ?thesis
      using Inr Chat_Provider
      by (simp add: route_request_def proxy_chat_completions_for_provider_def direct_request_def
          direct_request_in_tenant [OF m assms, simplified] split: option.split)
  qed (simp add: Chat_Provider route_request_def proxy_chat_completions_for_provider_def
      split: option.split)
next
  case Chat_Group
  show ?thesis
  proof (cases "group_target (wd_faults w) p r (gw_db g)")
    case (Inr grp)
    then obtain f q flt where "may_use_group f p grp (gw_db g)"
        "get_model_group flt q (gw_db g) = Some grp"
      using target_group_row by blast
    then have "sends_to (within_tenant p (gw_db g)) g
        (snd (serve_group_chat_completions w r grp g))"
      using assms by (intro group_requests_in_tenant)
    then show ?thesis
      using Inr Chat_Group by (simp add: route_request_def proxy_chat_completions_for_group_def)
  qed (simp add: Chat_Group route_request_def proxy_chat_completions_for_group_def)
next
  case Models_Group
  then show ?thesis by (simp add: route_request_def)
next
  case Chat_Agent
  show ?thesis
  proof (cases "resolve_agent_proxy_target (wd_faults w) p r (gw_db g)")
    case (Inr at_res)
    obtain a t where at_eq: "at_res = (a, t)" by fastforce
    show ?thesis
    proof (cases t)
      case (To_Group grp)
      then obtain f q flt where "may_use_group f p grp (gw_db g)"
          "get_model_group flt q (gw_db g) = Some grp"
        using agent_group_row Inr at_eq by blast
      then have "sends_to (within_tenant p (gw_db g)) g
          (snd (serve_group_chat_completions w r grp g))"
        using assms by (intro group_requests_in_tenant)
      then show ?thesis
        using Inr Chat_Agent at_eq To_Group
        by (simp add: route_request_def proxy_chat_completions_for_agent_def)
    next
      case (To_Provider pv)
      then obtain f where m: "may_use_provider f p pv (gw_db g)"
        using agent_target_allowed [of "wd_faults w" p r "gw_db g" a t] Inr at_eq by auto
      show ?thesis
        using Inr Chat_Agent at_eq To_Provider
        by (simp add: route_request_def proxy_chat_completions_for_agent_def direct_request_def
            direct_request_in_tenant [OF m assms, simplified] split: option.split)
    qed
  qed (simp add: Chat_Agent route_request_def proxy_chat_completions_for_agent_def)
next
  case Models_Agent
  show ?thesis
  proof (cases "resolve_agent_proxy_target (wd_faults w) p r (gw_db g)")
    case (Inr at_res)
    obtain a t where at_eq: "at_res = (a, t)" by fastforce
    show ?thesis
    proof (cases t)
      case (To_Group grp)
      then show ?thesis
        using Inr Models_Agent at_eq by (simp add: route_request_def get_models_for_agent_def)
    next
      case (To_Provider pv)
      then obtain f where m: "may_use_provider f p pv (gw_db g)"
        using agent_target_allowed [of "wd_faults w" p r "gw_db g" a t] Inr at_eq by auto
      show ?thesis
        using models_request_in_tenant [OF m assms, of g w "rq_method r" "''/models''" None
            "rq_headers r" "[''authorization'']"] Inr Models_Agent at_eq To_Provider
        by (simp add: route_request_def get_models_for_agent_def case_prod_beta split: sum.split)
    qed
  qed (simp add: Models_Agent route_request_def get_models_for_agent_def)
qed

lemma route_sends_clean: "sends_to UNIV g (snd (route_request w rt p r g))"
proof -
  have direct: "sends_to UNIV g (snd (relay_provider_response w r d g))" for d
    using relay_sends [of d g w r] by (auto simp: sent_since_def list_all_iff)
  have grp: "sends_to UNIV g (snd (serve_group_chat_completions w r grp g))" for grp
    by (rule sends_to_mono [OF serve_group_sends]) simp
  have models: "sends_to UNIV g (snd (exchange w meth pv path body src skip g))"
    for meth pv path body src skip
    using exchange_sends [of pv g w meth path body src skip]
    by (auto simp: sent_since_def list_all_iff)
  show ?thesis
    using direct [simplified] grp [simplified] models [simplified]
    by (cases rt)
      (simp_all add: route_request_def proxy_chat_completions_for_provider_def
        proxy_chat_completions_for_agent_def proxy_chat_completions_for_group_def
        get_models_for_agent_def case_prod_beta
        split: option.split sum.split proxy_target.split)
qed

lemma auth_keeps_tables:
  assumes "require_gateway_auth sha flt t0 now tokens r s = (res, s')"
  shows "\<exists>a. s' = s\<lparr>gd_auth := a\<rparr>"
proof -
  have "s' = s \<or> (\<exists>a. s' = s\<lparr>gd_auth := a\<rparr>)"
    using assms
    by (auto simp: require_gateway_auth_def Let_def
        split: option.splits if_splits prod.splits sum.splits)
  moreover have "s = s\<lparr>gd_auth := gd_auth s\<rparr>" by simp
  ultimately show ?thesis by metis
qed

lemma tenancy_ignores_sessions [simp]:
  "owner_in_tenant p (s\<lparr>gd_auth := a\<rparr>) = owner_in_tenant p s"
  "within_tenant p (s\<lparr>gd_auth := a\<rparr>) = within_tenant p s"
  by (rule ext)
    (simp_all add: owner_in_tenant_def in_tenant_def run_company_def company_admits_def
      within_tenant_def shared_member_def load_members_def split: option.split)

lemma session_user_listed:
  assumes "get_session_user flt t0 now h s = (Inr u, s')"
  shows "u \<in> set (rows (users s))"
proof -
  have "tbl_get u_id i (users s) = Some u \<Longrightarrow> u \<in> set (rows (users s))" for i
    unfolding tbl_get_def by (drule tbl_first_Some_D) simp
  then show ?thesis
    using assms
    by (auto simp: get_session_user_def Let_def split: if_splits option.splits)
qed

lemma auth_principal_nonzero:
  assumes "require_gateway_auth sha flt t0 now (Some reg) r s = (Inr p, s')"
    and "\<And>h. by_hash reg h \<noteq> Some 0"
    and "\<And>u. u \<in> set (rows (users (gd_auth s))) \<Longrightarrow> u_id u \<noteq> 0"
  shows "authenticated p"
proof -
  have run: "validate sha token reg = Some i \<Longrightarrow> i \<noteq> 0" for token i
    using assms(2) by (auto simp: validate_def split: if_splits)
  show ?thesis
    using assms(1) run assms(3) session_user_listed
    by (fastforce simp: require_gateway_auth_def Let_def authenticated_def
        split: if_splits option.splits prod.splits sum.splits)
qed

section \<open>What an attempt records\<close>

definition stat_of :: "group_member \<Rightarrow> request_stat \<Rightarrow> bool" where
  "stat_of m st \<longleftrightarrow> rs_provider st = mm_provider_id m \<and> rs_model st = mm_model m"

lemma note_outcome_stats:
  "\<exists>st. gw_stats (note_outcome w n grp m res status u err g) = gw_stats g @ [st] \<and>
        stat_of m st \<and> rs_success st = (res = Success)"
  by (cases res)
    (simp_all add: note_outcome_def record_outcome_def blank_stat_def stat_of_def Let_def
      case_prod_beta)

lemma attempt_next_stats:
  assumes "attempt w r obj c m g = (Next err status, g')"
  shows "\<exists>st. gw_stats g' = gw_stats g @ [st] \<and> stat_of m st \<and> \<not> rs_success st"
proof -
  obtain out g1 where e: "exchange w ''POST'' (mm_provider m) ''/chat/completions''
      (Some (wd_with_model w obj (mm_model m))) (rq_headers r) group_skip g = (out, g1)" by fastforce
  have g1: "gw_stats g1 = gw_stats g"
    using exchange_frame(2) [of w "''POST''" "mm_provider m" "''/chat/completions''"
        "Some (wd_with_model w obj (mm_model m))" "rq_headers r" group_skip g] by (simp add: e)
  have noted: "\<exists>st. gw_stats (note_outcome w n grp m res t u k g2) = gw_stats g @ [st] \<and>
      stat_of m st \<and> \<not> rs_success st"
    if "gw_stats g2 = gw_stats g" "res \<noteq> Success" for n grp res t u k g2
    using note_outcome_stats [of w n grp m res t u k g2] that by auto
  show ?thesis
    using assms e g1 noted
    by (auto simp: attempt_def Let_def handle_attempt_error_def answer_plain_def
        answer_stream_def split: sum.splits prod.splits if_splits option.splits)
qed

lemma attempt_done_stats:
  assumes "attempt w r obj c m g = (Done reply, g')"
  shows "(\<exists>st. gw_stats g' = gw_stats g @ [st] \<and> stat_of m st) \<and>
           (\<exists>status h body. reply = Relayed status h body) \<or>
         gw_stats g' = gw_stats g \<and> reply = Error_Reply (Http 500 ''Streaming unsupported'')"
proof -
  obtain out g1 where e: "exchange w ''POST'' (mm_provider m) ''/chat/completions''
      (Some (wd_with_model w obj (mm_model m))) (rq_headers r) group_skip g = (out, g1)" by fastforce
  have g1: "gw_stats g1 = gw_stats g"
    using exchange_frame(2) [of w "''POST''" "mm_provider m" "''/chat/completions''"
        "Some (wd_with_model w obj (mm_model m))" "rq_headers r" group_skip g] by (simp add: e)
  have noted: "\<exists>st. gw_stats (note_outcome w n grp m res t u k g2) = gw_stats g @ [st] \<and> stat_of m st"
    if "gw_stats g2 = gw_stats g" for n grp res t u k g2
    using note_outcome_stats [of w n grp m res t u k g2] that by auto
  show ?thesis
    using assms e g1 noted
    by (auto simp: attempt_def Let_def handle_attempt_error_def answer_plain_def
        answer_stream_def split: sum.splits prod.splits if_splits option.splits)
qed

text \<open>What the rows of a failover say of the candidates and the reply.\<close>

definition failover_rows :: "group_member list \<Rightarrow> request_stat list \<Rightarrow> gw_reply \<Rightarrow> bool" where
  "failover_rows ms tried reply \<longleftrightarrow>
     list_all2 stat_of (take (length tried) ms) tried \<and>
     list_all (\<lambda>st. \<not> rs_success st) (butlast tried) \<and>
     (case reply of
        Exhausted _ _ \<Rightarrow> length tried = length ms \<and> list_all (\<lambda>st. \<not> rs_success st) tried
      | Relayed _ _ _ \<Rightarrow> tried \<noteq> []
      | _ \<Rightarrow> True)"

lemma failover_rows_Cons:
  assumes "failover_rows ms tried reply" and "stat_of m st" and "\<not> rs_success st"
  shows "failover_rows (m # ms) (st # tried) reply"
  using assms by (auto simp: failover_rows_def split: gw_reply.splits)

lemma try_members_stats:
  assumes "try_members w r obj c fin prev err status ms g = (reply, g')"
  shows "\<exists>tried. gw_stats g' = gw_stats g @ tried \<and> failover_rows ms tried reply"
  using assms
proof (induction ms arbitrary: prev err status g)
  case Nil
  then show ?case by (auto simp: failover_rows_def)
next
  case (Cons m ms)
  obtain res g1 where a: "attempt w r obj c m (announce prev m err g) = (res, g1)" by fastforce
  show ?case
  proof (cases res)
    case (Done rep)
    then have "reply = rep" "g' = g1" using Cons.prems a by simp_all
    with attempt_done_stats [OF a [unfolded Done]] show ?thesis
      by (auto simp: failover_rows_def intro: exI [of _ "[]"])
  next
    case (Next e s)
    then have rest: "try_members w r obj c fin (Some m) e s ms g1 = (reply, g')"
      using Cons.prems a by simp
    obtain st where st: "gw_stats g1 = gw_stats g @ [st]" "stat_of m st" "\<not> rs_success st"
      using attempt_next_stats [OF a [unfolded Next]] by auto
    obtain tried where t: "gw_stats g' = gw_stats g1 @ tried" "failover_rows ms tried reply"
      using Cons.IH [OF rest] by auto
    show ?thesis
      using st t failover_rows_Cons [OF t(2) st(2,3)] by (intro exI [of _ "st # tried"]) simp
  qed
qed

text \<open>A relayed answer is the answer of the member tried last, and that attempt is booked as it went.\<close>

definition relays ::
  "('o, 'j) world \<Rightarrow> bool \<Rightarrow> provider_response \<Rightarrow> request_stat \<Rightarrow> int \<Rightarrow> header \<Rightarrow> bytes \<Rightarrow> bool" where
  "relays w stream resp st status h body \<longleftrightarrow>
     status = ps_status resp \<and> status < 400 \<and> h = copy_response_headers (ps_headers resp) \<and>
     (if stream
      then (let sr = relay_stream w (ps_stream resp)
            in case sr_error sr of
                 None \<Rightarrow> rs_success st \<and> body = sr_written sr
               | Some e \<Rightarrow> \<not> rs_success st \<and> body = sr_written sr @ late_error (wd_stream_text w e))
      else rs_success st \<and> body = ps_body resp)"

definition last_answer ::
  "('o, 'j) world \<Rightarrow> bool \<Rightarrow> group_member list \<Rightarrow> gateway \<Rightarrow> gateway \<Rightarrow> request_stat list \<Rightarrow> gw_reply \<Rightarrow> bool" where
  "last_answer w stream ms g g' tried reply \<longleftrightarrow>
     (case reply of
        Relayed status h body \<Rightarrow>
          tried \<noteq> [] \<and> length tried \<le> length ms \<and>
          (\<exists>q resp. gw_sent g' \<noteq> [] \<and> last (gw_sent g') = (mm_provider (ms ! (length tried - 1)), q) \<and>
             wd_provider w (gw_ticks g + (length tried - 1)) q = Inr resp \<and>
             relays w stream resp (last tried) status h body)
      | _ \<Rightarrow> True)"

lemma ticks_frame [simp]:
  "gw_ticks (note_outcome w n grp m res status u err g) = gw_ticks g" "gw_ticks (touch_run w run g) = gw_ticks g"
  "gw_ticks (finish_run_accounting w run m u g) = gw_ticks g" "gw_ticks (announce prev m err g) = gw_ticks g"
  "gw_sent (note_outcome w n grp m res status u err g) = gw_sent g" "gw_sent (announce prev m err g) = gw_sent g"
  "gw_stats (announce prev m err g) = gw_stats g"
  by (simp_all add: note_outcome_def touch_run_def on_runs_def finish_run_accounting_def count_tokens_def log_usage_def
      announce_def case_prod_beta Let_def split: option.split)

lemma exchange_ticks:
  "gw_ticks (snd (exchange w meth pv path body src skip g)) = Suc (gw_ticks g)"
  by (simp add: exchange_def Let_def split: prod.split sum.split)

lemma exchange_answered:
  "exchange w meth pv path body src skip g = (Inr resp, g1) \<Longrightarrow>
   \<exists>q. gw_sent g1 = gw_sent g @ [(pv, q)] \<and> wd_provider w (gw_ticks g) q = Inr resp"
  by (auto simp: exchange_def Let_def split: prod.splits sum.splits)

lemma attempt_ticks: "attempt w r obj c m g = (res, g') \<Longrightarrow> gw_ticks g' = Suc (gw_ticks g)"
  using exchange_ticks [of w "''POST''" "mm_provider m" "''/chat/completions''"
      "Some (wd_with_model w obj (mm_model m))" "rq_headers r" group_skip g]
  by (auto simp: attempt_def Let_def handle_attempt_error_def answer_plain_def answer_stream_def
      split: sum.splits prod.splits if_splits option.splits)

lemma attempt_relays:
  assumes "attempt w r obj c m g = (Done (Relayed status h body), g')"
  shows "\<exists>st q resp. gw_stats g' = gw_stats g @ [st] \<and> gw_sent g' = gw_sent g @ [(mm_provider m, q)] \<and>
    wd_provider w (gw_ticks g) q = Inr resp \<and> relays w (gc_stream c) resp st status h body"
proof -
  obtain out g1 where e: "exchange w ''POST'' (mm_provider m) ''/chat/completions''
      (Some (wd_with_model w obj (mm_model m))) (rq_headers r) group_skip g = (out, g1)" by fastforce
  have g1: "gw_stats g1 = gw_stats g"
    using exchange_frame(2) [of w "''POST''" "mm_provider m" "''/chat/completions''"
        "Some (wd_with_model w obj (mm_model m))" "rq_headers r" group_skip g] by (simp add: e)
  obtain resp where out: "out = Inr resp"
    using assms e by (cases out) (auto simp: attempt_def Let_def split: prod.splits)
  from exchange_answered [OF e [unfolded out]] obtain q
    where q: "gw_sent g1 = gw_sent g @ [(mm_provider m, q)]" "wd_provider w (gw_ticks g) q = Inr resp" by blast
  let ?t = "touch_run w (gc_run c) g1"
  have t: "gw_stats ?t = gw_stats g" "gw_sent ?t = gw_sent g @ [(mm_provider m, q)]" using g1 q by simp_all
  have noted: "\<exists>st. gw_stats (note_outcome w n grp m res st' u k ?t) = gw_stats g @ [st] \<and> rs_success st = (res = Success)"
    for n grp res st' u k
    using note_outcome_stats [of w n grp m res st' u k ?t] t by auto
  have low: "ps_status resp < 400"
    using assms by (auto simp: attempt_def Let_def e out split: prod.splits if_splits)
  then have answer: "(if \<not> gc_stream c then answer_plain w (gw_ticks g) c m resp ?t
      else answer_stream w (gw_ticks g) c m resp ?t) = (Done (Relayed status h body), g')"
    using assms by (simp add: attempt_def Let_def e out)
  show ?thesis
  proof (cases "gc_stream c")
    case False
    obtain st where "gw_stats (note_outcome w (gw_ticks g) (gc_group c) m Success (ps_status resp)
        (parse_non_stream_usage w (ps_body resp)) [] ?t) = gw_stats g @ [st]" "rs_success st"
      using noted by blast
    then show ?thesis using False answer low q(2) t
      by (auto simp: answer_plain_def relays_def Let_def split: prod.splits if_splits)
  next
    case True
    let ?sr = "relay_stream w (ps_stream resp)"
    show ?thesis
    proof (cases "sr_error ?sr")
      case None
      obtain st where "gw_stats (note_outcome w (gw_ticks g) (gc_group c) m Success (ps_status resp)
          (case sr_usage ?sr of Some u \<Rightarrow> u | None \<Rightarrow> no_usage) [] ?t) = gw_stats g @ [st]" "rs_success st"
        using noted by blast
      then show ?thesis using True None answer low q(2) t
        by (auto simp: answer_stream_def relays_def Let_def split: if_splits)
    next
      case (Some x)
      obtain st where "gw_stats (note_outcome w (gw_ticks g) (gc_group c) m Failure (ps_status resp)
          no_usage (wd_stream_text w x) ?t) = gw_stats g @ [st]" "\<not> rs_success st"
        using noted by blast
      then show ?thesis using True Some answer low q(2) t
        by (auto simp: answer_stream_def relays_def Let_def split: if_splits)
    qed
  qed
qed

lemma try_members_answer:
  assumes "try_members w r obj c fin prev err status ms g = (reply, g')"
  shows "\<exists>tried. gw_stats g' = gw_stats g @ tried \<and> last_answer w (gc_stream c) ms g g' tried reply"
  using assms
proof (induction ms arbitrary: prev err status g)
  case (Cons m ms)
  obtain res g1 where a: "attempt w r obj c m (announce prev m err g) = (res, g1)" by fastforce
  show ?case
  proof (cases res)
    case (Done rep)
    then have rep: "reply = rep" "g' = g1" using Cons.prems a by simp_all
    show ?thesis
    proof (cases "\<exists>status h body. rep = Relayed status h body")
      case True
      then obtain status h body where "rep = Relayed status h body" by blast
      with attempt_relays [of w r obj c m "announce prev m err g" status h body g1] a Done rep
      obtain st q resp where "gw_stats g' = gw_stats g @ [st]" "gw_sent g' = gw_sent g @ [(mm_provider m, q)]"
          "wd_provider w (gw_ticks g) q = Inr resp" "relays w (gc_stream c) resp st status h body"
          "reply = Relayed status h body"
        by auto
      then show ?thesis by (intro exI [of _ "[st]"]) (auto simp: last_answer_def)
    next
      case False
      with attempt_done_stats [OF a [unfolded Done]] rep show ?thesis
        by (intro exI [of _ "[]"]) (auto simp: last_answer_def)
    qed
  next
    case (Next e s)
    then have rest: "try_members w r obj c fin (Some m) e s ms g1 = (reply, g')"
      using Cons.prems a by simp
    obtain st where st: "gw_stats g1 = gw_stats g @ [st]"
      using attempt_next_stats [OF a [unfolded Next]] by auto
    have n: "gw_ticks g1 = Suc (gw_ticks g)" using attempt_ticks [OF a] by simp
    obtain tried where t: "gw_stats g' = gw_stats g1 @ tried" "last_answer w (gc_stream c) ms g1 g' tried reply"
      using Cons.IH [OF rest] by auto
    have "last_answer w (gc_stream c) (m # ms) g g' (st # tried) reply"
      using t(2) n by (cases tried) (auto simp: last_answer_def split: gw_reply.split)
    with st t(1) show ?thesis by (intro exI [of _ "st # tried"]) simp
  qed
qed (auto simp: last_answer_def)

text \<open>
  Two corners of the loop: the exhaustion error goes out under the status of the last answer,
  200 when that was an error inside a 200 body; and a body that is the JSON \<open>null\<close> passes the
  decoder as a nil map, to which the model is then assigned.
\<close>

lemma exhausted_under_ok_status:
  assumes "attempt w r obj c m g = (Next err 200, g')"
  shows "fst (try_members w r obj c fin None [] 0 [m] g) = Exhausted 200 (fin err)"
  using assms by (simp add: announce_def)

lemma null_body_panics:
  assumes "rq_body r = Some body" and "wd_object w body = Null_Map"
    and "expand_model_group_members (mg_members grp) \<noteq> []"
    and "\<not> list_ex (foreign_member grp) (expand_model_group_members (mg_members grp))"
  shows "serve_group_chat_completions w r grp g = (Panicked, g)"
  using assms by (simp add: serve_group_chat_completions_def Let_def)

section \<open>Properties\<close>

text \<open>
  C35: a model group is tried in routing order, one recorded attempt per member, every attempt
  but the last a failure; only when each member was tried and failed does the client get the
  exhaustion error; and an answer that is relayed is that of the member tried last, status, headers
  and body, and is booked as a success unless its stream broke off.
\<close>

theorem failover_tries_members_in_order:
  assumes "serve_group_chat_completions w r grp g = (reply, g')"
  shows "let ms = order_candidates (gw_health g) (expand_model_group_members (mg_members grp)) (wd_start w (gw_ticks g))
         in \<exists>tried. gw_stats g' = gw_stats g @ tried \<and> failover_rows ms tried reply \<and>
              last_answer w (snd (wd_request w (the (rq_body r)))) ms g g' tried reply"
proof -
  have none: "\<exists>tried. gw_stats g = gw_stats g @ tried \<and> failover_rows ms tried rep \<and> last_answer w x ms g g tried rep"
    if "(\<exists>e. rep = Error_Reply e) \<or> rep = Panicked" for ms rep x
    using that by (intro exI [of _ "[]"]) (auto simp: failover_rows_def last_answer_def)
  have tried: "\<exists>tried. gw_stats g' = gw_stats g @ tried \<and> failover_rows ms tried reply \<and>
      last_answer w (snd (wd_request w b)) ms g g' tried reply"
    if t: "try_members w r obj (group_call_of w r grp b) fin None [] 0 ms g = (reply, g')" for obj b fin ms
    using try_members_stats [OF t] try_members_answer [OF t] by (auto simp: group_call_of_def)
  show ?thesis
    using assms none tried
    by (auto simp: serve_group_chat_completions_def Let_def split: if_splits option.splits json_body.splits)
qed

text \<open>
  whatever a caller sends, by whichever route, no request to a provider carries the
  gateway's own headers, and its only authorization is the bearer the gateway set itself.
\<close>

theorem provider_requests_are_clean:
  "sent_since clean_request g (snd (gateway_serve w tokens t0 now rt r g))"
proof -
  obtain res db where a: "require_gateway_auth (wd_sha w) (wd_faults w) t0 now tokens r (gw_db g) = (res, db)"
    by fastforce
  show ?thesis
  proof (cases res)
    case (Inl e)
    then show ?thesis by (simp add: gateway_serve_def a sent_since_same)
  next
    case (Inr p)
    then show ?thesis
      using route_sends_clean [of "g\<lparr>gw_db := db\<rparr>" w rt p r]
      by (simp add: gateway_serve_def a sent_since_def)
  qed
qed

text \<open>
  C3: with a validator installed, every request the gateway sends on behalf of a caller, on every
  route, goes to a provider nobody owns, to one owned within the caller's tenant (the caller itself,
  or the people the company of its run admits), or, for a run, to a member of a group nobody owns,
  whose members the gateway does not check.  So no group somebody owns and no direct route spends
  another tenant's key.
\<close>

theorem requests_stay_in_tenant:
  assumes "\<And>h. by_hash reg h \<noteq> Some 0"
    and "\<And>u. u \<in> set (rows (users (gd_auth (gw_db g)))) \<Longrightarrow> u_id u \<noteq> 0"
  shows "let out = gateway_serve w (Some reg) t0 now rt r g
         in case fst (require_gateway_auth (wd_sha w) (wd_faults w) t0 now (Some reg) r (gw_db g)) of
              Inl e \<Rightarrow> fst out = Inl (Error_Reply e) \<and> gw_sent (snd out) = gw_sent g
            | Inr p \<Rightarrow> authenticated p \<and> sends_to (within_tenant p (gw_db g)) g (snd out)"
proof -
  obtain res db where a: "require_gateway_auth (wd_sha w) (wd_faults w) t0 now (Some reg) r (gw_db g) = (res, db)"
    by fastforce
  obtain au where db: "db = (gw_db g)\<lparr>gd_auth := au\<rparr>" using auth_keeps_tables [OF a] by blast
  show ?thesis
  proof (cases res)
    case (Inl e)
    then show ?thesis by (simp add: gateway_serve_def a Let_def)
  next
    case (Inr p)
    have p: "authenticated p"
      using auth_principal_nonzero [OF a [unfolded Inr] assms(1,2)] .
    have "sends_to (within_tenant p (gw_db g)) (g\<lparr>gw_db := db\<rparr>)
        (snd (route_request w rt p r (g\<lparr>gw_db := db\<rparr>)))"
      using route_requests_in_tenant [OF p, of "g\<lparr>gw_db := db\<rparr>" w rt r]
      by (simp add: db)
    with p show ?thesis by (simp add: gateway_serve_def a Inr sent_since_def Let_def)
  qed
qed

section \<open>Witnesses\<close>

text \<open>
  A world in which the first exchange breaks off and every later one is answered with the
  bytes \<open>ok\<close>; bodies are objects of no content, and nothing is sealed.
\<close>

definition demo_usage :: chunk_usage where
  "demo_usage = \<lparr>cu_prompt = 3, cu_completion = 2, cu_total = 5, cu_cached = 0, cu_reasoning = 0\<rparr>"

definition demo_world :: "(unit, unit) world" where
  "demo_world = \<lparr>
     wd_start = (\<lambda>n. int n * minute), wd_took = (\<lambda>n. second),
     wd_provider = (\<lambda>n q. if n = 0 then Inl ''down'' else
        Inr \<lparr>ps_status = 200, ps_headers = [], ps_body = ''ok'', ps_stream = demo_body\<rparr>),
     wd_faults = no_faults, wd_account_faults = no_faults, wd_url_error = (\<lambda>u. None),
     wd_open = demo_open, wd_sha = id, wd_flusher = True, wd_secret_text = (\<lambda>e. []),
     wd_stream_text = (\<lambda>e. []), wd_request = (\<lambda>b. ([], False)),
     wd_object = (\<lambda>b. Map_Of ()), wd_with_model = (\<lambda>b m. m),
     wd_error_message = (\<lambda>b. None), wd_error_probe = (\<lambda>b. None),
     wd_usage = (\<lambda>b. (demo_usage, [])), wd_event = (\<lambda>s. None), wd_args = (\<lambda>s. ()),
     wd_no_args = (), wd_marshal_args = (\<lambda>j. []), wd_quote = id, wd_stats = (\<lambda>t. []),
     wd_stats_of = (\<lambda>s. (zero_stats, True))\<rparr>"

definition demo_member :: "id \<Rightarrow> bool \<Rightarrow> group_member" where
  "demo_member i free = \<lparr>mm_id = i, mm_group = 2, mm_provider_id = i,
     mm_provider = (demo_provider i None)\<lparr>pv_key := ''plain''\<rparr>, mm_model = ''m'', mm_all = False,
     mm_free = free, mm_priority = 0\<rparr>"

definition demo_group :: model_group where
  "demo_group = \<lparr>mg_id = 2, mg_name = ''g'', mg_slug = ''g'', mg_user = None,
     mg_members = [demo_member 8 False, demo_member 9 True]\<rparr>"

definition demo_state :: gateway where
  "demo_state = \<lparr>gw_db = demo_gateway, gw_keys = [], gw_health = Map.empty, gw_stats = [],
     gw_usage_log = [], gw_ticks = 0, gw_sent = [], gw_notices = []\<rparr>"

definition demo_call :: gw_request where
  "demo_call = \<lparr>rq_method = ''POST'', rq_headers = [], rq_body = Some [], rq_param = []\<rparr>"

lemma demo_order:
  "order_candidates Map.empty (expand_model_group_members (mg_members demo_group)) now =
   [demo_member 9 True, demo_member 8 False]"
proof -
  have "expand_model_group_members (mg_members demo_group) = [demo_member 8 False, demo_member 9 True]"
    by (simp add: expand_model_group_members_def expand_member_def demo_group_def demo_member_def)
  then show ?thesis
    by (simp add: cooling_free_before_healthy_paid demo_member_def)
qed

lemma demo_exchange:
  "\<exists>g'. exchange demo_world ''POST'' (mm_provider (demo_member i f)) path body [] skip g =
     (if gw_ticks g = 0 then Inl ''down''
      else Inr \<lparr>ps_status = 200, ps_headers = [], ps_body = ''ok'', ps_stream = demo_body\<rparr>, g') \<and>
     gw_ticks g' = Suc (gw_ticks g)"
proof -
  have plain: "decrypt demo_open now ''plain'' k = (Inr ''plain'', k)" for now k
    by (simp add: decrypt_def is_sealed_def prefix_user_def secret_namespace_def has_prefix_def)
  have "\<exists>q. send_provider_request demo_world now ''POST'' (mm_provider (demo_member i f)) path
      body [] skip k = (Inr q, k)" for now k
    by (simp add: send_provider_request_def demo_world_def Let_def demo_member_def
        demo_provider_def plain)
  then obtain q where q: "send_provider_request demo_world (wd_start demo_world (gw_ticks g)) ''POST''
      (mm_provider (demo_member i f)) path body [] skip (gw_keys g) = (Inr q, gw_keys g)" by blast
  show ?thesis
    unfolding exchange_def Let_def q by (simp add: demo_world_def)
qed

lemma demo_world_fields:
  "wd_error_probe demo_world b = None" "wd_object demo_world b = Map_Of ()"
  by (simp_all add: demo_world_def)

lemma demo_group_owner: "mg_user demo_group = None"
  by (simp add: demo_group_def)

lemma demo_call_body: "rq_body demo_call = Some []"
  by (simp add: demo_call_def)

lemma demo_start: "gw_health demo_state = Map.empty" "gw_stats demo_state = []"
    "gw_db demo_state = demo_gateway"
  by (simp_all add: demo_state_def)

lemma demo_failover:
  "fst (serve_group_chat_completions demo_world demo_call demo_group demo_state) =
   Relayed 200 [] ''ok''"
proof -
  have ms: "expand_model_group_members (mg_members demo_group) = [demo_member 8 False, demo_member 9 True]"
    by (simp add: expand_model_group_members_def expand_member_def demo_group_def demo_member_def)
  let ?c = "group_call_of demo_world demo_call demo_group []"
  have h: "rq_headers demo_call = []" by (simp add: demo_call_def)
  have c: "\<not> gc_stream ?c" "touch_run demo_world (gc_run ?c) g = g" for g
    by (simp_all add: group_call_of_def demo_world_def touch_run_def parse_run_id_def h header_get_def)
  obtain x1 where x1: "exchange demo_world ''POST'' (mm_provider (demo_member 9 True)) ''/chat/completions''
      (Some (wd_with_model demo_world () (mm_model (demo_member 9 True)))) (rq_headers demo_call)
      group_skip demo_state = (Inl ''down'', x1)" "gw_ticks x1 = Suc 0"
    using demo_exchange [where g = demo_state] unfolding h
    by (force simp: demo_state_def)
  define g1 where "g1 = note_outcome demo_world 0 (gc_group ?c) (demo_member 9 True) Failure 0
    no_usage ''down'' x1"
  have first: "attempt demo_world demo_call () ?c (demo_member 9 True) demo_state =
      (Next ''down'' 502, g1)"
    unfolding attempt_def Let_def x1(1) by (simp add: g1_def demo_state_def)
  define a where "a = announce (Some (demo_member 9 True)) (demo_member 8 False) ''down'' g1"
  have "gw_ticks a = Suc 0"
    using x1(2) by (simp add: a_def announce_def g1_def note_outcome_def case_prod_beta)
  then obtain x2 where x2: "exchange demo_world ''POST'' (mm_provider (demo_member 8 False))
      ''/chat/completions'' (Some (wd_with_model demo_world () (mm_model (demo_member 8 False))))
      (rq_headers demo_call) group_skip a =
      (Inr \<lparr>ps_status = 200, ps_headers = [], ps_body = ''ok'', ps_stream = demo_body\<rparr>, x2)"
    using demo_exchange [where g = a] unfolding h by force
  have second: "fst (attempt demo_world demo_call () ?c (demo_member 8 False) a) =
      Done (Relayed 200 [] ''ok'')"
    unfolding attempt_def Let_def x2
    by (simp add: c answer_plain_def classify_response_def copy_response_headers_def
        demo_world_fields Let_def)
  obtain g2 where g2: "attempt demo_world demo_call () ?c (demo_member 8 False) a =
      (Done (Relayed 200 [] ''ok''), g2)"
    using second by (metis prod.collapse)
  have "fst (try_members demo_world demo_call () ?c fin None [] 0
      [demo_member 9 True, demo_member 8 False] demo_state) = Relayed 200 [] ''ok''" for fin
    using first g2 by (simp add: a_def) (simp add: announce_def)
  then show ?thesis
    by (simp add: serve_group_chat_completions_def ms demo_order [unfolded ms] Let_def
        foreign_member_def demo_group_owner demo_call_body demo_start demo_world_fields)
qed

theorem failover_tries_members_in_order_witness:
  "\<exists>tried. gw_stats (snd (serve_group_chat_completions demo_world demo_call demo_group demo_state)) = tried \<and>
     tried \<noteq> [] \<and> list_all2 stat_of (take (length tried) [demo_member 9 True, demo_member 8 False]) tried"
proof -
  obtain reply g' where out:
    "serve_group_chat_completions demo_world demo_call demo_group demo_state = (reply, g')" by fastforce
  have "reply = Relayed 200 [] ''ok''" using demo_failover by (simp add: out)
  then show ?thesis
    using failover_tries_members_in_order [OF out] demo_order
    by (auto simp: out demo_start failover_rows_def Let_def)
qed

theorem requests_stay_in_tenant_witness:
  "sends_to (within_tenant \<lparr>pr_run = 7, pr_user = 0\<rparr> demo_gateway) demo_state
     (snd (gateway_serve demo_world (Some demo_tokens) 0 0 Chat_Provider (demo_request ''8'') demo_state)) \<and>
   demo_provider 8 (Some 5) \<in> within_tenant \<lparr>pr_run = 7, pr_user = 0\<rparr> demo_gateway \<and>
   demo_provider 9 (Some 77) \<notin> within_tenant \<lparr>pr_run = 7, pr_user = 0\<rparr> demo_gateway"
proof -
  have "by_hash demo_tokens h \<noteq> Some 0" for h by (simp add: demo_tokens_def)
  moreover have "u \<notin> set (rows (users (gd_auth (gw_db demo_state))))" for u
    by (simp add: demo_start demo_gateway_def)
  moreover have "wd_sha demo_world = id" "wd_faults demo_world = no_faults"
    by (simp_all add: demo_world_def)
  ultimately have "sends_to (within_tenant \<lparr>pr_run = 7, pr_user = 0\<rparr> demo_gateway) demo_state
     (snd (gateway_serve demo_world (Some demo_tokens) 0 0 Chat_Provider (demo_request ''8'') demo_state))"
    using requests_stay_in_tenant [of demo_tokens demo_state demo_world 0 0 Chat_Provider "demo_request ''8''"]
    by (simp add: demo_start demo_admitted Let_def)
  then show ?thesis
    by (simp add: within_tenant_def shared_member_def owner_in_tenant_def in_tenant_def run_company_def company_admits_def
        demo_gateway_def demo_gw_run_def demo_provider_def tbl_get_def tbl_first_def zero_task_def)
qed

end
