(* ===== verification/Binding_Safety.thy ===== *)
theory Binding_Safety
  imports Model_Bindings Group_Router
begin

text \<open>
  Whose providers and groups a row may name: the invariant of the handlers of
  \<open>Model_Bindings\<close>, and what it means for the gateway.  Owners of providers and groups never
  change, so the invariant is stated over the sets of keys with their owners.
\<close>

section \<open>The invariant\<close>

type_synonym owners = "(id \<times> id option) set"

definition provider_owners :: "vendor table \<Rightarrow> owners" where
  "provider_owners t = (\<lambda>p. (pv_id p, pv_user p)) ` set (rows t)"

definition group_owners :: "group_row table \<Rightarrow> owners" where
  "group_owners t = (\<lambda>g. (gr_id g, gr_user g)) ` set (rows t)"

definition member_ok :: "owners \<Rightarrow> owners \<Rightarrow> member_row \<Rightarrow> bool" where
  "member_ok P G m \<longleftrightarrow>
     (\<exists>v w. (mr_provider m, v) \<in> P \<and> (mr_group m, w) \<in> G \<and> (v = None \<or> v = w))"

definition setting_ok :: "owners \<Rightarrow> owners \<Rightarrow> model_setting \<Rightarrow> bool" where
  "setting_ok P G d \<longleftrightarrow>
     (\<forall>i. ds_provider d = Some i \<longrightarrow> (i, ds_user d) \<in> P) \<and> (\<forall>i. ds_group d = Some i \<longrightarrow> (i, ds_user d) \<in> G)"

definition agent_ok :: "owners \<Rightarrow> owners \<Rightarrow> board \<Rightarrow> full_agent \<Rightarrow> bool" where
  "agent_ok P G b a \<longleftrightarrow>
     (\<forall>i. ag_provider a = Some i \<longrightarrow> (\<exists>u. (i, Some u) \<in> P \<and> works_in u (ag_company a) b)) \<and>
     (\<forall>i. ag_group a = Some i \<longrightarrow> (\<exists>u. (i, Some u) \<in> G \<and> works_in u (ag_company a) b))"

definition tables_ok :: "catalogue \<Rightarrow> bool" where
  "tables_ok s \<longleftrightarrow>
     wf_table pv_id (ct_providers s) \<and> wf_table gr_id (ct_groups s) \<and> wf_table mr_id (ct_members s) \<and>
     wf_table ds_id (ct_settings s) \<and> wf_table ag_id (ct_agents s)"

definition bindings_ok :: "catalogue \<Rightarrow> bool" where
  "bindings_ok s \<longleftrightarrow> tables_ok s \<and>
     (let P = provider_owners (ct_providers s); G = group_owners (ct_groups s)
      in (\<forall>m \<in> set (rows (ct_members s)). member_ok P G m) \<and>
         (\<forall>d \<in> set (rows (ct_settings s)). setting_ok P G d) \<and>
         (\<forall>a \<in> set (rows (ct_agents s)). agent_ok P G (ct_board s) a))"

lemma bindings_okI:
  assumes "tables_ok s"
    and "\<And>m. m \<in> set (rows (ct_members s)) \<Longrightarrow> member_ok (provider_owners (ct_providers s)) (group_owners (ct_groups s)) m"
    and "\<And>d. d \<in> set (rows (ct_settings s)) \<Longrightarrow> setting_ok (provider_owners (ct_providers s)) (group_owners (ct_groups s)) d"
    and "\<And>a. a \<in> set (rows (ct_agents s)) \<Longrightarrow>
           agent_ok (provider_owners (ct_providers s)) (group_owners (ct_groups s)) (ct_board s) a"
  shows "bindings_ok s"
  using assms by (simp add: bindings_ok_def Let_def)

lemma bindings_okD:
  assumes "bindings_ok s"
  shows "tables_ok s"
    and "m \<in> set (rows (ct_members s)) \<Longrightarrow> member_ok (provider_owners (ct_providers s)) (group_owners (ct_groups s)) m"
    and "d \<in> set (rows (ct_settings s)) \<Longrightarrow> setting_ok (provider_owners (ct_providers s)) (group_owners (ct_groups s)) d"
    and "a \<in> set (rows (ct_agents s)) \<Longrightarrow>
           agent_ok (provider_owners (ct_providers s)) (group_owners (ct_groups s)) (ct_board s) a"
  using assms by (simp_all add: bindings_ok_def Let_def)

lemma member_ok_mono: "member_ok P G m \<Longrightarrow> P \<subseteq> P' \<Longrightarrow> G \<subseteq> G' \<Longrightarrow> member_ok P' G' m"
  unfolding member_ok_def by blast

lemma setting_ok_mono: "setting_ok P G d \<Longrightarrow> P \<subseteq> P' \<Longrightarrow> G \<subseteq> G' \<Longrightarrow> setting_ok P' G' d"
  unfolding setting_ok_def by blast

lemma agent_ok_mono: "agent_ok P G b a \<Longrightarrow> P \<subseteq> P' \<Longrightarrow> G \<subseteq> G' \<Longrightarrow> agent_ok P' G' b a"
  unfolding agent_ok_def by blast

section \<open>Owners\<close>

lemma image_save:
  assumes "wf_table key t" and "p \<in> set (rows t)" and "key q = key p" and "f q = f p"
  shows "f ` set (rows (tbl_save key q t)) = f ` set (rows t)"
proof -
  have "f (if key r = key q then q else r) = f r" if "r \<in> set (rows t)" for r
    using unique_row [OF assms(1) that assms(2)] assms(3,4) by auto
  then have "map f (map (\<lambda>r. if key r = key q then q else r) (rows t)) = map f (rows t)"
    by simp
  moreover have "rows (tbl_save key q t) = map (\<lambda>r. if key r = key q then q else r) (rows t)"
    using assms(2,3) by (auto simp: tbl_save_def)
  ultimately show ?thesis by (metis set_map)
qed

lemma owners_kept_by_save:
  assumes "wf_table pv_id t" and "p \<in> set (rows t)" and "pv_id q = pv_id p" and "pv_user q = pv_user p"
  shows "provider_owners (tbl_save pv_id q t) = provider_owners t"
  unfolding provider_owners_def by (rule image_save) (use assms in auto)

lemma group_owners_kept_by_save:
  assumes "wf_table gr_id t" and "p \<in> set (rows t)" and "gr_id q = gr_id p" and "gr_user q = gr_user p"
  shows "group_owners (tbl_save gr_id q t) = group_owners t"
  unfolding group_owners_def by (rule image_save) (use assms in auto)

lemma owners_kept_by_update:
  assumes "\<And>r. pv_id (f r) = pv_id r" and "\<And>r. pv_user (f r) = pv_user r"
  shows "provider_owners (tbl_update q f t) = provider_owners t"
  unfolding provider_owners_def rows_tbl_update set_map image_image
  by (rule image_cong) (auto simp: assms)

lemma owners_grow:
  "provider_owners t \<subseteq> provider_owners (snd (tbl_create set_pv_id p t))"
  "group_owners g \<subseteq> group_owners (snd (tbl_create set_gr_id x g))"
  by (auto simp: provider_owners_def group_owners_def)

lemma owners_deleted:
  "(i, w) \<in> provider_owners (tbl_delete (\<lambda>r. pv_id r = p) t) \<longleftrightarrow> (i, w) \<in> provider_owners t \<and> i \<noteq> p"
  by (auto simp: provider_owners_def)

lemma group_owners_deleted:
  "(i, w) \<in> group_owners (tbl_delete (\<lambda>r. gr_id r = p) t) \<longleftrightarrow> (i, w) \<in> group_owners t \<and> i \<noteq> p"
  by (auto simp: group_owners_def)

text \<open>Any change of the providers or groups that loses no owner keeps the invariant.\<close>

lemma providers_grow:
  assumes "bindings_ok s" and "wf_table pv_id t" and "provider_owners (ct_providers s) \<subseteq> provider_owners t"
  shows "bindings_ok (s\<lparr>ct_providers := t\<rparr>)"
  using bindings_okD [OF assms(1)] assms(2,3)
  by (intro bindings_okI)
    (auto simp: tables_ok_def intro: member_ok_mono setting_ok_mono agent_ok_mono)

lemma groups_grow:
  assumes "bindings_ok s" and "wf_table gr_id t" and "group_owners (ct_groups s) \<subseteq> group_owners t"
  shows "bindings_ok (s\<lparr>ct_groups := t\<rparr>)"
  using bindings_okD [OF assms(1)] assms(2,3)
  by (intro bindings_okI)
    (auto simp: tables_ok_def intro: member_ok_mono setting_ok_mono agent_ok_mono)

lemma keys_free: "bindings_ok (s\<lparr>ct_keys := k\<rparr>) = bindings_ok s"
  by (simp add: bindings_ok_def tables_ok_def)

section \<open>What a request has shown to be its caller's\<close>

lemma user_owned_Some: "user_owned u owner x = Some r \<longleftrightarrow> x = Some r \<and> owner r = Some u"
  by (auto simp: user_owned_def owned_by_user_def split: option.splits)

lemma caller_provider_row:
  "caller_provider fault u i s = Some p \<Longrightarrow> p \<in> set (rows (ct_providers s)) \<and> pv_id p = i \<and> pv_user p = Some u"
  by (auto simp: caller_provider_def user_owned_Some dest!: fetched)

lemma caller_group_row:
  "caller_group fault u i s = Some g \<Longrightarrow> g \<in> set (rows (ct_groups s)) \<and> gr_id g = i \<and> gr_user g = Some u"
  by (auto simp: caller_group_def user_owned_Some dest!: fetched)

lemma caller_agent_row:
  "caller_agent f u i s = Some a \<Longrightarrow>
   a \<in> set (rows (ct_agents s)) \<and> ag_id a = i \<and> works_in u (ag_company a) (ct_board s)"
  by (auto simp: caller_agent_def scoped_Some dest!: fetched dest: authorized)

lemma provider_owner_row: "p \<in> set (rows t) \<Longrightarrow> (pv_id p, pv_user p) \<in> provider_owners t"
  by (simp add: provider_owners_def)

lemma group_owner_row: "g \<in> set (rows t) \<Longrightarrow> (gr_id g, gr_user g) \<in> group_owners t"
  by (simp add: group_owners_def)

lemma bindings_authorized:
  assumes "authorize_agent_bindings flt u provider grp s"
  shows "provider = Some i \<Longrightarrow> (i, Some u) \<in> provider_owners (ct_providers s)"
    and "grp = Some i \<Longrightarrow> (i, Some u) \<in> group_owners (ct_groups s)"
  using assms
  by (fastforce simp: authorize_agent_bindings_def provider_owners_def group_owners_def image_iff
      dest!: caller_provider_row caller_group_row)+

lemma checked_members_owned:
  assumes "checked_members flt k u reqs s = Some ms" and "m \<in> set ms"
  shows "\<exists>v. (mr_provider m, v) \<in> provider_owners (ct_providers s) \<and> (v = None \<or> v = Some u)"
  using assms
proof (induction reqs arbitrary: k ms)
  case (Cons q qs)
  show ?case
  proof (cases "mq_provider q = 0")
    case True
    then show ?thesis using Cons.IH [of "Suc k" ms] Cons.prems by simp
  next
    case False
    then obtain p rest' where p: "fetch (flt k) pv_id (mq_provider q) (ct_providers s) = Some p"
      and own: "pv_user p = None \<or> pv_user p = Some u"
      and rest': "checked_members flt (Suc k) u qs s = Some rest'"
      and m: "mr_provider m = mq_provider q \<or> m \<in> set rest'"
      using Cons.prems by (auto split: option.splits if_splits)
    show ?thesis
    proof (cases "m \<in> set rest'")
      case True
      then show ?thesis using Cons.IH [OF rest'] by blast
    next
      case False
      with m have "(mr_provider m, pv_user p) \<in> provider_owners (ct_providers s)"
        using fetched [OF p] provider_owner_row [of p] by metis
      with own show ?thesis by blast
    qed
  qed
qed simp

section \<open>Members\<close>

lemma insert_members_rows:
  assumes "insert_members flt k g i ms t = (r, t')" and "m \<in> set (rows t')"
  shows "m \<in> set (rows t) \<or> mr_group m = g \<and> mr_provider m \<in> mr_provider ` set ms"
  using assms
proof (induction ms arbitrary: k i t)
  case (Cons x xs)
  show ?case
  proof (cases "flt k")
    case False
    with Cons.prems(1) have "insert_members flt (Suc k) g (Suc i) xs
        (snd (tbl_create set_mr_id (x\<lparr>mr_group := g, mr_priority := i\<rparr>) t)) = (r, t')"
      by simp
    from Cons.IH [OF this Cons.prems(2)] show ?thesis by auto
  qed (use Cons.prems in auto)
qed simp

lemma insert_members_wf: "wf_table mr_id t \<Longrightarrow> wf_table mr_id (snd (insert_members flt k g i ms t))"
  by (induction ms arbitrary: k i t) (simp_all add: member_rows.wf_create)

lemma replaced_members:
  assumes "replace_model_group_members flt g ms t = (r, t')" and "wf_table mr_id t"
  shows "wf_table mr_id t' \<and>
    (\<forall>m \<in> set (rows t'). m \<in> set (rows t) \<or> mr_group m = g \<and> mr_provider m \<in> mr_provider ` set ms)"
proof (cases "\<exists>e. r = Inl e")
  case True
  with assms(1) have "t' = t"
    unfolding replace_model_group_members_def using transaction_error_frame by metis
  with assms(2) show ?thesis by simp
next
  case False
  then obtain y where "replace_members_body flt g ms t = (Inr y, t')"
    using assms(1) unfolding replace_model_group_members_def
    by (metis sumE transaction_success_body)
  then have i: "insert_members flt 2 g 0 ms (tbl_delete (\<lambda>m. mr_group m = g) t) = (Inr y, t')"
    by (simp add: replace_members_body_def split: if_splits)
  have "wf_table mr_id t'"
    using insert_members_wf [OF member_rows.wf_delete [OF assms(2)]] i by (metis snd_conv)
  moreover have "m \<in> set (rows t) \<or> mr_group m = g \<and> mr_provider m \<in> mr_provider ` set ms"
    if "m \<in> set (rows t')" for m
    using insert_members_rows [OF i that] by auto
  ultimately show ?thesis by blast
qed

lemma replace_group_members_ok:
  assumes "bindings_ok s" and "(g, Some u) \<in> group_owners (ct_groups s)"
    and "replace_group_members f u g reqs s = (r, s')"
  shows "bindings_ok s' \<and> ct_board s' = ct_board s"
proof (cases "checked_members (f 0) 0 u reqs s")
  case None
  then show ?thesis using assms by (simp add: replace_group_members_def)
next
  case (Some ms)
  obtain x t where x: "replace_model_group_members (f 1) g ms (ct_members s) = (x, t)" by fastforce
  have s': "s' = s\<lparr>ct_members := t\<rparr>"
    using assms(3) by (auto simp: replace_group_members_def Some x [unfolded One_nat_def] split: sum.splits)
  have wf: "wf_table mr_id (ct_members s)" using bindings_okD(1) [OF assms(1)] by (simp add: tables_ok_def)
  note t = replaced_members [OF x wf]
  have "member_ok (provider_owners (ct_providers s)) (group_owners (ct_groups s)) m" if m: "m \<in> set (rows t)" for m
  proof (cases "m \<in> set (rows (ct_members s))")
    case True
    then show ?thesis by (rule bindings_okD(2) [OF assms(1)])
  next
    case False
    with t m obtain y where y: "y \<in> set ms" "mr_provider m = mr_provider y" "mr_group m = g" by blast
    from checked_members_owned [OF Some y(1)] show ?thesis
      using assms(2) y(2,3) by (auto simp: member_ok_def)
  qed
  then have "bindings_ok (s\<lparr>ct_members := t\<rparr>)"
    using bindings_okD [OF assms(1)] t by (intro bindings_okI) (auto simp: tables_ok_def)
  with s' show ?thesis by simp
qed

section \<open>Every handler keeps the invariant\<close>

definition res_ok :: "board \<Rightarrow> (nat \<times> shown) \<times> deed list \<times> catalogue \<Rightarrow> bool" where
  "res_ok b res \<longleftrightarrow> bindings_ok (snd (snd res)) \<and> ct_board (snd (snd res)) = b"

lemma res_ok_triple [simp]: "res_ok b (x, ds, s) \<longleftrightarrow> bindings_ok s \<and> ct_board s = b"
  by (simp add: res_ok_def)

lemma with_row_ok:
  assumes "bindings_ok s" and "\<And>i r. auth i s = Some r \<Longrightarrow> res_ok (ct_board s) (next_h r s)"
  shows "res_ok (ct_board s) (with_row auth missing param next_h s)"
  using assms by (simp add: with_row_def split: option.split)

lemma finish_group_ok:
  assumes "bindings_ok s" and "(g, Some u) \<in> group_owners (ct_groups s)"
  shows "res_ok (ct_board s) (finish_group f u code g reqs s)"
proof -
  obtain r s' where r: "replace_group_members f u g reqs s = (r, s')" by fastforce
  from replace_group_members_ok [OF assms r] show ?thesis
    by (simp add: finish_group_def r respond_replace_members_err_def split: sum.split member_error.split)
qed

lemma insert_group_ok:
  assumes "bindings_ok s" and "insert_group fault x s = (g, s')"
  shows "bindings_ok s' \<and> ct_board s' = ct_board s \<and>
    (\<forall>r. g = Some r \<longrightarrow> (gr_id r, gr_user x) \<in> group_owners (ct_groups s'))"
proof (cases "fault \<or> tbl_first (\<lambda>r. gr_slug r = gr_slug x) (ct_groups s) \<noteq> None")
  case True
  then show ?thesis using assms by (simp add: insert_group_def)
next
  case False
  have "wf_table gr_id (ct_groups s)" using bindings_okD(1) [OF assms(1)] by (simp add: tables_ok_def)
  then have "bindings_ok (s\<lparr>ct_groups := snd (tbl_create set_gr_id x (ct_groups s))\<rparr>)"
    by (intro groups_grow assms(1) group_rows.wf_create owners_grow)
  moreover have "g = Some (set_gr_id (next_key (ct_groups s)) x)"
      and "s' = s\<lparr>ct_groups := snd (tbl_create set_gr_id x (ct_groups s))\<rparr>"
    using assms(2) False by (auto simp: insert_group_def split: prod.splits dest: arg_cong [of _ _ fst])
  ultimately show ?thesis by (auto simp: group_owners_def)
qed

lemma create_model_group_ok:
  assumes "bindings_ok s"
  shows "res_ok (ct_board s) (create_model_group f u body s)"
proof -
  have main: "res_ok (ct_board s) (case insert_group fault x s of
        (None, s) \<Rightarrow> fails 500 ''database error'' s
      | (Some g, s) \<Rightarrow> finish_group f u 201 (gr_id g) reqs s)" if "gr_user x = Some u" for fault x f reqs
  proof -
    obtain g s' where g: "insert_group fault x s = (g, s')" by fastforce
    note ok = insert_group_ok [OF assms g]
    show ?thesis
    proof (cases g)
      case None
      then show ?thesis using ok g by simp
    next
      case (Some r)
      then show ?thesis using ok g that finish_group_ok [of s' "gr_id r" u f 201 reqs] by simp
    qed
  qed
  show ?thesis
    unfolding create_model_group_def by (cases body) (use assms in \<open>simp_all add: main\<close>)
qed

lemma update_model_group_ok:
  assumes "bindings_ok s" and "caller_group fault u i s = Some g"
  shows "res_ok (ct_board s) (update_model_group f u body g s)"
proof -
  have row: "g \<in> set (rows (ct_groups s))" "gr_user g = Some u" using caller_group_row [OF assms(2)] by auto
  have wf: "wf_table gr_id (ct_groups s)" using bindings_okD(1) [OF assms(1)] by (simp add: tables_ok_def)
  have "res_ok (ct_board s) (finish_group f u 200 (gr_id g) reqs (s\<lparr>ct_groups := tbl_save gr_id h (ct_groups s)\<rparr>))"
    if h: "gr_id h = gr_id g" "gr_user h = gr_user g" for h f reqs
  proof -
    have own: "group_owners (tbl_save gr_id h (ct_groups s)) = group_owners (ct_groups s)"
      by (rule group_owners_kept_by_save [OF wf row(1) h])
    have ok: "bindings_ok (s\<lparr>ct_groups := tbl_save gr_id h (ct_groups s)\<rparr>)"
      by (rule groups_grow) (simp_all add: assms(1) own group_rows.wf_save [OF wf])
    show ?thesis
      using finish_group_ok [OF ok, of "gr_id g" u f 200 reqs] group_owner_row [OF row(1)] row(2) own by simp
  qed
  then show ?thesis
    using assms(1) by (simp add: update_model_group_def Let_def split: option.split)
qed

lemma drop_group_ok:
  assumes "bindings_ok s"
  shows "bindings_ok (drop_group g s)"
proof -
  let ?G = "group_owners (ct_groups (drop_group g s))"
  have G: "(i, w) \<in> ?G \<longleftrightarrow> (i, w) \<in> group_owners (ct_groups s) \<and> i \<noteq> g" for i w
    by (simp add: drop_group_def group_owners_deleted)
  have same: "ct_providers (drop_group g s) = ct_providers s" "ct_board (drop_group g s) = ct_board s"
    by (simp_all add: drop_group_def)
  show ?thesis
  proof (rule bindings_okI)
    show "tables_ok (drop_group g s)"
      using bindings_okD(1) [OF assms]
      by (simp add: tables_ok_def drop_group_def member_rows.wf_delete group_rows.wf_delete
          setting_rows.wf_update agent_rows.wf_update)
  next
    fix m assume "m \<in> set (rows (ct_members (drop_group g s)))"
    then have m: "m \<in> set (rows (ct_members s))" "mr_group m \<noteq> g" by (auto simp: drop_group_def)
    show "member_ok (provider_owners (ct_providers (drop_group g s))) ?G m"
      using bindings_okD(2) [OF assms m(1)] m(2) by (auto simp: member_ok_def G same)
  next
    fix d assume "d \<in> set (rows (ct_settings (drop_group g s)))"
    then obtain d0 where d: "d0 \<in> set (rows (ct_settings s))"
        "d = (if ds_group d0 = Some g then d0\<lparr>ds_group := None\<rparr> else d0)"
      by (auto simp: drop_group_def)
    show "setting_ok (provider_owners (ct_providers (drop_group g s))) ?G d"
      using bindings_okD(3) [OF assms d(1)] d(2) by (auto simp: setting_ok_def G same)
  next
    fix a assume "a \<in> set (rows (ct_agents (drop_group g s)))"
    then obtain a0 where a: "a0 \<in> set (rows (ct_agents s))"
        "a = (if ag_group a0 = Some g then a0\<lparr>ag_group := None\<rparr> else a0)"
      by (auto simp: drop_group_def)
    show "agent_ok (provider_owners (ct_providers (drop_group g s))) ?G (ct_board (drop_group g s)) a"
      using bindings_okD(4) [OF assms a(1)] a(2) by (auto simp: agent_ok_def G same)
  qed
qed

lemma delete_model_group_ok: "bindings_ok s \<Longrightarrow> res_ok (ct_board s) (delete_model_group flt g s)"
  using drop_group_ok [of s "gr_id g"] by (simp add: delete_model_group_def drop_group_def)

lemma drop_provider_ok:
  assumes "bindings_ok s"
  shows "bindings_ok (drop_provider p s)"
proof -
  let ?P = "provider_owners (ct_providers (drop_provider p s))"
  have P: "(i, w) \<in> ?P \<longleftrightarrow> (i, w) \<in> provider_owners (ct_providers s) \<and> i \<noteq> p" for i w
    by (simp add: drop_provider_def owners_deleted)
  have same: "ct_groups (drop_provider p s) = ct_groups s" "ct_board (drop_provider p s) = ct_board s"
    by (simp_all add: drop_provider_def)
  show ?thesis
  proof (rule bindings_okI)
    show "tables_ok (drop_provider p s)"
      using bindings_okD(1) [OF assms]
      by (simp add: tables_ok_def drop_provider_def member_rows.wf_delete vendor_rows.wf_delete
          setting_rows.wf_update agent_rows.wf_update)
  next
    fix m assume "m \<in> set (rows (ct_members (drop_provider p s)))"
    then have m: "m \<in> set (rows (ct_members s))" "mr_provider m \<noteq> p" by (auto simp: drop_provider_def)
    show "member_ok ?P (group_owners (ct_groups (drop_provider p s))) m"
      using bindings_okD(2) [OF assms m(1)] m(2) by (auto simp: member_ok_def P same)
  next
    fix d assume "d \<in> set (rows (ct_settings (drop_provider p s)))"
    then obtain d0 where d: "d0 \<in> set (rows (ct_settings s))"
        "d = (if ds_provider d0 = Some p then d0\<lparr>ds_provider := None\<rparr> else d0)"
      by (auto simp: drop_provider_def)
    show "setting_ok ?P (group_owners (ct_groups (drop_provider p s))) d"
      using bindings_okD(3) [OF assms d(1)] d(2) by (auto simp: setting_ok_def P same)
  next
    fix a assume "a \<in> set (rows (ct_agents (drop_provider p s)))"
    then obtain a0 where a: "a0 \<in> set (rows (ct_agents s))"
        "a = (if ag_provider a0 = Some p then a0\<lparr>ag_provider := None\<rparr> else a0)"
      by (auto simp: drop_provider_def)
    show "agent_ok ?P (group_owners (ct_groups (drop_provider p s))) (ct_board (drop_provider p s)) a"
      using bindings_okD(4) [OF assms a(1)] a(2) by (auto simp: agent_ok_def P same)
  qed
qed

lemma delete_provider_ok: "bindings_ok s \<Longrightarrow> res_ok (ct_board s) (delete_provider fault p s)"
  using drop_provider_ok [of s "pv_id p"] by (simp add: delete_provider_def drop_provider_def)

lemma setting_bound:
  assumes "bindings_ok s" and "authorize_agent_bindings flt u provider grp s"
    and "update_default_model_setting f u purpose provider model grp
           \<lparr>md_settings = ct_settings s, md_providers = empty_table, md_groups = empty_table\<rparr> = (r, m)"
  shows "bindings_ok (s\<lparr>ct_settings := md_settings m\<rparr>)"
proof (cases "md_settings m = ct_settings s")
  case True
  then show ?thesis using assms(1) by simp
next
  case False
  let ?up = "\<lambda>x. x\<lparr>ds_provider := provider, ds_model := model, ds_group := grp\<rparr>"
  from False assms(3) obtain d where d: "d \<in> set (rows (ct_settings s))" "ds_user d = Some u"
      and m: "md_settings m = tbl_update (\<lambda>x. ds_id x = ds_id d) ?up (ct_settings s)"
    by (auto simp: update_default_model_setting_def get_default_model_setting_def setting_for_def Let_def
        dest!: tbl_first_Some_D split: if_splits option.splits)
  have wf: "wf_table ds_id (ct_settings s)" using bindings_okD(1) [OF assms(1)] by (simp add: tables_ok_def)
  have "setting_ok (provider_owners (ct_providers s)) (group_owners (ct_groups s)) x"
    if x: "x \<in> set (rows (md_settings m))" for x
  proof -
    from x obtain y where y: "y \<in> set (rows (ct_settings s))" "x = (if ds_id y = ds_id d then ?up y else y)"
      by (auto simp: m)
    show ?thesis
    proof (cases "ds_id y = ds_id d")
      case True
      with unique_row [OF wf y(1) d(1)] have "x = ?up d" using y(2) by simp
      then show ?thesis using bindings_authorized [OF assms(2)] d(2) by (simp add: setting_ok_def)
    next
      case False
      then show ?thesis using y bindings_okD(3) [OF assms(1)] by simp
    qed
  qed
  moreover have "wf_table ds_id (md_settings m)" unfolding m by (rule setting_rows.wf_update [OF wf]) simp
  ultimately show ?thesis
    using bindings_okD [OF assms(1)] by (intro bindings_okI) (auto simp: tables_ok_def)
qed

lemma update_default_model_setting_api_ok:
  assumes "bindings_ok s"
  shows "res_ok (ct_board s) (update_default_model_setting_api f u purpose body s)"
proof -
  have "res_ok (ct_board s) (case update_default_model_setting (f 1) u purpose p model g
      \<lparr>md_settings = ct_settings s, md_providers = empty_table, md_groups = empty_table\<rparr> of
      (Inl _, m) \<Rightarrow> fails 404 ''unknown purpose'' (s\<lparr>ct_settings := md_settings m\<rparr>)
    | (Inr d, m) \<Rightarrow> gives 200 (Shown_Setting d) (s\<lparr>ct_settings := md_settings m\<rparr>))"
    if "authorize_agent_bindings (f 0) u p g s" for p model g
  proof -
    obtain r m where r: "update_default_model_setting (f 1) u purpose p model g
      \<lparr>md_settings = ct_settings s, md_providers = empty_table, md_groups = empty_table\<rparr> = (r, m)" by fastforce
    from setting_bound [OF assms that r] show ?thesis unfolding r by (simp split: sum.split)
  qed
  then show ?thesis
    using assms by (simp add: update_default_model_setting_api_def Let_def split: option.split del: One_nat_def)
qed

lemma insert_provider_ok:
  assumes "bindings_ok s"
  shows "res_ok (ct_board s) (insert_provider fault p s)"
proof -
  have wf: "wf_table pv_id (ct_providers s)" using bindings_okD(1) [OF assms] by (simp add: tables_ok_def)
  have "bindings_ok (s\<lparr>ct_providers := snd (tbl_create set_pv_id q (ct_providers s))\<rparr>)" for q
    by (intro providers_grow assms vendor_rows.wf_create wf owners_grow)
  then show ?thesis using assms by (simp add: insert_provider_def split_def)
qed

lemma seal_key_keeps: "seal_key e u key s = (x, s') \<Longrightarrow> \<exists>k. s' = s\<lparr>ct_keys := k\<rparr>"
  by (auto simp: seal_key_def split: prod.splits sum.splits)

lemma sealed_ok:
  assumes "bindings_ok s"
    and "\<And>k key. res_ok (ct_board s) (h key (s\<lparr>ct_keys := k\<rparr>))"
  shows "res_ok (ct_board s) (case seal_key e u key s of
      (None, s) \<Rightarrow> fails code msg s | (Some x, s) \<Rightarrow> h x s)"
proof -
  obtain x s' where x: "seal_key e u key s = (x, s')" by fastforce
  from seal_key_keeps [OF x] obtain k where "s' = s\<lparr>ct_keys := k\<rparr>" ..
  with x assms show ?thesis by (simp add: keys_free split: option.split)
qed

lemma insert_provider_sealed:
  "bindings_ok s \<Longrightarrow> res_ok (ct_board s) (insert_provider fault p (s\<lparr>ct_keys := k\<rparr>))"
  using insert_provider_ok [of "s\<lparr>ct_keys := k\<rparr>" fault p] by (simp add: keys_free)

lemma create_provider_ok: "bindings_ok s \<Longrightarrow> res_ok (ct_board s) (create_provider e fault u body s)"
  by (cases body) (simp_all add: create_provider_def sealed_ok insert_provider_sealed)

lemma create_provider_from_preset_ok:
  "bindings_ok s \<Longrightarrow> res_ok (ct_board s) (create_provider_from_preset e flt u body s)"
  by (simp add: create_provider_from_preset_def sealed_ok insert_provider_sealed split: option.split list.split)

lemma save_provider_ok:
  assumes "bindings_ok s" and "p \<in> set (rows (ct_providers s))" and "pv_id q = pv_id p" and "pv_user q = pv_user p"
  shows "res_ok (ct_board s) (save_provider fault b q (s\<lparr>ct_keys := k\<rparr>))"
proof -
  have wf: "wf_table pv_id (ct_providers s)" using bindings_okD(1) [OF assms(1)] by (simp add: tables_ok_def)
  have "bindings_ok (s\<lparr>ct_keys := k, ct_providers := tbl_save pv_id (q\<lparr>vd_enabled := x\<rparr>) (ct_providers s)\<rparr>)" for x
    by (rule providers_grow)
      (use assms wf owners_kept_by_save [OF wf assms(2), of "q\<lparr>vd_enabled := x\<rparr>"] in
        \<open>simp_all add: keys_free vendor_rows.wf_save\<close>)
  then show ?thesis using assms(1) by (simp add: save_provider_def Let_def keys_free)
qed

lemma update_provider_ok:
  assumes "bindings_ok s" and "caller_provider fault' u i s = Some p"
  shows "res_ok (ct_board s) (update_provider e fault u body p s)"
proof -
  have p: "p \<in> set (rows (ct_providers s))" using caller_provider_row [OF assms(2)] by simp
  have save: "res_ok (ct_board s) (save_provider fault b q (s\<lparr>ct_keys := k\<rparr>))"
    if "pv_id q = pv_id p" "pv_user q = pv_user p" for b q k
    using save_provider_ok [OF assms(1) p that] .
  have unsealed: "res_ok (ct_board s) (save_provider fault b q s)"
    if "pv_id q = pv_id p" "pv_user q = pv_user p" for b q
    using save [OF that, of b "ct_keys s"] by simp
  show ?thesis
  proof (cases body)
    case None
    then show ?thesis using assms(1) by (simp add: update_provider_def)
  next
    case (Some b)
    have "res_ok (ct_board s) (case seal_key e u (vq_key b) s of
        (None, s) \<Rightarrow> fails 409 ''vault is locked'' s
      | (Some key, s) \<Rightarrow> save_provider fault b ((changed_provider b p)\<lparr>pv_key := key\<rparr>) s)"
      by (rule sealed_ok [OF assms(1)], rule save) (simp_all add: changed_provider_def)
    moreover have "res_ok (ct_board s) (save_provider fault b (changed_provider b p) s)"
      by (rule unsealed) (simp_all add: changed_provider_def)
    ultimately show ?thesis by (simp add: update_provider_def Some)
  qed
qed

lemma rediscover_models_ok:
  assumes "bindings_ok s"
  shows "res_ok (ct_board s) (rediscover_models e flt p s)"
proof -
  obtain r s' where r: "fetch_catalog e p s = (r, s')" by fastforce
  then obtain k where s': "s' = s\<lparr>ct_keys := k\<rparr>"
  proof -
    have "\<exists>k. s' = s\<lparr>ct_keys := k\<rparr>"
      using r by (auto simp: fetch_catalog_def split: if_splits prod.splits sum.splits)
        (metis catalogue.surjective catalogue.update_convs(8))+
    with that show thesis by blast
  qed
  have wf: "wf_table pv_id (ct_providers s)" using bindings_okD(1) [OF assms] by (simp add: tables_ok_def)
  have "bindings_ok (force_update_catalog (pv_id p) models s')" for models
  proof -
    have "bindings_ok (s'\<lparr>ct_providers := tbl_update (\<lambda>r. pv_id r = pv_id p)
        (\<lambda>r. r\<lparr>pv_models := join_with '','' models, lp_default_model := hd models\<rparr>) (ct_providers s)\<rparr>)"
      by (rule providers_grow)
        (use assms in \<open>simp_all add: s' keys_free owners_kept_by_update vendor_rows.wf_update [OF wf]\<close>)
    then show ?thesis using assms by (simp add: force_update_catalog_def s' keys_free)
  qed
  moreover have "ct_board (force_update_catalog i models s') = ct_board s" for i models
    by (simp add: force_update_catalog_def s')
  ultimately show ?thesis
    using assms by (simp add: rediscover_models_def r s' keys_free Let_def split: sum.split option.split)
qed

lemma agents_changed:
  assumes "bindings_ok s" and "wf_table ag_id t"
    and "\<And>a. a \<in> set (rows t) \<Longrightarrow> a \<in> set (rows (ct_agents s)) \<or>
           agent_ok (provider_owners (ct_providers s)) (group_owners (ct_groups s)) (ct_board s) a"
  shows "bindings_ok (s\<lparr>ct_agents := t\<rparr>)"
  using bindings_okD [OF assms(1)] assms(2,3)
  by (intro bindings_okI) (auto simp: tables_ok_def)

lemma agent_bound:
  assumes "authorize_agent_bindings flt u p g s" and "works_in u (ag_company a) (ct_board s)"
    and "ag_provider a = p" and "ag_group a = g"
  shows "agent_ok (provider_owners (ct_providers s)) (group_owners (ct_groups s)) (ct_board s) a"
  using bindings_authorized [OF assms(1)] assms(2-) by (auto simp: agent_ok_def)

lemma agent_table: "bindings_ok s \<Longrightarrow> wf_table ag_id (ct_agents s)"
  using bindings_okD(1) [of s] by (simp add: tables_ok_def)

lemma create_agent_ok:
  assumes "bindings_ok s"
  shows "res_ok (ct_board s) (create_agent e f u body s)"
proof -
  have "bindings_ok (s\<lparr>ct_agents := snd (tbl_create set_ag_id (with_column_defaults (new_agent e b mcps)) (ct_agents s))\<rparr>)"
    if "authorize_company c u (aq_company b) (ct_board s) = Some co"
      and "authorize_agent_bindings flt u (aq_provider b) (aq_group b) s" for b mcps c flt co
  proof (rule agents_changed [OF assms agent_rows.wf_create [OF agent_table [OF assms]]])
    fix a assume "a \<in> set (rows (snd (tbl_create set_ag_id (with_column_defaults (new_agent e b mcps)) (ct_agents s))))"
    moreover have "agent_ok (provider_owners (ct_providers s)) (group_owners (ct_groups s)) (ct_board s)
        (set_ag_id i (with_column_defaults (new_agent e b mcps)))" for i
      by (rule agent_bound [OF that(2)])
        (use authorized [OF that(1)] in \<open>simp_all add: with_column_defaults_def new_agent_def\<close>)
    ultimately show "a \<in> set (rows (ct_agents s)) \<or>
        agent_ok (provider_owners (ct_providers s)) (group_owners (ct_groups s)) (ct_board s) a" by auto
  qed
  then show ?thesis
    using assms by (auto simp: create_agent_def split_def split: option.split sum.split)
qed

lemma save_agent_ok:
  assumes "bindings_ok s" and "a \<in> set (rows (ct_agents s))" and "ag_id b = ag_id a"
    and "agent_ok (provider_owners (ct_providers s)) (group_owners (ct_groups s)) (ct_board s) b"
  shows "res_ok (ct_board s) (save_agent fault b s)"
proof -
  have "bindings_ok (s\<lparr>ct_agents := tbl_save ag_id b (ct_agents s)\<rparr>)"
  proof (rule agents_changed [OF assms(1) agent_rows.wf_save [OF agent_table [OF assms(1)]]])
    fix x assume "x \<in> set (rows (tbl_save ag_id b (ct_agents s)))"
    then have "x = b \<or> x \<in> set (rows (ct_agents s))"
      using assms(2,3) by (auto simp: tbl_save_def split: if_splits)
    with assms(4) show "x \<in> set (rows (ct_agents s)) \<or>
        agent_ok (provider_owners (ct_providers s)) (group_owners (ct_groups s)) (ct_board s) x" by blast
  qed
  with assms(1) show ?thesis by (simp add: save_agent_def)
qed

lemma update_agent_ok:
  assumes "bindings_ok s" and "caller_agent g u i s = Some a"
  shows "res_ok (ct_board s) (update_agent e f u body a s)"
proof -
  have a: "a \<in> set (rows (ct_agents s))" "works_in u (ag_company a) (ct_board s)"
    using caller_agent_row [OF assms(2)] by auto
  have builtin: "res_ok (ct_board s) (save_agent fault (changed_builtin b mcps a) s)" for fault b mcps
    by (rule save_agent_ok [OF assms(1) a(1)])
      (use bindings_okD(4) [OF assms(1) a(1)] in \<open>simp_all add: changed_builtin_def agent_ok_def\<close>)
  have custom: "res_ok (ct_board s) (save_agent fault
      ((changed_custom b mcps a)\<lparr>ag_provider := aq_provider b, ag_group := aq_group b\<rparr>) s)"
    if "authorize_agent_bindings flt u (aq_provider b) (aq_group b) s" for fault flt b mcps
  proof (rule save_agent_ok [OF assms(1) a(1)])
    show "agent_ok (provider_owners (ct_providers s)) (group_owners (ct_groups s)) (ct_board s)
        ((changed_custom b mcps a)\<lparr>ag_provider := aq_provider b, ag_group := aq_group b\<rparr>)"
      by (rule agent_bound [OF that]) (simp_all add: changed_custom_def a(2))
  qed (simp add: changed_custom_def)
  show ?thesis
    using assms(1) by (simp add: update_agent_def builtin custom split: option.split sum.split)
qed

lemma delete_agent_ok:
  assumes "bindings_ok s"
  shows "res_ok (ct_board s) (delete_agent fault a s)"
proof -
  have "bindings_ok (s\<lparr>ct_agents := tbl_delete (\<lambda>r. ag_id r = ag_id a) (ct_agents s)\<rparr>)"
    by (rule agents_changed [OF assms agent_rows.wf_delete [OF agent_table [OF assms]]]) simp
  with assms show ?thesis by (simp add: delete_agent_def)
qed

lemmas handler_ok = create_model_group_ok delete_model_group_ok update_default_model_setting_api_ok create_provider_ok
  create_provider_from_preset_ok delete_provider_ok rediscover_models_ok create_agent_ok delete_agent_ok

lemma handle_ok:
  assumes "bindings_ok s"
  shows "res_ok (ct_board s) (handle e f u req s)"
  by (cases req)
    (simp_all add: assms handler_ok with_row_ok update_model_group_ok update_provider_ok update_agent_ok)

lemma ensure_vendors_owners:
  "wf_table pv_id t \<Longrightarrow>
   wf_table pv_id (snd (ensure_vendors flt k u ps t)) \<and>
   provider_owners t \<subseteq> provider_owners (snd (ensure_vendors flt k u ps t))"
proof (induction ps arbitrary: k t)
  case (Cons p ps)
  let ?t = "snd (tbl_create set_pv_id (before_create p) t)"
  have "wf_table pv_id ?t" using Cons.prems by (rule vendor_rows.wf_create)
  with Cons.IH [of ?t "k + 2"] Cons.IH [OF Cons.prems, of "k + 2"] owners_grow(1) [of t "before_create p"] Cons.prems
  show ?case by auto
qed simp

lemma updated_catalog_owners:
  assumes "wf_table pv_id t"
  shows "wf_table pv_id (snd (update_llm_provider_model_catalog flt p models t)) \<and>
    provider_owners (snd (update_llm_provider_model_catalog flt p models t)) = provider_owners t"
  using assms
  by (simp add: update_llm_provider_model_catalog_def owners_kept_by_update vendor_rows.wf_update split: option.split)

lemma happens_ok: "bindings_ok s \<Longrightarrow> bindings_ok (happens x s) \<and> ct_board (happens x s) = ct_board s"
proof (cases x)
  case (Request e f u req)
  then show "bindings_ok s \<Longrightarrow> ?thesis" using handle_ok [of s e f u req] by (simp add: res_ok_def)
next
  case (Seeded flt u)
  assume s: "bindings_ok s"
  then have "wf_table pv_id (ct_providers s)" using bindings_okD(1) [of s] by (simp add: tables_ok_def)
  from ensure_vendors_owners [OF this] s show ?thesis
    by (simp add: Seeded ensure_builtin_llm_providers_for_user_def providers_grow)
next
  case (Discovered flt p models)
  assume s: "bindings_ok s"
  then have "wf_table pv_id (ct_providers s)" using bindings_okD(1) [of s] by (simp add: tables_ok_def)
  from updated_catalog_owners [OF this] s show ?thesis
    by (simp add: Discovered providers_grow)
qed

section \<open>What the gateway then loads\<close>

lemma rows_map_rows [simp]: "rows (map_rows f t) = map f (rows t)"
  by (simp add: map_rows_def)

lemma get_map_rows:
  assumes "\<And>r. key' (f r) = key r"
  shows "tbl_get key' i (map_rows f t) = map_option f (tbl_get key i t)"
proof -
  have "List.find (\<lambda>r. key' r = i) (map f xs) = map_option f (List.find (\<lambda>r. key r = i) xs)" for xs
    by (induction xs) (simp_all add: assms)
  then show ?thesis by (simp add: tbl_get_def tbl_first_def)
qed

lemma truncated [simp]: "pv_id (provider.truncate p) = pv_id p" "pv_user (provider.truncate p) = pv_user p"
  by (simp_all add: provider.truncate_def)

lemma loaded_members_owned:
  assumes "bindings_ok s" and "g \<in> set (rows (ct_groups s))" and "m \<in> set (load_members (gr_id g) (gateway_view s))"
  shows "\<exists>p \<in> set (rows (ct_providers s)). mm_provider m = provider.truncate p \<and> (pv_user p = None \<or> pv_user p = gr_user g)"
proof -
  have wf: "wf_table pv_id (ct_providers s)" "wf_table gr_id (ct_groups s)"
    using bindings_okD(1) [OF assms(1)] by (simp_all add: tables_ok_def)
  from assms(3) obtain r where r: "r \<in> set (rows (ct_members s))" "mr_group r = gr_id g"
      and m: "mm_provider m = (case tbl_get pv_id (mr_provider r) (map_rows provider.truncate (ct_providers s)) of
                                 None \<Rightarrow> zero_provider | Some p \<Rightarrow> p)"
    by (auto simp: load_members_def gateway_view_def member_of_row_def)
  from bindings_okD(2) [OF assms(1) r(1)] obtain p h where p: "p \<in> set (rows (ct_providers s))" "pv_id p = mr_provider r"
      and h: "h \<in> set (rows (ct_groups s))" "gr_id h = gr_id g" and own: "pv_user p = None \<or> pv_user p = gr_user h"
    by (auto simp: member_ok_def provider_owners_def group_owners_def r(2))
  have "h = g" by (rule unique_row [OF wf(2) h(1) assms(2) h(2)])
  moreover have "tbl_get pv_id (mr_provider r) (ct_providers s) = Some p"
    using vendor_rows.get_member [OF wf(1) p(1)] p(2) by simp
  ultimately show ?thesis
    using p(1) own m by (auto simp: get_map_rows [where key = pv_id])
qed

section \<open>The members of a group\<close>

type_synonym choice = "id \<times> string \<times> bool \<times> bool"

definition choice_of :: "member_row \<Rightarrow> choice" where
  "choice_of m = (mr_provider m, mr_model m, mr_all m, mr_free m)"

text \<open>The members a request asks for: entries that name no provider or no model are left out.\<close>

definition wanted :: "member_request list \<Rightarrow> choice list" where
  "wanted reqs =
     map (\<lambda>q. (mq_provider q, if mq_all q then [] else trim_space (mq_model q), mq_all q, mq_free q))
       (filter (\<lambda>q. mq_provider q \<noteq> 0 \<and> (mq_all q \<or> trim_space (mq_model q) \<noteq> [])) reqs)"

lemma checked_members_wanted: "checked_members flt k u reqs s = Some ms \<Longrightarrow> map choice_of ms = wanted reqs"
  by (induction reqs arbitrary: k ms)
    (auto simp: wanted_def choice_of_def split: if_splits option.splits)

lemma inserted_members:
  "insert_members flt k g i ms t = (Inr x, t') \<Longrightarrow>
   \<exists>new. rows t' = rows t @ new \<and> map mr_priority new = [i..<i + length ms] \<and>
     (\<forall>m \<in> set new. mr_group m = g) \<and> map choice_of new = map choice_of ms"
proof (induction ms arbitrary: k i t)
  case (Cons m ms)
  let ?m = "m\<lparr>mr_id := next_key t, mr_group := g, mr_priority := i\<rparr>"
  from Cons.prems have "insert_members flt (Suc k) g (Suc i) ms
      (snd (tbl_create set_mr_id (m\<lparr>mr_group := g, mr_priority := i\<rparr>) t)) = (Inr x, t')"
    by (simp split: if_splits)
  from Cons.IH [OF this] obtain new where "rows t' = rows t @ ?m # new"
      "map mr_priority new = [Suc i..<Suc i + length ms]" "\<forall>m \<in> set new. mr_group m = g"
      "map choice_of new = map choice_of ms" by auto
  moreover have "[i..<i + length (m # ms)] = i # [Suc i..<Suc i + length ms]"
    by (simp add: upt_conv_Cons del: upt_Suc)
  moreover have "choice_of ?m = choice_of m" by (simp add: choice_of_def)
  ultimately show ?case
    by (intro exI [of _ "?m # new"]) (simp del: upt_Suc)
qed simp

definition members_of :: "id \<Rightarrow> catalogue \<Rightarrow> member_row list" where
  "members_of g s = sort_key mr_priority (tbl_find (\<lambda>m. mr_group m = g) (ct_members s))"

definition others_members :: "id \<Rightarrow> catalogue \<Rightarrow> member_row list" where
  "others_members g s = tbl_find (\<lambda>m. mr_group m \<noteq> g) (ct_members s)"

lemma replaced_whole:
  assumes "replace_group_members f u g reqs s = (Inr x, s')"
  shows "map choice_of (members_of g s') = wanted reqs \<and> others_members g s' = others_members g s"
proof -
  from assms obtain ms t where ms: "checked_members (f 0) 0 u reqs s = Some ms"
      and t: "replace_model_group_members (f 1) g ms (ct_members s) = (Inr x, t)" and s': "s' = s\<lparr>ct_members := t\<rparr>"
    by (auto simp: replace_group_members_def split: option.splits prod.splits sum.splits)
  from t have "insert_members (f 1) 2 g 0 ms (tbl_delete (\<lambda>m. mr_group m = g) (ct_members s)) = (Inr x, t)"
    by (auto simp: replace_model_group_members_def transaction_success_body replace_members_body_def split: if_splits)
  from inserted_members [OF this] obtain new where
      rows: "rows t = filter (\<lambda>m. mr_group m \<noteq> g) (rows (ct_members s)) @ new"
      and order: "map mr_priority new = [0..<length ms]" and new: "\<forall>m \<in> set new. mr_group m = g"
      and ch: "map choice_of new = map choice_of ms" by auto
  have "filter (\<lambda>m. mr_group m = g) new = new" "filter (\<lambda>m. mr_group m \<noteq> g) new = []"
    using new by (auto simp: filter_id_conv filter_empty_conv)
  moreover have "sort_key mr_priority new = new" by (rule sort_key_id_if_sorted) (simp add: order)
  ultimately show ?thesis
    by (simp add: members_of_def others_members_def tbl_find_def s' rows ch checked_members_wanted [OF ms])
qed

lemma not_replaced:
  assumes "replace_group_members f u g reqs s = (Inl e, s')"
  shows "ct_members s' = ct_members s"
  using assms
  by (auto simp: replace_group_members_def replace_model_group_members_def split: option.splits prod.splits sum.splits
      dest!: transaction_error_frame)

lemma finished_group:
  assumes "finish_group f u code g reqs s = ((status, x), ds, s')" and "code < 400"
  shows "(if status = code then map choice_of (members_of g s') = wanted reqs \<and> others_members g s' = others_members g s
          else ct_members s' = ct_members s)"
  using assms replaced_whole [of f u g reqs s] not_replaced [of f u g reqs s]
  by (auto simp: finish_group_def respond_replace_members_err_def split: prod.splits sum.splits member_error.splits)

section \<open>Where the code differs from what it means\<close>

text \<open>An agent created with \<open>"enabled": false\<close> is stored enabled.\<close>

lemma disabled_agent_stored_enabled:
  "create_agent e f u body s = ((201, Shown_Agent a), ds, s') \<Longrightarrow> ag_enabled a"
  by (auto simp: create_agent_def with_column_defaults_def split_def split: option.splits sum.splits if_splits)

text \<open>The name of a group one user has is taken for every other user.\<close>

lemma slug_taken_for_everyone:
  assumes "g \<in> set (rows (ct_groups s))" and "gr_slug g = slugify (gq_name b)"
    and "trim_space (gq_name b) \<noteq> []" and "slugify (gq_name b) \<noteq> []"
  shows "create_model_group f u (Some b) s = fails 500 ''database error'' s"
proof -
  have "tbl_first (\<lambda>r. gr_slug r = slugify (gq_name b)) (ct_groups s) \<noteq> None"
    using assms(1,2) by (auto simp: tbl_first_None_iff)
  with assms(3,4) show ?thesis by (simp add: create_model_group_def insert_group_def)
qed

section \<open>The properties\<close>

text \<open>
  C21: through every history of requests of any users, whatever the database refuses, of seeded
  built-in providers and of discovered catalogs: every group holds only providers of its owner or
  of nobody, every setting names a provider or group of its user, and every agent one of a user who
  works in its company.  So the gateway finds no foreign provider among the members it loads for a
  group, and the groups of nobody hold providers of nobody.
\<close>

theorem bindings_stay_with_their_owners:
  assumes "bindings_ok s"
  shows "bindings_ok (fold happens xs s) \<and> shared_groups_hold_shared (gateway_view (fold happens xs s)) \<and>
    (\<forall>g \<in> set (rows (ct_groups (fold happens xs s))).
     \<forall>m \<in> set (load_members (gr_id g) (gateway_view (fold happens xs s))).
       \<exists>p \<in> set (rows (ct_providers (fold happens xs s))).
         mm_provider m = provider.truncate p \<and> (pv_user p = None \<or> pv_user p = gr_user g))"
proof -
  have "bindings_ok (fold happens xs s)"
    using assms by (induction xs arbitrary: s) (simp_all add: happens_ok)
  note ok = this
  note loaded = loaded_members_owned [OF ok]
  have "pv_user (mm_provider m) = None"
    if "g \<in> set (rows (ct_groups (fold happens xs s)))" "gr_user g = None"
      "m \<in> set (load_members (gr_id g) (gateway_view (fold happens xs s)))" for g m
    using loaded [OF that(1,3)] that(2) by auto
  then have "shared_groups_hold_shared (gateway_view (fold happens xs s))"
    by (auto simp: shared_groups_hold_shared_def gateway_view_def group_of_row_def)
  with ok loaded show ?thesis by blast
qed

text \<open>
  C22: changing a group replaces its members as a whole or not at all: when the answer is 200 the
  group is one of the caller's, its members in the order of their priority are the entries of the
  request that name a provider and a model (or all of them), and the members of every other group
  are as before; after any other answer all members are as before.
\<close>

theorem member_list_replaced_as_a_whole:
  assumes "handle e f u (Change_Group i (Some b)) s = ((status, x), ds, s')"
  shows "(if status = 200
          then \<exists>g \<in> set (rows (ct_groups s)). gr_user g = Some u \<and> map_option to_int32 (parse_int 64 i) = Some (gr_id g) \<and>
                 map choice_of (members_of (gr_id g) s') = wanted (gq_members b) \<and>
                 others_members (gr_id g) s' = others_members (gr_id g) s
          else ct_members s' = ct_members s)"
proof (cases "parse_int 64 i")
  case None
  then show ?thesis using assms by (auto simp: with_row_def)
next
  case (Some n)
  show ?thesis
  proof (cases "caller_group (f 0 0) u (to_int32 n) s")
    case None
    then show ?thesis using assms Some by (auto simp: with_row_def)
  next
    case row: (Some g)
    note g = caller_group_row [OF row]
    show ?thesis
    proof (cases "f 1 0")
      case True
      then show ?thesis using assms Some row by (auto simp: with_row_def update_model_group_def Let_def)
    next
      case False
      then obtain t where "finish_group (\<lambda>k. f (k + 2)) u 200 (gr_id g) (gq_members b) (s\<lparr>ct_groups := t\<rparr>) =
          ((status, x), ds, s')"
        using assms Some row by (auto simp: with_row_def update_model_group_def Let_def)
      from finished_group [OF this] g show ?thesis
        by (auto simp: Some others_members_def)
    qed
  qed
qed

section \<open>Witnesses\<close>

definition demo_vendor :: "id \<Rightarrow> id \<Rightarrow> vendor" where
  "demo_vendor i u = (builtin_vendor u ''p'' ''http://p'' ''OpenRouter'')\<lparr>pv_id := i\<rparr>"

definition demo_catalogue :: catalogue where
  "demo_catalogue =
     \<lparr>ct_board = demo_board, ct_providers = \<lparr>rows = [demo_vendor 1 7, demo_vendor 2 8], next_key = 3\<rparr>,
      ct_presets = empty_table,
      ct_groups = \<lparr>rows = [\<lparr>gr_id = 1, gr_name = ''G'', gr_slug = ''g'', gr_user = Some 7, gr_description = []\<rparr>],
                    next_key = 2\<rparr>,
      ct_members = \<lparr>rows = [\<lparr>mr_id = 1, mr_group = 1, mr_provider = 1, mr_model = ''old'', mr_all = False, mr_free = False,
                      mr_priority = 0\<rparr>], next_key = 2\<rparr>,
      ct_settings = empty_table, ct_agents = empty_table, ct_keys = []\<rparr>"

lemma demo_catalogue_ok: "bindings_ok demo_catalogue"
  by (simp add: bindings_ok_def tables_ok_def demo_catalogue_def demo_vendor_def builtin_vendor_def wf_table_def
      empty_table_def member_ok_def provider_owners_def group_owners_def)

definition demo_catalogue_env :: catalogue_env where
  "demo_catalogue_env =
     \<lparr>ce_now = 0, ce_seal = (\<lambda>_ _ _. []), ce_open = (\<lambda>_ _ _. None), ce_nonce = None, ce_names = (\<lambda>_. None),
      ce_encode = (\<lambda>_. []), ce_roles = [], ce_catalog = (\<lambda>_ _ _. None), ce_free = (\<lambda>_. None)\<rparr>"

definition demo_entry :: "id \<Rightarrow> string \<Rightarrow> member_request" where
  "demo_entry p m = \<lparr>mq_provider = p, mq_model = m, mq_all = False, mq_free = True\<rparr>"

definition demo_group_request :: "member_request list \<Rightarrow> group_request" where
  "demo_group_request ms = \<lparr>gq_name = ''My Group'', gq_description = [], gq_members = ms\<rparr>"

text \<open>
  User 7 names an own provider and gets the new members; with a provider of user 8 among them the
  request is refused and the members stay, but a new group with such a member is there afterwards,
  although the answer is an error.
\<close>

lemma demo_change:
  "fst (fst (handle demo_catalogue_env (\<lambda>_ _. False) 7
     (Change_Group ''1'' (Some (demo_group_request [demo_entry 1 '' b '', demo_entry 0 ''x'']))) demo_catalogue)) = 200"
  "fst (fst (handle demo_catalogue_env (\<lambda>_ _. False) 7
     (Change_Group ''1'' (Some (demo_group_request [demo_entry 1 ''b'', demo_entry 2 ''c'']))) demo_catalogue)) = 400"
  by code_simp+

lemma refused_group_is_created:
  "(case handle demo_catalogue_env (\<lambda>_ _. False) 7 (New_Group (Some (demo_group_request [demo_entry 2 ''c'']))) demo_catalogue of
      ((status, _), _, s') \<Rightarrow> status = 400 \<and> map gr_slug (rows (ct_groups s')) = [''g'', ''my-group''])"
  by code_simp

definition demo_events :: "catalogue_event list" where
  "demo_events =
     [Request demo_catalogue_env (\<lambda>_ _. False) 7 (Change_Group ''1'' (Some (demo_group_request [demo_entry 1 ''b'']))),
      Seeded (\<lambda>_. False) 9, Discovered (\<lambda>_. False) 1 [''b''],
      Request demo_catalogue_env (\<lambda>_ _. False) 8 (Remove_Group ''1'')]"

theorem bindings_stay_with_their_owners_witness:
  "bindings_ok (fold happens demo_events demo_catalogue) \<and>
   shared_groups_hold_shared (gateway_view (fold happens demo_events demo_catalogue))"
  using bindings_stay_with_their_owners [OF demo_catalogue_ok, of demo_events] by blast

lemma demo_events_happen:
  "map mr_model (members_of 1 (fold happens demo_events demo_catalogue)) = [''b'']"
  "length (rows (ct_providers (fold happens demo_events demo_catalogue))) = 4"
  by code_simp+

definition demo_new_members :: group_request where
  "demo_new_members = demo_group_request [demo_entry 1 '' b '', demo_entry 0 ''x'']"

theorem member_list_replaced_as_a_whole_witness:
  "map choice_of (members_of 1 (snd (snd (handle demo_catalogue_env (\<lambda>_ _. False) 7
     (Change_Group ''1'' (Some demo_new_members)) demo_catalogue)))) = [(1, ''b'', False, True)]"
proof -
  obtain status x ds s' where r: "handle demo_catalogue_env (\<lambda>_ _. False) 7
      (Change_Group ''1'' (Some demo_new_members)) demo_catalogue = ((status, x), ds, s')" by (metis prod.collapse)
  with demo_change(1) have "status = 200" by (simp add: demo_new_members_def)
  with member_list_replaced_as_a_whole [OF r] obtain g :: group_row where
      g: "map_option to_int32 (parse_int 64 ''1'') = Some (gr_id g)"
      "map choice_of (members_of (gr_id g) s') = wanted (gq_members demo_new_members)"
    by (simp only: simp_thms if_True) blast
  have "map_option to_int32 (parse_int 64 ''1'') = Some 1" "wanted (gq_members demo_new_members) = [(1, ''b'', False, True)]"
    by code_simp+
  with g r show ?thesis by simp
qed

end
