(* ===== verification/Event_Hub.thy ===== *)
theory Event_Hub
  imports Prelude "HOL-Library.AList"
begin

text \<open>
  The event hub (\<open>eventhub/hub.go\<close>).  A broadcast takes a snapshot of the clients that may
  receive the event under the hub's lock and then sends to them one by one, without the
  lock; so do the goroutines of other broadcasts, of the clients' pumps and of \<open>Close\<close>.
  The steps below are the pieces that run atomically: taking a snapshot, one channel send,
  one write of a pump (with the frames it finds queued, which the code takes one by one), one
  close.  A delivery in progress is the list of the clients it has
  still to serve.

  A frame is the JSON text of an event; \<open>marshal\<close> stands for \<open>json.Marshal\<close> (None: it
  fails).  A subscriber is its id; that it was called with an event is recorded.
\<close>

section \<open>State\<close>

type_synonym client_id = nat
type_synonym frame = string
type_synonym payload = string

definition send_buffer_size :: nat where
  "send_buffer_size = 1024"

text \<open>\<open>cl_sent\<close> is what the write pump has handed to the connection.\<close>

record client =
  cl_user :: id
  cl_queue :: "frame list"
  cl_sent :: "frame list"
  cl_closed :: bool
  cl_pump :: bool

datatype flight =
    Deliver "client_id list" frame
  | Shutdown "client_id list"

record hub =
  hub_conns :: "client_id \<Rightarrow> client option"
  hub_clients :: "client_id list"
  hub_subscribers :: "string list"
  hub_recipients :: "(id \<Rightarrow> id list option) option"
  hub_done :: bool
  hub_flights :: "flight list"
  hub_notified :: "(string \<times> string \<times> payload) list"

definition new_hub :: hub where
  "new_hub = \<lparr>hub_conns = (\<lambda>_. None), hub_clients = [], hub_subscribers = [],
     hub_recipients = None, hub_done = False, hub_flights = [], hub_notified = []\<rparr>"

section \<open>Operations\<close>

definition subscribe :: "string \<Rightarrow> hub \<Rightarrow> hub" where
  "subscribe i h =
     (if i \<in> set (hub_subscribers h) then h
      else h\<lparr>hub_subscribers := hub_subscribers h @ [i]\<rparr>)"

definition unsubscribe :: "string \<Rightarrow> hub \<Rightarrow> hub" where
  "unsubscribe i h = h\<lparr>hub_subscribers := removeAll i (hub_subscribers h)\<rparr>"

definition set_recipients_resolver :: "(id \<Rightarrow> id list option) \<Rightarrow> hub \<Rightarrow> hub" where
  "set_recipients_resolver f h = h\<lparr>hub_recipients := Some f\<rparr>"

definition client_count :: "hub \<Rightarrow> nat" where
  "client_count h = length (hub_clients h)"

definition serve :: "client_id \<Rightarrow> id \<Rightarrow> hub \<Rightarrow> hub" where
  "serve c user h =
     h\<lparr>hub_conns := (hub_conns h)(c \<mapsto>
          \<lparr>cl_user = user, cl_queue = [], cl_sent = [], cl_closed = False, cl_pump = True\<rparr>),
       hub_clients := hub_clients h @ [c]\<rparr>"

definition close_client :: "client_id \<Rightarrow> hub \<Rightarrow> hub" where
  "close_client c h =
     (case hub_conns h c of
        None \<Rightarrow> h
      | Some x \<Rightarrow>
          if cl_closed x then h
          else h\<lparr>hub_clients := removeAll c (hub_clients h),
                 hub_conns := (hub_conns h)(c \<mapsto> x\<lparr>cl_closed := True\<rparr>)\<rparr>)"

definition notify_subscribers :: "string \<Rightarrow> payload \<Rightarrow> hub \<Rightarrow> hub" where
  "notify_subscribers ty p h =
     h\<lparr>hub_notified := hub_notified h @ map (\<lambda>i. (i, ty, p)) (hub_subscribers h)\<rparr>"

definition send_all :: "frame \<Rightarrow> hub \<Rightarrow> hub" where
  "send_all data h = h\<lparr>hub_flights := hub_flights h @ [Deliver (hub_clients h) data]\<rparr>"

definition user_of :: "hub \<Rightarrow> client_id \<Rightarrow> id option" where
  "user_of h c = map_option cl_user (hub_conns h c)"

definition broadcast_raw_to_users :: "id list \<Rightarrow> frame \<Rightarrow> hub \<Rightarrow> hub" where
  "broadcast_raw_to_users users data h =
     (if length users = 0 then h
      else h\<lparr>hub_flights := hub_flights h @
               [Deliver (filter (\<lambda>c. user_of h c \<in> Some ` set users) (hub_clients h)) data]\<rparr>)"

definition broadcast_event ::
  "(string \<Rightarrow> payload \<Rightarrow> frame option) \<Rightarrow> string \<Rightarrow> payload \<Rightarrow> hub \<Rightarrow> hub" where
  "broadcast_event marshal ty p h =
     (let h = notify_subscribers ty p h
      in case marshal ty p of None \<Rightarrow> h | Some data \<Rightarrow> send_all data h)"

definition broadcast_event_for_company ::
  "(string \<Rightarrow> payload \<Rightarrow> frame option) \<Rightarrow> id \<Rightarrow> string \<Rightarrow> payload \<Rightarrow> hub \<Rightarrow> hub" where
  "broadcast_event_for_company marshal company ty p h =
     (case hub_recipients h of
        None \<Rightarrow> broadcast_event marshal ty p h
      | Some resolve \<Rightarrow>
          (let recipients = (case resolve company of None \<Rightarrow> [] | Some us \<Rightarrow> us);
               h = notify_subscribers ty p h
           in case marshal ty p of
                None \<Rightarrow> h
              | Some data \<Rightarrow> broadcast_raw_to_users recipients data h))"

text \<open>One turn of the loop in \<open>deliver\<close>: a send that would block closes the client.\<close>

definition deliver_one :: "client_id \<Rightarrow> frame \<Rightarrow> hub \<Rightarrow> hub" where
  "deliver_one c data h =
     (case hub_conns h c of
        None \<Rightarrow> h
      | Some x \<Rightarrow>
          if length (cl_queue x) < send_buffer_size
          then h\<lparr>hub_conns := (hub_conns h)(c \<mapsto> x\<lparr>cl_queue := cl_queue x @ [data]\<rparr>)\<rparr>
          else close_client c h)"

definition hub_close :: "hub \<Rightarrow> hub" where
  "hub_close h = h\<lparr>hub_done := True, hub_flights := hub_flights h @ [Shutdown (hub_clients h)]\<rparr>"

text \<open>The write pump: send the next frame, or leave because the client was closed.\<close>

definition pump_write :: "client_id \<Rightarrow> hub \<Rightarrow> hub" where
  "pump_write c h =
     (case hub_conns h c of
        None \<Rightarrow> h
      | Some x \<Rightarrow>
          (case cl_queue x of
             [] \<Rightarrow> h
           | m # q \<Rightarrow>
               h\<lparr>hub_conns := (hub_conns h)(c \<mapsto> x\<lparr>cl_queue := q, cl_sent := cl_sent x @ [m]\<rparr>)\<rparr>))"

definition pump_exit :: "client_id \<Rightarrow> hub \<Rightarrow> hub" where
  "pump_exit c h =
     (let h = close_client c h
      in case hub_conns h c of
           None \<Rightarrow> h
         | Some x \<Rightarrow> h\<lparr>hub_conns := (hub_conns h)(c \<mapsto> x\<lparr>cl_pump := False\<rparr>)\<rparr>)"

definition pop_flight :: "nat \<Rightarrow> hub \<Rightarrow> hub" where
  "pop_flight i h =
     h\<lparr>hub_flights := (hub_flights h)[i := (case hub_flights h ! i of
         Deliver cs m \<Rightarrow> Deliver (tl cs) m
       | Shutdown cs \<Rightarrow> Shutdown (tl cs))]\<rparr>"

section \<open>Steps\<close>

datatype label =
    LSubscribe string
  | LUnsubscribe string
  | LResolver "id \<Rightarrow> id list option"
  | LServe client_id id
  | LEvent string payload
  | LCompanyEvent id string payload
  | LHeartbeat frame
  | LClose
  | LOffer client_id frame
  | LShut client_id
  | LWrite client_id
  | LPumpExit client_id
  | LReadError client_id

text \<open>
  The pump leaves when a write fails, when a ping fails, or when it sees the client closed;
  a failed write has already taken its frame off the queue.  The heartbeat of \<open>Run\<close> stops
  when the hub is closed.
\<close>

inductive hub_step ::
  "(string \<Rightarrow> payload \<Rightarrow> frame option) \<Rightarrow> hub \<Rightarrow> label \<Rightarrow> hub \<Rightarrow> bool"
  for marshal where
  hub_subscribe: "hub_step marshal h (LSubscribe i) (subscribe i h)"
| hub_unsubscribe: "hub_step marshal h (LUnsubscribe i) (unsubscribe i h)"
| hub_resolver: "hub_step marshal h (LResolver f) (set_recipients_resolver f h)"
| hub_serve: "hub_conns h c = None \<Longrightarrow> hub_step marshal h (LServe c u) (serve c u h)"
| hub_event: "hub_step marshal h (LEvent ty p) (broadcast_event marshal ty p h)"
| hub_company: "hub_step marshal h (LCompanyEvent co ty p) (broadcast_event_for_company marshal co ty p h)"
| hub_heartbeat: "\<not> hub_done h \<Longrightarrow> hub_step marshal h (LHeartbeat d) (send_all d h)"
| hub_close: "hub_step marshal h LClose (hub_close h)"
| hub_offer: "i < length (hub_flights h) \<Longrightarrow> hub_flights h ! i = Deliver (c # cs) m \<Longrightarrow>
    hub_step marshal h (LOffer c m) (deliver_one c m (pop_flight i h))"
| hub_shut: "i < length (hub_flights h) \<Longrightarrow> hub_flights h ! i = Shutdown (c # cs) \<Longrightarrow>
    hub_step marshal h (LShut c) (close_client c (pop_flight i h))"
| hub_write: "hub_conns h c = Some x \<Longrightarrow> cl_pump x \<Longrightarrow> cl_queue x \<noteq> [] \<Longrightarrow>
    hub_step marshal h (LWrite c) (pump_write c h)"
| hub_write_fails: "hub_conns h c = Some x \<Longrightarrow> cl_pump x \<Longrightarrow> cl_queue x = m # q \<Longrightarrow>
    hub_step marshal h (LPumpExit c)
      (pump_exit c (h\<lparr>hub_conns := (hub_conns h)(c \<mapsto> x\<lparr>cl_queue := q\<rparr>)\<rparr>))"
| hub_pump_exit: "hub_conns h c = Some x \<Longrightarrow> cl_pump x \<Longrightarrow>
    hub_step marshal h (LPumpExit c) (pump_exit c h)"
| hub_read_error: "hub_conns h c = Some x \<Longrightarrow> hub_step marshal h (LReadError c) (close_client c h)"

inductive_cases hub_step_serve: "hub_step marshal h (LServe c u) h'"
inductive_cases hub_step_write: "hub_step marshal h (LWrite c) h'"

inductive hub_steps ::
  "(string \<Rightarrow> payload \<Rightarrow> frame option) \<Rightarrow> hub \<Rightarrow> label list \<Rightarrow> hub \<Rightarrow> bool"
  for marshal where
  hub_none: "hub_steps marshal h [] h"
| hub_more: "hub_steps marshal h tr h1 \<Longrightarrow> hub_step marshal h1 l h2 \<Longrightarrow> hub_steps marshal h (tr @ [l]) h2"

inductive_cases hub_steps_snoc: "hub_steps marshal h (tr @ [l]) h'"

section \<open>What a step does to one client\<close>

text \<open>
  The frames offered to a client in a history, and the frames that reached its queue or its
  connection.
\<close>

fun offers :: "client_id \<Rightarrow> label list \<Rightarrow> frame list" where
  "offers c [] = []"
| "offers c (LOffer d m # tr) = (if c = d then m # offers c tr else offers c tr)"
| "offers c (_ # tr) = offers c tr"

lemma offers_append [simp]: "offers c (tr @ tr') = offers c tr @ offers c tr'"
  by (induction c tr rule: offers.induct) auto

definition received :: "client \<Rightarrow> frame list" where
  "received x = cl_sent x @ cl_queue x"

lemmas hub_op_defs = subscribe_def unsubscribe_def set_recipients_resolver_def serve_def
  broadcast_event_def broadcast_event_for_company_def notify_subscribers_def send_all_def
  broadcast_raw_to_users_def hub_close_def pop_flight_def

lemma hub_conns_quiet [simp]:
  "hub_conns (subscribe i h) = hub_conns h" "hub_conns (unsubscribe i h) = hub_conns h"
  "hub_conns (set_recipients_resolver f h) = hub_conns h"
  "hub_conns (notify_subscribers ty p h) = hub_conns h"
  "hub_conns (send_all d h) = hub_conns h"
  "hub_conns (broadcast_raw_to_users us d h) = hub_conns h"
  "hub_conns (broadcast_event marshal ty p h) = hub_conns h"
  "hub_conns (broadcast_event_for_company marshal co ty p h) = hub_conns h"
  "hub_conns (hub_close h) = hub_conns h" "hub_conns (pop_flight n h) = hub_conns h"
  by (simp_all add: hub_op_defs Let_def split: option.splits)

lemma hub_clients_quiet [simp]:
  "hub_clients (subscribe i h) = hub_clients h" "hub_clients (unsubscribe i h) = hub_clients h"
  "hub_clients (set_recipients_resolver f h) = hub_clients h"
  "hub_clients (notify_subscribers ty p h) = hub_clients h"
  "hub_clients (send_all d h) = hub_clients h"
  "hub_clients (broadcast_raw_to_users us d h) = hub_clients h"
  "hub_clients (broadcast_event marshal ty p h) = hub_clients h"
  "hub_clients (broadcast_event_for_company marshal co ty p h) = hub_clients h"
  "hub_clients (hub_close h) = hub_clients h" "hub_clients (pop_flight n h) = hub_clients h"
  by (simp_all add: hub_op_defs Let_def split: option.splits)

lemma hub_conns_close:
  "hub_conns (close_client c h) =
   (hub_conns h)(c := map_option (\<lambda>x. x\<lparr>cl_closed := True\<rparr>) (hub_conns h c))"
  by (auto simp: close_client_def fun_eq_iff split: option.splits)

lemma hub_clients_close:
  "set (hub_clients (close_client c h)) =
   (if (\<exists>x. hub_conns h c = Some x \<and> \<not> cl_closed x)
    then set (hub_clients h) - {c} else set (hub_clients h))"
  by (auto simp: close_client_def split: option.splits)

lemma deliver_one_room:
  assumes "hub_conns h c = Some x" and "length (cl_queue x) < send_buffer_size"
  shows "hub_conns (deliver_one c m h) = (hub_conns h)(c \<mapsto> x\<lparr>cl_queue := cl_queue x @ [m]\<rparr>)"
    and "hub_clients (deliver_one c m h) = hub_clients h"
  using assms by (simp_all add: deliver_one_def)

lemma deliver_one_full:
  assumes "hub_conns h c = Some x" and "\<not> length (cl_queue x) < send_buffer_size"
  shows "deliver_one c m h = close_client c h"
  using assms by (simp add: deliver_one_def)

lemma pump_write_next:
  assumes "hub_conns h c = Some x" and "cl_queue x = m # q"
  shows "hub_conns (pump_write c h) =
         (hub_conns h)(c \<mapsto> x\<lparr>cl_queue := q, cl_sent := cl_sent x @ [m]\<rparr>)"
    and "hub_clients (pump_write c h) = hub_clients h"
  using assms by (simp_all add: pump_write_def)

text \<open>Closing twice is closing once.\<close>

lemma close_client_idem [simp]: "close_client c (close_client c h) = close_client c h"
  by (simp add: close_client_def split: option.splits)

lemma hub_flights_quiet [simp]:
  "hub_flights (close_client c h) = hub_flights h" "hub_flights (deliver_one c m h) = hub_flights h"
  "hub_flights (pump_write c h) = hub_flights h" "hub_flights (pump_exit c h) = hub_flights h"
  "hub_flights (serve c u h) = hub_flights h" "hub_flights (subscribe i h) = hub_flights h"
  "hub_flights (unsubscribe i h) = hub_flights h"
  "hub_flights (set_recipients_resolver f h) = hub_flights h"
  "hub_flights (notify_subscribers ty p h) = hub_flights h"
  by (simp_all add: close_client_def deliver_one_def pump_write_def pump_exit_def hub_op_defs
      Let_def split: option.splits list.splits)

section \<open>The invariant\<close>

text \<open>
  The registered clients are the open ones; the queue of a client is bounded; and an open
  client has every frame it was offered, in order, in its connection or its queue.
\<close>

definition hub_inv :: "label list \<Rightarrow> hub \<Rightarrow> bool" where
  "hub_inv tr h \<longleftrightarrow>
     (\<forall>c. c \<in> set (hub_clients h) \<longleftrightarrow> (\<exists>x. hub_conns h c = Some x \<and> \<not> cl_closed x)) \<and>
     (\<forall>c x. hub_conns h c = Some x \<longrightarrow> length (cl_queue x) \<le> send_buffer_size) \<and>
     (\<forall>c x. hub_conns h c = Some x \<longrightarrow> \<not> cl_closed x \<longrightarrow> received x = offers c tr) \<and>
     (\<forall>c. hub_conns h c = None \<longrightarrow> offers c tr = []) \<and>
     (\<forall>cs m. Deliver cs m \<in> set (hub_flights h) \<longrightarrow> (\<forall>c \<in> set cs. hub_conns h c \<noteq> None))"

lemma hub_inv_new: "hub_inv [] new_hub"
  by (simp add: hub_inv_def new_hub_def)

text \<open>A change of one client that keeps the rest: what has to be shown of it.\<close>

lemma hub_inv_change:
  assumes "hub_inv tr h" and "hub_conns h c = Some x"
    and "hub_conns h' = (hub_conns h)(c \<mapsto> y)"
    and "set (hub_clients h') =
           (if cl_closed y then set (hub_clients h) - {c} else set (hub_clients h))"
    and "cl_closed x \<Longrightarrow> cl_closed y"
    and "length (cl_queue y) \<le> send_buffer_size"
    and "\<not> cl_closed y \<Longrightarrow> received x = offers c tr \<Longrightarrow> received y = offers c (tr @ [l])"
    and "\<And>d. d \<noteq> c \<Longrightarrow> offers d [l] = []"
    and "\<And>cs m. Deliver cs m \<in> set (hub_flights h') \<Longrightarrow>
           \<exists>cs'. Deliver cs' m \<in> set (hub_flights h) \<and> set cs \<subseteq> set cs'"
  shows "hub_inv (tr @ [l]) h'"
proof -
  have reg: "c \<in> set (hub_clients h) \<longleftrightarrow> \<not> cl_closed x" using assms(1,2) by (simp add: hub_inv_def)
  have "\<forall>d. d \<in> set (hub_clients h') \<longleftrightarrow> (\<exists>x. hub_conns h' d = Some x \<and> \<not> cl_closed x)"
    using assms(1,5) reg unfolding assms(3,4) by (auto simp: hub_inv_def)
  moreover have "\<forall>d z. hub_conns h' d = Some z \<longrightarrow> length (cl_queue z) \<le> send_buffer_size"
    using assms(1,6) unfolding assms(3) by (simp add: hub_inv_def)
  moreover have "\<forall>d z. hub_conns h' d = Some z \<longrightarrow> \<not> cl_closed z \<longrightarrow> received z = offers d (tr @ [l])"
  proof (intro allI impI)
    fix d z
    assume z: "hub_conns h' d = Some z" "\<not> cl_closed z"
    have "\<not> cl_closed x \<Longrightarrow> received x = offers c tr" using assms(1,2) by (simp add: hub_inv_def)
    then have "\<not> cl_closed y \<Longrightarrow> received y = offers c (tr @ [l])" using assms(5,7) by blast
    then show "received z = offers d (tr @ [l])"
      using z assms(1,8) unfolding assms(3) by (auto simp: hub_inv_def split: if_splits)
  qed
  moreover have "\<forall>d. hub_conns h' d = None \<longrightarrow> offers d (tr @ [l]) = []"
    using assms(1,8) unfolding assms(3) by (auto simp: hub_inv_def)
  moreover have "\<forall>cs m. Deliver cs m \<in> set (hub_flights h') \<longrightarrow> (\<forall>c \<in> set cs. hub_conns h' c \<noteq> None)"
  proof (intro allI impI ballI)
    fix cs m d
    assume "Deliver cs m \<in> set (hub_flights h')" "d \<in> set cs"
    then obtain cs' where "Deliver cs' m \<in> set (hub_flights h)" "d \<in> set cs'"
      using assms(9) by blast
    then have "hub_conns h d \<noteq> None" using assms(1) unfolding hub_inv_def by blast
    then show "hub_conns h' d \<noteq> None" unfolding assms(3) by simp
  qed
  ultimately show ?thesis by (simp add: hub_inv_def)
qed

lemma hub_inv_quiet:
  assumes "hub_inv tr h" and "hub_conns h' = hub_conns h" and "hub_clients h' = hub_clients h"
    and "\<And>d. offers d [l] = []"
    and "\<And>cs m. Deliver cs m \<in> set (hub_flights h') \<Longrightarrow>
           (\<exists>cs'. Deliver cs' m \<in> set (hub_flights h) \<and> set cs \<subseteq> set cs') \<or>
           set cs \<subseteq> set (hub_clients h)"
  shows "hub_inv (tr @ [l]) h'"
proof -
  have "hub_conns h c \<noteq> None" if "Deliver cs m \<in> set (hub_flights h')" "c \<in> set cs" for cs m c
    using assms(5) [OF that(1)] assms(1) that(2) unfolding hub_inv_def by blast
  then show ?thesis using assms(1-4) unfolding hub_inv_def by (simp add: assms(2-4))
qed

lemma hub_inv_close:
  assumes "hub_inv tr h" and "hub_conns h c = Some x"
    and "\<And>d. d \<noteq> c \<Longrightarrow> offers d [l] = []"
    and fl: "\<And>cs m. Deliver cs m \<in> set (hub_flights h') \<Longrightarrow>
           \<exists>cs'. Deliver cs' m \<in> set (hub_flights h) \<and> set cs \<subseteq> set cs'"
    and h': "hub_conns h' = hub_conns h" "hub_clients h' = hub_clients h"
  shows "hub_inv (tr @ [l]) (close_client c h')"
proof (rule hub_inv_change [OF assms(1,2), where y = "x\<lparr>cl_closed := True\<rparr>"])
  have "c \<in> set (hub_clients h) \<longleftrightarrow> \<not> cl_closed x"
    using assms(1,2) by (simp add: hub_inv_def)
  then show "set (hub_clients (close_client c h')) =
      (if cl_closed (x\<lparr>cl_closed := True\<rparr>) then set (hub_clients h) - {c} else set (hub_clients h))"
    using assms(2) by (auto simp: hub_clients_close h')
  show "length (cl_queue (x\<lparr>cl_closed := True\<rparr>)) \<le> send_buffer_size"
    using assms(1,2) by (simp add: hub_inv_def)
qed (use assms in \<open>simp_all add: hub_conns_close h'\<close>)

lemma pop_flight_flights:
  assumes "i < length (hub_flights h)" and "Deliver cs m \<in> set (hub_flights (pop_flight i h))"
  shows "\<exists>cs'. Deliver cs' m \<in> set (hub_flights h) \<and> set cs \<subseteq> set cs'"
proof -
  have "Deliver cs m \<in> set (hub_flights h) \<or>
        (\<exists>cs'. hub_flights h ! i = Deliver cs' m \<and> cs = tl cs')"
    using assms(2) set_update_subset_insert
    by (fastforce simp: pop_flight_def split: flight.splits)
  then show ?thesis
    using assms(1) by (metis list.set_sel(2) nth_mem subset_code(1) tl_Nil)
qed

lemma pump_exit_eq:
  "hub_conns h c = Some x \<Longrightarrow>
   hub_conns (pump_exit c h) = (hub_conns h)(c \<mapsto> x\<lparr>cl_closed := True, cl_pump := False\<rparr>)"
  by (auto simp: pump_exit_def Let_def hub_conns_close fun_eq_iff)

lemma hub_clients_pump_exit: "hub_clients (pump_exit c h) = hub_clients (close_client c h)"
  by (simp add: pump_exit_def Let_def split: option.splits)

lemma hub_inv_exit:
  assumes "hub_inv tr h" and "hub_conns h c = Some x" and "\<And>d. offers d [l] = []"
    and "hub_conns h' = (hub_conns h)(c \<mapsto> x\<lparr>cl_queue := q\<rparr>)" "hub_clients h' = hub_clients h"
    and "hub_flights h' = hub_flights h" and "length q \<le> length (cl_queue x)"
  shows "hub_inv (tr @ [l]) (pump_exit c h')"
proof (rule hub_inv_change [OF assms(1,2),
      where y = "x\<lparr>cl_queue := q, cl_closed := True, cl_pump := False\<rparr>"])
  let ?y = "x\<lparr>cl_queue := q, cl_closed := True, cl_pump := False\<rparr>"
  have c': "hub_conns h' c = Some (x\<lparr>cl_queue := q\<rparr>)" by (simp add: assms(4))
  then show "hub_conns (pump_exit c h') = (hub_conns h)(c \<mapsto> ?y)"
    by (simp add: pump_exit_eq assms(4))
  have "c \<in> set (hub_clients h) \<longleftrightarrow> \<not> cl_closed x" using assms(1,2) by (simp add: hub_inv_def)
  then show "set (hub_clients (pump_exit c h')) =
      (if cl_closed ?y then set (hub_clients h) - {c} else set (hub_clients h))"
    using c' by (auto simp: hub_clients_pump_exit hub_clients_close assms(5))
  show "length (cl_queue ?y) \<le> send_buffer_size"
    using assms(1,2,7) by (simp add: hub_inv_def) (meson order_trans)
qed (use assms in auto)

lemma hub_inv_step:
  assumes "hub_inv tr h" and "hub_step marshal h l h'"
  shows "hub_inv (tr @ [l]) h'"
  using assms(2)
proof cases
  case (hub_serve c u)
  have "offers c tr = []" using assms(1) hub_serve(3) by (simp add: hub_inv_def)
  moreover have "\<And>cs m. Deliver cs m \<in> set (hub_flights h) \<Longrightarrow> c \<notin> set cs"
    using assms(1) hub_serve(3) unfolding hub_inv_def by blast
  ultimately show ?thesis
    using assms(1) hub_serve by (auto simp: hub_inv_def serve_def received_def)
next
  case (hub_offer i c cs m)
  have fl: "Deliver (c # cs) m \<in> set (hub_flights h)" using hub_offer(3,4) by (metis nth_mem)
  then obtain x where x: "hub_conns h c = Some x"
    using assms(1) unfolding hub_inv_def by fastforce
  note pop = pop_flight_flights [OF hub_offer(3)]
  show ?thesis
  proof (cases "length (cl_queue x) < send_buffer_size")
    case True
    show ?thesis unfolding hub_offer(1,2)
    proof (rule hub_inv_change [OF assms(1) x, where y = "x\<lparr>cl_queue := cl_queue x @ [m]\<rparr>"])
      show "set (hub_clients (deliver_one c m (pop_flight i h))) =
          (if cl_closed (x\<lparr>cl_queue := cl_queue x @ [m]\<rparr>) then set (hub_clients h) - {c}
           else set (hub_clients h))"
        using assms(1) x True by (auto simp: deliver_one_def hub_inv_def)
    qed (use x True pop in \<open>auto simp: deliver_one_def received_def\<close>)
  next
    case False
    then have "deliver_one c m (pop_flight i h) = close_client c (pop_flight i h)"
      using x by (simp add: deliver_one_def)
    then show ?thesis
      unfolding hub_offer(1,2) using pop by (simp add: hub_inv_close [OF assms(1) x])
  qed
next
  case (hub_shut i c cs)
  note pop = pop_flight_flights [OF hub_shut(3)]
  show ?thesis
  proof (cases "hub_conns h c")
    case None
    then have "close_client c (pop_flight i h) = pop_flight i h" by (simp add: close_client_def)
    then show ?thesis
      unfolding hub_shut(1,2) using pop by (intro hub_inv_quiet [OF assms(1)]) auto
  next
    case (Some x)
    then show ?thesis
      unfolding hub_shut(1,2) using pop by (intro hub_inv_close [OF assms(1) Some]) auto
  qed
next
  case (hub_write c x)
  then obtain m q where q: "cl_queue x = m # q" by (cases "cl_queue x") auto
  show ?thesis unfolding hub_write(1,2)
  proof (rule hub_inv_change [OF assms(1) hub_write(3),
        where y = "x\<lparr>cl_queue := q, cl_sent := cl_sent x @ [m]\<rparr>"])
    show "set (hub_clients (pump_write c h)) =
        (if cl_closed (x\<lparr>cl_queue := q, cl_sent := cl_sent x @ [m]\<rparr>)
         then set (hub_clients h) - {c} else set (hub_clients h))"
      using assms(1) hub_write(3) q by (auto simp: pump_write_def hub_inv_def)
    have "length (cl_queue x) \<le> send_buffer_size"
      using assms(1) hub_write(3) by (simp add: hub_inv_def)
    then show "length (cl_queue (x\<lparr>cl_queue := q, cl_sent := cl_sent x @ [m]\<rparr>)) \<le> send_buffer_size"
      using q by simp
  qed (use hub_write(3) q in \<open>auto simp: pump_write_def received_def\<close>)
next
  case (hub_write_fails c x m q)
  show ?thesis unfolding hub_write_fails(1,2)
    by (rule hub_inv_exit [OF assms(1) hub_write_fails(3), where q = q])
      (simp_all add: hub_write_fails(5))
next
  case (hub_pump_exit c x)
  show ?thesis unfolding hub_pump_exit(1,2)
    by (rule hub_inv_exit [OF assms(1) hub_pump_exit(3), where q = "cl_queue x"])
      (simp_all add: hub_pump_exit(3) fun_upd_idem)
next
  case (hub_read_error c x)
  show ?thesis unfolding hub_read_error(1,2)
    by (rule hub_inv_close [OF assms(1) hub_read_error(3)]) auto
next
  case (hub_event ty p)
  then show ?thesis
    by (intro hub_inv_quiet [OF assms(1)])
      (auto simp: broadcast_event_def Let_def send_all_def notify_subscribers_def split: option.splits)
next
  case (hub_company co ty p)
  then show ?thesis
    by (intro hub_inv_quiet [OF assms(1)])
      (auto simp: broadcast_event_for_company_def broadcast_event_def Let_def send_all_def
        notify_subscribers_def broadcast_raw_to_users_def split: option.splits if_splits)
qed (intro hub_inv_quiet [OF assms(1)]; auto simp: send_all_def hub_close_def)+

lemma hub_inv_steps: "hub_steps marshal h tr h' \<Longrightarrow> hub_inv [] h \<Longrightarrow> hub_inv tr h'"
  by (induction rule: hub_steps.induct) (auto intro: hub_inv_step)

section \<open>Who an event is addressed to\<close>

text \<open>The resolver in force after a history, and the users a step addresses a frame to.\<close>

fun resolver_after :: "label list \<Rightarrow> (id \<Rightarrow> id list option) option \<Rightarrow> (id \<Rightarrow> id list option) option" where
  "resolver_after [] r = r"
| "resolver_after (LResolver f # tr) r = resolver_after tr (Some f)"
| "resolver_after (_ # tr) r = resolver_after tr r"

lemma resolver_after_append [simp]:
  "resolver_after (tr @ tr') r = resolver_after tr' (resolver_after tr r)"
  by (induction tr r rule: resolver_after.induct) auto

fun addressed ::
  "(string \<Rightarrow> payload \<Rightarrow> frame option) \<Rightarrow> (id \<Rightarrow> id list option) option \<Rightarrow> label \<Rightarrow> id \<Rightarrow> frame \<Rightarrow> bool"
where
  "addressed marshal r (LEvent ty p) u m \<longleftrightarrow> marshal ty p = Some m"
| "addressed marshal r (LHeartbeat d) u m \<longleftrightarrow> d = m"
| "addressed marshal r (LCompanyEvent co ty p) u m \<longleftrightarrow>
     marshal ty p = Some m \<and>
     (case r of
        None \<Rightarrow> True
      | Some f \<Rightarrow> (case f co of None \<Rightarrow> False | Some us \<Rightarrow> u \<in> set us))"
| "addressed marshal r _ u m \<longleftrightarrow> False"

definition addressed_in ::
  "(string \<Rightarrow> payload \<Rightarrow> frame option) \<Rightarrow> label list \<Rightarrow> id \<Rightarrow> frame \<Rightarrow> bool" where
  "addressed_in marshal tr u m \<longleftrightarrow>
     (\<exists>pre l post. tr = pre @ l # post \<and> addressed marshal (resolver_after pre None) l u m)"

lemma addressed_in_more: "addressed_in marshal tr u m \<Longrightarrow> addressed_in marshal (tr @ [l]) u m"
  unfolding addressed_in_def by (metis append_Cons append_assoc)

lemma addressed_in_now:
  "addressed marshal (resolver_after tr None) l u m \<Longrightarrow> addressed_in marshal (tr @ [l]) u m"
  unfolding addressed_in_def by blast

definition audience_inv :: "(string \<Rightarrow> payload \<Rightarrow> frame option) \<Rightarrow> label list \<Rightarrow> hub \<Rightarrow> bool" where
  "audience_inv marshal tr h \<longleftrightarrow>
     hub_recipients h = resolver_after tr None \<and>
     (\<forall>c x. hub_conns h c = Some x \<longrightarrow>
        (\<forall>m \<in> set (received x). addressed_in marshal tr (cl_user x) m)) \<and>
     (\<forall>cs m c x. Deliver cs m \<in> set (hub_flights h) \<longrightarrow> c \<in> set cs \<longrightarrow>
        hub_conns h c = Some x \<longrightarrow> addressed_in marshal tr (cl_user x) m)"

lemma audience_inv_new: "audience_inv marshal [] new_hub"
  by (simp add: audience_inv_def new_hub_def)

lemma hub_recipients_quiet [simp]:
  "hub_recipients (close_client c h) = hub_recipients h"
  "hub_recipients (deliver_one c m h) = hub_recipients h"
  "hub_recipients (pump_write c h) = hub_recipients h"
  "hub_recipients (pump_exit c h) = hub_recipients h"
  "hub_recipients (serve c u h) = hub_recipients h" "hub_recipients (subscribe i h) = hub_recipients h"
  "hub_recipients (unsubscribe i h) = hub_recipients h"
  "hub_recipients (notify_subscribers ty p h) = hub_recipients h"
  "hub_recipients (send_all d h) = hub_recipients h"
  "hub_recipients (broadcast_raw_to_users us d h) = hub_recipients h"
  "hub_recipients (broadcast_event marshal ty p h) = hub_recipients h"
  "hub_recipients (broadcast_event_for_company marshal co ty p h) = hub_recipients h"
  "hub_recipients (hub_close h) = hub_recipients h"
  "hub_recipients (pop_flight n h) = hub_recipients h"
  by (simp_all add: close_client_def deliver_one_def pump_write_def pump_exit_def hub_op_defs
      Let_def split: option.splits list.splits)

text \<open>
  A step keeps the audience when no client gains a frame that was not in flight to it or
  already received, and every new flight goes to clients the step addresses.
\<close>

lemma audience_step:
  assumes "audience_inv marshal tr h" and "hub_recipients h' = resolver_after (tr @ [l]) None"
    and conns: "\<And>c y m. hub_conns h' c = Some y \<Longrightarrow> m \<in> set (received y) \<Longrightarrow>
      \<exists>x. hub_conns h c = Some x \<and> cl_user x = cl_user y \<and>
        (m \<in> set (received x) \<or> (\<exists>cs. Deliver cs m \<in> set (hub_flights h) \<and> c \<in> set cs))"
    and flights: "\<And>cs m c y. Deliver cs m \<in> set (hub_flights h') \<Longrightarrow> c \<in> set cs \<Longrightarrow>
      hub_conns h' c = Some y \<Longrightarrow>
      (\<exists>x cs'. hub_conns h c = Some x \<and> cl_user x = cl_user y \<and>
         Deliver cs' m \<in> set (hub_flights h) \<and> c \<in> set cs') \<or>
      addressed marshal (resolver_after tr None) l (cl_user y) m"
  shows "audience_inv marshal (tr @ [l]) h'"
proof -
  have "addressed_in marshal (tr @ [l]) (cl_user y) m"
    if y: "hub_conns h' c = Some y" "m \<in> set (received y)" for c y m
  proof -
    from conns [OF y] obtain x where x: "hub_conns h c = Some x" "cl_user x = cl_user y"
      "m \<in> set (received x) \<or> (\<exists>cs. Deliver cs m \<in> set (hub_flights h) \<and> c \<in> set cs)" by blast
    then have "addressed_in marshal tr (cl_user x) m"
      using assms(1) unfolding audience_inv_def by blast
    then show ?thesis using x(2) addressed_in_more by simp
  qed
  moreover have "addressed_in marshal (tr @ [l]) (cl_user y) m"
    if y: "Deliver cs m \<in> set (hub_flights h')" "c \<in> set cs" "hub_conns h' c = Some y" for cs m c y
    using flights [OF y]
  proof (elim disjE exE conjE)
    fix x cs'
    assume x: "hub_conns h c = Some x" "cl_user x = cl_user y"
      "Deliver cs' m \<in> set (hub_flights h)" "c \<in> set cs'"
    then have "addressed_in marshal tr (cl_user x) m"
      using assms(1) unfolding audience_inv_def by blast
    then show ?thesis using x(2) addressed_in_more by simp
  qed (rule addressed_in_now)
  ultimately show ?thesis using assms(2) by (simp add: audience_inv_def)
qed

text \<open>Steps that only take frames off queues, close clients or advance flights.\<close>

lemma audience_shrink:
  assumes "audience_inv marshal tr h" and "hub_recipients h' = hub_recipients h"
    and "resolver_after (tr @ [l]) None = resolver_after tr None"
    and "\<And>c y. hub_conns h' c = Some y \<Longrightarrow>
      \<exists>x. hub_conns h c = Some x \<and> cl_user x = cl_user y \<and> set (received y) \<subseteq> set (received x)"
    and "\<And>cs m. Deliver cs m \<in> set (hub_flights h') \<Longrightarrow>
           \<exists>cs'. Deliver cs' m \<in> set (hub_flights h) \<and> set cs \<subseteq> set cs'"
  shows "audience_inv marshal (tr @ [l]) h'"
proof (rule audience_step [OF assms(1)])
  show "hub_recipients h' = resolver_after (tr @ [l]) None"
    using assms(1,2,3) by (simp add: audience_inv_def)
qed (use assms(4,5) in blast)+

lemma close_client_conns:
  "hub_conns (close_client c h) d = Some y \<Longrightarrow>
   \<exists>x. hub_conns h d = Some x \<and> cl_user x = cl_user y \<and> received y = received x"
  by (auto simp: hub_conns_close received_def split: if_splits)

lemma pump_exit_conns:
  "hub_conns (pump_exit c h) d = Some y \<Longrightarrow>
   \<exists>x. hub_conns h d = Some x \<and> cl_user x = cl_user y \<and> received y = received x"
  by (auto simp: pump_exit_def Let_def hub_conns_close received_def split: if_splits option.splits)

lemma addressed_users:
  assumes "hub_inv tr h" and "c \<in> set (hub_clients h)" and "user_of h c \<in> Some ` set us"
    and "hub_conns h c = Some y"
  shows "cl_user y \<in> set us"
  using assms(3,4) by (auto simp: user_of_def)

lemma audience_inv_step:
  assumes "audience_inv marshal tr h" and "hub_inv tr h" and "hub_step marshal h l h'"
  shows "audience_inv marshal (tr @ [l]) h'"
  using assms(3)
proof cases
  case (hub_serve c u)
  have "\<And>cs m. Deliver cs m \<in> set (hub_flights h) \<Longrightarrow> c \<notin> set cs"
    using assms(2) hub_serve(3) unfolding hub_inv_def by blast
  then show ?thesis
    unfolding hub_serve(1,2) using assms(1)
    by (intro audience_step [OF assms(1)])
      (auto simp: serve_def received_def audience_inv_def split: if_splits)
next
  case (hub_offer i c cs m)
  note pop = pop_flight_flights [OF hub_offer(3)]
  have fl: "Deliver (c # cs) m \<in> set (hub_flights h)" using hub_offer(3,4) by (metis nth_mem)
  show ?thesis unfolding hub_offer(1,2)
  proof (rule audience_step [OF assms(1)])
    fix d y n
    assume "hub_conns (deliver_one c m (pop_flight i h)) d = Some y" and n: "n \<in> set (received y)"
    then consider x where "hub_conns h d = Some x" "cl_user x = cl_user y" "received y = received x"
      | x where "d = c" "hub_conns h c = Some x" "y = x\<lparr>cl_queue := cl_queue x @ [m]\<rparr>"
      by (auto simp: deliver_one_def dest: close_client_conns split: option.splits if_splits)
    then show "\<exists>x. hub_conns h d = Some x \<and> cl_user x = cl_user y \<and>
        (n \<in> set (received x) \<or> (\<exists>cs. Deliver cs n \<in> set (hub_flights h) \<and> d \<in> set cs))"
    proof cases
      case 2
      then have "n \<in> set (received x) \<or> n = m" using n by (auto simp: received_def)
      then show ?thesis using 2 fl by fastforce
    qed (use n in simp)
  next
    fix cs' n d y
    assume f: "Deliver cs' n \<in> set (hub_flights (deliver_one c m (pop_flight i h)))" "d \<in> set cs'"
      and y: "hub_conns (deliver_one c m (pop_flight i h)) d = Some y"
    from f(1) pop obtain cs'' where "Deliver cs'' n \<in> set (hub_flights h)" "set cs' \<subseteq> set cs''"
      by fastforce
    moreover have "\<exists>x. hub_conns h d = Some x \<and> cl_user x = cl_user y"
      using y by (auto simp: deliver_one_def dest: close_client_conns split: option.splits if_splits)
    ultimately show "(\<exists>x cs'. hub_conns h d = Some x \<and> cl_user x = cl_user y \<and>
         Deliver cs' n \<in> set (hub_flights h) \<and> d \<in> set cs') \<or>
      addressed marshal (resolver_after tr None) (LOffer c m) (cl_user y) n"
      using f(2) by blast
  qed (use assms(1) in \<open>simp add: audience_inv_def\<close>)
next
  case (hub_shut i c cs)
  note pop = pop_flight_flights [OF hub_shut(3)]
  show ?thesis unfolding hub_shut(1,2)
    by (rule audience_shrink [OF assms(1)])
      (use pop in \<open>auto dest!: close_client_conns simp: pop_flight_def\<close>)
next
  case (hub_write c x)
  then show ?thesis
    by (intro audience_shrink [OF assms(1)])
      (auto simp: pump_write_def received_def split: list.splits if_splits)
next
  case (hub_write_fails c x m q)
  show ?thesis unfolding hub_write_fails(1,2)
  proof (rule audience_shrink [OF assms(1)])
    let ?h = "h\<lparr>hub_conns := (hub_conns h)(c \<mapsto> x\<lparr>cl_queue := q\<rparr>)\<rparr>"
    fix d y
    assume "hub_conns (pump_exit c ?h) d = Some y"
    then obtain z where z: "hub_conns ?h d = Some z" "cl_user z = cl_user y" "received y = received z"
      using pump_exit_conns by blast
    then show "\<exists>x. hub_conns h d = Some x \<and> cl_user x = cl_user y \<and>
        set (received y) \<subseteq> set (received x)"
      unfolding z(3) using hub_write_fails(3,5)
      by (cases "d = c") (fastforce simp: received_def)+
  qed (auto simp: resolver_after.simps)
next
  case (hub_pump_exit c x)
  then show ?thesis
    by (intro audience_shrink [OF assms(1)]) (auto dest!: pump_exit_conns)
next
  case (hub_read_error c x)
  then show ?thesis
    by (intro audience_shrink [OF assms(1)]) (auto dest!: close_client_conns)
next
  case (hub_event ty p)
  show ?thesis unfolding hub_event
    by (rule audience_step [OF assms(1)])
      (use assms(1) in \<open>auto simp: audience_inv_def broadcast_event_def Let_def send_all_def
        split: option.splits\<close>)
next
  case (hub_company co ty p)
  have r: "hub_recipients h = resolver_after tr None" using assms(1) by (simp add: audience_inv_def)
  show ?thesis unfolding hub_company
    by (rule audience_step [OF assms(1)])
      (auto simp: r broadcast_event_for_company_def broadcast_event_def Let_def send_all_def
        broadcast_raw_to_users_def user_of_def split: option.splits if_splits)
next
  case (hub_heartbeat d)
  then show ?thesis
    by (intro audience_step [OF assms(1)])
      (use assms(1) in \<open>auto simp: audience_inv_def send_all_def\<close>)
next
  case (hub_resolver f)
  then show ?thesis
    by (intro audience_step [OF assms(1)]) (auto simp: set_recipients_resolver_def)
qed (intro audience_shrink [OF assms(1)]; auto simp: hub_close_def)+

lemma audience_inv_steps:
  "hub_steps marshal h tr h' \<Longrightarrow> hub_inv [] h \<Longrightarrow> audience_inv marshal [] h \<Longrightarrow>
   audience_inv marshal tr h'"
  by (induction rule: hub_steps.induct) (auto intro: audience_inv_step hub_inv_steps)

section \<open>A run\<close>

definition demo_marshal :: "string \<Rightarrow> payload \<Rightarrow> frame option" where
  "demo_marshal ty p = Some (ty @ p)"

definition demo_trace :: "label list" where
  "demo_trace = [LResolver (\<lambda>co. if co = 1 then Some [7] else None), LServe 0 7, LServe 2 8,
     LCompanyEvent 1 ''t'' ''p'', LCompanyEvent 2 ''t'' ''q'', LOffer 0 ''tp'', LWrite 0]"

lemma demo_run:
  "\<exists>h. hub_steps demo_marshal new_hub demo_trace h \<and>
       (\<exists>x. hub_conns h 0 = Some x \<and> cl_user x = 7 \<and> cl_sent x = [''tp''] \<and> cl_queue x = []) \<and>
       hub_clients h = [0, 2]"
proof -
  let ?f = "\<lambda>co::id. if co = 1 then Some [7::id] else None"
  let ?h1 = "set_recipients_resolver ?f new_hub"
  let ?h3 = "serve 2 8 (serve 0 7 ?h1)"
  let ?h5 = "broadcast_event_for_company demo_marshal 2 ''t'' ''q''
    (broadcast_event_for_company demo_marshal 1 ''t'' ''p'' ?h3)"
  let ?h6 = "deliver_one 0 ''tp'' (pop_flight 0 ?h5)"
  have "hub_steps demo_marshal new_hub [LResolver ?f] ?h1"
    using hub_more [OF hub_none hub_resolver] by simp
  from hub_more [OF this hub_serve, of 0 7]
  have "hub_steps demo_marshal new_hub [LResolver ?f, LServe 0 7] (serve 0 7 ?h1)"
    by (simp add: new_hub_def set_recipients_resolver_def)
  from hub_more [OF this hub_serve, of 2 8]
  have "hub_steps demo_marshal new_hub [LResolver ?f, LServe 0 7, LServe 2 8] ?h3"
    by (simp add: new_hub_def set_recipients_resolver_def serve_def)
  from hub_more [OF hub_more [OF this hub_company] hub_company, of 1 "''t''" "''p''" 2 "''t''" "''q''"]
  have r5: "hub_steps demo_marshal new_hub (take 5 demo_trace) ?h5"
    by (simp add: demo_trace_def)
  have conns: "hub_conns (pop_flight 0 ?h5) 0 = Some \<lparr>cl_user = 7, cl_queue = [], cl_sent = [], cl_closed = False,
      cl_pump = True\<rparr>"
    by (simp add: serve_def)
  have "hub_flights ?h5 ! 0 = Deliver [0] ''tp''" "0 < length (hub_flights ?h5)"
    by (simp_all add: broadcast_event_for_company_def set_recipients_resolver_def serve_def
        new_hub_def notify_subscribers_def broadcast_raw_to_users_def demo_marshal_def user_of_def
        Let_def)
  from hub_more [OF r5 hub_offer, OF this(2,1)]
  have r6: "hub_steps demo_marshal new_hub (take 6 demo_trace) ?h6"
    by (simp add: demo_trace_def)
  have conns6: "hub_conns ?h6 0 = Some \<lparr>cl_user = 7, cl_queue = [''tp''], cl_sent = [],
      cl_closed = False, cl_pump = True\<rparr>"
    by (subst deliver_one_room(1) [OF conns]) (simp_all add: send_buffer_size_def)
  from hub_more [OF r6 hub_write, OF this]
  have "hub_steps demo_marshal new_hub demo_trace (pump_write 0 ?h6)"
    by (simp add: demo_trace_def)
  moreover have "hub_conns (pump_write 0 ?h6) 0 = Some \<lparr>cl_user = 7, cl_queue = [],
      cl_sent = [''tp''], cl_closed = False, cl_pump = True\<rparr>"
    by (subst pump_write_next(1) [OF conns6]) simp_all
  moreover have "hub_clients (pump_write 0 ?h6) = [0, 2]"
    by (subst pump_write_next(2) [OF conns6], simp, subst deliver_one_room(2) [OF conns])
      (simp_all add: send_buffer_size_def serve_def set_recipients_resolver_def new_hub_def)
  ultimately show ?thesis by fastforce
qed

section \<open>A closed client may be sent a gap\<close>

lemma send_all_offer:
  assumes "hub_steps marshal h0 tr h" and "\<not> hub_done h" and "hub_clients h = [c]"
  shows "hub_steps marshal h0 (tr @ [LHeartbeat m, LOffer c m])
           (deliver_one c m (pop_flight (length (hub_flights h)) (send_all m h)))"
proof -
  have "hub_flights (send_all m h) ! length (hub_flights h) = Deliver (c # []) m"
    "length (hub_flights h) < length (hub_flights (send_all m h))"
    using assms(3) by (simp_all add: send_all_def)
  from hub_more [OF hub_more [OF assms(1) hub_heartbeat [OF assms(2)]] hub_offer [OF this(2,1)]]
  show ?thesis by simp
qed

definition stalled :: "nat \<Rightarrow> frame \<Rightarrow> client" where
  "stalled n m = \<lparr>cl_user = 7, cl_queue = replicate n m, cl_sent = [], cl_closed = False,
     cl_pump = True\<rparr>"

lemma fill_queue:
  "n \<le> send_buffer_size \<Longrightarrow>
   \<exists>tr h. hub_steps marshal new_hub tr h \<and> hub_conns h 0 = Some (stalled n m) \<and>
          hub_clients h = [0] \<and> \<not> hub_done h \<and> offers 0 tr = replicate n m"
proof (induction n)
  case 0
  have "hub_steps marshal new_hub [LServe 0 7] (serve 0 7 new_hub)"
    using hub_more [OF hub_none hub_serve, of new_hub 0 marshal 7] by (simp add: new_hub_def)
  then show ?case by (intro exI conjI) (auto simp: serve_def new_hub_def stalled_def)
next
  case (Suc n)
  then obtain tr h where h: "hub_steps marshal new_hub tr h" "hub_conns h 0 = Some (stalled n m)"
      "hub_clients h = [0]" "\<not> hub_done h" "offers 0 tr = replicate n m" by auto
  let ?h = "pop_flight (length (hub_flights h)) (send_all m h)"
  have c: "hub_conns ?h 0 = Some (stalled n m)" using h(2) by simp
  have room: "length (cl_queue (stalled n m)) < send_buffer_size"
    using Suc.prems by (simp add: stalled_def)
  note steps = send_all_offer [OF h(1,4,3), of m] and one = deliver_one_room [OF c room, of m]
  have "hub_conns (deliver_one 0 m ?h) 0 = Some (stalled (Suc n) m)"
    by (simp add: one(1) stalled_def replicate_append_same)
  moreover have "hub_clients (deliver_one 0 m ?h) = [0]" using h(3) by (simp add: one(2))
  moreover have "\<not> hub_done (deliver_one 0 m ?h)"
    using h(4) c room by (simp add: deliver_one_def pop_flight_def send_all_def)
  moreover have "offers 0 (tr @ [LHeartbeat m, LOffer 0 m]) = replicate (Suc n) m"
    using h(5) by (simp add: replicate_append_same)
  ultimately show ?case using steps by blast
qed

text \<open>
  Two broadcasts that took their snapshots before a slow client was closed: the first finds
  the queue full and closes the client, the pump then frees a place, and the second still
  queues its frame.  The frame in between is missing.
\<close>

lemma closed_client_gap:
  assumes "m1 \<noteq> m2"
  shows "\<exists>tr h x ms. hub_steps marshal new_hub tr h \<and> hub_conns h 0 = Some x \<and> cl_pump x \<and>
           offers 0 tr = ms @ [m1, m2] \<and> cl_sent x @ cl_queue x = ms @ [m2]"
proof -
  let ?n = "send_buffer_size"
  obtain tr h where h: "hub_steps marshal new_hub tr h" "hub_conns h 0 = Some (stalled ?n m1)"
      "hub_clients h = [0]" "\<not> hub_done h" "offers 0 tr = replicate ?n m1"
    using fill_queue by blast
  let ?i = "length (hub_flights h)"
  let ?h2 = "send_all m2 (send_all m1 h)"
  let ?h3 = "deliver_one 0 m1 (pop_flight ?i ?h2)"
  let ?h4 = "pump_write 0 ?h3"
  let ?h5 = "deliver_one 0 m2 (pop_flight (Suc ?i) ?h4)"
  have s2: "hub_steps marshal new_hub (tr @ [LHeartbeat m1, LHeartbeat m2]) ?h2"
    using hub_more [OF hub_more [OF h(1) hub_heartbeat [OF h(4)]] hub_heartbeat, of m1 m2] h(4)
    by (simp add: send_all_def)
  have fl: "hub_flights ?h2 ! ?i = Deliver (0 # []) m1" "?i < length (hub_flights ?h2)"
    using h(3) by (simp_all add: send_all_def nth_append)
  note s3 = hub_more [OF s2 hub_offer [OF fl(2,1)]]
  have c2: "hub_conns (pop_flight ?i ?h2) 0 = Some (stalled ?n m1)" using h(2) by simp
  have "?h3 = close_client 0 (pop_flight ?i ?h2)"
    by (rule deliver_one_full [OF c2]) (simp add: stalled_def)
  then have c3: "hub_conns ?h3 0 = Some (stalled ?n m1\<lparr>cl_closed := True\<rparr>)"
    using c2 by (simp add: hub_conns_close)
  obtain k where k: "?n = Suc k" by (simp add: send_buffer_size_def)
  have q: "cl_queue (stalled ?n m1\<lparr>cl_closed := True\<rparr>) = m1 # replicate k m1"
    by (simp add: stalled_def k)
  have pump: "cl_pump (stalled ?n m1\<lparr>cl_closed := True\<rparr>)" by (simp add: stalled_def)
  note s4 = hub_more [OF s3 hub_write [OF c3 pump]]
  have c4: "hub_conns (pop_flight (Suc ?i) ?h4) 0 = Some (stalled ?n m1
      \<lparr>cl_closed := True, cl_queue := replicate k m1, cl_sent := [m1]\<rparr>)"
    by (simp add: pump_write_next(1) [OF c3 q] stalled_def)
  have fl4: "hub_flights ?h4 ! Suc ?i = Deliver (0 # []) m2" "Suc ?i < length (hub_flights ?h4)"
    using h(3) by (simp_all add: pop_flight_def send_all_def nth_append)
  have "m1 # replicate k m1 \<noteq> []" by simp
  with s4 have s4': "hub_steps marshal new_hub
      (((tr @ [LHeartbeat m1, LHeartbeat m2]) @ [LOffer 0 m1]) @ [LWrite 0]) ?h4"
    by (simp add: q)
  note s5 = hub_more [OF s4' hub_offer [OF fl4(2,1)]]
  have "hub_conns ?h5 0 = Some (stalled ?n m1
      \<lparr>cl_closed := True, cl_queue := replicate k m1 @ [m2], cl_sent := [m1]\<rparr>)"
    by (subst deliver_one_room(1) [OF c4]) (simp_all add: k)
  moreover have "offers 0 ((((tr @ [LHeartbeat m1, LHeartbeat m2]) @ [LOffer 0 m1]) @ [LWrite 0])
      @ [LOffer 0 m2]) = replicate (Suc k) m1 @ [m1, m2]"
    using h(5) by (simp add: k)
  moreover have "[m1] @ replicate k m1 @ [m2] = replicate (Suc k) m1 @ [m2]" by simp
  ultimately show ?thesis
    using s5 by (intro exI [of _ "replicate (Suc k) m1"] exI conjI) (assumption | simp add: stalled_def)+
qed

section \<open>Properties\<close>

text \<open>
  in every interleaving of broadcasts, client pumps, closes and new connections, each
  frame a client has been sent or has queued came from an event addressed to that client's
  user: a global event or heartbeat, or an event of a company of which the resolver in
  force listed the user; an event of a company unknown to the resolver reaches no client.
\<close>

theorem frames_only_to_addressed_users:
  assumes "hub_steps marshal new_hub tr h" and "hub_conns h c = Some x"
    and "m \<in> set (cl_sent x) \<union> set (cl_queue x)"
  shows "addressed_in marshal tr (cl_user x) m"
  using audience_inv_steps [OF assms(1) hub_inv_new audience_inv_new] assms(2,3)
  by (auto simp: audience_inv_def received_def)

theorem frames_only_to_addressed_users_witness:
  "addressed_in demo_marshal demo_trace 7 ''tp''"
  using demo_run frames_only_to_addressed_users [of demo_marshal demo_trace _ 0 _ "''tp''"]
  by force

text \<open>
  C30: a client that is still registered has missed nothing: what its connection was sent
  followed by what its queue holds is exactly what it was offered, in order; the queue never
  holds more than 1024 frames, and the registered clients are exactly the open ones.
\<close>

theorem open_client_missed_nothing:
  assumes "hub_steps marshal new_hub tr h" and "c \<in> set (hub_clients h)"
  shows "\<exists>x. hub_conns h c = Some x \<and> \<not> cl_closed x \<and> cl_sent x @ cl_queue x = offers c tr \<and>
           length (cl_queue x) \<le> 1024"
  using hub_inv_steps [OF assms(1) hub_inv_new] assms(2)
  unfolding hub_inv_def received_def send_buffer_size_def by metis


theorem open_client_missed_nothing_witness:
  "\<exists>h x. hub_steps demo_marshal new_hub demo_trace h \<and> hub_conns h 0 = Some x \<and>
         cl_sent x @ cl_queue x = offers 0 demo_trace"
proof -
  obtain h where "hub_steps demo_marshal new_hub demo_trace h" "0 \<in> set (hub_clients h)"
    using demo_run by auto
  with open_client_missed_nothing [OF this] show ?thesis by blast
qed

end
