(* ===== verification/Env_Store.thy ===== *)
theory Env_Store
  imports Run_Tokens "HOL-Library.List_Lexorder" "HOL-Library.Multiset"
begin

text \<open>
  The environment variables a deployment delivers (\<open>pkg/envstore\<close>): which names are refused,
  the store file, its digest, and what a booting process does with it.

  Go maps are association lists with distinct keys, a process environment is a map from names
  to values, and the store file is what \<open>Load\<close> would decode.  SHA-256 is an argument; \<open>fault\<close>
  says that a file operation fails, \<open>stamp\<close> is the current time as text.  \<open>os.Setenv\<close> refuses
  a value with a NUL byte, as it does on Unix.
\<close>

section \<open>Names that may be delivered\<close>

type_synonym delivery = "(string \<times> string) list"

definition max_keys :: nat where
  "max_keys = 200"

definition max_value_bytes :: nat where
  "max_value_bytes = 64 * 1024"

definition is_upper :: "char \<Rightarrow> bool" where
  "is_upper c \<longleftrightarrow> (let n = of_char c :: nat in 65 \<le> n \<and> n \<le> 90)"

definition key_pattern :: "string \<Rightarrow> bool" where
  "key_pattern k =
     (case k of
        [] \<Rightarrow> False
      | c # r \<Rightarrow> is_upper c \<and> length r \<le> 126 \<and>
                 list_all (\<lambda>x. is_upper x \<or> is_digit x \<or> x = CHR ''_'') r)"

definition denied_prefixes :: "(string \<times> string) list" where
  "denied_prefixes =
     [(''LD_'', ''the dynamic loader runs code from LD_PRELOAD/LD_AUDIT''),
      (''DYLD_'', ''the macOS dynamic loader runs code from DYLD_INSERT_LIBRARIES''),
      (''GIT_'', ''git runs commands from GIT_SSH_COMMAND/GIT_EXTERNAL_DIFF/GIT_PAGER''),
      (''HEADCOUNT1_DEPLOY_'', ''deploy configuration is what constrains a deploy; it stays on the server''),
      (''HEADCOUNT1_SANDBOX_'', ''server-local sandbox switch'')]"

definition denied_keys :: "(string \<times> string) list" where
  "denied_keys =
     [(''PATH'', ''changes which binaries the server and agent shells execute''),
      (''HOME'', ''moves the data root, including this store''),
      (''SHELL'', ''changes the interpreter agent shell commands run under''),
      (''IFS'', ''changes shell word splitting''),
      (''ENV'', ''sourced by shells at startup''),
      (''BASH_ENV'', ''sourced by bash at startup''),
      (''CDPATH'', ''changes what `cd` resolves to in agent shells''),
      (''NODE_OPTIONS'', ''node runs code from --require/--import, and the app spawns MCP servers via npx''),
      (''PYTHONPATH'', ''changes which python modules are imported''),
      (''PYTHONSTARTUP'', ''python executes it on startup''),
      (''PYTHONHOME'', ''relocates the python runtime''),
      (''PERL5OPT'', ''perl runs code from it''),
      (''RUBYOPT'', ''ruby runs code from it''),
      (''HTTP_PROXY'', ''redirects the server's outbound traffic''),
      (''HTTPS_PROXY'', ''redirects the server's outbound traffic''),
      (''ALL_PROXY'', ''redirects the server's outbound traffic''),
      (''NO_PROXY'', ''redirects the server's outbound traffic''),
      (''SSL_CERT_FILE'', ''replaces the TLS trust store''),
      (''SSL_CERT_DIR'', ''replaces the TLS trust store''),
      (''SSH_AUTH_SOCK'', ''points ssh at another agent socket''),
      (''SSH_AGENT_PID'', ''points ssh at another agent''),
      (''HEADCOUNT1_ENV'', ''this server's own identity decides which deploy events it accepts''),
      (''HEADCOUNT1_ENABLE_GLOBAL_ADMIN_API'', ''server-local security switch''),
      (''HEADCOUNT1_GIT_STRICT_HOST_KEY_CHECKING'', ''server-local security switch''),
      (''E2E_MODE'', ''test-mode switch''),
      (''E2E_HEADCOUNT1_HOME'', ''decides where this store itself lives''),
      (''RECORD'', ''test-mode switch'')]"

text \<open>The reason a name is refused, if it is.\<close>

definition validate_key :: "string \<Rightarrow> string option" where
  "validate_key k =
     (if \<not> key_pattern k
      then Some ''not a valid environment variable name (expected UPPER_SNAKE_CASE)''
      else case map_of denied_keys k of
        Some reason \<Rightarrow> Some (''refused: '' @ reason)
      | None \<Rightarrow> map_option (\<lambda>(_, reason). ''refused: '' @ reason)
                  (List.find (\<lambda>(p, _). has_prefix k p) denied_prefixes))"

fun partition_env :: "delivery \<Rightarrow> delivery \<times> delivery" where
  "partition_env [] = ([], [])"
| "partition_env ((k, v) # r) =
     (let (accepted, skipped) = partition_env r
      in case validate_key k of
           Some e \<Rightarrow> (accepted, (k, e) # skipped)
         | None \<Rightarrow>
             if length v > max_value_bytes
             then (accepted, (k, ''value is '' @ dec_nat (length v) @ '' bytes (max '' @
                                 dec_nat max_value_bytes @ '')'') # skipped)
             else ((k, v) # accepted, skipped))"

definition skipped_summary :: "delivery \<Rightarrow> string list" where
  "skipped_summary skipped = sort (map (\<lambda>(k, reason). k @ '': '' @ reason) skipped)"

section \<open>The store\<close>

record store =
  st_values :: delivery
  st_secret :: "string list"
  st_removed :: "string list"
  st_updated :: string

datatype store_file = No_Store | Bad_Store | Stored store

definition empty_store :: store where
  "empty_store = \<lparr>st_values = [], st_secret = [], st_removed = [], st_updated = []\<rparr>"

definition store_keys :: "store \<Rightarrow> string list" where
  "store_keys s = sort (map fst (st_values s))"

definition value_line :: "string \<Rightarrow> string \<Rightarrow> bytes" where
  "value_line k v = dec_nat (length k) @ '':'' @ k @ ''='' @ dec_nat (length v) @ '':'' @ v @ [CHR 0x0A]"

definition secret_line :: "string \<Rightarrow> bytes" where
  "secret_line k = ''secret '' @ dec_nat (length k) @ '':'' @ k @ [CHR 0x0A]"

definition digest_text :: "store \<Rightarrow> bytes" where
  "digest_text s =
     concat (map (\<lambda>k. value_line k (the (map_of (st_values s) k))) (store_keys s)) @
     concat (map secret_line (sort (st_secret s)))"

definition digest :: "(bytes \<Rightarrow> bytes) \<Rightarrow> store \<Rightarrow> string" where
  "digest sha s = hex_encode (sha (digest_text s))"

datatype env_error = Store_Unreadable | Store_Undecodable | Not_Applicable string | Not_Settable string

definition load_store :: "bool \<Rightarrow> store_file \<Rightarrow> env_error + store" where
  "load_store fault f =
     (if fault then Inl Store_Unreadable
      else case f of
        No_Store \<Rightarrow> Inr empty_store | Bad_Store \<Rightarrow> Inl Store_Undecodable | Stored s \<Rightarrow> Inr s)"

text \<open>The temporary file and the rename make a save all or nothing.\<close>

definition save_store :: "bool \<Rightarrow> string \<Rightarrow> store \<Rightarrow> store_file \<Rightarrow> bool \<times> store_file" where
  "save_store fault stamp s f =
     (if fault then (False, f)
      else (True, Stored (s\<lparr>st_updated := stamp, st_secret := sort (st_secret s),
                            st_removed := sort (st_removed s)\<rparr>)))"

section \<open>Applying it at boot\<close>

type_synonym environment = "string \<Rightarrow> string option"

definition getenv :: "environment \<Rightarrow> string \<Rightarrow> string" where
  "getenv e k = (case e k of Some v \<Rightarrow> v | None \<Rightarrow> [])"

fun set_all :: "delivery \<Rightarrow> string list \<Rightarrow> environment \<Rightarrow> string list \<times> env_error option \<times> environment" where
  "set_all vs [] e = ([], None, e)"
| "set_all vs (k # ks) e =
     (if validate_key k \<noteq> None then ([], Some (Not_Applicable k), e)
      else let v = the (map_of vs k)
           in if CHR 0x00 \<in> set v then ([], Some (Not_Settable k), e)
              else case set_all vs ks (e(k \<mapsto> v)) of (done, r) \<Rightarrow> (k # done, r))"

fun unset_all :: "string list \<Rightarrow> environment \<Rightarrow> env_error option \<times> environment" where
  "unset_all [] e = (None, e)"
| "unset_all (k # ks) e =
     (if validate_key k \<noteq> None then (Some (Not_Applicable k), e) else unset_all ks (e(k := None)))"

definition apply_store ::
  "bool \<Rightarrow> store_file \<Rightarrow> environment \<Rightarrow> string list \<times> env_error option \<times> environment" where
  "apply_store fault f e =
     (case load_store fault f of
        Inl err \<Rightarrow> ([], Some err, e)
      | Inr s \<Rightarrow>
          (case set_all (st_values s) (store_keys s) e of
             (done, Some err, e') \<Rightarrow> (done, Some err, e')
           | (done, None, e') \<Rightarrow> (done, unset_all (st_removed s) e')))"

section \<open>The digest identifies what was delivered\<close>

lemma dec_nat_field:
  "dec_nat m @ CHR '':'' # x = dec_nat n @ CHR '':'' # y \<longleftrightarrow> m = n \<and> x = y"
proof
  have scan: "takeWhile is_digit (dec_nat k @ CHR '':'' # z) = dec_nat k" for k z
    using dec_nat_digits [of k] by (simp add: takeWhile_append list_all_iff)
  assume eq: "dec_nat m @ CHR '':'' # x = dec_nat n @ CHR '':'' # y"
  then have "m = n" using scan by (metis dec_nat_inj)
  with eq show "m = n \<and> x = y" by simp
qed simp

lemma sized_field:
  "dec_nat (length a) @ CHR '':'' # a @ x = dec_nat (length b) @ CHR '':'' # b @ y \<longleftrightarrow> a = b \<and> x = y"
  by (auto simp: dec_nat_field)

lemma value_line_eq:
  "value_line k v @ x = value_line k' v' @ y \<longleftrightarrow> k = k' \<and> v = v' \<and> x = y"
  by (auto simp: value_line_def sized_field)

lemma secret_line_eq: "secret_line k @ x = secret_line k' @ y \<longleftrightarrow> k = k' \<and> x = y"
  by (auto simp: secret_line_def sized_field)

lemma secret_lines_no_value: "concat (map secret_line ks) \<noteq> value_line k v @ x"
proof
  assume eq: "concat (map secret_line ks) = value_line k v @ x"
  obtain c cs where c: "dec_nat (length k) = c # cs" by (meson dec_nat_nonempty neq_Nil_conv)
  then have "is_digit c" by (rule dec_nat_first)
  moreover have "c = CHR ''s''"
    using eq c by (cases ks) (auto simp: value_line_def secret_line_def)
  ultimately show False by (simp add: is_digit_def)
qed

lemma secret_lines_eq:
  "concat (map secret_line ks) = concat (map secret_line ks') \<longleftrightarrow> ks = ks'"
proof (induction ks arbitrary: ks')
  case Nil
  then show ?case by (cases ks') (simp_all add: secret_line_def)
next
  case (Cons k ks)
  then show ?case by (cases ks') (simp_all add: secret_line_eq, simp add: secret_line_def)
qed

lemma value_lines_eq:
  "concat (map (\<lambda>(k, v). value_line k v) l) @ concat (map secret_line ks) =
   concat (map (\<lambda>(k, v). value_line k v) l') @ concat (map secret_line ks') \<longleftrightarrow> l = l' \<and> ks = ks'"
proof (induction l arbitrary: l')
  case Nil
  show ?case
    by (cases l') (auto simp: secret_lines_eq secret_lines_no_value)
next
  case (Cons kv l)
  show ?case
    by (cases l')
      (auto simp: value_line_eq Cons.IH secret_lines_no_value secret_lines_no_value [symmetric]
        split: prod.splits)
qed

text \<open>The entries in the order of their names.\<close>

definition sorted_values :: "store \<Rightarrow> delivery" where
  "sorted_values s = map (\<lambda>k. (k, the (map_of (st_values s) k))) (store_keys s)"

lemma digest_text_lines:
  "digest_text s =
   concat (map (\<lambda>(k, v). value_line k v) (sorted_values s)) @ concat (map secret_line (sort (st_secret s)))"
  by (simp add: digest_text_def sorted_values_def comp_def)

lemma map_of_sorted_values: "map_of (sorted_values s) = map_of (st_values s)"
proof
  fix k
  have "map_of (map (\<lambda>k. (k, f k)) ks) k = (if k \<in> set ks then Some (f k) else None)" for f :: "string \<Rightarrow> string" and ks
    by (induction ks) auto
  then have "map_of (sorted_values s) k =
      (if k \<in> fst ` set (st_values s) then Some (the (map_of (st_values s) k)) else None)"
    by (simp add: sorted_values_def store_keys_def)
  then show "map_of (sorted_values s) k = map_of (st_values s) k"
    by (metis map_of_eq_None_iff option.collapse)
qed

lemma sorted_values_cong:
  assumes "distinct (map fst (st_values s))" and "distinct (map fst (st_values t))"
    and "map_of (st_values s) = map_of (st_values t)"
  shows "sorted_values s = sorted_values t"
proof -
  have "set (map fst (st_values s)) = set (map fst (st_values t))"
    using assms(3) by (metis dom_map_of_conv_image_fst list.set_map)
  then have "store_keys s = store_keys t"
    using assms(1,2) by (metis store_keys_def sorted_list_of_set_sort_remdups distinct_remdups_id)
  then show ?thesis by (simp add: sorted_values_def assms(3))
qed

lemma sort_eq_iff: "sort xs = sort ys \<longleftrightarrow> mset xs = mset ys"
  by (metis mset_sort properties_for_sort sorted_sort)

section \<open>What an application can reach\<close>

lemma set_all_cases:
  "k \<notin> set ks \<or> validate_key k \<noteq> None \<Longrightarrow> snd (snd (set_all vs ks e)) k = e k"
  by (induction vs ks e rule: set_all.induct) (auto simp: Let_def split: prod.split if_splits)

lemma unset_all_cases:
  "k \<notin> set ks \<or> validate_key k \<noteq> None \<Longrightarrow> snd (unset_all ks e) k = e k"
  by (induction ks arbitrary: e) auto

lemma set_all_ok:
  assumes "\<forall>k \<in> set ks. validate_key k = None \<and> (\<exists>v. map_of vs k = Some v \<and> CHR 0x00 \<notin> set v)"
  shows "set_all vs ks e = (ks, None, \<lambda>k. if k \<in> set ks then map_of vs k else e k)"
  using assms by (induction ks arbitrary: e) (auto simp: Let_def fun_eq_iff)

lemma unset_all_ok:
  assumes "\<forall>k \<in> set ks. validate_key k = None"
  shows "unset_all ks e = (None, \<lambda>k. if k \<in> set ks then None else e k)"
  using assms by (induction ks arbitrary: e) (auto simp: fun_eq_iff)

lemma partition_accepted:
  "fst (partition_env d) = filter (\<lambda>x. validate_key (fst x) = None \<and> length (snd x) \<le> max_value_bytes) d"
  by (induction d rule: partition_env.induct) (auto simp: Let_def split: prod.splits option.splits)

text \<open>What a sound store file says: its names may be delivered, and it unsets none it sets.\<close>

definition sound_store :: "store \<Rightarrow> bool" where
  "sound_store s \<longleftrightarrow>
     distinct (map fst (st_values s)) \<and>
     list_all (\<lambda>k. validate_key k = None) (map fst (st_values s) @ st_removed s) \<and>
     set (st_removed s) \<inter> fst ` set (st_values s) = {}"

lemma apply_sound:
  assumes "load_store False f = Inr s" and "sound_store s"
    and "\<forall>k v. map_of (st_values s) k = Some v \<longrightarrow> CHR 0x00 \<notin> set v"
  shows "apply_store False f e =
    (store_keys s, None,
     \<lambda>k. if k \<in> set (st_removed s) then None
         else case map_of (st_values s) k of Some v \<Rightarrow> Some v | None \<Rightarrow> e k)"
proof -
  have keys: "set (store_keys s) = fst ` set (st_values s)" by (simp add: store_keys_def)
  have "\<forall>k \<in> set (store_keys s). validate_key k = None \<and>
      (\<exists>v. map_of (st_values s) k = Some v \<and> CHR 0x00 \<notin> set v)"
  proof
    fix k assume "k \<in> set (store_keys s)"
    then have k: "k \<in> fst ` set (st_values s)" by (simp add: keys)
    then obtain v where "map_of (st_values s) k = Some v" by (metis map_of_eq_None_iff option.exhaust)
    with k assms(2,3) show "validate_key k = None \<and>
        (\<exists>v. map_of (st_values s) k = Some v \<and> CHR 0x00 \<notin> set v)"
      by (auto simp: sound_store_def list_all_iff)
  qed
  note set_all_ok [OF this]
  moreover have "\<forall>k \<in> set (st_removed s). validate_key k = None"
    using assms(2) by (simp add: sound_store_def list_all_iff)
  note unset_all_ok [OF this]
  moreover have "(if k \<in> fst ` set (st_values s) then map_of (st_values s) k else e k) =
      (case map_of (st_values s) k of Some v \<Rightarrow> Some v | None \<Rightarrow> e k)" for k
  proof (cases "map_of (st_values s) k")
    case None
    moreover from this have "k \<notin> fst ` set (st_values s)" by (simp only: map_of_eq_None_iff not_False_eq_True)
    ultimately show ?thesis by simp
  next
    case (Some v)
    then have "k \<in> fst ` set (st_values s)" by (force dest: map_of_SomeD)
    with Some show ?thesis by simp
  qed
  ultimately show ?thesis
    using assms(1) by (simp add: apply_store_def keys)
qed

text \<open>A value with a NUL byte passes the filter, and stops the application at its name.\<close>

lemma nul_value_blocks_later_names:
  "partition_env [(''A'', [CHR 0x00]), (''B'', ''1'')] = ([(''A'', [CHR 0x00]), (''B'', ''1'')], []) \<and>
   apply_store False (Stored (empty_store\<lparr>st_values := [(''A'', [CHR 0x00]), (''B'', ''1'')]\<rparr>)) Map.empty =
     ([], Some (Not_Settable ''A''), Map.empty)"
proof -
  have ok: "validate_key ''A'' = None" "validate_key ''B'' = None" by code_simp+
  have "sort [''A'', ''B''] = [''A'', ''B'']" by (intro sort_key_id_if_sorted) code_simp
  with ok show ?thesis
    by (simp add: apply_store_def load_store_def store_keys_def max_value_bytes_def empty_store_def)
qed

section \<open>Properties\<close>

lemma digest_eq_iff:
  assumes "distinct (map fst (st_values s))" and "distinct (map fst (st_values t))"
    and "inj_on sha {digest_text s, digest_text t}"
  shows "digest sha s = digest sha t \<longleftrightarrow>
         map_of (st_values s) = map_of (st_values t) \<and> mset (st_secret s) = mset (st_secret t)"
proof -
  have "digest sha s = digest sha t \<longleftrightarrow> digest_text s = digest_text t"
    using inj_on_eq_iff [OF assms(3), of "digest_text s" "digest_text t"] by (simp add: digest_def)
  also have "\<dots> \<longleftrightarrow> sorted_values s = sorted_values t \<and> mset (st_secret s) = mset (st_secret t)"
    by (simp add: digest_text_lines value_lines_eq sort_eq_iff)
  also have "sorted_values s = sorted_values t \<longleftrightarrow> map_of (st_values s) = map_of (st_values t)"
    using sorted_values_cong [OF assms(1,2)] by (metis map_of_sorted_values)
  finally show ?thesis .
qed

text \<open>
  as long as the hash does not collide, two stores have the same digest exactly when they
  give every name the same value and mark the same names as secret: no rearrangement of names
  and values escapes the check for changed configuration.
\<close>

theorem digest_identifies_configuration:
  assumes "distinct (map fst (st_values s))" and "distinct (map fst (st_values t))"
    and "inj_on sha {digest_text s, digest_text t}"
  shows "digest sha s = digest sha t \<longleftrightarrow>
         map_of (st_values s) = map_of (st_values t) \<and> mset (st_secret s) = mset (st_secret t)"
  using assms by (rule digest_eq_iff)

theorem digest_identifies_configuration_witness:
  "let s = empty_store\<lparr>st_values := [(''B'', ''1''), (''A'', ''2'')]\<rparr>;
       t = empty_store\<lparr>st_values := [(''A'', ''2''), (''B'', ''1'')]\<rparr>;
       u = empty_store\<lparr>st_values := [(''A'', ''2''), (''B'', ''1'')], st_secret := [''A'']\<rparr>
   in digest (\<lambda>x. x) s = digest (\<lambda>x. x) t \<and> digest (\<lambda>x. x) s \<noteq> digest (\<lambda>x. x) u"
proof -
  let ?s = "empty_store\<lparr>st_values := [(''B'', ''1''), (''A'', ''2'')]\<rparr>"
  let ?t = "empty_store\<lparr>st_values := [(''A'', ''2''), (''B'', ''1'')]\<rparr>"
  let ?u = "empty_store\<lparr>st_values := [(''A'', ''2''), (''B'', ''1'')], st_secret := [''A'']\<rparr>"
  have i: "inj_on (\<lambda>x. x) A" for A :: "bytes set" by (simp add: inj_on_def)
  show ?thesis
    using digest_identifies_configuration [of ?s ?t "\<lambda>x. x", OF _ _ i]
      digest_identifies_configuration [of ?s ?u "\<lambda>x. x", OF _ _ i]
    by (auto simp: empty_store_def fun_eq_iff)
qed

text \<open>
  whatever the store file holds, hand-edited or not, booting from it neither sets nor
  unsets a variable that is refused: the search paths, the loader and shell hooks, the trust
  anchors, and the settings that constrain a deployment.
\<close>

theorem refused_variables_untouched:
  assumes "apply_store fault f e = (names, err, e')"
    and "k \<in> fst ` set denied_keys \<or> (\<exists>(p, _) \<in> set denied_prefixes. has_prefix k p) \<or> \<not> key_pattern k"
  shows "e' k = e k \<and> k \<notin> set names"
proof -
  have refused: "validate_key k \<noteq> None"
  proof -
    have "List.find (\<lambda>(p, _). has_prefix k p) denied_prefixes \<noteq> None"
      if "\<exists>(p, _) \<in> set denied_prefixes. has_prefix k p"
      using that by (auto simp: find_None_iff)
    moreover have "map_of denied_keys k \<noteq> None" if "k \<in> fst ` set denied_keys"
      using that by (simp only: map_of_eq_None_iff not_not)
    ultimately show ?thesis
      using assms(2) unfolding validate_key_def by (cases "map_of denied_keys k") auto
  qed
  have listed: "k \<notin> set (fst (set_all vs ks env))" for vs ks env
    using refused by (induction vs ks env rule: set_all.induct) (auto simp: Let_def split: prod.split)
  have kept: "snd (snd (set_all vs ks env)) k = env k" "snd (unset_all ks env) k = env k" for vs ks env
    using refused by (simp_all add: set_all_cases unset_all_cases)
  show ?thesis
    using assms(1) listed kept
    by (auto simp: apply_store_def split: sum.splits prod.splits option.splits)
      (metis fst_conv snd_conv)+
qed

theorem refused_variables_untouched_witness:
  "let f = Stored (empty_store\<lparr>st_values := [(''LD_PRELOAD'', ''/tmp/x''), (''A'', ''1'')]\<rparr>);
       e = [''LD_PRELOAD'' \<mapsto> ''/lib/ok'']
   in snd (snd (apply_store False f e)) ''LD_PRELOAD'' = Some ''/lib/ok''"
proof -
  let ?f = "Stored (empty_store\<lparr>st_values := [(''LD_PRELOAD'', ''/tmp/x''), (''A'', ''1'')]\<rparr>)"
  have "apply_store False ?f e = (fst (apply_store False ?f e), fst (snd (apply_store False ?f e)),
      snd (snd (apply_store False ?f e)))" for e
    by simp
  from refused_variables_untouched [OF this, of "''LD_PRELOAD''"]
  show ?thesis by (simp add: denied_prefixes_def has_prefix_def Let_def)
qed

end
