(* ===== verification/Updater.thy ===== *)
theory Updater
  imports Prelude "HOL-Library.AList" Run_Tokens
begin

text \<open>
  Deployments (\<open>pkg/updater\<close>): staging a downloaded binary as a candidate, the journal that
  records how far it got, and the retention of older releases.  The supervisor that acts on
  the journal is in \<open>Supervisor\<close>.

  Paths are clean and absolute.  The disk holds the journal, which \<open>SaveState\<close> replaces as a
  whole (it writes a temporary file and renames it), and the other files with their contents.
  SHA-256, \<open>net/url\<close>, the download and the environment are arguments; \<open>io n\<close> says that the
  n-th file operation fails, \<open>stuck i\<close> that the directory of release \<open>i\<close> cannot be removed,
  and \<open>msg\<close> is the text of the error a deployment ends with.
\<close>

section \<open>The journal\<close>

datatype phase = Staged | Migrating | Starting | Promoted | Deploy_Failed | Needs_Manual_Recovery

record version =
  vi_version :: string
  vi_branch :: string
  vi_commit :: string
  vi_built :: string

record release =
  rl_id :: string
  rl_target :: version
  rl_path :: string
  rl_sha :: string
  rl_promoted :: instant

record deployment =
  dp_id :: string
  dp_phase :: phase
  dp_target :: version
  dp_candidate :: string
  dp_previous :: string
  dp_sha :: string
  dp_snapshot :: string
  dp_schema :: string
  dp_updated :: instant
  dp_error :: string
  dp_releases :: "release list"

datatype journal = No_Journal | Bad_Journal | Journal deployment

record disk =
  dk_journal :: journal
  dk_files :: "(string \<times> bytes) list"

datatype io_error = Not_Configured | Io_Fault | Undecodable | Missing

definition file_exists :: "string \<Rightarrow> disk \<Rightarrow> bool" where
  "file_exists p d \<longleftrightarrow> map_of (dk_files d) p \<noteq> None"

definition load_state :: "string \<Rightarrow> bool \<Rightarrow> disk \<Rightarrow> io_error + deployment" where
  "load_state base fault d =
     (if base = [] then Inl Not_Configured
      else if fault then Inl Io_Fault
      else case dk_journal d of
        No_Journal \<Rightarrow> Inl Missing | Bad_Journal \<Rightarrow> Inl Undecodable | Journal s \<Rightarrow> Inr s)"

definition save_state ::
  "string \<Rightarrow> bool \<Rightarrow> instant \<Rightarrow> deployment \<Rightarrow> disk \<Rightarrow> io_error option \<times> disk" where
  "save_state base fault now s d =
     (if base = [] then (Some Not_Configured, d)
      else if fault then (Some Io_Fault, d)
      else (None, d\<lparr>dk_journal := Journal (s\<lparr>dp_updated := now\<rparr>)\<rparr>))"

definition pending_phase :: "phase \<Rightarrow> bool" where
  "pending_phase p \<longleftrightarrow> p \<in> {Staged, Migrating, Starting}"

section \<open>Successful releases\<close>

definition successful_release_retention :: nat where
  "successful_release_retention = 12"

definition keep_latest :: "release list \<Rightarrow> release list" where
  "keep_latest rs = drop (length rs - successful_release_retention) rs"

text \<open>A record under a known identifier replaces the first entry that has it.\<close>

fun replace_release :: "release \<Rightarrow> release list \<Rightarrow> release list option" where
  "replace_release r [] = None"
| "replace_release r (x # xs) =
     (if rl_id x = rl_id r then Some (r # xs) else map_option ((#) x) (replace_release r xs))"

definition append_successful_release :: "release \<Rightarrow> release list \<Rightarrow> release list" where
  "append_successful_release r rs =
     (if rl_id r = [] \<or> rl_path r = [] then rs
      else keep_latest (case replace_release r rs of Some rs' \<Rightarrow> rs' | None \<Rightarrow> rs @ [r]))"

definition release_root :: "string \<Rightarrow> string" where
  "release_root base = base @ ''/releases''"

definition binary_name :: string where
  "binary_name = ''agent-orchestrator''"

definition release_dir :: "string \<Rightarrow> string \<Rightarrow> string" where
  "release_dir base i = release_root base @ ''/'' @ i"

definition release_binary :: "string \<Rightarrow> string \<Rightarrow> string" where
  "release_binary base i = release_dir base i @ ''/'' @ binary_name"

definition release_id_for_path :: "string \<Rightarrow> string \<Rightarrow> string option" where
  "release_id_for_path root p =
     (if has_prefix p (root @ ''/'') then
        (case split_on (CHR ''/'') (trim_prefix p (root @ ''/'')) of
           [i, name] \<Rightarrow> if name = binary_name then Some i else None
         | _ \<Rightarrow> None)
      else None)"

definition kept_releases :: "string \<Rightarrow> deployment \<Rightarrow> string list" where
  "kept_releases base s =
     List.map_filter (release_id_for_path (release_root base))
       (map rl_path (dp_releases s) @
        (if pending_phase (dp_phase s) \<or> dp_phase s = Promoted then [dp_candidate s] else []) @
        [dp_previous s])"

text \<open>The directories of the release root that hold a binary.\<close>

definition release_entries :: "string \<Rightarrow> disk \<Rightarrow> string list" where
  "release_entries base d =
     remdups (List.map_filter (\<lambda>(p, _). release_id_for_path (release_root base) p) (dk_files d))"

definition remove_all :: "string \<Rightarrow> disk \<Rightarrow> disk" where
  "remove_all dir d =
     d\<lparr>dk_files := filter (\<lambda>(p, _). p \<noteq> dir \<and> \<not> has_prefix p (dir @ ''/'')) (dk_files d)\<rparr>"

definition prune_releases :: "string \<Rightarrow> (string \<Rightarrow> bool) \<Rightarrow> deployment \<Rightarrow> disk \<Rightarrow> disk" where
  "prune_releases base stuck s d =
     fold (\<lambda>i d. if i \<in> set (kept_releases base s) \<or> stuck i then d
                  else remove_all (release_dir base i) d)
       (release_entries base d) d"

section \<open>The updater\<close>

record updater =
  up_base :: string
  up_current :: version
  up_deploying :: bool
  up_restart :: "string option"
  up_shown_deploying :: bool
  up_shown_phase :: "phase option"
  up_shown_error :: string
  up_shown_id :: string

definition deployment_id :: "(bytes \<Rightarrow> bytes) \<Rightarrow> version \<Rightarrow> string \<Rightarrow> string" where
  "deployment_id sha target digest =
     (let commit = trim_space (vi_commit target)
      in (if commit = [] then ''unknown'' else commit) @ ''-'' @
         take 12 (hex_encode (sha (vi_commit target @ CHR 0x00 # digest))))"

definition active_candidate :: "updater \<Rightarrow> deployment \<Rightarrow> bool" where
  "active_candidate u s \<longleftrightarrow>
     dp_candidate s \<noteq> [] \<and> vi_commit (dp_target s) = vi_commit (up_current u) \<and>
     pending_phase (dp_phase s)"

text \<open>The marks of a booting build: only the candidate the journal names may set them.\<close>

definition on_candidate ::
  "(deployment \<Rightarrow> io_error option \<times> updater \<times> disk) \<Rightarrow> (nat \<Rightarrow> bool) \<Rightarrow> updater \<Rightarrow> disk \<Rightarrow>
   io_error option \<times> updater \<times> disk"
where
  "on_candidate body io u d =
     (if up_base u = [] then (None, u, d)
      else case load_state (up_base u) (io 0) d of
        Inl Missing \<Rightarrow> (None, u, d)
      | Inl e \<Rightarrow> (Some e, u, d)
      | Inr s \<Rightarrow> if \<not> active_candidate u s then (None, u, d) else body s)"

definition mark_migrating ::
  "(nat \<Rightarrow> bool) \<Rightarrow> instant \<Rightarrow> updater \<Rightarrow> disk \<Rightarrow> io_error option \<times> updater \<times> disk" where
  "mark_migrating io now u d =
     on_candidate (\<lambda>s. (case save_state (up_base u) (io 1) now (s\<lparr>dp_phase := Migrating\<rparr>) d of
        (e, d') \<Rightarrow> (e, u, d'))) io u d"

definition mark_starting ::
  "(nat \<Rightarrow> bool) \<Rightarrow> instant \<Rightarrow> updater \<Rightarrow> disk \<Rightarrow> io_error option \<times> updater \<times> disk" where
  "mark_starting io now u d =
     on_candidate (\<lambda>s. (case save_state (up_base u) (io 1) now (s\<lparr>dp_phase := Starting\<rparr>) d of
        (Some e, d') \<Rightarrow> (Some e, u, d')
      | (None, d') \<Rightarrow> (None, u\<lparr>up_shown_deploying := True, up_shown_phase := Some Starting\<rparr>, d'))) io u d"

definition promoted_state :: "instant \<Rightarrow> deployment \<Rightarrow> deployment" where
  "promoted_state now s =
     s\<lparr>dp_phase := Promoted, dp_error := [],
       dp_releases := append_successful_release
         \<lparr>rl_id = dp_id s, rl_target = dp_target s, rl_path = dp_candidate s, rl_sha = dp_sha s,
          rl_promoted = now\<rparr> (dp_releases s)\<rparr>"

definition mark_promoted ::
  "(nat \<Rightarrow> bool) \<Rightarrow> (string \<Rightarrow> bool) \<Rightarrow> instant \<Rightarrow> updater \<Rightarrow> disk \<Rightarrow>
   io_error option \<times> updater \<times> disk" where
  "mark_promoted io stuck now u d =
     on_candidate (\<lambda>s.
       (let s' = promoted_state now s
        in case save_state (up_base u) (io 1) now s' d of
             (Some e, d') \<Rightarrow> (Some e, u, d')
           | (None, d') \<Rightarrow>
               (None, u\<lparr>up_shown_deploying := False, up_shown_phase := Some Promoted,
                        up_shown_error := []\<rparr>,
                if io 2 then d' else prune_releases (up_base u) stuck s' d'))) io u d"

definition attach_sqlite_snapshot ::
  "(nat \<Rightarrow> bool) \<Rightarrow> instant \<Rightarrow> string \<Rightarrow> updater \<Rightarrow> disk \<Rightarrow> io_error option \<times> disk" where
  "attach_sqlite_snapshot io now snapshot u d =
     (if up_base u = [] \<or> snapshot = [] then (None, d)
      else case load_state (up_base u) (io 0) d of
        Inl e \<Rightarrow> (Some e, d)
      | Inr s \<Rightarrow> save_state (up_base u) (io 1) now (s\<lparr>dp_snapshot := snapshot\<rparr>) d)"

text \<open>
  A failed boot is recorded by the build the journal targets, in whatever phase it is; the
  answer is the path to fall back to.
\<close>

definition record_failure ::
  "phase \<Rightarrow> (nat \<Rightarrow> bool) \<Rightarrow> instant \<Rightarrow> version \<Rightarrow> string \<Rightarrow> updater \<Rightarrow> disk \<Rightarrow>
   (io_error + string) \<times> updater \<times> disk" where
  "record_failure ph io now current cause u d =
     (if up_base u = [] then (Inr [], u, d)
      else case load_state (up_base u) (io 0) d of
        Inl Missing \<Rightarrow> (Inr [], u, d)
      | Inl e \<Rightarrow> (Inl e, u, d)
      | Inr s \<Rightarrow>
          if vi_commit (dp_target s) \<noteq> vi_commit current \<or> dp_candidate s = [] then (Inr [], u, d)
          else (case save_state (up_base u) (io 1) now (s\<lparr>dp_phase := ph, dp_error := cause\<rparr>) d of
                  (Some e, d') \<Rightarrow> (Inl e, u, d')
                | (None, d') \<Rightarrow>
                    (Inr (dp_previous s),
                     u\<lparr>up_shown_deploying := False, up_shown_phase := Some ph,
                       up_shown_error := cause, up_shown_id := dp_id s\<rparr>, d')))"

definition record_startup_failure ::
  "(nat \<Rightarrow> bool) \<Rightarrow> instant \<Rightarrow> version \<Rightarrow> string \<Rightarrow> updater \<Rightarrow> disk \<Rightarrow>
   (io_error + string) \<times> updater \<times> disk" where
  "record_startup_failure = record_failure Deploy_Failed"

definition mark_needs_manual_recovery ::
  "(nat \<Rightarrow> bool) \<Rightarrow> instant \<Rightarrow> version \<Rightarrow> string \<Rightarrow> updater \<Rightarrow> disk \<Rightarrow>
   io_error option \<times> updater \<times> disk" where
  "mark_needs_manual_recovery io now current cause u d =
     (case record_failure Needs_Manual_Recovery io now current cause u d of
        (Inl e, r) \<Rightarrow> (Some e, r) | (Inr _, r) \<Rightarrow> (None, r))"

section \<open>Where a binary may come from\<close>

record parsed_url =
  ur_scheme :: string
  ur_host :: string
  ur_path :: string

datatype url_error = Url_Required | Unparseable | Not_Https | Host_Not_Allowed | Not_Our_Repo

definition default_hosts :: "string list" where
  "default_hosts = [''api.github.com'', ''github.com'', ''objects.githubusercontent.com'',
     ''release-assets.githubusercontent.com'']"

definition default_deploy_repo :: string where
  "default_deploy_repo = ''neverknowerdev/headcount1''"

text \<open>The hosts, and whether the operator's variable overrides them.\<close>

definition allowed_download_hosts :: "string \<Rightarrow> string list \<times> bool" where
  "allowed_download_hosts env =
     (let custom = trim_space env
      in if custom \<noteq> []
         then (filter (\<lambda>h. h \<noteq> []) (map (\<lambda>h. to_lower (trim_space h)) (split_on (CHR '','') custom)), True)
         else (default_hosts, False))"

definition deploy_repo :: "string \<Rightarrow> string" where
  "deploy_repo env = (let r = trim_space env in if r \<noteq> [] then r else default_deploy_repo)"

definition validate_download_url ::
  "(string \<Rightarrow> parsed_url option) \<Rightarrow> string \<Rightarrow> string \<Rightarrow> string \<Rightarrow> url_error option" where
  "validate_download_url parse hosts_env repo_env raw =
     (if trim_space raw = [] then Some Url_Required
      else case parse raw of
        None \<Rightarrow> Some Unparseable
      | Some u \<Rightarrow>
          (let (hosts, overridden) = allowed_download_hosts hosts_env; host = to_lower (ur_host u);
               prefix = (if host = ''api.github.com'' then ''/repos/'' @ deploy_repo repo_env @ ''/''
                         else if host = ''github.com'' then ''/'' @ deploy_repo repo_env @ ''/''
                         else [])
           in if ur_scheme u \<noteq> ''https'' \<and> \<not> (ur_scheme u = ''http'' \<and> overridden) then Some Not_Https
              else if host \<notin> set hosts then Some Host_Not_Allowed
              else if \<not> overridden \<and> prefix \<noteq> [] \<and> \<not> has_prefix (ur_path u) prefix
              then Some Not_Our_Repo
              else None))"

section \<open>Deploying\<close>

datatype deploy_error =
    In_Progress | Bad_Url url_error | Sha_Required | No_Executable | Not_Durable
  | State_Unreadable io_error | Download_Failed | Sha_Mismatch | Store_Failed | Not_Persisted io_error

text \<open>
  What surrounds one deployment: the variables, the running executable, what the download
  yields, and which file operations fail.
\<close>

record deploy_world =
  dw_parse :: "string \<Rightarrow> parsed_url option"
  dw_hosts :: string
  dw_repo :: string
  dw_sha :: "bytes \<Rightarrow> bytes"
  dw_executable :: "string option"
  dw_download :: "bytes option"
  dw_io :: "nat \<Rightarrow> bool"
  dw_now :: instant

definition max_binary_size :: nat where
  "max_binary_size = 512 * 2 ^ 20"

definition fail_deploy ::
  "string \<Rightarrow> deploy_error \<Rightarrow> updater \<Rightarrow> disk \<Rightarrow> deploy_error option \<times> updater \<times> disk" where
  "fail_deploy msg e u d =
     (Some e, u\<lparr>up_deploying := False, up_shown_deploying := False, up_shown_error := msg\<rparr>, d)"

definition staged_state ::
  "deploy_world \<Rightarrow> string \<Rightarrow> string \<Rightarrow> string \<Rightarrow> version \<Rightarrow> deployment option \<Rightarrow> deployment" where
  "staged_state w candidate running expected target previous =
     \<lparr>dp_id = deployment_id (dw_sha w) target expected, dp_phase = Staged, dp_target = target,
      dp_candidate = candidate, dp_previous = running, dp_sha = expected, dp_snapshot = [],
      dp_schema = [], dp_updated = dw_now w, dp_error = [],
      dp_releases =
        (case previous of
           None \<Rightarrow> []
         | Some p \<Rightarrow>
             if dp_phase p = Promoted
             then append_successful_release
                    \<lparr>rl_id = dp_id p, rl_target = dp_target p, rl_path = dp_candidate p,
                     rl_sha = dp_sha p, rl_promoted = dp_updated p\<rparr> (dp_releases p)
             else dp_releases p)\<rparr>"

definition deploy ::
  "deploy_world \<Rightarrow> string \<Rightarrow> string \<Rightarrow> version \<Rightarrow> string \<Rightarrow> updater \<Rightarrow> disk \<Rightarrow>
   deploy_error option \<times> updater \<times> disk"
where
  "deploy w url sha256 target msg u d =
     (if up_deploying u then (Some In_Progress, u, d)
      else
        let u = u\<lparr>up_deploying := True, up_shown_deploying := True, up_shown_error := []\<rparr>;
            expected = to_lower (trim_space sha256);
            rid = deployment_id (dw_sha w) target expected;
            candidate = release_binary (up_base u) rid;
            fail = (\<lambda>e d. fail_deploy msg e u d)
        in case validate_download_url (dw_parse w) (dw_hosts w) (dw_repo w) url of
             Some e \<Rightarrow> fail (Bad_Url e) d
           | None \<Rightarrow>
               if expected = [] then fail Sha_Required d
               else (case dw_executable w of
                 None \<Rightarrow> fail No_Executable d
               | Some running \<Rightarrow>
                   if up_base u = [] then fail Not_Durable d
                   else (case load_state (up_base u) (dw_io w 0) d of
                     Inl Io_Fault \<Rightarrow> fail (State_Unreadable Io_Fault) d
                   | Inl Undecodable \<Rightarrow> fail (State_Unreadable Undecodable) d
                   | Inl Not_Configured \<Rightarrow> fail (State_Unreadable Not_Configured) d
                   | prior \<Rightarrow>
                       if dw_io w 3 then fail Store_Failed d
                       else (case dw_download w of
                          None \<Rightarrow> fail Download_Failed d
                        | Some bin \<Rightarrow>
                            if length bin > max_binary_size then fail Download_Failed d
                            else if hex_encode (dw_sha w bin) \<noteq> expected then fail Sha_Mismatch d
                            else if dw_io w 1 then fail Store_Failed d
                            else
                              let d' = d\<lparr>dk_files := AList.update candidate bin (dk_files d)\<rparr>;
                                  s = staged_state w candidate running expected target
                                        (case prior of Inr p \<Rightarrow> Some p | _ \<Rightarrow> None)
                              in case save_state (up_base u) (dw_io w 2) (dw_now w) s d' of
                                   (Some e, d'') \<Rightarrow> fail (Not_Persisted e) d''
                                 | (None, d'') \<Rightarrow>
                                     (None, u\<lparr>up_restart := Some candidate, up_shown_id := rid,
                                              up_shown_phase := Some Staged\<rparr>, d'')))))"

definition restart_in_place ::
  "deploy_world \<Rightarrow> updater \<Rightarrow> disk \<Rightarrow> deploy_error option \<times> updater \<times> disk" where
  "restart_in_place w u d =
     (case dw_executable w of
        None \<Rightarrow> (Some No_Executable, u, d)
      | Some running \<Rightarrow>
          if up_restart u \<noteq> None then (None, u, d)
          else
            let u' = u\<lparr>up_restart := Some running\<rparr>; cur = up_current u
            in if up_base u = [] then (None, u', d)
               else (case load_state (up_base u) (dw_io w 0) d of
                 Inl Io_Fault \<Rightarrow> (Some (State_Unreadable Io_Fault), u', d)
               | Inl Undecodable \<Rightarrow> (Some (State_Unreadable Undecodable), u', d)
               | prior \<Rightarrow>
                   (case save_state (up_base u) (dw_io w 1) (dw_now w)
                      \<lparr>dp_id = deployment_id (dw_sha w) cur ''restart'', dp_phase = Staged,
                       dp_target = cur, dp_candidate = running, dp_previous = running,
                       dp_sha = ''restart'', dp_snapshot = [], dp_schema = [],
                       dp_updated = dw_now w, dp_error = [],
                       dp_releases = (case prior of Inr p \<Rightarrow> dp_releases p | _ \<Rightarrow> [])\<rparr> d of
                      (Some e, d') \<Rightarrow> (Some (Not_Persisted e), u', d')
                    | (None, d') \<Rightarrow> (None, u', d'))))"

text \<open>A process starts with the status the journal shows and prunes what it does not keep.\<close>

definition new_with_base_path ::
  "version \<Rightarrow> string \<Rightarrow> bool \<Rightarrow> (string \<Rightarrow> bool) \<Rightarrow> disk \<Rightarrow> updater \<times> disk" where
  "new_with_base_path current base fault stuck d =
     (let u = \<lparr>up_base = base, up_current = current, up_deploying = False, up_restart = None,
               up_shown_deploying = False, up_shown_phase = None, up_shown_error = [],
               up_shown_id = []\<rparr>
      in case load_state base fault d of
           Inl _ \<Rightarrow> (u, d)
         | Inr s \<Rightarrow>
             (u\<lparr>up_shown_deploying := pending_phase (dp_phase s),
                up_shown_phase := Some (dp_phase s), up_shown_error := dp_error s,
                up_shown_id := dp_id s\<rparr>, prune_releases base stuck s d))"

definition is_current :: "updater \<Rightarrow> version \<Rightarrow> bool" where
  "is_current u target \<longleftrightarrow> vi_commit target \<noteq> [] \<and> vi_commit target = vi_commit (up_current u)"

section \<open>Retention\<close>

definition releases_ok :: "release list \<Rightarrow> bool" where
  "releases_ok rs \<longleftrightarrow> length rs \<le> successful_release_retention \<and> distinct (map rl_id rs)"

lemma replace_release_ids:
  "replace_release r rs = Some rs' \<Longrightarrow> map rl_id rs' = map rl_id rs \<and> r \<in> set rs'"
  by (induction rs arbitrary: rs') (auto split: if_splits)

lemma replace_release_None: "replace_release r rs = None \<longleftrightarrow> rl_id r \<notin> rl_id ` set rs"
  by (induction rs) auto

lemma releases_ok_keep_latest: "distinct (map rl_id rs) \<Longrightarrow> releases_ok (keep_latest rs)"
  by (simp add: releases_ok_def keep_latest_def drop_map [symmetric] distinct_drop)

lemma releases_ok_append:
  assumes "releases_ok rs"
  shows "releases_ok (append_successful_release r rs)"
proof -
  have d: "distinct (map rl_id rs)" using assms by (simp add: releases_ok_def)
  have "distinct (map rl_id (case replace_release r rs of Some rs' \<Rightarrow> rs' | None \<Rightarrow> rs @ [r]))"
    using d by (auto simp: replace_release_None dest: replace_release_ids split: option.split)
  then show ?thesis
    using assms by (simp add: append_successful_release_def releases_ok_keep_latest)
qed

lemma append_keeps_newest:
  assumes "releases_ok rs" and "rl_id r \<noteq> []" and "rl_path r \<noteq> []"
  shows "r \<in> set (append_successful_release r rs)"
proof (cases "replace_release r rs")
  case None
  then show ?thesis
    using assms by (simp add: append_successful_release_def keep_latest_def
        successful_release_retention_def)
next
  case (Some rs')
  then have "length rs' \<le> successful_release_retention"
    using assms(1) replace_release_ids [OF Some]
    by (metis length_map releases_ok_def)
  with Some assms replace_release_ids [OF Some] show ?thesis
    by (simp add: append_successful_release_def keep_latest_def)
qed

section \<open>Pruning\<close>

definition in_release :: "string \<Rightarrow> string \<Rightarrow> string \<Rightarrow> bool" where
  "in_release base i p \<longleftrightarrow> p = release_dir base i \<or> has_prefix p (release_dir base i @ ''/'')"

lemma map_of_filter_keys: "map_of (filter (\<lambda>(p, _). P p) al) q = (if P q then map_of al q else None)"
  by (induction al) auto

lemma map_of_remove_all:
  "map_of (dk_files (remove_all (release_dir base i) d)) p =
   (if in_release base i p then None else map_of (dk_files d) p)"
proof -
  have "map_of (dk_files (remove_all (release_dir base i) d)) p =
      (if p \<noteq> release_dir base i \<and> \<not> has_prefix p (release_dir base i @ ''/'')
       then map_of (dk_files d) p else None)"
    unfolding remove_all_def by (simp add: map_of_filter_keys)
  then show ?thesis by (auto simp: in_release_def)
qed

lemma prune_journal [simp]: "dk_journal (prune_releases base stuck s d) = dk_journal d"
proof -
  have "dk_journal (fold (\<lambda>i d. if i \<in> K \<or> stuck i then d else remove_all (release_dir base i) d) is d) =
      dk_journal d" for K "is" and d :: disk
    by (induction "is" arbitrary: d) (simp_all add: remove_all_def)
  then show ?thesis by (simp add: prune_releases_def)
qed

text \<open>Pruning takes exactly the files below the release directories it does not keep.\<close>

lemma map_of_prune:
  "map_of (dk_files (prune_releases base stuck s d)) p =
   (if \<exists>i \<in> set (release_entries base d). i \<notin> set (kept_releases base s) \<and> \<not> stuck i \<and> in_release base i p
    then None else map_of (dk_files d) p)"
proof -
  have "map_of (dk_files (fold (\<lambda>i d. if i \<in> K \<or> stuck i then d else remove_all (release_dir base i) d) is d)) p =
      (if \<exists>i \<in> set is. i \<notin> K \<and> \<not> stuck i \<and> in_release base i p then None else map_of (dk_files d) p)"
    for K "is" and d :: disk
    by (induction "is" arbitrary: d) (auto simp: map_of_remove_all)
  then show ?thesis by (simp add: prune_releases_def)
qed

lemma split_on_pair:
  "split_on c xs = [a, b] \<Longrightarrow> xs = a @ c # b \<and> c \<notin> set a"
proof (induction xs arbitrary: a)
  case (Cons x xs)
  have single: "split_on c ys = [b] \<Longrightarrow> ys = b" for ys b
    by (induction ys arbitrary: b) (auto split: if_splits list.splits)
  show ?case
  proof (cases "x = c")
    case True
    then show ?thesis using Cons.prems single by auto
  next
    case False
    then obtain a' where "split_on c xs = [a', b]" "a = x # a'"
      using Cons.prems by (auto split: list.splits)
    with Cons.IH False show ?thesis by auto
  qed
qed simp

lemma release_id_path:
  assumes "release_id_for_path (release_root base) p = Some i"
  shows "p = release_binary base i \<and> CHR ''/'' \<notin> set i"
proof -
  obtain r where p: "p = (release_root base @ ''/'') @ r"
    using assms by (auto simp: release_id_for_path_def has_prefix_iff split: if_splits)
  have "trim_prefix p (release_root base @ ''/'') = r" unfolding p by (rule trim_prefix_append)
  then have sp: "split_on (CHR ''/'') r = [i, binary_name]"
    using assms by (auto simp: release_id_for_path_def split: if_splits list.splits)
  from split_on_pair [OF sp] p show ?thesis
    by (simp add: release_binary_def release_dir_def)
qed

lemma in_release_unique:
  assumes "in_release base i (release_binary base j)" and "CHR ''/'' \<notin> set i" and "CHR ''/'' \<notin> set j"
  shows "i = j"
proof -
  obtain r where "j @ ''/'' @ binary_name = i \<or> j @ ''/'' @ binary_name = (i @ ''/'') @ r"
    using assms(1)
    by (auto simp: in_release_def release_binary_def release_dir_def has_prefix_iff)
  then have "j @ CHR ''/'' # binary_name = i @ CHR ''/'' # r"
    using assms(2) by (auto simp: in_set_conv_decomp)
  moreover have "takeWhile (\<lambda>c. c \<noteq> CHR ''/'') (k @ CHR ''/'' # t) = k" if "CHR ''/'' \<notin> set k" for k t
    using that by (induction k) auto
  ultimately show ?thesis using assms(2,3) by metis
qed

lemma set_map_filter: "set (List.map_filter f xs) = {y. \<exists>x \<in> set xs. f x = Some y}"
  by (induction xs) (auto simp: map_filter_simps split: option.split)

text \<open>The binaries a journal still needs: what it may fall back to, boot, or has kept.\<close>

definition needed :: "deployment \<Rightarrow> string \<Rightarrow> bool" where
  "needed s p \<longleftrightarrow> p = dp_previous s \<or> p \<in> rl_path ` set (dp_releases s) \<or>
     ((pending_phase (dp_phase s) \<or> dp_phase s = Promoted) \<and> p = dp_candidate s)"

text \<open>A release's binary, or a file outside the release root.\<close>

definition plain_binary :: "string \<Rightarrow> string \<Rightarrow> bool" where
  "plain_binary base p \<longleftrightarrow> release_id_for_path (release_root base) p \<noteq> None \<or>
     \<not> has_prefix p (release_root base @ ''/'')"

lemma entries_plain: "i \<in> set (release_entries base d) \<Longrightarrow> CHR ''/'' \<notin> set i"
  by (auto simp: release_entries_def List.map_filter_def dest: release_id_path)

lemma prune_keeps:
  assumes "needed s p" and "plain_binary base p"
  shows "map_of (dk_files (prune_releases base stuck s d)) p = map_of (dk_files d) p"
proof (cases "release_id_for_path (release_root base) p")
  case None
  then have "\<not> has_prefix p (release_root base @ ''/'')" using assms(2) by (simp add: plain_binary_def)
  then have "\<not> in_release base i p" for i
    by (auto simp: in_release_def release_dir_def has_prefix_iff)
  then show ?thesis by (simp add: map_of_prune)
next
  case (Some j)
  have "p \<in> set (map rl_path (dp_releases s) @
      (if pending_phase (dp_phase s) \<or> dp_phase s = Promoted then [dp_candidate s] else []) @
      [dp_previous s])"
    using assms(1) by (auto simp: needed_def)
  with Some have "j \<in> set (kept_releases base s)"
    unfolding kept_releases_def set_map_filter by blast
  moreover have "i = j" if "i \<in> set (release_entries base d)" "in_release base i p" for i
  proof (rule in_release_unique)
    show "in_release base i (release_binary base j)"
      using that(2) release_id_path [OF Some] by simp
    show "CHR ''/'' \<notin> set i" using that(1) by (rule entries_plain)
    show "CHR ''/'' \<notin> set j" using release_id_path [OF Some] by simp
  qed
  ultimately have "\<not> (\<exists>i \<in> set (release_entries base d). i \<notin> set (kept_releases base s) \<and> \<not> stuck i \<and> in_release base i p)"
    by blast
  then show ?thesis by (simp only: map_of_prune if_False)
qed

section \<open>Histories\<close>

datatype up_op =
    Deploy_Op deploy_world string string version string
  | Restart_Op deploy_world
  | Migrating_Op "nat \<Rightarrow> bool" instant
  | Starting_Op "nat \<Rightarrow> bool" instant
  | Promoted_Op "nat \<Rightarrow> bool" "string \<Rightarrow> bool" instant
  | Attach_Op "nat \<Rightarrow> bool" instant string
  | Failure_Op phase "nat \<Rightarrow> bool" instant version string
  | Boot_Op version bool "string \<Rightarrow> bool"

fun up_exec :: "up_op \<Rightarrow> updater \<times> disk \<Rightarrow> updater \<times> disk" where
  "up_exec (Deploy_Op w url sha t msg) (u, d) = snd (deploy w url sha t msg u d)"
| "up_exec (Restart_Op w) (u, d) = snd (restart_in_place w u d)"
| "up_exec (Migrating_Op io now) (u, d) = snd (mark_migrating io now u d)"
| "up_exec (Starting_Op io now) (u, d) = snd (mark_starting io now u d)"
| "up_exec (Promoted_Op io stuck now) (u, d) = snd (mark_promoted io stuck now u d)"
| "up_exec (Attach_Op io now snap) (u, d) = (u, snd (attach_sqlite_snapshot io now snap u d))"
| "up_exec (Failure_Op ph io now v cause) (u, d) = snd (record_failure ph io now v cause u d)"
| "up_exec (Boot_Op v fault stuck) (u, d) = new_with_base_path v (up_base u) fault stuck d"

definition journal_releases :: "disk \<Rightarrow> release list" where
  "journal_releases d = (case dk_journal d of Journal s \<Rightarrow> dp_releases s | _ \<Rightarrow> [])"

lemma load_state_journal: "load_state base f d = Inr s \<Longrightarrow> dk_journal d = Journal s"
  by (auto simp: load_state_def split: if_splits journal.splits)

lemma save_state_cases:
  "save_state base f now s d = (e, d') \<Longrightarrow>
   dk_files d' = dk_files d \<and>
   (e \<noteq> None \<and> dk_journal d' = dk_journal d \<or>
    e = None \<and> dk_journal d' = Journal (s\<lparr>dp_updated := now\<rparr>))"
  by (auto simp: save_state_def split: if_splits)

lemma save_state_files [simp]: "dk_files (snd (save_state base f now s d)) = dk_files d"
  by (simp add: save_state_def)

lemma releases_ok_Nil [simp]: "releases_ok []"
  by (simp add: releases_ok_def)

lemma on_candidate_rule:
  assumes "\<And>e. P (e, u, d)"
    and "\<And>s. dk_journal d = Journal s \<Longrightarrow> active_candidate u s \<Longrightarrow> P (body s)"
  shows "P (on_candidate body io u d)"
  using assms
  by (auto simp: on_candidate_def dest: load_state_journal split: sum.split io_error.split)

abbreviation releases_after :: "'a \<times> updater \<times> disk \<Rightarrow> bool" where
  "releases_after out \<equiv> releases_ok (journal_releases (snd (snd out)))"

lemma releases_save:
  assumes "releases_ok (journal_releases d)" and "releases_ok (dp_releases s)"
  shows "releases_ok (journal_releases (snd (save_state base f now s d)))"
  using assms by (auto simp: save_state_def journal_releases_def)

lemma releases_journal: "releases_ok (journal_releases d) \<Longrightarrow> dk_journal d = Journal s \<Longrightarrow> releases_ok (dp_releases s)"
  by (simp add: journal_releases_def)

lemma releases_prune [simp]: "journal_releases (prune_releases base stuck s d) = journal_releases d"
  by (simp add: journal_releases_def)

lemma marks_releases:
  assumes "releases_ok (journal_releases d)"
  shows "releases_after (mark_migrating io now u d)" "releases_after (mark_starting io now u d)"
    "releases_after (mark_promoted io stuck now u d)"
proof -
  have ok: "releases_ok (journal_releases (snd (save_state base f now s d)))"
    if "releases_ok (dp_releases s)" for base f s
    using releases_save [OF assms that] .
  show "releases_after (mark_migrating io now u d)"
    unfolding mark_migrating_def
    by (rule on_candidate_rule) (use ok assms releases_journal [OF assms] in \<open>simp_all add: case_prod_beta\<close>)
  show "releases_after (mark_starting io now u d)"
    unfolding mark_starting_def
    by (rule on_candidate_rule)
      (use ok assms releases_journal [OF assms] in \<open>simp_all add: case_prod_beta split: option.split\<close>)
  show "releases_after (mark_promoted io stuck now u d)"
    unfolding mark_promoted_def Let_def
    by (rule on_candidate_rule)
      (use ok assms releases_journal [OF assms] in
        \<open>simp_all add: case_prod_beta promoted_state_def releases_ok_append split: option.split\<close>)
qed

lemma releases_staged:
  assumes "releases_ok (journal_releases d)"
    and "prior = None \<or> (\<exists>p. prior = Some p \<and> dk_journal d = Journal p)"
  shows "releases_ok (dp_releases (staged_state w c r e t prior))"
  using assms releases_journal [OF assms(1)]
  by (auto simp: staged_state_def releases_ok_append)

lemma releases_deploy:
  assumes "releases_ok (journal_releases d)"
  shows "releases_after (deploy w url sha t msg u d)"
proof -
  have same: "journal_releases (d\<lparr>dk_files := f\<rparr>) = journal_releases d" for f
    by (simp add: journal_releases_def)
  have stage: "releases_ok (dp_releases (staged_state w c r e t (case load_state b g d of Inl _ \<Rightarrow> None | Inr p \<Rightarrow> Some p)))"
    for c r e b g
    by (rule releases_staged [OF assms]) (auto dest: load_state_journal split: sum.split)
  have saved: "releases_ok (journal_releases (snd (save_state b g now s (d\<lparr>dk_files := f\<rparr>))))"
    if "releases_ok (dp_releases s)" for b g now s f
    using releases_save [of "d\<lparr>dk_files := f\<rparr>" s b g now] assms that by (simp add: same)
  show ?thesis
    using assms saved [OF stage] saved [OF releases_staged [OF assms, of None]] saved [OF releases_staged [OF assms]]
    by (auto simp: deploy_def Let_def fail_deploy_def case_prod_beta dest: load_state_journal
        split: option.split sum.split io_error.split)
qed

lemma releases_restart:
  assumes "releases_ok (journal_releases d)"
  shows "releases_after (restart_in_place w u d)"
  using assms releases_journal [OF assms]
  by (auto simp: restart_in_place_def Let_def case_prod_beta intro!: releases_save
      dest: load_state_journal split: option.split sum.split io_error.split)

lemma releases_failure:
  assumes "releases_ok (journal_releases d)"
  shows "releases_after (record_failure ph io now v cause u d)"
  using assms releases_journal [OF assms]
  by (auto simp: record_failure_def case_prod_beta intro!: releases_save
      dest: load_state_journal split: option.split sum.split io_error.split)

lemma releases_exec:
  assumes "releases_ok (journal_releases (snd x))"
  shows "releases_ok (journal_releases (snd (up_exec op x)))"
proof -
  obtain u d where x: "x = (u, d)" by fastforce
  have d: "releases_ok (journal_releases d)" using assms by (simp add: x)
  show ?thesis
    using d marks_releases [OF d] releases_deploy [OF d] releases_restart [OF d]
      releases_failure [OF d] releases_journal [OF d]
    by (cases op)
      (auto simp: x attach_sqlite_snapshot_def new_with_base_path_def Let_def
        intro!: releases_save dest: load_state_journal split: sum.split)
qed

lemma deploy_files:
  assumes "deploy w url sha t msg u d = (e, u', d')"
  shows "p \<noteq> release_binary (up_base u) (deployment_id (dw_sha w) t (to_lower (trim_space sha))) \<Longrightarrow>
         map_of (dk_files d') p = map_of (dk_files d) p"
  using assms
  by (auto simp: deploy_def Let_def fail_deploy_def update_conv'
      dest!: save_state_cases split: if_splits option.splits sum.splits io_error.splits prod.splits)

section \<open>Properties\<close>

text \<open>
  whatever is deployed, restarted, marked, failed or booted in whatever order, the journal
  lists at most twelve successful releases and none twice, and a promotion leaves the promoted
  build among them.
\<close>

theorem releases_stay_bounded:
  assumes "releases_ok (journal_releases d)" and "fold up_exec ops (u, d) = (u1, d1)"
  shows "releases_ok (journal_releases d1) \<and>
         (\<forall>io stuck now u2 d2 s.
            mark_promoted io stuck now u1 d1 = (None, u2, d2) \<and> up_base u1 \<noteq> [] \<and> \<not> io 0 \<and>
            dk_journal d1 = Journal s \<and> active_candidate u1 s \<and> dp_id s \<noteq> [] \<longrightarrow>
            dp_candidate s \<in> rl_path ` set (journal_releases d2))"
proof -
  have ok: "releases_ok (journal_releases d1)"
    using assms
  proof (induction ops arbitrary: u d)
    case (Cons op ops)
    then show ?case
      using releases_exec [of "(u, d)" op] by (cases "up_exec op (u, d)") simp
  qed simp
  have "dp_candidate s \<in> rl_path ` set (journal_releases d2)"
    if m: "mark_promoted io stuck now u1 d1 = (None, u2, d2)" "up_base u1 \<noteq> []" "\<not> io 0"
      and s: "dk_journal d1 = Journal s" "active_candidate u1 s" "dp_id s \<noteq> []"
    for io stuck now u2 d2 s
  proof -
    let ?r = "\<lparr>rl_id = dp_id s, rl_target = dp_target s, rl_path = dp_candidate s,
      rl_sha = dp_sha s, rl_promoted = now\<rparr>"
    have "load_state (up_base u1) (io 0) d1 = Inr s"
      using m s by (simp add: load_state_def)
    then have "journal_releases d2 = append_successful_release ?r (dp_releases s)"
      using m s
      by (auto simp: mark_promoted_def on_candidate_def Let_def journal_releases_def
          promoted_state_def dest!: save_state_cases split: prod.splits option.splits if_splits)
    moreover have "?r \<in> set (append_successful_release ?r (dp_releases s))"
      using releases_journal [OF ok s(1)] s by (intro append_keeps_newest) (auto simp: active_candidate_def)
    ultimately show ?thesis by force
  qed
  with ok show ?thesis by blast
qed

definition up_demo_version :: "string \<Rightarrow> version" where
  "up_demo_version c = \<lparr>vi_version = ''1.0'', vi_branch = ''main'', vi_commit = c, vi_built = []\<rparr>"

definition up_demo_deployment :: deployment where
  "up_demo_deployment =
     \<lparr>dp_id = ''new-1'', dp_phase = Staged, dp_target = up_demo_version ''new'',
      dp_candidate = ''/d/releases/new-1/agent-orchestrator'', dp_previous = ''/bin/app'',
      dp_sha = ''ab'', dp_snapshot = [], dp_schema = [], dp_updated = 0, dp_error = [],
      dp_releases = []\<rparr>"

definition up_demo_updater :: "string \<Rightarrow> updater" where
  "up_demo_updater c =
     \<lparr>up_base = ''/d'', up_current = up_demo_version c, up_deploying = False, up_restart = None,
      up_shown_deploying = False, up_shown_phase = None, up_shown_error = [], up_shown_id = []\<rparr>"

definition up_demo_disk :: disk where
  "up_demo_disk = \<lparr>dk_journal = Journal up_demo_deployment,
                dk_files = [(''/d/releases/new-1/agent-orchestrator'', ''new'')]\<rparr>"

lemmas up_demo_defs = up_demo_version_def up_demo_deployment_def up_demo_updater_def up_demo_disk_def

lemma releases_stay_bounded_witness:
  "let x = fold up_exec [Starting_Op (\<lambda>_. False) 3, Promoted_Op (\<lambda>_. False) (\<lambda>_. False) 5]
             (up_demo_updater ''new'', up_demo_disk)
   in releases_ok (journal_releases (snd x)) \<and> length (journal_releases (snd x)) = 1"
proof -
  let ?ops = "[Starting_Op (\<lambda>_. False) 3, Promoted_Op (\<lambda>_. False) (\<lambda>_. False) 5]"
  let ?x = "fold up_exec ?ops (up_demo_updater ''new'', up_demo_disk)"
  have "releases_ok (journal_releases up_demo_disk)"
    by (simp add: up_demo_defs journal_releases_def)
  then have "releases_ok (journal_releases (snd ?x))"
    using releases_stay_bounded [of up_demo_disk ?ops "up_demo_updater ''new''" "fst ?x" "snd ?x"] by simp
  moreover have "length (journal_releases (snd ?x)) = 1"
    by code_simp
  ultimately show ?thesis by (simp add: Let_def)
qed

text \<open>
  a deployment that succeeds came from an allowed address and stored, under the path the
  journal now names as staged candidate, exactly the bytes with the requested digest, beside
  the running binary as fallback; one that fails leaves the journal and every other file as
  they were, and one that meets another in progress changes nothing.
\<close>

theorem deploy_pins_artifact:
  assumes "deploy w url sha t msg u d = (e, u', d')"
  defines "candidate \<equiv> release_binary (up_base u) (deployment_id (dw_sha w) t (to_lower (trim_space sha)))"
  shows "(\<forall>p. p \<noteq> candidate \<longrightarrow> map_of (dk_files d') p = map_of (dk_files d) p) \<and>
         (case e of
            None \<Rightarrow>
              \<not> up_deploying u \<and> validate_download_url (dw_parse w) (dw_hosts w) (dw_repo w) url = None \<and>
              (\<exists>bin running s. dw_executable w = Some running \<and> dw_download w = Some bin \<and>
                 hex_encode (dw_sha w bin) = to_lower (trim_space sha) \<and> length bin \<le> max_binary_size \<and>
                 map_of (dk_files d') candidate = Some bin \<and> dk_journal d' = Journal s \<and>
                 dp_phase s = Staged \<and> dp_target s = t \<and> dp_candidate s = candidate \<and>
                 dp_previous s = running \<and> up_restart u' = Some candidate)
          | Some err \<Rightarrow> dk_journal d' = dk_journal d \<and> (err = In_Progress \<longrightarrow> u' = u \<and> d' = d))"
proof -
  have upd: "map_of (AList.update k v al) p = (if p = k then Some v else map_of al p)" for k v al p
    by (simp add: update_conv')
  show ?thesis
    using assms(1) unfolding candidate_def
    by (auto simp: deploy_def Let_def fail_deploy_def upd staged_state_def not_less
        dest!: save_state_cases split: if_splits option.splits sum.splits io_error.splits prod.splits)
qed

definition up_demo_world :: deploy_world where
  "up_demo_world =
     \<lparr>dw_parse = (\<lambda>_. Some \<lparr>ur_scheme = ''https'', ur_host = ''objects.githubusercontent.com'', ur_path = ''/x''\<rparr>),
      dw_hosts = [], dw_repo = [], dw_sha = (\<lambda>_. ''a''), dw_executable = Some ''/bin/app'',
      dw_download = Some ''bin'', dw_io = (\<lambda>_. False), dw_now = 7\<rparr>"

lemma deploy_pins_artifact_witness:
  "let (e, u', d') = deploy up_demo_world ''x'' ('' '' @ hex_encode ''a'') (up_demo_version ''c'') []
                       (up_demo_updater ''old'') up_demo_disk
   in e = None \<and> (\<exists>s. dk_journal d' = Journal s \<and> dp_phase s = Staged \<and> dp_previous s = ''/bin/app'' \<and>
        map_of (dk_files d') (dp_candidate s) = Some ''bin'')"
proof -
  let ?r = "deploy up_demo_world ''x'' ('' '' @ hex_encode ''a'') (up_demo_version ''c'') []
              (up_demo_updater ''old'') up_demo_disk"
  obtain e u' d' where r: "?r = (e, u', d')" by (cases ?r)
  have "validate_download_url (dw_parse up_demo_world) [] [] ''x'' = None" by code_simp
  moreover have "to_lower (trim_space ('' '' @ hex_encode ''a'')) = ''61''" and "hex_encode ''a'' = ''61''"
    by code_simp+
  ultimately have "fst ?r = None"
    by (simp add: deploy_def Let_def up_demo_updater_def up_demo_disk_def load_state_def
        save_state_def up_demo_world_def max_binary_size_def)
  with r have e: "e = None" by simp
  from deploy_pins_artifact [OF r]
  have "\<exists>s. dk_journal d' = Journal s \<and> dp_phase s = Staged \<and> dp_previous s = ''/bin/app'' \<and>
        map_of (dk_files d') (dp_candidate s) = Some ''bin''"
    by (auto simp: e up_demo_world_def)
  then show ?thesis unfolding r by (simp add: e)
qed

lemma needed_updated [simp]: "needed (s\<lparr>dp_updated := t\<rparr>) p = needed s p"
  by (simp add: needed_def)

text \<open>
  no step but a deployment writes a release, and none, whatever it prunes, takes a binary
  that the journal it leaves behind may still boot, fall back to or has listed as successful.
\<close>

theorem needed_binaries_survive:
  assumes "up_exec op (u, d) = (u', d')" and "dk_journal d' = Journal s'"
    and "needed s' p" and "plain_binary (up_base u) p"
    and "\<And>w url sha t msg. op = Deploy_Op w url sha t msg \<Longrightarrow>
           p \<noteq> release_binary (up_base u) (deployment_id (dw_sha w) t (to_lower (trim_space sha)))"
  shows "map_of (dk_files d') p = map_of (dk_files d) p"
proof -
  have keep: "map_of (dk_files (prune_releases (up_base u) stuck s d)) p = map_of (dk_files d) p"
    if "needed s p" for stuck s and d :: disk
    by (rule prune_keeps [OF that assms(4)])
  show ?thesis
  proof (cases op)
    case (Deploy_Op w url sha t msg)
    have "deploy w url sha t msg u d = (fst (deploy w url sha t msg u d), u', d')"
      using assms(1) Deploy_Op by (metis prod.collapse up_exec.simps(1))
    from deploy_files [OF this] assms(5) [OF Deploy_Op] show ?thesis by blast
  next
    case (Promoted_Op io stuck now)
    show ?thesis
      using assms(1-3) keep
      by (auto simp: Promoted_Op mark_promoted_def on_candidate_def Let_def
          dest!: save_state_cases split: prod.splits option.splits if_splits sum.splits io_error.splits)
  next
    case (Boot_Op v fault stuck)
    then show ?thesis
      using assms(1-3) keep
      by (auto simp: new_with_base_path_def Let_def dest!: load_state_journal split: sum.splits)
  qed (use assms(1) in \<open>auto simp: restart_in_place_def mark_migrating_def mark_starting_def
      on_candidate_def record_failure_def attach_sqlite_snapshot_def Let_def
      dest!: save_state_cases split: prod.splits option.splits if_splits sum.splits io_error.splits\<close>)
qed

theorem needed_binaries_survive_witness:
  "map_of (dk_files (snd (up_exec (Boot_Op (up_demo_version ''old'') False (\<lambda>_. False))
       (up_demo_updater ''old'', up_demo_disk)))) (dp_candidate up_demo_deployment) = Some ''new''"
proof -
  let ?op = "Boot_Op (up_demo_version ''old'') False (\<lambda>_. False)" and ?u = "up_demo_updater ''old''"
  let ?r = "up_exec ?op (?u, up_demo_disk)" and ?p = "''/d/releases/new-1/agent-orchestrator''"
  have p: "dp_candidate up_demo_deployment = ?p" "map_of (dk_files up_demo_disk) ?p = Some ''new''"
    by (simp_all add: up_demo_defs)
  have "release_id_for_path (release_root ''/d'') ?p = Some ''new-1''" by code_simp
  then have plain: "plain_binary (up_base ?u) ?p" by (simp add: plain_binary_def up_demo_updater_def)
  have need: "needed up_demo_deployment ?p"
    by (simp add: needed_def pending_phase_def up_demo_deployment_def)
  have "dk_journal (snd ?r) = Journal up_demo_deployment"
    by (simp add: new_with_base_path_def load_state_def up_demo_updater_def up_demo_disk_def Let_def)
  from needed_binaries_survive [OF prod.collapse [symmetric] this need plain]
  show ?thesis by (simp add: p)
qed

end
