(* ===== verification/Artifact_Signature.thy ===== *)
theory Artifact_Signature
  imports Updater
begin

text \<open>
  The optional signature over a deployment (\<open>pkg/updater/signature.go\<close>): the envelope that is
  signed, the decoding of the key, and the check.  Ed25519 is an argument.
\<close>

definition join_lines :: "string list \<Rightarrow> string" where
  "join_lines parts = (case parts of [] \<Rightarrow> [] | p # ps \<Rightarrow> p @ concat (map (\<lambda>q. CHR 0x0A # q) ps))"

definition artifact_signing_message :: "string \<Rightarrow> string \<Rightarrow> version \<Rightarrow> bytes" where
  "artifact_signing_message url sha256 t =
     join_lines [url, to_lower (trim_space sha256), vi_version t, vi_branch t, vi_commit t, vi_built t]"

definition hex_val :: "char \<Rightarrow> nat option" where
  "hex_val c =
     (let n = of_char c :: nat
      in if 48 \<le> n \<and> n \<le> 57 then Some (n - 48)
         else if 97 \<le> n \<and> n \<le> 102 then Some (n - 87)
         else if 65 \<le> n \<and> n \<le> 70 then Some (n - 55)
         else None)"

fun hex_decode :: "string \<Rightarrow> bytes option" where
  "hex_decode [] = Some []"
| "hex_decode [_] = None"
| "hex_decode (a # b # r) =
     (case (hex_val a, hex_val b, hex_decode r) of
        (Some h, Some l, Some bs) \<Rightarrow> Some (byte (16 * h + l) # bs)
      | _ \<Rightarrow> None)"

text \<open>Base64 is tried first.\<close>

definition decode_key :: "string \<Rightarrow> bytes option" where
  "decode_key value =
     (let v = trim_space value
      in case b64_decode v of Some b \<Rightarrow> Some b | None \<Rightarrow> hex_decode v)"

datatype signature_error = Bad_Key | Bad_Signature | Bad_Length | Not_Verified

definition verify_artifact_signature ::
  "(bytes \<Rightarrow> bytes \<Rightarrow> bytes \<Rightarrow> bool) \<Rightarrow> string \<Rightarrow> string \<Rightarrow> version \<Rightarrow> string \<Rightarrow> string \<Rightarrow>
   signature_error option" where
  "verify_artifact_signature ed url sha256 t signature public_key =
     (case decode_key public_key of
        None \<Rightarrow> Some Bad_Key
      | Some key \<Rightarrow>
          (case b64_decode (trim_space signature) of
             None \<Rightarrow> Some Bad_Signature
           | Some sig \<Rightarrow>
               if length key \<noteq> 32 \<or> length sig \<noteq> 64 then Some Bad_Length
               else if \<not> ed key (artifact_signing_message url sha256 t) sig then Some Not_Verified
               else None))"

section \<open>What the envelope binds\<close>

lemma cut_line:
  fixes c :: char
  assumes "c \<notin> set a" and "c \<notin> set b"
  shows "a @ c # x = b @ c # y \<longleftrightarrow> a = b \<and> x = y"
proof
  assume eq: "a @ c # x = b @ c # y"
  have "Some (a, x) = cut_at c (a @ c # x)" by (rule cut_at_append [symmetric]) fact
  also have "\<dots> = Some (b, y)" unfolding eq by (rule cut_at_append) fact
  finally show "a = b \<and> x = y" by simp
qed simp

text \<open>Without line breaks in them the envelope determines all its fields.\<close>

definition one_line :: "version \<Rightarrow> bool" where
  "one_line t \<longleftrightarrow> CHR 0x0A \<notin> set (vi_version t) \<union> set (vi_branch t) \<union> set (vi_commit t)"

lemma envelope_determines_fields:
  assumes "artifact_signing_message url sha t = artifact_signing_message url' sha' t'"
    and "CHR 0x0A \<notin> set url \<union> set url' \<union> set sha \<union> set sha'" and "one_line t" and "one_line t'"
  shows "url = url' \<and> to_lower (trim_space sha) = to_lower (trim_space sha') \<and> t = t'"
proof -
  have trim: "CHR 0x0A \<notin> set (to_lower (trim_space s))" if "CHR 0x0A \<notin> set s" for s
  proof -
    have sub: "set (trim_space s) \<subseteq> set s"
      by (auto simp: trim_space_def trim_left_def dest!: set_dropWhileD)
    have "lower_char c \<noteq> CHR 0x0A" if c: "c \<noteq> CHR 0x0A" for c
    proof
      assume l: "lower_char c = CHR 0x0A"
      show False
      proof (cases "65 \<le> (of_char c :: nat) \<and> of_char c \<le> (90 :: nat)")
        case True
        then have "(of_char (lower_char c) :: nat) = of_char c + 32" by (simp add: lower_char_def)
        with True l show False by simp
      next
        case False
        then have "lower_char c = c" by (auto simp: lower_char_def Let_def)
        with c l show False by simp
      qed
    qed
    then have "CHR 0x0A \<notin> lower_char ` set (trim_space s)" using that sub by (metis imageE subsetD)
    then show ?thesis by (simp add: to_lower_def)
  qed
  have "url = url' \<and> to_lower (trim_space sha) = to_lower (trim_space sha') \<and>
      vi_version t = vi_version t' \<and> vi_branch t = vi_branch t' \<and> vi_commit t = vi_commit t' \<and>
      vi_built t = vi_built t'"
    using assms(1) assms(2-4) trim [of sha] trim [of sha']
    by (simp add: artifact_signing_message_def join_lines_def one_line_def cut_line)
  then show ?thesis by (simp add: version.equality)
qed

text \<open>With them it does not: the branch can be made to end the version.\<close>

lemma envelope_ambiguous:
  "artifact_signing_message u s \<lparr>vi_version = v @ CHR 0x0A # b, vi_branch = c, vi_commit = d, vi_built = e\<rparr> =
   artifact_signing_message u s \<lparr>vi_version = v, vi_branch = b, vi_commit = c, vi_built = d @ CHR 0x0A # e\<rparr>"
  by (simp add: artifact_signing_message_def join_lines_def)

section \<open>Keys in hexadecimal\<close>

lemma hex_encode_all:
  assumes "\<forall>c \<in> set ''0123456789abcdef''. P c" and "c \<in> set (hex_encode s)"
  shows "P c"
proof -
  have "P (hex_digit n)" if "n < 16" for n
  proof -
    have "''0123456789abcdef'' ! n \<in> set ''0123456789abcdef''" using that by (intro nth_mem) simp
    with assms(1) show ?thesis unfolding hex_digit_def by blast
  qed
  moreover have "(of_char c :: nat) div 16 < 16" for c :: char
    by (rule less_mult_imp_div_less) simp
  ultimately show ?thesis using assms(2) by (auto simp: hex_encode_def Let_def)
qed

lemma length_hex_encode [simp]: "length (hex_encode s) = 2 * length s"
  by (induction s) (simp_all add: hex_encode_def Let_def)

lemma b64_groups_total:
  assumes "set s \<subseteq> set b64_alphabet" and "length s = 4 * n"
  shows "\<exists>b. b64_groups s = Some b \<and> length b = 3 * n"
  using assms
proof (induction s arbitrary: n rule: b64_groups.induct)
  case (2 a b c d r)
  then obtain m where n: "n = Suc m" and m: "length r = 4 * m" by (cases n) auto
  have val: "\<exists>k. b64_val x = Some k" if "x \<in> set b64_alphabet" for x
  proof -
    have "b64_val x \<in> set (map b64_val b64_alphabet)" using that by simp
    then show ?thesis unfolding b64_table by auto
  qed
  have pad: "c \<noteq> CHR ''=''" "d \<noteq> CHR ''=''" using 2(2) b64_plain_table by auto
  obtain bs where "b64_groups r = Some bs" "length bs = 3 * m"
  proof -
    obtain q where "quad3 a b c d = Some q"
      using val [of a] val [of b] val [of c] val [of d] 2(2) by (auto simp: quad3_def)
    with 2(1) [of q m] pad 2(2) m that show ?thesis by auto
  qed
  then show ?case
    using val [of a] val [of b] val [of c] val [of d] 2(2) pad n
    by (auto simp: quad3_def)
qed (simp_all, presburger+)

text \<open>
  A key of 32 bytes in hexadecimal is also a Base64 text, of 48 bytes; it is taken for that,
  and no signature verifies against it.
\<close>

lemma hex_key_never_verifies:
  assumes "length key = 32"
  shows "verify_artifact_signature ed url sha t sig (hex_encode key) \<in> {Some Bad_Signature, Some Bad_Length}"
proof -
  have plain: "trim_space (hex_encode key) = hex_encode key"
    "filter (\<lambda>c. c \<noteq> CHR 0x0A \<and> c \<noteq> CHR 0x0D) (hex_encode key) = hex_encode key"
  proof -
    have no: "\<not> is_space c" "c \<noteq> CHR 0x0A \<and> c \<noteq> CHR 0x0D" if "c \<in> set (hex_encode key)" for c
      by (rule hex_encode_all [OF _ that], simp add: is_space_def)+
    then show "filter (\<lambda>c. c \<noteq> CHR 0x0A \<and> c \<noteq> CHR 0x0D) (hex_encode key) = hex_encode key"
      by (simp add: filter_id_conv)
    have "dropWhile is_space xs = xs" if "set xs \<subseteq> set (hex_encode key)" for xs
      using that no by (cases xs) auto
    then show "trim_space (hex_encode key) = hex_encode key"
      by (simp add: trim_space_def trim_left_def)
  qed
  have "set (hex_encode key) \<subseteq> set b64_alphabet"
    by (intro subsetI, rule hex_encode_all) (simp_all add: b64_alphabet_def)
  then obtain b where "b64_groups (hex_encode key) = Some b" "length b = 48"
    using b64_groups_total [of "hex_encode key" 16] assms by auto
  then have "decode_key (hex_encode key) = Some b"
    by (simp add: decode_key_def b64_decode_def plain Let_def)
  with \<open>length b = 48\<close> show ?thesis
    by (auto simp: verify_artifact_signature_def split: option.split)
qed

end
