(* ===== verification/Deploy_Webhook.thy ===== *)
theory Deploy_Webhook
  imports Env_Store Artifact_Signature
begin

text \<open>
  The deployment endpoint (\<open>server/controllers/deploy.go\<close>) and the settings it reads
  (\<open>pkg/utils/env.go\<close>, \<open>pkg/appsettings\<close>): which events a server acts on, what it stores of the
  delivered configuration, and how it answers.  It drives the updater of \<open>Updater\<close> and the
  store of \<open>Env_Store\<close>.

  A request is the presented key and the decoded payload, \<open>None\<close> for a body that does not
  decode; the answer is the status with what CI can see of the body.
\<close>

section \<open>Environment and settings\<close>

definition env_staging :: string where "env_staging = ''staging''"
definition env_production :: string where "env_production = ''production''"

definition current_env :: "environment \<Rightarrow> string" where
  "current_env e =
     (if to_lower (trim_space (getenv e ''HEADCOUNT1_ENV'')) = env_staging then env_staging
      else env_production)"

definition deploy_api_key :: "environment \<Rightarrow> string" where
  "deploy_api_key e = getenv e ''HEADCOUNT1_DEPLOY_API_KEY''"

record settings =
  sg_source :: string
  sg_auto :: bool

definition effective_deploy_source :: "settings \<Rightarrow> string" where
  "effective_deploy_source s = (if sg_source s = ''main'' then ''main'' else ''releases'')"

definition display_string :: "version \<Rightarrow> string" where
  "display_string v =
     (if vi_commit v = [] \<or> vi_commit v = ''unknown'' then ''dev''
      else vi_branch v @ ''+'' @ vi_built v @ ''+'' @ vi_commit v)"

section \<open>The payload and the decision\<close>

record payload =
  pl_event :: string
  pl_ref :: string
  pl_commit :: string
  pl_built :: string
  pl_version :: string
  pl_url :: string
  pl_sha :: string
  pl_signature :: string
  pl_target :: string
  pl_env :: "delivery option"
  pl_env_secrets :: "string list"

definition deploy_decision :: "payload \<Rightarrow> string \<Rightarrow> settings \<Rightarrow> bool \<times> string" where
  "deploy_decision p env s =
     (if pl_target p \<noteq> [] \<and> pl_target p \<noteq> env
      then (False, ''event targets '' @ pl_target p @ '', this server is '' @ env)
      else if \<not> sg_auto s then (False, ''auto-deploy is disabled on this server'')
      else if env = env_staging then
        (if pl_event p = ''branch'' then (True, ''staging deploys branch '' @ pl_ref p)
         else (False, ''staging only auto-deploys branch/PR events''))
      else if effective_deploy_source s = ''main'' then
        (if pl_event p = ''main'' then (True, ''production tracking main: deploying main push'')
         else (False, ''production tracks main; ignoring '' @ pl_event p @ '' event''))
      else
        (if pl_event p = ''release''
         then (True, ''production tracking releases: deploying release '' @ pl_ref p)
         else (False, ''production tracks releases; ignoring '' @ pl_event p @ '' event'')))"

section \<open>Delivered configuration\<close>

definition incoming_store :: "payload \<Rightarrow> delivery \<Rightarrow> store \<Rightarrow> store" where
  "incoming_store p accepted current =
     \<lparr>st_values = accepted,
      st_secret = filter (\<lambda>k. map_of accepted k \<noteq> None) (pl_env_secrets p),
      st_removed = filter (\<lambda>k. map_of accepted k = None) (map fst (st_values current)),
      st_updated = []\<rparr>"

text \<open>The answer is whether anything changed and what was skipped, or that saving failed.\<close>

definition persist_delivered_env ::
  "(bytes \<Rightarrow> bytes) \<Rightarrow> bool \<Rightarrow> bool \<Rightarrow> string \<Rightarrow> payload \<Rightarrow> store_file \<Rightarrow>
   (unit + bool \<times> delivery) \<times> store_file" where
  "persist_delivered_env sha load_fault save_fault stamp p f =
     (case pl_env p of
        None \<Rightarrow> (Inr (False, []), f)
      | Some d \<Rightarrow>
          (let (accepted, skipped) = partition_env d;
               current = (case load_store load_fault f of Inl _ \<Rightarrow> empty_store | Inr s \<Rightarrow> s);
               incoming = incoming_store p accepted current
           in if digest sha incoming = digest sha current then (Inr (False, skipped), f)
              else case save_store save_fault stamp incoming f of
                     (False, f') \<Rightarrow> (Inl (), f')
                   | (True, f') \<Rightarrow> (Inr (True, skipped), f')))"

section \<open>The endpoint\<close>

datatype hook_body =
    Hook_Error | Hook_Ignored string | Hook_Restarting | Hook_Deploying string string

record hook_answer =
  ha_status :: nat
  ha_body :: hook_body
  ha_skipped :: "string list"

record hook_world =
  hw_env :: environment
  hw_settings :: settings
  hw_deploy :: deploy_world
  hw_verify :: "bytes \<Rightarrow> bytes \<Rightarrow> bytes \<Rightarrow> bool"
  hw_load_fault :: bool
  hw_save_fault :: bool
  hw_stamp :: string
  hw_msg :: string

record server =
  sv_store :: store_file
  sv_updater :: "updater option"
  sv_disk :: disk

definition hook_error :: "nat \<Rightarrow> hook_answer" where
  "hook_error code = \<lparr>ha_status = code, ha_body = Hook_Error, ha_skipped = []\<rparr>"

definition deploy_surroundings :: "hook_world \<Rightarrow> deploy_world" where
  "deploy_surroundings w =
     (hw_deploy w)\<lparr>dw_hosts := getenv (hw_env w) ''HEADCOUNT1_DEPLOY_ALLOWED_HOSTS'',
                   dw_repo := getenv (hw_env w) ''HEADCOUNT1_DEPLOY_REPO''\<rparr>"

definition target_of :: "payload \<Rightarrow> version" where
  "target_of p = \<lparr>vi_version = pl_version p, vi_branch = pl_ref p, vi_commit = pl_commit p,
                  vi_built = pl_built p\<rparr>"

definition signature_refused :: "hook_world \<Rightarrow> payload \<Rightarrow> bool" where
  "signature_refused w p \<longleftrightarrow>
     (let key = trim_space (getenv (hw_env w) ''HEADCOUNT1_UPDATE_PUBLIC_KEY'')
      in key \<noteq> [] \<and>
         (pl_signature p = [] \<or>
          verify_artifact_signature (hw_verify w) (pl_url p) (pl_sha p) (target_of p)
            (pl_signature p) key \<noteq> None))"

text \<open>What follows the stored configuration: signature, restart or deployment.\<close>

definition apply_event ::
  "hook_world \<Rightarrow> payload \<Rightarrow> bool \<Rightarrow> delivery \<Rightarrow> server \<Rightarrow> hook_answer \<times> server" where
  "apply_event w p env_changed skipped s =
     (let respond = (\<lambda>code body. \<lparr>ha_status = code, ha_body = body, ha_skipped = skipped_summary skipped\<rparr>);
          dw = deploy_surroundings w
      in case sv_updater s of
           None \<Rightarrow> (respond 503 Hook_Error, s)
         | Some u \<Rightarrow>
             if signature_refused w p then (respond 400 Hook_Error, s)
             else if is_current u (target_of p) then
               (if env_changed then
                  (case restart_in_place dw u (sv_disk s) of
                     (Some _, u', d) \<Rightarrow> (respond 500 Hook_Error, s\<lparr>sv_updater := Some u', sv_disk := d\<rparr>)
                   | (None, u', d) \<Rightarrow> (respond 202 Hook_Restarting, s\<lparr>sv_updater := Some u', sv_disk := d\<rparr>))
                else (respond 200 (Hook_Ignored ''already running this commit''), s))
             else
               (case deploy dw (pl_url p) (pl_sha p) (target_of p) (hw_msg w) u (sv_disk s) of
                  (Some In_Progress, u', d) \<Rightarrow> (respond 409 Hook_Error, s\<lparr>sv_updater := Some u', sv_disk := d\<rparr>)
                | (Some _, u', d) \<Rightarrow> (respond 500 Hook_Error, s\<lparr>sv_updater := Some u', sv_disk := d\<rparr>)
                | (None, u', d) \<Rightarrow>
                    (respond 202 (Hook_Deploying (display_string (target_of p)) (up_shown_id u')),
                     s\<lparr>sv_updater := Some u', sv_disk := d\<rparr>)))"

definition deploy_webhook ::
  "hook_world \<Rightarrow> string \<Rightarrow> payload option \<Rightarrow> server \<Rightarrow> hook_answer \<times> server" where
  "deploy_webhook w presented body s =
     (let key = deploy_api_key (hw_env w); dw = deploy_surroundings w
      in if key = [] then (hook_error 404, s)
         else if presented \<noteq> key then (hook_error 401, s)
         else case body of
           None \<Rightarrow> (hook_error 400, s)
         | Some p \<Rightarrow>
             if validate_download_url (dw_parse dw) (dw_hosts dw) (dw_repo dw) (pl_url p) \<noteq> None
             then (hook_error 400, s)
             else if trim_space (pl_sha p) = [] then (hook_error 400, s)
             else if (case pl_env p of Some d \<Rightarrow> length d > max_keys | None \<Rightarrow> False)
             then (hook_error 400, s)
             else (case deploy_decision p (current_env (hw_env w)) (hw_settings w) of
               (False, reason) \<Rightarrow>
                 (\<lparr>ha_status = 200, ha_body = Hook_Ignored reason, ha_skipped = []\<rparr>, s)
             | (True, _) \<Rightarrow>
                 (case persist_delivered_env (dw_sha dw) (hw_load_fault w) (hw_save_fault w)
                         (hw_stamp w) p (sv_store s) of
                    (Inl _, f) \<Rightarrow> (hook_error 500, s\<lparr>sv_store := f\<rparr>)
                  | (Inr (changed, skipped), f) \<Rightarrow>
                      apply_event w p changed skipped (s\<lparr>sv_store := f\<rparr>))))"

text \<open>The status of an attempt, for CI.\<close>

definition deployment_state ::
  "string \<Rightarrow> bool \<Rightarrow> updater \<Rightarrow> disk \<Rightarrow> io_error + deployment option" where
  "deployment_state i fault u d =
     (if up_base u = [] then Inl Not_Configured
      else case load_state (up_base u) fault d of
        Inl Missing \<Rightarrow> Inr None
      | Inl e \<Rightarrow> Inl e
      | Inr s \<Rightarrow> Inr (if i \<noteq> [] \<and> dp_id s \<noteq> i then None else Some s))"

definition get_deploy_attempt_status ::
  "environment \<Rightarrow> string \<Rightarrow> string \<Rightarrow> bool \<Rightarrow> server \<Rightarrow> nat + deployment" where
  "get_deploy_attempt_status e presented i fault s =
     (let key = deploy_api_key e
      in if key = [] then Inl 404
         else if presented \<noteq> key then Inl 401
         else case sv_updater s of
           None \<Rightarrow> Inl 503
         | Some u \<Rightarrow>
             (case deployment_state i fault u (sv_disk s) of
                Inl _ \<Rightarrow> Inl 500 | Inr None \<Rightarrow> Inl 404 | Inr (Some st) \<Rightarrow> Inr st))"

section \<open>Who can make a server change\<close>

lemma deploy_writes:
  assumes "deploy w url sha t msg u d = (e, u', d')" and "map_of (dk_files d') q \<noteq> map_of (dk_files d) q"
  shows "\<exists>bin. dw_download w = Some bin \<and> map_of (dk_files d') q = Some bin \<and>
           hex_encode (dw_sha w bin) = to_lower (trim_space sha)"
  using assms
  by (auto simp: deploy_def Let_def fail_deploy_def update_conv'
      dest!: save_state_cases split: if_splits option.splits sum.splits io_error.splits prod.splits)

lemma restart_writes_nothing:
  "restart_in_place w u d = (e, u', d') \<Longrightarrow> dk_files d' = dk_files d"
  by (auto simp: restart_in_place_def Let_def dest!: save_state_cases
      split: if_splits option.splits sum.splits io_error.splits prod.splits)

text \<open>The event a server acts on, by its environment and its deploy source.\<close>

definition expected_event :: "string \<Rightarrow> settings \<Rightarrow> string" where
  "expected_event env s =
     (if env = env_staging then ''branch''
      else if effective_deploy_source s = ''main'' then ''main'' else ''release'')"

lemma deploy_decision_iff:
  "fst (deploy_decision p env s) \<longleftrightarrow>
   (pl_target p = [] \<or> pl_target p = env) \<and> sg_auto s \<and> pl_event p = expected_event env s"
  by (auto simp: deploy_decision_def expected_event_def)

lemma apply_event_cases:
  assumes "apply_event w p changed skipped s = (ans, s')"
  shows "sv_store s' = sv_store s"
    and "sv_updater s' \<noteq> sv_updater s \<or> sv_disk s' \<noteq> sv_disk s \<Longrightarrow> \<not> signature_refused w p"
    and "map_of (dk_files (sv_disk s')) q \<noteq> map_of (dk_files (sv_disk s)) q \<Longrightarrow>
         \<exists>bin. map_of (dk_files (sv_disk s')) q = Some bin \<and>
           hex_encode (dw_sha (hw_deploy w) bin) = to_lower (trim_space (pl_sha p))"
proof -
  show "sv_store s' = sv_store s"
    using assms by (auto simp: apply_event_def Let_def split: option.splits if_splits prod.splits deploy_error.splits)
  show "\<not> signature_refused w p"
    if "sv_updater s' \<noteq> sv_updater s \<or> sv_disk s' \<noteq> sv_disk s"
    using assms that by (auto simp: apply_event_def Let_def split: option.splits if_splits)
  show "\<exists>bin. map_of (dk_files (sv_disk s')) q = Some bin \<and>
      hex_encode (dw_sha (hw_deploy w) bin) = to_lower (trim_space (pl_sha p))"
    if q: "map_of (dk_files (sv_disk s')) q \<noteq> map_of (dk_files (sv_disk s)) q"
    using assms q
    by (auto simp: apply_event_def Let_def deploy_surroundings_def
        dest: restart_writes_nothing deploy_writes
        split: option.splits if_splits prod.splits deploy_error.splits)
qed

text \<open>
  C15: nothing the endpoint is sent changes the server unless the configured key was presented
  and the event comes from an allowed address, is meant for this environment and is the one
  its source setting follows; the updater and the disk then change only past the signature
  check, and every file that appears has the digest the event asked for.
\<close>

theorem webhook_acts_only_when_entitled:
  assumes "deploy_webhook w presented body s = (ans, s')" and "s' \<noteq> s"
  shows "deploy_api_key (hw_env w) \<noteq> [] \<and> presented = deploy_api_key (hw_env w) \<and>
    (\<exists>p. body = Some p \<and>
       validate_download_url (dw_parse (hw_deploy w)) (getenv (hw_env w) ''HEADCOUNT1_DEPLOY_ALLOWED_HOSTS'')
         (getenv (hw_env w) ''HEADCOUNT1_DEPLOY_REPO'') (pl_url p) = None \<and>
       (pl_target p = [] \<or> pl_target p = current_env (hw_env w)) \<and> sg_auto (hw_settings w) \<and>
       pl_event p = expected_event (current_env (hw_env w)) (hw_settings w) \<and>
       (sv_updater s' \<noteq> sv_updater s \<or> sv_disk s' \<noteq> sv_disk s \<longrightarrow> \<not> signature_refused w p) \<and>
       (\<forall>q. map_of (dk_files (sv_disk s')) q \<noteq> map_of (dk_files (sv_disk s)) q \<longrightarrow>
          (\<exists>bin. map_of (dk_files (sv_disk s')) q = Some bin \<and>
             hex_encode (dw_sha (hw_deploy w) bin) = to_lower (trim_space (pl_sha p)))))"
proof -
  have key: "deploy_api_key (hw_env w) \<noteq> []" "presented = deploy_api_key (hw_env w)"
    using assms by (auto simp: deploy_webhook_def Let_def split: if_splits)
  obtain p where p: "body = Some p"
    using assms key by (auto simp: deploy_webhook_def Let_def split: option.splits)
  have url: "validate_download_url (dw_parse (hw_deploy w)) (getenv (hw_env w) ''HEADCOUNT1_DEPLOY_ALLOWED_HOSTS'')
      (getenv (hw_env w) ''HEADCOUNT1_DEPLOY_REPO'') (pl_url p) = None"
    using assms key p by (auto simp: deploy_webhook_def Let_def deploy_surroundings_def split: if_splits)
  have dec: "fst (deploy_decision p (current_env (hw_env w)) (hw_settings w))"
    using assms key p by (auto simp: deploy_webhook_def Let_def split: if_splits bool.splits prod.splits)
  obtain f where step: "s' = s\<lparr>sv_store := f\<rparr> \<or>
      (\<exists>changed skipped. apply_event w p changed skipped (s\<lparr>sv_store := f\<rparr>) = (ans, s'))"
    using assms key p
    by (auto simp: deploy_webhook_def Let_def split: if_splits bool.splits prod.splits sum.splits)
  have "sv_updater s' \<noteq> sv_updater s \<or> sv_disk s' \<noteq> sv_disk s \<longrightarrow> \<not> signature_refused w p"
    using step apply_event_cases(2) [of w p _ _ "s\<lparr>sv_store := f\<rparr>" ans s'] by auto
  moreover have "\<exists>bin. map_of (dk_files (sv_disk s')) q = Some bin \<and>
      hex_encode (dw_sha (hw_deploy w) bin) = to_lower (trim_space (pl_sha p))"
    if "map_of (dk_files (sv_disk s')) q \<noteq> map_of (dk_files (sv_disk s)) q" for q
    using step that apply_event_cases(3) [of w p _ _ "s\<lparr>sv_store := f\<rparr>" ans s' q] by auto
  ultimately show ?thesis
    using key p url dec deploy_decision_iff by auto
qed

section \<open>From a delivery to the next boot\<close>

definition current_store :: "store_file \<Rightarrow> store" where
  "current_store f = (case f of Stored s \<Rightarrow> s | _ \<Rightarrow> empty_store)"

lemma sound_empty: "sound_store empty_store"
  by (simp add: sound_store_def empty_store_def)

lemma incoming_sound:
  assumes "sound_store current" and "distinct (map fst d)"
  shows "sound_store (incoming_store p (fst (partition_env d)) current)"
proof -
  have "distinct (map fst (fst (partition_env d)))"
    using assms(2) by (simp add: partition_accepted distinct_map_filter)
  then show ?thesis
    using assms(1)
    by (auto simp: sound_store_def incoming_store_def partition_accepted list_all_iff map_of_eq_None_iff image_iff)
qed

lemma sound_saved: "sound_store (s\<lparr>st_updated := t, st_secret := x, st_removed := sort (st_removed s)\<rparr>) = sound_store s"
  by (simp add: sound_store_def list_all_iff)

lemma persist_sound:
  assumes "persist_delivered_env sha lf sf stamp p f = (r, f')"
    and "sound_store (current_store f)" and "\<forall>d. pl_env p = Some d \<longrightarrow> distinct (map fst d)"
  shows "sound_store (current_store f')"
proof (cases "pl_env p")
  case None
  then show ?thesis using assms by (simp add: persist_delivered_env_def)
next
  case (Some d)
  have "sound_store (case load_store lf f of Inl _ \<Rightarrow> empty_store | Inr s \<Rightarrow> s)"
    using assms(2) sound_empty by (cases f) (auto simp: load_store_def current_store_def)
  from incoming_sound [OF this] assms(3) Some
  have "sound_store (incoming_store p (fst (partition_env d)) (case load_store lf f of Inl _ \<Rightarrow> empty_store | Inr s \<Rightarrow> s))"
    by simp
  then show ?thesis
    using assms(1,2) Some
    by (auto simp: persist_delivered_env_def Let_def save_store_def current_store_def sound_saved
        split: prod.splits if_splits)
qed

text \<open>
  after a delivery was accepted, the next boot applies the store without an error: every
  delivered name that may be delivered has its value, every name only the previous delivery
  had is unset, and refused names keep what the process inherited.
\<close>

theorem delivered_configuration_takes_effect:
  assumes "persist_delivered_env sha False sf stamp p f = (Inr (changed, skipped), f')"
    and "f \<noteq> Bad_Store" and "sound_store (current_store f)"
    and "pl_env p = Some d" and "distinct (map fst d)" and "\<forall>(k, v) \<in> set d. CHR 0x00 \<notin> set v"
    and "inj_on sha {digest_text (incoming_store p (fst (partition_env d)) (current_store f)),
                     digest_text (current_store f)}"
  shows "\<exists>names e'. apply_store False f' e = (names, None, e') \<and>
    (\<forall>k v. (k, v) \<in> set d \<and> validate_key k = None \<and> length v \<le> max_value_bytes \<longrightarrow> e' k = Some v) \<and>
    (\<forall>k \<in> fst ` set (st_values (current_store f)). k \<notin> fst ` set (fst (partition_env d)) \<longrightarrow> e' k = None) \<and>
    (\<forall>k. validate_key k \<noteq> None \<longrightarrow> e' k = e k)"
proof -
  let ?acc = "fst (partition_env d)" and ?cur = "current_store f"
  let ?in = "incoming_store p ?acc ?cur"
  have load: "load_store False f = Inr ?cur"
    using assms(2) by (cases f) (simp_all add: load_store_def current_store_def)
  have sound: "sound_store ?in" by (rule incoming_sound [OF assms(3,5)])
  have dist: "distinct (map fst ?acc)" using sound by (simp add: sound_store_def incoming_store_def)
  have acc: "map_of ?acc k = Some v \<longleftrightarrow> (k, v) \<in> set d \<and> validate_key k = None \<and> length v \<le> max_value_bytes"
    for k v
    using map_of_eq_Some_iff [OF dist, of k v] by (auto simp: partition_accepted)
  then have nul: "map_of ?acc k = Some v \<Longrightarrow> CHR 0x00 \<notin> set v" for k v
    using assms(6) by blast
  obtain s where s: "load_store False f' = Inr s" "sound_store s" "map_of (st_values s) = map_of ?acc"
    and rem: "\<forall>k \<in> fst ` set (st_values ?cur). k \<notin> fst ` set ?acc \<longrightarrow> k \<in> set (st_removed s)"
  proof (cases "digest sha ?in = digest sha ?cur")
    case True
    then have f': "f' = f"
      using assms(1,4) load by (simp add: persist_delivered_env_def Let_def case_prod_beta)
    have "map_of (st_values ?in) = map_of (st_values ?cur)"
      using digest_eq_iff [of ?in ?cur sha] True sound assms(3,7)
      by (simp add: sound_store_def)
    then have same: "map_of (st_values ?cur) = map_of ?acc" by (simp add: incoming_store_def)
    then have "fst ` set (st_values ?cur) = fst ` set ?acc" by (metis dom_map_of_conv_image_fst)
    with that [of ?cur] f' load assms(3) same show ?thesis by simp
  next
    case False
    let ?s = "?in\<lparr>st_updated := stamp, st_secret := sort (st_secret ?in), st_removed := sort (st_removed ?in)\<rparr>"
    have "f' = Stored ?s"
      using assms(1,4) load False
      by (auto simp: persist_delivered_env_def Let_def case_prod_beta save_store_def split: if_splits)
    moreover have "sound_store ?s" using sound by (simp only: sound_saved)
    ultimately show ?thesis
      by (intro that [of ?s]) (simp_all add: load_store_def incoming_store_def map_of_eq_None_iff)
  qed
  have disj: "k \<notin> set (st_removed s)" if "map_of ?acc k = Some v" for k v
  proof -
    have "(k, v) \<in> set (st_values s)" using that s(3) by (simp add: map_of_SomeD)
    then have "k \<in> fst ` set (st_values s)" by force
    with s(2) show ?thesis by (auto simp: sound_store_def)
  qed
  have app: "apply_store False f' e =
    (store_keys s, None, \<lambda>k. if k \<in> set (st_removed s) then None
       else case map_of ?acc k of Some v \<Rightarrow> Some v | None \<Rightarrow> e k)"
    using apply_sound [OF s(1,2)] nul unfolding s(3) by blast
  have "k \<notin> set (st_removed s)" "map_of ?acc k = None" if "validate_key k \<noteq> None" for k
    using that s(2) acc by (auto simp: sound_store_def list_all_iff)
  moreover have "map_of ?acc k = Some v"
    if "(k, v) \<in> set d \<and> validate_key k = None \<and> length v \<le> max_value_bytes" for k v
    using that acc by simp
  ultimately show ?thesis
    unfolding app using rem disj by (intro exI conjI) (auto split: option.split)
qed

section \<open>Examples\<close>

lemma deliver_changed:
  assumes "list_all (\<lambda>(k, v). validate_key k = None \<and> length v \<le> max_value_bytes) d"
    and "digest_text (incoming_store p d (current_store f)) \<noteq> digest_text (current_store f)"
    and "f \<noteq> Bad_Store" and "pl_env p = Some d"
  shows "persist_delivered_env (\<lambda>x. x) False False [] p f =
    (Inr (True, []), Stored (incoming_store p d (current_store f)
       \<lparr>st_secret := sort (st_secret (incoming_store p d (current_store f))),
        st_removed := sort (st_removed (incoming_store p d (current_store f)))\<rparr>))"
proof -
  have "partition_env d = (d, [])"
    using assms(1) by (induction d) (auto simp: Let_def)
  moreover have "load_store False f = Inr (current_store f)"
    using assms(3) by (cases f) (simp_all add: load_store_def current_store_def)
  ultimately show ?thesis
    using assms by (simp add: persist_delivered_env_def digest_def save_store_def incoming_store_def)
qed

definition hook_demo_world :: "(bytes \<Rightarrow> bytes) \<Rightarrow> environment \<Rightarrow> hook_world" where
  "hook_demo_world sha e =
     \<lparr>hw_env = e, hw_settings = \<lparr>sg_source = ''releases'', sg_auto = True\<rparr>, hw_deploy = up_demo_world\<lparr>dw_sha := sha\<rparr>,
      hw_verify = (\<lambda>_ _ _. True), hw_load_fault = False, hw_save_fault = False, hw_stamp = [], hw_msg = []\<rparr>"

definition hook_demo_payload :: "delivery \<Rightarrow> payload" where
  "hook_demo_payload d =
     \<lparr>pl_event = ''release'', pl_ref = ''v1'', pl_commit = ''new'', pl_built = [], pl_version = ''1'',
      pl_url = ''x'', pl_sha = ''61'', pl_signature = [], pl_target = [], pl_env = Some d,
      pl_env_secrets = []\<rparr>"

definition hook_demo_server :: server where
  "hook_demo_server =
     \<lparr>sv_store = No_Store, sv_updater = Some (up_demo_updater ''old''),
      sv_disk = \<lparr>dk_journal = No_Journal, dk_files = []\<rparr>\<rparr>"

lemma hook_demo_url: "validate_download_url (dw_parse up_demo_world) [] [] ''x'' = None"
  by code_simp

lemma hook_demo_deploy:
  "\<exists>u' d' s. deploy up_demo_world ''x'' ''61'' v [] (up_demo_updater ''old'') (sv_disk hook_demo_server) =
     (None, u', d') \<and> dk_journal d' = Journal s"
proof -
  have "hex_encode ''a'' = ''61''" and "to_lower (trim_space ''61'') = ''61''"
    by code_simp+
  with hook_demo_url show ?thesis
    by (simp add: deploy_def Let_def up_demo_updater_def hook_demo_server_def load_state_def
        save_state_def up_demo_world_def max_binary_size_def)
qed

lemma hook_demo_surroundings:
  assumes "e ''HEADCOUNT1_DEPLOY_ALLOWED_HOSTS'' = None" and "e ''HEADCOUNT1_DEPLOY_REPO'' = None"
  shows "deploy_surroundings (hook_demo_world sha e) = up_demo_world\<lparr>dw_sha := sha\<rparr>"
  using assms by (simp add: deploy_surroundings_def hook_demo_world_def getenv_def up_demo_world_def)

lemma hook_demo_production:
  assumes "e ''HEADCOUNT1_ENV'' = None"
  shows "deploy_decision (hook_demo_payload d) (current_env e) (hw_settings (hook_demo_world sha e)) =
    (True, ''production tracking releases: deploying release v1'')"
proof -
  have "to_lower (trim_space []) = []" by code_simp
  with assms show ?thesis
    by (simp add: current_env_def getenv_def env_staging_def env_production_def deploy_decision_def
        hook_demo_payload_def hook_demo_world_def effective_deploy_source_def)
qed

lemma hook_demo_enter:
  assumes "e ''HEADCOUNT1_DEPLOY_API_KEY'' = Some ''k''" and "e ''HEADCOUNT1_ENV'' = None"
    and "e ''HEADCOUNT1_DEPLOY_ALLOWED_HOSTS'' = None" and "e ''HEADCOUNT1_DEPLOY_REPO'' = None"
    and "length d \<le> max_keys"
    and "persist_delivered_env sha False False [] (hook_demo_payload d) No_Store = (Inr (changed, skipped), f)"
  shows "deploy_webhook (hook_demo_world sha e) ''k'' (Some (hook_demo_payload d)) hook_demo_server =
    apply_event (hook_demo_world sha e) (hook_demo_payload d) changed skipped (hook_demo_server\<lparr>sv_store := f\<rparr>)"
proof -
  have "trim_space ''61'' \<noteq> []" by code_simp
  with assms hook_demo_url hook_demo_production [of e d sha, OF assms(2)]
    hook_demo_surroundings [of e sha, OF assms(3,4)]
  show ?thesis
    unfolding deploy_webhook_def
    by (simp add: Let_def deploy_api_key_def getenv_def)
       (simp add: hook_demo_world_def hook_demo_payload_def up_demo_world_def hook_demo_server_def)
qed

lemma skipped_nothing [simp]: "partition_env [] = ([], [])"
  by simp

theorem webhook_acts_only_when_entitled_witness:
  "let e = [''HEADCOUNT1_DEPLOY_API_KEY'' \<mapsto> ''k''];
       (ans, s') = deploy_webhook (hook_demo_world (\<lambda>_. ''a'') e) ''k'' (Some (hook_demo_payload [])) hook_demo_server
   in ha_status ans = 202 \<and>
      (\<forall>q. map_of (dk_files (sv_disk s')) q \<noteq> None \<longrightarrow>
         (\<exists>bin. map_of (dk_files (sv_disk s')) q = Some bin \<and> hex_encode ''a'' = to_lower (trim_space ''61'')))"
proof -
  let ?e = "[''HEADCOUNT1_DEPLOY_API_KEY'' \<mapsto> ''k'']"
  let ?w = "hook_demo_world (\<lambda>_. ''a'') ?e"
  let ?r = "deploy_webhook ?w ''k'' (Some (hook_demo_payload [])) hook_demo_server"
  obtain u' d' s where dep: "deploy up_demo_world ''x'' ''61'' (target_of (hook_demo_payload [])) []
      (up_demo_updater ''old'') (sv_disk hook_demo_server) = (None, u', d')" "dk_journal d' = Journal s"
    using hook_demo_deploy by blast
  have w: "deploy_surroundings ?w = up_demo_world"
    by (simp add: hook_demo_surroundings) (simp add: up_demo_world_def)
  have "persist_delivered_env (\<lambda>_. ''a'') False False [] (hook_demo_payload []) No_Store = (Inr (False, []), No_Store)"
    by (simp add: persist_delivered_env_def hook_demo_payload_def digest_def Let_def)
  from hook_demo_enter [of ?e "[]" "\<lambda>_. ''a''", OF _ _ _ _ _ this]
  have run: "?r = apply_event ?w (hook_demo_payload []) False [] (hook_demo_server\<lparr>sv_store := No_Store\<rparr>)"
    by simp
  have "trim_space [] = []" by code_simp
  then have "\<not> signature_refused ?w p" for p
    by (simp add: signature_refused_def hook_demo_world_def getenv_def)
  moreover have "\<not> is_current (up_demo_updater ''old'') (target_of (hook_demo_payload []))"
    by (simp add: is_current_def up_demo_updater_def up_demo_version_def target_of_def hook_demo_payload_def)
  moreover have "hw_msg ?w = []" "pl_url (hook_demo_payload []) = ''x''" "pl_sha (hook_demo_payload []) = ''61''"
    "sv_updater hook_demo_server = Some (up_demo_updater ''old'')"
    by (simp_all add: hook_demo_world_def hook_demo_payload_def hook_demo_server_def)
  ultimately have r: "ha_status (fst ?r) = 202" "dk_journal (sv_disk (snd ?r)) = Journal s"
    unfolding run by (simp_all add: apply_event_def Let_def w dep)
  have files: "dk_files (sv_disk hook_demo_server) = []" "dk_journal (sv_disk hook_demo_server) = No_Journal"
    by (simp_all add: hook_demo_server_def)
  obtain ans s' where rr: "?r = (ans, s')" by (cases ?r)
  have "s' \<noteq> hook_demo_server" using r(2) files unfolding rr by auto
  from webhook_acts_only_when_entitled [OF rr this]
  have "\<forall>q. map_of (dk_files (sv_disk s')) q \<noteq> None \<longrightarrow>
      (\<exists>bin. map_of (dk_files (sv_disk s')) q = Some bin \<and> hex_encode ''a'' = to_lower (trim_space ''61''))"
    by (simp add: files hook_demo_world_def) (simp add: hook_demo_payload_def)
  with r(1) show ?thesis
    unfolding Let_def rr by simp
qed

text \<open>
  The key that signatures are checked against may itself be delivered, and an event is stored
  before its signature is looked at: one unsigned event, refused with status 400, makes the
  next boot trust another key.
\<close>

lemma unsigned_event_replaces_key:
  assumes "k = ''HEADCOUNT1_UPDATE_PUBLIC_KEY''"
  shows "\<exists>s'. deploy_webhook (hook_demo_world (\<lambda>x. x) [''HEADCOUNT1_DEPLOY_API_KEY'' \<mapsto> ''k'', k \<mapsto> ''good''])
                ''k'' (Some (hook_demo_payload [(k, ''evil'')])) hook_demo_server = (hook_error 400, s') \<and>
              snd (snd (apply_store False (sv_store s') e)) k = Some ''evil''"
proof -
  let ?e = "[''HEADCOUNT1_DEPLOY_API_KEY'' \<mapsto> ''k'', k \<mapsto> ''good'']" and ?d = "[(k, ''evil'')]"
  let ?f = "Stored \<lparr>st_values = ?d, st_secret = [], st_removed = [], st_updated = []\<rparr>"
  have ok: "validate_key k = None" unfolding assms by code_simp
  have "digest_text (incoming_store (hook_demo_payload ?d) ?d empty_store) \<noteq> digest_text empty_store"
    by (simp add: digest_text_lines sorted_values_def store_keys_def incoming_store_def empty_store_def
        hook_demo_payload_def value_line_def)
  then have per: "persist_delivered_env (\<lambda>x. x) False False [] (hook_demo_payload ?d) No_Store = (Inr (True, []), ?f)"
    using ok by (simp add: persist_delivered_env_def hook_demo_payload_def digest_def load_store_def
        save_store_def incoming_store_def empty_store_def max_value_bytes_def)
  have run: "deploy_webhook (hook_demo_world (\<lambda>x. x) ?e) ''k'' (Some (hook_demo_payload ?d)) hook_demo_server =
      apply_event (hook_demo_world (\<lambda>x. x) ?e) (hook_demo_payload ?d) True [] (hook_demo_server\<lparr>sv_store := ?f\<rparr>)"
    by (rule hook_demo_enter [OF _ _ _ _ _ per]) (simp_all add: assms max_keys_def)
  have "trim_space ''good'' \<noteq> []" by code_simp
  then have "signature_refused (hook_demo_world (\<lambda>x. x) ?e) (hook_demo_payload ?d)"
    by (simp add: signature_refused_def hook_demo_world_def getenv_def hook_demo_payload_def assms)
  then have "apply_event (hook_demo_world (\<lambda>x. x) ?e) (hook_demo_payload ?d) True [] (hook_demo_server\<lparr>sv_store := ?f\<rparr>) =
      (hook_error 400, hook_demo_server\<lparr>sv_store := ?f\<rparr>)"
    by (simp add: apply_event_def hook_demo_server_def hook_error_def skipped_summary_def Let_def)
  moreover have "snd (snd (apply_store False ?f e)) k = Some ''evil''"
    using ok by (simp add: apply_store_def load_store_def store_keys_def)
  ultimately show ?thesis unfolding run by auto
qed

theorem delivered_configuration_takes_effect_witness:
  "\<exists>names e'. apply_store False
      (snd (persist_delivered_env (\<lambda>x. x) False False [] (hook_demo_payload [(''B'', ''2'')])
         (Stored (empty_store\<lparr>st_values := [(''A'', ''1'')]\<rparr>)))) [''A'' \<mapsto> ''1''] = (names, None, e') \<and>
     e' ''B'' = Some ''2'' \<and> e' ''A'' = None"
proof -
  let ?f = "Stored (empty_store\<lparr>st_values := [(''A'', ''1'')]\<rparr>)" and ?p = "hook_demo_payload [(''B'', ''2'')]"
  have ok: "validate_key ''A'' = None" "validate_key ''B'' = None" by code_simp+
  have cur: "current_store ?f = empty_store\<lparr>st_values := [(''A'', ''1'')]\<rparr>" by (simp add: current_store_def)
  have acc: "fst (partition_env [(''B'', ''2'')]) = [(''B'', ''2'')]"
    using ok by (simp add: max_value_bytes_def)
  have "digest_text (incoming_store ?p [(''B'', ''2'')] (current_store ?f)) \<noteq> digest_text (current_store ?f)"
    by (simp add: digest_text_lines sorted_values_def store_keys_def incoming_store_def
        empty_store_def hook_demo_payload_def current_store_def value_line_def)
  from deliver_changed [OF _ this]
  obtain f' where per: "persist_delivered_env (\<lambda>x. x) False False [] ?p ?f = (Inr (True, []), f')"
    using ok by (simp add: hook_demo_payload_def max_value_bytes_def)
  have "sound_store (current_store ?f)"
    using ok unfolding cur by (simp add: sound_store_def empty_store_def)
  from delivered_configuration_takes_effect [OF per _ this, where d = "[(''B'', ''2'')]" and e = "[''A'' \<mapsto> ''1'']"]
  show ?thesis
    using ok acc unfolding per
    by (auto simp: hook_demo_payload_def inj_on_def max_value_bytes_def current_store_def empty_store_def)
qed

text \<open>
  A name that disappeared is remembered only until the next change: if two deliveries precede
  a boot, what the first one dropped keeps the value the process inherits.
\<close>

lemma removal_is_forgotten:
  "\<exists>f1 f2. persist_delivered_env (\<lambda>x. x) False False [] (hook_demo_payload [(''B'', ''1'')])
             (Stored (empty_store\<lparr>st_values := [(''A'', ''1'')]\<rparr>)) = (Inr (True, []), f1) \<and>
           persist_delivered_env (\<lambda>x. x) False False [] (hook_demo_payload [(''B'', ''2'')]) f1 = (Inr (True, []), f2) \<and>
           snd (snd (apply_store False f1 [''A'' \<mapsto> ''old''])) ''A'' = None \<and>
           snd (snd (apply_store False f2 [''A'' \<mapsto> ''old''])) ''A'' = Some ''old''"
proof -
  have ok: "validate_key ''A'' = None" "validate_key ''B'' = None" by code_simp+
  let ?f1 = "Stored (empty_store\<lparr>st_values := [(''B'', ''1'')], st_removed := [''A'']\<rparr>)"
  let ?f2 = "Stored (empty_store\<lparr>st_values := [(''B'', ''2'')]\<rparr>)"
  note simps = digest_text_lines sorted_values_def store_keys_def incoming_store_def empty_store_def
    hook_demo_payload_def value_line_def current_store_def max_value_bytes_def
  have "persist_delivered_env (\<lambda>x. x) False False [] (hook_demo_payload [(''B'', ''1'')])
      (Stored (empty_store\<lparr>st_values := [(''A'', ''1'')]\<rparr>)) = (Inr (True, []), ?f1)"
    by (subst deliver_changed [where d = "[(''B'', ''1'')]"]) (simp_all add: simps ok)
  moreover have "persist_delivered_env (\<lambda>x. x) False False [] (hook_demo_payload [(''B'', ''2'')]) ?f1 =
      (Inr (True, []), ?f2)"
    by (subst deliver_changed [where d = "[(''B'', ''2'')]"]) (simp_all add: simps ok)
  moreover have "snd (snd (apply_store False ?f1 [''A'' \<mapsto> ''old''])) ''A'' = None"
    "snd (snd (apply_store False ?f2 [''A'' \<mapsto> ''old''])) ''A'' = Some ''old''"
    by (simp_all add: apply_store_def load_store_def store_keys_def empty_store_def ok)
  ultimately show ?thesis by blast
qed

end
