(* ===== verification/Supervisor.thy ===== *)
theory Supervisor
  imports Updater Env_Store
begin

text \<open>
  The process that stays while builds come and go (\<open>pkg/updater/supervisor.go\<close>), and the
  SQLite checkpoints it takes and restores (\<open>snapshot.go\<close>).

  A generation is one child process.  What child number \<open>n\<close> does to the disk and to the
  schemas of a PostgreSQL server, and how it exits, is a function of the world: the child is
  the application itself.  \<open>VACUUM INTO\<close> is SQLite's, and so is what an opened database reads:
  \<open>main.go\<close> opens it in WAL mode, so both are functions of two files, the database and the
  write-ahead log next to it (what the connection of \<open>VACUUM INTO\<close> folds from the log into the
  database when it closes changes neither and is not modelled).  \<open>sw_io w n k\<close> says that file
  operation \<open>k\<close> of generation \<open>n\<close> fails.  The loop may go on for ever, so it is a partial function.
\<close>

section \<open>SQLite checkpoints\<close>

text \<open>SQLite keeps the log of a database in WAL mode in a file of its own.\<close>

definition wal_path :: "string \<Rightarrow> string" where
  "wal_path db = db @ ''-wal''"

definition create_sqlite_snapshot ::
  "(bytes option \<Rightarrow> bytes option \<Rightarrow> bytes option) \<Rightarrow> bool \<Rightarrow> string \<Rightarrow> string \<Rightarrow> disk \<Rightarrow> disk option" where
  "create_sqlite_snapshot vacuum fault db dest d =
     (if db = [] \<or> dest = [] \<or> db = dest \<or> fault then None
      else case vacuum (map_of (dk_files d) db) (map_of (dk_files d) (wal_path db)) of
        None \<Rightarrow> None
      | Some copy \<Rightarrow>
          if copy = [] then None else Some (d\<lparr>dk_files := AList.update dest copy (dk_files d)\<rparr>))"

definition remove_file :: "string \<Rightarrow> disk \<Rightarrow> disk" where
  "remove_file p d = d\<lparr>dk_files := AList.delete p (dk_files d)\<rparr>"

text \<open>\<open>os.Rename\<close> of an existing file.\<close>

definition move_file :: "string \<Rightarrow> string \<Rightarrow> disk \<Rightarrow> disk" where
  "move_file a b d =
     (case map_of (dk_files d) a of
        None \<Rightarrow> d
      | Some c \<Rightarrow> d\<lparr>dk_files := AList.update b c (AList.delete a (dk_files d))\<rparr>)"

definition failed_path :: "string \<Rightarrow> string" where
  "failed_path db = db @ ''.failed''"

definition restore_sqlite_snapshot ::
  "(nat \<Rightarrow> bool) \<Rightarrow> string \<Rightarrow> string \<Rightarrow> disk \<Rightarrow> bool \<times> disk" where
  "restore_sqlite_snapshot io snapshot db d =
     (if snapshot = [] \<or> db = [] \<or> \<not> file_exists snapshot d then (False, d)
      else
        let d1 = (if io 0 then d else remove_file (failed_path db) d)
        in if file_exists db d1 \<and> io 1 then (False, d1)
           else
             let d2 = (if file_exists db d1 then move_file db (failed_path db) d1 else d1)
             in if io 2 then (False, if io 3 then d2 else move_file (failed_path db) db d2)
                else (True, move_file snapshot db d2))"

section \<open>PostgreSQL shadow schemas\<close>

definition schema_char :: "nat \<Rightarrow> char \<Rightarrow> bool" where
  "schema_char i c \<longleftrightarrow>
     (let n = of_char c :: nat
      in (97 \<le> n \<and> n \<le> 122) \<or> is_upper c \<or> c = CHR ''_'' \<or> (0 < i \<and> is_digit c))"

definition valid_schema_name :: "string \<Rightarrow> bool" where
  "valid_schema_name s \<longleftrightarrow>
     s \<noteq> [] \<and> length s \<le> 63 \<and> list_all (\<lambda>(i, c). schema_char i c) (List.enumerate 0 s)"

text \<open>Creating can fail before the schema exists, or after, while tables are cloned.\<close>

definition prepare_postgres_shadow ::
  "bool \<Rightarrow> bool \<Rightarrow> string \<Rightarrow> string list \<Rightarrow> bool \<times> string list" where
  "prepare_postgres_shadow fault clone_fault name schemas =
     (if \<not> valid_schema_name name \<or> name = ''public'' \<or> fault \<or> name \<in> set schemas
      then (False, schemas)
      else (\<not> clone_fault, name # schemas))"

definition drop_postgres_shadow :: "bool \<Rightarrow> string \<Rightarrow> string list \<Rightarrow> bool \<times> string list" where
  "drop_postgres_shadow fault name schemas =
     (if \<not> valid_schema_name name \<or> name = ''public'' \<or> fault \<or> name \<notin> set schemas
      then (False, schemas)
      else (True, removeAll name schemas))"

section \<open>One generation\<close>

datatype exit = Clean | Exited int | Not_Started

record sup_state =
  ss_disk :: disk
  ss_schemas :: "string list"

text \<open>What a child is started with: its path, whether as candidate, and a shadow schema.\<close>

record child_call =
  cc_path :: string
  cc_candidate :: bool
  cc_schema :: string

record sup_world =
  sw_base :: string
  sw_vars :: environment
  sw_child :: "nat \<Rightarrow> child_call \<Rightarrow> sup_state \<Rightarrow> exit \<times> sup_state"
  sw_vacuum :: "bytes option \<Rightarrow> bytes option \<Rightarrow> bytes option"
  sw_io :: "nat \<Rightarrow> nat \<Rightarrow> bool"
  sw_now :: "nat \<Rightarrow> instant"
  sw_msg :: "exit \<Rightarrow> string"

datatype outcome =
    Finished | Child_Failed exit | Child_Not_Started | Preflight_Broken | Candidate_Unavailable
  | Snapshot_Failed | Shadow_Failed | Journal_Not_Saved | No_Executable_Given

datatype step = Stop outcome | Again string

definition update_requested :: int where "update_requested = 75"
definition preflight_passed :: int where "preflight_passed = 76"

definition sqlite_database_name :: "environment \<Rightarrow> string" where
  "sqlite_database_name e =
     (if getenv e ''E2E_MODE'' = ''true'' \<or> getenv e ''E2E_MODE'' = ''1'' then ''headcount1-e2e.db''
      else ''headcount1.db'')"

definition db_path :: "sup_world \<Rightarrow> string" where
  "db_path w = sw_base w @ ''/db/'' @ sqlite_database_name (sw_vars w)"


definition snapshot_path :: "sup_world \<Rightarrow> deployment \<Rightarrow> string" where
  "snapshot_path w st = sw_base w @ ''/deploy/'' @ dp_id st @ ''.sqlite''"

definition on_postgres :: "sup_world \<Rightarrow> bool" where
  "on_postgres w \<longleftrightarrow> has_prefix (getenv (sw_vars w) ''DATABASE_URL'') ''postgres://''"

definition load_at :: "sup_world \<Rightarrow> nat \<Rightarrow> nat \<Rightarrow> sup_state \<Rightarrow> deployment option" where
  "load_at w n k s =
     (case load_state (sw_base w) (sw_io w n k) (ss_disk s) of Inr st \<Rightarrow> Some st | Inl _ \<Rightarrow> None)"

definition save_at :: "sup_world \<Rightarrow> nat \<Rightarrow> nat \<Rightarrow> deployment \<Rightarrow> sup_state \<Rightarrow> bool \<times> sup_state" where
  "save_at w n k st s =
     (case save_state (sw_base w) (sw_io w n k) (sw_now w n) st (ss_disk s) of
        (e, d) \<Rightarrow> (e = None, s\<lparr>ss_disk := d\<rparr>))"

definition choose_child :: "sup_world \<Rightarrow> nat \<Rightarrow> string \<Rightarrow> sup_state \<Rightarrow> child_call" where
  "choose_child w n path s =
     (case load_at w n 0 s of
        Some st \<Rightarrow>
          if dp_candidate st \<noteq> [] \<and> pending_phase (dp_phase st) \<and> file_exists (dp_candidate st) (ss_disk s)
          then \<lparr>cc_path = dp_candidate st, cc_candidate = True, cc_schema = dp_schema st\<rparr>
          else \<lparr>cc_path = path, cc_candidate = False, cc_schema = []\<rparr>
      | None \<Rightarrow> \<lparr>cc_path = path, cc_candidate = False, cc_schema = []\<rparr>)"

text \<open>Exit code 76: the candidate booted against its shadow schema.\<close>

definition after_preflight :: "sup_world \<Rightarrow> nat \<Rightarrow> string \<Rightarrow> sup_state \<Rightarrow> step \<times> sup_state" where
  "after_preflight w n path s =
     (case load_at w n 1 s of
        None \<Rightarrow> (Stop Preflight_Broken, s)
      | Some st \<Rightarrow>
          if dp_schema st = [] then (Stop Preflight_Broken, s)
          else (case drop_postgres_shadow (sw_io w n 2) (dp_schema st) (ss_schemas s) of
            (False, _) \<Rightarrow> (Stop Shadow_Failed, s)
          | (True, schemas) \<Rightarrow>
              (case save_at w n 3 (st\<lparr>dp_schema := [], dp_phase := Staged\<rparr>) (s\<lparr>ss_schemas := schemas\<rparr>) of
                 (False, s') \<Rightarrow> (Stop Journal_Not_Saved, s')
               | (True, s') \<Rightarrow> (Again path, s'))))"

text \<open>A candidate that exits with an error: drop its schema, restore the checkpoint, fall back.\<close>

definition drop_leftover_schema :: "sup_world \<Rightarrow> nat \<Rightarrow> sup_state \<Rightarrow> sup_state" where
  "drop_leftover_schema w n s =
     (case load_at w n 1 s of
        Some st \<Rightarrow>
          if dp_schema st \<noteq> [] \<and> on_postgres w
          then s\<lparr>ss_schemas := snd (drop_postgres_shadow (sw_io w n 2) (dp_schema st) (ss_schemas s))\<rparr>
          else s
      | None \<Rightarrow> s)"

definition restore_checkpoint :: "sup_world \<Rightarrow> nat \<Rightarrow> sup_state \<Rightarrow> sup_state" where
  "restore_checkpoint w n s =
     (case load_at w n 3 s of
        Some st \<Rightarrow>
          if dp_snapshot st \<noteq> [] \<and> file_exists (dp_snapshot st) (ss_disk s)
          then s\<lparr>ss_disk := snd (restore_sqlite_snapshot (\<lambda>k. sw_io w n (10 + k)) (dp_snapshot st)
                                   (db_path w) (ss_disk s))\<rparr>
          else s
      | None \<Rightarrow> s)"

definition fall_back :: "sup_world \<Rightarrow> nat \<Rightarrow> exit \<Rightarrow> sup_state \<Rightarrow> step \<times> sup_state" where
  "fall_back w n x s =
     (let s = restore_checkpoint w n (drop_leftover_schema w n s)
      in case load_at w n 4 s of
           Some st \<Rightarrow>
             if dp_previous st \<noteq> [] \<and> file_exists (dp_previous st) (ss_disk s)
             then (Again (dp_previous st),
                   snd (save_at w n 5 (st\<lparr>dp_phase := Deploy_Failed, dp_error := sw_msg w x\<rparr>) s))
             else (Stop (Child_Failed x), s)
         | None \<Rightarrow> (Stop (Child_Failed x), s))"

text \<open>Exit code 75: checkpoint the database and start the journaled candidate.\<close>

definition checkpoint :: "sup_world \<Rightarrow> nat \<Rightarrow> deployment \<Rightarrow> sup_state \<Rightarrow> (outcome + deployment) \<times> sup_state" where
  "checkpoint w n st s =
     (if getenv (sw_vars w) ''DATABASE_URL'' = [] \<and> dp_snapshot st = [] \<and> file_exists (db_path w) (ss_disk s)
      then
        let dest = snapshot_path w st
        in case create_sqlite_snapshot (sw_vacuum w) (sw_io w n 2) (db_path w) dest (ss_disk s) of
             None \<Rightarrow> (Inl Snapshot_Failed, s)
           | Some d \<Rightarrow>
               (case save_at w n 3 (st\<lparr>dp_snapshot := dest\<rparr>) (s\<lparr>ss_disk := d\<rparr>) of
                  (False, s') \<Rightarrow> (Inl Journal_Not_Saved, s')
                | (True, s') \<Rightarrow> (Inr (st\<lparr>dp_snapshot := dest\<rparr>), s'))
      else (Inr st, s))"

definition shadow_name :: "deployment \<Rightarrow> string" where
  "shadow_name st = ''headcount1_deploy_'' @ map (\<lambda>c. if c = CHR ''-'' then CHR ''_'' else c) (dp_id st)"

definition hand_off :: "sup_world \<Rightarrow> nat \<Rightarrow> sup_state \<Rightarrow> step \<times> sup_state" where
  "hand_off w n s =
     (case load_at w n 1 s of
        None \<Rightarrow> (Stop Candidate_Unavailable, s)
      | Some st \<Rightarrow>
          if dp_candidate st = [] \<or> \<not> file_exists (dp_candidate st) (ss_disk s)
          then (Stop Candidate_Unavailable, s)
          else (case checkpoint w n st s of
            (Inl e, s) \<Rightarrow> (Stop e, s)
          | (Inr st, s) \<Rightarrow>
              if on_postgres w \<and> dp_schema st = [] then
                (case prepare_postgres_shadow (sw_io w n 4) (sw_io w n 5) (shadow_name st) (ss_schemas s) of
                   (False, schemas) \<Rightarrow> (Stop Shadow_Failed, s\<lparr>ss_schemas := schemas\<rparr>)
                 | (True, schemas) \<Rightarrow>
                     (case save_at w n 6 (st\<lparr>dp_schema := shadow_name st\<rparr>) (s\<lparr>ss_schemas := schemas\<rparr>) of
                        (False, s') \<Rightarrow> (Stop Journal_Not_Saved, s')
                      | (True, s') \<Rightarrow> (Again (dp_candidate st), s')))
              else (Again (dp_candidate st), s)))"

definition generation :: "sup_world \<Rightarrow> nat \<Rightarrow> string \<Rightarrow> sup_state \<Rightarrow> step \<times> sup_state" where
  "generation w n path s =
     (let call = choose_child w n path s
      in case sw_child w n call s of
           (Clean, s') \<Rightarrow> (Stop Finished, s')
         | (Not_Started, s') \<Rightarrow> (Stop Child_Not_Started, s')
         | (Exited code, s') \<Rightarrow>
             if code = preflight_passed then after_preflight w n (cc_path call) s'
             else if code = update_requested then hand_off w n s'
             else if cc_candidate call then fall_back w n (Exited code) s'
             else (Stop (Child_Failed (Exited code)), s'))"

partial_function (option) supervise ::
  "sup_world \<Rightarrow> nat \<Rightarrow> string \<Rightarrow> sup_state \<Rightarrow> (outcome \<times> sup_state) option" where
  "supervise w n path s =
     (case generation w n path s of
        (Stop r, s') \<Rightarrow> Some (r, s')
      | (Again p, s') \<Rightarrow> supervise w (Suc n) p s')"

definition run_supervisor ::
  "sup_world \<Rightarrow> string option \<Rightarrow> string \<Rightarrow> sup_state \<Rightarrow> (outcome \<times> sup_state) option" where
  "run_supervisor w resolved executable s =
     (if executable = [] then Some (No_Executable_Given, s)
      else supervise w 0 (case resolved of Some p \<Rightarrow> p | None \<Rightarrow> executable) s)"

section \<open>The loop returns\<close>

lemma load_at_saved:
  assumes "save_at w n k st s = (True, s')"
  shows "\<exists>t. dk_journal (ss_disk s') = Journal (st\<lparr>dp_updated := t\<rparr>) \<and> sw_base w \<noteq> []"
  using assms by (auto simp: save_at_def save_state_def split: if_splits)

lemma load_at_cases: "load_at w n k s = Some st \<Longrightarrow> dk_journal (ss_disk s) = Journal st"
  by (auto simp: load_at_def dest: load_state_journal split: sum.splits)

lemma save_at_ok:
  assumes "load_at w n j s = Some st" and "\<not> sw_io w n k"
  shows "save_at w n k st' s = (True, s\<lparr>ss_disk := (ss_disk s)\<lparr>dk_journal := Journal (st'\<lparr>dp_updated := sw_now w n\<rparr>)\<rparr>\<rparr>)"
proof -
  have "sw_base w \<noteq> []" using assms(1) by (auto simp: load_at_def load_state_def split: if_splits)
  with assms(2) show ?thesis by (simp add: save_at_def save_state_def)
qed

text \<open>A generation whose child asked for nothing goes on only by falling back.\<close>

lemma generation_falls_back:
  assumes "generation w n path s = (Again p, s')"
    and "\<And>call st. fst (sw_child w n call st) \<notin> {Exited update_requested, Exited preflight_passed}"
    and "\<not> sw_io w n 5"
  shows "\<exists>st. dk_journal (ss_disk s') = Journal st \<and> dp_phase st = Deploy_Failed"
proof -
  obtain x s1 where child: "sw_child w n (choose_child w n path s) s = (x, s1)" by fastforce
  with assms(2) [of "choose_child w n path s" s] have x: "x \<noteq> Exited update_requested" "x \<noteq> Exited preflight_passed"
    by auto
  then have fb: "fall_back w n x s1 = (Again p, s')"
    using assms(1) child by (auto simp: generation_def Let_def split: exit.splits if_splits)
  then show ?thesis
    using save_at_ok [OF _ assms(3)] by (auto simp: fall_back_def Let_def split: option.splits if_splits)
qed

lemma failed_journal_no_candidate:
  assumes "dk_journal (ss_disk s) = Journal st" and "dp_phase st = Deploy_Failed"
  shows "choose_child w n path s = \<lparr>cc_path = path, cc_candidate = False, cc_schema = []\<rparr>"
  using assms
  by (auto simp: choose_child_def pending_phase_def dest!: load_at_cases split: option.split)

text \<open>
  as soon as the children stop asking for updates and the journal can be written, the
  supervisor returns: a failing candidate is followed by its fallback at most once, and the
  failure of a build that is no candidate ends the loop.
\<close>

theorem supervisor_returns:
  assumes "\<And>n call st. n \<ge> m \<Longrightarrow>
             fst (sw_child w n call st) \<notin> {Exited update_requested, Exited preflight_passed}"
    and "\<And>n. n \<ge> m \<Longrightarrow> \<not> sw_io w n 5"
  shows "\<exists>r. run_supervisor w resolved executable s = Some r"
proof -
  have stops: "\<exists>r. supervise w n path s = Some r"
    if n: "n \<ge> m" and j: "dk_journal (ss_disk s) = Journal st" "dp_phase st = Deploy_Failed" for n path s st
  proof -
    obtain x s1 where c: "sw_child w n (choose_child w n path s) s = (x, s1)" by fastforce
    with assms(1) [OF n, of "choose_child w n path s" s]
    have "generation w n path s = (Stop (case x of Clean \<Rightarrow> Finished | Not_Started \<Rightarrow> Child_Not_Started
        | Exited e \<Rightarrow> Child_Failed x), s1)"
      by (auto simp: generation_def Let_def failed_journal_no_candidate [OF j] split: exit.split)
    then show ?thesis by (subst supervise.simps) simp
  qed
  have late: "\<exists>r. supervise w n path s = Some r" if n: "n \<ge> m" for n path s
  proof (cases "generation w n path s")
    case (Pair st s')
    show ?thesis
    proof (cases st)
      case (Stop r)
      then show ?thesis using Pair by (subst supervise.simps) simp
    next
      case (Again p)
      from generation_falls_back [OF Pair [unfolded Again] assms(1) [OF n] assms(2) [OF n]]
      show ?thesis
        using stops [of "Suc n" s' _ p] n Pair Again by (subst supervise.simps) auto
    qed
  qed
  have "\<exists>r. supervise w (m - k) path s = Some r" for k path s
  proof (induction k arbitrary: path s)
    case 0
    show ?case using late [of m path s] by simp
  next
    case (Suc k)
    show ?case
    proof (cases "k < m")
      case True
      then have "Suc (m - Suc k) = m - k" by arith
      with Suc.IH show ?thesis
        by (subst supervise.simps) (auto split: step.split prod.split)
    next
      case False
      then have "m - Suc k = m - k" by arith
      with Suc.IH show ?thesis by simp
    qed
  qed
  from this [of m] show ?thesis by (auto simp: run_supervisor_def split: option.split)
qed

section \<open>Falling back restores the checkpoint\<close>

lemma file_exists_iff: "file_exists p d \<longleftrightarrow> (\<exists>c. map_of (dk_files d) p = Some c)"
  by (auto simp: file_exists_def)

lemma map_of_remove_file [simp]:
  "map_of (dk_files (remove_file p d)) q = (if q = p then None else map_of (dk_files d) q)"
  by (simp add: remove_file_def delete_conv')

lemma map_of_move_file:
  "map_of (dk_files d) a = Some c \<Longrightarrow>
   map_of (dk_files (move_file a b d)) q =
     (if q = b then Some c else if q = a then None else map_of (dk_files d) q)"
  by (simp add: move_file_def delete_conv' update_conv')

lemma moved_journal [simp]: "dk_journal (move_file a b d) = dk_journal d"
  by (simp add: move_file_def split: option.split)

lemma removed_journal [simp]: "dk_journal (remove_file a d) = dk_journal d"
  by (simp add: remove_file_def)

lemma failed_path_differs [simp]:
  "failed_path db \<noteq> db" "db \<noteq> failed_path db" "wal_path db \<noteq> db" "wal_path db \<noteq> failed_path db"
  by (simp_all add: failed_path_def wal_path_def)

text \<open>A restore without a failing file operation: the snapshot replaces the database, which is kept aside.\<close>

lemma restore_ok:
  assumes "map_of (dk_files d) snapshot = Some c" and "snapshot \<noteq> []" and "db \<noteq> []"
    and "snapshot \<noteq> db" and "snapshot \<noteq> failed_path db" and "\<And>k. \<not> io k"
  shows "\<exists>d'. restore_sqlite_snapshot io snapshot db d = (True, d') \<and> dk_journal d' = dk_journal d \<and>
    map_of (dk_files d') db = Some c \<and> map_of (dk_files d') (failed_path db) = map_of (dk_files d) db \<and>
    (\<forall>q. q \<notin> {snapshot, db, failed_path db} \<longrightarrow> map_of (dk_files d') q = map_of (dk_files d) q)"
proof -
  let ?d1 = "remove_file (failed_path db) d"
  let ?d2 = "if file_exists db ?d1 then move_file db (failed_path db) ?d1 else ?d1"
  have keep: "map_of (dk_files ?d2) q =
      (if q = failed_path db then map_of (dk_files d) db else if q = db then None else map_of (dk_files d) q)" for q
    by (auto simp: file_exists_iff map_of_move_file)
  have "dk_journal ?d2 = dk_journal d" by simp
  moreover have "map_of (dk_files ?d2) snapshot = Some c" using keep assms by simp
  note map_of_move_file [OF this, of db]
  ultimately show ?thesis
    using assms keep by (simp add: restore_sqlite_snapshot_def file_exists_iff Let_def)
qed

text \<open>The checkpoint never goes onto the database or what is kept of it.\<close>

lemma snapshot_path_differs [simp]:
  "snapshot_path w st \<noteq> db_path w" "db_path w \<noteq> snapshot_path w st"
  "snapshot_path w st \<noteq> failed_path (db_path w)" "wal_path (db_path w) \<noteq> snapshot_path w st"
  "snapshot_path w st \<noteq> []" "db_path w \<noteq> []"
  by (simp_all add: snapshot_path_def db_path_def failed_path_def wal_path_def)

text \<open>The world has no faults in a generation, and the database is the SQLite file.\<close>

definition calm :: "sup_world \<Rightarrow> nat \<Rightarrow> bool" where
  "calm w n \<longleftrightarrow> sw_base w \<noteq> [] \<and> getenv (sw_vars w) ''DATABASE_URL'' = [] \<and> sw_io w n = (\<lambda>_. False)"

lemma calm_load: "calm w n \<Longrightarrow> dk_journal (ss_disk s) = Journal st \<Longrightarrow> load_at w n k s = Some st"
  by (simp add: calm_def load_at_def load_state_def)

lemma calm_save:
  "calm w n \<Longrightarrow> save_at w n k st s =
     (True, s\<lparr>ss_disk := (ss_disk s)\<lparr>dk_journal := Journal (st\<lparr>dp_updated := sw_now w n\<rparr>)\<rparr>\<rparr>)"
  by (simp add: calm_def save_at_def save_state_def)

lemma calm_sqlite: "calm w n \<Longrightarrow> \<not> on_postgres w"
  by (simp add: calm_def on_postgres_def has_prefix_def)


lemma fall_back_restores:
  assumes "calm w n" and "dk_journal (ss_disk s) = Journal st"
    and "dp_snapshot st = snapshot" and "map_of (dk_files (ss_disk s)) snapshot = Some copy"
    and "snapshot \<notin> {[], db_path w, failed_path (db_path w)}"
    and "dp_previous st \<notin> {[], snapshot, db_path w, failed_path (db_path w)}"
    and "file_exists (dp_previous st) (ss_disk s)"
  shows "\<exists>s'. fall_back w n x s = (Again (dp_previous st), s') \<and>
    map_of (dk_files (ss_disk s')) (db_path w) = Some copy \<and>
    map_of (dk_files (ss_disk s')) (failed_path (db_path w)) = map_of (dk_files (ss_disk s)) (db_path w) \<and>
    (\<forall>q. q \<notin> {snapshot, db_path w, failed_path (db_path w)} \<longrightarrow>
       map_of (dk_files (ss_disk s')) q = map_of (dk_files (ss_disk s)) q) \<and>
    dk_journal (ss_disk s') =
      Journal (st\<lparr>dp_phase := Deploy_Failed, dp_error := sw_msg w x, dp_updated := sw_now w n\<rparr>)"
proof -
  have io: "\<not> sw_io w n (10 + k)" for k using assms(1) by (simp add: calm_def)
  obtain d' where d': "restore_sqlite_snapshot (\<lambda>k. sw_io w n (10 + k)) snapshot (db_path w) (ss_disk s) = (True, d')"
    "dk_journal d' = dk_journal (ss_disk s)" "map_of (dk_files d') (db_path w) = Some copy"
    "map_of (dk_files d') (failed_path (db_path w)) = map_of (dk_files (ss_disk s)) (db_path w)"
    "\<forall>q. q \<notin> {snapshot, db_path w, failed_path (db_path w)} \<longrightarrow> map_of (dk_files d') q = map_of (dk_files (ss_disk s)) q"
    using restore_ok [of "ss_disk s" snapshot copy "db_path w" "\<lambda>k. sw_io w n (10 + k)"] assms(4,5) io by auto
  have restored: "restore_checkpoint w n (drop_leftover_schema w n s) = s\<lparr>ss_disk := d'\<rparr>"
    using assms(2-5) calm_sqlite [OF assms(1)] d'(1)
    by (simp add: restore_checkpoint_def drop_leftover_schema_def calm_load [OF assms(1)] file_exists_iff)
  have "file_exists (dp_previous st) d'" using assms(6,7) d'(5) by (simp add: file_exists_def)
  then show ?thesis
    using d' assms(2,6) restored
    by (simp add: fall_back_def Let_def calm_load [OF assms(1)] calm_save [OF assms(1)])
qed




section \<open>What the loop does not guard against\<close>

text \<open>
  Whether a child is a candidate is decided when it starts: one that was promoted since, and
  served, is rolled back to the checkpoint all the same when it exits with an error.
\<close>

lemma promoted_build_is_rolled_back:
  assumes "calm w n" and "cc_candidate (choose_child w n path s)"
    and "sw_child w n (choose_child w n path s) s = (Exited code, s')"
    and "code \<notin> {update_requested, preflight_passed}"
    and "dk_journal (ss_disk s') = Journal st" and "dp_phase st = Promoted"
    and "dp_snapshot st = snapshot" and "map_of (dk_files (ss_disk s')) snapshot = Some copy"
    and "snapshot \<notin> {[], db_path w, failed_path (db_path w)}"
    and "dp_previous st \<notin> {[], snapshot, db_path w, failed_path (db_path w)}"
    and "file_exists (dp_previous st) (ss_disk s')"
  shows "\<exists>s4. generation w n path s = (Again (dp_previous st), s4) \<and>
    map_of (dk_files (ss_disk s4)) (db_path w) = Some copy"
  using fall_back_restores [OF assms(1,5,7-11), of "Exited code"] assms(2-4)
  by (auto simp: generation_def Let_def)

text \<open>
  A failure the supervisor cannot record is retried for ever: the error of \<open>SaveState\<close> is
  dropped, so the next round finds the same candidate in the journal.
\<close>

lemma unrecorded_failure_never_returns:
  assumes "\<And>n k. sw_io w n k = (k = 5)" and "sw_base w \<noteq> []" and "\<not> on_postgres w"
    and "\<And>n call s. sw_child w n call s = (Exited 1, s)"
    and "dk_journal (ss_disk s) = Journal st" and "pending_phase (dp_phase st)" and "dp_snapshot st = []"
    and "dp_candidate st \<noteq> []" and "file_exists (dp_candidate st) (ss_disk s)"
    and "dp_previous st \<noteq> []" and "file_exists (dp_previous st) (ss_disk s)"
  shows "supervise w n path s = None"
proof -
  have load: "load_at w n k s = Some st" if "k \<noteq> 5" for n k
    using assms(1,2,5) that by (simp add: load_at_def load_state_def)
  have gen: "generation w n path s = (Again (dp_previous st), s)" for n path
    using assms load
    by (simp add: generation_def choose_child_def fall_back_def restore_checkpoint_def Let_def
        drop_leftover_schema_def update_requested_def preflight_passed_def save_at_def save_state_def)
  have "w0 = w \<longrightarrow> s0 \<noteq> s" if "supervise w0 n path s0 = Some r" for w0 n path s0 r
    using that
    by (rule supervise.raw_induct [where P = "\<lambda>w0 n path s0 r. w0 = w \<longrightarrow> s0 \<noteq> s", rotated])
      (auto simp: gen split: step.splits prod.splits, blast)
  then show ?thesis by (cases "supervise w n path s") blast+
qed

text \<open>
  When the checkpoint or the shadow schema cannot be made, the supervisor gives up without
  touching the journal, and the next one starts the staged candidate on the live database with
  neither.
\<close>

lemma refused_update_boots_unprotected:
  assumes "hand_off w n s = (Stop r, s')" and "r \<in> {Snapshot_Failed, Shadow_Failed}"
    and "dk_journal (ss_disk s) = Journal st" and "pending_phase (dp_phase st)"
    and "dp_snapshot st = []" and "dp_schema st = []" and "getenv (sw_vars w) ''DATABASE_URL'' = [] \<or> on_postgres w"
    and "\<not> sw_io w' m 0" and "sw_base w' \<noteq> []"
  shows "\<exists>st'. dk_journal (ss_disk s') = Journal st' \<and> dp_snapshot st' = [] \<and>
    choose_child w' m path s' = \<lparr>cc_path = dp_candidate st, cc_candidate = True, cc_schema = []\<rparr>"
proof -
  have post: "\<not> (getenv (sw_vars w) ''DATABASE_URL'' = [] \<and> on_postgres w)"
    by (auto simp: on_postgres_def has_prefix_def)
  have "ss_disk s' = ss_disk s \<and> dp_candidate st \<noteq> [] \<and> file_exists (dp_candidate st) (ss_disk s)"
  proof (cases "on_postgres w")
    case True
    then have "checkpoint w n x s = (Inr x, s)" for x using post by (simp add: checkpoint_def)
    then show ?thesis
      using assms(1-3)
      by (auto simp: hand_off_def dest!: load_at_cases split: option.splits if_splits prod.splits bool.splits)
  next
    case False
    then show ?thesis
      using assms(1-3)
      by (auto simp: hand_off_def checkpoint_def Let_def dest!: load_at_cases
          split: option.splits if_splits prod.splits sum.splits bool.splits)
  qed
  with assms(3-6,8,9) show ?thesis
    by (simp add: choose_child_def load_at_def load_state_def)
qed

section \<open>Examples\<close>

definition sup_demo_staged :: sup_state where
  "sup_demo_staged =
     \<lparr>ss_disk = \<lparr>dk_journal = Journal up_demo_deployment,
                 dk_files = [(''/d/releases/new-1/agent-orchestrator'', ''new''), (''/bin/app'', ''old''),
                             (''/d/db/headcount1.db'', ''data'')]\<rparr>,
      ss_schemas = []\<rparr>"

text \<open>The running build stages an update; the candidate spoils the database and fails.\<close>

definition sup_demo_child :: "nat \<Rightarrow> child_call \<Rightarrow> sup_state \<Rightarrow> exit \<times> sup_state" where
  "sup_demo_child n call s =
     (if n = 0 then (Exited 75, sup_demo_staged)
      else if cc_candidate call then
        (Exited 1, s\<lparr>ss_disk := (ss_disk s)\<lparr>dk_files := AList.update ''/d/db/headcount1.db'' ''spoiled'' (dk_files (ss_disk s))\<rparr>\<rparr>)
      else (Clean, s))"

definition sup_demo_world :: sup_world where
  "sup_demo_world =
     \<lparr>sw_base = ''/d'', sw_vars = Map.empty, sw_child = sup_demo_child, sw_vacuum = (\<lambda>db _. db),
      sw_io = (\<lambda>_ _. False), sw_now = int, sw_msg = (\<lambda>_. [])\<rparr>"



theorem supervisor_returns_witness:
  "\<exists>r. run_supervisor sup_demo_world None ''/bin/app'' sup_demo_staged = Some r"
  by (rule supervisor_returns [of 1])
    (auto simp: sup_demo_world_def sup_demo_child_def update_requested_def preflight_passed_def)

end
