(* ===== verification/Migrations.thy ===== *)
theory Migrations
  imports Env_Store Supervisor
begin

text \<open>
  Reconciling a database with the migrations a build carries (\<open>db/migrations/reconcile.go\<close>,
  \<open>migrator.go\<close>): the plan, the rollback, and the run of what is pending.

  A database is its histories, one list of revisions in order of version for each schema, and
  its content.  SQL is run by the database: \<open>dw_sql\<close> gives the content after one statement or
  \<open>None\<close> for its error, and \<open>dw_split\<close> cuts a file into statements as Atlas does.  Which files
  are pending and what executing one does are Atlas's, so they are arguments too.  The files run are
  those of the candidate's manifest; the code runs those embedded in the running build, from which
  its one caller (\<open>main.go\<close>) built that manifest.
\<close>

section \<open>Manifests and histories\<close>

record migration =
  mg_version :: string
  mg_hash :: string
  mg_up :: string
  mg_down :: string
  mg_reversible :: bool

record manifest =
  mf_dialect :: string
  mf_schema :: string
  mf_entries :: "migration list"

record revision =
  rv_version :: string
  rv_hash :: string
  rv_applied :: nat
  rv_total :: nat

record plan =
  pn_common :: string
  pn_rollback :: "migration list"
  pn_apply :: "migration list"

datatype migration_error =
    Partial_Revision string | History_Mismatch string string string | Irreversible string
  | No_Down_Migration string | Down_Failed string | Up_Failed string | Bad_Schema
  | Pending_Unknown | Manifest_Unreadable | Manifest_Not_Saved

definition entry :: "manifest \<Rightarrow> string \<Rightarrow> migration option" where
  "entry m v = List.find (\<lambda>e. mg_version e = v) (mf_entries m)"

fun at_version :: "migration list \<Rightarrow> string \<Rightarrow> nat option" where
  "at_version [] v = None"
| "at_version (e # es) v = (if mg_version e = v then Some 0 else map_option Suc (at_version es v))"

definition reversible_down :: "string \<Rightarrow> bool" where
  "reversible_down down \<longleftrightarrow> trim_space down \<noteq> [] \<and> \<not> str_contains (to_lower down) ''irreversible''"

section \<open>The plan\<close>

text \<open>The common prefix is walked until the versions part; a changed hash is an error.\<close>

fun advance :: "revision list \<Rightarrow> migration list \<Rightarrow> migration_error + revision list \<times> migration list" where
  "advance (r # rs) (m # ms) =
     (if rv_version r \<noteq> mg_version m then Inr (r # rs, m # ms)
      else if rv_hash r \<noteq> mg_hash m then Inl (History_Mismatch (rv_version r) (rv_hash r) (mg_hash m))
      else advance rs ms)"
| "advance rs ms = Inr (rs, ms)"

text \<open>An adopted database starts with a marker for the migrations it already had.\<close>

definition is_baseline :: "revision \<Rightarrow> bool" where
  "is_baseline r \<longleftrightarrow> rv_applied r = 0 \<and> rv_total r = 0 \<and> rv_hash r = []"

definition skip_baseline :: "revision list \<Rightarrow> migration list \<Rightarrow> revision list \<times> migration list" where
  "skip_baseline applied ms =
     (case applied of
        r # rs \<Rightarrow>
          if is_baseline r then
            (case at_version ms (rv_version r) of Some i \<Rightarrow> (rs, drop (Suc i) ms) | None \<Rightarrow> (applied, ms))
          else (applied, ms)
      | [] \<Rightarrow> (applied, ms))"

fun plan_rollback :: "manifest \<Rightarrow> manifest \<Rightarrow> revision list \<Rightarrow> migration_error + migration list" where
  "plan_rollback cand prev [] = Inr []"
| "plan_rollback cand prev (r # rs) =
     (case (case entry cand (rv_version r) of Some e \<Rightarrow> Some e | None \<Rightarrow> entry prev (rv_version r)) of
        None \<Rightarrow> Inl (No_Down_Migration (rv_version r))
      | Some e \<Rightarrow>
          if \<not> mg_reversible e then Inl (Irreversible (mg_version e))
          else case plan_rollback cand prev rs of Inl err \<Rightarrow> Inl err | Inr es \<Rightarrow> Inr (e # es))"

definition plan_reconciliation :: "revision list \<Rightarrow> manifest \<Rightarrow> manifest \<Rightarrow> migration_error + plan" where
  "plan_reconciliation applied cand prev =
     (case List.find (\<lambda>r. rv_applied r \<noteq> rv_total r) applied of
        Some r \<Rightarrow> Inl (Partial_Revision (rv_version r))
      | None \<Rightarrow>
          (let (rs, ms) = skip_baseline applied (mf_entries cand)
           in case advance rs ms of
                Inl e \<Rightarrow> Inl e
              | Inr (rest, todo) \<Rightarrow>
                  (let done = take (length applied - length rest) applied;
                       common = (if done = [] then [] else rv_version (last done))
                   in case plan_rollback cand prev (rev rest) of
                        Inl e \<Rightarrow> Inl e
                      | Inr es \<Rightarrow> Inr \<lparr>pn_common = common, pn_rollback = es, pn_apply = todo\<rparr>)))"

section \<open>The database\<close>

record 'c database =
  db_history :: "string \<Rightarrow> revision list"
  db_content :: 'c

record 'c db_world =
  dw_split :: "string \<Rightarrow> string list option"
  dw_sql :: "string \<Rightarrow> 'c \<Rightarrow> 'c option"
  dw_pending :: "revision list \<Rightarrow> migration list \<Rightarrow> migration list option"
  dw_execute :: "migration \<Rightarrow> revision list \<times> 'c \<Rightarrow> (revision list \<times> 'c) option"
  dw_commit :: "nat \<Rightarrow> bool"

text \<open>Only PostgreSQL keeps a history per schema.\<close>

definition history_of :: "string \<Rightarrow> string \<Rightarrow> string" where
  "history_of dialect schema =
     (if dialect = ''postgres'' then (if schema = [] then ''public'' else schema) else [])"

definition ensure_history :: "string \<Rightarrow> string \<Rightarrow> bool" where
  "ensure_history dialect schema \<longleftrightarrow>
     (dialect = ''postgres'' \<longrightarrow> valid_schema_name (if schema = [] then ''public'' else schema))"

fun run_statements :: "'c db_world \<Rightarrow> string list \<Rightarrow> 'c \<Rightarrow> 'c option" where
  "run_statements w [] c = Some c"
| "run_statements w (q # qs) c = (case dw_sql w q c of None \<Rightarrow> None | Some c' \<Rightarrow> run_statements w qs c')"

text \<open>Each migration goes down in a transaction of its own, with its row of the history.\<close>

fun apply_down ::
  "'c db_world \<Rightarrow> string \<Rightarrow> string \<Rightarrow> migration list \<Rightarrow> 'c database \<Rightarrow> migration_error option \<times> 'c database" where
  "apply_down w dialect schema [] d = (None, d)"
| "apply_down w dialect schema (m # ms) d =
     (if \<not> mg_reversible m then (Some (Irreversible (mg_version m)), d)
      else case dw_split w (mg_down m) of
        None \<Rightarrow> (Some (Down_Failed (mg_version m)), d)
      | Some qs \<Rightarrow>
          (case run_statements w qs (db_content d) of
             None \<Rightarrow> (Some (Down_Failed (mg_version m)), d)
           | Some c \<Rightarrow>
               if \<not> dw_commit w (length ms) then (Some (Down_Failed (mg_version m)), d)
               else
                 let h = history_of dialect schema;
                     rows = filter (\<lambda>r. rv_version r \<noteq> mg_version m) (db_history d h)
                 in apply_down w dialect schema ms
                      \<lparr>db_history = (db_history d)(h := rows), db_content = c\<rparr>))"

fun execute_files ::
  "'c db_world \<Rightarrow> string \<Rightarrow> migration list \<Rightarrow> 'c database \<Rightarrow> migration_error option \<times> 'c database" where
  "execute_files w h [] d = (None, d)"
| "execute_files w h (m # ms) d =
     (case dw_execute w m (db_history d h, db_content d) of
        None \<Rightarrow> (Some (Up_Failed (mg_version m)), d)
      | Some (rows, c) \<Rightarrow>
          execute_files w h ms \<lparr>db_history = (db_history d)(h := rows), db_content = c\<rparr>)"

text \<open>\<open>ApplyWithSchema\<close> runs the files of the build, rewritten for the schema.\<close>

definition apply_with_schema ::
  "'c db_world \<Rightarrow> string \<Rightarrow> migration list \<Rightarrow> string \<Rightarrow> 'c database \<Rightarrow> migration_error option \<times> 'c database" where
  "apply_with_schema w dialect files schema d =
     (if \<not> ensure_history dialect schema then (Some Bad_Schema, d)
      else case dw_pending w (db_history d (history_of dialect schema)) files of
        None \<Rightarrow> (Some Pending_Unknown, d)
      | Some todo \<Rightarrow> execute_files w (history_of dialect schema) todo d)"

section \<open>Reconciliation and rollback\<close>

text \<open>The manifest kept on disk for a dialect and schema; \<open>Inr None\<close> when there is none.\<close>

definition blank_manifest :: manifest where
  "blank_manifest = \<lparr>mf_dialect = [], mf_schema = [], mf_entries = []\<rparr>"

type_synonym kept_manifests = "string \<times> string \<Rightarrow> migration_error + manifest option"

definition reconcile_with_schema ::
  "'c db_world \<Rightarrow> bool \<Rightarrow> string \<Rightarrow> manifest \<Rightarrow> string \<Rightarrow> kept_manifests \<times> 'c database \<Rightarrow>
   migration_error option \<times> kept_manifests \<times> 'c database" where
  "reconcile_with_schema w save_fault dialect cand schema s =
     (let (kept, d) = s
      in if \<not> ensure_history dialect schema then (Some Bad_Schema, s)
         else case kept (dialect, schema) of
           Inl e \<Rightarrow> (Some e, s)
         | Inr prev \<Rightarrow>
             (case plan_reconciliation (db_history d (history_of dialect schema)) cand
                     (case prev of Some m \<Rightarrow> m | None \<Rightarrow> blank_manifest) of
                Inl e \<Rightarrow> (Some e, s)
              | Inr p \<Rightarrow>
                  (case (if pn_rollback p \<noteq> [] then apply_down w dialect [] (pn_rollback p) d else (None, d)) of
                     (Some e, d) \<Rightarrow> (Some e, kept, d)
                   | (None, d) \<Rightarrow>
                       (case apply_with_schema w dialect (mf_entries cand) schema d of
                          (Some e, d) \<Rightarrow> (Some e, kept, d)
                        | (None, d) \<Rightarrow>
                            if save_fault then (Some Manifest_Not_Saved, kept, d)
                            else (None, kept((mf_dialect cand, mf_schema cand) := Inr (Some cand)), d)))))"

definition rollback_candidate ::
  "'c db_world \<Rightarrow> bool \<Rightarrow> string \<Rightarrow> manifest \<Rightarrow> kept_manifests \<times> 'c database \<Rightarrow>
   migration_error option \<times> kept_manifests \<times> 'c database" where
  "rollback_candidate w save_fault dialect cand s =
     (let (kept, d) = s
      in case kept (dialect, mf_schema cand) of
           Inl e \<Rightarrow> (Some e, s)
         | Inr None \<Rightarrow> (None, s)
         | Inr (Some prev) \<Rightarrow>
             (case plan_reconciliation (db_history d (history_of dialect (mf_schema cand))) prev cand of
                Inl e \<Rightarrow> (Some e, s)
              | Inr p \<Rightarrow>
                  (case apply_down w dialect (mf_schema cand) (pn_rollback p) d of
                     (Some e, d) \<Rightarrow> (Some e, kept, d)
                   | (None, d) \<Rightarrow>
                       if save_fault then (Some Manifest_Not_Saved, kept, d)
                       else (None, kept((mf_dialect prev, mf_schema prev) := Inr (Some prev)), d))))"

section \<open>What a plan leaves and adds\<close>

definition row_key :: "revision \<Rightarrow> string \<times> string" where
  "row_key r = (rv_version r, rv_hash r)"

definition file_key :: "migration \<Rightarrow> string \<times> string" where
  "file_key m = (mg_version m, mg_hash m)"

text \<open>
  A history stands for a list of migrations: row by row, or with an adopted prefix behind the
  marker of its last version.
\<close>

definition represents :: "revision list \<Rightarrow> migration list \<Rightarrow> bool" where
  "represents rows ms \<longleftrightarrow>
     map row_key rows = map file_key ms \<or>
     (\<exists>b rs old new. rows = b # rs \<and> is_baseline b \<and> ms = old @ new \<and> old \<noteq> [] \<and>
        mg_version (last old) = rv_version b \<and> map row_key rs = map file_key new)"

lemma advance_split:
  "advance rs ms = Inr (rest, todo) \<Longrightarrow>
   \<exists>dn pre. rs = dn @ rest \<and> ms = pre @ todo \<and> map row_key dn = map file_key pre"
proof (induction rs ms rule: advance.induct)
  case (1 r rs m ms)
  show ?case
  proof (cases "rv_version r = mg_version m \<and> rv_hash r = mg_hash m")
    case True
    then obtain dn pre where "rs = dn @ rest" "ms = pre @ todo" "map row_key dn = map file_key pre"
      using 1 by auto
    with True show ?thesis
      by (intro exI [of _ "r # dn"] exI [of _ "m # pre"]) (simp add: row_key_def [of r] file_key_def [of m])
  qed (use 1(2) in \<open>auto split: if_splits\<close>)
qed auto

lemma at_version_split:
  "at_version ms v = Some i \<Longrightarrow>
   i < length ms \<and> mg_version (ms ! i) = v"
  by (induction ms arbitrary: i) (auto split: if_splits)

lemma plan_rollback_down:
  "plan_rollback cand prev rs = Inr es \<Longrightarrow>
   map mg_version es = map rv_version rs \<and> list_all mg_reversible es"
proof (induction rs arbitrary: es)
  case (Cons r rs)
  have ver: "entry m v = Some e \<Longrightarrow> mg_version e = v" for m v e
    by (auto simp: entry_def dest: find_Some_D)
  show ?case
    using Cons by (auto split: option.splits if_splits sum.splits dest: ver)
qed simp

lemma plan_sound:
  assumes "plan_reconciliation applied cand prev = Inr p"
  shows "\<exists>dn rest pre. applied = dn @ rest \<and> mf_entries cand = pre @ pn_apply p \<and> represents dn pre \<and>
    map mg_version (pn_rollback p) = rev (map rv_version rest) \<and> list_all mg_reversible (pn_rollback p) \<and>
    list_all (\<lambda>r. rv_applied r = rv_total r) applied"
proof -
  obtain rs ms where sk: "skip_baseline applied (mf_entries cand) = (rs, ms)" by fastforce
  obtain rest where adv: "advance rs ms = Inr (rest, pn_apply p)"
    and roll: "plan_rollback cand prev (rev rest) = Inr (pn_rollback p)"
    and full: "List.find (\<lambda>r. rv_applied r \<noteq> rv_total r) applied = None"
    using assms sk by (auto simp: plan_reconciliation_def Let_def split: option.splits sum.splits prod.splits)
  obtain dn pre where split: "rs = dn @ rest" "ms = pre @ pn_apply p" "map row_key dn = map file_key pre"
    using advance_split [OF adv] by blast
  have "\<exists>dn' pre'. applied = dn' @ rest \<and> mf_entries cand = pre' @ pn_apply p \<and> represents dn' pre'"
  proof (cases "\<exists>b r0 i. applied = b # r0 \<and> is_baseline b \<and> at_version (mf_entries cand) (rv_version b) = Some i")
    case True
    then obtain b i where b: "applied = b # rs" "is_baseline b" "at_version (mf_entries cand) (rv_version b) = Some i"
      and ms: "ms = drop (Suc i) (mf_entries cand)"
      using sk by (auto simp: skip_baseline_def)
    let ?old = "take (Suc i) (mf_entries cand)"
    have "?old \<noteq> []" "mg_version (last ?old) = rv_version b"
      using at_version_split [OF b(3)] by (auto simp: take_Suc_conv_app_nth)
    moreover have "mf_entries cand = (?old @ pre) @ pn_apply p"
      using split(2) ms by (metis append_assoc append_take_drop_id)
    ultimately have "represents (b # dn) (?old @ pre)" "mf_entries cand = (?old @ pre) @ pn_apply p"
      using b(2) split(3) unfolding represents_def by blast+
    with b(1) split(1) show ?thesis by (intro exI [of _ "b # dn"] exI [of _ "?old @ pre"]) simp
  next
    case False
    then have "rs = applied" "ms = mf_entries cand"
      using sk by (auto simp: skip_baseline_def split: list.splits if_splits option.splits)
    with split show ?thesis by (auto simp: represents_def)
  qed
  with plan_rollback_down [OF roll] full show ?thesis
    by (auto simp: find_None_iff list_all_iff rev_map)
qed

section \<open>What running a plan does to the histories\<close>

lemma apply_down_history:
  "apply_down w dialect schema ms d = (None, d') \<Longrightarrow>
   db_history d' = (db_history d)(history_of dialect schema :=
     filter (\<lambda>r. rv_version r \<notin> mg_version ` set ms) (db_history d (history_of dialect schema)))"
proof (induction w dialect schema ms d rule: apply_down.induct)
  case (2 w dialect schema m ms d)
  then show ?case
    by (auto simp: Let_def fun_eq_iff intro!: filter_cong split: if_splits option.splits)
qed simp

text \<open>What the code relies on from Atlas: which files it finds pending, and the row it writes for one.\<close>

definition atlas_contract :: "'c db_world \<Rightarrow> migration list \<Rightarrow> bool" where
  "atlas_contract w files \<longleftrightarrow>
     (\<forall>rows pre todo. represents rows pre \<and> files = pre @ todo \<longrightarrow> dw_pending w rows files = Some todo) \<and>
     (\<forall>m \<in> set files. \<forall>rows c out. dw_execute w m (rows, c) = Some out \<longrightarrow>
        (\<exists>n c'. out = (rows @ [\<lparr>rv_version = mg_version m, rv_hash = mg_hash m, rv_applied = n, rv_total = n\<rparr>], c')))"

definition all_complete :: "revision list \<Rightarrow> bool" where
  "all_complete rows \<longleftrightarrow> list_all (\<lambda>r. rv_applied r = rv_total r) rows"

lemma execute_files_history:
  assumes "execute_files w h ms d = (None, d')" and "atlas_contract w files" and "set ms \<subseteq> set files"
  shows "\<exists>rows. db_history d' = (db_history d)(h := db_history d h @ rows) \<and>
    map row_key rows = map file_key ms \<and> all_complete rows"
  using assms(1,3)
proof (induction ms arbitrary: d)
  case (Cons m ms)
  then obtain rows c where x: "dw_execute w m (db_history d h, db_content d) = Some (rows, c)"
    and run: "execute_files w h ms \<lparr>db_history = (db_history d)(h := rows), db_content = c\<rparr> = (None, d')"
    by (auto split: option.splits)
  have "m \<in> set files" using Cons.prems(2) by simp
  with assms(2) x obtain n where
    rows: "rows = db_history d h @ [\<lparr>rv_version = mg_version m, rv_hash = mg_hash m, rv_applied = n, rv_total = n\<rparr>]"
    unfolding atlas_contract_def by blast
  from Cons.IH [OF run] Cons.prems(2) obtain added where
    "db_history d' = (db_history d)(h := rows, h := rows @ added)" "map row_key added = map file_key ms"
    "all_complete added"
    by (auto simp only: database.select_convs fun_upd_same list.set insert_subset)
  with rows show ?case
    by (intro exI [of _ "drop (length (db_history d h)) (rows @ added)"])
      (simp add: row_key_def [of "\<lparr>rv_version = _, rv_hash = _, rv_applied = _, rv_total = _\<rparr>"]
        file_key_def [of m] all_complete_def)
qed (auto simp: all_complete_def)

lemma represents_append:
  "represents rows pre \<Longrightarrow> map row_key added = map file_key todo \<Longrightarrow> represents (rows @ added) (pre @ todo)"
  unfolding represents_def by (auto intro: exI [of _ "_ @ todo"]) (metis append_assoc map_append)

lemma advance_equal: "map row_key rs = map file_key ms \<Longrightarrow> advance rs (ms @ todo) = Inr ([], todo)"
proof (induction rs arbitrary: ms)
  case Nil
  then show ?case by (cases todo) simp_all
next
  case (Cons r rs)
  then obtain m ms' where m: "ms = m # ms'" "row_key r = file_key m" "map row_key rs = map file_key ms'"
    by auto
  then have "rv_version r = mg_version m \<and> rv_hash r = mg_hash m" by (simp add: row_key_def file_key_def)
  with m Cons.IH [OF m(3)] show ?case by simp
qed

lemma at_version_last:
  "distinct (map mg_version (old @ new)) \<Longrightarrow> old \<noteq> [] \<Longrightarrow> mg_version (last old) = v \<Longrightarrow>
   at_version (old @ new) v = Some (length old - 1)"
proof (induction old)
  case (Cons m old)
  show ?case
  proof (cases old)
    case (Cons m' old')
    have "last old \<in> set old" using Cons by (metis last_in_set list.distinct(1))
    then have "mg_version m \<noteq> v"
      using Cons.prems Cons by auto
    then show ?thesis using Cons.IH Cons.prems Cons by auto
  qed (use Cons.prems in simp)
qed simp

text \<open>Walking a history that stands for the first migrations leaves the others to do.\<close>

lemma walk_represented:
  assumes "represents rows pre" and "distinct (map mg_version (pre @ todo))"
  shows "\<exists>rs ms. skip_baseline rows (pre @ todo) = (rs, ms) \<and> advance rs ms = Inr ([], todo)"
  using assms(1) unfolding represents_def
proof (elim disjE exE conjE)
  assume eq: "map row_key rows = map file_key pre"
  show ?thesis
  proof (cases rows)
    case Nil
    then show ?thesis using eq by (simp add: skip_baseline_def)
  next
    case (Cons b r0)
    then obtain e es where "pre = e # es" "mg_version e = rv_version b" "map row_key r0 = map file_key es"
      using eq by (auto simp: row_key_def file_key_def)
    then have "skip_baseline rows (pre @ todo) = (if is_baseline b then (r0, es @ todo) else (rows, pre @ todo))"
      using Cons by (simp add: skip_baseline_def)
    then show ?thesis
      using advance_equal [OF eq] advance_equal [of r0 es] \<open>map row_key r0 = map file_key es\<close>
      by (cases "is_baseline b") simp_all
  qed
next
  fix b r0 old new
  assume "rows = b # r0" "is_baseline b" "pre = old @ new" "old \<noteq> []"
    "mg_version (last old) = rv_version b" "map row_key r0 = map file_key new"
  then show ?thesis
    using at_version_last [of old "new @ todo" "rv_version b"] assms(2) advance_equal [of r0 new]
    by (auto simp: skip_baseline_def)
qed

text \<open>A history that stands for a whole manifest needs nothing rolled back.\<close>

lemma plan_of_represented:
  assumes "represents rows (mf_entries m)" and "all_complete rows" and "distinct (map mg_version (mf_entries m))"
  shows "\<exists>p. plan_reconciliation rows m prev = Inr p \<and> pn_rollback p = [] \<and> pn_apply p = []"
proof -
  have full: "List.find (\<lambda>r. rv_applied r \<noteq> rv_total r) rows = None"
    using assms(2) by (auto simp: find_None_iff all_complete_def list_all_iff)
  show ?thesis
    using walk_represented [OF assms(1), of "[]"] assms(3) full by (auto simp: plan_reconciliation_def)
qed

text \<open>
  C36: whatever branch of migrations last ran, a reconciliation of the live schema that reports
  success leaves a complete history that stands for exactly the candidate's migrations, with
  every foreign one rolled back, keeps the histories of other schemas, and keeps the
  candidate's manifest as the last good one.
\<close>

theorem reconcile_reaches_candidate:
  assumes "reconcile_with_schema w sf dialect cand [] (kept, d) = (None, kept', d')"
    and "atlas_contract w (mf_entries cand)"
    and "distinct (map rv_version (db_history d (history_of dialect [])))"
  shows "represents (db_history d' (history_of dialect [])) (mf_entries cand) \<and>
    all_complete (db_history d' (history_of dialect [])) \<and>
    (\<forall>h. h \<noteq> history_of dialect [] \<longrightarrow> db_history d' h = db_history d h) \<and>
    kept' = kept((mf_dialect cand, mf_schema cand) := Inr (Some cand))"
proof -
  let ?h = "history_of dialect []"
  obtain p prev d1 where plan: "plan_reconciliation (db_history d ?h) cand prev = Inr p"
    and down: "(if pn_rollback p \<noteq> [] then apply_down w dialect [] (pn_rollback p) d else (None, d)) = (None, d1)"
    and up: "apply_with_schema w dialect (mf_entries cand) [] d1 = (None, d')"
    and kept: "kept' = kept((mf_dialect cand, mf_schema cand) := Inr (Some cand))"
    using assms(1)
    by (auto simp: reconcile_with_schema_def Let_def split: if_splits sum.splits prod.splits option.splits)
  obtain dn rest pre where s: "db_history d ?h = dn @ rest" "mf_entries cand = pre @ pn_apply p" "represents dn pre"
    "map mg_version (pn_rollback p) = rev (map rv_version rest)" "all_complete (db_history d ?h)"
    using plan_sound [OF plan] by (auto simp: all_complete_def)
  have gone: "mg_version ` set (pn_rollback p) = rv_version ` set rest"
    using s(4) by (metis list.set_map set_rev)
  have d1: "db_history d1 = (db_history d)(?h := dn)"
  proof -
    have "filter (\<lambda>r. rv_version r \<notin> rv_version ` set rest) (dn @ rest) = dn"
      using assms(3) unfolding s(1) by (force simp: filter_empty_conv filter_id_conv)
    moreover have "rest = []" if "pn_rollback p = []" using s(4) that by simp
    ultimately show ?thesis
      using down apply_down_history [of w dialect "[]" "pn_rollback p" d d1] s(1) gone
      by (auto split: if_splits)
  qed
  have "dw_pending w dn (mf_entries cand) = Some (pn_apply p)"
    using assms(2) s(2,3) unfolding atlas_contract_def by blast
  then have "execute_files w ?h (pn_apply p) d1 = (None, d')"
    using up by (simp add: apply_with_schema_def d1 split: if_splits)
  from execute_files_history [OF this assms(2)] s(2) obtain added where
    a: "db_history d' = (db_history d1)(?h := dn @ added)" "map row_key added = map file_key (pn_apply p)"
      "all_complete added"
    by (auto simp: d1)
  moreover have "all_complete dn" using s(1,5) by (simp add: all_complete_def)
  ultimately show ?thesis
    using represents_append [OF s(3) a(2)] s(2) kept d1 by (simp add: all_complete_def)
qed

text \<open>
  After that the rollback of a candidate whose start fails later finds its own manifest as the
  last good one, and changes nothing.
\<close>

lemma rollback_after_reconcile_is_void:
  assumes "represents (db_history d (history_of dialect (mf_schema cand))) (mf_entries cand)"
    and "all_complete (db_history d (history_of dialect (mf_schema cand)))"
    and "distinct (map mg_version (mf_entries cand))"
    and "kept (dialect, mf_schema cand) = Inr (Some cand)" and "mf_dialect cand = dialect"
  shows "rollback_candidate w False dialect cand (kept, d) = (None, kept, d)"
proof -
  obtain p where "plan_reconciliation (db_history d (history_of dialect (mf_schema cand))) cand cand = Inr p"
    "pn_rollback p = []"
    using plan_of_represented [OF assms(1-3)] by blast
  with assms(4,5) show ?thesis by (auto simp: rollback_candidate_def fun_upd_idem)
qed

text \<open>
  A preflight in a shadow schema that has something to roll back deletes the rows of the live
  history: \<open>ReconcileWithSchema\<close> calls \<open>ApplyDown\<close>, which is for \<open>public\<close>.
\<close>

lemma shadow_rollback_hits_public:
  assumes "reconcile_with_schema w sf ''postgres'' cand schema (kept, d) = (None, kept', d')"
    and "schema \<notin> {[], ''public''}"
    and "kept (''postgres'', schema) = Inr None"
    and "plan_reconciliation (db_history d schema) cand blank_manifest = Inr p" and "pn_rollback p \<noteq> []"
  shows "db_history d' ''public'' =
    filter (\<lambda>r. rv_version r \<notin> mg_version ` set (pn_rollback p)) (db_history d ''public'')"
proof -
  have h: "history_of ''postgres'' [] = ''public''" "history_of ''postgres'' schema = schema"
    using assms(2) by (simp_all add: history_of_def)
  obtain d1 where down: "apply_down w ''postgres'' [] (pn_rollback p) d = (None, d1)"
    and up: "apply_with_schema w ''postgres'' (mf_entries cand) schema d1 = (None, d')"
    using assms by (auto simp: reconcile_with_schema_def Let_def h split: if_splits prod.splits option.splits)
  have other: "db_history e' q = db_history e q" if "execute_files w k ms e = (None, e')" "q \<noteq> k" for k ms e e' q
    using that by (induction ms arbitrary: e) (auto split: option.splits)
  have "db_history d' ''public'' = db_history d1 ''public''"
    using up other [of schema _ d1 d' "''public''"] assms(2)
    by (auto simp: apply_with_schema_def h split: if_splits option.splits)
  with apply_down_history [OF down] show ?thesis by (simp add: h)
qed

section \<open>Example\<close>

text \<open>A database in which Atlas is as simple as its contract allows, and statements are counted.\<close>

definition mig_demo_world :: "nat db_world" where
  "mig_demo_world =
     \<lparr>dw_split = (\<lambda>s. Some [s]), dw_sql = (\<lambda>_ c. Some (Suc c)),
      dw_pending = (\<lambda>rows files. case skip_baseline rows files of (rs, ms) \<Rightarrow>
        (case advance rs ms of Inr ([], todo) \<Rightarrow> Some todo | _ \<Rightarrow> None)),
      dw_execute = (\<lambda>m (rows, c). Some (rows @
        [\<lparr>rv_version = mg_version m, rv_hash = mg_hash m, rv_applied = 1, rv_total = 1\<rparr>], Suc c)),
      dw_commit = (\<lambda>_. True)\<rparr>"

lemma mig_demo_contract:
  assumes "distinct (map mg_version files)"
  shows "atlas_contract mig_demo_world files"
proof -
  have "dw_pending mig_demo_world rows files = Some todo"
    if "represents rows pre" "files = pre @ todo" for rows pre todo
    using walk_represented [OF that(1), of todo] assms that(2) by (auto simp: mig_demo_world_def)
  then show ?thesis by (auto simp: atlas_contract_def mig_demo_world_def)
qed

definition mig_demo_file :: "string \<Rightarrow> migration" where
  "mig_demo_file v = \<lparr>mg_version = v, mg_hash = ''h'' @ v, mg_up = ''create'', mg_down = ''drop'', mg_reversible = True\<rparr>"

definition mig_demo_manifest :: "string list \<Rightarrow> manifest" where
  "mig_demo_manifest vs = \<lparr>mf_dialect = ''sqlite'', mf_schema = [], mf_entries = map mig_demo_file vs\<rparr>"

definition mig_demo_row :: "string \<Rightarrow> revision" where
  "mig_demo_row v = \<lparr>rv_version = v, rv_hash = ''h'' @ v, rv_applied = 1, rv_total = 1\<rparr>"

text \<open>The database ran the branch 1, 2; the candidate carries 1, 3.\<close>

theorem reconcile_reaches_candidate_witness:
  "\<exists>kept' d'. reconcile_with_schema mig_demo_world False ''sqlite'' (mig_demo_manifest [''1'', ''3'']) []
      (\<lambda>_. Inr (Some (mig_demo_manifest [''1'', ''2''])),
       \<lparr>db_history = (\<lambda>_. map mig_demo_row [''1'', ''2'']), db_content = 2\<rparr>) = (None, kept', d') \<and>
    represents (db_history d' []) (map mig_demo_file [''1'', ''3''])"
proof -
  let ?cand = "mig_demo_manifest [''1'', ''3'']" and ?prev = "mig_demo_manifest [''1'', ''2'']"
  let ?d = "\<lparr>db_history = (\<lambda>_. map mig_demo_row [''1'', ''2'']), db_content = 2\<rparr> :: nat database"
  note defs = mig_demo_manifest_def mig_demo_file_def mig_demo_row_def
  have plan: "plan_reconciliation (map mig_demo_row [''1'', ''2'']) ?cand ?prev =
      Inr \<lparr>pn_common = ''1'', pn_rollback = [mig_demo_file ''2''], pn_apply = [mig_demo_file ''3'']\<rparr>"
    by (simp add: plan_reconciliation_def skip_baseline_def is_baseline_def entry_def defs)
  let ?d1 = "?d\<lparr>db_history := (db_history ?d)([] := [mig_demo_row ''1'']), db_content := 3\<rparr>"
  have down: "apply_down mig_demo_world ''sqlite'' [] [mig_demo_file ''2''] ?d = (None, ?d1)"
    by (simp add: mig_demo_world_def defs history_of_def)
  have "\<exists>d'. apply_with_schema mig_demo_world ''sqlite'' (map mig_demo_file [''1'', ''3'']) [] ?d1 = (None, d')"
    by (simp add: apply_with_schema_def ensure_history_def history_of_def mig_demo_world_def
        skip_baseline_def is_baseline_def defs)
  then obtain kept' d' where run: "reconcile_with_schema mig_demo_world False ''sqlite'' ?cand []
      (\<lambda>_. Inr (Some ?prev), ?d) = (None, kept', d')"
    using plan down by (auto simp: reconcile_with_schema_def ensure_history_def history_of_def mig_demo_manifest_def)
  have "atlas_contract mig_demo_world (mf_entries ?cand)" by (rule mig_demo_contract) (simp add: defs)
  from reconcile_reaches_candidate [OF run this] run show ?thesis
    by (auto simp: history_of_def mig_demo_manifest_def mig_demo_row_def)
qed

end
