(* ===== verification/Agent_Loop.thy ===== *)
theory Agent_Loop
  imports Prelude
begin

text \<open>
  The loop of one agent session (\<open>engine/aicli/agent.go\<close>): turns of the model, the tool calls
  they ask for, pausing between a reply and its tools, and the log of the conversation.

  The model, the tools, the hooks of the host, the context and the sequence numbers of the
  logger act on a world \<open>'w\<close> and are arguments (\<open>hooks\<close>).  A hook that is nil is one that
  returns no message, a nil \<open>pause\<close> one that never asks.  Not modelled are the texts the logger
  keeps for the user: the requests, the responses, the rendering of tool results.
\<close>

section \<open>Messages\<close>

record tool_call =
  tc_id :: string
  tc_name :: string
  tc_args :: string

record message =
  ms_role :: string
  ms_content :: string
  ms_calls :: "tool_call list"
  ms_call_id :: string
  ms_name :: string

definition role_system :: string where "role_system = ''system''"
definition role_user :: string where "role_user = ''user''"
definition role_assistant :: string where "role_assistant = ''assistant''"
definition role_tool :: string where "role_tool = ''tool''"

lemmas role_defs = role_system_def role_user_def role_assistant_def role_tool_def

definition plain_message :: "string \<Rightarrow> string \<Rightarrow> message" where
  "plain_message role content =
     \<lparr>ms_role = role, ms_content = content, ms_calls = [], ms_call_id = [], ms_name = []\<rparr>"

definition build_history :: "string \<Rightarrow> message list \<Rightarrow> message list" where
  "build_history system_prompt messages =
     (if system_prompt \<noteq> [] then plain_message role_system system_prompt # messages else messages)"

section \<open>Pruning\<close>

definition max_turns :: nat where "max_turns = 300"
definition max_tool_output_chars :: nat where "max_tool_output_chars = 60000"
definition stale_tool_result_keep_chars :: nat where "stale_tool_result_keep_chars = 1500"
definition stale_tool_result_threshold :: nat where "stale_tool_result_threshold = 4000"
definition fresh_assistant_turns :: nat where "fresh_assistant_turns = 2"

definition mcp_dispatcher_tools :: "string list" where
  "mcp_dispatcher_tools = [''call_mcp_tool'', ''discover_mcp_tool'']"

definition blocking_tools :: "string list" where
  "blocking_tools = [''ask_human'', ''create_subtask'', ''ask_task_owner'', ''browser_use'']"

text \<open>The index of the \<open>k\<close>th assistant message from the end, in a reversed history.\<close>

fun nth_assistant :: "nat \<Rightarrow> message list \<Rightarrow> nat option" where
  "nth_assistant k [] = None"
| "nth_assistant k (m # rev_ms) =
     (if ms_role m = role_assistant
      then (if k = 1 then Some (length rev_ms) else nth_assistant (k - 1) rev_ms)
      else nth_assistant k rev_ms)"

definition ellipsis :: string where
  "ellipsis = [char_of (226::nat), char_of (128::nat), char_of (166::nat)]"

definition newline :: string where "newline = [char_of (10::nat)]"

definition prune_message :: "message \<Rightarrow> message" where
  "prune_message m =
     (if ms_role m \<noteq> role_tool then m
      else if ms_name m \<in> set mcp_dispatcher_tools then m\<lparr>ms_content := ''[omitted]''\<rparr>
      else if length (ms_content m) > stale_tool_result_threshold
      then m\<lparr>ms_content := take stale_tool_result_keep_chars (ms_content m) @ newline @ ellipsis @
             ''[older tool output pruned to save context'' @ '' '' @
             [char_of (226::nat), char_of (128::nat), char_of (148::nat)] @
             '' call the tool again if you still need the full content]''\<rparr>
      else m)"

definition prune_history :: "message list \<Rightarrow> message list" where
  "prune_history history =
     (case nth_assistant fresh_assistant_turns (rev history) of
        None \<Rightarrow> history
      | Some cutoff \<Rightarrow>
          if cutoff = 0 then history
          else map prune_message (take cutoff history) @ drop cutoff history)"

section \<open>The agent and its surroundings\<close>

record turn_usage =
  tu_prompt :: int
  tu_completion :: int
  tu_cached :: int
  tu_reasoning :: int

datatype llm_reply = Llm_Error | No_Choices turn_usage | Reply message turn_usage

text \<open>What is written to the run row on the side.\<close>

datatype book =
    Turn_Tokens turn_usage
  | Listing_Tokens int
  | Tool_Output nat
  | Mcp_Tokens nat "(string \<times> nat) list"
  | Log_Entry string string string

record 'w hooks =
  hk_complete :: "string \<Rightarrow> message list \<Rightarrow> 'w \<Rightarrow> llm_reply \<times> 'w"
  hk_tool :: "bool \<Rightarrow> int \<Rightarrow> string \<Rightarrow> string \<Rightarrow> 'w \<Rightarrow> (string + string) \<times> 'w"
  hk_before :: "message list \<Rightarrow> 'w \<Rightarrow> (string + message list) \<times> 'w"
  hk_interrupt :: "message list \<Rightarrow> 'w \<Rightarrow> (string + message list) \<times> 'w"
  hk_pause :: "'w \<Rightarrow> bool"
  hk_done :: "'w \<Rightarrow> bool"
  hk_log :: "message \<Rightarrow> 'w \<Rightarrow> int \<times> 'w"
  hk_logger :: bool
  hk_books :: bool
  hk_terminal :: "string list"
  hk_server :: "string \<Rightarrow> string option"
  hk_listing_cost :: int

record 'w agent_state =
  ag_world :: 'w
  ag_log :: "(int \<times> message) list"
  ag_seq :: int
  ag_logged :: bool
  ag_notice :: string
  ag_books :: "book list"

datatype outcome =
    Answer string
  | Run_Paused
  | Context_Canceled
  | Before_Failed
  | Interrupt_Failed
  | Llm_Failed
  | No_Choice
  | Max_Turns
  | Unsupported_Mode

definition log_message :: "'w hooks \<Rightarrow> message \<Rightarrow> 'w agent_state \<Rightarrow> 'w agent_state" where
  "log_message hk m a =
     (if \<not> hk_logger hk then a
      else (case hk_log hk m (ag_world a) of
              (n, w) \<Rightarrow> a\<lparr>ag_world := w, ag_log := ag_log a @ [(n, m)], ag_seq := n\<rparr>))"

definition log_messages :: "'w hooks \<Rightarrow> message list \<Rightarrow> 'w agent_state \<Rightarrow> 'w agent_state" where
  "log_messages hk ms a = fold (log_message hk) ms a"

definition keep_book :: "'w hooks \<Rightarrow> book \<Rightarrow> 'w agent_state \<Rightarrow> 'w agent_state" where
  "keep_book hk b a = (if hk_books hk then a\<lparr>ag_books := ag_books a @ [b]\<rparr> else a)"

section \<open>Tool calls\<close>

definition token_estimate :: "string \<Rightarrow> nat" where
  "token_estimate s = length s div 4"

definition cap_output :: "string \<Rightarrow> string \<Rightarrow> string" where
  "cap_output name output =
     (if length output > max_tool_output_chars
      then take max_tool_output_chars output @ newline @ ellipsis @ ''[output truncated at '' @
           dec_nat max_tool_output_chars @ '' chars '' @
           [char_of (226::nat), char_of (128::nat), char_of (148::nat)] @ '' re-run '' @ name @
           '' with a narrower query to see more]''
      else output)"

definition preview :: "string \<Rightarrow> string" where
  "preview output =
     (if length output > 2000 then take 2000 output @ ellipsis @ ''(truncated)'' else output)"

definition tool_message :: "tool_call \<Rightarrow> string \<Rightarrow> message" where
  "tool_message tc output =
     \<lparr>ms_role = role_tool, ms_content = output, ms_calls = [], ms_call_id = tc_id tc,
      ms_name = tc_name tc\<rparr>"

definition run_call :: "'w hooks \<Rightarrow> tool_call \<Rightarrow> 'w agent_state \<Rightarrow> message \<times> bool \<times> 'w agent_state" where
  "run_call hk tc a =
     (let a = keep_book hk (Log_Entry ''tool_call'' (tc_args tc) (tc_name tc)) a
      in case hk_tool hk (tc_name tc \<notin> set blocking_tools) (ag_seq a) (tc_name tc) (tc_args tc) (ag_world a) of
           (r, w) \<Rightarrow>
             (let a = a\<lparr>ag_world := w\<rparr>;
                  output = (case r of Inl e \<Rightarrow> ''error: '' @ e | Inr text \<Rightarrow> text);
                  a = (case r of
                         Inl e \<Rightarrow> keep_book hk (Log_Entry ''error'' (''tool '' @ tc_name tc @ '' failed: '' @ e)
                                    (tc_name tc)) a
                       | Inr _ \<Rightarrow> a);
                  finished = (case r of Inl _ \<Rightarrow> False | Inr _ \<Rightarrow> tc_name tc \<in> set (hk_terminal hk));
                  output = cap_output (tc_name tc) output;
                  a = keep_book hk (Log_Entry ''tool_response'' (preview output) (tc_name tc)) a;
                  a = keep_book hk (Tool_Output (token_estimate output)) a
              in (tool_message tc output, finished, a)))"

fun run_calls ::
  "'w hooks \<Rightarrow> tool_call list \<Rightarrow> 'w agent_state \<Rightarrow> message list \<times> bool \<times> 'w agent_state" where
  "run_calls hk [] a = ([], False, a)"
| "run_calls hk (tc # tcs) a =
     (case run_call hk tc a of
        (m, finished, a) \<Rightarrow>
          (case run_calls hk tcs a of (ms, later, a) \<Rightarrow> (m # ms, finished \<or> later, a)))"

fun add_tokens :: "string \<Rightarrow> nat \<Rightarrow> (string \<times> nat) list \<Rightarrow> (string \<times> nat) list" where
  "add_tokens server n [] = [(server, n)]"
| "add_tokens server n ((x, k) # rest) =
     (if x = server then (x, k + n) # rest else (x, k) # add_tokens server n rest)"

definition mcp_servers :: "'w hooks \<Rightarrow> (tool_call \<times> message) list \<Rightarrow> (string \<times> nat) list" where
  "mcp_servers hk used =
     fold (\<lambda>(tc, m) acc. case hk_server hk (tc_args tc) of
                           None \<Rightarrow> acc
                         | Some server \<Rightarrow> if server = [] then acc
                                          else add_tokens server (token_estimate (ms_content m)) acc) used []"

definition execute_tool_calls ::
  "'w hooks \<Rightarrow> tool_call list \<Rightarrow> 'w agent_state \<Rightarrow> message list \<times> bool \<times> 'w agent_state" where
  "execute_tool_calls hk tcs a =
     (case run_calls hk tcs a of
        (ms, finished, a) \<Rightarrow>
          (let used = filter (\<lambda>(tc, m). tc_name tc \<in> set mcp_dispatcher_tools) (zip tcs ms);
               total = sum_list (map (\<lambda>(tc, m). token_estimate (ms_content m)) used)
           in (ms, finished,
               if total > 0 then keep_book hk (Mcp_Tokens total (mcp_servers hk used)) a else a)))"

section \<open>Turns\<close>

text \<open>The tools of one reply: their results go to the history and to the log.\<close>

definition after_reply ::
  "'w hooks \<Rightarrow> message \<Rightarrow> message list \<Rightarrow> 'w agent_state \<Rightarrow> bool \<times> message list \<times> 'w agent_state" where
  "after_reply hk reply h a =
     (case execute_tool_calls hk (ms_calls reply) a of
        (ms, finished, a) \<Rightarrow> (finished, h @ ms, log_messages hk ms a))"

definition keep_turn_books :: "'w hooks \<Rightarrow> turn_usage \<Rightarrow> 'w agent_state \<Rightarrow> 'w agent_state" where
  "keep_turn_books hk u a =
     (let a = keep_book hk (Turn_Tokens u) a
      in if hk_listing_cost hk > 0 then keep_book hk (Listing_Tokens (hk_listing_cost hk)) a else a)"

datatype 'w turn_result =
    Ends outcome "message list" "'w agent_state"
  | Continues "message list" "'w agent_state"

text \<open>A reply without tool calls ends the run, unless the host has something to say first.\<close>

definition final_reply ::
  "'w hooks \<Rightarrow> message \<Rightarrow> message list \<Rightarrow> 'w agent_state \<Rightarrow> 'w turn_result" where
  "final_reply hk reply h a =
     (case hk_interrupt hk h (ag_world a) of
        (Inl _, w) \<Rightarrow> Ends Interrupt_Failed h (a\<lparr>ag_world := w\<rparr>)
      | (Inr ms, w) \<Rightarrow>
          (let a = a\<lparr>ag_world := w\<rparr>
           in if ms \<noteq> [] then Continues (h @ ms) (log_messages hk ms a)
              else Ends (Answer (trim_space (ms_content reply))) h a))"

text \<open>The tools a reply asks for; a tool that ends the run ends it.\<close>

definition tool_turn :: "'w hooks \<Rightarrow> message \<Rightarrow> message list \<Rightarrow> 'w agent_state \<Rightarrow> 'w turn_result" where
  "tool_turn hk reply h a =
     (case after_reply hk reply h a of
        (finished, h, a) \<Rightarrow>
          if finished then Ends (Answer (trim_space (ms_content reply))) h a else Continues h a)"

definition turn_step ::
  "'w hooks \<Rightarrow> string \<Rightarrow> message list \<Rightarrow> 'w agent_state \<Rightarrow> 'w turn_result" where
  "turn_step hk effort h a =
     (if hk_done hk (ag_world a) then Ends Context_Canceled h a
      else case hk_before hk h (ag_world a) of
        (Inl _, w) \<Rightarrow> Ends Before_Failed h (a\<lparr>ag_world := w\<rparr>)
      | (Inr ms, w) \<Rightarrow>
          (let h = h @ ms; a = log_messages hk ms (a\<lparr>ag_world := w\<rparr>)
           in case hk_complete hk effort (prune_history h) (ag_world a) of
                (Llm_Error, w) \<Rightarrow> Ends Llm_Failed h (a\<lparr>ag_world := w\<rparr>)
              | (No_Choices u, w) \<Rightarrow> Ends No_Choice h (keep_turn_books hk u (a\<lparr>ag_world := w\<rparr>))
              | (Reply reply u, w) \<Rightarrow>
                  (let a = log_message hk reply (keep_turn_books hk u (a\<lparr>ag_world := w\<rparr>));
                       h = h @ [reply]
                   in if ms_calls reply = [] then final_reply hk reply h a
                      else if hk_pause hk (ag_world a) then Ends Run_Paused h a
                      else tool_turn hk reply h a)))"

fun turns ::
  "'w hooks \<Rightarrow> string \<Rightarrow> nat \<Rightarrow> message list \<Rightarrow> 'w agent_state \<Rightarrow> outcome \<times> message list \<times> 'w agent_state"
where
  "turns hk effort 0 h a = (Max_Turns, h, a)"
| "turns hk effort (Suc n) h a =
     (case turn_step hk effort h a of
        Ends oc h a \<Rightarrow> (oc, h, a)
      | Continues h a \<Rightarrow> turns hk effort n h a)"

definition give_notice :: "'w hooks \<Rightarrow> message list \<Rightarrow> 'w agent_state \<Rightarrow> message list \<times> 'w agent_state" where
  "give_notice hk h a =
     (if ag_notice a = [] then (h, a)
      else (let notice = plain_message role_system (ag_notice a)
            in (h @ [notice], (log_message hk notice a)\<lparr>ag_notice := []\<rparr>)))"

definition log_start :: "'w hooks \<Rightarrow> message list \<Rightarrow> 'w agent_state \<Rightarrow> 'w agent_state" where
  "log_start hk h a = (if ag_logged a then a else (log_messages hk h a)\<lparr>ag_logged := True\<rparr>)"

definition mid_turn :: "message list \<Rightarrow> bool" where
  "mid_turn h \<longleftrightarrow> h \<noteq> [] \<and> ms_role (last h) = role_assistant \<and> ms_calls (last h) \<noteq> []"

definition resume_turn :: "'w hooks \<Rightarrow> message list \<Rightarrow> 'w agent_state \<Rightarrow> 'w turn_result" where
  "resume_turn hk h a = (if mid_turn h then tool_turn hk (last h) h a else Continues h a)"

definition run_message_history ::
  "'w hooks \<Rightarrow> string \<Rightarrow> message list \<Rightarrow> 'w agent_state \<Rightarrow> outcome \<times> message list \<times> 'w agent_state" where
  "run_message_history hk effort h a =
     (case resume_turn hk h (log_start hk h a) of
        Ends oc h a \<Rightarrow> (oc, h, a)
      | Continues h a \<Rightarrow> (case give_notice hk h a of (h, a) \<Rightarrow> turns hk effort max_turns h a))"

definition reasoning_effort :: "string \<Rightarrow> string" where
  "reasoning_effort level =
     (if level = ''low'' then ''low'' else if level = ''medium'' then ''medium''
      else if level = ''max'' then ''high'' else [])"

definition run_with_history ::
  "'w hooks \<Rightarrow> string \<Rightarrow> string \<Rightarrow> message list \<Rightarrow> 'w agent_state \<Rightarrow> outcome \<times> message list \<times> 'w agent_state"
where
  "run_with_history hk mode level h a =
     (if mode = ''message_history'' \<or> mode = [] then run_message_history hk [] h a
      else if mode = ''compact_thinking'' then run_message_history hk (reasoning_effort level) h a
      else (Unsupported_Mode, h, a))"

definition never_pausing :: "'w hooks \<Rightarrow> 'w hooks" where
  "never_pausing hk = hk\<lparr>hk_pause := \<lambda>_. False\<rparr>"

definition run_with_messages ::
  "'w hooks \<Rightarrow> string \<Rightarrow> string \<Rightarrow> string \<Rightarrow> message list \<Rightarrow> 'w agent_state \<Rightarrow> outcome \<times> message list \<times> 'w agent_state"
where
  "run_with_messages hk mode level system_prompt messages a =
     run_with_history (never_pausing hk) mode level (build_history system_prompt messages) a"

definition run_once ::
  "'w hooks \<Rightarrow> string \<Rightarrow> string \<Rightarrow> string \<Rightarrow> string \<Rightarrow> 'w agent_state \<Rightarrow> outcome \<times> message list \<times> 'w agent_state"
where
  "run_once hk mode level system_prompt text a =
     run_with_messages hk mode level system_prompt [plain_message role_user text] a"

section \<open>What a turn adds\<close>

text \<open>
  \<open>extends hk h a h' a'\<close>: the history only grew, and by the messages the log grew by.
\<close>

definition extends ::
  "'w hooks \<Rightarrow> message list \<Rightarrow> 'w agent_state \<Rightarrow> message list \<Rightarrow> 'w agent_state \<Rightarrow> bool" where
  "extends hk h a h' a' \<longleftrightarrow>
     (\<exists>new. h' = h @ new \<and> map snd (ag_log a') = map snd (ag_log a) @ (if hk_logger hk then new else []) \<and>
        ag_logged a' = ag_logged a \<and> ag_notice a' = ag_notice a)"

lemma extends_refl [simp]: "extends hk h a h a"
  by (simp add: extends_def)

lemma extends_trans: "extends hk h a h' a' \<Longrightarrow> extends hk h' a' h'' a'' \<Longrightarrow> extends hk h a h'' a''"
  unfolding extends_def by (elim exE conjE) (rule exI, auto)

lemma extends_world [simp]: "extends hk h a h' (a'\<lparr>ag_world := w\<rparr>) = extends hk h a h' a'"
  by (simp add: extends_def)

lemma extends_world_left [simp]: "extends hk h (a\<lparr>ag_world := w\<rparr>) h' a' = extends hk h a h' a'"
  by (simp add: extends_def)

lemma keep_book_fields [simp]:
  "ag_log (keep_book hk b a) = ag_log a" "ag_logged (keep_book hk b a) = ag_logged a"
  "ag_notice (keep_book hk b a) = ag_notice a" "ag_world (keep_book hk b a) = ag_world a"
  "ag_seq (keep_book hk b a) = ag_seq a"
  by (simp_all add: keep_book_def)

lemma keep_turn_books_fields [simp]:
  "ag_log (keep_turn_books hk u a) = ag_log a" "ag_logged (keep_turn_books hk u a) = ag_logged a"
  "ag_notice (keep_turn_books hk u a) = ag_notice a" "ag_world (keep_turn_books hk u a) = ag_world a"
  by (simp_all add: keep_turn_books_def Let_def)

lemma extends_books [simp]: "extends hk h a h' (keep_turn_books hk u a') = extends hk h a h' a'"
  by (simp add: extends_def)

lemma log_message_extends: "extends hk h a (h @ [m]) (log_message hk m a)"
  by (auto simp: extends_def log_message_def split: prod.splits)

lemma log_messages_extends: "extends hk h a (h @ ms) (log_messages hk ms a)"
  unfolding log_messages_def
proof (induction ms arbitrary: h a)
  case (Cons m ms)
  have "extends hk h a (h @ [m]) (log_message hk m a)" by (rule log_message_extends)
  from extends_trans [OF this Cons.IH] show ?case by simp
qed simp

text \<open>The results of the tools answer the calls, one for one.\<close>

definition answers :: "tool_call list \<Rightarrow> message list \<Rightarrow> bool" where
  "answers = list_all2 (\<lambda>c m. ms_role m = role_tool \<and> ms_call_id m = tc_id c \<and> ms_calls m = [])"

lemma run_call_fields:
  "run_call hk tc a = (m, finished, a') \<Longrightarrow>
   ms_role m = role_tool \<and> ms_call_id m = tc_id tc \<and> ms_calls m = [] \<and>
   ag_log a' = ag_log a \<and> ag_logged a' = ag_logged a \<and> ag_notice a' = ag_notice a"
  by (auto simp: run_call_def tool_message_def Let_def split: prod.splits sum.splits)

lemma run_calls_fields:
  "run_calls hk tcs a = (ms, finished, a') \<Longrightarrow>
   answers tcs ms \<and> ag_log a' = ag_log a \<and> ag_logged a' = ag_logged a \<and> ag_notice a' = ag_notice a"
  by (induction tcs arbitrary: a ms finished a')
    (auto simp: answers_def split: prod.splits dest!: run_call_fields)

lemma execute_tool_calls_fields:
  "execute_tool_calls hk tcs a = (ms, finished, a') \<Longrightarrow>
   answers tcs ms \<and> ag_log a' = ag_log a \<and> ag_logged a' = ag_logged a \<and> ag_notice a' = ag_notice a"
  by (auto simp: execute_tool_calls_def Let_def split: prod.splits if_splits dest!: run_calls_fields)

lemma after_reply_adds:
  assumes "after_reply hk reply h a = (finished, h', a')"
  shows "\<exists>ms. h' = h @ ms \<and> answers (ms_calls reply) ms \<and> extends hk h a h' a'"
proof -
  obtain ms a1 where e: "execute_tool_calls hk (ms_calls reply) a = (ms, finished, a1)"
    "h' = h @ ms" "a' = log_messages hk ms a1"
    using assms by (auto simp: after_reply_def split: prod.splits)
  from execute_tool_calls_fields [OF e(1)] log_messages_extends [of hk h a1 ms]
  have "extends hk h a (h @ ms) (log_messages hk ms a1)" by (simp add: extends_def)
  then show ?thesis using e execute_tool_calls_fields [OF e(1)] by blast
qed

lemma turn_step_cases:
  obtains (quiet) oc ms a1 w w' where "turn_step hk effort h a = Ends oc (h @ ms) a1" "oc \<noteq> Run_Paused"
      "ms = [] \<or> hk_before hk h w = (Inr ms, w')" "extends hk h a (h @ ms) a1"
    | (replied) ms reply u a1 w w' v v' where "hk_before hk h w = (Inr ms, w')"
      "hk_complete hk effort (prune_history (h @ ms)) v = (Reply reply u, v')"
      "extends hk h a (h @ ms @ [reply]) a1"
      "turn_step hk effort h a =
         (if ms_calls reply = [] then final_reply hk reply (h @ ms @ [reply]) a1
          else if hk_pause hk (ag_world a1) then Ends Run_Paused (h @ ms @ [reply]) a1
          else tool_turn hk reply (h @ ms @ [reply]) a1)"
proof (cases "hk_done hk (ag_world a)")
  case True
  then show ?thesis using quiet [of Context_Canceled "[]" a] by (simp add: turn_step_def)
next
  case False
  obtain b w' where b: "hk_before hk h (ag_world a) = (b, w')" by fastforce
  show ?thesis
  proof (cases b)
    case (Inl e)
    then show ?thesis using quiet [of Before_Failed "[]" "a\<lparr>ag_world := w'\<rparr>"] b False by (simp add: turn_step_def)
  next
    case (Inr ms)
    let ?a = "log_messages hk ms (a\<lparr>ag_world := w'\<rparr>)"
    have ext: "extends hk h a (h @ ms) ?a"
      using log_messages_extends [of hk h "a\<lparr>ag_world := w'\<rparr>" ms] by simp
    obtain c v' where c: "hk_complete hk effort (prune_history (h @ ms)) (ag_world ?a) = (c, v')" by fastforce
    have step: "turn_step hk effort h a =
       (case (c, v') of
          (Llm_Error, w) \<Rightarrow> Ends Llm_Failed (h @ ms) (?a\<lparr>ag_world := w\<rparr>)
        | (No_Choices u, w) \<Rightarrow> Ends No_Choice (h @ ms) (keep_turn_books hk u (?a\<lparr>ag_world := w\<rparr>))
        | (Reply reply u, w) \<Rightarrow>
            (let a = log_message hk reply (keep_turn_books hk u (?a\<lparr>ag_world := w\<rparr>));
                 h = (h @ ms) @ [reply]
             in if ms_calls reply = [] then final_reply hk reply h a
                else if hk_pause hk (ag_world a) then Ends Run_Paused h a
                else tool_turn hk reply h a))"
      using False b Inr c by (simp add: turn_step_def Let_def)
    show ?thesis
    proof (cases c)
      case Llm_Error
      then show ?thesis using quiet [of Llm_Failed ms "?a\<lparr>ag_world := v'\<rparr>" "ag_world a" w'] step b Inr ext by simp
    next
      case (No_Choices u)
      then show ?thesis
        using quiet [of No_Choice ms "keep_turn_books hk u (?a\<lparr>ag_world := v'\<rparr>)" "ag_world a" w'] step b Inr ext by simp
    next
      case (Reply reply u)
      let ?b = "keep_turn_books hk u (?a\<lparr>ag_world := v'\<rparr>)"
      have "extends hk (h @ ms) ?b ((h @ ms) @ [reply]) (log_message hk reply ?b)"
        by (rule log_message_extends)
      then have "extends hk h a (h @ ms @ [reply]) (log_message hk reply ?b)"
        using extends_trans [of hk h a "h @ ms" ?b] ext by simp
      then show ?thesis using replied [of "ag_world a" ms w' "ag_world ?a" reply u v'] step Reply b Inr c by (simp add: Let_def)
    qed
  qed
qed

lemma final_reply_adds:
  assumes "final_reply hk reply h a = r"
  shows "(\<exists>oc a'. r = Ends oc h a' \<and> oc \<noteq> Run_Paused \<and> extends hk h a h a') \<or>
         (\<exists>ms w w' a'. hk_interrupt hk h w = (Inr ms, w') \<and> r = Continues (h @ ms) a' \<and>
            extends hk h a (h @ ms) a')"
proof -
  obtain b w' where b: "hk_interrupt hk h (ag_world a) = (b, w')" by fastforce
  have "extends hk h a (h @ ms) (log_messages hk ms (a\<lparr>ag_world := w'\<rparr>))" for ms
    using log_messages_extends [of hk h "a\<lparr>ag_world := w'\<rparr>" ms] by simp
  then show ?thesis using assms b by (auto simp: final_reply_def Let_def split: sum.splits if_splits) 
qed

lemma tool_turn_adds:
  assumes "tool_turn hk reply h a = r"
  shows "\<exists>ms a'. answers (ms_calls reply) ms \<and> extends hk h a (h @ ms) a' \<and>
           (r = Continues (h @ ms) a' \<or> r = Ends (Answer (trim_space (ms_content reply))) (h @ ms) a')"
proof -
  obtain finished h' a' where "after_reply hk reply h a = (finished, h', a')" by (cases "after_reply hk reply h a")
  with after_reply_adds [OF this] show ?thesis using assms by (auto simp: tool_turn_def split: if_splits)
qed

section \<open>The log is the conversation\<close>

fun result_of :: "'w turn_result \<Rightarrow> message list \<times> 'w agent_state" where
  "result_of (Ends oc h a) = (h, a)"
| "result_of (Continues h a) = (h, a)"

lemma tool_turn_extends: "result_of (tool_turn hk reply h a) = (h', a') \<Longrightarrow> extends hk h a h' a'"
  using tool_turn_adds [where hk = hk and reply = reply and h = h and a = a, OF refl] by auto

lemma turn_step_extends: "result_of (turn_step hk effort h a) = (h', a') \<Longrightarrow> extends hk h a h' a'"
proof (cases rule: turn_step_cases [of hk effort h a])
  case (replied ms reply u a1 w w' v v')
  assume r: "result_of (turn_step hk effort h a) = (h', a')"
  have "extends hk (h @ ms @ [reply]) a1 h' a'"
    using r replied(4) final_reply_adds [where hk = hk and reply = reply and h = "h @ ms @ [reply]" and a = a1, OF refl]
      tool_turn_extends [of hk reply "h @ ms @ [reply]" a1]
    by (auto split: if_splits)
  then show ?thesis using replied(3) extends_trans by blast
qed auto

lemma turns_extend: "turns hk effort n h a = (oc, h', a') \<Longrightarrow> extends hk h a h' a'"
proof (induction n arbitrary: h a)
  case (Suc n)
  then show ?case
    using turn_step_extends [of hk effort h a]
    by (cases "turn_step hk effort h a") (auto intro: extends_trans)
qed simp

lemma extendsD:
  assumes "extends hk h a h' a'" and "hk_logger hk"
  obtains new where "h' = h @ new" "map snd (ag_log a') = map snd (ag_log a) @ new"
    "ag_logged a' = ag_logged a" "ag_notice a' = ag_notice a"
  using assms by (auto simp: extends_def)

lemma log_start_fields:
  "map snd (ag_log (log_start hk h a)) = map snd (ag_log a) @ (if ag_logged a \<or> \<not> hk_logger hk then [] else h)"
  "ag_logged (log_start hk h a)" "ag_notice (log_start hk h a) = ag_notice a"
  using log_messages_extends [of hk "[]" a h] by (auto simp: log_start_def extends_def)

lemma give_notice_adds:
  assumes "give_notice hk h a = (h', a')"
  shows "\<exists>new. (new = [] \<or> new = [plain_message role_system (ag_notice a)]) \<and> h' = h @ new \<and>
           map snd (ag_log a') = map snd (ag_log a) @ (if hk_logger hk then new else []) \<and>
           ag_logged a' = ag_logged a \<and> ag_notice a' = []"
proof (cases "ag_notice a = []")
  case True
  then show ?thesis using assms by (simp add: give_notice_def)
next
  case False
  let ?n = "plain_message role_system (ag_notice a)"
  have "h' = h @ [?n]" "a' = (log_message hk ?n a)\<lparr>ag_notice := []\<rparr>"
    using assms False by (auto simp: give_notice_def Let_def)
  then show ?thesis
    by (intro exI [of _ "[?n]"]) (simp add: log_message_def split: prod.splits)
qed

text \<open>
  The log of a session is its conversation: whatever the model, the tools and the host do,
  and however the run ends, the history only grows, and exactly the messages it grew by went
  to the log, in order; a fresh session logs what it starts from first.
\<close>

lemma log_is_the_conversation:
  assumes "hk_logger hk" and run: "run_message_history hk effort h a = (oc, h', a')"
  shows "\<exists>new. h' = h @ new \<and>
           map snd (ag_log a') = map snd (ag_log a) @ (if ag_logged a then [] else h) @ new"
proof -
  obtain h1 a1 where r: "result_of (resume_turn hk h (log_start hk h a)) = (h1, a1)" by fastforce
  then have 1: "extends hk h (log_start hk h a) h1 a1"
    by (auto simp: resume_turn_def dest: tool_turn_extends split: if_splits)
  from 1 assms(1) obtain n1 where n1: "h1 = h @ n1"
      "map snd (ag_log a1) = map snd (ag_log (log_start hk h a)) @ n1" by (rule extendsD)
  have start: "map snd (ag_log (log_start hk h a)) = map snd (ag_log a) @ (if ag_logged a then [] else h)"
    using log_start_fields(1) [of hk h a] assms(1) by simp
  show ?thesis
  proof (cases "resume_turn hk h (log_start hk h a)")
    case (Ends oc2 h2 a2)
    then have "h' = h1" "a' = a1" using run r by (simp_all add: run_message_history_def)
    then show ?thesis using n1 start by simp
  next
    case (Continues h2 a2)
    obtain h3 a3 where n: "give_notice hk h1 a1 = (h3, a3)" by fastforce
    then have "turns hk effort max_turns h3 a3 = (oc, h', a')"
      using run Continues r by (simp add: run_message_history_def)
    from turns_extend [OF this] assms(1) obtain n3 where n3: "h' = h3 @ n3"
        "map snd (ag_log a') = map snd (ag_log a3) @ n3" by (rule extendsD)
    obtain n2 where "h3 = h1 @ n2" "map snd (ag_log a3) = map snd (ag_log a1) @ n2"
      using give_notice_adds [OF n] assms(1) by auto
    then show ?thesis using n1 n3 start by (intro exI [of _ "n1 @ n2 @ n3"]) simp
  qed
qed

section \<open>Every tool call is answered\<close>

text \<open>A conversation in which each reply's tool calls are answered before anything else is said.\<close>

function paired :: "message list \<Rightarrow> bool" where
  "paired [] = True"
| "paired (m # ms) =
     (ms_role m \<noteq> role_tool \<and> answers (ms_calls m) (take (length (ms_calls m)) ms) \<and>
      paired (drop (length (ms_calls m)) ms))"
  by pat_completeness auto
termination by (relation "measure length") auto

lemma answers_length: "answers cs ms \<Longrightarrow> length ms = length cs"
  by (auto simp: answers_def dest: list_all2_lengthD)

lemma paired_append: "paired xs \<Longrightarrow> paired (xs @ ys) = paired ys"
proof (induction xs rule: paired.induct)
  case (2 m ms)
  let ?k = "length (ms_calls m)"
  have "length ms \<ge> ?k" using 2(2) answers_length by fastforce
  then show ?case using 2 by simp
qed simp

definition spoken :: "message list \<Rightarrow> bool" where
  "spoken ms \<longleftrightarrow> (\<forall>m \<in> set ms. ms_calls m = [] \<and> ms_role m \<noteq> role_tool)"

lemma paired_spoken: "spoken ms \<Longrightarrow> paired ms"
  by (induction ms) (auto simp: spoken_def answers_def)

lemma paired_answered: "ms_role m \<noteq> role_tool \<Longrightarrow> answers (ms_calls m) ms \<Longrightarrow> paired (m # ms)"
  using answers_length by fastforce

text \<open>What is relied on: the model speaks as the assistant, the host calls no tools.\<close>

definition well_spoken :: "'w hooks \<Rightarrow> bool" where
  "well_spoken hk \<longleftrightarrow>
     (\<forall>e h w m u w'. hk_complete hk e h w = (Reply m u, w') \<longrightarrow> ms_role m = role_assistant) \<and>
     (\<forall>h w ms w'. hk_before hk h w = (Inr ms, w') \<longrightarrow> spoken ms) \<and>
     (\<forall>h w ms w'. hk_interrupt hk h w = (Inr ms, w') \<longrightarrow> spoken ms)"

lemma well_spokenD:
  assumes "well_spoken hk"
  shows "hk_complete hk e h w = (Reply m u, w') \<Longrightarrow> ms_role m = role_assistant"
    and "hk_before hk h w = (Inr ms, w') \<Longrightarrow> spoken ms"
    and "hk_interrupt hk h w = (Inr ms, w') \<Longrightarrow> spoken ms"
  using assms unfolding well_spoken_def by blast+

text \<open>Between turns everything is answered; a paused run has one reply that is not.\<close>

definition resumable :: "message list \<Rightarrow> bool" where
  "resumable h \<longleftrightarrow> paired h \<or> (mid_turn h \<and> paired (butlast h))"

fun step_paired :: "'w turn_result \<Rightarrow> bool" where
  "step_paired (Ends oc h a) = (if oc = Run_Paused then mid_turn h \<and> paired (butlast h) else paired h)"
| "step_paired (Continues h a) = paired h"

lemma not_tool [simp]: "role_assistant \<noteq> role_tool" "role_tool \<noteq> role_assistant" "role_system \<noteq> role_tool"
  by (simp_all add: role_defs)

lemma answers_last: "answers cs ms \<Longrightarrow> ms \<noteq> [] \<Longrightarrow> ms_role (last ms) = role_tool"
  by (auto simp: answers_def list_all2_conv_all_nth last_conv_nth)

lemma paired_not_mid: "paired h \<Longrightarrow> \<not> mid_turn h"
proof (induction h rule: paired.induct)
  case (2 m ms)
  let ?k = "length (ms_calls m)"
  have len: "length ms \<ge> ?k" using 2(2) answers_length by fastforce
  show ?case
  proof (cases "drop ?k ms = []")
    case True
    then have "take ?k ms = ms" by simp
    then have "answers (ms_calls m) ms" using 2(2) by simp
    then show ?thesis using answers_last [of "ms_calls m" ms] answers_length [of "ms_calls m" ms]
      by (auto simp: mid_turn_def)
  next
    case False
    then have "ms \<noteq> []" "last (drop ?k ms) = last ms" by (auto simp: last_drop)
    have "\<not> mid_turn (drop ?k ms)" using 2 by simp
    with \<open>ms \<noteq> []\<close> \<open>last (drop ?k ms) = last ms\<close> False show ?thesis by (simp add: mid_turn_def del: drop_eq_Nil)
  qed
qed (simp add: mid_turn_def)

lemma tool_turn_paired:
  assumes "paired h" and "ms_role reply = role_assistant"
  shows "step_paired (tool_turn hk reply (h @ [reply]) a)"
proof -
  obtain ms a' where ms: "answers (ms_calls reply) ms"
    and r: "tool_turn hk reply (h @ [reply]) a = Continues (h @ [reply] @ ms) a' \<or>
      tool_turn hk reply (h @ [reply]) a = Ends (Answer (trim_space (ms_content reply))) (h @ [reply] @ ms) a'"
    using tool_turn_adds [where hk = hk and reply = reply and h = "h @ [reply]" and a = a, OF refl] by auto
  have "paired (h @ reply # ms)"
    using assms paired_answered [OF _ ms] by (simp add: paired_append del: paired.simps)
  then show ?thesis using r by auto
qed

lemma turn_step_paired:
  assumes w: "well_spoken hk" and "paired h"
  shows "step_paired (turn_step hk effort h a)"
proof (cases rule: turn_step_cases [of hk effort h a])
  case (quiet oc ms a1 w w')
  then have "paired ms" using well_spokenD(2) [OF w] by (auto intro: paired_spoken)
  then show ?thesis using quiet assms(2) by (simp add: paired_append)
next
  case (replied ms reply u a1 x x' v v')
  have "spoken ms" "ms_role reply = role_assistant" using well_spokenD(1,2) [OF w] replied(1,2) by auto
  then have p: "paired (h @ ms)" using assms(2) by (simp add: paired_append paired_spoken)
  have "step_paired (final_reply hk reply (h @ ms @ [reply]) a1)" if "ms_calls reply = []"
  proof -
    have p1: "paired (h @ ms @ [reply])"
      using paired_append [OF p, of "[reply]"] that \<open>ms_role reply = role_assistant\<close> by (simp add: answers_def)
    then show ?thesis
      using final_reply_adds [where hk = hk and reply = reply and h = "h @ ms @ [reply]" and a = a1, OF refl]
        paired_append [OF p1]
      by (auto dest!: well_spokenD(3) [OF w] paired_spoken)
  qed
  moreover have "step_paired (tool_turn hk reply (h @ ms @ [reply]) a1)"
    using tool_turn_paired [OF p, of reply hk a1] \<open>ms_role reply = role_assistant\<close> by simp
  moreover have "step_paired (Ends Run_Paused (h @ ms @ [reply]) a1)" if "ms_calls reply \<noteq> []"
    using that p \<open>ms_role reply = role_assistant\<close> by (simp add: mid_turn_def butlast_append)
  ultimately show ?thesis unfolding replied(4) by (auto split: if_splits)
qed

lemma turns_paired:
  assumes "well_spoken hk" and "paired h" and "turns hk effort n h a = (oc, h', a')"
  shows "step_paired (Ends oc h' a')"
  using assms(2,3)
proof (induction n arbitrary: h a)
  case (Suc n)
  then show ?case
    using turn_step_paired [OF assms(1) Suc.prems(1), of effort a]
    by (cases "turn_step hk effort h a") auto
qed auto

text \<open>
  C2: a conversation stays one a provider accepts: from a start in which every tool call is
  answered, or is the last thing said, each run ends with every call answered, one result per
  call and in order, and a paused run ends with exactly one reply whose calls are open.
\<close>

theorem every_tool_call_is_answered:
  assumes "well_spoken hk" and "resumable h" and run: "run_message_history hk effort h a = (oc, h', a')"
  shows "if oc = Run_Paused then mid_turn h' \<and> paired (butlast h') else paired h'"
proof -
  let ?a = "log_start hk h a"
  have start: "step_paired (resume_turn hk h ?a)"
  proof (cases "mid_turn h")
    case False
    then show ?thesis using assms(2) by (simp add: resume_turn_def resumable_def)
  next
    case True
    then have h: "h = butlast h @ [last h]" "ms_role (last h) = role_assistant" by (auto simp: mid_turn_def)
    have "paired (butlast h)" using assms(2) True paired_not_mid by (auto simp: resumable_def)
    from tool_turn_paired [OF this h(2), of hk ?a] h(1) True show ?thesis by (simp add: resume_turn_def)
  qed
  show ?thesis
  proof (cases "resume_turn hk h ?a")
    case (Ends oc2 h2 a2)
    then show ?thesis using start run by (auto simp: run_message_history_def split: if_splits)
  next
    case (Continues h2 a2)
    obtain h3 a3 where n: "give_notice hk h2 a2 = (h3, a3)" by fastforce
    have "paired h3" using start Continues give_notice_adds [OF n]
      by (auto simp: paired_append plain_message_def answers_def)
    then show ?thesis using turns_paired [OF assms(1), of h3 effort max_turns a3 oc h' a'] run Continues n
      by (simp add: run_message_history_def)
  qed
qed

section \<open>A pause is invisible\<close>

lemma never_pausing_fields [simp]:
  "hk_complete (never_pausing hk) = hk_complete hk" "hk_tool (never_pausing hk) = hk_tool hk"
  "hk_before (never_pausing hk) = hk_before hk" "hk_interrupt (never_pausing hk) = hk_interrupt hk"
  "hk_done (never_pausing hk) = hk_done hk" "hk_log (never_pausing hk) = hk_log hk"
  "hk_logger (never_pausing hk) = hk_logger hk" "hk_books (never_pausing hk) = hk_books hk"
  "hk_terminal (never_pausing hk) = hk_terminal hk" "hk_server (never_pausing hk) = hk_server hk"
  "hk_listing_cost (never_pausing hk) = hk_listing_cost hk" "hk_pause (never_pausing hk) w = False"
  by (simp_all add: never_pausing_def)

lemma keep_book_never [simp]: "keep_book (never_pausing hk) = keep_book hk"
  by (intro ext) (simp add: keep_book_def)

lemma log_message_never [simp]: "log_message (never_pausing hk) = log_message hk"
  by (intro ext) (simp add: log_message_def)

lemma log_messages_never [simp]: "log_messages (never_pausing hk) = log_messages hk"
  by (intro ext) (simp add: log_messages_def)

lemma run_call_never [simp]: "run_call (never_pausing hk) = run_call hk"
  by (intro ext) (simp add: run_call_def Let_def split: prod.split sum.split)

lemma run_calls_never [simp]: "run_calls (never_pausing hk) tcs a = run_calls hk tcs a"
  by (induction tcs arbitrary: a) simp_all

lemma mcp_servers_never [simp]: "mcp_servers (never_pausing hk) used = mcp_servers hk used"
  by (simp add: mcp_servers_def)

lemma tool_turn_never [simp]: "tool_turn (never_pausing hk) = tool_turn hk"
  by (intro ext) (simp add: tool_turn_def after_reply_def execute_tool_calls_def Let_def cong: if_cong split: prod.split)

lemma final_reply_never [simp]: "final_reply (never_pausing hk) = final_reply hk"
  by (intro ext) (simp add: final_reply_def Let_def cong: if_cong split: prod.split sum.split)

lemma keep_turn_books_never [simp]: "keep_turn_books (never_pausing hk) = keep_turn_books hk"
  by (intro ext) (simp add: keep_turn_books_def Let_def cong: if_cong)

lemma log_start_never [simp]: "log_start (never_pausing hk) = log_start hk"
  by (intro ext) (simp add: log_start_def cong: if_cong)

lemma resume_turn_never [simp]: "resume_turn (never_pausing hk) = resume_turn hk"
  by (intro ext) (simp add: resume_turn_def cong: if_cong)

lemma give_notice_never [simp]: "give_notice (never_pausing hk) = give_notice hk"
  by (intro ext) (simp add: give_notice_def Let_def cong: if_cong)

text \<open>A turn that does not pause is the same turn; one that does would have gone on with its tools.\<close>

lemma turn_step_never:
  "turn_step (never_pausing hk) effort h a =
     (case turn_step hk effort h a of
        Ends oc h' a' \<Rightarrow>
          if oc = Run_Paused then tool_turn hk (last h') h' a' else Ends oc h' a'
      | Continues h' a' \<Rightarrow> Continues h' a')"
proof -
  have f: "(case final_reply hk reply x b of
       Ends oc h' a' \<Rightarrow> if oc = Run_Paused then tool_turn hk (last h') h' a' else Ends oc h' a'
     | Continues h' a' \<Rightarrow> Continues h' a') = final_reply hk reply x b" for reply x b
    using final_reply_adds [where hk = hk and reply = reply and h = x and a = b, OF refl] by auto
  have t: "(case tool_turn hk reply x b of
       Ends oc h' a' \<Rightarrow> if oc = Run_Paused then tool_turn hk (last h') h' a' else Ends oc h' a'
     | Continues h' a' \<Rightarrow> Continues h' a') = tool_turn hk reply x b" for reply x b
    using tool_turn_adds [where hk = hk and reply = reply and h = x and a = b, OF refl] by auto
  show ?thesis
    unfolding turn_step_def by (simp add: Let_def f t split: prod.split sum.split llm_reply.split)
qed

lemma turns_more_fuel:
  "turns hk effort n h a = (oc, h', a') \<Longrightarrow> oc \<noteq> Max_Turns \<Longrightarrow> n \<le> k \<Longrightarrow> turns hk effort k h a = (oc, h', a')"
proof (induction n arbitrary: h a k)
  case (Suc n)
  then obtain m where "k = Suc m" "n \<le> m" by (cases k) auto
  with Suc show ?case by (cases "turn_step hk effort h a") auto
qed simp

lemma tool_turn_no_pause [simp]: "tool_turn hk reply h a \<noteq> Ends Run_Paused h' a'"
  using tool_turn_adds [where hk = hk and reply = reply and h = h and a = a, OF refl] by auto

lemma paused_mid_turn:
  assumes "well_spoken hk" and "turns hk effort n h a = (Run_Paused, h', a')"
  shows "mid_turn h'"
  using assms(2)
proof (induction n arbitrary: h a)
  case (Suc n)
  show ?case
  proof (cases "turn_step hk effort h a")
    case (Ends oc h2 a2)
    then have e: "turn_step hk effort h a = Ends Run_Paused h' a'" using Suc.prems by simp
    show ?thesis
    proof (cases rule: turn_step_cases [of hk effort h a])
      case (replied ms reply u b w w' v v')
      have "final_reply hk reply x b \<noteq> Ends Run_Paused h' a'" for x
        using final_reply_adds [where hk = hk and reply = reply and h = x and a = b, OF refl] by auto
      then have "ms_calls reply \<noteq> []" "h' = h @ ms @ [reply]"
        using e replied(4) by (auto split: if_splits)
      then show ?thesis using well_spokenD(1) [OF assms(1) replied(2)] by (simp add: mid_turn_def)
    qed (use e in auto)
  qed (use Suc in auto)
qed simp

text \<open>
  The rest of a run that stopped between a reply and its tools: the tools, the notice if there is
  one, and at most \<open>k\<close> further turns.
\<close>

definition go_on ::
  "'w hooks \<Rightarrow> string \<Rightarrow> nat \<Rightarrow> string \<Rightarrow> message list \<Rightarrow> 'w agent_state \<Rightarrow> outcome \<times> message list \<times> 'w agent_state"
where
  "go_on hk effort k notice h a =
     (case tool_turn hk (last h) h a of
        Ends oc h a \<Rightarrow> (oc, h, a\<lparr>ag_notice := notice\<rparr>)
      | Continues h a \<Rightarrow>
          (case give_notice hk h (a\<lparr>ag_notice := notice\<rparr>) of (h, a) \<Rightarrow> turns hk effort k h a))"

lemma keep_book_notice: "keep_book hk b (a\<lparr>ag_notice := n\<rparr>) = (keep_book hk b a)\<lparr>ag_notice := n\<rparr>"
  by (simp add: keep_book_def)

lemma log_message_notice: "log_message hk m (a\<lparr>ag_notice := n\<rparr>) = (log_message hk m a)\<lparr>ag_notice := n\<rparr>"
  by (cases a) (simp add: log_message_def split: prod.split)

lemma log_messages_notice: "log_messages hk ms (a\<lparr>ag_notice := n\<rparr>) = (log_messages hk ms a)\<lparr>ag_notice := n\<rparr>"
  unfolding log_messages_def by (induction ms arbitrary: a) (simp_all add: log_message_notice)

abbreviation noted :: "string \<Rightarrow> 'm \<times> bool \<times> 'w agent_state \<Rightarrow> 'm \<times> bool \<times> 'w agent_state" where
  "noted n r \<equiv> (fst r, fst (snd r), snd (snd r)\<lparr>ag_notice := n\<rparr>)"

lemma run_call_notice: "run_call hk tc (a\<lparr>ag_notice := n\<rparr>) = noted n (run_call hk tc a)"
  by (cases a) (simp add: run_call_def Let_def keep_book_def split: prod.split sum.split)

lemma run_calls_notice: "run_calls hk tcs (a\<lparr>ag_notice := n\<rparr>) = noted n (run_calls hk tcs a)"
  by (induction tcs arbitrary: a) (simp_all add: run_call_notice split: prod.split)

lemma execute_tool_calls_notice: "execute_tool_calls hk tcs (a\<lparr>ag_notice := n\<rparr>) = noted n (execute_tool_calls hk tcs a)"
  by (cases "run_calls hk tcs a")
    (simp only: execute_tool_calls_def run_calls_notice prod.case fst_conv snd_conv Let_def keep_book_notice
      if_distrib [where f = "\<lambda>a. a\<lparr>ag_notice := n\<rparr>"])

lemma tool_turn_notice:
  "tool_turn hk reply h (a\<lparr>ag_notice := n\<rparr>) =
     (case tool_turn hk reply h a of
        Ends oc h a \<Rightarrow> Ends oc h (a\<lparr>ag_notice := n\<rparr>) | Continues h a \<Rightarrow> Continues h (a\<lparr>ag_notice := n\<rparr>))"
  by (simp add: tool_turn_def after_reply_def execute_tool_calls_notice log_messages_notice split: prod.split)

text \<open>Whether a host may pause again makes no difference to the tools it resumes with.\<close>

lemma tool_turn_pause: "tool_turn (hk\<lparr>hk_pause := p\<rparr>) = tool_turn hk"
  using tool_turn_never [of hk] tool_turn_never [of "hk\<lparr>hk_pause := p\<rparr>"] by (simp add: never_pausing_def)

lemma turns_resume_some:
  assumes "turns hk effort n h a = (Run_Paused, h1, a1)"
  shows "\<exists>k < n. turns (never_pausing hk) effort n h a =
    (case tool_turn hk (last h1) h1 a1 of
       Ends oc h' a' \<Rightarrow> (oc, h', a') | Continues h' a' \<Rightarrow> turns (never_pausing hk) effort k h' a')"
  using assms
proof (induction n arbitrary: h a)
  case (Suc n)
  show ?case
  proof (cases "turn_step hk effort h a")
    case (Ends oc' h' a')
    then show ?thesis using Suc.prems by (auto simp: turn_step_never split: turn_result.split)
  next
    case (Continues h' a')
    then have "turns hk effort n h' a' = (Run_Paused, h1, a1)"
      using Suc.prems by simp
    from Suc.IH [OF this] obtain k where "k < n" "turns (never_pausing hk) effort n h' a' =
        (case tool_turn hk (last h1) h1 a1 of
           Ends oc h' a' \<Rightarrow> (oc, h', a') | Continues h' a' \<Rightarrow> turns (never_pausing hk) effort k h' a')" by blast
    then show ?thesis using Continues by (auto simp: turn_step_never intro!: exI [of _ k])
  qed
qed simp

text \<open>
  C1: a run that pauses between a reply and its tools loses nothing and repeats nothing: resumed
  from its history, with whatever notice the host says to it and whether or not it may pause again,
  it runs those tools in the state in which the run that was never asked to pause runs them, and
  goes on from there; the notice stands right after their results, and the resumed run has all its
  turns again where the other one has the rest.  Without a notice it ends as the run that was never
  asked to pause, unless that one ran out of turns.
\<close>

theorem pausing_is_invisible:
  assumes w: "well_spoken hk"
    and paused: "run_message_history hk effort h a = (Run_Paused, h1, a1)"
  shows "(\<exists>k < max_turns. run_message_history (never_pausing hk) effort h a = go_on (never_pausing hk) effort k [] h1 a1) \<and>
    (\<forall>p n. run_message_history (hk\<lparr>hk_pause := p\<rparr>) effort h1 (a1\<lparr>ag_notice := n\<rparr>) =
             go_on (hk\<lparr>hk_pause := p\<rparr>) effort max_turns n h1 a1) \<and>
    (fst (run_message_history (never_pausing hk) effort h a) \<noteq> Max_Turns \<longrightarrow>
       run_message_history (never_pausing hk) effort h1 a1 = run_message_history (never_pausing hk) effort h a)"
proof -
  obtain h0 a0 where r: "resume_turn hk h (log_start hk h a) = Continues h0 a0"
    using paused
    by (cases "resume_turn hk h (log_start hk h a)") (auto simp: run_message_history_def resume_turn_def split: if_splits)
  obtain h3 a3 where n: "give_notice hk h0 a0 = (h3, a3)" by fastforce
  have t: "turns hk effort max_turns h3 a3 = (Run_Paused, h1, a1)"
    and through: "run_message_history (never_pausing hk) effort h a = turns (never_pausing hk) effort max_turns h3 a3"
    using paused r n by (simp_all add: run_message_history_def)
  have "extends hk h (log_start hk h a) h0 a0"
    using r by (auto simp: resume_turn_def dest!: arg_cong [of _ _ result_of] tool_turn_extends split: if_splits)
  then have "ag_logged a0" by (auto simp: extends_def log_start_fields(2))
  then have a3: "ag_logged a3" "ag_notice a3 = []" using give_notice_adds [OF n] by auto
  then have a1: "ag_logged a1" "ag_notice a1 = []" using turns_extend [OF t(1)] by (auto simp: extends_def)
  have same: "a1\<lparr>ag_notice := []\<rparr> = a1" using a1(2) by simp
  have keep: "a'\<lparr>ag_notice := []\<rparr> = a'"
    if "tool_turn hk (last h1) h1 a1 = Continues h' a' \<or> tool_turn hk (last h1) h1 a1 = Ends oc h' a'" for oc h' a'
  proof -
    have "extends hk h1 a1 h' a'" by (rule tool_turn_extends [of hk "last h1"]) (use that in auto)
    then have "ag_notice a' = []" using a1 by (auto simp: extends_def)
    then show ?thesis by simp
  qed
  have rest: "go_on (never_pausing hk) effort k [] h1 a1 =
      (case tool_turn hk (last h1) h1 a1 of
         Ends oc h a \<Rightarrow> (oc, h, a) | Continues h a \<Rightarrow> turns (never_pausing hk) effort k h a)" for k
    using keep by (auto simp: go_on_def give_notice_def split: turn_result.split)
  have resumed: "run_message_history (hk\<lparr>hk_pause := p\<rparr>) effort h1 (a1\<lparr>ag_notice := n\<rparr>) =
             go_on (hk\<lparr>hk_pause := p\<rparr>) effort max_turns n h1 a1" for p n
    using paused_mid_turn [OF w t(1)] a1(1)
    by (simp add: run_message_history_def resume_turn_def log_start_def go_on_def tool_turn_pause tool_turn_notice
        split: turn_result.split)
  from turns_resume_some [OF t(1)] obtain k where k: "k < max_turns"
      "run_message_history (never_pausing hk) effort h a = go_on (never_pausing hk) effort k [] h1 a1"
    by (auto simp: through rest)
  have "run_message_history (never_pausing hk) effort h1 a1 = go_on (never_pausing hk) effort max_turns [] h1 a1"
    using resumed [of "\<lambda>_. False" "[]"] same by (simp add: never_pausing_def)
  also have "\<dots> = go_on (never_pausing hk) effort k [] h1 a1"
    if "fst (go_on (never_pausing hk) effort k [] h1 a1) \<noteq> Max_Turns"
    using that turns_more_fuel [of "never_pausing hk" effort k _ _ _ _ _ max_turns] k(1)
    by (auto simp: rest split: turn_result.splits intro!: turns_more_fuel prod_eqI)
      (metis less_imp_le prod.collapse turns_more_fuel)+
  finally show ?thesis using k resumed by auto
qed

section \<open>Pruning keeps the conversation\<close>

definition assistants :: "message list \<Rightarrow> nat" where
  "assistants ms = length (filter (\<lambda>m. ms_role m = role_assistant) ms)"

lemma nth_assistant_Some:
  "nth_assistant k ms = Some c \<Longrightarrow> k > 0 \<Longrightarrow>
   \<exists>xs m ys. ms = xs @ m # ys \<and> c = length ys \<and> assistants xs = k - 1 \<and> ms_role m = role_assistant"
proof (induction k ms rule: nth_assistant.induct)
  case (2 k m ms)
  show ?case
  proof (cases "ms_role m = role_assistant \<and> k = 1")
    case True
    then show ?thesis using 2(3) by (intro exI [of _ "[]"] exI [of _ m] exI [of _ ms]) (simp add: assistants_def)
  next
    case False
    let ?j = "if ms_role m = role_assistant then k - 1 else k"
    have "nth_assistant ?j ms = Some c" "?j > 0" using 2(3,4) False by (auto split: if_splits)
    then obtain xs m' ys where "ms = xs @ m' # ys" "c = length ys" "assistants xs = ?j - 1" "ms_role m' = role_assistant"
      using 2(1,2) False by (cases "ms_role m = role_assistant") auto
    then show ?thesis using \<open>?j > 0\<close>
      by (intro exI [of _ "m # xs"] exI [of _ m'] exI [of _ ys]) (auto simp: assistants_def)
  qed
qed simp

lemma nth_assistant_split:
  assumes "nth_assistant (Suc k) (rev h) = Some c"
  obtains xs m ys where "h = xs @ m # ys" "c = length xs" "assistants ys = k" "ms_role m = role_assistant"
proof -
  obtain xs m ys where "rev h = xs @ m # ys" "c = length ys" "assistants xs = k" "ms_role m = role_assistant"
    using nth_assistant_Some [OF assms] by auto
  then have "h = rev ys @ m # rev xs" "assistants (rev xs) = k"
    by (metis append.assoc append_Cons append_Nil rev.simps(2) rev_append rev_rev_ident,
        simp add: assistants_def rev_filter [symmetric])
  then show ?thesis using \<open>c = length ys\<close> \<open>ms_role m = role_assistant\<close> that by (metis length_rev)
qed

lemma prune_message_fields:
  "ms_role (prune_message m) = ms_role m" "ms_calls (prune_message m) = ms_calls m"
  "ms_call_id (prune_message m) = ms_call_id m" "ms_name (prune_message m) = ms_name m"
  "ms_role m \<noteq> role_tool \<Longrightarrow> prune_message m = m"
  by (simp_all add: prune_message_def)

lemma prune_message_short:
  "ms_role m = role_tool \<Longrightarrow> length (ms_content (prune_message m)) \<le> stale_tool_result_threshold"
  by (simp add: prune_message_def stale_tool_result_threshold_def stale_tool_result_keep_chars_def
      newline_def ellipsis_def)

text \<open>
  what a request leaves out is only old tool output: the pruned conversation has the same
  messages in the same roles with the same calls and answers, everything that is not a tool
  result is untouched, and so is every result after which the model spoke less than twice.
\<close>

theorem pruning_keeps_the_conversation:
  fixes h :: "message list"
  assumes "i < length h"
  shows "length (prune_history h) = length h \<and>
         (let p = prune_history h ! i; m = h ! i
          in ms_role p = ms_role m \<and> ms_calls p = ms_calls m \<and> ms_call_id p = ms_call_id m \<and>
             ms_name p = ms_name m \<and>
             (ms_role m \<noteq> role_tool \<or> assistants (drop (Suc i) h) < fresh_assistant_turns \<longrightarrow> p = m))"
proof (cases "nth_assistant fresh_assistant_turns (rev h)")
  case None
  then show ?thesis by (simp add: prune_history_def)
next
  case (Some c)
  then obtain xs m ys where h: "h = xs @ m # ys" "c = length xs" "assistants ys = 1" "ms_role m = role_assistant"
    using nth_assistant_split [of 1 h c] by (auto simp: fresh_assistant_turns_def numeral_2_eq_2)
  have p: "prune_history h = map prune_message xs @ m # ys"
    using Some h by (simp add: prune_history_def)
  show ?thesis
  proof (cases "i < length xs")
    case True
    then have "h ! i = xs ! i" "\<not> assistants (drop (Suc i) h) < fresh_assistant_turns"
      using h by (simp_all add: nth_append assistants_def fresh_assistant_turns_def)
    moreover have "prune_history h ! i = prune_message (xs ! i)"
      unfolding p using True by (simp add: nth_append)
    ultimately have "h ! i = xs ! i" "prune_history h ! i = prune_message (xs ! i)"
      "\<not> assistants (drop (Suc i) h) < fresh_assistant_turns" by blast+
    then show ?thesis using p h(1) by (auto simp: Let_def prune_message_fields)
  next
    case False
    then have "prune_history h ! i = h ! i" unfolding p using h(1) by (simp add: nth_append)
    then show ?thesis using p h(1) by (simp add: Let_def)
  qed
qed

section \<open>An example\<close>

text \<open>A model that asks for one tool and then answers; the world counts what happened.\<close>

definition asking_reply :: message where
  "asking_reply = \<lparr>ms_role = role_assistant, ms_content = [],
     ms_calls = [\<lparr>tc_id = ''c1'', tc_name = ''read'', tc_args = ''{}''\<rparr>], ms_call_id = [], ms_name = []\<rparr>"

definition no_usage :: turn_usage where
  "no_usage = \<lparr>tu_prompt = 0, tu_completion = 0, tu_cached = 0, tu_reasoning = 0\<rparr>"

definition demo_hooks_pausing :: "bool \<Rightarrow> nat hooks" where
  "demo_hooks_pausing asked =
     \<lparr>hk_complete = (\<lambda>_ _ w. (Reply (if w = 0 then asking_reply else plain_message role_assistant ''done'') no_usage, w + 1)),
      hk_tool = (\<lambda>_ _ _ _ w. (Inr ''text'', w + 1)), hk_before = (\<lambda>_ w. (Inr [], w)),
      hk_interrupt = (\<lambda>_ w. (Inr [], w)), hk_pause = (\<lambda>w. asked), hk_done = (\<lambda>_. False),
      hk_log = (\<lambda>_ w. (int w + 1, w)), hk_logger = True, hk_books = False, hk_terminal = [],
      hk_server = (\<lambda>_. None), hk_listing_cost = 0\<rparr>"

abbreviation demo_hooks :: "nat hooks" where
  "demo_hooks \<equiv> demo_hooks_pausing True"

lemma never_pausing_demo [simp]: "never_pausing demo_hooks = demo_hooks_pausing False"
  by (simp add: never_pausing_def demo_hooks_pausing_def)

definition new_agent :: "nat agent_state" where
  "new_agent = \<lparr>ag_world = 0, ag_log = [], ag_seq = 0, ag_logged = False, ag_notice = [], ag_books = []\<rparr>"

definition demo_start :: "message list" where
  "demo_start = [plain_message role_user ''go'']"

lemma demo_well_spoken: "well_spoken (demo_hooks_pausing asked)"
  by (auto simp: well_spoken_def demo_hooks_pausing_def asking_reply_def plain_message_def spoken_def)

lemma demo_paused:
  "run_message_history demo_hooks [] demo_start new_agent =
     (Run_Paused, demo_start @ [asking_reply],
      new_agent\<lparr>ag_world := 1, ag_log := [(1, hd demo_start), (2, asking_reply)], ag_seq := 2, ag_logged := True\<rparr>)"
  by code_simp

definition answered_read :: message where
  "answered_read = tool_message (hd (ms_calls asking_reply)) ''text''"

definition finished_agent :: "nat agent_state" where
  "finished_agent = new_agent\<lparr>ag_world := 3, ag_log := [(1, hd demo_start), (2, asking_reply), (3, answered_read),
     (4, plain_message role_assistant ''done'')], ag_seq := 4, ag_logged := True\<rparr>"

definition logged_agent :: "nat agent_state" where
  "logged_agent = new_agent\<lparr>ag_log := [(1, hd demo_start)], ag_seq := 1, ag_logged := True\<rparr>"

definition read_agent :: "nat agent_state" where
  "read_agent = new_agent\<lparr>ag_world := 2, ag_log := [(1, hd demo_start), (2, asking_reply), (3, answered_read)],
     ag_seq := 3, ag_logged := True\<rparr>"

lemmas demo_defs = demo_hooks_pausing_def demo_start_def new_agent_def logged_agent_def read_agent_def
  finished_agent_def answered_read_def asking_reply_def plain_message_def tool_message_def no_usage_def
  role_defs turn_step_def tool_turn_def final_reply_def after_reply_def execute_tool_calls_def run_call_def
  log_messages_def log_message_def log_start_def keep_book_def keep_turn_books_def cap_output_def
  max_tool_output_chars_def Let_def

lemma demo_steps:
  "log_start (demo_hooks_pausing b) demo_start new_agent = logged_agent"
  "mid_turn demo_start = False" "ag_notice logged_agent = []"
  "turn_step (demo_hooks_pausing False) [] demo_start logged_agent =
     Continues (demo_start @ [asking_reply, answered_read]) read_agent"
  "turn_step (demo_hooks_pausing False) [] (demo_start @ [asking_reply, answered_read]) read_agent =
     Ends (Answer ''done'') (demo_start @ [asking_reply, answered_read, plain_message role_assistant ''done''])
       finished_agent"
  by (simp_all add: demo_defs mid_turn_def mcp_dispatcher_tools_def trim_space_def trim_left_def is_space_def)

lemma demo_through:
  "run_message_history (demo_hooks_pausing False) [] demo_start new_agent =
     (Answer ''done'', demo_start @ [asking_reply, answered_read, plain_message role_assistant ''done''],
      finished_agent)"
proof -
  have m: "max_turns = Suc (Suc 298)" by (simp add: max_turns_def)
  show ?thesis
    unfolding run_message_history_def resume_turn_def give_notice_def
    by (simp only: demo_steps m turns.simps turn_result.case if_False if_True prod.case simp_thms)
qed

theorem every_tool_call_is_answered_witness:
  "mid_turn (demo_start @ [asking_reply]) \<and> paired demo_start"
proof -
  have "resumable demo_start" by (simp add: resumable_def demo_start_def plain_message_def answers_def role_defs)
  from every_tool_call_is_answered [OF demo_well_spoken this demo_paused] show ?thesis by simp
qed

definition paused_agent :: "nat agent_state" where
  "paused_agent = new_agent\<lparr>ag_world := 1, ag_log := [(1, hd demo_start), (2, asking_reply)], ag_seq := 2, ag_logged := True\<rparr>"

theorem pausing_is_invisible_witness:
  "run_message_history (never_pausing demo_hooks) [] (demo_start @ [asking_reply]) paused_agent =
     run_message_history (never_pausing demo_hooks) [] demo_start new_agent \<and>
   run_message_history (demo_hooks\<lparr>hk_pause := \<lambda>_. True\<rparr>) [] (demo_start @ [asking_reply]) (paused_agent\<lparr>ag_notice := ''resumed''\<rparr>) =
     go_on (demo_hooks\<lparr>hk_pause := \<lambda>_. True\<rparr>) [] max_turns ''resumed'' (demo_start @ [asking_reply]) paused_agent"
  using pausing_is_invisible [OF demo_well_spoken demo_paused] demo_through by (simp add: paused_agent_def)

theorem pruning_keeps_the_conversation_witness:
  "length (prune_history [plain_message role_user ''go'', asking_reply]) = 2"
  using pruning_keeps_the_conversation [of 0 "[plain_message role_user ''go'', asking_reply]"] by simp

text \<open>
  A further run of the same agent does not log what it starts from: when a session that did not
  finish is asked once more to, the question is in no log, only the reply is.
\<close>

lemma follow_up_question_is_not_logged:
  "run_once (demo_hooks_pausing False) [] [] ''be helpful'' ''finish now'' finished_agent =
     (Answer ''done'', [plain_message role_system ''be helpful'', plain_message role_user ''finish now'',
        plain_message role_assistant ''done''],
      finished_agent\<lparr>ag_world := 4, ag_seq := 5,
        ag_log := ag_log finished_agent @ [(5, plain_message role_assistant ''done'')]\<rparr>)"
  by code_simp

end
