(* ===== verification/Message_History.thy ===== *)
theory Message_History
  imports Agent_Loop
begin

text \<open>
  Reading a conversation back from the log of a run (\<open>engine/aicli/history_log.go\<close>): the whole
  conversation up to a checkpoint for a resumed session, the longest part that ends between
  two turns for a fork.  The log is a list of lines and whether its reading failed;
  \<open>encoding/json\<close> is an argument (\<open>log_decoder\<close>).
\<close>

section \<open>Lines\<close>

record log_decoder =
  ld_entry :: "string \<Rightarrow> (string \<times> string \<times> string) option"
  ld_text :: "string \<Rightarrow> string option"
  ld_message :: "string \<Rightarrow> message option"

datatype history_error =
    Bad_Request
  | No_Log
  | Bad_Line nat
  | Bad_Sequence nat
  | Call_Without_Id nat
  | Call_Repeated nat
  | Result_Without_Id nat
  | Result_Unmatched nat
  | Read_Failed
  | Nothing_Found

text \<open>What the log file holds: None when it cannot be opened; whether reading it fails at the end.\<close>

type_synonym log_file = "(string list \<times> bool) option"

definition decode_message :: "log_decoder \<Rightarrow> nat \<Rightarrow> string \<Rightarrow> history_error + message" where
  "decode_message ld line content =
     (case ld_text ld content of
        None \<Rightarrow> Inl (Bad_Line line)
      | Some text \<Rightarrow> (case ld_message ld text of None \<Rightarrow> Inl (Bad_Line line) | Some m \<Rightarrow> Inr m))"

section \<open>The whole conversation\<close>

fun load_lines ::
  "log_decoder \<Rightarrow> int \<Rightarrow> nat \<Rightarrow> string list \<Rightarrow> message list \<Rightarrow> int \<Rightarrow> history_error + (message list \<times> int)"
where
  "load_lines ld limit line [] history highest = Inr (history, highest)"
| "load_lines ld limit line (text # rest) history highest =
     (case ld_entry ld text of
        None \<Rightarrow> Inl (Bad_Line line)
      | Some (ty, sq, content) \<Rightarrow>
          if ty \<noteq> ''message'' then load_lines ld limit (line + 1) rest history highest
          else (case parse_int 64 sq of
                  None \<Rightarrow> Inl (Bad_Sequence line)
                | Some sequence \<Rightarrow>
                    if limit > 0 \<and> sequence > limit then load_lines ld limit (line + 1) rest history highest
                    else (case decode_message ld line content of
                            Inl e \<Rightarrow> Inl e
                          | Inr m \<Rightarrow> load_lines ld limit (line + 1) rest (history @ [m])
                                       (if sequence > highest then sequence else highest))))"

definition load_message_history_with_cursor ::
  "log_decoder \<Rightarrow> string \<Rightarrow> log_file \<Rightarrow> int \<Rightarrow> history_error + (message list \<times> int)" where
  "load_message_history_with_cursor ld path file limit =
     (if path = [] then Inl Bad_Request
      else case file of
        None \<Rightarrow> Inl No_Log
      | Some (texts, fails) \<Rightarrow>
          (case load_lines ld limit 1 texts [] 0 of
             Inl e \<Rightarrow> Inl e
           | Inr (history, highest) \<Rightarrow>
               if fails then Inl Read_Failed
               else if history = [] then Inl Nothing_Found else Inr (history, highest)))"

definition load_message_history ::
  "log_decoder \<Rightarrow> string \<Rightarrow> log_file \<Rightarrow> int \<Rightarrow> history_error + message list" where
  "load_message_history ld path file limit =
     map_sum id fst (load_message_history_with_cursor ld path file limit)"

section \<open>The part that ends between turns\<close>

fun open_calls :: "nat \<Rightarrow> tool_call list \<Rightarrow> string list \<Rightarrow> history_error + string list" where
  "open_calls line [] pending = Inr pending"
| "open_calls line (c # cs) pending =
     (if tc_id c = [] then Inl (Call_Without_Id line)
      else if tc_id c \<in> set pending then Inl (Call_Repeated line)
      else open_calls line cs (pending @ [tc_id c]))"

text \<open>The calls that wait for a result after one more message.\<close>

definition track :: "nat \<Rightarrow> message \<Rightarrow> string list \<Rightarrow> history_error + string list" where
  "track line m pending =
     (if ms_role m = role_assistant \<and> ms_calls m \<noteq> [] then open_calls line (ms_calls m) pending
      else if ms_role m = role_tool
      then (if ms_call_id m = [] then Inl (Result_Without_Id line)
            else if ms_call_id m \<notin> set pending then Inl (Result_Unmatched line)
            else Inr (remove1 (ms_call_id m) pending))
      else Inr pending)"

record fork_state =
  fs_history :: "message list"
  fs_safe :: "message list"
  fs_sequence :: int
  fs_pending :: "string list"

fun load_safe_lines ::
  "log_decoder \<Rightarrow> int \<Rightarrow> nat \<Rightarrow> string list \<Rightarrow> fork_state \<Rightarrow> history_error + fork_state" where
  "load_safe_lines ld limit line [] st = Inr st"
| "load_safe_lines ld limit line (text # rest) st =
     (case ld_entry ld text of
        None \<Rightarrow> Inl (Bad_Line line)
      | Some (ty, sq, content) \<Rightarrow>
          if ty \<noteq> ''message'' then load_safe_lines ld limit (line + 1) rest st
          else (case parse_int 64 sq of
                  None \<Rightarrow> Inl (Bad_Sequence line)
                | Some sequence \<Rightarrow>
                    if sequence \<le> 0 then Inl (Bad_Sequence line)
                    else if sequence > limit then load_safe_lines ld limit (line + 1) rest st
                    else (case decode_message ld line content of
                            Inl e \<Rightarrow> Inl e
                          | Inr m \<Rightarrow>
                              (case track line m (fs_pending st) of
                                 Inl e \<Rightarrow> Inl e
                               | Inr pending \<Rightarrow>
                                   (let history = fs_history st @ [m]
                                    in load_safe_lines ld limit (line + 1) rest
                                         (if pending = []
                                          then \<lparr>fs_history = history, fs_safe = history,
                                                fs_sequence = sequence, fs_pending = pending\<rparr>
                                          else st\<lparr>fs_history := history, fs_pending := pending\<rparr>))))))"

definition load_safe_message_history ::
  "log_decoder \<Rightarrow> log_file \<Rightarrow> int \<Rightarrow> history_error + (message list \<times> int)" where
  "load_safe_message_history ld file requested =
     (if requested \<le> 0 then Inl Bad_Request
      else case file of
        None \<Rightarrow> Inl No_Log
      | Some (texts, fails) \<Rightarrow>
          (case load_safe_lines ld requested 1 texts
                  \<lparr>fs_history = [], fs_safe = [], fs_sequence = 0, fs_pending = []\<rparr> of
             Inl e \<Rightarrow> Inl e
           | Inr st \<Rightarrow>
               if fails then Inl Read_Failed
               else if fs_safe st = [] then Inl Nothing_Found else Inr (fs_safe st, fs_sequence st)))"

section \<open>What a log says\<close>

text \<open>The messages of a log with their sequence numbers; None when a line cannot be read.\<close>

fun message_lines :: "log_decoder \<Rightarrow> string list \<Rightarrow> (int \<times> message) list option" where
  "message_lines ld [] = Some []"
| "message_lines ld (text # rest) =
     (case ld_entry ld text of
        None \<Rightarrow> None
      | Some (ty, sq, content) \<Rightarrow>
          if ty \<noteq> ''message'' then message_lines ld rest
          else (case (parse_int 64 sq, decode_message ld 0 content, message_lines ld rest) of
                  (Some n, Inr m, Some ms) \<Rightarrow> Some ((n, m) # ms)
                | _ \<Rightarrow> None))"

lemma decode_message_line:
  "decode_message ld 0 content = Inr m \<Longrightarrow> decode_message ld line content = Inr m"
  by (auto simp: decode_message_def split: option.splits)

lemma message_lines_Cons:
  assumes "message_lines ld (text # rest) = Some ms"
  obtains (skipped) ty sq content where "ld_entry ld text = Some (ty, sq, content)" "ty \<noteq> ''message''"
      "message_lines ld rest = Some ms"
    | (said) sq content n m ms' where "ld_entry ld text = Some (''message'', sq, content)"
      "parse_int 64 sq = Some n" "\<And>line. decode_message ld line content = Inr m"
      "message_lines ld rest = Some ms'" "ms = (n, m) # ms'"
proof -
  obtain ty sq content where e: "ld_entry ld text = Some (ty, sq, content)"
    using assms by (cases "ld_entry ld text") auto
  show ?thesis
  proof (cases "ty = ''message''")
    case False
    then show ?thesis using assms e skipped by simp
  next
    case True
    obtain n where n: "parse_int 64 sq = Some n" using assms e True by (cases "parse_int 64 sq") auto
    obtain m where m: "decode_message ld 0 content = Inr m"
      using assms e True n by (cases "decode_message ld 0 content") auto
    obtain ms' where "message_lines ld rest = Some ms'" "ms = (n, m) # ms'"
      using assms e True n m by (cases "message_lines ld rest") auto
    then show ?thesis using said [OF _ n decode_message_line [OF m]] e True by simp
  qed
qed

lemma load_lines_reads:
  assumes "message_lines ld texts = Some ms" and "limit \<le> 0 \<or> (\<forall>x \<in> set ms. fst x \<le> limit)"
  shows "\<exists>highest'. load_lines ld limit line texts history highest = Inr (history @ map snd ms, highest')"
  using assms
proof (induction texts arbitrary: ms line history highest)
  case (Cons l rest)
  from Cons.prems(1) show ?case
  proof (cases rule: message_lines_Cons)
    case (skipped ty sq content)
    then show ?thesis using Cons.IH [OF skipped(3) Cons.prems(2)] by simp
  next
    case (said sq content n m ms')
    then show ?thesis
      using Cons.IH [OF said(4), of "line + 1" "history @ [m]"] Cons.prems(2) by auto
  qed
qed simp

text \<open>
  C26: a resumed session reads back its conversation: when the lines of a log carry the messages
  a run of the agent logged, among whatever other entries, then reading it up to a checkpoint
  at or after the last of them gives the whole history of that run, in order, however the run
  ended.
\<close>

theorem resumed_session_reads_its_conversation:
  assumes "hk_logger hk" and run: "run_message_history hk effort h a = (oc, h', a')"
    and fresh: "\<not> ag_logged a" "ag_log a = []"
    and written: "message_lines ld texts = Some (ag_log a')"
    and checkpoint: "\<forall>x \<in> set (ag_log a'). fst x \<le> limit"
    and "h' \<noteq> []" and "path \<noteq> []"
  shows "load_message_history ld path (Some (texts, False)) limit = Inr h'"
proof -
  have "map snd (ag_log a') = h'"
    using log_is_the_conversation [OF assms(1) run] fresh by auto
  moreover obtain highest where "load_lines ld limit 1 texts [] 0 = Inr ([] @ map snd (ag_log a'), highest)"
    using load_lines_reads [OF written] checkpoint by blast
  ultimately show ?thesis
    using assms(7,8) by (simp add: load_message_history_def load_message_history_with_cursor_def)
qed

section \<open>Forks start between turns\<close>

fun track_all :: "message list \<Rightarrow> string list \<Rightarrow> string list option" where
  "track_all [] pending = Some pending"
| "track_all (m # ms) pending =
     (case track 0 m pending of Inl _ \<Rightarrow> None | Inr p \<Rightarrow> track_all ms p)"

lemma track_all_append:
  "track_all (xs @ ys) p = (case track_all xs p of None \<Rightarrow> None | Some q \<Rightarrow> track_all ys q)"
  by (induction xs arbitrary: p) (auto split: sum.splits)

lemma open_calls_Inr: "open_calls line cs pending = Inr q \<Longrightarrow> q = pending @ map tc_id cs \<and> open_calls k cs pending = Inr q"
proof (induction cs arbitrary: pending)
  case (Cons c cs)
  then have c: "tc_id c \<noteq> []" "tc_id c \<notin> set pending" "open_calls line cs (pending @ [tc_id c]) = Inr q"
    by (simp_all split: if_splits)
  from Cons.IH [OF c(3)] show ?case using c(1,2) by simp
qed simp

lemma track_line: "track line m p = Inr q \<Longrightarrow> track 0 m p = Inr q"
  by (auto simp: track_def dest: open_calls_Inr split: if_splits)

lemma track_results:
  "answers cs rs \<Longrightarrow> track_all (take j rs) (map tc_id cs) = Some q \<Longrightarrow> q = map tc_id (drop j cs)"
proof (induction cs arbitrary: rs j)
  case (Cons c cs)
  then obtain r rs' where rs: "rs = r # rs'" "ms_role r = role_tool" "ms_call_id r = tc_id c" "ms_calls r = []"
      "answers cs rs'"
    by (auto simp: answers_def list_all2_Cons1)
  show ?case
  proof (cases j)
    case (Suc i)
    then show ?thesis using Cons.IH [OF rs(5), of i] Cons.prems(2) rs
      by (auto simp: track_def split: if_splits)
  qed (use Cons.prems(2) in simp)
qed (simp add: answers_def)

text \<open>Tool calls are the assistant's.\<close>

definition assistant_calls :: "message list \<Rightarrow> bool" where
  "assistant_calls ms \<longleftrightarrow> (\<forall>m \<in> set ms. ms_calls m \<noteq> [] \<longrightarrow> ms_role m = role_assistant)"

lemma track_turn:
  assumes "ms_role m \<noteq> role_tool" and "ms_calls m \<noteq> [] \<longrightarrow> ms_role m = role_assistant"
    and "answers (ms_calls m) rs" and "track_all (m # take j rs) [] = Some q"
  shows "q = map tc_id (drop j (ms_calls m))"
proof (cases "ms_calls m = []")
  case True
  then have "rs = []" using assms(3) answers_length by fastforce
  then show ?thesis using True assms by (simp add: track_def)
next
  case False
  then have "track 0 m [] = open_calls 0 (ms_calls m) []" using assms(2) by (simp add: track_def)
  then obtain p where p: "open_calls 0 (ms_calls m) [] = Inr p" "track_all (take j rs) p = Some q"
    using assms(4) by (auto split: sum.splits)
  from open_calls_Inr [OF p(1)] have "p = map tc_id (ms_calls m)" by simp
  then show ?thesis using track_results [OF assms(3), of j q] p(2) by simp
qed

lemma paired_head:
  assumes "paired (m # ms)"
  obtains rs rest where "ms = rs @ rest" "answers (ms_calls m) rs" "paired rest" "ms_role m \<noteq> role_tool"
  using that [of "take (length (ms_calls m)) ms" "drop (length (ms_calls m)) ms"] assms by simp

lemma paired_tracked:
  "paired ms \<Longrightarrow> assistant_calls ms \<Longrightarrow> track_all ms [] = Some q \<Longrightarrow> q = []"
proof (induction ms rule: paired.induct)
  case (2 m ms)
  from 2(2) obtain rs rest where ms: "ms = rs @ rest" "answers (ms_calls m) rs" "paired rest"
      "ms_role m \<noteq> role_tool" by (rule paired_head)
  then have rest: "drop (length (ms_calls m)) ms = rest" using answers_length by fastforce
  obtain p where p: "track_all (m # rs) [] = Some p" "track_all rest p = Some q"
    using 2(4) ms(1) track_all_append [of "m # rs" rest] by (auto split: option.splits)
  have "p = []" using track_turn [of m rs "length rs" p] ms p(1) 2(3) answers_length [OF ms(2)]
    by (simp add: assistant_calls_def)
  moreover have "paired rest \<Longrightarrow> assistant_calls rest \<Longrightarrow> track_all rest [] = Some q \<Longrightarrow> q = []"
    using 2(1) unfolding rest .
  ultimately show ?case using ms 2(3) p(2) by (simp add: assistant_calls_def)
qed simp

lemma tracked_prefix_paired:
  "paired (ms @ later) \<Longrightarrow> assistant_calls ms \<Longrightarrow> track_all ms [] = Some [] \<Longrightarrow> paired ms"
proof (induction "ms @ later" arbitrary: ms rule: paired.induct)
  case (2 m xs)
  show ?case
  proof (cases ms)
    case (Cons m' ms')
    then have c: "m' = m" "xs = ms' @ later" using 2(2) by auto
    from 2(3) [folded 2(2)] obtain rs rest where xs: "xs = rs @ rest" "answers (ms_calls m) rs" "paired rest"
        "ms_role m \<noteq> role_tool" by (rule paired_head)
    have call: "ms_calls m \<noteq> [] \<longrightarrow> ms_role m = role_assistant" using 2(4) Cons c by (auto simp: assistant_calls_def)
    show ?thesis
    proof (cases "length ms' < length rs")
      case True
      then have "ms' = take (length ms') rs" using c xs(1) by (metis append_eq_append_conv_if nat_less_le)
      then have "[] = map tc_id (drop (length ms') (ms_calls m))"
        using track_turn [OF xs(4) call xs(2), of "length ms'" "[]"] 2(5) Cons c by simp
      then show ?thesis using True answers_length [OF xs(2)] by simp
    next
      case False
      then obtain tail where t: "ms' = rs @ tail" "rest = tail @ later"
        using c xs(1) by (auto simp: append_eq_append_conv2)
      obtain p where p: "track_all (m # rs) [] = Some p" "track_all tail p = Some []"
        using 2(5) Cons c t track_all_append [of "m # rs" tail] by (auto split: option.splits)
      have "p = []" using track_turn [OF xs(4) call xs(2), of "length rs" p] p(1) answers_length [OF xs(2)] by simp
      then have "paired tail"
        using 2(1) [of tail] xs t p(2) 2(4) Cons answers_length [OF xs(2)] by (simp add: assistant_calls_def)
      then show ?thesis using Cons c t xs answers_length [OF xs(2)] by simp
    qed
  qed simp
qed simp

text \<open>
  \<open>last_quiet h p q\<close>: in what was read, \<open>h\<close> and then \<open>p\<close> up to \<open>q\<close>, the end of \<open>p\<close> is the
  last place where no call waits.
\<close>

definition quiet_at :: "string list \<Rightarrow> message list \<Rightarrow> bool" where
  "quiet_at pending ms \<longleftrightarrow> track_all ms pending = Some []"

definition safe_after :: "fork_state \<Rightarrow> (int \<times> message) list \<Rightarrow> fork_state \<Rightarrow> bool" where
  "safe_after st kept st' \<longleftrightarrow>
     fs_history st' = fs_history st @ map snd kept \<and>
     track_all (map snd kept) (fs_pending st) = Some (fs_pending st') \<and>
     (\<exists>p q. kept = p @ q \<and>
        (if p = [] then fs_safe st' = fs_safe st \<and> fs_sequence st' = fs_sequence st
         else fs_safe st' = fs_history st @ map snd p \<and> fs_sequence st' = fst (last p) \<and>
              quiet_at (fs_pending st) (map snd p)) \<and>
        (\<forall>r s. q = r @ s \<and> r \<noteq> [] \<longrightarrow> \<not> quiet_at (fs_pending st) (map snd (p @ r))))"

lemma safe_after_refl: "safe_after st [] st"
  by (simp add: safe_after_def)

lemma safe_after_step:
  assumes t: "track 0 m (fs_pending st) = Inr pending"
    and rest: "safe_after (if pending = []
        then \<lparr>fs_history = fs_history st @ [m], fs_safe = fs_history st @ [m], fs_sequence = n, fs_pending = pending\<rparr>
        else st\<lparr>fs_history := fs_history st @ [m], fs_pending := pending\<rparr>) kept st'"
      (is "safe_after ?st kept st'")
  shows "safe_after st ((n, m) # kept) st'"
proof -
  have q: "quiet_at (fs_pending st) (m # ms) \<longleftrightarrow> quiet_at pending ms" for ms
    using t by (simp add: quiet_at_def)
  have st: "fs_history ?st = fs_history st @ [m]" "fs_pending ?st = pending" by simp_all
  from rest obtain p r where p: "kept = p @ r"
      "if p = [] then fs_safe st' = fs_safe ?st \<and> fs_sequence st' = fs_sequence ?st
       else fs_safe st' = (fs_history st @ [m]) @ map snd p \<and> fs_sequence st' = fst (last p) \<and>
            quiet_at pending (map snd p)"
      "\<forall>x y. r = x @ y \<and> x \<noteq> [] \<longrightarrow> \<not> quiet_at pending (map snd (p @ x))"
    unfolding safe_after_def st by blast
  have 1: "fs_history st' = fs_history st @ map snd ((n, m) # kept)"
    "track_all (map snd ((n, m) # kept)) (fs_pending st) = Some (fs_pending st')"
    using rest t unfolding safe_after_def st by simp_all
  show ?thesis
  proof (cases "p = [] \<and> pending \<noteq> []")
    case True
    have "\<not> quiet_at (fs_pending st) (map snd ([] @ x))" if "(n, m) # kept = x @ y" "x \<noteq> []" for x y
    proof -
      obtain x' where x: "x = (n, m) # x'" "kept = x' @ y" using \<open>(n, m) # kept = x @ y\<close> \<open>x \<noteq> []\<close> by (cases x) auto
      then show ?thesis using p(1,3) True q by (cases "x' = []") (auto simp: quiet_at_def)
    qed
    then show ?thesis
      unfolding safe_after_def using 1 p(2) True by (intro conjI exI [of _ "[]"] exI [of _ "(n, m) # kept"]) simp_all
  next
    case False
    have "fs_safe st' = fs_history st @ map snd ((n, m) # p)" "fs_sequence st' = fst (last ((n, m) # p))"
      "quiet_at (fs_pending st) (map snd ((n, m) # p))"
      using p(2) False q by (auto simp: quiet_at_def split: if_splits)
    then show ?thesis
      unfolding safe_after_def using 1 p(1,3) q
      by (intro conjI exI [of _ "(n, m) # p"] exI [of _ r]) simp_all
  qed
qed

lemma load_safe_lines_reads:
  assumes "message_lines ld texts = Some ms" and "load_safe_lines ld limit line texts st = Inr st'"
  shows "safe_after st (filter (\<lambda>x. fst x \<le> limit) ms) st'"
  using assms
proof (induction texts arbitrary: ms line st)
  case Nil
  then show ?case by (simp add: safe_after_refl)
next
  case (Cons l rest)
  from Cons.prems(1) show ?case
  proof (cases rule: message_lines_Cons)
    case (skipped ty sq content)
    then show ?thesis using Cons.IH [OF skipped(3)] Cons.prems(2) by simp
  next
    case (said sq content n m ms')
    show ?thesis
    proof (cases "n > limit")
      case True
      then show ?thesis using Cons.IH [OF said(4)] Cons.prems(2) said by (simp split: if_splits)
    next
      case False
      with Cons.prems(2) said obtain pending where t: "track line m (fs_pending st) = Inr pending"
        and l: "load_safe_lines ld limit (line + 1) rest (if pending = []
            then \<lparr>fs_history = fs_history st @ [m], fs_safe = fs_history st @ [m], fs_sequence = n, fs_pending = pending\<rparr>
            else st\<lparr>fs_history := fs_history st @ [m], fs_pending := pending\<rparr>) = Inr st'"
        by (cases "track line m (fs_pending st)") (auto simp: Let_def split: if_splits)
      from safe_after_step [OF track_line [OF t] Cons.IH [OF said(4) l]] show ?thesis using False said(5) by simp
    qed
  qed
qed

text \<open>
  C4: a fork starts between two turns: from the log of a conversation in which every tool call
  is answered, up to any message, even in the middle of a turn, what is read for a fork is the
  longest beginning in which every call is answered, and the number returned is that of its
  last message.
\<close>

theorem fork_starts_between_turns:
  assumes read: "load_safe_message_history ld (Some (texts, False)) requested = Inr (ms, sequence)"
    and logged: "message_lines ld texts = Some logged"
    and whole: "map snd (filter (\<lambda>x. fst x \<le> requested) logged) @ unread = conversation"
    and "paired conversation" and "assistant_calls conversation"
  shows "\<exists>p q. filter (\<lambda>x. fst x \<le> requested) logged = p @ q \<and> p \<noteq> [] \<and> ms = map snd p \<and>
           sequence = fst (last p) \<and> paired ms \<and>
           (\<forall>r s. q = r @ s \<and> r \<noteq> [] \<longrightarrow> \<not> paired (map snd (p @ r)))"
proof -
  let ?start = "\<lparr>fs_history = [], fs_safe = [], fs_sequence = 0, fs_pending = []\<rparr>"
  let ?kept = "filter (\<lambda>x. fst x \<le> requested) logged"
  obtain st where st: "load_safe_lines ld requested 1 texts ?start = Inr st" "ms = fs_safe st" "ms \<noteq> []"
      "sequence = fs_sequence st"
    using read by (auto simp: load_safe_message_history_def split: if_splits sum.splits)
  have s: "safe_after ?start ?kept st" by (rule load_safe_lines_reads [OF logged st(1)])
  then obtain p q where p: "?kept = p @ q"
      "if p = [] then fs_safe st = [] \<and> fs_sequence st = 0
       else fs_safe st = map snd p \<and> fs_sequence st = fst (last p) \<and> quiet_at [] (map snd p)"
      "\<forall>r s. q = r @ s \<and> r \<noteq> [] \<longrightarrow> \<not> quiet_at [] (map snd (p @ r))"
    unfolding safe_after_def fork_state.simps append_Nil by blast
  have ne: "p \<noteq> []" using p(2) st(2,3) by auto
  have conv: "conversation = map snd p @ map snd q @ unread" using whole unfolding p(1) by simp
  have calls: "assistant_calls (map snd (p @ r))" if "q = r @ s" for r s
    using assms(5) unfolding conv that assistant_calls_def by (simp add: ball_Un)
  have "paired ms"
    using tracked_prefix_paired [of "map snd p" "map snd q @ unread"] p(2) ne st(2) assms(4)
      calls [of "[]" q] unfolding conv by (simp add: quiet_at_def)
  moreover have "\<not> paired (map snd (p @ r))" if "q = r @ s" "r \<noteq> []" for r s
  proof
    assume pr: "paired (map snd (p @ r))"
    have "track_all (map snd ?kept) [] = Some (fs_pending st)" using \<open>safe_after ?start ?kept st\<close> by (simp add: safe_after_def)
    then have "track_all (map snd (p @ r) @ map snd s) [] = Some (fs_pending st)" unfolding p(1) that(1) by simp
    then obtain w where "track_all (map snd (p @ r)) [] = Some w"
      unfolding track_all_append [of "map snd (p @ r)"] by (cases "track_all (map snd (p @ r)) []") auto
    with paired_tracked [OF pr calls [OF that(1)]] have "quiet_at [] (map snd (p @ r))"
      by (simp add: quiet_at_def)
    with p(3) that show False by blast
  qed
  ultimately show ?thesis using p ne st(2,4) by (intro exI [of _ p] exI [of _ q]) auto
qed

section \<open>An example\<close>

text \<open>A log whose lines are three fields between bars; a message is a role, a call and an answer.\<close>

definition demo_log_decoder :: log_decoder where
  "demo_log_decoder =
     \<lparr>ld_entry = (\<lambda>l. case split_on CHR ''|'' l of [a, b, c] \<Rightarrow> Some (a, b, c) | _ \<Rightarrow> None),
      ld_text = Some,
      ld_message = (\<lambda>t. if t = ''ask'' then Some asking_reply else if t = ''result'' then Some answered_read
                        else Some (plain_message role_user t))\<rparr>"

definition demo_log_lines :: "string list" where
  "demo_log_lines = [''info||'', ''message|1|go'', ''message|2|ask'', ''message|3|result'', ''message|4|more'']"

lemma demo_log: "message_lines demo_log_decoder demo_log_lines =
    Some [(1, hd demo_start), (2, asking_reply), (3, answered_read), (4, plain_message role_user ''more'')]"
  by code_simp

theorem fork_starts_between_turns_witness:
  "paired demo_start \<and>
   load_safe_message_history demo_log_decoder (Some (demo_log_lines, False)) 2 = Inr (demo_start, 1)"
proof
  show l: "load_safe_message_history demo_log_decoder (Some (demo_log_lines, False)) 2 = Inr (demo_start, 1)"
    by code_simp
  let ?conv = "demo_start @ [asking_reply, answered_read]"
  have "paired ?conv" "assistant_calls ?conv"
    by (simp_all add: assistant_calls_def answers_def demo_start_def asking_reply_def answered_read_def
        plain_message_def tool_message_def role_defs)
  moreover have "map snd (filter (\<lambda>x. fst x \<le> 2) [(1::int, hd demo_start), (2, asking_reply), (3, answered_read),
      (4, plain_message role_user ''more'')]) @ [answered_read] = ?conv"
    by (simp add: demo_start_def)
  ultimately show "paired demo_start" using fork_starts_between_turns [OF l demo_log, of "[answered_read]" ?conv] by auto
qed

theorem resumed_session_reads_its_conversation_witness:
  "load_message_history demo_log_decoder ''run.jsonl'' (Some ([''message|1|go'', ''message|2|ask''], False)) 2 =
     Inr (demo_start @ [asking_reply])"
  by (rule resumed_session_reads_its_conversation [OF _ demo_paused])
    (code_simp | simp add: demo_hooks_pausing_def new_agent_def)+

end
