(* ===== verification/Paths.thy ===== *)
theory Paths
  imports Prelude
begin

text \<open>
  Slash-separated paths as \<open>path/filepath\<close> treats them (\<open>Clean\<close>, \<open>Join\<close>, \<open>IsAbs\<close>, \<open>Rel\<close>,
  \<open>Dir\<close>, \<open>Ext\<close>), and the layout of the data directory (\<open>pkg/filesystem/paths.go\<close>).
\<close>

section \<open>The path/filepath package\<close>

fun slash_join :: "string list \<Rightarrow> string" where
  "slash_join [] = []"
| "slash_join [w] = w"
| "slash_join (v # w # ws) = v @ ''/'' @ slash_join (w # ws)"

definition is_abs :: "string \<Rightarrow> bool" where
  "is_abs p \<longleftrightarrow> has_prefix p ''/''"

text \<open>The elements kept so far, the last one first; those to come.\<close>

fun clean_segs :: "bool \<Rightarrow> string list \<Rightarrow> string list \<Rightarrow> string list" where
  "clean_segs rooted acc [] = rev acc"
| "clean_segs rooted acc (x # xs) =
     (if x = [] \<or> x = ''.'' then clean_segs rooted acc xs
      else if x = ''..''
      then (case acc of
              [] \<Rightarrow> if rooted then clean_segs rooted [] xs else clean_segs rooted [''..''] xs
            | a # as \<Rightarrow> if a = ''..'' then clean_segs rooted (''..'' # acc) xs
                       else clean_segs rooted as xs)
      else clean_segs rooted (x # acc) xs)"

definition segs :: "string \<Rightarrow> string list" where
  "segs p = clean_segs (is_abs p) [] (split_on CHR ''/'' p)"

definition path_clean :: "string \<Rightarrow> string" where
  "path_clean p =
     (if is_abs p then ''/'' @ slash_join (segs p)
      else if segs p = [] then ''.'' else slash_join (segs p))"

definition path_join :: "string list \<Rightarrow> string" where
  "path_join ps =
     (case dropWhile (\<lambda>p. p = []) ps of [] \<Rightarrow> [] | qs \<Rightarrow> path_clean (slash_join qs))"

fun strip_common :: "string list \<Rightarrow> string list \<Rightarrow> string list \<times> string list" where
  "strip_common (x # xs) (y # ys) = (if x = y then strip_common xs ys else (x # xs, y # ys))"
| "strip_common xs ys = (xs, ys)"

text \<open>\<open>Rel\<close> of two absolute paths.\<close>

definition path_rel :: "string \<Rightarrow> string \<Rightarrow> string" where
  "path_rel base target =
     (case strip_common (segs base) (segs target) of
        (ups, downs) \<Rightarrow>
          (let ws = map (\<lambda>_. ''..'') ups @ downs in if ws = [] then ''.'' else slash_join ws))"

text \<open>The suffix from the last dot of the last element.\<close>

definition path_ext :: "string \<Rightarrow> string" where
  "path_ext p =
     (let name = last (split_on CHR ''/'' p);
          tail = takeWhile (\<lambda>c. c \<noteq> CHR ''.'') (rev name)
      in if length tail = length name then [] else ''.'' @ rev tail)"

section \<open>The data directory\<close>

definition repos_dir :: "string \<Rightarrow> string" where "repos_dir base = path_join [base, ''repos'']"
definition workspace_dir :: "string \<Rightarrow> string" where "workspace_dir base = path_join [base, ''workspace'']"
definition artifacts_dir :: "string \<Rightarrow> string" where "artifacts_dir base = path_join [base, ''artifacts'']"
definition logs_dir :: "string \<Rightarrow> string" where "logs_dir base = path_join [base, ''logs'']"
definition skills_dir :: "string \<Rightarrow> string" where "skills_dir base = path_join [base, ''skills'']"
definition archive_dir :: "string \<Rightarrow> string" where "archive_dir base = path_join [base, ''archive'']"

definition company_repos_dir :: "string \<Rightarrow> string \<Rightarrow> string" where
  "company_repos_dir base company = path_join [repos_dir base, company]"

definition repo_dir :: "string \<Rightarrow> string \<Rightarrow> string \<Rightarrow> string" where
  "repo_dir base company project = path_join [company_repos_dir base company, project]"

definition company_workspace_dir :: "string \<Rightarrow> string \<Rightarrow> string" where
  "company_workspace_dir base company = path_join [workspace_dir base, company]"

definition worktree_dir :: "string \<Rightarrow> string \<Rightarrow> id \<Rightarrow> string" where
  "worktree_dir base company task_id =
     path_join [company_workspace_dir base company, ''task-'' @ dec_int task_id]"

definition run_workspace_dir :: "string \<Rightarrow> string \<Rightarrow> id \<Rightarrow> id \<Rightarrow> string" where
  "run_workspace_dir base company task_id run =
     path_join [company_workspace_dir base company,
       ''session-task-'' @ dec_int task_id @ ''-run-'' @ dec_int run]"

definition company_artifacts_dir :: "string \<Rightarrow> string \<Rightarrow> string" where
  "company_artifacts_dir base company = path_join [artifacts_dir base, company]"

definition task_artifacts_dir :: "string \<Rightarrow> string \<Rightarrow> id \<Rightarrow> string" where
  "task_artifacts_dir base company task_id = path_join [company_artifacts_dir base company, dec_int task_id]"

definition company_logs_dir :: "string \<Rightarrow> string \<Rightarrow> string" where
  "company_logs_dir base company = path_join [logs_dir base, company]"

definition task_logs_dir :: "string \<Rightarrow> string \<Rightarrow> id \<Rightarrow> string" where
  "task_logs_dir base company task_id = path_join [company_logs_dir base company, dec_int task_id]"

definition run_logs_dir :: "string \<Rightarrow> string \<Rightarrow> id \<Rightarrow> id \<Rightarrow> string" where
  "run_logs_dir base company task_id run =
     path_join [task_logs_dir base company task_id, ''run-'' @ dec_int run]"

definition company_skills_dir :: "string \<Rightarrow> string \<Rightarrow> string" where
  "company_skills_dir base company = path_join [skills_dir base, company]"

definition skill_dir :: "string \<Rightarrow> string \<Rightarrow> string \<Rightarrow> string" where
  "skill_dir base company skill = path_join [company_skills_dir base company, skill]"

definition company_dirs :: "string \<Rightarrow> string \<Rightarrow> string list" where
  "company_dirs base company =
     [company_repos_dir base company, company_workspace_dir base company,
      company_artifacts_dir base company, company_logs_dir base company,
      company_skills_dir base company]"

section \<open>Splitting and joining\<close>

text \<open>An element of a path in normal form.\<close>

definition plain :: "string \<Rightarrow> bool" where
  "plain x \<longleftrightarrow> x \<noteq> [] \<and> x \<noteq> ''.'' \<and> x \<noteq> ''..'' \<and> CHR ''/'' \<notin> set x"

lemma slash_join_Cons: "ws \<noteq> [] \<Longrightarrow> slash_join (w # ws) = w @ CHR ''/'' # slash_join ws"
  by (cases ws) auto

lemma split_slash_join: "ws \<noteq> [] \<Longrightarrow> split_on CHR ''/'' (slash_join ws) = concat (map (split_on CHR ''/'') ws)"
  by (induction ws rule: slash_join.induct) (auto simp: split_on_append)

lemma split_slash_join_id:
  assumes "ws \<noteq> []" and "\<forall>x \<in> set ws. CHR ''/'' \<notin> set x"
  shows "split_on CHR ''/'' (slash_join ws) = ws"
proof -
  have "concat (map (split_on CHR ''/'') ws) = concat (map (\<lambda>x. [x]) ws)"
    using assms(2) by (intro arg_cong [of _ _ concat] map_cong) auto
  then show ?thesis using assms(1) by (simp add: split_slash_join)
qed

lemma slash_join_append:
  "xs \<noteq> [] \<Longrightarrow> ys \<noteq> [] \<Longrightarrow> slash_join (xs @ ys) = slash_join xs @ CHR ''/'' # slash_join ys"
proof (induction xs)
  case (Cons x xs)
  then show ?case by (cases "xs = []") (simp_all add: slash_join_Cons)
qed simp

section \<open>Normal forms\<close>

lemma clean_segs_append: "clean_segs r acc (xs @ ys) = clean_segs r (rev (clean_segs r acc xs)) ys"
  by (induction r acc xs rule: clean_segs.induct) (auto split: list.splits)

lemma clean_segs_plain: "\<forall>x \<in> set xs. plain x \<Longrightarrow> clean_segs r acc xs = rev acc @ xs"
  by (induction xs arbitrary: acc) (auto simp: plain_def)

lemma clean_rooted_plain:
  "\<forall>x \<in> set acc. plain x \<Longrightarrow> \<forall>x \<in> set xs. CHR ''/'' \<notin> set x \<Longrightarrow>
   \<forall>x \<in> set (clean_segs True acc xs). plain x"
proof (induction xs arbitrary: acc)
  case (Cons x xs)
  consider "x = [] \<or> x = ''.''" | "x = ''..''" "acc = []" | a bs where "x = ''..''" "acc = a # bs" | "plain x"
    using Cons.prems(2) by (cases acc) (auto simp: plain_def)
  then show ?case
  proof cases
    case 1
    then show ?thesis using Cons.IH [of acc] Cons.prems by simp
  next
    case 2
    then show ?thesis using Cons.IH [of "[]"] Cons.prems by simp
  next
    case (3 a bs)
    then have "a \<noteq> ''..''" using Cons.prems(1) by (simp add: plain_def)
    with 3 show ?thesis using Cons.IH [of bs] Cons.prems by simp
  next
    case 4
    then have "x \<noteq> []" "x \<noteq> ''.''" "x \<noteq> ''..''" by (simp_all add: plain_def)
    then have e: "clean_segs True acc (x # xs) = clean_segs True (x # acc) xs" by simp
    show ?thesis unfolding e by (rule Cons.IH) (use 4 Cons.prems in \<open>simp_all add: 4\<close>)
  qed
qed simp

lemma segs_plain: "is_abs p \<Longrightarrow> x \<in> set (segs p) \<Longrightarrow> plain x"
  using clean_rooted_plain [of "[]" "split_on CHR ''/'' p"] split_on_parts [of _ "CHR ''/''" p]
  by (auto simp: segs_def)

lemma is_abs_Cons [simp]: "is_abs (CHR ''/'' # p)"
  by (simp add: is_abs_def has_prefix_def)

lemma segs_abs: "segs (CHR ''/'' # p) = clean_segs True [] (split_on CHR ''/'' p)"
  by (simp add: segs_def)

text \<open>An absolute path in normal form is the slash and its elements, and nothing else.\<close>

lemma segs_of_plain: "\<forall>x \<in> set xs. plain x \<Longrightarrow> segs (CHR ''/'' # slash_join xs) = xs"
  by (cases "xs = []") (auto simp: segs_abs split_slash_join_id plain_def clean_segs_plain)

lemma clean_abs: "is_abs p \<Longrightarrow> path_clean p = CHR ''/'' # slash_join (segs p)"
  by (simp add: path_clean_def)

lemma segs_clean: "is_abs p \<Longrightarrow> segs (path_clean p) = segs p"
  by (simp add: clean_abs segs_of_plain segs_plain)

lemma is_abs_clean: "is_abs p \<Longrightarrow> is_abs (path_clean p)"
  by (simp add: clean_abs)

lemma clean_idem: "is_abs p \<Longrightarrow> path_clean (path_clean p) = path_clean p"
  by (simp add: clean_abs [of "path_clean p"] is_abs_clean segs_clean) (simp add: clean_abs)

lemma slash_join_inj:
  assumes "slash_join xs = slash_join ys" and "\<forall>x \<in> set xs. plain x" and "\<forall>y \<in> set ys. plain y"
  shows "xs = ys"
  using assms segs_of_plain by metis

section \<open>Joining below an absolute path\<close>

lemma join_abs:
  assumes "is_abs b"
  shows "path_join [b, q] = CHR ''/'' # slash_join (clean_segs True (rev (segs b)) (split_on CHR ''/'' q))"
proof -
  have b: "b \<noteq> []" using assms by (auto simp: is_abs_def has_prefix_def)
  have "is_abs (b @ CHR ''/'' # q)" using assms by (cases b) (auto simp: is_abs_def has_prefix_def)
  moreover have "segs (b @ CHR ''/'' # q) = clean_segs True (rev (segs b)) (split_on CHR ''/'' q)"
    using assms calculation by (simp add: segs_def split_on_append clean_segs_append)
  ultimately show ?thesis using b by (simp add: path_join_def clean_abs)
qed

lemma join_plain:
  "is_abs b \<Longrightarrow> plain x \<Longrightarrow> path_join [b, x] = CHR ''/'' # slash_join (segs b @ [x])"
  by (simp add: join_abs plain_def)

lemma is_abs_join [simp]: "is_abs b \<Longrightarrow> is_abs (path_join [b, q])"
  by (simp add: join_abs)

lemma segs_join: "is_abs b \<Longrightarrow> segs (path_join [b, q]) = clean_segs True (rev (segs b)) (split_on CHR ''/'' q)"
  unfolding join_abs
  by (rule segs_of_plain, rule clean_rooted_plain) (auto simp: segs_plain dest: split_on_parts)

lemma segs_join_plain: "is_abs b \<Longrightarrow> plain x \<Longrightarrow> segs (path_join [b, x]) = segs b @ [x]"
  by (simp add: segs_join plain_def)

section \<open>Being inside a directory\<close>

text \<open>The test the code makes on texts, and what it stands for.\<close>

definition path_inside :: "string \<Rightarrow> string \<Rightarrow> bool" where
  "path_inside root p \<longleftrightarrow> p = root \<or> has_prefix p (root @ ''/'')"

definition below :: "string \<Rightarrow> string \<Rightarrow> bool" where
  "below root p \<longleftrightarrow> (\<exists>rest. segs p = segs root @ rest)"

lemma below_refl [simp]: "below p p"
  by (simp add: below_def)

lemma below_trans: "below p q \<Longrightarrow> below q r \<Longrightarrow> below p r"
  by (auto simp: below_def)

lemma text_test_is_below:
  assumes "is_abs root" and "segs root \<noteq> []" and "is_abs p"
  shows "path_inside (path_clean root) (path_clean p) \<longleftrightarrow> below root p"
proof
  assume "below root p"
  then obtain rest where "segs p = segs root @ rest" by (auto simp: below_def)
  then show "path_inside (path_clean root) (path_clean p)"
    using assms by (cases "rest = []") (auto simp: path_inside_def clean_abs slash_join_append has_prefix_iff)
next
  assume "path_inside (path_clean root) (path_clean p)"
  then consider "path_clean p = path_clean root" | r where "path_clean p = path_clean root @ CHR ''/'' # r"
    by (auto simp: path_inside_def has_prefix_iff)
  then show "below root p"
  proof cases
    case 1
    then show ?thesis using assms by (metis below_def append_Nil2 segs_clean)
  next
    case (2 r)
    have "segs (CHR ''/'' # slash_join (segs root) @ CHR ''/'' # r) =
        clean_segs True (rev (segs root)) (split_on CHR ''/'' r)"
      using assms(1,2) segs_plain [OF assms(1)]
      by (simp add: segs_abs split_on_append clean_segs_append split_slash_join_id plain_def clean_segs_plain)
    moreover have "segs p = segs (CHR ''/'' # slash_join (segs root) @ CHR ''/'' # r)"
      using 2 assms by (metis append_Cons clean_abs segs_clean)
    moreover have "\<forall>x \<in> set (split_on CHR ''/'' r). plain x"
    proof -
      have "split_on CHR ''/'' (slash_join (segs p)) = segs root @ split_on CHR ''/'' r"
        using 2 assms segs_plain [OF assms(1)]
        by (simp add: clean_abs split_on_append split_slash_join_id plain_def)
      moreover have "segs p \<noteq> []" using 2 assms by (auto simp: clean_abs)
      ultimately show ?thesis using segs_plain [OF assms(3)] by (simp add: split_slash_join_id plain_def)
    qed
    ultimately show ?thesis by (simp add: below_def clean_segs_plain)
  qed
qed

section \<open>Separate directories\<close>

lemmas area_defs = repos_dir_def workspace_dir_def artifacts_dir_def logs_dir_def skills_dir_def
lemmas company_dir_defs = company_repos_dir_def company_workspace_dir_def company_artifacts_dir_def
  company_logs_dir_def company_skills_dir_def

lemma plain_areas [simp]:
  "plain ''repos''" "plain ''workspace''" "plain ''artifacts''" "plain ''logs''" "plain ''skills''"
  by (simp_all add: plain_def)

lemma company_dirs_segs:
  assumes "is_abs base" and "plain company" and "d \<in> set (company_dirs base company)"
  shows "is_abs d \<and> (\<exists>area. segs d = segs base @ [area, company])"
  using assms by (auto simp: company_dirs_def company_dir_defs area_defs segs_join_plain)

lemma plain_dec [simp]: "plain (dec_int i)" "plain (''task-'' @ dec_int i)"
    "plain (''session-task-'' @ dec_int i @ ''-run-'' @ dec_int j)"
proof -
  have d: "CHR ''/'' \<notin> set (dec_int i)" "CHR ''.'' \<notin> set (dec_int i)" for i
    using dec_nat_digits [of "nat i"] dec_nat_digits [of "nat (- i)"]
    by (auto simp: dec_int_def is_digit_def list_all_iff dest!: bspec)
  then show "plain (dec_int i)" "plain (''task-'' @ dec_int i)"
    "plain (''session-task-'' @ dec_int i @ ''-run-'' @ dec_int j)"
    using dec_int_minus [of i] d(1) [of i] d(1) [of j] list.set_intros(1) [of "CHR ''.''"] d(2) [of i]
    unfolding plain_def by (metis, auto)
qed

text \<open>
  the directories of two companies with different, proper names are apart: none of one
  lies inside one of the other, whatever the data directory is called.
\<close>

theorem company_directories_are_apart:
  assumes "is_abs base" and "plain c" and "plain d" and "c \<noteq> d"
    and "x \<in> set (company_dirs base c)" and "y \<in> set (company_dirs base d)"
  shows "\<not> below x y"
  using company_dirs_segs [OF assms(1,2,5)] company_dirs_segs [OF assms(1,3,6)] assms(4)
  by (auto simp: below_def)

theorem company_directories_are_apart_witness:
  "\<not> below ''/data/repos/acme'' ''/data/repos/acme2''"
proof -
  have "''/data/repos/acme'' \<in> set (company_dirs ''/data'' ''acme'')"
    "''/data/repos/acme2'' \<in> set (company_dirs ''/data'' ''acme2'')" by code_simp+
  then show ?thesis
    by (intro company_directories_are_apart [of "''/data''" "''acme''" "''acme2''"])
      (simp_all add: is_abs_def has_prefix_def plain_def)
qed

text \<open>
  The name of a company is not checked, and the directories it has are removed with it: for
  the name of the parent directory that is the data directory itself, for no name at all it
  is what every company keeps.
\<close>

lemma dotdot_company_has_everything:
  "company_dirs ''/data'' ''..'' = [''/data'', ''/data'', ''/data'', ''/data'', ''/data'']"
  by code_simp

lemma nameless_company_has_all_companies:
  "company_dirs ''/data'' [] =
     [''/data/repos'', ''/data/workspace'', ''/data/artifacts'', ''/data/logs'', ''/data/skills'']"
  by code_simp

lemma session_name_inj:
  assumes "dec_int i @ ''-run-'' @ dec_int r = dec_int j @ ''-run-'' @ dec_int q"
  shows "i = j \<and> r = q"
proof -
  have r: "CHR ''r'' \<notin> set (dec_int k)" for k
    using dec_nat_digits [of "nat k"] dec_nat_digits [of "nat (- k)"]
    by (auto simp: dec_int_def is_digit_def list_all_iff dest!: bspec)
  have "takeWhile (\<lambda>c. c \<noteq> CHR ''r'') (dec_int k @ ''-run-'' @ z) = dec_int k @ ''-''" for k z
    using r [of k] by (subst takeWhile_append2) auto
  then have "dec_int i @ ''-'' = dec_int j @ ''-''" using assms by metis
  then show ?thesis using assms by simp
qed

text \<open>
  the workspaces of runs are separate: two runs never share one, and none lies inside the
  worktree of a task or another run's workspace, so copying a worktree into a run's workspace
  never meets its own destination.
\<close>

theorem run_workspaces_are_apart:
  assumes "is_abs base" and "plain company"
  shows "(run_workspace_dir base company t r = run_workspace_dir base company u q \<longrightarrow> t = u \<and> r = q) \<and>
         \<not> below (worktree_dir base company u) (run_workspace_dir base company t r) \<and>
         \<not> below (run_workspace_dir base company t r) (worktree_dir base company u) \<and>
         ((t, r) \<noteq> (u, q) \<longrightarrow>
            \<not> below (run_workspace_dir base company t r) (run_workspace_dir base company u q))"
proof -
  have c: "is_abs (company_workspace_dir base company)"
    using assms by (simp add: company_workspace_dir_def workspace_dir_def)
  have run: "segs (run_workspace_dir base company i j) =
      segs (company_workspace_dir base company) @ [''session-task-'' @ dec_int i @ ''-run-'' @ dec_int j]" for i j
    unfolding run_workspace_dir_def by (rule segs_join_plain [OF c plain_dec(3)])
  have task: "segs (worktree_dir base company i) = segs (company_workspace_dir base company) @ [''task-'' @ dec_int i]" for i
    unfolding worktree_dir_def by (rule segs_join_plain [OF c plain_dec(2)])
  have same: "segs (run_workspace_dir base company t r) = segs (run_workspace_dir base company u q) \<Longrightarrow> t = u \<and> r = q"
    unfolding run using session_name_inj by simp
  show ?thesis
  proof (intro conjI impI)
    assume "(t, r) \<noteq> (u, q)"
    then show "\<not> below (run_workspace_dir base company t r) (run_workspace_dir base company u q)"
    proof (rule contrapos_nn)
      assume "below (run_workspace_dir base company t r) (run_workspace_dir base company u q)"
      then obtain rest where e: "segs (run_workspace_dir base company u q) =
          segs (run_workspace_dir base company t r) @ rest" by (auto simp: below_def)
      then have "rest = []" using arg_cong [OF e, of length] by (simp add: run)
      then show "(t, r) = (u, q)" using same e by simp
    qed
  qed (use same in \<open>auto simp: below_def run task\<close>)
qed

theorem run_workspaces_are_apart_witness:
  "\<not> below (worktree_dir ''/data'' ''acme'' 3) (run_workspace_dir ''/data'' ''acme'' 3 12)"
  using run_workspaces_are_apart [of "''/data''" "''acme''" 3 12 3]
  by (simp add: is_abs_def has_prefix_def plain_def)

end
