(* ===== verification/Engine_State.thy ===== *)
theory Engine_State
  imports Run_Store Task_Relations Comments Model_Purposes Message_History Paths
begin

text \<open>
  What the native engine works on (\<open>engine/native_engine.go\<close>, \<open>engine/run_registry.go\<close>):
  the database, the process-local registry of runs, what it broadcast, and the goroutines it
  started.  A started goroutine is recorded; its body is an operation of its own.

  An engine operation is a sequence of repository calls; \<open>f k\<close> says which statements fail of
  its call number \<open>k\<close>.  \<open>encoding/json\<close> and the reader of stored logs are arguments
  (\<open>outside\<close>).  Instants are nanoseconds; \<open>zero_time\<close> is Go's zero \<open>time.Time\<close>.
\<close>

section \<open>State\<close>

datatype session_mode = Implement | Plan | Resume_Mode

datatype notice =
    Task_Updated id string "id list"
  | Comment_Created comment
  | Run_Ended id string
  | Human_Input_Requested id id string
  | Human_Input_Answered id id id

record session_start =
  ss_task :: task
  ss_mode :: session_mode
  ss_run :: "run option"
  ss_instruction :: string
  ss_context :: bool
  ss_skip_lock :: bool
  ss_worker :: bool
  ss_consultation :: bool
  ss_parent :: "(id \<times> id \<times> id) option"
  ss_precreated :: "run option"
  ss_seed :: "message list"
  ss_workspace :: string
  ss_read_only :: "string list"
  ss_target :: "(llm_provider \<times> string) option"

text \<open>A session with the task's context and nothing else given.\<close>

definition plain_session :: "task \<Rightarrow> session_mode \<Rightarrow> bool \<Rightarrow> session_start" where
  "plain_session t mode skip_lock =
     \<lparr>ss_task = t, ss_mode = mode, ss_run = None, ss_instruction = [], ss_context = True,
      ss_skip_lock = skip_lock, ss_worker = False, ss_consultation = False, ss_parent = None,
      ss_precreated = None, ss_seed = [], ss_workspace = [], ss_read_only = [], ss_target = None\<rparr>"

datatype goroutine =
    Root_Run task session_mode
  | Sidecar run task "llm_provider \<times> string"
  | Session session_start

record engine =
  e_db :: run_db
  e_comments :: comment_table
  e_models :: model_db
  e_agents :: "agent_row table"
  e_cancels :: "id set"
  e_cancelled :: "id set"
  e_sidecars :: "id set"
  e_draining :: bool
  e_started :: "goroutine list"
  e_sent :: "(id \<times> notice) list"

datatype json_value = JInt int | JStr string | JInts "int list"

record outside =
  ox_json :: "(string \<times> json_value) list \<Rightarrow> string"
  ox_log_times :: "string \<Rightarrow> instant list option"
  ox_decoder :: log_decoder
  ox_file :: "string \<Rightarrow> log_file"
  ox_model_error :: "model_error \<Rightarrow> string"
  ox_store_error :: string
  ox_port :: string
  ox_owner :: string
  ox_base :: string
  ox_copy :: "string \<Rightarrow> string \<Rightarrow> bool"

text \<open>The cursor of the stored conversation of a run.\<close>

definition log_cursor :: "outside \<Rightarrow> string \<Rightarrow> int option" where
  "log_cursor ox path =
     (case load_message_history_with_cursor (ox_decoder ox) path (ox_file ox path) 0 of
        Inl _ \<Rightarrow> None | Inr (_, n) \<Rightarrow> Some n)"

definition zero_time :: instant where
  "zero_time = - 62135596800 * second"

datatype engine_error =
    Store_Failed
  | Row_Missing
  | Store_Refused
  | Dependency_Blocked id "id list"
  | Model_Unavailable model_error
  | Bad_Checkpoint_Version int
  | History_Unreadable
  | Not_Claimed
  | Empty_Message
  | Outside_Tree id
  | Human_Question_Open
  | Workers_Active
  | Locked_By id
  | Recovery_Limit
  | Bad_Title
  | No_Agent
  | Foreign_Agent
  | Too_Many_Workers nat
  | No_Assigned_Agent
  | Not_Forkable
  | Bad_Message_Id
  | Copy_Failed
  | Ended_Before_Answer string
  | Context_Done
  | Wrong_Task
  | Workers_Not_Allowed

section \<open>Operations\<close>

type_synonym 'a act = "engine \<Rightarrow> (engine_error + 'a) \<times> engine"

definition give :: "'a \<Rightarrow> 'a act" where "give x s = (Inr x, s)"
definition refuse :: "engine_error \<Rightarrow> 'a act" where "refuse e s = (Inl e, s)"

definition and_then :: "'a act \<Rightarrow> ('a \<Rightarrow> 'b act) \<Rightarrow> 'b act" where
  "and_then m k s = (case m s of (Inl e, s') \<Rightarrow> (Inl e, s') | (Inr x, s') \<Rightarrow> k x s')"

text \<open>The result of an operation that the code throws away.\<close>

definition ignoring :: "'a act \<Rightarrow> engine \<Rightarrow> engine" where
  "ignoring m s = snd (m s)"

definition store_error :: "'e dberr \<Rightarrow> engine_error" where
  "store_error e = (case e of DbFault \<Rightarrow> Store_Failed | NotFound \<Rightarrow> Row_Missing | Refused _ \<Rightarrow> Store_Refused)"

definition on_runs :: "(run_db, 'e, 'a) db_op \<Rightarrow> 'a act" where
  "on_runs op s = (case op (e_db s) of (r, d) \<Rightarrow> (map_sum store_error id r, s\<lparr>e_db := d\<rparr>))"

definition on_tasks :: "(task_db, 'e, 'a) db_op \<Rightarrow> 'a act" where
  "on_tasks op = on_runs (\<lambda>d. case op (task_store d) of (r, t) \<Rightarrow> (r, d\<lparr>task_store := t\<rparr>))"

definition on_events :: "(event_table, 'e, 'a) db_op \<Rightarrow> 'a act" where
  "on_events op = on_runs (\<lambda>d. case op (run_events d) of (r, t) \<Rightarrow> (r, d\<lparr>run_events := t\<rparr>))"

definition on_comments :: "(comment_table, 'e, 'a) db_op \<Rightarrow> 'a act" where
  "on_comments op s =
     (case op (e_comments s) of (r, t) \<Rightarrow> (map_sum store_error id r, s\<lparr>e_comments := t\<rparr>))"

definition read_task :: "bool \<Rightarrow> id \<Rightarrow> task act" where
  "read_task fault i = on_tasks (\<lambda>t. (get_task fault i t, t))"

definition read_run :: "bool \<Rightarrow> id \<Rightarrow> run act" where
  "read_run fault i = on_runs (\<lambda>d. (get_run fault i d, d))"

definition start :: "goroutine \<Rightarrow> engine \<Rightarrow> engine" where
  "start g s = s\<lparr>e_started := e_started s @ [g]\<rparr>"

abbreviation e_tasks :: "engine \<Rightarrow> task table" where
  "e_tasks s \<equiv> tasks (task_store (e_db s))"

abbreviation e_events :: "engine \<Rightarrow> event_table" where
  "e_events s \<equiv> run_events (e_db s)"

abbreviation the_task :: "id \<Rightarrow> engine \<Rightarrow> task option" where
  "the_task i s \<equiv> tbl_get t_id i (e_tasks s)"

abbreviation the_run :: "id \<Rightarrow> engine \<Rightarrow> run option" where
  "the_run i s \<equiv> tbl_get rn_id i (runs (e_db s))"

section \<open>Statuses and kinds\<close>

definition status_in_review :: string where "status_in_review = ''in-review''"
definition status_blocked :: string where "status_blocked = ''blocked''"
definition status_refinement :: string where "status_refinement = ''refinement''"
definition kind_task_orchestrator :: string where "kind_task_orchestrator = ''task_orchestrator''"
definition kind_agent_session :: string where "kind_agent_session = ''agent_session''"
definition kind_ceo_consultation :: string where "kind_ceo_consultation = ''ceo_consultation''"
definition kind_helper_worker :: string where "kind_helper_worker = ''helper_worker''"
definition type_run_status :: string where "type_run_status = ''run_status''"
definition type_status_refresh :: string where "type_status_refresh = ''status_report_request''"
definition type_human_requested :: string where "type_human_requested = ''human_input_requested''"
definition type_human_answered :: string where "type_human_answered = ''human_input_answered''"

lemmas task_status_defs = status_todo_def status_in_progress_def status_depends_on_task_def
  status_done_def status_in_review_def status_blocked_def status_refinement_def

definition is_terminal_run_status :: "string \<Rightarrow> bool" where
  "is_terminal_run_status st \<longleftrightarrow>
     st \<in> {st_completed, st_failed, st_canceled, st_recoverable_failed, st_stale, ''interrupted''}"

section \<open>Notices and run rows\<close>

definition send :: "id \<Rightarrow> notice \<Rightarrow> engine \<Rightarrow> engine" where
  "send company n s = s\<lparr>e_sent := e_sent s @ [(company, n)]\<rparr>"

definition broadcast_for_task :: "bool \<Rightarrow> id \<Rightarrow> notice \<Rightarrow> engine \<Rightarrow> engine" where
  "broadcast_for_task fault i n s =
     (case get_task fault i (task_store (e_db s)) of
        Inr t \<Rightarrow> send (t_company t) n s | Inl _ \<Rightarrow> send (- 1) n s)"

definition new_comment :: "id \<Rightarrow> string \<Rightarrow> string \<Rightarrow> string \<Rightarrow> id option \<Rightarrow> comment" where
  "new_comment task_id author ty content run =
     \<lparr>cm_id = 0, cm_task = task_id, cm_author_type = author, cm_author = None, cm_content = content,
      cm_type = ty, cm_run = run, cm_created = 0\<rparr>"

definition emit_status_change ::
  "outside \<Rightarrow> faults \<Rightarrow> instant \<Rightarrow> id \<Rightarrow> string \<Rightarrow> string \<Rightarrow> engine \<Rightarrow> engine" where
  "emit_status_change ox flt now i from_st to_st s =
     (case on_comments (create_comment (flt 0) now
             (new_comment i ''system'' ''status_change''
               (ox_json ox [(''from'', JStr from_st), (''to'', JStr to_st)]) None)) s of
        (Inl _, s) \<Rightarrow> s
      | (Inr c, s) \<Rightarrow> broadcast_for_task (flt 1) i (Comment_Created c) s)"

definition broadcast_task_status ::
  "outside \<Rightarrow> faults \<Rightarrow> instant \<Rightarrow> task \<Rightarrow> string \<Rightarrow> string \<Rightarrow> id list \<Rightarrow> engine \<Rightarrow> engine" where
  "broadcast_task_status ox flt now t from_st to_st blockers s =
     emit_status_change ox flt now (t_id t) from_st to_st
       (send (t_company t) (Task_Updated (t_id t) to_st blockers) s)"

definition log_run :: "faults \<Rightarrow> instant \<Rightarrow> id \<Rightarrow> string \<Rightarrow> string \<Rightarrow> unit act" where
  "log_run flt now i content status =
     on_runs (update_run_log flt (\<lambda>k. flt (k + 10)) (\<lambda>k. flt (k + 40)) now i content status)"

definition fail_run :: "(nat \<Rightarrow> faults) \<Rightarrow> instant \<Rightarrow> id \<Rightarrow> string \<Rightarrow> engine \<Rightarrow> engine" where
  "fail_run f now i msg s =
     (let s = ignoring (log_run (f 0) now i msg st_failed) s
      in case get_run (f 1 0) i (e_db s) of
           Inr r \<Rightarrow> broadcast_for_task (f 2 0) (rn_task r) (Run_Ended i st_failed) s
         | Inl _ \<Rightarrow> send (- 1) (Run_Ended i st_failed) s)"

definition owner_user_id_for_company :: "bool \<Rightarrow> id \<Rightarrow> engine \<Rightarrow> id" where
  "owner_user_id_for_company fault i s =
     (case fetch fault co_id i (companies (task_store (e_db s))) of
        None \<Rightarrow> 0 | Some c \<Rightarrow> (case co_user c of None \<Rightarrow> 0 | Some u \<Rightarrow> u))"

definition human_input_pending :: "bool \<Rightarrow> id \<Rightarrow> engine \<Rightarrow> bool" where
  "human_input_pending fault i s =
     (case find_pending_human_question fault i (e_comments s) of
        Inl _ \<Rightarrow> False | Inr q \<Rightarrow> q \<noteq> None)"

definition required_model ::
  "outside \<Rightarrow> faults \<Rightarrow> id \<Rightarrow> engine \<Rightarrow> model_error + llm_provider \<times> string" where
  "required_model ox flt company s =
     resolve_required_purpose_model (\<lambda>k. flt (k + 1)) (ox_port ox)
       (owner_user_id_for_company (flt 0) company s) purpose_task_orchestrator (e_models s)"

section \<open>The run registry\<close>

definition begin_drain :: "engine \<Rightarrow> engine" where
  "begin_drain s = s\<lparr>e_draining := True\<rparr>"

definition try_start_orchestrator :: "id \<Rightarrow> engine \<Rightarrow> bool \<times> engine" where
  "try_start_orchestrator i s = (i \<notin> e_sidecars s, s\<lparr>e_sidecars := insert i (e_sidecars s)\<rparr>)"

definition stop_orchestrator :: "id \<Rightarrow> engine \<Rightarrow> engine" where
  "stop_orchestrator i s = s\<lparr>e_sidecars := e_sidecars s - {i}\<rparr>"

definition stop_run :: "id \<Rightarrow> engine \<Rightarrow> engine" where
  "stop_run i s =
     (if i \<in> e_cancels s
      then s\<lparr>e_cancels := e_cancels s - {i}, e_cancelled := insert i (e_cancelled s)\<rparr> else s)"

definition start_task_orchestrator ::
  "run \<Rightarrow> task \<Rightarrow> llm_provider \<times> string \<Rightarrow> engine \<Rightarrow> engine" where
  "start_task_orchestrator r t target s =
     (case try_start_orchestrator (rn_id r) s of
        (False, s) \<Rightarrow> s
      | (True, s) \<Rightarrow> start (Sidecar r t target) (s\<lparr>e_cancels := insert (rn_id r) (e_cancels s)\<rparr>))"

text \<open>The deferred calls when the goroutine of a sidecar returns.\<close>

definition sidecar_returns :: "id \<Rightarrow> engine \<Rightarrow> engine" where
  "sidecar_returns i s = (stop_orchestrator i s)\<lparr>e_cancels := e_cancels s - {i}\<rparr>"

section \<open>Frames\<close>

lemma give_simps [simp]: "give x s = (Inr x, s)" "refuse e s = (Inl e, s)"
  by (simp_all add: give_def refuse_def)

lemma send_frame [simp]:
  "e_db (send c n s) = e_db s" "e_comments (send c n s) = e_comments s"
  "e_started (send c n s) = e_started s" "e_draining (send c n s) = e_draining s"
  "e_sidecars (send c n s) = e_sidecars s" "e_cancels (send c n s) = e_cancels s"
  "e_models (send c n s) = e_models s" "e_agents (send c n s) = e_agents s"
  by (simp_all add: send_def)

lemma broadcast_frame [simp]:
  "e_db (broadcast_for_task b i n s) = e_db s" "e_comments (broadcast_for_task b i n s) = e_comments s"
  "e_started (broadcast_for_task b i n s) = e_started s"
  "e_draining (broadcast_for_task b i n s) = e_draining s"
  "e_sidecars (broadcast_for_task b i n s) = e_sidecars s"
  "e_cancels (broadcast_for_task b i n s) = e_cancels s"
  "e_models (broadcast_for_task b i n s) = e_models s"
  "e_agents (broadcast_for_task b i n s) = e_agents s"
  by (simp_all add: broadcast_for_task_def split: sum.splits)

lemma emit_frame [simp]:
  "e_db (emit_status_change ox b now i x y s) = e_db s"
  "e_started (emit_status_change ox b now i x y s) = e_started s"
  "e_draining (emit_status_change ox b now i x y s) = e_draining s"
  "e_sidecars (emit_status_change ox b now i x y s) = e_sidecars s"
  "e_cancels (emit_status_change ox b now i x y s) = e_cancels s"
  "e_models (emit_status_change ox b now i x y s) = e_models s"
  "e_agents (emit_status_change ox b now i x y s) = e_agents s"
  by (simp_all add: emit_status_change_def on_comments_def split: prod.splits sum.splits)

lemma broadcast_task_status_frame [simp]:
  "e_db (broadcast_task_status ox b now t x y bs s) = e_db s"
  "e_started (broadcast_task_status ox b now t x y bs s) = e_started s"
  "e_draining (broadcast_task_status ox b now t x y bs s) = e_draining s"
  "e_sidecars (broadcast_task_status ox b now t x y bs s) = e_sidecars s"
  "e_cancels (broadcast_task_status ox b now t x y bs s) = e_cancels s"
  "e_models (broadcast_task_status ox b now t x y bs s) = e_models s"
  "e_agents (broadcast_task_status ox b now t x y bs s) = e_agents s"
  by (simp_all add: broadcast_task_status_def)

lemma on_runs_frame [simp]:
  "e_started (snd (on_runs op s)) = e_started s" "e_draining (snd (on_runs op s)) = e_draining s"
  "e_sidecars (snd (on_runs op s)) = e_sidecars s" "e_comments (snd (on_runs op s)) = e_comments s"
  "e_cancels (snd (on_runs op s)) = e_cancels s" "e_models (snd (on_runs op s)) = e_models s"
  "e_agents (snd (on_runs op s)) = e_agents s" "e_sent (snd (on_runs op s)) = e_sent s"
  "e_db (snd (on_runs op s)) = snd (op (e_db s))"
  by (simp_all add: on_runs_def split: prod.splits)

lemma start_frame [simp]:
  "e_started (start g s) = e_started s @ [g]" "e_db (start g s) = e_db s"
  "e_draining (start g s) = e_draining s" "e_comments (start g s) = e_comments s"
  "e_sidecars (start g s) = e_sidecars s" "e_cancels (start g s) = e_cancels s"
  by (simp_all add: start_def)

section \<open>At most one loop per orchestrator row\<close>

fun sidecar_of :: "goroutine \<Rightarrow> id option" where
  "sidecar_of (Sidecar r t p) = Some (rn_id r)"
| "sidecar_of (Root_Run t m) = None"
| "sidecar_of (Session x) = None"

datatype registry_op = Try_Start run task "llm_provider \<times> string" | Returns id | Stops id | Drains

fun registry_exec :: "registry_op \<Rightarrow> engine \<Rightarrow> engine" where
  "registry_exec (Try_Start r t p) s = start_task_orchestrator r t p s"
| "registry_exec (Returns i) s = sidecar_returns i s"
| "registry_exec (Stops i) s = stop_run i s"
| "registry_exec Drains s = begin_drain s"

text \<open>How many loops of a row are running: those started since, less those that returned.\<close>

fun live_loops :: "id \<Rightarrow> registry_op list \<Rightarrow> engine \<Rightarrow> nat \<Rightarrow> nat" where
  "live_loops i [] s n = n"
| "live_loops i (op # ops) s n =
     live_loops i ops (registry_exec op s)
       (case op of
          Try_Start r t p \<Rightarrow> n + (if rn_id r = i \<and> i \<notin> e_sidecars s then 1 else 0)
        | Returns j \<Rightarrow> n - (if j = i then 1 else 0)
        | _ \<Rightarrow> n)"

lemma started_iff_free:
  "e_started (start_task_orchestrator r t p s) =
     (if rn_id r \<in> e_sidecars s then e_started s else e_started s @ [Sidecar r t p])"
  by (simp add: start_task_orchestrator_def try_start_orchestrator_def)

lemma start_task_orchestrator_frame [simp]:
  "e_sidecars (start_task_orchestrator r t p s) = insert (rn_id r) (e_sidecars s)"
  "e_db (start_task_orchestrator r t p s) = e_db s"
  "e_comments (start_task_orchestrator r t p s) = e_comments s"
  "e_draining (start_task_orchestrator r t p s) = e_draining s"
  by (simp_all add: start_task_orchestrator_def try_start_orchestrator_def split: bool.splits)

lemma live_loops_guard:
  "n = (if i \<in> e_sidecars s then 1 else 0) \<Longrightarrow>
   live_loops i ops s n = (if i \<in> e_sidecars (fold registry_exec ops s) then 1 else 0)"
proof (induction ops arbitrary: s n)
  case (Cons op ops)
  show ?case
    unfolding live_loops.simps fold_simps comp_apply
    by (rule Cons.IH) (use Cons.prems in \<open>cases op; auto simp: stop_orchestrator_def sidecar_returns_def stop_run_def begin_drain_def
      split: if_splits\<close>)
qed simp

end
