(* ===== verification/Task_Control.thy ===== *)
theory Task_Control
  imports Engine_State
begin

text \<open>
  Starting work on a task (\<open>engine/native_engine.go\<close>: \<open>processTask\<close>, \<open>startQueuedTask\<close>,
  \<open>run\<close>, the staleness check, reconciliation; \<open>engine/orchestrator.go\<close>:
  \<open>createTaskOrchestrator\<close>).
\<close>

section \<open>Processing a task\<close>

definition resolve_stale_run :: "(nat \<Rightarrow> faults) \<Rightarrow> instant \<Rightarrow> id \<Rightarrow> engine \<Rightarrow> engine" where
  "resolve_stale_run f now i s =
     (case get_run (f 0 0) i (e_db s) of
        Inl _ \<Rightarrow> s
      | Inr r \<Rightarrow>
          ignoring (on_tasks (unlock_task_run (f 3 0) (rn_task r)))
            (broadcast_for_task (f 2 0) (rn_task r) (Run_Ended i st_failed)
              (ignoring (log_run (f 1) now i ''Run marked as failed: previous run no longer active''
                 st_failed) s)))"

text \<open>The deduplication: True when a run that is not stale holds the task.\<close>

definition already_running :: "(nat \<Rightarrow> faults) \<Rightarrow> instant \<Rightarrow> task \<Rightarrow> bool act" where
  "already_running f now t s =
     (case t_run t of
        None \<Rightarrow> (Inr False, s)
      | Some r \<Rightarrow>
          if f 0 0 then (Inl Store_Failed, s)
          else if \<not> is_run_stale now (5 * minute) r (e_db s) then (Inr True, s)
          else (Inr False, resolve_stale_run (\<lambda>k. f (k + 1)) now r s))"

definition check_start :: "bool \<Rightarrow> id \<Rightarrow> (bool \<times> task list) act" where
  "check_start fault i s =
     (if fault then (Inl Store_Failed, s) else (Inr (can_start_task i (task_store (e_db s))), s))"

text \<open>A status written with the whole row, then announced.\<close>

definition move_task ::
  "outside \<Rightarrow> (nat \<Rightarrow> faults) \<Rightarrow> instant \<Rightarrow> task \<Rightarrow> string \<Rightarrow> id list \<Rightarrow> task act" where
  "move_task ox f now t st blockers =
     and_then (on_tasks (update_task (f 0) now (t\<lparr>t_status := st\<rparr>)))
       (\<lambda>_ s. (Inr (t\<lparr>t_status := st\<rparr>),
               broadcast_task_status ox (f 1) now (t\<lparr>t_status := st\<rparr>) (t_status t) st blockers s))"

definition launch_root :: "session_mode \<Rightarrow> task \<Rightarrow> unit act" where
  "launch_root mode t s = (Inr (), start (Root_Run t mode) s)"

definition blocked_answer :: "bool \<Rightarrow> id \<Rightarrow> id list \<Rightarrow> unit act" where
  "blocked_answer force i bs = (if force then refuse (Dependency_Blocked i bs) else give ())"

definition start_queued_task ::
  "outside \<Rightarrow> (nat \<Rightarrow> faults) \<Rightarrow> instant \<Rightarrow> task \<Rightarrow> bool \<Rightarrow> unit act" where
  "start_queued_task ox f now t force =
     and_then (check_start (f 0 0) (t_id t))
       (\<lambda>(ready, bs).
          if \<not> ready
          then and_then (move_task ox (\<lambda>k. f (k + 1)) now t status_depends_on_task (map t_id bs))
                 (\<lambda>t. blocked_answer force (t_id t) (map t_id bs))
          else and_then (move_task ox (\<lambda>k. f (k + 1)) now t status_in_progress [])
                 (launch_root Implement))"

definition rerun_finished_task ::
  "outside \<Rightarrow> (nat \<Rightarrow> faults) \<Rightarrow> instant \<Rightarrow> task \<Rightarrow> bool \<Rightarrow> unit act" where
  "rerun_finished_task ox f now t force =
     (if \<not> force then give ()
      else and_then (check_start (f 0 0) (t_id t))
        (\<lambda>(ready, bs).
           if \<not> ready
           then and_then (if t_status t \<noteq> status_depends_on_task
                          then move_task ox (\<lambda>k. f (k + 1)) now t status_depends_on_task (map t_id bs)
                          else give t)
                  (\<lambda>t. blocked_answer force (t_id t) (map t_id bs))
           else and_then (move_task ox (\<lambda>k. f (k + 1)) now t status_in_progress [])
                  (launch_root Implement)))"

text \<open>
  \<open>processTask\<close>: a dependent task whose dependencies are done is queued, and processed
  again from the start.  One pass is \<open>process_step\<close>; that the passes end is proved below.
\<close>

datatype pass = Finished "engine_error + unit" engine | Again id engine

definition finished :: "(engine_error + unit) \<times> engine \<Rightarrow> pass" where
  "finished x = Finished (fst x) (snd x)"

definition dispatch ::
  "outside \<Rightarrow> (nat \<Rightarrow> faults) \<Rightarrow> instant \<Rightarrow> bool \<Rightarrow> task \<Rightarrow> engine \<Rightarrow> pass" where
  "dispatch ox f now force t s =
     (if t_status t = status_todo then finished (start_queued_task ox f now t force s)
      else if t_status t = status_refinement then finished (launch_root Plan t s)
      else if t_status t = status_depends_on_task
      then (case check_start (f 0 0) (t_id t) s of
              (Inl e, s) \<Rightarrow> Finished (Inl e) s
            | (Inr (ready, bs), s) \<Rightarrow>
                if \<not> ready then finished (blocked_answer force (t_id t) (map t_id bs) s)
                else (case move_task ox (\<lambda>k. f (k + 1)) now t status_todo (map t_id bs) s of
                        (Inl e, s) \<Rightarrow> Finished (Inl e) s
                      | (Inr t, s) \<Rightarrow> Again (t_id t) s))
      else if t_status t = status_in_progress then finished (launch_root Implement t s)
      else if t_status t \<in> {status_in_review, status_blocked, status_done}
      then finished (rerun_finished_task ox f now t force s)
      else Finished (Inr ()) s)"

definition process_step ::
  "outside \<Rightarrow> (nat \<Rightarrow> faults) \<Rightarrow> instant \<Rightarrow> bool \<Rightarrow> id \<Rightarrow> engine \<Rightarrow> pass" where
  "process_step ox f now force i s =
     (if e_draining s then Finished (Inr ()) s
      else case read_task (f 0 0) i s of
        (Inl e, s) \<Rightarrow> Finished (Inl e) s
      | (Inr t, s) \<Rightarrow>
          (case already_running (\<lambda>k. f (k + 1)) now t s of
             (Inl e, s) \<Rightarrow> Finished (Inl e) s
           | (Inr busy, s) \<Rightarrow>
               if busy then Finished (Inr ()) s else dispatch ox (\<lambda>k. f (k + 10)) now force t s))"

partial_function (option) process_task ::
  "outside \<Rightarrow> (nat \<Rightarrow> faults) \<Rightarrow> instant \<Rightarrow> bool \<Rightarrow> id \<Rightarrow> engine \<Rightarrow>
   ((engine_error + unit) \<times> engine) option" where
  "process_task ox f now force i s =
     (case process_step ox f now force i s of
        Finished r s \<Rightarrow> Some (r, s)
      | Again j s \<Rightarrow> process_task ox (\<lambda>k. f (k + 20)) now force j s)"

definition rerun_task ::
  "outside \<Rightarrow> (nat \<Rightarrow> faults) \<Rightarrow> instant \<Rightarrow> id \<Rightarrow> engine \<Rightarrow> ((engine_error + unit) \<times> engine) option" where
  "rerun_task ox f now i s = process_task ox f now True i s"

section \<open>Reconciliation\<close>

fun process_all ::
  "outside \<Rightarrow> (nat \<Rightarrow> nat \<Rightarrow> faults) \<Rightarrow> instant \<Rightarrow> id list \<Rightarrow> engine \<Rightarrow> engine option" where
  "process_all ox g now [] s = Some s"
| "process_all ox g now (i # is) s =
     (case process_task ox (g 0) now False i s of
        None \<Rightarrow> None | Some (_, s) \<Rightarrow> process_all ox (\<lambda>n. g (Suc n)) now is s)"

definition reconcile_dependents ::
  "outside \<Rightarrow> bool \<Rightarrow> (nat \<Rightarrow> nat \<Rightarrow> faults) \<Rightarrow> instant \<Rightarrow> id \<Rightarrow> engine \<Rightarrow> engine option" where
  "reconcile_dependents ox fault g now i s =
     (if fault then Some s
      else process_all ox g now (map t_id (list_dependent_tasks i (task_store (e_db s)))) s)"

definition reconcile_queued_tasks ::
  "outside \<Rightarrow> bool \<Rightarrow> (nat \<Rightarrow> nat \<Rightarrow> faults) \<Rightarrow> instant \<Rightarrow> engine \<Rightarrow> engine option" where
  "reconcile_queued_tasks ox fault g now s =
     (if fault then Some s
      else process_all ox g now (map t_id (list_queued_tasks_for_reconciliation (task_store (e_db s)))) s)"

section \<open>The orchestrator of a task\<close>

definition new_run :: "id \<Rightarrow> id \<Rightarrow> string \<Rightarrow> string \<Rightarrow> id option \<Rightarrow> id option \<Rightarrow> string \<Rightarrow> instant \<Rightarrow> run" where
  "new_run task_id agent kind title parent base status now =
     \<lparr>rn_id = 0, rn_task = task_id, rn_agent = agent, rn_name = [], rn_title = title, rn_kind = kind, rn_parent = parent,
      rn_root = base, rn_reported = [], rn_status = status, rn_session = [], rn_log_file = [], rn_log_content = [],
      rn_log_entries = [], rn_token_stats = [], rn_result_description = [],
      rn_result_explanation = [], rn_started = now, rn_ended = None, rn_last_message = None,
      rn_workspace = [], rn_recovery = no_recovery\<rparr>"

definition report_missing_model ::
  "outside \<Rightarrow> (nat \<Rightarrow> faults) \<Rightarrow> instant \<Rightarrow> task \<Rightarrow> agent_row \<Rightarrow> model_error \<Rightarrow> engine \<Rightarrow> engine" where
  "report_missing_model ox f now t a e s =
     (let msg = ''ORCHESTRATOR_MODEL_REQUIRED: '' @ ox_model_error ox e;
          row = (new_run (t_id t) (ar_id a) kind_task_orchestrator [] None None st_failed now)
                  \<lparr>rn_ended := Some now, rn_result_explanation := msg\<rparr>;
          s = (case on_runs (create_run (f 0 0) row) s of
                 (Inl _, s) \<Rightarrow> s
               | (Inr c, s) \<Rightarrow>
                   ignoring (on_tasks (set_task_orchestrator_run (f 2 0) (t_id t) (rn_id c)))
                     (ignoring (log_run (f 1) now (rn_id c) msg st_failed) s));
          s = (case read_task (f 3 0) (t_id t) s of
                 (Inl _, s) \<Rightarrow> s
               | (Inr current, s) \<Rightarrow>
                   ignoring (on_tasks (update_task (f 4) now (current\<lparr>t_status := status_blocked\<rparr>))) s)
      in ignoring (on_comments (create_comment (f 5 0) now
           (new_comment (t_id t) ''system'' ''orchestrator_preflight_failed'' msg None))) s)"

definition live_orchestrator :: "bool \<Rightarrow> id \<Rightarrow> engine \<Rightarrow> run option" where
  "live_orchestrator fault i s =
     (if fault then None
      else case get_orchestrator_run i (e_db s) of
             Inl _ \<Rightarrow> None
           | Inr r \<Rightarrow> if rn_id r \<noteq> 0 \<and> rn_status r \<in> {st_running, st_waiting} then Some r else None)"

definition create_task_orchestrator ::
  "outside \<Rightarrow> (nat \<Rightarrow> faults) \<Rightarrow> instant \<Rightarrow> task \<Rightarrow> agent_row \<Rightarrow> engine \<Rightarrow>
   (run \<times> (llm_provider \<times> string) \<times> bool) option \<times> engine" where
  "create_task_orchestrator ox f now t a s =
     (case required_model ox (f 0) (t_company t) s of
        Inl e \<Rightarrow> (None, report_missing_model ox (\<lambda>k. f (k + 1)) now t a e s)
      | Inr target \<Rightarrow>
          (case live_orchestrator (f 10 0) (t_id t) s of
             Some r \<Rightarrow> (Some (r, target, False), s)
           | None \<Rightarrow>
               (case on_runs (create_run (f 11 0)
                       ((new_run (t_id t) (ar_id a) kind_task_orchestrator ''Task orchestration'' None
                          None st_running now)\<lparr>rn_name := t_ref_key t @ ''-orchestrator''\<rparr>)) s of
                  (Inl _, s) \<Rightarrow> (None, s)
                | (Inr c, s) \<Rightarrow>
                    (case on_runs (set_run_root_id (f 12 0) (rn_id c) (rn_id c)) s of
                       (Inl _, s) \<Rightarrow> (None, s)
                     | (Inr _, s) \<Rightarrow>
                         (case on_tasks (set_task_orchestrator_run (f 13 0) (t_id t) (rn_id c)) s of
                            (Inl _, s) \<Rightarrow>
                              (None, ignoring (log_run (f 14) now (rn_id c) (ox_store_error ox) st_failed) s)
                          | (Inr _, s) \<Rightarrow> (Some (c, target, True), s))))))"

definition root_session :: "task \<Rightarrow> session_mode \<Rightarrow> session_start" where
  "root_session t mode = plain_session t mode False"

text \<open>\<open>run\<close>: the body of the goroutine \<open>Root_Run\<close>.\<close>

definition run_root ::
  "outside \<Rightarrow> (nat \<Rightarrow> faults) \<Rightarrow> instant \<Rightarrow> task \<Rightarrow> session_mode \<Rightarrow> engine \<Rightarrow> engine" where
  "run_root ox f now t mode s =
     (case Option.bind (t_agent t) (\<lambda>i. fetch (f 0 0) ar_id i (e_agents s)) of
        None \<Rightarrow> start (Session (root_session t mode)) s
      | Some a \<Rightarrow>
          if \<not> ar_enabled a then start (Session (root_session t mode)) s
          else (case create_task_orchestrator ox (\<lambda>k. f (k + 1)) now t a s of
                  (None, s) \<Rightarrow> s
                | (Some (r, target, should_start), s) \<Rightarrow>
                    (case on_tasks (claim_task_run (f 20 0) (t_id t) (rn_id r)) s of
                       (Inl _, s) \<Rightarrow> ignoring (log_run (f 21) now (rn_id r) (ox_store_error ox) st_failed) s
                     | (Inr False, s) \<Rightarrow> s
                     | (Inr True, s) \<Rightarrow>
                         if should_start then start_task_orchestrator r t target s else s)))"

fun resume_waiting_loop ::
  "outside \<Rightarrow> (nat \<Rightarrow> nat \<Rightarrow> faults) \<Rightarrow> run list \<Rightarrow> engine \<Rightarrow> engine" where
  "resume_waiting_loop ox g [] s = s"
| "resume_waiting_loop ox g (r # rs) s =
     resume_waiting_loop ox (\<lambda>n. g (Suc n)) rs
       (case read_task (g 0 0 0) (rn_task r) s of
          (Inl _, s) \<Rightarrow> s
        | (Inr t, s) \<Rightarrow>
            if t_agent t = None then s
            else (case required_model ox (g 0 1) (t_company t) s of
                    Inl _ \<Rightarrow> s
                  | Inr (p, m) \<Rightarrow> if m = [] then s else start_task_orchestrator r t (p, m) s))"

definition resume_waiting_orchestrators ::
  "outside \<Rightarrow> bool \<Rightarrow> (nat \<Rightarrow> nat \<Rightarrow> faults) \<Rightarrow> engine \<Rightarrow> engine" where
  "resume_waiting_orchestrators ox fault g s =
     (if fault then s else resume_waiting_loop ox g (list_waiting_orchestrators (e_db s)) s)"

section \<open>The staleness check\<close>

text \<open>The second pass over the running rows, with the in-memory ownership; \<open>later\<close> is its clock.\<close>

definition unowned_silent :: "engine \<Rightarrow> instant \<Rightarrow> run list \<Rightarrow> run list \<Rightarrow> run list" where
  "unowned_silent s cutoff found active =
     filter (\<lambda>r. rn_id r \<notin> e_cancels s \<and> rn_id r \<notin> rn_id ` set found \<and> quiet_since cutoff r) active"

fun retire_silent ::
  "(nat \<Rightarrow> nat \<Rightarrow> faults) \<Rightarrow> instant \<Rightarrow> run list \<Rightarrow> id list \<Rightarrow> engine \<Rightarrow>
   (engine_error option \<times> id list) \<times> engine" where
  "retire_silent g now [] stale s = ((None, stale), s)"
| "retire_silent g now (r # rs) stale s =
     (let skip = rn_kind r = kind_task_orchestrator \<and>
            (case get_task (g 0 0 0) (rn_task r) (task_store (e_db s)) of
               Inl _ \<Rightarrow> True | Inr t \<Rightarrow> t_status t \<noteq> status_in_progress)
      in if skip then retire_silent (\<lambda>n. g (Suc n)) now rs stale s
         else case on_runs (mark_run_stale (g 0 1) now (rn_id r) ''session stopped heartbeating'') s of
                (Inl e, s) \<Rightarrow> ((Some e, stale), s)
              | (Inr False, s) \<Rightarrow> retire_silent (\<lambda>n. g (Suc n)) now rs stale s
              | (Inr True, s) \<Rightarrow>
                  retire_silent (\<lambda>n. g (Suc n)) now rs (stale @ [rn_id r])
                    (broadcast_for_task (g 0 2 0) (rn_task r) (Run_Ended (rn_id r) st_stale) s))"

definition check_stale_runs ::
  "(nat \<Rightarrow> faults) \<Rightarrow> (nat \<Rightarrow> nat \<Rightarrow> faults) \<Rightarrow> instant \<Rightarrow> instant \<Rightarrow> duration \<Rightarrow> engine \<Rightarrow>
   (engine_error option \<times> id list) \<times> engine" where
  "check_stale_runs f g now later threshold s =
     (if f 0 0 \<or> f 1 0 then ((Some Store_Failed, []), s)
      else (let found = get_stale_running_runs now threshold (e_db s)
            in retire_silent g later
                 (found @ unowned_silent s (later - threshold) found (get_running_runs (e_db s))) [] s))"

section \<open>Lemmas: rows\<close>

lemma and_then_cases:
  "and_then m k s = (case m s of (Inl e, s') \<Rightarrow> (Inl e, s') | (Inr x, s') \<Rightarrow> k x s')"
  by (simp add: and_then_def)

lemma on_tasks_frame [simp]:
  "e_started (snd (on_tasks op s)) = e_started s" "e_draining (snd (on_tasks op s)) = e_draining s"
  "e_sidecars (snd (on_tasks op s)) = e_sidecars s" "e_comments (snd (on_tasks op s)) = e_comments s"
  "e_cancels (snd (on_tasks op s)) = e_cancels s" "e_models (snd (on_tasks op s)) = e_models s"
  "e_agents (snd (on_tasks op s)) = e_agents s" "e_sent (snd (on_tasks op s)) = e_sent s"
  "runs (e_db (snd (on_tasks op s))) = runs (e_db s)"
  "run_events (e_db (snd (on_tasks op s))) = run_events (e_db s)"
  "task_store (e_db (snd (on_tasks op s))) = snd (op (task_store (e_db s)))"
  by (simp_all add: on_tasks_def split: prod.splits)

lemma on_tasks_eq:
  "on_tasks op s = (r, s') \<Longrightarrow>
   r = map_sum store_error id (fst (op (task_store (e_db s)))) \<and> s' = snd (on_tasks op s) \<and>
   task_store (e_db s') = snd (op (task_store (e_db s))) \<and> runs (e_db s') = runs (e_db s)"
  by (auto simp: on_tasks_def on_runs_def split: prod.splits)

lemma read_task_eq [simp]:
  "read_task fault i s = (map_sum store_error id (get_task fault i (task_store (e_db s))), s)"
  by (simp add: read_task_def on_tasks_def on_runs_def)

lemma get_task_Inr:
  "get_task fault i d = Inr t \<longleftrightarrow> \<not> fault \<and> tbl_get t_id i (tasks d) = Some t"
  by (auto simp: get_task_def split: option.splits)

lemma map_sum_Inr [simp]: "map_sum f id x = Inr y \<longleftrightarrow> x = Inr y"
  by (cases x) auto

lemma read_task_Inr:
  "read_task fault i s = (Inr t, s') \<longleftrightarrow> \<not> fault \<and> the_task i s = Some t \<and> s' = s"
  by (auto simp: get_task_Inr)

lemma task_id: "the_task i s = Some t \<Longrightarrow> t_id t = i"
  by (auto dest: task_rows.get_Some_D)

section \<open>Lemmas: a move\<close>

lemma move_task_frame:
  "move_task ox f now t st bs s = (r, s') \<Longrightarrow>
   e_started s' = e_started s \<and> e_draining s' = e_draining s \<and> e_sidecars s' = e_sidecars s \<and>
   runs (e_db s') = runs (e_db s)"
  by (auto simp: move_task_def and_then_def split: prod.splits sum.splits dest!: on_tasks_eq)

lemma update_task_get:
  assumes "update_task flt now t d = (Inr u, d')"
  shows "tbl_get t_id i (tasks d') = (if i = t_id t then Some u else tbl_get t_id i (tasks d)) \<and>
         t_status u = t_status t \<and> t_run u = t_run t \<and> t_id u = t_id t \<and>
         t_company u = t_company t \<and> t_agent u = t_agent t"
  using assms task_rows.get_save [of i u "tasks d"]
  by (auto simp: update_task_def Let_def split: if_splits sum.splits)

lemma move_task_Inr:
  assumes "move_task ox f now t st bs s = (Inr u, s')"
  shows "u = t\<lparr>t_status := st\<rparr> \<and>
         (\<exists>v. the_task (t_id t) s' = Some v \<and> t_status v = st \<and> t_run v = t_run t \<and> t_id v = t_id t)"
proof -
  obtain v s1 where u: "on_tasks (update_task (f 0) now (t\<lparr>t_status := st\<rparr>)) s = (Inr v, s1)"
    and s': "u = t\<lparr>t_status := st\<rparr>"
      "s' = broadcast_task_status ox (f 1) now (t\<lparr>t_status := st\<rparr>) (t_status t) st bs s1"
    using assms by (auto simp: move_task_def and_then_def split: prod.splits sum.splits)
  obtain d where "update_task (f 0) now (t\<lparr>t_status := st\<rparr>) (task_store (e_db s)) = (Inr v, d)"
      "task_store (e_db s1) = d"
    using on_tasks_eq [OF u] by (metis map_sum_Inr prod.collapse)
  with update_task_get [OF this(1), of "t_id t"] s' show ?thesis by simp
qed

section \<open>Processing ends\<close>

lemma already_running_frame:
  "already_running f now t s = (r, s') \<Longrightarrow>
   e_started s' = e_started s \<and> e_draining s' = e_draining s \<and> e_sidecars s' = e_sidecars s"
  by (auto simp: already_running_def resolve_stale_run_def ignoring_def log_run_def
      split: option.splits if_splits sum.splits)

lemma store_error_Inl [simp]: "map_sum f id x = Inl e \<longleftrightarrow> (\<exists>e'. x = Inl e' \<and> e = f e')"
  by (cases x) auto

lemma dispatch_Again:
  assumes "dispatch ox f now force t s = Again j s'"
  shows "t_status t = status_depends_on_task \<and> j = t_id t \<and>
         fst (can_start_task (t_id t) (task_store (e_db s))) \<and>
         move_task ox (\<lambda>k. f (k + 1)) now t status_todo
           (map t_id (snd (can_start_task (t_id t) (task_store (e_db s))))) s = (Inr (t\<lparr>t_status := status_todo\<rparr>), s')"
  using assms
  by (auto simp: dispatch_def finished_def check_start_def dest!: move_task_Inr
      split: if_splits prod.splits sum.splits)

lemma process_step_cases:
  obtains (refused) e where "process_step ox f now force i s = Finished e s"
    | (failed) e s1 where "process_step ox f now force i s = Finished e s1" "e_started s1 = e_started s"
    | (dispatched) t s1 where "\<not> e_draining s" "the_task i s = Some t" "t_id t = i"
        "already_running (\<lambda>k. f (k + 1)) now t s = (Inr False, s1)"
        "process_step ox f now force i s = dispatch ox (\<lambda>k. f (k + 10)) now force t s1"
proof (cases "e_draining s")
  case True
  then show ?thesis using refused by (simp add: process_step_def)
next
  case False
  show ?thesis
  proof (cases "get_task (f 0 0) i (task_store (e_db s))")
    case (Inl e)
    then show ?thesis using refused False by (simp add: process_step_def)
  next
    case (Inr t)
    then have t: "the_task i s = Some t" "t_id t = i" by (auto simp: get_task_Inr task_id)
    obtain y s1 where a: "already_running (\<lambda>k. f (k + 1)) now t s = (y, s1)" by fastforce
    then have st: "e_started s1 = e_started s" using already_running_frame by blast
    show ?thesis
    proof (cases y)
      case (Inl e)
      then show ?thesis
        using failed [of "Inl e" s1] False Inr a st by (simp add: process_step_def)
    next
      case (Inr busy)
      then show ?thesis
        using failed [of "Inr ()" s1] dispatched [of t s1] False \<open>get_task _ _ _ = _\<close> t a st
        by (cases busy) (simp_all add: process_step_def)
    qed
  qed
qed

lemma process_step_Again:
  assumes "process_step ox f now force i s = Again j s'"
  shows "j = i \<and> (\<exists>v. the_task i s' = Some v \<and> t_status v = status_todo)"
proof (cases rule: process_step_cases [of ox f now force i s])
  case (dispatched t s1)
  then have d: "dispatch ox (\<lambda>k. f (k + 10)) now force t s1 = Again j s'" using assms by simp
  from dispatch_Again [OF d] move_task_Inr dispatched(3) show ?thesis by fastforce
qed (use assms in auto)

lemma todo_is_last_pass:
  assumes "the_task i s = Some v" and "t_status v = status_todo"
  shows "process_step ox f now force i s \<noteq> Again j s'"
proof (cases rule: process_step_cases [of ox f now force i s])
  case (dispatched t s1)
  then have "t_status t \<noteq> status_depends_on_task"
    using assms by (simp add: task_status_defs)
  then show ?thesis using dispatched dispatch_Again [of ox _ now force t s1 j s'] by auto
qed auto

lemma process_task_passes:
  "process_task ox f now force i s =
     (case process_step ox f now force i s of
        Finished r s' \<Rightarrow> Some (r, s')
      | Again j s' \<Rightarrow>
          (case process_step ox (\<lambda>k. f (k + 20)) now force i s' of
             Finished r s' \<Rightarrow> Some (r, s') | Again _ _ \<Rightarrow> None))"
proof (cases "process_step ox f now force i s")
  case (Finished r s')
  then show ?thesis by (subst process_task.simps) simp
next
  case (Again j s1)
  from process_step_Again [OF Again] obtain v
    where v: "j = i" "the_task i s1 = Some v" "t_status v = status_todo" by blast
  from todo_is_last_pass [OF v(2,3)] obtain r s2
    where "process_step ox (\<lambda>k. f (k + 20)) now force i s1 = Finished r s2"
    by (cases "process_step ox (\<lambda>k. f (k + 20)) now force i s1") auto
  then show ?thesis using Again v(1)
    by (subst process_task.simps, simp, subst process_task.simps, simp)
qed

text \<open>
  C37: processing a task always ends: whatever statements fail, at most one more pass follows
  the first, because a dependent task that became ready is queued before it is looked at again.
\<close>

theorem processing_returns:
  "\<exists>r s'. process_task ox f now force i s = Some (r, s') \<and>
     (process_step ox f now force i s = Finished r s' \<or>
      (\<exists>s1. process_step ox f now force i s = Again i s1 \<and>
             process_step ox (\<lambda>k. f (k + 20)) now force i s1 = Finished r s'))"
proof (cases "process_step ox f now force i s")
  case (Again j s1)
  from process_step_Again [OF Again] todo_is_last_pass obtain r s2
    where "j = i" "process_step ox (\<lambda>k. f (k + 20)) now force i s1 = Finished r s2"
    by (cases "process_step ox (\<lambda>k. f (k + 20)) now force i s1") auto
  then show ?thesis using Again by (subst process_task_passes) simp
qed (simp add: process_task_passes)

section \<open>When work starts\<close>

lemma blocking_iff:
  "fst (can_start_task i d) \<longleftrightarrow>
     (\<forall>r \<in> set (rows (relations d)). tr_source r = i \<longrightarrow> tr_kind r = depends_on \<longrightarrow>
        (\<forall>u. tbl_get t_id (tr_target r) (tasks d) = Some u \<longrightarrow> t_status u = status_done))"
proof -
  have "fst (can_start_task i d) \<longleftrightarrow> set (list_blocking_dependencies i d) = {}"
    by (simp add: can_start_task_def Let_def)
  then show ?thesis unfolding set_blocking dep_edges_def by blast
qed

definition same_statuses :: "task_db \<Rightarrow> task_db \<Rightarrow> bool" where
  "same_statuses d e \<longleftrightarrow> relations e = relations d \<and>
     (\<forall>i. map_option t_status (tbl_get t_id i (tasks e)) = map_option t_status (tbl_get t_id i (tasks d)))"

lemma same_statuses_start:
  assumes "same_statuses d e"
  shows "fst (can_start_task i e) = fst (can_start_task i d)"
proof -
  have "(\<forall>u. tbl_get t_id j (tasks e) = Some u \<longrightarrow> t_status u = x) \<longleftrightarrow>
        (\<forall>u. tbl_get t_id j (tasks d) = Some u \<longrightarrow> t_status u = x)" for j x
    using assms unfolding same_statuses_def
    by (cases "tbl_get t_id j (tasks e)"; cases "tbl_get t_id j (tasks d)") (auto dest: spec [of _ j])
  then show ?thesis using assms by (simp add: blocking_iff same_statuses_def)
qed

lemma log_run_tasks [simp]: "task_store (e_db (snd (log_run flt now i c st s))) = task_store (e_db s)"
  by (auto simp: log_run_def update_run_log_def with_run_def update_run_log_write_def update_run_def
      Let_def split: sum.splits prod.splits)

lemma same_statuses_unlock: "same_statuses d (snd (unlock_task_run b i d))"
  by (auto simp: same_statuses_def unlock_task_run_def task_rows.get_update option.map_comp comp_def
      intro!: option.map_cong)

lemma resolve_same_statuses:
  "same_statuses (task_store (e_db s)) (task_store (e_db (resolve_stale_run f now i s)))"
  using same_statuses_unlock
  by (auto simp: resolve_stale_run_def ignoring_def same_statuses_def split: sum.splits)

lemma already_running_same:
  "already_running f now t s = (Inr False, s') \<Longrightarrow>
   same_statuses (task_store (e_db s)) (task_store (e_db s')) \<and>
   (case t_run t of None \<Rightarrow> True | Some h \<Rightarrow> is_run_stale now (5 * minute) h (e_db s))"
  using resolve_same_statuses
  by (auto simp: already_running_def same_statuses_def split: option.splits if_splits)

definition started_properly ::
  "bool \<Rightarrow> task \<Rightarrow> bool \<Rightarrow> engine_error + unit \<Rightarrow> engine \<Rightarrow> engine \<Rightarrow> bool" where
  "started_properly force t ready r s s' \<longleftrightarrow> r = Inr () \<and>
     (\<exists>t' mode. e_started s' = e_started s @ [Root_Run t' mode] \<and> t_id t' = t_id t \<and>
        (if t_status t = status_refinement then mode = Plan
         else mode = Implement \<and> t_status t' = status_in_progress \<and>
              (t_status t = status_in_progress \<or> ready)) \<and>
        map_option t_status (the_task (t_id t) s') =
          Some (if t_status t = status_refinement then status_refinement else status_in_progress) \<and>
        (t_status t \<in> {status_in_review, status_blocked, status_done} \<longrightarrow> force))"

lemma launch_after_move:
  assumes "and_then (move_task ox f now t status_in_progress []) (launch_root Implement) s = (r, s')"
    and "e_started s' \<noteq> e_started s"
  shows "r = Inr () \<and> e_started s' = e_started s @ [Root_Run (t\<lparr>t_status := status_in_progress\<rparr>) Implement] \<and>
         map_option t_status (the_task (t_id t) s') = Some status_in_progress"
proof -
  obtain u s1 where m: "move_task ox f now t status_in_progress [] s = (Inr u, s1)"
      and l: "launch_root Implement u s1 = (r, s')"
    using assms move_task_frame by (fastforce simp: and_then_def split: prod.splits sum.splits)
  from move_task_Inr [OF m] move_task_frame [OF m] l show ?thesis
    by (auto simp: launch_root_def)
qed

lemma blocked_never_launches:
  assumes "and_then m (\<lambda>t. blocked_answer force (g t) bs) s = (r, s')"
    and "\<And>x y. m s = (x, y) \<Longrightarrow> e_started y = e_started s"
  shows "e_started s' = e_started s"
  using assms by (auto simp: and_then_def blocked_answer_def split: prod.splits sum.splits if_splits)

lemma check_start_eq:
  "check_start fault i s =
     (if fault then (Inl Store_Failed, s) else (Inr (can_start_task i (task_store (e_db s))), s))"
  by (simp add: check_start_def)

lemma start_queued_starts:
  assumes "start_queued_task ox f now t force s = (r, s')" and "e_started s' \<noteq> e_started s"
  shows "fst (can_start_task (t_id t) (task_store (e_db s))) \<and> r = Inr () \<and>
         e_started s' = e_started s @ [Root_Run (t\<lparr>t_status := status_in_progress\<rparr>) Implement] \<and>
         map_option t_status (the_task (t_id t) s') = Some status_in_progress"
proof -
  obtain ready bs where c: "can_start_task (t_id t) (task_store (e_db s)) = (ready, bs)" by fastforce
  have f: "\<not> f 0 0"
    using assms by (auto simp: start_queued_task_def and_then_cases [of "check_start _ _"] check_start_eq)
  have eq: "start_queued_task ox f now t force s =
      (if \<not> ready
       then and_then (move_task ox (\<lambda>k. f (k + 1)) now t status_depends_on_task (map t_id bs))
              (\<lambda>t. blocked_answer force (t_id t) (map t_id bs)) s
       else and_then (move_task ox (\<lambda>k. f (k + 1)) now t status_in_progress [])
              (launch_root Implement) s)"
    by (simp add: start_queued_task_def and_then_cases [of "check_start _ _"] check_start_eq c f)
  have ready
    using assms unfolding eq
    by (auto dest!: blocked_never_launches dest: move_task_frame split: if_splits)
  then show ?thesis
    using assms launch_after_move [of ox "\<lambda>k. f (k + 1)" now t s r s'] unfolding eq c by simp
qed

lemma rerun_finished_starts:
  assumes "rerun_finished_task ox f now t force s = (r, s')" and "e_started s' \<noteq> e_started s"
  shows "force \<and> fst (can_start_task (t_id t) (task_store (e_db s))) \<and> r = Inr () \<and>
         e_started s' = e_started s @ [Root_Run (t\<lparr>t_status := status_in_progress\<rparr>) Implement] \<and>
         map_option t_status (the_task (t_id t) s') = Some status_in_progress"
proof -
  obtain ready bs where c: "can_start_task (t_id t) (task_store (e_db s)) = (ready, bs)" by fastforce
  have force using assms by (cases force) (auto simp: rerun_finished_task_def)
  have f: "\<not> f 0 0"
    using assms \<open>force\<close>
    by (auto simp: rerun_finished_task_def and_then_cases [of "check_start _ _"] check_start_eq)
  let ?m = "if t_status t \<noteq> status_depends_on_task
      then move_task ox (\<lambda>k. f (k + 1)) now t status_depends_on_task (map t_id bs) else give t"
  have eq: "rerun_finished_task ox f now t force s =
      (if \<not> ready then and_then ?m (\<lambda>t. blocked_answer force (t_id t) (map t_id bs)) s
       else and_then (move_task ox (\<lambda>k. f (k + 1)) now t status_in_progress []) (launch_root Implement) s)"
    by (simp add: rerun_finished_task_def and_then_cases [of "check_start _ _"] check_start_eq c f \<open>force\<close>)
  have "e_started y = e_started s" if "?m s = (x, y)" for x y
    using that by (auto split: if_splits dest: move_task_frame)
  then have ready
    using assms unfolding eq by (auto dest!: blocked_never_launches split: if_splits)
  then show ?thesis
    using assms launch_after_move [of ox "\<lambda>k. f (k + 1)" now t s r s'] \<open>force\<close> unfolding eq c by simp
qed

lemma dispatch_starts:
  assumes "dispatch ox f now force t s = Finished r s'" and "e_started s' \<noteq> e_started s"
    and "map_option t_status (the_task (t_id t) s) = Some (t_status t)"
  shows "started_properly force t (fst (can_start_task (t_id t) (task_store (e_db s)))) r s s'"
proof -
  consider (q) "t_status t = status_todo" "start_queued_task ox f now t force s = (r, s')"
    | (p) "t_status t = status_refinement" "launch_root Plan t s = (r, s')"
    | (i) "t_status t = status_in_progress" "launch_root Implement t s = (r, s')"
    | (f) "t_status t \<in> {status_in_review, status_blocked, status_done}"
        "rerun_finished_task ox f now t force s = (r, s')"
    using assms
    by (auto simp: dispatch_def finished_def check_start_def blocked_answer_def
        dest!: move_task_frame split: if_splits prod.splits sum.splits)
  then show ?thesis
  proof cases
    case q
    from start_queued_starts [OF q(2) assms(2)] q(1) show ?thesis
      by (auto simp: started_properly_def task_status_defs)
  next
    case f
    from rerun_finished_starts [OF f(2) assms(2)] f(1) show ?thesis
      by (auto simp: started_properly_def task_status_defs)
  qed (use assms(2,3) in \<open>auto simp: launch_root_def started_properly_def task_status_defs\<close>)
qed

text \<open>
  C6: processing a task starts work on it only while the engine is not draining and no live run
  holds it; a task that is neither in progress already nor in refinement has every hard dependency
  done; the row stored afterwards is in progress (in refinement it stays, and is planned), a task
  leaves review, blocked or done only on an explicit re-run, and exactly one goroutine is started.
\<close>

theorem work_starts_only_when_allowed:
  assumes "process_task ox f now force i s = Some (r, s')" and "e_started s' \<noteq> e_started s"
  shows "\<not> e_draining s \<and>
         (\<exists>t. the_task i s = Some t \<and>
            (case t_run t of None \<Rightarrow> True | Some h \<Rightarrow> is_run_stale now (5 * minute) h (e_db s)) \<and>
            started_properly force t (fst (can_start_task i (task_store (e_db s)))) r s s')"
proof (cases rule: process_step_cases [of ox f now force i s])
  case (dispatched t s1)
  note a = already_running_same [OF dispatched(4)]
  have st: "e_started s1 = e_started s" using already_running_frame dispatched(4) by blast
  have ready: "fst (can_start_task i (task_store (e_db s1))) = fst (can_start_task i (task_store (e_db s)))"
    using a same_statuses_start by blast
  have row: "map_option t_status (the_task (t_id t) s1) = Some (t_status t)"
    using a dispatched(2,3) by (auto simp: same_statuses_def)
  show ?thesis
  proof (cases "process_step ox f now force i s")
    case (Finished r1 s2)
    then have "dispatch ox (\<lambda>k. f (k + 10)) now force t s1 = Finished r s'"
      using dispatched(5) assms(1) by (simp add: process_task_passes)
    then have "started_properly force t (fst (can_start_task (t_id t) (task_store (e_db s1)))) r s1 s'"
      using dispatch_starts row st assms(2) by (metis (no_types))
    then have "started_properly force t (fst (can_start_task i (task_store (e_db s)))) r s s'"
      using ready dispatched(3) st by (simp only: started_properly_def)
    then show ?thesis using a dispatched(1,2) by blast
  next
    case (Again j s2)
    then have d: "dispatch ox (\<lambda>k. f (k + 10)) now force t s1 = Again j s2" using dispatched(5) by simp
    from dispatch_Again [OF d] dispatched(3)
    have t: "t_status t = status_depends_on_task" "fst (can_start_task i (task_store (e_db s1)))"
        "e_started s2 = e_started s1"
      by (auto dest: move_task_frame)
    from process_step_Again [OF Again] obtain v
      where v: "the_task i s2 = Some v" "t_status v = status_todo" by blast
    show ?thesis
    proof (cases rule: process_step_cases [of ox "\<lambda>k. f (k + 20)" now force i s2])
      case (dispatched u s3)
      have u: "t_status u = status_todo" "t_id u = i" using v dispatched(2,3) by simp_all
      have "process_step ox (\<lambda>k. f (k + 20)) now force i s2 = Finished r s'"
        using Again assms(1) by (auto simp: process_task_passes split: pass.splits)
      then have f: "dispatch ox (\<lambda>k. f (k + 10 + 20)) now force u s3 = Finished r s'"
        using dispatched(5) by simp
      have "e_started s3 = e_started s2" using already_running_frame dispatched(4) by blast
      moreover have "map_option t_status (the_task (t_id u) s3) = Some (t_status u)"
        using already_running_same [OF dispatched(4)] dispatched(2,3) by (auto simp: same_statuses_def)
      ultimately have "r = Inr () \<and> (\<exists>t'. e_started s' = e_started s @ [Root_Run t' Implement] \<and> t_id t' = i \<and>
          t_status t' = status_in_progress) \<and> map_option t_status (the_task i s') = Some status_in_progress"
        using dispatch_starts [OF f] t(3) st assms(2) u
        by (auto simp: started_properly_def task_status_defs)
      then show ?thesis
        using t(1,2) ready a \<open>\<not> e_draining s\<close> \<open>the_task i s = Some t\<close> \<open>t_id t = i\<close>
        by (auto simp: started_properly_def task_status_defs)
    qed (use assms Again t(3) st in \<open>auto simp: process_task_passes split: pass.splits\<close>)
  qed
qed (use assms in \<open>auto simp: process_task_passes\<close>)

definition demo_outside :: outside where
  "demo_outside = \<lparr>ox_json = (\<lambda>_. ''{}''), ox_log_times = (\<lambda>_. None), 
     ox_decoder = \<lparr>ld_entry = (\<lambda>l. Some (''message'', ''3'', l)), ld_text = Some,
       ld_message = (\<lambda>l. Some (plain_message role_user l))\<rparr>,
     ox_file = (\<lambda>_. Some ([''go''], False)),
     ox_model_error = (\<lambda>_. ''no model''), ox_store_error = ''database'', ox_port = [],
     ox_owner = ''pid-1-1'', ox_base = ''/data'', ox_copy = (\<lambda>_ _. True)\<rparr>"

definition demo_agent :: agent_row where
  "demo_agent = \<lparr>ar_id = 7, ar_company = 1, ar_name = ''Ann'', ar_builtin = False, ar_enabled = True,
     ar_role_key = ''coder'', ar_can_use_workers = False, ar_provider = None, ar_group = None, ar_model = []\<rparr>"

definition engine_on :: "run list \<Rightarrow> task list \<Rightarrow> task_relation list \<Rightarrow> engine" where
  "engine_on rs ts rels =
     \<lparr>e_db = \<lparr>runs = \<lparr>rows = rs, next_key = 100\<rparr>, run_events = empty_table,
        task_store = \<lparr>tasks = \<lparr>rows = ts, next_key = 100\<rparr>,
          companies = \<lparr>rows = [\<lparr>co_id = 1, co_short = ''DEC'', co_team = None, co_user = Some 1\<rparr>], next_key = 2\<rparr>,
          relations = \<lparr>rows = rels, next_key = 100\<rparr>\<rparr>,
        status_reports = empty_table\<rparr>,
      e_comments = empty_table, e_models = demo_models,
      e_agents = \<lparr>rows = [demo_agent], next_key = 8\<rparr>, e_cancels = {}, e_cancelled = {}, e_sidecars = {},
      e_draining = False, e_started = [], e_sent = []\<rparr>"

definition work_task :: "id \<Rightarrow> string \<Rightarrow> task" where
  "work_task i st = (demo_task i None ''DEC-1'')\<lparr>t_status := st, t_agent := Some 7\<rparr>"

definition no_fault :: "nat \<Rightarrow> faults" where "no_fault = (\<lambda>_. no_faults)"

definition two_tasks :: "string \<Rightarrow> engine" where
  "two_tasks st = engine_on [] [work_task 1 status_depends_on_task, work_task 2 st]
     [(demo_relation 1 2 depends_on)\<lparr>tr_id := 1\<rparr>]"

theorem work_starts_only_when_allowed_witness:
  "\<exists>s'. process_task demo_outside no_fault 9 False 1 (two_tasks status_done) = Some (Inr (), s') \<and>
        e_started s' \<noteq> [] \<and> fst (can_start_task 1 (task_store (e_db (two_tasks status_done))))"
proof -
  let ?s = "two_tasks status_done"
  have "map_option (\<lambda>(r, s'). (r, e_started s' = [])) (process_task demo_outside no_fault 9 False 1 ?s) =
      Some (Inr (), False)"
    by (subst process_task_passes) code_simp
  then obtain s' where p: "process_task demo_outside no_fault 9 False 1 ?s = Some (Inr (), s')"
      "e_started s' \<noteq> []"
    by auto
  moreover have "e_started ?s = []" by code_simp
  moreover have "the_task 1 ?s = Some (work_task 1 status_depends_on_task)" by code_simp
  moreover have "t_status (work_task 1 status_depends_on_task) = status_depends_on_task" by code_simp
  ultimately have "fst (can_start_task 1 (task_store (e_db ?s)))"
    using work_starts_only_when_allowed [OF p(1)]
    by (auto simp: started_properly_def task_status_defs)
  with p show ?thesis by blast
qed

text \<open>
  Re-running a task whose run went stale reports success and leaves it stuck: the run's lock is
  cleared, and then restored by the save of the row that was read before; the goroutine that is
  started finds the task taken and returns, with a new orchestrator row that nobody runs.
\<close>

definition stale_lock_engine :: engine where
  "stale_lock_engine = engine_on [(new_run 1 7 kind_agent_session [] None None st_running 0)\<lparr>rn_id := 5\<rparr>]
     [(work_task 1 status_blocked)\<lparr>t_run := Some 5\<rparr>] []"

lemma stale_lock_is_restored:
  "map_option (\<lambda>(r, s).
       (r, map_option t_run (the_task 1 s), length (e_started s),
        let s' = run_root demo_outside no_fault (10 * minute) (work_task 1 status_in_progress) Implement s
        in (length (e_started s'), map_option t_status (the_task 1 s'), map_option t_run (the_task 1 s'),
            map_option t_orchestrator_run (the_task 1 s'), map_option rn_status (the_run 5 s'),
            map_option rn_status (the_run 100 s'))))
     (rerun_task demo_outside no_fault (10 * minute) 1 stale_lock_engine) =
   Some (Inr (), Some (Some 5), 1,
     (1, Some status_in_progress, Some (Some 5), Some (Some 100), Some st_failed, Some st_running))"
  unfolding rerun_task_def by (subst process_task_passes) code_simp

section \<open>The orchestrator owns the task\<close>

lemma on_runs_Inr:
  "on_runs op s = (Inr x, s') \<longleftrightarrow> (\<exists>d. op (e_db s) = (Inr x, d) \<and> s' = s\<lparr>e_db := d\<rparr>)"
  by (auto simp: on_runs_def split: prod.splits)

lemma on_tasks_Inr:
  "on_tasks op s = (Inr x, s') \<longleftrightarrow>
     (\<exists>d. op (task_store (e_db s)) = (Inr x, d) \<and> s' = s\<lparr>e_db := (e_db s)\<lparr>task_store := d\<rparr>\<rparr>)"
  by (auto simp: on_tasks_def on_runs_def split: prod.splits)

lemma on_runs_result:
  "on_runs op s = (r, s') \<Longrightarrow> e_started s' = e_started s \<and> e_sidecars s' = e_sidecars s \<and>
     e_db s' = snd (op (e_db s))"
  by (auto simp: on_runs_def split: prod.splits)

lemma on_tasks_result:
  "on_tasks op s = (r, s') \<Longrightarrow> e_started s' = e_started s \<and> e_sidecars s' = e_sidecars s \<and>
     task_store (e_db s') = snd (op (task_store (e_db s))) \<and> runs (e_db s') = runs (e_db s)"
  by (auto simp: on_tasks_def on_runs_def split: prod.splits)

lemma on_comments_frame [simp]:
  "e_started (snd (on_comments op s)) = e_started s" "e_sidecars (snd (on_comments op s)) = e_sidecars s"
  "e_db (snd (on_comments op s)) = e_db s"
  by (simp_all add: on_comments_def split: prod.splits)

lemma log_run_frame [simp]:
  "e_started (snd (log_run flt now i c st s)) = e_started s"
  "e_sidecars (snd (log_run flt now i c st s)) = e_sidecars s"
  "e_comments (snd (log_run flt now i c st s)) = e_comments s"
  by (simp_all add: log_run_def)

lemma ignoring_frame [simp]:
  "e_started (ignoring (on_runs op) s) = e_started s" "e_sidecars (ignoring (on_runs op) s) = e_sidecars s"
  "e_started (ignoring (on_tasks oq) s) = e_started s" "e_sidecars (ignoring (on_tasks oq) s) = e_sidecars s"
  "e_started (ignoring (on_comments oc) s) = e_started s"
  "e_sidecars (ignoring (on_comments oc) s) = e_sidecars s"
  "e_db (ignoring (on_comments oc) s) = e_db s"
  "e_started (ignoring (log_run flt now i c st) s) = e_started s"
  "e_sidecars (ignoring (log_run flt now i c st) s) = e_sidecars s"
  "task_store (e_db (ignoring (log_run flt now i c st) s)) = task_store (e_db s)"
  "task_store (e_db (ignoring (on_tasks oq) s)) = snd (oq (task_store (e_db s)))"
  by (simp_all add: ignoring_def)

lemma set_orchestrator_get:
  "tbl_get t_id j (tasks (snd (set_task_orchestrator_run b i r d))) =
     map_option (\<lambda>t. if j = i \<and> \<not> b then t\<lparr>t_orchestrator_run := Some r\<rparr> else t) (tbl_get t_id j (tasks d))"
  by (cases "tbl_get t_id j (tasks d)")
    (auto simp: set_task_orchestrator_run_def task_rows.get_update dest: task_rows.get_Some_D)

lemma create_run_tasks:
  "on_runs (create_run b r) s = (x, s') \<Longrightarrow> task_store (e_db s') = task_store (e_db s) \<and>
     e_started s' = e_started s \<and> e_sidecars s' = e_sidecars s \<and>
     (\<forall>c. x = Inr c \<longrightarrow> rn_id c = next_key (runs (e_db s)))"
  by (auto simp: on_runs_def create_run_def tbl_create_def Let_def split: if_splits)

lemma set_run_root_tasks:
  "on_runs (set_run_root_id b i r) s = (x, s') \<Longrightarrow> task_store (e_db s') = task_store (e_db s)"
  by (auto simp: on_runs_def set_run_root_id_def run_update_def update_run_def split: if_splits)

lemma report_missing_model_blocks:
  "e_started (report_missing_model ox f now t a e s) = e_started s \<and>
   e_sidecars (report_missing_model ox f now t a e s) = e_sidecars s \<and>
   (the_task (t_id t) s \<noteq> None \<longrightarrow> \<not> f 3 0 \<longrightarrow> \<not> f 4 1 \<longrightarrow>
      (\<exists>v. the_task (t_id t) (report_missing_model ox f now t a e s) = Some v \<and> t_status v = status_blocked))"
proof -
  define msg where "msg = ''ORCHESTRATOR_MODEL_REQUIRED: '' @ ox_model_error ox e"
  define row where "row = (new_run (t_id t) (ar_id a) kind_task_orchestrator [] None None st_failed now)
      \<lparr>rn_ended := Some now, rn_result_explanation := msg\<rparr>"
  define s1 where "s1 = (case on_runs (create_run (f 0 0) row) s of
      (Inl _, s) \<Rightarrow> s
    | (Inr c, s) \<Rightarrow>
        ignoring (on_tasks (set_task_orchestrator_run (f 2 0) (t_id t) (rn_id c)))
          (ignoring (log_run (f 1) now (rn_id c) msg st_failed) s))"
  define s2 where "s2 = (case read_task (f 3 0) (t_id t) s1 of
      (Inl _, s) \<Rightarrow> s
    | (Inr current, s) \<Rightarrow>
        ignoring (on_tasks (update_task (f 4) now (current\<lparr>t_status := status_blocked\<rparr>))) s)"
  have r: "report_missing_model ox f now t a e s = ignoring (on_comments (create_comment (f 5 0) now
      (new_comment (t_id t) ''system'' ''orchestrator_preflight_failed'' msg None))) s2"
    unfolding report_missing_model_def s2_def s1_def row_def msg_def Let_def by simp
  have 1: "e_started s1 = e_started s \<and> e_sidecars s1 = e_sidecars s \<and>
      (the_task (t_id t) s \<noteq> None \<longrightarrow> the_task (t_id t) s1 \<noteq> None)"
    unfolding s1_def
    by (auto simp: set_orchestrator_get dest!: create_run_tasks dest: on_runs_result split: prod.splits sum.splits)
  have 2: "e_started s2 = e_started s1 \<and> e_sidecars s2 = e_sidecars s1"
    unfolding s2_def by (auto split: sum.splits)
  have "\<exists>v. the_task (t_id t) s2 = Some v \<and> t_status v = status_blocked"
    if u: "the_task (t_id t) s1 = Some u" and f: "\<not> f 3 0" "\<not> f 4 1" for u
  proof -
    obtain v d where v: "update_task (f 4) now (u\<lparr>t_status := status_blocked\<rparr>) (task_store (e_db s1)) = (Inr v, d)"
      using f(2) by (simp add: update_task_def Let_def)
    have "t_id u = t_id t" using u by (rule task_id)
    moreover have "task_store (e_db s2) = d"
      using u f(1) v by (simp add: s2_def get_task_def)
    ultimately show ?thesis using update_task_get [OF v, of "t_id t"] by simp
  qed
  with 1 2 show ?thesis unfolding r by auto
qed

lemma create_task_orchestrator_some:
  assumes "create_task_orchestrator ox f now t a s = (Some (r, target, fresh), s')"
  shows "e_started s' = e_started s \<and> required_model ox (f 0) (t_company t) s = Inr target \<and>
         (fresh \<longrightarrow> rn_id r = next_key (runs (e_db s)) \<and>
            (\<forall>j. tbl_get t_id j (e_tasks s') = map_option
               (\<lambda>t'. if j = t_id t then t'\<lparr>t_orchestrator_run := Some (rn_id r)\<rparr> else t') (the_task j s)))"
proof -
  have m: "required_model ox (f 0) (t_company t) s = Inr target"
    using assms by (auto simp: create_task_orchestrator_def split: sum.splits option.splits prod.splits)
  show ?thesis
  proof (cases "live_orchestrator (f 10 0) (t_id t) s")
    case (Some x)
    then show ?thesis using assms m by (simp add: create_task_orchestrator_def)
  next
    case None
    obtain s1 s2 u where steps: "on_runs (create_run (f 11 0)
          ((new_run (t_id t) (ar_id a) kind_task_orchestrator ''Task orchestration'' None
             None st_running now)\<lparr>rn_name := t_ref_key t @ ''-orchestrator''\<rparr>)) s = (Inr r, s1)"
        "on_runs (set_run_root_id (f 12 0) (rn_id r) (rn_id r)) s1 = (Inr u, s2)"
        "on_tasks (set_task_orchestrator_run (f 13 0) (t_id t) (rn_id r)) s2 = (Inr (), s')"
      using assms None m
      by (auto simp: create_task_orchestrator_def split: sum.splits prod.splits)
    have "\<not> f 13 0" using steps(3) by (auto simp: on_tasks_Inr set_task_orchestrator_run_def split: if_splits)
    then show ?thesis
      using m create_run_tasks [OF steps(1)] set_run_root_tasks [OF steps(2)] on_tasks_result [OF steps(3)]
        on_runs_result [OF steps(2)]
      by (auto simp: set_orchestrator_get intro!: option.map_cong0)
  qed
qed

lemma claim_get:
  assumes "on_tasks (claim_task_run b i r) s = (Inr True, s')" and "wf_table t_id (e_tasks s)"
    and "the_task i s = Some u"
  shows "t_run u = None \<and> the_task i s' = Some (u\<lparr>t_run := Some r\<rparr>)"
proof -
  have "tbl_affected (\<lambda>x. t_id x = i \<and> t_run x = None) (e_tasks s) = 1"
    and s': "e_tasks s' = tbl_update (\<lambda>x. t_id x = i \<and> t_run x = None) (\<lambda>x. x\<lparr>t_run := Some r\<rparr>) (e_tasks s)"
    using assms(1) by (auto simp: on_tasks_Inr claim_task_run_def split: if_splits)
  then have "t_run u = None"
    using assms(2,3) by (auto simp: task_rows.affected_by_key split: if_splits)
  then show ?thesis using assms(3) task_id [OF assms(3)] by (simp add: s' task_rows.get_update)
qed

lemma create_task_orchestrator_wf:
  assumes "create_task_orchestrator ox f now t a s = (Some (r, target, True), s')"
    and "wf_table t_id (e_tasks s)"
  shows "wf_table t_id (e_tasks s')"
proof -
  obtain s1 s2 u where steps: "on_runs (create_run (f 11 0)
        ((new_run (t_id t) (ar_id a) kind_task_orchestrator ''Task orchestration'' None
           None st_running now)\<lparr>rn_name := t_ref_key t @ ''-orchestrator''\<rparr>)) s = (Inr r, s1)"
      "on_runs (set_run_root_id (f 12 0) (rn_id r) (rn_id r)) s1 = (Inr u, s2)"
      "on_tasks (set_task_orchestrator_run (f 13 0) (t_id t) (rn_id r)) s2 = (Inr (), s')"
    using assms(1)
    by (auto simp: create_task_orchestrator_def split: sum.splits prod.splits option.splits)
  have "task_store (e_db s2) = task_store (e_db s)"
    using create_run_tasks [OF steps(1)] set_run_root_tasks [OF steps(2)] by simp
  then show ?thesis
    using on_tasks_result [OF steps(3)] assms(2)
    by (auto simp: set_task_orchestrator_run_def intro!: task_rows.wf_update)
qed

lemma create_task_orchestrator_started:
  "create_task_orchestrator ox f now t a s = (x, s') \<Longrightarrow> e_started s' = e_started s"
  by (auto simp: create_task_orchestrator_def report_missing_model_blocks
      dest!: on_runs_result on_tasks_result split: sum.splits prod.splits option.splits)

text \<open>
  a task is worked on by its orchestrator alone: with an enabled agent assigned, the root
  goroutine never starts the agent's own session; it starts a sidecar only for a new row that
  has just claimed the free task and is stored as the task's orchestrator; and where no
  orchestrator model is configured it starts nothing and leaves the task blocked.
\<close>

theorem orchestrator_claims_before_it_starts:
  assumes "t_agent t = Some a" and "tbl_get ar_id a (e_agents s) = Some agent" and "ar_enabled agent"
    and "\<not> f 0 0" and "wf_table t_id (e_tasks s)" and "the_task (t_id t) s = Some u"
    and s': "s' = run_root ox f now t mode s"
  shows "(e_started s' = e_started s \<or>
          (\<exists>r target. e_started s' = e_started s @ [Sidecar r t target] \<and>
             required_model ox (f 1) (t_company t) s = Inr target \<and>
             rn_id r = next_key (runs (e_db s)) \<and> t_run u = None \<and>
             (\<exists>v. the_task (t_id t) s' = Some v \<and> t_run v = Some (rn_id r) \<and>
                  t_orchestrator_run v = Some (rn_id r)))) \<and>
         (\<forall>e. required_model ox (f 1) (t_company t) s = Inl e \<longrightarrow> \<not> f 5 0 \<longrightarrow> \<not> f 6 1 \<longrightarrow>
            e_started s' = e_started s \<and>
            (\<exists>v. the_task (t_id t) s' = Some v \<and> t_status v = status_blocked))"
proof -
  let ?c = "create_task_orchestrator ox (\<lambda>k. f (k + 1)) now t agent s"
  have run: "s' = (case ?c of
      (None, s) \<Rightarrow> s
    | (Some (r, target, fresh), s) \<Rightarrow>
        (case on_tasks (claim_task_run (f 20 0) (t_id t) (rn_id r)) s of
           (Inl _, s) \<Rightarrow> ignoring (log_run (f 21) now (rn_id r) (ox_store_error ox) st_failed) s
         | (Inr False, s) \<Rightarrow> s
         | (Inr True, s) \<Rightarrow> if fresh then start_task_orchestrator r t target s else s))"
    using assms(1-4) by (simp add: s' run_root_def fetch_def)
  show ?thesis
  proof (cases "required_model ox (f 1) (t_company t) s")
    case (Inl e)
    then have "s' = report_missing_model ox (\<lambda>k. f (k + 2)) now t agent e s"
      unfolding run by (simp add: create_task_orchestrator_def)
    with report_missing_model_blocks [of ox "\<lambda>k. f (k + 2)" now t agent e s] assms(6) show ?thesis
      by (simp add: Inl eval_nat_numeral)
  next
    case (Inr target)
    obtain x s1 where c: "?c = (x, s1)" by fastforce
    have st1: "e_started s1 = e_started s" using c by (rule create_task_orchestrator_started)
    have "e_started s' = e_started s \<or>
        (\<exists>r target. e_started s' = e_started s @ [Sidecar r t target] \<and>
             required_model ox (f 1) (t_company t) s = Inr target \<and>
             rn_id r = next_key (runs (e_db s)) \<and> t_run u = None \<and>
             (\<exists>v. the_task (t_id t) s' = Some v \<and> t_run v = Some (rn_id r) \<and>
                  t_orchestrator_run v = Some (rn_id r)))"
    proof (cases "\<exists>r tg. x = Some (r, tg, True) \<and>
        (\<exists>s2. on_tasks (claim_task_run (f 20 0) (t_id t) (rn_id r)) s1 = (Inr True, s2))")
      case False
      then show ?thesis
        unfolding run c using st1
        by (auto dest: on_tasks_result split: option.splits prod.splits sum.splits bool.splits)
    next
      case True
      then obtain r tg s2 where x: "x = Some (r, tg, True)"
        and claim: "on_tasks (claim_task_run (f 20 0) (t_id t) (rn_id r)) s1 = (Inr True, s2)" by blast
      note some = create_task_orchestrator_some [OF c [unfolded x]]
      have u1: "the_task (t_id t) s1 = Some (u\<lparr>t_orchestrator_run := Some (rn_id r)\<rparr>)"
        using some assms(6) by simp
      have "wf_table t_id (e_tasks s1)"
        using create_task_orchestrator_wf [OF c [unfolded x] assms(5)] .
      note got = claim_get [OF claim this u1]
      have "s' = start_task_orchestrator r t tg s2" unfolding run c x by (simp add: claim)
      then show ?thesis
        using got some on_tasks_result [OF claim] st1 by (auto simp: started_iff_free)
    qed
    with Inr show ?thesis by simp
  qed
qed

definition free_engine :: engine where
  "free_engine = engine_on [] [work_task 1 status_in_progress] []"

theorem orchestrator_claims_before_it_starts_witness:
  "\<exists>s' r target. s' = run_root demo_outside no_fault 9 (work_task 1 status_in_progress) Implement free_engine \<and>
     e_started s' = [Sidecar r (work_task 1 status_in_progress) target] \<and> rn_id r = 100 \<and>
     map_option t_run (the_task 1 s') = Some (Some 100)"
proof -
  let ?t = "work_task 1 status_in_progress"
  let ?s' = "run_root demo_outside no_fault 9 ?t Implement free_engine"
  have hyps: "t_agent ?t = Some 7" "tbl_get ar_id 7 (e_agents free_engine) = Some demo_agent"
      "ar_enabled demo_agent" "\<not> no_fault 0 0" "wf_table t_id (e_tasks free_engine)"
      "the_task (t_id ?t) free_engine = Some ?t"
    by code_simp+
  have "t_id ?t = 1" "next_key (runs (e_db free_engine)) = 100" "e_started free_engine = []"
      "e_started ?s' \<noteq> []"
    by code_simp+
  with orchestrator_claims_before_it_starts [of ?t 7 free_engine demo_agent no_fault ?t ?s' demo_outside 9
      Implement, OF hyps refl] show ?thesis
    by auto
qed

text \<open>
  A second root goroutine of a task another run holds leaves an orchestrator row behind that
  is marked running and is the task's orchestrator, though no loop serves it.
\<close>

lemma unclaimed_orchestrator_is_orphaned:
  "let s = engine_on [] [(work_task 1 status_in_progress)\<lparr>t_run := Some 42\<rparr>] [];
       s' = run_root demo_outside no_fault 9 (work_task 1 status_in_progress) Implement s
   in e_started s' = [] \<and> map_option rn_status (the_run 100 s') = Some st_running \<and>
      map_option t_orchestrator_run (the_task 1 s') = Some (Some 100) \<and>
      map_option t_run (the_task 1 s') = Some (Some 42)"
  by code_simp

section \<open>The staleness check\<close>

text \<open>
  The second pass cannot find a row with a recent heartbeat, whoever owns it: it asks for the
  same silence as the first, on a clock read a moment later.
\<close>

lemma unowned_silent_is_silent:
  assumes "r \<in> set (unowned_silent s (later - threshold)
             (get_stale_running_runs now threshold (e_db s)) (get_running_runs (e_db s)))"
  shows "quiet_since (later - threshold) r \<and>
         (wf_table rn_id (runs (e_db s)) \<longrightarrow> \<not> quiet_since (now - threshold) r)"
proof -
  have r: "r \<in> set (rows (runs (e_db s)))" "rn_status r = st_running" "quiet_since (later - threshold) r"
      "rn_id r \<notin> rn_id ` set (get_stale_running_runs now threshold (e_db s))"
    using assms by (auto simp: unowned_silent_def get_running_runs_def)
  then have "\<not> quiet_since (now - threshold) r" by (force simp: get_stale_running_runs_def)
  with r show ?thesis by simp
qed

end
