(* ===== verification/Watchdog.thy ===== *)
theory Watchdog
  imports Task_Control
begin

text \<open>
  The liveness monitor (\<open>engine/native_engine.go\<close>): silent runs are retired, and the
  orchestrators of executable tasks are told of failed, stale or silent sessions.  The
  staleness check itself is defined in \<open>Task_Control\<close>.
\<close>

definition orchestrator_heartbeat_interval :: duration where
  "orchestrator_heartbeat_interval = minute"
definition orchestrator_history_silence :: duration where
  "orchestrator_history_silence = 10 * minute"
definition orchestrator_stale_grace :: duration where
  "orchestrator_stale_grace = minute"

section \<open>When something was last heard\<close>

definition orchestrator_history_at :: "outside \<Rightarrow> run \<Rightarrow> instant" where
  "orchestrator_history_at ox r =
     (let latest =
        (if trim_space (rn_log_entries r) = [] then zero_time
         else case ox_log_times ox (rn_log_entries r) of
                None \<Rightarrow> zero_time | Some ts \<Rightarrow> fold max ts zero_time)
      in if latest \<noteq> zero_time then latest
         else if rn_started r \<noteq> zero_time then rn_started r
         else case rn_last_message r of Some m \<Rightarrow> m | None \<Rightarrow> zero_time)"

definition run_stale_at :: "outside \<Rightarrow> run \<Rightarrow> instant" where
  "run_stale_at ox r = (case rn_ended r of Some e \<Rightarrow> e | None \<Rightarrow> orchestrator_history_at ox r)"

definition run_has_lifecycle_event_since :: "run \<Rightarrow> run_event list \<Rightarrow> instant \<Rightarrow> bool" where
  "run_has_lifecycle_event_since r pending since \<longleftrightarrow>
     list_ex (\<lambda>e. ev_type e = type_run_status \<and> ev_run e = rn_id r \<and>
                  (since = zero_time \<or> \<not> ev_created e < since)) pending"

definition has_run_lifecycle_event_since :: "bool \<Rightarrow> id \<Rightarrow> instant \<Rightarrow> engine \<Rightarrow> bool" where
  "has_run_lifecycle_event_since fault i since s \<longleftrightarrow>
     since \<noteq> zero_time \<and> \<not> fault \<and> has_recent_run_event i type_run_status since (e_events s)"

section \<open>The event\<close>

fun spaced :: "id list \<Rightarrow> string" where
  "spaced [] = []"
| "spaced [i] = dec_int i"
| "spaced (i # j # js) = dec_int i @ '' '' @ spaced (j # js)"

definition show_ids :: "id list \<Rightarrow> string" where
  "show_ids ids = ''['' @ spaced ids @ '']''"

definition watchdog_message :: "string \<Rightarrow> id list \<Rightarrow> string" where
  "watchdog_message reason ids =
     (if reason = ''orchestrator_failed''
      then ''The orchestrator session failed; retry the orchestration model and reconcile the worker tree.''
      else if reason = ''failed_worker''
      then ''A managed worker failed (run '' @ show_ids ids @
           ''); inspect the worker tree and recover or replace it.''
      else if reason = ''stale_worker_event_missing''
      then ''Managed worker run '' @ show_ids ids @
           '' is stale and no lifecycle event reached the orchestrator; inspect it and recover or replace it.''
      else if reason = ''all_sessions_stale''
      then ''All managed sess are stale (runs '' @ show_ids ids @ ''); reconcile the worker tree.''
      else if reason = ''orchestrator_history_silent''
      then ''No orchestrator history was produced for over ten minutes; verify every worker/session and continue only with a justified action.''
      else ''A managed session needs reconciliation; inspect the worker tree before taking action.'')"

definition unwell :: "run \<Rightarrow> bool" where
  "unwell r \<longleftrightarrow> rn_status r \<in> {st_stale, st_failed, st_recoverable_failed}"

definition watchdog_dedupe_timestamp :: "outside \<Rightarrow> run \<Rightarrow> run list \<Rightarrow> string \<Rightarrow> int" where
  "watchdog_dedupe_timestamp ox r sess reason =
     (if reason = ''orchestrator_history_silent'' then orchestrator_history_at ox r
      else case List.find unwell sess of Some x \<Rightarrow> run_stale_at ox x | None \<Rightarrow> rn_id r)"

section \<open>The cause\<close>

text \<open>What the loop over the sessions collects; the source 0 and the empty reason are unset.\<close>

record finding =
  fd_reason :: string
  fd_source :: id
  fd_runs :: "id list"
  fd_grace :: bool

definition blame :: "string \<Rightarrow> id \<Rightarrow> finding \<Rightarrow> finding" where
  "blame reason i d =
     d\<lparr>fd_reason := (if fd_reason d = [] then reason else fd_reason d),
       fd_source := (if fd_source d = 0 then i else fd_source d), fd_runs := fd_runs d @ [i]\<rparr>"

definition scan_session ::
  "outside \<Rightarrow> bool \<Rightarrow> id list \<Rightarrow> instant \<Rightarrow> run_event list \<Rightarrow> engine \<Rightarrow> run \<Rightarrow> finding \<Rightarrow> finding" where
  "scan_session ox fault stale now pending s x d =
     (if rn_status x \<in> {st_failed, st_recoverable_failed} then blame ''failed_worker'' (rn_id x) d
      else if rn_id x \<in> set stale \<or> rn_status x = st_stale
      then (let since = run_stale_at ox x
            in if since \<noteq> zero_time \<and> now - since < orchestrator_stale_grace then d\<lparr>fd_grace := True\<rparr>
               else if run_has_lifecycle_event_since x pending since \<or>
                       has_run_lifecycle_event_since fault (rn_id x) since s then d
               else blame ''stale_worker_event_missing'' (rn_id x) d)
      else d)"

definition needs_restart :: "run \<Rightarrow> bool" where
  "needs_restart r \<longleftrightarrow> rn_status r \<in> {st_failed, st_stale}"

definition watchdog_cause ::
  "outside \<Rightarrow> bool \<Rightarrow> id list \<Rightarrow> instant \<Rightarrow> run_event list \<Rightarrow> run list \<Rightarrow> engine \<Rightarrow> run \<Rightarrow> finding" where
  "watchdog_cause ox fault stale now pending sess s r =
     (let d = fold (scan_session ox fault stale now pending s) sess
                (if needs_restart r
                 then \<lparr>fd_reason = ''orchestrator_failed'', fd_source = rn_id r, fd_runs = [], fd_grace = False\<rparr>
                 else \<lparr>fd_reason = [], fd_source = 0, fd_runs = [], fd_grace = False\<rparr>);
          d = (if fd_reason d = [] \<and> \<not> fd_grace d \<and>
                  orchestrator_history_at ox r + orchestrator_history_silence < now \<and> length pending = 0
               then d\<lparr>fd_reason := ''orchestrator_history_silent''\<rparr> else d)
      in if fd_source d = 0 then d\<lparr>fd_source := rn_id r\<rparr> else d)"

section \<open>Waking\<close>

definition watchdog_event :: "outside \<Rightarrow> task \<Rightarrow> run \<Rightarrow> run list \<Rightarrow> finding \<Rightarrow> run_event" where
  "watchdog_event ox t r sess d =
     (let self = (fd_source d = rn_id r)
      in \<lparr>ev_id = 0, ev_task = t_id t, ev_run = fd_source d,
          ev_source = (if self then None else Some (fd_source d)),
          ev_target = (if self then None else Some (rn_id r)), ev_reply = None, ev_type = type_run_status,
          ev_payload = ox_json ox [(''kind'', JStr ''watchdog_recovery''), (''task_id'', JInt (t_id t)),
            (''reason'', JStr (fd_reason d)), (''stale_run_ids'', JInts (fd_runs d)),
            (''message'', JStr (watchdog_message (fd_reason d) (fd_runs d)))],
          ev_dedupe = ''watchdog:'' @ dec_int (rn_id r) @ '':'' @ fd_reason d @ '':'' @
            dec_int (watchdog_dedupe_timestamp ox r sess (fd_reason d)),
          ev_created = 0, ev_consumed = None\<rparr>)"

definition restart_orchestrator ::
  "outside \<Rightarrow> (nat \<Rightarrow> faults) \<Rightarrow> instant \<Rightarrow> task \<Rightarrow> run \<Rightarrow> unit act" where
  "restart_orchestrator ox f now t r s =
     (if rn_status r = st_waiting then on_runs (set_run_active (f 0) now (rn_id r)) s
      else if needs_restart r
      then (case required_model ox (f 1) (t_company t) s of
              Inl _ \<Rightarrow> (Inr (), s)
            | Inr (p, m) \<Rightarrow>
                if m = [] then (Inr (), s)
                else and_then (on_runs (set_run_active (f 0) now (rn_id r)))
                       (\<lambda>_ s. (Inr (), start_task_orchestrator r t (p, m) s)) s)
      else (Inr (), s))"

definition wake_one ::
  "outside \<Rightarrow> (nat \<Rightarrow> faults) \<Rightarrow> id list \<Rightarrow> instant \<Rightarrow> run \<Rightarrow> unit act" where
  "wake_one ox f stale now r s =
     (case get_task (f 0 0) (rn_task r) (task_store (e_db s)) of
        Inl _ \<Rightarrow> (Inr (), s)
      | Inr t \<Rightarrow>
          if t_status t \<noteq> status_in_progress \<or> human_input_pending (f 1 0) (t_id t) s then (Inr (), s)
          else if f 2 0 \<or> f 3 0 then (Inl Store_Failed, s)
          else (let sess = list_orchestrator_sessions (rn_id r) (e_db s);
                    pending = list_pending_run_events (t_id t) (e_events s);
                    d = watchdog_cause ox (f 4 0) stale now pending sess s r
                in if fd_reason d = [] then (Inr (), s)
                   else and_then (on_events (enqueue_run_event_returning (f 5) now
                                    (watchdog_event ox t r sess d)))
                          (\<lambda>_. restart_orchestrator ox (\<lambda>k. f (k + 6)) now t r) s))"

fun wake_loop ::
  "outside \<Rightarrow> (nat \<Rightarrow> nat \<Rightarrow> faults) \<Rightarrow> id list \<Rightarrow> instant \<Rightarrow> run list \<Rightarrow> unit act" where
  "wake_loop ox g stale now [] s = (Inr (), s)"
| "wake_loop ox g stale now (r # rs) s =
     and_then (wake_one ox (g 0) stale now r) (\<lambda>_. wake_loop ox (\<lambda>n. g (Suc n)) stale now rs) s"

definition wake_stalled_orchestrators_at ::
  "outside \<Rightarrow> bool \<Rightarrow> (nat \<Rightarrow> nat \<Rightarrow> faults) \<Rightarrow> id list \<Rightarrow> instant \<Rightarrow> unit act" where
  "wake_stalled_orchestrators_at ox fault g stale now s =
     (if fault then (Inl Store_Failed, s)
      else wake_loop ox g stale now (list_watchdog_orchestrators (e_db s)) s)"

text \<open>One tick of the monitor's loop.\<close>

definition monitor_tick ::
  "outside \<Rightarrow> (nat \<Rightarrow> faults) \<Rightarrow> (nat \<Rightarrow> nat \<Rightarrow> faults) \<Rightarrow> (nat \<Rightarrow> nat \<Rightarrow> faults) \<Rightarrow> instant \<Rightarrow> instant \<Rightarrow> duration \<Rightarrow>
   engine \<Rightarrow> engine" where
  "monitor_tick ox f g h now later stale_after s =
     (case check_stale_runs f g now later (if stale_after \<le> 0 then 2 * minute else stale_after) s of
        ((Some _, _), s) \<Rightarrow> s
      | ((None, stale), s) \<Rightarrow> ignoring (wake_stalled_orchestrators_at ox (f 2 0) h stale later) s)"

text \<open>A tick of the heartbeat of a sidecar.\<close>

definition heartbeat_tick :: "(nat \<Rightarrow> faults) \<Rightarrow> instant \<Rightarrow> id \<Rightarrow> id \<Rightarrow> engine \<Rightarrow> engine" where
  "heartbeat_tick f now i run s =
     (case get_task (f 0 0) i (task_store (e_db s)) of
        Inl _ \<Rightarrow> s
      | Inr t \<Rightarrow> if t_status t = status_in_progress
                 then ignoring (on_runs (touch_run_last_message_time (f 1 0) now run)) s else s)"

section \<open>Retirement\<close>

lemma mark_run_stale_get:
  assumes "on_runs (mark_run_stale flt now i reason) s = (x, s')" and wf: "wf_table rn_id (runs (e_db s))"
  shows "task_store (e_db s') = task_store (e_db s) \<and> wf_table rn_id (runs (e_db s')) \<and>
         (if x = Inr True
          then \<exists>r r'. the_run i s = Some r \<and> rn_status r = st_running \<and> the_run i s' = Some r' \<and>
                 rn_status r' = st_stale \<and> (\<forall>j. j \<noteq> i \<longrightarrow> the_run j s' = the_run j s)
          else s' = s)"
proof -
  let ?f = "\<lambda>r x. x\<lparr>rn_status := st_stale, rn_ended := Some now, rn_recovery := (rn_recovery r)\<lparr>rc_reason := reason\<rparr>\<rparr>"
  show ?thesis
  proof (cases "\<exists>r. \<not> flt 0 \<and> \<not> flt 1 \<and> the_run i s = Some r \<and> rn_status r = st_running")
    case False
    then have "x \<noteq> Inr True" "s' = s"
      using assms(1)
      by (auto simp: on_runs_def mark_run_stale_def with_run_def get_run_def mark_run_stale_write_def
          split: if_splits option.splits dest: run_rows.get_Some_D)
    then show ?thesis using wf by simp
  next
    case True
    then obtain r where r: "\<not> flt 0" "\<not> flt 1" "the_run i s = Some r" "rn_status r = st_running" "rn_id r = i"
      by (auto dest: run_rows.get_Some_D)
    have "affected_if i (\<lambda>st. st = st_running) (e_db s) = 1"
      using r wf by (simp add: affected_if_def run_rows.affected_by_key)
    then have s': "x = Inr True" "e_db s' = update_run_if i (\<lambda>st. st = st_running) (?f r) (e_db s)"
      using assms(1) r
      by (auto simp: on_runs_def mark_run_stale_def with_run_def get_run_def mark_run_stale_write_def)
    have "the_run j s' = map_option (\<lambda>x. if rn_id x = i \<and> rn_status x = st_running then ?f r x else x)
        (the_run j s)" for j
      unfolding s'(2) update_run_if_def by (simp add: run_rows.get_update)
    moreover have "rn_id x = j" if "the_run j s = Some x" for j x
      using that by (auto dest: run_rows.get_Some_D)
    moreover have "the_run j s' = the_run j s" if "j \<noteq> i" for j
      using calculation that by (cases "the_run j s") auto
    moreover have "wf_table rn_id (runs (e_db s'))"
      unfolding s'(2) update_run_if_def by (simp add: run_rows.wf_update wf)
    moreover have "task_store (e_db s') = task_store (e_db s)"
      unfolding s'(2) update_run_if_def by simp
    ultimately show ?thesis using r s'(1) by simp
  qed
qed

lemma retire_silent_spec:
  assumes "retire_silent g now rs stale s = ((e, out), s')" and "wf_table rn_id (runs (e_db s))"
  shows "\<exists>new. out = stale @ new \<and> task_store (e_db s') = task_store (e_db s) \<and>
           (\<forall>i \<in> set new. \<exists>r \<in> set rs. rn_id r = i \<and> (rn_kind r = kind_task_orchestrator \<longrightarrow>
              (\<exists>t. the_task (rn_task r) s = Some t \<and> t_status t = status_in_progress))) \<and>
           (\<forall>i. if i \<in> set new
                then \<exists>r r'. the_run i s = Some r \<and> rn_status r = st_running \<and>
                       the_run i s' = Some r' \<and> rn_status r' = st_stale
                else the_run i s' = the_run i s)"
  using assms
proof (induction rs arbitrary: g stale s)
  case (Cons r rs)
  let ?skip = "rn_kind r = kind_task_orchestrator \<and>
      (case get_task (g 0 0 0) (rn_task r) (task_store (e_db s)) of
         Inl _ \<Rightarrow> True | Inr t \<Rightarrow> t_status t \<noteq> status_in_progress)"
  show ?case
  proof (cases ?skip)
    case True
    then have "retire_silent (\<lambda>n. g (Suc n)) now rs stale s = ((e, out), s')" using Cons.prems(1) by simp
    from Cons.IH [OF this Cons.prems(2)] show ?thesis by (metis list.set_intros(2))
  next
    case False
    obtain x s1 where m: "on_runs (mark_run_stale (g 0 1) now (rn_id r) ''session stopped heartbeating'') s = (x, s1)"
      by fastforce
    note mk = mark_run_stale_get [OF m Cons.prems(2)]
    show ?thesis
    proof (cases x)
      case (Inl err)
      then have "out = stale" "s' = s1" using Cons.prems(1) False m by auto
      then show ?thesis using mk Inl by (intro exI [of _ "[]"]) simp
    next
      case (Inr b)
      show ?thesis
      proof (cases b)
        case False
        then have s1: "s1 = s" using mk Inr by simp
        have "retire_silent (\<lambda>n. g (Suc n)) now rs stale s = ((e, out), s')"
          using Cons.prems(1) \<open>\<not> ?skip\<close> m Inr False s1 by simp
        from Cons.IH [OF this Cons.prems(2)] show ?thesis by (metis list.set_intros(2))
      next
        case True
        let ?s = "broadcast_for_task (g 0 2 0) (rn_task r) (Run_Ended (rn_id r) st_stale) s1"
        have go: "retire_silent (\<lambda>n. g (Suc n)) now rs (stale @ [rn_id r]) ?s = ((e, out), s')"
          using Cons.prems(1) \<open>\<not> ?skip\<close> m Inr True by simp
        have "wf_table rn_id (runs (e_db ?s))" using mk by simp
        from Cons.IH [OF go this, unfolded broadcast_frame] obtain new
          where new: "out = (stale @ [rn_id r]) @ new" "task_store (e_db s') = task_store (e_db s1)"
            "\<forall>i \<in> set new. \<exists>r \<in> set rs. rn_id r = i \<and> (rn_kind r = kind_task_orchestrator \<longrightarrow>
              (\<exists>t. the_task (rn_task r) s1 = Some t \<and> t_status t = status_in_progress))"
            "\<forall>i. if i \<in> set new
                then \<exists>r r'. the_run i s1 = Some r \<and> rn_status r = st_running \<and>
                       the_run i s' = Some r' \<and> rn_status r' = st_stale
                else the_run i s' = the_run i s1"
          by blast
        have kind: "rn_kind r = kind_task_orchestrator \<longrightarrow>
            (\<exists>t. the_task (rn_task r) s = Some t \<and> t_status t = status_in_progress)"
          using \<open>\<not> ?skip\<close> by (auto simp: get_task_def split: option.splits if_splits)
        obtain r0 r1 where r01: "the_run (rn_id r) s = Some r0" "rn_status r0 = st_running"
            "the_run (rn_id r) s1 = Some r1" "rn_status r1 = st_stale"
            "\<forall>j. j \<noteq> rn_id r \<longrightarrow> the_run j s1 = the_run j s" "task_store (e_db s1) = task_store (e_db s)"
          using mk Inr True by auto
        have fresh: "rn_id r \<notin> set new"
          using new(4) r01(3,4) by (auto simp: status_defs dest!: spec [of _ "rn_id r"])
        have all: "if i \<in> set (rn_id r # new)
            then \<exists>r r'. the_run i s = Some r \<and> rn_status r = st_running \<and>
                   the_run i s' = Some r' \<and> rn_status r' = st_stale
            else the_run i s' = the_run i s" for i
        proof (cases "i = rn_id r")
          case True
          then have "the_run i s' = the_run i s1" using fresh new(4) by simp
          then show ?thesis using r01 True by simp
        next
          case False
          then have "the_run i s1 = the_run i s" using r01(5) by simp
          then show ?thesis using new(4) [rule_format, of i] False by (auto split: if_splits)
        qed
        have kinds: "\<forall>i \<in> set (rn_id r # new). \<exists>x \<in> set (r # rs). rn_id x = i \<and>
            (rn_kind x = kind_task_orchestrator \<longrightarrow>
               (\<exists>t. the_task (rn_task x) s = Some t \<and> t_status t = status_in_progress))"
          using new(3) r01(6) kind by (metis list.set_intros set_ConsD)
        show ?thesis
        proof (intro exI conjI)
          show "out = stale @ (rn_id r # new)" using new(1) by simp
          show "task_store (e_db s') = task_store (e_db s)" using new(2) r01(6) by simp
        qed (rule kinds, rule allI, rule all)
      qed
    qed
  qed
qed auto

text \<open>
  the staleness check retires only running rows that have been silent for the threshold,
  an orchestrator's only while its task is in progress; what it reports is what it retired,
  and it changes no other run and no task.
\<close>

theorem only_silent_runs_are_retired:
  assumes "check_stale_runs f g now later threshold s = ((err, stale), s')"
    and wf: "wf_table rn_id (runs (e_db s))" and "now \<le> later"
  shows "(\<forall>i \<in> set stale. \<exists>r r'. the_run i s = Some r \<and> rn_status r = st_running \<and>
            quiet_since (later - threshold) r \<and>
            (rn_kind r = kind_task_orchestrator \<longrightarrow>
               (\<exists>t. the_task (rn_task r) s = Some t \<and> t_status t = status_in_progress)) \<and>
            the_run i s' = Some r' \<and> rn_status r' = st_stale) \<and>
         (\<forall>i. i \<notin> set stale \<longrightarrow> the_run i s' = the_run i s) \<and>
         task_store (e_db s') = task_store (e_db s)"
proof (cases "f 0 0 \<or> f 1 0")
  case True
  then show ?thesis using assms(1) by (auto simp: check_stale_runs_def)
next
  case False
  let ?found = "get_stale_running_runs now threshold (e_db s)"
  let ?rs = "?found @ unowned_silent s (later - threshold) ?found (get_running_runs (e_db s))"
  have "retire_silent g later ?rs [] s = ((err, stale), s')"
    using assms(1) False by (simp add: check_stale_runs_def Let_def)
  from retire_silent_spec [OF this wf, unfolded append_Nil]
  have new: "task_store (e_db s') = task_store (e_db s)"
    "\<forall>i \<in> set stale. \<exists>r \<in> set ?rs. rn_id r = i \<and> (rn_kind r = kind_task_orchestrator \<longrightarrow>
       (\<exists>t. the_task (rn_task r) s = Some t \<and> t_status t = status_in_progress))"
    "\<forall>i. if i \<in> set stale
         then \<exists>r r'. the_run i s = Some r \<and> rn_status r = st_running \<and>
                the_run i s' = Some r' \<and> rn_status r' = st_stale
         else the_run i s' = the_run i s"
    by blast+
  have mono: "quiet_since (now - threshold) r \<Longrightarrow> quiet_since (later - threshold) r" for r
    using assms(3) by (auto simp: quiet_since_def split: option.splits)
  have listed: "the_run (rn_id r) s = Some r \<and> rn_status r = st_running \<and> quiet_since (later - threshold) r"
    if "r \<in> set ?rs" for r
    using that mono run_rows.get_member [OF wf]
    by (auto simp: get_stale_running_runs_def unowned_silent_def get_running_runs_def)
  show ?thesis
  proof (intro conjI ballI allI impI)
    fix i assume i: "i \<in> set stale"
    with new(2) obtain r where "r \<in> set ?rs" "rn_id r = i" "rn_kind r = kind_task_orchestrator \<longrightarrow>
       (\<exists>t. the_task (rn_task r) s = Some t \<and> t_status t = status_in_progress)" by blast
    with listed [of r] new(3) [rule_format, of i] i
    show "\<exists>r r'. the_run i s = Some r \<and> rn_status r = st_running \<and> quiet_since (later - threshold) r \<and>
        (rn_kind r = kind_task_orchestrator \<longrightarrow>
           (\<exists>t. the_task (rn_task r) s = Some t \<and> t_status t = status_in_progress)) \<and>
        the_run i s' = Some r' \<and> rn_status r' = st_stale"
      by auto
  next
    fix i assume "i \<notin> set stale"
    with new(3) [rule_format, of i] show "the_run i s' = the_run i s" by simp
  qed (rule new(1))
qed

definition quiet_engine :: engine where
  "quiet_engine = engine_on
     [(new_run 1 7 kind_agent_session [] None None st_running 0)\<lparr>rn_id := 5\<rparr>,
      (new_run 1 7 kind_task_orchestrator [] None None st_running 0)\<lparr>rn_id := 6\<rparr>,
      (new_run 1 7 kind_agent_session [] (Some 6) (Some 6) st_failed 0)\<lparr>rn_id := 8\<rparr>]
     [(work_task 1 status_done)\<lparr>t_orchestrator_run := Some 6\<rparr>] []"

theorem only_silent_runs_are_retired_witness:
  "\<exists>s'. check_stale_runs no_fault (\<lambda>_. no_fault) (5 * minute) (5 * minute) minute quiet_engine =
          ((None, [5]), s') \<and> map_option rn_status (the_run 5 s') = Some st_stale \<and>
        the_run 6 s' = the_run 6 quiet_engine"
proof -
  obtain s' where c: "check_stale_runs no_fault (\<lambda>_. no_fault) (5 * minute) (5 * minute) minute quiet_engine =
      (fst (check_stale_runs no_fault (\<lambda>_. no_fault) (5 * minute) (5 * minute) minute quiet_engine), s')"
    by (metis prod.collapse)
  moreover have "fst (check_stale_runs no_fault (\<lambda>_. no_fault) (5 * minute) (5 * minute) minute quiet_engine) =
      (None, [5])"
    by code_simp
  ultimately have s': "check_stale_runs no_fault (\<lambda>_. no_fault) (5 * minute) (5 * minute) minute quiet_engine =
      ((None, [5]), s')" by simp
  have "wf_table rn_id (runs (e_db quiet_engine))" by code_simp
  from only_silent_runs_are_retired [OF s' this] s' show ?thesis by auto
qed

section \<open>The watchdog's gates\<close>

text \<open>What a waking cannot touch: tasks, comments, and what belongs to other tasks.\<close>

definition wakes_only :: "(id \<Rightarrow> bool) \<Rightarrow> engine \<Rightarrow> engine \<Rightarrow> bool" where
  "wakes_only p s s' \<longleftrightarrow> task_store (e_db s') = task_store (e_db s) \<and> e_comments s' = e_comments s \<and>
     (\<forall>i. \<not> p i \<longrightarrow> tbl_find (\<lambda>e. ev_task e = i) (e_events s') = tbl_find (\<lambda>e. ev_task e = i) (e_events s)) \<and>
     (\<exists>gs. e_started s' = e_started s @ gs \<and> (\<forall>g \<in> set gs. \<exists>r t m. g = Sidecar r t m \<and> p (t_id t)))"

lemma wakes_only_refl [simp]: "wakes_only p s s"
  by (simp add: wakes_only_def)

lemma wakes_only_trans: "wakes_only p s t \<Longrightarrow> wakes_only p t u \<Longrightarrow> wakes_only p s u"
  by (fastforce simp: wakes_only_def)

lemma enqueue_other_tasks:
  assumes "ev_task e \<noteq> i"
  shows "tbl_find (\<lambda>e. ev_task e = i) (snd (enqueue_run_event_returning flt now e t)) =
         tbl_find (\<lambda>e. ev_task e = i) t"
proof -
  have ins: "tbl_find (\<lambda>e. ev_task e = i) t' = tbl_find (\<lambda>e. ev_task e = i) t"
    if "insert_event b e' t = Some (x, t')" "ev_task e' = ev_task e" for b e' x t'
    using that assms by (auto simp: insert_event_def tbl_create_def tbl_find_def Let_def split: if_splits)
  show ?thesis
    by (auto simp: enqueue_run_event_returning_def Let_def ins split: option.splits if_splits)
qed

lemma wakes_only_event:
  assumes "on_events (enqueue_run_event_returning flt now e) s = (x, s')" and "p (ev_task e)"
  shows "wakes_only p s s'"
proof -
  have "e_events s' = snd (enqueue_run_event_returning flt now e (e_events s))"
    "task_store (e_db s') = task_store (e_db s)" "e_comments s' = e_comments s" "e_started s' = e_started s"
    using assms(1) by (auto simp: on_events_def on_runs_def split: prod.splits)
  moreover have "tbl_find (\<lambda>e. ev_task e = i) (snd (enqueue_run_event_returning flt now e (e_events s))) =
      tbl_find (\<lambda>e. ev_task e = i) (e_events s)" if "\<not> p i" for i
    using that assms(2) by (intro enqueue_other_tasks) auto
  ultimately show ?thesis by (simp add: wakes_only_def)
qed

lemma wakes_only_active:
  assumes "on_runs (set_run_active flt now i) s = (x, s')"
  shows "wakes_only p s s'"
proof -
  have "run_events (e_db s') = run_events (e_db s)" "task_store (e_db s') = task_store (e_db s)"
    "e_comments s' = e_comments s" "e_started s' = e_started s"
    using assms
    by (auto simp: on_runs_def set_run_active_def with_run_def set_run_active_write_def update_run_if_def
        split: prod.splits sum.splits if_splits)
  then show ?thesis by (simp add: wakes_only_def)
qed

lemma wakes_only_start: "p (t_id t) \<Longrightarrow> wakes_only p s (start_task_orchestrator r t m s)"
  by (auto simp: wakes_only_def started_iff_free)

lemma wakes_only_restart:
  assumes "p (t_id t)"
  shows "wakes_only p s (snd (restart_orchestrator ox f now t r s))"
  using assms
  using wakes_only_active [where p = p and s = s]
  by (auto simp: restart_orchestrator_def and_then_def prod_eq_iff
      intro: wakes_only_trans [OF _ wakes_only_start] split: sum.splits prod.splits)

definition gate_open :: "engine \<Rightarrow> id \<Rightarrow> bool" where
  "gate_open s i \<longleftrightarrow> (\<exists>t. the_task i s = Some t \<and> t_status t = status_in_progress) \<and>
     pending_in None (list_comments_by_task i (e_comments s)) = None"

lemma gate_open_same:
  "wakes_only p s s' \<Longrightarrow> gate_open s' = gate_open s"
  by (auto simp: wakes_only_def gate_open_def fun_eq_iff)

lemma wake_one_gated:
  "wakes_only (gate_open s) s (snd (wake_one ox f stale now r s)) \<or> f 1 0"
proof (cases "get_task (f 0 0) (rn_task r) (task_store (e_db s))")
  case (Inr t)
  then have t: "the_task (rn_task r) s = Some t" "t_id t = rn_task r" by (auto simp: get_task_Inr task_id)
  let ?sess = "list_orchestrator_sessions (rn_id r) (e_db s)"
  let ?d = "watchdog_cause ox (f 4 0) stale now (list_pending_run_events (t_id t) (e_events s)) ?sess s r"
  let ?e = "watchdog_event ox t r ?sess ?d"
  show ?thesis
  proof (cases "f 1 0 \<or> t_status t \<noteq> status_in_progress \<or> human_input_pending (f 1 0) (t_id t) s \<or>
      f 2 0 \<or> f 3 0 \<or> fd_reason ?d = []")
    case True
    then show ?thesis using Inr by (auto simp: wake_one_def Let_def)
  next
    case False
    then have gate: "gate_open s (t_id t)"
      using t by (auto simp: gate_open_def human_input_pending_def find_pending_human_question_def)
    have "ev_task ?e = t_id t" by (simp add: watchdog_event_def Let_def)
    then have ev: "wakes_only (gate_open s) s s1"
      if "on_events (enqueue_run_event_returning (f 5) now ?e) s = (x, s1)" for x s1
      using that gate by (metis wakes_only_event)
    have "wake_one ox f stale now r s = and_then (on_events (enqueue_run_event_returning (f 5) now ?e))
        (\<lambda>_. restart_orchestrator ox (\<lambda>k. f (k + 6)) now t r) s"
      using False Inr by (cases "f 1 0") (auto simp: wake_one_def Let_def)
    then show ?thesis
      using ev gate wakes_only_restart [of "gate_open s" t]
      by (auto simp: and_then_def intro: wakes_only_trans split: prod.splits sum.splits)
  qed
qed (simp add: wake_one_def)

lemma wake_loop_gated:
  assumes "\<And>n. \<not> g n 1 0"
  shows "wakes_only (gate_open s) s (snd (wake_loop ox g stale now rs s))"
  using assms
proof (induction rs arbitrary: g s)
  case (Cons r rs)
  obtain x s1 where w: "wake_one ox (g 0) stale now r s = (x, s1)" by fastforce
  have 1: "wakes_only (gate_open s) s s1" using wake_one_gated [of s ox "g 0" stale now r] Cons.prems w by simp
  have "wakes_only (gate_open s1) s1 (snd (wake_loop ox (\<lambda>n. g (Suc n)) stale now rs s1))"
    using Cons.prems by (intro Cons.IH) simp
  then show ?case
    using 1 w gate_open_same [OF 1] by (cases x) (auto simp: and_then_def intro: wakes_only_trans)
qed simp

text \<open>
  the watchdog acts only on tasks that are in progress and wait for no human: as long as
  the open question can be read it changes no task and no comment, leaves every event of
  the other tasks as it was, and starts sidecars of tasks behind an open gate alone.
\<close>

theorem watchdog_respects_gates:
  assumes "\<And>n. \<not> g n 1 0"
  shows "wakes_only (gate_open s) s (snd (wake_stalled_orchestrators_at ox fault g stale now s))"
  using wake_loop_gated [of g, OF assms] by (simp add: wake_stalled_orchestrators_at_def)

definition failed_worker_engine :: engine where
  "failed_worker_engine = engine_on (rows (runs (e_db quiet_engine)))
     [(work_task 1 status_in_progress)\<lparr>t_orchestrator_run := Some 6\<rparr>] []"

theorem watchdog_respects_gates_witness:
  "wakes_only (gate_open failed_worker_engine) failed_worker_engine
     (snd (wake_stalled_orchestrators_at demo_outside False (\<lambda>_. no_fault) [] (20 * minute)
        failed_worker_engine)) \<and>
   gate_open failed_worker_engine 1 \<and>
   map (\<lambda>e. (ev_task e, ev_run e, ev_target e))
     (rows (e_events (snd (wake_stalled_orchestrators_at demo_outside False (\<lambda>_. no_fault) []
        (20 * minute) failed_worker_engine)))) = [(1, 8, Some 6)]"
proof (intro conjI)
  show "wakes_only (gate_open failed_worker_engine) failed_worker_engine
     (snd (wake_stalled_orchestrators_at demo_outside False (\<lambda>_. no_fault) [] (20 * minute)
        failed_worker_engine))"
    by (rule watchdog_respects_gates) (simp add: no_fault_def)
  have "the_task 1 failed_worker_engine =
      Some ((work_task 1 status_in_progress)\<lparr>t_orchestrator_run := Some 6\<rparr>)"
      "list_comments_by_task 1 (e_comments failed_worker_engine) = []"
    by code_simp+
  then show "gate_open failed_worker_engine 1" by (simp add: gate_open_def work_task_def)
  show "map (\<lambda>e. (ev_task e, ev_run e, ev_target e))
     (rows (e_events (snd (wake_stalled_orchestrators_at demo_outside False (\<lambda>_. no_fault) []
        (20 * minute) failed_worker_engine)))) = [(1, 8, Some 6)]"
    by code_simp
qed

section \<open>Why the watchdog speaks\<close>

lemma scan_reason:
  assumes "fd_reason (scan_session ox b stale now pending s x d) \<noteq> fd_reason d"
  shows "fd_reason (scan_session ox b stale now pending s x d) = ''failed_worker'' \<and>
           rn_status x \<in> {st_failed, st_recoverable_failed} \<or>
         fd_reason (scan_session ox b stale now pending s x d) = ''stale_worker_event_missing'' \<and>
           (rn_id x \<in> set stale \<or> rn_status x = st_stale) \<and>
           (run_stale_at ox x = zero_time \<or> orchestrator_stale_grace \<le> now - run_stale_at ox x)"
proof (cases "rn_status x \<in> {st_failed, st_recoverable_failed}")
  case True
  then have "scan_session ox b stale now pending s x d = blame ''failed_worker'' (rn_id x) d"
    unfolding scan_session_def by (rule if_P)
  then show ?thesis using assms True by (simp add: blame_def split: if_splits)
next
  case False
  define since where "since = run_stale_at ox x"
  let ?told = "run_has_lifecycle_event_since x pending since \<or> has_run_lifecycle_event_since b (rn_id x) since s"
  have eq: "scan_session ox b stale now pending s x d =
      (if rn_id x \<in> set stale \<or> rn_status x = st_stale
       then if since \<noteq> zero_time \<and> now - since < orchestrator_stale_grace then d\<lparr>fd_grace := True\<rparr>
            else if ?told then d else blame ''stale_worker_event_missing'' (rn_id x) d
       else d)"
    unfolding scan_session_def since_def Let_def by (rule if_not_P [OF False])
  have "rn_id x \<in> set stale \<or> rn_status x = st_stale" "\<not> ?told"
      "\<not> (since \<noteq> zero_time \<and> now - since < orchestrator_stale_grace)"
    using assms unfolding eq by (auto split: if_splits)
  then show ?thesis
    using assms unfolding eq since_def [symmetric] by (auto simp: blame_def split: if_splits)
qed

definition cause_holds ::
  "outside \<Rightarrow> id list \<Rightarrow> instant \<Rightarrow> run_event list \<Rightarrow> run list \<Rightarrow> run \<Rightarrow> string \<Rightarrow> bool" where
  "cause_holds ox stale now pending sess r reason \<longleftrightarrow>
     (reason = ''orchestrator_failed'' \<and> needs_restart r) \<or>
     (reason = ''failed_worker'' \<and> (\<exists>x \<in> set sess. rn_status x \<in> {st_failed, st_recoverable_failed})) \<or>
     (reason = ''stale_worker_event_missing'' \<and>
        (\<exists>x \<in> set sess. (rn_id x \<in> set stale \<or> rn_status x = st_stale) \<and>
           (run_stale_at ox x = zero_time \<or> orchestrator_stale_grace \<le> now - run_stale_at ox x))) \<or>
     (reason = ''orchestrator_history_silent'' \<and> pending = [] \<and>
        orchestrator_history_at ox r + orchestrator_history_silence < now)"

lemma scan_fold_reason:
  "fd_reason (fold (scan_session ox b stale now pending s) xs d) \<noteq> fd_reason d \<Longrightarrow> set xs \<subseteq> set sess \<Longrightarrow>
   cause_holds ox stale now pending sess r (fd_reason (fold (scan_session ox b stale now pending s) xs d))"
proof (induction xs arbitrary: d)
  case (Cons x xs)
  let ?d = "scan_session ox b stale now pending s x d"
  show ?case
  proof (cases "fd_reason (fold (scan_session ox b stale now pending s) xs ?d) = fd_reason ?d")
    case True
    then have "fd_reason ?d \<noteq> fd_reason d" using Cons.prems(1) by simp
    from scan_reason [OF this] Cons.prems(2) True show ?thesis
      unfolding cause_holds_def fold_simps comp_apply by (elim disjE) (metis list.set_intros(1) subsetD)+
  qed (use Cons in simp)
qed simp

text \<open>
  an event of the watchdog names a cause that holds: the orchestrator failed or went stale,
  one of its workers failed, a worker is stale beyond the grace period, or, with nothing
  pending, the orchestrator has been silent beyond the limit.
\<close>

theorem watchdog_names_real_cause:
  assumes "fd_reason (watchdog_cause ox b stale now pending sess s r) \<noteq> []"
  shows "cause_holds ox stale now pending sess r (fd_reason (watchdog_cause ox b stale now pending sess s r))"
proof -
  define d0 where "d0 = (if needs_restart r
      then \<lparr>fd_reason = ''orchestrator_failed'', fd_source = rn_id r, fd_runs = [], fd_grace = False\<rparr>
      else \<lparr>fd_reason = [], fd_source = 0, fd_runs = [], fd_grace = False\<rparr>)"
  define d where "d = fold (scan_session ox b stale now pending s) sess d0"
  have eq: "fd_reason (watchdog_cause ox b stale now pending sess s r) =
      (if fd_reason d = [] \<and> \<not> fd_grace d \<and>
          orchestrator_history_at ox r + orchestrator_history_silence < now \<and> length pending = 0
       then ''orchestrator_history_silent'' else fd_reason d)"
    unfolding watchdog_cause_def Let_def d0_def [symmetric] d_def [symmetric] by simp
  show ?thesis
  proof (cases "fd_reason d = fd_reason d0")
    case True
    show ?thesis
    proof (cases "fd_reason d0 = []")
      case none: True
      then have "fd_reason (watchdog_cause ox b stale now pending sess s r) = ''orchestrator_history_silent''"
        "pending = []" "orchestrator_history_at ox r + orchestrator_history_silence < now"
        using assms True unfolding eq by (auto split: if_splits)
      then show ?thesis by (simp add: cause_holds_def)
    next
      case False
      then have "fd_reason d0 = ''orchestrator_failed''" "needs_restart r" by (auto simp: d0_def split: if_splits)
      then show ?thesis using True unfolding eq by (simp add: cause_holds_def)
    qed
  next
    case False
    then have "cause_holds ox stale now pending sess r (fd_reason d)"
      unfolding d_def by (rule scan_fold_reason) simp
    moreover from this have "fd_reason d \<noteq> []" by (auto simp: cause_holds_def)
    ultimately show ?thesis unfolding eq by simp
  qed
qed

theorem watchdog_names_real_cause_witness:
  "let sess = [(new_run 1 7 kind_agent_session [] None None st_failed 0)\<lparr>rn_id := 8\<rparr>];
       r = (new_run 1 7 kind_task_orchestrator [] None None st_waiting 0)\<lparr>rn_id := 6\<rparr>
   in fd_reason (watchdog_cause demo_outside False [] 9 [] sess failed_worker_engine r) = ''failed_worker'' \<and>
      cause_holds demo_outside [] 9 [] sess r ''failed_worker''"
proof -
  let ?sess = "[(new_run 1 7 kind_agent_session [] None None st_failed 0)\<lparr>rn_id := 8\<rparr>]"
  let ?r = "(new_run 1 7 kind_task_orchestrator [] None None st_waiting 0)\<lparr>rn_id := 6\<rparr>"
  have "fd_reason (watchdog_cause demo_outside False [] 9 [] ?sess failed_worker_engine ?r) = ''failed_worker''"
    by code_simp
  with watchdog_names_real_cause [of demo_outside False "[]" 9 "[]" ?sess failed_worker_engine ?r]
  show ?thesis by (simp add: Let_def)
qed

end
