(* ===== verification/Human_Gate.thy ===== *)
theory Human_Gate
  imports Watchdog
begin

text \<open>
  Questions to a human and the resumption of sessions (\<open>engine/native_engine.go\<close>:
  \<open>ResumeSession\<close>, \<open>ResumeEligibleSessions\<close>, \<open>askHuman\<close>, \<open>HandleHumanReply\<close>).  A question is
  posted by \<open>ask_human_post\<close>; each tick of its polling loop is \<open>ask_human_poll\<close>.
\<close>

section \<open>Resuming a session\<close>

definition cause_text :: "resume_cause \<Rightarrow> string" where
  "cause_text cause =
     (case cause of ResumeAfterUpdate \<Rightarrow> ''binary_update'' | ResumeAfterFailure \<Rightarrow> ''failed_recovery''
      | ResumeAfterStale \<Rightarrow> ''stale_recovery'' | ResumeAfterHuman \<Rightarrow> ''human_input'')"

record resume_options =
  ro_cause :: "resume_cause option"
  ro_initiator :: "id option"
  ro_reason :: string
  ro_target :: string

definition resume_initiator :: "run \<Rightarrow> resume_options \<Rightarrow> string" where
  "resume_initiator r opts =
     (case ro_initiator opts of
        Some u \<Rightarrow> ''user:'' @ dec_int u
      | None \<Rightarrow> if rc_initiator (rn_recovery r) = [] then ''system'' else rc_initiator (rn_recovery r))"

definition resumed_row :: "string \<Rightarrow> int \<Rightarrow> string \<Rightarrow> run \<Rightarrow> resume_options \<Rightarrow> run" where
  "resumed_row owner sequence cause r opts =
     set_recovery ((rn_recovery r)\<lparr>rc_sequence := sequence, rc_version := checkpoint_version,
       rc_lease_owner := owner, rc_previous_status := rn_status r,
       rc_reason := (if ro_reason opts = [] then cause else ro_reason opts),
       rc_initiator := resume_initiator r opts, rc_target := ro_target opts\<rparr>) r"

definition resume_session_start :: "task \<Rightarrow> run \<Rightarrow> session_start" where
  "resume_session_start t r = (plain_session t Resume_Mode (rn_parent r \<noteq> None))\<lparr>ss_run := Some r\<rparr>"

definition launch_resumed ::
  "outside \<Rightarrow> (nat \<Rightarrow> faults) \<Rightarrow> id \<Rightarrow> run \<Rightarrow> run \<Rightarrow> unit act" where
  "launch_resumed ox f i r row s =
     (let s = ignoring (on_runs (update_run_recovery_metadata (f 0) i (rc_reason (rn_recovery row))
                (rc_initiator (rn_recovery row)) (rc_target (rn_recovery row)))) s
      in case read_task (f 1 0) (rn_task row) s of
           (Inl e, s) \<Rightarrow>
             (Inl e, ignoring (on_runs (record_resume_error (f 2) i (ox_store_error ox) (rn_status r))) s)
         | (Inr t, s) \<Rightarrow> (Inr (), start (Session (resume_session_start t row)) s))"

definition resume_session ::
  "outside \<Rightarrow> (nat \<Rightarrow> faults) \<Rightarrow> instant \<Rightarrow> id \<Rightarrow> resume_options \<Rightarrow> unit act" where
  "resume_session ox f now i opts s =
     (case get_run (f 0 0) i (e_db s) of
        Inl e \<Rightarrow> (Inl (store_error e), s)
      | Inr r \<Rightarrow>
          if rc_version (rn_recovery r) \<noteq> 0 \<and> rc_version (rn_recovery r) \<noteq> checkpoint_version
          then (Inl (Bad_Checkpoint_Version (rc_version (rn_recovery r))), s)
          else (let cause = (case ro_cause opts of Some c \<Rightarrow> c | None \<Rightarrow> default_cause (rn_status r));
                    sequence = (if rc_sequence (rn_recovery r) \<le> 0 then log_cursor ox (rn_log_file r)
                                else Some (rc_sequence (rn_recovery r)))
                in case sequence of
                     None \<Rightarrow> (Inl History_Unreadable,
                              ignoring (on_runs (record_resume_error (f 1) i ''history'' (rn_status r))) s)
                   | Some n \<Rightarrow>
                       (case on_runs (claim_run_for_resume (f 2) now i (ox_owner ox) (cause_text cause)
                               (rn_status r) (now + 2 * minute) (allowed_states cause) n) s of
                          (Inl e, s) \<Rightarrow> (Inl e, s)
                        | (Inr claimed, s) \<Rightarrow>
                            if \<not> claimed then (Inl Not_Claimed, s)
                            else launch_resumed ox (\<lambda>k. f (k + 3)) i r
                                   (resumed_row (ox_owner ox) n (cause_text cause) r opts) s)))"

definition plain_options :: "resume_cause \<Rightarrow> string \<Rightarrow> resume_options" where
  "plain_options cause reason =
     \<lparr>ro_cause = Some cause, ro_initiator = None, ro_reason = reason, ro_target = []\<rparr>"

definition human_gated :: "run \<Rightarrow> bool" where
  "human_gated r \<longleftrightarrow> rc_reason (rn_recovery r) = cause_text ResumeAfterHuman"

fun resume_updated ::
  "outside \<Rightarrow> (nat \<Rightarrow> nat \<Rightarrow> faults) \<Rightarrow> instant \<Rightarrow> run list \<Rightarrow> engine \<Rightarrow> engine" where
  "resume_updated ox g now [] s = s"
| "resume_updated ox g now (r # rs) s =
     resume_updated ox (\<lambda>n. g (Suc n)) now rs
       (if human_gated r then s
        else ignoring (resume_session ox (g 0) now (rn_id r) (plain_options ResumeAfterUpdate [])) s)"

definition resume_eligible_sessions ::
  "outside \<Rightarrow> (nat \<Rightarrow> faults) \<Rightarrow> (nat \<Rightarrow> nat \<Rightarrow> faults) \<Rightarrow> instant \<Rightarrow> engine \<Rightarrow> engine" where
  "resume_eligible_sessions ox f g now s =
     (let s = ignoring (on_runs (reclaim_expired_resume_leases (f 0) now)) s
      in if f 1 0 then s
         else resume_updated ox g now (get_runs_by_recovery_states [st_paused] (e_db s)) s)"

section \<open>Asking\<close>

definition announce_question ::
  "outside \<Rightarrow> (nat \<Rightarrow> faults) \<Rightarrow> instant \<Rightarrow> id \<Rightarrow> id \<Rightarrow> comment \<Rightarrow> string \<Rightarrow> comment act" where
  "announce_question ox f now i run c question s =
     (case read_task (f 0 0) i s of
        (Inl _, s) \<Rightarrow> (Inr c, s)
      | (Inr t, s) \<Rightarrow>
          (case t_orchestrator_run t of
             None \<Rightarrow> (Inr c, s)
           | Some orch \<Rightarrow>
               and_then (on_events (enqueue_routed_event (f 1) now i run orch type_human_requested
                   (ox_json ox [(''task_id'', JInt i), (''run_id'', JInt run),
                      (''question_comment_id'', JInt (cm_id c)), (''question'', JStr question)])
                   (''human-question:'' @ dec_int (cm_id c))))
                 (\<lambda>_. give c) s))"

definition ask_human_post ::
  "outside \<Rightarrow> (nat \<Rightarrow> faults) \<Rightarrow> instant \<Rightarrow> id \<Rightarrow> id \<Rightarrow> string \<Rightarrow> comment act" where
  "ask_human_post ox f now i run question =
     and_then (on_comments (create_comment (f 0 0) now (new_comment i ''agent'' ''ask_user'' question (Some run))))
       (\<lambda>c s.
          let s = broadcast_for_task (f 1 0) i (Comment_Created c) s;
              s = broadcast_for_task (f 2 0) i (Human_Input_Requested i run question) s;
              s = ignoring (on_runs (set_run_wait_state_for_comment (f 3) run ''awaiting_human_input'' (cm_id c))) s;
              s = (case read_task (f 4 0) i s of
                     (Inl _, s) \<Rightarrow> s
                   | (Inr t, s) \<Rightarrow>
                       if t_status t = status_in_progress
                       then ignoring (move_task ox (\<lambda>k. f (k + 5)) now t status_blocked []) s else s)
          in announce_question ox (\<lambda>k. f (k + 7)) now i run c question s)"

section \<open>The reply\<close>

text \<open>The last question, and the last human comment after it.\<close>

fun question_and_answer :: "(comment \<times> comment option) option \<Rightarrow> comment list \<Rightarrow> (comment \<times> comment option) option"
where
  "question_and_answer qa [] = qa"
| "question_and_answer qa (c # cs) =
     question_and_answer
       (if asks_user c then Some (c, None)
        else case qa of
               None \<Rightarrow> None
             | Some (q, a) \<Rightarrow>
                 if cm_author_type c = ''human'' \<and> cm_id c > cm_id q then Some (q, Some c) else Some (q, a)) cs"

definition answered :: "id \<Rightarrow> comment_table \<Rightarrow> (comment \<times> comment) option" where
  "answered i t =
     (case question_and_answer None (list_comments_by_task i t) of
        Some (q, Some a) \<Rightarrow> Some (q, a) | _ \<Rightarrow> None)"

fun resume_gated ::
  "outside \<Rightarrow> (nat \<Rightarrow> nat \<Rightarrow> faults) \<Rightarrow> instant \<Rightarrow> id \<Rightarrow> run list \<Rightarrow> unit act" where
  "resume_gated ox g now i [] s = (Inr (), s)"
| "resume_gated ox g now i (r # rs) s =
     (if rn_task r \<noteq> i \<or> \<not> human_gated r then resume_gated ox (\<lambda>n. g (Suc n)) now i rs s
      else case resume_session ox (g 0) now (rn_id r)
                  (plain_options ResumeAfterHuman ''human input received'') s of
             (Inr _, s) \<Rightarrow> resume_gated ox (\<lambda>n. g (Suc n)) now i rs s
           | (Inl e, s) \<Rightarrow>
               (case get_run (g 0 20 0) (rn_id r) (e_db s) of
                  Inl _ \<Rightarrow> (Inl e, s)
                | Inr current \<Rightarrow>
                    if rn_status current = st_paused then (Inl e, s)
                    else resume_gated ox (\<lambda>n. g (Suc n)) now i rs s))"

definition unblock_task :: "outside \<Rightarrow> (nat \<Rightarrow> faults) \<Rightarrow> instant \<Rightarrow> task \<Rightarrow> task act" where
  "unblock_task ox f now t =
     (if t_status t \<noteq> status_blocked then give t
      else and_then (on_tasks (set_task_status_if (f 0 0) now (t_id t) status_blocked status_in_progress))
        (\<lambda>changed. and_then (read_task (f 1 0) (t_id t))
           (\<lambda>u s. (Inr u, if changed
                          then broadcast_task_status ox (f 2) now u (t_status t) (t_status u) [] s else s))))"

definition wake_asker :: "faults \<Rightarrow> instant \<Rightarrow> comment \<Rightarrow> unit act" where
  "wake_asker flt now q =
     (case cm_run q of None \<Rightarrow> give () | Some r \<Rightarrow> on_runs (set_run_running flt now r))"

definition answer_key :: "comment \<Rightarrow> comment \<Rightarrow> string" where
  "answer_key q a = ''human-answer:'' @ dec_int (cm_id q) @ '':'' @ dec_int (cm_id a)"

definition announce_answer ::
  "outside \<Rightarrow> faults \<Rightarrow> instant \<Rightarrow> id \<Rightarrow> task \<Rightarrow> comment \<Rightarrow> comment \<Rightarrow> unit act" where
  "announce_answer ox flt now i t q a s =
     (case t_orchestrator_run t of
        None \<Rightarrow> (Inr (), s)
      | Some orch \<Rightarrow>
          and_then (on_events (enqueue_routed_event flt now i (case cm_run q of None \<Rightarrow> 0 | Some r \<Rightarrow> r) orch
              type_human_answered
              (ox_json ox [(''task_id'', JInt i), (''question_comment_id'', JInt (cm_id q)),
                 (''answer_comment_id'', JInt (cm_id a)), (''answer'', JStr (cm_content a))])
              (answer_key q a)))
            (\<lambda>_. give ()) s)"

definition handle_human_reply ::
  "outside \<Rightarrow> (nat \<Rightarrow> faults) \<Rightarrow> (nat \<Rightarrow> nat \<Rightarrow> faults) \<Rightarrow> instant \<Rightarrow> id \<Rightarrow> unit act" where
  "handle_human_reply ox f g now i s =
     (if f 0 0 then (Inl Store_Failed, s)
      else case answered i (e_comments s) of
        None \<Rightarrow> (Inr (), s)
      | Some (q, a) \<Rightarrow>
          and_then (read_task (f 1 0) i) (\<lambda>t.
          and_then (unblock_task ox (\<lambda>k. f (k + 2)) now t) (\<lambda>t.
          and_then (wake_asker (f 5) now q) (\<lambda>_ s.
            if f 6 0 then (Inl Store_Failed, s)
            else and_then (resume_gated ox g now i (get_runs_by_recovery_states [st_paused] (e_db s))) (\<lambda>_.
                 and_then (announce_answer ox (f 7) now i t q a) (\<lambda>_ s.
                   (Inr (), broadcast_for_task (f 8 0) i (Human_Input_Answered i (cm_id q) (cm_id a)) s))) s))) s)"

text \<open>A tick of the loop that waits for the answer to a question: None goes on waiting.\<close>

definition ask_human_poll ::
  "outside \<Rightarrow> (nat \<Rightarrow> faults) \<Rightarrow> (nat \<Rightarrow> nat \<Rightarrow> faults) \<Rightarrow> instant \<Rightarrow> id \<Rightarrow> id \<Rightarrow> id \<Rightarrow> engine \<Rightarrow>
   string option \<times> engine" where
  "ask_human_poll ox f g now i run question s =
     (let s = ignoring (on_runs (touch_run_last_message_time (f 0 0) now run)) s
      in if f 1 0 then (None, s)
         else case List.find (\<lambda>c. cm_author_type c = ''human'' \<and> cm_id c > question)
                     (list_comments_by_task i (e_comments s)) of
                None \<Rightarrow> (None, s)
              | Some c \<Rightarrow> (Some (cm_content c), ignoring (handle_human_reply ox (\<lambda>k. f (k + 2)) g now i) s))"

section \<open>What resuming touches\<close>

lemma and_then_Inr:
  "and_then m k s = (Inr y, s') \<longleftrightarrow> (\<exists>x t. m s = (Inr x, t) \<and> k x t = (Inr y, s'))"
  by (auto simp: and_then_def split: prod.splits sum.splits)

text \<open>Operations that leave events, tasks and comments alone, and other runs.\<close>

definition run_only :: "id \<Rightarrow> engine \<Rightarrow> engine \<Rightarrow> bool" where
  "run_only i s s' \<longleftrightarrow> e_events s' = e_events s \<and> task_store (e_db s') = task_store (e_db s) \<and>
     e_comments s' = e_comments s \<and> (\<forall>j. j \<noteq> i \<longrightarrow> the_run j s' = the_run j s)"

lemma run_only_refl [simp]: "run_only i s s"
  by (simp add: run_only_def)

lemma run_only_trans: "run_only i s t \<Longrightarrow> run_only i t u \<Longrightarrow> run_only i s u"
  by (simp add: run_only_def)

lemma run_only_start [simp]: "run_only i s (start g t) = run_only i s t"
  by (simp add: run_only_def)

definition run_op_on :: "id \<Rightarrow> (run_db \<Rightarrow> 'r \<times> run_db) \<Rightarrow> bool" where
  "run_op_on i op \<longleftrightarrow> (\<forall>d. run_events (snd (op d)) = run_events d \<and> task_store (snd (op d)) = task_store d \<and>
     (\<forall>j. j \<noteq> i \<longrightarrow> tbl_get rn_id j (runs (snd (op d))) = tbl_get rn_id j (runs d)))"

lemma run_only_op: "run_op_on i op \<Longrightarrow> run_only i s (snd (on_runs op s))"
  by (simp add: run_only_def run_op_on_def)

lemma get_update_other:
  fixes h :: "run \<Rightarrow> run"
  assumes "\<And>r. rn_id (h r) = rn_id r" and "\<And>r. p r \<Longrightarrow> rn_id r = i" and "j \<noteq> i"
  shows "tbl_get rn_id j (tbl_update p h t) = tbl_get rn_id j t"
proof -
  have "tbl_get rn_id j (tbl_update p h t) = map_option (\<lambda>r. if p r then h r else r) (tbl_get rn_id j t)"
    by (rule run_rows.get_update) (rule assms(1))
  then show ?thesis
    using assms(2,3) by (cases "tbl_get rn_id j t") (auto dest: run_rows.get_Some_D)
qed

lemma run_op_update:
  assumes "\<And>r. rn_id (h r) = rn_id r"
  shows "run_op_on i (run_update b i h)"
  using get_update_other [where h = h and p = "\<lambda>r. rn_id r = i" and i = i] assms
  by (simp add: run_op_on_def run_update_def update_run_def)

lemma run_op_with_run:
  assumes "\<And>r. rn_id r = i \<Longrightarrow> run_op_on i (k r)"
  shows "run_op_on i (with_run b i k)"
  using assms
  by (auto simp: run_op_on_def with_run_def get_run_def split: option.splits dest: run_rows.get_Some_D)

lemmas run_op_intros = run_op_with_run run_op_update

lemma run_op_recovery_metadata: "run_op_on i (update_run_recovery_metadata flt i a b c)"
  unfolding update_run_recovery_metadata_def by (intro run_op_intros) (simp add: set_recovery_def)

lemma run_op_resume_error: "run_op_on i (record_resume_error flt i a b)"
  unfolding record_resume_error_def Let_def by (intro run_op_intros) simp

lemma run_op_update_if:
  assumes "\<And>r. rn_id (h r) = rn_id r"
  shows "run_events (update_run_if i p h d) = run_events d \<and> task_store (update_run_if i p h d) = task_store d \<and>
     (\<forall>j. j \<noteq> i \<longrightarrow> tbl_get rn_id j (runs (update_run_if i p h d)) = tbl_get rn_id j (runs d))"
  using get_update_other [where h = h and p = "\<lambda>r. rn_id r = i \<and> p (rn_status r)" and i = i] assms
  by (simp add: update_run_if_def)

lemma run_op_claim: "run_op_on i (claim_run_for_resume flt now i owner cause prev lease allowed n)"
proof -
  have "run_op_on i (claim_run_for_resume_write b now r owner cause prev lease allowed n)" if "rn_id r = i" for b r
    using that by (auto simp: run_op_on_def claim_run_for_resume_write_def Let_def run_op_update_if)
  then have "run_op_on i (with_run (flt 0) i (\<lambda>r. claim_run_for_resume_write (flt 1) now r owner cause prev lease
      allowed n))"
    by (rule run_op_with_run)
  then show ?thesis by (auto simp: run_op_on_def claim_run_for_resume_def)
qed

lemma run_op_active: "run_op_on i (set_run_running flt now i)"
  unfolding set_run_running_def set_run_active_def
  by (rule run_op_with_run) (auto simp: run_op_on_def set_run_active_write_def run_op_update_if)

lemma run_only_launch: "run_only i s (snd (launch_resumed ox f i r row s))"
proof -
  define s1 where "s1 = ignoring (on_runs (update_run_recovery_metadata (f 0) i (rc_reason (rn_recovery row))
      (rc_initiator (rn_recovery row)) (rc_target (rn_recovery row)))) s"
  have 1: "run_only i s s1" unfolding s1_def ignoring_def by (rule run_only_op [OF run_op_recovery_metadata])
  have "run_only i s1 (ignoring (on_runs (record_resume_error (f 2) i x y)) s1)" for x y
    unfolding ignoring_def by (rule run_only_op [OF run_op_resume_error])
  with 1 show ?thesis
    unfolding launch_resumed_def s1_def [symmetric] Let_def
    by (auto intro: run_only_trans split: sum.splits)
qed

lemma resume_session_cases:
  obtains (refused) e where "resume_session ox f now i opts s = (Inl e, s)"
    | (unreadable) e x y where "resume_session ox f now i opts s =
        (Inl e, snd (on_runs (record_resume_error (f 1) i x y) s))"
    | (claim) r cause n x s1 where "the_run i s = Some r"
        "cause = (case ro_cause opts of Some c \<Rightarrow> c | None \<Rightarrow> default_cause (rn_status r))"
        "on_runs (claim_run_for_resume (f 2) now i (ox_owner ox) (cause_text cause) (rn_status r)
           (now + 2 * minute) (allowed_states cause) n) s = (x, s1)"
        "resume_session ox f now i opts s =
           (case x of Inl e \<Rightarrow> (Inl e, s1)
            | Inr claimed \<Rightarrow> if \<not> claimed then (Inl Not_Claimed, s1)
                            else launch_resumed ox (\<lambda>k. f (k + 3)) i r
                                   (resumed_row (ox_owner ox) n (cause_text cause) r opts) s1)"
proof (cases "get_run (f 0 0) i (e_db s)")
  case (Inl e)
  then show ?thesis using refused by (simp add: resume_session_def)
next
  case (Inr r)
  then have r: "the_run i s = Some r" by (auto simp: get_run_def split: if_splits option.splits)
  let ?cause = "case ro_cause opts of Some c \<Rightarrow> c | None \<Rightarrow> default_cause (rn_status r)"
  let ?n = "if rc_sequence (rn_recovery r) \<le> 0 then log_cursor ox (rn_log_file r)
      else Some (rc_sequence (rn_recovery r))"
  show ?thesis
  proof (cases "rc_version (rn_recovery r) \<noteq> 0 \<and> rc_version (rn_recovery r) \<noteq> checkpoint_version")
    case True
    then show ?thesis using refused Inr by (simp add: resume_session_def)
  next
    case version: False
    show ?thesis
    proof (cases ?n)
      case None
      then have "resume_session ox f now i opts s = (Inl History_Unreadable,
          snd (on_runs (record_resume_error (f 1) i ''history'' (rn_status r)) s))"
        unfolding resume_session_def Inr sum.case if_not_P [OF version] Let_def None by (simp add: ignoring_def)
      then show ?thesis by (rule unreadable)
    next
      case (Some n)
      obtain x s1 where c: "on_runs (claim_run_for_resume (f 2) now i (ox_owner ox) (cause_text ?cause)
          (rn_status r) (now + 2 * minute) (allowed_states ?cause) n) s = (x, s1)" by fastforce
      have "resume_session ox f now i opts s =
           (case x of Inl e \<Rightarrow> (Inl e, s1)
            | Inr claimed \<Rightarrow> if \<not> claimed then (Inl Not_Claimed, s1)
                            else launch_resumed ox (\<lambda>k. f (k + 3)) i r
                                   (resumed_row (ox_owner ox) n (cause_text ?cause) r opts) s1)"
        unfolding resume_session_def Inr sum.case if_not_P [OF version] Let_def Some option.case c prod.case
        by (cases x) simp_all
      from claim [OF r refl c this] show ?thesis .
    qed
  qed
qed

lemma resume_session_run_only: "run_only i s (snd (resume_session ox f now i opts s))"
proof (cases rule: resume_session_cases [of ox f now i opts s])
  case (unreadable e x y)
  then show ?thesis by (simp add: run_only_op [OF run_op_resume_error])
next
  case (claim r cause n x s1)
  from run_only_op [OF run_op_claim] claim(3) have "run_only i s s1" by (metis snd_conv)
  with claim(4) run_only_launch show ?thesis by (auto intro: run_only_trans split: sum.splits)
qed simp

section \<open>A restart leaves gated sessions alone\<close>

definition spares :: "id \<Rightarrow> engine \<Rightarrow> engine \<Rightarrow> bool" where
  "spares i s s' \<longleftrightarrow> the_run i s' = the_run i s \<and>
     (\<exists>gs. e_started s' = e_started s @ gs \<and>
        (\<forall>g \<in> set gs. \<exists>x r. g = Session x \<and> ss_run x = Some r \<and> rn_id r \<noteq> i))"

lemma spares_refl [simp]: "spares i s s"
  by (simp add: spares_def)

lemma spares_trans: "spares i s t \<Longrightarrow> spares i t u \<Longrightarrow> spares i s u"
  by (fastforce simp: spares_def)

lemma launch_started:
  "e_started (snd (launch_resumed ox f i r row s)) = e_started s \<or>
   (\<exists>x. e_started (snd (launch_resumed ox f i r row s)) = e_started s @ [Session x] \<and> ss_run x = Some row)"
  by (auto simp: launch_resumed_def Let_def resume_session_start_def split: sum.splits)

lemma resume_session_spares:
  assumes "i \<noteq> j"
  shows "spares i s (snd (resume_session ox f now j opts s))"
proof -
  have run: "the_run i (snd (resume_session ox f now j opts s)) = the_run i s"
    using resume_session_run_only [of j s ox f now opts] assms by (simp add: run_only_def)
  show ?thesis
  proof (cases rule: resume_session_cases [of ox f now j opts s])
    case (unreadable e x y)
    then show ?thesis using run by (simp add: spares_def)
  next
    case (claim r cause n x s1)
    have "rn_id r = j" using claim(1) by (auto dest: run_rows.get_Some_D)
    then have id: "rn_id (resumed_row (ox_owner ox) n (cause_text cause) r opts) \<noteq> i"
      using assms by (simp add: resumed_row_def set_recovery_def)
    have "e_started s1 = e_started s" using on_runs_result [OF claim(3)] by simp
    then show ?thesis
      using run id claim(4) launch_started [of ox "\<lambda>k. f (k + 3)" j r
        "resumed_row (ox_owner ox) n (cause_text cause) r opts" s1]
      by (auto simp: spares_def split: sum.splits if_splits)
  qed simp
qed

lemma resume_updated_spares:
  "(\<And>r. r \<in> set rs \<Longrightarrow> \<not> human_gated r \<Longrightarrow> rn_id r \<noteq> i) \<Longrightarrow> spares i s (resume_updated ox g now rs s)"
proof (induction rs arbitrary: g s)
  case (Cons r rs)
  have "spares i s (if human_gated r then s
      else ignoring (resume_session ox (g 0) now (rn_id r) (plain_options ResumeAfterUpdate [])) s)"
    using Cons.prems [of r] resume_session_spares [of i "rn_id r"] by (auto simp: ignoring_def)
  moreover have "spares i t (resume_updated ox g' now rs t)" for g' t
    by (rule Cons.IH) (use Cons.prems in auto)
  ultimately show ?case by (auto intro: spares_trans)
qed simp

lemma reclaim_write_keeps:
  fixes x :: run
  assumes "tbl_get rn_id i (runs d) = Some r" and "rn_status r \<noteq> st_resuming"
  shows "tbl_get rn_id i (runs (reclaim_write x d)) = Some r"
  using assms by (simp add: reclaim_write_def Let_def update_run_if_def run_rows.get_update)

lemma reclaim_loop_keeps:
  assumes "wf_table rn_id (runs d)" and "tbl_get rn_id i (runs d) = Some r" and "rn_status r \<noteq> st_resuming"
  shows "wf_table rn_id (runs (snd (reclaim_loop flt k now rs d))) \<and>
         tbl_get rn_id i (runs (snd (reclaim_loop flt k now rs d))) = Some r"
  using assms
proof (induction rs arbitrary: k d)
  case (Cons x rs)
  have "wf_table rn_id (runs (reclaim_write x d))"
    using Cons.prems(1) by (simp add: reclaim_write_def Let_def update_run_if_def run_rows.wf_update)
  then show ?case using Cons reclaim_write_keeps [OF Cons.prems(2,3)] by simp
qed simp

lemma reclaim_keeps_other:
  assumes "wf_table rn_id (runs d)" and "tbl_get rn_id i (runs d) = Some r" and "rn_status r \<noteq> st_resuming"
  shows "wf_table rn_id (runs (snd (reclaim_expired_resume_leases flt now d))) \<and>
         tbl_get rn_id i (runs (snd (reclaim_expired_resume_leases flt now d))) = Some r"
  using reclaim_loop_keeps [OF assms] assms by (simp add: reclaim_expired_resume_leases_def)

text \<open>
  resuming after a restart leaves a session paused for a human alone, whatever fails and
  whichever other sessions resume: its row keeps every column, and no goroutine is started
  for it.
\<close>

theorem restart_spares_gated_sessions:
  assumes "wf_table rn_id (runs (e_db s))" and "the_run i s = Some r"
    and "rn_status r = st_paused" and "human_gated r"
  shows "spares i s (resume_eligible_sessions ox f g now s)"
proof -
  define s1 where "s1 = ignoring (on_runs (reclaim_expired_resume_leases (f 0) now)) s"
  have wf: "wf_table rn_id (runs (e_db s1))" and run: "the_run i s1 = Some r"
    using assms reclaim_keeps_other [of "e_db s" i r "f 0" now]
    by (auto simp: s1_def ignoring_def status_defs)
  have "spares i s s1" using run assms(2) by (simp add: spares_def s1_def)
  moreover have "spares i s1 (resume_updated ox g now (get_runs_by_recovery_states [st_paused] (e_db s1)) s1)"
  proof (rule resume_updated_spares)
    fix x assume x: "x \<in> set (get_runs_by_recovery_states [st_paused] (e_db s1))" "\<not> human_gated x"
    then have "x \<in> set (rows (runs (e_db s1)))" by (simp add: get_runs_by_recovery_states_def)
    from run_rows.get_member [OF wf this] show "rn_id x \<noteq> i" using run x(2) assms(4) by auto
  qed
  ultimately show ?thesis
    unfolding resume_eligible_sessions_def Let_def s1_def [symmetric] by (auto intro: spares_trans)
qed

definition paused_run :: "id \<Rightarrow> string \<Rightarrow> run" where
  "paused_run i reason = (new_run 1 7 kind_agent_session [] None None st_paused 0)
     \<lparr>rn_id := i, rn_recovery := no_recovery\<lparr>rc_sequence := 3, rc_version := 1, rc_reason := reason\<rparr>\<rparr>"

definition paused_engine :: engine where
  "paused_engine = engine_on [paused_run 5 ''human_input'', paused_run 6 ''binary_update'']
     [work_task 1 status_in_progress] []"

theorem restart_spares_gated_sessions_witness:
  "spares 5 paused_engine (resume_eligible_sessions demo_outside no_fault (\<lambda>_. no_fault) 9 paused_engine) \<and>
   map_option rn_status
     (the_run 6 (resume_eligible_sessions demo_outside no_fault (\<lambda>_. no_fault) 9 paused_engine)) =
   Some st_resuming"
proof
  have "wf_table rn_id (runs (e_db paused_engine))" "the_run 5 paused_engine = Some (paused_run 5 ''human_input'')"
    "rn_status (paused_run 5 ''human_input'') = st_paused" "human_gated (paused_run 5 ''human_input'')"
    by code_simp+
  then show "spares 5 paused_engine (resume_eligible_sessions demo_outside no_fault (\<lambda>_. no_fault) 9 paused_engine)"
    by (rule restart_spares_gated_sessions)
  show "map_option rn_status
     (the_run 6 (resume_eligible_sessions demo_outside no_fault (\<lambda>_. no_fault) 9 paused_engine)) =
   Some st_resuming"
    by code_simp
qed

section \<open>A question closes the gate\<close>

lemma sort_key_snoc_max:
  "\<forall>x \<in> set xs. h x \<le> h c \<Longrightarrow> sort_key h (xs @ [c]) = sort_key h xs @ [c]"
proof -
  have ins: "insort_key h x (ys @ [c]) = insort_key h x ys @ [c]" if "h x \<le> h c" for x ys
    using that by (induction ys) auto
  have "foldr (insort_key h) xs [c] = foldr (insort_key h) xs [] @ [c]" if "\<forall>x \<in> set xs. h x \<le> h c" for xs
    using that by (induction xs) (auto simp: ins)
  then show "\<forall>x \<in> set xs. h x \<le> h c \<Longrightarrow> sort_key h (xs @ [c]) = sort_key h xs @ [c]"
    by (simp add: sort_key_def)
qed

lemma create_comment_last:
  assumes "create_comment b now c t = (Inr d, t')" and "\<forall>x \<in> set (rows t). cm_created x \<le> now"
  shows "list_comments_by_task (cm_task c) t' = list_comments_by_task (cm_task c) t @ [d] \<and>
         d = c\<lparr>cm_created := now, cm_id := next_key t\<rparr>"
  using assms
  by (auto simp: create_comment_def tbl_create_def list_comments_by_task_def tbl_find_def Let_def
      split: if_splits intro!: sort_key_snoc_max)

definition asked :: "instant \<Rightarrow> id \<Rightarrow> engine \<Rightarrow> bool" where
  "asked now i s \<longleftrightarrow> pending_in None (list_comments_by_task i (e_comments s)) \<noteq> None \<and>
     (\<forall>x \<in> set (rows (e_comments s)). cm_created x \<le> now)"

lemma pending_stays:
  "cm_author_type c \<noteq> ''human'' \<Longrightarrow> pending_in None cs \<noteq> None \<Longrightarrow> pending_in None (cs @ [c]) \<noteq> None"
  by (auto simp: pending_in_append split: option.splits)

lemma create_comment_others:
  assumes "create_comment b now c t = (x, t')" and "x = Inl e \<or> cm_task c \<noteq> i"
  shows "list_comments_by_task i t' = list_comments_by_task i t"
  using assms
  by (auto simp: create_comment_def tbl_create_def list_comments_by_task_def tbl_find_def Let_def split: if_splits)

lemma asked_comment:
  assumes "asked now i s" and "on_comments (create_comment b now c) s = (x, s')"
    and "cm_author_type c \<noteq> ''human''"
  shows "asked now i s'"
proof -
  obtain y t' where c: "create_comment b now c (e_comments s) = (y, t')" "e_comments s' = t'"
    using assms(2) by (auto simp: on_comments_def split: prod.splits)
  have old: "\<forall>x \<in> set (rows t'). cm_created x \<le> now"
    using c(1) assms(1) by (auto simp: create_comment_def tbl_create_def asked_def Let_def split: if_splits)
  have "pending_in None (list_comments_by_task i t') \<noteq> None"
  proof (cases "\<exists>d. y = Inr d \<and> cm_task c = i")
    case True
    then obtain d where d: "y = Inr d" "cm_task c = i" by blast
    from create_comment_last [OF c(1) [unfolded d(1)]] assms(1) d(2)
    have "list_comments_by_task i t' = list_comments_by_task i (e_comments s) @ [d]"
      "cm_author_type d = cm_author_type c" by (auto simp: asked_def)
    with pending_stays [of d] assms(1,3) show ?thesis by (simp add: asked_def)
  next
    case False
    then have "\<exists>e. y = Inl e \<or> cm_task c \<noteq> i" by (cases y) auto
    with create_comment_others [OF c(1)] assms(1) show ?thesis by (metis asked_def)
  qed
  with old c(2) show ?thesis by (simp add: asked_def)
qed

lemma asked_cong: "e_comments s' = e_comments s \<Longrightarrow> asked now i s' = asked now i s"
  by (simp add: asked_def)

lemma asked_move_task:
  assumes "asked now i s" and "move_task ox f now t st bs s = (x, s')"
  shows "asked now i s'"
proof -
  obtain y s1 where u: "on_tasks (update_task (f 0) now (t\<lparr>t_status := st\<rparr>)) s = (y, s1)" by fastforce
  have a1: "asked now i s1" using assms(1) u asked_cong [of s1 s] on_tasks_frame(4) by (metis snd_conv)
  show ?thesis
  proof (cases y)
    case (Inl e)
    then show ?thesis using assms(2) u a1 by (auto simp: move_task_def and_then_def)
  next
    case (Inr v)
    let ?s2 = "send (t_company t) (Task_Updated (t_id t) st bs) s1"
    let ?c = "new_comment (t_id t) ''system'' ''status_change''
        (ox_json ox [(''from'', JStr (t_status t)), (''to'', JStr st)]) None"
    obtain z s3 where c: "on_comments (create_comment (f 1 0) now ?c) ?s2 = (z, s3)" by fastforce
    have "asked now i ?s2" using a1 by (simp add: asked_def)
    from asked_comment [OF this c] have "asked now i s3" by (simp add: new_comment_def)
    moreover have "e_comments s' = e_comments s3"
      using assms(2) u Inr c
      by (auto simp: move_task_def and_then_def broadcast_task_status_def emit_status_change_def split: sum.splits)
    ultimately show ?thesis by (simp add: asked_def)
  qed
qed

lemma move_task_succeeds:
  assumes "\<not> f 0 1"
  shows "\<exists>s'. move_task ox f now t st bs s = (Inr (t\<lparr>t_status := st\<rparr>), s')"
proof -
  obtain v d where "update_task (f 0) now (t\<lparr>t_status := st\<rparr>) (task_store (e_db s)) = (Inr v, d)"
    using assms by (simp add: update_task_def Let_def)
  then show ?thesis by (auto simp: move_task_def and_then_def on_tasks_def on_runs_def)
qed

lemma wait_state_get:
  assumes "\<not> flt 0" and "\<not> flt 1" and "the_run i s = Some r"
  shows "\<exists>x. the_run i (ignoring (on_runs (set_run_wait_state_for_comment flt i reason c)) s) = Some x \<and>
           rn_status x = st_waiting \<and> rc_wait_comment (rn_recovery x) = c"
proof -
  have "rn_id r = i" using assms(3) by (auto dest: run_rows.get_Some_D)
  then show ?thesis
    using assms
    by (simp add: ignoring_def set_run_wait_state_for_comment_def with_run_def get_run_def run_update_def
        update_run_def run_rows.get_update)
qed

lemma on_events_frame:
  "on_events op s = (x, s') \<Longrightarrow> e_comments s' = e_comments s \<and> runs (e_db s') = runs (e_db s) \<and>
     task_store (e_db s') = task_store (e_db s) \<and> e_events s' = snd (op (e_events s)) \<and>
     e_started s' = e_started s"
  by (auto simp: on_events_def on_runs_def split: prod.splits)

lemma announce_question_frame:
  assumes "announce_question ox f now i run c question s = (Inr d, s')"
  shows "d = c \<and> e_comments s' = e_comments s \<and> runs (e_db s') = runs (e_db s) \<and>
         task_store (e_db s') = task_store (e_db s)"
  using assms
  by (auto simp: announce_question_def and_then_Inr dest: on_events_frame split: sum.splits option.splits)

text \<open>
  asking a human closes the gate of the task: once the question is posted it is the task's
  open question, so the watchdog and the orchestrator stand still; a task in progress is
  blocked, and the asking run waits for exactly this question.
\<close>

theorem asking_closes_the_gate:
  assumes post: "ask_human_post ox f now i run question s = (Inr c, s')"
    and past: "\<forall>x \<in> set (rows (e_comments s)). cm_created x \<le> now"
    and ok: "\<And>k n. \<not> f k n" and "the_task i s = Some t" and "the_run run s = Some r"
  shows "human_input_pending False i s' \<and> \<not> gate_open s' i \<and>
         (t_status t = status_in_progress \<longrightarrow> (\<exists>v. the_task i s' = Some v \<and> t_status v = status_blocked)) \<and>
         (\<exists>x. the_run run s' = Some x \<and> rn_status x = st_waiting \<and> rc_wait_comment (rn_recovery x) = cm_id c)"
proof -
  let ?q = "new_comment i ''agent'' ''ask_user'' question (Some run)"
  obtain d s1 where s1: "on_comments (create_comment (f 0 0) now ?q) s = (Inr d, s1)"
    using ok by (auto simp: on_comments_def create_comment_def tbl_create_def Let_def)
  have "list_comments_by_task i (e_comments s1) = list_comments_by_task i (e_comments s) @ [d]" "asks_user d"
      "\<forall>x \<in> set (rows (e_comments s1)). cm_created x \<le> now"
    using s1 past ok create_comment_last [of False now ?q "e_comments s"]
    by (auto simp: on_comments_def create_comment_def tbl_create_def Let_def new_comment_def asks_user_def
        split: prod.splits)
  then have a1: "asked now i s1" using question_opens [of d] by (simp add: asked_def)
  define s2 where "s2 = broadcast_for_task (f 2 0) i (Human_Input_Requested i run question)
      (broadcast_for_task (f 1 0) i (Comment_Created d) s1)"
  define s3 where "s3 = ignoring (on_runs (set_run_wait_state_for_comment (f 3) run ''awaiting_human_input'' (cm_id d))) s2"
  define s4 where "s4 = (if t_status t = status_in_progress
      then ignoring (move_task ox (\<lambda>k. f (k + 5)) now t status_blocked []) s3 else s3)"
  have db: "e_db s1 = e_db s" using s1 on_comments_frame(3) by (metis snd_conv)
  have a3: "asked now i s3" using a1 by (simp add: asked_def s2_def s3_def ignoring_def)
  have t3: "the_task i s3 = Some t"
    using db assms(4)
    by (simp add: s3_def s2_def ignoring_def set_run_wait_state_for_comment_def with_run_def run_update_def
        update_run_def split: sum.splits)
  have w3: "\<exists>x. the_run run s3 = Some x \<and> rn_status x = st_waiting \<and> rc_wait_comment (rn_recovery x) = cm_id d"
    unfolding s3_def by (rule wait_state_get) (use ok db assms(5) in \<open>auto simp: s2_def\<close>)
  obtain s4' where m: "move_task ox (\<lambda>k. f (k + 5)) now t status_blocked [] s3 =
      (Inr (t\<lparr>t_status := status_blocked\<rparr>), s4')"
    using move_task_succeeds [of "\<lambda>k. f (k + 5)"] ok by blast
  have "\<exists>v. the_task i s4' = Some v \<and> t_status v = status_blocked"
    using move_task_Inr [OF m] task_id [OF t3] by auto
  moreover have "runs (e_db s4') = runs (e_db s3)" using move_task_frame [OF m] by simp
  moreover have "asked now i s4'" by (rule asked_move_task [OF a3 m])
  ultimately have 4: "asked now i s4" "runs (e_db s4) = runs (e_db s3)"
      "t_status t = status_in_progress \<longrightarrow> (\<exists>v. the_task i s4 = Some v \<and> t_status v = status_blocked)"
    using a3 m by (auto simp: s4_def ignoring_def)
  have rt: "read_task (f 4 0) i s3 = (Inr t, s3)" using t3 ok by (simp add: get_task_def)
  have "ask_human_post ox f now i run question s = announce_question ox (\<lambda>k. f (k + 7)) now i run d question s4"
    unfolding ask_human_post_def and_then_def [of "on_comments _"] s1 prod.case sum.case Let_def
      s2_def [symmetric] s3_def [symmetric] rt s4_def [symmetric] ..
  with post have "announce_question ox (\<lambda>k. f (k + 7)) now i run d question s4 = (Inr c, s')" by simp
  from announce_question_frame [OF this] show ?thesis
    using 4 w3
    by (auto simp: human_input_pending_def find_pending_human_question_def gate_open_def asked_def)
qed

definition asking_engine :: engine where
  "asking_engine = engine_on [(new_run 1 7 kind_agent_session [] (Some 6) (Some 6) st_running 0)\<lparr>rn_id := 5\<rparr>,
      (new_run 1 7 kind_task_orchestrator [] None None st_waiting 0)\<lparr>rn_id := 6\<rparr>]
     [(work_task 1 status_in_progress)\<lparr>t_orchestrator_run := Some 6\<rparr>] []"

theorem asking_closes_the_gate_witness:
  "\<exists>c s'. ask_human_post demo_outside no_fault 9 1 5 ''which?'' asking_engine = (Inr c, s') \<and>
     human_input_pending False 1 s' \<and> \<not> gate_open s' 1 \<and>
     (\<exists>v. the_task 1 s' = Some v \<and> t_status v = status_blocked)"
proof -
  have "\<exists>c. fst (ask_human_post demo_outside no_fault 9 1 5 ''which?'' asking_engine) = Inr c"
    by (rule exI [of _ "(new_comment 1 ''agent'' ''ask_user'' ''which?'' (Some 5))\<lparr>cm_id := 1, cm_created := 9\<rparr>"])
      code_simp
  then obtain c s' where p: "ask_human_post demo_outside no_fault 9 1 5 ''which?'' asking_engine = (Inr c, s')"
    by (metis prod.collapse)
  have "\<forall>x \<in> set (rows (e_comments asking_engine)). cm_created x \<le> 9" by code_simp
  moreover have "\<not> no_fault k n" for k n by (simp add: no_fault_def)
  moreover have "the_task 1 asking_engine = Some ((work_task 1 status_in_progress)\<lparr>t_orchestrator_run := Some 6\<rparr>)"
    "the_run 5 asking_engine =
      Some ((new_run 1 7 kind_agent_session [] (Some 6) (Some 6) st_running 0)\<lparr>rn_id := 5\<rparr>)"
    by code_simp+
  ultimately show ?thesis using asking_closes_the_gate [OF p] p by (simp add: work_task_def)
qed

section \<open>A reply is delivered once\<close>

lemma resume_gated_events:
  "e_events (snd (resume_gated ox g now i rs s)) = e_events s"
proof (induction rs arbitrary: g s)
  case (Cons r rs)
  obtain x s1 where r: "resume_session ox (g 0) now (rn_id r)
      (plain_options ResumeAfterHuman ''human input received'') s = (x, s1)" by fastforce
  then have e: "e_events s1 = e_events s"
    using resume_session_run_only [of "rn_id r" s ox "g 0" now "plain_options ResumeAfterHuman ''human input received''"]
    by (simp add: run_only_def)
  have stuck: "e_events (snd (case get_run (g 0 20 0) (rn_id r) (e_db s1) of
           Inl _ \<Rightarrow> (Inl z, s1)
         | Inr current \<Rightarrow> if rn_status current = st_paused then (Inl z, s1)
             else resume_gated ox (\<lambda>n. g (Suc n)) now i rs s1)) = e_events s" for z
    using e by (cases "get_run (g 0 20 0) (rn_id r) (e_db s1)") (simp_all only: sum.case Cons.IH snd_conv split: if_split, simp)
  show ?case
    unfolding resume_gated.simps r prod.case
    using Cons.IH e stuck by (cases x) simp_all
qed simp

lemma on_tasks_events: "on_tasks op s = (x, s') \<Longrightarrow> e_events s' = e_events s"
  by (auto simp: on_tasks_def on_runs_def split: prod.splits)

lemma unblock_task_events:
  "unblock_task ox f now t s = (x, s') \<Longrightarrow> e_events s' = e_events s"
  by (auto simp: unblock_task_def and_then_def simp del: read_task_eq split: if_splits prod.splits sum.splits
      dest!: on_tasks_events) (auto simp: read_task_def dest!: on_tasks_events)

lemma wake_asker_events: "wake_asker flt now q s = (x, s') \<Longrightarrow> e_events s' = e_events s"
  using run_only_op [OF run_op_active [where flt = flt and now = now and i = "the (cm_run q)"], of s]
  by (cases "cm_run q") (auto simp: wake_asker_def run_only_def simp del: on_runs_frame)

definition answer_row :: "outside \<Rightarrow> id \<Rightarrow> id \<Rightarrow> comment \<Rightarrow> comment \<Rightarrow> run_event" where
  "answer_row ox i orch q a =
     \<lparr>ev_id = 0, ev_task = i, ev_run = (case cm_run q of None \<Rightarrow> 0 | Some r \<Rightarrow> r),
      ev_source = Some (case cm_run q of None \<Rightarrow> 0 | Some r \<Rightarrow> r), ev_target = Some orch, ev_reply = None,
      ev_type = type_human_answered,
      ev_payload = ox_json ox [(''task_id'', JInt i), (''question_comment_id'', JInt (cm_id q)),
         (''answer_comment_id'', JInt (cm_id a)), (''answer'', JStr (cm_content a))],
      ev_dedupe = answer_key q a, ev_created = 0, ev_consumed = None\<rparr>"

lemma announce_answer_eq:
  "announce_answer ox flt now i t q a s =
     (case t_orchestrator_run t of
        None \<Rightarrow> (Inr (), s)
      | Some orch \<Rightarrow>
          and_then (on_events (enqueue_run_event_returning flt now (answer_row ox i orch q a))) (\<lambda>_. give ()) s)"
  by (simp add: announce_answer_def enqueue_routed_event_def answer_row_def split: option.splits)

lemma and_thenE:
  assumes "and_then m k s = (x, s')"
  obtains (stop) e where "m s = (Inl e, s')" "x = Inl e"
    | (go) y t where "m s = (Inr y, t)" "k y t = (x, s')"
  using assms by (auto simp: and_then_def split: prod.splits sum.splits)

lemma announce_answer_events:
  assumes "announce_answer ox flt now i t q a s = (x, s')"
  shows "e_events s' = e_events s \<or>
         (\<exists>orch. e_events s' = snd (enqueue_run_event_returning flt now (answer_row ox i orch q a) (e_events s)))"
    and "x = Inr () \<Longrightarrow> t_orchestrator_run t = Some orch \<Longrightarrow>
         \<exists>e. by_dedupe (answer_key q a) (e_events s') = Some e"
proof -
  show "e_events s' = e_events s \<or>
         (\<exists>orch. e_events s' = snd (enqueue_run_event_returning flt now (answer_row ox i orch q a) (e_events s)))"
    using assms unfolding announce_answer_eq
    by (auto split: option.splits elim!: and_thenE dest: on_events_frame)
  assume "x = Inr ()" "t_orchestrator_run t = Some orch"
  with assms obtain e s1 where e: "on_events (enqueue_run_event_returning flt now (answer_row ox i orch q a)) s =
      (Inr e, s1)" "s' = s1"
    unfolding announce_answer_eq by (auto elim!: and_thenE)
  then have "enqueue_run_event_returning flt now (answer_row ox i orch q a) (e_events s) = (Inr e, e_events s1)"
    by (auto simp: on_events_def on_runs_def split: prod.splits sum.splits)
  from enqueue_stored [OF this] e(2) show "\<exists>e. by_dedupe (answer_key q a) (e_events s') = Some e"
    by (auto simp: answer_row_def answer_key_def)
qed

lemma insert_event_rows:
  "insert_event f e t = Some (x, t') \<Longrightarrow> rows t' = rows t @ [e\<lparr>ev_id := next_key t\<rparr>]"
  by (auto simp: insert_event_def tbl_create_def Let_def split: if_splits)

lemma enqueue_rows:
  assumes "enqueue_run_event_returning flt now e t = (r, t')" and "ev_source e \<noteq> None" and "ev_dedupe e \<noteq> []"
  shows "t' = t \<and> (by_dedupe (ev_dedupe e) t = None \<longrightarrow> (\<exists>x. r = Inl x)) \<or>
    by_dedupe (ev_dedupe e) t = None \<and> rows t' = rows t @ [e\<lparr>ev_id := next_key t, ev_created := now\<rparr>]"
proof (cases "flt 0 \<or> by_dedupe (ev_dedupe e) t \<noteq> None")
  case True
  then show ?thesis
    using assms by (auto simp: enqueue_run_event_returning_def Let_def split: if_splits option.splits)
next
  case False
  show ?thesis
  proof (cases "insert_event (flt 1) (e\<lparr>ev_created := now\<rparr>) t")
    case None
    then show ?thesis
      using assms False by (auto simp: enqueue_run_event_returning_def Let_def split: if_splits)
  next
    case (Some y)
    obtain x u where y: "y = (x, u)" by (cases y)
    then have "t' = u" using assms False Some by (auto simp: enqueue_run_event_returning_def Let_def)
    moreover have "e\<lparr>ev_created := now, ev_id := n\<rparr> = e\<lparr>ev_id := n, ev_created := now\<rparr>" for n by simp
    ultimately show ?thesis using insert_event_rows [OF Some [unfolded y]] False by simp
  qed
qed

lemma answer_row_fields:
  "ev_dedupe (answer_row ox i orch q a) = answer_key q a" "ev_source (answer_row ox i orch q a) \<noteq> None"
  "answer_key q a \<noteq> []"
  by (simp_all add: answer_row_def answer_key_def)

lemma announce_answer_new:
  assumes "announce_answer ox flt now i t q a s = (Inr (), s')" and "t_orchestrator_run t = Some orch"
    and "by_dedupe (answer_key q a) (e_events s) = None"
  shows "\<exists>n. rows (e_events s') = rows (e_events s) @ [(answer_row ox i orch q a)\<lparr>ev_id := n, ev_created := now\<rparr>]"
proof -
  from assms(1,2) obtain e s1 where e: "on_events (enqueue_run_event_returning flt now (answer_row ox i orch q a)) s =
      (Inr e, s1)" "s' = s1"
    unfolding announce_answer_eq by (auto elim!: and_thenE)
  then have "enqueue_run_event_returning flt now (answer_row ox i orch q a) (e_events s) = (Inr e, e_events s')"
    by (auto simp: on_events_def on_runs_def split: prod.splits sum.splits)
  from enqueue_rows [OF this] assms(3) show ?thesis
    by (auto simp: answer_row_fields)
qed

lemma enqueue_other_keys:
  assumes "ev_source e \<noteq> None" and "ev_dedupe e \<noteq> []" and "by_dedupe key t = Some x"
  shows "filter (\<lambda>e. ev_dedupe e = key) (rows (snd (enqueue_run_event_returning flt now e t))) =
         filter (\<lambda>e. ev_dedupe e = key) (rows t)"
  using enqueue_rows [of flt now e t, OF prod.collapse [symmetric] assms(1,2)] assms(3) by auto

lemma unblock_task_orch:
  assumes "the_task i s = Some t" and "unblock_task ox f now t s = (Inr u, s')"
  shows "t_orchestrator_run u = t_orchestrator_run t"
proof (cases "t_status t = status_blocked")
  case True
  obtain changed s1 where c: "on_tasks (set_task_status_if (f 0 0) now (t_id t) status_blocked status_in_progress) s =
      (Inr changed, s1)" and u: "get_task (f 1 0) (t_id t) (task_store (e_db s1)) = Inr u"
    using assms(2) True
    by (auto simp: unblock_task_def read_task_def on_tasks_def on_runs_def elim!: and_thenE split: prod.splits)
  have i: "t_id t = i" by (rule task_id [OF assms(1)])
  have "task_store (e_db s1) = snd (set_task_status_if (f 0 0) now i status_blocked status_in_progress
      (task_store (e_db s)))"
    using c i by (auto simp: on_tasks_def on_runs_def split: prod.splits)
  with u i assms(1) show ?thesis
    by (auto simp: get_task_def set_task_status_if_def Let_def task_rows.get_update
        split: if_splits option.splits)
qed (use assms(2) in \<open>simp add: unblock_task_def\<close>)

text \<open>What follows the unblocking of the task.\<close>

lemma reply_steps:
  assumes qa: "answered i (e_comments s) = Some (q, a)"
    and h: "handle_human_reply ox f g now i s = (x, s')"
  obtains (early) "e_events s' = e_events s" "x \<noteq> Inr ()"
    | (routed) t t' s1 s2 y s3 where "the_task i s = Some t" "unblock_task ox (\<lambda>k. f (k + 2)) now t s = (Inr t', s1)"
        "e_events s2 = e_events s" "announce_answer ox (f 7) now i t' q a s2 = (y, s3)"
        "e_events s' = e_events s3" "x = Inr () \<longleftrightarrow> y = Inr ()"
proof (cases "f 0 0")
  case True
  then show ?thesis using early h by (auto simp: handle_human_reply_def)
next
  case False
  let ?route = "\<lambda>t'. \<lambda>_. and_then (announce_answer ox (f 7) now i t' q a) (\<lambda>_ s.
      (Inr (), broadcast_for_task (f 8 0) i (Human_Input_Answered i (cm_id q) (cm_id a)) s))"
  let ?rest = "\<lambda>t'. \<lambda>_ s. if f 6 0 then (Inl Store_Failed, s)
      else and_then (resume_gated ox g now i (get_runs_by_recovery_states [st_paused] (e_db s))) (?route t') s"
  from h False have "and_then (read_task (f 1 0) i) (\<lambda>t. and_then (unblock_task ox (\<lambda>k. f (k + 2)) now t)
      (\<lambda>t'. and_then (wake_asker (f 5) now q) (?rest t'))) s = (x, s')"
    by (simp only: handle_human_reply_def qa option.case prod.case if_False)
  then show ?thesis
  proof (cases rule: and_thenE)
    case (stop e)
    then show ?thesis using early by (auto simp: read_task_def dest: on_tasks_events)
  next
    case (go t s0)
    then have t: "the_task i s = Some t" "s0 = s"
      by (auto simp: get_task_def split: if_splits option.splits)
    from go(2) show ?thesis
    proof (cases rule: and_thenE)
      case (stop e)
      then show ?thesis using early t by (auto dest: unblock_task_events)
    next
      case (go t' s1)
      note u = go(1)
      have 1: "e_events s1 = e_events s" using unblock_task_events [OF u] t by simp
      from go(2) show ?thesis
      proof (cases rule: and_thenE)
        case (stop e)
        then show ?thesis using early 1 by (auto dest: wake_asker_events)
      next
        case (go w s2)
        have 2: "e_events s2 = e_events s" using wake_asker_events [OF go(1)] 1 by simp
        show ?thesis
        proof (cases "f 6 0")
          case True
          then show ?thesis using early go(2) 2 by auto
        next
          case False
          with go(2) have "and_then (resume_gated ox g now i (get_runs_by_recovery_states [st_paused] (e_db s2)))
              (?route t') s2 = (x, s')" by simp
          then show ?thesis
          proof (cases rule: and_thenE)
            case (stop e)
            then show ?thesis using early 2 resume_gated_events by (metis snd_conv sum.distinct(1))
          next
            case (go v s3)
            have 3: "e_events s3 = e_events s" using go(1) 2 resume_gated_events by (metis snd_conv)
            from go(2) show ?thesis
              by (cases rule: and_thenE) (use routed [OF t(1) _ 3] u t(2) in auto)
          qed
        qed
      qed
    qed
  qed
qed

text \<open>The events stored under a deduplication key.\<close>

definition under_key :: "string \<Rightarrow> engine \<Rightarrow> run_event list" where
  "under_key key s = filter (\<lambda>e. ev_dedupe e = key) (rows (e_events s))"

text \<open>
  C8: handling a reply delivers it: the one event stored under the key of the question and the
  answering comment, if there was none before, is appended to the events, comes from the run that
  asked, is addressed to the orchestrator of the task and carries the answer; handling replies
  again, however often and whatever was stored in between, a later comment of a human included,
  stores no other event under that key, and none at all while the answer is still the last one.
\<close>

theorem reply_delivered_once:
  assumes first: "handle_human_reply ox f g now i s = (Inr (), s1)"
    and qa: "answered i (e_comments s) = Some (q, a)"
    and task: "the_task i s = Some t" "t_orchestrator_run t = Some orch"
    and between: "grows (e_events s1) (e_events s2)"
    and again: "handle_human_reply ox f2 g2 now2 i s2 = (x, s3)"
  shows "under_key (answer_key q a) s1 \<noteq> [] \<and>
    (under_key (answer_key q a) s = [] \<longrightarrow>
       (\<exists>n. rows (e_events s1) = rows (e_events s) @ [(answer_row ox i orch q a)\<lparr>ev_id := n, ev_created := now\<rparr>])) \<and>
    under_key (answer_key q a) s3 = under_key (answer_key q a) s2 \<and>
    (answered i (e_comments s2) = Some (q, a) \<longrightarrow> e_events s3 = e_events s2)"
proof -
  let ?k = "answer_key q a"
  have none: "by_dedupe ?k (e_events v) = None \<longleftrightarrow> under_key ?k v = []" for v
    by (auto simp: by_dedupe_def tbl_first_None_iff under_key_def filter_empty_conv)
  have stored: "(\<exists>e. by_dedupe ?k (e_events s1) = Some e) \<and> (under_key ?k s = [] \<longrightarrow>
       (\<exists>n. rows (e_events s1) = rows (e_events s) @ [(answer_row ox i orch q a)\<lparr>ev_id := n, ev_created := now\<rparr>]))"
    using qa first
  proof (cases rule: reply_steps)
    case (routed t0 t' u v y w)
    with unblock_task_orch [OF routed(1,2)] task have "t_orchestrator_run t' = Some orch" by simp
    then show ?thesis
      using routed announce_answer_events(2) [OF routed(4)] announce_answer_new [of ox "f 7" now i t' q a v w orch] none [of s]
      by auto
  qed simp
  then obtain e where e: "by_dedupe ?k (e_events s2) = Some e"
    using grows_dedupe [OF between] by blast
  have "under_key ?k s3 = under_key ?k s2 \<and> (answered i (e_comments s2) = Some (q, a) \<longrightarrow> e_events s3 = e_events s2)"
  proof (cases "answered i (e_comments s2)")
    case None
    then have "s3 = s2" using again by (auto simp: handle_human_reply_def split: if_splits)
    then show ?thesis by simp
  next
    case (Some qa')
    obtain q' a' where qa': "answered i (e_comments s2) = Some (q', a')" using Some by (cases qa') simp
    from qa' again show ?thesis
    proof (cases rule: reply_steps)
      case (routed t t' u v y w)
      have known: "snd (enqueue_run_event_returning flt n (answer_row ox i r q a) (e_events s2)) = e_events s2"
        for flt n r
        by (rule enqueue_known [of _ _ e]) (use e in \<open>simp_all add: answer_row_def, simp add: answer_key_def\<close>)
      show ?thesis
        using announce_answer_events(1) [OF routed(4)] routed(3,5) known enqueue_other_keys [OF answer_row_fields(2) _ e] qa'
          answer_row_fields(1,3)
        by (auto simp: under_key_def)
    qed (simp add: under_key_def)
  qed
  with stored none [of s1] show ?thesis by auto
qed

definition said :: "id \<Rightarrow> string \<Rightarrow> string \<Rightarrow> id option \<Rightarrow> comment" where
  "said n author ty r = (new_comment 1 author ty ''text'' r)\<lparr>cm_id := n, cm_created := n\<rparr>"

definition session_row :: "id \<Rightarrow> string \<Rightarrow> run" where
  "session_row i st = (new_run 1 7 kind_agent_session [] (Some 6) (Some 6) st 0)\<lparr>rn_id := i\<rparr>"

definition replied_engine :: "comment list \<Rightarrow> engine" where
  "replied_engine cs = (engine_on [session_row 4 st_waiting, session_row 5 st_waiting,
      (new_run 1 7 kind_task_orchestrator [] None None st_waiting 0)\<lparr>rn_id := 6\<rparr>]
     [(work_task 1 status_blocked)\<lparr>t_orchestrator_run := Some 6\<rparr>] [])
     \<lparr>e_comments := \<lparr>rows = cs, next_key = 50\<rparr>\<rparr>"

definition handle_quietly :: "instant \<Rightarrow> engine \<Rightarrow> (engine_error + unit) \<times> engine" where
  "handle_quietly now = handle_human_reply demo_outside no_fault (\<lambda>_. no_fault) now 1"

definition asked_and_answered :: "comment list" where
  "asked_and_answered = [said 1 ''agent'' ''ask_user'' (Some 5), said 2 ''human'' ''text'' None]"

theorem reply_delivered_once_witness:
  "(\<exists>n. rows (e_events (snd (handle_quietly 8 (replied_engine asked_and_answered)))) =
     [(answer_row demo_outside 1 6 (said 1 ''agent'' ''ask_user'' (Some 5)) (said 2 ''human'' ''text'' None))
        \<lparr>ev_id := n, ev_created := 8\<rparr>]) \<and>
   e_events (snd (handle_quietly 9 (snd (handle_quietly 8 (replied_engine asked_and_answered))))) =
   e_events (snd (handle_quietly 8 (replied_engine asked_and_answered)))"
proof -
  let ?s = "replied_engine asked_and_answered"
  let ?q = "said 1 ''agent'' ''ask_user'' (Some 5)" and ?a = "said 2 ''human'' ''text'' None"
  let ?s1 = "snd (handle_quietly 8 ?s)"
  have "fst (handle_quietly 8 ?s) = Inr ()" by code_simp
  then have first: "handle_human_reply demo_outside no_fault (\<lambda>_. no_fault) 8 1 ?s = (Inr (), ?s1)"
    by (metis handle_quietly_def prod.collapse)
  have again: "handle_human_reply demo_outside no_fault (\<lambda>_. no_fault) 9 1 ?s1 =
      (fst (handle_quietly 9 ?s1), snd (handle_quietly 9 ?s1))"
    by (simp add: handle_quietly_def)
  have qa: "answered 1 (e_comments ?s) = Some (?q, ?a)" "answered 1 (e_comments ?s1) = Some (?q, ?a)"
    by code_simp+
  have "the_task 1 ?s = Some ((work_task 1 status_blocked)\<lparr>t_orchestrator_run := Some 6\<rparr>)" by code_simp
  moreover have no: "rows (e_events ?s) = []" by code_simp
  ultimately show ?thesis
    using reply_delivered_once [OF first qa(1) _ _ grows_refl again, of _ 6] qa(2) by (simp add: under_key_def)
qed

text \<open>
  A reply is looked for on every human comment, not only on the one that answers: a remark a
  human makes later, on a task that was blocked for another reason, takes the task back to
  progress and is announced as another answer to the old question.
\<close>

lemma later_remark_is_an_answer:
  defines "s \<equiv> replied_engine (asked_and_answered @ [said 3 ''human'' ''text'' None])"
  shows "answered 1 (e_comments s) = Some (said 1 ''agent'' ''ask_user'' (Some 5), said 3 ''human'' ''text'' None) \<and>
         map_option t_status (the_task 1 (snd (handle_quietly 9 s))) = Some status_in_progress \<and>
         map ev_dedupe (rows (e_events (snd (handle_quietly 9 s)))) = [''human-answer:1:3'']"
  unfolding s_def by (intro conjI; code_simp)

text \<open>
  Of two runs that asked, one reply answers both polling loops, but only the run that asked
  last is marked as running again.
\<close>

lemma first_asker_stays_waiting:
  defines "s \<equiv> replied_engine [said 1 ''agent'' ''ask_user'' (Some 4), said 2 ''agent'' ''ask_user'' (Some 5),
      said 3 ''human'' ''text'' None]"
  defines "first \<equiv> ask_human_poll demo_outside no_fault (\<lambda>_. no_fault) 9 1 4 1 s"
  defines "both \<equiv> ask_human_poll demo_outside no_fault (\<lambda>_. no_fault) 9 1 5 2 (snd first)"
  shows "fst first = Some ''text'' \<and> fst both = Some ''text'' \<and>
         map_option rn_status (the_run 4 (snd both)) = Some st_waiting \<and>
         map_option rn_status (the_run 5 (snd both)) = Some st_running"
  unfolding both_def first_def s_def by (intro conjI; code_simp)

end
