(* ===== verification/Orchestrator_Tools.thy ===== *)
theory Orchestrator_Tools
  imports Human_Gate Tool_Policy
begin

text \<open>
  The tools by which the orchestrator of a task manages its worker sessions
  (\<open>engine/orchestrator.go\<close>, \<open>engine/agent_runtime.go\<close>): listing, messages and their answers,
  new sessions, stops, forks, consultations of the CEO, and finishing the task.

  Where the code waits and polls, what the rest of the program does before each further poll
  is a list of state changes; an exhausted list is the context that ends or the timeout.
\<close>

section \<open>Sessions\<close>

definition status_report_freshness :: duration where "status_report_freshness = 10 * minute"
definition max_active_helper_workers :: nat where "max_active_helper_workers = 4"

record managed_session =
  se_id :: id
  se_name :: string
  se_task :: id
  se_agent :: id
  se_agent_name :: string
  se_parent :: "id option"
  se_status :: string
  se_last :: "instant option"
  se_wait :: string
  se_attempts :: int
  se_stop :: string
  se_result :: string
  se_error :: string

definition managed_run_agent_name :: "engine \<Rightarrow> run \<Rightarrow> string" where
  "managed_run_agent_name s r =
     (if rn_kind r = kind_helper_worker then ''Worker''
      else (case tbl_get ar_id (rn_agent r) (e_agents s) of
              Some a \<Rightarrow> if ar_name a \<noteq> [] then ar_name a else rn_name r
            | None \<Rightarrow> rn_name r))"

definition managed_session_summary :: "engine \<Rightarrow> run \<Rightarrow> managed_session" where
  "managed_session_summary s r =
     \<lparr>se_id = rn_id r, se_name = rn_name r, se_task = rn_task r, se_agent = rn_agent r,
      se_agent_name = managed_run_agent_name s r, se_parent = rn_parent r, se_status = rn_status r,
      se_last = rn_last_message r, se_wait = rc_wait_reason (rn_recovery r),
      se_attempts = rc_recovery_attempts (rn_recovery r), se_stop = rc_stop_cause (rn_recovery r),
      se_result = rn_result_description r, se_error = rn_log_content r\<rparr>"

definition orchestrator_sessions :: "bool \<Rightarrow> id \<Rightarrow> engine \<Rightarrow> engine_error + managed_session list" where
  "orchestrator_sessions fault orch s =
     (if fault then Inl Store_Failed
      else Inr (map (managed_session_summary s)
             (filter (\<lambda>r. rn_id r \<noteq> orch \<and> rn_kind r \<noteq> kind_task_orchestrator)
               (list_orchestrator_sessions orch (e_db s)))))"

definition all_worker_sessions_terminal :: "managed_session list \<Rightarrow> bool" where
  "all_worker_sessions_terminal ss \<longleftrightarrow> ss \<noteq> [] \<and> list_all (\<lambda>v. is_terminal_run_status (se_status v)) ss"

definition in_tree :: "id \<Rightarrow> run \<Rightarrow> bool" where
  "in_tree orch r \<longleftrightarrow> rn_id r \<noteq> orch \<and> rn_root r = Some orch"

definition orchestrator_session_run :: "bool \<Rightarrow> id \<Rightarrow> id \<Rightarrow> run act" where
  "orchestrator_session_run fault orch i =
     and_then (read_run fault i) (\<lambda>r. if in_tree orch r then give r else refuse (Outside_Tree i))"

section \<open>Finishing the task\<close>

definition orchestrator_finish_task ::
  "outside \<Rightarrow> (nat \<Rightarrow> faults) \<Rightarrow> instant \<Rightarrow> task \<Rightarrow> id \<Rightarrow> string \<Rightarrow> unit act" where
  "orchestrator_finish_task ox f now t orch summary s =
     (if trim_space summary = [] then (Inl Empty_Message, s)
      else if human_input_pending (f 0 0) (t_id t) s then (Inl Human_Question_Open, s)
      else case orchestrator_sessions (f 1 0) orch s of
        Inl e \<Rightarrow> (Inl e, s)
      | Inr managed \<Rightarrow>
          if \<not> all_worker_sessions_terminal managed then (Inl Workers_Active, s)
          else and_then (read_task (f 2 0) (t_id t))
                 (\<lambda>current. if t_status current = status_done then give ()
                            else and_then (move_task ox (\<lambda>k. f (k + 3)) now current status_done [])
                                   (\<lambda>_. give ())) s)"

section \<open>Messages\<close>

definition session_message :: "outside \<Rightarrow> string \<Rightarrow> string" where
  "session_message ox text = ox_json ox [(''schema_version'', JInt 1), (''message'', JStr text)]"

text \<open>Each poll looks for the answer, then whether the watched run has ended.\<close>

fun wait_for_answer ::
  "(nat \<Rightarrow> faults) \<Rightarrow> id \<Rightarrow> id option \<Rightarrow> (engine \<Rightarrow> engine) list \<Rightarrow> string act" where
  "wait_for_answer f msg watched polls s =
     (case (if f 0 0 then None else find_answer_for_message msg (e_events s)) of
        Some a \<Rightarrow> (Inr (ev_payload a), s)
      | None \<Rightarrow>
          (case (case watched of None \<Rightarrow> Inl NotFound | Some i \<Rightarrow> get_run (f 0 1) i (e_db s)) of
             Inr r \<Rightarrow>
               if is_terminal_run_status (rn_status r) then (Inl (Ended_Before_Answer (rn_status r)), s)
               else (case polls of [] \<Rightarrow> (Inl Context_Done, s)
                     | p # ps \<Rightarrow> wait_for_answer (\<lambda>k. f (Suc k)) msg watched ps (p s))
           | Inl _ \<Rightarrow>
               (case polls of [] \<Rightarrow> (Inl Context_Done, s)
                | p # ps \<Rightarrow> wait_for_answer (\<lambda>k. f (Suc k)) msg watched ps (p s))))"

definition orchestrator_send_message_to_run ::
  "outside \<Rightarrow> (nat \<Rightarrow> faults) \<Rightarrow> instant \<Rightarrow> (engine \<Rightarrow> engine) list \<Rightarrow> id \<Rightarrow> id \<Rightarrow> id \<Rightarrow> string \<Rightarrow> string act"
where
  "orchestrator_send_message_to_run ox f now polls task_id source target text =
     and_then (on_events (enqueue_routed_event (f 0) now task_id source target type_session_message
         (session_message ox text)
         (''orchestrator-message:'' @ dec_int source @ '':'' @ dec_int target @ '':'' @ dec_int now)))
       (\<lambda>e. wait_for_answer (\<lambda>k. f (k + 1)) (ev_id e) (Some target) polls)"

definition create_orchestrator_child_run ::
  "bool \<Rightarrow> instant \<Rightarrow> task \<Rightarrow> id \<Rightarrow> agent_row \<Rightarrow> string \<Rightarrow> run act" where
  "create_orchestrator_child_run fault now t orch a title =
     on_runs (create_run fault (new_run (t_id t) (ar_id a) kind_agent_session title (Some orch) (Some orch)
       st_running now))"

definition child_session :: "task \<Rightarrow> agent_row \<Rightarrow> run \<Rightarrow> string \<Rightarrow> session_start" where
  "child_session t a r prompt =
     (plain_session (t\<lparr>t_agent := Some (ar_id a)\<rparr>) Implement True)\<lparr>ss_instruction := prompt,
       ss_parent := Some (case rn_parent r of None \<Rightarrow> rn_id r | Some p \<Rightarrow> p,
                          case rn_root r of None \<Rightarrow> rn_id r | Some x \<Rightarrow> x, t_id t),
       ss_precreated := Some r\<rparr>"

definition start_orchestrator_child_session :: "task \<Rightarrow> agent_row \<Rightarrow> run \<Rightarrow> string \<Rightarrow> engine \<Rightarrow> engine" where
  "start_orchestrator_child_session t a r prompt s = start (Session (child_session t a r prompt)) s"

definition read_agent_row :: "bool \<Rightarrow> id \<Rightarrow> agent_row act" where
  "read_agent_row fault i s =
     (if fault then (Inl Store_Failed, s)
      else case tbl_get ar_id i (e_agents s) of None \<Rightarrow> (Inl Row_Missing, s) | Some a \<Rightarrow> (Inr a, s))"

definition replacement_prompt :: string where
  "replacement_prompt = ''Answer the task owner's routed question using the existing design context.''"

definition orchestrator_message_terminal_session ::
  "outside \<Rightarrow> (nat \<Rightarrow> faults) \<Rightarrow> instant \<Rightarrow> (engine \<Rightarrow> engine) list \<Rightarrow> task \<Rightarrow> id \<Rightarrow> run \<Rightarrow> string \<Rightarrow> string act"
where
  "orchestrator_message_terminal_session ox f now polls t orch source text =
     and_then (read_agent_row (f 0 0) (rn_agent source)) (\<lambda>a.
     and_then (create_orchestrator_child_run (f 1 0) now t orch a ''Terminal session replacement'')
       (\<lambda>replacement s.
          case on_events (enqueue_routed_event (f 2) now (t_id t) orch (rn_id replacement) type_session_message
                 (session_message ox text)
                 (''orchestrator-terminal-replacement:'' @ dec_int (rn_id source) @ '':'' @
                  dec_int (rn_id replacement) @ '':'' @ dec_int now)) s of
            (Inl e, s) \<Rightarrow> (Inl e, ignoring (log_run (f 3) now (rn_id replacement) (ox_store_error ox) st_failed) s)
          | (Inr ev, s) \<Rightarrow>
              wait_for_answer (\<lambda>k. f (k + 4)) (ev_id ev) (Some (rn_id replacement)) polls
                (start_orchestrator_child_session t a replacement replacement_prompt s)))"

definition orchestrator_send_message ::
  "outside \<Rightarrow> (nat \<Rightarrow> faults) \<Rightarrow> instant \<Rightarrow> (engine \<Rightarrow> engine) list \<Rightarrow> task \<Rightarrow> id \<Rightarrow> id \<Rightarrow> string \<Rightarrow> string act"
where
  "orchestrator_send_message ox f now polls t orch i text =
     and_then (orchestrator_session_run (f 0 0) orch i) (\<lambda>target.
       (let text = trim_space text
        in if text = [] then refuse Empty_Message
           else if is_terminal_run_status (rn_status target) \<or> rn_status target = st_paused
           then orchestrator_message_terminal_session ox (\<lambda>k. f (k + 1)) now polls t orch target text
           else orchestrator_send_message_to_run ox (\<lambda>k. f (k + 1)) now polls (t_id t) orch i text))"

definition ask_task_orchestrator ::
  "outside \<Rightarrow> (nat \<Rightarrow> faults) \<Rightarrow> instant \<Rightarrow> (engine \<Rightarrow> engine) list \<Rightarrow> task \<Rightarrow> id \<Rightarrow> id \<Rightarrow> string \<Rightarrow> string act"
where
  "ask_task_orchestrator ox f now polls t orch worker question =
     (let question = trim_space question
      in if question = [] then refuse Empty_Message
         else and_then (on_comments (create_comment (f 0 0) now
                (new_comment (t_id t) ''agent'' ''ask_owner'' question (Some worker))))
           (\<lambda>c s. and_then (on_events (enqueue_routed_event (f 2) now (t_id t) worker orch type_session_message
                (session_message ox question)
                (''session-message:'' @ dec_int worker @ '':'' @ dec_int orch @ '':'' @ dec_int now)))
              (\<lambda>e. wait_for_answer (\<lambda>k. f (k + 3)) (ev_id e) None polls)
              (broadcast_for_task (f 1 0) (t_id t) (Comment_Created c) s)))"

definition answer_routed_message ::
  "faults \<Rightarrow> instant \<Rightarrow> id \<Rightarrow> id \<Rightarrow> string \<Rightarrow> string act" where
  "answer_routed_message flt now run msg answer =
     (if trim_space answer = [] then refuse Empty_Message
      else and_then (on_events (answer_pending_message flt now run msg answer (''session-answer:'' @ dec_int msg)))
             (\<lambda>e. give (ev_payload e)))"

definition request_worker_status ::
  "outside \<Rightarrow> (nat \<Rightarrow> faults) \<Rightarrow> instant \<Rightarrow> task \<Rightarrow> id \<Rightarrow> id \<Rightarrow> bool act" where
  "request_worker_status ox f now t orch i =
     and_then (orchestrator_session_run (f 0 0) orch i) (\<lambda>_ s.
       if f 1 0 then (Inl Store_Failed, s)
       else if has_recent_run_event i type_status_refresh (now - status_report_freshness) (e_events s)
       then (Inr True, s)
       else and_then (on_events (enqueue_run_event_returning (f 2) now
                \<lparr>ev_id = 0, ev_task = t_id t, ev_run = i, ev_source = None, ev_target = None, ev_reply = None,
                 ev_type = type_status_refresh,
                 ev_payload = ox_json ox [(''task_id'', JInt (t_id t)),
                   (''message'', JStr ''Report your current stage and any blocker using report_status before continuing.'')],
                 ev_dedupe = ''run:'' @ dec_int i @ '':status-refresh:'' @
                   dec_int ((now div second) div (status_report_freshness div second)),
                 ev_created = 0, ev_consumed = None\<rparr>))
              (\<lambda>_. give True) s)"

section \<open>Agents by role\<close>

definition list_agents_by_company :: "id \<Rightarrow> engine \<Rightarrow> agent_row list" where
  "list_agents_by_company company s = sort_key ar_id (tbl_find (\<lambda>a. ar_company a = company) (e_agents s))"

definition matching_agent :: "string \<Rightarrow> bool \<Rightarrow> agent_row list \<Rightarrow> agent_row option" where
  "matching_agent requested builtin agents =
     List.find (\<lambda>a. ar_enabled a \<and> ar_builtin a = builtin \<and>
       role_matches (ar_role_key a) (ar_name a) requested) agents"

definition find_agent_for_role :: "bool \<Rightarrow> id \<Rightarrow> string \<Rightarrow> agent_row act" where
  "find_agent_for_role fault company role s =
     (let requested = trim_space role
      in if requested = [] then (Inl No_Agent, s)
         else if fault then (Inl Store_Failed, s)
         else (let agents = list_agents_by_company company s
               in case matching_agent requested False agents of
                    Some a \<Rightarrow> (Inr a, s)
                  | None \<Rightarrow>
                      (case matching_agent requested True agents of
                         Some a \<Rightarrow> (Inr a, s) | None \<Rightarrow> (Inl No_Agent, s))))"

definition ask_ceo :: "outside \<Rightarrow> (nat \<Rightarrow> faults) \<Rightarrow> instant \<Rightarrow> run \<Rightarrow> task \<Rightarrow> string \<Rightarrow> (id \<times> id) act" where
  "ask_ceo ox f now orch t text =
     (let text = trim_space text
      in if text = [] then refuse Empty_Message
         else and_then (find_agent_for_role (f 0 0) (t_company t) ''CEO'') (\<lambda>ceo.
              and_then (on_runs (create_run (f 1 0) (new_run (t_id t) (ar_id ceo) kind_ceo_consultation
                  ''CEO consultation'' (Some (rn_id orch)) (Some (rn_id orch)) st_running now)))
                (\<lambda>r s.
                   case on_events (enqueue_routed_event (f 2) now (t_id t) (rn_id orch) (rn_id r)
                          type_session_message (session_message ox text)
                          (''ceo-consultation:'' @ dec_int (rn_id orch) @ '':'' @ dec_int (rn_id r))) s of
                     (Inl e, s) \<Rightarrow> (Inl e, ignoring (log_run (f 3) now (rn_id r) (ox_store_error ox) st_failed) s)
                   | (Inr inbound, s) \<Rightarrow>
                       (Inr (rn_id r, ev_id inbound),
                        start (Session ((plain_session (t\<lparr>t_agent := Some (ar_id ceo)\<rparr>) Implement True)
                          \<lparr>ss_consultation := True, ss_parent := Some (rn_id orch, rn_id orch, t_id t),
                           ss_precreated := Some r\<rparr>)) s))))"

definition ask_ceo_tool ::
  "outside \<Rightarrow> (nat \<Rightarrow> faults) \<Rightarrow> instant \<Rightarrow> run \<Rightarrow> task \<Rightarrow> id \<Rightarrow> string \<Rightarrow> (id \<times> id) act" where
  "ask_ceo_tool ox f now orch t task_id text =
     (if task_id \<noteq> t_id t then refuse Wrong_Task else ask_ceo ox f now orch t text)"

section \<open>Lemmas\<close>

lemma and_then_Inl_frame:
  assumes "m s = (Inl e, s)"
  shows "and_then m k s = (Inl e, s)"
  using assms by (simp add: and_then_def)

lemma read_run_eq [simp]:
  "read_run fault i s = (map_sum store_error id (get_run fault i (e_db s)), s)"
  by (simp add: read_run_def on_runs_def)

lemma outside_tree_refused:
  assumes "\<forall>r. the_run i s = Some r \<longrightarrow> \<not> in_tree orch r"
  shows "\<exists>e. orchestrator_session_run fault orch i s = (Inl e, s)"
  using assms by (auto simp: orchestrator_session_run_def and_then_def get_run_def split: option.split)

lemma orchestrator_session_run_Inr:
  "orchestrator_session_run fault orch i s = (Inr r, s') \<longleftrightarrow>
   \<not> fault \<and> the_run i s = Some r \<and> in_tree orch r \<and> s' = s"
  by (auto simp: orchestrator_session_run_def and_then_def get_run_def split: option.splits if_splits)

lemma on_events_Inr:
  assumes "on_events op s = (Inr x, s')"
  shows "op (e_events s) = (Inr x, e_events s')"
  using assms by (auto simp: on_events_def on_runs_def split: prod.splits)

lemma answer_stored:
  assumes "answer_pending_message flt now target m p k t = (Inr a, t')" and "by_reply m t = None"
  shows "ev_payload a = p \<and> (\<exists>x. find_answer_for_message m t' = Some x \<and> ev_payload x = p) \<and>
    (\<exists>r. tbl_get ev_id m t = Some r \<and> ev_target r = Some target \<and> ev_type r = type_session_message)"
proof -
  let ?p = "\<lambda>x. ev_reply x = Some m \<and> ev_type x = type_session_answer"
  have body: "answer_body flt now target m p k t = (Inr a, t')"
    using assms(1) by (auto simp: answer_pending_message_def transaction_success_body split: if_splits)
  obtain r t1 where r: "tbl_get ev_id m t = Some r" "ev_target r = Some target" "ev_type r = type_session_message"
      and ins: "insert_event (flt 2) (answer_event now target m p k r) t = Some (a, t1)"
      and t': "t' = consume_where (\<lambda>x. ev_id x = m) now t1"
    using body assms(2) by (auto simp: answer_body_def split: if_splits option.splits)
  have a: "rows t1 = rows t @ [a]" "ev_payload a = p" "?p a"
    using ins by (auto simp: insert_event_def tbl_create_def Let_def answer_event_def split: if_splits)
  have "List.find ?p (rows t) = None"
    using assms(2) by (auto simp: by_reply_def tbl_first_def find_None_iff)
  then have "tbl_first ?p t1 = Some a"
    using a by (simp add: tbl_first_def find_append_right)
  from grows_first [OF grows_consume this, of "\<lambda>x. ev_id x = m" now]
  obtain x where "tbl_first ?p t' = Some x" "unconsumed x = unconsumed a"
    unfolding t' by (auto simp: unconsumed_def)
  moreover from this have "ev_payload x = p"
    using a(2) by (metis run_event.select_convs(8) run_event.surjective run_event.update_convs(11) unconsumed_def)
  ultimately show ?thesis using r a(2) by (auto simp: find_answer_for_message_def)
qed

text \<open>A worker session of the tree that has not ended.\<close>

definition live_session :: "id \<Rightarrow> engine \<Rightarrow> id \<Rightarrow> bool" where
  "live_session orch s i \<longleftrightarrow>
     (case the_run i s of
        None \<Rightarrow> False
      | Some r \<Rightarrow> in_tree orch r \<and> rn_kind r \<noteq> kind_task_orchestrator \<and>
                  \<not> is_terminal_run_status (rn_status r))"

lemma live_session_listed:
  assumes "orchestrator_sessions fault orch s = Inr ss" and "live_session orch s i"
  shows "\<not> all_worker_sessions_terminal ss"
proof -
  obtain r where r: "the_run i s = Some r" "in_tree orch r" "rn_kind r \<noteq> kind_task_orchestrator"
      "\<not> is_terminal_run_status (rn_status r)"
    using assms(2) by (auto simp: live_session_def split: option.splits)
  have "r \<in> set (rows (runs (e_db s)))" using run_rows.get_Some_D [OF r(1)] by simp
  then have "managed_session_summary s r \<in> set ss"
    using assms(1) r by (auto simp: orchestrator_sessions_def list_orchestrator_sessions_def in_tree_def
        split: if_splits)
  moreover have "se_status (managed_session_summary s r) = rn_status r"
    by (simp add: managed_session_summary_def)
  ultimately show ?thesis
    using r(4) unfolding all_worker_sessions_terminal_def list_all_iff by metis
qed

section \<open>Properties\<close>

text \<open>A task with its orchestrator, number 10, and a worker session in status \<open>st\<close>.\<close>

definition tree_engine :: "string \<Rightarrow> engine" where
  "tree_engine st = engine_on
     [(demo_run 10 st_running)\<lparr>rn_kind := kind_task_orchestrator\<rparr>,
      (demo_run 11 st)\<lparr>rn_kind := kind_agent_session, rn_parent := Some 10, rn_root := Some 10\<rparr>]
     [work_task 1 status_in_progress] []"

text \<open>A human question of the task is open in the stored comments.\<close>

definition question_open :: "engine \<Rightarrow> id \<Rightarrow> bool" where
  "question_open s i \<longleftrightarrow> pending_in None (list_comments_by_task i (e_comments s)) \<noteq> None"

lemma question_open_pending: "human_input_pending fault i s \<longleftrightarrow> \<not> fault \<and> question_open s i"
  by (auto simp: human_input_pending_def find_pending_human_question_def question_open_def)

text \<open>
  C11: a task is finished by its orchestrator only when that is settled: while no session was
  started, or a session of the tree has not ended, or a question to a human is open in the stored
  comments and they can be read, finishing is refused and changes nothing; when it succeeds, every
  session of the tree has ended and the stored task is done.  A failing read of the comments
  counts as no question (see \<open>unreadable_question_lets_finish\<close>).
\<close>

theorem task_finished_after_its_sessions:
  assumes "orchestrator_finish_task ox f now t orch summary s = (r, s')"
  shows "(question_open s (t_id t) \<and> \<not> f 0 0 \<or> orchestrator_sessions False orch s = Inr [] \<or>
          (\<exists>i. live_session orch s i) \<longrightarrow> (\<exists>e. r = Inl e) \<and> s' = s) \<and>
         (r = Inr () \<longrightarrow> trim_space summary \<noteq> [] \<and>
            (\<exists>v. the_task (t_id t) s' = Some v \<and> t_status v = status_done))"
proof (intro conjI allI impI)
  assume "question_open s (t_id t) \<and> \<not> f 0 0 \<or> orchestrator_sessions False orch s = Inr [] \<or>
          (\<exists>i. live_session orch s i)"
  then have a: "human_input_pending (f 0 0) (t_id t) s \<or> orchestrator_sessions False orch s = Inr [] \<or>
          (\<exists>i. live_session orch s i)" by (auto simp: question_open_pending)
  have live: "\<not> all_worker_sessions_terminal ss" if ss: "orchestrator_sessions (f 1 0) orch s = Inr ss"
    "\<not> human_input_pending (f 0 0) (t_id t) s" for ss
    using a that live_session_listed [OF ss(1)]
    by (auto simp: all_worker_sessions_terminal_def orchestrator_sessions_def split: if_splits)
  have "\<exists>e. orchestrator_finish_task ox f now t orch summary s = (Inl e, s)"
  proof (cases "trim_space summary = [] \<or> human_input_pending (f 0 0) (t_id t) s")
    case False
    then show ?thesis
      using live unfolding orchestrator_finish_task_def by (cases "orchestrator_sessions (f 1 0) orch s") simp_all
  qed (auto simp: orchestrator_finish_task_def)
  with assms show "\<exists>e. r = Inl e" and "s' = s" by simp_all
next
  assume r: "r = Inr ()"
  then have ok: "trim_space summary \<noteq> []"
    and m: "and_then (read_task (f 2 0) (t_id t)) (\<lambda>current. if t_status current = status_done then give ()
         else and_then (move_task ox (\<lambda>k. f (k + 3)) now current status_done []) (\<lambda>_. give ())) s = (Inr (), s')"
    using assms by (auto simp: orchestrator_finish_task_def split: if_splits sum.splits)
  show "trim_space summary \<noteq> []" by (rule ok)
  obtain c where c: "the_task (t_id t) s = Some c"
      "(if t_status c = status_done then give ()
         else and_then (move_task ox (\<lambda>k. f (k + 3)) now c status_done []) (\<lambda>_. give ())) s = (Inr (), s')"
    using m by (auto simp: and_then_Inr get_task_Inr simp del: read_task_eq simp: read_task_Inr)
  show "\<exists>v. the_task (t_id t) s' = Some v \<and> t_status v = status_done"
    using c task_id [OF c(1)] by (auto simp: and_then_Inr dest!: move_task_Inr split: if_splits)
qed

theorem task_finished_after_its_sessions_witness:
  "\<exists>s' v. orchestrator_finish_task demo_outside no_fault 9 (work_task 1 status_in_progress) 10 ''ok''
            (tree_engine st_completed) = (Inr (), s') \<and> the_task 1 s' = Some v \<and> t_status v = status_done"
proof -
  let ?r = "orchestrator_finish_task demo_outside no_fault 9 (work_task 1 status_in_progress) 10 ''ok''
    (tree_engine st_completed)"
  have "fst ?r = Inr ()" by code_simp
  then obtain s' where p: "?r = (Inr (), s')" by (cases ?r) simp
  have "t_id (work_task 1 status_in_progress) = 1" by (simp add: work_task_def demo_task_def)
  with task_finished_after_its_sessions [OF p] p show ?thesis by auto
qed

text \<open>The one exception: an unreadable comment table lets a task with an open question be finished.\<close>

lemma unreadable_question_lets_finish:
  "\<exists>s. question_open s 1 \<and>
     fst (orchestrator_finish_task demo_outside (\<lambda>k. if k = 0 then (\<lambda>_. True) else no_fault k) 9
            (work_task 1 status_in_progress) 10 ''ok'' s) = Inr ()"
proof (intro exI conjI)
  let ?s = "(tree_engine st_completed)\<lparr>e_comments := \<lparr>rows =
    [(new_comment 1 ''agent'' ''ask_user'' ''which?'' (Some 11))\<lparr>cm_id := 1\<rparr>], next_key = 2\<rparr>\<rparr>"
  show "question_open ?s 1" by code_simp
  show "fst (orchestrator_finish_task demo_outside (\<lambda>k. if k = 0 then (\<lambda>_. True) else no_fault k) 9
            (work_task 1 status_in_progress) 10 ''ok'' ?s) = Inr ()" by code_simp
qed

text \<open>
  C10: the sender of a message gets exactly the answer the addressed session gave: once a
  message was answered, every later look for the answer returns it, whatever else happened in
  between and even when the answering session has ended meanwhile; only the session the
  message was addressed to can give it.
\<close>

theorem answer_reaches_the_sender:
  assumes "answer_routed_message flt now run msg answer s = (Inr a, s')"
    and "by_reply msg (e_events s) = None"
    and "grows (e_events s') (e_events s'')" and "\<not> f 0 0"
  shows "trim_space answer \<noteq> [] \<and> a = answer \<and>
         wait_for_answer f msg watched polls s'' = (Inr answer, s'') \<and>
         (\<exists>m. tbl_get ev_id msg (e_events s) = Some m \<and> ev_target m = Some run \<and>
              ev_type m = type_session_message)"
proof -
  let ?op = "answer_pending_message flt now run msg answer (''session-answer:'' @ dec_int msg)"
  obtain e where e: "on_events ?op s = (Inr e, s')" "a = ev_payload e" and nonblank: "trim_space answer \<noteq> []"
    using assms(1) by (auto simp: answer_routed_message_def and_then_Inr split: if_splits)
  note stored = answer_stored [OF on_events_Inr [OF e(1)] assms(2)]
  then obtain x where x: "find_answer_for_message msg (e_events s') = Some x" "ev_payload x = answer" by blast
  obtain y where y: "find_answer_for_message msg (e_events s'') = Some y" "unconsumed y = unconsumed x"
    using grows_first [OF assms(3), of "\<lambda>x. ev_reply x = Some msg \<and> ev_type x = type_session_answer" x] x(1)
    by (auto simp: find_answer_for_message_def unconsumed_def)
  have "ev_payload y = ev_payload x"
    using y(2) by (metis run_event.select_convs(8) run_event.surjective run_event.update_convs(11) unconsumed_def)
  with y(1) x(2) assms(4) have "wait_for_answer f msg watched polls s'' = (Inr answer, s'')"
    by (cases polls) simp_all
  with stored e(2) nonblank show ?thesis by auto
qed

definition asked_engine :: "string \<Rightarrow> engine" where
  "asked_engine st = snd (on_events (enqueue_routed_event no_faults 5 1 10 11 type_session_message ''q?'' ''k'')
     (tree_engine st))"

theorem answer_reaches_the_sender_witness:
  "wait_for_answer no_fault 1 (Some 11) []
     (snd (answer_routed_message no_faults 9 11 1 ''yes'' (asked_engine st_running))) =
   (Inr ''yes'', snd (answer_routed_message no_faults 9 11 1 ''yes'' (asked_engine st_running)))"
proof -
  let ?r = "answer_routed_message no_faults 9 11 1 ''yes'' (asked_engine st_running)"
  have "fst ?r = Inr ''yes''" by code_simp
  then have p: "?r = (Inr ''yes'', snd ?r)" by (cases ?r) simp
  have none: "by_reply 1 (e_events (asked_engine st_running)) = None" by code_simp
  have "\<not> no_fault 0 0" by (simp add: no_fault_def)
  from answer_reaches_the_sender [where f = no_fault and watched = "Some 11" and polls = "[]", OF p none grows_refl this] show ?thesis by simp
qed

text \<open>The wait of a worker's question ends with an answer or with the worker itself only.\<close>

lemma question_outlives_its_owner:
  assumes "find_answer_for_message msg (e_events s) = None"
    and "\<And>p s. p \<in> set polls \<Longrightarrow> e_events (p s) = e_events s"
  shows "wait_for_answer f msg None polls s = (Inl Context_Done, fold (\<lambda>p. p) polls s)"
  using assms
  by (induction polls arbitrary: f s; subst wait_for_answer.simps) (simp_all del: wait_for_answer.simps)

end
