(* ===== verification/Worker_Sessions.thy ===== *)
theory Worker_Sessions
  imports Orchestrator_Tools
begin

text \<open>
  New worker sessions, replacements, stops and forks (\<open>engine/orchestrator.go\<close>), and the helper
  workers a session starts itself (\<open>engine/helper_workers.go\<close>).  A wait for a session to stop is
  a list of state changes, one per poll; \<open>copyWorkspace\<close> and stored logs are arguments.
\<close>

section \<open>The task lock of a session\<close>

text \<open>
  What \<open>executeSession\<close> does to the lock of its task: a new session claims it before it works
  (the result is the status it ends with at once, if it does), every session then locks it where
  it is free, and clears it when it ends other than paused.
\<close>

definition session_claim ::
  "outside \<Rightarrow> (nat \<Rightarrow> faults) \<Rightarrow> instant \<Rightarrow> session_start \<Rightarrow> id \<Rightarrow> engine \<Rightarrow> string option \<times> engine" where
  "session_claim ox f now x run s =
     (if ss_run x = None \<and> \<not> ss_skip_lock x then
        (case on_tasks (claim_task_run (f 0 0) (t_id (ss_task x)) run) s of
           (Inl _, s) \<Rightarrow> (Some st_failed, ignoring (log_run (f 1) now run (ox_store_error ox) st_failed) s)
         | (Inr claimed, s) \<Rightarrow>
             if \<not> claimed
             then (Some st_canceled, ignoring (log_run (f 1) now run ''task already claimed by another run'' st_canceled) s)
             else (None, s))
      else (None, s))"

definition session_lock :: "bool \<Rightarrow> session_start \<Rightarrow> id \<Rightarrow> engine \<Rightarrow> engine" where
  "session_lock fault x run s =
     (if \<not> ss_skip_lock x then ignoring (on_tasks (lock_task_run fault (t_id (ss_task x)) run)) s else s)"

definition session_unlock :: "bool \<Rightarrow> bool \<Rightarrow> session_start \<Rightarrow> engine \<Rightarrow> engine" where
  "session_unlock fault paused x s =
     (if paused then s else if ss_skip_lock x then s
      else ignoring (on_tasks (unlock_task_run fault (t_id (ss_task x)))) s)"

section \<open>Stopping\<close>

definition orchestrator_stop :: "(nat \<Rightarrow> faults) \<Rightarrow> id \<Rightarrow> id \<Rightarrow> unit act" where
  "orchestrator_stop f orch i =
     and_then (orchestrator_session_run (f 0 0) orch i) (\<lambda>_ s.
       (Inr (), stop_run i (ignoring (on_runs (set_run_stop_cause (f 1) i ''orchestrator'')) s)))"

fun wait_for_fork_stop :: "faults \<Rightarrow> id \<Rightarrow> (engine \<Rightarrow> engine) list \<Rightarrow> unit act" where
  "wait_for_fork_stop flt i polls s =
     (case get_run (flt 0) i (e_db s) of
        Inl e \<Rightarrow> (Inl (store_error e), s)
      | Inr r \<Rightarrow>
          if is_terminal_run_status (rn_status r) \<or> rn_status r = st_paused then (Inr (), s)
          else (case polls of [] \<Rightarrow> (Inl Context_Done, s)
                | p # ps \<Rightarrow> wait_for_fork_stop (\<lambda>k. flt (Suc k)) i ps (p s)))"

definition stop_and_wait :: "(nat \<Rightarrow> faults) \<Rightarrow> id \<Rightarrow> (engine \<Rightarrow> engine) list \<Rightarrow> unit act" where
  "stop_and_wait f i polls s =
     wait_for_fork_stop (f 1) i polls
       (stop_run i (ignoring (on_runs (set_run_stop_cause (f 0) i ''orchestrator'')) s))"

section \<open>Helper workers\<close>

definition active_worker :: "run \<Rightarrow> bool" where
  "active_worker r \<longleftrightarrow> rn_kind r = kind_helper_worker \<and> rn_status r \<in> {st_running, st_waiting}"

definition active_workers :: "id \<Rightarrow> engine \<Rightarrow> nat" where
  "active_workers parent s = length (filter active_worker (list_child_runs parent (e_db s)))"

definition company_of :: "bool \<Rightarrow> id \<Rightarrow> company act" where
  "company_of fault i s =
     (if fault then (Inl Store_Failed, s)
      else case tbl_get co_id i (companies (task_store (e_db s))) of
             None \<Rightarrow> (Inl Row_Missing, s) | Some c \<Rightarrow> (Inr c, s))"

definition root_task_or :: "(nat \<Rightarrow> faults) \<Rightarrow> id \<Rightarrow> task \<Rightarrow> engine \<Rightarrow> task" where
  "root_task_or f i t s =
     (case get_root_task (f 0 0) (f 1) i (task_store (e_db s)) of Inl _ \<Rightarrow> t | Inr base \<Rightarrow> base)"

definition worker_session ::
  "task \<Rightarrow> id \<Rightarrow> id \<times> id \<times> id \<Rightarrow> run \<Rightarrow> string \<Rightarrow> string list \<Rightarrow> llm_provider \<times> string \<Rightarrow> string \<Rightarrow> session_start"
where
  "worker_session t agent parent row dir read_only target prompt =
     (plain_session (t\<lparr>t_agent := Some agent\<rparr>) Implement True)\<lparr>ss_instruction := prompt,
        ss_parent := Some parent, ss_precreated := Some row, ss_worker := True, ss_workspace := dir,
        ss_read_only := read_only, ss_target := Some target\<rparr>"

text \<open>The row of the worker, its directory, and its session; also the tail of \<open>runWorker\<close>.\<close>

definition launch_worker ::
  "outside \<Rightarrow> (nat \<Rightarrow> faults) \<Rightarrow> instant \<Rightarrow> task \<Rightarrow> task \<Rightarrow> company \<Rightarrow> run \<Rightarrow> id \<Rightarrow> llm_provider \<times> string \<Rightarrow>
   string \<Rightarrow> string \<Rightarrow> run act" where
  "launch_worker ox f now t base c parent agent target title prompt =
     (let parent_dir = trim_space (rn_workspace parent);
          parent_dir = (if parent_dir = [] then worktree_dir (ox_base ox) (co_short c) (t_id base) else parent_dir);
          artifacts = task_artifacts_dir (ox_base ox) (co_short c) (t_id base);
          base_run = (case rn_root parent of None \<Rightarrow> rn_id parent | Some x \<Rightarrow> x)
      in and_then (on_runs (create_run (f 0 0)
             (new_run (t_id t) agent kind_helper_worker title (Some (rn_id parent)) (Some base_run) st_running now)))
          (\<lambda>w s.
             let dir = run_workspace_dir (ox_base ox) (co_short c) (t_id base) (rn_id w)
             in case on_runs (update_run_workspace_path (f 1 0) (rn_id w) dir) s of
                  (Inl e, s) \<Rightarrow>
                    (Inl e, fail_run (\<lambda>k. f (k + 2)) now (rn_id w)
                              (''persist worker workspace: '' @ ox_store_error ox) s)
                | (Inr _, s) \<Rightarrow>
                    (Inr (w\<lparr>rn_workspace := dir\<rparr>),
                     start (Session (worker_session t agent (rn_id parent, base_run, t_id base)
                        (w\<lparr>rn_workspace := dir\<rparr>) dir [parent_dir, artifacts] target prompt)) s)))"

definition helper_model :: "outside \<Rightarrow> faults \<Rightarrow> id \<Rightarrow> (llm_provider \<times> string) act" where
  "helper_model ox flt company s =
     (case resolve_helper_worker_model (\<lambda>k. flt (k + 1)) (ox_port ox)
             (owner_user_id_for_company (flt 0) company s) (e_models s) of
        Inl e \<Rightarrow> (Inl (Model_Unavailable e), s) | Inr target \<Rightarrow> (Inr target, s))"

definition place_worker ::
  "outside \<Rightarrow> (nat \<Rightarrow> faults) \<Rightarrow> instant \<Rightarrow> task \<Rightarrow> run \<Rightarrow> id \<Rightarrow> string \<Rightarrow> string \<Rightarrow> run act" where
  "place_worker ox f now t parent agent title prompt =
     and_then (helper_model ox (f 0) (t_company t)) (\<lambda>target s.
       (let base = root_task_or (\<lambda>k. f (k + 1)) (t_id t) t s
        in and_then (company_of (f 3 0) (t_company t)) (\<lambda>c.
             launch_worker ox (\<lambda>k. f (k + 4)) now t base c parent agent target title prompt) s))"

text \<open>\<open>agentCanUseWorkers\<close> on a row: the columns it reads.\<close>

definition row_can_use_workers :: "agent_row \<Rightarrow> bool" where
  "row_can_use_workers a =
     agent_can_use_workers \<lparr>ag_name = ar_name a, ag_role_key = ar_role_key a,
       ag_can_use_workers = ar_can_use_workers a, ag_allowed_mcps = [], ag_permissions = [],
       ag_worker_permissions = [], ag_worker_allowed_mcps = []\<rparr>"

definition run_worker ::
  "outside \<Rightarrow> (nat \<Rightarrow> faults) \<Rightarrow> instant \<Rightarrow> run \<Rightarrow> task \<Rightarrow> string \<Rightarrow> run act" where
  "run_worker ox f now parent t prompt =
     and_then (read_agent_row (f 0 0) (rn_agent parent)) (\<lambda>a s.
       if \<not> row_can_use_workers a then (Inl Workers_Not_Allowed, s)
       else if f 1 0 then (Inl Store_Failed, s)
       else (let n = active_workers (rn_id parent) s
             in if n \<ge> max_active_helper_workers then (Inl (Too_Many_Workers n), s)
                else place_worker ox (\<lambda>k. f (k + 2)) now t parent (rn_agent parent) ''One-time helper job'' prompt s))"

definition own_worker :: "id \<Rightarrow> run \<Rightarrow> bool" where
  "own_worker parent r \<longleftrightarrow> rn_kind r = kind_helper_worker \<and> rn_parent r = Some parent"

definition list_helper_workers :: "id \<Rightarrow> engine \<Rightarrow> run list" where
  "list_helper_workers parent s =
     filter (\<lambda>r. rn_kind r = kind_helper_worker) (list_child_runs parent (e_db s))"

definition bounded_log_tail :: "string \<Rightarrow> nat \<Rightarrow> string list" where
  "bounded_log_tail content n =
     (let lines = split_on (CHR 0x0A) content;
          lines = (if length lines > n then drop (length lines - n) lines else lines)
      in filter (\<lambda>l. trim_space l \<noteq> []) lines)"

definition get_helper_worker_info :: "bool \<Rightarrow> id \<Rightarrow> id \<Rightarrow> (run \<times> string list) act" where
  "get_helper_worker_info fault parent i =
     and_then (read_run fault i) (\<lambda>r.
       if \<not> own_worker parent r then refuse (Outside_Tree i)
       else give (r, bounded_log_tail (rn_log_content r) 20))"

text \<open>False: it had ended already.\<close>

definition stop_helper_worker :: "(nat \<Rightarrow> faults) \<Rightarrow> id \<Rightarrow> id \<Rightarrow> string \<Rightarrow> bool act" where
  "stop_helper_worker f parent i reason =
     and_then (read_run (f 0 0) i) (\<lambda>r s.
       if \<not> own_worker parent r then (Inl (Outside_Tree i), s)
       else if rn_status r \<in> {st_completed, st_failed, st_canceled} then (Inr False, s)
       else (Inr True, ignoring (on_runs (set_run_stop_cause (f 1) i reason)) (stop_run i s)))"

section \<open>A new session of the orchestrator\<close>

definition orchestrator_run_new_worker ::
  "outside \<Rightarrow> (nat \<Rightarrow> faults) \<Rightarrow> instant \<Rightarrow> task \<Rightarrow> id \<Rightarrow> string \<Rightarrow> string \<Rightarrow> run act" where
  "orchestrator_run_new_worker ox f now t orch title prompt =
     (case t_agent t of
        None \<Rightarrow> refuse No_Assigned_Agent
      | Some agent \<Rightarrow>
          and_then (read_run (f 0 0) orch) (\<lambda>parent s.
            if f 1 0 then (Inl Store_Failed, s)
            else (let n = active_workers orch s
                  in if n \<ge> max_active_helper_workers then (Inl (Too_Many_Workers n), s)
                     else and_then (read_agent_row (f 2 0) agent) (\<lambda>a.
                            place_worker ox (\<lambda>k. f (k + 3)) now t parent (ar_id a) title prompt) s)))"

text \<open>Characters of a UTF-8 string: its bytes that continue no character.\<close>

definition rune_count :: "string \<Rightarrow> nat" where
  "rune_count s = length (filter (\<lambda>c. let n = of_char c :: nat in n < 128 \<or> n \<ge> 192) s)"

definition lock_free :: "id \<Rightarrow> task \<Rightarrow> bool" where
  "lock_free orch t \<longleftrightarrow> (case t_run t of None \<Rightarrow> True | Some r \<Rightarrow> r = orch)"

definition read_launch_task :: "bool \<Rightarrow> id \<Rightarrow> id \<Rightarrow> task act" where
  "read_launch_task fault orch i =
     and_then (read_task fault i) (\<lambda>t.
       case t_run t of
         None \<Rightarrow> give t
       | Some r \<Rightarrow> if r \<noteq> orch then refuse (Locked_By r) else give t)"

definition retire_source ::
  "(nat \<Rightarrow> faults) \<Rightarrow> (engine \<Rightarrow> engine) list \<Rightarrow> id \<Rightarrow> id \<Rightarrow> task act" where
  "retire_source f polls orch i =
     and_then (orchestrator_session_run (f 0 0) orch i) (\<lambda>src.
     and_then (read_launch_task (f 1 0) orch (rn_task src)) (\<lambda>_.
       if rc_recovery_attempts (rn_recovery src) \<ge> 3 then refuse Recovery_Limit
       else and_then (on_runs (increment_run_recovery_attempts (f 2) (rn_id src))) (\<lambda>_.
            and_then (stop_and_wait (\<lambda>k. f (k + 3)) (rn_id src) polls) (\<lambda>_.
              read_launch_task (f 5 0) orch (rn_task src)))))"

definition start_new_session ::
  "outside \<Rightarrow> (nat \<Rightarrow> faults) \<Rightarrow> instant \<Rightarrow> task \<Rightarrow> id \<Rightarrow> string \<Rightarrow> string \<Rightarrow> string \<Rightarrow> run act" where
  "start_new_session ox f now t orch name title prompt =
     (let name = trim_space name; title = trim_space title; prompt = trim_space prompt
      in if name = [] \<or> title = [] \<or> prompt = [] then refuse Empty_Message
         else if rune_count title > 160 then refuse Bad_Title
         else if equal_fold name ''worker'' then orchestrator_run_new_worker ox f now t orch title prompt
         else and_then (find_agent_for_role (f 0 0) (t_company t) name) (\<lambda>a.
                if ar_company a \<noteq> t_company t then refuse Foreign_Agent
                else and_then (create_orchestrator_child_run (f 1 0) now t orch a title) (\<lambda>r s.
                       (Inr r, start_orchestrator_child_session t a r prompt s))))"

definition orchestrator_run_new ::
  "outside \<Rightarrow> (nat \<Rightarrow> faults) \<Rightarrow> instant \<Rightarrow> (engine \<Rightarrow> engine) list \<Rightarrow> task \<Rightarrow> id \<Rightarrow> id option \<Rightarrow>
   string \<Rightarrow> string \<Rightarrow> string \<Rightarrow> run act" where
  "orchestrator_run_new ox f now polls t orch source name title prompt =
     and_then (case source of None \<Rightarrow> give t | Some i \<Rightarrow> retire_source f polls orch i) (\<lambda>t.
       start_new_session ox (\<lambda>k. f (k + 6)) now t orch name title prompt)"

section \<open>Forks\<close>

definition quiesce :: "(nat \<Rightarrow> faults) \<Rightarrow> (engine \<Rightarrow> engine) list \<Rightarrow> run \<Rightarrow> run act" where
  "quiesce f polls src =
     (if rn_status src \<in> {st_running, st_waiting}
      then and_then (stop_and_wait f (rn_id src) polls) (\<lambda>_. read_run (f 2 0) (rn_id src))
      else give src)"

definition take_fork_lock :: "(nat \<Rightarrow> faults) \<Rightarrow> id \<Rightarrow> run \<Rightarrow> task act" where
  "take_fork_lock f orch src =
     and_then (read_task (f 0 0) (rn_task src)) (\<lambda>t.
       case t_run t of
         None \<Rightarrow> give t
       | Some r \<Rightarrow>
           if r \<noteq> rn_id src \<and> r \<noteq> orch then refuse (Locked_By r)
           else if r = rn_id src then and_then (on_tasks (unlock_task_run (f 1 0) (t_id t))) (\<lambda>_. give t)
           else give t)"

definition fork_session :: "task \<Rightarrow> run \<Rightarrow> run \<Rightarrow> message list \<Rightarrow> session_start" where
  "fork_session t src row history =
     (plain_session (t\<lparr>t_agent := Some (rn_agent src)\<rparr>) Implement True)
       \<lparr>ss_seed := history, ss_precreated := Some row\<rparr>"

definition launch_fork ::
  "outside \<Rightarrow> (nat \<Rightarrow> faults) \<Rightarrow> instant \<Rightarrow> id \<Rightarrow> task \<Rightarrow> task \<Rightarrow> company \<Rightarrow> run \<Rightarrow> message list \<Rightarrow> run act" where
  "launch_fork ox f now orch t base c src history =
     and_then (on_runs (create_run (f 0 0)
         (new_run (rn_task src) (rn_agent src) kind_agent_session
            (if trim_space (rn_title src) = [] then ''Forked session'' else rn_title src) (Some orch) (Some orch) st_running now)))
       (\<lambda>r s.
          let dir = run_workspace_dir (ox_base ox) (co_short c) (t_id base) (rn_id r);
              from_dir = trim_space (rn_workspace src);
              from_dir = (if from_dir = [] then worktree_dir (ox_base ox) (co_short c) (t_id base) else from_dir)
          in if \<not> ox_copy ox from_dir dir
             then (Inl Copy_Failed, fail_run (\<lambda>k. f (k + 2)) now (rn_id r) ''copy source workspace for fork'' s)
             else case on_runs (update_run_workspace_path (f 1 0) (rn_id r) dir) s of
                    (Inl e, s) \<Rightarrow> (Inl e, fail_run (\<lambda>k. f (k + 2)) now (rn_id r)
                                    (''persist fork workspace: '' @ ox_store_error ox) s)
                  | (Inr _, s) \<Rightarrow>
                      (Inr (r\<lparr>rn_workspace := dir\<rparr>),
                       start (Session (fork_session t src (r\<lparr>rn_workspace := dir\<rparr>) history)) s))"

definition orchestrator_fork ::
  "outside \<Rightarrow> (nat \<Rightarrow> faults) \<Rightarrow> instant \<Rightarrow> (engine \<Rightarrow> engine) list \<Rightarrow> id \<Rightarrow> id \<Rightarrow> int \<Rightarrow> (run \<times> int) act" where
  "orchestrator_fork ox f now polls orch i message =
     (if message \<le> 0 then refuse Bad_Message_Id
      else and_then (orchestrator_session_run (f 0 0) orch i) (\<lambda>_.
      and_then (read_run (f 1 0) i) (\<lambda>src.
      and_then (quiesce (\<lambda>k. f (k + 2)) polls src) (\<lambda>src.
        if \<not> is_terminal_run_status (rn_status src) \<and> rn_status src \<noteq> st_paused then refuse Not_Forkable
        else and_then (take_fork_lock (\<lambda>k. f (k + 5)) orch src) (\<lambda>t s.
          case load_safe_message_history (ox_decoder ox) (ox_file ox (rn_log_file src)) message of
            Inl _ \<Rightarrow> (Inl History_Unreadable, s)
          | Inr (history, safe) \<Rightarrow>
              (let base = root_task_or (\<lambda>k. f (k + 7)) (rn_task src) t s
               in and_then (company_of (f 9 0) (t_company base)) (\<lambda>c.
                  and_then (launch_fork ox (\<lambda>k. f (k + 10)) now orch t base c src history) (\<lambda>r.
                    give (r, safe))) s))))))"

section \<open>Lemmas\<close>

lemma orchestrator_session_run_Inl:
  assumes "\<forall>r. the_run i s = Some r \<longrightarrow> \<not> in_tree orch r"
  shows "\<exists>e. and_then (orchestrator_session_run fault orch i) k s = (Inl e, s)"
  using outside_tree_refused [OF assms, of fault] by (auto simp: and_then_def)

lemma and_then_read:
  assumes "and_then m k s = (Inr y, s')" and "\<And>x t. m s = (Inr x, t) \<Longrightarrow> t = s"
  shows "\<exists>x. m s = (Inr x, s) \<and> k x s = (Inr y, s')"
  using assms(1) assms(2) by (auto simp: and_then_Inr)

lemma company_of_Inr: "company_of fault i s = (Inr c, s') \<Longrightarrow> s' = s"
  by (auto simp: company_of_def split: if_splits option.splits)

lemma helper_model_Inr: "helper_model ox flt i s = (Inr x, s') \<Longrightarrow> s' = s"
  by (auto simp: helper_model_def split: sum.splits)

lemma read_agent_row_Inr: "read_agent_row fault i s = (Inr a, s') \<Longrightarrow> s' = s"
  by (auto simp: read_agent_row_def split: if_splits option.splits)

lemma create_run_Inr:
  assumes "on_runs (create_run fault x) s = (Inr r, s')"
  shows "r = x\<lparr>rn_id := next_key (runs (e_db s))\<rparr> \<and>
         s' = s\<lparr>e_db := (e_db s)\<lparr>runs := snd (tbl_create set_rn_id x (runs (e_db s)))\<rparr>\<rparr>"
  using assms by (auto simp: on_runs_def create_run_def tbl_create_def Let_def split: if_splits)

lemma workspace_Inr:
  assumes "on_runs (update_run_workspace_path fault i v) s = (Inr u, s')"
  shows "s' = s\<lparr>e_db := (e_db s)\<lparr>runs := tbl_update (\<lambda>r. rn_id r = i) (\<lambda>r. r\<lparr>rn_workspace := v\<rparr>)
           (runs (e_db s))\<rparr>\<rparr>"
  using assms by (auto simp: on_runs_def update_run_workspace_path_def run_update_def update_run_def split: if_splits)

text \<open>The tree a new session of \<open>parent\<close> belongs to.\<close>

definition tree_root :: "run \<Rightarrow> id" where
  "tree_root parent = (case rn_root parent of None \<Rightarrow> rn_id parent | Some x \<Rightarrow> x)"

lemma launch_worker_Inr:
  assumes "launch_worker ox f now t base c parent agent target title prompt s = (Inr r, s')"
  shows "\<exists>x dir t2. rn_kind r = kind_helper_worker \<and> rn_parent r = Some (rn_id parent) \<and> rn_status r = st_running \<and>
     rn_root r = Some (tree_root parent) \<and> r \<in> set (rows (runs (e_db s'))) \<and>
     task_store (e_db s') = task_store (e_db s) \<and>
     ss_precreated x = Some r \<and> ss_skip_lock x \<and> ss_worker x \<and> e_started s' = e_started s @ [Session x] \<and>
     runs (e_db s') = tbl_update (\<lambda>q. rn_id q = next_key (runs (e_db s))) (\<lambda>q. q\<lparr>rn_workspace := dir\<rparr>)
        (snd (tbl_create set_rn_id t2 (runs (e_db s)))) \<and> active_worker t2 \<and> rn_parent t2 = Some (rn_id parent)"
proof -
  let ?row = "new_run (t_id t) agent kind_helper_worker title (Some (rn_id parent)) (Some (tree_root parent)) st_running now"
  obtain w s1 where w: "on_runs (create_run (f 0 0) ?row) s = (Inr w, s1)"
    using assms unfolding launch_worker_def Let_def and_then_Inr tree_root_def by blast
  define dir where "dir = run_workspace_dir (ox_base ox) (co_short c) (t_id base) (rn_id w)"
  obtain u s2 where d: "on_runs (update_run_workspace_path (f 1 0) (rn_id w) dir) s1 = (u, s2)" by fastforce
  obtain x where r: "u = Inr ()" "r = w\<lparr>rn_workspace := dir\<rparr>" "s' = start (Session x) s2"
      "ss_precreated x = Some r" "ss_skip_lock x" "ss_worker x"
    using assms w d unfolding launch_worker_def Let_def and_then_Inr tree_root_def [symmetric] dir_def
    by (cases u) (auto simp: worker_session_def plain_session_def)
  note d = d [unfolded r(1)]
  note new = create_run_Inr [OF w] and dir = workspace_Inr [OF d]
  show ?thesis
    using new dir r
    by (intro exI [of _ x] exI [of _ dir] exI [of _ ?row]) (simp add: new_run_def active_worker_def)
qed

lemma place_worker_Inr:
  assumes "place_worker ox f now t parent agent title prompt s = (Inr r, s')"
  shows "\<exists>f base c target. launch_worker ox f now t base c parent agent target title prompt s = (Inr r, s')"
proof -
  obtain target c where "launch_worker ox (\<lambda>k. f (k + 4)) now t (root_task_or (\<lambda>k. f (k + 1)) (t_id t) t s) c
      parent agent target title prompt s = (Inr r, s')"
    using assms unfolding place_worker_def and_then_Inr Let_def
    by (auto dest!: helper_model_Inr company_of_Inr)
  then show ?thesis by blast
qed

lemma length_filter_sort_key: "length (filter P (sort_key k xs)) = length (filter P xs)"
  by (metis mset_filter mset_sort size_mset)

lemma active_workers_count:
  "active_workers i s = length (filter (\<lambda>r. active_worker r \<and> rn_parent r = Some i) (rows (runs (e_db s))))"
  by (simp add: active_workers_def list_child_runs_def length_filter_sort_key tbl_find_def conj_commute)

lemma placed_worker_counts:
  assumes "place_worker ox f now t parent agent title prompt s = (Inr r, s')"
  shows "active_workers (rn_id parent) s' = active_workers (rn_id parent) s + 1"
proof -
  obtain t2 dir where s': "runs (e_db s') = tbl_update (\<lambda>q. rn_id q = next_key (runs (e_db s)))
        (\<lambda>q. q\<lparr>rn_workspace := dir\<rparr>) (snd (tbl_create set_rn_id t2 (runs (e_db s))))"
      and t2: "active_worker t2" "rn_parent t2 = Some (rn_id parent)"
    using place_worker_Inr [OF assms] launch_worker_Inr by blast
  have same: "active_worker (if b then q\<lparr>rn_workspace := dir\<rparr> else q) = active_worker q"
    "rn_parent (if b then q\<lparr>rn_workspace := dir\<rparr> else q) = rn_parent q" for b q
    by (simp_all add: active_worker_def)
  have new: "active_worker (t2\<lparr>rn_id := k\<rparr>)" for k using t2(1) by (simp add: active_worker_def)
  show ?thesis
    unfolding active_workers_count s' rows_tbl_update filter_map comp_def same length_map
    using t2(2) new by simp
qed

lemma new_worker_placed:
  assumes "orchestrator_run_new_worker ox f now t orch title prompt s = (Inr r, s')"
  shows "active_workers orch s < 4 \<and> (\<exists>f parent agent. rn_id parent = orch \<and> the_run orch s = Some parent \<and>
     place_worker ox f now t parent agent title prompt s = (Inr r, s'))"
proof -
  obtain agent where agent: "t_agent t = Some agent"
    using assms by (auto simp: orchestrator_run_new_worker_def split: option.splits)
  obtain p where p: "the_run orch s = Some p" "rn_id p = orch"
    using assms agent by (auto simp: orchestrator_run_new_worker_def and_then_Inr get_run_def
        dest: run_rows.get_Some_D split: if_splits option.splits)
  have few: "active_workers orch s < 4" and
    m: "and_then (read_agent_row (f 2 0) agent) (\<lambda>a. place_worker ox (\<lambda>k. f (k + 3)) now t p (ar_id a) title prompt) s =
        (Inr r, s')"
    using assms agent p by (auto simp: orchestrator_run_new_worker_def and_then_Inr get_run_def Let_def
        max_active_helper_workers_def split: if_splits)
  have "\<exists>a. read_agent_row (f 2 0) agent s = (Inr a, s) \<and>
      place_worker ox (\<lambda>k. f (k + 3)) now t p (ar_id a) title prompt s = (Inr r, s')"
    by (rule and_then_read [OF m]) (rule read_agent_row_Inr)
  with few p show ?thesis by blast
qed

lemma run_worker_placed:
  assumes "run_worker ox f now parent t prompt s = (Inr r, s')"
  shows "active_workers (rn_id parent) s < 4 \<and>
     (\<exists>f agent title. place_worker ox f now t parent agent title prompt s = (Inr r, s')) \<and>
     (\<exists>a. tbl_get ar_id (rn_agent parent) (e_agents s) = Some a \<and> row_can_use_workers a)"
proof -
  obtain a where a: "tbl_get ar_id (rn_agent parent) (e_agents s) = Some a" "row_can_use_workers a"
     "active_workers (rn_id parent) s < 4"
     "place_worker ox (\<lambda>k. f (k + 2)) now t parent (rn_agent parent) ''One-time helper job'' prompt s = (Inr r, s')"
    using assms by (auto simp: run_worker_def and_then_Inr read_agent_row_def Let_def max_active_helper_workers_def
        split: if_splits option.splits)
  then show ?thesis by blast
qed

lemma child_run_created:
  assumes "create_orchestrator_child_run fault now t orch a title s = (Inr r, s')"
  shows "rn_parent r = Some orch \<and> rn_root r = Some orch \<and> rn_status r = st_running \<and>
         rn_kind r = kind_agent_session \<and> e_started s' = e_started s \<and> r \<in> set (rows (runs (e_db s'))) \<and>
         task_store (e_db s') = task_store (e_db s)"
  using assms unfolding create_orchestrator_child_run_def by (auto dest!: create_run_Inr simp: new_run_def)

lemma child_session_fields [simp]:
  "ss_precreated (child_session t a r prompt) = Some r" "ss_skip_lock (child_session t a r prompt)"
  "ss_precreated (fork_session t q r h) = Some r" "ss_skip_lock (fork_session t q r h)"
  "ss_seed (fork_session t q r h) = h"
  by (simp_all add: child_session_def fork_session_def plain_session_def)

text \<open>The session never claims, takes or clears the lock of a task.\<close>

definition spares_lock :: "session_start \<Rightarrow> bool" where
  "spares_lock x \<longleftrightarrow> (\<forall>ox f now run v fault paused. session_claim ox f now x run v = (None, v) \<and>
     session_lock fault x run v = v \<and> session_unlock fault paused x v = v)"

lemma skip_lock_spares: "ss_skip_lock x \<Longrightarrow> spares_lock x"
  by (simp add: spares_lock_def session_claim_def session_lock_def session_unlock_def)

text \<open>
  From the state \<open>s\<close> the session \<open>x\<close> on the new row \<open>r\<close> was started, and nothing else: the row is
  stored, running, a child of the orchestrator and in its tree.
\<close>

definition joins :: "id \<Rightarrow> run \<Rightarrow> session_start \<Rightarrow> engine \<Rightarrow> engine \<Rightarrow> bool" where
  "joins orch r x s s' \<longleftrightarrow>
     r \<in> set (rows (runs (e_db s'))) \<and> rn_parent r = Some orch \<and> rn_status r = st_running \<and>
     (rn_kind r = kind_agent_session \<and> rn_root r = Some orch \<or>
      rn_kind r = kind_helper_worker \<and> ss_worker x \<and>
        (\<exists>p. the_run orch s = Some p \<and> rn_root r = Some (tree_root p))) \<and>
     ss_precreated x = Some r \<and> spares_lock x \<and> e_started s' = e_started s @ [Session x]"

lemma placed_worker_joins:
  assumes "place_worker ox f now t parent agent title prompt s = (Inr r, s')"
    and "the_run orch s = Some parent" and "rn_id parent = orch"
  shows "\<exists>x. joins orch r x s s' \<and> task_store (e_db s') = task_store (e_db s)"
proof -
  obtain f base c target where "launch_worker ox f now t base c parent agent target title prompt s = (Inr r, s')"
    using place_worker_Inr [OF assms(1)] by blast
  from launch_worker_Inr [OF this] assms(2,3) skip_lock_spares show ?thesis
    unfolding joins_def by metis
qed

lemma find_agent_frame: "find_agent_for_role fault company name s = (Inr a, s') \<Longrightarrow> s' = s"
  by (auto simp: find_agent_for_role_def Let_def split: if_splits option.splits)

lemma new_session_joins:
  assumes "start_new_session ox f now t orch name title prompt s = (Inr r, s')"
  shows "\<exists>x. joins orch r x s s' \<and> task_store (e_db s') = task_store (e_db s)"
proof (cases "equal_fold (trim_space name) ''worker''")
  case True
  then have "orchestrator_run_new_worker ox f now t orch (trim_space title) (trim_space prompt) s = (Inr r, s')"
    using assms by (auto simp: start_new_session_def Let_def split: if_splits)
  from new_worker_placed [OF this] placed_worker_joins show ?thesis by blast
next
  case False
  then obtain a s2 where c: "create_orchestrator_child_run (f 1 0) now t orch a (trim_space title) s = (Inr r, s2)"
      "s' = start_orchestrator_child_session t a r (trim_space prompt) s2"
    using assms by (auto simp: start_new_session_def Let_def and_then_Inr dest!: find_agent_frame split: if_splits)
  then show ?thesis
    using child_run_created [OF c(1)]
    by (intro exI [of _ "child_session t a r (trim_space prompt)"])
       (simp add: joins_def start_orchestrator_child_session_def skip_lock_spares)
qed

lemma fork_Inr:
  assumes "launch_fork ox f now orch t base c src history s = (Inr r, s')"
  shows "\<exists>x. joins orch r x s s' \<and> ss_seed x = history \<and> task_store (e_db s') = task_store (e_db s)"
proof -
  let ?row = "new_run (rn_task src) (rn_agent src) kind_agent_session
    (if trim_space (rn_title src) = [] then ''Forked session'' else rn_title src) (Some orch) (Some orch) st_running now"
  obtain w s1 where w: "on_runs (create_run (f 0 0) ?row) s = (Inr w, s1)"
    using assms unfolding launch_fork_def and_then_Inr by blast
  define dir where "dir = run_workspace_dir (ox_base ox) (co_short c) (t_id base) (rn_id w)"
  obtain u s2 where d: "on_runs (update_run_workspace_path (f 1 0) (rn_id w) dir) s1 = (u, s2)" by fastforce
  have r: "u = Inr ()" "r = w\<lparr>rn_workspace := dir\<rparr>" "s' = start (Session (fork_session t src r history)) s2"
    using assms w d unfolding launch_fork_def Let_def and_then_Inr dir_def
    by (cases u; auto split: if_splits)+
  then show ?thesis
    using create_run_Inr [OF w] workspace_Inr [OF d [unfolded r(1)]]
    by (intro exI [of _ "fork_session t src r history"]) (simp add: joins_def new_run_def skip_lock_spares)
qed

lemma read_launch_task_Inr:
  assumes "read_launch_task fault orch i s = (Inr t, s')"
  shows "lock_free orch t \<and> the_task (t_id t) s' = Some t \<and> s' = s"
proof -
  have "lock_free orch t \<and> the_task i s = Some t \<and> s' = s"
    using assms by (auto simp: read_launch_task_def and_then_Inr get_task_Inr lock_free_def
        split: if_splits option.splits)
  then show ?thesis using task_id by blast
qed

lemma retire_source_free:
  assumes "retire_source f polls orch i s = (Inr t, s')"
  shows "lock_free orch t \<and> the_task (t_id t) s' = Some t"
  using assms read_launch_task_Inr unfolding retire_source_def by (auto simp: and_then_Inr split: if_splits)

lemma quiesce_status:
  assumes "quiesce f polls src s = (Inr q, s')"
  shows "rn_id q = rn_id src"
  using assms run_rows.get_Some_D
  by (fastforce simp: quiesce_def and_then_Inr get_run_def split: if_splits option.splits)

lemma take_fork_lock_Inr:
  assumes "take_fork_lock f orch src s = (Inr t, s')"
  shows "the_task (rn_task src) s = Some t \<and> t_run t \<in> {None, Some (rn_id src), Some orch} \<and>
    e_started s' = e_started s \<and> runs (e_db s') = runs (e_db s) \<and>
    task_store (e_db s') = (if t_run t = Some (rn_id src)
      then (task_store (e_db s))\<lparr>tasks := tbl_update (\<lambda>u. t_id u = t_id t) (\<lambda>u. u\<lparr>t_run := None\<rparr>)
              (tasks (task_store (e_db s)))\<rparr>
      else task_store (e_db s))"
proof -
  obtain t0 where t0: "the_task (rn_task src) s = Some t0"
    and m: "(case t_run t0 of
         None \<Rightarrow> give t0
       | Some r \<Rightarrow>
           if r \<noteq> rn_id src \<and> r \<noteq> orch then refuse (Locked_By r)
           else if r = rn_id src then and_then (on_tasks (unlock_task_run (f 1 0) (t_id t0))) (\<lambda>_. give t0)
           else give t0) s = (Inr t, s')"
    using assms by (auto simp: take_fork_lock_def and_then_Inr get_task_Inr simp del: read_task_eq simp: read_task_Inr)
  show ?thesis
  proof (cases "t_run t0 = Some (rn_id src)")
    case True
    then have "on_tasks (unlock_task_run (f 1 0) (t_id t0)) s = (Inr (), s')" "t = t0"
      using m by (auto simp: and_then_Inr)
    with t0 True show ?thesis
      by (auto simp: on_tasks_def on_runs_def unlock_task_run_def split: if_splits)
  next
    case False
    then have "t = t0" "s' = s" "t_run t0 = None \<or> t_run t0 = Some orch"
      using m by (auto split: option.splits if_splits)
    with t0 False show ?thesis by auto
  qed
qed

lemma forked:
  assumes "orchestrator_fork ox f now polls orch i message s = (Inr (q, safe), s')"
  shows "\<exists>x src0 src s1 s2 t. the_run i s = Some src0 \<and> in_tree orch src0 \<and>
     quiesce (\<lambda>k. f (k + 2)) polls src0 s = (Inr src, s1) \<and> rn_id src = i \<and>
     the_task (rn_task src) s1 = Some t \<and> t_run t \<in> {None, Some i, Some orch} \<and>
     e_started s' = e_started s1 @ [Session x] \<and> joins orch q x s2 s' \<and>
     task_store (e_db s') = (if t_run t = Some i
       then (task_store (e_db s1))\<lparr>tasks := tbl_update (\<lambda>u. t_id u = t_id t) (\<lambda>u. u\<lparr>t_run := None\<rparr>)
               (tasks (task_store (e_db s1)))\<rparr>
       else task_store (e_db s1)) \<and>
     load_safe_message_history (ox_decoder ox) (ox_file ox (rn_log_file src)) message = Inr (ss_seed x, safe)"
proof -
  obtain src0 src s1 t s2 where 0: "the_run i s = Some src0" "in_tree orch src0"
    and 1: "quiesce (\<lambda>k. f (k + 2)) polls src0 s = (Inr src, s1)"
    and 2: "take_fork_lock (\<lambda>k. f (k + 5)) orch src s1 = (Inr t, s2)"
    and m: "(case load_safe_message_history (ox_decoder ox) (ox_file ox (rn_log_file src)) message of
            Inl _ \<Rightarrow> (Inl History_Unreadable, s2)
          | Inr (history, safe) \<Rightarrow>
              (let base = root_task_or (\<lambda>k. f (k + 7)) (rn_task src) t s2
               in and_then (company_of (f 9 0) (t_company base)) (\<lambda>c.
                  and_then (launch_fork ox (\<lambda>k. f (k + 10)) now orch t base c src history) (\<lambda>r.
                    give (r, safe))) s2)) = (Inr (q, safe), s')"
    using assms unfolding orchestrator_fork_def orchestrator_session_run_def
    by (auto simp: and_then_Inr get_run_def split: if_splits option.splits)
  obtain h where h: "load_safe_message_history (ox_decoder ox) (ox_file ox (rn_log_file src)) message = Inr (h, safe)"
    using m by (auto simp: Let_def and_then_Inr split: sum.splits)
  from m h obtain base c where "launch_fork ox (\<lambda>k. f (k + 10)) now orch t base c src h s2 = (Inr q, s')"
    unfolding Let_def by (auto simp: and_then_Inr dest!: company_of_Inr)
  from fork_Inr [OF this] obtain x where x: "joins orch q x s2 s'" "ss_seed x = h"
    "task_store (e_db s') = task_store (e_db s2)" by blast
  have "rn_id src0 = i" using 0(1) by (auto dest: run_rows.get_Some_D)
  then have i: "rn_id src = i" using quiesce_status [OF 1] by simp
  then show ?thesis
    using 0 1 take_fork_lock_Inr [OF 2] x h unfolding joins_def
    by (intro exI [of _ x] exI [of _ src0] exI [of _ src] exI [of _ s1] exI [of _ s2] exI [of _ t]) auto
qed

section \<open>Properties\<close>

text \<open>
  C9: the session tools of an orchestrator refuse every session that is not in its own tree,
  without any effect: stopping, messaging, asking for a status, forking, replacing.
\<close>

theorem tools_keep_to_their_tree:
  assumes "\<forall>r. the_run i s = Some r \<longrightarrow> \<not> in_tree orch r"
  shows "(\<exists>e. orchestrator_stop f orch i s = (Inl e, s)) \<and>
         (\<exists>e. orchestrator_send_message ox f now polls t orch i msg s = (Inl e, s)) \<and>
         (\<exists>e. request_worker_status ox f now t orch i s = (Inl e, s)) \<and>
         (\<exists>e. orchestrator_fork ox f now polls orch i message s = (Inl e, s)) \<and>
         (\<exists>e. orchestrator_run_new ox f now polls t orch (Some i) name title prompt s = (Inl e, s))"
proof (intro conjI)
  show "\<exists>e. orchestrator_run_new ox f now polls t orch (Some i) name title prompt s = (Inl e, s)"
  proof -
    obtain e where "retire_source f polls orch i s = (Inl e, s)"
      using orchestrator_session_run_Inl [OF assms] unfolding retire_source_def by blast
    then show ?thesis by (simp add: orchestrator_run_new_def and_then_def)
  qed
qed (use orchestrator_session_run_Inl [OF assms] in
  \<open>auto simp: orchestrator_stop_def orchestrator_send_message_def request_worker_status_def orchestrator_fork_def\<close>)

theorem tools_keep_to_their_tree_witness:
  "\<exists>e. orchestrator_fork demo_outside no_fault 9 [] 10 10 3 (tree_engine st_completed) =
         (Inl e, tree_engine st_completed)"
proof -
  have "\<forall>r. the_run 10 (tree_engine st_completed) = Some r \<longrightarrow> \<not> in_tree 10 r"
    by (auto simp: in_tree_def dest: run_rows.get_Some_D)
  from tools_keep_to_their_tree [OF this] show ?thesis by blast
qed

text \<open>
  C39: a session the orchestrator starts or forks joins its tree: the new row is stored and
  running, its parent is the orchestrator and its root the orchestrator (for a helper worker the
  root of the orchestrator's row), it is the one session started, and that never claims, takes or
  clears the lock of a task.  Starting leaves the tasks as they were, after a source to be
  replaced was stopped and the task is unlocked or locked by the orchestrator; forking clears the
  lock of the source's task if the source itself holds it, leaves the tasks otherwise, and seeds
  the new session with the safe beginning of the source's own log.
\<close>

theorem new_sessions_join_the_tree:
  "(orchestrator_run_new ox f now polls t orch source name title prompt s = (Inr r, s') \<longrightarrow>
      (\<exists>x t1 s1. (case source of None \<Rightarrow> t1 = t \<and> s1 = s
          | Some i \<Rightarrow> retire_source f polls orch i s = (Inr t1, s1) \<and> lock_free orch t1) \<and>
        joins orch r x s1 s' \<and> task_store (e_db s') = task_store (e_db s1))) \<and>
   (orchestrator_fork ox f now polls orch i message s = (Inr (q, safe), s') \<longrightarrow>
      (\<exists>x src0 src s1 t1. the_run i s = Some src0 \<and> in_tree orch src0 \<and>
         quiesce (\<lambda>k. f (k + 2)) polls src0 s = (Inr src, s1) \<and> rn_id src = i \<and>
         the_task (rn_task src) s1 = Some t1 \<and> t_run t1 \<in> {None, Some i, Some orch} \<and>
         e_started s' = e_started s1 @ [Session x] \<and>
         (\<exists>s2. joins orch q x s2 s') \<and>
         task_store (e_db s') =
           (if t_run t1 = Some i
            then (task_store (e_db s1))\<lparr>tasks := tbl_update (\<lambda>u. t_id u = t_id t1) (\<lambda>u. u\<lparr>t_run := None\<rparr>)
                    (tasks (task_store (e_db s1)))\<rparr>
            else task_store (e_db s1)) \<and>
         load_safe_message_history (ox_decoder ox) (ox_file ox (rn_log_file src)) message = Inr (ss_seed x, safe)))"
proof (intro conjI impI)
  assume a: "orchestrator_run_new ox f now polls t orch source name title prompt s = (Inr r, s')"
  then obtain t1 s1 where 1: "(case source of None \<Rightarrow> give t | Some i \<Rightarrow> retire_source f polls orch i) s = (Inr t1, s1)"
      and 2: "start_new_session ox (\<lambda>k. f (k + 6)) now t1 orch name title prompt s1 = (Inr r, s')"
    unfolding orchestrator_run_new_def and_then_Inr by blast
  from 1 have "case source of None \<Rightarrow> t1 = t \<and> s1 = s
      | Some i \<Rightarrow> retire_source f polls orch i s = (Inr t1, s1) \<and> lock_free orch t1"
    by (auto dest: retire_source_free split: option.splits)
  with new_session_joins [OF 2] show "\<exists>x t1 s1. (case source of None \<Rightarrow> t1 = t \<and> s1 = s
          | Some i \<Rightarrow> retire_source f polls orch i s = (Inr t1, s1) \<and> lock_free orch t1) \<and>
        joins orch r x s1 s' \<and> task_store (e_db s') = task_store (e_db s1)" by blast
next
  assume "orchestrator_fork ox f now polls orch i message s = (Inr (q, safe), s')"
  from forked [OF this] show "\<exists>x src0 src s1 t1. the_run i s = Some src0 \<and> in_tree orch src0 \<and>
         quiesce (\<lambda>k. f (k + 2)) polls src0 s = (Inr src, s1) \<and> rn_id src = i \<and>
         the_task (rn_task src) s1 = Some t1 \<and> t_run t1 \<in> {None, Some i, Some orch} \<and>
         e_started s' = e_started s1 @ [Session x] \<and>
         (\<exists>s2. joins orch q x s2 s') \<and>
         task_store (e_db s') =
           (if t_run t1 = Some i
            then (task_store (e_db s1))\<lparr>tasks := tbl_update (\<lambda>u. t_id u = t_id t1) (\<lambda>u. u\<lparr>t_run := None\<rparr>)
                    (tasks (task_store (e_db s1)))\<rparr>
            else task_store (e_db s1)) \<and>
         load_safe_message_history (ox_decoder ox) (ox_file ox (rn_log_file src)) message = Inr (ss_seed x, safe)"
    by metis
qed

theorem new_sessions_join_the_tree_witness:
  "\<exists>r s' x. orchestrator_run_new demo_outside no_fault 9 [] (work_task 1 status_in_progress) 10 None
       ''Ann'' ''Fix it'' ''Do it'' (tree_engine st_completed) = (Inr r, s') \<and>
     joins 10 r x (tree_engine st_completed) s'"
proof -
  let ?r = "orchestrator_run_new demo_outside no_fault 9 [] (work_task 1 status_in_progress) 10 None
       ''Ann'' ''Fix it'' ''Do it'' (tree_engine st_completed)"
  have "case fst ?r of Inl _ \<Rightarrow> False | Inr _ \<Rightarrow> True" by code_simp
  then obtain r where r: "?r = (Inr r, snd ?r)" by (cases ?r) (auto split: sum.splits)
  from new_sessions_join_the_tree [THEN conjunct1, THEN mp, OF r] r show ?thesis by auto
qed

text \<open>
  C40: the start of a helper worker keeps a session at four active ones at most: with four that
  run or wait the start of another is refused without effect, and a successful start finds fewer
  than four and adds one.  A worker is started by a session itself only for an agent that may use
  workers.  Paused workers do not count, and resuming one is not checked
  (\<open>resumed_workers_pass_the_limit\<close>).
\<close>

theorem at_most_four_helper_workers:
  "(active_workers orch s \<ge> 4 \<longrightarrow>
      (\<exists>e. orchestrator_run_new_worker ox f now t orch title prompt s = (Inl e, s)) \<and>
      (rn_id parent = orch \<longrightarrow> (\<exists>e. run_worker ox f now parent t prompt s = (Inl e, s)))) \<and>
   (orchestrator_run_new_worker ox f now t orch title prompt s = (Inr r, s') \<longrightarrow>
      active_workers orch s' = active_workers orch s + 1 \<and> active_workers orch s' \<le> 4) \<and>
   (run_worker ox f now parent t prompt s = (Inr r, s') \<longrightarrow>
      active_workers (rn_id parent) s' = active_workers (rn_id parent) s + 1 \<and>
      active_workers (rn_id parent) s' \<le> 4 \<and>
      (\<exists>a. tbl_get ar_id (rn_agent parent) (e_agents s) = Some a \<and> row_can_use_workers a))"
proof (intro conjI impI)
  assume full: "active_workers orch s \<ge> 4"
  show "\<exists>e. orchestrator_run_new_worker ox f now t orch title prompt s = (Inl e, s)"
    using full by (cases "t_agent t"; cases "get_run (f 0 0) orch (e_db s)")
      (simp_all add: orchestrator_run_new_worker_def and_then_def Let_def max_active_helper_workers_def)
  assume "rn_id parent = orch"
  then show "\<exists>e. run_worker ox f now parent t prompt s = (Inl e, s)"
    using full by (auto simp: run_worker_def and_then_def read_agent_row_def Let_def max_active_helper_workers_def
        split: option.split)
next
  assume "orchestrator_run_new_worker ox f now t orch title prompt s = (Inr r, s')"
  from new_worker_placed [OF this] placed_worker_counts
  have "active_workers orch s < 4 \<and> active_workers orch s' = active_workers orch s + 1" by metis
  then show "active_workers orch s' = active_workers orch s + 1" and "active_workers orch s' \<le> 4" by simp_all
next
  assume "run_worker ox f now parent t prompt s = (Inr r, s')"
  note w = run_worker_placed [OF this]
  then have "active_workers (rn_id parent) s < 4 \<and>
      active_workers (rn_id parent) s' = active_workers (rn_id parent) s + 1"
    using placed_worker_counts by metis
  then show "active_workers (rn_id parent) s' = active_workers (rn_id parent) s + 1"
    and "active_workers (rn_id parent) s' \<le> 4" by simp_all
  show "\<exists>a. tbl_get ar_id (rn_agent parent) (e_agents s) = Some a \<and> row_can_use_workers a"
    using w by simp
qed

text \<open>The orchestrator with \<open>n\<close> running helper workers.\<close>

definition staffed_engine :: "nat \<Rightarrow> engine" where
  "staffed_engine n = engine_on
     ((demo_run 10 st_running)\<lparr>rn_kind := kind_task_orchestrator\<rparr> #
      map (\<lambda>i. (demo_run (20 + int i) st_running)\<lparr>rn_kind := kind_helper_worker, rn_parent := Some 10,
                 rn_root := Some 10\<rparr>) [0..<n])
     [work_task 1 status_in_progress] []"

theorem at_most_four_helper_workers_witness:
  "\<exists>e. orchestrator_run_new_worker demo_outside no_fault 9 (work_task 1 status_in_progress) 10 ''t'' ''p''
         (staffed_engine 4) = (Inl e, staffed_engine 4)"
proof -
  have "active_workers 10 (staffed_engine 4) \<ge> 4" by code_simp
  with at_most_four_helper_workers [THEN conjunct1] show ?thesis by blast
qed

text \<open>A paused worker is resumed while the session has four active ones.\<close>

lemma resumed_workers_pass_the_limit:
  "\<exists>s. active_workers 10 s = 4 \<and> map_option rn_kind (the_run 30 s) = Some kind_helper_worker \<and>
     fst (resume_session demo_outside no_fault 9 30 (plain_options ResumeAfterUpdate []) s) = Inr () \<and>
     active_workers 10 (snd (resume_session demo_outside no_fault 9 30 (plain_options ResumeAfterUpdate []) s)) = 4 \<and>
     length (e_started (snd (resume_session demo_outside no_fault 9 30 (plain_options ResumeAfterUpdate []) s))) = 1"
proof (intro exI conjI)
  let ?s = "engine_on
     ((demo_run 10 st_running)\<lparr>rn_kind := kind_task_orchestrator\<rparr> #
      map (\<lambda>i. (demo_run (20 + int i) st_running)\<lparr>rn_kind := kind_helper_worker, rn_parent := Some 10,
                 rn_root := Some 10\<rparr>) [0..<4] @
      [(demo_run 30 st_paused)\<lparr>rn_kind := kind_helper_worker, rn_parent := Some 10, rn_root := Some 10,
         rn_recovery := no_recovery\<lparr>rc_sequence := 3\<rparr>\<rparr>])
     [work_task 1 status_in_progress] []"
  let ?r = "resume_session demo_outside no_fault 9 30 (plain_options ResumeAfterUpdate []) ?s"
  show "active_workers 10 ?s = 4" by code_simp
  show "map_option rn_kind (the_run 30 ?s) = Some kind_helper_worker" by code_simp
  show "fst ?r = Inr ()" by code_simp
  show "active_workers 10 (snd ?r) = 4" by code_simp
  show "length (e_started (snd ?r)) = 1" by code_simp
qed

text \<open>A request that is refused for its empty title has stopped the session it was to replace.\<close>

lemma invalid_request_stops_the_source:
  defines "s' \<equiv> orchestrator_run_new demo_outside no_fault 9
     [\<lambda>s. ignoring (log_run no_faults 9 11 [] st_canceled) s] (work_task 1 status_in_progress) 10 (Some 11)
     ''Ann'' [] ''Do it'' ((tree_engine st_running)\<lparr>e_cancels := {11}\<rparr>)"
  shows "fst s' = Inl Empty_Message \<and> e_cancelled (snd s') = {11} \<and>
         map_option (\<lambda>r. (rn_status r, rc_recovery_attempts (rn_recovery r))) (the_run 11 (snd s')) =
           Some (st_canceled, 1)"
proof -
  have "fst s' = Inl Empty_Message" unfolding s'_def by code_simp
  moreover have "e_cancelled (snd s') = {11}" unfolding s'_def by code_simp
  moreover have "map_option (\<lambda>r. (rn_status r, rc_recovery_attempts (rn_recovery r))) (the_run 11 (snd s')) =
           Some (st_canceled, 1)" unfolding s'_def by code_simp
  ultimately show ?thesis by blast
qed

end
