(* ===== verification/Session_Status.thy ===== *)
theory Session_Status
  imports Worker_Sessions
begin

text \<open>
  Status reports of sessions (\<open>db/repository/run_status_report_repository.go\<close>) and the status
  of a session with its nested workers (\<open>engine/orchestrator_status.go\<close>); the tools of a helper
  worker (\<open>engine/helper_workers.go\<close>).  Reads of the nested walk fail by the path of child
  numbers that leads to the run.
\<close>

section \<open>Reports\<close>

abbreviation set_sr_id :: "int \<Rightarrow> status_report \<Rightarrow> status_report" where
  "set_sr_id i r \<equiv> r\<lparr>sr_id := i\<rparr>"

interpretation report_rows: keyed_rows sr_id set_sr_id
  by unfold_locales simp

definition type_status_report :: string where "type_status_report = ''status_report''"
definition type_worker_finished :: string where "type_worker_finished = ''worker_finished''"

definition report_event :: "(instant \<Rightarrow> string) \<Rightarrow> instant \<Rightarrow> id \<Rightarrow> id \<Rightarrow> id \<Rightarrow> string \<Rightarrow> run_event" where
  "report_event payload now task_id i report status =
     \<lparr>ev_id = 0, ev_task = task_id, ev_run = i, ev_source = None, ev_target = None, ev_reply = None,
      ev_type = type_status_report, ev_payload = payload now,
      ev_dedupe = ''run:'' @ dec_int i @ '':status-report:'' @ dec_int report,
      ev_created = now, ev_consumed = None\<rparr>"

definition record_report_body ::
  "(instant \<Rightarrow> string) \<Rightarrow> faults \<Rightarrow> instant \<Rightarrow> id \<Rightarrow> id \<Rightarrow> string \<Rightarrow> id \<Rightarrow> unit run_op" where
  "record_report_body payload flt now event_task i status message =
     with_run (flt 0) i (\<lambda>r s.
       if flt 1 then (Inl DbFault, s)
       else case tbl_create set_sr_id
              \<lparr>sr_id = 0, sr_run = i, sr_status = status, sr_message = message, sr_reported = now\<rparr>
              (status_reports s) of (report, t) \<Rightarrow>
         (let s = s\<lparr>status_reports := t\<rparr>;
              finish = run_update (flt 3) i (\<lambda>r. r\<lparr>rn_reported := status\<rparr>)
          in if rn_parent r = None then finish s
             else (case insert_event (flt 2)
                     (report_event payload now (if event_task = 0 then rn_task r else event_task) i (sr_id report) status)
                     (run_events s) of
                     None \<Rightarrow> (Inl DbFault, s)
                   | Some (_, es) \<Rightarrow> finish (s\<lparr>run_events := es\<rparr>))))"

definition record_run_status_report ::
  "(instant \<Rightarrow> string) \<Rightarrow> faults \<Rightarrow> faults \<Rightarrow> instant \<Rightarrow> id \<Rightarrow> string \<Rightarrow> id \<Rightarrow> unit run_op" where
  "record_run_status_report payload flt walk now i status message s =
     (let event_task = (case get_run (flt 0) i s of
                          Inl _ \<Rightarrow> 0 | Inr r \<Rightarrow> root_task_id walk 0 20 (rn_task r) (task_store s))
      in transaction (flt 5) (record_report_body payload (\<lambda>k. flt (k + 1)) now event_task i status message) s)"

definition list_run_status_reports :: "id \<Rightarrow> run_db \<Rightarrow> status_report list" where
  "list_run_status_reports i s =
     sort_key sr_reported (sort_key sr_id (tbl_find (\<lambda>r. sr_run r = i) (status_reports s)))"

definition latest_run_status_report :: "id \<Rightarrow> run_db \<Rightarrow> status_report option" where
  "latest_run_status_report i s =
     (case list_run_status_reports i s of [] \<Rightarrow> None | rs \<Rightarrow> Some (last rs))"

definition get_latest_run_status_report :: "bool \<Rightarrow> id \<Rightarrow> engine \<Rightarrow> engine_error + status_report option" where
  "get_latest_run_status_report fault i s =
     (if fault then Inl Store_Failed else Inr (latest_run_status_report i (e_db s)))"

definition is_status_report_stale :: "status_report option \<Rightarrow> instant \<Rightarrow> bool" where
  "is_status_report_stale report now \<longleftrightarrow>
     (case report of None \<Rightarrow> True | Some r \<Rightarrow> now - sr_reported r > status_report_freshness)"

section \<open>Nested statuses\<close>

definition max_nested_status_depth :: nat where "max_nested_status_depth = 5"

datatype child_status = Child_Status
  (cs_id: id) (cs_name: string) (cs_title: string) (cs_agent: string)
  (cs_own: string) (cs_report: "(instant \<times> id) option") (cs_stale: bool)
  (cs_status: string) (cs_children: "child_status list") (cs_truncated: bool)

definition child_label :: "child_status \<Rightarrow> string" where
  "child_label c =
     (if cs_agent c \<noteq> [] then cs_agent c else if cs_name c \<noteq> [] then cs_name c
      else ''session '' @ dec_int (cs_id c))"

definition has_suffix :: "string \<Rightarrow> string \<Rightarrow> bool" where
  "has_suffix s t \<longleftrightarrow> has_prefix (rev s) (rev t)"

fun aggregate_session_status :: "string \<Rightarrow> child_status list \<Rightarrow> string" where
  "aggregate_session_status result [] = result"
| "aggregate_session_status result (c # cs) =
     aggregate_session_status
       ((if result = [] then [] else (if has_suffix result ''.'' then result else result @ ''.'') @ '' '') @
        child_label c @ '' status: '' @ (if cs_status c = [] then ''no status reported'' else cs_status c)) cs"

fun collect :: "('e + 'a) list \<Rightarrow> 'e + 'a list" where
  "collect [] = Inr []"
| "collect (x # xs) =
     (case x of Inl e \<Rightarrow> Inl e | Inr a \<Rightarrow> (case collect xs of Inl e \<Rightarrow> Inl e | Inr as' \<Rightarrow> Inr (a # as')))"

definition session_node ::
  "faults \<Rightarrow> instant \<Rightarrow> engine \<Rightarrow> run \<Rightarrow> engine_error + (child_status list \<times> bool) \<Rightarrow>
   engine_error + child_status" where
  "session_node flt now s r nested =
     (case get_latest_run_status_report (flt 1) (rn_id r) s of
        Inl e \<Rightarrow> Inl e
      | Inr report \<Rightarrow>
          (case nested of
             Inl e \<Rightarrow> Inl e
           | Inr (children, truncated) \<Rightarrow>
               (let own = (case report of None \<Rightarrow> [] | Some p \<Rightarrow> sr_status p);
                    agent = managed_run_agent_name s r;
                    status = (if own = [] \<and> \<not> is_terminal_run_status (rn_status r) then rn_status r else own)
                in Inr (Child_Status (rn_id r) (rn_name r) (rn_title r)
                      (if agent = [] then rn_name r else agent) own
                      (map_option (\<lambda>p. (sr_reported p, sr_message p)) report)
                      (is_status_report_stale report now)
                      (aggregate_session_status status children) children truncated))))"

primrec nested_session_statuses ::
  "nat \<Rightarrow> (nat list \<Rightarrow> faults) \<Rightarrow> instant \<Rightarrow> engine \<Rightarrow> nat list \<Rightarrow> run \<Rightarrow>
   engine_error + (child_status list \<times> bool)" where
  "nested_session_statuses 0 f now s path r =
     (if f path 0 then Inl Store_Failed else Inr ([], list_child_runs (rn_id r) (e_db s) \<noteq> []))"
| "nested_session_statuses (Suc left) f now s path r =
     (if f path 0 then Inl Store_Failed
      else map_sum id (\<lambda>cs. (cs, list_ex cs_truncated cs))
        (collect (map (\<lambda>(k, c). session_node (f (path @ [k])) now s c
                          (nested_session_statuses left f now s (path @ [k]) c))
                   (enumerate 0 (list_child_runs (rn_id r) (e_db s))))))"

record status_view =
  sv_session :: run
  sv_own :: string
  sv_report :: "(instant \<times> id) option"
  sv_children :: "child_status list"
  sv_truncated :: bool
  sv_status :: string
  sv_stale :: bool
  sv_requested :: bool

definition orchestrator_session_last_run_status ::
  "outside \<Rightarrow> (nat \<Rightarrow> faults) \<Rightarrow> (nat list \<Rightarrow> faults) \<Rightarrow> instant \<Rightarrow> task \<Rightarrow> id \<Rightarrow> id \<Rightarrow> status_view act" where
  "orchestrator_session_last_run_status ox f g now t orch i =
     and_then (orchestrator_session_run (f 0 0) orch i) (\<lambda>r s.
       case get_latest_run_status_report (f 1 0) i s of
         Inl e \<Rightarrow> (Inl e, s)
       | Inr report \<Rightarrow>
           (case nested_session_statuses max_nested_status_depth g now s [] r of
              Inl e \<Rightarrow> (Inl e, s)
            | Inr (children, truncated) \<Rightarrow>
                (let own = (case report of None \<Rightarrow> [] | Some p \<Rightarrow> sr_status p);
                     stale = is_status_report_stale report now;
                     view = (\<lambda>requested. \<lparr>sv_session = r, sv_own = own,
                        sv_report = map_option (\<lambda>p. (sr_reported p, sr_message p)) report,
                        sv_children = children, sv_truncated = truncated,
                        sv_status = aggregate_session_status own children, sv_stale = stale,
                        sv_requested = requested\<rparr>)
                 in if stale \<and> \<not> is_terminal_run_status (rn_status r)
                    then and_then (request_worker_status ox (\<lambda>k. f (k + 2)) now t orch i) (\<lambda>b. give (view b)) s
                    else (Inr (view False), s))))"

section \<open>The tools of a helper worker\<close>

definition worker_report_status ::
  "outside \<Rightarrow> (nat \<Rightarrow> faults) \<Rightarrow> instant \<Rightarrow> task \<Rightarrow> run \<Rightarrow> string \<Rightarrow> id \<Rightarrow> unit act" where
  "worker_report_status ox f now t r status message =
     and_then (on_runs (record_run_status_report (\<lambda>at'. ox_json ox [(''status'', JStr status),
         (''message_id'', JInt message), (''reported_at'', JInt at')]) (f 0) (f 1) now (rn_id r) status message))
       (\<lambda>_. case rn_parent r of
          None \<Rightarrow> give ()
        | Some p \<Rightarrow>
            and_then (on_events (enqueue_routed_event (f 2) now (t_id t) (rn_id r) p type_status_report
                (ox_json ox [(''schema_version'', JInt 1), (''worker_run_id'', JInt (rn_id r)),
                   (''status'', JStr status), (''message_id'', JInt message)])
                (''worker-status:'' @ dec_int (rn_id r) @ '':'' @ dec_int message)))
              (\<lambda>_. give ()))"

datatype work_outcome = Work_Done | Work_Blocked | Work_Failed

definition outcome_text :: "work_outcome \<Rightarrow> string" where
  "outcome_text x = (case x of Work_Done \<Rightarrow> ''done'' | Work_Blocked \<Rightarrow> ''blocked'' | Work_Failed \<Rightarrow> ''failed'')"

text \<open>What the session keeps of the call, set before anything is stored.\<close>

record finish_result =
  fr_status :: string
  fr_finish :: string
  fr_details :: string

definition worker_finish_result :: "work_outcome \<Rightarrow> string \<Rightarrow> string \<Rightarrow> finish_result" where
  "worker_finish_result x summary details =
     \<lparr>fr_status = (case x of Work_Done \<Rightarrow> status_done | _ \<Rightarrow> status_blocked),
      fr_finish = summary, fr_details = details\<rparr>"

definition worker_finish_work ::
  "outside \<Rightarrow> (nat \<Rightarrow> faults) \<Rightarrow> instant \<Rightarrow> task \<Rightarrow> run \<Rightarrow> work_outcome \<Rightarrow> string \<Rightarrow> string \<Rightarrow> engine \<Rightarrow>
   finish_result \<times> (engine_error + unit) \<times> engine" where
  "worker_finish_work ox f now t r x summary details s =
     (worker_finish_result x summary details,
      and_then (on_runs (update_run_result (f 0 0) (rn_id r) summary details)) (\<lambda>_.
       case rn_parent r of
         None \<Rightarrow> give ()
       | Some p \<Rightarrow>
           and_then (on_events (enqueue_routed_event (f 1) now (t_id t) (rn_id r) p type_worker_finished
               (ox_json ox [(''schema_version'', JInt 1), (''worker_run_id'', JInt (rn_id r)),
                  (''status'', JStr (outcome_text x)), (''summary'', JStr summary), (''details'', JStr details)])
               (''worker-finished:'' @ dec_int (rn_id r))))
             (\<lambda>_. give ())) s)"

section \<open>Lemmas: reports\<close>

abbreviation the_run' :: "id \<Rightarrow> run_db \<Rightarrow> run option" where
  "the_run' i s \<equiv> tbl_get rn_id i (runs s)"

lemma insort_key_snoc: "f a \<le> f x \<Longrightarrow> insort_key f a (ys @ [x]) = insort_key f a ys @ [x]"
  by (induction ys) auto

lemma sort_key_snoc:
  "(\<And>y. y \<in> set xs \<Longrightarrow> f y \<le> f x) \<Longrightarrow> sort_key f (xs @ [x]) = sort_key f xs @ [x]"
  by (induction xs) (simp_all add: insort_key_snoc)

lemma latest_of_last:
  assumes "rows (status_reports s) = rs @ [p]" and "sr_run p = i"
    and "\<And>q. q \<in> set rs \<Longrightarrow> sr_run q = i \<Longrightarrow> sr_id q \<le> sr_id p \<and> sr_reported q \<le> sr_reported p"
  shows "latest_run_status_report i s = Some p"
proof -
  let ?qs = "filter (\<lambda>r. sr_run r = i) rs"
  have find: "tbl_find (\<lambda>r. sr_run r = i) (status_reports s) = ?qs @ [p]"
    using assms(1,2) by (simp add: tbl_find_def)
  have "sort_key sr_id (?qs @ [p]) = sort_key sr_id ?qs @ [p]"
    by (rule sort_key_snoc) (use assms(3) in auto)
  moreover have "sort_key sr_reported (sort_key sr_id ?qs @ [p]) = sort_key sr_reported (sort_key sr_id ?qs) @ [p]"
    by (rule sort_key_snoc) (use assms(3) in auto)
  ultimately show ?thesis
    by (cases "sort_key sr_reported (sort_key sr_id ?qs)")
       (simp_all add: latest_run_status_report_def list_run_status_reports_def find)
qed

lemma record_report_rows:
  assumes "record_report_body payload flt now task_id i status message s = (Inr u, s')"
  shows "\<exists>r. tbl_get rn_id i (runs s) = Some r \<and>
     runs s' = tbl_update (\<lambda>q. rn_id q = i) (\<lambda>q. q\<lparr>rn_reported := status\<rparr>) (runs s) \<and>
     rows (status_reports s') = rows (status_reports s) @
       [\<lparr>sr_id = next_key (status_reports s), sr_run = i, sr_status = status, sr_message = message, sr_reported = now\<rparr>] \<and>
     task_store s' = task_store s \<and>
     (if rn_parent r = None then run_events s' = run_events s
      else \<exists>e. rows (run_events s') = rows (run_events s) @ [e] \<and> ev_run e = i \<and> ev_type e = type_status_report)"
  using assms
  by (auto simp: record_report_body_def with_run_def get_run_def run_update_def update_run_def Let_def
      insert_event_def tbl_create_def report_event_def split: if_splits option.splits)

section \<open>Lemmas: nested statuses\<close>

text \<open>The sessions \<open>k\<close> levels below a run.\<close>

primrec level :: "nat \<Rightarrow> engine \<Rightarrow> run \<Rightarrow> run set" where
  "level 0 s r = {r}"
| "level (Suc k) s r = (\<Union>c \<in> set (list_child_runs (rn_id r) (e_db s)). level k s c)"

fun forest_ids :: "child_status list \<Rightarrow> id set" where
  "forest_ids [] = {}"
| "forest_ids (Child_Status i n t a own rep st status children trunc # cs) =
     insert i (forest_ids children \<union> forest_ids cs)"

lemma collect_map_Inr [simp]: "collect (map Inr ys) = Inr ys"
  by (induction ys) simp_all

lemma collect_Inr: "collect xs = Inr ys \<longleftrightarrow> map Inr ys = xs"
proof
  show "collect xs = Inr ys \<Longrightarrow> map Inr ys = xs"
    by (induction xs arbitrary: ys) (auto split: sum.splits)
qed auto

lemma map_sum_right: "map_sum id g x = Inr y \<longleftrightarrow> (\<exists>a. x = Inr a \<and> y = g a)"
  by (cases x) auto

lemma forest_ids_Cons: "forest_ids (c # cs) = insert (cs_id c) (forest_ids (cs_children c) \<union> forest_ids cs)"
  by (cases c) simp

lemma forest_ids_set: "forest_ids cs = (\<Union>c \<in> set cs. insert (cs_id c) (forest_ids (cs_children c)))"
  by (induction cs) (auto simp: forest_ids_Cons simp del: forest_ids.simps(2))

lemma session_node_Inr:
  "session_node flt now s r nested = Inr c \<Longrightarrow>
   \<exists>children truncated. nested = Inr (children, truncated) \<and> cs_id c = rn_id r \<and> cs_children c = children \<and>
     cs_truncated c = truncated"
  by (auto simp: session_node_def Let_def split: sum.splits)

lemma nested_covers:
  "nested_session_statuses left f now s path r = Inr (cs, truncated) \<Longrightarrow>
   forest_ids cs = (\<Union>k \<in> {1..left}. rn_id ` level k s r) \<and> (truncated \<longleftrightarrow> level (Suc left) s r \<noteq> {})"
proof (induction left arbitrary: path r cs truncated)
  case 0
  then show ?case by (auto split: if_splits)
next
  case (Suc left)
  let ?kids = "list_child_runs (rn_id r) (e_db s)"
  let ?node = "\<lambda>(k, c). session_node (f (path @ [k])) now s c
                 (nested_session_statuses left f now s (path @ [k]) c)"
  have nodes: "map Inr cs = map ?node (enumerate 0 ?kids)" and trunc: "truncated = list_ex cs_truncated cs"
    using Suc.prems by (auto simp: collect_Inr map_sum_right split: if_splits)
  have "length (map Inr cs :: (engine_error + child_status) list) = length (map ?node (enumerate 0 ?kids))"
    by (simp only: nodes)
  then have len: "length cs = length ?kids" by (simp only: length_map length_enumerate)
  have child: "\<exists>p nested t. nested_session_statuses left f now s p (?kids ! k) = Inr (nested, t) \<and>
      cs_id (cs ! k) = rn_id (?kids ! k) \<and> cs_children (cs ! k) = nested \<and> cs_truncated (cs ! k) = t"
    if "k < length ?kids" for k
  proof -
    have "Inr (cs ! k) = ?node (enumerate 0 ?kids ! k)"
    proof -
      have "(map Inr cs) ! k = map ?node (enumerate 0 ?kids) ! k" by (simp only: nodes)
      then show ?thesis using that len by (simp only: nth_map length_enumerate)
    qed
    also have "\<dots> = session_node (f (path @ [k])) now s (?kids ! k)
        (nested_session_statuses left f now s (path @ [k]) (?kids ! k))"
      using that by (simp add: nth_enumerate_eq)
    finally show ?thesis by (blast dest: session_node_Inr [OF sym])
  qed
  have ids: "insert (cs_id (cs ! k)) (forest_ids (cs_children (cs ! k))) =
        (\<Union>n \<in> {0..left}. rn_id ` level n s (?kids ! k))"
    and more: "cs_truncated (cs ! k) \<longleftrightarrow> level (Suc left) s (?kids ! k) \<noteq> {}"
    if k: "k < length ?kids" for k
  proof -
    obtain p nested t where c: "nested_session_statuses left f now s p (?kids ! k) = Inr (nested, t)"
      "cs_id (cs ! k) = rn_id (?kids ! k)" "cs_children (cs ! k) = nested" "cs_truncated (cs ! k) = t"
      using child [OF k] by blast
    note ih = Suc.IH [OF c(1)]
    have "{0..left} = insert 0 {1..left}" by auto
    with ih c show "insert (cs_id (cs ! k)) (forest_ids (cs_children (cs ! k))) =
        (\<Union>n \<in> {0..left}. rn_id ` level n s (?kids ! k))" by simp
    from ih c show "cs_truncated (cs ! k) \<longleftrightarrow> level (Suc left) s (?kids ! k) \<noteq> {}" by simp
  qed
  have shift: "(\<Union>n \<in> {1..Suc left}. rn_id ` level n s r) =
      (\<Union>c \<in> set ?kids. \<Union>n \<in> {0..left}. rn_id ` level n s c)"
  proof -
    have "{1..Suc left} = Suc ` {0..left}" by (simp add: image_Suc_atLeastAtMost)
    then have "(\<Union>n \<in> {1..Suc left}. rn_id ` level n s r) = (\<Union>n \<in> {0..left}. rn_id ` level (Suc n) s r)"
      by (simp only: image_image)
    then show ?thesis by auto
  qed
  have nth_set: "set xs = (\<lambda>k. xs ! k) ` {..<length xs}" for xs :: "'z list"
    by (auto simp: in_set_conv_nth)
  have "forest_ids cs = (\<Union>c \<in> set cs. insert (cs_id c) (forest_ids (cs_children c)))"
    by (rule forest_ids_set)
  also have "\<dots> = (\<Union>k \<in> {..<length ?kids}. insert (cs_id (cs ! k)) (forest_ids (cs_children (cs ! k))))"
    by (simp only: nth_set [of cs] len image_image)
  also have "\<dots> = (\<Union>k \<in> {..<length ?kids}. \<Union>n \<in> {0..left}. rn_id ` level n s (?kids ! k))"
    using ids by simp
  also have "\<dots> = (\<Union>c \<in> set ?kids. \<Union>n \<in> {0..left}. rn_id ` level n s c)"
    by (simp only: nth_set [of ?kids] image_image)
  finally have "forest_ids cs = (\<Union>n \<in> {1..Suc left}. rn_id ` level n s r)"
    unfolding shift .
  moreover have "truncated \<longleftrightarrow> level (Suc (Suc left)) s r \<noteq> {}"
    unfolding trunc list_ex_iff level.simps(2) [of "Suc left"]
    using more by (auto simp: nth_set [of cs] nth_set [of ?kids] len)
  ultimately show ?case by blast
qed

section \<open>Properties\<close>

text \<open>
  C12: the status of a session shows exactly the sessions up to five levels below it, and says
  that it is cut off exactly when there is one on the sixth; this holds, and the walk ends, for
  any parents the rows name, cycles included.
\<close>

theorem status_shows_five_levels:
  assumes "orchestrator_session_last_run_status ox f g now t orch i s = (Inr v, s')"
  shows "the_run i s = Some (sv_session v) \<and> in_tree orch (sv_session v) \<and>
     forest_ids (sv_children v) = (\<Union>k \<in> {1..5}. rn_id ` level k s (sv_session v)) \<and>
     (sv_truncated v \<longleftrightarrow> level 6 s (sv_session v) \<noteq> {}) \<and>
     (sv_requested v \<longrightarrow> sv_stale v \<and> \<not> is_terminal_run_status (rn_status (sv_session v)))"
proof -
  obtain r where r: "the_run i s = Some r" "in_tree orch r"
    and k: "(case get_latest_run_status_report (f 1 0) i s of
         Inl e \<Rightarrow> (Inl e, s)
       | Inr report \<Rightarrow>
           (case nested_session_statuses max_nested_status_depth g now s [] r of
              Inl e \<Rightarrow> (Inl e, s)
            | Inr (children, truncated) \<Rightarrow>
                (let own = (case report of None \<Rightarrow> [] | Some p \<Rightarrow> sr_status p);
                     stale = is_status_report_stale report now;
                     view = (\<lambda>requested. \<lparr>sv_session = r, sv_own = own,
                        sv_report = map_option (\<lambda>p. (sr_reported p, sr_message p)) report,
                        sv_children = children, sv_truncated = truncated,
                        sv_status = aggregate_session_status own children, sv_stale = stale,
                        sv_requested = requested\<rparr>)
                 in if stale \<and> \<not> is_terminal_run_status (rn_status r)
                    then and_then (request_worker_status ox (\<lambda>k. f (k + 2)) now t orch i) (\<lambda>b. give (view b)) s
                    else (Inr (view False), s)))) = (Inr v, s')"
    using assms by (auto simp only: orchestrator_session_last_run_status_def and_then_Inr
        orchestrator_session_run_Inr)
  obtain report where report: "get_latest_run_status_report (f 1 0) i s = Inr report"
    using k by (cases "get_latest_run_status_report (f 1 0) i s") simp_all
  obtain children truncated where n:
    "nested_session_statuses max_nested_status_depth g now s [] r = Inr (children, truncated)"
    using k report by (cases "nested_session_statuses max_nested_status_depth g now s [] r") auto
  have v: "sv_session v = r" "sv_children v = children" "sv_truncated v = truncated"
        "sv_requested v \<longrightarrow> sv_stale v \<and> \<not> is_terminal_run_status (rn_status r)"
    using k unfolding report n by (auto simp: Let_def and_then_Inr split: if_splits)
  from nested_covers [OF n] r v show ?thesis
    by (simp add: max_nested_status_depth_def numeral_eq_Suc)
qed

text \<open>Two sessions below the orchestrator's own session 11.\<close>

definition nested_engine :: engine where
  "nested_engine = engine_on
     [(demo_run 10 st_running)\<lparr>rn_kind := kind_task_orchestrator\<rparr>,
      (demo_run 11 st_completed)\<lparr>rn_kind := kind_agent_session, rn_parent := Some 10, rn_root := Some 10\<rparr>,
      (demo_run 12 st_running)\<lparr>rn_kind := kind_helper_worker, rn_parent := Some 11, rn_root := Some 10\<rparr>,
      (demo_run 13 st_running)\<lparr>rn_kind := kind_helper_worker, rn_parent := Some 12, rn_root := Some 10\<rparr>]
     [work_task 1 status_in_progress] []"

theorem status_shows_five_levels_witness:
  "\<exists>v s'. orchestrator_session_last_run_status demo_outside no_fault (\<lambda>_. no_faults) 9
        (work_task 1 status_in_progress) 10 11 nested_engine = (Inr v, s') \<and>
      forest_ids (sv_children v) = {12, 13} \<and>
      forest_ids (sv_children v) = (\<Union>k \<in> {1..5}. rn_id ` level k nested_engine (sv_session v))"
proof -
  let ?r = "orchestrator_session_last_run_status demo_outside no_fault (\<lambda>_. no_faults) 9
        (work_task 1 status_in_progress) 10 11 nested_engine"
  have "case fst ?r of Inl _ \<Rightarrow> False | Inr v \<Rightarrow> map cs_id (sv_children v) = [12] \<and>
      map (\<lambda>c. map cs_id (cs_children c)) (sv_children v) = [[13]] \<and>
      map (\<lambda>c. map (\<lambda>d. cs_children d) (cs_children c)) (sv_children v) = [[[]]]" by code_simp
  then obtain v where v: "?r = (Inr v, snd ?r)" "map cs_id (sv_children v) = [12]"
      "map (\<lambda>c. map cs_id (cs_children c)) (sv_children v) = [[13]]"
      "map (\<lambda>c. map (\<lambda>d. cs_children d) (cs_children c)) (sv_children v) = [[[]]]"
    by (cases ?r) (auto split: sum.splits)
  then have "forest_ids (sv_children v) = {12, 13}"
    by (auto simp: forest_ids_Cons)
  with status_shows_five_levels [OF v(1)] v(1) show ?thesis by blast
qed

text \<open>
  a recorded status report becomes the session's latest report and its status column, and
  a session with a parent sends exactly one event for it; a report that fails leaves the
  reports, the column and the events as they were.
\<close>

theorem report_becomes_latest:
  assumes "record_run_status_report payload flt walk now i status message s = (res, s')"
    and "wf_table sr_id (status_reports s)"
    and "\<forall>p \<in> set (rows (status_reports s)). sr_reported p \<le> now"
  shows "case res of
     Inl _ \<Rightarrow> s' = s
   | Inr _ \<Rightarrow> \<exists>p r. latest_run_status_report i s' = Some p \<and> sr_status p = status \<and> sr_message p = message \<and>
       the_run' i s = Some r \<and> map_option rn_reported (the_run' i s') = Some status \<and>
       length (rows (run_events s')) = length (rows (run_events s)) + (if rn_parent r = None then 0 else 1)"
proof (cases res)
  case (Inl e)
  then show ?thesis
    using assms(1) by (auto simp: record_run_status_report_def Let_def dest: transaction_error_frame)
next
  case (Inr u)
  define task_id where "task_id = (case get_run (flt 0) i s of
      Inl _ \<Rightarrow> 0 | Inr r \<Rightarrow> root_task_id walk 0 20 (rn_task r) (task_store s))"
  have "record_report_body payload (\<lambda>k. flt (k + 1)) now task_id i status message s = (Inr u, s')"
    using assms(1) Inr unfolding record_run_status_report_def Let_def task_id_def [symmetric]
    by (simp add: transaction_success_body)
  from record_report_rows [OF this] obtain r where r: "the_run' i s = Some r"
    and runs': "runs s' = tbl_update (\<lambda>q. rn_id q = i) (\<lambda>q. q\<lparr>rn_reported := status\<rparr>) (runs s)"
    and rep: "rows (status_reports s') = rows (status_reports s) @
       [\<lparr>sr_id = next_key (status_reports s), sr_run = i, sr_status = status, sr_message = message, sr_reported = now\<rparr>]"
    and ev: "length (rows (run_events s')) = length (rows (run_events s)) + (if rn_parent r = None then 0 else 1)"
    by (auto split: if_splits)
  have "latest_run_status_report i s' = Some \<lparr>sr_id = next_key (status_reports s), sr_run = i,
      sr_status = status, sr_message = message, sr_reported = now\<rparr>"
    by (rule latest_of_last [OF rep]) (use assms(2,3) in \<open>auto simp: wf_table_def intro: less_imp_le\<close>)
  moreover have "map_option rn_reported (the_run' i s') = Some status"
  proof -
    have "tbl_get rn_id i (runs s') = map_option (\<lambda>q. if rn_id q = i then q\<lparr>rn_reported := status\<rparr> else q)
        (tbl_get rn_id i (runs s))"
      unfolding runs' by (rule run_rows.get_update) simp
    then show ?thesis using r run_rows.get_Some_D [OF r] by simp
  qed
  ultimately show ?thesis using Inr r ev by auto
qed

theorem report_becomes_latest_witness:
  "\<exists>p. latest_run_status_report 12
        (snd (record_run_status_report (\<lambda>_. ''{}'') no_faults no_faults 9 12 ''testing'' 4 (e_db nested_engine))) = Some p \<and>
      sr_status p = ''testing''"
proof -
  let ?r = "record_run_status_report (\<lambda>_. ''{}'') no_faults no_faults 9 12 ''testing'' 4 (e_db nested_engine)"
  have "fst ?r = Inr ()" by code_simp
  then have r: "?r = (Inr (), snd ?r)" by (cases ?r) simp
  have "wf_table sr_id (status_reports (e_db nested_engine)) \<and>
      (\<forall>p \<in> set (rows (status_reports (e_db nested_engine))). sr_reported p \<le> 9)"
    by (simp add: nested_engine_def engine_on_def report_rows.wf_empty)
  with report_becomes_latest [OF r] show ?thesis by auto
qed

text \<open>
  A worker whose result could not be stored counts as finished all the same, and its parent
  is told nothing.
\<close>

lemma unstored_result_counts_as_finished:
  "worker_finish_work ox (\<lambda>k n. k = 0 \<and> n = 0) now t r x summary details s =
     (worker_finish_result x summary details, Inl Store_Failed, s)"
  by (simp add: worker_finish_work_def and_then_def on_runs_def update_run_result_def run_update_def store_error_def)

end
