(* ===== verification/Sandbox.thy ===== *)
theory Sandbox
  imports Paths
begin

text \<open>
  The confinement of the agents' file and shell tools (\<open>engine/aicli/tools/sandbox.go\<close>):
  paths are resolved below a workspace, commands are checked for paths that leave it, and the
  environment of a shell is stripped of the server's secrets.  The home directory, the
  environment and the check of \<open>os.Root\<close> are arguments.
\<close>

section \<open>Paths\<close>

definition target_path :: "string \<Rightarrow> string \<Rightarrow> string \<Rightarrow> string" where
  "target_path home workspace p =
     (if is_abs p then path_clean p
      else if p = ''~'' then home
      else if has_prefix p ''~/'' then path_clean (path_join [home, drop 2 p])
      else path_clean (path_join [workspace, p]))"

definition resolve_path :: "string \<Rightarrow> string \<Rightarrow> string \<Rightarrow> string option" where
  "resolve_path home workspace p =
     (let target = target_path home workspace p; root = path_clean workspace
      in if target \<noteq> root \<and> \<not> has_prefix target (root @ ''/'') then None else Some target)"

definition in_read_only :: "string list \<Rightarrow> string \<Rightarrow> bool" where
  "in_read_only dirs target \<longleftrightarrow> list_ex (\<lambda>d. path_inside (path_clean d) target) dirs"

definition resolve_read_path :: "string \<Rightarrow> string \<Rightarrow> string list \<Rightarrow> string \<Rightarrow> string option" where
  "resolve_read_path home workspace dirs p =
     (case resolve_path home workspace p of
        Some target \<Rightarrow> Some target
      | None \<Rightarrow> if is_abs p \<and> in_read_only dirs (path_clean p) then Some (path_clean p) else None)"

section \<open>Commands\<close>

datatype command_error = Home_Reference | No_Workspace | Leaves_Workspace string | Leaves_When_Resolved string

text \<open>\<open>strings.Fields\<close>.\<close>

fun fields :: "string \<Rightarrow> string \<Rightarrow> string list" where
  "fields current [] = (if current = [] then [] else [current])"
| "fields current (c # cs) =
     (if \<not> is_space c then fields (current @ [c]) cs
      else if current = [] then fields [] cs else current # fields [] cs)"

definition is_quote :: "char \<Rightarrow> bool" where
  "is_quote c \<longleftrightarrow> (let n = of_char c :: nat in n = 34 \<or> n = 39)"

definition trim_quotes :: "string \<Rightarrow> string" where
  "trim_quotes s = rev (dropWhile is_quote (rev (dropWhile is_quote s)))"

definition looks_like_path :: "string \<Rightarrow> bool" where
  "looks_like_path token \<longleftrightarrow>
     token = ''..'' \<or> has_prefix token ''./'' \<or> has_prefix token ''../'' \<or>
     ''..'' \<in> set (split_on CHR ''/'' token)"

definition checked_token :: "string \<Rightarrow> bool" where
  "checked_token token \<longleftrightarrow>
     token \<noteq> [] \<and> (is_abs token \<or> token = ''~'' \<or> has_prefix token ''~/'' \<or> looks_like_path token)"

text \<open>\<open>leaves rel\<close>: the stat of \<open>rel\<close> below the workspace fails for leaving it.\<close>

definition check_token ::
  "string \<Rightarrow> string \<Rightarrow> string list \<Rightarrow> (string \<Rightarrow> bool) \<Rightarrow> string \<Rightarrow> command_error option" where
  "check_token home workspace dirs leaves token =
     (if \<not> checked_token token then None
      else (let target = target_path home workspace token; root = path_clean workspace
            in if \<not> path_inside root target
               then (if in_read_only dirs target then None else Some (Leaves_Workspace token))
               else if leaves (path_rel root target) then Some (Leaves_When_Resolved token)
               else None))"

fun check_tokens ::
  "string \<Rightarrow> string \<Rightarrow> string list \<Rightarrow> (string \<Rightarrow> bool) \<Rightarrow> string list \<Rightarrow> command_error option" where
  "check_tokens home workspace dirs leaves [] = None"
| "check_tokens home workspace dirs leaves (t # ts) =
     (case check_token home workspace dirs leaves (trim_quotes t) of
        Some e \<Rightarrow> Some e | None \<Rightarrow> check_tokens home workspace dirs leaves ts)"

definition validate_command_paths ::
  "bool \<Rightarrow> string \<Rightarrow> string \<Rightarrow> string list \<Rightarrow> (string \<Rightarrow> bool) \<Rightarrow> string \<Rightarrow> command_error option" where
  "validate_command_paths opens home workspace dirs leaves command =
     (if str_contains command ''$HOME'' \<or> str_contains command ''${HOME}'' then Some Home_Reference
      else if \<not> opens then Some No_Workspace
      else check_tokens home workspace dirs leaves (fields [] command))"

section \<open>The environment\<close>

definition set_delivered_secret_env_keys :: "string list \<Rightarrow> string list" where
  "set_delivered_secret_env_keys keys = map to_upper (filter (\<lambda>k. k \<noteq> []) keys)"

definition secret_prefixes :: "string list" where
  "secret_prefixes = [''HEADCOUNT1_'', ''VAULT_'', ''AWS_'', ''AZURE_'', ''GCP_'', ''GOOGLE_'', ''SMTP_'', ''SSH_'']"

definition secret_words :: "string list" where
  "secret_words = [''TOKEN'', ''SECRET'', ''PASSWORD'', ''PASSWD'', ''PASSPHRASE'', ''CREDENTIAL'', ''APIKEY'',
     ''API_KEY'', ''PRIVATE_KEY'', ''ACCESS_KEY'', ''KEY'', ''DSN'', ''URI'']"

definition is_server_secret_env :: "string list \<Rightarrow> string \<Rightarrow> bool" where
  "is_server_secret_env delivered key =
     (let up = to_upper key
      in up \<in> set delivered \<or> list_ex (has_prefix up) secret_prefixes \<or>
         up = ''DATABASE_URL'' \<or> up = ''REDIS_URL'' \<or> list_ex (str_contains up) secret_words)"

definition scrubbed_env :: "string list \<Rightarrow> string list \<Rightarrow> string list" where
  "scrubbed_env delivered env =
     filter (\<lambda>kv. case cut_at CHR ''='' kv of
                    None \<Rightarrow> False | Some (k, v) \<Rightarrow> k \<noteq> [] \<and> \<not> is_server_secret_env delivered k) env"

fun override_env_var :: "string list \<Rightarrow> string \<Rightarrow> string \<Rightarrow> string list" where
  "override_env_var [] key val = [key @ ''='' @ val]"
| "override_env_var (kv # env) key val =
     (if has_prefix kv (key @ ''='') then (key @ ''='' @ val) # env
      else kv # override_env_var env key val)"

definition sandbox_env_for_home :: "string list \<Rightarrow> string list \<Rightarrow> string \<Rightarrow> string \<Rightarrow> string list" where
  "sandbox_env_for_home delivered env home username =
     (let env = scrubbed_env delivered env;
          env = (if home \<noteq> [] then override_env_var env ''HOME'' home else env)
      in if username \<noteq> []
         then override_env_var (override_env_var env ''USER'' username) ''LOGNAME'' username else env)"

section \<open>Properties of paths\<close>

lemma join_clean: "is_abs b \<Longrightarrow> path_clean (path_join [b, q]) = path_join [b, q]"
  using clean_rooted_plain [of "rev (segs b)" "split_on CHR ''/'' q"] segs_plain [of b] split_on_parts
  by (simp add: clean_abs segs_join) (simp add: join_abs)

lemma target_normal:
  assumes "is_abs home" and "path_clean home = home" and "is_abs workspace"
  shows "is_abs (target_path home workspace p) \<and>
         path_clean (target_path home workspace p) = target_path home workspace p"
  using assms by (auto simp: target_path_def clean_idem is_abs_clean join_clean)

lemma resolve_iff:
  "resolve_path home workspace p =
     (if path_inside (path_clean workspace) (target_path home workspace p)
      then Some (target_path home workspace p) else None)"
  by (simp add: resolve_path_def path_inside_def Let_def)

lemma resolve_below:
  assumes "is_abs home" and "path_clean home = home" and "is_abs workspace" and "segs workspace \<noteq> []"
  shows "resolve_path home workspace p =
           (if below workspace (target_path home workspace p) then Some (target_path home workspace p) else None)"
  using text_test_is_below [OF assms(3,4), of "target_path home workspace p"] target_normal [OF assms(1-3), of p]
  by (simp add: resolve_iff)

lemma read_only_below:
  assumes "\<forall>d \<in> set dirs. is_abs d \<and> segs d \<noteq> []" and "is_abs p"
  shows "in_read_only dirs (path_clean p) \<longleftrightarrow> (\<exists>d \<in> set dirs. below d p)"
proof -
  have "path_inside (path_clean d) (path_clean p) \<longleftrightarrow> below d p" if "d \<in> set dirs" for d
    using text_test_is_below [of d p] that assms by blast
  then show ?thesis by (auto simp: in_read_only_def list_ex_iff)
qed

lemma below_clean: "is_abs p \<Longrightarrow> below d (path_clean p) \<longleftrightarrow> below d p"
  by (simp add: below_def segs_clean)

text \<open>
  C7: a path an agent names is accepted for writing exactly if what it stands for, with every
  dot and double dot walked, is the workspace or lies below it, and the operation gets that
  walked path: no spelling leads out and none that stays inside is refused.  For reading the
  absolute paths below a read-only directory are accepted as well, and no others.
\<close>

theorem tools_stay_in_granted_directories:
  fixes p :: string
  assumes "is_abs home" and "path_clean home = home" and "is_abs workspace" and "segs workspace \<noteq> []"
    and dirs: "\<forall>d \<in> set dirs. is_abs d \<and> segs d \<noteq> []"
  defines "target \<equiv> target_path home workspace p"
  shows "resolve_path home workspace p = (if below workspace target then Some target else None) \<and>
         resolve_read_path home workspace dirs p =
           (if below workspace target \<or> is_abs p \<and> (\<exists>d \<in> set dirs. below d p) then Some target else None) \<and>
         ''..'' \<notin> set (segs target)"
proof (intro conjI)
  show w: "resolve_path home workspace p = (if below workspace target then Some target else None)"
    unfolding target_def by (rule resolve_below [OF assms(1-4)])
  show "''..'' \<notin> set (segs target)"
    using segs_plain [of target] target_normal [OF assms(1-3), of p] by (auto simp: target_def plain_def)
  show "resolve_read_path home workspace dirs p =
      (if below workspace target \<or> is_abs p \<and> (\<exists>d \<in> set dirs. below d p) then Some target else None)"
    unfolding resolve_read_path_def w
    using read_only_below [OF dirs, of p] by (auto simp: target_def target_path_def)
qed

theorem tools_stay_in_granted_directories_witness:
  "resolve_path ''/home/a'' ''/data/ws'' ''src/../../ws2/x'' = None \<and>
   resolve_path ''/home/a'' ''/data/ws'' ''src/../../ws/x'' = Some ''/data/ws/x'' \<and>
   resolve_read_path ''/home/a'' ''/data/ws'' [''/data/art''] ''/data/art/../ws2'' = None"
proof -
  have "is_abs ''/home/a''" "path_clean ''/home/a'' = ''/home/a''" "is_abs ''/data/ws''" "segs ''/data/ws'' \<noteq> []"
    "\<forall>d \<in> set [''/data/art'']. is_abs d \<and> segs d \<noteq> []"
    by code_simp+
  note r = tools_stay_in_granted_directories [OF this]
  have "segs (target_path ''/home/a'' ''/data/ws'' ''src/../../ws2/x'') = [''data'', ''ws2'', ''x'']"
    "target_path ''/home/a'' ''/data/ws'' ''src/../../ws/x'' = ''/data/ws/x''"
    "segs (target_path ''/home/a'' ''/data/ws'' ''/data/art/../ws2'') = [''data'', ''ws2'']"
    "segs ''/data/art/../ws2'' = [''data'', ''ws2'']" "segs ''/data/art'' = [''data'', ''art'']"
    "segs ''/data/ws'' = [''data'', ''ws'']" "segs ''/data/ws/x'' = [''data'', ''ws'', ''x'']" by code_simp+
  then show ?thesis
    using r [of "''src/../../ws2/x''"] r [of "''src/../../ws/x''"] r [of "''/data/art/../ws2''"]
    by (simp add: below_def)
qed

text \<open>
  A command that passes names no path outside: each of its words that is absolute, starts at
  the home directory or walks upwards stands for a place in a directory granted to it.
\<close>

lemma accepted_command_token:
  assumes "validate_command_paths opens home workspace dirs leaves command = None"
    and "t \<in> set (fields [] command)" and "checked_token (trim_quotes t)"
  shows "path_inside (path_clean workspace) (target_path home workspace (trim_quotes t)) \<or>
         in_read_only dirs (target_path home workspace (trim_quotes t))"
proof -
  have "check_tokens home workspace dirs leaves ts = None \<Longrightarrow> t \<in> set ts \<Longrightarrow>
      check_token home workspace dirs leaves (trim_quotes t) = None" for ts
    by (induction ts) (auto split: option.splits)
  then have "check_token home workspace dirs leaves (trim_quotes t) = None"
    using assms by (auto simp: validate_command_paths_def split: if_splits)
  then show ?thesis
    using assms(3) by (auto simp: check_token_def Let_def split: if_splits)
qed

section \<open>Properties of the environment\<close>

lemma override_keeps:
  assumes "kv \<in> set (override_env_var env key val)"
  shows "kv = key @ ''='' @ val \<or> kv \<in> set env"
  using assms by (induction env) (auto split: if_splits)

lemma cut_at_parts: "cut_at c x = Some (k, v) \<Longrightarrow> x = k @ c # v"
  by (induction x arbitrary: k) (auto split: if_splits)

text \<open>
  a shell started for an agent sees no variable of the server that is a secret: nothing a
  deployment delivered as one, in whatever case it is written, and nothing with a reserved
  prefix or a telling word in its name; what it does see is unchanged, but for the home
  directory and the user.
\<close>

theorem shells_see_no_secrets:
  assumes "kv \<in> set (sandbox_env_for_home (set_delivered_secret_env_keys keys) env home user)"
  shows "kv \<in> {''HOME='' @ home, ''USER='' @ user, ''LOGNAME='' @ user} \<or>
         kv \<in> set env \<and>
           (\<exists>k v. kv = k @ CHR ''='' # v \<and> k \<noteq> [] \<and> (\<forall>x \<in> set keys. x \<noteq> [] \<longrightarrow> to_upper k \<noteq> to_upper x) \<and>
              (\<forall>p \<in> set secret_prefixes. \<not> has_prefix (to_upper k) p) \<and>
              (\<forall>w \<in> set secret_words. \<not> str_contains (to_upper k) w))"
proof -
  let ?delivered = "set_delivered_secret_env_keys keys"
  have "kv \<in> {''HOME='' @ home, ''USER='' @ user, ''LOGNAME='' @ user} \<or> kv \<in> set (scrubbed_env ?delivered env)"
    using assms by (auto simp: sandbox_env_for_home_def Let_def split: if_splits dest!: override_keeps)
  moreover have "\<exists>k v. kv = k @ CHR ''='' # v \<and> k \<noteq> [] \<and> \<not> is_server_secret_env ?delivered k \<and> kv \<in> set env"
    if "kv \<in> set (scrubbed_env ?delivered env)"
    using that by (auto simp: scrubbed_env_def split: option.splits dest!: cut_at_parts)
  ultimately show ?thesis
    by (fastforce simp: is_server_secret_env_def Let_def set_delivered_secret_env_keys_def list_ex_iff)
qed

theorem shells_see_no_secrets_witness:
  "sandbox_env_for_home (set_delivered_secret_env_keys [''Maps_Endpoint'']) [''PATH=/bin'', ''MAPS_ENDPOINT=x'', ''SSH_AUTH_SOCK=y'']
     ''/home/a'' [] = [''PATH=/bin'', ''HOME=/home/a''] \<and> \<not> str_contains ''PATH'' ''KEY''"
proof
  show e: "sandbox_env_for_home (set_delivered_secret_env_keys [''Maps_Endpoint''])
      [''PATH=/bin'', ''MAPS_ENDPOINT=x'', ''SSH_AUTH_SOCK=y''] ''/home/a'' [] = [''PATH=/bin'', ''HOME=/home/a'']"
    by code_simp
  have "''PATH=/bin'' \<in> set (sandbox_env_for_home (set_delivered_secret_env_keys [''Maps_Endpoint''])
      [''PATH=/bin'', ''MAPS_ENDPOINT=x'', ''SSH_AUTH_SOCK=y''] ''/home/a'' [])"
    unfolding e by simp
  from shells_see_no_secrets [OF this] obtain k v where "''PATH=/bin'' = k @ CHR ''='' # v"
      "\<forall>w \<in> set secret_words. \<not> str_contains (to_upper k) w" by auto
  moreover from this(1) have "k = ''PATH''" by (auto simp: append_eq_Cons_conv Cons_eq_append_conv)
  moreover have "to_upper ''PATH'' = ''PATH''" "''KEY'' \<in> set secret_words" by code_simp+
  ultimately show "\<not> str_contains ''PATH'' ''KEY''" by metis
qed

end
