(* ===== verification/Spec2Isabelle.thy ===== *)
theory Spec2Isabelle
  imports Account_Safety Tenant_Isolation Binding_Safety Refresh_Tokens Tool_Policy Secrets Event_Hub Task_Relations Run_Store Gateway_Auth
    Group_Router Deploy_Webhook Supervisor Migrations Worker_Sessions Session_Status Sandbox
begin

text \<open>
  headcount1 runs companies of AI agents: a user signs in with a passkey, keeps companies with
  projects, tasks and agents, and the engine lets agents work on the tasks through an LLM gateway.
  One Go binary holds the HTTP API, the engine, the gateway, the store and its own updater.

  Parts and their theories.  Sources are relative to \<open>src/\<close>.

  The store.  \<open>Db_Table\<close> is the contract of the tables under \<open>db/repository\<close>: rows in key order,
  transactions, conditional updates, and a fault plan that says which statement the database
  refuses.  On it stand \<open>Task_Store\<close> (\<open>task_repository.go\<close>: creation with reference key and branch,
  the run slot, status changes), \<open>Task_Relations\<close> (guards, the search for cycles, blockers, board
  summaries), \<open>Comments\<close>, \<open>Run_Events\<close> (the inbox with deduplication and routed messages),
  \<open>Run_Store\<close> (the status machine of runs, the resume lease, token columns), \<open>Refresh_Tokens\<close>
  (families of refresh tokens, access sessions), \<open>Account_Store\<close> (users, teams, invitations, reset
  links, challenges, passkeys) and \<open>Migrations\<close> (\<open>db/migrations\<close>: what a build runs forward or back).

  Accounts and the API.  \<open>Accounts\<close> has the handlers of \<open>auth.go\<close>, \<open>auth_webauthn.go\<close>, \<open>team.go\<close>
  and \<open>csrf.go\<close>; \<open>Account_Safety\<close> shows what a sign-in, a registration and a recovery may touch.
  \<open>Tenancy\<close> has the checks in front of every handler (\<open>api.go\<close>, \<open>authz_mw.go\<close>) and the handlers
  of tasks, relations, comments, sprints and runs and the reads of projects and agents, 22 routes
  in all; \<open>Tenant_Isolation\<close> shows that none of these leaves the companies of its user.  \<open>Model_Bindings\<close> has the handlers of providers, model groups, default
  models and agents (\<open>providers.go\<close>, \<open>model_groups.go\<close>, \<open>default_model_settings.go\<close>, \<open>agents.go\<close>);
  \<open>Binding_Safety\<close> shows that none of the rows they write names what another tenant owns, also as
  the gateway reads them.  \<open>Event_Hub\<close> (\<open>eventhub/hub.go\<close>) delivers events to browsers as a step
  relation over concurrent broadcasts, pumps and closings.

  Secrets.  \<open>Keyring\<close>, \<open>Secrets\<close>, \<open>Base64\<close> (\<open>pkg/secrets\<close>): keys unlocked in memory, sealed columns
  and passkey wrapping; \<open>Run_Tokens\<close> (\<open>pkg/runtokens\<close>) the bearer tokens of runs; \<open>Env_Store\<close>
  (\<open>pkg/envstore\<close>) what a deployment delivers.

  The gateway (\<open>integration\<close>).  \<open>Gateway_Auth\<close> binds a request to a run or a user, \<open>Model_Health\<close>
  judges answers and orders members, \<open>Provider_Calls\<close> sends a request, \<open>Sse_Stream\<close> relays a stream,
  \<open>Group_Router\<close> fails over between members and composes the routes.

  The engine (\<open>engine\<close>).  \<open>Engine_State\<close> is what it works on; \<open>Task_Control\<close> starts and queues work,
  \<open>Watchdog\<close> retires silent runs, \<open>Human_Gate\<close> asks a human and resumes sessions, \<open>Orchestrator_Tools\<close>,
  \<open>Worker_Sessions\<close> and \<open>Session_Status\<close> are the tools by which an orchestrator steers its sessions,
  \<open>Agent_Loop\<close> is the loop of one session and \<open>Message_History\<close> reads its conversation back.
  \<open>Tool_Registry\<close> and \<open>Tool_Policy\<close> decide which tools an agent has, \<open>Sandbox\<close> and \<open>Paths\<close> which
  files they reach, \<open>Model_Purposes\<close> which provider and model answer.

  The updater (\<open>pkg/updater\<close>).  \<open>Updater\<close> stages a release and keeps the journal, \<open>Artifact_Signature\<close>
  checks it, \<open>Supervisor\<close> runs the builds and falls back, \<open>Deploy_Webhook\<close> (\<open>deploy.go\<close>) takes a
  deployment and \<open>Env_Store\<close> its variables.

  How the code is modelled.  A handler or operation is a function of the state it reads and writes;
  what it can fail with is a value (\<open>db_op\<close>: an error or a result, and the state left behind).
  Deferred work, goroutines and broadcasts appear as a list of deeds beside the answer, or, where
  their interleaving is the point (\<open>Event_Hub\<close>, \<open>Keyring\<close>, \<open>Human_Gate\<close>), as steps of a relation or
  of a history of operations.  A fault plan is a function from the number of a statement or call to
  whether it fails, so a theorem over all plans covers every error path.  Identifiers are integers,
  read from text with the width the code parses; counters that wrap are wrapped explicitly.

  Parameters.  Code that is not under \<open>src/\<close> is an argument: AES-GCM, HKDF, SHA-256, Ed25519, the
  WebAuthn library, random bytes, the clock, encoding/json, the provider behind the gateway, git,
  Atlas and the SQL server.  Where a property relies on one, its documented behaviour is a named
  hypothesis and a witness instantiates it with a concrete function (\<open>Demo_Codec\<close>).

  Loops and fuel.  Walks over parents in the store take the bound the code has (100 steps) or a
  measure.  The numbering of subtask keys takes fuel, and \<open>compute_ref_key_total\<close> shows that fuel
  above the number of rows is enough.  The supervisor, the failover loop, the loop of an agent and
  the walk of \<open>RerunTask\<close> may run for ever: they are partial functions into an option, or steps
  over a script of what the outside world answers; \<open>Task_Control.processing_returns\<close> and
  \<open>Supervisor.supervisor_returns\<close> show when they return, and lemmas show when they do not.

  What the lemmas show.  In each theory: the table invariants and that every operation keeps them,
  the outcome of every branch, then the properties.  Across components: a paused and resumed session
  goes on where the uninterrupted one is, with its notice and a fresh budget of turns (\<open>Agent_Loop\<close>,
  \<open>Message_History\<close>); a request to the gateway stays inside the tenant but for the unchecked members
  of groups nobody owns (\<open>Group_Router\<close>), and the modelled requests to the API stay inside the
  companies of their user (\<open>Tenant_Isolation\<close>); work starts
  only when every guard allows it (\<open>Task_Control\<close>) and dependencies never lock each other
  (\<open>Task_Relations\<close>); the database file of a failed update is rolled back, its write-ahead log is
  not (\<open>Supervisor\<close>); secrets that work once are
  used once (\<open>Account_Store\<close>, \<open>Refresh_Tokens\<close>).

  Interfaces.  \<open>keyed_rows\<close> and \<open>one_shot\<close> (\<open>Db_Table\<close>) are interpreted for the rows of each
  repository; the other locales state the contract one component relies on and are interpreted in
  the theory that provides it.

  Not modelled, and why.  \<open>pkg/backup\<close>, \<open>pkg/git\<close>, \<open>pkg/githubapp\<close>, \<open>pkg/setup\<close>, \<open>pkg/mailer\<close>,
  \<open>engine/mcp\<close>, \<open>pkg/llmdiscovery\<close> and the browser, code search and web tools drive external
  programs and services, and what they compute is mostly text handed to these.  \<open>main.go\<close> wires the
  parts together.  Of the handlers, those that write projects and companies and those of
  skills, attachments, artifacts, logs, MCP servers, backups and GitHub are left out: they update rows and files behind the checks of \<open>Tenancy\<close>.  The texts of
  prompts, answers and logs are left out wherever nothing depends on them.  Concurrent transactions
  of the database are taken one after the other.
\<close>

end
